(* ===== verification/Prelude.thy ===== *)
theory Prelude
  imports Main "HOL-Library.Word"
begin

text \<open>
  Shared vocabulary of the development: the machine types of the code, the convention
  for assertions, the collections of rewrite rules the component theories fill, and the
  generic lemmas on words, bits and lists that several components use.

  Conventions.
  \<^item> \<open>uint\<close>, \<open>ulong\<close>, \<open>ulonglong\<close> and \<open>longlong\<close> of the headers are words of 32, 32, 64 and 64
    bits (\<open>SIZEOF_LONG\<close> is 4 in \<open>my_config.h\<close>); a signed value is read with \<open>sint\<close>, an unsigned one with \<open>uint\<close> or \<open>unat\<close>.
  \<^item> A function whose body starts with \<open>DBUG_ASSERT (c)\<close>, or whose C behaviour is undefined
    for some input (a shift by the width, an index out of range), returns an option;
    \<open>None\<close> is the failed assertion or the undefined behaviour.
\<close>

type_synonym u8 = "8 word"
type_synonym u16 = "16 word"
type_synonym u32 = "32 word"
type_synonym u64 = "64 word"

unbundle bit_operations_syntax

named_theorems cint_simps \<open>unfolding the integer classes of sql_type_int.h\<close>
named_theorems heap_simps \<open>reading and writing the pointer fields of the list models\<close>
named_theorems page_simps \<open>unfolding the pages of the inventory application\<close>

subsection \<open>Assertions\<close>

text \<open>\<open>guard c x\<close> is \<open>x\<close> where the asserted condition holds.\<close>

definition guard :: "bool \<Rightarrow> 'a \<Rightarrow> 'a option" where
  "guard c x = (if c then Some x else None)"

lemma guard_simps [simp]:
  "guard True x = Some x"
  "guard False x = None"
  by (simp_all add: guard_def)

lemma guard_eq_Some [simp]: "guard c x = Some y \<longleftrightarrow> c \<and> x = y"
  by (simp add: guard_def)

lemma guard_eq_None [simp]: "guard c x = None \<longleftrightarrow> \<not> c"
  by (simp add: guard_def)

subsection \<open>Words and bits\<close>

lemma word_bit_bound: "bit (w :: 'a::len word) n \<Longrightarrow> n < LENGTH('a)"
  by (rule bit_imp_le_length)

lemma unat_bound: "unat (w :: 'a::len word) < 2 ^ LENGTH('a)"
  by (rule unsigned_less)

lemma unat_power2: "n < LENGTH('a) \<Longrightarrow> unat (2 ^ n :: 'a::len word) = 2 ^ n"
  using unat_of_nat [of "2 ^ n", where 'a = 'a] by (simp add: take_bit_nat_eq_self)

lemma bit_one_shift: "bit (push_bit n (1 :: 'a::len word)) m \<longleftrightarrow> m = n \<and> n < LENGTH('a)"
  by (auto simp: bit_simps)

lemma bit_exp_word: "bit (2 ^ n :: 'a::len word) m \<longleftrightarrow> m = n \<and> n < LENGTH('a)"
  using bit_one_shift [of n m, where 'a = 'a] by simp

lemmas bit_shift_one = bit_one_shift bit_exp_word

lemma word_zero_iff_no_bit: "(w :: 'a::len word) = 0 \<longleftrightarrow> (\<forall>n. \<not> bit w n)"
  by (metis bit_0_eq bit_eqI bot_apply bot_bool_def)

lemma word_max_bits: "bit (- 1 :: 'a::len word) n \<longleftrightarrow> n < LENGTH('a)"
  by (simp add: bit_simps)

lemma unat_drop_bit_div: "unat (drop_bit n w) = unat w div 2 ^ n" for w :: "'a::len word"
  unfolding unat_drop_bit_eq by (rule drop_bit_eq_div)

lemma unat_widen:
  "LENGTH('b) \<le> LENGTH('a) \<Longrightarrow> unat (ucast (w :: 'b::len word) :: 'a::len word) = unat w"
  by (simp add: unsigned_ucast_eq take_bit_nat_eq_self unat_bound less_le_trans [OF unat_bound])

lemma narrow_widen [simp]:
  "LENGTH('b) \<le> LENGTH('a) \<Longrightarrow> ucast (ucast (w :: 'b::len word) :: 'a::len word) = w"
  by (rule bit_word_eqI) (auto simp: bit_simps)

text \<open>Signed reading, and the sum of words without common bits.\<close>

lemma sint_by_range:
  fixes w :: "'a::len word"
  shows "sint w = (if uint w < 2 ^ (LENGTH('a) - 1) then uint w else uint w - 2 ^ LENGTH('a))"
proof -
  have two: "(2::int) ^ LENGTH('a) = 2 * 2 ^ (LENGTH('a) - 1)"
    by (metis One_nat_def Suc_pred len_gt_0 power_Suc)
  have b: "0 \<le> uint w" "uint w < 2 ^ LENGTH('a)" by simp_all
  have s: "sint w = (uint w + 2 ^ (LENGTH('a) - 1)) mod 2 ^ LENGTH('a) - 2 ^ (LENGTH('a) - 1)"
    using int_word_sint [of "uint w", where 'a = 'a] by simp
  show ?thesis
  proof (cases "uint w < 2 ^ (LENGTH('a) - 1)")
    case True
    then have "(uint w + 2 ^ (LENGTH('a) - 1)) mod 2 ^ LENGTH('a) = uint w + 2 ^ (LENGTH('a) - 1)"
      using b two by (intro mod_pos_pos_trivial) simp_all
    with True s show ?thesis by simp
  next
    case False
    have "(uint w + 2 ^ (LENGTH('a) - 1)) mod 2 ^ LENGTH('a) = (uint w + 2 ^ (LENGTH('a) - 1) - 2 ^ LENGTH('a)) mod 2 ^ LENGTH('a)"
      by (rule minus_mod_self2 [symmetric])
    also have "\<dots> = uint w + 2 ^ (LENGTH('a) - 1) - 2 ^ LENGTH('a)" using False b two by (intro mod_pos_pos_trivial) simp_all
    finally show ?thesis using False s two by simp
  qed
qed

lemma or_disjoint_uint:
  fixes a b :: "'a::len word"
  assumes "\<And>n. \<not> bit a n \<or> \<not> bit b n"
  shows "uint (a OR b) = uint a + uint b"
proof -
  have "uint a + uint b = uint a OR uint b"
    by (rule disjunctive_add) (use assms in \<open>auto simp: bit_unsigned_iff\<close>)
  then show ?thesis by (simp add: unsigned_or_eq)
qed

text \<open>The number of bits set in a word.\<close>

definition popcount :: "'a::len word \<Rightarrow> nat" where
  "popcount w = (\<Sum>i < LENGTH('a). of_bool (bit w i))"

lemma popcount_card: "popcount w = card {i. bit w i}"
proof -
  have "{i. bit w i} = {i \<in> {..<LENGTH('a)}. bit w i}"
    by (auto dest: word_bit_bound)
  then show ?thesis
    by (simp add: popcount_def sum.If_cases Int_def of_bool_def)
qed

text \<open>A power of two between the value and twice the value.\<close>

lemma power_between_unique:
  fixes m n v :: nat
  assumes "2 ^ m \<le> v" "v < 2 ^ Suc m" "2 ^ n \<le> v" "v < 2 ^ Suc n"
  shows "m = n"
proof (rule antisym)
  have "(2::nat) ^ m < 2 ^ Suc n" using assms(1,4) by (rule le_less_trans)
  then show "m \<le> n" by (simp add: power_strict_increasing_iff del: power_Suc)
  have "(2::nat) ^ n < 2 ^ Suc m" using assms(3,2) by (rule le_less_trans)
  then show "n \<le> m" by (simp add: power_strict_increasing_iff del: power_Suc)
qed

lemma sum_lessThan_add:
  "(\<Sum>i < m + n. f i) = (\<Sum>i < m. f i) + (\<Sum>i < n. f (m + i))" for f :: "nat \<Rightarrow> 'a::comm_monoid_add"
  by (induction n) (simp_all add: ac_simps)

subsection \<open>Lists\<close>

lemma list_eq_nthI:
  "length xs = length ys \<Longrightarrow> (\<And>i. i < length xs \<Longrightarrow> xs ! i = ys ! i) \<Longrightarrow> xs = ys"
  by (simp add: list_eq_iff_nth_eq)

lemma all_below_list: "list_all P [0..<n] \<Longrightarrow> i < n \<Longrightarrow> P i"
  by (simp add: list_all_iff)

lemma list_all_update:
  "list_all P xs \<Longrightarrow> P x \<Longrightarrow> list_all P (xs[i := x])"
  by (induction xs arbitrary: i) (auto split: nat.splits)

end
