(* ===== verification/Bits.thy ===== *)
theory Bits
  imports Prelude
begin

text \<open>
  The bit functions of \<open>my_bit.h\<close>: the binary logarithm by halving, the parallel
  population count, the rounding to a power of two, and the search for the first bit.
  The lemmas give each the mathematical function it computes, wrap-around included.
\<close>

subsection \<open>Binary logarithm\<close>

definition my_bit_log2_hex_digit :: "u8 \<Rightarrow> u32" where
  "my_bit_log2_hex_digit value =
     (if value AND 0x0C \<noteq> 0 then (if value AND 0x08 \<noteq> 0 then 3 else 2)
      else (if value AND 0x02 \<noteq> 0 then 1 else 0))"

definition my_bit_log2_uint8 :: "u8 \<Rightarrow> u32" where
  "my_bit_log2_uint8 value =
     (if value AND 0xF0 \<noteq> 0 then my_bit_log2_hex_digit (drop_bit 4 value) + 4
      else my_bit_log2_hex_digit value)"

definition my_bit_log2_uint16 :: "u16 \<Rightarrow> u32" where
  "my_bit_log2_uint16 value =
     (if value AND 0xFF00 \<noteq> 0 then my_bit_log2_uint8 (ucast (drop_bit 8 value)) + 8
      else my_bit_log2_uint8 (ucast value))"

definition my_bit_log2_uint32 :: "u32 \<Rightarrow> u32" where
  "my_bit_log2_uint32 value =
     (if value AND 0xFFFF0000 \<noteq> 0 then my_bit_log2_uint16 (ucast (drop_bit 16 value)) + 16
      else my_bit_log2_uint16 (ucast value))"

definition my_bit_log2_uint64 :: "u64 \<Rightarrow> u32" where
  "my_bit_log2_uint64 value =
     (if value AND 0xFFFFFFFF00000000 \<noteq> 0
      then my_bit_log2_uint32 (ucast (drop_bit 32 value)) + 32
      else my_bit_log2_uint32 (ucast value))"

definition my_bit_log2_size_t :: "u64 \<Rightarrow> u32" where
  "my_bit_log2_size_t value = my_bit_log2_uint64 value"

text \<open>\<open>is_log2 v k\<close>: bit \<open>k\<close> is the highest bit of \<open>v\<close>, with 0 for \<open>v = 0\<close>.\<close>

definition is_log2 :: "nat \<Rightarrow> nat \<Rightarrow> bool" where
  "is_log2 v k \<longleftrightarrow> (if v = 0 then k = 0 else 2 ^ k \<le> v \<and> v < 2 ^ Suc k)"

lemma is_log2_shift:
  assumes "is_log2 (v div 2 ^ n) k" "v div 2 ^ n \<noteq> 0"
  shows "is_log2 v (k + n)"
proof -
  have lo: "2 ^ k \<le> v div 2 ^ n" and hi: "v div 2 ^ n < 2 ^ Suc k"
    using assms by (auto simp: is_log2_def)
  have "2 ^ k * 2 ^ n \<le> v" using lo by (simp add: less_eq_div_iff_mult_less_eq)
  moreover have "v < 2 ^ Suc k * 2 ^ n" using hi by (simp add: div_less_iff_less_mult)
  moreover have "v \<noteq> 0" using assms(2) by (metis div_0)
  ultimately show ?thesis by (simp add: is_log2_def power_add)
qed


lemma is_log2_low: "v < 2 ^ n \<Longrightarrow> is_log2 (v mod 2 ^ n) k \<Longrightarrow> is_log2 v k"
  by simp

lemma drop_bit_nonzero: "drop_bit n w \<noteq> 0 \<longleftrightarrow> unat w div 2 ^ n \<noteq> 0" for w :: "'a::len word"
  by (metis unat_0 unat_drop_bit_div unat_eq_zero)

text \<open>The masks of the code, as complements of low masks.\<close>

lemma high_masks:
  "(0xF0 :: u8) = NOT (mask 4)"
  "(0xFF00 :: u16) = NOT (mask 8)"
  "(0xFFFF0000 :: u32) = NOT (mask 16)"
  "(0xFFFFFFFF00000000 :: u64) = NOT (mask 32)"
  by (simp_all add: mask_eq_decr_exp)

lemma high_mask_nonzero:
  "w AND NOT (mask n) \<noteq> 0 \<longleftrightarrow> unat w div 2 ^ n \<noteq> 0" for w :: "'a::len word"
proof -
  have "w AND NOT (mask n) = push_bit n (drop_bit n w)"
    by (rule bit_eqI) (auto simp: bit_simps dest: word_bit_bound)
  moreover have "push_bit n (drop_bit n w) = 0 \<longleftrightarrow> drop_bit n w = 0"
    by (metis add_cancel_left_left bits_ident take_bit_eq_self_iff_drop_bit_eq_0)
  ultimately show ?thesis by (simp add: drop_bit_nonzero)
qed

lemma my_bit_log2_hex_digit_is_log2:
  assumes "unat v < 16"
  shows "is_log2 (unat v) (unat (my_bit_log2_hex_digit v))"
proof -
  have "\<forall>n \<in> set [0..<16]. is_log2 (unat (word_of_nat n :: u8)) (unat (my_bit_log2_hex_digit (word_of_nat n)))"
    by (simp add: upt_rec my_bit_log2_hex_digit_def is_log2_def)
  with assms have "is_log2 (unat (word_of_nat (unat v) :: u8)) (unat (my_bit_log2_hex_digit (word_of_nat (unat v))))"
    by (metis atLeastLessThan_iff set_upt zero_le)
  then show ?thesis by simp
qed

text \<open>Each width halves: a nonzero high half shifts the answer, a zero one keeps it.\<close>

lemma is_log2_halve:
  assumes hi: "unat w div 2 ^ n \<noteq> 0 \<Longrightarrow> is_log2 (unat w div 2 ^ n) (unat a)"
    and lo: "unat w div 2 ^ n = 0 \<Longrightarrow> is_log2 (unat w) (unat b)"
    and a: "unat a + n < 2 ^ 32" and n: "n < 2 ^ 32"
    and c: "c \<longleftrightarrow> unat w div 2 ^ n \<noteq> 0"
  shows "is_log2 (unat (w :: 'a::len word)) (unat (if c then a + word_of_nat n else b :: u32))"
proof (cases "unat w div 2 ^ n = 0")
  case True
  then show ?thesis using lo c by simp
next
  case False
  have "unat (word_of_nat n :: u32) = n"
    using n by (simp add: unat_of_nat take_bit_nat_eq_self_iff)
  then have "unat (a + word_of_nat n) = unat a + n"
    using a by (simp add: unat_plus_if')
  with False hi c show ?thesis by (simp add: is_log2_shift)
qed

lemma my_bit_log2_hex_digit_le: "unat (my_bit_log2_hex_digit v) \<le> 3"
  by (simp add: my_bit_log2_hex_digit_def)

lemma my_bit_log2_uint8_is_log2: "is_log2 (unat v) (unat (my_bit_log2_uint8 v))"
proof -
  have m: "(v AND 0xF0 \<noteq> 0) \<longleftrightarrow> unat v div 2 ^ 4 \<noteq> 0"
    unfolding high_masks by (rule high_mask_nonzero)
  have d: "unat (drop_bit 4 v) = unat v div 2 ^ 4"
    by (simp add: unat_drop_bit_div)
  have "unat v < 256" using unat_bound [of v] by simp
  then have s: "unat (drop_bit 4 v) < 16" unfolding d by simp
  have "is_log2 (unat v) (unat (if v AND 0xF0 \<noteq> 0 then my_bit_log2_hex_digit (drop_bit 4 v) + word_of_nat 4
      else my_bit_log2_hex_digit v))"
  proof (rule is_log2_halve [OF _ _ _ _ m])
    show "is_log2 (unat v div 2 ^ 4) (unat (my_bit_log2_hex_digit (drop_bit 4 v)))"
      using my_bit_log2_hex_digit_is_log2 [OF s] by (simp only: d)
    show "is_log2 (unat v) (unat (my_bit_log2_hex_digit v))" if "unat v div 2 ^ 4 = 0"
      by (rule my_bit_log2_hex_digit_is_log2) (use that in simp)
    show "unat (my_bit_log2_hex_digit (drop_bit 4 v)) + 4 < 2 ^ 32"
      using my_bit_log2_hex_digit_le [of "drop_bit 4 v"] by simp
  qed simp
  then show ?thesis unfolding my_bit_log2_uint8_def of_nat_numeral .
qed

text \<open>The three wider functions are one step from the next narrower one.\<close>

lemma is_log2_step:
  fixes w :: "'a::len word" and f :: "'b::len word \<Rightarrow> u32"
  assumes f: "\<And>v. is_log2 (unat v) (unat (f v))"
    and len: "LENGTH('a) = 2 * n" "LENGTH('b) = n" "n \<le> 32"
    and c: "c \<longleftrightarrow> unat w div 2 ^ n \<noteq> 0"
  shows "is_log2 (unat w) (unat (if c then f (ucast (drop_bit n w)) + word_of_nat n else f (ucast w)))"
proof -
  have lt: "unat w < 2 ^ (n + n)" using unat_bound [of w] len by (simp add: mult_2)
  then have hb: "unat w div 2 ^ n < 2 ^ n"
    by (simp add: div_less_iff_less_mult power_add)
  have hi: "unat (ucast (drop_bit n w) :: 'b word) = unat w div 2 ^ n"
    using hb len by (simp add: unsigned_ucast_eq unat_drop_bit_div take_bit_nat_eq_self)
  have lo: "unat (ucast w :: 'b word) = unat w" if "unat w div 2 ^ n = 0"
    using that len by (simp add: unsigned_ucast_eq take_bit_nat_eq_self div_eq_0_iff)
  have "is_log2 (unat v) (unat (f v)) \<Longrightarrow> unat (f v) < n" for v :: "'b word"
  proof -
    assume *: "is_log2 (unat v) (unat (f v))"
    have "unat v < 2 ^ n" using unat_bound [of v] len by simp
    show "unat (f v) < n"
    proof (cases "unat v = 0")
      case True
      then show ?thesis using * len by (auto simp: is_log2_def)
    next
      case False
      then have "2 ^ unat (f v) \<le> unat v" using * by (simp add: is_log2_def)
      then have "(2::nat) ^ unat (f v) < 2 ^ n" using \<open>unat v < 2 ^ n\<close> by (rule le_less_trans)
      then show ?thesis by simp
    qed
  qed
  then have small: "unat (f v) < n" for v using f by blast
  show ?thesis
  proof (rule is_log2_halve [OF _ _ _ _ c])
    show "is_log2 (unat w div 2 ^ n) (unat (f (ucast (drop_bit n w))))"
      using f [of "ucast (drop_bit n w)"] by (simp only: hi)
    show "is_log2 (unat w) (unat (f (ucast w)))" if "unat w div 2 ^ n = 0"
      using f [of "ucast w"] by (simp only: lo [OF that])
    show "unat (f (ucast (drop_bit n w))) + n < 2 ^ 32"
      using small [of "ucast (drop_bit n w)"] len(3) by simp
    show "n < 2 ^ 32" using len(3) by simp
  qed
qed

lemma my_bit_log2_uint16_is_log2: "is_log2 (unat v) (unat (my_bit_log2_uint16 v))"
proof -
  have "(v AND 0xFF00 \<noteq> 0) \<longleftrightarrow> unat v div 2 ^ 8 \<noteq> 0"
    unfolding high_masks by (rule high_mask_nonzero)
  from is_log2_step [OF my_bit_log2_uint8_is_log2 _ _ _ this] show ?thesis
    unfolding my_bit_log2_uint16_def of_nat_numeral by simp
qed

lemma my_bit_log2_uint32_is_log2: "is_log2 (unat v) (unat (my_bit_log2_uint32 v))"
proof -
  have "(v AND 0xFFFF0000 \<noteq> 0) \<longleftrightarrow> unat v div 2 ^ 16 \<noteq> 0"
    unfolding high_masks by (rule high_mask_nonzero)
  from is_log2_step [OF my_bit_log2_uint16_is_log2 _ _ _ this] show ?thesis
    unfolding my_bit_log2_uint32_def of_nat_numeral by simp
qed

lemma my_bit_log2_uint64_is_log2: "is_log2 (unat v) (unat (my_bit_log2_uint64 v))"
proof -
  have "(v AND 0xFFFFFFFF00000000 \<noteq> 0) \<longleftrightarrow> unat v div 2 ^ 32 \<noteq> 0"
    unfolding high_masks by (rule high_mask_nonzero)
  from is_log2_step [OF my_bit_log2_uint32_is_log2 _ _ _ this] show ?thesis
    unfolding my_bit_log2_uint64_def of_nat_numeral by simp
qed

lemma my_bit_log2_size_t_is_log2: "is_log2 (unat v) (unat (my_bit_log2_size_t v))"
  by (simp add: my_bit_log2_size_t_def my_bit_log2_uint64_is_log2)

subsection \<open>Counting bits\<close>

definition my_count_bits_uint32 :: "u32 \<Rightarrow> u32" where
  "my_count_bits_uint32 v =
     (let v = v - (drop_bit 1 v AND 0x55555555);
          v = (v AND 0x33333333) + (drop_bit 2 v AND 0x33333333)
      in drop_bit 24 (((v + drop_bit 4 v) AND 0xF0F0F0F) * 0x1010101))"

definition my_count_bits :: "u64 \<Rightarrow> u32" where
  "my_count_bits x = my_count_bits_uint32 (ucast x) + my_count_bits_uint32 (ucast (drop_bit 32 x))"

text \<open>
  The parallel count works on the eight hexadecimal digits of the word. Each of its first
  two steps maps every digit on its own (the masks drop what a shift brings in from the
  digit above), and turns the digit into its number of bits; the last step adds
  neighbouring digits and the multiplication sums the four bytes.
\<close>

fun of_digits :: "nat list \<Rightarrow> nat" where
  "of_digits [] = 0"
| "of_digits (d # ds) = d + 16 * of_digits ds"

lemma and_digit:
  fixes a m x k :: nat
  assumes "a < 16" "m < 16"
  shows "(a + 16 * x) AND (m + 16 * k) = (a AND m) + 16 * (x AND k)"
proof -
  let ?v = "(a + 16 * x) AND (m + 16 * k)"
  have "take_bit 4 ?v = a AND m"
    unfolding take_bit_and using assms by (simp add: take_bit_eq_mod)
  moreover have "drop_bit 4 ?v = x AND k"
    unfolding drop_bit_and using assms by (simp add: drop_bit_eq_div)
  moreover have "?v = take_bit 4 ?v + push_bit 4 (drop_bit 4 ?v)"
    by (subst bits_ident [of 4 ?v, symmetric]) (rule add.commute)
  ultimately show ?thesis by (simp add: push_bit_eq_mult)
qed

text \<open>Facts about one digit, checked for all sixteen.\<close>

lemma digit_masks:
  fixes d r :: nat
  assumes "d < 16"
  shows "r < 2 \<Longrightarrow> (d div 2 + 8 * r) AND 5 = d div 2 AND 5"
    and "r < 4 \<Longrightarrow> (d div 4 + 4 * r) AND 3 = d div 4 AND 3"
proof -
  have "list_all (\<lambda>d. list_all (\<lambda>r. (d div 2 + 8 * r) AND 5 = d div 2 AND (5::nat)) [0..<2]) [0..<16]"
    by code_simp
  then show "r < 2 \<Longrightarrow> (d div 2 + 8 * r) AND 5 = d div 2 AND 5"
    using assms by (blast dest: all_below_list)
  have "list_all (\<lambda>d. list_all (\<lambda>r. (d div 4 + 4 * r) AND 3 = d div 4 AND (3::nat)) [0..<4]) [0..<16]"
    by code_simp
  then show "r < 4 \<Longrightarrow> (d div 4 + 4 * r) AND 3 = d div 4 AND 3"
    using assms by (blast dest: all_below_list)
qed

lemma shift1_digit:
  "(d + 16 * x) div 2 AND (5 + 16 * k) = (d div 2 AND 5) + 16 * (x div 2 AND k)" if "d < 16" for d :: nat
proof -
  let ?e = "d div 2 + 8 * (x mod 2)"
  have "(d + 16 * x) div 2 = d div 2 + 8 * x" by simp
  then have e: "(d + 16 * x) div 2 = ?e + 16 * (x div 2)"
    using mult_div_mod_eq [of 2 x] by linarith
  have less: "?e < 16" using that by arith
  have "?e AND 5 = d div 2 AND 5" using that by (simp add: digit_masks)
  with and_digit [OF less, of 5 "x div 2" k] show ?thesis unfolding e by simp
qed

lemma shift2_digit:
  "(d + 16 * x) div 4 AND (3 + 16 * k) = (d div 4 AND 3) + 16 * (x div 4 AND k)" if "d < 16" for d :: nat
proof -
  let ?e = "d div 4 + 4 * (x mod 4)"
  have "(d + 16 * x) div 4 = d div 4 + 4 * x" by simp
  then have e: "(d + 16 * x) div 4 = ?e + 16 * (x div 4)"
    using mult_div_mod_eq [of 4 x] by linarith
  have less: "?e < 16" using that by arith
  have "?e AND 3 = d div 4 AND 3" using that by (simp add: digit_masks)
  with and_digit [OF less, of 3 "x div 4" k] show ?thesis unfolding e by simp
qed

text \<open>The number of bits of a digit, as the first two steps leave it.\<close>

definition digit_step1 :: "nat \<Rightarrow> nat" where
  "digit_step1 d = d - (d div 2 AND 5)"

definition digit_bits :: "nat \<Rightarrow> nat" where
  "digit_bits d = (digit_step1 d AND 3) + (digit_step1 d div 4 AND 3)"

lemma digit_facts:
  assumes "d < 16"
  shows "d div 2 AND 5 \<le> d" "digit_step1 d < 16" "digit_bits d \<le> 4"
    "(\<Sum>i<4. of_bool (bit d i)) = digit_bits d"
proof -
  have "list_all (\<lambda>d. d div 2 AND 5 \<le> d \<and> digit_step1 d < 16 \<and> digit_bits d \<le> 4 \<and>
      sum_list (map (\<lambda>i. of_bool (bit d i)) [0..<4]) = digit_bits d) [0..<16]"
    by code_simp
  from all_below_list [OF this assms]
  show "d div 2 AND 5 \<le> d" "digit_step1 d < 16" "digit_bits d \<le> 4"
    "(\<Sum>i<4. of_bool (bit d i)) = digit_bits d"
    by (simp_all add: interv_sum_list_conv_sum_set_nat atLeast0LessThan)
qed

lemma exists_digits:
  "n < 16 ^ k \<Longrightarrow> \<exists>ds. length ds = k \<and> (\<forall>d \<in> set ds. d < 16) \<and> n = of_digits ds"
proof (induction k arbitrary: n)
  case 0
  then show ?case by simp
next
  case (Suc k)
  then have "n div 16 < 16 ^ k" by simp
  from Suc.IH [OF this] obtain ds where "length ds = k" "\<forall>d \<in> set ds. d < 16" "n div 16 = of_digits ds"
    by auto
  then have "length (n mod 16 # ds) = Suc k \<and> (\<forall>d \<in> set (n mod 16 # ds). d < 16) \<and> n = of_digits (n mod 16 # ds)"
    by (auto simp flip: \<open>n div 16 = of_digits ds\<close>)
  then show ?case by blast
qed

lemma of_digits_shift1:
  "\<forall>d \<in> set ds. d < 16 \<Longrightarrow>
   of_digits ds div 2 AND of_digits (replicate (length ds) 5) = of_digits (map (\<lambda>d. d div 2 AND 5) ds)"
  by (induction ds) (simp_all add: shift1_digit)

lemma of_digits_shift2:
  "\<forall>d \<in> set ds. d < 16 \<Longrightarrow>
   of_digits ds div 4 AND of_digits (replicate (length ds) 3) = of_digits (map (\<lambda>d. d div 4 AND 3) ds)"
  by (induction ds) (simp_all add: shift2_digit)

lemma of_digits_mask3:
  "\<forall>d \<in> set ds. d < 16 \<Longrightarrow>
   of_digits ds AND of_digits (replicate (length ds) 3) = of_digits (map (\<lambda>d. d AND 3) ds)"
  by (induction ds) (simp_all add: and_digit)

lemma of_digits_sub:
  "\<forall>d \<in> set ds. f d \<le> d \<Longrightarrow>
   of_digits (map f ds) \<le> of_digits ds \<and> of_digits ds - of_digits (map f ds) = of_digits (map (\<lambda>d. d - f d) ds)"
  by (induction ds) auto

lemma of_digits_add:
  "of_digits (map f ds) + of_digits (map g ds) = of_digits (map (\<lambda>d. f d + g d) ds)"
  by (induction ds) auto

lemma of_digits_less: "\<forall>d \<in> set ds. d < 16 \<Longrightarrow> of_digits ds < 16 ^ length ds"
  by (induction ds) auto

text \<open>The two digit-wise steps on the whole word.\<close>

lemma of_digits_step1:
  assumes "\<forall>d \<in> set ds. d < 16"
  shows "of_digits ds div 2 AND of_digits (replicate (length ds) 5) \<le> of_digits ds"
    "of_digits ds - (of_digits ds div 2 AND of_digits (replicate (length ds) 5)) = of_digits (map digit_step1 ds)"
  using of_digits_sub [of ds "\<lambda>d. d div 2 AND 5"] assms
  by (simp_all add: of_digits_shift1 digit_facts digit_step1_def [abs_def])

lemma of_digits_step2:
  assumes "\<forall>d \<in> set ds. d < 16"
  shows "(of_digits (map digit_step1 ds) AND of_digits (replicate (length ds) 3)) +
     (of_digits (map digit_step1 ds) div 4 AND of_digits (replicate (length ds) 3)) = of_digits (map digit_bits ds)"
proof -
  have "\<forall>d \<in> set (map digit_step1 ds). d < 16" using assms by (auto simp: digit_facts)
  from of_digits_mask3 [OF this] of_digits_shift2 [OF this] show ?thesis
    by (simp add: of_digits_add digit_bits_def [abs_def] comp_def)
qed

lemma popcount_digits:
  "\<forall>d \<in> set ds. d < 16 \<Longrightarrow> (\<Sum>i < 4 * length ds. of_bool (bit (of_digits ds) i)) = sum_list (map digit_bits ds)"
proof (induction ds)
  case Nil
  then show ?case by simp
next
  case (Cons d ds)
  have d: "d < 16" using Cons.prems by simp
  have low: "bit (d + 16 * x) i = bit d i" if "i < 4" for x i :: nat
  proof -
    have "take_bit 4 (d + 16 * x) = take_bit 4 d" by (simp add: take_bit_eq_mod)
    then show ?thesis using that by (metis bit_take_bit_iff)
  qed
  have high: "bit (d + 16 * x) (4 + i) = bit x i" for x i :: nat
  proof -
    have "drop_bit 4 (d + 16 * x) = x" using d by (simp add: drop_bit_eq_div)
    then show ?thesis by (metis bit_drop_bit_eq comp_apply)
  qed
  have "(\<Sum>i < 4 * length (d # ds). of_bool (bit (of_digits (d # ds)) i)) =
      (\<Sum>i < 4 + 4 * length ds. of_bool (bit (d + 16 * of_digits ds) i))" by simp
  also have "\<dots> = digit_bits d + sum_list (map digit_bits ds)"
    unfolding sum_lessThan_add using Cons d by (simp add: low high digit_facts del: sum_of_bool_eq)
  finally show ?case by simp
qed

text \<open>The last step: pairs of counts, then the sum of the four bytes in the top byte.\<close>

lemma sum_bytes_top:
  fixes q0 q1 q2 q3 :: nat
  assumes "q0 \<le> 8" "q1 \<le> 8" "q2 \<le> 8" "q3 \<le> 8"
  shows "((q0 + 256 * (q1 + 256 * (q2 + 256 * q3))) * 0x1010101) mod 2 ^ 32 div 2 ^ 24 = q0 + q1 + q2 + q3"
proof -
  define a where "a = q0 + 256 * (q0 + q1) + 65536 * (q0 + q1 + q2)"
  define b where "b = (q1 + q2 + q3) + 256 * (q2 + q3) + 65536 * q3"
  define t where "t = q0 + q1 + q2 + q3"
  have e: "(q0 + 256 * (q1 + 256 * (q2 + 256 * q3))) * 0x1010101 = (a + 2 ^ 24 * t) + b * 2 ^ 32"
    by (simp add: a_def b_def t_def)
  have "a < 2 ^ 24" "a + 2 ^ 24 * t < 2 ^ 32" using assms by (simp_all add: a_def t_def)
  then show ?thesis unfolding e t_def [symmetric] by simp
qed

lemma count_bits_sum_bytes:
  fixes p0 :: nat
  assumes "p0 \<le> 4" "p1 \<le> 4" "p2 \<le> 4" "p3 \<le> 4" "p4 \<le> 4" "p5 \<le> 4" "p6 \<le> 4" "p7 \<le> 4"
  defines "w \<equiv> of_digits [p0, p1, p2, p3, p4, p5, p6, p7]"
  shows "((w + w div 16 AND 0xF0F0F0F) * 0x1010101) mod 2 ^ 32 div 2 ^ 24 = p0 + p1 + p2 + p3 + p4 + p5 + p6 + p7"
    "w + w div 16 < 2 ^ 32"
proof -
  have "w + w div 16 = of_digits [p0 + p1, p1 + p2, p2 + p3, p3 + p4, p4 + p5, p5 + p6, p6 + p7, p7]"
    using assms(1) by (simp add: w_def)
  moreover have "(0xF0F0F0F :: nat) = of_digits [15, 0, 15, 0, 15, 0, 15, 0]" by simp
  moreover have "n AND 15 = n" if "n \<le> 8" for n :: nat
  proof -
    have "n AND mask 4 = n mod 16" by (simp flip: take_bit_eq_mask add: take_bit_eq_mod)
    then show ?thesis using that by (simp add: mask_eq_exp_minus_1)
  qed
  ultimately have "w + w div 16 AND 0xF0F0F0F = of_digits [p0 + p1, 0, p2 + p3, 0, p4 + p5, 0, p6 + p7, 0]"
    using assms(1-8) by (simp only: of_digits.simps and_digit) simp
  also have "\<dots> = (p0 + p1) + 256 * ((p2 + p3) + 256 * ((p4 + p5) + 256 * (p6 + p7)))" by simp
  finally show "((w + w div 16 AND 0xF0F0F0F) * 0x1010101) mod 2 ^ 32 div 2 ^ 24 = p0 + p1 + p2 + p3 + p4 + p5 + p6 + p7"
    using sum_bytes_top [of "p0 + p1" "p2 + p3" "p4 + p5" "p6 + p7"] assms(1-8) by simp
  show "w + w div 16 < 2 ^ 32" using assms(1-8) by (simp add: w_def)
qed

lemma replicate_8: "replicate 8 x = [x, x, x, x, x, x, x, x]"
  by (simp add: numeral_eq_Suc)

lemma bit_unat_iff: "bit (unat w) i \<longleftrightarrow> bit w i"
  by (auto simp: bit_unsigned_iff dest: word_bit_bound)

lemma length_8_conv:
  "length ds = 8 \<longleftrightarrow> (\<exists>d0 d1 d2 d3 d4 d5 d6 d7. ds = [d0, d1, d2, d3, d4, d5, d6, d7])"
proof
  assume "length ds = 8"
  then have "ds = map ((!) ds) [0, 1, 2, 3, 4, 5, 6, 7]"
    by (intro nth_equalityI) (auto simp: nth_Cons' less_Suc_eq numeral_eq_Suc)
  then show "\<exists>d0 d1 d2 d3 d4 d5 d6 d7. ds = [d0, d1, d2, d3, d4, d5, d6, d7]"
    unfolding list.map by blast
qed auto

lemma my_count_bits_uint32_popcount: "unat (my_count_bits_uint32 v) = popcount v"
proof -
  have "unat v < 16 ^ 8" using unat_bound [of v] by simp
  from exists_digits [OF this] obtain ds
    where len: "length ds = 8" and small: "\<forall>d \<in> set ds. d < 16" and v: "unat v = of_digits ds" by auto
  have fives: "of_digits (replicate 8 5) = 0x55555555" and threes: "of_digits (replicate 8 3) = 0x33333333"
    unfolding replicate_8 by simp_all
  define v1 where "v1 = v - (drop_bit 1 v AND 0x55555555)"
  define v2 where "v2 = (v1 AND 0x33333333) + (drop_bit 2 v1 AND 0x33333333)"
  have "unat (drop_bit 1 v AND 0x55555555) = of_digits ds div 2 AND 0x55555555"
    by (simp add: unsigned_and_eq unat_drop_bit_div v)
  with of_digits_step1 [OF small] have v1: "unat v1 = of_digits (map digit_step1 ds)"
    unfolding v1_def len fives by (simp add: unat_sub v word_le_nat_alt)
  have "unat (v1 AND 0x33333333) + unat (drop_bit 2 v1 AND 0x33333333) = of_digits (map digit_bits ds)"
    using of_digits_step2 [OF small] unfolding len threes by (simp add: unsigned_and_eq unat_drop_bit_div v1)
  moreover have "of_digits (map digit_bits ds) < 16 ^ length (map digit_bits ds)"
    by (rule of_digits_less) (use small digit_facts(3) in fastforce)
  ultimately have v2: "unat v2 = of_digits (map digit_bits ds)"
    unfolding v2_def by (simp add: unat_plus_if' len)
  obtain d0 d1 d2 d3 d4 d5 d6 d7 where ds: "ds = [d0, d1, d2, d3, d4, d5, d6, d7]"
    using len unfolding length_8_conv by blast
  have le: "digit_bits d \<le> 4" if "d \<in> set ds" for d using small that by (simp add: digit_facts)
  note last = count_bits_sum_bytes [of "digit_bits d0" "digit_bits d1" "digit_bits d2" "digit_bits d3"
      "digit_bits d4" "digit_bits d5" "digit_bits d6" "digit_bits d7"]
  have w: "of_digits (map digit_bits ds) = of_digits [digit_bits d0, digit_bits d1, digit_bits d2,
      digit_bits d3, digit_bits d4, digit_bits d5, digit_bits d6, digit_bits d7]"
    by (simp only: ds list.map)
  have "unat (v2 + drop_bit 4 v2) = unat v2 + unat v2 div 16"
    using last(2) le unfolding w [symmetric] v2 [symmetric]
    by (simp add: unat_plus_if' unat_drop_bit_div ds)
  moreover have "my_count_bits_uint32 v = drop_bit 24 (((v2 + drop_bit 4 v2) AND 0xF0F0F0F) * 0x1010101)"
    by (simp only: my_count_bits_uint32_def v1_def v2_def Let_def)
  ultimately have "unat (my_count_bits_uint32 v) =
      ((unat v2 + unat v2 div 16 AND 0xF0F0F0F) * 0x1010101) mod 2 ^ 32 div 2 ^ 24"
    by (simp only: unat_drop_bit_div unat_word_ariths(2) unsigned_and_eq) simp
  also have "\<dots> = sum_list (map digit_bits ds)"
    unfolding v2 w using last(1) le by (simp add: ds)
  also have "\<dots> = popcount v"
    using popcount_digits [OF small] unfolding popcount_def bit_unat_iff [symmetric] v by (simp add: len)
  finally show ?thesis .
qed

theorem my_count_bits_popcount: "unat (my_count_bits x) = popcount x"
proof -
  have lo: "bit (ucast x :: u32) i \<longleftrightarrow> bit x i" and hi: "bit (ucast (drop_bit 32 x) :: u32) i \<longleftrightarrow> bit x (32 + i)"
    if "i < 32" for i
    using that by (simp_all add: bit_simps)
  have "popcount x = popcount (ucast x :: u32) + popcount (ucast (drop_bit 32 x) :: u32)"
    unfolding popcount_def using sum_lessThan_add [of "\<lambda>i. of_bool (bit x i)" 32 32]
    by (simp add: lo hi del: sum_of_bool_eq)
  moreover
  have "popcount w \<le> 32" for w :: u32
    unfolding popcount_def by (rule order_trans [OF sum_bounded_above [where K = 1]]) simp_all
  from this [of "ucast x"] this [of "ucast (drop_bit 32 x)"]
  have "popcount (ucast x :: u32) + popcount (ucast (drop_bit 32 x) :: u32) < 2 ^ 32" by simp
  ultimately show ?thesis
    by (simp add: my_count_bits_def unat_plus_if' my_count_bits_uint32_popcount)
qed

subsection \<open>Rounding to a power of two\<close>

definition smear_right :: "u32 \<Rightarrow> u32" where
  "smear_right v =
     (let v = v OR drop_bit 1 v;
          v = v OR drop_bit 2 v;
          v = v OR drop_bit 4 v;
          v = v OR drop_bit 8 v
      in v OR drop_bit 16 v)"

definition my_round_up_to_next_power :: "u32 \<Rightarrow> u32" where
  "my_round_up_to_next_power v = smear_right (v - 1) + 1"

definition my_clear_highest_bit :: "u32 \<Rightarrow> u32" where
  "my_clear_highest_bit v = v AND smear_right (drop_bit 1 v)"

text \<open>\<open>covers k w v\<close>: bit \<open>i\<close> of \<open>w\<close> is set when one of the bits \<open>i, \<dots>, i + k - 1\<close> of \<open>v\<close> is.\<close>

definition covers :: "nat \<Rightarrow> u32 \<Rightarrow> u32 \<Rightarrow> bool" where
  "covers k w v \<longleftrightarrow> (\<forall>i. bit w i \<longleftrightarrow> (\<exists>j. i \<le> j \<and> j < i + k \<and> bit v j))"

lemma covers_self: "covers 1 v v"
  by (auto simp: covers_def less_Suc_eq_le dest: le_antisym)

lemma covers_double:
  assumes "covers k w v"
  shows "covers (2 * k) (w OR drop_bit k w) v"
proof -
  have "bit (w OR drop_bit k w) i \<longleftrightarrow>
      (\<exists>j. i \<le> j \<and> j < i + k \<and> bit v j) \<or> (\<exists>j. i + k \<le> j \<and> j < i + k + k \<and> bit v j)" for i
    using assms by (simp add: covers_def bit_or_iff bit_drop_bit_eq add.commute)
  also have "\<dots> i \<longleftrightarrow> (\<exists>j. i \<le> j \<and> j < i + 2 * k \<and> bit v j)" for i
    unfolding mult_2 add.assoc [symmetric]
    by (metis add_leD1 linorder_not_le trans_less_add1)
  finally show ?thesis by (simp add: covers_def)
qed

lemma bit_smear_right: "bit (smear_right v) i \<longleftrightarrow> (\<exists>j \<ge> i. bit v j)"
proof -
  have "covers 32 (smear_right v) v"
    using covers_double [OF covers_double [OF covers_double [OF covers_double [OF covers_double [OF covers_self [of v]]]]]]
    by (simp add: smear_right_def Let_def)
  then show ?thesis by (auto simp: covers_def) (use word_bit_bound in fastforce)
qed

text \<open>The smeared value is the mask up to the highest bit.\<close>

lemma smear_right_mask:
  assumes "2 ^ k \<le> unat v" "unat v < 2 ^ Suc k"
  shows "smear_right v = mask (Suc k)"
proof (rule bit_word_eqI)
  fix i assume "i < LENGTH(32)"
  have top: "bit v k"
  proof -
    have "unat v div 2 ^ k = 1" using assms by (simp add: div_nat_eqI)
    then have "odd (unat v div 2 ^ k)" by simp
    then show ?thesis by (simp add: bit_unsigned_iff flip: bit_iff_odd)
  qed
  have none: "\<not> bit v j" if "k < j" for j
  proof -
    have "take_bit (Suc k) (unat v) = unat v" using assms(2) by (simp add: take_bit_nat_eq_self_iff)
    then have "\<not> bit (unat v) j" using that by (metis bit_take_bit_iff not_less_eq)
    then show ?thesis by (simp add: bit_unsigned_iff)
  qed
  show "bit (smear_right v) i \<longleftrightarrow> bit (mask (Suc k) :: u32) i"
    using top none \<open>i < LENGTH(32)\<close> by (auto simp: bit_smear_right bit_mask_iff less_Suc_eq_le intro: leI)
qed

lemma smear_right_0: "smear_right 0 = 0"
  by (simp add: smear_right_def)

lemma unat_1_cases: "unat w = Suc 0 \<Longrightarrow> w = 1" "unat w = 0 \<Longrightarrow> w = 0" for w :: "'a::len word"
  by (metis One_nat_def unat_1 word_unat_eq_iff) (simp add: unat_eq_0)

text \<open>
  Rounding up: \<open>0\<close> stays \<open>0\<close>; a value above \<open>2 ^ 31\<close> wraps to \<open>0\<close>; every other value
  goes to the least power of two that is not below it.
\<close>

theorem my_round_up_to_next_power_least:
  assumes "v \<noteq> 0" "unat v \<le> 2 ^ 31"
  shows "\<exists>k \<le> 31. unat (my_round_up_to_next_power v) = 2 ^ k \<and> unat v \<le> 2 ^ k \<and>
           (\<forall>j. unat v \<le> 2 ^ j \<longrightarrow> k \<le> j)"
proof (cases "v = 1")
  case True
  then show ?thesis
    by (intro exI [of _ 0]) (simp add: my_round_up_to_next_power_def smear_right_0)
next
  case False
  have m: "unat (v - 1) = unat v - 1" and pos: "0 < unat (v - 1)"
    using assms(1) False unat_1_cases [of v] by (simp_all add: unat_minus_one unat_gt_0 nat_neq_iff) (metis Suc_lessI unat_gt_0)
  define k where "k = unat (my_bit_log2_uint32 (v - 1))"
  have k: "2 ^ k \<le> unat v - 1" "unat v - 1 < 2 ^ Suc k"
    using my_bit_log2_uint32_is_log2 [of "v - 1"] pos m by (simp_all add: is_log2_def k_def)
  have "(2::nat) ^ k < 2 ^ 31" using k(1) assms(2) pos m by linarith
  then have k31: "k < 31" by (simp only: power_strict_increasing_iff)
  have "my_round_up_to_next_power v = mask (Suc k) + 1"
    using smear_right_mask [of k "v - 1"] k m by (simp add: my_round_up_to_next_power_def)
  also have "\<dots> = 2 ^ Suc k" by (simp add: mask_eq_exp_minus_1)
  finally have r: "unat (my_round_up_to_next_power v) = 2 ^ Suc k"
    using k31 by (simp add: unat_power2 del: power_Suc)
  moreover have "Suc k \<le> j" if "unat v \<le> 2 ^ j" for j
  proof -
    have "(2::nat) ^ k < 2 ^ j" using k(1) that pos m by linarith
    then show ?thesis by simp
  qed
  ultimately show ?thesis using k31 k(2) by (intro exI [of _ "Suc k"]) auto
qed

theorem my_round_up_to_next_power_wraps:
  assumes "2 ^ 31 < unat v" shows "my_round_up_to_next_power v = 0"
proof -
  have "v \<noteq> 0" using assms by auto
  then have "unat (v - 1) = unat v - 1" by (simp add: unat_minus_one)
  then have "2 ^ 31 \<le> unat (v - 1)" "unat (v - 1) < 2 ^ Suc 31"
    using assms unat_bound [of "v - 1"] by simp_all
  then have "smear_right (v - 1) = mask (Suc 31)" by (rule smear_right_mask)
  then show ?thesis by (simp add: my_round_up_to_next_power_def mask_eq_exp_minus_1)
qed

text \<open>Clearing the highest bit leaves every lower bit.\<close>

theorem my_clear_highest_bit_bits:
  "bit (my_clear_highest_bit v) i \<longleftrightarrow> bit v i \<and> (\<exists>j > i. bit v j)"
proof -
  have "(\<exists>j \<ge> i. bit v (Suc j)) \<longleftrightarrow> (\<exists>j > i. bit v j)"
    by (metis Suc_le_D Suc_le_eq Suc_le_mono)
  then show ?thesis
    by (simp add: my_clear_highest_bit_def bit_and_iff bit_smear_right bit_drop_bit_eq)
qed

subsection \<open>Masks, reversal and the first bit\<close>

text \<open>
  \<open>my_reverse_bits\<close> reads the table \<open>_my_bits_reverse_table\<close>, which the header only
  declares: it is a parameter.
\<close>

definition my_reverse_bits :: "(u8 \<Rightarrow> u8) \<Rightarrow> u32 \<Rightarrow> u32" where
  "my_reverse_bits tbl key =
     push_bit 24 (ucast (tbl (ucast (key AND 255)))) OR
     push_bit 16 (ucast (tbl (ucast (drop_bit 8 key AND 255)))) OR
     push_bit 8 (ucast (tbl (ucast (drop_bit 16 key AND 255)))) OR
     ucast (tbl (ucast (drop_bit 24 key)))"

text \<open>\<open>1ULL << (n - 1)\<close> is undefined outside \<open>1 \<le> n \<le> 64\<close>.\<close>

definition my_set_bits :: "int \<Rightarrow> u64 option" where
  "my_set_bits n = guard (0 \<le> n - 1 \<and> n - 1 < 64) (push_bit 1 (push_bit (nat (n - 1)) 1 - 1) OR 1)"

definition last_byte_mask :: "u32 \<Rightarrow> u8" where
  "last_byte_mask bits = (let used = (bits - 1) AND 7 in ucast (push_bit (unat used) 2 - 1 :: u32))"

definition my_bits_in_bytes :: "u32 \<Rightarrow> u32" where
  "my_bits_in_bytes n = (n + 7) div 8"

definition last_bit :: "nat list" where
  "last_bit = [32, 0, 1, 0, 2, 0, 1, 0, 3, 0, 1, 0, 2, 0, 1, 0]"

text \<open>The generic loop of \<open>my_find_first_bit\<close>; a shift of 64 or more is undefined.\<close>

function find_first_bit_loop :: "u64 \<Rightarrow> nat \<Rightarrow> nat option" where
  "find_first_bit_loop n shift =
     (if 64 \<le> shift then None
      else let bit = last_bit ! unat (drop_bit shift n AND 0xF)
           in if bit = 32 then find_first_bit_loop n (shift + 4) else Some (shift + bit))"
  by pat_completeness auto
termination
  by (relation "measure (\<lambda>(n, shift). 64 - shift)") auto

declare find_first_bit_loop.simps [simp del]

definition my_find_first_bit :: "u64 \<Rightarrow> nat option" where
  "my_find_first_bit n = (if n = 0 then Some 64 else find_first_bit_loop n 0)"

lemma my_set_bits_mask:
  assumes "1 \<le> n" "n \<le> 64"
  shows "my_set_bits n = Some (mask (nat n))"
proof -
  have n: "nat n = Suc (nat (n - 1))" using assms by simp
  have "push_bit 1 (mask m) OR 1 = (mask (Suc m) :: u64)" for m
    by (rule bit_word_eqI) (auto simp: bit_simps bit_push_bit_iff simp del: push_bit_of_Suc_0 push_bit_Suc push_bit_eq_mult)
  then show ?thesis using assms unfolding n by (simp add: my_set_bits_def mask_eq_exp_minus_1 flip: push_bit_of_1)
qed

lemma last_byte_mask_mask: "last_byte_mask bits = mask (unat ((bits - 1) AND 7) + 1)"
proof -
  have "push_bit u 2 - 1 = (mask (u + 1) :: u32)" for u
    by (simp add: mask_eq_exp_minus_1 push_bit_eq_mult)
  then show ?thesis
    by (simp add: last_byte_mask_def Let_def) (auto intro!: bit_word_eqI simp: bit_simps)
qed

text \<open>The digit table gives the first bit of a nonzero digit.\<close>

lemma last_bit_table:
  assumes "d < 16"
  shows "last_bit ! d = 32 \<longleftrightarrow> d = 0"
    and "d \<noteq> 0 \<Longrightarrow> last_bit ! d < 4 \<and> bit d (last_bit ! d) \<and> (\<forall>j < last_bit ! d. \<not> bit d j)"
proof -
  have "list_all (\<lambda>d. (last_bit ! d = 32 \<longleftrightarrow> d = 0) \<and>
      (d \<noteq> 0 \<longrightarrow> last_bit ! d < 4 \<and> bit d (last_bit ! d) \<and> list_all (\<lambda>j. \<not> bit d j) [0..<last_bit ! d])) [0..<16]"
    by code_simp
  from all_below_list [OF this assms]
  show "last_bit ! d = 32 \<longleftrightarrow> d = 0"
    and "d \<noteq> 0 \<Longrightarrow> last_bit ! d < 4 \<and> bit d (last_bit ! d) \<and> (\<forall>j < last_bit ! d. \<not> bit d j)"
    by (auto simp: list_all_iff)
qed

lemma find_first_bit_loop_correct:
  assumes "n \<noteq> 0" "\<forall>j < shift. \<not> bit n j"
  shows "\<exists>k. find_first_bit_loop n shift = Some k \<and> bit n k \<and> (\<forall>j < k. \<not> bit n j)"
  using assms(2)
proof (induction "64 - shift" arbitrary: shift rule: less_induct)
  case less
  have "shift < 64"
  proof (rule ccontr)
    assume "\<not> shift < 64"
    then have "\<not> bit n j" for j
      using less.prems word_bit_bound [of n j] by (cases "j < shift") auto
    then show False using assms(1) word_zero_iff_no_bit by blast
  qed
  define d where "d = unat (drop_bit shift n AND 0xF)"
  have d: "d = take_bit 4 (unat (drop_bit shift n))"
    by (simp add: d_def unsigned_and_eq take_bit_eq_mask mask_eq_exp_minus_1)
  then have d16: "d < 16" by (simp add: take_bit_eq_mod)
  have dbit: "bit d i \<longleftrightarrow> i < 4 \<and> bit n (shift + i)" for i
    unfolding d bit_take_bit_iff bit_unat_iff by (simp add: bit_drop_bit_eq)
  show ?case
  proof (cases "d = 0")
    case True
    then have "\<not> bit n (shift + i)" if "i < 4" for i using dbit [of i] that by simp
    then have "\<forall>j < shift + 4. \<not> bit n j"
      using less.prems by (metis add_diff_inverse_nat add_less_cancel_left)
    from less.hyps [OF _ this] \<open>shift < 64\<close> True last_bit_table(1) [OF d16] show ?thesis
      by (simp add: find_first_bit_loop.simps [of n shift] d_def [symmetric])
  next
    case False
    let ?b = "last_bit ! d"
    have b: "bit d ?b" "\<forall>j < ?b. \<not> bit d j" "?b < 4" "?b \<noteq> 32"
      using last_bit_table [OF d16] False by auto
    have "find_first_bit_loop n shift = Some (shift + ?b)"
      using \<open>shift < 64\<close> b(4) by (simp add: find_first_bit_loop.simps [of n shift] d_def [symmetric])
    moreover have "bit n (shift + ?b)" using b(1) dbit by blast
    moreover have "\<not> bit n j" if "j < shift + ?b" for j
      using that less.prems b(2,3) dbit [of "j - shift"] by (cases "j < shift") auto
    ultimately show ?thesis by blast
  qed
qed

theorem my_find_first_bit_correct:
  "my_find_first_bit n = (if n = 0 then Some 64 else Some (LEAST k. bit n k))"
proof (cases "n = 0")
  case False
  from find_first_bit_loop_correct [OF False, of 0] obtain k
    where k: "find_first_bit_loop n 0 = Some k" "bit n k" "\<forall>j < k. \<not> bit n j" by auto
  then have "(LEAST k. bit n k) = k" by (intro Least_equality) (auto intro: leI)
  with k False show ?thesis by (simp add: my_find_first_bit_def)
qed (simp add: my_find_first_bit_def)

subsection \<open>Properties\<close>

text \<open>
  \<open>my_bit_log2_uint64\<close> and \<open>my_bit_log2_size_t\<close> return the index of the highest bit that
  is set, that is the logarithm rounded down, for every nonzero 64-bit value, and 0 for 0; the
  function never leaves the range of a bit number of the word.
\<close>

lemma my_bit_log2_rounds_down:
  "unat (my_bit_log2_uint64 v) < 64 \<and> my_bit_log2_size_t v = my_bit_log2_uint64 v \<and>
   (if v = 0 then my_bit_log2_uint64 v = 0
    else 2 ^ unat (my_bit_log2_uint64 v) \<le> unat v \<and> unat v < 2 ^ Suc (unat (my_bit_log2_uint64 v)))"
proof -
  have l: "is_log2 (unat v) (unat (my_bit_log2_uint64 v))" by (rule my_bit_log2_uint64_is_log2)
  have "2 ^ unat (my_bit_log2_uint64 v) < (2 :: nat) ^ 64" if "v \<noteq> 0"
    using l that unat_bound [of v] by (simp add: is_log2_def unsigned_eq_0_iff)
  then have "unat (my_bit_log2_uint64 v) < 64" if "v \<noteq> 0"
    using that by (metis numeral_One one_less_numeral_iff power_less_imp_less_exp semiring_norm(76))
  then show ?thesis using l
    by (cases "v = 0") (simp_all add: is_log2_def unsigned_eq_0_iff my_bit_log2_size_t_def)
qed

text \<open>
  \<open>my_round_up_to_next_power\<close> returns the least power of two that is at least its argument
  for 1 to \<open>2 ^ 31\<close>; above that the power does not fit in 32 bits and the result wraps to 0, which
  is also the result for 0.
\<close>

lemma my_round_up_to_next_power_correct:
  "if v = 0 \<or> 2 ^ 31 < unat v then my_round_up_to_next_power v = 0
   else \<exists>k \<le> 31. unat (my_round_up_to_next_power v) = 2 ^ k \<and> unat v \<le> 2 ^ k \<and>
          (\<forall>j. unat v \<le> 2 ^ j \<longrightarrow> k \<le> j)"
proof (cases "v = 0")
  case True
  then show ?thesis by (simp add: my_round_up_to_next_power_def smear_right_def)
next
  case False
  then show ?thesis
    using my_round_up_to_next_power_wraps [of v] my_round_up_to_next_power_least [of v]
    by (simp del: power_numeral add: not_less)
qed

lemma my_round_up_to_next_power_correct_witness:
  "my_round_up_to_next_power 5 = 8 \<and> (\<exists>k \<le> 31. unat (my_round_up_to_next_power 5) = 2 ^ k)"
  using my_round_up_to_next_power_correct [of 5]
  by (auto simp: my_round_up_to_next_power_def smear_right_def)

text \<open>
  \<open>my_find_first_bit\<close> returns the position of the lowest set bit of a nonzero word, at a
  defined shift, and 64 for 0; \<open>my_count_bits\<close> returns how many bits are set, and
  \<open>my_clear_highest_bit\<close> clears the highest bit and keeps all others.
\<close>

lemma bit_scans_correct:
  "my_find_first_bit n = Some (if n = 0 then 64 else LEAST k. bit n k) \<and>
   unat (my_count_bits n) = card {k. bit n k} \<and>
   {i. bit (my_clear_highest_bit v) i} = {i. bit v i \<and> (\<exists>j > i. bit v j)}"
  by (simp add: my_find_first_bit_correct my_count_bits_popcount popcount_card
        my_clear_highest_bit_bits)

end
