(* ===== verification/Int_Types.thy ===== *)
theory Int_Types
  imports Bits "HOL-Library.Product_Lexorder"
begin

text \<open>
  The integer classes of \<open>sql_type_int.h\<close>: \<open>Longlong\<close>, \<open>Longlong_null\<close>, \<open>ULonglong\<close>,
  \<open>ULonglong_null\<close>, \<open>Longlong_hybrid\<close> and \<open>ULonglong_hybrid\<close>. A \<open>longlong\<close> is a 64-bit word
  read with \<open>sint\<close>, a \<open>ulonglong\<close> the same word read with \<open>uint\<close>. SQL NULL is the flag
  \<open>is_null\<close> of the record, as in the class \<open>Null_flag\<close>. The lemmas give every operation
  the exact integer it computes, and say when it reports NULL instead.
\<close>

subsection \<open>Limits\<close>

definition LONGLONG_MIN :: u64 where "LONGLONG_MIN = 0x8000000000000000"
definition LONGLONG_MAX :: u64 where "LONGLONG_MAX = 0x7FFFFFFFFFFFFFFF"
definition ULONGLONG_MAX :: u64 where "ULONGLONG_MAX = 0xFFFFFFFFFFFFFFFF"

lemmas int_limits = LONGLONG_MIN_def LONGLONG_MAX_def ULONGLONG_MAX_def

subsection \<open>Longlong and Longlong_null\<close>

definition Longlong_abs :: "u64 \<Rightarrow> u64" where
  "Longlong_abs m_value =
     (if m_value = LONGLONG_MIN then LONGLONG_MAX + 1
      else if m_value <s 0 then - m_value else m_value)"

record longlong_null =
  ll_value :: u64
  ll_is_null :: bool

definition Longlong_null :: "u64 \<Rightarrow> bool \<Rightarrow> longlong_null" where
  "Longlong_null nr is_null = \<lparr>ll_value = nr, ll_is_null = is_null\<rparr>"

definition Longlong_null_empty :: longlong_null where
  "Longlong_null_empty = Longlong_null 0 True"

definition Longlong_null_of :: "u64 \<Rightarrow> longlong_null" where
  "Longlong_null_of nr = Longlong_null nr False"

definition ll_or :: "longlong_null \<Rightarrow> longlong_null \<Rightarrow> longlong_null" where
  "ll_or a other =
     (if ll_is_null a \<or> ll_is_null other then Longlong_null_empty
      else Longlong_null_of (ll_value a OR ll_value other))"

definition ll_and :: "longlong_null \<Rightarrow> longlong_null \<Rightarrow> longlong_null" where
  "ll_and a other =
     (if ll_is_null a \<or> ll_is_null other then Longlong_null_empty
      else Longlong_null_of (ll_value a AND ll_value other))"

definition ll_xor :: "longlong_null \<Rightarrow> longlong_null \<Rightarrow> longlong_null" where
  "ll_xor a other =
     (if ll_is_null a \<or> ll_is_null other then Longlong_null_empty
      else Longlong_null_of (ll_value a XOR ll_value other))"

definition ll_not :: "longlong_null \<Rightarrow> longlong_null" where
  "ll_not a = (if ll_is_null a then a else Longlong_null_of (NOT (ll_value a)))"

text \<open>The shift count is cast to a 32-bit \<open>uint\<close> before it is compared with 64.\<close>

definition ll_shl :: "longlong_null \<Rightarrow> longlong_null \<Rightarrow> longlong_null" where
  "ll_shl a llshift =
     (if ll_is_null a \<or> ll_is_null llshift then Longlong_null_empty
      else let shift = ucast (ll_value llshift) :: u32;
               res = (if shift < 8 * 8 then push_bit (unat shift) (ll_value a) else 0)
           in Longlong_null_of res)"

definition ll_shr :: "longlong_null \<Rightarrow> longlong_null \<Rightarrow> longlong_null" where
  "ll_shr a llshift =
     (if ll_is_null a \<or> ll_is_null llshift then Longlong_null_empty
      else let shift = ucast (ll_value llshift) :: u32;
               res = (if shift < 8 * 8 then drop_bit (unat shift) (ll_value a) else 0)
           in Longlong_null_of res)"

definition ll_bit_count :: "longlong_null \<Rightarrow> longlong_null" where
  "ll_bit_count a =
     (if ll_is_null a then a else Longlong_null_of (ucast (my_count_bits (ll_value a))))"

subsection \<open>ULonglong and ULonglong_null\<close>

definition test_if_sum_overflows_ull :: "u64 \<Rightarrow> u64 \<Rightarrow> bool" where
  "test_if_sum_overflows_ull arg1 arg2 \<longleftrightarrow> ULONGLONG_MAX - arg1 < arg2"

definition ULonglong_neg :: "u64 \<Rightarrow> longlong_null" where
  "ULonglong_neg m_value =
     (if LONGLONG_MAX < m_value
      then (if m_value = LONGLONG_MAX + 1 then Longlong_null LONGLONG_MIN False
            else Longlong_null 0 True)
      else Longlong_null (- m_value) False)"

definition to_longlong_null :: "u64 \<Rightarrow> longlong_null" where
  "to_longlong_null m_value =
     (if LONGLONG_MAX < m_value then Longlong_null 0 True else Longlong_null m_value False)"

record ulonglong_null =
  ull_value :: u64
  ull_is_null :: bool

definition ULonglong_null :: "u64 \<Rightarrow> bool \<Rightarrow> ulonglong_null" where
  "ULonglong_null nr is_null = \<lparr>ull_value = nr, ull_is_null = is_null\<rparr>"

definition ullmul :: "u64 \<Rightarrow> u64 \<Rightarrow> ulonglong_null" where
  "ullmul a b =
     (let a1 = drop_bit 32 a; b1 = drop_bit 32 b
      in if a1 \<noteq> 0 \<and> b1 \<noteq> 0 then ULonglong_null 0 True
         else let a0 = 0xFFFFFFFF AND a; b0 = 0xFFFFFFFF AND b;
                  res1 = a1 * b0 + a0 * b1
              in if res1 > 0xFFFFFFFF then ULonglong_null 0 True
                 else let res1 = push_bit 32 res1; res0 = a0 * b0
                      in if test_if_sum_overflows_ull res1 res0 then ULonglong_null 0 True
                         else ULonglong_null (res1 + res0) False)"

subsection \<open>Longlong_hybrid\<close>

record longlong_hybrid =
  hy_value :: u64
  hy_unsigned :: bool

definition Longlong_hybrid :: "u64 \<Rightarrow> bool \<Rightarrow> longlong_hybrid" where
  "Longlong_hybrid nr unsigned_flag = \<lparr>hy_value = nr, hy_unsigned = unsigned_flag\<rparr>"

definition cmp_signed :: "longlong_hybrid \<Rightarrow> longlong_hybrid \<Rightarrow> int" where
  "cmp_signed a other =
     (if hy_value a <s hy_value other then -1 else if hy_value a = hy_value other then 0 else 1)"

definition cmp_unsigned :: "longlong_hybrid \<Rightarrow> longlong_hybrid \<Rightarrow> int" where
  "cmp_unsigned a other =
     (if hy_value a < hy_value other then -1 else if hy_value a = hy_value other then 0 else 1)"

definition is_unsigned_outside_of_signed_range :: "longlong_hybrid \<Rightarrow> bool" where
  "is_unsigned_outside_of_signed_range a \<longleftrightarrow> hy_unsigned a \<and> hy_value a > LONGLONG_MAX"

definition hybrid_neg :: "longlong_hybrid \<Rightarrow> bool" where
  "hybrid_neg a \<longleftrightarrow> hy_value a <s 0 \<and> \<not> hy_unsigned a"

definition hybrid_abs :: "longlong_hybrid \<Rightarrow> u64" where
  "hybrid_abs a = (if hy_unsigned a then hy_value a else Longlong_abs (hy_value a))"

definition to_ulonglong :: "longlong_hybrid \<Rightarrow> u64 \<Rightarrow> u64" where
  "to_ulonglong a upper_bound =
     (if hybrid_neg a then 0 else if hy_value a > upper_bound then upper_bound else hy_value a)"

definition to_uint :: "longlong_hybrid \<Rightarrow> u32 \<Rightarrow> u32" where
  "to_uint a upper_bound = ucast (to_ulonglong a (ucast upper_bound))"

definition hybrid_val_int_signed :: "longlong_hybrid \<Rightarrow> longlong_null" where
  "hybrid_val_int_signed a =
     (if hy_unsigned a then to_longlong_null (hy_value a) else Longlong_null (hy_value a) False)"

definition hybrid_val_int_unsigned :: "longlong_hybrid \<Rightarrow> longlong_null" where
  "hybrid_val_int_unsigned a =
     (if \<not> hy_unsigned a \<and> hy_value a <s 0 then Longlong_null 0 True
      else Longlong_null (hy_value a) False)"

definition hybrid_val_int :: "longlong_hybrid \<Rightarrow> bool \<Rightarrow> longlong_null" where
  "hybrid_val_int a want_unsigned_value =
     (if want_unsigned_value then hybrid_val_int_unsigned a else hybrid_val_int_signed a)"

definition hybrid_cmp :: "longlong_hybrid \<Rightarrow> longlong_hybrid \<Rightarrow> int" where
  "hybrid_cmp a other =
     (if hy_unsigned a = hy_unsigned other
      then (if hy_unsigned a then cmp_unsigned a other else cmp_signed a other)
      else if is_unsigned_outside_of_signed_range a then 1
      else if is_unsigned_outside_of_signed_range other then -1
      else cmp_signed a other)"

definition hybrid_eq :: "longlong_hybrid \<Rightarrow> longlong_hybrid \<Rightarrow> bool" where
  "hybrid_eq a nr \<longleftrightarrow> hybrid_cmp a nr = 0"

definition hybrid_eq_ull :: "longlong_hybrid \<Rightarrow> u64 \<Rightarrow> bool" where
  "hybrid_eq_ull a nr \<longleftrightarrow> hybrid_cmp a (Longlong_hybrid nr True) = 0"

definition hybrid_eq_uint :: "longlong_hybrid \<Rightarrow> u32 \<Rightarrow> bool" where
  "hybrid_eq_uint a nr \<longleftrightarrow> hybrid_cmp a (Longlong_hybrid (ucast nr) True) = 0"

definition hybrid_eq_ll :: "longlong_hybrid \<Rightarrow> u64 \<Rightarrow> bool" where
  "hybrid_eq_ll a nr \<longleftrightarrow> hybrid_cmp a (Longlong_hybrid nr False) = 0"

definition hybrid_eq_int :: "longlong_hybrid \<Rightarrow> u32 \<Rightarrow> bool" where
  "hybrid_eq_int a nr \<longleftrightarrow> hybrid_cmp a (Longlong_hybrid (scast nr) False) = 0"

subsection \<open>ULonglong_hybrid\<close>

record ulonglong_hybrid =
  uh_value :: u64
  uh_neg :: bool

definition ULonglong_hybrid :: "u64 \<Rightarrow> bool \<Rightarrow> ulonglong_hybrid" where
  "ULonglong_hybrid value neg = \<lparr>uh_value = value, uh_neg = (if neg \<and> value = 0 then False else neg)\<rparr>"

definition uh_val_int_unsigned :: "ulonglong_hybrid \<Rightarrow> longlong_null" where
  "uh_val_int_unsigned a = (if uh_neg a then Longlong_null 0 True else Longlong_null (uh_value a) False)"

definition uh_val_int_signed :: "ulonglong_hybrid \<Rightarrow> longlong_null" where
  "uh_val_int_signed a = (if uh_neg a then ULonglong_neg (uh_value a) else to_longlong_null (uh_value a))"

definition uh_val_int :: "ulonglong_hybrid \<Rightarrow> bool \<Rightarrow> longlong_null" where
  "uh_val_int a want_unsigned_value =
     (if want_unsigned_value then uh_val_int_unsigned a else uh_val_int_signed a)"

subsection \<open>Reading the words\<close>

lemma sint64: "sint w = (if uint w < 2 ^ 63 then uint w else uint w - 2 ^ 64)" for w :: u64
  using sint_by_range [of w] by simp

lemma uint64_bounds: "0 \<le> uint w" "uint w < 18446744073709551616" for w :: u64
  using uint_lt2p [of w] by simp_all

lemma uint_limits:
  "uint LONGLONG_MIN = 2 ^ 63" "uint LONGLONG_MAX = 2 ^ 63 - 1" "uint ULONGLONG_MAX = 2 ^ 64 - 1"
  "uint (LONGLONG_MAX + 1) = 2 ^ 63"
  by (simp_all add: int_limits)

lemma uint64_neg: "uint (- w) = (if uint w = 0 then 0 else 2 ^ 64 - uint w)" for w :: u64
proof (cases "uint w = 0")
  case True
  then show ?thesis by (simp add: uint_word_ariths)
next
  case False
  then have "uint (- w) = (2 ^ 64 - uint w) mod 2 ^ 64"
    by (simp add: uint_word_ariths zmod_zminus1_eq_if)
  also have "\<dots> = 2 ^ 64 - uint w"
  proof (rule mod_pos_pos_trivial)
    show "0 \<le> 2 ^ 64 - uint w" using uint64_bounds [of w] by simp
    show "2 ^ 64 - uint w < 2 ^ 64" using False uint64_bounds(1) [of w] by linarith
  qed
  finally show ?thesis using False by simp
qed

lemmas int_reading = word_sless_alt word_less_alt sint64 uint_limits uint64_neg word_uint_eq_iff

lemma Longlong_abs_correct: "uint (Longlong_abs v) = \<bar>sint v\<bar>"
  using uint64_bounds [of v] by (auto simp: Longlong_abs_def int_reading)

subsection \<open>Bitwise operators\<close>

lemmas ll_defs = ll_or_def ll_and_def ll_xor_def ll_not_def ll_shl_def ll_shr_def ll_bit_count_def
  Longlong_null_empty_def Longlong_null_of_def Longlong_null_def

text \<open>SQL semantics of NULL: every dyadic operator is NULL exactly when an argument is.\<close>

lemma ll_null_propagates:
  "ll_is_null (ll_or a b) \<longleftrightarrow> ll_is_null a \<or> ll_is_null b"
  "ll_is_null (ll_and a b) \<longleftrightarrow> ll_is_null a \<or> ll_is_null b"
  "ll_is_null (ll_xor a b) \<longleftrightarrow> ll_is_null a \<or> ll_is_null b"
  "ll_is_null (ll_shl a b) \<longleftrightarrow> ll_is_null a \<or> ll_is_null b"
  "ll_is_null (ll_shr a b) \<longleftrightarrow> ll_is_null a \<or> ll_is_null b"
  "ll_is_null (ll_not a) \<longleftrightarrow> ll_is_null a"
  "ll_is_null (ll_bit_count a) \<longleftrightarrow> ll_is_null a"
  by (simp_all add: ll_defs Let_def)

lemma ll_de_morgan:
  assumes "\<not> ll_is_null a" "\<not> ll_is_null b"
  shows "ll_not (ll_or a b) = ll_and (ll_not a) (ll_not b)"
    and "ll_not (ll_and a b) = ll_or (ll_not a) (ll_not b)"
  using assms by (simp_all add: ll_defs)

lemma uint_cast32: "uint (ucast w :: u32) = uint w mod 2 ^ 32" for w :: u64
  by (simp add: unsigned_ucast_eq take_bit_eq_mod)

text \<open>
  The shifts compute \<open>v * 2 ^ n mod 2 ^ 64\<close> and \<open>v div 2 ^ n\<close> of the unsigned value, where
  \<open>n\<close> is the count modulo \<open>2 ^ 32\<close>, and 0 from 64 on.
\<close>

lemma ll_shift_value:
  assumes "\<not> ll_is_null a" "\<not> ll_is_null s"
  defines "n \<equiv> uint (ll_value s) mod 2 ^ 32"
  shows "uint (ll_value (ll_shl a s)) = (if n < 64 then uint (ll_value a) * 2 ^ nat n mod 2 ^ 64 else 0)"
    and "uint (ll_value (ll_shr a s)) = (if n < 64 then uint (ll_value a) div 2 ^ nat n else 0)"
proof -
  have p: "uint (push_bit k w) = uint w * 2 ^ k mod 2 ^ 64" for k and w :: u64
    unfolding unsigned_push_bit_eq by (simp add: push_bit_eq_mult take_bit_eq_mod)
  have d: "uint (drop_bit k w) = uint w div 2 ^ k" for k and w :: u64
    unfolding unsigned_drop_bit_eq using uint64_bounds [of w] by (simp add: drop_bit_eq_div take_bit_eq_mod)
  have c: "(ucast (ll_value s) :: u32) < 8 * 8 \<longleftrightarrow> n < 64" and u: "unat (ucast (ll_value s) :: u32) = nat n"
    by (simp_all add: word_less_alt uint_cast32 n_def flip: nat_uint_eq)
  show "uint (ll_value (ll_shl a s)) = (if n < 64 then uint (ll_value a) * 2 ^ nat n mod 2 ^ 64 else 0)"
    using assms(1,2) unfolding ll_defs Let_def u
    by (simp add: c [simplified] p del: push_bit_eq_mult)
  show "uint (ll_value (ll_shr a s)) = (if n < 64 then uint (ll_value a) div 2 ^ nat n else 0)"
    using assms(1,2) unfolding ll_defs Let_def u
    by (simp add: c [simplified] d)
qed

subsection \<open>Products and negation\<close>

lemma test_if_sum_overflows_ull_iff: "test_if_sum_overflows_ull a b \<longleftrightarrow> 2 ^ 64 \<le> uint a + uint b"
proof -
  have "uint (ULONGLONG_MAX - a) = 2 ^ 64 - 1 - uint a"
    using uint64_bounds [of a] by (subst uint_sub_lem [THEN iffD1]) (simp_all add: uint_limits)
  then show ?thesis by (auto simp: test_if_sum_overflows_ull_def word_less_alt)
qed

text \<open>
  \<open>ullmul\<close> is the exact product where it fits in 64 bits and NULL elsewhere. The halves
  are below \<open>2 ^ 32\<close>, so \<open>a1 * b0 + a0 * b1\<close> itself never wraps: one of \<open>a1\<close>, \<open>b1\<close> is zero.
\<close>

lemma mul_halves_bound: "x \<le> 2 ^ 32 - 1 \<Longrightarrow> y \<le> 2 ^ 32 - 1 \<Longrightarrow> 0 \<le> x \<Longrightarrow> 0 \<le> y \<Longrightarrow> x * y \<le> (2 ^ 32 - 1) * (2 ^ 32 - 1)"
  for x y :: int
  by (rule mult_mono) simp_all

lemma uint_halves:
  fixes w :: u64
  shows "uint (drop_bit 32 w) = uint w div 2 ^ 32" "uint (0xFFFFFFFF AND w) = uint w mod 2 ^ 32"
    "0 \<le> uint w div 2 ^ 32" "uint w div 2 ^ 32 \<le> 2 ^ 32 - 1"
    "0 \<le> uint w mod 2 ^ 32" "uint w mod 2 ^ 32 \<le> 2 ^ 32 - 1"
proof -
  show "uint (drop_bit 32 w) = uint w div 2 ^ 32"
    unfolding unsigned_drop_bit_eq using uint64_bounds [of w] by (simp add: drop_bit_eq_div take_bit_eq_mod)
  have "uint (w AND mask 32) = take_bit 32 (uint w)"
    unfolding take_bit_eq_mask [symmetric] by (simp add: unsigned_take_bit_eq)
  then show "uint (0xFFFFFFFF AND w) = uint w mod 2 ^ 32"
    by (simp add: mask_eq_exp_minus_1 take_bit_eq_mod and.commute)
  show "0 \<le> uint w div 2 ^ 32" by (simp add: pos_imp_zdiv_nonneg_iff)
qed (use uint64_bounds [of w] in simp_all)

lemma uint64_mult_small: "uint (x * y) = uint x * uint y" if "uint x * uint y < 2 ^ 64" for x y :: u64
  using that by (simp add: uint_word_ariths)

lemma uint64_add_small: "uint (x + y) = uint x + uint y" if "uint x + uint y < 2 ^ 64" for x y :: u64
  using that by (simp add: uint_word_ariths)

lemma ullmul_correct:
  "ullmul a b = (if uint a * uint b < 2 ^ 64 then ULonglong_null (a * b) False else ULonglong_null 0 True)"
proof -
  define a1 b1 a0 b0 where "a1 = uint a div 2 ^ 32" and "b1 = uint b div 2 ^ 32"
    and "a0 = uint a mod 2 ^ 32" and "b0 = uint b mod 2 ^ 32"
  note h = uint_halves [of a, folded a1_def a0_def] uint_halves [of b, folded b1_def b0_def]
  have ab: "uint a = a1 * 2 ^ 32 + a0" "uint b = b1 * 2 ^ 32 + b0"
    by (simp_all add: a1_def a0_def b1_def b0_def)
  have prod: "uint a * uint b = a1 * b1 * 2 ^ 64 + (a1 * b0 + a0 * b1) * 2 ^ 32 + a0 * b0"
    by (simp add: ab algebra_simps)
  have z: "drop_bit 32 a \<noteq> 0 \<longleftrightarrow> a1 \<noteq> 0" "drop_bit 32 b \<noteq> 0 \<longleftrightarrow> b1 \<noteq> 0"
    by (simp_all add: h word_uint_eq_iff)
  show ?thesis
  proof (cases "a1 \<noteq> 0 \<and> b1 \<noteq> 0")
    case True
    then have "1 \<le> a1" "1 \<le> b1" using h by linarith+
    then have "1 \<le> a1 * b1" using mult_mono [of 1 a1 1 b1] by simp
    then have "1 * 2 ^ 64 \<le> a1 * b1 * 2 ^ 64" by (rule mult_right_mono) simp
    moreover have "0 \<le> (a1 * b0 + a0 * b1) * 2 ^ 32 + a0 * b0" using h by simp
    ultimately have "2 ^ 64 \<le> uint a * uint b" unfolding prod by linarith
    then show ?thesis using True z by (simp add: ullmul_def)
  next
    case False
    then have ab1: "a1 * b1 = 0" by auto
    have m: "a1 * b0 \<le> (2 ^ 32 - 1) * (2 ^ 32 - 1)" "a0 * b1 \<le> (2 ^ 32 - 1) * (2 ^ 32 - 1)"
      "a0 * b0 \<le> (2 ^ 32 - 1) * (2 ^ 32 - 1)" "0 \<le> a1 * b0" "0 \<le> a0 * b1" "0 \<le> a0 * b0"
      using h mul_halves_bound [of a1 b0] mul_halves_bound [of a0 b1] mul_halves_bound [of a0 b0] by simp_all
    define r1 where "r1 = drop_bit 32 a * (0xFFFFFFFF AND b) + (0xFFFFFFFF AND a) * drop_bit 32 b"
    have "a1 * b0 + a0 * b1 \<le> (2 ^ 32 - 1) * (2 ^ 32 - 1)" using False m by auto
    moreover have "uint (drop_bit 32 a * (0xFFFFFFFF AND b)) = a1 * b0"
      "uint ((0xFFFFFFFF AND a) * drop_bit 32 b) = a0 * b1"
      using m by (subst uint64_mult_small; simp add: h)+
    ultimately have r1: "uint r1 = a1 * b0 + a0 * b1"
      unfolding r1_def by (subst uint64_add_small) simp_all
    have r0: "uint ((0xFFFFFFFF AND a) * (0xFFFFFFFF AND b)) = a0 * b0"
      using m by (subst uint64_mult_small) (simp_all add: h)
    have ull: "ullmul a b =
        (if r1 > 0xFFFFFFFF then ULonglong_null 0 True
         else if test_if_sum_overflows_ull (push_bit 32 r1) ((0xFFFFFFFF AND a) * (0xFFFFFFFF AND b))
           then ULonglong_null 0 True
         else ULonglong_null (push_bit 32 r1 + (0xFFFFFFFF AND a) * (0xFFFFFFFF AND b)) False)"
      using False z by (auto simp: ullmul_def Let_def r1_def)
    have prod': "uint a * uint b = (a1 * b0 + a0 * b1) * 2 ^ 32 + a0 * b0"
      unfolding prod ab1 by simp
    show ?thesis
    proof (cases "uint r1 < 2 ^ 32")
      case False
      then have "2 ^ 32 * 2 ^ 32 \<le> (a1 * b0 + a0 * b1) * 2 ^ 32"
        unfolding r1 by (intro mult_right_mono) simp_all
      then have "2 ^ 64 \<le> uint a * uint b" unfolding prod' using m(6) by simp
      then show ?thesis using False unfolding ull by (simp add: word_less_alt)
    next
      case True
      have sh: "uint (push_bit 32 r1) = (a1 * b0 + a0 * b1) * 2 ^ 32"
        unfolding unsigned_push_bit_eq using True m
        by (simp add: push_bit_eq_mult take_bit_eq_mod r1)
      have "push_bit 32 r1 + (0xFFFFFFFF AND a) * (0xFFFFFFFF AND b) = a * b" if "uint a * uint b < 2 ^ 64"
        using that unfolding word_uint_eq_iff
        by (simp add: uint64_add_small uint64_mult_small sh r0 prod')
      then show ?thesis using True unfolding ull
        by (simp add: word_less_alt test_if_sum_overflows_ull_iff sh r0 prod')
    qed
  qed
qed

lemma ULonglong_neg_correct:
  "ll_is_null (ULonglong_neg v) \<longleftrightarrow> uint v > 2 ^ 63"
  "uint v \<le> 2 ^ 63 \<Longrightarrow> sint (ll_value (ULonglong_neg v)) = - uint v"
  using uint64_bounds [of v] by (auto simp: ULonglong_neg_def Longlong_null_def int_reading)

lemma to_longlong_null_correct:
  "ll_is_null (to_longlong_null v) \<longleftrightarrow> uint v \<ge> 2 ^ 63"
  "uint v < 2 ^ 63 \<Longrightarrow> sint (ll_value (to_longlong_null v)) = uint v"
  by (auto simp: to_longlong_null_def Longlong_null_def int_reading)

subsection \<open>The value of a hybrid and its order\<close>

definition hybrid_int :: "longlong_hybrid \<Rightarrow> int" where
  "hybrid_int a = (if hy_unsigned a then uint (hy_value a) else sint (hy_value a))"

lemma hybrid_int_Longlong_hybrid [simp]:
  "hybrid_int (Longlong_hybrid v f) = (if f then uint v else sint v)"
  by (simp add: hybrid_int_def Longlong_hybrid_def)

lemma hybrid_cmp_sgn: "hybrid_cmp a b = sgn (hybrid_int a - hybrid_int b)"
  using uint64_bounds [of "hy_value a"] uint64_bounds [of "hy_value b"]
  by (cases "hy_unsigned a"; cases "hy_unsigned b";
      auto simp: hybrid_cmp_def hybrid_int_def cmp_signed_def cmp_unsigned_def
      is_unsigned_outside_of_signed_range_def int_reading sgn_if)
    (use uint64_bounds(1) [of "hy_value a"] uint64_bounds(1) [of "hy_value b"] in linarith)+

lemma hybrid_neg_iff: "hybrid_neg a \<longleftrightarrow> hybrid_int a < 0"
  using uint64_bounds [of "hy_value a"]
  by (auto simp: hybrid_neg_def hybrid_int_def int_reading)

lemma hybrid_abs_correct: "uint (hybrid_abs a) = \<bar>hybrid_int a\<bar>"
  by (auto simp: hybrid_abs_def hybrid_int_def Longlong_abs_correct)

lemma hybrid_int_nonneg: "0 \<le> hybrid_int a \<Longrightarrow> hybrid_int a = uint (hy_value a)"
  using uint64_bounds [of "hy_value a"] by (auto simp: hybrid_int_def sint64 split: if_splits)

lemma to_ulonglong_clamps: "uint (to_ulonglong a ub) = max 0 (min (hybrid_int a) (uint ub))"
proof (cases "hybrid_int a < 0")
  case True
  then show ?thesis using uint64_bounds [of ub] by (simp add: to_ulonglong_def hybrid_neg_iff)
next
  case False
  then show ?thesis using uint64_bounds [of ub] hybrid_int_nonneg [of a]
    by (simp add: to_ulonglong_def hybrid_neg_iff word_less_alt)
qed

lemma to_uint_clamps: "uint (to_uint a ub) = max 0 (min (hybrid_int a) (uint ub))"
proof -
  have ub: "uint (ucast ub :: u64) = uint ub" "uint ub < 2 ^ 32"
    using uint_lt2p [of ub] by (simp_all add: unsigned_ucast_eq take_bit_int_eq_self)
  then have "uint (to_ulonglong a (ucast ub)) < 2 ^ 32" "0 \<le> uint (to_ulonglong a (ucast ub))"
    by (simp_all add: to_ulonglong_clamps)
  then show ?thesis
    by (simp add: to_uint_def uint_cast32 to_ulonglong_clamps ub)
qed

lemma hybrid_val_int_signed_correct:
  "ll_is_null (hybrid_val_int_signed a) \<longleftrightarrow> 2 ^ 63 \<le> hybrid_int a"
  "hybrid_int a < 2 ^ 63 \<Longrightarrow> sint (ll_value (hybrid_val_int_signed a)) = hybrid_int a"
  using uint64_bounds [of "hy_value a"]
  by (auto simp: hybrid_val_int_signed_def hybrid_int_def to_longlong_null_def Longlong_null_def int_reading)

lemma hybrid_val_int_unsigned_correct:
  "ll_is_null (hybrid_val_int_unsigned a) \<longleftrightarrow> hybrid_int a < 0"
  "0 \<le> hybrid_int a \<Longrightarrow> uint (ll_value (hybrid_val_int_unsigned a)) = hybrid_int a"
proof -
  have e: "\<not> hy_unsigned a \<and> hy_value a <s 0 \<longleftrightarrow> hybrid_int a < 0"
    using hybrid_neg_iff [of a] by (simp add: hybrid_neg_def conj_commute)
  show "ll_is_null (hybrid_val_int_unsigned a) \<longleftrightarrow> hybrid_int a < 0"
    by (simp add: hybrid_val_int_unsigned_def e Longlong_null_def)
  show "0 \<le> hybrid_int a \<Longrightarrow> uint (ll_value (hybrid_val_int_unsigned a)) = hybrid_int a"
    by (simp add: hybrid_val_int_unsigned_def e Longlong_null_def hybrid_int_nonneg)
qed

text \<open>The overloads of \<open>operator==\<close> compare the integer values.\<close>

lemma hybrid_eq_overloads:
  "hybrid_eq a b \<longleftrightarrow> hybrid_int a = hybrid_int b"
  "hybrid_eq_ull a u \<longleftrightarrow> hybrid_int a = uint u"
  "hybrid_eq_uint a n \<longleftrightarrow> hybrid_int a = uint n"
  "hybrid_eq_ll a u \<longleftrightarrow> hybrid_int a = sint u"
  "hybrid_eq_int a n \<longleftrightarrow> hybrid_int a = sint n"
proof -
  have "uint (ucast n :: u64) = uint n"
    using uint_lt2p [of n] by (simp add: unsigned_ucast_eq take_bit_int_eq_self_iff)
  then show "hybrid_eq_uint a n \<longleftrightarrow> hybrid_int a = uint n"
    by (simp add: hybrid_eq_uint_def hybrid_cmp_sgn sgn_eq_0_iff)
qed (simp_all add: hybrid_eq_def hybrid_eq_ull_def hybrid_eq_ll_def hybrid_eq_int_def
      hybrid_cmp_sgn sgn_eq_0_iff sint_up_scast is_up)

subsection \<open>The value of a sign-and-magnitude hybrid\<close>

definition uh_int :: "ulonglong_hybrid \<Rightarrow> int" where
  "uh_int a = (if uh_neg a then - uint (uh_value a) else uint (uh_value a))"

lemma uh_int_ULonglong_hybrid: "uh_int (ULonglong_hybrid v neg) = (if neg then - uint v else uint v)"
  by (auto simp: uh_int_def ULonglong_hybrid_def)

text \<open>The constructor keeps \<open>-0\<close> out.\<close>

definition uh_ok :: "ulonglong_hybrid \<Rightarrow> bool" where
  "uh_ok a \<longleftrightarrow> (uh_neg a \<longrightarrow> uh_value a \<noteq> 0)"

lemma uh_ok_ULonglong_hybrid: "uh_ok (ULonglong_hybrid v neg)"
  by (auto simp: uh_ok_def ULonglong_hybrid_def)

lemma uh_val_int_signed_correct:
  "ll_is_null (uh_val_int_signed a) \<longleftrightarrow> \<not> (- (2 ^ 63) \<le> uh_int a \<and> uh_int a < 2 ^ 63)"
  "- (2 ^ 63) \<le> uh_int a \<Longrightarrow> uh_int a < 2 ^ 63 \<Longrightarrow> sint (ll_value (uh_val_int_signed a)) = uh_int a"
  using uint64_bounds [of "uh_value a"]
  by (auto simp: uh_val_int_signed_def uh_int_def ULonglong_neg_correct to_longlong_null_correct)
    (use uint64_bounds(1) [of "uh_value a"] in linarith)+

lemma uh_val_int_unsigned_correct:
  assumes "uh_ok a"
  shows "ll_is_null (uh_val_int_unsigned a) \<longleftrightarrow> uh_int a < 0"
    and "0 \<le> uh_int a \<Longrightarrow> uint (ll_value (uh_val_int_unsigned a)) = uh_int a"
  using assms uint64_bounds [of "uh_value a"]
  by (auto simp: uh_val_int_unsigned_def uh_int_def uh_ok_def Longlong_null_def word_uint_eq_iff)
    (use uint64_bounds(1) [of "uh_value a"] in linarith)+

subsection \<open>Properties\<close>

text \<open>
  C36. \<open>ULonglong_null::ullmul\<close> multiplies two unsigned 64-bit values exactly: the result is NULL
  when and only when the product needs more than 64 bits, and otherwise it is the product;
  \<open>test_if_sum_overflows_ull\<close> detects exactly the sums that wrap.
\<close>

theorem unsigned_arithmetic_exact:
  "ullmul a b = (if uint a * uint b < 2 ^ 64 then ULonglong_null (a * b) False else ULonglong_null 0 True) \<and>
   (uint a * uint b < 2 ^ 64 \<longrightarrow> uint (a * b) = uint a * uint b) \<and>
   (test_if_sum_overflows_ull a b \<longleftrightarrow> uint (a + b) \<noteq> uint a + uint b)"
proof -
  have "2 ^ 64 \<le> uint a + uint b \<longleftrightarrow> uint (a + b) \<noteq> uint a + uint b"
    using uint64_add_small [of a b] uint64_bounds [of "a + b"] by fastforce
  then show ?thesis
    using ullmul_correct uint64_mult_small [of a b] test_if_sum_overflows_ull_iff by blast
qed

lemma unsigned_arithmetic_exact_witness:
  "ullmul 4294967296 4294967295 = ULonglong_null (4294967296 * 4294967295) False \<and>
   uint (4294967296 * 4294967295 :: u64) = 4294967296 * 4294967295"
  using unsigned_arithmetic_exact [of 4294967296 4294967295] by simp

text \<open>
  \<open>Longlong_hybrid::cmp\<close> orders signed and unsigned values by the integers they stand for,
  across the two signs; its equality operators for all five operand types, \<open>neg\<close> and \<open>abs\<close>
  agree with those integers.
\<close>

lemma hybrid_compares_integers:
  "hybrid_cmp a b = sgn (hybrid_int a - hybrid_int b) \<and>
   (hybrid_eq a b \<longleftrightarrow> hybrid_int a = hybrid_int b) \<and>
   (hybrid_eq_ull a u \<longleftrightarrow> hybrid_int a = uint u) \<and> (hybrid_eq_ll a u \<longleftrightarrow> hybrid_int a = sint u) \<and>
   (hybrid_eq_uint a n \<longleftrightarrow> hybrid_int a = uint n) \<and> (hybrid_eq_int a n \<longleftrightarrow> hybrid_int a = sint n) \<and>
   (hybrid_neg a \<longleftrightarrow> hybrid_int a < 0) \<and> uint (hybrid_abs a) = \<bar>hybrid_int a\<bar>"
  using hybrid_cmp_sgn hybrid_eq_overloads hybrid_neg_iff hybrid_abs_correct by blast

text \<open>
  Conversions of a hybrid value: \<open>to_ulonglong\<close> clamps it into 0 to the bound, \<open>val_int_signed\<close>
  and \<open>val_int_unsigned\<close> give the value when it fits the target and NULL exactly when it does not;
  negating an unsigned value gives NULL exactly above \<open>2 ^ 63\<close>.
\<close>

lemma hybrid_conversions:
  "uint (to_ulonglong a ub) = max 0 (min (hybrid_int a) (uint ub)) \<and>
   (ll_is_null (hybrid_val_int_signed a) \<longleftrightarrow> 2 ^ 63 \<le> hybrid_int a) \<and>
   (hybrid_int a < 2 ^ 63 \<longrightarrow> sint (ll_value (hybrid_val_int_signed a)) = hybrid_int a) \<and>
   (ll_is_null (hybrid_val_int_unsigned a) \<longleftrightarrow> hybrid_int a < 0) \<and>
   (0 \<le> hybrid_int a \<longrightarrow> uint (ll_value (hybrid_val_int_unsigned a)) = hybrid_int a) \<and>
   (ll_is_null (ULonglong_neg v) \<longleftrightarrow> 2 ^ 63 < uint v) \<and>
   (uint v \<le> 2 ^ 63 \<longrightarrow> sint (ll_value (ULonglong_neg v)) = - uint v)"
  using to_ulonglong_clamps hybrid_val_int_signed_correct [of a] hybrid_val_int_unsigned_correct [of a]
    ULonglong_neg_correct [of v] by blast

lemma hybrid_conversions_witness:
  "sint (ll_value (hybrid_val_int_signed (Longlong_hybrid 7 True))) = 7 \<and>
   uint (ll_value (hybrid_val_int_unsigned (Longlong_hybrid 7 False))) = sint (7 :: u64) \<and>
   sint (ll_value (ULonglong_neg 5)) = - 5"
  using hybrid_conversions [of "Longlong_hybrid 7 True" 0 5] hybrid_conversions [of "Longlong_hybrid 7 False" 0 5]
  by simp

text \<open>
  The SQL shift operators of \<open>Longlong_null\<close> shift by the count modulo \<open>2 ^ 32\<close>, not by the
  count: it is first converted to a 32-bit \<open>uint\<close>, so a count of \<open>2 ^ 32\<close> shifts by nothing where a
  count of 64 gives 0. A NULL operand gives NULL.
\<close>

lemma shift_count_truncated:
  assumes "\<not> ll_is_null a" "\<not> ll_is_null s"
  shows "uint (ll_value (ll_shl a s)) =
      (if uint (ll_value s) mod 2 ^ 32 < 64 then uint (ll_value a) * 2 ^ nat (uint (ll_value s) mod 2 ^ 32) mod 2 ^ 64 else 0) \<and>
    uint (ll_value (ll_shr a s)) =
      (if uint (ll_value s) mod 2 ^ 32 < 64 then uint (ll_value a) div 2 ^ nat (uint (ll_value s) mod 2 ^ 32) else 0) \<and>
    \<not> ll_is_null (ll_shl a s) \<and> \<not> ll_is_null (ll_shr a s) \<and>
    ll_is_null (ll_shl Longlong_null_empty s) \<and> ll_is_null (ll_shr a Longlong_null_empty)"
  using ll_shift_value [OF assms] ll_null_propagates assms
  by (simp add: Longlong_null_empty_def Longlong_null_def)

lemma shift_count_truncated_witness:
  "uint (ll_value (ll_shl (Longlong_null_of 5) (Longlong_null_of 4294967296))) = 5 \<and>
   uint (ll_value (ll_shl (Longlong_null_of 5) (Longlong_null_of 64))) = 0"
  using shift_count_truncated [of "Longlong_null_of 5" "Longlong_null_of 4294967296"]
    shift_count_truncated [of "Longlong_null_of 5" "Longlong_null_of 64"]
  by (simp add: Longlong_null_of_def Longlong_null_def)

end
