(* ===== verification/Date_Modes.thy ===== *)
theory Date_Modes
  imports Prelude
begin

text \<open>
  The date conversion flags of \<open>sql_basic_types.h\<close>. The header keeps three bit masks apart
  by type: data type conversion flags (\<open>date_conv_mode_t\<close>), the fractional rounding mode
  (\<open>time_round_mode_t\<close>), and their mixture (\<open>date_mode_t\<close>), the argument of \<open>get_date()\<close>.
  Each is a datatype around its mask here, so that the same mixtures are ill-typed. The
  lemmas say that the mixture loses nothing: the two parts come back from it.
  The operators \<open>~\<close> are left out: their value depends on the width the compiler gives the enum.
\<close>

subsection \<open>date_conv_mode_t\<close>

datatype date_conv_mode_t = Date_conv_mode (conv_bits: u64)

definition CONV_NONE :: u64 where "CONV_NONE = 0"
definition FUZZY_DATES :: u64 where "FUZZY_DATES = 1"
definition TIME_ONLY :: u64 where "TIME_ONLY = 4"
definition INTERVAL_hhmmssff :: u64 where "INTERVAL_hhmmssff = 8"
definition INTERVAL_DAY :: u64 where "INTERVAL_DAY = 16"
definition RANGE0_LAST :: u64 where "RANGE0_LAST = INTERVAL_DAY"
definition NO_ZERO_IN_DATE :: u64 where "NO_ZERO_IN_DATE = push_bit 23 1"
definition NO_ZERO_DATE :: u64 where "NO_ZERO_DATE = push_bit 24 1"
definition INVALID_DATES :: u64 where "INVALID_DATES = push_bit 25 1"

definition CONV_KNOWN_MODES :: u64 where
  "CONV_KNOWN_MODES = FUZZY_DATES OR TIME_ONLY OR INTERVAL_hhmmssff OR INTERVAL_DAY OR
     NO_ZERO_IN_DATE OR NO_ZERO_DATE OR INVALID_DATES"

definition conv_is_set :: "date_conv_mode_t \<Rightarrow> bool" where
  "conv_is_set m \<longleftrightarrow> conv_bits m \<noteq> 0"

definition conv_and :: "date_conv_mode_t \<Rightarrow> date_conv_mode_t \<Rightarrow> date_conv_mode_t" where
  "conv_and m other = Date_conv_mode (conv_bits m AND conv_bits other)"

definition conv_and_bits :: "date_conv_mode_t \<Rightarrow> u64 \<Rightarrow> date_conv_mode_t" where
  "conv_and_bits m other = Date_conv_mode (conv_bits m AND other)"

definition conv_or :: "date_conv_mode_t \<Rightarrow> date_conv_mode_t \<Rightarrow> date_conv_mode_t" where
  "conv_or m other = Date_conv_mode (conv_bits m OR conv_bits other)"

definition conv_and_assign :: "date_conv_mode_t \<Rightarrow> date_conv_mode_t \<Rightarrow> date_conv_mode_t" where
  "conv_and_assign m other = Date_conv_mode (conv_bits m AND conv_bits other)"

definition conv_or_assign :: "date_conv_mode_t \<Rightarrow> date_conv_mode_t \<Rightarrow> date_conv_mode_t" where
  "conv_or_assign m other = Date_conv_mode (conv_bits m OR conv_bits other)"

subsection \<open>time_round_mode_t\<close>

datatype time_round_mode_t = Time_round_mode (round_bits: u64)

definition FRAC_NONE :: u64 where "FRAC_NONE = 0"
definition FRAC_TRUNCATE :: u64 where "FRAC_TRUNCATE = push_bit 1 RANGE0_LAST"
definition FRAC_ROUND :: u64 where "FRAC_ROUND = push_bit 2 RANGE0_LAST"

definition ROUND_KNOWN_MODES :: u64 where
  "ROUND_KNOWN_MODES = FRAC_TRUNCATE OR FRAC_ROUND"

text \<open>The constructor asserts that the mode is one of the three (under \<open>MYSQL_SERVER\<close>).\<close>

definition time_round_mode :: "u64 \<Rightarrow> time_round_mode_t option" where
  "time_round_mode mode =
     guard (mode = FRAC_NONE \<or> mode = FRAC_TRUNCATE \<or> mode = FRAC_ROUND) (Time_round_mode mode)"

definition round_eq :: "time_round_mode_t \<Rightarrow> time_round_mode_t \<Rightarrow> bool" where
  "round_eq m other \<longleftrightarrow> round_bits m = round_bits other"

subsection \<open>date_mode_t\<close>

datatype date_mode_t = Date_mode (mode_bits: u64)

definition to_date_conv_mode :: "date_mode_t \<Rightarrow> date_conv_mode_t" where
  "to_date_conv_mode m = Date_conv_mode (mode_bits m AND CONV_KNOWN_MODES)"

definition to_time_round_mode :: "date_mode_t \<Rightarrow> time_round_mode_t option" where
  "to_time_round_mode m = time_round_mode (mode_bits m AND ROUND_KNOWN_MODES)"

definition mode_is_set :: "date_mode_t \<Rightarrow> bool" where
  "mode_is_set m \<longleftrightarrow> mode_bits m \<noteq> 0"

definition mode_not :: "date_mode_t \<Rightarrow> bool" where
  "mode_not m \<longleftrightarrow> mode_bits m = 0"

definition mode_and :: "date_mode_t \<Rightarrow> date_mode_t \<Rightarrow> date_mode_t" where
  "mode_and m other = Date_mode (mode_bits m AND mode_bits other)"

definition mode_and_bits :: "date_mode_t \<Rightarrow> u64 \<Rightarrow> date_mode_t" where
  "mode_and_bits m other = Date_mode (mode_bits m AND other)"

definition mode_or :: "date_mode_t \<Rightarrow> date_mode_t \<Rightarrow> date_mode_t" where
  "mode_or m other = Date_mode (mode_bits m OR mode_bits other)"

definition mode_and_assign :: "date_mode_t \<Rightarrow> date_mode_t \<Rightarrow> date_mode_t" where
  "mode_and_assign m other = Date_mode (mode_bits m AND mode_bits other)"

definition mode_or_assign :: "date_mode_t \<Rightarrow> date_mode_t \<Rightarrow> date_mode_t" where
  "mode_or_assign m other = Date_mode (mode_bits m OR mode_bits other)"

definition mode_or_assign_conv :: "date_mode_t \<Rightarrow> date_conv_mode_t \<Rightarrow> date_mode_t" where
  "mode_or_assign_conv m other = Date_mode (mode_bits m OR conv_bits other)"

subsection \<open>Mixtures\<close>

definition mode_or_conv :: "date_mode_t \<Rightarrow> date_conv_mode_t \<Rightarrow> date_mode_t" where
  "mode_or_conv a b = Date_mode (mode_bits a OR conv_bits b)"

definition conv_or_round :: "date_conv_mode_t \<Rightarrow> time_round_mode_t \<Rightarrow> date_mode_t" where
  "conv_or_round a b = Date_mode (conv_bits a OR round_bits b)"

definition conv_or_mode :: "date_conv_mode_t \<Rightarrow> date_mode_t \<Rightarrow> date_mode_t" where
  "conv_or_mode a b = Date_mode (conv_bits a OR mode_bits b)"

definition mode_and_conv :: "date_mode_t \<Rightarrow> date_conv_mode_t \<Rightarrow> date_conv_mode_t" where
  "mode_and_conv a b = Date_conv_mode (mode_bits a AND conv_bits b)"

definition conv_and_mode :: "date_conv_mode_t \<Rightarrow> date_mode_t \<Rightarrow> date_conv_mode_t" where
  "conv_and_mode a b = Date_conv_mode (conv_bits a AND mode_bits b)"

definition sql_mode_and_conv :: "u64 \<Rightarrow> date_conv_mode_t \<Rightarrow> date_conv_mode_t" where
  "sql_mode_and_conv a b = Date_conv_mode (a AND conv_bits b)"

definition TIME_NO_ZEROS :: date_conv_mode_t where
  "TIME_NO_ZEROS = Date_conv_mode (NO_ZERO_DATE OR NO_ZERO_IN_DATE)"

definition TIME_MODE_FOR_XXX_TO_DATE :: date_conv_mode_t where
  "TIME_MODE_FOR_XXX_TO_DATE = Date_conv_mode (NO_ZERO_IN_DATE OR NO_ZERO_DATE OR INVALID_DATES)"

lemmas mode_consts = CONV_NONE_def FUZZY_DATES_def TIME_ONLY_def INTERVAL_hhmmssff_def INTERVAL_DAY_def
  RANGE0_LAST_def NO_ZERO_IN_DATE_def NO_ZERO_DATE_def INVALID_DATES_def CONV_KNOWN_MODES_def
  FRAC_NONE_def FRAC_TRUNCATE_def FRAC_ROUND_def ROUND_KNOWN_MODES_def

subsection \<open>The parts of a mixture\<close>

lemma known_modes_disjoint: "CONV_KNOWN_MODES AND ROUND_KNOWN_MODES = 0"
  by (simp add: mode_consts)

lemma known_modes_values: "CONV_KNOWN_MODES = 0x380001D" "ROUND_KNOWN_MODES = 0x60"
  by (simp_all add: mode_consts)

text \<open>A rounding mode the constructor accepts lies inside the rounding mask.\<close>

lemma time_round_mode_known:
  "time_round_mode b = Some r \<Longrightarrow> round_bits r AND ROUND_KNOWN_MODES = round_bits r \<and>
     round_bits r AND CONV_KNOWN_MODES = 0 \<and> time_round_mode (round_bits r) = Some r"
  by (auto simp: time_round_mode_def mode_consts)

lemma and_two_bits:
  "w AND (push_bit i 1 OR push_bit j 1) =
     (if bit w i then push_bit i 1 else 0) OR (if bit w j then push_bit j 1 else 0)" for w :: "'a::len word"
  by (rule bit_word_eqI) (auto simp: bit_and_iff bit_or_iff bit_exp_iff)

text \<open>The conversion to a rounding mode fails exactly when both rounding flags are set.\<close>

lemma to_time_round_mode_None:
  "to_time_round_mode m = None \<longleftrightarrow> bit (mode_bits m) 5 \<and> bit (mode_bits m) 6"
proof -
  have k: "ROUND_KNOWN_MODES = push_bit 5 1 OR push_bit 6 1" by (simp add: known_modes_values)
  have "mode_bits m AND ROUND_KNOWN_MODES =
      (if bit (mode_bits m) 5 then push_bit 5 1 else 0) OR (if bit (mode_bits m) 6 then push_bit 6 1 else 0)"
    unfolding k by (rule and_two_bits)
  then show ?thesis
    by (auto simp: to_time_round_mode_def time_round_mode_def mode_consts)
qed

text \<open>Splitting a mixture and joining the parts keeps every known flag.\<close>

lemma split_join:
  assumes "to_time_round_mode m = Some r"
  shows "mode_bits (conv_or_round (to_date_conv_mode m) r) = mode_bits m AND (CONV_KNOWN_MODES OR ROUND_KNOWN_MODES)"
  using assms by (auto simp: to_time_round_mode_def time_round_mode_def to_date_conv_mode_def
      conv_or_round_def bit.conj_disj_distrib)

text \<open>Joining two parts and splitting the mixture gives the parts back.\<close>

lemma join_split:
  assumes conv: "conv_bits c AND CONV_KNOWN_MODES = conv_bits c" and round: "time_round_mode b = Some r"
  shows "to_date_conv_mode (conv_or_round c r) = c"
    and "to_time_round_mode (conv_or_round c r) = Some r"
proof -
  note r = time_round_mode_known [OF round]
  have "conv_bits c AND ROUND_KNOWN_MODES = conv_bits c AND (CONV_KNOWN_MODES AND ROUND_KNOWN_MODES)"
    using conv by (metis and.assoc)
  then have "conv_bits c AND ROUND_KNOWN_MODES = 0" by (simp add: known_modes_disjoint)
  with conv r show "to_date_conv_mode (conv_or_round c r) = c"
    and "to_time_round_mode (conv_or_round c r) = Some r"
    by (simp_all add: to_date_conv_mode_def to_time_round_mode_def conv_or_round_def bit.conj_disj_distrib2)
qed

subsection \<open>Properties\<close>

text \<open>
  A conversion mode and a rounding mode joined in one \<open>date_mode_t\<close> are read back unchanged,
  and splitting a mode and joining the parts keeps exactly the known bits. Reading the rounding
  mode fails its assertion exactly for a mode with both fraction bits.
\<close>

lemma date_mode_roundtrip:
  assumes "conv_bits c AND CONV_KNOWN_MODES = conv_bits c" "time_round_mode b = Some r"
  shows "to_date_conv_mode (conv_or_round c r) = c \<and> to_time_round_mode (conv_or_round c r) = Some r \<and>
    (to_time_round_mode m = None \<longleftrightarrow> bit (mode_bits m) 5 \<and> bit (mode_bits m) 6) \<and>
    (\<forall>q. to_time_round_mode m = Some q \<longrightarrow>
       mode_bits (conv_or_round (to_date_conv_mode m) q) = mode_bits m AND (CONV_KNOWN_MODES OR ROUND_KNOWN_MODES))"
  using join_split [OF assms] split_join [of m] to_time_round_mode_None [of m] by blast

lemma date_mode_roundtrip_witness:
  "to_date_conv_mode (conv_or_round (Date_conv_mode TIME_ONLY) (Time_round_mode FRAC_ROUND)) = Date_conv_mode TIME_ONLY \<and>
   to_time_round_mode (conv_or_round (Date_conv_mode TIME_ONLY) (Time_round_mode FRAC_ROUND)) = Some (Time_round_mode FRAC_ROUND)"
proof -
  have "conv_bits (Date_conv_mode TIME_ONLY) AND CONV_KNOWN_MODES = conv_bits (Date_conv_mode TIME_ONLY)"
    by (simp add: mode_consts known_modes_values)
  moreover have "time_round_mode FRAC_ROUND = Some (Time_round_mode FRAC_ROUND)" by (simp add: time_round_mode_def)
  ultimately show ?thesis using date_mode_roundtrip [of "Date_conv_mode TIME_ONLY" FRAC_ROUND "Time_round_mode FRAC_ROUND"]
    by blast
qed

end
