(* ===== verification/Bitmaps.thy ===== *)
theory Bitmaps
  imports Bits
begin

text \<open>
  The class \<open>Bitmap<width>\<close> of \<open>sql_bitmap.h\<close> and its iterators. The buffer is the list of
  its \<open>ARRAY_ELEMENTS\<close> words; \<open>width\<close>, the template argument, is a parameter of the operations
  (and is positive: the array would be empty otherwise). The abstraction \<open>bits_of\<close> is the set
  of the members below \<open>width\<close>; \<open>bm_ok\<close> says that the buffer has its length and that the
  bits from \<open>width\<close> on are clear. Every operation is related to the operation on sets it
  stands for.
\<close>

subsection \<open>Table_map_iterator\<close>

definition TABLE_MAP_BITMAP_END :: nat where "TABLE_MAP_BITMAP_END = 64"

text \<open>\<open>next_bit\<close> returns the lowest bit and the iterator without it.\<close>

definition next_bit :: "u64 \<Rightarrow> (nat \<times> u64) option" where
  "next_bit bmp =
     (if bmp = 0 then Some (TABLE_MAP_BITMAP_END, bmp)
      else case my_find_first_bit bmp of
          None \<Rightarrow> None
        | Some k \<Rightarrow> Some (k, bmp AND NOT (push_bit k 1)))"

subsection \<open>The class Bitmap\<close>

type_synonym bitmap = "u64 list"

definition BITS_PER_ELEMENT :: nat where "BITS_PER_ELEMENT = 8 * 8"

definition ARRAY_ELEMENTS :: "nat \<Rightarrow> nat" where
  "ARRAY_ELEMENTS width = (width + BITS_PER_ELEMENT - 1) div BITS_PER_ELEMENT"

definition ALL_BITS_SET :: u64 where "ALL_BITS_SET = 0xFFFFFFFFFFFFFFFF"

definition bit_index :: "nat \<Rightarrow> nat \<Rightarrow> nat" where
  "bit_index width n = (if ARRAY_ELEMENTS width = 1 then 0 else n div BITS_PER_ELEMENT)"

definition bit_mask :: "nat \<Rightarrow> nat \<Rightarrow> u64" where
  "bit_mask width n = (if ARRAY_ELEMENTS width = 1 then push_bit n 1 else push_bit (n mod BITS_PER_ELEMENT) 1)"

text \<open>
  \<open>last_element_mask\<close> asserts \<open>n % 64 \<noteq> 0\<close> and, through \<open>bit_mask\<close>, \<open>n < width\<close>. The second
  assertion fails for the calls with \<open>n = width\<close> (\<open>set_all\<close>, \<open>set_prefix (width)\<close> and
  \<open>intersect_and_pad\<close>), where the release build still computes the mask: the model follows
  the release build.
\<close>

definition last_element_mask :: "nat \<Rightarrow> nat \<Rightarrow> u64" where
  "last_element_mask width n = bit_mask width n - 1"

definition set_bit :: "nat \<Rightarrow> nat \<Rightarrow> bitmap \<Rightarrow> bitmap option" where
  "set_bit width n buffer =
     guard (n < width) (let i = bit_index width n in buffer[i := buffer ! i OR bit_mask width n])"

definition clear_bit :: "nat \<Rightarrow> nat \<Rightarrow> bitmap \<Rightarrow> bitmap option" where
  "clear_bit width n buffer =
     guard (n < width) (let i = bit_index width n in buffer[i := buffer ! i AND NOT (bit_mask width n)])"

definition is_set :: "nat \<Rightarrow> nat \<Rightarrow> bitmap \<Rightarrow> bool option" where
  "is_set width n buffer = guard (n < width) (buffer ! bit_index width n AND bit_mask width n \<noteq> 0)"

text \<open>The three loops of \<open>set_prefix\<close> write every element once, in index order.\<close>

definition set_prefix :: "nat \<Rightarrow> nat \<Rightarrow> bitmap" where
  "set_prefix width prefix_size =
     (let prefix_size = min prefix_size width;
          idx = prefix_size div BITS_PER_ELEMENT;
          full = replicate idx ALL_BITS_SET;
          part = (if prefix_size mod BITS_PER_ELEMENT \<noteq> 0 then [last_element_mask width prefix_size] else [])
      in full @ part @ replicate (ARRAY_ELEMENTS width - length (full @ part)) 0)"

definition is_prefix :: "nat \<Rightarrow> nat \<Rightarrow> bitmap \<Rightarrow> bool option" where
  "is_prefix width prefix_size buffer =
     guard (prefix_size \<le> width)
       (let idx = prefix_size div BITS_PER_ELEMENT;
            idx' = (if prefix_size mod BITS_PER_ELEMENT \<noteq> 0 then idx + 1 else idx)
        in list_all (\<lambda>i. buffer ! i = ALL_BITS_SET) [0..<idx] \<and>
           (prefix_size mod BITS_PER_ELEMENT \<noteq> 0 \<longrightarrow> buffer ! idx = last_element_mask width prefix_size) \<and>
           list_all (\<lambda>i. buffer ! i = 0) [idx'..<ARRAY_ELEMENTS width])"

definition set_all :: "nat \<Rightarrow> bitmap" where
  "set_all width =
     (if width mod BITS_PER_ELEMENT \<noteq> 0 then set_prefix width width
      else replicate (ARRAY_ELEMENTS width) ALL_BITS_SET)"

definition clear_all :: "nat \<Rightarrow> bitmap" where
  "clear_all width = replicate (ARRAY_ELEMENTS width) 0"

definition bm_intersect :: "bitmap \<Rightarrow> bitmap \<Rightarrow> bitmap" where
  "bm_intersect buffer m2 = map2 (AND) buffer m2"

definition intersect_and_pad :: "nat \<Rightarrow> u64 \<Rightarrow> bool \<Rightarrow> bitmap \<Rightarrow> bitmap" where
  "intersect_and_pad width map2buff pad_with_ones buffer =
     (let buffer = (buffer ! 0 AND map2buff) #
            replicate (ARRAY_ELEMENTS width - 1) (if pad_with_ones then ALL_BITS_SET else 0)
      in if ARRAY_ELEMENTS width > 1 \<and> width mod BITS_PER_ELEMENT \<noteq> 0 \<and> pad_with_ones
         then buffer[ARRAY_ELEMENTS width - 1 := last_element_mask width width] else buffer)"

definition bm_intersect_word :: "nat \<Rightarrow> u64 \<Rightarrow> bitmap \<Rightarrow> bitmap" where
  "bm_intersect_word width map2buff buffer = intersect_and_pad width map2buff False buffer"

definition intersect_extended :: "nat \<Rightarrow> u64 \<Rightarrow> bitmap \<Rightarrow> bitmap" where
  "intersect_extended width map2buff buffer =
     intersect_and_pad width map2buff (map2buff AND push_bit 63 1 \<noteq> 0) buffer"

definition bm_subtract :: "bitmap \<Rightarrow> bitmap \<Rightarrow> bitmap" where
  "bm_subtract buffer m2 = map2 (\<lambda>x y. x AND NOT y) buffer m2"

definition bm_merge :: "bitmap \<Rightarrow> bitmap \<Rightarrow> bitmap" where
  "bm_merge buffer m2 = map2 (OR) buffer m2"

fun is_clear_all :: "bitmap \<Rightarrow> bool" where
  "is_clear_all [] = True"
| "is_clear_all (x # buffer) = (if x \<noteq> 0 then False else is_clear_all buffer)"

fun is_subset :: "bitmap \<Rightarrow> bitmap \<Rightarrow> bool" where
  "is_subset (x # buffer) (y # m2) = (if x AND NOT y \<noteq> 0 then False else is_subset buffer m2)"
| "is_subset _ _ = True"

fun is_overlapping :: "bitmap \<Rightarrow> bitmap \<Rightarrow> bool" where
  "is_overlapping (x # buffer) (y # m2) = (if x AND y \<noteq> 0 then True else is_overlapping buffer m2)"
| "is_overlapping _ _ = False"

definition bm_eq :: "bitmap \<Rightarrow> bitmap \<Rightarrow> bool" where
  "bm_eq buffer m2 \<longleftrightarrow> (if length buffer > 1 then buffer = m2 else buffer ! 0 = m2 ! 0)"

definition bm_neq :: "bitmap \<Rightarrow> bitmap \<Rightarrow> bool" where
  "bm_neq buffer m2 \<longleftrightarrow> \<not> bm_eq buffer m2"

definition bm_to_ulonglong :: "bitmap \<Rightarrow> u64" where
  "bm_to_ulonglong buffer = buffer ! 0"

definition bits_set :: "bitmap \<Rightarrow> u32" where
  "bits_set buffer = foldl (\<lambda>res x. res + my_count_bits x) 0 buffer"

text \<open>
  \<open>print\<close>: the digit table \<open>_dig_vec_upper\<close> and \<open>longlong2str\<close> are not under the headers and
  are parameters. The shift starts at 60 and grows by 4 for each digit: from the second digit
  on it is at least 64, which is undefined.
\<close>

fun print_digits :: "(nat \<Rightarrow> char) \<Rightarrow> u64 \<Rightarrow> nat \<Rightarrow> nat \<Rightarrow> string option" where
  "print_digits dig num shift 0 = Some []"
| "print_digits dig num shift (Suc k) =
     (if 64 \<le> shift then None
      else map_option (Cons (dig (unat (drop_bit shift num AND 0xf)))) (print_digits dig num (shift + 4) k))"

fun print_elements :: "(nat \<Rightarrow> char) \<Rightarrow> u64 list \<Rightarrow> string option" where
  "print_elements dig [] = Some []"
| "print_elements dig (num # nums) =
     (case print_digits dig num (BITS_PER_ELEMENT - 4) (BITS_PER_ELEMENT div 4) of
        None \<Rightarrow> None
      | Some s \<Rightarrow> map_option ((@) s) (print_elements dig nums))"

text \<open>The index of the last non-zero element, or 0.\<close>

fun last_nonzero :: "bitmap \<Rightarrow> nat \<Rightarrow> nat" where
  "last_nonzero buffer 0 = 0"
| "last_nonzero buffer (Suc k) = (if buffer ! Suc k = 0 then last_nonzero buffer k else Suc k)"

definition bm_print :: "(nat \<Rightarrow> char) \<Rightarrow> (u64 \<Rightarrow> nat \<Rightarrow> string) \<Rightarrow> nat \<Rightarrow> bitmap \<Rightarrow> string option" where
  "bm_print dig longlong2str width buffer =
     (let lst = last_nonzero buffer (ARRAY_ELEMENTS width - 1)
      in case print_elements dig (take lst buffer) of
           None \<Rightarrow> None
         | Some s \<Rightarrow> let t = longlong2str (buffer ! lst) 16 in Some (t @ CHR 0x00 # drop (length t + 1) s))"

text \<open>The iterator: the offset of the current element and the bits of it not yet returned.\<close>

type_synonym bm_iter = "nat \<times> u64"

definition iter_init :: "bitmap \<Rightarrow> bm_iter" where
  "iter_init m2 = (0, m2 ! 0)"

function iter_next :: "nat \<Rightarrow> bitmap \<Rightarrow> nat \<Rightarrow> u64 \<Rightarrow> (nat \<times> bm_iter) option" where
  "iter_next width m offset tmi =
     (case next_bit tmi of
        None \<Rightarrow> None
      | Some (nextbit, tmi') \<Rightarrow>
          if nextbit \<noteq> TABLE_MAP_BITMAP_END then Some (offset + nextbit, (offset, tmi'))
          else if offset + BITS_PER_ELEMENT \<ge> width then Some (width, (offset, tmi'))
          else iter_next width m (offset + BITS_PER_ELEMENT) (m ! ((offset + BITS_PER_ELEMENT) div BITS_PER_ELEMENT)))"
  by pat_completeness auto
termination
  by (relation "measure (\<lambda>(width, m, offset, tmi). width - offset)") (auto simp: BITS_PER_ELEMENT_def)

declare iter_next.simps [simp del]

text \<open>Calling the iterator until it returns \<open>BITMAP_END\<close>, at most \<open>fuel\<close> times.\<close>

fun iter_all :: "nat \<Rightarrow> bitmap \<Rightarrow> nat \<Rightarrow> bm_iter \<Rightarrow> nat list option" where
  "iter_all width m 0 it = None"
| "iter_all width m (Suc fuel) it =
     (case iter_next width m (fst it) (snd it) of
        None \<Rightarrow> None
      | Some (n, it') \<Rightarrow> if n = width then Some [] else map_option (Cons n) (iter_all width m fuel it'))"

subsection \<open>The set a bitmap stands for\<close>

lemma BITS_PER_ELEMENT_64: "BITS_PER_ELEMENT = 64"
  by (simp add: BITS_PER_ELEMENT_def)

lemmas bm_consts = BITS_PER_ELEMENT_64 ARRAY_ELEMENTS_def TABLE_MAP_BITMAP_END_def

definition bm_mem :: "bitmap \<Rightarrow> nat \<Rightarrow> bool" where
  "bm_mem bm n \<longleftrightarrow> n div 64 < length bm \<and> bit (bm ! (n div 64)) (n mod 64)"

definition bits_of :: "nat \<Rightarrow> bitmap \<Rightarrow> nat set" where
  "bits_of width bm = {n. n < width \<and> bm_mem bm n}"

definition bm_ok :: "nat \<Rightarrow> bitmap \<Rightarrow> bool" where
  "bm_ok width bm \<longleftrightarrow> 0 < width \<and> length bm = ARRAY_ELEMENTS width \<and> (\<forall>n. bm_mem bm n \<longrightarrow> n < width)"

lemma ARRAY_ELEMENTS_alt: "ARRAY_ELEMENTS width = (width + 63) div 64"
  by (simp add: bm_consts)

lemma element_index: "n < width \<Longrightarrow> n div 64 < ARRAY_ELEMENTS width"
  unfolding ARRAY_ELEMENTS_alt by linarith

lemma bm_ok_length: "bm_ok width bm \<Longrightarrow> length bm = ARRAY_ELEMENTS width"
  by (simp add: bm_ok_def)

lemma ARRAY_ELEMENTS_partial:
  assumes "width mod 64 \<noteq> 0" shows "ARRAY_ELEMENTS width = Suc (width div 64)"
proof -
  have "(width mod 64 + 63) div 64 = 1"
    using assms by (intro div_nat_eqI) simp_all
  then show ?thesis unfolding ARRAY_ELEMENTS_alt div_add1_eq [of width 63] by simp
qed

lemma bits_of_mem: "bm_ok width bm \<Longrightarrow> n \<in> bits_of width bm \<longleftrightarrow> bm_mem bm n"
  by (auto simp: bits_of_def bm_ok_def)

lemma bits_of_finite [simp]: "finite (bits_of width bm)"
  by (rule finite_subset [of _ "{..<width}"]) (auto simp: bits_of_def)

text \<open>A bitmap is determined by its length and its set.\<close>

lemma bm_eqI:
  assumes "length a = length b" "\<And>n. bm_mem a n \<longleftrightarrow> bm_mem b n"
  shows "a = b"
proof (rule list_eq_nthI [OF assms(1)])
  fix i assume i: "i < length a"
  show "a ! i = b ! i"
  proof (rule bit_word_eqI)
    fix k assume "k < LENGTH(64)"
    then have "(64 * i + k) div 64 = i" "(64 * i + k) mod 64 = k" by simp_all
    then show "bit (a ! i) k = bit (b ! i) k"
      using assms(2) [of "64 * i + k"] i assms(1) by (simp add: bm_mem_def)
  qed
qed

lemma bm_ok_eqI:
  "bm_ok width a \<Longrightarrow> bm_ok width b \<Longrightarrow> bits_of width a = bits_of width b \<Longrightarrow> a = b"
  by (rule bm_eqI) (auto simp: bm_ok_length simp flip: bits_of_mem)

text \<open>Index and mask of a member.\<close>

lemma bit_index_eq: "n < width \<Longrightarrow> bit_index width n = n div 64"
  by (auto simp: bit_index_def bm_consts)

lemma bit_mask_eq: "n < width \<Longrightarrow> bit_mask width n = push_bit (n mod 64) 1"
  by (auto simp: bit_mask_def bm_consts)

lemma last_element_mask_eq:
  assumes "n \<le> width" "n mod 64 \<noteq> 0" shows "last_element_mask width n = mask (n mod 64)"
proof -
  have "n mod 64 = n" if "ARRAY_ELEMENTS width = 1"
    using that assms unfolding ARRAY_ELEMENTS_alt by (cases "n = 64") simp_all
  then show ?thesis
    by (simp add: last_element_mask_def bit_mask_def bm_consts mask_eq_exp_minus_1)
qed

subsection \<open>Operations on members\<close>

lemma bm_mem_update:
  assumes "i < length bm"
  shows "bm_mem (bm[i := w]) n \<longleftrightarrow> (if n div 64 = i then bit w (n mod 64) else bm_mem bm n)"
  using assms by (auto simp: bm_mem_def nth_list_update)

lemma bm_mem_map2:
  "length a = length b \<Longrightarrow> bm_mem (map2 f a b) n \<longleftrightarrow>
     n div 64 < length a \<and> bit (f (a ! (n div 64)) (b ! (n div 64))) (n mod 64)"
  by (auto simp: bm_mem_def)

lemma same_position: "n div 64 = m div 64 \<Longrightarrow> n mod 64 = m mod 64 \<longleftrightarrow> n = m" for n m :: nat
  by (metis div_mult_mod_eq)

lemma set_bit_correct:
  assumes ok: "bm_ok width bm" and n: "n < width"
  shows "\<exists>bm'. set_bit width n bm = Some bm' \<and> bm_ok width bm' \<and> bits_of width bm' = insert n (bits_of width bm)"
proof -
  let ?i = "n div 64"
  let ?bm = "bm[?i := bm ! ?i OR push_bit (n mod 64) 1]"
  have i: "?i < length bm" using ok n by (simp add: bm_ok_length element_index)
  have mem: "bm_mem ?bm m \<longleftrightarrow> m = n \<or> bm_mem bm m" for m
    unfolding bm_mem_update [OF i] using i same_position [of m n]
    by (auto simp: bit_or_iff bit_shift_one bm_mem_def)
  then have "bm_ok width ?bm" using ok n by (auto simp: bm_ok_def)
  moreover have "bits_of width ?bm = insert n (bits_of width bm)"
    using mem n by (auto simp: bits_of_def)
  ultimately show ?thesis
    using n by (simp add: set_bit_def bit_index_eq bit_mask_eq Let_def)
qed

lemma clear_bit_correct:
  assumes ok: "bm_ok width bm" and n: "n < width"
  shows "\<exists>bm'. clear_bit width n bm = Some bm' \<and> bm_ok width bm' \<and> bits_of width bm' = bits_of width bm - {n}"
proof -
  let ?i = "n div 64"
  let ?bm = "bm[?i := bm ! ?i AND NOT (push_bit (n mod 64) 1)]"
  have i: "?i < length bm" using ok n by (simp add: bm_ok_length element_index)
  have mem: "bm_mem ?bm m \<longleftrightarrow> m \<noteq> n \<and> bm_mem bm m" for m
    unfolding bm_mem_update [OF i] using i same_position [of m n]
    by (auto simp: bit_and_iff bit_not_iff bit_shift_one bm_mem_def)
  then have "bm_ok width ?bm" using ok n by (auto simp: bm_ok_def)
  moreover have "bits_of width ?bm = bits_of width bm - {n}"
    using mem n by (auto simp: bits_of_def)
  ultimately show ?thesis
    using n by (simp add: clear_bit_def bit_index_eq bit_mask_eq Let_def)
qed

lemma and_shift_nonzero: "w AND 2 ^ k \<noteq> 0 \<longleftrightarrow> bit w k" for w :: u64
proof -
  have "w AND 2 ^ k = 0 \<longleftrightarrow> (\<forall>i. \<not> (bit w i \<and> i = k \<and> k < 64))"
    by (simp add: word_zero_iff_no_bit bit_and_iff bit_shift_one)
  then show ?thesis using word_bit_bound [of w k] by auto
qed

lemma is_set_correct:
  assumes "bm_ok width bm" "n < width"
  shows "is_set width n bm = Some (n \<in> bits_of width bm)"
  using assms by (simp add: is_set_def bit_index_eq bit_mask_eq and_shift_nonzero bits_of_mem
      bm_mem_def bm_ok_length element_index)

text \<open>The operations outside their assertion.\<close>

lemma bit_ops_None:
  "width \<le> n \<Longrightarrow> set_bit width n bm = None \<and> clear_bit width n bm = None \<and> is_set width n bm = None"
  by (simp add: set_bit_def clear_bit_def is_set_def)

subsection \<open>Whole-bitmap operations\<close>

lemma prefix_elements:
  fixes p width :: nat
  assumes "p \<le> width"
  shows "p div 64 + (if p mod 64 \<noteq> 0 then 1 else 0) \<le> (width + 63) div 64"
proof (cases "p mod 64 = 0")
  case True
  then show ?thesis using assms by (simp add: div_le_mono)
next
  case False
  then have "1 \<le> p mod 64" by simp
  then have "p div 64 * 64 + 64 \<le> width + 63" using div_mult_mod_eq [of p 64] assms by linarith
  then have "(p div 64 + 1) * 64 \<le> width + 63" by (simp only: add_mult_distrib mult_1)
  then show ?thesis using False by (simp add: less_eq_div_iff_mult_less_eq)
qed

lemma ALL_BITS_SET_alt: "ALL_BITS_SET = - 1"
  by (simp add: ALL_BITS_SET_def)

lemma bm_mem_prefix:
  assumes "p \<le> width"
  shows "bm_mem (set_prefix width p) n \<longleftrightarrow> n < p"
proof -
  have len: "p div 64 + (if p mod 64 \<noteq> 0 then 1 else 0) \<le> ARRAY_ELEMENTS width"
    using prefix_elements [OF assms] by (simp add: ARRAY_ELEMENTS_alt)
  have ones: "bit ALL_BITS_SET k \<longleftrightarrow> k < 64" for k
    by (simp add: ALL_BITS_SET_alt word_max_bits)
  have m: "min p width = p" using assms by simp
  consider "n div 64 < p div 64" | "n div 64 = p div 64" | "p div 64 < n div 64" by linarith
  then show ?thesis
  proof cases
    case 1
    then have "n < p" by (metis div_le_mono linorder_not_less)
    with 1 len show ?thesis
      by (auto simp: set_prefix_def Let_def m bm_consts(1) bm_mem_def nth_append ones)
  next
    case 2
    then have "n < p \<longleftrightarrow> n mod 64 < p mod 64"
      by (metis add_less_cancel_left mult_div_mod_eq)
    with 2 len show ?thesis
      using last_element_mask_eq [OF assms]
      by (auto simp: set_prefix_def Let_def m bm_consts(1) bm_mem_def nth_append bit_mask_iff)
  next
    case 3
    then have "\<not> n < p" by (metis div_le_mono linorder_not_less less_or_eq_imp_le)
    with 3 len show ?thesis
      by (auto simp: set_prefix_def Let_def m bm_consts(1) bm_mem_def nth_append nth_Cons')
  qed
qed

lemma length_set_prefix: "length (set_prefix width p) = ARRAY_ELEMENTS width"
proof -
  define q where "q = min p width"
  have "q div 64 + (if q mod 64 \<noteq> 0 then 1 else 0) \<le> ARRAY_ELEMENTS width"
    using prefix_elements [of q width] by (simp only: ARRAY_ELEMENTS_alt q_def min.cobounded2)
  then show ?thesis
    unfolding set_prefix_def Let_def bm_consts(1) q_def [symmetric]
    by (cases "q mod 64 = 0") simp_all
qed

theorem set_prefix_correct:
  assumes "0 < width"
  shows "bm_ok width (set_prefix width p) \<and> bits_of width (set_prefix width p) = {..<min p width}"
proof -
  have e: "set_prefix width p = set_prefix width (min p width)"
    by (simp add: set_prefix_def)
  have "bm_mem (set_prefix width p) n \<longleftrightarrow> n < min p width" for n
    unfolding e by (rule bm_mem_prefix) simp
  then have m: "bm_mem (set_prefix width p) n \<longleftrightarrow> n < p \<and> n < width" for n by simp
  show ?thesis using assms unfolding bm_ok_def bits_of_def m length_set_prefix by auto
qed

lemma set_all_correct:
  assumes "0 < width"
  shows "bm_ok width (set_all width) \<and> bits_of width (set_all width) = {..<width}"
proof (cases "width mod 64 = 0")
  case True
  have "set_prefix width width = replicate (ARRAY_ELEMENTS width) ALL_BITS_SET"
  proof -
    from True obtain k where "width = 64 * k" by (meson dvdE mod_eq_0_iff_dvd)
    then have "ARRAY_ELEMENTS width = width div 64" by (simp add: ARRAY_ELEMENTS_alt)
    with True show ?thesis by (simp add: set_prefix_def Let_def bm_consts(1))
  qed
  then show ?thesis
    using set_prefix_correct [OF assms, of width] True by (simp add: set_all_def bm_consts(1))
next
  case False
  then show ?thesis
    using set_prefix_correct [OF assms, of width] by (simp add: set_all_def bm_consts(1))
qed

lemma clear_all_correct: "0 < width \<Longrightarrow> bm_ok width (clear_all width) \<and> bits_of width (clear_all width) = {}"
  by (auto simp: clear_all_def bm_ok_def bits_of_def bm_mem_def)

text \<open>\<open>is_prefix\<close> recognises exactly the bitmaps \<open>set_prefix\<close> makes.\<close>

lemma nth_set_prefix:
  assumes "p \<le> width" "i < ARRAY_ELEMENTS width"
  shows "set_prefix width p ! i =
     (if i < p div 64 then ALL_BITS_SET
      else if i = p div 64 \<and> p mod 64 \<noteq> 0 then last_element_mask width p else 0)"
proof -
  have "min p width = p" using assms(1) by simp
  then show ?thesis using assms(2)
    by (auto simp: set_prefix_def Let_def bm_consts(1) nth_append nth_Cons')
qed

lemma is_prefix_eq:
  assumes "p \<le> width" "length bm = ARRAY_ELEMENTS width" "0 < width"
  shows "is_prefix width p bm = Some (bm = set_prefix width p)"
proof -
  have len: "p div 64 + (if p mod 64 \<noteq> 0 then 1 else 0) \<le> length bm"
    using prefix_elements [OF assms(1)] by (simp only: assms(2) ARRAY_ELEMENTS_alt)
  have "bm = set_prefix width p \<longleftrightarrow> (\<forall>i < length bm. bm ! i = set_prefix width p ! i)"
    by (simp add: list_eq_iff_nth_eq length_set_prefix assms)
  also have "\<dots> \<longleftrightarrow> (\<forall>i < length bm. bm ! i =
      (if i < p div 64 then ALL_BITS_SET
       else if i = p div 64 \<and> p mod 64 \<noteq> 0 then last_element_mask width p else 0))"
    using assms by (simp add: nth_set_prefix)
  finally show ?thesis
    using assms(1) len by (auto simp: is_prefix_def Let_def bm_consts(1) list_all_iff assms(2) [symmetric])
qed

text \<open>Bitmap against bitmap: intersection, difference, union, inclusion, overlap, equality.\<close>

lemma bm_set_ops:
  assumes "bm_ok width a" "bm_ok width b"
  shows "bm_ok width (bm_intersect a b) \<and> bits_of width (bm_intersect a b) = bits_of width a \<inter> bits_of width b"
    and "bm_ok width (bm_subtract a b) \<and> bits_of width (bm_subtract a b) = bits_of width a - bits_of width b"
    and "bm_ok width (bm_merge a b) \<and> bits_of width (bm_merge a b) = bits_of width a \<union> bits_of width b"
proof -
  have l: "length a = length b" "length a = ARRAY_ELEMENTS width" using assms by (simp_all add: bm_ok_length)
  have "bm_mem (bm_intersect a b) n \<longleftrightarrow> bm_mem a n \<and> bm_mem b n" for n
    unfolding bm_intersect_def bm_mem_map2 [OF l(1)] using l by (auto simp: bm_mem_def bit_and_iff)
  then show "bm_ok width (bm_intersect a b) \<and> bits_of width (bm_intersect a b) = bits_of width a \<inter> bits_of width b"
    using assms by (auto simp: bm_ok_def bits_of_def bm_intersect_def)
  have "bm_mem (bm_subtract a b) n \<longleftrightarrow> bm_mem a n \<and> \<not> bm_mem b n" for n
    unfolding bm_subtract_def bm_mem_map2 [OF l(1)] using l by (auto simp: bm_mem_def bit_and_iff bit_not_iff)
  then show "bm_ok width (bm_subtract a b) \<and> bits_of width (bm_subtract a b) = bits_of width a - bits_of width b"
    using assms by (auto simp: bm_ok_def bits_of_def bm_subtract_def)
  have "bm_mem (bm_merge a b) n \<longleftrightarrow> bm_mem a n \<or> bm_mem b n" for n
    unfolding bm_merge_def bm_mem_map2 [OF l(1)] using l by (auto simp: bm_mem_def bit_or_iff)
  then show "bm_ok width (bm_merge a b) \<and> bits_of width (bm_merge a b) = bits_of width a \<union> bits_of width b"
    using assms by (auto simp: bm_ok_def bits_of_def bm_merge_def)
qed

lemma all_Suc_conv: "(\<forall>i < Suc n. P i) \<longleftrightarrow> P 0 \<and> (\<forall>i < n. P (Suc i))"
  by (auto simp: less_Suc_eq_0_disj)

lemma ex_Suc_conv: "(\<exists>i < Suc n. P i) \<longleftrightarrow> P 0 \<or> (\<exists>i < n. P (Suc i))"
  by (auto simp: less_Suc_eq_0_disj)

lemma is_clear_all_iff: "is_clear_all bm \<longleftrightarrow> (\<forall>i < length bm. bm ! i = 0)"
  by (induction bm rule: is_clear_all.induct) (simp_all add: all_Suc_conv)

lemma is_subset_iff:
  "length a = length b \<Longrightarrow> is_subset a b \<longleftrightarrow> (\<forall>i < length a. a ! i AND NOT (b ! i) = 0)"
  by (induction a b rule: is_subset.induct) (simp_all add: all_Suc_conv)

lemma is_overlapping_iff:
  "length a = length b \<Longrightarrow> is_overlapping a b \<longleftrightarrow> (\<exists>i < length a. a ! i AND b ! i \<noteq> 0)"
  by (induction a b rule: is_overlapping.induct) (simp_all add: ex_Suc_conv)

lemma no_member_iff: "(\<forall>n. \<not> bm_mem bm n) \<longleftrightarrow> (\<forall>i < length bm. bm ! i = 0)"
proof
  assume *: "\<forall>n. \<not> bm_mem bm n"
  show "\<forall>i < length bm. bm ! i = 0"
  proof (intro allI impI)
    fix i assume "i < length bm"
    then have "\<not> bit (bm ! i) k" if "k < 64" for k
      using that spec [OF *, of "64 * i + k"] \<open>i < length bm\<close> by (simp add: bm_mem_def)
    then show "bm ! i = 0" using word_bit_bound [of "bm ! i"] by (auto simp: word_zero_iff_no_bit)
  qed
qed (auto simp: bm_mem_def)

theorem bm_tests:
  assumes a: "bm_ok width a" and b: "bm_ok width b"
  shows "is_clear_all a \<longleftrightarrow> bits_of width a = {}"
    and "is_subset a b \<longleftrightarrow> bits_of width a \<subseteq> bits_of width b"
    and "is_overlapping a b \<longleftrightarrow> bits_of width a \<inter> bits_of width b \<noteq> {}"
    and "bm_eq a b \<longleftrightarrow> bits_of width a = bits_of width b"
proof -
  have l: "length a = length b" using a b by (simp add: bm_ok_length)
  have empty: "bits_of width m = {} \<longleftrightarrow> (\<forall>i < length m. m ! i = 0)" if "bm_ok width m" for m
    unfolding no_member_iff [symmetric] using that by (auto simp: bits_of_def bm_ok_def)
  show "is_clear_all a \<longleftrightarrow> bits_of width a = {}"
    using empty [OF a] by (simp add: is_clear_all_iff)
  have "is_subset a b \<longleftrightarrow> bits_of width (bm_subtract a b) = {}"
    unfolding empty [OF conjunct1 [OF bm_set_ops(2) [OF a b]]]
    using l by (simp add: is_subset_iff bm_subtract_def)
  then show "is_subset a b \<longleftrightarrow> bits_of width a \<subseteq> bits_of width b"
    using bm_set_ops(2) [OF a b] by blast
  have "\<not> is_overlapping a b \<longleftrightarrow> bits_of width (bm_intersect a b) = {}"
    unfolding empty [OF conjunct1 [OF bm_set_ops(1) [OF a b]]]
    using l by (simp add: is_overlapping_iff bm_intersect_def)
  then show "is_overlapping a b \<longleftrightarrow> bits_of width a \<inter> bits_of width b \<noteq> {}"
    using bm_set_ops(1) [OF a b] by blast
  have "bm_eq a b \<longleftrightarrow> a = b"
  proof (cases "length a > 1")
    case False
    have "0 < length a" using a unfolding bm_ok_def ARRAY_ELEMENTS_alt by (simp add: div_greater_zero_iff)
    with False have "length a = 1" by linarith
    then show ?thesis using l by (auto simp: bm_eq_def length_Suc_conv)
  qed (simp add: bm_eq_def)
  then show "bm_eq a b \<longleftrightarrow> bits_of width a = bits_of width b"
    using bm_ok_eqI [OF a b] by auto
qed

text \<open>Intersection with one word, the rest of the bitmap padded.\<close>

lemma intersect_and_pad_correct:
  assumes ok: "bm_ok width bm"
  shows "bm_ok width (intersect_and_pad width m pad bm) \<and>
     bits_of width (intersect_and_pad width m pad bm) =
       {n \<in> bits_of width bm. n < 64 \<and> bit m n} \<union> {n. pad \<and> 64 \<le> n \<and> n < width}"
proof -
  let ?A = "ARRAY_ELEMENTS width"
  have A: "0 < ?A" "length bm = ?A" "0 < width"
    using ok by (auto simp: bm_ok_def ARRAY_ELEMENTS_alt div_greater_zero_iff)
  define r where "r = intersect_and_pad width m pad bm"
  have len: "length r = ?A" using A by (simp add: r_def intersect_and_pad_def Let_def del: list_update.simps)
  have r0: "r ! 0 = bm ! 0 AND m"
    using A by (auto simp: r_def intersect_and_pad_def Let_def nth_list_update simp del: list_update.simps)
  have rlast: "r ! (?A - 1) = last_element_mask width width" if "1 < ?A" "width mod 64 \<noteq> 0" pad
    using that by (simp add: r_def intersect_and_pad_def Let_def bm_consts(1) del: list_update.simps)
  have ri: "r ! i = (if pad then ALL_BITS_SET else 0)"
    if "0 < i" "i < ?A" "\<not> (i = ?A - 1 \<and> width mod 64 \<noteq> 0 \<and> pad)" for i
    using that by (auto simp: r_def intersect_and_pad_def Let_def nth_list_update nth_Cons' bm_consts(1) simp del: list_update.simps)
  have mem: "bm_mem r n \<longleftrightarrow> (bm_mem bm n \<and> n < 64 \<and> bit m n) \<or> (pad \<and> 64 \<le> n \<and> n < width)" for n
  proof (cases "n < 64")
    case True
    then show ?thesis using A len by (auto simp: bm_mem_def r0 bit_and_iff)
  next
    case False
    then have i: "0 < n div 64" by (simp add: div_greater_zero_iff)
    show ?thesis
    proof (cases "n div 64 < ?A")
      case in_range: True
      show ?thesis
      proof (cases "n div 64 = ?A - 1 \<and> width mod 64 \<noteq> 0 \<and> pad")
        case True
        then have "bm_mem r n \<longleftrightarrow> n mod 64 < width mod 64"
          using rlast i in_range len by (simp add: bm_mem_def last_element_mask_eq bit_mask_iff)
        moreover have "n div 64 = width div 64"
          using True by (simp add: ARRAY_ELEMENTS_partial)
        then have "n mod 64 < width mod 64 \<longleftrightarrow> n < width"
          by (metis add_less_cancel_left mult_div_mod_eq)
        ultimately show ?thesis using True False by simp
      next
        case not_last: False
        have "bm_mem r n \<longleftrightarrow> pad"
          using ri [OF i in_range not_last] in_range len by (simp add: bm_mem_def ALL_BITS_SET_alt word_max_bits)
        moreover have "n < width" if pad
          using not_last that in_range unfolding ARRAY_ELEMENTS_alt by auto
        ultimately show ?thesis using False by auto
      qed
    next
      case out_of_range: False
      then have "\<not> n < width" using element_index by blast
      then show ?thesis using out_of_range len \<open>\<not> n < 64\<close> by (simp add: bm_mem_def)
    qed
  qed
  show ?thesis unfolding r_def [symmetric]
    using ok mem len A(3) by (auto simp: bm_ok_def bits_of_def)
qed

subsection \<open>Counting and walking the members\<close>

lemma bits_of_nth:
  "bm_ok width bm \<Longrightarrow> bits_of width bm = (\<Union>i < length bm. (\<lambda>k. 64 * i + k) ` {k. bit (bm ! i) k})"
proof (rule set_eqI)
  fix n assume ok: "bm_ok width bm"
  show "n \<in> bits_of width bm \<longleftrightarrow> n \<in> (\<Union>i < length bm. (\<lambda>k. 64 * i + k) ` {k. bit (bm ! i) k})"
    unfolding bits_of_mem [OF ok]
  proof
    assume "bm_mem bm n"
    moreover have "n = 64 * (n div 64) + n mod 64" by simp
    ultimately show "n \<in> (\<Union>i < length bm. (\<lambda>k. 64 * i + k) ` {k. bit (bm ! i) k})"
      unfolding bm_mem_def by blast
  next
    assume "n \<in> (\<Union>i < length bm. (\<lambda>k. 64 * i + k) ` {k. bit (bm ! i) k})"
    then obtain i k where "i < length bm" "bit (bm ! i) k" "n = 64 * i + k" by auto
    moreover have "k < 64" using word_bit_bound [of "bm ! i" k] calculation by simp
    ultimately show "bm_mem bm n" by (simp add: bm_mem_def)
  qed
qed

lemma card_bits_of:
  assumes "bm_ok width bm"
  shows "card (bits_of width bm) = sum_list (map popcount bm)"
proof -
  have fin: "finite {k. bit (w :: u64) k}" for w
    by (rule finite_subset [of _ "{..<64}"]) (auto dest: word_bit_bound)
  have "card (bits_of width bm) = (\<Sum>i < length bm. card ((\<lambda>k. 64 * i + k) ` {k. bit (bm ! i) k}))"
    unfolding bits_of_nth [OF assms]
  proof (rule card_UN_disjoint)
    show "\<forall>i \<in> {..<length bm}. \<forall>j \<in> {..<length bm}. i \<noteq> j \<longrightarrow>
        (\<lambda>k. 64 * i + k) ` {k. bit (bm ! i) k} \<inter> (\<lambda>k. 64 * j + k) ` {k. bit (bm ! j) k} = {}"
    proof (intro ballI impI)
      fix i j :: nat assume "i \<noteq> j"
      have "64 * i + k \<noteq> 64 * j + l" if "bit (bm ! i) k" "bit (bm ! j) l" for k l
      proof -
        have "k < 64" "l < 64" using that word_bit_bound by fastforce+
        then have "(64 * i + k) div 64 = i" "(64 * j + l) div 64 = j" by simp_all
        then show ?thesis using \<open>i \<noteq> j\<close> by metis
      qed
      then show "(\<lambda>k. 64 * i + k) ` {k. bit (bm ! i) k} \<inter> (\<lambda>k. 64 * j + k) ` {k. bit (bm ! j) k} = {}"
        by blast
    qed
  qed (use fin in auto)
  also have "\<dots> = (\<Sum>i < length bm. popcount (bm ! i))"
    by (simp add: card_image popcount_card)
  also have "\<dots> = sum_list (map popcount bm)"
    by (simp add: sum_list_sum_nth atLeast0LessThan)
  finally show ?thesis .
qed

lemma bits_set_correct:
  assumes "bm_ok width bm" "width < 2 ^ 32"
  shows "unat (bits_set bm) = card (bits_of width bm)"
proof -
  have fold: "unat (foldl (\<lambda>res x. res + my_count_bits x) r xs) = unat r + sum_list (map popcount xs)"
    if "unat r + sum_list (map popcount xs) < 2 ^ 32" for r :: u32 and xs :: "u64 list"
    using that
  proof (induction xs arbitrary: r)
    case (Cons x xs)
    then have "unat (r + my_count_bits x) = unat r + popcount x"
      by (simp add: unat_plus_if' my_count_bits_popcount)
    with Cons show ?case by simp
  qed simp
  have "card (bits_of width bm) \<le> card {..<width}"
    by (rule card_mono) (auto simp: bits_of_def)
  then show ?thesis
    using fold [of 0 bm] assms by (simp add: bits_set_def card_bits_of)
qed

text \<open>One step of the word iterator: the least bit, removed.\<close>

lemma next_bit_correct:
  "next_bit w = Some (if w = 0 then (64, w) else ((LEAST k. bit w k), w AND NOT (push_bit (LEAST k. bit w k) 1)))"
  by (simp add: next_bit_def my_find_first_bit_correct TABLE_MAP_BITMAP_END_def)

text \<open>The members the iterator has still to return.\<close>

definition iter_rest :: "nat \<Rightarrow> bitmap \<Rightarrow> bm_iter \<Rightarrow> nat set" where
  "iter_rest width m it =
     {fst it + k | k. bit (snd it) k} \<union> {n \<in> bits_of width m. fst it + 64 \<le> n}"

definition iter_ok :: "nat \<Rightarrow> bitmap \<Rightarrow> bm_iter \<Rightarrow> bool" where
  "iter_ok width m it \<longleftrightarrow> bm_ok width m \<and> fst it mod 64 = 0 \<and> fst it < width \<and>
     (\<forall>k. bit (snd it) k \<longrightarrow> fst it + k \<in> bits_of width m)"

lemma iter_init_ok: "bm_ok width m \<Longrightarrow> iter_ok width m (iter_init m) \<and> iter_rest width m (iter_init m) = bits_of width m"
proof -
  assume ok: "bm_ok width m"
  then have l: "0 < length m" "0 < width" by (auto simp: bm_ok_def ARRAY_ELEMENTS_alt div_greater_zero_iff)
  have b: "bit (m ! 0) k \<longleftrightarrow> k \<in> bits_of width m \<and> k < 64" for k
    using l word_bit_bound [of "m ! 0" k] by (auto simp: bits_of_mem [OF ok] bm_mem_def)
  have "{k. bit (m ! 0) k} \<union> {n \<in> bits_of width m. 64 \<le> n} = bits_of width m"
    unfolding b by auto
  then show ?thesis using ok l by (simp add: iter_ok_def iter_rest_def iter_init_def b)
qed

text \<open>
  One call of the iterator returns the least member still to come and the rest without it,
  or \<open>BITMAP_END\<close> (the width) when there is none.
\<close>

lemma least_of_rest:
  assumes "bit w l" "\<And>k. bit w k \<Longrightarrow> l \<le> k" "l < 64"
  shows "(LEAST n. n \<in> {off + k | k. bit w k} \<union> {n \<in> S. off + 64 \<le> n}) = off + l"
  by (rule Least_equality) (use assms in fastforce)+

lemma iter_next_correct:
  assumes "iter_ok width m (off, w)"
  shows "\<exists>it. iter_next width m off w =
           Some (if iter_rest width m (off, w) = {} then width else (LEAST n. n \<in> iter_rest width m (off, w)), it) \<and>
         iter_ok width m it \<and>
         iter_rest width m it = iter_rest width m (off, w) - {LEAST n. n \<in> iter_rest width m (off, w)}"
  using assms
proof (induction width m off w rule: iter_next.induct)
  case (1 width m off w)
  show ?case
  proof (cases "w = 0")
    case False
    define l where "l = (LEAST k. bit w k)"
    have ex: "\<exists>k. bit w k" using False word_zero_iff_no_bit by blast
    have l: "bit w l" "\<And>k. bit w k \<Longrightarrow> l \<le> k"
      unfolding l_def using ex by (auto intro: LeastI_ex Least_le)
    have l64: "l < 64" using word_bit_bound [OF l(1)] by simp
    let ?w = "w AND NOT (push_bit l 1)"
    have w: "bit ?w k \<longleftrightarrow> bit w k \<and> k \<noteq> l" for k
      using word_bit_bound [of w k] by (auto simp: bit_and_iff bit_not_iff bit_shift_one)
    have least: "(LEAST n. n \<in> iter_rest width m (off, w)) = off + l"
      using least_of_rest [OF l l64] by (simp add: iter_rest_def)
    have "iter_next width m off w = Some (off + l, (off, ?w))"
      using False l64 by (simp add: iter_next.simps [of width m off w] next_bit_correct TABLE_MAP_BITMAP_END_def
          flip: l_def)
    moreover have "iter_rest width m (off, w) \<noteq> {}" using l(1) by (auto simp: iter_rest_def)
    moreover have "iter_ok width m (off, ?w)"
      using 1(2) unfolding iter_ok_def fst_conv snd_conv w by blast
    moreover have "iter_rest width m (off, ?w) = iter_rest width m (off, w) - {off + l}"
      using l64 unfolding iter_rest_def fst_conv snd_conv w by auto
    ultimately show ?thesis by (simp add: least)
  next
    case True
    then have nb: "next_bit w = Some (64, w)" by (simp add: next_bit_correct)
    show ?thesis
    proof (cases "width \<le> off + 64")
      case end_of_map: True
      then have "iter_rest width m (off, w) = {}"
        using True by (auto simp: iter_rest_def bits_of_def)
      moreover have "iter_next width m off w = Some (width, (off, w))"
        using end_of_map by (simp add: iter_next.simps [of width m off w] nb bm_consts)
      ultimately show ?thesis using 1(2) by simp
    next
      case False
      let ?v = "m ! ((off + 64) div 64)"
      have ok: "bm_ok width m" and off: "off mod 64 = 0" using 1(2) by (simp_all add: iter_ok_def)
      have v: "bit ?v k \<longleftrightarrow> k < 64 \<and> off + 64 + k \<in> bits_of width m" for k
      proof -
        have "(off + 64 + k) div 64 = (off + 64) div 64 \<and> (off + 64 + k) mod 64 = k" if "k < 64"
        proof -
          obtain j where "off + 64 = 64 * Suc j" using off by (auto simp: mod_eq_0_iff_dvd elim: dvdE)
          then show ?thesis using that by (simp only: div_mult_self4 mod_mult_self4) simp
        qed
        moreover have "(off + 64) div 64 < length m"
          using False ok by (simp add: bm_ok_length element_index)
        ultimately show ?thesis
          using word_bit_bound [of ?v k] by (auto simp: bits_of_mem [OF ok] bm_mem_def)
      qed
      have next_ok: "iter_ok width m (off + 64, ?v)"
        using ok off False by (simp add: iter_ok_def v)
      have split: "{n \<in> bits_of width m. off + 64 \<le> n} =
          {off + 64 + k | k. k < 64 \<and> off + 64 + k \<in> bits_of width m} \<union> {n \<in> bits_of width m. off + 64 + 64 \<le> n}"
      proof (intro set_eqI iffI)
        fix n assume "n \<in> {n \<in> bits_of width m. off + 64 \<le> n}"
        then obtain k where "n = off + 64 + k" "n \<in> bits_of width m" by (auto dest: le_Suc_ex)
        then show "n \<in> {off + 64 + k | k. k < 64 \<and> off + 64 + k \<in> bits_of width m} \<union>
            {n \<in> bits_of width m. off + 64 + 64 \<le> n}"
          by (cases "k < 64") auto
      qed auto
      have rest: "iter_rest width m (off + 64, ?v) = iter_rest width m (off, w)"
        using True unfolding iter_rest_def fst_conv snd_conv v split by simp
      have "iter_next width m off w = iter_next width m (off + 64) ?v"
        using False by (simp add: iter_next.simps [of width m off w] nb bm_consts)
      moreover from "1.IH" [OF nb refl] False next_ok
      have "\<exists>it. iter_next width m (off + 64) ?v =
           Some (if iter_rest width m (off + 64, ?v) = {} then width else (LEAST n. n \<in> iter_rest width m (off + 64, ?v)), it) \<and>
         iter_ok width m it \<and>
         iter_rest width m it = iter_rest width m (off + 64, ?v) - {LEAST n. n \<in> iter_rest width m (off + 64, ?v)}"
        unfolding bm_consts by blast
      ultimately show ?thesis by (simp only: rest)
    qed
  qed
qed

text \<open>Walking to the end lists the members in ascending order.\<close>

lemma iter_all_correct:
  assumes "iter_ok width m it" "card (iter_rest width m it) < fuel"
  shows "iter_all width m fuel it = Some (sorted_list_of_set (iter_rest width m it))"
  using assms
proof (induction fuel arbitrary: it)
  case (Suc fuel)
  let ?R = "iter_rest width m it"
  have fin: "finite ?R"
    by (rule finite_subset [of _ "bits_of width m"]) (use Suc.prems(1) in \<open>auto simp: iter_rest_def iter_ok_def\<close>)
  have below: "n < width" if "n \<in> ?R" for n
    using that Suc.prems(1) by (auto simp: iter_rest_def iter_ok_def bits_of_def)
  obtain it' where it': "iter_next width m (fst it) (snd it) = Some (if ?R = {} then width else (LEAST n. n \<in> ?R), it')"
      "iter_ok width m it'" "iter_rest width m it' = ?R - {LEAST n. n \<in> ?R}"
    using iter_next_correct [of width m "fst it" "snd it"] Suc.prems(1) by auto
  show ?case
  proof (cases "?R = {}")
    case True
    then show ?thesis using it'(1) by simp
  next
    case False
    then have mem: "(LEAST n. n \<in> ?R) \<in> ?R" by (auto intro: LeastI)
    have min: "(LEAST n. n \<in> ?R) = Min ?R" using Least_Min [of "\<lambda>n. n \<in> ?R"] fin False by auto
    have "card (iter_rest width m it') < fuel"
      using Suc.prems(2) card_Diff1_less [OF fin mem] unfolding it'(3) by linarith
    note step = Suc.IH [OF it'(2) this]
    have "iter_all width m (Suc fuel) it = map_option (Cons (Min ?R)) (iter_all width m fuel it')"
      using it'(1) below [OF mem] False by (simp add: min)
    then show ?thesis
      using sorted_list_of_set_nonempty [OF fin False] unfolding step it'(3) min by simp
  qed
qed simp

theorem iterator_lists_members:
  assumes "bm_ok width m" "card (bits_of width m) < fuel"
  shows "iter_all width m fuel (iter_init m) = Some (sorted_list_of_set (bits_of width m))"
  using iter_all_correct [of width m "iter_init m" fuel] iter_init_ok [OF assms(1)] assms(2) by simp

subsection \<open>Printing\<close>

text \<open>The second digit of any element is already undefined, so only one-word values print.\<close>

lemma print_digits_None: "print_digits dig num 60 16 = None"
  by (simp add: eval_nat_numeral)

lemma last_nonzero_pos: "0 < last_nonzero bm k \<longleftrightarrow> (\<exists>i. 0 < i \<and> i \<le> k \<and> bm ! i \<noteq> 0)"
proof (induction k)
  case (Suc k)
  then show ?case by (auto simp: le_Suc_eq)
qed simp

theorem bm_print_undefined:
  assumes "bm_ok width bm"
  shows "bm_print dig longlong2str width bm = None \<longleftrightarrow> (\<exists>n \<in> bits_of width bm. 64 \<le> n)"
proof -
  define k where "k = last_nonzero bm (ARRAY_ELEMENTS width - 1)"
  have l: "0 < length bm" "length bm = ARRAY_ELEMENTS width" 
    using assms by (auto simp: bm_ok_def ARRAY_ELEMENTS_alt div_greater_zero_iff)
  have "bm_print dig longlong2str width bm = None \<longleftrightarrow> 0 < k"
  proof (cases k)
    case (Suc j)
    have "print_elements dig (take k bm) = None"
      using l(1) Suc by (cases bm) (simp_all add: bm_consts print_digits_None)
    then show ?thesis using Suc unfolding bm_print_def Let_def k_def [symmetric] by simp
  next
    case 0
    then show ?thesis unfolding bm_print_def Let_def k_def [symmetric] by simp
  qed
  also have "\<dots> \<longleftrightarrow> (\<exists>i. 0 < i \<and> i < length bm \<and> bm ! i \<noteq> 0)"
  proof -
    have "i \<le> ARRAY_ELEMENTS width - 1 \<longleftrightarrow> i < length bm" for i using l by linarith
    then show ?thesis unfolding k_def last_nonzero_pos by simp
  qed
  also have "\<dots> \<longleftrightarrow> (\<exists>n \<in> bits_of width bm. 64 \<le> n)"
  proof
    assume "\<exists>i. 0 < i \<and> i < length bm \<and> bm ! i \<noteq> 0"
    then obtain i k where "0 < i" "i < length bm" "bit (bm ! i) k" using word_zero_iff_no_bit by blast
    moreover have "k < 64" using word_bit_bound [of "bm ! i" k] calculation by simp
    ultimately have "bm_mem bm (64 * i + k)" "64 \<le> 64 * i + k" by (simp_all add: bm_mem_def)
    then show "\<exists>n \<in> bits_of width bm. 64 \<le> n" using bits_of_mem [OF assms] by blast
  next
    assume "\<exists>n \<in> bits_of width bm. 64 \<le> n"
    then obtain n where "bm_mem bm n" "64 \<le> n" using bits_of_mem [OF assms] by blast
    then have "0 < n div 64" "n div 64 < length bm" "bm ! (n div 64) \<noteq> 0"
      by (auto simp: bm_mem_def div_greater_zero_iff)
    then show "\<exists>i. 0 < i \<and> i < length bm \<and> bm ! i \<noteq> 0" by blast
  qed
  finally show ?thesis .
qed

subsection \<open>The interface of a key map\<close>

text \<open>
  What the optimizer relies on when it uses a \<open>Bitmap\<close> as a set of key numbers: insertion,
  removal and test of one number below the width, on bitmaps that keep their invariant.
\<close>

locale number_set =
  fixes bound :: nat
    and ok :: "'m \<Rightarrow> bool"
    and members :: "'m \<Rightarrow> nat set"
    and insert_num :: "nat \<Rightarrow> 'm \<Rightarrow> 'm option"
    and remove_num :: "nat \<Rightarrow> 'm \<Rightarrow> 'm option"
    and test_num :: "nat \<Rightarrow> 'm \<Rightarrow> bool option"
  assumes insert_law: "ok m \<Longrightarrow> n < bound \<Longrightarrow>
      \<exists>m'. insert_num n m = Some m' \<and> ok m' \<and> members m' = insert n (members m)"
    and remove_law: "ok m \<Longrightarrow> n < bound \<Longrightarrow>
      \<exists>m'. remove_num n m = Some m' \<and> ok m' \<and> members m' = members m - {n}"
    and test_law: "ok m \<Longrightarrow> n < bound \<Longrightarrow> test_num n m = Some (n \<in> members m)"
begin

lemma insert_list:
  assumes "ok m" "\<forall>n \<in> set ns. n < bound"
  shows "\<exists>m'. fold (\<lambda>n r. Option.bind r (insert_num n)) ns (Some m) = Some m' \<and> ok m' \<and> members m' = members m \<union> set ns"
  using assms
proof (induction ns arbitrary: m)
  case (Cons n ns)
  then obtain m1 where "insert_num n m = Some m1" "ok m1" "members m1 = insert n (members m)"
    using insert_law [of m n] by auto
  with Cons.IH [of m1] Cons.prems show ?case by auto
qed simp

lemma remove_list:
  assumes "ok m" "\<forall>n \<in> set ns. n < bound"
  shows "\<exists>m'. fold (\<lambda>n r. Option.bind r (remove_num n)) ns (Some m) = Some m' \<and> ok m' \<and> members m' = members m - set ns"
  using assms
proof (induction ns arbitrary: m)
  case (Cons n ns)
  then obtain m1 where "remove_num n m = Some m1" "ok m1" "members m1 = members m - {n}"
    using remove_law [of m n] by auto
  with Cons.IH [of m1] Cons.prems show ?case by auto
qed simp

lemma insert_test:
  assumes "ok m" "n < bound" "k < bound" "insert_num n m = Some m'"
  shows "test_num k m' = Some (k = n \<or> k \<in> members m)"
  using insert_law [OF assms(1,2)] test_law [of m' k] assms by auto

end

interpretation key_map: number_set width "bm_ok width" "bits_of width" "set_bit width" "clear_bit width" "is_set width"
  for width
  by unfold_locales (simp_all add: set_bit_correct clear_bit_correct is_set_correct)

subsection \<open>Properties\<close>

text \<open>
  C6. A Bitmap is a set of bit numbers below its width: \<open>set_bit\<close> and \<open>clear_bit\<close> insert and remove
  one number, \<open>is_set\<close> is membership, the binary operations are intersection, difference and union,
  and all of them keep the unused bits of the last word clear.
\<close>

theorem bitmap_is_a_set:
  assumes "bm_ok width a" "bm_ok width b" "n < width"
  shows "(\<exists>c. set_bit width n a = Some c \<and> bm_ok width c \<and> bits_of width c = insert n (bits_of width a)) \<and>
    (\<exists>c. clear_bit width n a = Some c \<and> bm_ok width c \<and> bits_of width c = bits_of width a - {n}) \<and>
    is_set width n a = Some (n \<in> bits_of width a) \<and>
    bm_ok width (bm_intersect a b) \<and> bits_of width (bm_intersect a b) = bits_of width a \<inter> bits_of width b \<and>
    bm_ok width (bm_subtract a b) \<and> bits_of width (bm_subtract a b) = bits_of width a - bits_of width b \<and>
    bm_ok width (bm_merge a b) \<and> bits_of width (bm_merge a b) = bits_of width a \<union> bits_of width b"
  using set_bit_correct [OF assms(1,3)] clear_bit_correct [OF assms(1,3)] is_set_correct [OF assms(1,3)]
    bm_set_ops [OF assms(1,2)] by blast

lemma bitmap_is_a_set_witness:
  "bits_of 65 (bm_merge (set_prefix 65 3) (set_prefix 65 64)) = {..<64} \<and>
   is_set 65 64 (set_prefix 65 3) = Some False"
  using bitmap_is_a_set [of 65 "set_prefix 65 3" "set_prefix 65 64" 64] set_prefix_correct [of 65 3]
    set_prefix_correct [of 65 64]
  by (auto simp: lessThan_def)

text \<open>
  The tests of Bitmap decide emptiness, inclusion, overlap and equality of the sets;
  \<open>bits_set\<close> counts the members and \<open>set_prefix\<close> makes the initial segment.
\<close>

lemma bitmap_tests_decide:
  assumes "bm_ok width a" "bm_ok width b" "width < 2 ^ 32"
  shows "(is_clear_all a \<longleftrightarrow> bits_of width a = {}) \<and>
    (is_subset a b \<longleftrightarrow> bits_of width a \<subseteq> bits_of width b) \<and>
    (is_overlapping a b \<longleftrightarrow> bits_of width a \<inter> bits_of width b \<noteq> {}) \<and>
    (bm_eq a b \<longleftrightarrow> bits_of width a = bits_of width b) \<and>
    unat (bits_set a) = card (bits_of width a) \<and>
    bits_of width (set_prefix width p) = {..<min p width}"
proof -
  have "0 < width" using assms(1) by (simp add: bm_ok_def)
  then show ?thesis
    using bm_tests [OF assms(1,2)] bits_set_correct [OF assms(1,3)] set_prefix_correct [of width p] by blast
qed

lemma bitmap_tests_decide_witness:
  "is_subset (set_prefix 70 2) (set_prefix 70 68) \<and> unat (bits_set (set_prefix 70 68)) = 68"
  using bitmap_tests_decide [of 70 "set_prefix 70 2" "set_prefix 70 68" 2] set_prefix_correct [of 70 2]
    bitmap_tests_decide [of 70 "set_prefix 70 68" "set_prefix 70 2" 68] set_prefix_correct [of 70 68]
  by simp

text \<open>
  C40. The bitmap iterator returns every member once, in increasing order, and then the width, so a
  loop over it ends after one call more than there are members.
\<close>

theorem iterator_visits_members:
  assumes "bm_ok width m" "card (bits_of width m) < fuel"
  shows "iter_all width m fuel (iter_init m) = Some (sorted_list_of_set (bits_of width m))"
  by (rule iterator_lists_members [OF assms])

lemma iterator_visits_members_witness:
  "iter_all 70 (set_prefix 70 66) 67 (iter_init (set_prefix 70 66)) = Some (sorted_list_of_set {..<66})"
  using iterator_visits_members [of 70 "set_prefix 70 66" 67] set_prefix_correct [of 70 66] by simp

text \<open>
  \<open>Bitmap::print\<close> is defined only when no bit from 64 on is set: as soon as a word after the
  first is printed, the shift count passes the width of the word.
\<close>

lemma print_only_one_word:
  assumes "bm_ok width bm"
  shows "bm_print dig longlong2str width bm = None \<longleftrightarrow> (\<exists>n. n \<in> bits_of width bm \<and> 64 \<le> n)"
  using bm_print_undefined [OF assms] by blast

lemma print_only_one_word_witness:
  "bm_print char_of (\<lambda>_ _. ''ff'') 70 (set_prefix 70 66) = None"
  using print_only_one_word [of 70 "set_prefix 70 66" char_of "\<lambda>_ _. ''ff''"] set_prefix_correct [of 70 66]
  by (auto intro: exI [of _ 65])

text \<open>
  \<open>Bitmap::intersect\<close> with a word keeps the low bits that both have and, with padding, sets all
  bits from 64 to the width: it assigns the upper words instead of intersecting them.
\<close>

lemma intersect_pads_upper_words:
  assumes "bm_ok width bm"
  shows "bm_ok width (intersect_and_pad width m pad bm) \<and>
    bits_of width (intersect_and_pad width m pad bm) =
      {n. n \<in> bits_of width bm \<and> n < 64 \<and> bit m n} \<union> {n. pad \<and> 64 \<le> n \<and> n < width}"
  using intersect_and_pad_correct [OF assms, of m pad] by auto

end
