(* ===== verification/List_Heap.thy ===== *)
theory List_Heap
  imports Prelude
begin

text \<open>
  The memory the list classes of \<open>sql_list.h\<close> work on. A node is an address with two fields,
  \<open>next\<close> and \<open>info\<close>; a list object is an identifier with the fields \<open>first\<close>, \<open>last\<close> and
  \<open>elements\<close>. A \<open>list_node **\<close> is a \<open>loc\<close>: it points to the \<open>first\<close> field of a list object or to
  the \<open>next\<close> field of a node, the only two cells of that type. \<open>path\<close> and \<open>list_ok\<close> relate the
  memory to the sequence of nodes a list stands for; the frame lemmas say which writes leave
  them alone. Memory is total here: the lemmas on the operations speak of well-formed lists,
  whose nodes are neither \<open>NULL\<close> nor \<open>end_of_list\<close>, so no read through \<open>NULL\<close> is covered by them.
\<close>

type_synonym addr = nat
type_synonym lid = nat

definition NULL :: addr where "NULL = 0"
definition end_of_list :: addr where "end_of_list = 1"

datatype loc = First lid | Next addr

record lheap =
  node_next :: "addr \<Rightarrow> addr"
  node_info :: "addr \<Rightarrow> addr"
  list_first :: "lid \<Rightarrow> addr"
  list_last :: "lid \<Rightarrow> loc"
  list_elements :: "lid \<Rightarrow> u32"

definition set_next :: "addr \<Rightarrow> addr \<Rightarrow> lheap \<Rightarrow> lheap" where
  "set_next a b h = h\<lparr>node_next := (node_next h)(a := b)\<rparr>"

definition set_info :: "addr \<Rightarrow> addr \<Rightarrow> lheap \<Rightarrow> lheap" where
  "set_info a i h = h\<lparr>node_info := (node_info h)(a := i)\<rparr>"

definition set_first :: "lid \<Rightarrow> addr \<Rightarrow> lheap \<Rightarrow> lheap" where
  "set_first l a h = h\<lparr>list_first := (list_first h)(l := a)\<rparr>"

definition set_last :: "lid \<Rightarrow> loc \<Rightarrow> lheap \<Rightarrow> lheap" where
  "set_last l p h = h\<lparr>list_last := (list_last h)(l := p)\<rparr>"

definition set_elements :: "lid \<Rightarrow> u32 \<Rightarrow> lheap \<Rightarrow> lheap" where
  "set_elements l n h = h\<lparr>list_elements := (list_elements h)(l := n)\<rparr>"

text \<open>\<open>*p\<close> as a value and as the target of an assignment.\<close>

fun deref :: "lheap \<Rightarrow> loc \<Rightarrow> addr" where
  "deref h (First l) = list_first h l"
| "deref h (Next a) = node_next h a"

fun assign :: "loc \<Rightarrow> addr \<Rightarrow> lheap \<Rightarrow> lheap" where
  "assign (First l) b h = set_first l b h"
| "assign (Next a) b h = set_next a b h"

text \<open>The two constructors of \<open>list_node\<close>: an element, and the terminator \<open>end_of_list\<close>.\<close>

definition list_node :: "addr \<Rightarrow> addr \<Rightarrow> addr \<Rightarrow> lheap \<Rightarrow> lheap" where
  "list_node a info_par next_par h = set_info a info_par (set_next a next_par h)"

definition init_end_of_list :: "lheap \<Rightarrow> lheap" where
  "init_end_of_list h = set_next end_of_list end_of_list (set_info end_of_list NULL h)"

text \<open>
  \<open>new list_node(info, next)\<close>: the allocator is not part of the headers, so the address it
  answers is an argument, \<open>NULL\<close> when memory is exhausted; the constructor runs only on success.
\<close>

definition new_list_node :: "addr \<Rightarrow> addr \<Rightarrow> addr \<Rightarrow> lheap \<Rightarrow> lheap" where
  "new_list_node a info_par next_par h = (if a = NULL then h else list_node a info_par next_par h)"

lemma heap_reads [simp, heap_simps]:
  "node_next (set_next a b h) x = (if x = a then b else node_next h x)"
  "node_info (set_next a b h) x = node_info h x"
  "list_first (set_next a b h) l = list_first h l"
  "list_last (set_next a b h) l = list_last h l"
  "list_elements (set_next a b h) l = list_elements h l"
  "node_next (set_info a i h) x = node_next h x"
  "node_info (set_info a i h) x = (if x = a then i else node_info h x)"
  "list_first (set_info a i h) l = list_first h l"
  "list_last (set_info a i h) l = list_last h l"
  "list_elements (set_info a i h) l = list_elements h l"
  "node_next (set_first k b h) x = node_next h x"
  "node_info (set_first k b h) x = node_info h x"
  "list_first (set_first k b h) l = (if l = k then b else list_first h l)"
  "list_last (set_first k b h) l = list_last h l"
  "list_elements (set_first k b h) l = list_elements h l"
  "node_next (set_last k p h) x = node_next h x"
  "node_info (set_last k p h) x = node_info h x"
  "list_first (set_last k p h) l = list_first h l"
  "list_last (set_last k p h) l = (if l = k then p else list_last h l)"
  "list_elements (set_last k p h) l = list_elements h l"
  "node_next (set_elements k n h) x = node_next h x"
  "node_info (set_elements k n h) x = node_info h x"
  "list_first (set_elements k n h) l = list_first h l"
  "list_last (set_elements k n h) l = list_last h l"
  "list_elements (set_elements k n h) l = (if l = k then n else list_elements h l)"
  by (simp_all add: set_next_def set_info_def set_first_def set_last_def set_elements_def)

lemma list_node_reads [simp, heap_simps]:
  "node_next (list_node a i n h) x = (if x = a then n else node_next h x)"
  "node_info (list_node a i n h) x = (if x = a then i else node_info h x)"
  "list_first (list_node a i n h) l = list_first h l"
  "list_last (list_node a i n h) l = list_last h l"
  "list_elements (list_node a i n h) l = list_elements h l"
  by (simp_all add: list_node_def)

lemma assign_reads [simp, heap_simps]:
  "node_next (assign p b h) x = (if p = Next x then b else node_next h x)"
  "node_info (assign p b h) x = node_info h x"
  "list_first (assign p b h) l = (if p = First l then b else list_first h l)"
  "list_last (assign p b h) l = list_last h l"
  "list_elements (assign p b h) l = list_elements h l"
  by (cases p; auto)+

lemma deref_assign [simp, heap_simps]: "deref (assign p b h) q = (if q = p then b else deref h q)"
  by (cases q) auto

lemma deref_reads [simp, heap_simps]:
  "deref (set_elements l n h) p = deref h p"
  "deref (set_last l q h) p = deref h p"
  "deref (set_info a i h) p = deref h p"
  by (cases p; simp)+

subsection \<open>Sequences of nodes\<close>

text \<open>From \<open>a\<close>, the \<open>next\<close> fields lead through the nodes \<open>ns\<close> to \<open>t\<close>.\<close>

fun path :: "lheap \<Rightarrow> addr \<Rightarrow> addr list \<Rightarrow> addr \<Rightarrow> bool" where
  "path h a [] t \<longleftrightarrow> a = t"
| "path h a (n # ns) t \<longleftrightarrow> a = n \<and> n \<noteq> NULL \<and> n \<noteq> end_of_list \<and> path h (node_next h n) ns t"

text \<open>The cell that refers to the node after \<open>ns\<close>, for a list that starts at the cell \<open>p\<close>.\<close>

definition last_loc :: "loc \<Rightarrow> addr list \<Rightarrow> loc" where
  "last_loc p ns = (if ns = [] then p else Next (last ns))"

lemma last_loc_simps [simp]:
  "last_loc p [] = p"
  "last_loc p (ns @ [n]) = Next n"
  "last_loc p (n # ns) = last_loc (Next n) ns"
  by (simp_all add: last_loc_def)

lemma last_loc_append: "last_loc p (xs @ ys) = last_loc (last_loc p xs) ys"
  by (auto simp: last_loc_def)

lemma path_append: "path h a (xs @ ys) t \<longleftrightarrow> (\<exists>b. path h a xs b \<and> path h b ys t)"
  by (induction xs arbitrary: a) auto

lemma path_nodes: "path h a ns t \<Longrightarrow> n \<in> set ns \<Longrightarrow> n \<noteq> NULL \<and> n \<noteq> end_of_list"
  by (induction ns arbitrary: a) auto

lemma path_cong:
  "(\<And>n. n \<in> set ns \<Longrightarrow> node_next h' n = node_next h n) \<Longrightarrow> path h' a ns t = path h a ns t"
  by (induction ns arbitrary: a) auto

lemma path_start: "path h a ns t \<Longrightarrow> a = (case ns of [] \<Rightarrow> t | n # _ \<Rightarrow> n)"
  by (cases ns) auto

lemma path_unique:
  "path h a xs t \<Longrightarrow> path h a ys t \<Longrightarrow> t = NULL \<or> t = end_of_list \<Longrightarrow> xs = ys"
proof (induction xs arbitrary: a ys)
  case Nil
  then show ?case by (cases ys) auto
next
  case (Cons x xs)
  then show ?case by (cases ys) auto
qed

text \<open>Writing the last cell of a sequence replaces what follows it.\<close>

lemma path_set_last:
  assumes "path h a (ns @ [n]) t" "n \<notin> set ns" "node_next h' n = b"
    and "\<And>m. m \<in> set ns \<Longrightarrow> node_next h' m = node_next h m"
  shows "path h' a (ns @ [n]) b"
proof -
  obtain c where c: "path h a ns c" "path h c [n] t" using assms(1) by (auto simp: path_append)
  then have "path h' a ns c" using path_cong [of ns h' h] assms(4) by simp
  with c(2) assms(3) show ?thesis by (auto simp: path_append)
qed

text \<open>Two disjoint sequences become one when the last cell of the first refers to the second.\<close>

lemma path_join:
  assumes "path h a ns t" "path h b ms u" "distinct ns" "set ns \<inter> set ms = {}" "ns \<noteq> []"
    and "\<And>n. node_next h' n = (if n = last ns then b else node_next h n)"
  shows "path h' a (ns @ ms) u"
proof -
  obtain xs x where ns: "ns = xs @ [x]" using assms(5) by (cases ns rule: rev_cases) auto
  have "path h' a ns b"
    unfolding ns by (rule path_set_last [where h = h and t = t]) (use assms ns in auto)
  moreover have "path h' b ms u = path h b ms u"
    by (rule path_cong) (use assms(4,5,6) in \<open>auto dest: last_in_set\<close>)
  ultimately show ?thesis using assms(2) by (auto simp: path_append)
qed

text \<open>The node at a position, and the rest of the path from there.\<close>

lemma path_drop:
  "path h a ns t \<Longrightarrow> k \<le> length ns \<Longrightarrow> path h (if k < length ns then ns ! k else t) (drop k ns) t"
proof (induction ns arbitrary: a k)
  case (Cons n ns)
  show ?case
  proof (cases k)
    case (Suc j)
    then show ?thesis using Cons.IH [of "node_next h n" j] Cons.prems by auto
  qed (use Cons.prems in auto)
qed simp

lemma deref_last_loc:
  assumes "path h (deref h p) ns t" "k \<le> length ns"
  shows "deref h (last_loc p (take k ns)) = (if k < length ns then ns ! k else t)"
  using assms
proof (induction ns arbitrary: p k)
  case (Cons n ns)
  show ?case
  proof (cases k)
    case (Suc j)
    then show ?thesis using Cons.IH [of "Next n" j] Cons.prems by auto
  qed (use Cons.prems in auto)
qed simp

text \<open>\<open>elements\<close> is a \<open>uint\<close>: the lengths it can hold, and its increment and decrement.\<close>

lemma elements_dec: "(of_nat (Suc n) :: u32) - 1 = of_nat n"
  by simp

lemma elements_zero: "n < 2 ^ 32 \<Longrightarrow> (of_nat n :: u32) = 0 \<longleftrightarrow> n = 0"
  using unat_of_nat [of n, where 'a = 32] by (auto simp: unsigned_eq_0_iff take_bit_nat_eq_self)

lemma elements_unat: "n < 2 ^ 32 \<Longrightarrow> unat (of_nat n :: u32) = n"
  using unat_of_nat [of n, where 'a = 32] by (simp add: take_bit_nat_eq_self)

text \<open>
  The representation invariant, for a list terminated by \<open>t\<close>: the nodes from \<open>first\<close> to the
  terminator are \<open>ns\<close>, \<open>last\<close> is the cell that holds the terminator, \<open>elements\<close> counts them.
\<close>

definition list_rep :: "addr \<Rightarrow> lheap \<Rightarrow> lid \<Rightarrow> addr list \<Rightarrow> bool" where
  "list_rep t h l ns \<longleftrightarrow> path h (list_first h l) ns t \<and> distinct ns \<and>
     list_last h l = last_loc (First l) ns \<and>
     list_elements h l = of_nat (length ns) \<and> length ns < 2 ^ 32"

lemma list_rep_cong:
  assumes "\<And>n. n \<in> set ns \<Longrightarrow> node_next h' n = node_next h n"
    and "list_first h' l = list_first h l" "list_last h' l = list_last h l"
    and "list_elements h' l = list_elements h l"
  shows "list_rep t h' l ns \<longleftrightarrow> list_rep t h l ns"
  using assms path_cong [of ns h' h] by (simp add: list_rep_def)

lemma list_rep_unique:
  "list_rep t h l xs \<Longrightarrow> list_rep t h l ys \<Longrightarrow> t = NULL \<or> t = end_of_list \<Longrightarrow> xs = ys"
  using path_unique by (auto simp: list_rep_def)

lemma list_rep_nodes: "list_rep t h l ns \<Longrightarrow> n \<in> set ns \<Longrightarrow> n \<noteq> NULL \<and> n \<noteq> end_of_list"
  by (auto simp: list_rep_def dest: path_nodes)

lemma list_rep_elements_0: "list_rep t h l ns \<Longrightarrow> list_elements h l = 0 \<longleftrightarrow> ns = []"
  using elements_zero [of "length ns"] by (auto simp: list_rep_def)

text \<open>A memory without lists, the start of the examples.\<close>

definition no_heap :: lheap where
  "no_heap = \<lparr>node_next = \<lambda>_. NULL, node_info = \<lambda>_. NULL, list_first = \<lambda>_. NULL,
     list_last = \<lambda>_. First 0, list_elements = \<lambda>_. 0\<rparr>"

end
