(* ===== verification/Base_List.thy ===== *)
theory Base_List
  imports List_Heap
begin

text \<open>
  \<open>base_list\<close> of \<open>sql_list.h\<close>: the singly linked list whose last node points to the shared
  \<open>end_of_list\<close> node, with a pointer \<open>last\<close> to the cell that holds that terminator.
  Every operation is a transformation of the memory; \<open>blist h l ns\<close> is its invariant and
  \<open>infos h ns\<close> the sequence it stands for. The lemmas say what each operation does to the
  sequence, that it keeps the invariant, and that lists with other nodes are untouched.
\<close>

subsection \<open>The operations\<close>

definition bl_empty :: "lid \<Rightarrow> lheap \<Rightarrow> lheap" where
  "bl_empty l h = set_last l (First l) (set_first l end_of_list (set_elements l 0 h))"

definition bl_equal :: "lid \<Rightarrow> lid \<Rightarrow> lheap \<Rightarrow> bool" where
  "bl_equal l r h \<longleftrightarrow> list_elements h l = list_elements h r \<and> list_first h l = list_first h r \<and>
     list_last h l = list_last h r"

definition bl_assign :: "lid \<Rightarrow> lid \<Rightarrow> lheap \<Rightarrow> lheap" where
  "bl_assign l r h = (let h = set_elements l (list_elements h r) h;
       h = set_first l (list_first h r) h
     in set_last l (if list_elements h l \<noteq> 0 then list_last h r else First l) h)"

definition bl_is_empty :: "lid \<Rightarrow> lheap \<Rightarrow> bool" where
  "bl_is_empty l h \<longleftrightarrow> list_first h l = end_of_list"

text \<open>
  \<open>a\<close> is the address the allocator answers. On failure (\<open>NULL\<close>) the assignment to \<open>*last\<close> has
  already overwritten the terminator.
\<close>

definition bl_push_back :: "lid \<Rightarrow> addr \<Rightarrow> addr \<Rightarrow> lheap \<Rightarrow> bool \<times> lheap" where
  "bl_push_back l info a h =
     (let h = assign (list_last h l) a (new_list_node a info end_of_list h)
      in if a \<noteq> NULL
         then (False, set_elements l (list_elements h l + 1)
                 (set_last l (Next (deref h (list_last h l))) h))
         else (True, h))"

definition bl_push_front_impl :: "lid \<Rightarrow> addr \<Rightarrow> lheap \<Rightarrow> bool \<times> lheap" where
  "bl_push_front_impl l node h =
     (if node \<noteq> NULL
      then (let h = (if list_last h l = First l then set_last l (Next node) h else h);
                h = set_first l node h
            in (False, set_elements l (list_elements h l + 1) h))
      else (True, h))"

definition bl_push_front :: "lid \<Rightarrow> addr \<Rightarrow> addr \<Rightarrow> lheap \<Rightarrow> bool \<times> lheap" where
  "bl_push_front l info a h = bl_push_front_impl l a (new_list_node a info (list_first h l) h)"

text \<open>\<open>delete *prev\<close> runs no destructor and returns nothing to the allocator of a memory root.\<close>

definition bl_remove :: "lid \<Rightarrow> loc \<Rightarrow> lheap \<Rightarrow> lheap" where
  "bl_remove l prev h =
     (let node = node_next h (deref h prev);
          h = set_elements l (list_elements h l - 1) h;
          h = (if list_elements h l = 0 then set_last l (First l) h
               else if list_last h l = Next (deref h prev) then set_last l prev h
               else h)
      in assign prev node h)"

definition bl_append :: "lid \<Rightarrow> lid \<Rightarrow> lheap \<Rightarrow> lheap" where
  "bl_append l r h =
     (if bl_is_empty r h then h
      else if bl_is_empty l h then bl_assign l r h
      else (let h = assign (list_last h l) (list_first h r) h;
                h = set_last l (list_last h r) h
            in set_elements l (list_elements h l + list_elements h r) h))"

definition bl_pop :: "lid \<Rightarrow> lheap \<Rightarrow> addr \<times> lheap" where
  "bl_pop l h =
     (if list_first h l = end_of_list then (NULL, h)
      else (let tmp = list_first h l;
                h = set_first l (node_next h (list_first h l)) h;
                h = set_elements l (list_elements h l - 1) h;
                h = (if list_elements h l = 0 then set_last l (First l) h else h)
            in (node_info h tmp, h)))"

text \<open>The loop of \<open>disjoin\<close>; a list that never reaches \<open>end_of_list\<close> does not return.\<close>

partial_function (option) disjoin_loop :: "lid \<Rightarrow> addr \<Rightarrow> loc \<Rightarrow> addr \<Rightarrow> lheap \<Rightarrow> lheap option" where
  "disjoin_loop l first_r prev node h =
     (if node \<noteq> end_of_list \<and> node \<noteq> first_r
      then (let prev = Next node;
                node = node_next h node;
                h = set_elements l (list_elements h l + 1) h
            in if node = end_of_list then Some h else disjoin_loop l first_r prev node h)
      else (let h = assign prev end_of_list h in Some (set_last l prev h)))"

definition bl_disjoin :: "lid \<Rightarrow> lid \<Rightarrow> lheap \<Rightarrow> lheap option" where
  "bl_disjoin l r h =
     disjoin_loop l (list_first h r) (First l) (list_first h l) (set_elements l 0 h)"

definition bl_prepend :: "lid \<Rightarrow> lid \<Rightarrow> lheap \<Rightarrow> lheap" where
  "bl_prepend l r h =
     (if bl_is_empty r h then h
      else (let h = (if bl_is_empty l h then set_last l (list_last h r) h else h);
                h = assign (list_last h r) (list_first h l) h;
                h = set_first l (list_first h r) h
            in set_elements l (list_elements h l + list_elements h r) h))"

definition bl_swap :: "lid \<Rightarrow> lid \<Rightarrow> lheap \<Rightarrow> lheap" where
  "bl_swap l r h =
     (let rhs_last = list_last h r;
          h = set_first r (list_first h l) (set_first l (list_first h r) h);
          h = set_elements r (list_elements h l) (set_elements l (list_elements h r) h);
          h = set_last r (if list_last h l = First l then First r else list_last h l) h
      in set_last l (if rhs_last = First r then First l else rhs_last) h)"

definition bl_head :: "lid \<Rightarrow> lheap \<Rightarrow> addr" where
  "bl_head l h = node_info h (list_first h l)"

text \<open>\<open>head_ref\<close> answers the node whose \<open>info\<close> field it points to, or nothing.\<close>

definition bl_head_ref :: "lid \<Rightarrow> lheap \<Rightarrow> addr option" where
  "bl_head_ref l h = (if list_first h l \<noteq> end_of_list then Some (list_first h l) else None)"

definition bl_first_node :: "lid \<Rightarrow> lheap \<Rightarrow> addr" where "bl_first_node l h = list_first h l"
definition bl_last_node :: "lid \<Rightarrow> lheap \<Rightarrow> addr" where "bl_last_node l h = deref h (list_last h l)"
definition bl_last_ref :: addr where "bl_last_ref = end_of_list"

partial_function (option) add_unique_loop :: "(addr \<Rightarrow> addr \<Rightarrow> bool) \<Rightarrow> addr \<Rightarrow> addr \<Rightarrow> lheap \<Rightarrow> addr option" where
  "add_unique_loop eq info node h =
     (if node \<noteq> end_of_list \<and> \<not> eq (node_info h node) info
      then add_unique_loop eq info (node_next h node) h
      else Some node)"

definition bl_add_unique ::
  "(addr \<Rightarrow> addr \<Rightarrow> bool) \<Rightarrow> lid \<Rightarrow> addr \<Rightarrow> addr \<Rightarrow> lheap \<Rightarrow> (bool \<times> lheap) option" where
  "bl_add_unique eq l info a h =
     map_option (\<lambda>node. if node = end_of_list then bl_push_back l info a h else (True, h))
       (add_unique_loop eq info (list_first h l) h)"

partial_function (option) elem_loop :: "u32 \<Rightarrow> addr \<Rightarrow> addr \<Rightarrow> u32 \<Rightarrow> lheap \<Rightarrow> addr option" where
  "elem_loop i node data n h =
     (if i \<le> n
      then if node = end_of_list then Some NULL
           else elem_loop (i + 1) (node_next h node) (node_info h node) n h
      else Some data)"

definition bl_elem :: "lid \<Rightarrow> u32 \<Rightarrow> lheap \<Rightarrow> addr option" where
  "bl_elem l n h = elem_loop 0 (list_first h l) NULL n h"

text \<open>The invariant check of debug builds: the loop stops at the last node, or at a \<open>NULL\<close>.\<close>

partial_function (option) check_list_loop :: "addr \<Rightarrow> u32 \<Rightarrow> lheap \<Rightarrow> (addr \<times> u32) option option" where
  "check_list_loop node cnt h =
     (if node_next h node \<noteq> end_of_list
      then if node_info h node = NULL then Some None
           else check_list_loop (node_next h node) (cnt + 1) h
      else Some (Some (node, cnt)))"

definition bl_check_list :: "lid \<Rightarrow> lheap \<Rightarrow> bool option" where
  "bl_check_list l h =
     (case check_list_loop (list_first h l) 0 h of
        None \<Rightarrow> None
      | Some None \<Rightarrow> Some False
      | Some (Some (node, cnt)) \<Rightarrow>
          Some (if list_last h l \<noteq> Next node then False
                else if cnt + 1 \<noteq> list_elements h l then False
                else True))"

text \<open>\<open>after\<close> does not test the allocation.\<close>

definition bl_after :: "lid \<Rightarrow> addr \<Rightarrow> addr \<Rightarrow> addr \<Rightarrow> lheap \<Rightarrow> lheap" where
  "bl_after l info node a h =
     (let h = new_list_node a info (node_next h node) h;
          h = set_next node a h;
          h = set_elements l (list_elements h l + 1) h
      in if list_last h l = Next node
         then set_last l (Next a) h
         else h)"

text \<open>\<open>delete_elements\<close>: the infos handed to \<open>delete\<close>, in order; the list is empty afterwards.\<close>

partial_function (option) delete_elements_loop :: "addr \<Rightarrow> addr list \<Rightarrow> lheap \<Rightarrow> addr list option" where
  "delete_elements_loop element deleted h =
     (if element \<noteq> end_of_list
      then delete_elements_loop (node_next h element) (deleted @ [node_info h element]) h
      else Some deleted)"

definition list_delete_elements :: "lid \<Rightarrow> lheap \<Rightarrow> (addr list \<times> lheap) option" where
  "list_delete_elements l h =
     map_option (\<lambda>ds. (ds, bl_empty l h)) (delete_elements_loop (list_first h l) [] h)"

text \<open>\<open>List::make\<close>: \<open>res\<close> is the list object the allocator answers, \<open>a\<close> the node.\<close>

definition list_make :: "lid option \<Rightarrow> addr \<Rightarrow> addr \<Rightarrow> lheap \<Rightarrow> lid option \<times> lheap" where
  "list_make res first a h =
     (case res of
        None \<Rightarrow> (None, h)
      | Some l \<Rightarrow> (let (failed, h) = bl_push_back l first a (bl_empty l h)
                  in (if failed then None else Some l, h)))"

subsection \<open>The invariant and the sequence a list stands for\<close>

definition end_ok :: "lheap \<Rightarrow> bool" where
  "end_ok h \<longleftrightarrow> node_next h end_of_list = end_of_list \<and> node_info h end_of_list = NULL"

definition blist :: "lheap \<Rightarrow> lid \<Rightarrow> addr list \<Rightarrow> bool" where
  "blist h l ns \<longleftrightarrow> list_rep end_of_list h l ns \<and> end_ok h"

definition infos :: "lheap \<Rightarrow> addr list \<Rightarrow> addr list" where
  "infos h ns = map (node_info h) ns"

lemma infos_list:
  "infos h [] = []"
  "infos h (n # ns) = node_info h n # infos h ns"
  "infos h (ns @ ms) = infos h ns @ infos h ms"
  by (simp_all add: infos_def)

lemma length_infos [simp]: "length (infos h ns) = length ns"
  by (simp add: infos_def)

text \<open>What a change to the list \<open>l\<close> and the nodes \<open>ns\<close> leaves alone.\<close>

definition others_kept :: "lheap \<Rightarrow> lheap \<Rightarrow> lid set \<Rightarrow> addr set \<Rightarrow> bool" where
  "others_kept h h' L N \<longleftrightarrow>
     (\<forall>k ms. k \<notin> L \<longrightarrow> set ms \<inter> N = {} \<longrightarrow> blist h k ms \<longrightarrow> blist h' k ms \<and> infos h' ms = infos h ms)"

lemma others_keptI:
  assumes "end_ok h'"
    and "\<And>k. k \<notin> L \<Longrightarrow> list_first h' k = list_first h k \<and> list_last h' k = list_last h k \<and>
           list_elements h' k = list_elements h k"
    and "\<And>n. n \<notin> N \<Longrightarrow> node_next h' n = node_next h n \<and> node_info h' n = node_info h n"
  shows "others_kept h h' L N"
proof -
  have "blist h' k ms \<and> infos h' ms = infos h ms"
    if "k \<notin> L" "set ms \<inter> N = {}" "blist h k ms" for k ms
  proof -
    from that(2) have *: "n \<notin> N" if "n \<in> set ms" for n using that by blast
    then have "infos h' ms = infos h ms" using assms(3) by (simp add: infos_def)
    with that assms(1,2,3) * show ?thesis
      using list_rep_cong [of ms h' h k end_of_list] by (auto simp: blist_def)
  qed
  then show ?thesis by (auto simp: others_kept_def)
qed

lemma others_keptD:
  "others_kept h h' L N \<Longrightarrow> blist h k ms \<Longrightarrow> k \<notin> L \<Longrightarrow> set ms \<inter> N = {} \<Longrightarrow>
     blist h' k ms \<and> infos h' ms = infos h ms"
  unfolding others_kept_def by blast

lemmas blist_unfold = blist_def list_rep_def end_ok_def

lemma bl_empty_correct:
  assumes "end_ok h"
  shows "blist (bl_empty l h) l [] \<and> others_kept h (bl_empty l h) {l} {}"
  using assms by (auto simp: bl_empty_def blist_unfold intro!: others_keptI)

lemma bl_is_empty_correct: "blist h l ns \<Longrightarrow> bl_is_empty l h \<longleftrightarrow> ns = []"
  by (cases ns) (auto simp: bl_is_empty_def blist_unfold)

lemma blist_nodes: "blist h l ns \<Longrightarrow> n \<in> set ns \<Longrightarrow> n \<noteq> NULL \<and> n \<noteq> end_of_list"
  by (auto simp: blist_def dest: list_rep_nodes)

lemma blist_last: "blist h l ns \<Longrightarrow> ns \<noteq> [] \<Longrightarrow> last ns \<noteq> NULL \<and> last ns \<noteq> end_of_list"
  using blist_nodes by auto

lemma NULL_not_end [simp]: "NULL \<noteq> end_of_list" "end_of_list \<noteq> NULL"
  by (simp_all add: NULL_def end_of_list_def)

lemma infos_cong: "(\<And>n. n \<in> set ns \<Longrightarrow> node_info h' n = node_info h n) \<Longrightarrow> infos h' ns = infos h ns"
  by (simp add: infos_def)

lemma bl_push_back_correct:
  assumes bl: "blist h l ns" and a: "a \<notin> insert NULL (insert end_of_list (set ns))"
    and room: "length ns + 1 < 2 ^ 32" and run: "bl_push_back l info a h = (failed, h')"
  shows "\<not> failed" "blist h' l (ns @ [a])" "infos h' (ns @ [a]) = infos h ns @ [info]"
    "others_kept h h' {l} (set (ns @ [a]))"
proof -
  have h': "h' = set_elements l (list_elements h l + 1) (set_last l (Next a)
      (assign (list_last h l) a (list_node a info end_of_list h)))" and ok: "\<not> failed"
    using run a by (auto simp: bl_push_back_def new_list_node_def)
  show "\<not> failed" by (rule ok)
  have last: "list_last h l = last_loc (First l) ns" using bl by (simp add: blist_unfold)
  have endok: "end_ok h'"
    using bl a blist_nodes [OF bl] by (auto simp: h' last last_loc_def blist_unfold dest: last_in_set)
  have "path h' (list_first h' l) (ns @ [a]) end_of_list"
  proof (cases ns rule: rev_cases)
    case Nil
    then show ?thesis using a by (simp add: h' last)
  next
    case (snoc ms m)
    have "path h' (list_first h l) (ms @ [m]) a"
      by (rule path_set_last [where h = h and t = end_of_list])
        (use bl a in \<open>auto simp: h' last snoc blist_unfold\<close>)
    then show ?thesis using a by (auto simp: h' last snoc path_append)
  qed
  then show "blist h' l (ns @ [a])"
    using bl a room endok by (auto simp: blist_def list_rep_def h' last)
  show "infos h' (ns @ [a]) = infos h ns @ [info]"
    using a by (auto simp: infos_def h')
  show "others_kept h h' {l} (set (ns @ [a]))"
    by (rule others_keptI [OF endok])
      (auto simp: h' last last_loc_def dest: last_in_set split: if_splits)
qed

lemma bl_push_back_failed:
  assumes "blist h l ns" "ns \<noteq> []"
  shows "bl_push_back l info NULL h = (True, h') \<Longrightarrow> node_next h' (last ns) = NULL"
  using assms by (auto simp: bl_push_back_def new_list_node_def blist_unfold last_loc_def)

lemma bl_push_front_correct:
  assumes bl: "blist h l ns" and a: "a \<notin> insert NULL (insert end_of_list (set ns))"
    and room: "length ns + 1 < 2 ^ 32" and run: "bl_push_front l info a h = (failed, h')"
  shows "\<not> failed" "blist h' l (a # ns)" "infos h' (a # ns) = info # infos h ns"
    "others_kept h h' {l} (insert a (set ns))"
proof -
  have h': "h' = set_elements l (list_elements h l + 1) (set_first l a
      (if list_last h l = First l then set_last l (Next a) (list_node a info (list_first h l) h)
       else list_node a info (list_first h l) h))" and ok: "\<not> failed"
    using run a by (auto simp: bl_push_front_def bl_push_front_impl_def new_list_node_def Let_def)
  show "\<not> failed" by (rule ok)
  have last: "list_last h l = last_loc (First l) ns" using bl by (simp add: blist_unfold)
  have endok: "end_ok h'" using bl a by (auto simp: h' blist_unfold)
  have "path h' (list_first h l) ns end_of_list = path h (list_first h l) ns end_of_list"
    by (rule path_cong) (use a in \<open>auto simp: h'\<close>)
  then show "blist h' l (a # ns)"
    using bl a room endok by (auto simp: blist_def list_rep_def h' last last_loc_def)
  show "infos h' (a # ns) = info # infos h ns"
    using a by (auto simp: infos_def h')
  show "others_kept h h' {l} (insert a (set ns))"
    by (rule others_keptI [OF endok]) (auto simp: h')
qed

lemma bl_pop_correct:
  assumes bl: "blist h l ns" and run: "bl_pop l h = (info, h')"
  shows "blist h' l (tl ns)" "infos h' ns = infos h ns" "others_kept h h' {l} {}"
    "info = (case infos h ns of [] \<Rightarrow> NULL | i # _ \<Rightarrow> i)"
proof -
  have e: "node_next h' n = node_next h n" "node_info h' n = node_info h n" for n
    using run by (auto simp: bl_pop_def Let_def split: if_splits)
  then have endok: "end_ok h'" using bl by (simp add: blist_unfold)
  show "infos h' ns = infos h ns" by (simp add: infos_def e)
  show "others_kept h h' {l} {}"
    by (rule others_keptI [OF endok]) (use run in \<open>auto simp: bl_pop_def Let_def split: if_splits\<close>)
  have "blist h' l (tl ns) \<and> info = (case infos h ns of [] \<Rightarrow> NULL | i # _ \<Rightarrow> i)"
  proof (cases ns)
    case Nil
    then show ?thesis using bl run by (auto simp: bl_pop_def blist_unfold infos_def)
  next
    case (Cons m ms)
    have "path h' x ms t = path h x ms t" for x t by (rule path_cong) (simp add: e)
    with Cons show ?thesis using bl run endok elements_zero [of "length ms"]
      by (auto simp: bl_pop_def blist_def list_rep_def infos_def Let_def last_loc_def split: if_splits)
  qed
  then show "blist h' l (tl ns)" "info = (case infos h ns of [] \<Rightarrow> NULL | i # _ \<Rightarrow> i)" by auto
qed

subsection \<open>Joining, cutting and exchanging lists\<close>

lemma end_ok_assign: "end_ok h \<Longrightarrow> p \<noteq> Next end_of_list \<Longrightarrow> end_ok (assign p b h)"
  by (simp add: end_ok_def)

lemma last_loc_not_end: "blist h l ns \<Longrightarrow> last_loc (First k) ns \<noteq> Next end_of_list"
  by (auto simp: last_loc_def dest: blist_nodes last_in_set)

lemma bl_assign_correct:
  assumes "blist h r ms"
  shows "blist (bl_assign l r h) l ms" "others_kept h (bl_assign l r h) {l} {}"
proof -
  have p: "path (bl_assign l r h) a xs t = path h a xs t" for a xs t
    by (rule path_cong) (simp add: bl_assign_def Let_def)
  show "blist (bl_assign l r h) l ms"
    using assms elements_zero [of "length ms"] unfolding blist_unfold p
    by (auto simp: bl_assign_def Let_def last_loc_def)
  show "others_kept h (bl_assign l r h) {l} {}"
    by (rule others_keptI) (use assms in \<open>auto simp: bl_assign_def blist_unfold Let_def\<close>)
qed

lemma bl_append_correct:
  assumes bl: "blist h l ns" and br: "blist h r ms" and disj: "set ns \<inter> set ms = {}" "l \<noteq> r"
    and room: "length ns + length ms < 2 ^ 32"
  shows "blist (bl_append l r h) l (ns @ ms)" "infos (bl_append l r h) (ns @ ms) = infos h (ns @ ms)"
    "blist (bl_append l r h) r ms" "others_kept h (bl_append l r h) {l} (set ns)"
proof -
  let ?h = "bl_append l r h"
  have empty: "bl_is_empty l h \<longleftrightarrow> ns = []" "bl_is_empty r h \<longleftrightarrow> ms = []"
    using bl_is_empty_correct bl br by blast+
  have last: "list_last h l = last_loc (First l) ns" using bl by (simp add: blist_unfold)
  have next_h: "node_next ?h n = (if ns \<noteq> [] \<and> ms \<noteq> [] \<and> n = last ns then list_first h r else node_next h n)"
    and info_h: "node_info ?h n = node_info h n" for n
    by (simp_all add: bl_append_def Let_def empty bl_assign_def last last_loc_def)
  have "end_ok h" using bl by (simp add: blist_def)
  then have endok: "end_ok ?h"
    using blist_last [OF bl] unfolding end_ok_def next_h info_h by auto
  have fields: "list_first ?h k = list_first h k" "list_last ?h k = list_last h k"
    "list_elements ?h k = list_elements h k" if "k \<noteq> l" for k
    using that by (simp_all add: bl_append_def Let_def bl_assign_def last last_loc_def)
  show kept: "others_kept h ?h {l} (set ns)"
    by (rule others_keptI [OF endok]) (auto simp: next_h info_h fields)
  show "blist ?h r ms" using others_keptD [OF kept br] disj by auto
  show "infos ?h (ns @ ms) = infos h (ns @ ms)"
    by (rule infos_cong) (simp add: bl_append_def Let_def bl_assign_def)
  show "blist ?h l (ns @ ms)"
  proof (cases "ns = [] \<or> ms = []")
    case True
    then show ?thesis using bl_assign_correct [OF br, of l] bl empty by (auto simp: bl_append_def)
  next
    case False
    then have "path ?h (list_first h l) (ns @ ms) end_of_list"
      using bl br disj
      by (intro path_join [where h = h and t = end_of_list and b = "list_first h r"])
        (auto simp: blist_unfold bl_append_def Let_def empty last_loc_def)
    then show ?thesis
      using False bl br disj room endok
      by (auto simp: blist_def list_rep_def bl_append_def Let_def empty last_loc_def)
  qed
qed

lemma bl_prepend_correct:
  assumes bl: "blist h l ns" and br: "blist h r ms" and disj: "set ns \<inter> set ms = {}" "l \<noteq> r"
    and room: "length ns + length ms < 2 ^ 32"
  shows "blist (bl_prepend l r h) l (ms @ ns)" "infos (bl_prepend l r h) (ms @ ns) = infos h (ms @ ns)"
    "others_kept h (bl_prepend l r h) {l, r} (set ms)"
proof -
  let ?h = "bl_prepend l r h"
  have empty: "bl_is_empty l h \<longleftrightarrow> ns = []" "bl_is_empty r h \<longleftrightarrow> ms = []"
    using bl_is_empty_correct bl br by blast+
  have last: "list_last h r = last_loc (First r) ms" using br by (simp add: blist_unfold)
  have "end_ok h" using bl by (simp add: blist_def)
  then have endok: "end_ok ?h"
    using last_loc_not_end [OF br, of r]
    by (simp add: bl_prepend_def Let_def last end_ok_def)
  show "others_kept h ?h {l, r} (set ms)"
    by (rule others_keptI [OF endok])
      (auto simp: bl_prepend_def Let_def last empty last_loc_def dest: last_in_set)
  show "infos ?h (ms @ ns) = infos h (ms @ ns)"
    by (rule infos_cong) (simp add: bl_prepend_def Let_def)
  show "blist ?h l (ms @ ns)"
  proof (cases "ms = []")
    case True
    then show ?thesis using bl empty by (auto simp: bl_prepend_def)
  next
    case False
    then have "path ?h (list_first h r) (ms @ ns) end_of_list"
      using bl br disj
      by (intro path_join [where h = h and t = end_of_list and b = "list_first h l"])
        (auto simp: blist_unfold bl_prepend_def Let_def empty last_loc_def)
    then show ?thesis
      using False bl br disj room endok
      by (auto simp: blist_def list_rep_def bl_prepend_def Let_def empty last_loc_def add.commute)
  qed
qed

lemma bl_swap_correct:
  assumes bl: "blist h l ns" and br: "blist h r ms" and "l \<noteq> r"
  shows "blist (bl_swap l r h) l ms" "blist (bl_swap l r h) r ns"
    "infos (bl_swap l r h) xs = infos h xs" "others_kept h (bl_swap l r h) {l, r} {}"
proof -
  let ?h = "bl_swap l r h"
  have e: "node_next ?h n = node_next h n" "node_info ?h n = node_info h n" for n
    by (simp_all add: bl_swap_def Let_def)
  then have p: "path ?h a xs t = path h a xs t" for a xs t by (intro path_cong) auto
  have endok: "end_ok ?h" using bl by (simp add: blist_unfold e)
  show "infos ?h xs = infos h xs" by (simp add: infos_def e)
  show "others_kept h ?h {l, r} {}"
    by (rule others_keptI [OF endok]) (auto simp: bl_swap_def Let_def)
  show "blist ?h l ms" "blist ?h r ns"
    using assms endok unfolding blist_def list_rep_def p
    by (auto simp: bl_swap_def Let_def last_loc_def)
qed

text \<open>Removing the node the cell \<open>prev\<close> refers to.\<close>

lemma bl_remove_correct:
  assumes bl: "blist h l (xs @ x # ys)" and prev: "prev = last_loc (First l) xs"
  shows "blist (bl_remove l prev h) l (xs @ ys)"
    "infos (bl_remove l prev h) (xs @ ys) = infos h xs @ infos h ys"
    "others_kept h (bl_remove l prev h) {l} (set xs)"
proof -
  let ?h = "bl_remove l prev h"
  have path: "path h (list_first h l) (xs @ x # ys) end_of_list" and d: "distinct (xs @ x # ys)"
    and last: "list_last h l = last_loc (First l) (xs @ x # ys)"
    and n: "list_elements h l - 1 = of_nat (length xs + length ys)"
      "length xs + length ys < 2 ^ 32 - 1"
    using bl by (auto simp: blist_unfold)
  from path obtain b where b: "path h (list_first h l) xs b" "b = x"
      "path h (node_next h x) ys end_of_list" and x: "x \<noteq> NULL" "x \<noteq> end_of_list"
    by (auto simp: path_append)
  have dx: "deref h prev = x"
    using b(1,2) by (cases xs rule: rev_cases) (auto simp: prev path_append)
  have zero: "list_elements h l - 1 = 0 \<longleftrightarrow> xs = [] \<and> ys = []"
    using n elements_zero [of "length xs + length ys"] by auto
  have next_h: "node_next ?h m = (if prev = Next m then node_next h x else node_next h m)"
    and first_h: "list_first ?h l = (if xs = [] then node_next h x else list_first h l)"
    and info_h: "node_info ?h m = node_info h m" for m
    unfolding bl_remove_def Let_def dx by (auto simp: prev last_loc_def)
  have prev_in: "m \<in> set xs" if "prev = Next m" for m
    using that by (auto simp: prev last_loc_def split: if_splits)
  have fields: "list_first ?h k = list_first h k" "list_last ?h k = list_last h k"
    "list_elements ?h k = list_elements h k" if "k \<noteq> l" for k
    using that by (simp_all add: bl_remove_def Let_def prev last_loc_def)
  have "end_ok h" using bl by (simp add: blist_def)
  then have endok: "end_ok ?h"
    using blist_nodes [OF bl] prev_in unfolding end_ok_def next_h info_h by auto
  show "infos ?h (xs @ ys) = infos h xs @ infos h ys" by (simp add: infos_def info_h)
  show "others_kept h ?h {l} (set xs)"
    by (rule others_keptI [OF endok]) (use prev_in in \<open>auto simp: next_h info_h fields\<close>)
  have "path ?h (list_first ?h l) (xs @ ys) end_of_list"
  proof (cases "xs = []")
    case True
    have "path ?h a ys t = path h a ys t" for a t
      by (rule path_cong) (use prev_in True in \<open>auto simp: next_h\<close>)
    then show ?thesis using True b(3) by (simp add: first_h)
  next
    case False
    then have "prev = Next m \<longleftrightarrow> m = last xs" for m by (auto simp: prev last_loc_def)
    with False show ?thesis using b d
      by (intro path_join [where h = h and t = x and b = "node_next h x"]) (auto simp: next_h first_h)
  qed
  moreover have "list_last ?h l =
      (if xs = [] \<and> ys = [] then First l else if list_last h l = Next x then prev else list_last h l)"
    using zero by (simp add: bl_remove_def Let_def dx)
  then have "list_last ?h l = last_loc (First l) (xs @ ys)"
    using d by (auto simp: last prev last_loc_def dest: last_in_set split: if_splits)
  moreover have "list_elements ?h l = list_elements h l - 1"
    by (auto simp: bl_remove_def Let_def)
  ultimately show "blist ?h l (xs @ ys)"
    using d n endok by (auto simp: blist_def list_rep_def)
qed

subsection \<open>Loops over a list\<close>

text \<open>\<open>disjoin\<close> cuts the list before the first node of its argument.\<close>

lemma disjoin_loop_cut:
  assumes "path h node (zs @ ys) end_of_list" "ys \<noteq> []" "first_r = hd ys" "first_r \<notin> set zs"
  shows "disjoin_loop l first_r prev node h =
    Some (set_last l (last_loc prev zs) (assign (last_loc prev zs) end_of_list
      (if zs = [] then h else set_elements l (list_elements h l + of_nat (length zs)) h)))"
  using assms
proof (induction zs arbitrary: node prev h)
  case Nil
  then show ?case by (cases ys) (auto simp: disjoin_loop.simps)
next
  case (Cons z zs)
  let ?h = "set_elements l (list_elements h l + 1) h"
  have p: "path ?h (node_next h z) (zs @ ys) end_of_list"
    using Cons.prems path_cong [of "zs @ ys" ?h h] by auto
  have z: "node = z" "z \<noteq> end_of_list" "z \<noteq> first_r" using Cons.prems by auto
  have ne: "node_next h z \<noteq> end_of_list"
    using p Cons.prems(2) by (cases "zs @ ys") auto
  have "disjoin_loop l first_r prev node h = disjoin_loop l first_r (Next z) (node_next h z) ?h"
    using z ne by (subst disjoin_loop.simps) (simp add: Let_def)
  also have "\<dots> = Some (set_last l (last_loc (Next z) zs) (assign (last_loc (Next z) zs) end_of_list
      (if zs = [] then ?h else set_elements l (list_elements ?h l + of_nat (length zs)) ?h)))"
    by (rule Cons.IH) (use Cons.prems p in auto)
  finally show ?case by (auto simp: set_elements_def add.assoc)
qed

lemma disjoin_loop_all:
  assumes "path h node zs end_of_list" "first_r \<notin> set zs" "zs \<noteq> []"
  shows "disjoin_loop l first_r prev node h =
    Some (set_elements l (list_elements h l + of_nat (length zs)) h)"
  using assms
proof (induction zs arbitrary: node prev h)
  case (Cons z zs)
  let ?h = "set_elements l (list_elements h l + 1) h"
  have p: "path ?h (node_next h z) zs end_of_list"
    using Cons.prems path_cong [of zs ?h h] by auto
  have z: "node = z" "z \<noteq> end_of_list" "z \<noteq> first_r" using Cons.prems by auto
  show ?case
  proof (cases zs)
    case Nil
    with p z show ?thesis by (subst disjoin_loop.simps) (simp add: Let_def)
  next
    case (Cons y ys)
    with p have "node_next h z \<noteq> end_of_list" by auto
    with z have "disjoin_loop l first_r prev node h = disjoin_loop l first_r (Next z) (node_next h z) ?h"
      by (subst disjoin_loop.simps) (simp add: Let_def)
    also have "\<dots> = Some (set_elements l (list_elements ?h l + of_nat (length zs)) ?h)"
      by (rule Cons.IH) (use Cons.prems p Cons in auto)
    finally show ?thesis by (simp add: set_elements_def add.assoc)
  qed
qed simp


lemma bl_disjoin_tail:
  assumes bl: "blist h l (xs @ ys)" and ys: "ys \<noteq> []" "list_first h r = hd ys"
  shows "\<exists>h'. bl_disjoin l r h = Some h' \<and> blist h' l xs \<and> infos h' (xs @ ys) = infos h (xs @ ys) \<and>
    others_kept h h' {l} (set xs)"
proof -
  let ?h0 = "set_elements l 0 h"
  let ?h1 = "set_elements l (of_nat (length xs)) h"
  let ?h' = "set_last l (last_loc (First l) xs) (assign (last_loc (First l) xs) end_of_list ?h1)"
  have d: "distinct (xs @ ys)" and len: "length xs < 2 ^ 32" using bl by (auto simp: blist_unfold)
  have p0: "path ?h0 (list_first h l) (xs @ ys) end_of_list"
    using bl path_cong [of "xs @ ys" ?h0 h] by (simp add: blist_unfold)
  have "bl_disjoin l r h = Some (set_last l (last_loc (First l) xs)
      (assign (last_loc (First l) xs) end_of_list
        (if xs = [] then ?h0 else set_elements l (list_elements ?h0 l + of_nat (length xs)) ?h0)))"
    unfolding bl_disjoin_def using p0 d ys by (intro disjoin_loop_cut [where ys = ys]) auto
  moreover have "(if xs = [] then ?h0 else set_elements l (list_elements ?h0 l + of_nat (length xs)) ?h0) = ?h1"
    by (auto simp: set_elements_def)
  ultimately have run: "bl_disjoin l r h = Some ?h'" by simp
  have next_h: "node_next ?h' n = (if xs \<noteq> [] \<and> n = last xs then end_of_list else node_next h n)"
    and info_h: "node_info ?h' n = node_info h n" for n
    by (auto simp: last_loc_def)
  have "end_ok h" using bl by (simp add: blist_def)
  then have endok: "end_ok ?h'" unfolding end_ok_def next_h info_h by auto
  have "path ?h' (list_first ?h' l) xs end_of_list"
  proof (cases xs rule: rev_cases)
    case (snoc zs z)
    obtain b where b: "path h (list_first h l) xs b" using bl by (auto simp: blist_unfold path_append)
    have "path ?h' (list_first h l) (zs @ [z]) end_of_list"
      by (rule path_set_last [where h = h and t = b]) (use b d in \<open>auto simp: snoc next_h\<close>)
    with snoc show ?thesis by simp
  qed simp
  then have "blist ?h' l xs" using d len endok by (simp add: blist_def list_rep_def)
  moreover have "infos ?h' (xs @ ys) = infos h (xs @ ys)" by (simp add: infos_def)
  moreover have "others_kept h ?h' {l} (set xs)"
    by (rule others_keptI [OF endok]) (auto simp: last_loc_def)
  ultimately show ?thesis using run by blast
qed

lemma bl_disjoin_other:
  assumes bl: "blist h l ns" and ns: "ns \<noteq> []" "list_first h r \<notin> set ns"
  shows "bl_disjoin l r h = Some h"
proof -
  have "path (set_elements l 0 h) (list_first h l) ns end_of_list"
    using bl path_cong [of ns "set_elements l 0 h" h] by (simp add: blist_unfold)
  then have "bl_disjoin l r h =
      Some (set_elements l (list_elements (set_elements l 0 h) l + of_nat (length ns)) (set_elements l 0 h))"
    unfolding bl_disjoin_def using ns by (intro disjoin_loop_all) auto
  moreover have "list_elements h l = of_nat (length ns)" using bl by (simp add: blist_unfold)
  then have "set_elements l (of_nat (length ns)) h = h"
    by (simp add: set_elements_def fun_upd_idem)
  ultimately show ?thesis by (simp add: set_elements_def)
qed

lemma add_unique_loop_correct:
  assumes "path h node ns end_of_list"
  shows "\<exists>n. add_unique_loop eq info node h = Some n \<and>
     (n \<noteq> end_of_list \<longleftrightarrow> (\<exists>i \<in> set (infos h ns). eq i info))"
  using assms
proof (induction ns arbitrary: node)
  case Nil
  then show ?case by (subst add_unique_loop.simps) (simp add: infos_def)
next
  case (Cons n ns)
  then show ?case by (subst add_unique_loop.simps) (auto simp: infos_def)
qed

lemma bl_add_unique_correct:
  assumes bl: "blist h l ns"
  shows "bl_add_unique eq l info a h =
    Some (if \<exists>i \<in> set (infos h ns). eq i info then (True, h) else bl_push_back l info a h)"
  using add_unique_loop_correct [of h "list_first h l" ns eq info] bl
  by (auto simp: bl_add_unique_def blist_unfold)

lemma elem_loop_correct:
  assumes "path h node ns end_of_list" "unat i + length ns < 2 ^ 32"
  shows "elem_loop i node data n h =
    Some (if unat n < unat i then data
          else if unat n - unat i < length ns then infos h ns ! (unat n - unat i) else NULL)"
  using assms
proof (induction ns arbitrary: node i data)
  case Nil
  then show ?case by (subst elem_loop.simps) (auto simp: word_le_nat_alt)
next
  case (Cons m ns)
  show ?case
  proof (cases "i \<le> n")
    case True
    have i1: "unat (i + 1) = unat i + 1" using Cons.prems(2) by (simp add: unat_word_ariths)
    have "elem_loop i node data n h = elem_loop (i + 1) (node_next h m) (node_info h m) n h"
      using Cons.prems(1) True by (subst elem_loop.simps) simp
    also have "\<dots> = Some (if unat n < unat (i + 1) then node_info h m
          else if unat n - unat (i + 1) < length ns then infos h ns ! (unat n - unat (i + 1)) else NULL)"
      by (rule Cons.IH) (use Cons.prems i1 in auto)
    finally have run: "elem_loop i node data n h = \<dots>" .
    show ?thesis
    proof (cases "unat i = unat n")
      case False
      then have "unat n - unat i = Suc (unat n - unat (i + 1))" "\<not> unat n < unat (i + 1)"
        using True by (auto simp: i1 word_le_nat_alt)
      then show ?thesis using True by (simp add: run infos_def word_le_nat_alt)
    qed (simp add: run i1 infos_def)
  next
    case False
    then show ?thesis by (subst elem_loop.simps) (auto simp: word_le_nat_alt)
  qed
qed

lemma bl_elem_correct:
  assumes "blist h l ns"
  shows "bl_elem l n h = Some (if unat n < length ns then infos h ns ! unat n else NULL)"
  using elem_loop_correct [of h "list_first h l" ns 0 NULL n] assms
  by (simp add: bl_elem_def blist_unfold)


text \<open>
  The debug check accepts every well-formed list with no \<open>NULL\<close> element except the empty one,
  for which it reports a wrong \<open>last\<close> pointer.
\<close>

lemma check_list_loop_correct:
  assumes "path h node (ns @ [m]) end_of_list" "NULL \<notin> set (infos h ns)"
  shows "check_list_loop node cnt h = Some (Some (m, cnt + of_nat (length ns)))"
  using assms
proof (induction ns arbitrary: node cnt)
  case Nil
  then show ?case by (subst check_list_loop.simps) simp
next
  case (Cons n ns)
  have "node_next h n \<noteq> end_of_list"
    using Cons.prems(1) by (cases ns) auto
  then have "check_list_loop node cnt h = check_list_loop (node_next h n) (cnt + 1) h"
    using Cons.prems by (subst check_list_loop.simps) (simp add: infos_def)
  also have "\<dots> = Some (Some (m, cnt + 1 + of_nat (length ns)))"
    by (rule Cons.IH) (use Cons.prems in \<open>auto simp: infos_def\<close>)
  finally show ?case by (simp add: add.assoc)
qed

lemma bl_check_list_accepts:
  assumes "blist h l ns" "ns \<noteq> []" "NULL \<notin> set (infos h ns)"
  shows "bl_check_list l h = Some True"
proof -
  obtain ms m where ns: "ns = ms @ [m]" using assms(2) by (cases ns rule: rev_cases) auto
  have "check_list_loop (list_first h l) 0 h = Some (Some (m, 0 + of_nat (length ms)))"
    using assms by (intro check_list_loop_correct) (auto simp: ns blist_unfold infos_def)
  then show ?thesis using assms by (simp add: bl_check_list_def ns blist_unfold)
qed

lemma bl_check_list_empty: "blist h l [] \<Longrightarrow> bl_check_list l h = Some False"
  by (auto simp: bl_check_list_def blist_unfold check_list_loop.simps)

lemma delete_elements_loop_correct:
  "path h node ns end_of_list \<Longrightarrow> delete_elements_loop node ds h = Some (ds @ infos h ns)"
proof (induction ns arbitrary: node ds)
  case Nil
  then show ?case by (subst delete_elements_loop.simps) (simp add: infos_def)
next
  case (Cons n ns)
  then show ?case by (subst delete_elements_loop.simps) (simp add: infos_def)
qed

lemma list_delete_elements_correct:
  assumes "blist h l ns"
  shows "\<exists>h'. list_delete_elements l h = Some (infos h ns, h') \<and> blist h' l [] \<and> others_kept h h' {l} {}"
  using assms delete_elements_loop_correct [of h "list_first h l" ns "[]"] bl_empty_correct [of h l]
  by (auto simp: list_delete_elements_def blist_unfold)

lemma list_make_correct:
  assumes "end_ok h" "a \<noteq> NULL" "a \<noteq> end_of_list" "list_make (Some l) first a h = (res, h')"
  shows "res = Some l \<and> blist h' l [a] \<and> infos h' [a] = [first]"
proof -
  obtain failed h1 where run: "bl_push_back l first a (bl_empty l h) = (failed, h1)"
    by (cases "bl_push_back l first a (bl_empty l h)")
  have "blist (bl_empty l h) l []" using bl_empty_correct [OF assms(1)] by blast
  from bl_push_back_correct [OF this _ _ run] assms(2,3)
  have "\<not> failed" "blist h1 l [a]" "infos h1 [a] = [first]" by (auto simp: infos_def)
  then show ?thesis using assms(4) run by (auto simp: list_make_def)
qed

text \<open>Inserting after a node.\<close>

lemma bl_after_correct:
  assumes bl: "blist h l (xs @ x # ys)" and a: "a \<notin> insert NULL (insert end_of_list (set (xs @ x # ys)))"
    and room: "length (xs @ x # ys) + 1 < 2 ^ 32"
  shows "blist (bl_after l info x a h) l (xs @ x # a # ys)"
    "infos (bl_after l info x a h) (xs @ x # a # ys) = infos h (xs @ [x]) @ info # infos h ys"
    "others_kept h (bl_after l info x a h) {l} (insert a (set (xs @ [x])))"
proof -
  let ?h = "bl_after l info x a h"
  have next_h: "node_next ?h n = (if n = x then a else if n = a then node_next h x else node_next h n)"
    and info_h: "node_info ?h n = (if n = a then info else node_info h n)"
    and fields: "list_first ?h k = list_first h k"
      "list_last ?h k = (if k = l \<and> list_last h l = Next x then Next a else list_last h k)"
      "list_elements ?h k = (if k = l then list_elements h l + 1 else list_elements h k)" for n k
    using a by (auto simp: bl_after_def Let_def new_list_node_def)
  have "end_ok h" using bl by (simp add: blist_def)
  then have endok: "end_ok ?h"
    using a blist_nodes [OF bl, of x] unfolding end_ok_def next_h info_h by auto
  have path: "path h (list_first h l) (xs @ x # ys) end_of_list" and d: "distinct (xs @ x # ys)"
    and last: "list_last h l = last_loc (First l) (xs @ x # ys)"
    and n: "list_elements h l = of_nat (length (xs @ x # ys))"
    using bl by (auto simp: blist_unfold)
  have "path ?h b xs t = path h b xs t" "path ?h b ys t = path h b ys t" for b t
    by (rule path_cong; use a d in \<open>auto simp: next_h\<close>)+
  then have "path ?h (list_first h l) (xs @ x # a # ys) end_of_list"
    using path a by (auto simp: path_append next_h)
  moreover have "list_last h l = Next x \<longleftrightarrow> ys = []"
    using d by (auto simp: last last_loc_def dest: last_in_set)
  ultimately show "blist ?h l (xs @ x # a # ys)"
    using d a room endok by (auto simp: blist_def list_rep_def fields last n last_loc_def)
  show "infos ?h (xs @ x # a # ys) = infos h (xs @ [x]) @ info # infos h ys"
    using a by (auto simp: infos_def info_h)
  show "others_kept h ?h {l} (insert a (set (xs @ [x])))"
    by (rule others_keptI [OF endok]) (auto simp: next_h info_h fields)
qed

subsection \<open>Properties\<close>

text \<open>A small memory for the witnesses: list 1 has the nodes 10 and 11, list 2 the node 20.\<close>

definition sample_heap :: lheap where
  "sample_heap =
     snd (bl_push_back 2 7 20 (snd (bl_push_back 1 6 11 (snd (bl_push_back 1 5 10
       (bl_empty 2 (bl_empty 1 (init_end_of_list no_heap))))))))"

lemma sample_heap_lists:
  "blist sample_heap 1 [10, 11]" "blist sample_heap 2 [20]"
  "infos sample_heap [10, 11] = [5, 6]" "infos sample_heap [20] = [7]"
  by (simp_all add: sample_heap_def no_heap_def bl_push_back_def bl_empty_def init_end_of_list_def new_list_node_def
      list_node_def Let_def blist_def list_rep_def end_ok_def infos_def NULL_def end_of_list_def)

text \<open>
  C5. \<open>base_list\<close> as a sequence: \<open>push_back\<close> and \<open>push_front\<close> with an allocated node add the
  value at the end and the front, return no error, and disturb no other list; \<open>pop\<close> takes the
  first value, or answers NULL for an empty list.
\<close>

theorem base_list_push_pop:
  assumes "blist h l ns" "a \<notin> insert NULL (insert end_of_list (set ns))" "length ns + 1 < 2 ^ 32"
  shows "(case bl_push_back l info a h of (failed, h') \<Rightarrow>
      \<not> failed \<and> blist h' l (ns @ [a]) \<and> infos h' (ns @ [a]) = infos h ns @ [info] \<and> others_kept h h' {l} (set (ns @ [a]))) \<and>
    (case bl_push_front l info a h of (failed, h') \<Rightarrow>
      \<not> failed \<and> blist h' l (a # ns) \<and> infos h' (a # ns) = info # infos h ns \<and> others_kept h h' {l} (insert a (set ns))) \<and>
    (case bl_pop l h of (i, h') \<Rightarrow>
      blist h' l (tl ns) \<and> infos h' ns = infos h ns \<and> others_kept h h' {l} {} \<and>
      i = (case infos h ns of [] \<Rightarrow> NULL | i # _ \<Rightarrow> i))"
proof -
  have "case bl_push_back l info a h of (failed, h') \<Rightarrow>
      \<not> failed \<and> blist h' l (ns @ [a]) \<and> infos h' (ns @ [a]) = infos h ns @ [info] \<and> others_kept h h' {l} (set (ns @ [a]))"
    using bl_push_back_correct [OF assms] by (cases "bl_push_back l info a h") blast
  moreover have "case bl_push_front l info a h of (failed, h') \<Rightarrow>
      \<not> failed \<and> blist h' l (a # ns) \<and> infos h' (a # ns) = info # infos h ns \<and> others_kept h h' {l} (insert a (set ns))"
    using bl_push_front_correct [OF assms] by (cases "bl_push_front l info a h") blast
  moreover have "case bl_pop l h of (i, h') \<Rightarrow>
      blist h' l (tl ns) \<and> infos h' ns = infos h ns \<and> others_kept h h' {l} {} \<and>
      i = (case infos h ns of [] \<Rightarrow> NULL | i # _ \<Rightarrow> i)"
    using bl_pop_correct [OF assms(1)] by (cases "bl_pop l h") blast
  ultimately show ?thesis by blast
qed

lemma base_list_push_pop_witness:
  "\<exists>h'. bl_push_back 1 9 30 sample_heap = (False, h') \<and> infos h' [10, 11, 30] = [5, 6, 9] \<and> blist h' 2 [20]"
proof -
  obtain f h' where e: "bl_push_back 1 9 30 sample_heap = (f, h')" by fastforce
  have "30 \<notin> insert NULL (insert end_of_list (set [10, 11 :: addr]))" by (simp add: NULL_def end_of_list_def)
  from base_list_push_pop [OF sample_heap_lists(1) this, of 9] e sample_heap_lists show ?thesis
    by (fastforce simp: others_kept_def)
qed

text \<open>
  When the allocation of a node fails, \<open>push_back\<close> reports the error, but has already stored
  the NULL it got into the end of the list: the last node no longer leads to \<open>end_of_list\<close>, and
  the object is not a list any more.
\<close>

lemma push_back_failure_breaks_list:
  assumes "blist h l ns" "ns \<noteq> []" "bl_push_back l info NULL h = (failed, h')"
  shows "failed \<and> node_next h' (last ns) = NULL \<and> \<not> blist h' l ns"
proof -
  have f: failed using assms(3) by (simp add: bl_push_back_def Let_def)
  then have n: "node_next h' (last ns) = NULL" using bl_push_back_failed [OF assms(1,2)] assms(3) by simp
  have "\<not> blist h' l ns"
  proof
    assume "blist h' l ns"
    then have "path h' (list_first h' l) (butlast ns @ [last ns]) end_of_list"
      using assms(2) by (simp add: blist_def list_rep_def)
    then have "node_next h' (last ns) = end_of_list" by (auto simp: path_append)
    then show False using n by (simp add: NULL_def end_of_list_def)
  qed
  then show ?thesis using f n by blast
qed

lemma push_back_failure_breaks_list_witness:
  "\<exists>h'. bl_push_back 1 9 NULL sample_heap = (True, h') \<and> node_next h' 11 = NULL"
  using push_back_failure_breaks_list [OF sample_heap_lists(1), of 9]
  by (cases "bl_push_back 1 9 NULL sample_heap") fastforce

text \<open>
  Two lists with different nodes: \<open>append\<close> and \<open>prepend\<close> put the other list's nodes at the end
  and at the front with all values in order, \<open>swap\<close> exchanges the contents, and other lists stay.
\<close>

lemma base_list_two_lists:
  assumes "blist h l ns" "blist h r ms" "set ns \<inter> set ms = {}" "l \<noteq> r" "length ns + length ms < 2 ^ 32"
  shows "blist (bl_append l r h) l (ns @ ms) \<and> infos (bl_append l r h) (ns @ ms) = infos h ns @ infos h ms \<and>
    others_kept h (bl_append l r h) {l} (set ns) \<and>
    blist (bl_prepend l r h) l (ms @ ns) \<and> infos (bl_prepend l r h) (ms @ ns) = infos h ms @ infos h ns \<and>
    others_kept h (bl_prepend l r h) {l, r} (set ms) \<and>
    blist (bl_swap l r h) l ms \<and> blist (bl_swap l r h) r ns \<and> others_kept h (bl_swap l r h) {l, r} {}"
  using bl_append_correct [OF assms] bl_prepend_correct [OF assms] bl_swap_correct [OF assms(1,2,4)]
  by (simp add: infos_list)

lemma base_list_two_lists_witness:
  "blist (bl_append 1 2 sample_heap) 1 [10, 11, 20] \<and> infos (bl_append 1 2 sample_heap) [10, 11, 20] = [5, 6, 7]"
  using base_list_two_lists [OF sample_heap_lists(1,2)] sample_heap_lists(3,4) by simp

text \<open>
  \<open>disjoin\<close> undoes \<open>append\<close>: on a list whose tail is another list it cuts the tail off and
  keeps the values, and for a list that is not a tail it changes nothing. \<open>elem\<close> finds the n-th
  value, or NULL past the end, and \<open>add_unique\<close> adds a value only when no equal one is there;
  each of the loops ends.
\<close>

lemma base_list_searches:
  assumes "blist h l (xs @ ys)" "ys \<noteq> []"
  shows "(list_first h r = hd ys \<longrightarrow>
      (\<exists>h'. bl_disjoin l r h = Some h' \<and> blist h' l xs \<and> infos h' (xs @ ys) = infos h (xs @ ys))) \<and>
    (list_first h r \<notin> set (xs @ ys) \<longrightarrow> bl_disjoin l r h = Some h) \<and>
    bl_elem l n h = Some (if unat n < length (xs @ ys) then infos h (xs @ ys) ! unat n else NULL) \<and>
    bl_add_unique eq l info a h =
      Some (if \<exists>i. i \<in> set (infos h (xs @ ys)) \<and> eq i info then (True, h) else bl_push_back l info a h)"
  using bl_disjoin_tail [OF assms, of r] bl_disjoin_other [OF assms(1), of r] bl_elem_correct [OF assms(1), of n]
    bl_add_unique_correct [OF assms(1), of eq info a] assms(2) unfolding Bex_def by blast

lemma base_list_searches_witness:
  "bl_elem 1 1 sample_heap = Some 6 \<and> bl_disjoin 1 2 sample_heap = Some sample_heap"
proof -
  have "list_first sample_heap 2 = 20" using sample_heap_lists(2) by (simp add: blist_def list_rep_def)
  then show ?thesis
    using base_list_searches [of sample_heap 1 "[10]" "[11]" 2 1] sample_heap_lists by simp
qed

text \<open>
  \<open>check_list\<close> accepts a nonempty list without NULL values but reports the empty list as wrong.
\<close>

lemma check_list_rejects_empty:
  assumes "blist h l ns" "NULL \<notin> set (infos h ns)"
  shows "bl_check_list l h = Some (ns \<noteq> [])"
  using bl_check_list_accepts [OF assms(1) _ assms(2)] bl_check_list_empty assms(1) by (cases "ns = []") auto

end
