(* ===== verification/List_Iterator.thy ===== *)
theory List_Iterator
  imports Base_List
begin

text \<open>
  \<open>base_list_iterator\<close> of \<open>sql_list.h\<close>, which may change the list while it walks over it, and
  the two algorithms of the header written with it: \<open>bubble_sort\<close> and
  \<open>list_copy_and_replace_each_value\<close>. The iterator that has consumed the nodes \<open>xs\<close> refers with
  \<open>el\<close> to the cell after \<open>xs\<close>; the lemmas say how each operation changes the list and moves the
  iterator. The iterator built without a list has no operation to call and is left out.
\<close>

subsection \<open>The iterator\<close>

record bl_iter =
  it_list :: lid
  it_el :: loc
  it_prev :: "loc option"
  it_current :: addr

definition it_init :: "lid \<Rightarrow> bl_iter" where
  "it_init l = \<lparr>it_list = l, it_el = First l, it_prev = None, it_current = NULL\<rparr>"

definition it_next :: "bl_iter \<Rightarrow> lheap \<Rightarrow> addr \<times> bl_iter" where
  "it_next it h = (let it = it\<lparr>it_prev := Some (it_el it)\<rparr>;
                       it = it\<lparr>it_current := deref h (it_el it)\<rparr>;
                       it = it\<lparr>it_el := Next (it_current it)\<rparr>
                   in (node_info h (it_current it), it))"

definition it_peek :: "bl_iter \<Rightarrow> lheap \<Rightarrow> addr" where
  "it_peek it h = node_info h (deref h (it_el it))"

definition it_next_fast :: "bl_iter \<Rightarrow> lheap \<Rightarrow> addr \<times> bl_iter" where
  "it_next_fast it h = (let tmp = deref h (it_el it) in (node_info h tmp, it\<lparr>it_el := Next tmp\<rparr>))"

definition it_rewind :: "bl_iter \<Rightarrow> bl_iter" where
  "it_rewind it = it\<lparr>it_el := First (it_list it)\<rparr>"

definition it_replace :: "addr \<Rightarrow> bl_iter \<Rightarrow> lheap \<Rightarrow> (addr \<times> lheap) option" where
  "it_replace element it h =
     guard (node_info h (it_current it) \<noteq> NULL)
       (node_info h (it_current it), set_info (it_current it) element h)"

definition it_replace_list :: "lid \<Rightarrow> bl_iter \<Rightarrow> lheap \<Rightarrow> addr \<times> lheap" where
  "it_replace_list new_list it h =
     (let current = it_current it; l = it_list it;
          ret_value = node_info h current
      in if bl_is_empty new_list h then (ret_value, h)
         else (let h = assign (list_last h new_list) (node_next h current) h;
                   h = set_info current (node_info h (list_first h new_list)) h;
                   h = set_next current (node_next h (list_first h new_list)) h;
                   h = (if list_last h l = Next current \<and> list_elements h new_list > 1
                        then set_last l (list_last h new_list) h else h);
                   h = set_elements l (list_elements h l + (list_elements h new_list - 1)) h
               in (ret_value, h)))"

text \<open>\<open>None\<close>: \<open>remove\<close> before the first \<open>next\<close>, when \<open>prev\<close> is null.\<close>

definition it_remove :: "bl_iter \<Rightarrow> lheap \<Rightarrow> (bl_iter \<times> lheap) option" where
  "it_remove it h =
     (case it_prev it of
        None \<Rightarrow> None
      | Some prev \<Rightarrow> Some (it\<lparr>it_el := prev, it_current := NULL\<rparr>, bl_remove (it_list it) prev h))"

definition it_after :: "addr \<Rightarrow> addr \<Rightarrow> bl_iter \<Rightarrow> lheap \<Rightarrow> bl_iter \<times> lheap" where
  "it_after element a it h =
     (let h = bl_after (it_list it) element (it_current it) a h;
          it = it\<lparr>it_current := node_next h (it_current it)\<rparr>
      in (it\<lparr>it_el := Next (it_current it)\<rparr>, h))"

text \<open>\<open>ref\<close> answers the node whose \<open>info\<close> field it refers to.\<close>

definition it_ref :: "bl_iter \<Rightarrow> addr" where "it_ref it = it_current it"
definition it_is_last :: "bl_iter \<Rightarrow> bool" where "it_is_last it \<longleftrightarrow> it_el it = Next bl_last_ref"
definition it_at_end :: "bl_iter \<Rightarrow> bool" where "it_at_end it \<longleftrightarrow> it_current it = end_of_list"

definition it_sublist :: "bl_iter \<Rightarrow> lid \<Rightarrow> u32 \<Rightarrow> lheap \<Rightarrow> lheap" where
  "it_sublist it ls elm h =
     (let h = set_first ls (deref h (it_el it)) h;
          h = set_last ls (list_last h (it_list it)) h
      in set_elements ls elm h)"

text \<open>\<open>List::Iterator\<close>, the iterator of range-based loops, is a node.\<close>

definition lit_begin :: "lid \<Rightarrow> lheap \<Rightarrow> addr" where "lit_begin l h = list_first h l"
definition lit_end :: addr where "lit_end = end_of_list"

definition lit_inc :: "addr \<Rightarrow> lheap \<Rightarrow> addr option" where
  "lit_inc node h = guard (node \<noteq> end_of_list) (node_next h node)"

definition lit_get :: "addr \<Rightarrow> lheap \<Rightarrow> addr" where "lit_get node h = node_info h node"

text \<open>The loop \<open>for (T &x : list)\<close>: what it visits; \<open>None\<close> is a failed assertion or no end.\<close>

partial_function (option) lit_loop :: "addr \<Rightarrow> addr list \<Rightarrow> lheap \<Rightarrow> addr list option" where
  "lit_loop node visited h =
     (if node \<noteq> lit_end
      then Option.bind (lit_inc node h) (\<lambda>next. lit_loop next (visited @ [lit_get node h]) h)
      else Some visited)"

subsection \<open>Walking and changing\<close>

text \<open>The iterator has consumed \<open>xs\<close> of the list \<open>l\<close>, and \<open>ys\<close> is left.\<close>

definition it_at :: "lheap \<Rightarrow> bl_iter \<Rightarrow> lid \<Rightarrow> addr list \<Rightarrow> addr list \<Rightarrow> bool" where
  "it_at h it l xs ys \<longleftrightarrow> blist h l (xs @ ys) \<and> it_list it = l \<and> it_el it = last_loc (First l) xs"

lemma it_at_init: "blist h l ns \<Longrightarrow> it_at h (it_init l) l [] ns"
  by (simp add: it_at_def it_init_def)

lemma it_at_rewind: "it_at h it l xs ys \<Longrightarrow> it_at h (it_rewind it) l [] (xs @ ys)"
  by (simp add: it_at_def it_rewind_def)

lemma it_at_deref:
  assumes "it_at h it l xs ys"
  shows "deref h (it_el it) = (case ys of [] \<Rightarrow> end_of_list | y # _ \<Rightarrow> y)"
  using assms deref_last_loc [of h "First l" "xs @ ys" end_of_list "length xs"]
  by (cases ys) (auto simp: it_at_def blist_unfold)

lemma it_next_correct:
  assumes at: "it_at h it l xs (y # ys)" and run: "it_next it h = (info, it')"
  shows "info = node_info h y" "it_at h it' l (xs @ [y]) ys"
    "it_current it' = y" "it_prev it' = Some (last_loc (First l) xs)"
  using run at it_at_deref [OF at] by (auto simp: it_next_def it_at_def Let_def)

lemma it_next_end:
  assumes at: "it_at h it l ns []" and run: "it_next it h = (info, it')"
  shows "info = NULL" "it_at_end it'" "it_is_last it'"
  using run at it_at_deref [OF at]
  by (auto simp: it_next_def it_at_def Let_def it_at_end_def it_is_last_def bl_last_ref_def blist_unfold)

lemma it_peek_next: "it_peek it h = fst (it_next it h)"
  by (simp add: it_peek_def it_next_def Let_def)

lemma it_next_fast_next:
  "fst (it_next_fast it h) = fst (it_next it h)"
  "it_el (snd (it_next_fast it h)) = it_el (snd (it_next it h))"
  by (simp_all add: it_next_fast_def it_next_def Let_def)

lemma lit_loop_correct: "path h node ns end_of_list \<Longrightarrow> lit_loop node vs h = Some (vs @ infos h ns)"
proof (induction ns arbitrary: node vs)
  case Nil
  then show ?case by (subst lit_loop.simps) (simp add: lit_end_def infos_list)
next
  case (Cons n ns)
  then show ?case by (subst lit_loop.simps) (simp add: lit_end_def lit_inc_def lit_get_def infos_list)
qed

lemma range_loop_visits: "blist h l ns \<Longrightarrow> lit_loop (lit_begin l h) [] h = Some (infos h ns)"
  using lit_loop_correct [of h "list_first h l" ns "[]"] by (simp add: lit_begin_def blist_unfold)

text \<open>Removing the current element: the iterator goes on with the element after it.\<close>

lemma it_remove_correct:
  assumes at: "it_at h it l (xs @ [y]) ys" and prev: "it_prev it = Some (last_loc (First l) xs)"
    and run: "it_remove it h = Some (it', h')"
  shows "it_at h' it' l xs ys" "infos h' (xs @ ys) = infos h xs @ infos h ys"
    "others_kept h h' {l} (set xs)"
proof -
  have bl: "blist h l (xs @ y # ys)" and l: "it_list it = l" using at by (auto simp: it_at_def)
  note rem = bl_remove_correct [OF bl refl]
  have h': "h' = bl_remove l (last_loc (First l) xs) h"
      "it_list it' = l" "it_el it' = last_loc (First l) xs"
    using run prev l by (auto simp: it_remove_def)
  show "it_at h' it' l xs ys" using rem(1) h' by (simp add: it_at_def)
  show "infos h' (xs @ ys) = infos h xs @ infos h ys" "others_kept h h' {l} (set xs)"
    using rem(2,3) h'(1) by simp_all
qed

text \<open>Inserting after the current element: the new element counts as consumed.\<close>

lemma it_after_correct:
  assumes at: "it_at h it l (xs @ [y]) ys" and cur: "it_current it = y"
    and a: "a \<notin> insert NULL (insert end_of_list (set (xs @ y # ys)))"
    and room: "length (xs @ y # ys) + 1 < 2 ^ 32"
    and run: "it_after info a it h = (it', h')"
  shows "it_at h' it' l (xs @ [y, a]) ys" "it_current it' = a"
    "infos h' (xs @ [y, a] @ ys) = infos h (xs @ [y]) @ info # infos h ys"
    "others_kept h h' {l} (insert a (set (xs @ [y])))"
proof -
  have bl: "blist h l (xs @ y # ys)" and l: "it_list it = l" using at by (auto simp: it_at_def)
  note after = bl_after_correct [OF bl a room, of info]
  have "y \<noteq> a" using a by auto
  then have "node_next (bl_after l info y a h) y = a"
    by (simp add: bl_after_def Let_def new_list_node_def)
  then have h': "h' = bl_after l info y a h" "it_list it' = l" "it_el it' = Next a" "it_current it' = a"
    using run cur l by (auto simp: it_after_def Let_def)
  have "last_loc (First l) (xs @ [y, a]) = Next a" by (simp add: last_loc_append)
  then show "it_at h' it' l (xs @ [y, a]) ys" using after(1) h' by (simp add: it_at_def)
  show "it_current it' = a" by (rule h'(4))
  show "infos h' (xs @ [y, a] @ ys) = infos h (xs @ [y]) @ info # infos h ys"
    "others_kept h h' {l} (insert a (set (xs @ [y])))"
    using after(2,3) h'(1) by simp_all
qed

lemma it_replace_correct:
  assumes at: "it_at h it l (xs @ [y]) ys" and cur: "it_current it = y"
    and run: "it_replace info it h = Some (old, h')"
  shows "it_at h' it l (xs @ [y]) ys" "old = node_info h y"
    "infos h' (xs @ y # ys) = infos h xs @ info # infos h ys"
proof -
  have bl: "blist h l (xs @ y # ys)" using at by (simp add: it_at_def)
  have h': "h' = set_info y info h" "old = node_info h y"
    using run cur by (auto simp: it_replace_def)
  have "path h' b ns t = path h b ns t" for b ns t by (rule path_cong) (simp add: h')
  moreover have "y \<noteq> end_of_list" "y \<notin> set xs" "y \<notin> set ys"
    using blist_nodes [OF bl] bl by (auto simp: blist_unfold)
  ultimately show "it_at h' it l (xs @ [y]) ys" "infos h' (xs @ y # ys) = infos h xs @ info # infos h ys"
    using at by (auto simp: it_at_def blist_unfold h' infos_def)
  show "old = node_info h y" by (rule h'(2))
qed

text \<open>Replacing the current element by the elements of another list.\<close>

lemma it_replace_list_correct:
  assumes at: "it_at h it l (xs @ [y]) ys" and cur: "it_current it = y"
    and new: "blist h r (m # ms)" and disj: "l \<noteq> r" "set (xs @ y # ys) \<inter> set (m # ms) = {}"
    and room: "length (xs @ y # ys) + length ms < 2 ^ 32"
    and run: "it_replace_list r it h = (old, h')"
  shows "it_at h' it l (xs @ [y]) (ms @ ys)" "old = node_info h y"
    "infos h' (xs @ y # ms @ ys) = infos h xs @ infos h (m # ms) @ infos h ys"
proof -
  have bl: "blist h l (xs @ y # ys)" and l: "it_list it = l" using at by (auto simp: it_at_def)
  have path: "path h (list_first h l) (xs @ y # ys) end_of_list" and d: "distinct (xs @ y # ys)"
    and last: "list_last h l = last_loc (First l) (xs @ y # ys)"
    and n: "list_elements h l = of_nat (length (xs @ y # ys))" and e: "end_ok h"
    using bl by (auto simp: blist_def list_rep_def)
  have rpath: "path h (list_first h r) (m # ms) end_of_list" and rd: "distinct (m # ms)"
    and rlast: "list_last h r = Next (last (m # ms))"
    and rn: "list_elements h r = of_nat (length (m # ms))" and rlen: "length (m # ms) < 2 ^ 32"
    using new by (auto simp: blist_def list_rep_def last_loc_def)
  have m: "list_first h r = m" "m \<noteq> end_of_list" using rpath by auto
  define q where "q = last (m # ms)"
  have ne: "y \<noteq> m" "y \<noteq> q" "y \<notin> set ms" "m \<notin> set ms" and qm: "q = m \<longleftrightarrow> ms = []"
    using disj rd last_in_set [of "m # ms"] by (auto simp: q_def)
  have rq: "list_last h r = Next q" by (simp add: rlast q_def)
  have big: "list_elements h r > 1 \<longleftrightarrow> ms \<noteq> []"
    using rlen elements_unat [of "length (m # ms)"]
    by (simp add: word_less_nat_alt rn del: of_nat_Suc)
  have ylast: "list_last h l = Next y \<longleftrightarrow> ys = []"
    using d by (auto simp: last last_loc_def dest: last_in_set)
  have fields: "old = node_info h y" "list_first h' l = list_first h l"
      "list_elements h' l = list_elements h l + (list_elements h r - 1)"
      "list_last h' l = (if ys = [] \<and> ms \<noteq> [] then list_last h r else list_last h l)"
    using run cur l m(2) by (auto simp: it_replace_list_def bl_is_empty_def m(1) Let_def ylast big rq)
  have next_h: "node_next h' k =
      (if k = y then (if ms = [] then node_next h y else node_next h m)
       else if k = q then node_next h y else node_next h k)"
    and info_h: "node_info h' k = (if k = y then node_info h m else node_info h k)" for k
    using run cur l m(2) ne(1,2) qm
    by (auto simp: it_replace_list_def bl_is_empty_def m(1) Let_def ylast big rq)
  show "old = node_info h y" by (rule fields)
  have "q \<in> set (m # ms)" unfolding q_def by (rule last_in_set) simp
  then have "q \<noteq> end_of_list" using rpath path_nodes by blast
  then have endok: "end_ok h'"
    using e blist_nodes [OF bl, of y] unfolding end_ok_def next_h info_h by auto
  have lastnot: "q \<notin> set xs" "q \<notin> set ys" using disj \<open>q \<in> set (m # ms)\<close> by auto
  have keep: "path h' a xs t = path h a xs t" "path h' a ys t = path h a ys t" for a t
    by (rule path_cong; use d lastnot in \<open>auto simp: next_h\<close>)+
  have yb: "path h (node_next h y) ys end_of_list" using path by (auto simp: path_append)
  have mid: "path h' (node_next h' y) (ms @ ys) end_of_list"
  proof (cases ms rule: rev_cases)
    case Nil
    then show ?thesis using yb qm by (simp add: next_h keep)
  next
    case (snoc ks k)
    have "path h' (node_next h m) (ks @ [k]) (node_next h y)"
      by (rule path_set_last [where h = h and t = end_of_list])
        (use rpath rd ne snoc in \<open>auto simp: next_h q_def\<close>)
    then show ?thesis using yb snoc keep by (auto simp: next_h path_append)
  qed
  have "path h' (list_first h' l) (xs @ y # ms @ ys) end_of_list"
    using path mid keep by (auto simp: path_append fields)
  moreover have "list_last h' l = last_loc (First l) (xs @ y # ms @ ys)"
    using rlast by (auto simp: fields last last_loc_def)
  moreover have "distinct (xs @ y # ms @ ys)" using d rd disj by auto
  moreover have "list_elements h' l = of_nat (length (xs @ y # ms @ ys))"
    by (simp add: fields n rn)
  ultimately show "it_at h' it l (xs @ [y]) (ms @ ys)"
    using at room endok by (auto simp: it_at_def blist_def list_rep_def)
  show "infos h' (xs @ y # ms @ ys) = infos h xs @ infos h (m # ms) @ infos h ys"
    using d ne by (auto simp: infos_def info_h)
qed

lemma it_sublist_correct:
  assumes at: "it_at h it l xs ys" and ys: "ys \<noteq> []" and ls: "ls \<noteq> l"
  shows "blist (it_sublist it ls (of_nat (length ys)) h) ls ys"
    "blist (it_sublist it ls (of_nat (length ys)) h) l (xs @ ys)"
proof -
  let ?h = "it_sublist it ls (of_nat (length ys)) h"
  have p: "path ?h a ns t = path h a ns t" for a ns t
    by (rule path_cong) (simp add: it_sublist_def Let_def)
  have "path h (deref h (it_el it)) ys end_of_list"
    using at it_at_deref [OF at] ys path_start
    by (cases ys) (auto simp: it_at_def blist_unfold path_append)
  then show "blist ?h ls ys"
    using at ys unfolding it_at_def blist_unfold p
    by (auto simp: it_sublist_def Let_def last_loc_def)
  show "blist ?h l (xs @ ys)"
    using at ls unfolding it_at_def blist_unfold p by (auto simp: it_sublist_def Let_def)
qed

subsection \<open>Properties\<close>

text \<open>
  A walk over a list returns its values in order and then NULL, and the range loop collects all
  of them; removing the element just returned takes exactly that element out of the list and leaves
  the iterator before the next one.
\<close>

lemma iterator_walk_remove:
  assumes "it_at h it l xs (y # ys)" "it_next it h = (info, it1)"
  shows "info = node_info h y \<and> it_at h it1 l (xs @ [y]) ys \<and>
    (\<exists>it2 h'. it_remove it1 h = Some (it2, h') \<and> it_at h' it2 l xs ys \<and>
      infos h' (xs @ ys) = infos h xs @ infos h ys \<and> others_kept h h' {l} (set xs)) \<and>
    lit_loop (lit_begin l h) [] h = Some (infos h (xs @ y # ys)) \<and>
    (ys = [] \<longrightarrow> fst (it_next it1 h) = NULL)"
proof -
  have n: "info = node_info h y" "it_at h it1 l (xs @ [y]) ys" "it_prev it1 = Some (last_loc (First l) xs)"
    using it_next_correct [OF assms] by blast+
  obtain it2 h' where r: "it_remove it1 h = Some (it2, h')"
    using n(3) by (auto simp: it_remove_def)
  have "lit_loop (lit_begin l h) [] h = Some (infos h (xs @ y # ys))"
    using assms(1) by (intro range_loop_visits) (simp add: it_at_def)
  moreover have "fst (it_next it1 h) = NULL" if "ys = []"
    using it_next_end [of h it1 l "xs @ [y]"] n(2) that by (cases "it_next it1 h") auto
  ultimately show ?thesis using n r it_remove_correct [OF n(2,3) r] by blast
qed

lemma iterator_walk_remove_witness:
  "\<exists>it2 h'. it_remove (snd (it_next (it_init 1) sample_heap)) sample_heap = Some (it2, h') \<and> blist h' 1 [11]"
  using iterator_walk_remove [OF it_at_init [OF sample_heap_lists(1)] prod.collapse [symmetric]]
  by (auto simp: it_at_def)

text \<open>
  Changing a list during a walk: \<open>after\<close> puts a new node behind the current one and moves on to
  it, and \<open>replace\<close> with a list puts that list's values in the place of the current value; the walk
  then goes on with the rest of the list it had.
\<close>

lemma iterator_insert_replace:
  assumes "it_at h it l (xs @ [y]) ys" "it_current it = y"
    and "a \<notin> insert NULL (insert end_of_list (set (xs @ y # ys)))" "length (xs @ y # ys) + 1 < 2 ^ 32"
    and "blist h r (m # ms)" "l \<noteq> r" "set (xs @ y # ys) \<inter> set (m # ms) = {}"
    and "length (xs @ y # ys) + length ms < 2 ^ 32"
  shows "(case it_after info a it h of (it', h') \<Rightarrow>
      it_at h' it' l (xs @ [y, a]) ys \<and> infos h' (xs @ [y, a] @ ys) = infos h (xs @ [y]) @ info # infos h ys) \<and>
    (case it_replace_list r it h of (old, h') \<Rightarrow>
      old = node_info h y \<and> it_at h' it l (xs @ [y]) (ms @ ys) \<and>
      infos h' (xs @ y # ms @ ys) = infos h xs @ infos h (m # ms) @ infos h ys)"
proof
  show "case it_after info a it h of (it', h') \<Rightarrow>
      it_at h' it' l (xs @ [y, a]) ys \<and> infos h' (xs @ [y, a] @ ys) = infos h (xs @ [y]) @ info # infos h ys"
    using it_after_correct [OF assms(1-4), of info] by (cases "it_after info a it h") blast
  show "case it_replace_list r it h of (old, h') \<Rightarrow>
      old = node_info h y \<and> it_at h' it l (xs @ [y]) (ms @ ys) \<and>
      infos h' (xs @ y # ms @ ys) = infos h xs @ infos h (m # ms) @ infos h ys"
    using it_replace_list_correct [OF assms(1,2,5-8)] by (cases "it_replace_list r it h") blast
qed

lemma iterator_insert_replace_witness:
  "infos (snd (it_replace_list 2 (snd (it_next (it_init 1) sample_heap)) sample_heap)) [10, 11] = [7, 6]"
proof -
  obtain i it where e: "it_next (it_init 1) sample_heap = (i, it)" by fastforce
  have at: "it_at sample_heap it 1 ([] @ [10]) [11]" "it_current it = 10"
    using it_next_correct [OF it_at_init [OF sample_heap_lists(1)] e] by simp_all
  have "30 \<notin> insert NULL (insert end_of_list (set ([] @ 10 # [11 :: addr])))" by (simp add: NULL_def end_of_list_def)
  from iterator_insert_replace [OF at this _ sample_heap_lists(2)] sample_heap_lists(3,4) e
  show ?thesis by (simp add: split_beta infos_def)
qed

end
