(* ===== verification/List_Sort.thy ===== *)
theory List_Sort
  imports List_Iterator Int_Types "HOL-Library.Multiset"
begin

text \<open>
  The algorithms of \<open>sql_list.h\<close> on top of the iterator: \<open>bubble_sort\<close>, which exchanges the
  \<open>info\<close> fields of neighbouring nodes, and \<open>list_copy_and_replace_each_value\<close>. The comparison
  function is a parameter; the locale \<open>comparator\<close> states what an order must promise for the
  result to be sorted. Termination and the permutation need nothing of it.
\<close>

subsection \<open>The algorithms\<close>

partial_function (option) bubble_pass ::
  "(addr \<Rightarrow> addr \<Rightarrow> int) \<Rightarrow> addr \<Rightarrow> bl_iter \<Rightarrow> addr \<Rightarrow> addr \<Rightarrow> bool \<Rightarrow> lheap \<Rightarrow> (bool \<times> addr \<times> bl_iter \<times> lheap) option" where
  "bubble_pass sort_func last_ref it item1 ref1 swap h =
     (let (item2, it) = it_next it h; ref2 = it_ref it
      in if item2 \<noteq> NULL \<and> ref2 \<noteq> last_ref
         then if sort_func item1 item2 > 0
              then bubble_pass sort_func last_ref it item1 ref2 True
                     (set_info ref2 item1 (set_info ref1 item2 h))
              else bubble_pass sort_func last_ref it item2 ref2 swap h
         else Some (swap, ref1, it, h))"

partial_function (option) bubble_loop ::
  "(addr \<Rightarrow> addr \<Rightarrow> int) \<Rightarrow> bl_iter \<Rightarrow> addr \<Rightarrow> lheap \<Rightarrow> lheap option" where
  "bubble_loop sort_func it ref1 h =
     (let last_ref = ref1; (item1, it) = it_next it h; ref1 = it_ref it
      in Option.bind (bubble_pass sort_func last_ref it item1 ref1 False h)
           (\<lambda>(swap, ref1, it, h). if swap then bubble_loop sort_func (it_rewind it) ref1 h else Some h))"

definition bubble_sort :: "(addr \<Rightarrow> addr \<Rightarrow> int) \<Rightarrow> lid \<Rightarrow> lheap \<Rightarrow> lheap option" where
  "bubble_sort sort_func l h = bubble_loop sort_func (it_init l) NULL h"

text \<open>
  \<open>clone\<close> answers the copy of an element. \<open>None\<close>: the assertion of \<open>replace\<close> fails, or the
  iteration does not end.
\<close>

partial_function (option) replace_each_loop :: "(addr \<Rightarrow> addr) \<Rightarrow> bl_iter \<Rightarrow> lheap \<Rightarrow> lheap option" where
  "replace_each_loop clone it h =
     (let (el, it) = it_next it h
      in if el \<noteq> NULL
         then Option.bind (it_replace (clone el) it h) (\<lambda>(_, h). replace_each_loop clone it h)
         else Some h)"

definition list_copy_and_replace_each_value :: "(addr \<Rightarrow> addr) \<Rightarrow> lid \<Rightarrow> lheap \<Rightarrow> lheap option" where
  "list_copy_and_replace_each_value clone l h = replace_each_loop clone (it_init l) h"

subsection \<open>One pass on sequences\<close>

fun pass :: "('a \<Rightarrow> 'a \<Rightarrow> int) \<Rightarrow> 'a \<Rightarrow> 'a list \<Rightarrow> 'a list" where
  "pass cmp x [] = [x]"
| "pass cmp x (y # ys) = (if cmp x y > 0 then y # pass cmp x ys else x # pass cmp y ys)"

fun swaps :: "('a \<Rightarrow> 'a \<Rightarrow> int) \<Rightarrow> 'a \<Rightarrow> 'a list \<Rightarrow> bool" where
  "swaps cmp x [] \<longleftrightarrow> False"
| "swaps cmp x (y # ys) \<longleftrightarrow> cmp x y > 0 \<or> swaps cmp y ys"

lemma pass_nonempty [simp]: "pass cmp x ys \<noteq> []"
  by (cases ys) auto

lemma length_pass [simp]: "length (pass cmp x ys) = Suc (length ys)"
  by (induction ys arbitrary: x) auto

lemma mset_pass [simp]: "mset (pass cmp x ys) = add_mset x (mset ys)"
  by (induction ys arbitrary: x) auto

lemma set_pass [simp]: "set (pass cmp x ys) = insert x (set ys)"
  using mset_pass [of cmp x ys] by (metis set_mset_add_mset_insert set_mset_mset)

lemma pass_unchanged: "\<not> swaps cmp x ys \<Longrightarrow> pass cmp x ys = x # ys"
  by (induction ys arbitrary: x) auto

lemma swaps_iff: "\<not> swaps cmp x ys \<longleftrightarrow> (\<forall>i. Suc i < length (x # ys) \<longrightarrow> \<not> cmp ((x # ys) ! i) ((x # ys) ! Suc i) > 0)"
proof (induction ys arbitrary: x)
  case (Cons y ys)
  then show ?case by (auto simp: nth_Cons split: nat.splits)
qed simp

subsection \<open>What an order promises\<close>

locale comparator =
  fixes cmp :: "'a \<Rightarrow> 'a \<Rightarrow> int"
  assumes swap_sign: "sgn (cmp b a) = - sgn (cmp a b)"
    and le_trans: "cmp a b \<le> 0 \<Longrightarrow> cmp b c \<le> 0 \<Longrightarrow> cmp a c \<le> 0"
begin

lemma le_refl: "cmp a a \<le> 0"
  using swap_sign [of a a] by (simp add: sgn_if split: if_splits)

lemma le_total: "\<not> cmp a b \<le> 0 \<Longrightarrow> cmp b a \<le> 0"
  using swap_sign [of b a] by (simp add: sgn_if split: if_splits)

lemma pass_last_max: "z \<in> insert x (set ys) \<Longrightarrow> cmp z (last (pass cmp x ys)) \<le> 0"
proof (induction ys arbitrary: x z)
  case Nil
  then show ?case using le_refl by simp
next
  case (Cons y ys)
  let ?w = "if cmp x y > 0 then x else y" and ?v = "if cmp x y > 0 then y else x"
  have last: "last (pass cmp x (y # ys)) = last (pass cmp ?w ys)"
    by simp
  have vw: "cmp ?v ?w \<le> 0" using le_total by auto
  have "z = ?v \<or> z \<in> insert ?w (set ys)" using Cons.prems by auto
  then consider "z = ?v" | "z \<in> insert ?w (set ys)" by blast
  then show ?case
  proof cases
    case 1
    then show ?thesis using vw Cons.IH [of ?w ?w] le_trans unfolding last by blast
  next
    case 2
    then show ?thesis using Cons.IH unfolding last by blast
  qed
qed

lemma sorted_if_no_swap: "\<not> swaps cmp x ys \<Longrightarrow> sorted_wrt (\<lambda>a b. cmp a b \<le> 0) (x # ys)"
proof (induction ys arbitrary: x)
  case (Cons y ys)
  then have "sorted_wrt (\<lambda>a b. cmp a b \<le> 0) (y # ys)" "cmp x y \<le> 0" by auto
  then show ?case using le_trans by auto
qed simp

end

text \<open>The comparison of hybrid integers of \<open>sql_type_int.h\<close> is an order.\<close>

interpretation hybrid_order: comparator hybrid_cmp
  by unfold_locales (auto simp: hybrid_cmp_sgn sgn_if split: if_splits)

subsection \<open>The pass on the list in memory\<close>

text \<open>The contents may have changed, the links have not.\<close>

definition same_links :: "lheap \<Rightarrow> lheap \<Rightarrow> bool" where
  "same_links h h' \<longleftrightarrow> node_next h' = node_next h \<and> list_first h' = list_first h \<and>
     list_last h' = list_last h \<and> list_elements h' = list_elements h"

lemma same_links_refl [simp]: "same_links h h"
  by (simp add: same_links_def)

lemma same_links_trans: "same_links h1 h2 \<Longrightarrow> same_links h2 h3 \<Longrightarrow> same_links h1 h3"
  by (simp add: same_links_def)

lemma same_links_set_info [simp]: "same_links h (set_info a i h') \<longleftrightarrow> same_links h h'"
  by (auto simp: same_links_def set_info_def)

lemma same_links_path: "same_links h h' \<Longrightarrow> path h' a ns t \<longleftrightarrow> path h a ns t"
  by (rule path_cong) (simp add: same_links_def)

lemma same_links_blist:
  "same_links h h' \<Longrightarrow> node_info h' end_of_list = node_info h end_of_list \<Longrightarrow> blist h' l ns \<longleftrightarrow> blist h l ns"
  using same_links_path [of h h' "list_first h l" ns end_of_list]
  by (simp add: same_links_def blist_unfold)

text \<open>
  One run of the inner loop over the nodes \<open>x # ys\<close>; it stops at the node \<open>last_ref\<close>, the first
  of \<open>zs\<close>, or at the end of the list.
\<close>

lemma bubble_pass_correct:
  assumes "path h (node_next h x) (ys @ zs) end_of_list" "distinct (x # ys @ zs)" "x \<noteq> end_of_list"
    and "node_info h end_of_list = NULL" "NULL \<notin> set (infos h (x # ys @ zs))"
    and "it_el it = Next x" "last_ref = (case zs of [] \<Rightarrow> NULL | z # _ \<Rightarrow> z)"
  shows "\<exists>it' h'. bubble_pass cmp last_ref it (node_info h x) x sw h =
      Some (sw \<or> swaps cmp (node_info h x) (infos h ys), last (x # ys), it', h') \<and>
    same_links h h' \<and> it_list it' = it_list it \<and>
    infos h' (x # ys) = pass cmp (node_info h x) (infos h ys) \<and>
    (\<forall>n. n \<notin> set (x # ys) \<longrightarrow> node_info h' n = node_info h n)"
  using assms
proof (induction ys arbitrary: h x it sw)
  case Nil
  obtain item2 it2 where n: "it_next it h = (item2, it2)" by (cases "it_next it h")
  have "item2 = NULL \<or> it_ref it2 = last_ref" "it_list it2 = it_list it"
    using n Nil.prems by (auto simp: it_next_def Let_def it_ref_def infos_def split: list.splits)
  with n show ?case by (subst bubble_pass.simps) (auto simp: infos_def)
next
  case (Cons y ys)
  let ?i = "node_info h x" and ?j = "node_info h y"
  obtain it2 where n: "it_next it h = (?j, it2)" "it_ref it2 = y" "it_el it2 = Next y" "it_list it2 = it_list it"
    using Cons.prems by (auto simp: it_next_def Let_def it_ref_def)
  have y: "?j \<noteq> NULL" "y \<noteq> last_ref" "y \<noteq> end_of_list" "x \<noteq> y" "y \<notin> set ys" "x \<notin> set ys" "x \<notin> set zs" "y \<notin> set zs"
    using Cons.prems path_nodes [OF Cons.prems(1), of y] by (auto simp: infos_def split: list.splits)
  let ?sw = "cmp ?i ?j > 0"
  define h1 where "h1 = (if ?sw then set_info y ?i (set_info x ?j h) else h)"
  have links: "same_links h h1" by (simp add: h1_def)
  have info: "node_info h1 y = (if ?sw then ?i else ?j)" "node_info h1 x = (if ?sw then ?j else ?i)"
    "infos h1 ys = infos h ys" "infos h1 zs = infos h zs" "node_info h1 end_of_list = NULL"
    using y Cons.prems by (auto simp: infos_def h1_def)
  have step: "bubble_pass cmp last_ref it ?i x sw h =
      bubble_pass cmp last_ref it2 (node_info h1 y) y (sw \<or> ?sw) h1"
    using n y(1,2) y(4) by (subst bubble_pass.simps) (auto simp: h1_def)
  have p: "path h1 (node_next h1 y) (ys @ zs) end_of_list"
    using Cons.prems(1) same_links_path [OF links] links by (auto simp: same_links_def)
  have nn: "NULL \<notin> set (infos h1 (y # ys @ zs))"
    using Cons.prems(5) info by (auto simp: infos_def)
  obtain it' h' where IH: "bubble_pass cmp last_ref it2 (node_info h1 y) y (sw \<or> ?sw) h1 =
      Some ((sw \<or> ?sw) \<or> swaps cmp (node_info h1 y) (infos h1 ys), last (y # ys), it', h')"
    "same_links h1 h'" "it_list it' = it_list it2"
    "infos h' (y # ys) = pass cmp (node_info h1 y) (infos h1 ys)"
    "\<forall>n. n \<notin> set (y # ys) \<longrightarrow> node_info h' n = node_info h1 n"
    using Cons.IH [OF p _ y(3) info(5) nn n(3) Cons.prems(7), of "sw \<or> ?sw"] Cons.prems(2) by auto
  have x': "node_info h' x = node_info h1 x" using IH(5) y by auto
  have "infos h' (x # y # ys) = pass cmp ?i (infos h (y # ys))"
    using IH(4) x' info(1,2,3) by (simp add: infos_list)
  moreover have "(sw \<or> ?sw) \<or> swaps cmp (node_info h1 y) (infos h1 ys) \<longleftrightarrow> sw \<or> swaps cmp ?i (infos h (y # ys))"
    using info(1,3) by (auto simp: infos_list)
  moreover have "\<forall>n. n \<notin> set (x # y # ys) \<longrightarrow> node_info h' n = node_info h n" using IH(5) by (simp add: h1_def)
  moreover have "same_links h h'" using links IH(2) by (rule same_links_trans)
  ultimately show ?case using step IH(1,3) n(4) by auto
qed

subsection \<open>The whole sort\<close>

lemma bubble_loop_correct:
  fixes cmp :: "addr \<Rightarrow> addr \<Rightarrow> int"
  defines "R \<equiv> \<lambda>a b. cmp a b \<le> 0"
  assumes "blist h l (xs @ zs)" "NULL \<notin> set (infos h (xs @ zs))" "xs \<noteq> []"
    and "it_el it = First l" "it_list it = l" "ref1 = (case zs of [] \<Rightarrow> NULL | z # _ \<Rightarrow> z)"
  shows "\<exists>h'. bubble_loop cmp it ref1 h = Some h' \<and> same_links h h' \<and>
    mset (infos h' (xs @ zs)) = mset (infos h (xs @ zs)) \<and>
    (\<forall>n. n \<notin> set (xs @ zs) \<longrightarrow> node_info h' n = node_info h n) \<and>
    (comparator cmp \<longrightarrow> sorted_wrt R (infos h zs) \<longrightarrow>
       (\<forall>a \<in> set (infos h xs). \<forall>b \<in> set (infos h zs). R a b) \<longrightarrow> sorted_wrt R (infos h' (xs @ zs)))"
  using assms(2-)
proof (induction "length xs" arbitrary: xs zs h it ref1)
  case 0
  then show ?case by simp
next
  case (Suc k)
  obtain x ys where xs: "xs = x # ys" using Suc.prems(3) by (cases xs) auto
  let ?i = "node_info h x"
  obtain it2 where n: "it_next it h = (?i, it2)" "it_ref it2 = x" "it_el it2 = Next x" "it_list it2 = l"
    using Suc.prems by (auto simp: it_next_def Let_def it_ref_def xs blist_unfold)
  have bl: "blist h l (x # ys @ zs)" using Suc.prems(1) xs by simp
  have "path h (node_next h x) (ys @ zs) end_of_list" "distinct (x # ys @ zs)" "x \<noteq> end_of_list"
    "node_info h end_of_list = NULL" using bl by (auto simp: blist_unfold)
  moreover have "NULL \<notin> set (infos h (x # ys @ zs))" using Suc.prems(2) xs by simp
  ultimately obtain it' h1 where run: "bubble_pass cmp ref1 it2 ?i x False h =
      Some (False \<or> swaps cmp ?i (infos h ys), last (x # ys), it', h1)"
    and links: "same_links h h1" and il: "it_list it' = it_list it2"
    and vals: "infos h1 (x # ys) = pass cmp ?i (infos h ys)"
    and rest: "\<forall>n. n \<notin> set (x # ys) \<longrightarrow> node_info h1 n = node_info h n"
    using bubble_pass_correct [OF _ _ _ _ _ n(3) Suc.prems(6), of h ys cmp False] by blast
  have ends: "node_info h1 end_of_list = node_info h end_of_list"
    using rest blist_nodes [OF bl, of end_of_list] by auto
  have bl1: "blist h1 l (x # ys @ zs)" using bl same_links_blist [OF links ends] by blast
  have d: "n \<notin> set (x # ys)" if "n \<in> set zs" for n using bl that by (auto simp: blist_unfold)
  have zs1: "infos h1 zs = infos h zs" using rest d by (intro infos_cong) blast
  have "mset (infos h1 xs) = mset (infos h xs)" unfolding xs vals by (simp add: infos_list)
  then have ms: "mset (infos h1 (xs @ zs)) = mset (infos h (xs @ zs))"
    by (simp add: infos_list(3) zs1)
  show ?case
  proof (cases "swaps cmp ?i (infos h ys)")
    case False
    then have "bubble_loop cmp it ref1 h = Some h1"
      using n run by (subst bubble_loop.simps) simp
    moreover have "sorted_wrt R (infos h1 (xs @ zs))"
      if "comparator cmp" "sorted_wrt R (infos h zs)" "\<forall>a \<in> set (infos h xs). \<forall>b \<in> set (infos h zs). R a b"
    proof -
      have "infos h1 xs = infos h xs" using vals pass_unchanged [OF False] by (simp add: xs infos_list)
      moreover have "sorted_wrt R (infos h xs)"
        using comparator.sorted_if_no_swap [OF that(1) False] by (simp add: xs infos_list R_def)
      ultimately show ?thesis using that(2,3) zs1 by (simp add: infos_list sorted_wrt_append)
    qed
    ultimately show ?thesis using links ms rest xs by auto
  next
    case True
    then obtain qs m where snoc: "xs = qs @ [m]" and qs: "qs \<noteq> []"
      using xs by (cases ys rule: rev_cases) (auto simp: infos_list)
    have m: "last (x # ys) = m" using xs snoc by (metis last_snoc)
    have loop: "bubble_loop cmp it ref1 h = bubble_loop cmp (it_rewind it') m h1"
      using n run True m by (subst bubble_loop.simps) simp
    have set1: "NULL \<notin> set (infos h1 (qs @ m # zs))"
      using ms Suc.prems(2) snoc by (metis append.assoc append_Cons append_Nil set_mset_mset)
    have "blist h1 l (xs @ zs)" using bl1 xs by simp
    then have bl2: "blist h1 l (qs @ m # zs)" using snoc by simp
    obtain h' where h': "bubble_loop cmp (it_rewind it') m h1 = Some h'" "same_links h1 h'"
      "mset (infos h' (qs @ m # zs)) = mset (infos h1 (qs @ m # zs))"
      "\<forall>n. n \<notin> set (qs @ m # zs) \<longrightarrow> node_info h' n = node_info h1 n"
      "comparator cmp \<longrightarrow> sorted_wrt R (infos h1 (m # zs)) \<longrightarrow>
       (\<forall>a \<in> set (infos h1 qs). \<forall>b \<in> set (infos h1 (m # zs)). R a b) \<longrightarrow> sorted_wrt R (infos h' (qs @ m # zs))"
      using Suc.hyps(1) [of qs h1 "m # zs" "it_rewind it'" m] Suc.hyps(2) bl2 set1 qs snoc il n(4)
      by (auto simp: it_rewind_def)
    have "sorted_wrt R (infos h' (qs @ m # zs))"
      if "comparator cmp" "sorted_wrt R (infos h zs)" "\<forall>a \<in> set (infos h xs). \<forall>b \<in> set (infos h zs). R a b"
    proof -
      have pass: "infos h1 qs @ [node_info h1 m] = pass cmp ?i (infos h ys)"
        using vals snoc xs by (metis infos_list)
      then have "last (pass cmp ?i (infos h ys)) = node_info h1 m" by (metis last_snoc)
      then have "R a (node_info h1 m)" if "a \<in> set (infos h xs)" for a
        using comparator.pass_last_max [OF \<open>comparator cmp\<close>, of a ?i "infos h ys"] that
        by (simp add: R_def xs infos_list)
      moreover have "set (infos h1 qs) \<union> {node_info h1 m} = set (infos h xs)"
        using arg_cong [OF pass, of set] by (simp add: xs infos_list)
      ultimately have "\<forall>a \<in> set (infos h1 qs). \<forall>b \<in> set (infos h1 (m # zs)). R a b"
        "sorted_wrt R (infos h1 (m # zs))"
        using that zs1 by (auto simp: infos_list)
      then show ?thesis using h'(5) that(1) by blast
    qed
    moreover have "node_info h' n = node_info h n" if "n \<notin> set (xs @ zs)" for n
      using that h'(4) rest snoc xs by (metis Un_iff append.assoc append_Cons append_Nil set_append)
    moreover have "same_links h h'" using links h'(2) by (rule same_links_trans)
    moreover have "xs @ zs = qs @ m # zs" using snoc by simp
    ultimately show ?thesis using loop h'(1,3) ms by auto
  qed
qed

theorem bubble_sort_permutes:
  assumes "blist h l ns" "NULL \<notin> set (infos h ns)"
  shows "\<exists>h'. bubble_sort cmp l h = Some h' \<and> blist h' l ns \<and> mset (infos h' ns) = mset (infos h ns) \<and>
    (\<forall>n. n \<notin> set ns \<longrightarrow> node_info h' n = node_info h n) \<and>
    (comparator cmp \<longrightarrow> sorted_wrt (\<lambda>a b. cmp a b \<le> 0) (infos h' ns))"
proof (cases "ns = []")
  case True
  have "path h (list_first h l) [] end_of_list" "end_ok h" using assms True by (auto simp: blist_def list_rep_def)
  then have "bubble_sort cmp l h = Some h"
    unfolding bubble_sort_def
    by (subst bubble_loop.simps, subst bubble_pass.simps)
      (simp add: it_init_def it_next_def Let_def end_ok_def)
  then show ?thesis using assms True by (auto simp: infos_list)
next
  case False
  obtain h' where h': "bubble_loop cmp (it_init l) NULL h = Some h'" "same_links h h'"
    "mset (infos h' (ns @ [])) = mset (infos h (ns @ []))" "\<forall>n. n \<notin> set (ns @ []) \<longrightarrow> node_info h' n = node_info h n"
    "comparator cmp \<longrightarrow> sorted_wrt (\<lambda>a b. cmp a b \<le> 0) (infos h' (ns @ []))"
    using bubble_loop_correct [of h l ns "[]" "it_init l" NULL cmp] assms False
    by (auto simp: it_init_def infos_list)
  have "node_info h' end_of_list = node_info h end_of_list"
    using h'(4) blist_nodes [OF assms(1), of end_of_list] by auto
  then have "blist h' l ns" using same_links_blist [OF h'(2)] assms(1) by blast
  then show ?thesis using h' by (auto simp: bubble_sort_def)
qed

subsection \<open>Replacing every element\<close>

lemma replace_each_loop_correct:
  assumes "it_at h it l xs ys" "NULL \<notin> set (infos h ys)"
  shows "\<exists>h'. replace_each_loop clone it h = Some h' \<and> blist h' l (xs @ ys) \<and>
    infos h' (xs @ ys) = infos h xs @ map clone (infos h ys)"
  using assms
proof (induction ys arbitrary: xs it h)
  case Nil
  obtain info it' where n: "it_next it h = (info, it')" by (cases "it_next it h")
  with it_next_end [OF Nil.prems(1) n] Nil.prems(1) show ?case
    by (subst replace_each_loop.simps) (simp add: it_at_def infos_list)
next
  case (Cons y ys)
  obtain info it1 where n: "it_next it h = (info, it1)" by (cases "it_next it h")
  note nx = it_next_correct [OF Cons.prems(1) n]
  have info: "info \<noteq> NULL" using nx(1) Cons.prems(2) by (simp add: infos_list)
  then obtain h1 where r: "it_replace (clone info) it1 h = Some (info, h1)"
    using nx(1,3) by (simp add: it_replace_def)
  note rep = it_replace_correct [OF nx(2,3) r]
  have h1: "infos h1 xs = infos h xs" "node_info h1 y = clone info" "infos h1 ys = infos h ys"
    using rep(3) by (simp_all add: infos_list append_eq_append_conv)
  have "NULL \<notin> set (infos h1 ys)" using Cons.prems(2) h1 by (simp add: infos_list)
  then obtain h' where "replace_each_loop clone it1 h1 = Some h'" "blist h' l ((xs @ [y]) @ ys)"
    "infos h' ((xs @ [y]) @ ys) = infos h1 (xs @ [y]) @ map clone (infos h1 ys)"
    using Cons.IH [OF rep(1)] by blast
  then show ?case using n r info nx(1) h1
    by (subst replace_each_loop.simps) (simp add: infos_list)
qed

theorem list_copy_and_replace_correct:
  assumes "blist h l ns" "NULL \<notin> set (infos h ns)"
  shows "\<exists>h'. list_copy_and_replace_each_value clone l h = Some h' \<and> blist h' l ns \<and>
    infos h' ns = map clone (infos h ns)"
  using replace_each_loop_correct [OF it_at_init [OF assms(1)] assms(2), of clone]
  by (simp add: list_copy_and_replace_each_value_def infos_list)

subsection \<open>Properties\<close>

text \<open>
  C37. \<open>bubble_sort\<close> ends on every list without NULL values; it moves values between the nodes and
  never relinks them, the values are permuted, no other node changes, and with a comparator that is
  a total preorder the values end up sorted.
\<close>

theorem bubble_sort_correct:
  assumes "blist h l ns" "NULL \<notin> set (infos h ns)"
  shows "\<exists>h'. bubble_sort cmp l h = Some h' \<and> blist h' l ns \<and> mset (infos h' ns) = mset (infos h ns) \<and>
    (\<forall>n. n \<notin> set ns \<longrightarrow> node_info h' n = node_info h n) \<and>
    (comparator cmp \<longrightarrow> sorted_wrt (\<lambda>a b. cmp a b \<le> 0) (infos h' ns))"
  by (rule bubble_sort_permutes [OF assms])

lemma bubble_sort_correct_witness:
  "\<exists>h'. bubble_sort (\<lambda>a b. int b - int a) 1 sample_heap = Some h' \<and> mset (infos h' [10, 11]) = {#5, 6#} \<and>
     sorted_wrt (\<lambda>a b. b \<le> a) (infos h' [10, 11])"
proof -
  have "comparator (\<lambda>a b. int b - int a)" by unfold_locales (auto simp: sgn_if)
  then show ?thesis
    using bubble_sort_correct [OF sample_heap_lists(1), of "\<lambda>a b. int b - int a"] sample_heap_lists(3)
    by (auto simp: NULL_def)
qed

end
