(* ===== verification/Sql_I_List.thy ===== *)
theory Sql_I_List
  imports List_Heap
begin

text \<open>
  \<open>SQL_I_List\<close> of \<open>sql_list.h\<close>: the intrusive list, whose elements carry their own \<open>next\<close>
  field and which ends with \<open>NULL\<close>. The list object has the fields \<open>first\<close>, \<open>elements\<close> and
  \<open>next\<close> (here \<open>list_last\<close>), the cell that holds the terminator. The caller of \<open>link_in_list\<close>
  passes the cell of the new element that will hold it.
\<close>

subsection \<open>The operations\<close>

definition il_empty :: "lid \<Rightarrow> lheap \<Rightarrow> lheap" where
  "il_empty l h = set_last l (First l) (set_first l NULL (set_elements l 0 h))"

text \<open>The copy constructor and the assignment have the same body.\<close>

definition il_assign :: "lid \<Rightarrow> lid \<Rightarrow> lheap \<Rightarrow> lheap" where
  "il_assign l r h = (let h = set_elements l (list_elements h r) h;
       h = set_first l (list_first h r) h
     in set_last l (if list_elements h l \<noteq> 0 then list_last h r else First l) h)"

definition il_link_in_list :: "lid \<Rightarrow> addr \<Rightarrow> loc \<Rightarrow> lheap \<Rightarrow> lheap" where
  "il_link_in_list l element next_ptr h =
     (let h = set_elements l (list_elements h l + 1) h;
          h = assign (list_last h l) element h;
          h = set_last l next_ptr h
      in assign (list_last h l) NULL h)"

definition il_save_and_clear :: "lid \<Rightarrow> lid \<Rightarrow> lheap \<Rightarrow> lheap" where
  "il_save_and_clear l save h = il_empty l (il_assign save l h)"

definition il_push_front :: "lid \<Rightarrow> lid \<Rightarrow> lheap \<Rightarrow> lheap" where
  "il_push_front l save h =
     (let h = assign (list_last h save) (list_first h l) h;
          h = set_first l (list_first h save) h
      in set_elements l (list_elements h l + list_elements h save) h)"

definition il_push_back :: "lid \<Rightarrow> lid \<Rightarrow> lheap \<Rightarrow> lheap" where
  "il_push_back l save h =
     (if list_first h save \<noteq> NULL
      then (let h = assign (list_last h l) (list_first h save) h;
                h = set_last l (list_last h save) h
            in set_elements l (list_elements h l + list_elements h save) h)
      else h)"

subsection \<open>Correctness\<close>

abbreviation ilist :: "lheap \<Rightarrow> lid \<Rightarrow> addr list \<Rightarrow> bool" where
  "ilist \<equiv> list_rep NULL"

lemma il_empty_correct: "ilist (il_empty l h) l []"
  by (simp add: il_empty_def list_rep_def)

lemma il_link_in_list_correct:
  assumes il: "ilist h l ns" and e: "e \<notin> insert NULL (insert end_of_list (set ns))"
    and room: "length ns + 1 < 2 ^ 32"
  shows "ilist (il_link_in_list l e (Next e) h) l (ns @ [e])"
proof -
  let ?h = "il_link_in_list l e (Next e) h"
  have last: "list_last h l = last_loc (First l) ns" using il by (simp add: list_rep_def)
  have next_h: "node_next ?h n =
      (if n = e then NULL else if ns \<noteq> [] \<and> n = last ns then e else node_next h n)" for n
    by (simp add: il_link_in_list_def Let_def last last_loc_def)
  have "path ?h (list_first ?h l) (ns @ [e]) NULL"
  proof (cases ns rule: rev_cases)
    case Nil
    then show ?thesis using e by (simp add: il_link_in_list_def Let_def last)
  next
    case (snoc ms m)
    have "path ?h (list_first h l) (ms @ [m]) e"
      by (rule path_set_last [where h = h and t = NULL])
        (use il e in \<open>auto simp: snoc list_rep_def next_h\<close>)
    then show ?thesis using e
      by (auto simp: snoc path_append next_h il_link_in_list_def Let_def last)
  qed
  then show ?thesis using il e room by (auto simp: list_rep_def il_link_in_list_def Let_def)
qed

lemma il_assign_correct:
  assumes "ilist h r ns"
  shows "ilist (il_assign l r h) l ns"
proof -
  have p: "path (il_assign l r h) a xs t = path h a xs t" for a xs t
    by (rule path_cong) (simp add: il_assign_def Let_def)
  show ?thesis using assms elements_zero [of "length ns"] unfolding list_rep_def p
    by (auto simp: il_assign_def Let_def last_loc_def)
qed

lemma il_save_and_clear_correct:
  assumes "ilist h l ns" "save \<noteq> l"
  shows "ilist (il_save_and_clear l save h) save ns" "ilist (il_save_and_clear l save h) l []"
proof -
  have "ilist (il_empty l (il_assign save l h)) save ns \<longleftrightarrow> ilist (il_assign save l h) save ns"
    using assms(2) by (intro list_rep_cong) (auto simp: il_empty_def)
  then show "ilist (il_save_and_clear l save h) save ns"
    using il_assign_correct [OF assms(1)] by (simp add: il_save_and_clear_def)
  show "ilist (il_save_and_clear l save h) l []"
    by (simp add: il_save_and_clear_def il_empty_correct)
qed

lemma il_push_back_correct:
  assumes il: "ilist h l ns" and sv: "ilist h save ms" and disj: "set ns \<inter> set ms = {}" "l \<noteq> save"
    and room: "length ns + length ms < 2 ^ 32"
  shows "ilist (il_push_back l save h) l (ns @ ms)"
proof -
  let ?h = "il_push_back l save h"
  have first: "list_first h save = NULL \<longleftrightarrow> ms = []"
    using sv path_nodes by (cases ms) (auto simp: list_rep_def)
  have last: "list_last h l = last_loc (First l) ns" using il by (simp add: list_rep_def)
  show ?thesis
  proof (cases "ms = []")
    case True
    then show ?thesis using il first by (simp add: il_push_back_def)
  next
    case ms: False
    have "path ?h (list_first ?h l) (ns @ ms) NULL"
    proof (cases "ns = []")
      case True
      have "path ?h a ms t = path h a ms t" for a t
        by (rule path_cong) (simp add: il_push_back_def Let_def last True)
      then show ?thesis using True sv ms first
        by (simp add: list_rep_def il_push_back_def Let_def last)
    next
      case False
      then have "path ?h (list_first h l) (ns @ ms) NULL"
        using il sv disj ms first
        by (intro path_join [where h = h and t = NULL and b = "list_first h save"])
          (auto simp: list_rep_def il_push_back_def Let_def last_loc_def)
      moreover have "list_first ?h l = list_first h l"
        using False by (simp add: il_push_back_def Let_def last last_loc_def)
      ultimately show ?thesis by simp
    qed
    then show ?thesis using ms first il sv disj room
      by (auto simp: list_rep_def il_push_back_def Let_def last_loc_def)
  qed
qed

lemma il_push_front_correct:
  assumes il: "ilist h l ns" and sv: "ilist h save ms" and disj: "set ns \<inter> set ms = {}" "l \<noteq> save"
    and room: "length ns + length ms < 2 ^ 32" and ns: "ns \<noteq> []"
  shows "ilist (il_push_front l save h) l (ms @ ns)"
proof -
  let ?h = "il_push_front l save h"
  have last: "list_last h save = last_loc (First save) ms" using sv by (simp add: list_rep_def)
  have "path ?h (list_first ?h l) (ms @ ns) NULL"
  proof (cases "ms = []")
    case True
    have "path ?h a ns t = path h a ns t" for a t
      by (rule path_cong) (simp add: il_push_front_def Let_def last True)
    then show ?thesis using True il by (simp add: list_rep_def il_push_front_def Let_def last)
  next
    case False
    then have "path ?h (list_first h save) (ms @ ns) NULL"
      using il sv disj
      by (intro path_join [where h = h and t = NULL and b = "list_first h l"])
        (auto simp: list_rep_def il_push_front_def Let_def last_loc_def)
    moreover have "list_first ?h l = list_first h save"
      using False by (simp add: il_push_front_def Let_def last last_loc_def)
    ultimately show ?thesis by simp
  qed
  then show ?thesis using ns il sv disj room
    by (auto simp: list_rep_def il_push_front_def Let_def last_loc_def add.commute)
qed

text \<open>
  Onto an empty list \<open>push_front\<close> is not enough: \<open>next\<close> keeps referring to \<open>first\<close>, so the next
  \<open>link_in_list\<close> overwrites the head and the moved elements are lost.
\<close>

lemma il_push_front_empty:
  assumes il: "ilist h l []" and sv: "ilist h save ms" and "ms \<noteq> []" "l \<noteq> save" "length ms < 2 ^ 32"
    and e: "e \<notin> insert NULL (insert end_of_list (set ms))"
  defines "h1 \<equiv> il_push_front l save h"
  shows "\<not> (\<exists>ns. ilist h1 l ns)" "path (il_link_in_list l e (Next e) h1) (list_first (il_link_in_list l e (Next e) h1) l) [e] NULL"
proof -
  have last: "list_last h save = last_loc (First save) ms" using sv by (simp add: list_rep_def)
  have "list_last h1 l = First l" "list_first h1 l = list_first h save"
    using assms(1,3,4) by (simp_all add: h1_def il_push_front_def Let_def last last_loc_def list_rep_def)
  moreover have "list_first h save \<noteq> NULL" using sv assms(3) by (cases ms) (auto simp: list_rep_def)
  ultimately show "\<not> (\<exists>ns. ilist h1 l ns)" by (auto simp: list_rep_def last_loc_def)
  show "path (il_link_in_list l e (Next e) h1) (list_first (il_link_in_list l e (Next e) h1) l) [e] NULL"
    using e \<open>list_last h1 l = First l\<close> by (simp add: il_link_in_list_def Let_def)
qed

subsection \<open>Properties\<close>

text \<open>
  \<open>SQL_I_List\<close>: \<open>link_in_list\<close> adds an element at the end and \<open>push_back\<close> splices a saved list
  behind a list; \<open>push_front\<close> splices it before a nonempty list, but onto an empty list it leaves
  \<open>next\<close> referring to \<open>first\<close>, so the result is no list and the next \<open>link_in_list\<close> loses all the
  elements just moved.
\<close>

lemma sql_i_list_splice:
  assumes "list_rep NULL h l ns" "list_rep NULL h save ms" "set ns \<inter> set ms = {}" "l \<noteq> save"
    and "length ns + length ms + 1 < 2 ^ 32" "e \<notin> insert NULL (insert end_of_list (set ns \<union> set ms))"
  shows "list_rep NULL (il_link_in_list l e (Next e) h) l (ns @ [e]) \<and>
    list_rep NULL (il_push_back l save h) l (ns @ ms) \<and>
    (if ns \<noteq> [] then list_rep NULL (il_push_front l save h) l (ms @ ns)
     else if ms \<noteq> [] then \<not> (\<exists>xs. list_rep NULL (il_push_front l save h) l xs) \<and>
       list_first (il_link_in_list l e (Next e) (il_push_front l save h)) l = e \<and>
       node_next (il_link_in_list l e (Next e) (il_push_front l save h)) e = NULL
     else True)"
proof (intro conjI)
  show "list_rep NULL (il_link_in_list l e (Next e) h) l (ns @ [e])"
    using il_link_in_list_correct [OF assms(1)] assms(5,6) by auto
  show "list_rep NULL (il_push_back l save h) l (ns @ ms)"
    using il_push_back_correct [OF assms(1-4)] assms(5) by simp
  show "if ns \<noteq> [] then list_rep NULL (il_push_front l save h) l (ms @ ns)
     else if ms \<noteq> [] then \<not> (\<exists>xs. list_rep NULL (il_push_front l save h) l xs) \<and>
       list_first (il_link_in_list l e (Next e) (il_push_front l save h)) l = e \<and>
       node_next (il_link_in_list l e (Next e) (il_push_front l save h)) e = NULL
     else True"
  proof (cases "ns = []")
    case False
    then show ?thesis using il_push_front_correct [OF assms(1-4)] assms(5) by simp
  next
    case True
    then have "ms \<noteq> [] \<Longrightarrow> \<not> (\<exists>xs. list_rep NULL (il_push_front l save h) l xs) \<and>
        path (il_link_in_list l e (Next e) (il_push_front l save h))
          (list_first (il_link_in_list l e (Next e) (il_push_front l save h)) l) [e] NULL"
      using il_push_front_empty [of h l save ms e] assms by (auto simp del: path.simps)
    then show ?thesis using True by auto
  qed
qed

text \<open>List 1 has the nodes 10 and 11, list 2 the node 20, list 3 none.\<close>

definition sample_links :: lheap where
  "sample_links =
     il_link_in_list 2 20 (Next 20) (il_link_in_list 1 11 (Next 11) (il_link_in_list 1 10 (Next 10)
       (il_empty 3 (il_empty 2 (il_empty 1 no_heap)))))"

lemma sample_links_lists:
  "list_rep NULL sample_links 1 [10, 11]" "list_rep NULL sample_links 2 [20]" "list_rep NULL sample_links 3 []"
  by (simp_all add: sample_links_def no_heap_def il_empty_def il_link_in_list_def Let_def list_rep_def NULL_def end_of_list_def)

lemma sql_i_list_splice_witness:
  "list_rep NULL (il_push_front 1 2 sample_links) 1 [20, 10, 11] \<and>
   \<not> (\<exists>xs. list_rep NULL (il_push_front 3 2 sample_links) 3 xs)"
  using sql_i_list_splice [OF sample_links_lists(1,2), of 30] sql_i_list_splice [OF sample_links_lists(3,2), of 30]
  by (simp add: NULL_def end_of_list_def)

end
