(* ===== verification/Ilinks.thy ===== *)
theory Ilinks
  imports Prelude
begin

text \<open>
  \<open>ilink\<close>, \<open>base_ilist\<close> and its iterator (\<open>sql_list.h\<close>): the intrusive list an element leaves by
  itself when it is deleted. Each element knows the cell that refers to it (\<open>prev\<close>, an
  \<open>ilink **\<close>) and its successor; the list object holds the cell \<open>first\<close> and, by value, the
  sentinel \<open>last\<close>. \<open>ilist_ok h l ns\<close> says that the list object \<open>l\<close> holds the elements \<open>ns\<close>;
  the lemmas say what each operation does to that sequence.
\<close>

subsection \<open>Memory\<close>

text \<open>An \<open>ilink *\<close> is null, an element, or the sentinel inside a list object.\<close>

datatype iptr = INull | INode nat | ILast nat

text \<open>An \<open>ilink **\<close> is null, the field \<open>first\<close> of a list object, or the field \<open>next\<close> of a link.\<close>

datatype iloc = LNull | LFirst nat | LNext iptr

record iheap =
  i_next :: "iptr \<Rightarrow> iptr"
  i_prev :: "iptr \<Rightarrow> iloc"
  i_first :: "nat \<Rightarrow> iptr"

definition put_next :: "iptr \<Rightarrow> iptr \<Rightarrow> iheap \<Rightarrow> iheap" where
  "put_next p q h = h\<lparr>i_next := (i_next h)(p := q)\<rparr>"

definition put_prev :: "iptr \<Rightarrow> iloc \<Rightarrow> iheap \<Rightarrow> iheap" where
  "put_prev p c h = h\<lparr>i_prev := (i_prev h)(p := c)\<rparr>"

definition put_first :: "nat \<Rightarrow> iptr \<Rightarrow> iheap \<Rightarrow> iheap" where
  "put_first l p h = h\<lparr>i_first := (i_first h)(l := p)\<rparr>"

fun ideref :: "iheap \<Rightarrow> iloc \<Rightarrow> iptr" where
  "ideref h LNull = INull"
| "ideref h (LFirst l) = i_first h l"
| "ideref h (LNext p) = i_next h p"

fun iassign :: "iloc \<Rightarrow> iptr \<Rightarrow> iheap \<Rightarrow> iheap" where
  "iassign LNull p h = h"
| "iassign (LFirst l) p h = put_first l p h"
| "iassign (LNext q) p h = put_next q p h"

lemma iheap_reads [simp, heap_simps]:
  "i_next (put_next p q h) x = (if x = p then q else i_next h x)"
  "i_prev (put_next p q h) x = i_prev h x"
  "i_first (put_next p q h) l = i_first h l"
  "i_next (put_prev p c h) x = i_next h x"
  "i_prev (put_prev p c h) x = (if x = p then c else i_prev h x)"
  "i_first (put_prev p c h) l = i_first h l"
  "i_next (put_first k p h) x = i_next h x"
  "i_prev (put_first k p h) x = i_prev h x"
  "i_first (put_first k p h) l = (if l = k then p else i_first h l)"
  by (simp_all add: put_next_def put_prev_def put_first_def)

lemma iassign_reads [simp, heap_simps]:
  "i_next (iassign c q h) x = (if c = LNext x then q else i_next h x)"
  "i_prev (iassign c q h) x = i_prev h x"
  "i_first (iassign c q h) l = (if c = LFirst l then q else i_first h l)"
  by (cases c; auto)+

lemma ideref_reads [simp, heap_simps]:
  "c \<noteq> LNull \<Longrightarrow> ideref (iassign c q h) d = (if d = c then q else ideref h d)"
  "ideref (put_prev p e h) d = ideref h d"
  by (cases d; auto)+

subsection \<open>The operations\<close>

definition ilink_init :: "iptr \<Rightarrow> iheap \<Rightarrow> iheap" where
  "ilink_init a h = put_next a INull (put_prev a LNull h)"

definition ilink_unlink :: "iptr \<Rightarrow> iheap \<Rightarrow> iheap" where
  "ilink_unlink a h =
     (let h = (if i_prev h a \<noteq> LNull then iassign (i_prev h a) (i_next h a) h else h);
          h = (if i_next h a \<noteq> INull then put_prev (i_next h a) (i_prev h a) h else h)
      in put_next a INull (put_prev a LNull h))"

definition assert_linked :: "iptr \<Rightarrow> iheap \<Rightarrow> unit option" where
  "assert_linked a h = guard (i_prev h a \<noteq> LNull \<and> i_next h a \<noteq> INull) ()"

definition assert_not_linked :: "iptr \<Rightarrow> iheap \<Rightarrow> unit option" where
  "assert_not_linked a h = guard (i_prev h a = LNull \<and> i_next h a = INull) ()"

definition ilist_empty :: "nat \<Rightarrow> iheap \<Rightarrow> iheap" where
  "ilist_empty l h = put_prev (ILast l) (LFirst l) (put_first l (ILast l) h)"

definition base_ilist :: "nat \<Rightarrow> iheap \<Rightarrow> iheap" where
  "base_ilist l h = ilist_empty l (ilink_init (ILast l) h)"

definition ilist_is_empty :: "nat \<Rightarrow> iheap \<Rightarrow> bool" where
  "ilist_is_empty l h \<longleftrightarrow> i_first h l = ILast l"

definition ilist_is_last :: "nat \<Rightarrow> iptr \<Rightarrow> iheap \<Rightarrow> bool" where
  "ilist_is_last l p h \<longleftrightarrow> i_next h p = INull \<or> i_next h p = ILast l"

definition ilist_append :: "nat \<Rightarrow> iptr \<Rightarrow> iheap \<Rightarrow> iheap" where
  "ilist_append l a h =
     (let h = put_prev (i_first h l) (LNext a) h;
          h = put_next a (i_first h l) h;
          h = put_prev a (LFirst l) h
      in put_first l a h)"

definition ilist_push_back :: "nat \<Rightarrow> iptr \<Rightarrow> iheap \<Rightarrow> iheap" where
  "ilist_push_back l a h =
     (let h = iassign (i_prev h (ILast l)) a h;
          h = put_next a (ILast l) h;
          h = put_prev a (i_prev h (ILast l)) h
      in put_prev (ILast l) (LNext a) h)"

definition ilist_get :: "nat \<Rightarrow> iheap \<Rightarrow> iptr \<times> iheap" where
  "ilist_get l h =
     (let first_link = i_first h l
      in if first_link = ILast l then (INull, h)
         else (first_link, ilink_unlink first_link h))"

definition ilist_head :: "nat \<Rightarrow> iheap \<Rightarrow> iptr" where
  "ilist_head l h = (if i_first h l \<noteq> ILast l then i_first h l else INull)"

text \<open>\<open>new_owner->last = last\<close> copies both fields of the sentinel.\<close>

definition ilist_move_elements_to :: "nat \<Rightarrow> nat \<Rightarrow> iheap \<Rightarrow> iheap option" where
  "ilist_move_elements_to l new_owner h =
     guard (ilist_is_empty new_owner h)
       (let h = put_first new_owner (i_first h l) h;
            h = put_next (ILast new_owner) (i_next h (ILast l))
                  (put_prev (ILast new_owner) (i_prev h (ILast l)) h)
        in ilist_empty l h)"

subsection \<open>The iterator\<close>

record iiter =
  ii_list :: nat
  ii_el :: iloc
  ii_current :: iptr

definition ii_init :: "nat \<Rightarrow> iiter" where
  "ii_init l = \<lparr>ii_list = l, ii_el = LFirst l, ii_current = INull\<rparr>"

definition ii_next :: "iiter \<Rightarrow> iheap \<Rightarrow> iptr \<times> iiter" where
  "ii_next it h =
     (let it = it\<lparr>ii_current := ideref h (ii_el it)\<rparr>
      in if ii_current it = ILast (ii_list it) then (INull, it)
         else (ii_current it, it\<lparr>ii_el := LNext (ii_current it)\<rparr>))"

definition ii_unlink :: "iiter \<Rightarrow> iheap \<Rightarrow> iiter \<times> iheap" where
  "ii_unlink it h =
     (let tmp = i_prev h (ii_current it);
          h = ilink_unlink (ii_current it) h
      in (it\<lparr>ii_el := tmp\<rparr>, h))"

text \<open>\<open>I_List_iterator::remove\<close>: the destructor of the element unlinks it a second time.\<close>

definition ii_remove :: "iiter \<Rightarrow> iheap \<Rightarrow> iiter \<times> iheap" where
  "ii_remove it h =
     (let (it, h) = ii_unlink it h;
          h = ilink_unlink (ii_current it) h
      in (it\<lparr>ii_current := INull\<rparr>, h))"

subsection \<open>Chains of links\<close>

text \<open>From the cell \<open>c\<close> through the links \<open>ps\<close> to \<open>t\<close>, every link knowing the cell before it.\<close>

fun chain :: "iheap \<Rightarrow> iloc \<Rightarrow> iptr list \<Rightarrow> iptr \<Rightarrow> bool" where
  "chain h c [] t \<longleftrightarrow> ideref h c = t \<and> i_prev h t = c"
| "chain h c (p # ps) t \<longleftrightarrow> ideref h c = p \<and> i_prev h p = c \<and> chain h (LNext p) ps t"

definition last_cell :: "iloc \<Rightarrow> iptr list \<Rightarrow> iloc" where
  "last_cell c ps = (if ps = [] then c else LNext (last ps))"

lemma last_cell_simps [simp]:
  "last_cell c [] = c"
  "last_cell c (ps @ [p]) = LNext p"
  "last_cell c (p # ps) = last_cell (LNext p) ps"
  by (simp_all add: last_cell_def)

lemma chain_append: "chain h c (ps @ q # qs) t \<longleftrightarrow> chain h c ps q \<and> chain h (LNext q) qs t"
  by (induction ps arbitrary: c) auto

lemma chain_end: "chain h c ps t \<Longrightarrow> ideref h (last_cell c ps) = t \<and> i_prev h t = last_cell c ps"
  by (induction ps arbitrary: c) auto

lemma chain_cong:
  assumes "ideref h' c = ideref h c" "i_prev h' t = i_prev h t"
    and "\<And>p. p \<in> set ps \<Longrightarrow> i_next h' p = i_next h p \<and> i_prev h' p = i_prev h p"
  shows "chain h' c ps t \<longleftrightarrow> chain h c ps t"
  using assms by (induction ps arbitrary: c) auto

text \<open>Redirecting the last cell of a chain.\<close>

lemma chain_new_end:
  assumes "chain h c ps t" "distinct ps" "\<And>p. p \<in> set ps \<Longrightarrow> c \<noteq> LNext p"
    and "ideref h' (last_cell c ps) = u" "i_prev h' u = last_cell c ps"
    and "ps \<noteq> [] \<Longrightarrow> ideref h' c = ideref h c"
    and "\<And>p. p \<in> set ps \<Longrightarrow> i_prev h' p = i_prev h p"
    and "\<And>p. p \<in> set ps \<Longrightarrow> p \<noteq> last ps \<Longrightarrow> i_next h' p = i_next h p"
  shows "chain h' c ps u"
  using assms
proof (induction ps arbitrary: c)
  case (Cons p ps)
  have "chain h' (LNext p) ps u"
  proof (rule Cons.IH)
    show "ideref h' (LNext p) = ideref h (LNext p)" if "ps \<noteq> []"
    proof -
      have "p \<noteq> last ps" using that Cons.prems(2) last_in_set [of ps] by auto
      then show ?thesis using that Cons.prems(8) [of p] by simp
    qed
    show "i_next h' q = i_next h q" if "q \<in> set ps" "q \<noteq> last ps" for q
      using that Cons.prems(8) [of q] by (cases "ps = []") auto
  qed (use Cons.prems in auto)
  then show ?case using Cons.prems by auto
qed simp

text \<open>The list object \<open>l\<close> holds the elements \<open>ns\<close>.\<close>

definition ilist_ok :: "iheap \<Rightarrow> nat \<Rightarrow> nat list \<Rightarrow> bool" where
  "ilist_ok h l ns \<longleftrightarrow> chain h (LFirst l) (map INode ns) (ILast l) \<and> distinct ns \<and>
     i_next h (ILast l) = INull"

definition unlinked :: "iheap \<Rightarrow> nat \<Rightarrow> bool" where
  "unlinked h n \<longleftrightarrow> i_prev h (INode n) = LNull \<and> i_next h (INode n) = INull"

lemma ilist_ok_cong:
  assumes "i_first h' l = i_first h l" "i_prev h' (ILast l) = i_prev h (ILast l)"
    "i_next h' (ILast l) = i_next h (ILast l)"
    and "\<And>n. n \<in> set ns \<Longrightarrow> i_next h' (INode n) = i_next h (INode n) \<and> i_prev h' (INode n) = i_prev h (INode n)"
  shows "ilist_ok h' l ns \<longleftrightarrow> ilist_ok h l ns"
  using assms chain_cong [of h' "LFirst l" h "ILast l" "map INode ns"] by (auto simp: ilist_ok_def)

definition ilists_kept :: "iheap \<Rightarrow> iheap \<Rightarrow> nat set \<Rightarrow> nat set \<Rightarrow> bool" where
  "ilists_kept h h' L N \<longleftrightarrow>
     (\<forall>k ms. k \<notin> L \<longrightarrow> set ms \<inter> N = {} \<longrightarrow> ilist_ok h k ms \<longrightarrow> ilist_ok h' k ms)"

lemma ilists_keptI:
  assumes "\<And>k. k \<notin> L \<Longrightarrow> i_first h' k = i_first h k \<and> i_prev h' (ILast k) = i_prev h (ILast k) \<and>
      i_next h' (ILast k) = i_next h (ILast k)"
    and "\<And>n. n \<notin> N \<Longrightarrow> i_next h' (INode n) = i_next h (INode n) \<and> i_prev h' (INode n) = i_prev h (INode n)"
  shows "ilists_kept h h' L N"
  unfolding ilists_kept_def
proof (intro allI impI)
  fix k ms
  assume k: "k \<notin> L" "set ms \<inter> N = {}" "ilist_ok h k ms"
  from k(2) have "n \<notin> N" if "n \<in> set ms" for n using that by blast
  then show "ilist_ok h' k ms" using ilist_ok_cong [of h' k h ms] assms k by blast
qed

lemma ilist_cells:
  assumes "ilist_ok h l ns"
  shows "i_first h l = (case ns of [] \<Rightarrow> ILast l | n # _ \<Rightarrow> INode n)"
    "i_prev h (ILast l) = last_cell (LFirst l) (map INode ns)"
    "ideref h (last_cell (LFirst l) (map INode ns)) = ILast l"
  using assms chain_end [of h "LFirst l" "map INode ns" "ILast l"]
  by (cases ns; auto simp: ilist_ok_def)+

lemma base_ilist_correct: "ilist_ok (base_ilist l h) l []"
  by (simp add: ilist_ok_def base_ilist_def ilist_empty_def ilink_init_def)

lemma ilist_is_empty_correct: "ilist_ok h l ns \<Longrightarrow> ilist_is_empty l h \<longleftrightarrow> ns = []"
  by (cases ns) (auto simp: ilist_is_empty_def ilist_ok_def)

lemma ilist_head_correct: "ilist_ok h l ns \<Longrightarrow> ilist_head l h = (case ns of [] \<Rightarrow> INull | n # _ \<Rightarrow> INode n)"
  by (cases ns) (auto simp: ilist_head_def ilist_ok_def)

lemma inj_INode: "inj_on INode A"
  by (simp add: inj_on_def)

lemma ilist_append_correct:
  assumes ok: "ilist_ok h l ns" and a: "a \<notin> set ns"
  shows "ilist_ok (ilist_append l (INode a) h) l (a # ns)"
    "ilists_kept h (ilist_append l (INode a) h) {l} (insert a (set ns))"
proof -
  let ?h = "ilist_append l (INode a) h"
  have first: "i_first h l = (case ns of [] \<Rightarrow> ILast l | n # _ \<Rightarrow> INode n)"
    by (rule ilist_cells(1) [OF ok])
  have "chain ?h (LNext (INode a)) (map INode ns) (ILast l)"
  proof (cases ns)
    case Nil
    then show ?thesis by (simp add: ilist_append_def Let_def first)
  next
    case (Cons m ms)
    have "chain ?h (LNext (INode m)) (map INode ms) (ILast l) = chain h (LNext (INode m)) (map INode ms) (ILast l)"
      by (rule chain_cong) (use ok a in \<open>auto simp: ilist_append_def Let_def first Cons ilist_ok_def\<close>)
    then show ?thesis using ok a by (auto simp: ilist_append_def Let_def first Cons ilist_ok_def)
  qed
  then show "ilist_ok ?h l (a # ns)"
    using ok a by (auto simp: ilist_ok_def ilist_append_def Let_def first split: list.splits)
  show "ilists_kept h ?h {l} (insert a (set ns))"
    by (rule ilists_keptI) (auto simp: ilist_append_def Let_def first split: list.splits)
qed

lemma ilist_push_back_correct:
  assumes ok: "ilist_ok h l ns" and a: "a \<notin> set ns"
  shows "ilist_ok (ilist_push_back l (INode a) h) l (ns @ [a])"
    "ilists_kept h (ilist_push_back l (INode a) h) {l} (insert a (set ns))"
proof -
  let ?h = "ilist_push_back l (INode a) h" and ?c = "last_cell (LFirst l) (map INode ns)"
  have prev: "i_prev h (ILast l) = ?c" by (rule ilist_cells(2) [OF ok])
  have next_h: "i_next ?h p = (if p = INode a then ILast l else if ?c = LNext p then INode a else i_next h p)"
    and prev_h: "i_prev ?h p = (if p = ILast l then LNext (INode a) else if p = INode a then ?c else i_prev h p)"
    and first_h: "i_first ?h k = (if ?c = LFirst k then INode a else i_first h k)" for p k
    by (simp_all add: ilist_push_back_def Let_def prev)
  have c: "?c \<noteq> LNext (INode a)" "?c \<noteq> LNext (ILast k)" "?c = LFirst k \<longleftrightarrow> ns = [] \<and> k = l"
    "?c = LNext (INode n) \<longleftrightarrow> ns \<noteq> [] \<and> n = last ns" for k n
    using a by (auto simp: last_cell_def last_map dest: last_in_set)
  have "chain ?h (LFirst l) (map INode ns) (INode a)"
    by (rule chain_new_end [where h = h and t = "ILast l"])
      (use ok a in \<open>auto simp: ilist_ok_def distinct_map inj_INode next_h prev_h first_h c last_map,
        (auto simp: last_cell_def last_map next_h first_h dest: last_in_set)\<close>)
  then show "ilist_ok ?h l (ns @ [a])"
    using ok a by (auto simp: ilist_ok_def chain_append next_h prev_h c)
  show "ilists_kept h ?h {l} (insert a (set ns))"
    by (rule ilists_keptI) (auto simp: next_h prev_h first_h c)
qed

text \<open>Unlinking an element of a list, and one that is not linked.\<close>

lemma ilink_unlink_correct:
  assumes ok: "ilist_ok h l (xs @ a # ys)"
  shows "ilist_ok (ilink_unlink (INode a) h) l (xs @ ys)" "unlinked (ilink_unlink (INode a) h) a"
    "ilists_kept h (ilink_unlink (INode a) h) {l} (set (xs @ a # ys))"
    "i_prev h (INode a) = last_cell (LFirst l) (map INode xs)"
proof -
  let ?h = "ilink_unlink (INode a) h" and ?c = "last_cell (LFirst l) (map INode xs)"
  define z where "z = (case ys of [] \<Rightarrow> ILast l | y # _ \<Rightarrow> INode y)"
  have ch: "chain h (LFirst l) (map INode xs) (INode a)" "chain h (LNext (INode a)) (map INode ys) (ILast l)"
    and d: "distinct (xs @ a # ys)" and null: "i_next h (ILast l) = INull"
    using ok by (auto simp: ilist_ok_def chain_append)
  show prev: "i_prev h (INode a) = ?c" using chain_end [OF ch(1)] by simp
  have nx: "i_next h (INode a) = z" using ch(2) by (cases ys) (auto simp: z_def)
  have znull: "z \<noteq> INull" "z \<noteq> INode a" using d by (auto simp: z_def split: list.splits)
  have c: "?c \<noteq> LNull" "?c \<noteq> LNext (INode a)" "?c \<noteq> LNext (ILast k)" "?c = LFirst k \<longleftrightarrow> xs = [] \<and> k = l"
    "?c = LNext (INode n) \<longleftrightarrow> xs \<noteq> [] \<and> n = last xs" for k n
    using d by (auto simp: last_cell_def last_map dest: last_in_set)
  have next_h: "i_next ?h p = (if p = INode a then INull else if ?c = LNext p then z else i_next h p)"
    and prev_h: "i_prev ?h p = (if p = INode a then LNull else if p = z then ?c else i_prev h p)"
    and first_h: "i_first ?h k = (if ?c = LFirst k then z else i_first h k)" for p k
    using znull c by (auto simp: ilink_unlink_def Let_def prev nx)
  show "unlinked ?h a" by (simp add: unlinked_def next_h prev_h)
  show "ilists_kept h ?h {l} (set (xs @ a # ys))"
    by (rule ilists_keptI) (auto simp: next_h prev_h first_h c z_def split: list.splits)
  have zxs: "z \<noteq> INode n" if "n \<in> set xs" for n using d that by (auto simp: z_def split: list.splits)
  have left: "chain ?h (LFirst l) (map INode xs) z"
    by (rule chain_new_end [where h = h and t = "INode a"])
      (use ch d zxs znull in \<open>auto simp: distinct_map inj_INode next_h prev_h first_h c last_map,
        (auto simp: last_cell_def last_map next_h first_h dest: last_in_set)\<close>)
  have "chain ?h (LFirst l) (map INode (xs @ ys)) (ILast l)"
  proof (cases ys)
    case Nil
    then show ?thesis using left by (simp add: z_def)
  next
    case (Cons y zs)
    have lx: "last xs \<notin> set ys" if "xs \<noteq> []" using that d last_in_set [of xs] by (auto simp: disjoint_iff)
    have "chain ?h (LNext (INode y)) (map INode zs) (ILast l) = chain h (LNext (INode y)) (map INode zs) (ILast l)"
      by (rule chain_cong) (use d lx in \<open>auto simp: next_h prev_h c z_def Cons\<close>)
    then show ?thesis using left ch(2) by (simp add: Cons z_def chain_append)
  qed
  then show "ilist_ok ?h l (xs @ ys)" using d null c by (auto simp: ilist_ok_def next_h)
qed

lemma ilink_unlink_unlinked: "unlinked h a \<Longrightarrow> ilink_unlink (INode a) h = h"
  by (auto simp: unlinked_def ilink_unlink_def Let_def put_next_def put_prev_def fun_upd_idem)

lemma ilist_get_correct:
  assumes ok: "ilist_ok h l ns" and run: "ilist_get l h = (p, h')"
  shows "p = (case ns of [] \<Rightarrow> INull | n # _ \<Rightarrow> INode n)" "ilist_ok h' l (tl ns)"
    "ns \<noteq> [] \<Longrightarrow> unlinked h' (hd ns)" "ilists_kept h h' {l} (set ns)"
proof -
  have "p = (case ns of [] \<Rightarrow> INull | n # _ \<Rightarrow> INode n) \<and> ilist_ok h' l (tl ns) \<and>
      (ns \<noteq> [] \<longrightarrow> unlinked h' (hd ns)) \<and> ilists_kept h h' {l} (set ns)"
  proof (cases ns)
    case Nil
    then show ?thesis using ilist_cells(1) [OF ok] run ok
      by (simp add: ilist_get_def Let_def ilists_kept_def)
  next
    case (Cons m ms)
    then have "p = INode m" "h' = ilink_unlink (INode m) h"
      using ilist_cells(1) [OF ok] run by (auto simp: ilist_get_def Let_def)
    then show ?thesis using ilink_unlink_correct [of h l "[]" m ms] ok Cons by simp
  qed
  then show "p = (case ns of [] \<Rightarrow> INull | n # _ \<Rightarrow> INode n)" "ilist_ok h' l (tl ns)"
    "ns \<noteq> [] \<Longrightarrow> unlinked h' (hd ns)" "ilists_kept h h' {l} (set ns)" by auto
qed

lemma ilist_is_last_correct:
  assumes "ilist_ok h l (xs @ a # ys)"
  shows "ilist_is_last l (INode a) h \<longleftrightarrow> ys = []"
  using assms by (cases ys) (auto simp: ilist_is_last_def ilist_ok_def chain_append)

text \<open>
  \<open>move_elements_to\<close>: the links still end in the sentinel of the old list, so the new owner is
  not a well-formed list, whatever was moved.
\<close>

lemma ilist_move_breaks:
  assumes ok: "ilist_ok h l ns" and empty: "ilist_ok h new_owner []" and "l \<noteq> new_owner"
  shows "\<exists>h'. ilist_move_elements_to l new_owner h = Some h' \<and> ilist_ok h' l [] \<and>
    \<not> (\<exists>ms. ilist_ok h' new_owner ms)"
proof -
  have "ilist_is_empty new_owner h" using empty ilist_is_empty_correct by blast
  then obtain h' where run: "ilist_move_elements_to l new_owner h = Some h'"
    by (simp add: ilist_move_elements_to_def)
  have h': "i_first h' new_owner = i_first h l" "i_first h' l = ILast l"
    "i_next h' (INode n) = i_next h (INode n)" "i_next h' (ILast l) = INull"
    "i_prev h' (ILast l) = LFirst l" for n
    using run ok assms(3) by (auto simp: ilist_move_elements_to_def Let_def ilist_empty_def ilist_ok_def)
  have no: "\<not> chain h' c (map INode ms) (ILast new_owner)"
    if "chain h d (map INode ks) (ILast l)" "ideref h' c = ideref h d" for c d ks ms
    using that
  proof (induction ks arbitrary: c d ms)
    case Nil
    then show ?case using assms(3) by (cases ms) auto
  next
    case (Cons k ks)
    show ?case
    proof (cases ms)
      case Nil
      then show ?thesis using Cons.prems by auto
    next
      case m: (Cons m ms')
      have "\<not> chain h' (LNext (INode k)) (map INode ms') (ILast new_owner)"
        by (rule Cons.IH [of "LNext (INode k)"]) (use Cons.prems h'(3) in auto)
      then show ?thesis using Cons.prems m by auto
    qed
  qed
  have "\<not> ilist_ok h' new_owner ms" for ms
    using no [of "LFirst l" ns "LFirst new_owner" ms] ok h'(1) by (auto simp: ilist_ok_def)
  moreover have "ilist_ok h' l []" using h' by (simp add: ilist_ok_def)
  ultimately show ?thesis using run by blast
qed

subsection \<open>The iterator\<close>

definition ii_at :: "iheap \<Rightarrow> iiter \<Rightarrow> nat \<Rightarrow> nat list \<Rightarrow> nat list \<Rightarrow> bool" where
  "ii_at h it l xs ys \<longleftrightarrow> ilist_ok h l (xs @ ys) \<and> ii_list it = l \<and>
     ii_el it = last_cell (LFirst l) (map INode xs)"

lemma ii_at_init: "ilist_ok h l ns \<Longrightarrow> ii_at h (ii_init l) l [] ns"
  by (simp add: ii_at_def ii_init_def)

lemma ii_at_deref:
  assumes "ii_at h it l xs ys"
  shows "ideref h (ii_el it) = (case ys of [] \<Rightarrow> ILast l | y # _ \<Rightarrow> INode y)"
  using assms chain_end [of h "LFirst l" "map INode xs"]
  by (cases ys) (auto simp: ii_at_def ilist_ok_def chain_append)

lemma ii_next_correct:
  assumes at: "ii_at h it l xs ys" and run: "ii_next it h = (p, it')"
  shows "p = (case ys of [] \<Rightarrow> INull | y # _ \<Rightarrow> INode y)"
    "ii_at h it' l (xs @ take 1 ys) (drop 1 ys)" "ys \<noteq> [] \<Longrightarrow> ii_current it' = INode (hd ys)"
  using run at ii_at_deref [OF at] by (cases ys; auto simp: ii_next_def ii_at_def Let_def)+

lemma ii_unlink_correct:
  assumes at: "ii_at h it l (xs @ [y]) ys" and cur: "ii_current it = INode y"
    and run: "ii_unlink it h = (it', h')"
  shows "ii_at h' it' l xs ys" "unlinked h' y"
proof -
  have ok: "ilist_ok h l (xs @ y # ys)" using at by (simp add: ii_at_def)
  note un = ilink_unlink_correct [OF ok]
  show "ii_at h' it' l xs ys" "unlinked h' y"
    using run at cur un(1,2,4) by (auto simp: ii_unlink_def ii_at_def Let_def)
qed

lemma ii_remove_correct:
  assumes at: "ii_at h it l (xs @ [y]) ys" and cur: "ii_current it = INode y"
    and run: "ii_remove it h = (it', h')"
  shows "ii_at h' it' l xs ys" "unlinked h' y"
proof -
  obtain it1 h1 where u: "ii_unlink it h = (it1, h1)" by (cases "ii_unlink it h")
  note un = ii_unlink_correct [OF at cur u]
  have "ii_current it1 = INode y" using u cur by (auto simp: ii_unlink_def Let_def)
  then have "h' = h1" "it' = it1\<lparr>ii_current := INull\<rparr>"
    using run u ilink_unlink_unlinked [OF un(2)] by (auto simp: ii_remove_def)
  then show "ii_at h' it' l xs ys" "unlinked h' y" using un by (auto simp: ii_at_def)
qed

subsection \<open>Properties\<close>

text \<open>
  \<open>base_ilist\<close>: \<open>push_back\<close> and \<open>append\<close> link an element at the end and the front, \<open>unlink\<close>
  takes an element out from anywhere without knowing its list and marks it unlinked, and \<open>get\<close>
  takes the first one; no other list changes.
\<close>

lemma intrusive_list_links:
  assumes "ilist_ok h l (xs @ a # ys)" "b \<notin> set (xs @ a # ys)"
  shows "ilist_ok (ilist_push_back l (INode b) h) l ((xs @ a # ys) @ [b]) \<and>
    ilist_ok (ilist_append l (INode b) h) l (b # xs @ a # ys) \<and>
    ilists_kept h (ilist_push_back l (INode b) h) {l} (insert b (set (xs @ a # ys))) \<and>
    ilist_ok (ilink_unlink (INode a) h) l (xs @ ys) \<and> unlinked (ilink_unlink (INode a) h) a \<and>
    ilists_kept h (ilink_unlink (INode a) h) {l} (set (xs @ a # ys)) \<and>
    fst (ilist_get l h) = INode (hd (xs @ [a])) \<and> ilist_ok (snd (ilist_get l h)) l (tl (xs @ a # ys))"
proof -
  obtain p h' where g: "ilist_get l h = (p, h')" by fastforce
  have "p = INode (hd (xs @ [a]))" "ilist_ok h' l (tl (xs @ a # ys))"
    using ilist_get_correct [OF assms(1) g] by (cases xs; simp)+
  then show ?thesis
    using g ilist_push_back_correct [OF assms] ilist_append_correct [OF assms] ilink_unlink_correct [OF assms(1)]
    by simp
qed

definition sample_ilinks :: iheap where
  "sample_ilinks = ilist_push_back 1 (INode 11) (ilist_push_back 1 (INode 10)
     (base_ilist 1 \<lparr>i_next = \<lambda>_. INull, i_prev = \<lambda>_. LNull, i_first = \<lambda>_. INull\<rparr>))"

lemma sample_ilinks_list: "ilist_ok sample_ilinks 1 ([10] @ 11 # [])"
  using ilist_push_back_correct(1) [OF ilist_push_back_correct(1) [OF base_ilist_correct]]
  unfolding sample_ilinks_def by simp

lemma intrusive_list_links_witness:
  "ilist_ok (ilink_unlink (INode 11) sample_ilinks) 1 [10] \<and> fst (ilist_get 1 sample_ilinks) = INode 10"
  using intrusive_list_links [OF sample_ilinks_list, of 30] by simp

end
