(* ===== verification/Ilist.thy ===== *)
theory Ilist
  imports Prelude
begin

text \<open>
  \<open>ilist\<close> and \<open>sized_ilist\<close> of \<open>ilist.h\<close>: the doubly linked ring around a sentinel node that is
  a member of the list object. \<open>ring_ok h l ns\<close> says that the ring of the list \<open>l\<close> consists of
  the elements \<open>ns\<close>. The lemmas show that every operation but one is the operation on the
  sequence that its name says; \<open>pop_back\<close> erases the sentinel instead of the last element, and
  the lemmas on it say what is left: a ring the iteration never leaves.
\<close>

subsection \<open>Memory\<close>

datatype rnode = RNull | Sentinel nat | Elem nat

record rheap =
  rnext :: "rnode \<Rightarrow> rnode"
  rprev :: "rnode \<Rightarrow> rnode"
  rsize :: "nat \<Rightarrow> u64"

definition upd_next :: "rnode \<Rightarrow> rnode \<Rightarrow> rheap \<Rightarrow> rheap" where
  "upd_next a b h = h\<lparr>rnext := (rnext h)(a := b)\<rparr>"

definition upd_prev :: "rnode \<Rightarrow> rnode \<Rightarrow> rheap \<Rightarrow> rheap" where
  "upd_prev a b h = h\<lparr>rprev := (rprev h)(a := b)\<rparr>"

definition upd_size :: "nat \<Rightarrow> u64 \<Rightarrow> rheap \<Rightarrow> rheap" where
  "upd_size l n h = h\<lparr>rsize := (rsize h)(l := n)\<rparr>"

lemma rheap_reads [simp, heap_simps]:
  "rnext (upd_next a b h) x = (if x = a then b else rnext h x)"
  "rprev (upd_next a b h) x = rprev h x"
  "rsize (upd_next a b h) l = rsize h l"
  "rnext (upd_prev a b h) x = rnext h x"
  "rprev (upd_prev a b h) x = (if x = a then b else rprev h x)"
  "rsize (upd_prev a b h) l = rsize h l"
  "rnext (upd_size k n h) x = rnext h x"
  "rprev (upd_size k n h) x = rprev h x"
  "rsize (upd_size k n h) l = (if l = k then n else rsize h l)"
  by (simp_all add: upd_next_def upd_prev_def upd_size_def)

subsection \<open>The iterator\<close>

text \<open>An iterator is the node it refers to; the assertions reject a null node.\<close>

definition ring_iter :: "rnode \<Rightarrow> rnode option" where
  "ring_iter node = guard (node \<noteq> RNull) node"

definition ring_inc :: "rheap \<Rightarrow> rnode \<Rightarrow> rnode option" where
  "ring_inc h node = guard (rnext h node \<noteq> RNull) (rnext h node)"

definition ring_dec :: "rheap \<Rightarrow> rnode \<Rightarrow> rnode option" where
  "ring_dec h node = guard (rprev h node \<noteq> RNull) (rprev h node)"

subsection \<open>ilist\<close>

definition ring_init :: "nat \<Rightarrow> rheap \<Rightarrow> rheap" where
  "ring_init l h = upd_prev (Sentinel l) (Sentinel l) (upd_next (Sentinel l) (Sentinel l) h)"

definition ring_begin :: "nat \<Rightarrow> rheap \<Rightarrow> rnode option" where
  "ring_begin l h = ring_iter (rnext h (Sentinel l))"

definition ring_end :: "nat \<Rightarrow> rnode" where "ring_end l = Sentinel l"

definition ring_front :: "nat \<Rightarrow> rheap \<Rightarrow> rnode option" where
  "ring_front l h = ring_begin l h"

definition ring_back :: "nat \<Rightarrow> rheap \<Rightarrow> rnode option" where
  "ring_back l h = ring_dec h (ring_end l)"

definition ring_empty :: "nat \<Rightarrow> rheap \<Rightarrow> bool" where
  "ring_empty l h \<longleftrightarrow> rnext h (Sentinel l) = Sentinel l"

definition ring_clear :: "nat \<Rightarrow> rheap \<Rightarrow> rheap" where
  "ring_clear l h = upd_prev (Sentinel l) (Sentinel l) (upd_next (Sentinel l) (Sentinel l) h)"

definition ring_insert :: "rnode \<Rightarrow> rnode \<Rightarrow> rheap \<Rightarrow> rnode \<times> rheap" where
  "ring_insert pos value h =
     (let curr = pos; prev = rprev h pos;
          h = upd_next prev value h;
          h = upd_prev curr value h;
          h = upd_prev value prev h;
          h = upd_next value curr h
      in (value, h))"

text \<open>\<open>dbug\<close> is a build without \<open>DBUG_OFF\<close>, in which the erased node is cleared.\<close>

definition ring_erase :: "bool \<Rightarrow> rnode \<Rightarrow> rheap \<Rightarrow> rnode \<times> rheap" where
  "ring_erase dbug pos h =
     (let prev = rprev h pos; next = rnext h pos;
          h = upd_next prev next h;
          h = upd_prev next prev h;
          h = (if dbug then upd_next pos RNull (upd_prev pos RNull h) else h)
      in (next, h))"

definition ring_push_back :: "nat \<Rightarrow> rnode \<Rightarrow> rheap \<Rightarrow> rheap" where
  "ring_push_back l value h = snd (ring_insert (ring_end l) value h)"

definition ring_pop_back :: "bool \<Rightarrow> nat \<Rightarrow> rheap \<Rightarrow> rheap" where
  "ring_pop_back dbug l h = snd (ring_erase dbug (ring_end l) h)"

definition ring_push_front :: "nat \<Rightarrow> rnode \<Rightarrow> rheap \<Rightarrow> rheap option" where
  "ring_push_front l value h = map_option (\<lambda>pos. snd (ring_insert pos value h)) (ring_begin l h)"

definition ring_pop_front :: "bool \<Rightarrow> nat \<Rightarrow> rheap \<Rightarrow> rheap option" where
  "ring_pop_front dbug l h = map_option (\<lambda>pos. snd (ring_erase dbug pos h)) (ring_begin l h)"

definition ring_remove :: "bool \<Rightarrow> rnode \<Rightarrow> rheap \<Rightarrow> rheap" where
  "ring_remove dbug value h = snd (ring_erase dbug value h)"

subsection \<open>sized_ilist\<close>

definition sized_size :: "nat \<Rightarrow> rheap \<Rightarrow> u64" where "sized_size l h = rsize h l"

definition sized_init :: "nat \<Rightarrow> rheap \<Rightarrow> rheap" where
  "sized_init l h = upd_size l 0 (ring_init l h)"

definition sized_clear :: "nat \<Rightarrow> rheap \<Rightarrow> rheap" where
  "sized_clear l h = upd_size l 0 (ring_clear l h)"

definition sized_insert :: "nat \<Rightarrow> rnode \<Rightarrow> rnode \<Rightarrow> rheap \<Rightarrow> rnode \<times> rheap" where
  "sized_insert l pos value h = ring_insert pos value (upd_size l (rsize h l + 1) h)"

definition sized_erase :: "bool \<Rightarrow> nat \<Rightarrow> rnode \<Rightarrow> rheap \<Rightarrow> rnode \<times> rheap" where
  "sized_erase dbug l pos h = ring_erase dbug pos (upd_size l (rsize h l - 1) h)"

definition sized_push_back :: "nat \<Rightarrow> rnode \<Rightarrow> rheap \<Rightarrow> rheap" where
  "sized_push_back l value h = snd (sized_insert l (ring_end l) value h)"

definition sized_pop_back :: "bool \<Rightarrow> nat \<Rightarrow> rheap \<Rightarrow> rheap" where
  "sized_pop_back dbug l h = snd (sized_erase dbug l (ring_end l) h)"

definition sized_push_front :: "nat \<Rightarrow> rnode \<Rightarrow> rheap \<Rightarrow> rheap option" where
  "sized_push_front l value h = map_option (\<lambda>pos. snd (sized_insert l pos value h)) (ring_begin l h)"

definition sized_pop_front :: "bool \<Rightarrow> nat \<Rightarrow> rheap \<Rightarrow> rheap option" where
  "sized_pop_front dbug l h = map_option (\<lambda>pos. snd (sized_erase dbug l pos h)) (ring_begin l h)"

definition sized_remove :: "bool \<Rightarrow> nat \<Rightarrow> rnode \<Rightarrow> rheap \<Rightarrow> rheap" where
  "sized_remove dbug l value h = snd (sized_erase dbug l value h)"

subsection \<open>Rings\<close>

fun dseg :: "rheap \<Rightarrow> rnode \<Rightarrow> rnode list \<Rightarrow> rnode \<Rightarrow> bool" where
  "dseg h a [] b \<longleftrightarrow> rnext h a = b \<and> rprev h b = a"
| "dseg h a (p # ps) b \<longleftrightarrow> rnext h a = p \<and> rprev h p = a \<and> dseg h p ps b"

definition ring_ok :: "rheap \<Rightarrow> nat \<Rightarrow> nat list \<Rightarrow> bool" where
  "ring_ok h l ns \<longleftrightarrow> dseg h (Sentinel l) (map Elem ns) (Sentinel l) \<and> distinct ns"

definition sized_ok :: "rheap \<Rightarrow> nat \<Rightarrow> nat list \<Rightarrow> bool" where
  "sized_ok h l ns \<longleftrightarrow> ring_ok h l ns \<and> rsize h l = of_nat (length ns)"

lemma dseg_append: "dseg h a (ps @ q # qs) b \<longleftrightarrow> dseg h a ps q \<and> dseg h q qs b"
  by (induction ps arbitrary: a) auto

lemma dseg_ends:
  "dseg h a ps b \<Longrightarrow> rnext h a = (case ps of [] \<Rightarrow> b | p # _ \<Rightarrow> p) \<and> rprev h b = (if ps = [] then a else last ps)"
  by (induction ps arbitrary: a) auto

lemma dseg_cong:
  assumes "rnext h' a = rnext h a" "rprev h' b = rprev h b"
    and "\<And>p. p \<in> set ps \<Longrightarrow> rnext h' p = rnext h p \<and> rprev h' p = rprev h p"
  shows "dseg h' a ps b \<longleftrightarrow> dseg h a ps b"
  using assms by (induction ps arbitrary: a) auto

text \<open>Redirecting the end of a segment.\<close>

lemma dseg_new_end:
  assumes "dseg h a ps b" "distinct ps" "a \<notin> set ps"
    and "rnext h' (if ps = [] then a else last ps) = c" "rprev h' c = (if ps = [] then a else last ps)"
    and "ps \<noteq> [] \<Longrightarrow> rnext h' a = rnext h a"
    and "\<And>p. p \<in> set ps \<Longrightarrow> rprev h' p = rprev h p"
    and "\<And>p. p \<in> set ps \<Longrightarrow> p \<noteq> last ps \<Longrightarrow> rnext h' p = rnext h p"
  shows "dseg h' a ps c"
  using assms
proof (induction ps arbitrary: a)
  case (Cons p ps)
  have "dseg h' p ps c"
  proof (rule Cons.IH)
    show "rnext h' p = rnext h p" if "ps \<noteq> []"
    proof -
      have "p \<noteq> last ps" using that Cons.prems(2) last_in_set [of ps] by auto
      then show ?thesis using that Cons.prems(8) [of p] by simp
    qed
    show "rnext h' q = rnext h q" if "q \<in> set ps" "q \<noteq> last ps" for q
      using that Cons.prems(8) [of q] by (cases "ps = []") auto
  qed (use Cons.prems in auto)
  then show ?case using Cons.prems by auto
qed simp

subsection \<open>Correctness\<close>

lemma inj_Elem: "inj_on Elem A"
  by (simp add: inj_on_def)

text \<open>The node at the head of the rest of a list, and the node before it.\<close>

definition pos_of :: "nat \<Rightarrow> nat list \<Rightarrow> rnode" where
  "pos_of l ys = (case ys of [] \<Rightarrow> Sentinel l | y # _ \<Rightarrow> Elem y)"

definition before :: "nat \<Rightarrow> nat list \<Rightarrow> rnode" where
  "before l xs = (if xs = [] then Sentinel l else Elem (last xs))"

lemma before_map: "(if map Elem xs = [] then Sentinel l else last (map Elem xs)) = before l xs"
  by (simp add: before_def last_map)

lemma ring_split:
  "dseg h (Sentinel l) (map Elem (xs @ ys)) (Sentinel l) \<longleftrightarrow>
     dseg h (Sentinel l) (map Elem xs) (pos_of l ys) \<and>
     (ys \<noteq> [] \<longrightarrow> dseg h (Elem (hd ys)) (map Elem (tl ys)) (Sentinel l))"
  by (cases ys) (auto simp: pos_of_def dseg_append)

lemma ring_ok_split:
  "ring_ok h l (xs @ ys) \<longleftrightarrow> dseg h (Sentinel l) (map Elem xs) (pos_of l ys) \<and>
     (ys \<noteq> [] \<longrightarrow> dseg h (Elem (hd ys)) (map Elem (tl ys)) (Sentinel l)) \<and> distinct (xs @ ys)"
  unfolding ring_ok_def ring_split by blast

lemma pos_of_not_null [simp]: "pos_of l ys \<noteq> RNull" "before l xs \<noteq> RNull"
  by (auto simp: pos_of_def before_def split: list.splits)

lemma ring_init_correct: "ring_ok (ring_init l h) l []" "sized_ok (sized_init l h) l []"
  by (simp_all add: ring_ok_def sized_ok_def ring_init_def sized_init_def)

lemma ring_clear_correct: "ring_ok (ring_clear l h) l []" "sized_ok (sized_clear l h) l []"
  by (simp_all add: ring_ok_def sized_ok_def ring_clear_def sized_clear_def)

lemma ring_begin_correct: "ring_ok h l ns \<Longrightarrow> ring_begin l h = Some (pos_of l ns)"
  by (cases ns) (auto simp: ring_begin_def ring_iter_def ring_ok_def pos_of_def)

lemma ring_empty_correct: "ring_ok h l ns \<Longrightarrow> ring_empty l h \<longleftrightarrow> ns = []"
  by (cases ns) (auto simp: ring_empty_def ring_ok_def)

lemma ring_back_correct: "ring_ok h l ns \<Longrightarrow> ring_back l h = Some (before l ns)"
  using dseg_ends [of h "Sentinel l" "map Elem ns" "Sentinel l"]
  by (auto simp: ring_back_def ring_dec_def ring_end_def ring_ok_def before_def last_map)

lemma ring_inc_correct:
  "ring_ok h l (xs @ y # ys) \<Longrightarrow> ring_inc h (Elem y) = Some (pos_of l ys)"
  by (cases ys) (auto simp: ring_inc_def ring_ok_def pos_of_def dseg_append)

lemma ring_dec_correct: "ring_ok h l (xs @ ys) \<Longrightarrow> ring_dec h (pos_of l ys) = Some (before l xs)"
proof -
  assume "ring_ok h l (xs @ ys)"
  then have "dseg h (Sentinel l) (map Elem xs) (pos_of l ys)" by (simp only: ring_ok_split)
  from dseg_ends [OF this] have "rprev h (pos_of l ys) = before l xs"
    by (auto simp: before_def last_map)
  then show ?thesis by (simp add: ring_dec_def)
qed

lemma ring_insert_correct:
  assumes ok: "ring_ok h l (xs @ ys)" and a: "a \<notin> set (xs @ ys)"
    and run: "ring_insert (pos_of l ys) (Elem a) h = (p, h')"
  shows "ring_ok h' l (xs @ a # ys)" "p = Elem a" "rsize h' = rsize h"
proof -
  have left: "dseg h (Sentinel l) (map Elem xs) (pos_of l ys)"
    and right: "ys \<noteq> [] \<Longrightarrow> dseg h (Elem (hd ys)) (map Elem (tl ys)) (Sentinel l)"
    and d: "distinct (xs @ ys)" using ok unfolding ring_ok_split by blast+
  have prev: "rprev h (pos_of l ys) = before l xs"
    using dseg_ends [OF left] by (auto simp: before_def last_map)
  have ne: "before l xs \<noteq> Elem a" "pos_of l ys \<noteq> Elem a"
    using a last_in_set [of xs] by (auto simp: before_def pos_of_def split: list.splits)
  have next_h: "rnext h' p = (if p = Elem a then pos_of l ys else if p = before l xs then Elem a else rnext h p)"
    and prev_h: "rprev h' p = (if p = Elem a then before l xs else if p = pos_of l ys then Elem a else rprev h p)" for p
    using run ne by (auto simp: ring_insert_def Let_def prev)
  show "p = Elem a" "rsize h' = rsize h" using run by (auto simp: ring_insert_def Let_def)
  have xs_pos: "Elem n \<noteq> pos_of l ys" if "n \<in> set xs" for n
    using that d by (auto simp: pos_of_def split: list.splits)
  have "dseg h' (Sentinel l) (map Elem xs) (Elem a)"
  proof (rule dseg_new_end [OF left], unfold before_map)
    show "rnext h' q = rnext h q" if "q \<in> set (map Elem xs)" "q \<noteq> last (map Elem xs)" for q
      using that a by (auto simp: next_h before_def last_map)
  qed (use d a xs_pos ne in \<open>auto simp: distinct_map inj_Elem next_h prev_h before_def\<close>)
  moreover have "dseg h' (Elem a) (map Elem ys) (Sentinel l)"
  proof (cases ys)
    case Nil
    then show ?thesis by (simp add: next_h prev_h pos_of_def)
  next
    case (Cons y zs)
    have "n \<noteq> last xs" if "n \<in> set ys" "xs \<noteq> []" for n using d that last_in_set [of xs] by (auto simp: disjoint_iff)
    then have "dseg h' (Elem y) (map Elem zs) (Sentinel l) = dseg h (Elem y) (map Elem zs) (Sentinel l)"
      using a d Cons by (intro dseg_cong) (auto simp: next_h prev_h pos_of_def before_def)
    then show ?thesis using right Cons a by (simp add: next_h prev_h pos_of_def)
  qed
  ultimately show "ring_ok h' l (xs @ a # ys)" using d a by (auto simp: ring_ok_def dseg_append)
qed

lemma ring_erase_correct:
  assumes ok: "ring_ok h l (xs @ a # ys)" and run: "ring_erase dbug (Elem a) h = (p, h')"
  shows "ring_ok h' l (xs @ ys)" "p = pos_of l ys" "rsize h' = rsize h"
proof -
  have left: "dseg h (Sentinel l) (map Elem xs) (Elem a)"
    and right: "dseg h (Elem a) (map Elem ys) (Sentinel l)"
    and d: "distinct (xs @ a # ys)" using ok by (auto simp: ring_ok_def dseg_append)
  have prev: "rprev h (Elem a) = before l xs"
    using dseg_ends [OF left] by (auto simp: before_def last_map)
  have nx: "rnext h (Elem a) = pos_of l ys"
    using dseg_ends [OF right] by (cases ys) (auto simp: pos_of_def)
  have ne: "before l xs \<noteq> Elem a" "pos_of l ys \<noteq> Elem a"
    using d last_in_set [of xs] by (auto simp: before_def pos_of_def split: list.splits)
  have next_h: "p \<noteq> Elem a \<Longrightarrow> rnext h' p = (if p = before l xs then pos_of l ys else rnext h p)"
    and prev_h: "p \<noteq> Elem a \<Longrightarrow> rprev h' p = (if p = pos_of l ys then before l xs else rprev h p)" for p
    using run by (auto simp: ring_erase_def Let_def prev nx)
  show "p = pos_of l ys" "rsize h' = rsize h" using run by (auto simp: ring_erase_def Let_def nx)
  have xs_pos: "Elem n \<noteq> pos_of l ys" if "n \<in> set xs" for n
    using that d by (auto simp: pos_of_def split: list.splits)
  have "dseg h' (Sentinel l) (map Elem xs) (pos_of l ys)"
  proof (rule dseg_new_end [OF left], unfold before_map)
    show "rnext h' q = rnext h q" if "q \<in> set (map Elem xs)" "q \<noteq> last (map Elem xs)" for q
    proof -
      have "q \<noteq> Elem a" "xs \<noteq> []" "q \<noteq> before l xs"
        using that d by (auto simp: before_def last_map)
      then show ?thesis by (simp add: next_h)
    qed
    show "rprev h' q = rprev h q" if "q \<in> set (map Elem xs)" for q
    proof -
      have "q \<noteq> Elem a" "q \<noteq> pos_of l ys" using that d xs_pos by auto
      then show ?thesis by (simp add: prev_h)
    qed
  qed (use d xs_pos ne in \<open>auto simp: distinct_map inj_Elem next_h prev_h before_def\<close>)
  moreover have "dseg h' (Elem (hd ys)) (map Elem (tl ys)) (Sentinel l)" if "ys \<noteq> []"
  proof (cases ys)
    case (Cons y zs)
    have "n \<noteq> last xs" if "n \<in> set ys" "xs \<noteq> []" for n using d that last_in_set [of xs] by (auto simp: disjoint_iff)
    moreover have "n \<noteq> a" if "n \<in> set ys" for n using d that by auto
    ultimately have "dseg h' (Elem y) (map Elem zs) (Sentinel l) = dseg h (Elem y) (map Elem zs) (Sentinel l)"
      using d Cons by (intro dseg_cong) (auto simp: next_h prev_h pos_of_def before_def)
    then show ?thesis using right Cons by simp
  qed (use that in simp)
  ultimately show "ring_ok h' l (xs @ ys)" using d unfolding ring_ok_split by simp
qed

text \<open>The named operations.\<close>

lemma ring_push_back_correct:
  assumes "ring_ok h l ns" "a \<notin> set ns"
  shows "ring_ok (ring_push_back l (Elem a) h) l (ns @ [a])"
  using ring_insert_correct [of h l ns "[]" a] assms
  by (cases "ring_insert (Sentinel l) (Elem a) h") (auto simp: ring_push_back_def ring_end_def pos_of_def)

lemma ring_push_front_correct:
  assumes "ring_ok h l ns" "a \<notin> set ns"
  shows "\<exists>h'. ring_push_front l (Elem a) h = Some h' \<and> ring_ok h' l (a # ns)"
  using ring_insert_correct [of h l "[]" ns a] ring_begin_correct [OF assms(1)] assms
  by (cases "ring_insert (pos_of l ns) (Elem a) h") (auto simp: ring_push_front_def)

lemma ring_pop_front_correct:
  assumes "ring_ok h l (n # ns)"
  shows "\<exists>h'. ring_pop_front dbug l h = Some h' \<and> ring_ok h' l ns"
  using ring_erase_correct [of h l "[]" n ns dbug] ring_begin_correct [OF assms] assms
  by (cases "ring_erase dbug (Elem n) h") (auto simp: ring_pop_front_def pos_of_def)

lemma ring_remove_correct:
  assumes "ring_ok h l (xs @ a # ys)"
  shows "ring_ok (ring_remove dbug (Elem a) h) l (xs @ ys)"
  using ring_erase_correct [OF assms, of dbug] by (cases "ring_erase dbug (Elem a) h") (auto simp: ring_remove_def)

lemma ring_ok_upd_size [simp]: "ring_ok (upd_size k n h) l ns \<longleftrightarrow> ring_ok h l ns"
  using dseg_cong [of "upd_size k n h" "Sentinel l" h "Sentinel l" "map Elem ns"] by (simp add: ring_ok_def)

lemma sized_insert_correct:
  assumes ok: "sized_ok h l (xs @ ys)" and a: "a \<notin> set (xs @ ys)"
    and run: "sized_insert l (pos_of l ys) (Elem a) h = (p, h')"
  shows "sized_ok h' l (xs @ a # ys)" "p = Elem a"
proof -
  have "ring_ok (upd_size l (rsize h l + 1) h) l (xs @ ys)" using ok by (simp add: sized_ok_def)
  note ins = ring_insert_correct [OF this a run [unfolded sized_insert_def]]
  show "sized_ok h' l (xs @ a # ys)" "p = Elem a" using ins ok by (simp_all add: sized_ok_def)
qed

lemma sized_erase_correct:
  assumes ok: "sized_ok h l (xs @ a # ys)" and run: "sized_erase dbug l (Elem a) h = (p, h')"
  shows "sized_ok h' l (xs @ ys)" "p = pos_of l ys"
proof -
  have "ring_ok (upd_size l (rsize h l - 1) h) l (xs @ a # ys)" using ok by (simp add: sized_ok_def)
  note er = ring_erase_correct [OF this run [unfolded sized_erase_def]]
  show "sized_ok h' l (xs @ ys)" "p = pos_of l ys" using er ok by (simp_all add: sized_ok_def)
qed

text \<open>
  \<open>pop_back\<close> on a non-empty list: \<open>end()\<close> is the sentinel, so the sentinel is what leaves the
  ring. In a release build the list still answers that it is not empty, its iteration runs over
  the same elements for ever, and the number \<open>sized_ilist\<close> keeps goes down by one.
\<close>

lemma ring_pop_back_release:
  assumes ok: "ring_ok h l (n # ns)"
  shows "\<not> ring_empty l (ring_pop_back False l h)" "\<not> (\<exists>ms. ring_ok (ring_pop_back False l h) l ms)"
    "\<exists>m \<in> set (n # ns). (((\<lambda>p. rnext (ring_pop_back False l h) p) ^^ k) (Elem n)) = Elem m"
proof -
  let ?h = "ring_pop_back False l h"
  have seg: "dseg h (Sentinel l) (map Elem (n # ns)) (Sentinel l)" and d: "distinct (n # ns)"
    using ok by (auto simp: ring_ok_def)
  have ends: "rnext h (Sentinel l) = Elem n" "rprev h (Sentinel l) = Elem (last (n # ns))"
    using dseg_ends [OF seg] by (auto simp: last_map)
  have next_h: "rnext ?h p = (if p = Elem (last (n # ns)) then Elem n else rnext h p)"
    and prev_h: "rprev ?h p = (if p = Elem n then Elem (last (n # ns)) else rprev h p)" for p
    by (auto simp: ring_pop_back_def ring_erase_def ring_end_def Let_def ends)
  show "\<not> ring_empty l ?h" by (simp add: ring_empty_def next_h ends)
  have "\<not> ring_ok ?h l ms" for ms
  proof
    assume ring: "ring_ok ?h l ms"
    then have "dseg ?h (Sentinel l) (map Elem ms) (Sentinel l)" by (simp add: ring_ok_def)
    moreover have "rnext ?h (Sentinel l) = Elem n" by (simp add: next_h ends)
    ultimately show False by (cases ms) (auto simp: prev_h)
  qed
  then show "\<not> (\<exists>ms. ring_ok ?h l ms)" by blast
  have step: "\<exists>m' \<in> set (n # ns). rnext ?h (Elem m) = Elem m'" if m: "m \<in> set (n # ns)" for m
  proof (cases "m = last (n # ns)")
    case False
    obtain xs ys where split: "n # ns = xs @ m # ys" using m by (meson split_list)
    with False have "ys \<noteq> []" by auto
    moreover have "dseg h (Elem m) (map Elem ys) (Sentinel l)"
      using seg unfolding split by (simp add: dseg_append)
    ultimately have "rnext h (Elem m) = Elem (hd ys)" by (cases ys) auto
    moreover have "hd ys \<in> set (n # ns)" using \<open>ys \<noteq> []\<close> split by auto
    ultimately show ?thesis using False by (auto simp: next_h)
  qed (simp add: next_h)
  show "\<exists>m \<in> set (n # ns). (((\<lambda>p. rnext ?h p) ^^ k) (Elem n)) = Elem m"
  proof (induction k)
    case (Suc k)
    then obtain m where "m \<in> set (n # ns)" "((\<lambda>p. rnext ?h p) ^^ k) (Elem n) = Elem m" by blast
    with step [of m] show ?case by simp
  qed simp
qed

text \<open>In a debug build the sentinel is cleared: the next \<open>begin()\<close> fails its assertion.\<close>

lemma ring_pop_back_debug: "ring_begin l (ring_pop_back True l h) = None"
  by (simp add: ring_begin_def ring_iter_def ring_pop_back_def ring_erase_def ring_end_def Let_def)

text \<open>The elements stay linked, now to each other: the last one and the first are neighbours.\<close>

definition cycle_ok :: "rheap \<Rightarrow> nat list \<Rightarrow> bool" where
  "cycle_ok h ns \<longleftrightarrow> (\<forall>i<length ns. rnext h (Elem (ns ! i)) = Elem (ns ! (Suc i mod length ns)) \<and>
     rprev h (Elem (ns ! (Suc i mod length ns))) = Elem (ns ! i))"

lemma dseg_nth:
  "dseg h a ps b \<Longrightarrow> i \<le> length ps \<Longrightarrow> rnext h ((a # ps) ! i) = (ps @ [b]) ! i \<and> rprev h ((ps @ [b]) ! i) = (a # ps) ! i"
proof (induction ps arbitrary: a i)
  case (Cons p ps)
  then show ?case by (cases i) auto
qed simp

lemma ring_pop_back_cycle:
  assumes ok: "ring_ok h l ns" and ne: "ns \<noteq> []"
  shows "cycle_ok (ring_pop_back False l h) ns"
  unfolding cycle_ok_def
proof (intro allI impI)
  let ?h = "ring_pop_back False l h"
  have seg: "dseg h (Sentinel l) (map Elem ns) (Sentinel l)" and d: "distinct ns"
    using ok by (auto simp: ring_ok_def)
  have ends: "rnext h (Sentinel l) = Elem (hd ns)" "rprev h (Sentinel l) = Elem (last ns)"
    using dseg_ends [OF seg] ne by (auto simp: last_map neq_Nil_conv)
  have next_h: "rnext ?h p = (if p = Elem (last ns) then Elem (hd ns) else rnext h p)"
    and prev_h: "rprev ?h p = (if p = Elem (hd ns) then Elem (last ns) else rprev h p)" for p
    by (auto simp: ring_pop_back_def ring_erase_def ring_end_def Let_def ends)
  fix i assume i: "i < length ns"
  show "rnext ?h (Elem (ns ! i)) = Elem (ns ! (Suc i mod length ns)) \<and>
    rprev ?h (Elem (ns ! (Suc i mod length ns))) = Elem (ns ! i)"
  proof (cases "Suc i = length ns")
    case True
    then have "i = length ns - 1" by simp
    then have "ns ! i = last ns" "ns ! (Suc i mod length ns) = hd ns" using ne True by (simp_all add: last_conv_nth hd_conv_nth)
    then show ?thesis by (simp add: next_h prev_h)
  next
    case False
    then have s: "Suc i < length ns" using i by simp
    have "ns ! i \<noteq> last ns" "ns ! Suc i \<noteq> hd ns"
      using d i s ne by (auto simp: last_conv_nth hd_conv_nth nth_eq_iff_index_eq)
    moreover have "rnext h (Elem (ns ! i)) = Elem (ns ! Suc i)" "rprev h (Elem (ns ! Suc i)) = Elem (ns ! i)"
      using dseg_nth [OF seg, of "Suc i"] i s by (simp_all add: nth_append)
    ultimately show ?thesis using s by (simp add: next_h prev_h)
  qed
qed

text \<open>On an empty list the sentinel is its own neighbour and stays so in a release build.\<close>

lemma ring_pop_back_empty: "ring_ok h l [] \<Longrightarrow> ring_ok (ring_pop_back False l h) l []"
  by (simp add: ring_ok_def ring_pop_back_def ring_erase_def ring_end_def Let_def)

lemma sized_pop_back_size: "rsize (sized_pop_back dbug l g) l = rsize g l - 1"
  by (simp add: sized_pop_back_def sized_erase_def ring_erase_def Let_def)

lemma sized_ends_correct:
  assumes ok: "sized_ok h l ns"
  shows "a \<notin> set ns \<Longrightarrow> sized_ok (sized_push_back l (Elem a) h) l (ns @ [a])"
    "a \<notin> set ns \<Longrightarrow> \<exists>h'. sized_push_front l (Elem a) h = Some h' \<and> sized_ok h' l (a # ns)"
    "ns = n # ms \<Longrightarrow> \<exists>h'. sized_pop_front dbug l h = Some h' \<and> sized_ok h' l ms"
proof -
  have start: "ring_begin l h = Some (pos_of l ns)" using ok by (simp add: sized_ok_def ring_begin_correct)
  show "sized_ok (sized_push_back l (Elem a) h) l (ns @ [a])" if "a \<notin> set ns"
    using sized_insert_correct(1) [of h l ns "[]" a] ok that
    by (cases "sized_insert l (Sentinel l) (Elem a) h") (simp add: sized_push_back_def ring_end_def pos_of_def)
  show "\<exists>h'. sized_push_front l (Elem a) h = Some h' \<and> sized_ok h' l (a # ns)" if "a \<notin> set ns"
    using sized_insert_correct(1) [of h l "[]" ns a] ok that
    by (cases "sized_insert l (pos_of l ns) (Elem a) h") (simp add: sized_push_front_def start)
  show "\<exists>h'. sized_pop_front dbug l h = Some h' \<and> sized_ok h' l ms" if "ns = n # ms"
    using sized_erase_correct(1) [of h l "[]" n ms dbug] ok that
    by (cases "sized_erase dbug l (Elem n) h") (simp add: sized_pop_front_def start pos_of_def)
qed

subsection \<open>Properties\<close>

text \<open>The operations on a ring, the same with the size, and what \<open>pop_back\<close> does.\<close>

lemma ring_operations_correct:
  assumes "ring_ok h l (xs @ ys)" "b \<notin> set (xs @ ys)"
  shows "(case ring_insert (pos_of l ys) (Elem b) h of (p, h') \<Rightarrow> ring_ok h' l (xs @ b # ys) \<and> p = Elem b) \<and>
      ring_ok (ring_push_back l (Elem b) h) l (xs @ ys @ [b]) \<and>
      (\<exists>h'. ring_push_front l (Elem b) h = Some h' \<and> ring_ok h' l (b # xs @ ys)) \<and>
      (\<forall>a zs. ys = a # zs \<longrightarrow>
        (case ring_erase dbug (Elem a) h of (p, h') \<Rightarrow> ring_ok h' l (xs @ zs) \<and> p = pos_of l zs)) \<and>
      (\<forall>n ns. xs @ ys = n # ns \<longrightarrow> (\<exists>h'. ring_pop_front dbug l h = Some h' \<and> ring_ok h' l ns))"
proof (intro conjI)
  show "case ring_insert (pos_of l ys) (Elem b) h of (p, h') \<Rightarrow> ring_ok h' l (xs @ b # ys) \<and> p = Elem b"
    using ring_insert_correct [OF assms] by (cases "ring_insert (pos_of l ys) (Elem b) h") blast
  show "ring_ok (ring_push_back l (Elem b) h) l (xs @ ys @ [b])"
    using ring_push_back_correct [OF assms] by simp
  show "\<exists>h'. ring_push_front l (Elem b) h = Some h' \<and> ring_ok h' l (b # xs @ ys)"
    by (rule ring_push_front_correct [OF assms])
  show "\<forall>a zs. ys = a # zs \<longrightarrow>
      (case ring_erase dbug (Elem a) h of (p, h') \<Rightarrow> ring_ok h' l (xs @ zs) \<and> p = pos_of l zs)"
  proof (intro allI impI)
    fix a zs assume "ys = a # zs"
    then have ok: "ring_ok h l (xs @ a # zs)" using assms(1) by simp
    obtain p h' where run: "ring_erase dbug (Elem a) h = (p, h')" by (cases "ring_erase dbug (Elem a) h")
    then show "case ring_erase dbug (Elem a) h of (p, h') \<Rightarrow> ring_ok h' l (xs @ zs) \<and> p = pos_of l zs"
      using ring_erase_correct [OF ok run] by simp
  qed
  show "\<forall>n ns. xs @ ys = n # ns \<longrightarrow> (\<exists>h'. ring_pop_front dbug l h = Some h' \<and> ring_ok h' l ns)"
    using assms(1) by (intro allI impI ring_pop_front_correct) simp
qed

lemma sized_operations_correct:
  assumes "sized_ok g l (xs @ ys)" "b \<notin> set (xs @ ys)"
  shows "(case sized_insert l (pos_of l ys) (Elem b) g of (p, g') \<Rightarrow> sized_ok g' l (xs @ b # ys) \<and> p = Elem b) \<and>
      sized_ok (sized_push_back l (Elem b) g) l (xs @ ys @ [b]) \<and>
      (\<exists>g'. sized_push_front l (Elem b) g = Some g' \<and> sized_ok g' l (b # xs @ ys)) \<and>
      (\<forall>a zs. ys = a # zs \<longrightarrow>
        (case sized_erase dbug l (Elem a) g of (p, g') \<Rightarrow> sized_ok g' l (xs @ zs) \<and> p = pos_of l zs)) \<and>
      (\<forall>n ns. xs @ ys = n # ns \<longrightarrow> (\<exists>g'. sized_pop_front dbug l g = Some g' \<and> sized_ok g' l ns))"
proof (intro conjI)
  note ends = sized_ends_correct [OF assms(1)]
  show "case sized_insert l (pos_of l ys) (Elem b) g of (p, g') \<Rightarrow> sized_ok g' l (xs @ b # ys) \<and> p = Elem b"
    using sized_insert_correct [OF assms] by (cases "sized_insert l (pos_of l ys) (Elem b) g") blast
  show "sized_ok (sized_push_back l (Elem b) g) l (xs @ ys @ [b])" using ends(1) [OF assms(2)] by simp
  show "\<exists>g'. sized_push_front l (Elem b) g = Some g' \<and> sized_ok g' l (b # xs @ ys)" by (rule ends(2) [OF assms(2)])
  show "\<forall>a zs. ys = a # zs \<longrightarrow>
      (case sized_erase dbug l (Elem a) g of (p, g') \<Rightarrow> sized_ok g' l (xs @ zs) \<and> p = pos_of l zs)"
  proof (intro allI impI)
    fix a zs assume "ys = a # zs"
    then have ok: "sized_ok g l (xs @ a # zs)" using assms(1) by simp
    obtain p h' where run: "sized_erase dbug l (Elem a) g = (p, h')" by (cases "sized_erase dbug l (Elem a) g")
    then show "case sized_erase dbug l (Elem a) g of (p, h') \<Rightarrow> sized_ok h' l (xs @ zs) \<and> p = pos_of l zs"
      using sized_erase_correct [OF ok run] by simp
  qed
  show "\<forall>n ns. xs @ ys = n # ns \<longrightarrow> (\<exists>g'. sized_pop_front dbug l g = Some g' \<and> sized_ok g' l ns)"
    using ends(3) by blast
qed

lemma pop_back_loses_list:
  assumes "ring_ok h l (xs @ ys)" "sized_ok g l (xs @ ys)"
  shows "(if xs @ ys = [] then ring_ok (ring_pop_back False l h) l []
      else cycle_ok (ring_pop_back False l h) (xs @ ys) \<and> \<not> ring_empty l (ring_pop_back False l h) \<and>
        \<not> (\<exists>ms. ring_ok (ring_pop_back False l h) l ms)) \<and>
      ring_begin l (ring_pop_back True l h) = None \<and>
      rsize (sized_pop_back dbug l g) l = of_nat (length (xs @ ys)) - 1"
proof (intro conjI)
  show "if xs @ ys = [] then ring_ok (ring_pop_back False l h) l []
      else cycle_ok (ring_pop_back False l h) (xs @ ys) \<and> \<not> ring_empty l (ring_pop_back False l h) \<and>
        \<not> (\<exists>ms. ring_ok (ring_pop_back False l h) l ms)"
  proof (cases "xs @ ys")
    case Nil
    then show ?thesis using ring_pop_back_empty assms(1) by simp
  next
    case (Cons n ns)
    then show ?thesis
      using ring_pop_back_cycle [OF assms(1)] ring_pop_back_release(1,2) [of h l n ns] assms(1) by simp
  qed
  show "ring_begin l (ring_pop_back True l h) = None" by (rule ring_pop_back_debug)
  show "rsize (sized_pop_back dbug l g) l = of_nat (length (xs @ ys)) - 1"
    using assms(2) by (simp add: sized_pop_back_size sized_ok_def)
qed

text \<open>
  C39. \<open>ilist\<close> is a ring around its sentinel, in a release and in a debug build: \<open>insert\<close> puts an
  element before a position, which may be the end, also of an empty list, and \<open>erase\<close> takes an element
  out, each returning the right position; \<open>push_back\<close>, \<open>push_front\<close> and \<open>pop_front\<close> are the operations
  on the sequence their names say, and the size of a \<open>sized_ilist\<close> follows. But \<open>pop_back\<close> erases the
  sentinel instead of the last element: in a release build an empty list stays as it is, and of any
  other all elements stay linked, in a ring of their own, while the list object answers that it is not
  empty and is no list any more; in a debug build the next \<open>begin\<close> fails its assertion. \<open>sized_ilist\<close>
  subtracts one in either case, from a size of zero too.
\<close>

theorem ring_list_correct:
  assumes "ring_ok h l (xs @ ys)" "sized_ok g l (xs @ ys)" "b \<notin> set (xs @ ys)"
  shows "((case ring_insert (pos_of l ys) (Elem b) h of (p, h') \<Rightarrow> ring_ok h' l (xs @ b # ys) \<and> p = Elem b) \<and>
      ring_ok (ring_push_back l (Elem b) h) l (xs @ ys @ [b]) \<and>
      (\<exists>h'. ring_push_front l (Elem b) h = Some h' \<and> ring_ok h' l (b # xs @ ys)) \<and>
      (\<forall>a zs. ys = a # zs \<longrightarrow>
        (case ring_erase dbug (Elem a) h of (p, h') \<Rightarrow> ring_ok h' l (xs @ zs) \<and> p = pos_of l zs)) \<and>
      (\<forall>n ns. xs @ ys = n # ns \<longrightarrow> (\<exists>h'. ring_pop_front dbug l h = Some h' \<and> ring_ok h' l ns))) \<and>
    ((case sized_insert l (pos_of l ys) (Elem b) g of (p, g') \<Rightarrow> sized_ok g' l (xs @ b # ys) \<and> p = Elem b) \<and>
      sized_ok (sized_push_back l (Elem b) g) l (xs @ ys @ [b]) \<and>
      (\<exists>g'. sized_push_front l (Elem b) g = Some g' \<and> sized_ok g' l (b # xs @ ys)) \<and>
      (\<forall>a zs. ys = a # zs \<longrightarrow>
        (case sized_erase dbug l (Elem a) g of (p, g') \<Rightarrow> sized_ok g' l (xs @ zs) \<and> p = pos_of l zs)) \<and>
      (\<forall>n ns. xs @ ys = n # ns \<longrightarrow> (\<exists>g'. sized_pop_front dbug l g = Some g' \<and> sized_ok g' l ns))) \<and>
    ((if xs @ ys = [] then ring_ok (ring_pop_back False l h) l []
      else cycle_ok (ring_pop_back False l h) (xs @ ys) \<and> \<not> ring_empty l (ring_pop_back False l h) \<and>
        \<not> (\<exists>ms. ring_ok (ring_pop_back False l h) l ms)) \<and>
      ring_begin l (ring_pop_back True l h) = None \<and>
      rsize (sized_pop_back dbug l g) l = of_nat (length (xs @ ys)) - 1)"
  by (rule conjI [OF ring_operations_correct [OF assms(1,3)]
      conjI [OF sized_operations_correct [OF assms(2,3)] pop_back_loses_list [OF assms(1,2)]]])

definition sample_ring :: rheap where
  "sample_ring = sized_push_back 1 (Elem 11) (sized_push_back 1 (Elem 10)
     (sized_init 1 \<lparr>rnext = \<lambda>_. RNull, rprev = \<lambda>_. RNull, rsize = \<lambda>_. 0\<rparr>))"

lemma sample_ring_list: "sized_ok sample_ring 1 ([10] @ [11])"
  using sized_ends_correct(1) [OF sized_ends_correct(1) [OF ring_init_correct(2)], of 10 11] by (simp add: sample_ring_def)

lemma ring_list_correct_witness:
  "\<not> (\<exists>ms. ring_ok (ring_pop_back False 1 sample_ring) 1 ms) \<and> cycle_ok (ring_pop_back False 1 sample_ring) [10, 11] \<and>
   (\<exists>p g'. sized_erase True 1 (Elem 11) sample_ring = (p, g') \<and> sized_ok g' 1 [10])"
  using ring_list_correct [of sample_ring 1 "[10]" "[11]" sample_ring 30 True] sample_ring_list
  by (auto simp: sized_ok_def split: prod.splits)

end
