(* ===== verification/P_List.thy ===== *)
theory P_List
  imports Prelude
begin

text \<open>
  \<open>I_P_List\<close> of \<open>sql_plist.h\<close>: the intrusive doubly linked list whose element knows the cell
  that refers to it. Its two policy parameters say whether the elements are counted and whether
  the list keeps the cell of its end for \<open>push_back\<close>; they are the fields of \<open>policy\<close> here.
  \<open>plist_ok\<close> is the invariant under a policy.
\<close>

subsection \<open>Memory and policies\<close>

text \<open>Elements are addresses, 0 is null. A \<open>T **\<close> is a \<open>ploc\<close>.\<close>

datatype ploc = PFirst nat | PNext nat

record pheap =
  p_next :: "nat \<Rightarrow> nat"
  p_prev :: "nat \<Rightarrow> ploc"
  m_first :: "nat \<Rightarrow> nat"
  m_last :: "nat \<Rightarrow> ploc"
  m_counter :: "nat \<Rightarrow> u32"

record policy =
  counts :: bool
  fast_push_back :: bool

definition wr_next :: "nat \<Rightarrow> nat \<Rightarrow> pheap \<Rightarrow> pheap" where
  "wr_next a b h = h\<lparr>p_next := (p_next h)(a := b)\<rparr>"

definition wr_prev :: "nat \<Rightarrow> ploc \<Rightarrow> pheap \<Rightarrow> pheap" where
  "wr_prev a c h = h\<lparr>p_prev := (p_prev h)(a := c)\<rparr>"

definition wr_first :: "nat \<Rightarrow> nat \<Rightarrow> pheap \<Rightarrow> pheap" where
  "wr_first l a h = h\<lparr>m_first := (m_first h)(l := a)\<rparr>"

definition wr_last :: "nat \<Rightarrow> ploc \<Rightarrow> pheap \<Rightarrow> pheap" where
  "wr_last l c h = h\<lparr>m_last := (m_last h)(l := c)\<rparr>"

definition wr_counter :: "nat \<Rightarrow> u32 \<Rightarrow> pheap \<Rightarrow> pheap" where
  "wr_counter l n h = h\<lparr>m_counter := (m_counter h)(l := n)\<rparr>"

fun pderef :: "pheap \<Rightarrow> ploc \<Rightarrow> nat" where
  "pderef h (PFirst l) = m_first h l"
| "pderef h (PNext a) = p_next h a"

fun passign :: "ploc \<Rightarrow> nat \<Rightarrow> pheap \<Rightarrow> pheap" where
  "passign (PFirst l) b h = wr_first l b h"
| "passign (PNext a) b h = wr_next a b h"

lemma pheap_reads [simp, heap_simps]:
  "p_next (wr_next a b h) x = (if x = a then b else p_next h x)"
  "p_prev (wr_next a b h) x = p_prev h x"
  "m_first (wr_next a b h) l = m_first h l"
  "m_last (wr_next a b h) l = m_last h l"
  "m_counter (wr_next a b h) l = m_counter h l"
  "p_next (wr_prev a c h) x = p_next h x"
  "p_prev (wr_prev a c h) x = (if x = a then c else p_prev h x)"
  "m_first (wr_prev a c h) l = m_first h l"
  "m_last (wr_prev a c h) l = m_last h l"
  "m_counter (wr_prev a c h) l = m_counter h l"
  "p_next (wr_first k b h) x = p_next h x"
  "p_prev (wr_first k b h) x = p_prev h x"
  "m_first (wr_first k b h) l = (if l = k then b else m_first h l)"
  "m_last (wr_first k b h) l = m_last h l"
  "m_counter (wr_first k b h) l = m_counter h l"
  "p_next (wr_last k c h) x = p_next h x"
  "p_prev (wr_last k c h) x = p_prev h x"
  "m_first (wr_last k c h) l = m_first h l"
  "m_last (wr_last k c h) l = (if l = k then c else m_last h l)"
  "m_counter (wr_last k c h) l = m_counter h l"
  "p_next (wr_counter k n h) x = p_next h x"
  "p_prev (wr_counter k n h) x = p_prev h x"
  "m_first (wr_counter k n h) l = m_first h l"
  "m_last (wr_counter k n h) l = m_last h l"
  "m_counter (wr_counter k n h) l = (if l = k then n else m_counter h l)"
  by (simp_all add: wr_next_def wr_prev_def wr_first_def wr_last_def wr_counter_def)

lemma passign_reads [simp, heap_simps]:
  "p_next (passign c b h) x = (if c = PNext x then b else p_next h x)"
  "p_prev (passign c b h) x = p_prev h x"
  "m_first (passign c b h) l = (if c = PFirst l then b else m_first h l)"
  "m_last (passign c b h) l = m_last h l"
  "m_counter (passign c b h) l = m_counter h l"
  by (cases c; auto)+

subsection \<open>The policies\<close>

definition pl_set_last :: "policy \<Rightarrow> nat \<Rightarrow> ploc \<Rightarrow> pheap \<Rightarrow> pheap" where
  "pl_set_last pol l c h = (if fast_push_back pol then wr_last l c h else h)"

definition pl_inc :: "policy \<Rightarrow> nat \<Rightarrow> pheap \<Rightarrow> pheap" where
  "pl_inc pol l h = (if counts pol then wr_counter l (m_counter h l + 1) h else h)"

definition pl_dec :: "policy \<Rightarrow> nat \<Rightarrow> pheap \<Rightarrow> pheap" where
  "pl_dec pol l h = (if counts pol then wr_counter l (m_counter h l - 1) h else h)"

definition pl_reset :: "policy \<Rightarrow> nat \<Rightarrow> pheap \<Rightarrow> pheap" where
  "pl_reset pol l h = (if counts pol then wr_counter l 0 h else h)"

definition pl_swap_counter :: "policy \<Rightarrow> nat \<Rightarrow> nat \<Rightarrow> pheap \<Rightarrow> pheap" where
  "pl_swap_counter pol l r h =
     (if counts pol then wr_counter r (m_counter h l) (wr_counter l (m_counter h r) h) else h)"

definition pl_swap_last :: "policy \<Rightarrow> nat \<Rightarrow> nat \<Rightarrow> pheap \<Rightarrow> pheap" where
  "pl_swap_last pol l r h =
     (if fast_push_back pol then wr_last r (m_last h l) (wr_last l (m_last h r) h) else h)"

definition pl_elements :: "nat \<Rightarrow> pheap \<Rightarrow> u32" where "pl_elements l h = m_counter h l"

subsection \<open>The list\<close>

definition pl_init :: "policy \<Rightarrow> nat \<Rightarrow> pheap \<Rightarrow> pheap" where
  "pl_init pol l h = wr_first l 0 (pl_set_last pol l (PFirst l) (pl_reset pol l h))"

definition pl_empty :: "policy \<Rightarrow> nat \<Rightarrow> pheap \<Rightarrow> pheap" where
  "pl_empty pol l h = pl_set_last pol l (PFirst l) (pl_reset pol l (wr_first l 0 h))"

definition pl_is_empty :: "nat \<Rightarrow> pheap \<Rightarrow> bool" where "pl_is_empty l h \<longleftrightarrow> m_first h l = 0"

definition pl_push_front :: "policy \<Rightarrow> nat \<Rightarrow> nat \<Rightarrow> pheap \<Rightarrow> pheap" where
  "pl_push_front pol l a h =
     (let h = wr_next a (m_first h l) h;
          h = (if m_first h l \<noteq> 0 then wr_prev (m_first h l) (PNext a) h
               else pl_set_last pol l (PNext a) h);
          h = wr_first l a h;
          h = wr_prev a (PFirst l) h
      in pl_inc pol l h)"

text \<open>\<open>get_last\<close> exists only under the policy with fast \<open>push_back\<close>.\<close>

definition pl_push_back :: "policy \<Rightarrow> nat \<Rightarrow> nat \<Rightarrow> pheap \<Rightarrow> pheap option" where
  "pl_push_back pol l a h =
     guard (fast_push_back pol)
       (let last = m_last h l;
            h = wr_next a (pderef h last) h;
            h = passign last a h;
            h = wr_prev a last h;
            h = pl_set_last pol l (PNext a) h
        in pl_inc pol l h)"

definition pl_insert_after :: "policy \<Rightarrow> nat \<Rightarrow> nat \<Rightarrow> nat \<Rightarrow> pheap \<Rightarrow> pheap" where
  "pl_insert_after pol l pos a h =
     (if pos = 0 then pl_push_front pol l a h
      else (let h = wr_next a (p_next h pos) h;
                h = wr_prev a (PNext pos) h;
                h = wr_next pos a h;
                h = (if p_next h a \<noteq> 0 then wr_prev (p_next h a) (PNext a) h
                     else pl_set_last pol l (PNext a) h)
            in pl_inc pol l h))"

definition pl_remove :: "policy \<Rightarrow> nat \<Rightarrow> nat \<Rightarrow> pheap \<Rightarrow> pheap" where
  "pl_remove pol l a h =
     (let next = p_next h a;
          h = (if next \<noteq> 0 then wr_prev next (p_prev h a) h else pl_set_last pol l (p_prev h a) h);
          h = passign (p_prev h a) next h
      in pl_dec pol l h)"

definition pl_front :: "nat \<Rightarrow> pheap \<Rightarrow> nat" where "pl_front l h = m_first h l"

definition pl_pop_front :: "policy \<Rightarrow> nat \<Rightarrow> pheap \<Rightarrow> nat \<times> pheap" where
  "pl_pop_front pol l h =
     (let result = pl_front l h
      in (result, if result \<noteq> 0 then pl_remove pol l result h else h))"

text \<open>
  \<open>swap\<close> takes a list of the default policy, so it exists only for lists without fast
  \<open>push_back\<close>; its last line sets \<open>last\<close> of this list, where the other list is meant.
\<close>

definition pl_swap :: "policy \<Rightarrow> nat \<Rightarrow> nat \<Rightarrow> pheap \<Rightarrow> pheap" where
  "pl_swap pol l r h =
     (let h = wr_first r (m_first h l) (wr_first l (m_first h r) h);
          h = pl_swap_last pol l r h;
          h = (if m_first h l \<noteq> 0 then wr_prev (m_first h l) (PFirst l) h
               else pl_set_last pol l (PFirst l) h);
          h = (if m_first h r \<noteq> 0 then wr_prev (m_first h r) (PFirst r) h
               else pl_set_last pol l (PFirst r) h)
      in pl_swap_counter pol l r h)"

subsection \<open>The iterator\<close>

record piter =
  pi_list :: nat
  pi_current :: nat

definition pi_init :: "nat \<Rightarrow> pheap \<Rightarrow> piter" where
  "pi_init l h = \<lparr>pi_list = l, pi_current = m_first h l\<rparr>"

definition pi_post_inc :: "piter \<Rightarrow> pheap \<Rightarrow> nat \<times> piter" where
  "pi_post_inc it h =
     (let result = pi_current it
      in (result, if result \<noteq> 0 then it\<lparr>pi_current := p_next h (pi_current it)\<rparr> else it))"

definition pi_pre_inc :: "piter \<Rightarrow> pheap \<Rightarrow> nat \<times> piter" where
  "pi_pre_inc it h = (let it = it\<lparr>pi_current := p_next h (pi_current it)\<rparr> in (pi_current it, it))"

definition pi_rewind :: "piter \<Rightarrow> pheap \<Rightarrow> piter" where
  "pi_rewind it h = it\<lparr>pi_current := m_first h (pi_list it)\<rparr>"

subsection \<open>The invariant\<close>

text \<open>From the cell \<open>c\<close> through the elements \<open>ns\<close> to \<open>t\<close>, each knowing the cell before it.\<close>

fun pseg :: "pheap \<Rightarrow> ploc \<Rightarrow> nat list \<Rightarrow> nat \<Rightarrow> bool" where
  "pseg h c [] t \<longleftrightarrow> pderef h c = t"
| "pseg h c (n # ns) t \<longleftrightarrow> pderef h c = n \<and> n \<noteq> 0 \<and> p_prev h n = c \<and> pseg h (PNext n) ns t"

definition pcell :: "ploc \<Rightarrow> nat list \<Rightarrow> ploc" where
  "pcell c ns = (if ns = [] then c else PNext (last ns))"

lemma pcell_simps [simp]:
  "pcell c [] = c"
  "pcell c (ns @ [n]) = PNext n"
  "pcell c (n # ns) = pcell (PNext n) ns"
  by (simp_all add: pcell_def)

definition plist_ok :: "policy \<Rightarrow> pheap \<Rightarrow> nat \<Rightarrow> nat list \<Rightarrow> bool" where
  "plist_ok pol h l ns \<longleftrightarrow> pseg h (PFirst l) ns 0 \<and> distinct ns \<and>
     (fast_push_back pol \<longrightarrow> m_last h l = pcell (PFirst l) ns) \<and>
     (counts pol \<longrightarrow> m_counter h l = of_nat (length ns))"

lemma pseg_append:
  "pseg h c (xs @ y # ys) t \<longleftrightarrow> pseg h c xs y \<and> y \<noteq> 0 \<and> p_prev h y = pcell c xs \<and> pseg h (PNext y) ys t"
  by (induction xs arbitrary: c) auto

lemma pseg_end: "pseg h c ns t \<Longrightarrow> pderef h (pcell c ns) = t"
  by (induction ns arbitrary: c) auto

lemma pseg_nonzero: "pseg h c ns t \<Longrightarrow> n \<in> set ns \<Longrightarrow> n \<noteq> 0"
  by (induction ns arbitrary: c) auto

lemma pseg_cong:
  assumes "pderef h' c = pderef h c"
    and "\<And>n. n \<in> set ns \<Longrightarrow> p_next h' n = p_next h n \<and> p_prev h' n = p_prev h n"
  shows "pseg h' c ns t \<longleftrightarrow> pseg h c ns t"
  using assms by (induction ns arbitrary: c) auto

lemma pseg_new_end:
  assumes "pseg h c ns t" "distinct ns"
    and "pderef h' (pcell c ns) = u"
    and "ns \<noteq> [] \<Longrightarrow> pderef h' c = pderef h c"
    and "\<And>n. n \<in> set ns \<Longrightarrow> p_prev h' n = p_prev h n"
    and "\<And>n. n \<in> set ns \<Longrightarrow> n \<noteq> last ns \<Longrightarrow> p_next h' n = p_next h n"
  shows "pseg h' c ns u"
  using assms
proof (induction ns arbitrary: c)
  case (Cons n ns)
  have "pseg h' (PNext n) ns u"
  proof (rule Cons.IH)
    show "pderef h' (PNext n) = pderef h (PNext n)" if "ns \<noteq> []"
    proof -
      have "n \<noteq> last ns" using that Cons.prems(2) last_in_set [of ns] by auto
      then show ?thesis using that Cons.prems(6) [of n] by simp
    qed
    show "p_next h' m = p_next h m" if "m \<in> set ns" "m \<noteq> last ns" for m
      using that Cons.prems(6) [of m] by (cases "ns = []") auto
  qed (use Cons.prems in auto)
  then show ?case using Cons.prems by auto
qed simp

lemma pcell_iff:
  "pcell (PFirst l) ns = PFirst k \<longleftrightarrow> ns = [] \<and> k = l"
  "pcell (PFirst l) ns = PNext n \<longleftrightarrow> ns \<noteq> [] \<and> n = last ns"
  by (auto simp: pcell_def)

lemma policy_reads [simp]:
  "p_next (pl_set_last pol l c h) = p_next h" "p_prev (pl_set_last pol l c h) = p_prev h"
  "m_first (pl_set_last pol l c h) = m_first h" "m_counter (pl_set_last pol l c h) = m_counter h"
  "p_next (pl_inc pol l h) = p_next h" "p_prev (pl_inc pol l h) = p_prev h"
  "m_first (pl_inc pol l h) = m_first h" "m_last (pl_inc pol l h) = m_last h"
  "p_next (pl_dec pol l h) = p_next h" "p_prev (pl_dec pol l h) = p_prev h"
  "m_first (pl_dec pol l h) = m_first h" "m_last (pl_dec pol l h) = m_last h"
  "p_next (pl_reset pol l h) = p_next h" "p_prev (pl_reset pol l h) = p_prev h"
  "m_first (pl_reset pol l h) = m_first h" "m_last (pl_reset pol l h) = m_last h"
  by (auto simp: pl_set_last_def pl_inc_def pl_dec_def pl_reset_def wr_last_def wr_counter_def)

lemma policy_fields:
  "m_last (pl_set_last pol l c h) k = (if fast_push_back pol \<and> k = l then c else m_last h k)"
  "m_counter (pl_inc pol l h) k = (if counts pol \<and> k = l then m_counter h l + 1 else m_counter h k)"
  "m_counter (pl_dec pol l h) k = (if counts pol \<and> k = l then m_counter h l - 1 else m_counter h k)"
  "m_counter (pl_reset pol l h) k = (if counts pol \<and> k = l then 0 else m_counter h k)"
  by (auto simp: pl_set_last_def pl_inc_def pl_dec_def pl_reset_def)

subsection \<open>Correctness\<close>

lemma pl_init_correct: "plist_ok pol (pl_init pol l h) l []" "plist_ok pol (pl_empty pol l h) l []"
  by (simp_all add: plist_ok_def pl_init_def pl_empty_def policy_fields)

lemma pl_first: "plist_ok pol h l ns \<Longrightarrow> m_first h l = (case ns of [] \<Rightarrow> 0 | n # _ \<Rightarrow> n)"
  by (cases ns) (auto simp: plist_ok_def)

lemma pl_is_empty_correct: "plist_ok pol h l ns \<Longrightarrow> pl_is_empty l h \<longleftrightarrow> ns = []"
  by (cases ns) (auto simp: pl_is_empty_def plist_ok_def)

lemma pl_elements_correct: "plist_ok pol h l ns \<Longrightarrow> counts pol \<Longrightarrow> pl_elements l h = of_nat (length ns)"
  by (simp add: pl_elements_def plist_ok_def)

lemma pl_push_front_correct:
  assumes ok: "plist_ok pol h l ns" and a: "a \<notin> insert 0 (set ns)"
  shows "plist_ok pol (pl_push_front pol l a h) l (a # ns)"
proof -
  let ?h = "pl_push_front pol l a h"
  have first: "m_first h l = (case ns of [] \<Rightarrow> 0 | n # _ \<Rightarrow> n)" by (rule pl_first [OF ok])
  have "pseg ?h (PNext a) ns 0"
  proof (cases ns)
    case (Cons m ms)
    have "pseg ?h (PNext m) ms 0 = pseg h (PNext m) ms 0"
      by (rule pseg_cong) (use ok a in \<open>auto simp: pl_push_front_def Let_def first Cons plist_ok_def\<close>)
    then show ?thesis using ok a by (auto simp: pl_push_front_def Let_def Cons plist_ok_def)
  qed (simp add: pl_push_front_def Let_def first)
  then show ?thesis using ok a
    by (auto simp: plist_ok_def pl_push_front_def Let_def first policy_fields pcell_def split: list.splits)
qed

lemma pl_push_back_correct:
  assumes ok: "plist_ok pol h l ns" and a: "a \<notin> insert 0 (set ns)" and pol: "fast_push_back pol"
  shows "\<exists>h'. pl_push_back pol l a h = Some h' \<and> plist_ok pol h' l (ns @ [a])"
proof -
  have last: "m_last h l = pcell (PFirst l) ns" and seg: "pseg h (PFirst l) ns 0"
    using ok pol by (auto simp: plist_ok_def)
  have c: "pderef h (pcell (PFirst l) ns) = 0" by (rule pseg_end [OF seg])
  have ne: "pcell (PFirst l) ns \<noteq> PNext a" using a last_in_set [of ns] by (auto simp: pcell_def)
  obtain h' where run: "pl_push_back pol l a h = Some h'" using pol by (simp add: pl_push_back_def)
  have h': "p_next h' n = (if n = a then 0 else if pcell (PFirst l) ns = PNext n then a else p_next h n)"
    "p_prev h' n = (if n = a then pcell (PFirst l) ns else p_prev h n)"
    "m_first h' k = (if pcell (PFirst l) ns = PFirst k then a else m_first h k)"
    "m_last h' l = PNext a" "counts pol \<Longrightarrow> m_counter h' l = m_counter h l + 1" for n k
    using run pol ne by (auto simp: pl_push_back_def Let_def last c policy_fields)
  have "pseg h' (PFirst l) ns a"
  proof (rule pseg_new_end [OF seg])
    show "pderef h' (pcell (PFirst l) ns) = a" using ne by (cases "pcell (PFirst l) ns") (auto simp: h')
  qed (use ok a in \<open>auto simp: h' plist_ok_def pcell_iff\<close>)
  then have "pseg h' (PFirst l) (ns @ [a]) 0" using a by (simp add: pseg_append h')
  then show ?thesis using run ok a by (auto simp: plist_ok_def h' pcell_def)
qed

lemma pl_insert_after_correct:
  assumes ok: "plist_ok pol h l (xs @ p # ys)" and a: "a \<notin> insert 0 (set (xs @ p # ys))"
  shows "plist_ok pol (pl_insert_after pol l p a h) l (xs @ p # a # ys)"
proof -
  let ?h = "pl_insert_after pol l p a h"
  have seg: "pseg h (PFirst l) xs p" "p \<noteq> 0" "p_prev h p = pcell (PFirst l) xs" "pseg h (PNext p) ys 0"
    and d: "distinct (xs @ p # ys)" using ok by (auto simp: plist_ok_def pseg_append)
  have pn: "p_next h p = (case ys of [] \<Rightarrow> 0 | y # _ \<Rightarrow> y)" using seg(4) by (cases ys) auto
  have h': "p_next ?h n = (if n = p then a else if n = a then p_next h p else p_next h n)"
    "p_prev ?h n = (if n = p_next h p \<and> ys \<noteq> [] then PNext a else if n = a then PNext p else p_prev h n)"
    "m_first ?h = m_first h" "counts pol \<Longrightarrow> m_counter ?h l = m_counter h l + 1"
    "fast_push_back pol \<Longrightarrow> m_last ?h l = (if ys = [] then PNext a else m_last h l)" for n
    using seg a by (cases ys; auto simp: pl_insert_after_def Let_def policy_fields)+
  have ynot: "(case ys of [] \<Rightarrow> 0 | y # _ \<Rightarrow> y) \<notin> set xs" "ys \<noteq> [] \<Longrightarrow> hd ys \<noteq> p"
    using d pseg_nonzero [OF seg(1)] by (cases ys; auto)+
  have "pseg ?h (PFirst l) xs p"
    by (rule pseg_new_end [OF seg(1)])
      (use d a ynot pseg_end [OF seg(1)] in \<open>auto simp: h' pn pcell_def\<close>)
  moreover have "pseg ?h (PNext a) ys 0"
  proof (cases ys)
    case Nil
    then show ?thesis using a pn by (auto simp: h')
  next
    case (Cons y zs)
    have "pseg ?h (PNext y) zs 0 = pseg h (PNext y) zs 0"
      by (rule pseg_cong) (use d a in \<open>auto simp: h' pn Cons\<close>)
    then show ?thesis using seg(4) a pn d by (auto simp: h' Cons)
  qed
  moreover have "p_prev ?h p = p_prev h p" using a d pn by (cases ys) (auto simp: h')
  moreover have "p_prev ?h a = PNext p" using a d pn by (cases ys) (auto simp: h')
  ultimately have "pseg ?h (PFirst l) (xs @ p # a # ys) 0"
    using seg a by (simp add: pseg_append h')
  then show ?thesis using ok a d by (auto simp: plist_ok_def h' pcell_def)
qed

lemma pl_remove_correct:
  assumes ok: "plist_ok pol h l (xs @ a # ys)"
  shows "plist_ok pol (pl_remove pol l a h) l (xs @ ys)"
proof -
  let ?h = "pl_remove pol l a h" and ?c = "pcell (PFirst l) xs"
  have seg: "pseg h (PFirst l) xs a" "a \<noteq> 0" "p_prev h a = ?c" "pseg h (PNext a) ys 0"
    and d: "distinct (xs @ a # ys)" using ok by (auto simp: plist_ok_def pseg_append)
  define z where "z = (case ys of [] \<Rightarrow> 0 | y # _ \<Rightarrow> y)"
  have an: "p_next h a = z" using seg(4) by (cases ys) (auto simp: z_def)
  have z0: "z = 0 \<longleftrightarrow> ys = []" "0 < z \<longleftrightarrow> ys \<noteq> []" using pseg_nonzero [OF seg(4)] by (cases ys; auto simp: z_def)+
  have h': "p_next ?h n = (if ?c = PNext n then z else p_next h n)"
    "p_prev ?h n = (if n = z \<and> ys \<noteq> [] then ?c else p_prev h n)"
    "m_first ?h k = (if ?c = PFirst k then z else m_first h k)"
    "counts pol \<Longrightarrow> m_counter ?h l = m_counter h l - 1"
    "fast_push_back pol \<Longrightarrow> m_last ?h l = (if ys = [] then ?c else m_last h l)" for n k
    by (auto simp: pl_remove_def Let_def an z0 seg(3) policy_fields)
  have zxs: "ys \<noteq> [] \<Longrightarrow> z \<notin> set xs" using d by (cases ys) (auto simp: z_def)
  have left: "pseg ?h (PFirst l) xs z"
  proof (rule pseg_new_end [OF seg(1)])
    show "pderef ?h ?c = z" by (cases ?c) (auto simp: h')
  qed (use d zxs in \<open>auto simp: h' pcell_iff\<close>)
  have "pseg ?h (PFirst l) (xs @ ys) 0"
  proof (cases ys)
    case Nil
    then show ?thesis using left by (simp add: z_def)
  next
    case (Cons y zs)
    have lx: "last xs \<notin> set ys" if "xs \<noteq> []" using that d last_in_set [of xs] by (auto simp: disjoint_iff)
    have "pseg ?h (PNext y) zs 0 = pseg h (PNext y) zs 0"
      by (rule pseg_cong) (use d lx in \<open>auto simp: h' z_def Cons pcell_iff\<close>)
    then show ?thesis using left seg(4) by (simp add: Cons z_def pseg_append h')
  qed
  then show ?thesis using ok d by (auto simp: plist_ok_def h' pcell_def)
qed

lemma pl_pop_front_correct:
  assumes "plist_ok pol h l ns" and run: "pl_pop_front pol l h = (a, h')"
  shows "a = (case ns of [] \<Rightarrow> 0 | n # _ \<Rightarrow> n)" "plist_ok pol h' l (tl ns)"
proof -
  have "a = (case ns of [] \<Rightarrow> 0 | n # _ \<Rightarrow> n) \<and> plist_ok pol h' l (tl ns)"
    using assms pl_first [OF assms(1)] pl_remove_correct [of pol h l "[]" "hd ns" "tl ns"]
    by (cases ns) (auto simp: pl_pop_front_def pl_front_def Let_def plist_ok_def)
  then show "a = (case ns of [] \<Rightarrow> 0 | n # _ \<Rightarrow> n)" "plist_ok pol h' l (tl ns)" by auto
qed

text \<open>The lists \<open>swap\<close> exists for.\<close>

lemma pseg_rehead:
  assumes "pseg h (PFirst l) ns 0" "distinct ns" "m_first h' k = m_first h l" "p_next h' = p_next h"
    and "\<And>n. n \<in> set ns \<Longrightarrow> p_prev h' n = (if n = hd ns then PFirst k else p_prev h n)"
  shows "pseg h' (PFirst k) ns 0"
proof (cases ns)
  case (Cons m ms)
  have "pseg h' (PNext m) ms 0 = pseg h (PNext m) ms 0"
    by (rule pseg_cong) (use assms in \<open>auto simp: Cons\<close>)
  then show ?thesis using assms Cons by auto
qed (use assms in simp)

lemma pl_swap_correct:
  assumes okl: "plist_ok pol h l ns" and okr: "plist_ok pol h r ms" and ne: "l \<noteq> r"
    and disj: "set ns \<inter> set ms = {}" and pol: "\<not> fast_push_back pol"
  shows "plist_ok pol (pl_swap pol l r h) l ms" "plist_ok pol (pl_swap pol l r h) r ns"
proof -
  let ?h = "pl_swap pol l r h"
  have first: "m_first h l = (case ns of [] \<Rightarrow> 0 | n # _ \<Rightarrow> n)" "m_first h r = (case ms of [] \<Rightarrow> 0 | n # _ \<Rightarrow> n)"
    using pl_first okl okr by blast+
  have nz: "n \<noteq> 0" if "n \<in> set ns \<union> set ms" for n
    using that okl okr pseg_nonzero by (auto simp: plist_ok_def)
  have h': "p_next ?h = p_next h" "m_first ?h l = m_first h r" "m_first ?h r = m_first h l"
    "counts pol \<Longrightarrow> m_counter ?h l = m_counter h r" "counts pol \<Longrightarrow> m_counter ?h r = m_counter h l"
    "p_prev ?h n = (if n = m_first h l \<and> m_first h l \<noteq> 0 then PFirst r
       else if n = m_first h r \<and> m_first h r \<noteq> 0 then PFirst l else p_prev h n)" for n
    using pol ne by (auto simp: pl_swap_def Let_def pl_swap_last_def pl_set_last_def pl_swap_counter_def)
  have "pseg ?h (PFirst l) ms 0"
    by (rule pseg_rehead [of h r]) (use okr disj nz in \<open>auto simp: plist_ok_def h' first split: list.splits\<close>)
  then show "plist_ok pol ?h l ms" using okr pol by (auto simp: plist_ok_def h')
  have "pseg ?h (PFirst r) ns 0"
    by (rule pseg_rehead [of h l]) (use okl disj nz in \<open>auto simp: plist_ok_def h' first split: list.splits\<close>)
  then show "plist_ok pol ?h r ns" using okl pol by (auto simp: plist_ok_def h')
qed

subsection \<open>Walking\<close>

definition pi_at :: "policy \<Rightarrow> pheap \<Rightarrow> piter \<Rightarrow> nat \<Rightarrow> nat list \<Rightarrow> nat list \<Rightarrow> bool" where
  "pi_at pol h it l xs ys \<longleftrightarrow> plist_ok pol h l (xs @ ys) \<and> pi_list it = l \<and>
     pi_current it = (case ys of [] \<Rightarrow> 0 | y # _ \<Rightarrow> y)"

lemma pi_at_init: "plist_ok pol h l ns \<Longrightarrow> pi_at pol h (pi_init l h) l [] ns"
  using pl_first by (auto simp: pi_at_def pi_init_def)

lemma pi_post_inc_correct:
  assumes at: "pi_at pol h it l xs ys" and run: "pi_post_inc it h = (a, it')"
  shows "a = (case ys of [] \<Rightarrow> 0 | y # _ \<Rightarrow> y)" "pi_at pol h it' l (xs @ take 1 ys) (drop 1 ys)"
proof -
  have "a = (case ys of [] \<Rightarrow> 0 | y # _ \<Rightarrow> y) \<and> pi_at pol h it' l (xs @ take 1 ys) (drop 1 ys)"
  proof (cases ys)
    case (Cons y zs)
    have seg: "pseg h (PNext y) zs 0" "y \<noteq> 0" using at by (auto simp: pi_at_def plist_ok_def pseg_append Cons)
    have "p_next h y = (case zs of [] \<Rightarrow> 0 | z # _ \<Rightarrow> z)" using seg(1) by (cases zs) auto
    then show ?thesis using at run seg(2) by (auto simp: pi_post_inc_def Let_def pi_at_def Cons)
  qed (use at run in \<open>auto simp: pi_post_inc_def Let_def pi_at_def\<close>)
  then show "a = (case ys of [] \<Rightarrow> 0 | y # _ \<Rightarrow> y)" "pi_at pol h it' l (xs @ take 1 ys) (drop 1 ys)" by auto
qed

text \<open>The element just answered may be removed: the iterator already refers to the next one.\<close>

lemma pi_remove_while_walking:
  assumes at: "pi_at pol h it l xs (y # ys)" and run: "pi_post_inc it h = (a, it')"
  shows "pi_at pol (pl_remove pol l a h) it' l xs ys"
proof -
  have "a = y" "pi_at pol h it' l (xs @ [y]) ys" using pi_post_inc_correct [OF at run] by auto
  moreover have "plist_ok pol h l (xs @ y # ys)" using at by (simp add: pi_at_def)
  ultimately show ?thesis using pl_remove_correct [of pol h l xs y ys] by (simp add: pi_at_def)
qed

subsection \<open>Properties\<close>

text \<open>
  \<open>I_P_List\<close>, under every counter and push-back policy: \<open>push_front\<close>, \<open>insert_after\<close> and
  \<open>remove\<close> put an element first, behind a given one, or take it out from anywhere, keep the
  counter, and an element removed right after the iterator returned it does not disturb the walk;
  \<open>push_back\<close> works under the fast policy.
\<close>

lemma policy_list_correct:
  assumes "plist_ok pol h l (xs @ p # ys)" "a \<notin> insert 0 (set (xs @ p # ys))"
  shows "plist_ok pol (pl_push_front pol l a h) l (a # xs @ p # ys) \<and>
    plist_ok pol (pl_insert_after pol l p a h) l (xs @ p # a # ys) \<and>
    plist_ok pol (pl_remove pol l p h) l (xs @ ys) \<and>
    (counts pol \<longrightarrow> pl_elements l (pl_remove pol l p h) = of_nat (length xs + length ys)) \<and>
    (fast_push_back pol \<longrightarrow> (\<exists>h'. pl_push_back pol l a h = Some h' \<and> plist_ok pol h' l (xs @ p # ys @ [a]))) \<and>
    (\<forall>it. pi_at pol h it l xs (p # ys) \<longrightarrow> (case pi_post_inc it h of (b, it') \<Rightarrow>
       b = p \<and> pi_at pol (pl_remove pol l b h) it' l xs ys))"
proof (intro conjI allI impI)
  show r: "plist_ok pol (pl_remove pol l p h) l (xs @ ys)" by (rule pl_remove_correct [OF assms(1)])
  show "pl_elements l (pl_remove pol l p h) = of_nat (length xs + length ys)" if "counts pol"
    using pl_elements_correct [OF r that] by simp
  show "\<exists>h'. pl_push_back pol l a h = Some h' \<and> plist_ok pol h' l (xs @ p # ys @ [a])" if "fast_push_back pol"
    using pl_push_back_correct [OF assms that] by simp
  show "case pi_post_inc it h of (b, it') \<Rightarrow> b = p \<and> pi_at pol (pl_remove pol l b h) it' l xs ys"
    if "pi_at pol h it l xs (p # ys)" for it
    using pi_post_inc_correct(1) [OF that] pi_remove_while_walking [OF that] by (cases "pi_post_inc it h") auto
qed (use pl_push_front_correct [OF assms] pl_insert_after_correct [OF assms] in simp_all)

definition sample_plist :: pheap where
  "sample_plist = pl_push_front \<lparr>counts = True, fast_push_back = True\<rparr> 1 10
     (pl_push_front \<lparr>counts = True, fast_push_back = True\<rparr> 1 11
       (pl_init \<lparr>counts = True, fast_push_back = True\<rparr> 1
         \<lparr>p_next = \<lambda>_. 0, p_prev = \<lambda>_. ploc.PFirst 0, m_first = \<lambda>_. 0, m_last = \<lambda>_. ploc.PFirst 0, m_counter = \<lambda>_. 0\<rparr>))"

lemma policy_list_correct_witness:
  "plist_ok \<lparr>counts = True, fast_push_back = True\<rparr> (pl_remove \<lparr>counts = True, fast_push_back = True\<rparr> 1 10 sample_plist) 1 [11] \<and>
   pl_elements 1 (pl_remove \<lparr>counts = True, fast_push_back = True\<rparr> 1 10 sample_plist) = 1"
proof -
  have "plist_ok \<lparr>counts = True, fast_push_back = True\<rparr> sample_plist 1 ([] @ 10 # [11])"
    using pl_push_front_correct [OF pl_push_front_correct [OF pl_init_correct(1)]] unfolding sample_plist_def by simp
  from policy_list_correct [OF this, of 30] show ?thesis by simp
qed

end
