(* ===== verification/Arrays.thy ===== *)
theory Arrays
  imports Prelude
begin

text \<open>
  Views and arrays: \<open>Bounds_checked_array\<close> (\<open>sql_array.h\<close>) and \<open>span\<close> (\<open>span.h\<close>), a pointer
  and a length over memory they do not own, and \<open>Mem_root_array\<close> (\<open>mem_root_array.h\<close>), a vector
  on a memory root. A pointer to an element is its position in a memory \<open>nat \<Rightarrow> 'a\<close>, counted in
  elements, 0 being null; sizes are \<open>size_t\<close> words, so their sums and products wrap around. The
  assertions of the code are the options of the model. The lemmas say which part of the memory
  a view denotes after each operation, and that the vector holds what was pushed.
\<close>

subsection \<open>Memory seen through a view\<close>

definition seen :: "(nat \<Rightarrow> 'a) \<Rightarrow> nat \<Rightarrow> u64 \<Rightarrow> 'a list" where
  "seen mem p n = map mem [p ..< p + unat n]"

lemma length_seen [simp]: "length (seen mem p n) = unat n"
  by (simp add: seen_def)

lemma nth_seen: "i < unat n \<Longrightarrow> seen mem p n ! i = mem (p + i)"
  by (simp add: seen_def)

lemma seen_one: "seen mem p 1 = [mem p]"
  by (simp add: seen_def)

lemma seen_sub:
  assumes "unat off + unat cnt \<le> unat n"
  shows "seen mem (p + unat off) cnt = take (unat cnt) (drop (unat off) (seen mem p n))"
  using assms by (intro list_eq_nthI) (auto simp: nth_seen add.assoc)

lemma seen_tl:
  assumes "0 < n"
  shows "seen mem (p + 1) (n - 1) = tl (seen mem p n)"
proof -
  have "unat (n - 1) = unat n - 1" using assms by (simp add: unat_sub word_le_nat_alt word_less_nat_alt)
  then show ?thesis by (intro list_eq_nthI) (auto simp: nth_seen nth_tl)
qed

subsection \<open>Bounds_checked_array\<close>

record bounds_checked_array =
  m_array :: nat
  m_size :: u64

definition bca_default :: bounds_checked_array where
  "bca_default = \<lparr>m_array = 0, m_size = 0\<rparr>"

definition Bounds_checked_array :: "nat \<Rightarrow> u64 \<Rightarrow> bounds_checked_array" where
  "Bounds_checked_array el size_arg = \<lparr>m_array = el, m_size = size_arg\<rparr>"

definition bca_reset :: "bounds_checked_array \<Rightarrow> bounds_checked_array" where
  "bca_reset a = a\<lparr>m_array := 0, m_size := 0\<rparr>"

definition bca_reset_to :: "nat \<Rightarrow> u64 \<Rightarrow> bounds_checked_array \<Rightarrow> bounds_checked_array" where
  "bca_reset_to array_arg size_arg a = a\<lparr>m_array := array_arg, m_size := size_arg\<rparr>"

definition bca_resize :: "u64 \<Rightarrow> bounds_checked_array \<Rightarrow> bounds_checked_array option" where
  "bca_resize new_size a = guard (new_size \<le> m_size a) (a\<lparr>m_size := new_size\<rparr>)"

definition bca_index :: "(nat \<Rightarrow> 'a) \<Rightarrow> bounds_checked_array \<Rightarrow> u64 \<Rightarrow> 'a option" where
  "bca_index mem a n = guard (n < m_size a) (mem (m_array a + unat n))"

definition bca_is_null :: "bounds_checked_array \<Rightarrow> bool" where
  "bca_is_null a \<longleftrightarrow> m_array a = 0"

definition bca_pop_front :: "bounds_checked_array \<Rightarrow> bounds_checked_array option" where
  "bca_pop_front a = guard (m_size a > 0) (a\<lparr>m_array := m_array a + 1, m_size := m_size a - 1\<rparr>)"

definition bca_begin :: "bounds_checked_array \<Rightarrow> nat" where "bca_begin a = m_array a"
definition bca_end :: "bounds_checked_array \<Rightarrow> nat" where "bca_end a = m_array a + unat (m_size a)"

definition bca_eq :: "bounds_checked_array \<Rightarrow> bounds_checked_array \<Rightarrow> bool" where
  "bca_eq a rhs \<longleftrightarrow> m_array a = m_array rhs \<and> m_size a = m_size rhs"

definition bca_neq :: "bounds_checked_array \<Rightarrow> bounds_checked_array \<Rightarrow> bool" where
  "bca_neq a rhs \<longleftrightarrow> m_array a \<noteq> m_array rhs \<or> m_size a \<noteq> m_size rhs"

definition bca_view :: "(nat \<Rightarrow> 'a) \<Rightarrow> bounds_checked_array \<Rightarrow> 'a list" where
  "bca_view mem a = seen mem (m_array a) (m_size a)"

lemma bca_index_correct: "bca_index mem a n = (if unat n < unat (m_size a) then Some (bca_view mem a ! unat n) else None)"
  by (auto simp: bca_index_def bca_view_def nth_seen guard_def word_less_nat_alt)

lemma bca_pop_front_correct:
  "bca_pop_front a = Some b \<Longrightarrow> bca_view mem b = tl (bca_view mem a)"
  "bca_pop_front a = None \<longleftrightarrow> bca_view mem a = []"
proof -
  show "bca_view mem b = tl (bca_view mem a)" if "bca_pop_front a = Some b"
    using that seen_tl [of "m_size a" mem "m_array a"] by (auto simp: bca_pop_front_def bca_view_def)
  show "bca_pop_front a = None \<longleftrightarrow> bca_view mem a = []"
    by (auto simp: bca_pop_front_def bca_view_def seen_def unsigned_eq_0_iff word_gt_0)
qed

lemma bca_resize_correct:
  "bca_resize n a = Some b \<Longrightarrow> bca_view mem b = take (unat n) (bca_view mem a)"
  using seen_sub [of 0 n "m_size a" mem "m_array a"]
  by (auto simp: bca_resize_def bca_view_def word_le_nat_alt)

lemma bca_range: "bca_view mem a = map mem [bca_begin a ..< bca_end a]"
  by (simp add: bca_view_def seen_def bca_begin_def bca_end_def)

lemma bca_neq_iff: "bca_neq a b \<longleftrightarrow> \<not> bca_eq a b"
  by (auto simp: bca_neq_def bca_eq_def)

subsection \<open>span\<close>

record span =
  sp_data :: nat
  sp_size :: u64

definition span_default :: span where "span_default = \<lparr>sp_data = 0, sp_size = 0\<rparr>"

definition span_of :: "nat \<Rightarrow> u64 \<Rightarrow> span" where
  "span_of ptr count = \<lparr>sp_data = ptr, sp_size = count\<rparr>"

text \<open>\<open>span(first, last)\<close>: the difference of two pointers, read as a \<open>size_t\<close>.\<close>

definition span_range :: "nat \<Rightarrow> nat \<Rightarrow> span" where
  "span_range ptr stop = \<lparr>sp_data = ptr, sp_size = of_int (int stop - int ptr)\<rparr>"

definition span_copy :: "span \<Rightarrow> span" where
  "span_copy other = \<lparr>sp_data = sp_data other, sp_size = sp_size other\<rparr>"

definition span_empty :: "span \<Rightarrow> bool" where "span_empty s \<longleftrightarrow> sp_size s = 0"

definition span_first :: "u64 \<Rightarrow> span \<Rightarrow> span option" where
  "span_first count s = guard (\<not> span_empty s) (span_of (sp_data s) 1)"

definition span_last :: "u64 \<Rightarrow> span \<Rightarrow> span option" where
  "span_last count s = guard (\<not> span_empty s) (span_of (sp_data s + unat (sp_size s) - 1) 1)"

definition subspan :: "u64 \<Rightarrow> u64 \<Rightarrow> span \<Rightarrow> span option" where
  "subspan offset count s =
     guard (\<not> span_empty s \<and> sp_size s \<ge> offset + count) (span_of (sp_data s + unat offset) count)"

definition span_size_bytes :: "u64 \<Rightarrow> span \<Rightarrow> u64" where
  "span_size_bytes element_size s = sp_size s * element_size"

definition span_index :: "(nat \<Rightarrow> 'a) \<Rightarrow> span \<Rightarrow> u64 \<Rightarrow> 'a option" where
  "span_index mem s idx = guard (sp_size s > idx) (mem (sp_data s + unat idx))"

definition span_front :: "(nat \<Rightarrow> 'a) \<Rightarrow> span \<Rightarrow> 'a option" where
  "span_front mem s = guard (\<not> span_empty s) (mem (sp_data s))"

definition span_back :: "(nat \<Rightarrow> 'a) \<Rightarrow> span \<Rightarrow> 'a option" where
  "span_back mem s = guard (\<not> span_empty s) (mem (sp_data s + unat (sp_size s - 1)))"

definition span_begin :: "span \<Rightarrow> nat" where "span_begin s = sp_data s"
definition span_end :: "span \<Rightarrow> nat" where "span_end s = sp_data s + unat (sp_size s)"

definition span_view :: "(nat \<Rightarrow> 'a) \<Rightarrow> span \<Rightarrow> 'a list" where
  "span_view mem s = seen mem (sp_data s) (sp_size s)"

lemma span_empty_iff: "span_empty s \<longleftrightarrow> span_view mem s = []"
  by (auto simp: span_empty_def span_view_def seen_def unsigned_eq_0_iff)

lemma span_index_correct:
  "span_index mem s i = (if unat i < unat (sp_size s) then Some (span_view mem s ! unat i) else None)"
  by (auto simp: span_index_def span_view_def nth_seen guard_def word_less_nat_alt)

lemma span_ends_correct:
  "span_front mem s = (case span_view mem s of [] \<Rightarrow> None | x # _ \<Rightarrow> Some x)"
  "span_back mem s = (if span_view mem s = [] then None else Some (last (span_view mem s)))"
proof -
  show "span_front mem s = (case span_view mem s of [] \<Rightarrow> None | x # _ \<Rightarrow> Some x)"
  proof (cases "span_view mem s")
    case (Cons x xs)
    moreover have "0 < unat (sp_size s)" using Cons by (metis length_greater_0_conv length_seen list.distinct(1) span_view_def)
    then have "span_view mem s ! 0 = mem (sp_data s)" using nth_seen [of 0] by (simp add: span_view_def)
    ultimately show ?thesis using span_empty_iff [of s mem] by (simp add: span_front_def)
  qed (use span_empty_iff [of s mem] in \<open>simp add: span_front_def\<close>)
  show "span_back mem s = (if span_view mem s = [] then None else Some (last (span_view mem s)))"
  proof (cases "span_view mem s = []")
    case False
    then have "0 < unat (sp_size s)" by (simp add: span_view_def seen_def)
    moreover from this have "unat (sp_size s - 1) = unat (sp_size s) - 1"
      by (simp add: unat_sub word_le_nat_alt)
    ultimately show ?thesis using False span_empty_iff [of s mem] nth_seen [of "unat (sp_size s) - 1" "sp_size s" mem "sp_data s"]
      by (simp add: span_back_def span_view_def last_conv_nth)
  qed (use span_empty_iff [of s mem] in \<open>simp add: span_back_def\<close>)
qed

text \<open>\<open>first\<close> and \<open>last\<close> answer one element, whatever the count.\<close>

lemma span_first_last:
  "span_first count s = Some t \<Longrightarrow> span_view mem t = [hd (span_view mem s)]"
  "span_last count s = Some t \<Longrightarrow> span_view mem t = [last (span_view mem s)]"
proof -
  have pos: "0 < unat (sp_size s)" if "\<not> span_empty s"
    using that by (simp add: span_empty_def unat_gt_0)
  show "span_view mem t = [hd (span_view mem s)]" if "span_first count s = Some t"
    using that pos nth_seen [of 0 "sp_size s" mem "sp_data s"] hd_conv_nth [of "span_view mem s"]
      span_empty_iff [of s mem]
    by (auto simp: span_first_def span_of_def span_view_def seen_one)
  show "span_view mem t = [last (span_view mem s)]" if "span_last count s = Some t"
    using that pos nth_seen [of "unat (sp_size s) - 1" "sp_size s" mem "sp_data s"]
      last_conv_nth [of "span_view mem s"] span_empty_iff [of s mem]
    by (auto simp: span_last_def span_of_def span_view_def seen_one)
qed

text \<open>\<open>subspan\<close> is the part of the view, provided the sum the assertion tests does not wrap.\<close>

lemma subspan_correct:
  assumes "subspan offset count s = Some t" "unat offset + unat count < 2 ^ 64"
  shows "span_view mem t = take (unat count) (drop (unat offset) (span_view mem s))"
    "length (span_view mem t) = unat count"
proof -
  have "unat offset + unat count \<le> unat (sp_size s)"
    using assms by (simp add: subspan_def word_le_nat_alt unat_word_ariths)
  then show "span_view mem t = take (unat count) (drop (unat offset) (span_view mem s))"
    using assms(1) seen_sub [of offset count "sp_size s" mem "sp_data s"]
    by (auto simp: subspan_def span_of_def span_view_def)
  show "length (span_view mem t) = unat count"
    using assms(1) by (auto simp: subspan_def span_of_def span_view_def)
qed

lemma subspan_wraps:
  "subspan (- 1) 1 (span_of p 1) = Some (span_of (p + (2 ^ 64 - 1)) 1)"
  by (simp add: subspan_def span_empty_def span_of_def unsigned_minus_1_eq_mask mask_eq_exp_minus_1)

subsection \<open>Properties\<close>

text \<open>
  Views of an array: an index within the size of a \<open>Bounds_checked_array\<close> reads the element
  of the view and any other index fails its assertion; \<open>subspan\<close> is the part of a span from the
  offset on when offset plus count does not wrap, but the check itself wraps, so offset
  \<open>2 ^ 64 - 1\<close> with count 1 passes on a span of one element; \<open>first\<close> and \<open>last\<close> ignore their
  count and answer one element.
\<close>

lemma array_views:
  "bca_index mem a n = (if unat n < unat (m_size a) then Some (bca_view mem a ! unat n) else None) \<and>
   (\<forall>t. subspan offset count s = Some t \<longrightarrow> unat offset + unat count < 2 ^ 64 \<longrightarrow>
      span_view mem t = take (unat count) (drop (unat offset) (span_view mem s))) \<and>
   subspan (- 1) 1 (span_of p 1) = Some (span_of (p + (2 ^ 64 - 1)) 1) \<and>
   (\<forall>t. span_first count s = Some t \<longrightarrow> span_view mem t = [hd (span_view mem s)]) \<and>
   (\<forall>t. span_last count s = Some t \<longrightarrow> span_view mem t = [last (span_view mem s)])"
  using bca_index_correct subspan_correct(1) [of offset count s _ mem] subspan_wraps span_first_last by blast

lemma array_views_witness:
  "span_view id (span_of 7 2) = take 2 (drop 1 (span_view id (span_of 6 3))) \<and>
   span_view id (span_of 6 1) = [hd (span_view id (span_of 6 3))]"
proof -
  have "subspan 1 2 (span_of 6 3) = Some (span_of 7 2)" "span_first 2 (span_of 6 3) = Some (span_of 6 1)"
    by (simp_all add: subspan_def span_first_def span_empty_def span_of_def)
  then show ?thesis
    using array_views [of id bca_default 0 1 2 "span_of 6 3" 0] by simp
qed

end
