(* ===== verification/Mem_Root_Array.thy ===== *)
theory Mem_Root_Array
  imports Prelude
begin

text \<open>
  \<open>Mem_root_array\<close> of \<open>mem_root_array.h\<close>: a vector whose storage comes from a memory root. The
  allocator \<open>alloc_root\<close> is not part of the headers and is an argument: from the root's state
  and a number of bytes it answers whether it succeeded, and its new state. The elements
  constructed in the storage are a list; \<open>ra_block\<close> is the number of bytes of the storage and
  \<open>ra_destroyed\<close> the elements whose destructor ran. \<open>es\<close> is \<open>sizeof(Element_type)\<close> and
  \<open>triv\<close> the parameter \<open>has_trivial_destructor\<close>.
\<close>

type_synonym 'm allocator = "'m \<Rightarrow> u64 \<Rightarrow> bool \<times> 'm"

record ('a, 'm) root_array =
  ra_root :: 'm
  ra_array :: "'a list"
  ra_size :: u64
  ra_capacity :: u64
  ra_block :: u64
  ra_destroyed :: "'a list"

subsection \<open>The operations\<close>

definition ra_init :: "'m \<Rightarrow> ('a, 'm) root_array" where
  "ra_init root = \<lparr>ra_root = root, ra_array = [], ra_size = 0, ra_capacity = 0, ra_block = 0, ra_destroyed = []\<rparr>"

definition ra_at :: "u64 \<Rightarrow> ('a, 'm) root_array \<Rightarrow> 'a option" where
  "ra_at n a = guard (n < ra_size a) (ra_array a ! unat n)"

definition ra_empty :: "('a, 'm) root_array \<Rightarrow> bool" where "ra_empty a \<longleftrightarrow> ra_size a = 0"

definition ra_back :: "('a, 'm) root_array \<Rightarrow> 'a option" where "ra_back a = ra_at (ra_size a - 1) a"

definition ra_chop :: "bool \<Rightarrow> u64 \<Rightarrow> ('a, 'm) root_array \<Rightarrow> ('a, 'm) root_array option" where
  "ra_chop triv pos a =
     guard (pos < ra_size a)
       (a\<lparr>ra_destroyed := ra_destroyed a @ (if triv then [] else drop (unat pos) (ra_array a)),
          ra_array := take (unat pos) (ra_array a), ra_size := pos\<rparr>)"

definition ra_clear :: "bool \<Rightarrow> ('a, 'm) root_array \<Rightarrow> ('a, 'm) root_array option" where
  "ra_clear triv a = (if \<not> ra_empty a then ra_chop triv 0 a else Some a)"

definition ra_reserve ::
  "'m allocator \<Rightarrow> u64 \<Rightarrow> bool \<Rightarrow> u64 \<Rightarrow> ('a, 'm) root_array \<Rightarrow> bool \<times> ('a, 'm) root_array" where
  "ra_reserve alloc es triv n a =
     (if n \<le> ra_capacity a then (False, a)
      else (let (mem, root) = alloc (ra_root a) (n * es); a = a\<lparr>ra_root := root\<rparr>
            in if \<not> mem then (True, a)
               else (False, a\<lparr>ra_destroyed := ra_destroyed a @ (if triv then [] else ra_array a),
                       ra_block := n * es, ra_capacity := n\<rparr>)))"

definition ra_push_back ::
  "'m allocator \<Rightarrow> u64 \<Rightarrow> bool \<Rightarrow> 'a \<Rightarrow> ('a, 'm) root_array \<Rightarrow> bool \<times> ('a, 'm) root_array" where
  "ra_push_back alloc es triv element a =
     (let (failed, a) = (if 0 = ra_capacity a then ra_reserve alloc es triv 20 a else (False, a))
      in if failed then (True, a)
         else (let (failed, a) = (if ra_size a = ra_capacity a
                                  then ra_reserve alloc es triv (ra_capacity a * 2) a else (False, a))
               in if failed then (True, a)
                  else (False, a\<lparr>ra_array := ra_array a @ [element], ra_size := ra_size a + 1\<rparr>)))"

definition ra_pop_back :: "bool \<Rightarrow> ('a, 'm) root_array \<Rightarrow> ('a, 'm) root_array option" where
  "ra_pop_back triv a =
     guard (\<not> ra_empty a)
       (a\<lparr>ra_destroyed := ra_destroyed a @ (if triv then [] else [last (ra_array a)]),
          ra_array := butlast (ra_array a), ra_size := ra_size a - 1\<rparr>)"

text \<open>The two loops of \<open>resize\<close>; the answer of \<open>push_back\<close> is not looked at.\<close>

partial_function (option) ra_grow ::
  "'m allocator \<Rightarrow> u64 \<Rightarrow> bool \<Rightarrow> u64 \<Rightarrow> 'a \<Rightarrow> ('a, 'm) root_array \<Rightarrow> ('a, 'm) root_array option" where
  "ra_grow alloc es triv n val a =
     (if n \<noteq> ra_size a then ra_grow alloc es triv n val (snd (ra_push_back alloc es triv val a)) else Some a)"

partial_function (option) ra_shrink :: "bool \<Rightarrow> u64 \<Rightarrow> ('a, 'm) root_array \<Rightarrow> ('a, 'm) root_array option" where
  "ra_shrink triv n a =
     (if n \<noteq> ra_size a then Option.bind (ra_pop_back triv a) (ra_shrink triv n) else Some a)"

definition ra_resize ::
  "'m allocator \<Rightarrow> u64 \<Rightarrow> bool \<Rightarrow> u64 \<Rightarrow> 'a \<Rightarrow> ('a, 'm) root_array \<Rightarrow> ('a, 'm) root_array option" where
  "ra_resize alloc es triv n val a =
     (if n = ra_size a then Some a
      else if n > ra_size a
      then (let (failed, a) = ra_reserve alloc es triv n a
            in if \<not> failed then ra_grow alloc es triv n val a else Some a)
      else if \<not> triv then ra_shrink triv n a
      else Some (a\<lparr>ra_array := take (unat n) (ra_array a), ra_size := n\<rparr>))"

definition ra_new ::
  "'m allocator \<Rightarrow> u64 \<Rightarrow> bool \<Rightarrow> 'm \<Rightarrow> u64 \<Rightarrow> 'a \<Rightarrow> ('a, 'm) root_array option" where
  "ra_new alloc es triv root n val = ra_resize alloc es triv n val (ra_init root)"

subsection \<open>The invariant\<close>

text \<open>The storage is large enough for the capacity, and the capacity for the elements.\<close>

definition ra_ok :: "u64 \<Rightarrow> ('a, 'm) root_array \<Rightarrow> bool" where
  "ra_ok es a \<longleftrightarrow> length (ra_array a) = unat (ra_size a) \<and> ra_size a \<le> ra_capacity a \<and>
     unat (ra_capacity a) * unat es \<le> unat (ra_block a)"

lemma ra_init_ok: "ra_ok es (ra_init root)"
  by (simp add: ra_ok_def ra_init_def)

lemma ra_at_correct: "ra_ok es a \<Longrightarrow> ra_at n a = (if unat n < length (ra_array a) then Some (ra_array a ! unat n) else None)"
  by (simp add: ra_at_def ra_ok_def guard_def word_less_nat_alt)

lemma ra_back_correct:
  assumes "ra_ok es a" "ra_array a \<noteq> []"
  shows "ra_back a = Some (last (ra_array a))"
proof -
  have len: "unat (ra_size a) = length (ra_array a)" using assms(1) by (simp add: ra_ok_def)
  have "1 \<le> length (ra_array a)" using assms(2) by (cases "ra_array a") auto
  then have "unat (ra_size a - 1) = length (ra_array a) - 1"
    using len by (simp add: unat_sub word_le_nat_alt)
  with len show ?thesis using assms ra_at_correct [OF assms(1)]
    by (simp add: ra_back_def last_conv_nth)
qed

lemma ra_chop_correct:
  assumes "ra_ok es a" "ra_chop triv pos a = Some b"
  shows "ra_ok es b" "ra_array b = take (unat pos) (ra_array a)"
    "\<not> triv \<Longrightarrow> ra_destroyed b = ra_destroyed a @ drop (unat pos) (ra_array a)"
  using assms by (auto simp: ra_chop_def ra_ok_def word_less_nat_alt word_le_nat_alt)

lemma ra_clear_correct:
  assumes "ra_ok es a"
  shows "\<exists>b. ra_clear triv a = Some b \<and> ra_ok es b \<and> ra_array b = [] \<and> ra_size b = 0"
  using assms by (auto simp: ra_clear_def ra_chop_def ra_ok_def ra_empty_def word_gt_0 guard_def)

lemma ra_pop_back_correct:
  assumes "ra_ok es a"
  shows "ra_pop_back triv a = None \<longleftrightarrow> ra_array a = []"
    "ra_pop_back triv a = Some b \<Longrightarrow> ra_ok es b \<and> ra_array b = butlast (ra_array a) \<and>
       ra_destroyed b = ra_destroyed a @ (if triv then [] else [last (ra_array a)])"
proof -
  have size: "unat (ra_size a) = length (ra_array a)" using assms by (simp add: ra_ok_def)
  then have z: "ra_size a = 0 \<longleftrightarrow> ra_array a = []" by (metis length_0_conv unat_0 unsigned_eq_0_iff)
  show "ra_pop_back triv a = None \<longleftrightarrow> ra_array a = []"
    by (simp add: ra_pop_back_def ra_empty_def z)
  have "unat (ra_size a - 1) = unat (ra_size a) - 1" if "ra_array a \<noteq> []"
    using that size by (cases "ra_array a") (auto simp: unat_sub word_le_nat_alt)
  then show "ra_pop_back triv a = Some b \<Longrightarrow> ra_ok es b \<and> ra_array b = butlast (ra_array a) \<and>
       ra_destroyed b = ra_destroyed a @ (if triv then [] else [last (ra_array a)])"
    using assms by (auto simp: ra_pop_back_def ra_empty_def z ra_ok_def word_le_nat_alt)
qed

text \<open>\<open>reserve\<close>, when the size of the new storage fits a \<open>size_t\<close>, and when it does not.\<close>

lemma ra_reserve_correct:
  assumes ok: "ra_ok es a" and fits: "unat n * unat es < 2 ^ 64"
    and run: "ra_reserve alloc es triv n a = (failed, b)"
  shows "ra_ok es b" "ra_array b = ra_array a" "ra_size b = ra_size a" "\<not> failed \<Longrightarrow> n \<le> ra_capacity b"
    "ra_capacity b = (if failed then ra_capacity a else max n (ra_capacity a))"
proof -
  have "unat (n * es) = unat n * unat es" using fits by (simp add: unat_word_ariths)
  then show "ra_ok es b" "ra_array b = ra_array a" "ra_size b = ra_size a" "\<not> failed \<Longrightarrow> n \<le> ra_capacity b"
    "ra_capacity b = (if failed then ra_capacity a else max n (ra_capacity a))"
    using ok run by (auto simp: ra_reserve_def ra_ok_def max_def Let_def split: if_splits prod.splits)
qed

lemma ra_reserve_overflow:
  assumes "ra_reserve alloc es triv n a = (False, b)" "\<not> n \<le> ra_capacity a" "2 ^ 64 \<le> unat n * unat es"
  shows "unat (ra_block b) < unat (ra_capacity b) * unat es"
proof -
  have "ra_block b = n * es" "ra_capacity b = n"
    using assms(1,2) by (auto simp: ra_reserve_def Let_def split: if_splits prod.splits)
  moreover have "unat (n * es) < 2 ^ 64" using unat_bound [of "n * es"] by simp
  ultimately show ?thesis using assms(3) by simp
qed

text \<open>\<open>push_back\<close>: the capacity goes 20, 40, 80 and so on.\<close>

lemma ra_push_back_correct:
  assumes ok: "ra_ok es a"
    and fits: "2 * unat (ra_capacity a) * unat es < 2 ^ 64" "40 * unat es < 2 ^ 64" "unat (ra_capacity a) < 2 ^ 63"
    and run: "ra_push_back alloc es triv x a = (failed, b)"
  shows "ra_ok es b" "ra_array b = (if failed then ra_array a else ra_array a @ [x])"
    "\<not> failed \<Longrightarrow> ra_capacity b =
      (if ra_capacity a = 0 then 20 else if ra_size a = ra_capacity a then 2 * ra_capacity a else ra_capacity a)"
proof -
  obtain f1 a1 where r1: "(if 0 = ra_capacity a then ra_reserve alloc es triv 20 a else (False, a)) = (f1, a1)"
    by (cases "if 0 = ra_capacity a then ra_reserve alloc es triv 20 a else (False, a)")
  have a1: "ra_ok es a1" "ra_array a1 = ra_array a" "ra_size a1 = ra_size a"
    "\<not> f1 \<Longrightarrow> ra_capacity a1 = (if ra_capacity a = 0 then 20 else ra_capacity a)"
    using r1 ok fits(2) ra_reserve_correct [OF ok, of 20 alloc triv f1 a1]
    by (auto split: if_splits)
  obtain f2 a2 where r2: "(if ra_size a1 = ra_capacity a1 then ra_reserve alloc es triv (ra_capacity a1 * 2) a1 else (False, a1)) = (f2, a2)"
    by (cases "if ra_size a1 = ra_capacity a1 then ra_reserve alloc es triv (ra_capacity a1 * 2) a1 else (False, a1)")
  have res: "(failed, b) = (if f1 then (True, a1) else if f2 then (True, a2)
      else (False, a2\<lparr>ra_array := ra_array a2 @ [x], ra_size := ra_size a2 + 1\<rparr>))"
    using run unfolding ra_push_back_def r1 by (simp add: r2 Let_def split: if_splits)
  have dbl: "unat (ra_capacity a1 * 2) = 2 * unat (ra_capacity a1)"
    and dfit: "unat (ra_capacity a1 * 2) * unat es < 2 ^ 64" if "\<not> f1"
    using that a1(4) fits by (auto simp: unat_word_ariths split: if_splits)
  have a2: "ra_ok es a2" "ra_array a2 = ra_array a1" "ra_size a2 = ra_size a1"
    "\<not> f2 \<Longrightarrow> ra_capacity a2 = (if ra_size a1 = ra_capacity a1 then max (ra_capacity a1 * 2) (ra_capacity a1) else ra_capacity a1)"
    if "\<not> f1"
    using r2 a1(1) ra_reserve_correct [OF a1(1) dfit [OF that], of alloc triv f2 a2]
    by (auto split: if_splits)
  show "ra_array b = (if failed then ra_array a else ra_array a @ [x])"
    using res a1 a2 by (auto split: if_splits)
  have cap: "ra_capacity a2 = (if ra_capacity a = 0 then 20 else if ra_size a = ra_capacity a then 2 * ra_capacity a else ra_capacity a)"
    if "\<not> f1" "\<not> f2"
  proof -
    have "max (ra_capacity a1 * 2) (ra_capacity a1) = ra_capacity a1 * 2"
      using dbl [OF that(1)] by (simp add: max_def word_le_nat_alt unsigned_eq_0_iff)
    then show ?thesis using a2(4) [OF that] a1(3) a1(4) [OF that(1)] ok
      by (auto simp: ra_ok_def mult.commute split: if_splits)
  qed
  then show "\<not> failed \<Longrightarrow> ra_capacity b =
      (if ra_capacity a = 0 then 20 else if ra_size a = ra_capacity a then 2 * ra_capacity a else ra_capacity a)"
    using res by (auto split: if_splits)
  show "ra_ok es b"
  proof (cases "f1 \<or> f2")
    case True
    then show ?thesis using res a1(1) a2(1) by (auto split: if_splits)
  next
    case False
    have "ra_size a2 < ra_capacity a2"
      using cap False a2(3) a1(3) ok fits(3)
      by (auto simp: ra_ok_def word_less_nat_alt word_le_nat_alt unat_word_ariths word_unat_eq_iff)
    then have "unat (ra_size a2 + 1) = unat (ra_size a2) + 1" "ra_size a2 + 1 \<le> ra_capacity a2"
      using unat_bound [of "ra_capacity a2"] by (auto simp: word_less_nat_alt word_le_nat_alt unat_word_ariths)
    then show ?thesis using False res a2(1) by (auto simp: ra_ok_def)
  qed
qed

text \<open>\<open>resize\<close>: both loops end, and the contents are the prefix or the padded array.\<close>

lemma ra_grow_correct:
  assumes "ra_ok es a" "ra_size a \<le> n" "n \<le> ra_capacity a" "0 < n"
  shows "\<exists>b. ra_grow alloc es triv n val a = Some b \<and> ra_ok es b \<and> ra_size b = n \<and>
    ra_array b = ra_array a @ replicate (unat n - unat (ra_size a)) val"
  using assms
proof (induction "unat n - unat (ra_size a)" arbitrary: a)
  case 0
  then have "n = ra_size a" by (simp add: word_le_nat_alt word_unat_eq_iff)
  with 0 show ?case by (subst ra_grow.simps) simp
next
  case (Suc k)
  let ?b = "a\<lparr>ra_array := ra_array a @ [val], ra_size := ra_size a + 1\<rparr>"
  have less: "unat (ra_size a) < unat n" "unat n \<le> unat (ra_capacity a)"
    using Suc.hyps(2) Suc.prems by (auto simp: word_le_nat_alt)
  then have ne: "n \<noteq> ra_size a" "ra_capacity a \<noteq> 0" "ra_size a \<noteq> ra_capacity a" by auto
  have size: "unat (ra_size a + 1) = unat (ra_size a) + 1"
    using less unat_bound [of "ra_capacity a"] by (simp add: unat_word_ariths)
  have push: "snd (ra_push_back alloc es triv val a) = ?b"
    using ne by (simp add: ra_push_back_def)
  have b: "ra_ok es ?b" "ra_size ?b \<le> n" "n \<le> ra_capacity ?b"
    using Suc.prems less size by (auto simp: ra_ok_def word_le_nat_alt)
  have k: "k = unat n - unat (ra_size ?b)" using Suc.hyps(2) size by simp
  obtain c where "ra_grow alloc es triv n val ?b = Some c" "ra_ok es c" "ra_size c = n"
    "ra_array c = ra_array ?b @ replicate (unat n - unat (ra_size ?b)) val"
    using Suc.hyps(1) [OF k b Suc.prems(4)] by blast
  moreover have "unat n - unat (ra_size a) = Suc (unat n - unat (ra_size ?b))"
    using Suc.hyps(2) k by simp
  ultimately show ?case using ne push
    by (subst ra_grow.simps) simp
qed

lemma ra_shrink_correct:
  assumes "ra_ok es a" "n \<le> ra_size a"
  shows "\<exists>b. ra_shrink triv n a = Some b \<and> ra_ok es b \<and> ra_size b = n \<and>
    ra_array b = take (unat n) (ra_array a) \<and>
    (\<not> triv \<longrightarrow> ra_destroyed b = ra_destroyed a @ rev (drop (unat n) (ra_array a)))"
  using assms
proof (induction "unat (ra_size a) - unat n" arbitrary: a)
  case 0
  then have "n = ra_size a" by (simp add: word_le_nat_alt word_unat_eq_iff)
  with 0 show ?case by (subst ra_shrink.simps) (simp add: ra_ok_def)
next
  case (Suc k)
  have size: "length (ra_array a) = unat (ra_size a)" "unat n < unat (ra_size a)"
    using Suc.hyps(2) Suc.prems by (auto simp: ra_ok_def)
  then have ne: "n \<noteq> ra_size a" "ra_array a \<noteq> []" by auto
  then obtain b where run: "ra_pop_back triv a = Some b"
    using ra_pop_back_correct(1) [OF Suc.prems(1), of triv] by auto
  have b: "ra_ok es b" "ra_array b = butlast (ra_array a)"
    "ra_destroyed b = ra_destroyed a @ (if triv then [] else [last (ra_array a)])"
    using ra_pop_back_correct(2) [OF Suc.prems(1) run] by auto
  then have bs: "unat (ra_size b) = unat (ra_size a) - 1" using size by (simp add: ra_ok_def)
  have "k = unat (ra_size b) - unat n" "n \<le> ra_size b"
    using Suc.hyps(2) bs size by (auto simp: word_le_nat_alt)
  then obtain c where c: "ra_shrink triv n b = Some c" "ra_ok es c" "ra_size c = n"
    "ra_array c = take (unat n) (ra_array b)"
    "\<not> triv \<longrightarrow> ra_destroyed c = ra_destroyed b @ rev (drop (unat n) (ra_array b))"
    using Suc.hyps(1) [of b] b(1) by blast
  have split: "ra_array a = butlast (ra_array a) @ [last (ra_array a)]" using ne(2) by simp
  have "take (unat n) (ra_array a) = take (unat n) (butlast (ra_array a))"
    using size by (subst split) (simp del: append_butlast_last_id)
  moreover have "drop (unat n) (ra_array a) = drop (unat n) (butlast (ra_array a)) @ [last (ra_array a)]"
    using size by (subst split) (simp del: append_butlast_last_id)
  ultimately show ?case using ne run b c
    by (subst ra_shrink.simps) simp
qed

lemma ra_resize_correct:
  assumes ok: "ra_ok es a" and fits: "unat n * unat es < 2 ^ 64"
  shows "\<exists>b. ra_resize alloc es triv n val a = Some b \<and> ra_ok es b \<and>
    (if ra_size a < n \<and> fst (ra_reserve alloc es triv n a) then ra_array b = ra_array a
     else ra_array b = take (unat n) (ra_array a) @ replicate (unat n - unat (ra_size a)) val)"
proof -
  have len: "length (ra_array a) = unat (ra_size a)" using ok by (simp add: ra_ok_def)
  consider "n = ra_size a" | "ra_size a < n" | "n < ra_size a" by force
  then show ?thesis
  proof cases
    case 1
    then show ?thesis using ok len by (simp add: ra_resize_def)
  next
    case 2
    obtain failed b where run: "ra_reserve alloc es triv n a = (failed, b)"
      by (cases "ra_reserve alloc es triv n a")
    note res = ra_reserve_correct [OF ok fits run]
    show ?thesis
    proof (cases failed)
      case True
      then show ?thesis using 2 run res by (auto simp: ra_resize_def)
    next
      case False
      have "0 < n" using 2 by (simp add: word_less_nat_alt word_gt_0)
      then obtain c where "ra_grow alloc es triv n val b = Some c" "ra_ok es c"
        "ra_array c = ra_array b @ replicate (unat n - unat (ra_size b)) val"
        using ra_grow_correct [OF res(1), of n alloc triv val] res(3,4) False 2 by force
      then show ?thesis using 2 run res False len
        by (auto simp: ra_resize_def word_less_nat_alt)
    qed
  next
    case 3
    then have n: "\<not> ra_size a < n" "n \<noteq> ra_size a" "n \<le> ra_size a" "unat n - unat (ra_size a) = 0"
      by (auto simp: word_less_nat_alt word_le_nat_alt)
    show ?thesis
    proof (cases triv)
      case True
      then show ?thesis using n ok by (auto simp: ra_resize_def ra_ok_def word_le_nat_alt)
    next
      case False
      then show ?thesis using n ra_shrink_correct [OF ok n(3), of triv] by (auto simp: ra_resize_def)
    qed
  qed
qed

subsection \<open>Properties\<close>

text \<open>
  C38. \<open>Mem_root_array\<close>, while the byte counts stay below \<open>2 ^ 64\<close>: \<open>reserve\<close> keeps the elements
  and reaches the capacity or fails without effect on it, \<open>push_back\<close> appends, doubling a full
  capacity, and \<open>resize\<close> truncates or pads to the new length; the block is always large enough.
\<close>

theorem mem_root_array_correct:
  assumes "ra_ok es a" "unat n * unat es < 2 ^ 64"
    and "2 * unat (ra_capacity a) * unat es < 2 ^ 64" "40 * unat es < 2 ^ 64" "unat (ra_capacity a) < 2 ^ 63"
  shows "(case ra_reserve alloc es triv n a of (failed, b) \<Rightarrow>
      ra_ok es b \<and> ra_array b = ra_array a \<and> ra_capacity b = (if failed then ra_capacity a else max n (ra_capacity a))) \<and>
    (case ra_push_back alloc es triv x a of (failed, b) \<Rightarrow>
      ra_ok es b \<and> ra_array b = (if failed then ra_array a else ra_array a @ [x]) \<and>
      (\<not> failed \<longrightarrow> ra_capacity b =
        (if ra_capacity a = 0 then 20 else if ra_size a = ra_capacity a then 2 * ra_capacity a else ra_capacity a))) \<and>
    (\<exists>b. ra_resize alloc es triv n x a = Some b \<and> ra_ok es b \<and>
      (if ra_size a < n \<and> fst (ra_reserve alloc es triv n a) then ra_array b = ra_array a
       else ra_array b = take (unat n) (ra_array a) @ replicate (unat n - unat (ra_size a)) x))"
proof (intro conjI)
  show "case ra_reserve alloc es triv n a of (failed, b) \<Rightarrow>
      ra_ok es b \<and> ra_array b = ra_array a \<and> ra_capacity b = (if failed then ra_capacity a else max n (ra_capacity a))"
    using ra_reserve_correct [OF assms(1,2)] by (cases "ra_reserve alloc es triv n a") blast
  show "case ra_push_back alloc es triv x a of (failed, b) \<Rightarrow>
      ra_ok es b \<and> ra_array b = (if failed then ra_array a else ra_array a @ [x]) \<and>
      (\<not> failed \<longrightarrow> ra_capacity b =
        (if ra_capacity a = 0 then 20 else if ra_size a = ra_capacity a then 2 * ra_capacity a else ra_capacity a))"
    using ra_push_back_correct [OF assms(1,3-5)] by (cases "ra_push_back alloc es triv x a") blast
qed (rule ra_resize_correct [OF assms(1,2)])

lemma mem_root_array_correct_witness:
  "\<exists>b. ra_resize (\<lambda>m _. (False, m)) 8 False 3 (7 :: nat) (ra_init (0 :: nat)) = Some b \<and> ra_ok 8 b"
  using mem_root_array_correct [OF ra_init_ok, of 3 8 "0 :: nat" "\<lambda>m _. (False, m)" False 7] by (auto simp: ra_init_def)

end
