(* ===== verification/Lifo_Buffer.thy ===== *)
theory Lifo_Buffer
  imports Prelude
begin

text \<open>
  The two LIFO buffers of \<open>sql_lifo_buffer.h\<close>, which the DS-MRR code fills with row identifiers,
  or pairs of a key and a row identifier, and reads back last-in first-out. A buffer is a
  window \<open>start .. end\<close> on a byte memory and a position in it: \<open>Forward_lifo_buffer\<close> grows from
  \<open>start\<close>, \<open>Backward_lifo_buffer\<close> from \<open>end\<close>. Pointers are integers, 0 being null. \<open>lifo\<close>, the
  locale at the end, is what a client relies on; it is proved of both buffers.
\<close>

type_synonym ptr = int

record lifo_buffer =
  size1 :: nat
  size2 :: nat
  write_ptr1 :: ptr
  write_ptr2 :: ptr
  read_ptr1 :: ptr
  read_ptr2 :: ptr
  b_start :: ptr
  b_end :: ptr
  b_pos :: ptr
  b_mem :: "ptr \<Rightarrow> u8"

definition memcpy :: "ptr \<Rightarrow> ptr \<Rightarrow> nat \<Rightarrow> (ptr \<Rightarrow> u8) \<Rightarrow> (ptr \<Rightarrow> u8)" where
  "memcpy dst src n mem = (\<lambda>a. if dst \<le> a \<and> a < dst + int n then mem (src + (a - dst)) else mem a)"

definition bytes :: "(ptr \<Rightarrow> u8) \<Rightarrow> ptr \<Rightarrow> nat \<Rightarrow> u8 list" where
  "bytes mem p n = map (\<lambda>i. mem (p + int i)) [0..<n]"

lemma length_bytes [simp]: "length (bytes mem p n) = n"
  by (simp add: bytes_def)

lemma bytes_0 [simp]: "bytes mem p 0 = []"
  by (simp add: bytes_def)

lemma bytes_cong:
  "(\<And>a. p \<le> a \<Longrightarrow> a < p + int n \<Longrightarrow> mem' a = mem a) \<Longrightarrow> bytes mem' p n = bytes mem p n"
  by (simp add: bytes_def)

lemma bytes_memcpy: "bytes (memcpy dst src n mem) dst n = bytes mem src n"
  by (simp add: bytes_def memcpy_def)

lemma bytes_memcpy_disjoint:
  "p + int m \<le> dst \<or> dst + int n \<le> p \<Longrightarrow> bytes (memcpy dst src n mem) p m = bytes mem p m"
  by (rule bytes_cong) (auto simp: memcpy_def)

subsection \<open>Forward_lifo_buffer\<close>

definition fwd_used_size :: "lifo_buffer \<Rightarrow> nat" where "fwd_used_size b = nat (b_pos b - b_start b)"

definition fwd_reset :: "lifo_buffer \<Rightarrow> lifo_buffer" where "fwd_reset b = b\<lparr>b_pos := b_start b\<rparr>"

definition fwd_end_of_space :: "lifo_buffer \<Rightarrow> ptr" where "fwd_end_of_space b = b_pos b"

definition fwd_have_space_for :: "nat \<Rightarrow> lifo_buffer \<Rightarrow> bool" where
  "fwd_have_space_for n b \<longleftrightarrow> b_pos b + int n < b_end b"

definition fwd_write_bytes :: "ptr \<Rightarrow> nat \<Rightarrow> lifo_buffer \<Rightarrow> lifo_buffer option" where
  "fwd_write_bytes data n b =
     guard (fwd_have_space_for n b)
       (b\<lparr>b_mem := memcpy (b_pos b) data n (b_mem b), b_pos := b_pos b + int n\<rparr>)"

definition fwd_write :: "lifo_buffer \<Rightarrow> lifo_buffer option" where
  "fwd_write b =
     Option.bind (fwd_write_bytes (write_ptr1 b) (size1 b) b)
       (\<lambda>b. if size2 b \<noteq> 0 then fwd_write_bytes (write_ptr2 b) (size2 b) b else Some b)"

definition fwd_have_data :: "lifo_buffer \<Rightarrow> ptr \<Rightarrow> nat \<Rightarrow> bool" where
  "fwd_have_data b position n \<longleftrightarrow> position - b_start b \<ge> int n"

definition fwd_read_bytes :: "lifo_buffer \<Rightarrow> ptr \<Rightarrow> nat \<Rightarrow> (ptr \<times> ptr) option" where
  "fwd_read_bytes b position n =
     guard (fwd_have_data b position n) (let position = position - int n in (position, position))"

text \<open>
  \<open>read(position, ptr1, ptr2)\<close>: the answer (true at the end of the data), and the new values of
  the three variables.
\<close>

definition fwd_read_at :: "lifo_buffer \<Rightarrow> ptr \<Rightarrow> ptr \<Rightarrow> ptr \<Rightarrow> (bool \<times> ptr \<times> ptr \<times> ptr) option" where
  "fwd_read_at b position ptr1 ptr2 =
     (if \<not> fwd_have_data b position (size1 b + size2 b) then Some (True, position, ptr1, ptr2)
      else Option.bind (if size2 b \<noteq> 0 then fwd_read_bytes b position (size2 b) else Some (position, ptr2))
        (\<lambda>(position, ptr2). Option.bind (fwd_read_bytes b position (size1 b))
          (\<lambda>(position, ptr1). Some (False, position, ptr1, ptr2))))"

definition fwd_read :: "lifo_buffer \<Rightarrow> (bool \<times> lifo_buffer) option" where
  "fwd_read b = map_option (\<lambda>(eof, position, ptr1, ptr2).
       (eof, b\<lparr>b_pos := position, read_ptr1 := ptr1, read_ptr2 := ptr2\<rparr>))
     (fwd_read_at b (b_pos b) (read_ptr1 b) (read_ptr2 b))"

definition fwd_remove_unused_space :: "lifo_buffer \<Rightarrow> (ptr \<times> ptr \<times> lifo_buffer) option" where
  "fwd_remove_unused_space b = None"

definition fwd_grow :: "ptr \<Rightarrow> ptr \<Rightarrow> lifo_buffer \<Rightarrow> lifo_buffer option" where
  "fwd_grow unused_start unused_end b =
     guard (unused_end \<ge> unused_start \<and> b_end b = unused_start) (b\<lparr>b_end := unused_end\<rparr>)"

definition fwd_used_area :: "lifo_buffer \<Rightarrow> ptr" where "fwd_used_area b = b_start b"

subsection \<open>Backward_lifo_buffer\<close>

definition bwd_used_size :: "lifo_buffer \<Rightarrow> nat" where "bwd_used_size b = nat (b_end b - b_pos b)"

definition bwd_reset :: "lifo_buffer \<Rightarrow> lifo_buffer" where "bwd_reset b = b\<lparr>b_pos := b_end b\<rparr>"

definition bwd_end_of_space :: "lifo_buffer \<Rightarrow> ptr" where "bwd_end_of_space b = b_end b"

definition bwd_have_space_for :: "nat \<Rightarrow> lifo_buffer \<Rightarrow> bool" where
  "bwd_have_space_for n b \<longleftrightarrow> b_pos b - int n \<ge> b_start b"

definition bwd_write_bytes :: "ptr \<Rightarrow> nat \<Rightarrow> lifo_buffer \<Rightarrow> lifo_buffer option" where
  "bwd_write_bytes data n b =
     guard (bwd_have_space_for n b)
       (let b = b\<lparr>b_pos := b_pos b - int n\<rparr> in b\<lparr>b_mem := memcpy (b_pos b) data n (b_mem b)\<rparr>)"

definition bwd_write :: "lifo_buffer \<Rightarrow> lifo_buffer option" where
  "bwd_write b =
     Option.bind (if write_ptr2 b \<noteq> 0 then bwd_write_bytes (write_ptr2 b) (size2 b) b else Some b)
       (\<lambda>b. bwd_write_bytes (write_ptr1 b) (size1 b) b)"

definition bwd_have_data :: "lifo_buffer \<Rightarrow> ptr \<Rightarrow> nat \<Rightarrow> bool" where
  "bwd_have_data b position n \<longleftrightarrow> b_end b - position \<ge> int n"

definition bwd_read_bytes :: "lifo_buffer \<Rightarrow> ptr \<Rightarrow> nat \<Rightarrow> (ptr \<times> ptr) option" where
  "bwd_read_bytes b position n =
     guard (bwd_have_data b position n) (let ret = position; position = position + int n in (position, ret))"

definition bwd_read_at :: "lifo_buffer \<Rightarrow> ptr \<Rightarrow> ptr \<Rightarrow> ptr \<Rightarrow> (bool \<times> ptr \<times> ptr \<times> ptr) option" where
  "bwd_read_at b position ptr1 ptr2 =
     (if \<not> bwd_have_data b position (size1 b + size2 b) then Some (True, position, ptr1, ptr2)
      else Option.bind (bwd_read_bytes b position (size1 b))
        (\<lambda>(position, ptr1). Option.bind
           (if size2 b \<noteq> 0 then bwd_read_bytes b position (size2 b) else Some (position, ptr2))
           (\<lambda>(position, ptr2). Some (False, position, ptr1, ptr2))))"

definition bwd_read :: "lifo_buffer \<Rightarrow> (bool \<times> lifo_buffer) option" where
  "bwd_read b = map_option (\<lambda>(eof, position, ptr1, ptr2).
       (eof, b\<lparr>b_pos := position, read_ptr1 := ptr1, read_ptr2 := ptr2\<rparr>))
     (bwd_read_at b (b_pos b) (read_ptr1 b) (read_ptr2 b))"

definition bwd_remove_unused_space :: "lifo_buffer \<Rightarrow> ptr \<times> ptr \<times> lifo_buffer" where
  "bwd_remove_unused_space b = (b_start b, b_pos b, b\<lparr>b_start := b_pos b\<rparr>)"

definition bwd_grow :: "ptr \<Rightarrow> ptr \<Rightarrow> lifo_buffer \<Rightarrow> lifo_buffer option" where
  "bwd_grow unused_start unused_end b = None"

definition bwd_used_area :: "lifo_buffer \<Rightarrow> ptr" where "bwd_used_area b = b_pos b"

subsection \<open>Lifo_buffer: what both share\<close>

datatype enum_direction = BACKWARD | FORWARD

text \<open>The virtual calls, by the direction of the buffer.\<close>

fun lifo_reset :: "enum_direction \<Rightarrow> lifo_buffer \<Rightarrow> lifo_buffer" where
  "lifo_reset FORWARD b = fwd_reset b"
| "lifo_reset BACKWARD b = bwd_reset b"

fun lifo_used_size :: "enum_direction \<Rightarrow> lifo_buffer \<Rightarrow> nat" where
  "lifo_used_size FORWARD b = fwd_used_size b"
| "lifo_used_size BACKWARD b = bwd_used_size b"

fun lifo_have_space_for :: "enum_direction \<Rightarrow> nat \<Rightarrow> lifo_buffer \<Rightarrow> bool" where
  "lifo_have_space_for FORWARD n b = fwd_have_space_for n b"
| "lifo_have_space_for BACKWARD n b = bwd_have_space_for n b"

fun lifo_write :: "enum_direction \<Rightarrow> lifo_buffer \<Rightarrow> lifo_buffer option" where
  "lifo_write FORWARD b = fwd_write b"
| "lifo_write BACKWARD b = bwd_write b"

fun lifo_read :: "enum_direction \<Rightarrow> lifo_buffer \<Rightarrow> (bool \<times> lifo_buffer) option" where
  "lifo_read FORWARD b = fwd_read b"
| "lifo_read BACKWARD b = bwd_read b"

fun lifo_read_at :: "enum_direction \<Rightarrow> lifo_buffer \<Rightarrow> ptr \<Rightarrow> ptr \<Rightarrow> ptr \<Rightarrow> (bool \<times> ptr \<times> ptr \<times> ptr) option" where
  "lifo_read_at FORWARD = fwd_read_at"
| "lifo_read_at BACKWARD = bwd_read_at"

text \<open>\<open>TRASH_ALLOC\<close> leaves the contents of the space open, as they were before.\<close>

definition set_buffer_space :: "enum_direction \<Rightarrow> ptr \<Rightarrow> ptr \<Rightarrow> lifo_buffer \<Rightarrow> lifo_buffer" where
  "set_buffer_space d start_arg end_arg b = lifo_reset d (b\<lparr>b_start := start_arg, b_end := end_arg\<rparr>)"

definition setup_writing :: "nat \<Rightarrow> nat \<Rightarrow> lifo_buffer \<Rightarrow> lifo_buffer" where
  "setup_writing len1 len2 b = b\<lparr>size1 := len1, size2 := len2\<rparr>"

definition setup_reading :: "nat \<Rightarrow> nat \<Rightarrow> lifo_buffer \<Rightarrow> unit option" where
  "setup_reading len1 len2 b = guard (len1 = size1 b \<and> len2 = size2 b) ()"

definition can_write :: "enum_direction \<Rightarrow> lifo_buffer \<Rightarrow> bool" where
  "can_write d b \<longleftrightarrow> lifo_have_space_for d (size1 b + size2 b) b"

definition lifo_is_empty :: "enum_direction \<Rightarrow> lifo_buffer \<Rightarrow> bool" where
  "lifo_is_empty d b \<longleftrightarrow> lifo_used_size d b = 0"

subsection \<open>Lifo_buffer_iterator\<close>

record lifo_iterator =
  li_pos :: ptr
  li_read_ptr1 :: ptr
  li_read_ptr2 :: ptr

definition li_init :: "lifo_buffer \<Rightarrow> lifo_iterator \<Rightarrow> lifo_iterator" where
  "li_init b it = it\<lparr>li_pos := b_pos b\<rparr>"

definition li_read :: "enum_direction \<Rightarrow> lifo_buffer \<Rightarrow> lifo_iterator \<Rightarrow> (bool \<times> lifo_iterator) option" where
  "li_read d b it = map_option (\<lambda>(eof, position, ptr1, ptr2).
       (eof, it\<lparr>li_pos := position, li_read_ptr1 := ptr1, li_read_ptr2 := ptr2\<rparr>))
     (lifo_read_at d b (li_pos it) (li_read_ptr1 it) (li_read_ptr2 it))"

subsection \<open>What a client relies on\<close>

text \<open>Writing one element after the other, and reading until the buffer is empty with some fuel.\<close>

fun put_all :: "('p \<Rightarrow> 'b \<Rightarrow> 'b option) \<Rightarrow> 'p list \<Rightarrow> 'b \<Rightarrow> 'b option" where
  "put_all put [] b = Some b"
| "put_all put (p # ps) b = Option.bind (put p b) (put_all put ps)"

fun take_all :: "('b \<Rightarrow> ('e \<times> 'b) option option) \<Rightarrow> nat \<Rightarrow> 'b \<Rightarrow> 'e list option" where
  "take_all take_one 0 b = None"
| "take_all take_one (Suc n) b =
     (case take_one b of None \<Rightarrow> None | Some None \<Rightarrow> Some []
      | Some (Some (e, b')) \<Rightarrow> map_option ((#) e) (take_all take_one n b'))"

text \<open>
  \<open>rep b es\<close>: the buffer holds the elements \<open>es\<close>, the last written first. \<open>put p\<close> writes the
  element the pointers \<open>p\<close> refer to, \<open>take_one\<close> reads one; \<open>content\<close> is the data a source refers
  to and \<open>outside\<close> says that it does not lie in the buffer.
\<close>

locale lifo =
  fixes rep :: "'b \<Rightarrow> 'e list \<Rightarrow> bool"
    and content :: "'b \<Rightarrow> 'p \<Rightarrow> 'e"
    and outside :: "'b \<Rightarrow> 'p \<Rightarrow> bool"
    and put :: "'p \<Rightarrow> 'b \<Rightarrow> 'b option"
    and take_one :: "'b \<Rightarrow> ('e \<times> 'b) option option"
  assumes put_rep: "rep b es \<Longrightarrow> outside b p \<Longrightarrow> put p b = Some b' \<Longrightarrow> rep b' (content b p # es)"
    and put_keeps: "rep b es \<Longrightarrow> outside b p \<Longrightarrow> outside b q \<Longrightarrow> put p b = Some b' \<Longrightarrow>
      outside b' q \<and> content b' q = content b q"
    and take_empty: "rep b [] \<Longrightarrow> take_one b = Some None"
    and take_top: "rep b (e # es) \<Longrightarrow> \<exists>b'. take_one b = Some (Some (e, b')) \<and> rep b' es"
begin

lemma put_all_rep:
  "rep b es \<Longrightarrow> \<forall>p \<in> set ps. outside b p \<Longrightarrow> put_all put ps b = Some b' \<Longrightarrow> rep b' (rev (map (content b) ps) @ es)"
proof (induction ps arbitrary: b es)
  case (Cons p ps)
  then obtain c where c: "put p b = Some c" "put_all put ps c = Some b'" by (auto simp: bind_eq_Some_conv)
  have "rep c (content b p # es)" using put_rep Cons.prems c by auto
  moreover have keep: "outside c q \<and> content c q = content b q" if "q \<in> set ps" for q
    using put_keeps [of b es p q c] Cons.prems c that by auto
  ultimately have "rep b' (rev (map (content c) ps) @ content b p # es)"
    using Cons.IH [of c] c(2) by blast
  moreover have "map (content c) ps = map (content b) ps" using keep by simp
  ultimately show ?case by simp
qed simp

lemma take_all_rep: "rep b es \<Longrightarrow> length es < n \<Longrightarrow> take_all take_one n b = Some es"
proof (induction es arbitrary: b n)
  case Nil
  then show ?case using take_empty by (cases n) auto
next
  case (Cons e es)
  then obtain b' where "take_one b = Some (Some (e, b'))" "rep b' es" using take_top by blast
  with Cons show ?case by (cases n) auto
qed

text \<open>What was written comes back in the reverse order.\<close>

lemma last_in_first_out:
  assumes "rep b []" "\<forall>p \<in> set ps. outside b p" "put_all put ps b = Some b'" "length ps < n"
  shows "take_all take_one n b' = Some (rev (map (content b) ps))"
  using put_all_rep [OF assms(1-3)] take_all_rep [of b' "rev (map (content b) ps)" n] assms(4) by simp

end

subsection \<open>The elements of the buffers\<close>

type_synonym elem = "u8 list \<times> u8 list"

definition source_content :: "lifo_buffer \<Rightarrow> ptr \<times> ptr \<Rightarrow> elem" where
  "source_content b p = (bytes (b_mem b) (fst p) (size1 b), bytes (b_mem b) (snd p) (size2 b))"

definition disjoint_source :: "lifo_buffer \<Rightarrow> ptr \<Rightarrow> nat \<Rightarrow> bool" where
  "disjoint_source b p n \<longleftrightarrow> p + int n \<le> b_start b \<or> b_end b \<le> p"

definition source_outside :: "lifo_buffer \<Rightarrow> ptr \<times> ptr \<Rightarrow> bool" where
  "source_outside b p \<longleftrightarrow> disjoint_source b (fst p) (size1 b) \<and>
     (size2 b \<noteq> 0 \<longrightarrow> snd p \<noteq> 0 \<and> disjoint_source b (snd p) (size2 b))"

definition lifo_put :: "enum_direction \<Rightarrow> ptr \<times> ptr \<Rightarrow> lifo_buffer \<Rightarrow> lifo_buffer option" where
  "lifo_put d p b = lifo_write d (b\<lparr>write_ptr1 := fst p, write_ptr2 := snd p\<rparr>)"

definition lifo_take :: "enum_direction \<Rightarrow> lifo_buffer \<Rightarrow> (elem \<times> lifo_buffer) option option" where
  "lifo_take d b = map_option (\<lambda>(eof, b'). if eof then None
     else Some (source_content b' (read_ptr1 b', read_ptr2 b'), b')) (lifo_read d b)"

text \<open>The elements between \<open>start\<close> and a position, the nearest to the position first.\<close>

fun fwd_stack :: "lifo_buffer \<Rightarrow> ptr \<Rightarrow> elem list \<Rightarrow> bool" where
  "fwd_stack b p [] \<longleftrightarrow> p = b_start b"
| "fwd_stack b p (e # es) \<longleftrightarrow> b_start b \<le> p - int (size1 b + size2 b) \<and>
     bytes (b_mem b) (p - int (size1 b + size2 b)) (size1 b) = fst e \<and>
     bytes (b_mem b) (p - int (size2 b)) (size2 b) = snd e \<and>
     fwd_stack b (p - int (size1 b + size2 b)) es"

fun bwd_stack :: "lifo_buffer \<Rightarrow> ptr \<Rightarrow> elem list \<Rightarrow> bool" where
  "bwd_stack b p [] \<longleftrightarrow> p = b_end b"
| "bwd_stack b p (e # es) \<longleftrightarrow> p + int (size1 b + size2 b) \<le> b_end b \<and>
     bytes (b_mem b) p (size1 b) = fst e \<and>
     bytes (b_mem b) (p + int (size1 b)) (size2 b) = snd e \<and>
     bwd_stack b (p + int (size1 b + size2 b)) es"

definition fwd_rep :: "lifo_buffer \<Rightarrow> elem list \<Rightarrow> bool" where
  "fwd_rep b es \<longleftrightarrow> 0 < size1 b + size2 b \<and> b_pos b \<le> b_end b \<and> fwd_stack b (b_pos b) es"

definition bwd_rep :: "lifo_buffer \<Rightarrow> elem list \<Rightarrow> bool" where
  "bwd_rep b es \<longleftrightarrow> 0 < size1 b + size2 b \<and> b_start b \<le> b_pos b \<and> bwd_stack b (b_pos b) es"

lemma fwd_stack_start: "fwd_stack b p es \<Longrightarrow> b_start b \<le> p"
  by (induction es arbitrary: p) auto

lemma bwd_stack_end: "bwd_stack b p es \<Longrightarrow> p \<le> b_end b"
  by (induction es arbitrary: p) auto

lemma fwd_stack_cong:
  assumes "b_start b' = b_start b" "size1 b' = size1 b" "size2 b' = size2 b"
    and "\<And>a. b_start b \<le> a \<Longrightarrow> a < p \<Longrightarrow> b_mem b' a = b_mem b a"
  shows "fwd_stack b' p es \<longleftrightarrow> fwd_stack b p es"
  using assms
proof (induction es arbitrary: p)
  case (Cons e es)
  let ?q = "p - int (size1 b + size2 b)"
  have "fwd_stack b' ?q es \<longleftrightarrow> fwd_stack b ?q es" by (rule Cons.IH) (use Cons.prems in auto)
  moreover have "bytes (b_mem b') ?q (size1 b) = bytes (b_mem b) ?q (size1 b)"
    "bytes (b_mem b') (p - int (size2 b)) (size2 b) = bytes (b_mem b) (p - int (size2 b)) (size2 b)"
    if "b_start b \<le> ?q" using that Cons.prems(4) by (intro bytes_cong; simp)+
  ultimately show ?case using Cons.prems(1-3) by auto
qed simp

lemma bwd_stack_cong:
  assumes "b_end b' = b_end b" "size1 b' = size1 b" "size2 b' = size2 b"
    and "\<And>a. p \<le> a \<Longrightarrow> a < b_end b \<Longrightarrow> b_mem b' a = b_mem b a"
  shows "bwd_stack b' p es \<longleftrightarrow> bwd_stack b p es"
  using assms
proof (induction es arbitrary: p)
  case (Cons e es)
  let ?q = "p + int (size1 b + size2 b)"
  have "bwd_stack b' ?q es \<longleftrightarrow> bwd_stack b ?q es" by (rule Cons.IH) (use Cons.prems in auto)
  moreover have "bytes (b_mem b') p (size1 b) = bytes (b_mem b) p (size1 b)"
    "bytes (b_mem b') (p + int (size1 b)) (size2 b) = bytes (b_mem b) (p + int (size1 b)) (size2 b)"
    if "?q \<le> b_end b" using that Cons.prems(4) by (intro bytes_cong; simp)+
  ultimately show ?case using Cons.prems(1-3) by auto
qed simp

text \<open>What a write leaves behind.\<close>

lemma fwd_put_effect:
  assumes rep: "fwd_rep b es" and out: "source_outside b p" and run: "lifo_put FORWARD p b = Some b'"
  shows "b_pos b' = b_pos b + int (size1 b + size2 b)" "b_pos b' \<le> b_end b"
    "b_start b' = b_start b" "b_end b' = b_end b" "size1 b' = size1 b" "size2 b' = size2 b"
    "\<And>a. \<not> (b_pos b \<le> a \<and> a < b_pos b') \<Longrightarrow> b_mem b' a = b_mem b a"
    "bytes (b_mem b') (b_pos b) (size1 b) = bytes (b_mem b) (fst p) (size1 b)"
    "bytes (b_mem b') (b_pos b + int (size1 b)) (size2 b) = bytes (b_mem b) (snd p) (size2 b)"
proof -
  have pos: "b_start b \<le> b_pos b" using rep fwd_stack_start by (auto simp: fwd_rep_def)
  let ?m1 = "memcpy (b_pos b) (fst p) (size1 b) (b_mem b)"
  let ?m2 = "if size2 b \<noteq> 0 then memcpy (b_pos b + int (size1 b)) (snd p) (size2 b) ?m1 else ?m1"
  have fits: "b_pos b + int (size1 b) < b_end b" "size2 b \<noteq> 0 \<Longrightarrow> b_pos b + int (size1 b + size2 b) < b_end b"
    and b': "b' = b\<lparr>write_ptr1 := fst p, write_ptr2 := snd p, b_mem := ?m2, b_pos := b_pos b + int (size1 b + size2 b)\<rparr>"
    using run by (auto simp: lifo_put_def fwd_write_def fwd_write_bytes_def fwd_have_space_for_def
        bind_eq_Some_conv split: if_splits)
  show "b_pos b' = b_pos b + int (size1 b + size2 b)" "b_pos b' \<le> b_end b"
    "b_start b' = b_start b" "b_end b' = b_end b" "size1 b' = size1 b" "size2 b' = size2 b"
    using fits by (cases "size2 b = 0"; auto simp: b')+
  show "b_mem b' a = b_mem b a" if "\<not> (b_pos b \<le> a \<and> a < b_pos b')" for a
    using that by (auto simp: b' memcpy_def)
  show "bytes (b_mem b') (b_pos b) (size1 b) = bytes (b_mem b) (fst p) (size1 b)"
    by (simp add: b' bytes_memcpy bytes_memcpy_disjoint)
  have "size2 b \<noteq> 0 \<Longrightarrow> bytes ?m1 (snd p) (size2 b) = bytes (b_mem b) (snd p) (size2 b)"
    using out pos fits by (intro bytes_memcpy_disjoint) (auto simp: source_outside_def disjoint_source_def)
  then show "bytes (b_mem b') (b_pos b + int (size1 b)) (size2 b) = bytes (b_mem b) (snd p) (size2 b)"
    by (simp add: b' bytes_memcpy)
qed

lemma bwd_put_effect:
  assumes rep: "bwd_rep b es" and out: "source_outside b p" and run: "lifo_put BACKWARD p b = Some b'"
  shows "b_pos b' = b_pos b - int (size1 b + size2 b)" "b_start b \<le> b_pos b'"
    "b_start b' = b_start b" "b_end b' = b_end b" "size1 b' = size1 b" "size2 b' = size2 b"
    "\<And>a. \<not> (b_pos b' \<le> a \<and> a < b_pos b) \<Longrightarrow> b_mem b' a = b_mem b a"
    "bytes (b_mem b') (b_pos b') (size1 b) = bytes (b_mem b) (fst p) (size1 b)"
    "bytes (b_mem b') (b_pos b' + int (size1 b)) (size2 b) = bytes (b_mem b) (snd p) (size2 b)"
proof -
  have pos: "b_pos b \<le> b_end b" using rep bwd_stack_end by (auto simp: bwd_rep_def)
  let ?q = "b_pos b - int (size2 b) - int (size1 b)"
  let ?m2 = "if snd p \<noteq> 0 then memcpy (b_pos b - int (size2 b)) (snd p) (size2 b) (b_mem b) else b_mem b"
  let ?m1 = "memcpy ?q (fst p) (size1 b) ?m2"
  have two: "snd p = 0 \<Longrightarrow> size2 b = 0" using out by (auto simp: source_outside_def)
  have fits: "b_start b \<le> ?q"
    and b': "b' = b\<lparr>write_ptr1 := fst p, write_ptr2 := snd p, b_pos := ?q, b_mem := ?m1\<rparr>"
    using run two by (auto simp: lifo_put_def bwd_write_def bwd_write_bytes_def bwd_have_space_for_def
        bind_eq_Some_conv Let_def split: if_splits)
  show "b_pos b' = b_pos b - int (size1 b + size2 b)" "b_start b \<le> b_pos b'"
    "b_start b' = b_start b" "b_end b' = b_end b" "size1 b' = size1 b" "size2 b' = size2 b"
    using fits by (auto simp: b')
  show "b_mem b' a = b_mem b a" if "\<not> (b_pos b' \<le> a \<and> a < b_pos b)" for a
    using that by (auto simp: b' memcpy_def)
  have "bytes ?m2 (fst p) (size1 b) = bytes (b_mem b) (fst p) (size1 b)"
    using out pos fits by (auto intro!: bytes_memcpy_disjoint simp: source_outside_def disjoint_source_def)
  then show "bytes (b_mem b') (b_pos b') (size1 b) = bytes (b_mem b) (fst p) (size1 b)"
    by (simp add: b' bytes_memcpy)
  have "bytes ?m1 (?q + int (size1 b)) (size2 b) = bytes ?m2 (b_pos b - int (size2 b)) (size2 b)"
    by (subst bytes_memcpy_disjoint) auto
  also have "\<dots> = bytes (b_mem b) (snd p) (size2 b)" using two by (auto simp: bytes_memcpy)
  finally show "bytes (b_mem b') (b_pos b' + int (size1 b)) (size2 b) = bytes (b_mem b) (snd p) (size2 b)"
    by (simp add: b')
qed

lemma fwd_put_rep:
  assumes "fwd_rep b es" "source_outside b p" "lifo_put FORWARD p b = Some b'"
  shows "fwd_rep b' (source_content b p # es)"
proof -
  note eff = fwd_put_effect [OF assms]
  have "fwd_stack b' (b_pos b) es \<longleftrightarrow> fwd_stack b (b_pos b) es"
    by (rule fwd_stack_cong) (use eff in auto)
  then show ?thesis using assms(1) eff fwd_stack_start
    by (auto simp: fwd_rep_def source_content_def)
qed

lemma bwd_put_rep:
  assumes "bwd_rep b es" "source_outside b p" "lifo_put BACKWARD p b = Some b'"
  shows "bwd_rep b' (source_content b p # es)"
proof -
  note eff = bwd_put_effect [OF assms]
  have "bwd_stack b' (b_pos b) es \<longleftrightarrow> bwd_stack b (b_pos b) es"
    by (rule bwd_stack_cong) (use eff in auto)
  then show ?thesis using assms(1) eff bwd_stack_end
    by (auto simp: bwd_rep_def source_content_def)
qed

lemma source_kept:
  assumes same: "b_start b' = b_start b" "b_end b' = b_end b" "size1 b' = size1 b" "size2 b' = size2 b"
    and mem: "\<And>a. \<not> (b_start b \<le> a \<and> a < b_end b) \<Longrightarrow> b_mem b' a = b_mem b a"
    and out: "source_outside b q"
  shows "source_outside b' q \<and> source_content b' q = source_content b q"
proof -
  have "bytes (b_mem b') p n = bytes (b_mem b) p n" if "disjoint_source b p n" for p n
    using that mem by (intro bytes_cong) (auto simp: disjoint_source_def)
  then show ?thesis using out same
    by (cases "size2 b = 0") (auto simp: source_outside_def source_content_def disjoint_source_def)
qed

lemma fwd_put_keeps:
  assumes "fwd_rep b es" "source_outside b p" "source_outside b q" "lifo_put FORWARD p b = Some b'"
  shows "source_outside b' q \<and> source_content b' q = source_content b q"
proof -
  note eff = fwd_put_effect [OF assms(1,2,4)]
  have "b_start b \<le> b_pos b" using assms(1) fwd_stack_start by (auto simp: fwd_rep_def)
  then show ?thesis using eff assms(3) by (intro source_kept) auto
qed

lemma bwd_put_keeps:
  assumes "bwd_rep b es" "source_outside b p" "source_outside b q" "lifo_put BACKWARD p b = Some b'"
  shows "source_outside b' q \<and> source_content b' q = source_content b q"
proof -
  note eff = bwd_put_effect [OF assms(1,2,4)]
  have "b_pos b \<le> b_end b" using assms(1) bwd_stack_end by (auto simp: bwd_rep_def)
  then show ?thesis using eff assms(3) by (intro source_kept) auto
qed

text \<open>Reading at a position.\<close>

lemma fwd_read_at_correct:
  assumes "0 < size1 b + size2 b" "fwd_stack b p es"
  shows "fwd_read_at b p r1 r2 = Some (case es of [] \<Rightarrow> (True, p, r1, r2)
    | _ # _ \<Rightarrow> (False, p - int (size1 b + size2 b), p - int (size1 b + size2 b),
        if size2 b = 0 then r2 else p - int (size2 b)))"
proof (cases es)
  case Nil
  then show ?thesis using assms by (auto simp: fwd_read_at_def fwd_have_data_def)
next
  case (Cons e fs)
  then have "b_start b + int (size1 b + size2 b) \<le> p" using assms by auto
  then show ?thesis using Cons
    by (auto simp: fwd_read_at_def fwd_have_data_def fwd_read_bytes_def Let_def)
qed

lemma bwd_read_at_correct:
  assumes "0 < size1 b + size2 b" "bwd_stack b p es"
  shows "bwd_read_at b p r1 r2 = Some (case es of [] \<Rightarrow> (True, p, r1, r2)
    | _ # _ \<Rightarrow> (False, p + int (size1 b + size2 b), p, if size2 b = 0 then r2 else p + int (size1 b)))"
proof (cases es)
  case Nil
  then show ?thesis using assms by (auto simp: bwd_read_at_def bwd_have_data_def)
next
  case (Cons e fs)
  then have "p + int (size1 b + size2 b) \<le> b_end b" using assms by auto
  then show ?thesis using Cons
    by (auto simp: bwd_read_at_def bwd_have_data_def bwd_read_bytes_def Let_def)
qed

lemma fwd_take_empty: "fwd_rep b [] \<Longrightarrow> lifo_take FORWARD b = Some None"
  using fwd_read_at_correct [of b "b_pos b" "[]" "read_ptr1 b" "read_ptr2 b"]
  by (auto simp: fwd_rep_def lifo_take_def fwd_read_def)

lemma bwd_take_empty: "bwd_rep b [] \<Longrightarrow> lifo_take BACKWARD b = Some None"
  using bwd_read_at_correct [of b "b_pos b" "[]" "read_ptr1 b" "read_ptr2 b"]
  by (auto simp: bwd_rep_def lifo_take_def bwd_read_def)

lemma fwd_take_top:
  assumes "fwd_rep b (e # es)"
  shows "\<exists>b'. lifo_take FORWARD b = Some (Some (e, b')) \<and> fwd_rep b' es"
proof -
  let ?s = "int (size1 b + size2 b)"
  let ?b = "b\<lparr>b_pos := b_pos b - ?s, read_ptr1 := b_pos b - ?s,
      read_ptr2 := if size2 b = 0 then read_ptr2 b else b_pos b - int (size2 b)\<rparr>"
  have "fwd_read b = Some (False, ?b)"
    using fwd_read_at_correct [of b "b_pos b" "e # es" "read_ptr1 b" "read_ptr2 b"] assms
    by (simp add: fwd_rep_def fwd_read_def)
  moreover have "source_content ?b (read_ptr1 ?b, read_ptr2 ?b) = e"
    using assms by (cases e) (auto simp: fwd_rep_def source_content_def)
  moreover have "fwd_stack ?b (b_pos b - ?s) es \<longleftrightarrow> fwd_stack b (b_pos b - ?s) es"
    by (rule fwd_stack_cong) auto
  ultimately show ?thesis using assms by (auto simp: fwd_rep_def lifo_take_def)
qed

lemma bwd_take_top:
  assumes "bwd_rep b (e # es)"
  shows "\<exists>b'. lifo_take BACKWARD b = Some (Some (e, b')) \<and> bwd_rep b' es"
proof -
  let ?s = "int (size1 b + size2 b)"
  let ?b = "b\<lparr>b_pos := b_pos b + ?s, read_ptr1 := b_pos b,
      read_ptr2 := if size2 b = 0 then read_ptr2 b else b_pos b + int (size1 b)\<rparr>"
  have "bwd_read b = Some (False, ?b)"
    using bwd_read_at_correct [of b "b_pos b" "e # es" "read_ptr1 b" "read_ptr2 b"] assms
    by (simp add: bwd_rep_def bwd_read_def)
  moreover have "source_content ?b (read_ptr1 ?b, read_ptr2 ?b) = e"
    using assms by (cases e) (auto simp: bwd_rep_def source_content_def)
  moreover have "bwd_stack ?b (b_pos b + ?s) es \<longleftrightarrow> bwd_stack b (b_pos b + ?s) es"
    by (rule bwd_stack_cong) auto
  ultimately show ?thesis using assms by (auto simp: bwd_rep_def lifo_take_def)
qed

text \<open>Both buffers keep the contract.\<close>

interpretation forward_buffer: lifo fwd_rep source_content source_outside "lifo_put FORWARD" "lifo_take FORWARD"
  by (unfold_locales; (erule (2) fwd_put_rep | erule (3) fwd_put_keeps | erule fwd_take_empty | erule fwd_take_top))

interpretation backward_buffer: lifo bwd_rep source_content source_outside "lifo_put BACKWARD" "lifo_take BACKWARD"
  by (unfold_locales; (erule (2) bwd_put_rep | erule (3) bwd_put_keeps | erule bwd_take_empty | erule bwd_take_top))

subsection \<open>Space\<close>

lemma set_buffer_space_correct:
  assumes "s \<le> e" "0 < size1 b + size2 b"
  shows "fwd_rep (set_buffer_space FORWARD s e b) []" "bwd_rep (set_buffer_space BACKWARD s e b) []"
  using assms by (simp_all add: set_buffer_space_def fwd_reset_def bwd_reset_def fwd_rep_def bwd_rep_def)

lemma fwd_stack_length: "fwd_stack b p es \<Longrightarrow> p = b_start b + int (length es * (size1 b + size2 b))"
proof (induction es arbitrary: p)
  case (Cons e es)
  then show ?case using Cons.IH [of "p - int (size1 b + size2 b)"] by (simp add: algebra_simps)
qed simp

lemma bwd_stack_length: "bwd_stack b p es \<Longrightarrow> p = b_end b - int (length es * (size1 b + size2 b))"
proof (induction es arbitrary: p)
  case (Cons e es)
  then show ?case using Cons.IH [of "p + int (size1 b + size2 b)"] by (simp add: algebra_simps)
qed simp

lemma used_size_correct:
  "fwd_rep b es \<Longrightarrow> lifo_used_size FORWARD b = length es * (size1 b + size2 b)"
  "bwd_rep b es \<Longrightarrow> lifo_used_size BACKWARD b = length es * (size1 b + size2 b)"
  using fwd_stack_length [of b "b_pos b" es] bwd_stack_length [of b "b_pos b" es]
  by (simp_all add: fwd_rep_def bwd_rep_def fwd_used_size_def bwd_used_size_def del: of_nat_mult)

lemma lifo_is_empty_correct:
  "fwd_rep b es \<Longrightarrow> lifo_is_empty FORWARD b \<longleftrightarrow> es = []"
  "bwd_rep b es \<Longrightarrow> lifo_is_empty BACKWARD b \<longleftrightarrow> es = []"
  using used_size_correct [of b es] by (auto simp: lifo_is_empty_def fwd_rep_def bwd_rep_def)

text \<open>How many elements fit: the forward buffer never fills its last byte.\<close>

lemma can_write_iff:
  "fwd_rep b es \<Longrightarrow> can_write FORWARD b \<longleftrightarrow> int ((length es + 1) * (size1 b + size2 b)) < b_end b - b_start b"
  "bwd_rep b es \<Longrightarrow> can_write BACKWARD b \<longleftrightarrow> int ((length es + 1) * (size1 b + size2 b)) \<le> b_end b - b_start b"
  using fwd_stack_length [of b "b_pos b" es] bwd_stack_length [of b "b_pos b" es]
  by (auto simp: fwd_rep_def bwd_rep_def can_write_def fwd_have_space_for_def bwd_have_space_for_def algebra_simps)

text \<open>A write that \<open>can_write\<close> allows does not fail an assertion.\<close>

lemma can_write_put:
  "can_write FORWARD b \<Longrightarrow> \<exists>b'. lifo_put FORWARD p b = Some b'"
  "can_write BACKWARD b \<Longrightarrow> snd p \<noteq> 0 \<or> size2 b = 0 \<Longrightarrow> \<exists>b'. lifo_put BACKWARD p b = Some b'"
  by (auto simp: can_write_def lifo_put_def fwd_write_def fwd_write_bytes_def fwd_have_space_for_def
      bwd_write_def bwd_write_bytes_def bwd_have_space_for_def guard_def Let_def)

text \<open>
  The hand-over between two buffers on adjacent memory: what the backward buffer gives up the
  forward buffer takes, and both keep their elements.
\<close>

lemma buffer_hand_over:
  assumes fwd: "fwd_rep f es" and bwd: "bwd_rep b gs" and adj: "b_end f = b_start b"
    and give: "bwd_remove_unused_space b = (us, ue, b')"
  shows "\<exists>f'. fwd_grow us ue f = Some f' \<and> fwd_rep f' es \<and> bwd_rep b' gs \<and> b_end f' = b_start b' \<and>
    (0 < b_pos b - b_start b \<longrightarrow> b_end f < b_end f')"
proof -
  have b': "us = b_start b" "ue = b_pos b" "b' = b\<lparr>b_start := b_pos b\<rparr>"
    using give by (auto simp: bwd_remove_unused_space_def)
  have le: "b_start b \<le> b_pos b" using bwd by (simp add: bwd_rep_def)
  have "fwd_stack (f\<lparr>b_end := ue\<rparr>) (b_pos f) es \<longleftrightarrow> fwd_stack f (b_pos f) es" by (rule fwd_stack_cong) auto
  moreover have "bwd_stack b' (b_pos b) gs \<longleftrightarrow> bwd_stack b (b_pos b) gs"
    by (rule bwd_stack_cong) (auto simp: b')
  ultimately show ?thesis using fwd bwd adj le b'
    by (auto simp: fwd_grow_def fwd_rep_def bwd_rep_def)
qed

text \<open>The iterator answers the elements in the order \<open>read\<close> would, and leaves the buffer alone.\<close>

lemma li_read_correct:
  assumes "0 < size1 b + size2 b" "fwd_stack b (li_pos it) es"
  shows "\<exists>it'. li_read FORWARD b it = Some (es = [], it') \<and>
    (case es of [] \<Rightarrow> it' = it | e # fs \<Rightarrow>
       source_content b (li_read_ptr1 it', li_read_ptr2 it') = e \<and> fwd_stack b (li_pos it') fs)"
  using fwd_read_at_correct [OF assms, of "li_read_ptr1 it" "li_read_ptr2 it"] assms
  by (cases es) (auto simp: li_read_def source_content_def prod_eq_iff)

lemma li_read_backward_correct:
  assumes "0 < size1 b + size2 b" "bwd_stack b (li_pos it) es"
  shows "\<exists>it'. li_read BACKWARD b it = Some (es = [], it') \<and>
    (case es of [] \<Rightarrow> it' = it | e # fs \<Rightarrow>
       source_content b (li_read_ptr1 it', li_read_ptr2 it') = e \<and> bwd_stack b (li_pos it') fs)"
  using bwd_read_at_correct [OF assms, of "li_read_ptr1 it" "li_read_ptr2 it"] assms
  by (cases es) (auto simp: li_read_def source_content_def prod_eq_iff)

subsection \<open>Properties\<close>

definition lifo_rep :: "enum_direction \<Rightarrow> lifo_buffer \<Rightarrow> elem list \<Rightarrow> bool" where
  "lifo_rep d = (case d of FORWARD \<Rightarrow> fwd_rep | BACKWARD \<Rightarrow> bwd_rep)"

text \<open>
  C35. Forward and backward buffers are stacks: what is written from sources outside the buffer is
  read back byte for byte in the reverse order until the buffer is empty, and the used size is that
  of the elements written. \<open>can_write\<close> promises that the next write succeeds, but the forward
  buffer refuses the element that would fill it exactly, which the backward buffer takes.
\<close>

theorem lifo_buffer_order:
  assumes "lifo_rep d b []" "\<forall>p \<in> set ps. source_outside b p" "put_all (lifo_put d) ps b = Some b'" "length ps < n"
  shows "take_all (lifo_take d) n b' = Some (rev (map (source_content b) ps)) \<and>
    lifo_used_size d b' = length ps * (size1 b' + size2 b') \<and>
    (can_write d b' \<longleftrightarrow> (let need = int ((length ps + 1) * (size1 b' + size2 b')); room = b_end b' - b_start b'
       in case d of FORWARD \<Rightarrow> need < room | BACKWARD \<Rightarrow> need \<le> room)) \<and>
    (can_write d b' \<longrightarrow> snd q \<noteq> 0 \<or> size2 b' = 0 \<longrightarrow> (\<exists>b2. lifo_put d q b' = Some b2))"
proof (cases d)
  case FORWARD
  have r: "fwd_rep b []" and p: "put_all (lifo_put FORWARD) ps b = Some b'" using assms FORWARD by (simp_all add: lifo_rep_def)
  have "fwd_rep b' (rev (map (source_content b) ps))" using forward_buffer.put_all_rep [OF r assms(2) p] by simp
  then show ?thesis
    using forward_buffer.last_in_first_out [OF r assms(2) p assms(4)] used_size_correct(1) can_write_iff(1)
      can_write_put(1) [of b' q] FORWARD
    by (simp add: Let_def)
next
  case BACKWARD
  have r: "bwd_rep b []" and p: "put_all (lifo_put BACKWARD) ps b = Some b'" using assms BACKWARD by (simp_all add: lifo_rep_def)
  have "bwd_rep b' (rev (map (source_content b) ps))" using backward_buffer.put_all_rep [OF r assms(2) p] by simp
  then show ?thesis
    using backward_buffer.last_in_first_out [OF r assms(2) p assms(4)] used_size_correct(2) can_write_iff(2)
      can_write_put(2) [of b' q] BACKWARD
    by (simp add: Let_def)
qed

definition sample_buffer :: lifo_buffer where
  "sample_buffer = \<lparr>size1 = 2, size2 = 0, write_ptr1 = 0, write_ptr2 = 0, read_ptr1 = 0, read_ptr2 = 0,
     b_start = 100, b_end = 104, b_pos = 100, b_mem = (\<lambda>_. 5)\<rparr>"

lemma lifo_buffer_order_witness:
  "\<exists>b'. lifo_put FORWARD (10, 0) sample_buffer = Some b' \<and> take_all (lifo_take FORWARD) 2 b' = Some [([5, 5], [])]"
proof -
  have r: "lifo_rep FORWARD sample_buffer []" by (simp add: lifo_rep_def fwd_rep_def sample_buffer_def)
  have o: "\<forall>p \<in> set [(10, 0)]. source_outside sample_buffer p"
    by (simp add: source_outside_def disjoint_source_def sample_buffer_def)
  have "can_write FORWARD sample_buffer"
    using can_write_iff(1) [of sample_buffer "[]"] r by (simp add: lifo_rep_def) (simp add: sample_buffer_def)
  then obtain b' where b': "lifo_put FORWARD (10, 0) sample_buffer = Some b'" using can_write_put(1) by blast
  have c: "source_content sample_buffer (10, 0) = ([5, 5], [])"
    by (simp add: source_content_def sample_buffer_def bytes_def upt_rec)
  show ?thesis using lifo_buffer_order [OF r o, of b' 2] b' c by simp
qed

end
