(* ===== verification/Byte_Order.thy ===== *)
theory Byte_Order
  imports Prelude
begin

text \<open>
  Integers in machine-independent byte order: low byte first (\<open>byte_order_generic.h\<close>, written
  with shifts, and \<open>byte_order_generic_x86_64.h\<close>, written with loads of the machine), high byte
  first (\<open>myisampack.h\<close>, and the \<open>bswap\<close> versions of \<open>byte_order_generic_x86_64.h\<close>), and the
  copying of floating point values. A buffer is a list of bytes; a store answers the bytes it
  writes. \<open>le_word\<close> and \<open>le_bytes\<close> are the reference: the lemmas say that every macro computes
  them, hence that the optimised and the portable macros agree, that reading after storing
  gives the value back, and that the bytes stored high byte first compare like the values.
\<close>

subsection \<open>The reference\<close>

fun le_word :: "u8 list \<Rightarrow> 'a::len word" where
  "le_word [] = 0"
| "le_word (b # bs) = ucast b OR push_bit 8 (le_word bs)"

definition le_bytes :: "nat \<Rightarrow> 'a::len word \<Rightarrow> u8 list" where
  "le_bytes n v = map (\<lambda>i. ucast (drop_bit (8 * i) v)) [0..<n]"

definition be_word :: "u8 list \<Rightarrow> 'a::len word" where "be_word bs = le_word (rev bs)"

definition be_bytes :: "nat \<Rightarrow> 'a::len word \<Rightarrow> u8 list" where "be_bytes n v = rev (le_bytes n v)"

text \<open>What the machine does on x86-64: \<open>*(uint32*) p\<close> and the like, \<open>bswapq\<close>.\<close>

definition load_le :: "nat \<Rightarrow> u8 list \<Rightarrow> 'a::len word" where "load_le n p = le_word (take n p)"

definition bswapq :: "u64 \<Rightarrow> u64" where "bswapq v = le_word (rev (le_bytes 8 v))"

subsection \<open>byte_order_generic_x86_64.h\<close>

definition sint2korr :: "u8 list \<Rightarrow> u16" where "sint2korr A = load_le 2 A"

definition sint3korr :: "u8 list \<Rightarrow> u32" where
  "sint3korr A =
     (if A ! 2 AND 128 \<noteq> 0
      then push_bit 24 255 OR push_bit 16 (ucast (A ! 2)) OR push_bit 8 (ucast (A ! 1)) OR ucast (A ! 0)
      else push_bit 16 (ucast (A ! 2)) OR push_bit 8 (ucast (A ! 1)) OR ucast (A ! 0))"

definition sint4korr :: "u8 list \<Rightarrow> u32" where "sint4korr A = load_le 4 A"
definition uint2korr :: "u8 list \<Rightarrow> u16" where "uint2korr A = load_le 2 A"

definition uint3korr :: "u8 list \<Rightarrow> u32" where
  "uint3korr A = ucast (A ! 0) OR push_bit 8 (ucast (A ! 1)) OR push_bit 16 (ucast (A ! 2))"

definition uint4korr :: "u8 list \<Rightarrow> u32" where "uint4korr A = load_le 4 A"

definition uint5korr :: "u8 list \<Rightarrow> u64" where
  "uint5korr p = (let a = ucast (load_le 4 p :: u32); b = ucast (p ! 4) in a OR push_bit 32 b)"

definition uint6korr :: "u8 list \<Rightarrow> u64" where
  "uint6korr p = (let a = ucast (load_le 4 p :: u32); b = ucast (load_le 2 (drop 4 p) :: u16)
     in a OR push_bit 32 b)"

definition uint8korr :: "u8 list \<Rightarrow> u64" where "uint8korr A = load_le 8 A"
definition sint8korr :: "u8 list \<Rightarrow> u64" where "sint8korr A = load_le 8 A"

definition int2store :: "u32 \<Rightarrow> u8 list" where "int2store A = le_bytes 2 (ucast A :: u16)"

definition int3store :: "u32 \<Rightarrow> u8 list" where
  "int3store A = [ucast A, ucast (drop_bit 8 A), ucast (drop_bit 16 A)]"

definition int4store :: "u32 \<Rightarrow> u8 list" where "int4store A = le_bytes 4 A"

definition int5store :: "u64 \<Rightarrow> u8 list" where
  "int5store A = le_bytes 4 (ucast A :: u32) @ [ucast (drop_bit 32 A)]"

definition int6store :: "u64 \<Rightarrow> u8 list" where
  "int6store A = le_bytes 4 (ucast A :: u32) @ le_bytes 2 (ucast (drop_bit 32 A) :: u16)"

definition int8store :: "u64 \<Rightarrow> u8 list" where "int8store A = le_bytes 8 A"

definition mi_uint5korr :: "u8 list \<Rightarrow> u64" where
  "mi_uint5korr p = (let a = ucast (load_le 4 p :: u32); b = ucast (p ! 4);
       v = push_bit 24 (a OR push_bit 32 b) in bswapq v)"

definition mi_uint6korr :: "u8 list \<Rightarrow> u64" where
  "mi_uint6korr p = (let a = ucast (load_le 4 p :: u32); b = ucast (load_le 2 (drop 4 p) :: u16);
       v = push_bit 16 (a OR push_bit 32 b) in bswapq v)"

definition mi_uint7korr :: "u8 list \<Rightarrow> u64" where
  "mi_uint7korr p = (let a = ucast (load_le 4 p :: u32); b = ucast (load_le 2 (drop 4 p) :: u16);
       c = ucast (p ! 6); v = push_bit 8 (a OR push_bit 32 b OR push_bit 48 c) in bswapq v)"

definition mi_uint8korr :: "u8 list \<Rightarrow> u64" where
  "mi_uint8korr p = (let v = load_le 8 p in bswapq v)"

subsection \<open>byte_order_generic.h\<close>

text \<open>A byte of the buffer widened to 16, 32 or 64 bits.\<close>

abbreviation b16 :: "u8 \<Rightarrow> u16" where "b16 \<equiv> ucast"
abbreviation b32 :: "u8 \<Rightarrow> u32" where "b32 \<equiv> ucast"
abbreviation b64 :: "u8 \<Rightarrow> u64" where "b64 \<equiv> ucast"

definition g_sint2korr :: "u8 list \<Rightarrow> u16" where
  "g_sint2korr A = b16 (A ! 0) OR push_bit 8 (scast (A ! 1))"

definition g_sint3korr :: "u8 list \<Rightarrow> u32" where
  "g_sint3korr A =
     (if A ! 2 AND 128 \<noteq> 0
      then push_bit 24 255 OR push_bit 16 (b32 (A ! 2)) OR push_bit 8 (b32 (A ! 1)) OR b32 (A ! 0)
      else push_bit 16 (b32 (A ! 2)) OR push_bit 8 (b32 (A ! 1)) OR b32 (A ! 0))"

definition g_uint2korr :: "u8 list \<Rightarrow> u16" where
  "g_uint2korr A = b16 (A ! 0) OR push_bit 8 (b16 (A ! 1))"

definition g_uint3korr :: "u8 list \<Rightarrow> u32" where
  "g_uint3korr A = b32 (A ! 0) OR push_bit 8 (b32 (A ! 1)) OR push_bit 16 (b32 (A ! 2))"

definition g_uint4korr :: "u8 list \<Rightarrow> u32" where
  "g_uint4korr A = b32 (A ! 0) OR push_bit 8 (b32 (A ! 1)) OR push_bit 16 (b32 (A ! 2)) OR push_bit 24 (b32 (A ! 3))"

definition g_sint4korr :: "u8 list \<Rightarrow> u32" where
  "g_sint4korr A = b32 (A ! 0) OR push_bit 8 (b32 (A ! 1)) OR push_bit 16 (b32 (A ! 2)) OR push_bit 24 (b32 (A ! 3))"

definition g_uint5korr :: "u8 list \<Rightarrow> u64" where
  "g_uint5korr A = ucast (b32 (A ! 0) OR push_bit 8 (b32 (A ! 1)) OR push_bit 16 (b32 (A ! 2)) OR push_bit 24 (b32 (A ! 3)))
     OR push_bit 32 (b64 (A ! 4))"

definition g_uint6korr :: "u8 list \<Rightarrow> u64" where
  "g_uint6korr A = ucast (b32 (A ! 0) OR push_bit 8 (b32 (A ! 1)) OR push_bit 16 (b32 (A ! 2)) OR push_bit 24 (b32 (A ! 3)))
     OR push_bit 32 (b64 (A ! 4)) OR push_bit 40 (b64 (A ! 5))"

definition g_uint8korr :: "u8 list \<Rightarrow> u64" where
  "g_uint8korr A = ucast (b32 (A ! 0) OR push_bit 8 (b32 (A ! 1)) OR push_bit 16 (b32 (A ! 2)) OR push_bit 24 (b32 (A ! 3)))
     OR push_bit 32 (ucast (b32 (A ! 4) OR push_bit 8 (b32 (A ! 5)) OR push_bit 16 (b32 (A ! 6)) OR push_bit 24 (b32 (A ! 7))))"

definition g_sint8korr :: "u8 list \<Rightarrow> u64" where "g_sint8korr A = g_uint8korr A"

definition g_int2store :: "u32 \<Rightarrow> u8 list" where
  "g_int2store A = (let def_temp = A in [ucast def_temp, ucast (drop_bit 8 def_temp)])"

definition g_int3store :: "u32 \<Rightarrow> u8 list" where
  "g_int3store A = [ucast A, ucast (drop_bit 8 A), ucast (drop_bit 16 A)]"

definition g_int4store :: "u32 \<Rightarrow> u8 list" where
  "g_int4store A = [ucast A, ucast (drop_bit 8 A), ucast (drop_bit 16 A), ucast (drop_bit 24 A)]"

definition g_int5store :: "u64 \<Rightarrow> u8 list" where
  "g_int5store A = [ucast A, ucast (drop_bit 8 A), ucast (drop_bit 16 A), ucast (drop_bit 24 A), ucast (drop_bit 32 A)]"

definition g_int6store :: "u64 \<Rightarrow> u8 list" where
  "g_int6store A = [ucast A, ucast (drop_bit 8 A), ucast (drop_bit 16 A), ucast (drop_bit 24 A),
     ucast (drop_bit 32 A), ucast (drop_bit 40 A)]"

definition g_int8store :: "u64 \<Rightarrow> u8 list" where
  "g_int8store A = (let def_temp = ucast A; def_temp2 = ucast (drop_bit 32 A)
     in g_int4store def_temp @ g_int4store def_temp2)"

subsection \<open>my_byteorder.h and myisampack.h: high byte first\<close>

definition int4net :: "u8 list \<Rightarrow> u32" where
  "int4net A = b32 (A ! 3) OR push_bit 8 (b32 (A ! 2)) OR push_bit 16 (b32 (A ! 1)) OR push_bit 24 (b32 (A ! 0))"

definition mi_sint1korr :: "u8 list \<Rightarrow> u8" where "mi_sint1korr A = A ! 0"
definition mi_uint1korr :: "u8 list \<Rightarrow> u8" where "mi_uint1korr A = A ! 0"

definition mi_sint2korr :: "u8 list \<Rightarrow> u16" where
  "mi_sint2korr A = b16 (A ! 1) OR push_bit 8 (b16 (A ! 0))"

definition mi_sint3korr :: "u8 list \<Rightarrow> u32" where
  "mi_sint3korr A =
     (if A ! 0 AND 128 \<noteq> 0
      then push_bit 24 255 OR push_bit 16 (b32 (A ! 0)) OR push_bit 8 (b32 (A ! 1)) OR b32 (A ! 2)
      else push_bit 16 (b32 (A ! 0)) OR push_bit 8 (b32 (A ! 1)) OR b32 (A ! 2))"

definition mi_sint4korr :: "u8 list \<Rightarrow> u32" where
  "mi_sint4korr A = b32 (A ! 3) OR push_bit 8 (b32 (A ! 2)) OR push_bit 16 (b32 (A ! 1)) OR push_bit 24 (b32 (A ! 0))"

definition mi_uint2korr :: "u8 list \<Rightarrow> u16" where
  "mi_uint2korr A = b16 (A ! 1) OR push_bit 8 (b16 (A ! 0))"

definition mi_uint3korr :: "u8 list \<Rightarrow> u32" where
  "mi_uint3korr A = b32 (A ! 2) OR push_bit 8 (b32 (A ! 1)) OR push_bit 16 (b32 (A ! 0))"

definition mi_uint4korr :: "u8 list \<Rightarrow> u32" where
  "mi_uint4korr A = b32 (A ! 3) OR push_bit 8 (b32 (A ! 2)) OR push_bit 16 (b32 (A ! 1)) OR push_bit 24 (b32 (A ! 0))"

definition p_mi_uint5korr :: "u8 list \<Rightarrow> u64" where
  "p_mi_uint5korr A = ucast (b32 (A ! 4) OR push_bit 8 (b32 (A ! 3)) OR push_bit 16 (b32 (A ! 2)) OR push_bit 24 (b32 (A ! 1)))
     OR push_bit 32 (b64 (A ! 0))"

definition p_mi_uint6korr :: "u8 list \<Rightarrow> u64" where
  "p_mi_uint6korr A = ucast (b32 (A ! 5) OR push_bit 8 (b32 (A ! 4)) OR push_bit 16 (b32 (A ! 3)) OR push_bit 24 (b32 (A ! 2)))
     OR push_bit 32 (ucast (b32 (A ! 1) OR push_bit 8 (b32 (A ! 0))))"

definition p_mi_uint7korr :: "u8 list \<Rightarrow> u64" where
  "p_mi_uint7korr A = ucast (b32 (A ! 6) OR push_bit 8 (b32 (A ! 5)) OR push_bit 16 (b32 (A ! 4)) OR push_bit 24 (b32 (A ! 3)))
     OR push_bit 32 (ucast (b32 (A ! 2) OR push_bit 8 (b32 (A ! 1)) OR push_bit 16 (b32 (A ! 0))))"

definition p_mi_uint8korr :: "u8 list \<Rightarrow> u64" where
  "p_mi_uint8korr A = ucast (b32 (A ! 7) OR push_bit 8 (b32 (A ! 6)) OR push_bit 16 (b32 (A ! 5)) OR push_bit 24 (b32 (A ! 4)))
     OR push_bit 32 (ucast (b32 (A ! 3) OR push_bit 8 (b32 (A ! 2)) OR push_bit 16 (b32 (A ! 1)) OR push_bit 24 (b32 (A ! 0))))"

definition mi_sint8korr :: "u8 list \<Rightarrow> u64" where "mi_sint8korr A = mi_uint8korr A"

definition mi_int1store :: "u8 \<Rightarrow> u8 list" where "mi_int1store A = [A]"

definition mi_int2store :: "u32 \<Rightarrow> u8 list" where
  "mi_int2store A = (let def_temp = A in [ucast (drop_bit 8 def_temp), ucast def_temp])"

definition mi_int3store :: "u64 \<Rightarrow> u8 list" where
  "mi_int3store A = (let def_temp = A
     in [ucast (drop_bit 16 def_temp), ucast (drop_bit 8 def_temp), ucast def_temp])"

definition mi_int4store :: "u64 \<Rightarrow> u8 list" where
  "mi_int4store A = (let def_temp = A
     in [ucast (drop_bit 24 def_temp), ucast (drop_bit 16 def_temp), ucast (drop_bit 8 def_temp), ucast def_temp])"

definition mi_int5store :: "u64 \<Rightarrow> u8 list" where
  "mi_int5store A = (let def_temp = A; def_temp2 = drop_bit 32 A
     in [ucast def_temp2, ucast (drop_bit 24 def_temp), ucast (drop_bit 16 def_temp), ucast (drop_bit 8 def_temp),
         ucast def_temp])"

definition mi_int6store :: "u64 \<Rightarrow> u8 list" where
  "mi_int6store A = (let def_temp = A; def_temp2 = drop_bit 32 A
     in [ucast (drop_bit 8 def_temp2), ucast def_temp2, ucast (drop_bit 24 def_temp), ucast (drop_bit 16 def_temp),
         ucast (drop_bit 8 def_temp), ucast def_temp])"

definition mi_int7store :: "u64 \<Rightarrow> u8 list" where
  "mi_int7store A = (let def_temp = A; def_temp2 = drop_bit 32 A
     in [ucast (drop_bit 16 def_temp2), ucast (drop_bit 8 def_temp2), ucast def_temp2, ucast (drop_bit 24 def_temp),
         ucast (drop_bit 16 def_temp), ucast (drop_bit 8 def_temp), ucast def_temp])"

definition mi_int8store :: "u64 \<Rightarrow> u8 list" where
  "mi_int8store A = (let def_temp3 = A; def_temp4 = drop_bit 32 A
     in mi_int4store def_temp4 @ mi_int4store def_temp3)"

text \<open>Row numbers and file offsets: 8 bytes on disk, of which a small build uses the last 4.\<close>

definition mi_rowstore :: "bool \<Rightarrow> u64 \<Rightarrow> u8 list" where
  "mi_rowstore big_tables A = (if big_tables then mi_int8store A else mi_int4store 0 @ mi_int4store A)"

definition mi_rowkorr :: "bool \<Rightarrow> u8 list \<Rightarrow> u64" where
  "mi_rowkorr big_tables T = (if big_tables then mi_uint8korr T else ucast (mi_uint4korr (drop 4 T)))"

definition mi_sizestore :: "bool \<Rightarrow> u64 \<Rightarrow> u64 \<Rightarrow> u8 list" where
  "mi_sizestore large_off_t HA_OFFSET_ERROR A =
     (if large_off_t then mi_int8store A
      else if A = HA_OFFSET_ERROR then replicate 8 255 else mi_int4store 0 @ mi_int4store A)"

definition mi_sizekorr :: "bool \<Rightarrow> u8 list \<Rightarrow> u64" where
  "mi_sizekorr large_off_t T = (if large_off_t then mi_uint8korr T else ucast (mi_uint4korr (drop 4 T)))"

subsection \<open>Bits of the reference\<close>

lemma bit_le_word:
  "bit (le_word bs :: 'a::len word) n \<longleftrightarrow> n < LENGTH('a) \<and> n < 8 * length bs \<and> bit (bs ! (n div 8)) (n mod 8)"
proof (induction bs arbitrary: n)
  case (Cons b bs)
  show ?case
  proof (cases "n < 8")
    case True
    then show ?thesis by (auto simp: bit_or_iff bit_push_bit_iff bit_unsigned_iff)
  next
    case False
    then have "n div 8 = Suc ((n - 8) div 8)" "n mod 8 = (n - 8) mod 8"
      by (simp_all add: le_div_geq le_mod_geq)
    moreover have "\<not> bit b n" using False word_bit_bound [of b n] by auto
    ultimately show ?thesis using False Cons.IH [of "n - 8"]
      by (auto simp: bit_or_iff bit_push_bit_iff bit_unsigned_iff)
  qed
qed simp

lemma length_le_bytes [simp]: "length (le_bytes n v) = n" "length (be_bytes n v) = n"
  by (simp_all add: le_bytes_def be_bytes_def)

lemma nth_le_bytes: "i < n \<Longrightarrow> le_bytes n v ! i = ucast (drop_bit (8 * i) v)"
  by (simp add: le_bytes_def)

text \<open>Storing and reading, the general statements.\<close>

lemma le_word_le_bytes: "le_word (le_bytes n v) = take_bit (8 * n) v"
proof (rule bit_word_eqI)
  fix k
  assume k: "k < LENGTH('a)"
  have "bit (le_bytes n v ! (k div 8)) (k mod 8) \<longleftrightarrow> bit v k" if "k < 8 * n"
  proof -
    have "k div 8 < n" using that by (simp add: less_mult_imp_div_less mult.commute)
    then show ?thesis by (simp add: nth_le_bytes bit_unsigned_iff bit_drop_bit_eq)
  qed
  then show "bit (le_word (le_bytes n v) :: 'a word) k \<longleftrightarrow> bit (take_bit (8 * n) v) k"
    using k by (auto simp: bit_le_word bit_take_bit_iff)
qed

lemma le_bytes_le_word:
  assumes "8 * length bs \<le> LENGTH('a)"
  shows "le_bytes (length bs) (le_word bs :: 'a::len word) = bs"
proof (rule list_eq_nthI)
  fix i
  assume "i < length (le_bytes (length bs) (le_word bs :: 'a word))"
  then have i: "i < length bs" by simp
  show "le_bytes (length bs) (le_word bs :: 'a word) ! i = bs ! i"
  proof (rule bit_word_eqI)
    fix k
    assume k: "k < LENGTH(8)"
    have "8 * i + k < 8 * length bs" using i k by simp
    then show "bit (le_bytes (length bs) (le_word bs :: 'a word) ! i) k \<longleftrightarrow> bit (bs ! i) k"
      using assms k i by (simp add: nth_le_bytes bit_unsigned_iff bit_drop_bit_eq bit_le_word)
  qed
qed simp

lemma be_word_be_bytes: "be_word (be_bytes n v) = take_bit (8 * n) v"
  by (simp add: be_word_def be_bytes_def le_word_le_bytes)

lemma be_bytes_be_word: "8 * length bs \<le> LENGTH('a) \<Longrightarrow> be_bytes (length bs) (be_word bs :: 'a::len word) = bs"
  using le_bytes_le_word [of "rev bs", where 'a = 'a] by (simp add: be_word_def be_bytes_def)

text \<open>Widening.\<close>

lemma ucast_le_word:
  assumes "8 * length bs \<le> LENGTH('b)"
  shows "(ucast (le_word bs :: 'b::len word) :: 'a::len word) = le_word bs"
  by (rule bit_word_eqI) (use assms in \<open>auto simp: bit_unsigned_iff bit_le_word\<close>)

lemma le_word_append: "(le_word (bs @ cs) :: 'a::len word) = le_word bs OR push_bit (8 * length bs) (le_word cs)"
  by (induction bs) (auto simp: push_bit_or or.assoc algebra_simps)

lemma ucast_push_byte:
  "n \<le> 24 \<Longrightarrow> (ucast (push_bit n (b32 b)) :: u64) = push_bit n (b64 b)"
  by (rule bit_word_eqI) (auto simp: bit_unsigned_iff bit_push_bit_iff dest: word_bit_bound)

lemma ucast_byte: "(ucast (b32 b) :: u64) = b64 b"
  using ucast_push_byte [of 0 b] by simp

lemmas widen = unsigned_or_eq ucast_push_byte ucast_byte push_bit_or or.assoc

lemma push_signed_byte: "(push_bit 8 (scast (b :: u8)) :: u16) = push_bit 8 (b16 b)"
  by (rule bit_word_eqI) (auto simp: bit_push_bit_iff bit_unsigned_iff bit_signed_iff dest: word_bit_bound)

text \<open>A buffer long enough, as the bytes that are read and the rest.\<close>

lemma buffer_cases:
  "2 \<le> length p \<Longrightarrow> \<exists>a b r. p = a # b # r"
  "3 \<le> length p \<Longrightarrow> \<exists>a b c r. p = a # b # c # r"
  "4 \<le> length p \<Longrightarrow> \<exists>a b c d r. p = a # b # c # d # r"
  "5 \<le> length p \<Longrightarrow> \<exists>a b c d e r. p = a # b # c # d # e # r"
  "6 \<le> length p \<Longrightarrow> \<exists>a b c d e f r. p = a # b # c # d # e # f # r"
  "7 \<le> length p \<Longrightarrow> \<exists>a b c d e f g r. p = a # b # c # d # e # f # g # r"
  "8 \<le> length p \<Longrightarrow> \<exists>a b c d e f g h r. p = a # b # c # d # e # f # g # h # r"
  by (auto simp: numeral_eq_Suc Suc_le_length_iff)

subsection \<open>Reading\<close>

lemma le_reads:
  "2 \<le> length p \<Longrightarrow> uint2korr p = le_word (take 2 p)"
  "3 \<le> length p \<Longrightarrow> uint3korr p = le_word (take 3 p)"
  "4 \<le> length p \<Longrightarrow> uint4korr p = le_word (take 4 p)"
  "5 \<le> length p \<Longrightarrow> uint5korr p = le_word (take 5 p)"
  "6 \<le> length p \<Longrightarrow> uint6korr p = le_word (take 6 p)"
  "8 \<le> length p \<Longrightarrow> uint8korr p = le_word (take 8 p)"
  by (auto dest!: buffer_cases simp: uint2korr_def uint3korr_def uint4korr_def uint5korr_def uint6korr_def
      uint8korr_def load_le_def ucast_le_word widen push_bit_push_bit)

text \<open>The portable macros read the same.\<close>

lemma portable_reads:
  "2 \<le> length p \<Longrightarrow> g_uint2korr p = uint2korr p"
  "2 \<le> length p \<Longrightarrow> g_sint2korr p = sint2korr p"
  "g_uint3korr p = uint3korr p"
  "g_sint3korr p = sint3korr p"
  "4 \<le> length p \<Longrightarrow> g_uint4korr p = uint4korr p"
  "4 \<le> length p \<Longrightarrow> g_sint4korr p = sint4korr p"
  "5 \<le> length p \<Longrightarrow> g_uint5korr p = uint5korr p"
  "6 \<le> length p \<Longrightarrow> g_uint6korr p = uint6korr p"
  "8 \<le> length p \<Longrightarrow> g_uint8korr p = uint8korr p"
  "8 \<le> length p \<Longrightarrow> g_sint8korr p = sint8korr p"
  by (auto dest!: buffer_cases simp: uint2korr_def uint3korr_def uint4korr_def uint5korr_def uint6korr_def
      uint8korr_def sint2korr_def sint3korr_def sint4korr_def sint8korr_def g_uint2korr_def g_sint2korr_def
      g_uint3korr_def g_sint3korr_def g_uint4korr_def g_sint4korr_def g_uint5korr_def g_uint6korr_def
      g_uint8korr_def g_sint8korr_def load_le_def ucast_le_word widen push_signed_byte push_bit_push_bit)

text \<open>High byte first: the portable macros, and the ones built on \<open>bswapq\<close>.\<close>

lemma be_reads:
  "2 \<le> length p \<Longrightarrow> mi_uint2korr p = be_word (take 2 p)"
  "2 \<le> length p \<Longrightarrow> mi_sint2korr p = be_word (take 2 p)"
  "3 \<le> length p \<Longrightarrow> mi_uint3korr p = be_word (take 3 p)"
  "4 \<le> length p \<Longrightarrow> mi_uint4korr p = be_word (take 4 p)"
  "4 \<le> length p \<Longrightarrow> mi_sint4korr p = be_word (take 4 p)"
  "4 \<le> length p \<Longrightarrow> int4net p = be_word (take 4 p)"
  "5 \<le> length p \<Longrightarrow> p_mi_uint5korr p = be_word (take 5 p)"
  "6 \<le> length p \<Longrightarrow> p_mi_uint6korr p = be_word (take 6 p)"
  "7 \<le> length p \<Longrightarrow> p_mi_uint7korr p = be_word (take 7 p)"
  "8 \<le> length p \<Longrightarrow> p_mi_uint8korr p = be_word (take 8 p)"
  by (auto dest!: buffer_cases simp: mi_uint2korr_def mi_sint2korr_def mi_uint3korr_def mi_uint4korr_def
      mi_sint4korr_def int4net_def p_mi_uint5korr_def p_mi_uint6korr_def p_mi_uint7korr_def p_mi_uint8korr_def
      be_word_def widen push_bit_push_bit)

lemma le_word_zero: "(le_word (replicate k 0) :: 'a::len word) = 0"
  by (induction k) auto

lemma push_le_word: "push_bit (8 * k) (le_word bs :: 'a::len word) = le_word (replicate k 0 @ bs)"
  by (simp add: le_word_append le_word_zero)

lemma le_word_cut: "(le_word (bs @ cs) :: 'a::len word) = le_word bs" if "LENGTH('a) \<le> 8 * length bs"
  using that by (intro bit_word_eqI) (auto simp: bit_le_word nth_append)

lemma bswapq_le_word:
  assumes "length bs = 8"
  shows "bswapq (le_word bs) = le_word (rev bs)"
proof -
  have "le_bytes 8 (le_word bs :: u64) = bs" using le_bytes_le_word [of bs, where 'a = 64] assms by simp
  then show ?thesis by (simp add: bswapq_def)
qed

lemma le_word_zeros: "(le_word (bs @ replicate k 0) :: 'a::len word) = le_word bs"
  by (simp add: le_word_append le_word_zero)

lemma bswap_shifted:
  assumes "length p = n" "n \<le> 8"
  shows "bswapq (push_bit (8 * (8 - n)) (le_word p)) = be_word p"
proof -
  have "push_bit (8 * (8 - n)) (le_word p :: u64) = le_word (replicate (8 - n) 0 @ p)"
    by (rule push_le_word)
  moreover have "length (replicate (8 - n) 0 @ p) = 8" using assms by simp
  ultimately have "bswapq (push_bit (8 * (8 - n)) (le_word p)) = le_word (rev (replicate (8 - n) 0 @ p))"
    by (metis bswapq_le_word)
  then show ?thesis by (simp add: le_word_zeros be_word_def)
qed

lemma le_load_parts:
  "5 \<le> length p \<Longrightarrow> ucast (load_le 4 p :: u32) OR push_bit 32 (b64 (p ! 4)) = le_word (take 5 p)"
  "6 \<le> length p \<Longrightarrow> ucast (load_le 4 p :: u32) OR push_bit 32 (ucast (load_le 2 (drop 4 p) :: u16)) =
     (le_word (take 6 p) :: u64)"
  "7 \<le> length p \<Longrightarrow> ucast (load_le 4 p :: u32) OR push_bit 32 (ucast (load_le 2 (drop 4 p) :: u16)) OR
     push_bit 48 (b64 (p ! 6)) = le_word (take 7 p)"
  by (auto dest!: buffer_cases simp: load_le_def ucast_le_word widen push_bit_push_bit)

lemma bswap_reads:
  "5 \<le> length p \<Longrightarrow> mi_uint5korr p = p_mi_uint5korr p"
  "6 \<le> length p \<Longrightarrow> mi_uint6korr p = p_mi_uint6korr p"
  "7 \<le> length p \<Longrightarrow> mi_uint7korr p = p_mi_uint7korr p"
  "8 \<le> length p \<Longrightarrow> mi_uint8korr p = p_mi_uint8korr p"
proof -
  show "mi_uint5korr p = p_mi_uint5korr p" if "5 \<le> length p"
    unfolding mi_uint5korr_def Let_def le_load_parts(1) [OF that]
    using bswap_shifted [of "take 5 p" 5] that be_reads(7) by simp
  show "mi_uint6korr p = p_mi_uint6korr p" if "6 \<le> length p"
    unfolding mi_uint6korr_def Let_def le_load_parts(2) [OF that]
    using bswap_shifted [of "take 6 p" 6] that be_reads(8) by simp
  show "mi_uint7korr p = p_mi_uint7korr p" if "7 \<le> length p"
    unfolding mi_uint7korr_def Let_def le_load_parts(3) [OF that]
    using bswap_shifted [of "take 7 p" 7] that be_reads(9) by simp
  show "mi_uint8korr p = p_mi_uint8korr p" if "8 \<le> length p"
    unfolding mi_uint8korr_def Let_def load_le_def
    using bswap_shifted [of "take 8 p" 8] that be_reads(10) by simp
qed

subsection \<open>Signed values\<close>

lemma uint_le_word_less:
  assumes "8 * length bs \<le> LENGTH('a)"
  shows "uint (le_word bs :: 'a::len word) < 2 ^ (8 * length bs)"
proof -
  have "take_bit (8 * length bs) (le_word bs :: 'a word) = le_word bs"
    by (rule bit_word_eqI) (auto simp: bit_take_bit_iff bit_le_word)
  then have "take_bit (8 * length bs) (uint (le_word bs :: 'a word)) = uint (le_word bs :: 'a word)"
    by (metis unsigned_take_bit_eq)
  then show ?thesis by (metis take_bit_int_less_exp)
qed

lemma sign_bit_byte: "b AND 128 \<noteq> 0 \<longleftrightarrow> bit b 7" for b :: u8
  using bit_iff_and_push_bit_not_eq_0 [of b 7] by simp

text \<open>The three byte integers are sign-extended.\<close>

lemma sign_extend_24:
  fixes v :: u32
  assumes v: "uint v < 2 ^ 24"
  shows "sint (push_bit 24 255 OR v) = uint v - 2 ^ 24"
proof -
  have "v = take_bit 24 v" using v by (simp add: word_uint_eq_iff unsigned_take_bit_eq take_bit_int_eq_self)
  then have hi: "\<not> bit v n" if "24 \<le> n" for n using that by (metis bit_take_bit_iff leD)
  have "\<not> bit (push_bit 24 255 :: u32) n \<or> \<not> bit v n" for n
    unfolding bit_push_bit_iff using hi by blast
  then have "uint (push_bit 24 255 OR v) = uint (push_bit 24 (255 :: u32)) + uint v" by (rule or_disjoint_uint)
  also have "uint (push_bit 24 (255 :: u32)) = 2 ^ 32 - 2 ^ 24" by (simp add: push_bit_eq_mult)
  finally have sum: "uint (push_bit 24 255 OR v) = 4278190080 + uint v" by simp
  have "0 \<le> uint v" by simp
  then have "\<not> 4278190080 + uint v < 2147483648" by linarith
  then show ?thesis unfolding sint_by_range sum by simp
qed

lemma sint3korr_value:
  assumes "3 \<le> length p"
  shows "sint (sint3korr p) = (if bit (p ! 2) 7 then uint (uint3korr p) - 2 ^ 24 else uint (uint3korr p))"
    "uint (uint3korr p) < 2 ^ 24"
proof -
  have u: "uint3korr p = le_word (take 3 p)" using assms by (rule le_reads)
  then show small: "uint (uint3korr p) < 2 ^ 24"
    using uint_le_word_less [of "take 3 p", where 'a = 32] assms by simp
  have "sint3korr p = (if bit (p ! 2) 7 then push_bit 24 255 OR uint3korr p else uint3korr p)"
    by (simp add: sint3korr_def uint3korr_def sign_bit_byte ac_simps)
  then show "sint (sint3korr p) = (if bit (p ! 2) 7 then uint (uint3korr p) - 2 ^ 24 else uint (uint3korr p))"
    using sign_extend_24 [OF small] small by (simp add: sint_by_range [of "uint3korr p"])
qed

lemma mi_sint3korr_value:
  assumes "3 \<le> length p"
  shows "sint (mi_sint3korr p) = (if bit (p ! 0) 7 then uint (mi_uint3korr p) - 2 ^ 24 else uint (mi_uint3korr p))"
    "uint (mi_uint3korr p) < 2 ^ 24"
proof -
  have u: "mi_uint3korr p = be_word (take 3 p)" using assms by (rule be_reads)
  then show small: "uint (mi_uint3korr p) < 2 ^ 24"
    using uint_le_word_less [of "rev (take 3 p)", where 'a = 32] assms by (simp add: be_word_def)
  have "mi_sint3korr p = (if bit (p ! 0) 7 then push_bit 24 255 OR mi_uint3korr p else mi_uint3korr p)"
    by (simp add: mi_sint3korr_def mi_uint3korr_def sign_bit_byte ac_simps)
  then show "sint (mi_sint3korr p) = (if bit (p ! 0) 7 then uint (mi_uint3korr p) - 2 ^ 24 else uint (mi_uint3korr p))"
    using sign_extend_24 [OF small] small by (simp add: sint_by_range [of "mi_uint3korr p"])
qed

subsection \<open>Storing\<close>

lemma upt_list:
  "[0..<2] = [0, 1]" "[0..<3] = [0, 1, 2]" "[0..<4] = [0, 1, 2, 3]" "[0..<5] = [0, 1, 2, 3, 4]"
  "[0..<6] = [0, 1, 2, 3, 4, 5]" "[0..<7] = [0, 1, 2, 3, 4, 5, 6]" "[0..<8] = [0, 1, 2, 3, 4, 5, 6, 7]"
  by (simp_all add: upt_rec)

lemma cut_byte: "(ucast (drop_bit k (ucast (v :: u64) :: u32)) :: u8) = ucast (drop_bit k v)" if "k \<le> 24"
  by (rule bit_word_eqI) (use that in \<open>auto simp: bit_unsigned_iff bit_drop_bit_eq\<close>)

lemma cut_byte16: "(ucast (drop_bit k (ucast (v :: 'a::len word) :: u16)) :: u8) = ucast (drop_bit k v)" if "k \<le> 8"
  by (rule bit_word_eqI) (use that in \<open>auto simp: bit_unsigned_iff bit_drop_bit_eq\<close>)

lemma cut_low: "(ucast (ucast (v :: 'a::len word) :: u32) :: u8) = ucast v"
  "(ucast (ucast v :: u16) :: u8) = ucast v"
  by (rule bit_word_eqI; auto simp: bit_unsigned_iff)+

lemmas cut = cut_byte cut_byte16 cut_low drop_bit_drop_bit

lemma le_stores:
  "int2store A = le_bytes 2 A" "int3store A = le_bytes 3 A" "int4store A = le_bytes 4 A"
  "int5store B = le_bytes 5 B" "int6store B = le_bytes 6 B" "int8store B = le_bytes 8 B"
  by (simp_all add: int2store_def int3store_def int4store_def int5store_def int6store_def int8store_def
      le_bytes_def upt_list cut)

lemma portable_stores:
  "g_int2store A = int2store A" "g_int3store A = int3store A" "g_int4store A = int4store A"
  "g_int5store B = int5store B" "g_int6store B = int6store B" "g_int8store B = int8store B"
  by (simp_all add: le_stores g_int2store_def g_int3store_def g_int4store_def g_int5store_def g_int6store_def
      g_int8store_def le_bytes_def upt_list cut)

lemma be_stores:
  "mi_int2store A = be_bytes 2 A" "mi_int3store B = be_bytes 3 B" "mi_int4store B = be_bytes 4 B"
  "mi_int5store B = be_bytes 5 B" "mi_int6store B = be_bytes 6 B" "mi_int7store B = be_bytes 7 B"
  "mi_int8store B = be_bytes 8 B"
  by (simp_all add: mi_int2store_def mi_int3store_def mi_int4store_def mi_int5store_def mi_int6store_def
      mi_int7store_def mi_int8store_def be_bytes_def le_bytes_def upt_list cut)

subsection \<open>Order\<close>

text \<open>\<open>memcmp\<close> of the standard library on buffers of the same length.\<close>

fun memcmp :: "u8 list \<Rightarrow> u8 list \<Rightarrow> int" where
  "memcmp (a # as) (b # bs) = (if a = b then memcmp as bs else if a < b then -1 else 1)"
| "memcmp _ _ = 0"

fun be_val :: "u8 list \<Rightarrow> int" where
  "be_val [] = 0"
| "be_val (b # bs) = uint b * 2 ^ (8 * length bs) + be_val bs"

lemma be_val_append: "be_val (as @ [b]) = 256 * be_val as + uint b"
  by (induction as) (auto simp: algebra_simps power_add)

lemma be_val_bounds: "0 \<le> be_val bs" "be_val bs < 2 ^ (8 * length bs)"
proof (induction bs)
  case (Cons b bs)
  have b: "0 \<le> uint b" "uint b \<le> 255" using uint_lt2p [of b] by simp_all
  { case 1
    show ?case using Cons b(1) by simp
  next
    case 2
    have "uint b * 2 ^ (8 * length bs) \<le> 255 * 2 ^ (8 * length bs)" using b(2) by (rule mult_right_mono) simp
    moreover have "(2::int) ^ (8 * length (b # bs)) = 256 * 2 ^ (8 * length bs)" by (simp add: power_add)
    ultimately show ?case using Cons(2) unfolding be_val.simps by linarith
  }
qed simp_all

lemma uint_le_word: "8 * length bs \<le> LENGTH('a) \<Longrightarrow> uint (le_word bs :: 'a::len word) = be_val (rev bs)"
proof (induction bs)
  case (Cons b bs)
  let ?w = "le_word bs :: 'a word"
  have IH: "uint ?w = be_val (rev bs)" using Cons by simp
  have small: "uint ?w * 2 ^ 8 < 2 ^ LENGTH('a)"
  proof -
    have "uint ?w * 2 ^ 8 < 2 ^ (8 * length bs) * 2 ^ 8" using be_val_bounds(2) [of "rev bs"] IH by simp
    also have "\<dots> = 2 ^ (8 * length bs + 8)" by (simp only: power_add)
    also have "\<dots> \<le> 2 ^ LENGTH('a)" using Cons.prems by (intro power_increasing) auto
    finally show ?thesis .
  qed
  then have push: "uint (push_bit 8 ?w) = uint ?w * 256"
    unfolding unsigned_push_bit_eq by (simp add: push_bit_eq_mult take_bit_int_eq_self)
  have byte: "uint (ucast b :: 'a word) = uint b"
  proof -
    have "uint b < 2 ^ 8" using uint_lt2p [of b] by simp
    also have "\<dots> \<le> (2::int) ^ LENGTH('a)" using Cons.prems by (intro power_increasing) auto
    finally show ?thesis by (simp add: unsigned_ucast_eq take_bit_int_eq_self)
  qed
  have "uint (le_word (b # bs) :: 'a word) = uint (ucast b :: 'a word) + uint (push_bit 8 ?w)"
    unfolding le_word.simps
    by (rule or_disjoint_uint) (auto simp: bit_unsigned_iff bit_push_bit_iff dest: word_bit_bound)
  then show ?case using push byte IH by (simp add: be_val_append)
qed simp

lemma uint_be_word: "8 * length bs \<le> LENGTH('a) \<Longrightarrow> uint (be_word bs :: 'a::len word) = be_val bs"
  using uint_le_word [of "rev bs", where 'a = 'a] by (simp add: be_word_def)

lemma memcmp_be_val: "length as = length bs \<Longrightarrow> memcmp as bs = sgn (be_val as - be_val bs)"
proof (induction as bs rule: memcmp.induct)
  case (1 a as b bs)
  let ?B = "2 ^ (8 * length bs) :: int"
  have v: "0 \<le> be_val as" "be_val as < ?B" "0 \<le> be_val bs" "be_val bs < ?B"
    using be_val_bounds [of as] be_val_bounds [of bs] 1(2) by simp_all
  consider "a = b" | "uint a + 1 \<le> uint b" | "uint b + 1 \<le> uint a"
    by (meson linorder_neqE_linordered_idom word_uint_eq_iff zless_imp_add1_zle)
  then show ?case
  proof cases
    case 1
    then show ?thesis using "1.IH" "1.prems" by simp
  next
    case 2
    then have "(uint a + 1) * ?B \<le> uint b * ?B" by (intro mult_right_mono) auto
    then have "be_val (a # as) < be_val (b # bs)" using v "1.prems" by (simp add: algebra_simps)
    then show ?thesis using 2 by (auto simp: word_less_alt)
  next
    case 3
    then have "(uint b + 1) * ?B \<le> uint a * ?B" by (intro mult_right_mono) auto
    then have "be_val (b # bs) < be_val (a # as)" using v "1.prems" by (simp add: algebra_simps)
    then show ?thesis using 3 by (auto simp: word_less_alt)
  qed
qed simp_all

text \<open>Values stored high byte first compare as byte strings like the values.\<close>

lemma memcmp_be_bytes:
  fixes v w :: "'a::len word"
  assumes "8 * n \<le> LENGTH('a)" "uint v < 2 ^ (8 * n)" "uint w < 2 ^ (8 * n)"
  shows "memcmp (be_bytes n v) (be_bytes n w) = sgn (uint v - uint w)"
proof -
  have "uint (be_word (be_bytes n x) :: 'a word) = uint x" if "uint x < 2 ^ (8 * n)" for x :: "'a word"
    using that by (simp add: be_word_be_bytes unsigned_take_bit_eq take_bit_int_eq_self)
  then have "be_val (be_bytes n x) = uint x" if "uint x < 2 ^ (8 * n)" for x :: "'a word"
    using that uint_be_word [of "be_bytes n x", where 'a = 'a] assms(1) by simp
  then show ?thesis using assms by (simp add: memcmp_be_val)
qed

subsection \<open>Codecs\<close>

text \<open>Reading \<open>n\<close> values of a fixed width that follow each other.\<close>

primrec load_all :: "(u8 list \<Rightarrow> 'v) \<Rightarrow> nat \<Rightarrow> nat \<Rightarrow> u8 list \<Rightarrow> 'v list" where
  "load_all load width 0 p = []"
| "load_all load width (Suc n) p = load p # load_all load width n (drop width p)"

text \<open>
  What the writers and readers of file formats rely on: a store writes a fixed number of bytes,
  and the load of the same width is its inverse. Inside the locale: a record of several such
  values, written one after the other, is read back.
\<close>

locale codec =
  fixes width :: nat
    and store :: "'v \<Rightarrow> u8 list"
    and load :: "u8 list \<Rightarrow> 'v"
    and fits :: "'v \<Rightarrow> bool"
  assumes length_store: "length (store v) = width"
    and load_store: "fits v \<Longrightarrow> load (store v @ rest) = v"
    and store_load: "width \<le> length p \<Longrightarrow> store (load p) = take width p"
    and fits_load: "width \<le> length p \<Longrightarrow> fits (load p)"
begin

lemma load_all_store: "\<forall>v \<in> set vs. fits v \<Longrightarrow> load_all load width (length vs) (concat (map store vs) @ rest) = vs"
  by (induction vs) (auto simp: load_store length_store)

lemma store_load_all:
  "n * width \<le> length p \<Longrightarrow> concat (map store (load_all load width n p)) = take (n * width) p"
proof (induction n arbitrary: p)
  case (Suc n)
  then have "concat (map store (load_all load width n (drop width p))) = take (n * width) (drop width p)" by simp
  moreover have "store (load p) = take width p" using store_load Suc.prems by simp
  ultimately show ?case by (simp add: take_add)
qed simp

lemma store_inj: "fits v \<Longrightarrow> fits w \<Longrightarrow> store v = store w \<Longrightarrow> v = w"
  using load_store [of v "[]"] load_store [of w "[]"] by simp

end

lemma take_bit_word_small: "uint v < 2 ^ n \<Longrightarrow> take_bit n v = v" for v :: "'a::len word"
  by (simp add: word_uint_eq_iff unsigned_take_bit_eq take_bit_int_eq_self)

lemma word_fits_all: "LENGTH('a) = n \<Longrightarrow> uint v < 2 ^ n" for v :: "'a::len word"
  using uint_lt2p [of v] by simp

lemma le_codec:
  assumes "\<And>v. store v = le_bytes n v" "\<And>p. n \<le> length p \<Longrightarrow> load p = le_word (take n p)"
    and "8 * n \<le> LENGTH('a)"
  shows "codec n store load (\<lambda>v :: 'a::len word. uint v < 2 ^ (8 * n))"
proof
  show "length (store v) = n" for v by (simp add: assms)
  show "load (store v @ rest) = v" if "uint v < 2 ^ (8 * n)" for v rest
    using that by (simp add: assms le_word_le_bytes take_bit_word_small)
  show "store (load p) = take n p" if "n \<le> length p" for p
  proof -
    have "length (take n p) = n" using that by simp
    then show ?thesis using le_bytes_le_word [of "take n p", where 'a = 'a] assms that by simp
  qed
  show "uint (load p) < 2 ^ (8 * n)" if "n \<le> length p" for p
  proof -
    have "length (take n p) = n" using that by simp
    then show ?thesis using uint_le_word_less [of "take n p", where 'a = 'a] assms that by simp
  qed
qed

lemma be_codec:
  assumes "\<And>v. store v = be_bytes n v" "\<And>p. n \<le> length p \<Longrightarrow> load p = be_word (take n p)"
    and "8 * n \<le> LENGTH('a)"
  shows "codec n store load (\<lambda>v :: 'a::len word. uint v < 2 ^ (8 * n))"
proof
  show "length (store v) = n" for v by (simp add: assms)
  show "load (store v @ rest) = v" if "uint v < 2 ^ (8 * n)" for v rest
    using that by (simp add: assms be_word_be_bytes take_bit_word_small)
  show "store (load p) = take n p" if "n \<le> length p" for p
  proof -
    have "length (take n p) = n" using that by simp
    then show ?thesis using be_bytes_be_word [of "take n p", where 'a = 'a] assms that by simp
  qed
  show "uint (load p) < 2 ^ (8 * n)" if "n \<le> length p" for p
  proof -
    have "length (rev (take n p)) = n" using that by simp
    then show ?thesis using uint_le_word_less [of "rev (take n p)", where 'a = 'a] assms that
      by (simp add: be_word_def)
  qed
qed

interpretation le3: codec 3 int3store uint3korr "\<lambda>v. uint v < 2 ^ (8 * 3)"
  by (rule le_codec) (simp_all add: le_stores le_reads)

interpretation le4: codec 4 int4store uint4korr "\<lambda>v. uint v < 2 ^ (8 * 4)"
  by (rule le_codec) (simp_all add: le_stores le_reads)

interpretation le5: codec 5 int5store uint5korr "\<lambda>v. uint v < 2 ^ (8 * 5)"
  by (rule le_codec) (simp_all add: le_stores le_reads)

interpretation le6: codec 6 int6store uint6korr "\<lambda>v. uint v < 2 ^ (8 * 6)"
  by (rule le_codec) (simp_all add: le_stores le_reads)

interpretation le8: codec 8 int8store uint8korr "\<lambda>v. uint v < 2 ^ (8 * 8)"
  by (rule le_codec) (simp_all add: le_stores le_reads)

interpretation be5: codec 5 mi_int5store mi_uint5korr "\<lambda>v. uint v < 2 ^ (8 * 5)"
  by (rule be_codec) (simp_all add: be_stores bswap_reads be_reads)

interpretation be6: codec 6 mi_int6store mi_uint6korr "\<lambda>v. uint v < 2 ^ (8 * 6)"
  by (rule be_codec) (simp_all add: be_stores bswap_reads be_reads)

interpretation be7: codec 7 mi_int7store mi_uint7korr "\<lambda>v. uint v < 2 ^ (8 * 7)"
  by (rule be_codec) (simp_all add: be_stores bswap_reads be_reads)

interpretation be8: codec 8 mi_int8store mi_uint8korr "\<lambda>v. uint v < 2 ^ (8 * 8)"
  by (rule be_codec) (simp_all add: be_stores bswap_reads be_reads)

text \<open>Row numbers and offsets.\<close>

lemma mi_int4_roundtrip: "mi_uint4korr (mi_int4store v @ rest) = ucast v"
proof -
  have "mi_uint4korr (mi_int4store v @ rest) = be_word (be_bytes 4 v)"
    by (simp add: be_stores be_reads)
  also have "\<dots> = ucast v"
  proof -
    have "(be_word (be_bytes 4 v) :: u32) = ucast (be_word (be_bytes 4 v) :: u64)"
      by (rule bit_word_eqI) (auto simp: be_word_def bit_le_word bit_unsigned_iff)
    also have "\<dots> = ucast (take_bit 32 v)" by (simp add: be_word_be_bytes)
    also have "\<dots> = ucast v" by (rule bit_word_eqI) (auto simp: bit_unsigned_iff bit_take_bit_iff)
    finally show ?thesis .
  qed
  finally show ?thesis .
qed

lemma mi_rowstore_roundtrip:
  assumes "\<not> big \<Longrightarrow> uint A < 2 ^ 32"
  shows "mi_rowkorr big (mi_rowstore big A @ rest) = A" "length (mi_rowstore big A) = 8"
proof -
  have small: "ucast (ucast A :: u32) = A" if "uint A < 2 ^ 32"
    using that by (simp add: word_uint_eq_iff unsigned_ucast_eq unsigned_take_bit_eq take_bit_int_eq_self)
  have "mi_uint8korr (mi_int8store A @ rest) = A"
    by (rule be8.load_store) (rule word_fits_all, simp)
  then show "mi_rowkorr big (mi_rowstore big A @ rest) = A"
    using assms small by (auto simp: mi_rowkorr_def mi_rowstore_def be_stores(3) mi_int4_roundtrip [unfolded be_stores(3)])
  show "length (mi_rowstore big A) = 8" by (simp add: mi_rowstore_def be_stores)
qed


subsection \<open>Floating point values\<close>

text \<open>
  A float or double is the list of its bytes in memory. The three layouts the headers tell
  apart: a big-endian machine, a machine whose doubles have the high word first, and x86.
\<close>

datatype float_layout = Words_Big_Endian | Float_Words_Swapped | Words_Little_Endian

fun mi_float4store :: "float_layout \<Rightarrow> u8 list \<Rightarrow> u8 list" where
  "mi_float4store Words_Big_Endian A = [A ! 0, A ! 1, A ! 2, A ! 3]"
| "mi_float4store _ A = [A ! 3, A ! 2, A ! 1, A ! 0]"

fun mi_float4get :: "float_layout \<Rightarrow> u8 list \<Rightarrow> u8 list" where
  "mi_float4get Words_Big_Endian M = [M ! 0, M ! 1, M ! 2, M ! 3]"
| "mi_float4get _ M = [M ! 3, M ! 2, M ! 1, M ! 0]"

fun mi_float8store :: "float_layout \<Rightarrow> u8 list \<Rightarrow> u8 list" where
  "mi_float8store Words_Big_Endian V = [V ! 0, V ! 1, V ! 2, V ! 3, V ! 4, V ! 5, V ! 6, V ! 7]"
| "mi_float8store Float_Words_Swapped V = [V ! 3, V ! 2, V ! 1, V ! 0, V ! 7, V ! 6, V ! 5, V ! 4]"
| "mi_float8store Words_Little_Endian V = [V ! 7, V ! 6, V ! 5, V ! 4, V ! 3, V ! 2, V ! 1, V ! 0]"

fun mi_float8get :: "float_layout \<Rightarrow> u8 list \<Rightarrow> u8 list" where
  "mi_float8get Words_Big_Endian M = [M ! 0, M ! 1, M ! 2, M ! 3, M ! 4, M ! 5, M ! 6, M ! 7]"
| "mi_float8get Float_Words_Swapped M = [M ! 3, M ! 2, M ! 1, M ! 0, M ! 7, M ! 6, M ! 5, M ! 4]"
| "mi_float8get Words_Little_Endian M = [M ! 7, M ! 6, M ! 5, M ! 4, M ! 3, M ! 2, M ! 1, M ! 0]"

text \<open>\<open>little_endian.h\<close> and \<open>big_endian.h\<close>: the low-byte-first format.\<close>

fun float4store :: "float_layout \<Rightarrow> u8 list \<Rightarrow> u8 list" where
  "float4store Words_Big_Endian A = [A ! 3, A ! 2, A ! 1, A ! 0]"
| "float4store _ A = take 4 A"

fun float4get :: "float_layout \<Rightarrow> u8 list \<Rightarrow> u8 list" where
  "float4get Words_Big_Endian M = [M ! 3, M ! 2, M ! 1, M ! 0]"
| "float4get _ M = take 4 M"

fun float8store :: "float_layout \<Rightarrow> u8 list \<Rightarrow> u8 list" where
  "float8store Words_Big_Endian V = [V ! 7, V ! 6, V ! 5, V ! 4, V ! 3, V ! 2, V ! 1, V ! 0]"
| "float8store Float_Words_Swapped V = [V ! 4, V ! 5, V ! 6, V ! 7, V ! 0, V ! 1, V ! 2, V ! 3]"
| "float8store Words_Little_Endian V = take 8 V"

fun float8get :: "float_layout \<Rightarrow> u8 list \<Rightarrow> u8 list" where
  "float8get Words_Big_Endian M = [M ! 7, M ! 6, M ! 5, M ! 4, M ! 3, M ! 2, M ! 1, M ! 0]"
| "float8get Float_Words_Swapped M = [M ! 4, M ! 5, M ! 6, M ! 7, M ! 0, M ! 1, M ! 2, M ! 3]"
| "float8get Words_Little_Endian M = take 8 M"

lemma float_roundtrips:
  "length V = 4 \<Longrightarrow> mi_float4get a (mi_float4store a V @ rest) = V"
  "length V = 8 \<Longrightarrow> mi_float8get a (mi_float8store a V @ rest) = V"
  "length V = 4 \<Longrightarrow> float4get a (float4store a V @ rest) = V"
  "length V = 8 \<Longrightarrow> float8get a (float8store a V @ rest) = V"
  by (cases a; auto simp: numeral_eq_Suc length_Suc_conv)+

text \<open>
  The two stored formats are each other's reverse, and the same on every layout: a double whose
  bytes from the least to the most significant are \<open>m\<close> is stored as \<open>m\<close> or as \<open>rev m\<close>.
\<close>

fun layout_of :: "float_layout \<Rightarrow> u8 list \<Rightarrow> u8 list" where
  "layout_of Words_Big_Endian m = rev m"
| "layout_of Float_Words_Swapped m = drop 4 m @ take 4 m"
| "layout_of Words_Little_Endian m = m"

lemma float8_formats:
  assumes "length m = 8"
  shows "float8store a (layout_of a m) = m" "mi_float8store a (layout_of a m) = rev m"
  using assms by (cases a; auto simp: numeral_eq_Suc length_Suc_conv)+

subsection \<open>Pairs of accessors\<close>

text \<open>
  What a store and the load of the same width promise: the format, that the load reads back every value
  that fits, and that storing what was read gives the same bytes. A signed load reads back every
  number in the range of its width. High byte first, the bytes also compare like the values.
\<close>

definition reads_back :: "nat \<Rightarrow> ('a::len word \<Rightarrow> u8 list) \<Rightarrow> (u8 list \<Rightarrow> 'b::len word) \<Rightarrow> bool" where
  "reads_back n store load \<longleftrightarrow>
     (\<forall>v rest. uint v < 2 ^ (8 * n) \<longrightarrow> uint (load (store v @ rest)) = uint v) \<and>
     (\<forall>p. n \<le> length p \<longrightarrow> store (ucast (load p)) = take n p)"

definition le_pair :: "nat \<Rightarrow> ('a::len word \<Rightarrow> u8 list) \<Rightarrow> (u8 list \<Rightarrow> 'b::len word) \<Rightarrow> bool" where
  "le_pair n store load \<longleftrightarrow> (\<forall>v. store v = le_bytes n v) \<and> reads_back n store load"

definition be_pair :: "nat \<Rightarrow> ('a::len word \<Rightarrow> u8 list) \<Rightarrow> (u8 list \<Rightarrow> 'b::len word) \<Rightarrow> bool" where
  "be_pair n store load \<longleftrightarrow> (\<forall>v. store v = be_bytes n v) \<and> reads_back n store load \<and>
     (\<forall>v w. uint v < 2 ^ (8 * n) \<longrightarrow> uint w < 2 ^ (8 * n) \<longrightarrow> memcmp (store v) (store w) = sgn (uint v - uint w))"

definition signed_load :: "nat \<Rightarrow> ('a::len word \<Rightarrow> u8 list) \<Rightarrow> (u8 list \<Rightarrow> 'b::len word) \<Rightarrow> bool" where
  "signed_load n store load \<longleftrightarrow>
     (\<forall>k rest. - (2 ^ (8 * n - 1)) \<le> k \<and> k < 2 ^ (8 * n - 1) \<longrightarrow> sint (load (store (word_of_int k) @ rest)) = k)"

lemma uint_reread:
  fixes v :: "'a::len word"
  assumes "length bs = n" "8 * n \<le> LENGTH('a)" "8 * n \<le> LENGTH('b::len)" "(le_word bs :: 'a word) = take_bit (8 * n) v"
  shows "uint (le_word bs :: 'b word) = take_bit (8 * n) (uint v)"
proof -
  have "uint (le_word bs :: 'b word) = uint (le_word bs :: 'a word)"
    using assms(1-3) by (simp add: uint_le_word)
  then show ?thesis by (simp add: assms(4) unsigned_take_bit_eq)
qed

lemma le_pairI:
  fixes store :: "'a::len word \<Rightarrow> u8 list" and load :: "u8 list \<Rightarrow> 'b::len word"
  assumes "\<And>v. store v = le_bytes n v" "\<And>p. n \<le> length p \<Longrightarrow> load p = le_word (take n p)"
    and "8 * n \<le> LENGTH('a)" "8 * n \<le> LENGTH('b)"
  shows "le_pair n store load"
proof -
  have "uint (load (store v @ rest)) = uint v" if "uint v < 2 ^ (8 * n)" for v rest
    using that uint_reread [OF _ assms(3,4) le_word_le_bytes, of v] by (simp add: assms(1,2) take_bit_int_eq_self)
  moreover have "store (ucast (load p)) = take n p" if "n \<le> length p" for p
    using that le_bytes_le_word [of "take n p", where 'a = 'a] assms by (simp add: ucast_le_word)
  ultimately show ?thesis by (simp add: le_pair_def reads_back_def assms(1))
qed

lemma be_pairI:
  fixes store :: "'a::len word \<Rightarrow> u8 list" and load :: "u8 list \<Rightarrow> 'b::len word"
  assumes "\<And>v. store v = be_bytes n v" "\<And>p. n \<le> length p \<Longrightarrow> load p = be_word (take n p)"
    and "8 * n \<le> LENGTH('a)" "8 * n \<le> LENGTH('b)"
  shows "be_pair n store load"
proof -
  have "uint (load (store v @ rest)) = uint v" if "uint v < 2 ^ (8 * n)" for v rest
    using that uint_reread [OF _ assms(3,4) le_word_le_bytes, of v]
    by (simp add: assms(1,2) be_word_def be_bytes_def take_bit_int_eq_self)
  moreover have "store (ucast (load p)) = take n p" if "n \<le> length p" for p
    using that be_bytes_be_word [of "take n p", where 'a = 'a] assms by (simp add: be_word_def ucast_le_word)
  ultimately show ?thesis using memcmp_be_bytes [OF assms(3)] by (simp add: be_pair_def reads_back_def assms(1))
qed

lemma signed_whole:
  fixes store :: "'a::len word \<Rightarrow> u8 list" and load :: "u8 list \<Rightarrow> 'b::len word"
  assumes "\<And>v rest. uint (load (store v @ rest)) = take_bit (8 * n) (uint v)" "LENGTH('b) = 8 * n" "8 * n \<le> LENGTH('a)"
  shows "signed_load n store load"
  unfolding signed_load_def
proof (intro allI impI)
  fix k :: int and rest assume k: "- (2 ^ (8 * n - 1)) \<le> k \<and> k < 2 ^ (8 * n - 1)"
  have "uint (load (store (word_of_int k) @ rest)) = uint (word_of_int k :: 'b word)"
    using assms(2,3) by (simp add: assms(1) unsigned_of_int take_bit_take_bit min_def)
  then have "load (store (word_of_int k) @ rest) = word_of_int k" by (rule word_uint_eq_iff [THEN iffD2])
  then show "sint (load (store (word_of_int k) @ rest)) = k"
    using k assms(2) by (simp add: signed_of_int signed_take_bit_int_eq_self)
qed

lemma signed_le:
  fixes store :: "'a::len word \<Rightarrow> u8 list" and load :: "u8 list \<Rightarrow> 'b::len word"
  assumes "\<And>v. store v = le_bytes n v" "\<And>p. n \<le> length p \<Longrightarrow> load p = le_word (take n p)"
    and "8 * n \<le> LENGTH('a)" "LENGTH('b) = 8 * n"
  shows "signed_load n store load"
proof (rule signed_whole [OF _ assms(4,3)])
  have "8 * n \<le> LENGTH('b)" by (simp add: assms(4))
  then show "uint (load (store v @ rest)) = take_bit (8 * n) (uint v)" for v rest
    using uint_reread [OF _ assms(3) _ le_word_le_bytes, where 'b = 'b] by (simp add: assms(1,2))
qed

lemma signed_be:
  fixes store :: "'a::len word \<Rightarrow> u8 list" and load :: "u8 list \<Rightarrow> 'b::len word"
  assumes "\<And>v. store v = be_bytes n v" "\<And>p. n \<le> length p \<Longrightarrow> load p = be_word (take n p)"
    and "8 * n \<le> LENGTH('a)" "LENGTH('b) = 8 * n"
  shows "signed_load n store load"
proof (rule signed_whole [OF _ assms(4,3)])
  have "8 * n \<le> LENGTH('b)" by (simp add: assms(4))
  then show "uint (load (store v @ rest)) = take_bit (8 * n) (uint v)" for v rest
    using uint_reread [OF _ assms(3) _ le_word_le_bytes, where 'b = 'b] by (simp add: assms(1,2) be_word_def be_bytes_def)
qed

text \<open>Three bytes: the number is what the unsigned load reads, less \<open>2 ^ 24\<close> when the sign bit is set.\<close>

lemma signed_24:
  fixes k :: int
  assumes "- (2 ^ 23) \<le> k" "k < 2 ^ 23"
  shows "(if bit k 23 then take_bit 24 k - 2 ^ 24 else take_bit 24 k) = k"
proof (cases "k < 0")
  case True
  have "k div 2 ^ 23 = - 1" using True assms(1) by (intro int_div_pos_eq [where r = "k + 2 ^ 23"]) simp_all
  then have "bit k 23" by (simp add: bit_iff_odd)
  moreover have "take_bit 24 (k + 2 ^ 24) = k + 2 ^ 24" using True assms(1) by (intro take_bit_int_eq_self) simp_all
  then have "take_bit 24 k = k + 2 ^ 24" by (simp add: take_bit_eq_mod)
  ultimately show ?thesis by simp
next
  case False
  then have "k div 2 ^ 23 = 0" using assms(2) by simp
  then show ?thesis using False assms by (simp add: bit_iff_odd take_bit_int_eq_self)
qed

lemma signed_three:
  "signed_load 3 int3store sint3korr" "signed_load 3 mi_int3store mi_sint3korr"
proof -
  have "sint (sint3korr (int3store (word_of_int k) @ rest)) = k" if "- (2 ^ 23) \<le> k" "k < 2 ^ 23" for k rest
  proof -
    let ?p = "int3store (word_of_int k) @ rest"
    have l: "3 \<le> length ?p" by (simp add: le_stores)
    have "bit (?p ! 2) 7 = bit k 23" by (simp add: int3store_def bit_unsigned_iff bit_drop_bit_eq bit_word_of_int_iff)
    moreover have "uint (uint3korr ?p) = take_bit 24 k"
      using uint_reread [OF _ _ _ le_word_le_bytes, of 3 "word_of_int k :: u32", where 'b = 32]
      unfolding le_reads(2) [OF l] by (simp add: le_stores unsigned_of_int take_bit_take_bit min_def)
    ultimately show ?thesis unfolding sint3korr_value(1) [OF l] using signed_24 [OF that] by (simp only:)
  qed
  then show "signed_load 3 int3store sint3korr" by (simp add: signed_load_def)
  have "sint (mi_sint3korr (mi_int3store (word_of_int k) @ rest)) = k" if "- (2 ^ 23) \<le> k" "k < 2 ^ 23" for k rest
  proof -
    let ?p = "mi_int3store (word_of_int k) @ rest"
    have l: "3 \<le> length ?p" by (simp add: be_stores)
    have "bit (?p ! 0) 7 = bit k 23" by (simp add: mi_int3store_def Let_def bit_unsigned_iff bit_drop_bit_eq bit_word_of_int_iff)
    moreover have "uint (mi_uint3korr ?p) = take_bit 24 k"
      using uint_reread [OF _ _ _ le_word_le_bytes, of 3 "word_of_int k :: u64", where 'b = 32]
      unfolding be_reads(3) [OF l] by (simp add: be_stores be_word_def be_bytes_def unsigned_of_int take_bit_take_bit min_def)
    ultimately show ?thesis unfolding mi_sint3korr_value(1) [OF l] using signed_24 [OF that] by (simp only:)
  qed
  then show "signed_load 3 mi_int3store mi_sint3korr" by (simp add: signed_load_def)
qed

lemma le_pairs:
  "le_pair 2 int2store uint2korr" "le_pair 3 int3store uint3korr" "le_pair 4 int4store uint4korr"
  "le_pair 5 int5store uint5korr" "le_pair 6 int6store uint6korr" "le_pair 8 int8store uint8korr"
  by (rule le_pairI; simp add: le_stores le_reads)+

lemma le_signed:
  "signed_load 2 int2store sint2korr" "signed_load 4 int4store sint4korr" "signed_load 8 int8store sint8korr"
  by (rule signed_le; simp add: le_stores sint2korr_def sint4korr_def sint8korr_def load_le_def)+

lemma mi_int1: "mi_int1store v = be_bytes 1 v"
  by (simp add: mi_int1store_def be_bytes_def le_bytes_def)

lemma be_word_1: "1 \<le> length p \<Longrightarrow> p ! 0 = be_word (take 1 p)"
  by (cases p) (auto simp: be_word_def)

lemma be_pairs:
  "be_pair 1 mi_int1store mi_uint1korr" "be_pair 2 mi_int2store mi_uint2korr" "be_pair 3 mi_int3store mi_uint3korr"
  "be_pair 4 mi_int4store mi_uint4korr" "be_pair 5 mi_int5store mi_uint5korr" "be_pair 6 mi_int6store mi_uint6korr"
  "be_pair 7 mi_int7store mi_uint7korr" "be_pair 8 mi_int8store mi_uint8korr"
  by (rule be_pairI; simp add: mi_int1 mi_uint1korr_def be_word_1 be_stores bswap_reads be_reads)+

lemma be_signed:
  "signed_load 1 mi_int1store mi_sint1korr" "signed_load 2 mi_int2store mi_sint2korr"
  "signed_load 4 mi_int4store mi_sint4korr" "signed_load 8 mi_int8store mi_sint8korr"
  by (rule signed_be; simp add: mi_int1 mi_sint1korr_def be_word_1 mi_sint8korr_def be_stores bswap_reads be_reads)+

lemma mi_sizestore_roundtrip:
  assumes "\<not> big \<Longrightarrow> uint A < 2 ^ 32 \<and> HA_OFFSET_ERROR = 4294967295"
  shows "mi_sizekorr big (mi_sizestore big HA_OFFSET_ERROR A @ rest) = A"
proof (cases "\<not> big \<and> A = HA_OFFSET_ERROR")
  case True
  then have "A = 4294967295" using assms by simp
  moreover have "replicate 8 (255 :: u8) = [255, 255, 255, 255, 255, 255, 255, 255]" by (simp add: eval_nat_numeral)
  ultimately show ?thesis
    using True by (simp add: mi_sizekorr_def mi_sizestore_def mi_uint4korr_def push_bit_eq_mult)
next
  case False
  then have "mi_sizekorr big (mi_sizestore big HA_OFFSET_ERROR A @ rest) = mi_rowkorr big (mi_rowstore big A @ rest)"
    by (auto simp: mi_sizekorr_def mi_sizestore_def mi_rowkorr_def mi_rowstore_def)
  then show ?thesis using assms by (simp add: mi_rowstore_roundtrip)
qed

subsection \<open>Properties\<close>

text \<open>
  C34. Integers survive storing in a row or on disk. Every store writes the bytes of the value, low
  byte first (2, 3, 4, 5, 6 and 8 bytes) or high byte first (1 to 8 bytes); the load of the same width
  reads back every value that fits, and storing what was read gives the same bytes. The signed loads
  (2, 3, 4 and 8 bytes low byte first, 1, 2, 3, 4 and 8 bytes high byte first) read back every number
  of their range. Keys of any width stored high byte first compare byte by byte like the numbers. Each
  portable macro of either header computes what the one for x86-64 computes, on any buffer that is long
  enough; \<open>int4net\<close> is the four byte load. Row numbers and file offsets survive in both builds, and so
  do, on each of the three layouts, floats and doubles. A sequence of six byte numbers is read back
  whole.
\<close>

theorem byte_order_roundtrip:
  assumes "8 \<le> length p" "\<forall>r \<in> set rows. uint r < 2 ^ 48" "\<not> big \<Longrightarrow> uint A < 2 ^ 32 \<and> offset_error = 4294967295"
    and "length f4 = 4" "length f8 = 8"
  shows "(le_pair 2 int2store uint2korr \<and> le_pair 3 int3store uint3korr \<and> le_pair 4 int4store uint4korr \<and>
      le_pair 5 int5store uint5korr \<and> le_pair 6 int6store uint6korr \<and> le_pair 8 int8store uint8korr) \<and>
    (signed_load 2 int2store sint2korr \<and> signed_load 3 int3store sint3korr \<and>
      signed_load 4 int4store sint4korr \<and> signed_load 8 int8store sint8korr) \<and>
    (be_pair 1 mi_int1store mi_uint1korr \<and> be_pair 2 mi_int2store mi_uint2korr \<and> be_pair 3 mi_int3store mi_uint3korr \<and>
      be_pair 4 mi_int4store mi_uint4korr \<and> be_pair 5 mi_int5store mi_uint5korr \<and> be_pair 6 mi_int6store mi_uint6korr \<and>
      be_pair 7 mi_int7store mi_uint7korr \<and> be_pair 8 mi_int8store mi_uint8korr) \<and>
    (signed_load 1 mi_int1store mi_sint1korr \<and> signed_load 2 mi_int2store mi_sint2korr \<and>
      signed_load 3 mi_int3store mi_sint3korr \<and> signed_load 4 mi_int4store mi_sint4korr \<and>
      signed_load 8 mi_int8store mi_sint8korr) \<and>
    (g_uint2korr p = uint2korr p \<and> g_sint2korr p = sint2korr p \<and> g_uint3korr p = uint3korr p \<and> g_sint3korr p = sint3korr p \<and>
      g_uint4korr p = uint4korr p \<and> g_sint4korr p = sint4korr p \<and> g_uint5korr p = uint5korr p \<and>
      g_uint6korr p = uint6korr p \<and> g_uint8korr p = uint8korr p \<and> g_sint8korr p = sint8korr p) \<and>
    (p_mi_uint5korr p = mi_uint5korr p \<and> p_mi_uint6korr p = mi_uint6korr p \<and> p_mi_uint7korr p = mi_uint7korr p \<and>
      p_mi_uint8korr p = mi_uint8korr p \<and> int4net p = mi_uint4korr p) \<and>
    (g_int2store a = int2store a \<and> g_int3store a = int3store a \<and> g_int4store a = int4store a \<and>
      g_int5store v = int5store v \<and> g_int6store v = int6store v \<and> g_int8store v = int8store v) \<and>
    (mi_rowkorr big (mi_rowstore big A @ rest) = A \<and> mi_sizekorr big (mi_sizestore big offset_error A @ rest) = A) \<and>
    (mi_float4get layout (mi_float4store layout f4 @ rest) = f4 \<and> mi_float8get layout (mi_float8store layout f8 @ rest) = f8 \<and>
      float4get layout (float4store layout f4 @ rest) = f4 \<and> float8get layout (float8store layout f8 @ rest) = f8) \<and>
    load_all uint6korr 6 (length rows) (concat (map int6store rows) @ rest) = rows"
proof -
  have rows: "\<forall>r \<in> set rows. uint r < 2 ^ (8 * 6)" using assms(2) by simp
  have l: "2 \<le> length p" "4 \<le> length p" "5 \<le> length p" "6 \<le> length p" "7 \<le> length p" using assms(1) by simp_all
  have row: "mi_rowkorr big (mi_rowstore big A @ rest) = A"
    and size: "mi_sizekorr big (mi_sizestore big offset_error A @ rest) = A"
    using assms(3) by (simp_all add: mi_rowstore_roundtrip mi_sizestore_roundtrip)
  have net: "int4net p = mi_uint4korr p" by (simp add: int4net_def mi_uint4korr_def)
  show ?thesis
    by (intro conjI le_pairs le_signed signed_three be_pairs be_signed portable_stores row size net
        portable_reads bswap_reads [symmetric] float_roundtrips le6.load_all_store [OF rows] assms l)
qed

lemma byte_order_roundtrip_witness:
  "sint (mi_sint3korr (mi_int3store (word_of_int (- 70000)) @ [])) = - 70000 \<and>
   load_all uint6korr 6 (length [3, 70000 :: u64]) (concat (map int6store [3, 70000]) @ []) = [3, 70000]"
proof -
  have "signed_load 3 mi_int3store mi_sint3korr"
    "load_all uint6korr 6 (length [3, 70000 :: u64]) (concat (map int6store [3, 70000]) @ []) = [3, 70000]"
    using byte_order_roundtrip [of "replicate 8 0" "[3, 70000]" False 70000 4294967295 "replicate 4 0" "replicate 8 0" 0 0 "[]"
        Words_Little_Endian] by (simp_all del: load_all.simps list.map)
  moreover from this(1) [unfolded signed_load_def, rule_format, of "- 70000" "[]"]
  have "sint (mi_sint3korr (mi_int3store (word_of_int (- 70000)) @ [])) = - 70000" by simp
  ultimately show ?thesis by blast
qed

end
