(* ===== verification/Privilege.thy ===== *)
(*  Title:      Privilege.thy
    Privilege bits, masks and their storage in the grant tables.
*)

theory Privilege
  imports Bits
begin

text \<open>
  Model of the first and last parts of \<open>private/privilege.h\<close>: the bits of \<open>privilege_t\<close>, the
  operators on them, the version markers, the masks of the privilege levels, and the functions
  that move the bits of a level to and from the chunks the grant tables keep. The enumeration has
  the 64-bit underlying type \<open>unsigned long long\<close>, so a set of privileges is a 64-bit word. The
  constants that name what a statement or variable asks for are in \<open>Privilege_Rules\<close>.
\<close>

unbundle bit_operations_syntax

named_theorems acl_bits \<open>the single privilege bits\<close>
named_theorems acl_masks \<open>the combinations of privilege bits\<close>

type_synonym privilege_t = u64

subsection \<open>The enumeration\<close>

definition NO_ACL :: privilege_t where [acl_bits]: "NO_ACL = 0"
definition SELECT_ACL :: privilege_t where [acl_bits]: "SELECT_ACL = push_bit 0 1"
definition INSERT_ACL :: privilege_t where [acl_bits]: "INSERT_ACL = push_bit 1 1"
definition UPDATE_ACL :: privilege_t where [acl_bits]: "UPDATE_ACL = push_bit 2 1"
definition DELETE_ACL :: privilege_t where [acl_bits]: "DELETE_ACL = push_bit 3 1"
definition CREATE_ACL :: privilege_t where [acl_bits]: "CREATE_ACL = push_bit 4 1"
definition DROP_ACL :: privilege_t where [acl_bits]: "DROP_ACL = push_bit 5 1"
definition RELOAD_ACL :: privilege_t where [acl_bits]: "RELOAD_ACL = push_bit 6 1"
definition SHUTDOWN_ACL :: privilege_t where [acl_bits]: "SHUTDOWN_ACL = push_bit 7 1"
definition PROCESS_ACL :: privilege_t where [acl_bits]: "PROCESS_ACL = push_bit 8 1"
definition FILE_ACL :: privilege_t where [acl_bits]: "FILE_ACL = push_bit 9 1"
definition GRANT_ACL :: privilege_t where [acl_bits]: "GRANT_ACL = push_bit 10 1"
definition REFERENCES_ACL :: privilege_t where [acl_bits]: "REFERENCES_ACL = push_bit 11 1"
definition INDEX_ACL :: privilege_t where [acl_bits]: "INDEX_ACL = push_bit 12 1"
definition ALTER_ACL :: privilege_t where [acl_bits]: "ALTER_ACL = push_bit 13 1"
definition SHOW_DB_ACL :: privilege_t where [acl_bits]: "SHOW_DB_ACL = push_bit 14 1"
definition SUPER_ACL :: privilege_t where [acl_bits]: "SUPER_ACL = push_bit 15 1"
definition CREATE_TMP_ACL :: privilege_t where [acl_bits]: "CREATE_TMP_ACL = push_bit 16 1"
definition LOCK_TABLES_ACL :: privilege_t where [acl_bits]: "LOCK_TABLES_ACL = push_bit 17 1"
definition EXECUTE_ACL :: privilege_t where [acl_bits]: "EXECUTE_ACL = push_bit 18 1"
definition REPL_SLAVE_ACL :: privilege_t where [acl_bits]: "REPL_SLAVE_ACL = push_bit 19 1"
definition BINLOG_MONITOR_ACL :: privilege_t where [acl_bits]: "BINLOG_MONITOR_ACL = push_bit 20 1"
definition CREATE_VIEW_ACL :: privilege_t where [acl_bits]: "CREATE_VIEW_ACL = push_bit 21 1"
definition SHOW_VIEW_ACL :: privilege_t where [acl_bits]: "SHOW_VIEW_ACL = push_bit 22 1"
definition CREATE_PROC_ACL :: privilege_t where [acl_bits]: "CREATE_PROC_ACL = push_bit 23 1"
definition ALTER_PROC_ACL :: privilege_t where [acl_bits]: "ALTER_PROC_ACL = push_bit 24 1"
definition CREATE_USER_ACL :: privilege_t where [acl_bits]: "CREATE_USER_ACL = push_bit 25 1"
definition EVENT_ACL :: privilege_t where [acl_bits]: "EVENT_ACL = push_bit 26 1"
definition TRIGGER_ACL :: privilege_t where [acl_bits]: "TRIGGER_ACL = push_bit 27 1"
definition CREATE_TABLESPACE_ACL :: privilege_t where [acl_bits]: "CREATE_TABLESPACE_ACL = push_bit 28 1"
definition DELETE_HISTORY_ACL :: privilege_t where [acl_bits]: "DELETE_HISTORY_ACL = push_bit 29 1"
definition SET_USER_ACL :: privilege_t where [acl_bits]: "SET_USER_ACL = push_bit 30 1"
definition FEDERATED_ADMIN_ACL :: privilege_t where [acl_bits]: "FEDERATED_ADMIN_ACL = push_bit 31 1"
definition CONNECTION_ADMIN_ACL :: privilege_t where [acl_bits]: "CONNECTION_ADMIN_ACL = push_bit 32 1"
definition READ_ONLY_ADMIN_ACL :: privilege_t where [acl_bits]: "READ_ONLY_ADMIN_ACL = push_bit 33 1"
definition REPL_SLAVE_ADMIN_ACL :: privilege_t where [acl_bits]: "REPL_SLAVE_ADMIN_ACL = push_bit 34 1"
definition REPL_MASTER_ADMIN_ACL :: privilege_t where [acl_bits]: "REPL_MASTER_ADMIN_ACL = push_bit 35 1"
definition BINLOG_ADMIN_ACL :: privilege_t where [acl_bits]: "BINLOG_ADMIN_ACL = push_bit 36 1"
definition BINLOG_REPLAY_ACL :: privilege_t where [acl_bits]: "BINLOG_REPLAY_ACL = push_bit 37 1"
definition SLAVE_MONITOR_ACL :: privilege_t where [acl_bits]: "SLAVE_MONITOR_ACL = push_bit 38 1"

text \<open>The enumerators in their order.\<close>

definition privilege_bits :: "privilege_t list" where
  "privilege_bits =
    [SELECT_ACL, INSERT_ACL, UPDATE_ACL, DELETE_ACL, CREATE_ACL, DROP_ACL, RELOAD_ACL,
     SHUTDOWN_ACL, PROCESS_ACL, FILE_ACL, GRANT_ACL, REFERENCES_ACL, INDEX_ACL, ALTER_ACL,
     SHOW_DB_ACL, SUPER_ACL, CREATE_TMP_ACL, LOCK_TABLES_ACL, EXECUTE_ACL, REPL_SLAVE_ACL,
     BINLOG_MONITOR_ACL, CREATE_VIEW_ACL, SHOW_VIEW_ACL, CREATE_PROC_ACL, ALTER_PROC_ACL,
     CREATE_USER_ACL, EVENT_ACL, TRIGGER_ACL, CREATE_TABLESPACE_ACL, DELETE_HISTORY_ACL,
     SET_USER_ACL, FEDERATED_ADMIN_ACL, CONNECTION_ADMIN_ACL, READ_ONLY_ADMIN_ACL,
     REPL_SLAVE_ADMIN_ACL, REPL_MASTER_ADMIN_ACL, BINLOG_ADMIN_ACL, BINLOG_REPLAY_ACL,
     SLAVE_MONITOR_ACL]"

subsection \<open>Operators\<close>

definition ALL_KNOWN_BITS :: "privilege_t \<Rightarrow> privilege_t" where
  "ALL_KNOWN_BITS x = x OR (x - 1)"

definition priv_not :: "privilege_t \<Rightarrow> u64" where
  "priv_not access = NOT access"

definition priv_and :: "privilege_t \<Rightarrow> privilege_t \<Rightarrow> privilege_t" where
  "priv_and a b = a AND b"

definition priv_and_left :: "u64 \<Rightarrow> privilege_t \<Rightarrow> privilege_t" where
  "priv_and_left a b = a AND b"

definition priv_and_right :: "privilege_t \<Rightarrow> u64 \<Rightarrow> privilege_t" where
  "priv_and_right a b = a AND b"

definition priv_or :: "privilege_t \<Rightarrow> privilege_t \<Rightarrow> privilege_t" where
  "priv_or a b = a OR b"

text \<open>The assignments return the new value of the operand they update.\<close>

definition priv_and_assign :: "privilege_t \<Rightarrow> privilege_t \<Rightarrow> privilege_t" where
  "priv_and_assign a b = priv_and a b"

definition priv_and_assign_bits :: "privilege_t \<Rightarrow> u64 \<Rightarrow> privilege_t" where
  "priv_and_assign_bits a b = priv_and_right a b"

definition priv_or_assign :: "privilege_t \<Rightarrow> privilege_t \<Rightarrow> privilege_t" where
  "priv_or_assign a b = priv_or a b"

lemmas priv_operators = priv_not_def priv_and_def priv_and_left_def priv_and_right_def priv_or_def
  priv_and_assign_def priv_and_assign_bits_def priv_or_assign_def

subsection \<open>Version markers\<close>

definition LAST_100304_ACL :: privilege_t where [acl_masks]:
  "LAST_100304_ACL = DELETE_HISTORY_ACL"

definition LAST_100502_ACL :: privilege_t where [acl_masks]:
  "LAST_100502_ACL = BINLOG_REPLAY_ACL"

definition LAST_100508_ACL :: privilege_t where [acl_masks]:
  "LAST_100508_ACL = SLAVE_MONITOR_ACL"

definition LAST_CURRENT_ACL :: privilege_t where [acl_masks]:
  "LAST_CURRENT_ACL = LAST_100508_ACL"

definition PRIVILEGE_T_MAX_BIT :: u32 where
  "PRIVILEGE_T_MAX_BIT = my_bit_log2_uint64 LAST_CURRENT_ACL"

definition ALL_KNOWN_ACL_100304 :: privilege_t where [acl_masks]:
  "ALL_KNOWN_ACL_100304 = ALL_KNOWN_BITS LAST_100304_ACL"

definition ALL_KNOWN_ACL_100502 :: privilege_t where [acl_masks]:
  "ALL_KNOWN_ACL_100502 = ALL_KNOWN_BITS LAST_100502_ACL"

definition ALL_KNOWN_ACL_100508 :: privilege_t where [acl_masks]:
  "ALL_KNOWN_ACL_100508 = ALL_KNOWN_BITS LAST_100508_ACL"

definition ALL_KNOWN_ACL_100509 :: privilege_t where [acl_masks]:
  "ALL_KNOWN_ACL_100509 = ALL_KNOWN_ACL_100508"

definition ALL_KNOWN_ACL :: privilege_t where [acl_masks]:
  "ALL_KNOWN_ACL = ALL_KNOWN_BITS LAST_CURRENT_ACL"

subsection \<open>The privilege levels\<close>

definition GLOBAL_SUPER_ADDED_SINCE_USER_TABLE_ACLS :: privilege_t where [acl_masks]:
  "GLOBAL_SUPER_ADDED_SINCE_USER_TABLE_ACLS =
     SET_USER_ACL OR FEDERATED_ADMIN_ACL OR CONNECTION_ADMIN_ACL OR READ_ONLY_ADMIN_ACL OR
     REPL_SLAVE_ADMIN_ACL OR BINLOG_ADMIN_ACL OR BINLOG_REPLAY_ACL"

definition COL_DML_ACLS :: privilege_t where [acl_masks]:
  "COL_DML_ACLS = SELECT_ACL OR INSERT_ACL OR UPDATE_ACL OR DELETE_ACL"

definition VIEW_ACLS :: privilege_t where [acl_masks]:
  "VIEW_ACLS = CREATE_VIEW_ACL OR SHOW_VIEW_ACL"

definition STD_TABLE_DDL_ACLS :: privilege_t where [acl_masks]:
  "STD_TABLE_DDL_ACLS = CREATE_ACL OR DROP_ACL OR ALTER_ACL"

definition ALL_TABLE_DDL_ACLS :: privilege_t where [acl_masks]:
  "ALL_TABLE_DDL_ACLS = STD_TABLE_DDL_ACLS OR INDEX_ACL"

definition COL_ACLS :: privilege_t where [acl_masks]:
  "COL_ACLS = SELECT_ACL OR INSERT_ACL OR UPDATE_ACL OR REFERENCES_ACL"

definition PROC_DDL_ACLS :: privilege_t where [acl_masks]:
  "PROC_DDL_ACLS = CREATE_PROC_ACL OR ALTER_PROC_ACL"

definition SHOW_PROC_ACLS :: privilege_t where [acl_masks]:
  "SHOW_PROC_ACLS = PROC_DDL_ACLS OR EXECUTE_ACL"

definition TABLE_ACLS :: privilege_t where [acl_masks]:
  "TABLE_ACLS =
     COL_DML_ACLS OR ALL_TABLE_DDL_ACLS OR VIEW_ACLS OR GRANT_ACL OR REFERENCES_ACL OR
     TRIGGER_ACL OR DELETE_HISTORY_ACL"

definition DB_ACLS :: privilege_t where [acl_masks]:
  "DB_ACLS =
     TABLE_ACLS OR PROC_DDL_ACLS OR EXECUTE_ACL OR CREATE_TMP_ACL OR LOCK_TABLES_ACL OR
     EVENT_ACL"

definition PROC_ACLS :: privilege_t where [acl_masks]:
  "PROC_ACLS = ALTER_PROC_ACL OR EXECUTE_ACL OR GRANT_ACL"

definition GLOBAL_ACLS :: privilege_t where [acl_masks]:
  "GLOBAL_ACLS =
     DB_ACLS OR SHOW_DB_ACL OR CREATE_USER_ACL OR CREATE_TABLESPACE_ACL OR SUPER_ACL OR
     RELOAD_ACL OR SHUTDOWN_ACL OR PROCESS_ACL OR FILE_ACL OR REPL_SLAVE_ACL OR
     BINLOG_MONITOR_ACL OR GLOBAL_SUPER_ADDED_SINCE_USER_TABLE_ACLS OR
     REPL_MASTER_ADMIN_ACL OR SLAVE_MONITOR_ACL"

definition DEFAULT_CREATE_PROC_ACLS :: privilege_t where [acl_masks]:
  "DEFAULT_CREATE_PROC_ACLS = ALTER_PROC_ACL OR EXECUTE_ACL"

definition SHOW_CREATE_TABLE_ACLS :: privilege_t where [acl_masks]:
  "SHOW_CREATE_TABLE_ACLS =
     COL_DML_ACLS OR ALL_TABLE_DDL_ACLS OR TRIGGER_ACL OR REFERENCES_ACL OR GRANT_ACL OR
     VIEW_ACLS"

definition TMP_TABLE_ACLS :: privilege_t where [acl_masks]:
  "TMP_TABLE_ACLS = COL_DML_ACLS OR ALL_TABLE_DDL_ACLS OR REFERENCES_ACL"

subsection \<open>Chunks of the grant tables\<close>

definition DB_CHUNK0 :: privilege_t where [acl_masks]:
  "DB_CHUNK0 = COL_DML_ACLS OR CREATE_ACL OR DROP_ACL"

definition DB_CHUNK1 :: privilege_t where [acl_masks]:
  "DB_CHUNK1 = GRANT_ACL OR REFERENCES_ACL OR INDEX_ACL OR ALTER_ACL"

definition DB_CHUNK2 :: privilege_t where [acl_masks]:
  "DB_CHUNK2 = CREATE_TMP_ACL OR LOCK_TABLES_ACL"

definition DB_CHUNK3 :: privilege_t where [acl_masks]:
  "DB_CHUNK3 = VIEW_ACLS OR PROC_DDL_ACLS"

definition DB_CHUNK4 :: privilege_t where [acl_masks]:
  "DB_CHUNK4 = EXECUTE_ACL"

definition DB_CHUNK5 :: privilege_t where [acl_masks]:
  "DB_CHUNK5 = EVENT_ACL OR TRIGGER_ACL"

definition DB_CHUNK6 :: privilege_t where [acl_masks]:
  "DB_CHUNK6 = DELETE_HISTORY_ACL"

definition TBL_CHUNK0 :: privilege_t where [acl_masks]:
  "TBL_CHUNK0 = DB_CHUNK0"

definition TBL_CHUNK1 :: privilege_t where [acl_masks]:
  "TBL_CHUNK1 = DB_CHUNK1"

definition TBL_CHUNK2 :: privilege_t where [acl_masks]:
  "TBL_CHUNK2 = CREATE_VIEW_ACL OR SHOW_VIEW_ACL"

definition TBL_CHUNK3 :: privilege_t where [acl_masks]:
  "TBL_CHUNK3 = TRIGGER_ACL"

definition TBL_CHUNK4 :: privilege_t where [acl_masks]:
  "TBL_CHUNK4 = DELETE_HISTORY_ACL"

definition fix_rights_for_db :: "privilege_t \<Rightarrow> privilege_t" where
  "fix_rights_for_db access =
     (access AND DB_CHUNK0) OR
     (push_bit 4 access AND DB_CHUNK1) OR
     (push_bit 6 access AND DB_CHUNK2) OR
     (push_bit 9 access AND DB_CHUNK3) OR
     (push_bit 2 access AND DB_CHUNK4) OR
     (push_bit 9 access AND DB_CHUNK5) OR
     (push_bit 10 access AND DB_CHUNK6)"

definition get_rights_for_db :: "privilege_t \<Rightarrow> privilege_t" where
  "get_rights_for_db access =
     (access AND DB_CHUNK0) OR
     drop_bit 4 (access AND DB_CHUNK1) OR
     drop_bit 6 (access AND DB_CHUNK2) OR
     drop_bit 9 (access AND DB_CHUNK3) OR
     drop_bit 2 (access AND DB_CHUNK4) OR
     drop_bit 9 (access AND DB_CHUNK5) OR
     drop_bit 10 (access AND DB_CHUNK6)"

definition fix_rights_for_table :: "privilege_t \<Rightarrow> privilege_t" where
  "fix_rights_for_table access =
     (access AND TBL_CHUNK0) OR
     (push_bit 4 access AND TBL_CHUNK1) OR
     (push_bit 11 access AND TBL_CHUNK2) OR
     (push_bit 15 access AND TBL_CHUNK3) OR
     (push_bit 16 access AND TBL_CHUNK4)"

definition get_rights_for_table :: "privilege_t \<Rightarrow> privilege_t" where
  "get_rights_for_table access =
     (access AND TBL_CHUNK0) OR
     drop_bit 4 (access AND TBL_CHUNK1) OR
     drop_bit 11 (access AND TBL_CHUNK2) OR
     drop_bit 15 (access AND TBL_CHUNK3) OR
     drop_bit 16 (access AND TBL_CHUNK4)"

definition column_mask :: u64 where [acl_masks]:
  "column_mask = SELECT_ACL OR INSERT_ACL OR UPDATE_ACL"

definition fix_rights_for_column :: "privilege_t \<Rightarrow> privilege_t" where
  "fix_rights_for_column A = priv_and_right A column_mask OR push_bit 8 (priv_and_right A (NOT column_mask))"

definition get_rights_for_column :: "privilege_t \<Rightarrow> privilege_t" where
  "get_rights_for_column A = (A AND column_mask) OR drop_bit 8 A"

definition fix_rights_for_procedure :: "privilege_t \<Rightarrow> privilege_t" where
  "fix_rights_for_procedure access =
     (push_bit 18 access AND EXECUTE_ACL) OR
     (push_bit 23 access AND ALTER_PROC_ACL) OR
     (push_bit 8 access AND GRANT_ACL)"

definition get_rights_for_procedure :: "privilege_t \<Rightarrow> privilege_t" where
  "get_rights_for_procedure access =
     drop_bit 18 (access AND EXECUTE_ACL) OR
     drop_bit 23 (access AND ALTER_PROC_ACL) OR
     drop_bit 8 (access AND GRANT_ACL)"

subsection \<open>Values of the masks\<close>

lemmas acl_values = acl_bits acl_masks

lemma chunk_values:
  "DB_CHUNK0 = 0x3F" "DB_CHUNK1 = 0x3C00" "DB_CHUNK2 = 0x30000" "DB_CHUNK3 = 0x1E00000"
  "DB_CHUNK4 = 0x40000" "DB_CHUNK5 = 0xC000000" "DB_CHUNK6 = 0x20000000"
  "TBL_CHUNK0 = 0x3F" "TBL_CHUNK1 = 0x3C00" "TBL_CHUNK2 = 0x600000" "TBL_CHUNK3 = 0x8000000"
  "TBL_CHUNK4 = 0x20000000" "column_mask = 7"
  by (simp_all add: acl_values)

lemma level_values:
  "DB_ACLS = 0x2DE73C3F" "TABLE_ACLS = 0x28603C3F" "COL_ACLS = 0x807" "PROC_ACLS = 0x1040400"
  "GLOBAL_ACLS = 0x7FFFFFFFFF"
  by (simp_all add: acl_values)

lemma proc_bits: "EXECUTE_ACL = 0x40000" "ALTER_PROC_ACL = 0x1000000" "GRANT_ACL = 0x400"
  by (simp_all add: acl_values)

subsection \<open>Round trips through the grant tables\<close>

text \<open>Words are equal when their 64 bits are; the bits of the moved chunks compute.\<close>

lemma equal_bits_64:
  assumes "list_all (\<lambda>i. bit a i = bit b i) [0..<64]"
  shows "a = (b :: u64)"
  using assms by (auto intro!: bit_word_eqI simp: list_all_iff)

lemma upt_64:
  "[0..<64] = [0, 1, 2, 3, 4, 5, 6, 7, 8, 9, 10, 11, 12, 13, 14, 15, 16, 17, 18, 19, 20, 21, 22, 23, 24,
     25, 26, 27, 28, 29, 30, 31, 32, 33, 34, 35, 36, 37, 38, 39, 40, 41, 42, 43, 44, 45, 46, 47, 48,
     49, 50, 51, 52, 53, 54, 55, 56, 57, 58, 59, 60, 61, 62, 63]"
  by code_simp

lemmas rights_bits = upt_64 chunk_values level_values proc_bits bit_simps

lemma db_rights:
  "fix_rights_for_db (get_rights_for_db access) = access AND DB_ACLS"
  "get_rights_for_db (fix_rights_for_db stored) = stored AND 0xFFFFF"
  by (rule equal_bits_64, simp add: fix_rights_for_db_def get_rights_for_db_def rights_bits)+

lemma table_rights:
  "fix_rights_for_table (get_rights_for_table access) = access AND TABLE_ACLS"
  "get_rights_for_table (fix_rights_for_table stored) = stored AND 0x3FFF"
  by (rule equal_bits_64, simp add: fix_rights_for_table_def get_rights_for_table_def rights_bits)+

lemma procedure_rights:
  "fix_rights_for_procedure (get_rights_for_procedure access) = access AND PROC_ACLS"
  "get_rights_for_procedure (fix_rights_for_procedure stored) = stored AND 7"
  by (rule equal_bits_64,
      simp add: fix_rights_for_procedure_def get_rights_for_procedure_def rights_bits)+

text \<open>
  The column functions do not mask the shifted part: bits 8 to 10 of the argument of
  \<open>get_rights_for_column\<close> are read as the column bits 0 to 2.
\<close>

lemma column_rights:
  "get_rights_for_column (fix_rights_for_column stored) = stored AND mask 56"
  "fix_rights_for_column (get_rights_for_column access) =
     ((access OR drop_bit 8 access) AND 7) OR (access AND NOT (mask 11))"
  by (rule equal_bits_64,
      simp add: fix_rights_for_column_def get_rights_for_column_def priv_operators rights_bits)+

subsection \<open>Properties\<close>

text \<open>
  The enumerators are exactly the bits 0 to 38 in order, the static assertion on
  \<open>PRIVILEGE_T_MAX_BIT\<close> holds, the global level grants every known bit and nothing else, each
  level contains the one below it, and the bits added for SUPER since the old user table are new
  in 10.5.2: none of them is known to 10.3.4.
\<close>

lemma privilege_levels:
  "privilege_bits = map (\<lambda>i. push_bit i 1) [0..<39] \<and>
   push_bit (unat PRIVILEGE_T_MAX_BIT) 1 = LAST_CURRENT_ACL \<and>
   ALL_KNOWN_ACL = GLOBAL_ACLS \<and> foldr (OR) privilege_bits NO_ACL = ALL_KNOWN_ACL \<and>
   priv_and COL_ACLS TABLE_ACLS = COL_ACLS \<and> priv_and TABLE_ACLS DB_ACLS = TABLE_ACLS \<and>
   priv_and PROC_ACLS DB_ACLS = PROC_ACLS \<and> priv_and DB_ACLS GLOBAL_ACLS = DB_ACLS \<and>
   priv_and TMP_TABLE_ACLS TABLE_ACLS = TMP_TABLE_ACLS \<and>
   priv_and SHOW_CREATE_TABLE_ACLS TABLE_ACLS = SHOW_CREATE_TABLE_ACLS \<and>
   priv_and GLOBAL_SUPER_ADDED_SINCE_USER_TABLE_ACLS ALL_KNOWN_ACL_100304 = NO_ACL \<and>
   priv_and GLOBAL_SUPER_ADDED_SINCE_USER_TABLE_ACLS ALL_KNOWN_ACL_100502
     = GLOBAL_SUPER_ADDED_SINCE_USER_TABLE_ACLS"
proof -
  have "privilege_bits = map (\<lambda>i. push_bit i 1) [0..<39]" by code_simp
  moreover have "push_bit (unat PRIVILEGE_T_MAX_BIT) 1 = LAST_CURRENT_ACL" by code_simp
  moreover have "foldr (OR) privilege_bits NO_ACL = ALL_KNOWN_ACL" by code_simp
  ultimately show ?thesis
    by (simp add: acl_values ALL_KNOWN_BITS_def priv_operators)
qed

text \<open>
  What the db, tables_priv and procs_priv columns can hold survives storing: reading a level's
  bits into contiguous table bits and putting them back keeps exactly the bits of that level,
  \<open>DB_ACLS\<close>, \<open>TABLE_ACLS\<close> or \<open>PROC_ACLS\<close>, and the other way round keeps exactly the 20, 14 or 3
  table bits.
\<close>

lemma grant_table_rights_roundtrip:
  "fix_rights_for_db (get_rights_for_db access) = priv_and access DB_ACLS \<and>
   get_rights_for_db (fix_rights_for_db stored) = priv_and_right stored (mask 20) \<and>
   fix_rights_for_table (get_rights_for_table access) = priv_and access TABLE_ACLS \<and>
   get_rights_for_table (fix_rights_for_table stored) = priv_and_right stored (mask 14) \<and>
   fix_rights_for_procedure (get_rights_for_procedure access) = priv_and access PROC_ACLS \<and>
   get_rights_for_procedure (fix_rights_for_procedure stored) = priv_and_right stored (mask 3)"
  by (simp add: db_rights table_rights procedure_rights priv_operators mask_eq_exp_minus_1)

text \<open>
  Column privileges survive storing when the set holds none of the bits 8 to 10 (PROCESS, FILE
  and GRANT); \<open>get_rights_for_column\<close> does not mask what it shifts, so GRANT_ACL, which a table
  privilege set may contain, is read as UPDATE_ACL.
\<close>

lemma column_rights_roundtrip:
  assumes "priv_and access COL_ACLS = access"
  shows "fix_rights_for_column (get_rights_for_column access) = access \<and>
    get_rights_for_column (priv_or access GRANT_ACL) = priv_or (get_rights_for_column access) UPDATE_ACL"
proof
  have a: "access = access AND 0x807" using assms by (simp add: priv_operators level_values)
  show "fix_rights_for_column (get_rights_for_column access) = access"
    by (subst (1 2) a, rule equal_bits_64, simp add: column_rights(2) rights_bits)
  show "get_rights_for_column (priv_or access GRANT_ACL) = priv_or (get_rights_for_column access) UPDATE_ACL"
    by (rule equal_bits_64, simp add: get_rights_for_column_def priv_operators rights_bits UPDATE_ACL_def)
qed

lemma column_rights_roundtrip_witness:
  "fix_rights_for_column (get_rights_for_column (priv_or SELECT_ACL REFERENCES_ACL))
     = priv_or SELECT_ACL REFERENCES_ACL"
  using column_rights_roundtrip [of "priv_or SELECT_ACL REFERENCES_ACL"]
  by (simp add: priv_operators acl_values)

end
