(* ===== verification/Hash_Filo.thy ===== *)
theory Hash_Filo
  imports List_Heap
begin

text \<open>
  The cache of recently used entries of \<open>hash_filo.h\<close>: a hash table whose entries are also linked
  from the most to the least recently used one. The links are fields of the entries, so memory is
  two functions on addresses; the hash table \<open>HASH\<close> is code of another library and a parameter,
  the record \<open>hash_ops\<close> of the functions \<open>hash_filo\<close> calls. What the documentation of these
  functions promises is \<open>hash_ok\<close>. \<open>filo_ok H s xs\<close> says that the chain of \<open>s\<close> is the sequence
  \<open>xs\<close> and that the table holds exactly its members; the lemmas show that \<open>search\<close> moves the
  entry found to the front and that \<open>add\<close> evicts the last entry of a full cache, for single calls
  and for every run of calls.
\<close>

subsection \<open>The hash table\<close>

record ('k, 'h) hash_ops =
  hash_new :: "u32 \<Rightarrow> 'h"
  hash_search :: "'h \<Rightarrow> 'k \<Rightarrow> addr"
  hash_insert :: "addr \<Rightarrow> 'h \<Rightarrow> bool \<times> 'h"
  hash_delete :: "addr \<Rightarrow> 'h \<Rightarrow> 'h"
  hash_records :: "'h \<Rightarrow> u32"

text \<open>
  \<open>elems\<close> is the set of entries of a table and \<open>matches k a\<close> says that the key stored in the entry
  \<open>a\<close> is \<open>k\<close>. An insertion may fail (no memory); then the table is unchanged.
\<close>

definition hash_ok :: "('k, 'h) hash_ops \<Rightarrow> ('h \<Rightarrow> addr set) \<Rightarrow> ('k \<Rightarrow> addr \<Rightarrow> bool) \<Rightarrow> bool" where
  "hash_ok H elems matches \<longleftrightarrow>
     (\<forall>n. elems (hash_new H n) = {}) \<and>
     (\<forall>h. finite (elems h) \<and> card (elems h) = unat (hash_records H h)) \<and>
     (\<forall>h k. (if \<exists>a \<in> elems h. matches k a
             then hash_search H h k \<in> elems h \<and> matches k (hash_search H h k)
             else hash_search H h k = NULL)) \<and>
     (\<forall>h a. a \<notin> elems h \<longrightarrow>
        elems (snd (hash_insert H a h)) = (if fst (hash_insert H a h) then elems h else insert a (elems h))) \<and>
     (\<forall>h a. elems (hash_delete H a h) = elems h - {a})"

subsection \<open>hash_filo\<close>

text \<open>
  \<open>filo_lock\<close> is true while the calling thread owns the mutex \<open>lock\<close>; \<open>filo_frees\<close> says that
  \<open>free_element\<close> is not null, and \<open>filo_freed\<close> lists the entries \<open>add\<close> handed to it.
\<close>

record 'h hash_filo =
  filo_size :: u32
  filo_init :: bool
  first_link :: addr
  last_link :: addr
  next_used :: "addr \<Rightarrow> addr"
  prev_used :: "addr \<Rightarrow> addr"
  filo_lock :: bool
  filo_frees :: bool
  filo_freed :: "addr list"
  filo_cache :: 'h

definition set_next_used :: "addr \<Rightarrow> addr \<Rightarrow> 'h hash_filo \<Rightarrow> 'h hash_filo" where
  "set_next_used a b s = s\<lparr>next_used := (next_used s)(a := b)\<rparr>"

definition set_prev_used :: "addr \<Rightarrow> addr \<Rightarrow> 'h hash_filo \<Rightarrow> 'h hash_filo" where
  "set_prev_used a b s = s\<lparr>prev_used := (prev_used s)(a := b)\<rparr>"

lemma filo_writes [simp, heap_simps]:
  "next_used (set_next_used a b s) = (next_used s)(a := b)"
  "next_used (set_prev_used a b s) = next_used s"
  "prev_used (set_prev_used a b s) = (prev_used s)(a := b)"
  "prev_used (set_next_used a b s) = prev_used s"
  "first_link (set_next_used a b s) = first_link s" "first_link (set_prev_used a b s) = first_link s"
  "last_link (set_next_used a b s) = last_link s" "last_link (set_prev_used a b s) = last_link s"
  "filo_size (set_next_used a b s) = filo_size s" "filo_size (set_prev_used a b s) = filo_size s"
  "filo_init (set_next_used a b s) = filo_init s" "filo_init (set_prev_used a b s) = filo_init s"
  "filo_lock (set_next_used a b s) = filo_lock s" "filo_lock (set_prev_used a b s) = filo_lock s"
  "filo_frees (set_next_used a b s) = filo_frees s" "filo_frees (set_prev_used a b s) = filo_frees s"
  "filo_freed (set_next_used a b s) = filo_freed s" "filo_freed (set_prev_used a b s) = filo_freed s"
  "filo_cache (set_next_used a b s) = filo_cache s" "filo_cache (set_prev_used a b s) = filo_cache s"
  by (simp_all add: set_next_used_def set_prev_used_def)

text \<open>The constructor zeroes the table, which the parameter \<open>zeroed\<close> stands for.\<close>

definition filo_make :: "'h \<Rightarrow> bool \<Rightarrow> u32 \<Rightarrow> (addr \<Rightarrow> addr) \<Rightarrow> (addr \<Rightarrow> addr) \<Rightarrow> 'h hash_filo" where
  "filo_make zeroed frees size_arg nx pv =
     \<lparr>filo_size = size_arg, filo_init = False, first_link = NULL, last_link = NULL,
      next_used = nx, prev_used = pv, filo_lock = False,
      filo_frees = frees, filo_freed = [], filo_cache = zeroed\<rparr>"

text \<open>Locking a mutex the thread owns does not return.\<close>

definition filo_clear :: "('k, 'h) hash_ops \<Rightarrow> bool \<Rightarrow> 'h hash_filo \<Rightarrow> 'h hash_filo option" where
  "filo_clear H locked s =
     (let s = (if \<not> filo_init s then s\<lparr>filo_init := True, filo_lock := False\<rparr> else s)
      in if \<not> locked \<and> filo_lock s then None
         else (let s = s\<lparr>first_link := NULL, last_link := NULL\<rparr>;
                   s = s\<lparr>filo_cache := hash_new H (filo_size s)\<rparr>
               in Some (if locked then s else s\<lparr>filo_lock := False\<rparr>)))"

definition filo_first :: "'h hash_filo \<Rightarrow> addr option" where
  "filo_first s = guard (filo_lock s) (first_link s)"

definition filo_last :: "'h hash_filo \<Rightarrow> addr option" where
  "filo_last s = guard (filo_lock s) (last_link s)"

text \<open>Taking an entry other than the first one out of the chain.\<close>

definition filo_unlink :: "addr \<Rightarrow> 'h hash_filo \<Rightarrow> 'h hash_filo option" where
  "filo_unlink entry s =
     (if entry = last_link s
      then (let s = s\<lparr>last_link := prev_used s (last_link s)\<rparr>
            in guard (last_link s \<noteq> NULL) (set_next_used (last_link s) NULL s))
      else guard (next_used s entry \<noteq> NULL \<and> prev_used s entry \<noteq> NULL)
             (let s = set_prev_used (next_used s entry) (prev_used s entry) s
              in set_next_used (prev_used s entry) (next_used s entry) s))"

definition filo_search :: "('k, 'h) hash_ops \<Rightarrow> 'k \<Rightarrow> 'h hash_filo \<Rightarrow> (addr \<times> 'h hash_filo) option" where
  "filo_search H key s =
     (if \<not> filo_lock s then None
      else (let entry = hash_search H (filo_cache s) key
            in if entry = NULL then Some (entry, s)
               else if first_link s = NULL \<or> last_link s = NULL then None
               else if entry = first_link s then Some (entry, s)
               else (case filo_unlink entry s of
                       None \<Rightarrow> None
                     | Some s \<Rightarrow>
                         (let s = set_prev_used entry NULL s;
                              s = set_next_used entry (first_link s) s;
                              s = set_prev_used (first_link s) entry s
                          in Some (entry, s\<lparr>first_link := entry\<rparr>)))))"

text \<open>Dropping the least recently used entry; following the null \<open>last_link\<close> is undefined.\<close>

definition filo_evict :: "('k, 'h) hash_ops \<Rightarrow> 'h hash_filo \<Rightarrow> 'h hash_filo option" where
  "filo_evict H s =
     (let tmp = last_link s
      in if last_link s = NULL then None
         else (let s = s\<lparr>last_link := prev_used s (last_link s)\<rparr>;
                   s = (if last_link s \<noteq> NULL then set_next_used (last_link s) NULL s
                        else s\<lparr>first_link := NULL\<rparr>)
               in Some (s\<lparr>filo_cache := hash_delete H tmp (filo_cache s)\<rparr>)))"

definition filo_add :: "('k, 'h) hash_ops \<Rightarrow> addr \<Rightarrow> 'h hash_filo \<Rightarrow> (bool \<times> 'h hash_filo) option" where
  "filo_add H entry s =
     (if filo_size s = 0 then Some (True, s)
      else (case (if hash_records H (filo_cache s) = filo_size s then filo_evict H s else Some s) of
              None \<Rightarrow> None
            | Some s \<Rightarrow>
                (let (failed, h) = hash_insert H entry (filo_cache s); s = s\<lparr>filo_cache := h\<rparr>
                 in if failed
                    then Some (True, if filo_frees s then s\<lparr>filo_freed := entry # filo_freed s\<rparr> else s)
                    else (let s = set_prev_used entry NULL s;
                              s = set_next_used entry (first_link s) s;
                              s = (if first_link s \<noteq> NULL then set_prev_used (first_link s) entry s
                                   else s\<lparr>last_link := entry\<rparr>)
                          in Some (False, s\<lparr>first_link := entry\<rparr>)))))"

text \<open>Locking the mutex before the first \<open>clear\<close> has initialised it is undefined.\<close>

definition filo_resize :: "('k, 'h) hash_ops \<Rightarrow> u32 \<Rightarrow> 'h hash_filo \<Rightarrow> 'h hash_filo option" where
  "filo_resize H new_size s =
     (if \<not> filo_init s \<or> filo_lock s then None
      else map_option (\<lambda>s. s\<lparr>filo_lock := False\<rparr>)
             (filo_clear H True (s\<lparr>filo_lock := True, filo_size := new_size\<rparr>)))"

subsection \<open>The chain\<close>

text \<open>
  \<open>used_seg nx pv b e xs\<close>: the entries \<open>xs\<close> are linked both ways, after \<open>b\<close> and before \<open>e\<close>.
\<close>

definition head_of :: "addr \<Rightarrow> addr list \<Rightarrow> addr" where
  "head_of e xs = (case xs of [] \<Rightarrow> e | x # _ \<Rightarrow> x)"

definition last_of :: "addr \<Rightarrow> addr list \<Rightarrow> addr" where
  "last_of b xs = (if xs = [] then b else last xs)"

fun used_seg :: "(addr \<Rightarrow> addr) \<Rightarrow> (addr \<Rightarrow> addr) \<Rightarrow> addr \<Rightarrow> addr \<Rightarrow> addr list \<Rightarrow> bool" where
  "used_seg nx pv b e [] \<longleftrightarrow> True"
| "used_seg nx pv b e (x # xs) \<longleftrightarrow> pv x = b \<and> nx x = head_of e xs \<and> used_seg nx pv x e xs"

lemma chain_ends [simp]:
  "head_of e [] = e" "head_of e (x # xs) = x" "head_of e (xs @ ys) = head_of (head_of e ys) xs"
  "last_of b [] = b" "last_of b (x # xs) = last_of x xs" "last_of b (xs @ ys) = last_of (last_of b xs) ys"
  by (simp_all add: head_of_def last_of_def split: list.splits)

lemma ends_mem: "last_of b xs \<in> insert b (set xs)" "head_of b xs \<in> insert b (set xs)"
  by (simp_all add: head_of_def last_of_def split: list.splits)

lemma last_of_real: "xs \<noteq> [] \<Longrightarrow> NULL \<notin> set xs \<Longrightarrow> last_of b xs \<noteq> NULL \<and> last_of b xs \<in> set xs"
  by (metis last_in_set last_of_def)

lemma head_of_real: "xs \<noteq> [] \<Longrightarrow> NULL \<notin> set xs \<Longrightarrow> head_of e xs \<noteq> NULL \<and> head_of e xs = hd xs"
  by (cases xs) auto

lemma used_seg_append [simp]:
  "used_seg nx pv b e (xs @ ys) \<longleftrightarrow>
     used_seg nx pv b (head_of e ys) xs \<and> used_seg nx pv (last_of b xs) e ys"
  by (induction xs arbitrary: b) auto

lemma used_seg_upd [simp]:
  "a \<notin> set xs \<Longrightarrow> used_seg (nx(a := v)) pv b e xs \<longleftrightarrow> used_seg nx pv b e xs"
  "a \<notin> set xs \<Longrightarrow> used_seg nx (pv(a := v)) b e xs \<longleftrightarrow> used_seg nx pv b e xs"
  by (induction xs arbitrary: b) auto

text \<open>Redirecting the last entry, and the first one.\<close>

lemma used_seg_new_end:
  "used_seg nx pv b e xs \<Longrightarrow> distinct xs \<Longrightarrow> xs \<noteq> [] \<Longrightarrow> used_seg (nx(last_of b xs := e')) pv b e' xs"
proof (induction xs arbitrary: b)
  case (Cons x xs)
  then show ?case by (cases xs) (auto dest: Cons.IH simp: last_of_def split: if_splits)
qed simp

lemma used_seg_new_start:
  "used_seg nx pv b e xs \<Longrightarrow> distinct xs \<Longrightarrow> xs \<noteq> [] \<Longrightarrow> used_seg nx (pv(head_of e xs := b')) b' e xs"
  by (cases xs) auto

definition filo_ok :: "('h \<Rightarrow> addr set) \<Rightarrow> 'h hash_filo \<Rightarrow> addr list \<Rightarrow> bool" where
  "filo_ok elems s xs \<longleftrightarrow>
     distinct xs \<and> NULL \<notin> set xs \<and> set xs = elems (filo_cache s) \<and>
     first_link s = head_of NULL xs \<and> last_link s = last_of NULL xs \<and>
     used_seg (next_used s) (prev_used s) NULL NULL xs \<and> length xs \<le> unat (filo_size s)"

lemma filo_unlink_mid:
  assumes "used_seg (next_used s) (prev_used s) NULL NULL (xs @ x # ys)" "distinct (xs @ x # ys)"
    and "NULL \<notin> set (xs @ x # ys)" "last_link s = last_of NULL (xs @ x # ys)" "xs \<noteq> []"
  shows "\<exists>s'. filo_unlink x s = Some s' \<and> used_seg (next_used s') (prev_used s') NULL NULL (xs @ ys) \<and>
    last_link s' = last_of NULL (xs @ ys) \<and> first_link s' = first_link s \<and> filo_cache s' = filo_cache s \<and>
    filo_size s' = filo_size s \<and> filo_lock s' = filo_lock s"
proof (cases ys)
  case Nil
  have l: "last_of NULL xs \<noteq> NULL" using last_of_real [of xs] assms(3,5) by simp
  show ?thesis
    using assms Nil l used_seg_new_end [of "next_used s" "prev_used s" NULL x xs NULL]
    by (simp add: filo_unlink_def)
next
  case (Cons y zs)
  have l: "last_of NULL xs \<noteq> NULL" "last_of NULL xs \<in> set xs"
    using last_of_real [of xs] assms(3,5) by simp_all
  have d: "last_of NULL xs \<notin> set zs" "last_of NULL xs \<noteq> y" using assms(2) Cons l(2) by auto
  have m: "last_of y zs \<noteq> x" using assms(2) Cons ends_mem(1) [of y zs] by auto
  show ?thesis
    using assms Cons l m d used_seg_new_end [of "next_used s" "prev_used s" NULL x xs y]
    by (auto simp: filo_unlink_def Let_def fun_upd_twist)
qed

lemma hash_rules:
  assumes "hash_ok H elems matches"
  shows "elems (hash_new H n) = {}" "finite (elems h)" "unat (hash_records H h) = card (elems h)"
    and "elems (hash_delete H a h) = elems h - {a}"
    and "hash_insert H b h = (failed, h') \<Longrightarrow> b \<notin> elems h \<Longrightarrow> elems h' = (if failed then elems h else insert b (elems h))"
    and "c \<in> elems h \<Longrightarrow> matches k c \<Longrightarrow> hash_search H h k \<in> elems h \<and> matches k (hash_search H h k)"
    and "\<forall>c \<in> elems h. \<not> matches k c \<Longrightarrow> hash_search H h k = NULL"
proof -
  show "elems (hash_new H n) = {}" "finite (elems h)" "unat (hash_records H h) = card (elems h)"
    "elems (hash_delete H a h) = elems h - {a}"
    using assms by (simp_all add: hash_ok_def)
  show "hash_insert H b h = (failed, h') \<Longrightarrow> b \<notin> elems h \<Longrightarrow> elems h' = (if failed then elems h else insert b (elems h))"
    using assms unfolding hash_ok_def by (metis fst_conv snd_conv)
  have "if \<exists>a \<in> elems h. matches k a then hash_search H h k \<in> elems h \<and> matches k (hash_search H h k)
      else hash_search H h k = NULL"
    using assms by (simp add: hash_ok_def)
  then show "c \<in> elems h \<Longrightarrow> matches k c \<Longrightarrow> hash_search H h k \<in> elems h \<and> matches k (hash_search H h k)"
    "\<forall>c \<in> elems h. \<not> matches k c \<Longrightarrow> hash_search H h k = NULL"
    by (meson, simp)
qed

lemma filo_search_chain:
  assumes H: "hash_ok H elems matches" and ok: "filo_ok elems s xs" and "filo_lock s"
  shows "if \<exists>a \<in> set xs. matches k a
    then \<exists>e s'. filo_search H k s = Some (e, s') \<and> e \<in> set xs \<and> matches k e \<and>
           filo_ok elems s' (e # remove1 e xs) \<and> filo_lock s' \<and> filo_size s' = filo_size s
    else filo_search H k s = Some (NULL, s)"
proof (cases "\<exists>a \<in> set xs. matches k a")
  case False
  with ok have "hash_search H (filo_cache s) k = NULL" by (simp add: hash_rules(7) [OF H] filo_ok_def)
  with False show ?thesis using assms(3) by (simp add: filo_search_def)
next
  case True
  define e where "e = hash_search H (filo_cache s) k"
  have e: "e \<in> set xs" "matches k e"
    using True ok hash_rules(6) [OF H] unfolding filo_ok_def e_def by blast+
  have ne: "xs \<noteq> []" "NULL \<notin> set xs" using e ok by (auto simp: filo_ok_def)
  have nn: "e \<noteq> NULL" "first_link s \<noteq> NULL" "last_link s \<noteq> NULL"
    using e ok last_of_real [OF ne] head_of_real [OF ne] by (auto simp: filo_ok_def)
  show ?thesis
  proof (cases "e = first_link s")
    case first: True
    then obtain ys where "xs = e # ys" using ok e by (cases xs) (auto simp: filo_ok_def)
    then show ?thesis using ok e nn first assms(3) True by (auto simp: filo_search_def e_def [symmetric])
  next
    case first: False
    obtain ys zs where xs: "xs = ys @ e # zs" using e(1) by (auto simp: in_set_conv_decomp)
    with first ok have ys: "ys \<noteq> []" by (auto simp: filo_ok_def)
    obtain s' where u: "filo_unlink e s = Some s'"
      "used_seg (next_used s') (prev_used s') NULL NULL (ys @ zs)" "last_link s' = last_of NULL (ys @ zs)"
      "first_link s' = first_link s" "filo_cache s' = filo_cache s" "filo_size s' = filo_size s" "filo_lock s' = filo_lock s"
      using filo_unlink_mid [of s ys e zs] ok xs ys by (auto simp: filo_ok_def)
    have d: "distinct xs" "NULL \<notin> set xs" using ok by (auto simp: filo_ok_def)
    obtain y ws where yw: "ys = y # ws" using ys by (cases ys) auto
    have r: "remove1 e xs = ys @ zs" using d xs by (simp add: remove1_append)
    have f: "first_link s = y" using ok xs yw by (auto simp: filo_ok_def)
    define t where "t = (set_prev_used y e (set_next_used e y (set_prev_used e NULL s')))\<lparr>first_link := e\<rparr>"
    have run: "filo_search H k s = Some (e, t)"
      using nn first assms(3) u f by (simp add: filo_search_def e_def [symmetric] t_def)
    have "filo_ok elems t (e # ys @ zs)"
      using ok u d xs yw f by (auto simp: filo_ok_def t_def)
    with run e True u assms(3) show ?thesis by (simp add: r t_def)
  qed
qed

lemma filo_evict_chain:
  assumes H: "hash_ok H elems matches" and ok: "filo_ok elems s xs" and "xs \<noteq> []"
  shows "\<exists>s'. filo_evict H s = Some s' \<and> filo_ok elems s' (butlast xs) \<and> filo_lock s' = filo_lock s \<and>
    filo_size s' = filo_size s \<and> filo_frees s' = filo_frees s \<and> filo_freed s' = filo_freed s"
proof -
  obtain ys x where xs: "xs = ys @ [x]" using assms(3) by (cases xs rule: rev_cases) auto
  show ?thesis
  proof (cases "ys = []")
    case True
    then show ?thesis using ok xs by (auto simp: filo_ok_def filo_evict_def hash_rules(4) [OF H])
  next
    case False
    have l: "last_of NULL ys \<noteq> NULL" "last_of NULL ys \<in> set ys"
      using ok xs last_of_real [OF False] by (auto simp: filo_ok_def)
    have "used_seg ((next_used s)(last_of NULL ys := NULL)) (prev_used s) NULL NULL ys"
      using ok xs False used_seg_new_end [of "next_used s" "prev_used s" NULL x ys NULL] by (simp add: filo_ok_def)
    moreover have "head_of x ys = head_of NULL ys" using False by (cases ys) auto
    ultimately show ?thesis
      using ok xs l by (simp add: filo_ok_def filo_evict_def hash_rules(4) [OF H] Let_def) auto
  qed
qed

lemma filo_link_front:
  assumes "filo_ok elems s xs" "a \<notin> set xs" "a \<noteq> NULL" "elems h = insert a (set xs)" "length xs < unat (filo_size s)"
    and "t = (let s = s\<lparr>filo_cache := h\<rparr>; s = set_prev_used a NULL s; s = set_next_used a (first_link s) s;
                  s = (if first_link s \<noteq> NULL then set_prev_used (first_link s) a s else s\<lparr>last_link := a\<rparr>)
              in s\<lparr>first_link := a\<rparr>)"
  shows "filo_ok elems t (a # xs) \<and> filo_lock t = filo_lock s \<and> filo_size t = filo_size s"
proof (cases xs)
  case Nil
  then show ?thesis using assms by (simp add: filo_ok_def)
next
  case (Cons y ys)
  then have y: "y \<noteq> NULL" "a \<noteq> y" "a \<notin> set ys" "y \<notin> set ys" "NULL \<notin> elems (filo_cache s)" "a \<notin> elems (filo_cache s)"
    using assms(1,2) by (auto simp: filo_ok_def)
  show ?thesis unfolding assms(6) using assms(1,3-5) Cons y by (simp add: filo_ok_def Let_def)
qed

text \<open>What is left of the cache when room is made for one more entry.\<close>

definition lru_kept :: "nat \<Rightarrow> addr list \<Rightarrow> addr list" where
  "lru_kept n xs = (if length xs = n then butlast xs else xs)"

lemma filo_add_chain:
  assumes H: "hash_ok H elems matches" and ok: "filo_ok elems s xs"
    and a: "a \<notin> set xs" "a \<noteq> NULL" and n: "filo_size s \<noteq> 0"
  shows "\<exists>failed s'. filo_add H a s = Some (failed, s') \<and>
    filo_ok elems s' ((if failed then [] else [a]) @ lru_kept (unat (filo_size s)) xs) \<and>
    filo_lock s' = filo_lock s \<and> filo_size s' = filo_size s"
proof -
  define kept where "kept = lru_kept (unat (filo_size s)) xs"
  have rec: "hash_records H (filo_cache s) = filo_size s \<longleftrightarrow> length xs = unat (filo_size s)"
  proof -
    have "unat (hash_records H (filo_cache s)) = length xs"
      using ok distinct_card [of xs] by (simp add: hash_rules(3) [OF H] filo_ok_def)
    then show ?thesis by (metis word_unat_eq_iff)
  qed
  have pos: "0 < unat (filo_size s)" using n by (simp add: word_neq_0_conv unat_gt_0)
  obtain s1 where s1: "(if hash_records H (filo_cache s) = filo_size s then filo_evict H s else Some s) = Some s1"
    "filo_ok elems s1 kept" "filo_lock s1 = filo_lock s" "filo_size s1 = filo_size s"
  proof (cases "length xs = unat (filo_size s)")
    case True
    with pos have "xs \<noteq> []" by auto
    from filo_evict_chain [OF H ok this] obtain s1 where
      "filo_evict H s = Some s1" "filo_ok elems s1 (butlast xs)" "filo_lock s1 = filo_lock s" "filo_size s1 = filo_size s"
      by blast
    with True rec show ?thesis by (intro that [of s1]) (simp_all add: kept_def lru_kept_def)
  next
    case False
    with ok rec show ?thesis by (intro that [of s]) (simp_all add: kept_def lru_kept_def)
  qed
  have fresh: "a \<notin> set kept" using a(1) by (auto simp: kept_def lru_kept_def dest: in_set_butlastD)
  have room: "length kept < unat (filo_size s1)"
    using pos ok s1(4) by (auto simp: kept_def lru_kept_def filo_ok_def)
  obtain failed h where h: "hash_insert H a (filo_cache s1) = (failed, h)" by force
  have el: "elems h = (if failed then set kept else insert a (set kept))"
    using hash_rules(5) [OF H h] fresh s1(2) by (auto simp: filo_ok_def)
  show ?thesis
  proof (cases failed)
    case True
    have "filo_ok elems (s1\<lparr>filo_cache := h\<rparr>) kept" using s1(2) el True by (auto simp: filo_ok_def)
    then have "filo_ok elems (s1\<lparr>filo_cache := h, filo_freed := a # filo_freed s1\<rparr>) kept" by (auto simp: filo_ok_def)
    with \<open>filo_ok elems (s1\<lparr>filo_cache := h\<rparr>) kept\<close> show ?thesis
      using n s1 h True by (auto simp: filo_add_def Let_def kept_def [symmetric])
  next
    case False
    define t where "t = (let s = s1\<lparr>filo_cache := h\<rparr>; s = set_prev_used a NULL s; s = set_next_used a (first_link s) s;
                             s = (if first_link s \<noteq> NULL then set_prev_used (first_link s) a s else s\<lparr>last_link := a\<rparr>)
                         in s\<lparr>first_link := a\<rparr>)"
    have "filo_add H a s = Some (False, t)" using n s1(1) h False by (simp add: filo_add_def t_def Let_def)
    moreover from filo_link_front [OF s1(2) fresh a(2) _ room t_def] el False
    have "filo_ok elems t (a # kept) \<and> filo_lock t = filo_lock s1 \<and> filo_size t = filo_size s1" by simp
    ultimately show ?thesis using s1 by (auto simp: kept_def)
  qed
qed

lemma filo_clear_chain:
  assumes "hash_ok H elems matches" and "filo_init s" and "locked \<longleftrightarrow> filo_lock s"
  shows "\<exists>s'. filo_clear H locked s = Some s' \<and> filo_ok elems s' [] \<and> filo_lock s' = filo_lock s \<and>
    filo_size s' = filo_size s"
  using assms(2,3) hash_rules(1) [OF assms(1)] by (auto simp: filo_clear_def filo_ok_def Let_def)

subsection \<open>Runs of calls\<close>

text \<open>
  A thread that owns the mutex calls \<open>search\<close> and \<open>add\<close>, the latter with entries that are not in
  the cache, in any order. \<open>filo_run\<close> is such a run on the model of the code with its calls and
  answers; \<open>lru_run\<close> is the specification, on the sequence of entries with the most recently used
  one first.
\<close>

datatype 'k filo_event = Searched 'k addr | Added addr bool

inductive filo_run ::
  "('k, 'h) hash_ops \<Rightarrow> ('h \<Rightarrow> addr set) \<Rightarrow> 'h hash_filo \<Rightarrow> 'k filo_event list \<Rightarrow> 'h hash_filo \<Rightarrow> bool"
  for H elems s where
  run_start: "filo_run H elems s [] s"
| run_search: "filo_run H elems s es t \<Longrightarrow> filo_search H k t = Some (e, t') \<Longrightarrow>
    filo_run H elems s (es @ [Searched k e]) t'"
| run_add: "filo_run H elems s es t \<Longrightarrow> e \<noteq> NULL \<Longrightarrow> e \<notin> elems (filo_cache t) \<Longrightarrow>
    filo_add H e t = Some (failed, t') \<Longrightarrow> filo_run H elems s (es @ [Added e failed]) t'"

inductive lru_run :: "nat \<Rightarrow> ('k \<Rightarrow> addr \<Rightarrow> bool) \<Rightarrow> addr list \<Rightarrow> 'k filo_event list \<Rightarrow> addr list \<Rightarrow> bool"
  for n matches xs where
  lru_start: "lru_run n matches xs [] xs"
| lru_miss: "lru_run n matches xs es ys \<Longrightarrow> \<forall>a \<in> set ys. \<not> matches k a \<Longrightarrow>
    lru_run n matches xs (es @ [Searched k NULL]) ys"
| lru_hit: "lru_run n matches xs es ys \<Longrightarrow> e \<in> set ys \<Longrightarrow> matches k e \<Longrightarrow>
    lru_run n matches xs (es @ [Searched k e]) (e # remove1 e ys)"
| lru_add: "lru_run n matches xs es ys \<Longrightarrow> e \<notin> set ys \<Longrightarrow> 0 < n \<Longrightarrow>
    lru_run n matches xs (es @ [Added e False]) (e # lru_kept n ys)"
| lru_fail: "lru_run n matches xs es ys \<Longrightarrow> lru_run n matches xs (es @ [Added e True]) (lru_kept n ys)"

lemma filo_run_chain:
  assumes H: "hash_ok H elems matches" and s: "filo_ok elems s xs" "filo_lock s"
    and run: "filo_run H elems s es t"
  shows "\<exists>ys. lru_run (unat (filo_size s)) matches xs es ys \<and> filo_ok elems t ys \<and> filo_lock t \<and> filo_size t = filo_size s"
  using run
proof (induction rule: filo_run.induct)
  case run_start
  show ?case using s lru_start by blast
next
  case (run_search es t k e t')
  then obtain ys where y: "lru_run (unat (filo_size s)) matches xs es ys" "filo_ok elems t ys" "filo_lock t" "filo_size t = filo_size s"
    by blast
  from filo_search_chain [OF H y(2,3), of k] run_search.hyps(2) y show ?case
    by (auto split: if_splits intro: lru_miss lru_hit)
next
  case (run_add es t e failed t')
  then obtain ys where y: "lru_run (unat (filo_size s)) matches xs es ys" "filo_ok elems t ys" "filo_lock t" "filo_size t = filo_size s"
    by blast
  have new: "e \<notin> set ys" using run_add.hyps(3) y(2) by (simp add: filo_ok_def)
  show ?case
  proof (cases "filo_size t = 0")
    case True
    then have "ys = []" using y(2) by (simp add: filo_ok_def)
    with lru_fail [OF y(1), of e] True run_add.hyps(4) y show ?thesis
      by (auto simp: filo_add_def lru_kept_def intro!: exI [of _ "[]"])
  next
    case False
    then have pos: "0 < unat (filo_size s)" using y(4) by (simp add: word_neq_0_conv unat_gt_0)
    from filo_add_chain [OF H y(2) new run_add.hyps(2) False] run_add.hyps(4) y(4)
    have t': "filo_ok elems t' ((if failed then [] else [e]) @ lru_kept (unat (filo_size s)) ys)"
      "filo_lock t'" "filo_size t' = filo_size s"
      using y(3) by simp_all
    show ?thesis using t' lru_fail [OF y(1), of e] lru_add [OF y(1) new pos] by (cases failed) auto
  qed
qed

lemma lru_run_bound: "lru_run n matches xs es ys \<Longrightarrow> length xs \<le> n \<Longrightarrow> length ys \<le> n"
proof (induction rule: lru_run.induct)
  case (lru_hit es ys e k)
  then show ?case by (simp add: length_remove1) (metis Suc_pred length_pos_if_in_set)
qed (auto simp: lru_kept_def)

subsection \<open>Properties\<close>

text \<open>
  \<open>hash_filo::search\<close> answers an entry with the key looked for exactly when the cache holds one
  and then moves it to the front of the chain; \<open>hash_filo::add\<close> puts a new entry in front and first
  drops the last entry of a full cache, and answers true without a new entry when the table is of
  size zero or refuses the entry. No assertion fails and the links and the table agree afterwards.
\<close>

lemma hash_filo_calls:
  assumes "hash_ok H elems matches" "filo_ok elems s xs" "filo_lock s" "a \<notin> set xs" "a \<noteq> NULL"
  shows "(\<exists>e s'. filo_search H k s = Some (e, s') \<and> (e = NULL \<longleftrightarrow> (\<forall>b \<in> set xs. \<not> matches k b)) \<and>
      (if e = NULL then s' = s else e \<in> set xs \<and> matches k e \<and> filo_ok elems s' (e # remove1 e xs))) \<and>
    (\<exists>failed s'. filo_add H a s = Some (failed, s') \<and> (filo_size s = 0 \<longrightarrow> failed \<and> s' = s) \<and>
      filo_ok elems s' ((if failed then [] else [a]) @ (if length xs = unat (filo_size s) then butlast xs else xs)))"
    (is "?search \<and> ?add")
proof
  have n: "\<And>e. e \<in> set xs \<Longrightarrow> e \<noteq> NULL" using assms(2) by (auto simp: filo_ok_def)
  show ?search
  proof (cases "\<exists>b \<in> set xs. matches k b")
    case True
    with filo_search_chain [OF assms(1-3), of k] obtain e s' where
      e: "filo_search H k s = Some (e, s')" "e \<in> set xs" "matches k e" "filo_ok elems s' (e # remove1 e xs)"
      by auto
    then have "e \<noteq> NULL" "\<not> (\<forall>b \<in> set xs. \<not> matches k b)" using n by blast+
    with e show ?thesis by simp
  next
    case False
    with filo_search_chain [OF assms(1-3), of k] show ?thesis by auto
  qed
  show ?add
  proof (cases "filo_size s = 0")
    case True
    then have "xs = []" using assms(2) by (simp add: filo_ok_def)
    with True assms(2) show ?thesis by (auto simp: filo_add_def)
  next
    case False
    from filo_add_chain [OF assms(1,2,4,5) False] False show ?thesis unfolding lru_kept_def by blast
  qed
qed

text \<open>
  A table kept as a list of at most 100 entries; the key of an entry is the last decimal digit of
  its address.
\<close>

definition digit_hash :: "(nat, addr list) hash_ops" where
  "digit_hash =
     \<lparr>hash_new = \<lambda>_. [],
      hash_search = \<lambda>h k. (case filter (\<lambda>a. a mod 10 = k) (take 100 h) of [] \<Rightarrow> NULL | a # _ \<Rightarrow> a),
      hash_insert = \<lambda>a h. (if length h < 100 then (False, a # h) else (True, h)),
      hash_delete = \<lambda>a h. removeAll a (take 100 h),
      hash_records = \<lambda>h. of_nat (length (remdups (take 100 h)))\<rparr>"

lemma digit_hash_ok: "hash_ok digit_hash (\<lambda>h. set (take 100 h)) (\<lambda>k a. a mod 10 = k)"
proof -
  have c: "card (set (take 100 h)) = unat (of_nat (length (remdups (take 100 h))) :: u32)" for h :: "addr list"
  proof -
    have "length (remdups (take 100 h)) \<le> 100" by (rule le_trans [OF length_remdups_leq]) simp
    then show ?thesis by (simp add: unat_of_nat take_bit_nat_eq_self length_remdups_card_conv)
  qed
  have f: "if \<exists>a \<in> set xs. a mod 10 = k then f \<in> set xs \<and> f mod 10 = k else f = NULL"
    if "f = (case filter (\<lambda>a. a mod 10 = k) xs of [] \<Rightarrow> NULL | a # _ \<Rightarrow> a)" for xs k f
  proof (cases "filter (\<lambda>a. a mod 10 = k) xs")
    case Nil
    then show ?thesis using that by (auto simp: filter_empty_conv)
  next
    case (Cons a ys)
    have "a \<in> set (filter (\<lambda>a. a mod 10 = k) xs)" unfolding Cons by simp
    then have "a \<in> set xs" "a mod 10 = k" by simp_all
    then show ?thesis using that Cons by auto
  qed
  have d: "set (take 100 (removeAll a (take 100 h))) = set (take 100 h) - {a}" for a and h :: "addr list"
  proof -
    have "length (removeAll a (take 100 h)) \<le> 100"
      unfolding removeAll_filter_not_eq by (rule le_trans [OF length_filter_le]) simp
    then show ?thesis by simp
  qed
  show ?thesis
    unfolding hash_ok_def
  proof (intro conjI allI impI)
    fix h and k
    show "if \<exists>a \<in> set (take 100 h). a mod 10 = k
      then hash_search digit_hash h k \<in> set (take 100 h) \<and> hash_search digit_hash h k mod 10 = k
      else hash_search digit_hash h k = NULL"
      by (rule f) (simp add: digit_hash_def)
  next
    fix h :: "addr list" and a
    show "set (take 100 (snd (hash_insert digit_hash a h))) =
      (if fst (hash_insert digit_hash a h) then set (take 100 h) else insert a (set (take 100 h)))"
      by (simp add: digit_hash_def)
  qed (simp_all add: digit_hash_def c d del: length_remdups_card_conv)
qed

text \<open>The cache of two entries after \<open>add(11)\<close>, \<open>add(12)\<close>, \<open>search("1")\<close>.\<close>

definition sample_filo :: "addr list hash_filo" where
  "sample_filo =
     \<lparr>filo_size = 2, filo_init = True, first_link = 11, last_link = 12, next_used = (\<lambda>_. NULL)(11 := 12),
      prev_used = (\<lambda>_. NULL)(12 := 11), filo_lock = True, filo_frees = False, filo_freed = [], filo_cache = [12, 11]\<rparr>"

lemma sample_filo_ok: "filo_ok (\<lambda>h. set (take 100 h)) sample_filo [11, 12]"
  by (auto simp: filo_ok_def sample_filo_def NULL_def)

lemma hash_filo_calls_witness:
  "\<exists>failed s'. filo_add digit_hash 13 sample_filo = Some (failed, s') \<and>
    filo_ok (\<lambda>h. set (take 100 h)) s' ((if failed then [] else [13]) @ [11])"
proof -
  have "filo_lock sample_filo" "(13 :: addr) \<notin> set [11, 12]" "(13 :: addr) \<noteq> NULL" "filo_size sample_filo = 2"
    by (simp_all add: sample_filo_def NULL_def)
  from hash_filo_calls [OF digit_hash_ok sample_filo_ok this(1,2,3)] this(4) show ?thesis by auto
qed

text \<open>
  C7. Every run of \<open>search\<close> and \<open>add\<close> calls on a cleared cache, with fresh entries to add, is a run of
  the specification: each search answers an entry of the key from the sequence and moves it to
  the front, each insertion into a full cache loses the least recently used entry. The cache never
  has more entries than its size, and no further call fails an assertion or follows a null link.
\<close>

theorem hash_filo_run_is_lru:
  assumes "hash_ok H elems matches" "filo_init s" "locked \<longleftrightarrow> filo_lock s" "filo_clear H locked s = Some s0"
    and "filo_run H elems (s0\<lparr>filo_lock := True\<rparr>) es t"
  shows "\<exists>ys. lru_run (unat (filo_size s)) matches [] es ys \<and> filo_ok elems t ys \<and>
    length ys \<le> unat (filo_size s) \<and> (\<forall>k. filo_search H k t \<noteq> None) \<and>
    (\<forall>a. a \<noteq> NULL \<and> a \<notin> set ys \<longrightarrow> filo_add H a t \<noteq> None)"
proof -
  have s0: "filo_ok elems (s0\<lparr>filo_lock := True\<rparr>) []" "filo_size s0 = filo_size s"
    using filo_clear_chain [OF assms(1-3)] assms(4) by (auto simp: filo_ok_def)
  from filo_run_chain [OF assms(1) s0(1) _ assms(5)] s0(2) obtain ys where
    ys: "lru_run (unat (filo_size s)) matches [] es ys" "filo_ok elems t ys" "filo_lock t" by auto
  have "filo_search H k t \<noteq> None" for k
    using filo_search_chain [OF assms(1) ys(2,3), of k] by (auto split: if_splits)
  moreover have "filo_add H a t \<noteq> None" if "a \<noteq> NULL" "a \<notin> set ys" for a
    using filo_add_chain [OF assms(1) ys(2) that(2,1)] by (cases "filo_size t = 0") (auto simp: filo_add_def)
  ultimately show ?thesis using ys lru_run_bound [OF ys(1)] by auto
qed

lemma hash_filo_run_is_lru_witness:
  "\<exists>ys t. lru_run 2 (\<lambda>k a. a mod 10 = k) [] [Added 11 False, Searched 1 11] ys \<and>
    filo_ok (\<lambda>h. set (take 100 h)) t ys \<and> length ys \<le> 2"
proof -
  define s0 :: "addr list hash_filo" where
    "s0 = sample_filo\<lparr>filo_cache := [], first_link := NULL, last_link := NULL\<rparr>"
  define t where "t = s0\<lparr>filo_cache := [11], first_link := 11, last_link := 11,
      prev_used := (prev_used s0)(11 := NULL), next_used := (next_used s0)(11 := NULL)\<rparr>"
  have "filo_add digit_hash 11 s0 = Some (False, t)"
    by (simp add: filo_add_def digit_hash_def s0_def t_def sample_filo_def NULL_def set_next_used_def set_prev_used_def)
  from run_add [OF run_start _ _ this] have "filo_run digit_hash (\<lambda>h. set (take 100 h)) s0 [Added 11 False] t"
    by (simp add: s0_def NULL_def)
  moreover have "filo_search digit_hash 1 t = Some (11, t)"
    by (simp add: filo_search_def digit_hash_def s0_def t_def sample_filo_def NULL_def)
  ultimately have "filo_run digit_hash (\<lambda>h. set (take 100 h)) s0 [Added 11 False, Searched 1 11] t"
    using run_search by fastforce
  moreover have "filo_clear digit_hash True sample_filo = Some s0" "s0\<lparr>filo_lock := True\<rparr> = s0"
    "filo_init sample_filo" "True \<longleftrightarrow> filo_lock sample_filo" "unat (filo_size sample_filo) = 2"
    by (simp_all add: filo_clear_def s0_def sample_filo_def digit_hash_def NULL_def)
  ultimately show ?thesis
    using hash_filo_run_is_lru [OF digit_hash_ok, of sample_filo True s0 "[Added 11 False, Searched 1 11]" t] by auto
qed

end
