(* ===== verification/Byte_Memory.thy ===== *)
theory Byte_Memory
  imports Prelude
begin

text \<open>
  Byte memory for the string classes: blocks of bytes, live or not, and pointers into them. A read
  or write outside a live block has no value, so \<open>None\<close> is a memory error. Reading or writing no
  bytes is always defined, as for \<open>memcpy\<close> in the code, which is not called with length zero.
\<close>

datatype bptr = Null | Ptr (ptr_block: nat) (ptr_off: nat)

type_synonym bmem = "nat \<Rightarrow> u8 list option"

fun ptr_add :: "bptr \<Rightarrow> nat \<Rightarrow> bptr" where
  "ptr_add Null n = Null"
| "ptr_add (Ptr b i) n = Ptr b (i + n)"

definition load_bytes :: "bmem \<Rightarrow> bptr \<Rightarrow> nat \<Rightarrow> u8 list option" where
  "load_bytes m p n =
     (if n = 0 then Some []
      else (case p of Null \<Rightarrow> None
            | Ptr b i \<Rightarrow> (case m b of None \<Rightarrow> None
                | Some bs \<Rightarrow> guard (i + n \<le> length bs) (take n (drop i bs)))))"

definition load_byte :: "bmem \<Rightarrow> bptr \<Rightarrow> u8 option" where
  "load_byte m p = map_option hd (load_bytes m p 1)"

definition patch :: "u8 list \<Rightarrow> nat \<Rightarrow> u8 list \<Rightarrow> u8 list" where
  "patch bs i ds = take i bs @ ds @ drop (i + length ds) bs"

definition store_bytes :: "bmem \<Rightarrow> bptr \<Rightarrow> u8 list \<Rightarrow> bmem option" where
  "store_bytes m p ds =
     (if ds = [] then Some m
      else (case p of Null \<Rightarrow> None
            | Ptr b i \<Rightarrow> (case m b of None \<Rightarrow> None
                | Some bs \<Rightarrow> guard (i + length ds \<le> length bs) (m(b \<mapsto> patch bs i ds)))))"

text \<open>\<open>my_free\<close>: nothing for a null pointer; freeing something else than a live block is an error.\<close>

definition my_free :: "bptr \<Rightarrow> bmem \<Rightarrow> bmem option" where
  "my_free p m = (case p of Null \<Rightarrow> Some m | Ptr b i \<Rightarrow> guard (i = 0 \<and> m b \<noteq> None) (m(b := None)))"

subsection \<open>Lemmas\<close>

lemma length_patch [simp]: "i + length ds \<le> length bs \<Longrightarrow> length (patch bs i ds) = length bs"
  by (simp add: patch_def)

lemma load_bytes_0 [simp]: "load_bytes m p 0 = Some []"
  by (simp add: load_bytes_def)

lemma load_bytes_length: "load_bytes m p n = Some bs \<Longrightarrow> length bs = n"
  by (auto simp: load_bytes_def split: if_splits bptr.splits option.splits)

lemma load_bytes_block:
  "m b = Some bs \<Longrightarrow> i + n \<le> length bs \<Longrightarrow> load_bytes m (Ptr b i) n = Some (take n (drop i bs))"
  by (simp add: load_bytes_def)

lemma store_bytes_block:
  "m b = Some bs \<Longrightarrow> i + length ds \<le> length bs \<Longrightarrow> store_bytes m (Ptr b i) ds = Some (m(b \<mapsto> patch bs i ds))"
  by (auto simp: store_bytes_def patch_def)

lemma store_bytes_outside:
  "m b = Some bs \<Longrightarrow> length bs < i + length ds \<Longrightarrow> ds \<noteq> [] \<Longrightarrow> store_bytes m (Ptr b i) ds = None"
  by (simp add: store_bytes_def)

lemma take_patch:
  "i + length ds \<le> length bs \<Longrightarrow> j \<le> i \<Longrightarrow> take (i - j + length ds) (drop j (patch bs i ds)) = take (i - j) (drop j bs) @ ds"
  by (simp add: patch_def drop_take)

lemma take_patch_before:
  "j + n \<le> i \<Longrightarrow> i \<le> length bs \<Longrightarrow> take n (drop j (patch bs i ds)) = take n (drop j bs)"
  by (rule nth_equalityI) (auto simp: patch_def nth_append)

lemma load_ptr_add: "load_bytes m p n = Some bs \<Longrightarrow> i + k \<le> n \<Longrightarrow> load_bytes m (ptr_add p i) k = Some (take k (drop i bs))"
  by (cases p) (auto simp: load_bytes_def drop_take min_def add.commute split: if_splits option.splits)

lemma ptr_add_0 [simp]: "ptr_add p 0 = p"
  by (cases p) simp_all

lemma ptr_add_add [simp]: "ptr_add (ptr_add p i) j = ptr_add p (i + j)"
  by (cases p) simp_all

end
