(* ===== verification/Charset_Info.thy ===== *)
theory Charset_Info
  imports Byte_Memory
begin

text \<open>
  \<open>struct charset_info_st\<close> and the character class macros of \<open>m_ctype.h\<close>, and the class \<open>Charset\<close>
  of \<open>sql_string.h\<close>. The handler functions a character set points to are code of other files: each
  is a field of the record, as it is a pointer in the structure. The lemmas show what the classes
  have to do with each other, that the length of a character never is zero where strings are walked
  with it, and that the two lists of collation changes agree with the version constant.
\<close>

subsection \<open>Character sets\<close>

text \<open>
  \<open>cs_id\<close> is the address of the structure, which the code compares. \<open>m_ctype\<close>, \<open>to_lower\<close> and
  \<open>to_upper\<close> are the tables; \<open>cset_charlen\<close> and the fields after it are the handler functions, on
  the bytes between their two pointer arguments.
\<close>

record charset_info =
  cs_id :: nat
  cs_number :: u32
  cs_state :: u32
  cs_name :: "u8 list"
  m_ctype :: "u8 list"
  to_lower_tab :: "u8 list"
  to_upper_tab :: "u8 list"
  mbminlen :: u32
  mbmaxlen :: u32
  cset_charlen :: "u8 list \<Rightarrow> int"
  cset_numchars :: "u8 list \<Rightarrow> u64"
  cset_charpos :: "u8 list \<Rightarrow> u64 \<Rightarrow> u64"
  cset_lengthsp :: "u8 list \<Rightarrow> u64"
  cset_well_formed :: "u8 list \<Rightarrow> u64 \<Rightarrow> u64 \<times> bool"
  cset_wc_mb :: "u32 \<Rightarrow> int \<times> u8 list"
  cset_scan_spaces :: "u8 list \<Rightarrow> u64"

definition cs_use_mb :: "charset_info \<Rightarrow> bool" where
  "cs_use_mb cs \<longleftrightarrow> mbmaxlen cs > 1"

definition cs_charlen_fix :: "charset_info \<Rightarrow> u8 list \<Rightarrow> u32 option" where
  "cs_charlen_fix cs s =
     (let char_length = cset_charlen cs s
      in guard (s \<noteq> []) (if char_length > 0 then word_of_int char_length else 1))"

definition default_flag :: "charset_info \<Rightarrow> u32" where
  "default_flag cs = cs_state cs AND 32"

definition binsort_flag :: "charset_info \<Rightarrow> u32" where
  "binsort_flag cs = cs_state cs AND 16"

definition compiled_flag :: "charset_info \<Rightarrow> u32" where
  "compiled_flag cs = cs_state cs AND 1"

definition my_ismbchar :: "charset_info \<Rightarrow> u8 list \<Rightarrow> u32" where
  "my_ismbchar cs s =
     (let char_length = cset_charlen cs s in if char_length > 1 then word_of_int char_length else 0)"

definition my_ci_charlen :: "charset_info \<Rightarrow> u8 list \<Rightarrow> int" where
  "my_ci_charlen cs s = cset_charlen cs s"

definition my_ci_charlen_fix :: "charset_info \<Rightarrow> u8 list \<Rightarrow> u32 option" where
  "my_ci_charlen_fix cs s =
     (let char_length = my_ci_charlen cs s
      in guard (s \<noteq> []) (if char_length > 0 then word_of_int char_length else 1))"

text \<open>\<open>my_well_formed_length\<close>: the length of the prefix and whether it ends at a bad sequence.\<close>

definition my_well_formed_length :: "charset_info \<Rightarrow> u8 list \<Rightarrow> u64 \<Rightarrow> u64 \<times> int" where
  "my_well_formed_length cs s nchars =
     (let (source_end, bad) = cset_well_formed cs s nchars in (source_end, if bad then 1 else 0))"

subsection \<open>Character classes\<close>

text \<open>The \<open>char\<close> argument is promoted to \<open>int\<close> with its sign.\<close>

definition my_isascii :: "u8 \<Rightarrow> bool" where
  "my_isascii c \<longleftrightarrow> (scast c :: u32) AND NOT 0x7F = 0"

definition my_toascii :: "u8 \<Rightarrow> u32" where "my_toascii c = scast c AND 0x7F"
definition my_tocntrl :: "u8 \<Rightarrow> u32" where "my_tocntrl c = scast c AND 31"
definition my_toprint :: "u8 \<Rightarrow> u32" where "my_toprint c = scast c OR 64"

definition my_toupper :: "charset_info \<Rightarrow> u8 \<Rightarrow> u8" where "my_toupper cs c = to_upper_tab cs ! unat c"
definition my_tolower :: "charset_info \<Rightarrow> u8 \<Rightarrow> u8" where "my_tolower cs c = to_lower_tab cs ! unat c"

definition MY_U :: u8 where "MY_U = 0x01"
definition MY_L :: u8 where "MY_L = 0x02"
definition MY_NMR :: u8 where "MY_NMR = 0x04"
definition MY_SPC :: u8 where "MY_SPC = 0x08"
definition MY_PNT :: u8 where "MY_PNT = 0x10"
definition MY_CTR :: u8 where "MY_CTR = 0x20"
definition MY_B :: u8 where "MY_B = 0x40"
definition MY_X :: u8 where "MY_X = 0x80"

text \<open>The tables have 257 entries; the first one is for the end of file.\<close>

definition has_ctype :: "charset_info \<Rightarrow> u8 \<Rightarrow> u8 \<Rightarrow> bool" where
  "has_ctype cs c bits \<longleftrightarrow> m_ctype cs ! (unat c + 1) AND bits \<noteq> 0"

definition my_isalpha :: "charset_info \<Rightarrow> u8 \<Rightarrow> bool" where "my_isalpha cs c \<longleftrightarrow> has_ctype cs c (MY_U OR MY_L)"
definition my_isupper :: "charset_info \<Rightarrow> u8 \<Rightarrow> bool" where "my_isupper cs c \<longleftrightarrow> has_ctype cs c MY_U"
definition my_islower :: "charset_info \<Rightarrow> u8 \<Rightarrow> bool" where "my_islower cs c \<longleftrightarrow> has_ctype cs c MY_L"
definition my_isdigit :: "charset_info \<Rightarrow> u8 \<Rightarrow> bool" where "my_isdigit cs c \<longleftrightarrow> has_ctype cs c MY_NMR"
definition my_isxdigit :: "charset_info \<Rightarrow> u8 \<Rightarrow> bool" where "my_isxdigit cs c \<longleftrightarrow> has_ctype cs c MY_X"
definition my_isalnum :: "charset_info \<Rightarrow> u8 \<Rightarrow> bool" where "my_isalnum cs c \<longleftrightarrow> has_ctype cs c (MY_U OR MY_L OR MY_NMR)"
definition my_isspace :: "charset_info \<Rightarrow> u8 \<Rightarrow> bool" where "my_isspace cs c \<longleftrightarrow> has_ctype cs c MY_SPC"
definition my_ispunct :: "charset_info \<Rightarrow> u8 \<Rightarrow> bool" where "my_ispunct cs c \<longleftrightarrow> has_ctype cs c MY_PNT"
definition my_isprint :: "charset_info \<Rightarrow> u8 \<Rightarrow> bool" where
  "my_isprint cs c \<longleftrightarrow> has_ctype cs c (MY_PNT OR MY_U OR MY_L OR MY_NMR OR MY_B)"
definition my_isgraph :: "charset_info \<Rightarrow> u8 \<Rightarrow> bool" where
  "my_isgraph cs c \<longleftrightarrow> has_ctype cs c (MY_PNT OR MY_U OR MY_L OR MY_NMR)"
definition my_iscntrl :: "charset_info \<Rightarrow> u8 \<Rightarrow> bool" where "my_iscntrl cs c \<longleftrightarrow> has_ctype cs c MY_CTR"

definition my_isvar :: "charset_info \<Rightarrow> u8 \<Rightarrow> bool" where "my_isvar cs c \<longleftrightarrow> my_isalnum cs c \<or> c = 95"
definition my_isvar_start :: "charset_info \<Rightarrow> u8 \<Rightarrow> bool" where "my_isvar_start cs c \<longleftrightarrow> my_isalpha cs c \<or> c = 95"

definition my_binary_compare :: "charset_info \<Rightarrow> bool" where "my_binary_compare cs \<longleftrightarrow> cs_state cs AND 16 \<noteq> 0"
definition use_strnxfrm :: "charset_info \<Rightarrow> bool" where "use_strnxfrm cs \<longleftrightarrow> cs_state cs AND 64 \<noteq> 0"

subsection \<open>Collation identifiers\<close>

text \<open>The class \<open>Charset\<close> holds a pointer to a character set; \<open>bin_id\<close> is \<open>&my_charset_bin\<close>.\<close>

definition is_good_for_ft :: "nat \<Rightarrow> charset_info \<Rightarrow> bool" where
  "is_good_for_ft bin_id cs \<longleftrightarrow> cs_id cs \<noteq> bin_id \<and> mbminlen cs = 1"

definition can_have_collate_clause :: "nat \<Rightarrow> charset_info \<Rightarrow> bool" where
  "can_have_collate_clause bin_id cs \<longleftrightarrow> cs_id cs \<noteq> bin_id"

definition charset_swap :: "charset_info \<Rightarrow> charset_info \<Rightarrow> charset_info \<times> charset_info" where
  "charset_swap a b = (let dummy = a; a = b; b = dummy in (a, b))"

definition latest_mariadb_version_with_collation_change :: u32 where
  "latest_mariadb_version_with_collation_change = 110002"

definition collation_changed_order :: "u32 \<Rightarrow> u32 \<Rightarrow> bool" where
  "collation_changed_order mysql_version n =
     (if (mysql_version < 50048 \<and>
            (n = 11 \<or> n = 41 \<or> n = 42 \<or> n = 20 \<or> n = 21 \<or> n = 22 \<or> n = 23 \<or> n = 26)) \<or>
         (mysql_version < 50124 \<and> (n = 33 \<or> n = 35))
      then True
      else if n = 159 \<and>
         ((mysql_version \<ge> 100400 \<and> mysql_version < 100429) \<or>
          (mysql_version \<ge> 100500 \<and> mysql_version < 100520) \<or>
          (mysql_version \<ge> 100600 \<and> mysql_version < 100613) \<or>
          (mysql_version \<ge> 100700 \<and> mysql_version < 100708) \<or>
          (mysql_version \<ge> 100800 \<and> mysql_version < 100808) \<or>
          (mysql_version \<ge> 100900 \<and> mysql_version < 100906) \<or>
          (mysql_version \<ge> 101000 \<and> mysql_version < 101004) \<or>
          (mysql_version \<ge> 101100 \<and> mysql_version < 101103) \<or>
          (mysql_version \<ge> 110000 \<and> mysql_version < 110002))
      then True else False)"

definition PAGE2_UTF8 :: u32 where "PAGE2_UTF8 = 0x240"
definition PAGE2_UTF8MB4 :: u32 where "PAGE2_UTF8MB4 = 0x260"
definition PAGE2_UCS2 :: u32 where "PAGE2_UCS2 = 0x280"
definition PAGE2_UTF16 :: u32 where "PAGE2_UTF16 = 0x2A0"
definition PAGE2_UTF32 :: u32 where "PAGE2_UTF32 = 0x2E0"

definition upgrade_collation_id :: "u32 \<Rightarrow> u32 \<Rightarrow> u32" where
  "upgrade_collation_id mysql_version n =
     (if mysql_version \<ge> 50300 \<and> mysql_version \<le> 50399 \<and> n = 149 then PAGE2_UCS2
      else if mysql_version \<ge> 50300 \<and> mysql_version \<le> 50399 \<and> n = 213 then PAGE2_UTF8
      else if (mysql_version \<ge> 50500 \<and> mysql_version \<le> 50599) \<or> (mysql_version \<ge> 100000 \<and> mysql_version \<le> 100005)
      then (if n = 149 then PAGE2_UCS2
            else if n = 213 then PAGE2_UTF8
            else if n = 214 then PAGE2_UTF32
            else if n = 215 then PAGE2_UTF16
            else if n = 245 then PAGE2_UTF8MB4
            else n)
      else n)"

subsection \<open>Lemmas\<close>

lemma my_isascii_iff: "my_isascii c \<longleftrightarrow> c < 128"
proof -
  have "my_isascii c \<longleftrightarrow> (\<forall>n. \<not> bit ((scast c :: u32) AND NOT 0x7F) n)"
    unfolding my_isascii_def by (rule word_zero_iff_no_bit)
  also have "\<dots> \<longleftrightarrow> \<not> bit c 7"
  proof
    assume h: "\<forall>n. \<not> bit ((scast c :: u32) AND NOT 0x7F) n"
    have "bit (0x7F :: u32) 7 = False" by (simp add: bit_numeral_rec)
    with h [rule_format, of 7] show "\<not> bit c 7" by (simp add: bit_simps)
  next
    assume c: "\<not> bit c 7"
    show "\<forall>n. \<not> bit ((scast c :: u32) AND NOT 0x7F) n"
    proof (intro allI)
      fix n
      have "bit (0x7F :: u32) n" if "n < 7"
      proof -
        have "n = 0 \<or> n = 1 \<or> n = 2 \<or> n = 3 \<or> n = 4 \<or> n = 5 \<or> n = 6" using that by arith
        then show ?thesis by (auto simp: bit_numeral_rec bit_simps)
      qed
      then show "\<not> bit ((scast c :: u32) AND NOT 0x7F) n"
        using c by (cases "n < 7") (auto simp: bit_simps min_def dest: bit_imp_le_length)
    qed
  qed
  also have "\<dots> \<longleftrightarrow> c < 128"
  proof -
    have "bit c 7 \<longleftrightarrow> bit (unat c) 7" by (simp add: bit_unsigned_iff)
    then have "bit c 7 \<longleftrightarrow> odd (unat c div 2 ^ 7)" unfolding bit_iff_odd [of "unat c"] .
    moreover have "odd (unat c div 2 ^ 7) \<longleftrightarrow> \<not> unat c < 128"
    proof -
      have "k div 128 = 1" if "k < 256" "\<not> k < 128" for k :: nat by (rule div_nat_eqI) (use that in auto)
      from this [of "unat c"] show ?thesis using unat_bound [of c] by (cases "unat c < 128") simp_all
    qed
    ultimately have "\<not> bit c 7 \<longleftrightarrow> unat c < 128" by blast
    then show ?thesis by (simp add: word_less_nat_alt)
  qed
  finally show ?thesis .
qed

lemma has_ctype_or: "has_ctype cs c (a OR b) \<longleftrightarrow> has_ctype cs c a \<or> has_ctype cs c b"
  unfolding has_ctype_def by (simp add: bit.conj_disj_distrib or_eq_0_iff)

lemma ctype_unions:
  "my_isalpha cs c \<longleftrightarrow> my_isupper cs c \<or> my_islower cs c"
  "my_isalnum cs c \<longleftrightarrow> my_isalpha cs c \<or> my_isdigit cs c"
  "my_isgraph cs c \<longleftrightarrow> my_ispunct cs c \<or> my_isalnum cs c"
  "my_isprint cs c \<longleftrightarrow> my_isgraph cs c \<or> has_ctype cs c MY_B"
  "my_isvar cs c \<longleftrightarrow> my_isvar_start cs c \<or> my_isdigit cs c"
  by (auto simp: my_isalpha_def my_isupper_def my_islower_def my_isalnum_def my_isdigit_def my_isgraph_def
      my_ispunct_def my_isprint_def my_isvar_def my_isvar_start_def has_ctype_or)

text \<open>The fixed length of a character is positive, so a walk over a string makes progress.\<close>

lemma charlen_fix_positive:
  assumes "s \<noteq> []" "cset_charlen cs s \<le> int (length s)" "length s < 2 ^ 31"
  shows "\<exists>n. my_ci_charlen_fix cs s = Some n \<and> cs_charlen_fix cs s = Some n \<and> 0 < unat n \<and> unat n \<le> length s"
proof -
  have "unat (word_of_int k :: u32) = nat k" if "0 < k" "k \<le> int (length s)" for k
    using that assms(3) by (simp add: unat_eq_nat_uint uint_word_of_int)
  moreover have "1 \<le> length s" using assms(1) by (cases s) auto
  ultimately show ?thesis
    using assms(1,2) by (cases "0 < cset_charlen cs s") (simp_all add: my_ci_charlen_fix_def my_ci_charlen_def cs_charlen_fix_def Let_def)
qed

text \<open>The numbers that change, with the new ones.\<close>

definition collation_upgrades :: "(u32 \<times> u32) set" where
  "collation_upgrades = {(149, 0x280), (213, 0x240), (214, 0x2E0), (215, 0x2A0), (245, 0x260)}"

lemma upgrade_cases:
  "upgrade_collation_id v n = n \<or> (n, upgrade_collation_id v n) \<in> collation_upgrades"
  by (simp add: upgrade_collation_id_def collation_upgrades_def PAGE2_UTF8_def PAGE2_UTF8MB4_def PAGE2_UCS2_def
      PAGE2_UTF16_def PAGE2_UTF32_def)

text \<open>
  \<open>latest_mariadb_version_with_collation_change\<close> is exact: no collation is reported as changed for
  that version or a later one, and the version before it reports one. A collation number that
  \<open>upgrade_collation_id\<close> maps to a new one is mapped only once, different numbers below 512 stay
  different, and a new number is never reported as changed.
\<close>

lemma collation_versions:
  "(\<forall>v n. collation_changed_order v n \<longrightarrow> v < latest_mariadb_version_with_collation_change) \<and>
   collation_changed_order (latest_mariadb_version_with_collation_change - 1) 159 \<and>
   (\<forall>v n. upgrade_collation_id v (upgrade_collation_id v n) = upgrade_collation_id v n) \<and>
   (\<forall>v m n. m < 512 \<longrightarrow> n < 512 \<longrightarrow> upgrade_collation_id v m = upgrade_collation_id v n \<longrightarrow> m = n) \<and>
   (\<forall>v w n. upgrade_collation_id v n \<noteq> n \<longrightarrow> \<not> collation_changed_order w (upgrade_collation_id v n))"
proof (intro conjI allI impI)
  fix v n
  assume "collation_changed_order v n"
  then have "v < 50048 \<or> v < 50124 \<or> v < 100429 \<or> v < 100520 \<or> v < 100613 \<or> v < 100708 \<or> v < 100808 \<or>
      v < 100906 \<or> v < 101004 \<or> v < 101103 \<or> v < 110002"
    unfolding collation_changed_order_def by (auto split: if_splits)
  then show "v < latest_mariadb_version_with_collation_change"
    unfolding latest_mariadb_version_with_collation_change_def 
    by (elim disjE) (assumption | erule less_trans, simp)+
next
  show "collation_changed_order (latest_mariadb_version_with_collation_change - 1) 159"
    by (simp add: collation_changed_order_def latest_mariadb_version_with_collation_change_def)
next
  fix v n
  have "upgrade_collation_id v k = k" if "(j, k) \<in> collation_upgrades" for j k
    using that by (auto simp: upgrade_collation_id_def collation_upgrades_def)
  then show "upgrade_collation_id v (upgrade_collation_id v n) = upgrade_collation_id v n"
    using upgrade_cases [of v n] by metis
next
  fix v m n :: u32 assume h: "m < 512" "n < 512" "upgrade_collation_id v m = upgrade_collation_id v n"
  have ge: "\<not> k < 512" if "(j, k) \<in> collation_upgrades" for j k
    using that by (auto simp: collation_upgrades_def)
  have inj: "i = j" if "(i, k) \<in> collation_upgrades" "(j, k) \<in> collation_upgrades" for i j k
    using that by (auto simp: collation_upgrades_def)
  show "m = n" using upgrade_cases [of v m] upgrade_cases [of v n] h ge inj by metis
next
  fix v w n assume "upgrade_collation_id v n \<noteq> n"
  then have "(n, upgrade_collation_id v n) \<in> collation_upgrades" using upgrade_cases by blast
  moreover have "\<not> collation_changed_order w k" if "(j, k) \<in> collation_upgrades" for j k
  proof -
    have "k = 0x280 \<or> k = 0x240 \<or> k = 0x2E0 \<or> k = 0x2A0 \<or> k = 0x260" using that by (auto simp: collation_upgrades_def)
    then show ?thesis by (elim disjE) (simp_all add: collation_changed_order_def)
  qed
  ultimately show "\<not> collation_changed_order w (upgrade_collation_id v n)" by blast
qed

lemma collation_versions_witness:
  "collation_changed_order 110001 159 \<and> 110001 < latest_mariadb_version_with_collation_change \<and>
   upgrade_collation_id 50310 149 \<noteq> 149 \<and> \<not> collation_changed_order 50310 (upgrade_collation_id 50310 149)"
proof -
  have "collation_changed_order 110001 159" "upgrade_collation_id 50310 149 \<noteq> 149"
    by (simp_all add: collation_changed_order_def upgrade_collation_id_def PAGE2_UCS2_def)
  with collation_versions show ?thesis by blast
qed

end
