(* ===== verification/Lex_Strings.thy ===== *)
theory Lex_Strings
  imports Charset_Info
begin

text \<open>
  \<open>Lex_cstring\<close> of \<open>lex_string.h\<close>: a pointer into byte memory with a length, not necessarily followed
  by a zero byte. The loops that trim white space are modelled as the loops of the code, with the
  reads they make; the lemmas show that they return the string without its leading and trailing
  white space and never read outside it. The comparison functions are modelled with the C library
  functions they call.
\<close>

record lex_cstring =
  lex_str :: bptr
  lex_length :: u64

definition lex_empty :: lex_cstring where
  "lex_empty = \<lparr>lex_str = Null, lex_length = 0\<rparr>"

definition lex_make :: "bptr \<Rightarrow> u64 \<Rightarrow> lex_cstring" where
  "lex_make s len = \<lparr>lex_str = s, lex_length = len\<rparr>"

text \<open>Pointers into the same block; the difference of others is undefined.\<close>

definition lex_range :: "bptr \<Rightarrow> bptr \<Rightarrow> lex_cstring option" where
  "lex_range start_ptr end_ptr =
     (case (start_ptr, end_ptr) of
        (Ptr b i, Ptr c j) \<Rightarrow> guard (b = c \<and> i \<le> j) (lex_make start_ptr (of_nat (j - i)))
      | (Null, Null) \<Rightarrow> Some (lex_make Null 0)
      | _ \<Rightarrow> None)"

definition lex_set :: "bptr \<Rightarrow> u64 \<Rightarrow> lex_cstring \<Rightarrow> lex_cstring" where
  "lex_set s len x = x\<lparr>lex_str := s, lex_length := len\<rparr>"

function ltrim_loop :: "charset_info \<Rightarrow> bmem \<Rightarrow> lex_cstring \<Rightarrow> lex_cstring option" where
  "ltrim_loop cs m x =
     (if lex_length x > 0
      then (case load_byte m (lex_str x) of
              None \<Rightarrow> None
            | Some c \<Rightarrow>
                if my_isspace cs c
                then ltrim_loop cs m (x\<lparr>lex_length := lex_length x - 1, lex_str := ptr_add (lex_str x) 1\<rparr>)
                else Some x)
      else Some x)"
  by pat_completeness auto
termination
  by (relation "measure (\<lambda>(_, _, x). unat (lex_length x))") (auto simp: unat_minus_one unat_gt_0)

definition ltrim_whitespace :: "charset_info \<Rightarrow> bmem \<Rightarrow> lex_cstring \<Rightarrow> lex_cstring option" where
  "ltrim_whitespace cs m x = (if mbminlen cs = 1 then ltrim_loop cs m x else None)"

function rtrim_loop :: "charset_info \<Rightarrow> bmem \<Rightarrow> lex_cstring \<Rightarrow> lex_cstring option" where
  "rtrim_loop cs m x =
     (if lex_length x > 0
      then (case load_byte m (ptr_add (lex_str x) (unat (lex_length x - 1))) of
              None \<Rightarrow> None
            | Some c \<Rightarrow>
                if my_isspace cs c then rtrim_loop cs m (x\<lparr>lex_length := lex_length x - 1\<rparr>) else Some x)
      else Some x)"
  by pat_completeness auto
termination
  by (relation "measure (\<lambda>(_, _, x). unat (lex_length x))") (auto simp: unat_minus_one unat_gt_0)

declare ltrim_loop.simps [simp del] rtrim_loop.simps [simp del]

definition rtrim_whitespace :: "charset_info \<Rightarrow> bmem \<Rightarrow> lex_cstring \<Rightarrow> lex_cstring option" where
  "rtrim_whitespace cs m x = (if mbminlen cs = 1 then rtrim_loop cs m x else None)"

definition trim_whitespace :: "charset_info \<Rightarrow> bmem \<Rightarrow> lex_cstring \<Rightarrow> lex_cstring option" where
  "trim_whitespace cs m x = Option.bind (ltrim_whitespace cs m x) (rtrim_whitespace cs m)"

text \<open>The variant that also answers the length of the leading white space.\<close>

definition trim_whitespace_prefix :: "charset_info \<Rightarrow> bmem \<Rightarrow> lex_cstring \<Rightarrow> (lex_cstring \<times> u64) option" where
  "trim_whitespace_prefix cs m x =
     (case ltrim_whitespace cs m x of
        None \<Rightarrow> None
      | Some tmp \<Rightarrow>
          (let prefix_length = (case (lex_str tmp, lex_str x) of (Ptr _ j, Ptr _ i) \<Rightarrow> of_nat (j - i) | _ \<Rightarrow> 0)
           in map_option (\<lambda>t. (t, prefix_length)) (rtrim_whitespace cs m tmp)))"

subsection \<open>Strings ending with a zero byte\<close>

text \<open>The bytes from a pointer to the end of its block, and those before the first zero byte.\<close>

definition rest_of_block :: "bmem \<Rightarrow> bptr \<Rightarrow> u8 list option" where
  "rest_of_block m p =
     (case p of Null \<Rightarrow> None | Ptr b i \<Rightarrow> (case m b of None \<Rightarrow> None | Some bs \<Rightarrow> guard (i \<le> length bs) (drop i bs)))"

definition c_string :: "bmem \<Rightarrow> bptr \<Rightarrow> u8 list option" where
  "c_string m p =
     (case rest_of_block m p of None \<Rightarrow> None
      | Some bs \<Rightarrow> guard (0 \<in> set bs) (takeWhile (\<lambda>c. c \<noteq> 0) bs))"

definition lex_from_c_string :: "bmem \<Rightarrow> bptr \<Rightarrow> lex_cstring option" where
  "lex_from_c_string m from =
     (if from = Null then Some (lex_make Null 0)
      else map_option (\<lambda>bs. lex_make from (of_nat (length bs))) (c_string m from))"

text \<open>\<open>strcasecmp\<close> of the C library folds the letters A to Z.\<close>

definition fold_letter :: "u8 \<Rightarrow> u8" where
  "fold_letter c = (if 65 \<le> c \<and> c \<le> 90 then c + 32 else c)"

text \<open>
  \<open>my_strcasecmp\<close> is a handler of the character set: the parameter \<open>casecmp\<close>, on the strings before the
  zero.
\<close>

definition lex_string_cmp :: "(u8 list \<Rightarrow> u8 list \<Rightarrow> int) \<Rightarrow> bmem \<Rightarrow> lex_cstring \<Rightarrow> lex_cstring \<Rightarrow> bool option" where
  "lex_string_cmp casecmp m a b =
     (case (c_string m (lex_str a), c_string m (lex_str b)) of
        (Some s, Some t) \<Rightarrow> Some (casecmp s t \<noteq> 0)
      | _ \<Rightarrow> None)"

definition lex_cmp :: "bmem \<Rightarrow> lex_cstring \<Rightarrow> lex_cstring \<Rightarrow> bool option" where
  "lex_cmp m a b =
     (if lex_length a \<noteq> lex_length b then Some True
      else if lex_length a = 0 then Some False
      else (case (load_bytes m (lex_str a) (unat (lex_length a)), load_bytes m (lex_str b) (unat (lex_length a))) of
              (Some s, Some t) \<Rightarrow> Some (s \<noteq> t)
            | _ \<Rightarrow> None))"

definition lex_string_eq_len :: "bmem \<Rightarrow> lex_cstring \<Rightarrow> bptr \<Rightarrow> u64 \<Rightarrow> bool option" where
  "lex_string_eq_len m a b b_length =
     (if lex_length a \<noteq> b_length then Some False
      else (case (c_string m (lex_str a), c_string m b) of
              (Some s, Some t) \<Rightarrow> Some (map fold_letter s = map fold_letter t)
            | _ \<Rightarrow> None))"

definition lex_string_eq :: "bmem \<Rightarrow> lex_cstring \<Rightarrow> lex_cstring \<Rightarrow> bool option" where
  "lex_string_eq m a b =
     (if lex_length a \<noteq> lex_length b then Some False
      else (case (c_string m (lex_str a), c_string m (lex_str b)) of
              (Some s, Some t) \<Rightarrow> Some (map fold_letter s = map fold_letter t)
            | _ \<Rightarrow> None))"

subsection \<open>Trimming\<close>

definition lex_value :: "bmem \<Rightarrow> lex_cstring \<Rightarrow> u8 list option" where
  "lex_value m x = load_bytes m (lex_str x) (unat (lex_length x))"

definition rstrip :: "('a \<Rightarrow> bool) \<Rightarrow> 'a list \<Rightarrow> 'a list" where
  "rstrip P s = rev (dropWhile P (rev s))"

lemma load_byte_head:
  assumes "load_bytes m p n = Some s" "0 < n"
  shows "load_byte m p = Some (hd s)"
  using load_ptr_add [OF assms(1), of 0 1] assms load_bytes_length [OF assms(1)]
  by (cases s) (auto simp: load_byte_def)

lemma load_byte_last:
  assumes "load_bytes m p n = Some s" "0 < n"
  shows "load_byte m (ptr_add p (n - 1)) = Some (last s)"
  using load_ptr_add [OF assms(1), of "n - 1" 1] assms load_bytes_length [OF assms(1)]
  by (cases s rule: rev_cases) (auto simp: load_byte_def)

lemma lex_value_length: "lex_value m x = Some s \<Longrightarrow> unat (lex_length x) = length s"
  by (auto simp: lex_value_def dest: load_bytes_length)

lemma ltrim_loop_value:
  assumes "lex_value m x = Some s"
  shows "ltrim_loop cs m x =
    Some \<lparr>lex_str = ptr_add (lex_str x) (length (takeWhile (my_isspace cs) s)),
          lex_length = of_nat (length (dropWhile (my_isspace cs) s)), \<dots> = lex_cstring.more x\<rparr>"
  using assms
proof (induction s arbitrary: x)
  case Nil
  then have "lex_length x = 0" using lex_value_length by (fastforce simp: word_unat_eq_iff)
  then show ?case by (cases x) (simp add: ltrim_loop.simps)
next
  case (Cons c s)
  let ?n = "unat (lex_length x)"
  have n: "?n = Suc (length s)" using load_bytes_length [OF Cons.prems [unfolded lex_value_def]] by simp
  then have pos: "lex_length x > 0" by (simp add: word_less_nat_alt)
  have c: "load_byte m (lex_str x) = Some c"
    using load_byte_head [OF Cons.prems [unfolded lex_value_def]] n by simp
  show ?case
  proof (cases "my_isspace cs c")
    case True
    let ?x = "x\<lparr>lex_length := lex_length x - 1, lex_str := ptr_add (lex_str x) 1\<rparr>"
    have "lex_value m ?x = Some s"
      using load_ptr_add [OF Cons.prems [unfolded lex_value_def], of 1 "length s"] n pos
      by (simp add: lex_value_def unat_minus_one)
    from Cons.IH [OF this] show ?thesis using c pos True by (subst ltrim_loop.simps) simp
  next
    case False
    have "of_nat (Suc (length s)) = lex_length x" by (simp add: n [symmetric] del: of_nat_Suc)
    then show ?thesis using c pos False by (cases x) (simp add: ltrim_loop.simps)
  qed
qed

lemma rtrim_loop_value:
  assumes "lex_value m x = Some s"
  shows "rtrim_loop cs m x = Some (x\<lparr>lex_length := of_nat (length (rstrip (my_isspace cs) s))\<rparr>)"
  using assms
proof (induction s arbitrary: x rule: rev_induct)
  case Nil
  then have "lex_length x = 0" using lex_value_length by (fastforce simp: word_unat_eq_iff)
  then show ?case by (cases x) (simp add: rtrim_loop.simps rstrip_def)
next
  case (snoc c s)
  let ?n = "unat (lex_length x)"
  have n: "?n = Suc (length s)" using load_bytes_length [OF snoc.prems [unfolded lex_value_def]] by simp
  then have pos: "lex_length x > 0" by (simp add: word_less_nat_alt)
  have c: "load_byte m (ptr_add (lex_str x) (unat (lex_length x - 1))) = Some c"
    using load_byte_last [OF snoc.prems [unfolded lex_value_def]] n pos by (simp add: unat_minus_one)
  show ?case
  proof (cases "my_isspace cs c")
    case True
    let ?x = "x\<lparr>lex_length := lex_length x - 1\<rparr>"
    have "lex_value m ?x = Some s"
      using load_ptr_add [OF snoc.prems [unfolded lex_value_def], of 0 "length s"] n pos
      by (simp add: lex_value_def unat_minus_one)
    from snoc.IH [OF this] show ?thesis using c pos True by (subst rtrim_loop.simps) (simp add: rstrip_def)
  next
    case False
    have "of_nat (Suc (length s)) = lex_length x" by (simp add: n [symmetric] del: of_nat_Suc)
    then show ?thesis using c pos False by (cases x) (simp add: rtrim_loop.simps rstrip_def)
  qed
qed

lemma lex_value_part:
  assumes "lex_value m x = Some s" "i + k \<le> length s"
  shows "lex_value m \<lparr>lex_str = ptr_add (lex_str x) i, lex_length = of_nat k, \<dots> = z\<rparr> = Some (take k (drop i s))"
proof -
  have l: "length s = unat (lex_length x)" using assms(1) by (auto simp: lex_value_def dest: load_bytes_length)
  then have "k < 2 ^ 64" using assms(2) unat_bound [of "lex_length x"] by simp
  then have "unat (of_nat k :: u64) = k" by (simp add: unat_of_nat take_bit_nat_eq_self)
  then show ?thesis
    using load_ptr_add [of m "lex_str x" "unat (lex_length x)" s i k] assms l by (simp add: lex_value_def)
qed

text \<open>
  \<open>trim_whitespace\<close> on a readable string of a character set with single-byte white space returns
  the part of the string between its leading and trailing white space, as a pointer into the same
  memory, and \<open>prefix_length\<close> is the number of white space bytes skipped. No byte outside the
  string is read, also when the string is empty or white space only.
\<close>

lemma trim_whitespace_correct:
  assumes "lex_value m x = Some s" "mbminlen cs = 1"
  shows "\<exists>t. trim_whitespace_prefix cs m x = Some (t, of_nat (length (takeWhile (my_isspace cs) s))) \<and>
    trim_whitespace cs m x = Some t \<and>
    lex_str t = ptr_add (lex_str x) (length (takeWhile (my_isspace cs) s)) \<and>
    lex_value m t = Some (rstrip (my_isspace cs) (dropWhile (my_isspace cs) s))"
proof -
  let ?P = "my_isspace cs"
  let ?i = "length (takeWhile ?P s)"
  define y where "y = \<lparr>lex_str = ptr_add (lex_str x) ?i, lex_length = of_nat (length (dropWhile ?P s)), \<dots> = lex_cstring.more x\<rparr>"
  have y: "ltrim_whitespace cs m x = Some y"
    using ltrim_loop_value [OF assms(1)] assms(2) by (simp add: ltrim_whitespace_def y_def)
  have len: "?i + length (dropWhile ?P s) = length s" by (metis length_append takeWhile_dropWhile_id)
  have d: "drop ?i s = dropWhile ?P s" by (simp add: dropWhile_eq_drop)
  have vy: "lex_value m y = Some (dropWhile ?P s)"
    using lex_value_part [OF assms(1), of ?i "length (dropWhile ?P s)"] len d by (simp add: y_def)
  define r where "r = rstrip ?P (dropWhile ?P s)"
  define t where "t = y\<lparr>lex_length := of_nat (length r)\<rparr>"
  have t: "rtrim_whitespace cs m y = Some t"
    using rtrim_loop_value [OF vy] assms(2) by (simp add: rtrim_whitespace_def t_def r_def)
  have pre: "length r \<le> length (dropWhile ?P s)" "take (length r) (dropWhile ?P s) = r"
  proof -
    have "dropWhile ?P s = r @ rev (takeWhile ?P (rev (dropWhile ?P s)))"
      unfolding r_def rstrip_def by (metis rev_append rev_rev_ident takeWhile_dropWhile_id)
    then show "length r \<le> length (dropWhile ?P s)" "take (length r) (dropWhile ?P s) = r"
      by (metis le_add1 length_append, metis append_eq_conv_conj)
  qed
  have vt: "lex_value m t = Some r"
    using lex_value_part [OF vy, of 0 "length r"] pre by (cases y) (simp add: t_def)
  have prefix: "(case (lex_str y, lex_str x) of (Ptr _ j, Ptr _ i) \<Rightarrow> of_nat (j - i) | _ \<Rightarrow> 0) = (of_nat ?i :: u64)"
  proof (cases "lex_str x")
    case Null
    then have "s = []" using assms(1) by (auto simp: lex_value_def load_bytes_def split: if_splits)
    then show ?thesis using Null by (simp add: y_def)
  qed (simp add: y_def)
  show ?thesis
    using y t vt prefix
    by (simp add: trim_whitespace_prefix_def trim_whitespace_def t_def r_def [symmetric] y_def [symmetric]) (simp add: y_def)
qed

text \<open>A table in which only the space character is white space, for the examples.\<close>

definition sample_cs :: charset_info where
  "sample_cs =
     \<lparr>cs_id = 1, cs_number = 8, cs_state = 1, cs_name = [], m_ctype = map (\<lambda>i. if i = 33 then 8 else 0) [0..<257],
      to_lower_tab = [], to_upper_tab = [], mbminlen = 1, mbmaxlen = 1, cset_charlen = \<lambda>s. int (min 1 (length s)),
      cset_numchars = \<lambda>s. of_nat (length s), cset_charpos = \<lambda>s n. n, cset_lengthsp = \<lambda>s. of_nat (length s),
      cset_well_formed = \<lambda>s n. (of_nat (length s), False), cset_wc_mb = \<lambda>wc. (1, [ucast wc]), cset_scan_spaces = \<lambda>s. 0\<rparr>"

definition sample_mem :: bmem where
  "sample_mem = [0 \<mapsto> [32, 65, 32, 66, 32, 0]]"

lemma trim_whitespace_correct_witness:
  "\<exists>t. trim_whitespace sample_cs sample_mem (lex_make (Ptr 0 0) 5) = Some t \<and> lex_value sample_mem t = Some [65, 32, 66]"
proof -
  have v: "lex_value sample_mem (lex_make (Ptr 0 0) 5) = Some [32, 65, 32, 66, 32]"
    by (simp add: lex_value_def lex_make_def sample_mem_def load_bytes_def)
  have sp: "my_isspace sample_cs 32" "\<not> my_isspace sample_cs 65" "\<not> my_isspace sample_cs 66"
    by (simp_all add: my_isspace_def has_ctype_def sample_cs_def MY_SPC_def)
  have "mbminlen sample_cs = 1" by (simp add: sample_cs_def)
  from trim_whitespace_correct [OF v this] sp show ?thesis by (auto simp: rstrip_def)
qed

subsection \<open>Comparisons\<close>

lemma takeWhile_nonzero: "0 \<notin> set s \<Longrightarrow> takeWhile (\<lambda>c. c \<noteq> (0::u8)) (s @ 0 # t) = s"
  by (induction s) auto

lemma c_string_terminated:
  assumes "lex_value m x = Some s" "0 \<notin> set s" "load_byte m (ptr_add (lex_str x) (length s)) = Some 0"
  shows "c_string m (lex_str x) = Some s"
proof (cases "lex_str x")
  case Null
  then show ?thesis using assms(3) by (simp add: load_byte_def load_bytes_def)
next
  case (Ptr b i)
  obtain bs where bs: "m b = Some bs" "i + length s < length bs" "bs ! (i + length s) = 0"
    using assms(3) Ptr by (auto simp: load_byte_def load_bytes_def hd_drop_conv_nth take_Suc split: option.splits)
  have "take (length s) (drop i bs) = s"
    using assms(1) Ptr bs lex_value_length [OF assms(1)] by (auto simp: lex_value_def load_bytes_def split: if_splits)
  then have "drop i bs = s @ 0 # drop (Suc (i + length s)) bs"
    using bs(2,3) by (metis Cons_nth_drop_Suc append_take_drop_id drop_drop add.commute)
  then show ?thesis
    using Ptr bs assms(2) by (simp add: c_string_def rest_of_block_def takeWhile_nonzero)
qed

text \<open>
  \<open>cmp\<close> of two readable strings answers false exactly when they are equal. \<open>lex_string_eq\<close> of two
  strings that end with a zero byte and contain none answers true exactly when they are equal up to
  the case of the letters, in the form with two strings and in the form with a pointer and a length.
\<close>

lemma lex_comparisons:
  assumes "lex_value m a = Some s" "lex_value m b = Some t"
    and "0 \<notin> set s" "0 \<notin> set t"
    and "load_byte m (ptr_add (lex_str a) (length s)) = Some 0" "load_byte m (ptr_add (lex_str b) (length t)) = Some 0"
  shows "lex_cmp m a b = Some (s \<noteq> t) \<and>
    lex_string_eq m a b = Some (map fold_letter s = map fold_letter t) \<and>
    lex_string_eq_len m a (lex_str b) (lex_length b) = lex_string_eq m a b"
proof -
  have l: "unat (lex_length a) = length s" "unat (lex_length b) = length t"
    using lex_value_length assms(1,2) by blast+
  have ne: "lex_length a = lex_length b \<longleftrightarrow> length s = length t" using l by (simp add: word_unat_eq_iff)
  have z: "lex_length a = 0 \<longleftrightarrow> s = []" using l by (simp add: word_unat_eq_iff)
  have "map fold_letter s \<noteq> map fold_letter t" if "length s \<noteq> length t" using that by (metis length_map)
  then show ?thesis
    using assms(1,2) ne z l c_string_terminated [OF assms(1,3,5)] c_string_terminated [OF assms(2,4,6)]
    by (auto simp: lex_cmp_def lex_string_eq_def lex_string_eq_len_def lex_value_def)
qed

lemma lex_comparisons_witness:
  "lex_cmp [0 \<mapsto> [65, 98, 0, 97, 66, 0]] (lex_make (Ptr 0 0) 2) (lex_make (Ptr 0 3) 2) = Some True \<and>
   lex_string_eq [0 \<mapsto> [65, 98, 0, 97, 66, 0]] (lex_make (Ptr 0 0) 2) (lex_make (Ptr 0 3) 2) = Some True"
proof -
  let ?m = "[0 \<mapsto> [65, 98, 0, 97, 66, 0]] :: bmem"
  have "lex_value ?m (lex_make (Ptr 0 0) 2) = Some [65, 98]" "lex_value ?m (lex_make (Ptr 0 3) 2) = Some [97, 66]"
    by (simp_all add: lex_value_def lex_make_def load_bytes_def)
  from lex_comparisons [OF this] show ?thesis by (simp add: lex_make_def load_byte_def load_bytes_def fold_letter_def)
qed

text \<open>
  A zero byte inside ends the comparison of \<open>lex_string_eq\<close> although the lengths cover more, and a
  string without a zero byte after it is read beyond its end.
\<close>

lemma lex_string_eq_embedded_zero:
  "lex_string_eq [0 \<mapsto> [65, 0, 66, 0], 1 \<mapsto> [65, 0, 67, 0]] (lex_make (Ptr 0 0) 3) (lex_make (Ptr 1 0) 3) = Some True"
  "lex_cmp [0 \<mapsto> [65, 0, 66, 0], 1 \<mapsto> [65, 0, 67, 0]] (lex_make (Ptr 0 0) 3) (lex_make (Ptr 1 0) 3) = Some True"
  "lex_string_eq [0 \<mapsto> [65, 66], 1 \<mapsto> [65, 66]] (lex_make (Ptr 0 0) 2) (lex_make (Ptr 1 0) 2) = None"
  by (simp_all add: lex_string_eq_def lex_cmp_def lex_make_def c_string_def rest_of_block_def load_bytes_def)

text \<open>A string built from a C string, or from two pointers, has the bytes between them.\<close>

lemma lex_from_c_string_value:
  assumes "c_string m p = Some s" "length s < 2 ^ 64"
  shows "\<exists>x. lex_from_c_string m p = Some x \<and> lex_value m x = Some s"
proof -
  obtain b i bs where p: "p = Ptr b i" "m b = Some bs" "i \<le> length bs" "s = takeWhile (\<lambda>c. c \<noteq> 0) (drop i bs)"
    using assms(1) by (auto simp: c_string_def rest_of_block_def split: bptr.splits option.splits)
  have "take (length s) (drop i bs) = s" by (simp add: p(4) takeWhile_eq_take [symmetric])
  moreover have "i + length s \<le> length bs"
    using p(3) length_takeWhile_le [of "\<lambda>c. c \<noteq> 0" "drop i bs"] by (simp add: p(4))
  ultimately have "load_bytes m p (length s) = Some s" using p by (simp add: load_bytes_def)
  then show ?thesis
    using assms p(1) by (simp add: lex_from_c_string_def lex_value_def lex_make_def unat_of_nat take_bit_nat_eq_self)
qed

end
