(* ===== verification/Sql_String.thy ===== *)
theory Sql_String
  imports Lex_Strings Byte_Order
begin

text \<open>
  \<open>Binary_string\<close> and \<open>String\<close> of \<open>sql_string.h\<close>: a buffer that may belong to the object or to
  somebody else, a used length and an allocated length of 32 bits. Memory is that of
  \<open>Byte_Memory\<close>, so an access outside a live block, a failed assertion and a double free are
  \<open>None\<close>. The functions that get memory, \<open>realloc_raw\<close> and \<open>real_alloc\<close>, are defined in another
  file: they are parameters, and \<open>realloc_ok\<close> states what their documentation promises.
  \<open>str_ok s m\<close> says that the lengths fit the block the object points to; the lemmas show what each
  operation appends or changes, that constant strings are never written, and where the 32-bit
  lengths wrap around.
\<close>

subsection \<open>Objects and buffers\<close>

record bin_string =
  bs_ptr :: bptr
  str_length :: u32
  alloced_length :: u32
  extra_alloc :: u32
  alloced :: bool
  thread_specific :: bool

definition init_private_data :: "'z bin_string_scheme \<Rightarrow> 'z bin_string_scheme" where
  "init_private_data s =
     s\<lparr>bs_ptr := Null, alloced_length := 0, extra_alloc := 0, str_length := 0, alloced := False, thread_specific := False\<rparr>"

definition free_buffer :: "'z bin_string_scheme \<Rightarrow> bmem \<Rightarrow> ('z bin_string_scheme \<times> bmem) option" where
  "free_buffer s m =
     (if alloced s then map_option (\<lambda>m. (s\<lparr>alloced := False\<rparr>, m)) (my_free (bs_ptr s) m) else Some (s, m))"

definition bs_make :: bin_string where
  "bs_make = init_private_data
     \<lparr>bs_ptr = Null, str_length = 0, alloced_length = 0, extra_alloc = 0, alloced = False, thread_specific = False\<rparr>"

definition bs_make_const :: "bptr \<Rightarrow> u64 \<Rightarrow> bin_string" where
  "bs_make_const str len =
     \<lparr>bs_ptr = str, str_length = ucast len, alloced_length = 0, extra_alloc = 0, alloced = False, thread_specific = False\<rparr>"

definition bs_make_buffer :: "bptr \<Rightarrow> u64 \<Rightarrow> bin_string" where
  "bs_make_buffer str len =
     \<lparr>bs_ptr = str, str_length = ucast len, alloced_length = ucast len, extra_alloc = 0, alloced = False, thread_specific = False\<rparr>"

definition bs_make_copy :: "'z bin_string_scheme \<Rightarrow> bin_string" where
  "bs_make_copy str =
     \<lparr>bs_ptr = bs_ptr str, str_length = str_length str, alloced_length = alloced_length str, extra_alloc = 0,
      alloced = False, thread_specific = False\<rparr>"

definition bs_set_length :: "u64 \<Rightarrow> 'z bin_string_scheme \<Rightarrow> 'z bin_string_scheme" where
  "bs_set_length len s = s\<lparr>str_length := ucast len\<rparr>"

definition bs_is_empty :: "'z bin_string_scheme \<Rightarrow> bool" where
  "bs_is_empty s \<longleftrightarrow> str_length s = 0"

definition bs_end :: "'z bin_string_scheme \<Rightarrow> bptr" where
  "bs_end s = ptr_add (bs_ptr s) (unat (str_length s))"

text \<open>The used bytes.\<close>

definition bs_bytes :: "'z bin_string_scheme \<Rightarrow> bmem \<Rightarrow> u8 list option" where
  "bs_bytes s m = load_bytes m (bs_ptr s) (unat (str_length s))"

fun has_8bit :: "u8 list \<Rightarrow> bool" where
  "has_8bit [] = False"
| "has_8bit (c # cs) = (if \<not> my_isascii c then True else has_8bit cs)"

definition has_8bit_bytes :: "'z bin_string_scheme \<Rightarrow> bmem \<Rightarrow> bool option" where
  "has_8bit_bytes s m = map_option has_8bit (bs_bytes s m)"

definition bin_eq :: "'z bin_string_scheme \<Rightarrow> 'y bin_string_scheme \<Rightarrow> bmem \<Rightarrow> bool option" where
  "bin_eq s other m =
     (if str_length s = str_length other
      then (case (bs_bytes s m, load_bytes m (bs_ptr other) (unat (str_length s))) of
              (Some x, Some y) \<Rightarrow> Some (x = y)
            | _ \<Rightarrow> None)
      else Some False)"

text \<open>Storing at an offset of the buffer.\<close>

definition store_at :: "'z bin_string_scheme \<Rightarrow> u32 \<Rightarrow> u8 list \<Rightarrow> bmem \<Rightarrow> bmem option" where
  "store_at s i ds m = store_bytes m (ptr_add (bs_ptr s) (unat i)) ds"

definition bs_chop :: "'z bin_string_scheme \<Rightarrow> bmem \<Rightarrow> ('z bin_string_scheme \<times> bmem) option" where
  "bs_chop s m =
     (if str_length s \<noteq> 0
      then (let s = s\<lparr>str_length := str_length s - 1\<rparr>
            in case store_at s (str_length s) [0] m of
                 None \<Rightarrow> None
               | Some m \<Rightarrow>
                   (case c_string m (bs_ptr s) of
                      None \<Rightarrow> None
                    | Some cs \<Rightarrow> guard (length cs = unat (str_length s)) (s, m)))
      else Some (s, m))"

subsection \<open>Appending without growing\<close>

text \<open>\<open>ASSERT_LENGTH(A)\<close>: a sum of 32 bits.\<close>

definition assert_length :: "u32 \<Rightarrow> 'z bin_string_scheme \<Rightarrow> bool" where
  "assert_length a s \<longleftrightarrow> str_length s + a \<le> alloced_length s"

definition q_append_fixed :: "u8 list \<Rightarrow> 'z bin_string_scheme \<Rightarrow> bmem \<Rightarrow> ('z bin_string_scheme \<times> bmem) option" where
  "q_append_fixed ds s m =
     (if \<not> assert_length (of_nat (length ds)) s then None
      else map_option (\<lambda>m. (s\<lparr>str_length := str_length s + of_nat (length ds)\<rparr>, m)) (store_at s (str_length s) ds m))"

definition q_append_char :: "u8 \<Rightarrow> 'z bin_string_scheme \<Rightarrow> bmem \<Rightarrow> ('z bin_string_scheme \<times> bmem) option" where
  "q_append_char c s m = q_append_fixed [c] s m"

definition q_append2b :: "u32 \<Rightarrow> 'z bin_string_scheme \<Rightarrow> bmem \<Rightarrow> ('z bin_string_scheme \<times> bmem) option" where
  "q_append2b n s m = q_append_fixed (int2store n) s m"

definition q_append_uint32 :: "u32 \<Rightarrow> 'z bin_string_scheme \<Rightarrow> bmem \<Rightarrow> ('z bin_string_scheme \<times> bmem) option" where
  "q_append_uint32 n s m = q_append_fixed (int4store n) s m"

text \<open>A double is the eight bytes of its image in memory.\<close>

definition q_append_double ::
  "float_layout \<Rightarrow> u8 list \<Rightarrow> 'z bin_string_scheme \<Rightarrow> bmem \<Rightarrow> ('z bin_string_scheme \<times> bmem) option" where
  "q_append_double lay d s m = q_append_fixed (float8store lay d) s m"

definition q_append_wc :: "u32 \<Rightarrow> charset_info \<Rightarrow> 'z bin_string_scheme \<Rightarrow> bmem \<Rightarrow> (int \<times> 'z bin_string_scheme \<times> bmem) option" where
  "q_append_wc wc cs s m =
     (let (mblen, ds) = cset_wc_mb cs wc
      in if mblen > 0
         then map_option (\<lambda>m. (mblen, s\<lparr>str_length := str_length s + word_of_int mblen\<rparr>, m)) (store_at s (str_length s) ds m)
         else Some (mblen, s, m))"

text \<open>The second assertion is checked after the bytes are copied; \<open>data_len\<close> is a \<open>size_t\<close>.\<close>

definition q_append :: "u8 list \<Rightarrow> 'z bin_string_scheme \<Rightarrow> bmem \<Rightarrow> ('z bin_string_scheme \<times> bmem) option" where
  "q_append data s m =
     (let data_len = of_nat (length data) :: u64
      in if \<not> assert_length (ucast data_len) s then None
         else (case store_at s (str_length s) data m of
                 None \<Rightarrow> None
               | Some m \<Rightarrow>
                   guard ((ucast (str_length s) :: u64) \<le> 0xFFFFFFFF - data_len)
                     (s\<lparr>str_length := str_length s + ucast data_len\<rparr>, m)))"

text \<open>The assertion on a \<open>LEX_CSTRING\<close>: short, and ending with a zero byte at its length.\<close>

definition assert_lex :: "lex_cstring \<Rightarrow> bmem \<Rightarrow> bool" where
  "assert_lex ls m \<longleftrightarrow>
     lex_length ls < 0xFFFFFFFF \<and>
     (lex_length ls = 0 \<and> lex_str ls = Null \<or>
      (case c_string m (lex_str ls) of None \<Rightarrow> False | Some cs \<Rightarrow> lex_length ls = of_nat (length cs)))"

definition q_append_lex :: "lex_cstring \<Rightarrow> 'z bin_string_scheme \<Rightarrow> bmem \<Rightarrow> ('z bin_string_scheme \<times> bmem) option" where
  "q_append_lex ls s m =
     (if \<not> assert_lex ls m then None
      else (case lex_value m ls of None \<Rightarrow> None | Some data \<Rightarrow> q_append data s m))"

definition write_at_position :: "u32 \<Rightarrow> u32 \<Rightarrow> 'z bin_string_scheme \<Rightarrow> bmem \<Rightarrow> bmem option" where
  "write_at_position pos v s m = (if str_length s \<ge> pos + 4 then store_at s pos (int4store v) m else None)"

subsection \<open>Changing the buffer\<close>

definition set_thread_specific :: "'z bin_string_scheme \<Rightarrow> 'z bin_string_scheme" where
  "set_thread_specific s = (if \<not> alloced s then s\<lparr>thread_specific := True\<rparr> else s)"

definition set_extra_allocation :: "u64 \<Rightarrow> 'z bin_string_scheme \<Rightarrow> 'z bin_string_scheme" where
  "set_extra_allocation len s = s\<lparr>extra_alloc := ucast len\<rparr>"

definition mark_as_const :: "'z bin_string_scheme \<Rightarrow> 'z bin_string_scheme" where
  "mark_as_const s = s\<lparr>alloced_length := 0\<rparr>"

text \<open>Pointers into different blocks do not compare as in the buffer.\<close>

definition uses_buffer_owned_by :: "'z bin_string_scheme \<Rightarrow> 'y bin_string_scheme \<Rightarrow> bool" where
  "uses_buffer_owned_by s t \<longleftrightarrow>
     alloced t \<and>
     (case (bs_ptr s, bs_ptr t) of
        (Ptr b i, Ptr c j) \<Rightarrow> b = c \<and> i \<ge> j \<and> i < j + unat (alloced_length t)
      | _ \<Rightarrow> False)"

definition bs_swap ::
  "'z bin_string_scheme \<Rightarrow> 'y bin_string_scheme \<Rightarrow> 'z bin_string_scheme \<times> 'y bin_string_scheme" where
  "bs_swap s t =
     (s\<lparr>bs_ptr := bs_ptr t, str_length := str_length t, alloced_length := alloced_length t, alloced := alloced t\<rparr>,
      t\<lparr>bs_ptr := bs_ptr s, str_length := str_length s, alloced_length := alloced_length s, alloced := alloced s\<rparr>)"

definition set_alloced ::
  "bptr \<Rightarrow> u64 \<Rightarrow> u64 \<Rightarrow> 'z bin_string_scheme \<Rightarrow> bmem \<Rightarrow> ('z bin_string_scheme \<times> bmem) option" where
  "set_alloced str len alen s m =
     (case free_buffer s m of None \<Rightarrow> None
      | Some (s, m) \<Rightarrow>
          guard (alen < 0xFFFFFFFF) (s\<lparr>bs_ptr := str, str_length := ucast len, alloced_length := ucast alen\<rparr>, m))"

definition bs_set :: "bptr \<Rightarrow> u64 \<Rightarrow> 'z bin_string_scheme \<Rightarrow> bmem \<Rightarrow> ('z bin_string_scheme \<times> bmem) option" where
  "bs_set str len s m = set_alloced str len len s m"

definition bs_set_const :: "bptr \<Rightarrow> u64 \<Rightarrow> 'z bin_string_scheme \<Rightarrow> bmem \<Rightarrow> ('z bin_string_scheme \<times> bmem) option" where
  "bs_set_const str len s m =
     (case free_buffer s m of None \<Rightarrow> None
      | Some (s, m) \<Rightarrow> Some (s\<lparr>bs_ptr := str, str_length := ucast len, alloced_length := 0\<rparr>, m))"

text \<open>A part of another object, which is not \<open>this\<close>.\<close>

definition bs_set_part ::
  "'y bin_string_scheme \<Rightarrow> u64 \<Rightarrow> u64 \<Rightarrow> 'z bin_string_scheme \<Rightarrow> bmem \<Rightarrow> ('z bin_string_scheme \<times> bmem) option" where
  "bs_set_part str offset len s m =
     (case free_buffer s m of None \<Rightarrow> None
      | Some (s, m) \<Rightarrow>
          Some (s\<lparr>bs_ptr := ptr_add (bs_ptr str) (unat offset), str_length := ucast len,
                   alloced_length :=
                     (if alloced_length str \<noteq> 0 then ucast (ucast (alloced_length str) - offset) else 0)\<rparr>, m))"

definition to_lex_cstring :: "'z bin_string_scheme \<Rightarrow> lex_cstring" where
  "to_lex_cstring s = \<lparr>lex_str = bs_ptr s, lex_length = ucast (str_length s)\<rparr>"

definition get_value :: "lex_cstring \<Rightarrow> 'z bin_string_scheme \<Rightarrow> lex_cstring" where
  "get_value res s = res\<lparr>lex_str := bs_ptr s, lex_length := ucast (str_length s)\<rparr>"

definition bs_reset ::
  "bptr \<Rightarrow> u64 \<Rightarrow> u64 \<Rightarrow> 'z bin_string_scheme \<Rightarrow> bmem \<Rightarrow> ('z bin_string_scheme \<times> bmem) option" where
  "bs_reset p len alen s m = map_option (\<lambda>(s, m). (s\<lparr>alloced := p \<noteq> Null\<rparr>, m)) (set_alloced p len alen s m)"

definition bs_release :: "'z bin_string_scheme \<Rightarrow> bptr \<times> 'z bin_string_scheme" where
  "bs_release s = (let old = bs_ptr s in (old, init_private_data s))"

definition set_buffer_if_not_allocated :: "bptr \<Rightarrow> u64 \<Rightarrow> 'z bin_string_scheme \<Rightarrow> 'z bin_string_scheme" where
  "set_buffer_if_not_allocated str len s =
     (if \<not> alloced s then s\<lparr>bs_ptr := str, str_length := ucast len, alloced_length := ucast len\<rparr> else s)"

text \<open>Assignment; \<open>self\<close> says that both sides are the same object.\<close>

definition bs_assign :: "bool \<Rightarrow> 'y bin_string_scheme \<Rightarrow> 'z bin_string_scheme \<Rightarrow> bmem \<Rightarrow> ('z bin_string_scheme \<times> bmem) option" where
  "bs_assign self t s m =
     (if self then Some (s, m)
      else if uses_buffer_owned_by t s then None
      else set_alloced (bs_ptr t) (ucast (str_length t)) (ucast (alloced_length t)) s m)"

definition bs_free :: "'z bin_string_scheme \<Rightarrow> bmem \<Rightarrow> ('z bin_string_scheme \<times> bmem) option" where
  "bs_free s m =
     map_option (\<lambda>(s, m). (s\<lparr>bs_ptr := Null, str_length := 0, alloced_length := 0, extra_alloc := 0\<rparr>, m)) (free_buffer s m)"

text \<open>\<open>move\<close> leaves the source pointing to the buffer it no longer owns.\<close>

definition bs_move ::
  "'y bin_string_scheme \<Rightarrow> 'z bin_string_scheme \<Rightarrow> bmem \<Rightarrow> ('z bin_string_scheme \<times> 'y bin_string_scheme \<times> bmem) option" where
  "bs_move t s m =
     map_option
       (\<lambda>(s, m). (s\<lparr>extra_alloc := extra_alloc t, alloced := alloced t, thread_specific := thread_specific t\<rparr>,
                  t\<lparr>alloced := False\<rparr>, m))
       (set_alloced (bs_ptr t) (ucast (str_length t)) (ucast (alloced_length t)) s m)"

subsection \<open>Growing\<close>

text \<open>
  \<open>realloc_raw\<close> and \<open>real_alloc\<close>: they answer true on failure. A \<open>size_t\<close> is a word of 64 bits.
\<close>

type_synonym 'z grow = "u64 \<Rightarrow> 'z bin_string_scheme \<Rightarrow> bmem \<Rightarrow> bool \<times> 'z bin_string_scheme \<times> bmem"

definition bs_alloc :: "'z grow \<Rightarrow> u64 \<Rightarrow> 'z bin_string_scheme \<Rightarrow> bmem \<Rightarrow> bool \<times> 'z bin_string_scheme \<times> bmem" where
  "bs_alloc real_alloc arg_length s m =
     (if arg_length \<le> ucast (alloced_length s) \<and> alloced_length s \<noteq> 0 then (False, s, m)
      else real_alloc arg_length s m)"

text \<open>\<open>Ptr[arg_length]= 0\<close> with an index of 64 bits.\<close>

definition zero_at :: "u64 \<Rightarrow> 'z bin_string_scheme \<Rightarrow> bmem \<Rightarrow> bmem option" where
  "zero_at i s m = store_bytes m (ptr_add (bs_ptr s) (unat i)) [0]"

definition bs_realloc :: "'z grow \<Rightarrow> u64 \<Rightarrow> 'z bin_string_scheme \<Rightarrow> bmem \<Rightarrow> (bool \<times> 'z bin_string_scheme \<times> bmem) option" where
  "bs_realloc R arg_length s m =
     (case R (arg_length + 1) s m of
        (failed, s, m) \<Rightarrow>
          if failed then Some (True, s, m) else map_option (\<lambda>m. (False, s, m)) (zero_at arg_length s m))"

definition realloc_with_extra ::
  "'z grow \<Rightarrow> u64 \<Rightarrow> 'z bin_string_scheme \<Rightarrow> bmem \<Rightarrow> (bool \<times> 'z bin_string_scheme \<times> bmem) option" where
  "realloc_with_extra R arg_length s m =
     (let s = (if extra_alloc s < 4096 then s\<lparr>extra_alloc := extra_alloc s * 2 + 128\<rparr> else s)
      in case R (arg_length + ucast (extra_alloc s)) s m of
           (failed, s, m) \<Rightarrow>
             if failed then Some (True, s, m) else map_option (\<lambda>m. (False, s, m)) (zero_at arg_length s m))"

definition realloc_with_extra_if_needed ::
  "'z grow \<Rightarrow> u64 \<Rightarrow> 'z bin_string_scheme \<Rightarrow> bmem \<Rightarrow> (bool \<times> 'z bin_string_scheme \<times> bmem) option" where
  "realloc_with_extra_if_needed R arg_length s m =
     (if arg_length < ucast (alloced_length s) then map_option (\<lambda>m. (False, s, m)) (zero_at arg_length s m)
      else realloc_with_extra R arg_length s m)"

definition bs_append :: "'z grow \<Rightarrow> u8 list \<Rightarrow> 'z bin_string_scheme \<Rightarrow> bmem \<Rightarrow> (bool \<times> 'z bin_string_scheme \<times> bmem) option" where
  "bs_append R data s m =
     (let size = of_nat (length data)
      in if size = 0 then Some (False, s, m)
         else (case realloc_with_extra_if_needed R (ucast (str_length s) + size) s m of
                 None \<Rightarrow> None
               | Some (failed, s, m) \<Rightarrow>
                   if failed then Some (True, s, m) else map_option (\<lambda>(s, m). (False, s, m)) (q_append data s m)))"

text \<open>
  \<open>append\<close> with a pointer: the bytes are read after the reallocation. \<open>bs_append\<close> is this for a source
  that the reallocation does not touch, as the lemmas below show.
\<close>

definition bs_append_from :: "'z grow \<Rightarrow> bptr \<Rightarrow> u64 \<Rightarrow> 'z bin_string_scheme \<Rightarrow> bmem \<Rightarrow> (bool \<times> 'z bin_string_scheme \<times> bmem) option" where
  "bs_append_from R src len s m =
     (if len = 0 then Some (False, s, m)
      else (case realloc_with_extra_if_needed R (ucast (str_length s) + len) s m of
              None \<Rightarrow> None
            | Some (failed, s, m) \<Rightarrow>
                if failed then Some (True, s, m)
                else (case load_bytes m src (unat len) of
                        None \<Rightarrow> None
                      | Some data \<Rightarrow> map_option (\<lambda>(s, m). (False, s, m)) (q_append data s m))))"

definition append_char :: "'z grow \<Rightarrow> u8 \<Rightarrow> 'z bin_string_scheme \<Rightarrow> bmem \<Rightarrow> (bool \<times> 'z bin_string_scheme \<times> bmem) option" where
  "append_char R chr s m =
     (if str_length s < alloced_length s
      then map_option (\<lambda>m. (False, s\<lparr>str_length := str_length s + 1\<rparr>, m)) (store_at s (str_length s) [chr] m)
      else (case realloc_with_extra R (ucast (str_length s + 1)) s m of
              None \<Rightarrow> None
            | Some (failed, s, m) \<Rightarrow>
                if failed then Some (True, s, m)
                else map_option (\<lambda>m. (False, s\<lparr>str_length := str_length s + 1\<rparr>, m)) (store_at s (str_length s) [chr] m)))"

text \<open>\<open>dig\<close> is \<open>_dig_vec_lower\<close>, a table of another file.\<close>

fun append_hex ::
  "'z grow \<Rightarrow> u8 list \<Rightarrow> u8 list \<Rightarrow> 'z bin_string_scheme \<Rightarrow> bmem \<Rightarrow> (bool \<times> 'z bin_string_scheme \<times> bmem) option" where
  "append_hex R dig [] s m = Some (False, s, m)"
| "append_hex R dig (c # src) s m =
     (case append_char R (dig ! unat (drop_bit 4 c)) s m of
        None \<Rightarrow> None
      | Some (failed, s, m) \<Rightarrow>
          if failed then Some (True, s, m)
          else (case append_char R (dig ! unat (c AND 0x0F)) s m of
                  None \<Rightarrow> None
                | Some (failed, s, m) \<Rightarrow> if failed then Some (True, s, m) else append_hex R dig src s m))"

definition append_with_step ::
  "'z grow \<Rightarrow> u8 list \<Rightarrow> u32 \<Rightarrow> 'z bin_string_scheme \<Rightarrow> bmem \<Rightarrow> (bool \<times> 'z bin_string_scheme \<times> bmem) option" where
  "append_with_step R data step_alloc s m =
     (let new_length = of_nat (length data) + str_length s
      in case (if new_length > alloced_length s then bs_realloc R (ucast (new_length + step_alloc)) s m else Some (False, s, m)) of
           None \<Rightarrow> None
         | Some (failed, s, m) \<Rightarrow>
             if failed then Some (True, s, m) else map_option (\<lambda>(s, m). (False, s, m)) (q_append data s m))"

definition bs_reserve :: "'z grow \<Rightarrow> u64 \<Rightarrow> 'z bin_string_scheme \<Rightarrow> bmem \<Rightarrow> (bool \<times> 'z bin_string_scheme \<times> bmem) option" where
  "bs_reserve R space_needed s m =
     (if ucast (str_length s) + space_needed < 0xFFFFFFFF then bs_realloc R (ucast (str_length s) + space_needed) s m
      else None)"

text \<open>The area to use, \<open>Null\<close> on failure.\<close>

definition prep_append ::
  "'z grow \<Rightarrow> u32 \<Rightarrow> u32 \<Rightarrow> 'z bin_string_scheme \<Rightarrow> bmem \<Rightarrow> (bptr \<times> 'z bin_string_scheme \<times> bmem) option" where
  "prep_append R arg_length step_alloc s m =
     (let new_length = arg_length + str_length s
      in case (if new_length > alloced_length s then bs_realloc R (ucast (new_length + step_alloc)) s m else Some (False, s, m)) of
           None \<Rightarrow> None
         | Some (failed, s, m) \<Rightarrow>
             if failed then Some (Null, s, m)
             else (let old_length = str_length s; s = s\<lparr>str_length := str_length s + arg_length\<rparr>
                   in Some (ptr_add (bs_ptr s) (unat old_length), s, m)))"

text \<open>\<open>c_ptr\<close>; \<open>lit\<close> is the address of the literal \<open>""\<close>.\<close>

definition c_ptr :: "'z grow \<Rightarrow> bptr \<Rightarrow> 'z bin_string_scheme \<Rightarrow> bmem \<Rightarrow> (bptr \<times> 'z bin_string_scheme \<times> bmem) option" where
  "c_ptr R lit s m =
     (if bs_ptr s = Null then Some (lit, s, m)
      else (case (if alloced s then Some 1 else load_byte m (bs_end s)) of
              None \<Rightarrow> None
            | Some c \<Rightarrow>
                if c = 0 then Some (bs_ptr s, s, m)
                else if str_length s < alloced_length s
                then map_option (\<lambda>m. (bs_ptr s, s, m)) (store_at s (str_length s) [0] m)
                else map_option (\<lambda>(_, s, m). (bs_ptr s, s, m)) (bs_realloc R (ucast (str_length s)) s m)))"

definition c_ptr_safe :: "'z grow \<Rightarrow> 'z bin_string_scheme \<Rightarrow> bmem \<Rightarrow> (bptr \<times> 'z bin_string_scheme \<times> bmem) option" where
  "c_ptr_safe R s m =
     (if bs_ptr s \<noteq> Null \<and> str_length s < alloced_length s
      then map_option (\<lambda>m. (bs_ptr s, s, m)) (store_at s (str_length s) [0] m)
      else map_option (\<lambda>(_, s, m). (bs_ptr s, s, m)) (bs_realloc R (ucast (str_length s)) s m))"

text \<open>
  \<open>enc\<close> is the encoding of a length in the client protocol (\<open>net_store_length\<close>) and \<open>net_length_size\<close>
  its size, functions of another file.
\<close>

definition q_net_store_length ::
  "(u64 \<Rightarrow> u8 list) \<Rightarrow> (u64 \<Rightarrow> u32) \<Rightarrow> u64 \<Rightarrow> 'z bin_string_scheme \<Rightarrow> bmem \<Rightarrow> ('z bin_string_scheme \<times> bmem) option" where
  "q_net_store_length enc net_length_size len s m =
     (if alloced_length s \<ge> str_length s + net_length_size len
      then map_option (\<lambda>m. (s\<lparr>str_length := str_length s + of_nat (length (enc len))\<rparr>, m)) (store_at s (str_length s) (enc len) m)
      else None)"

definition q_net_store_data ::
  "(u64 \<Rightarrow> u8 list) \<Rightarrow> (u64 \<Rightarrow> u32) \<Rightarrow> u8 list \<Rightarrow> 'z bin_string_scheme \<Rightarrow> bmem \<Rightarrow> ('z bin_string_scheme \<times> bmem) option" where
  "q_net_store_data enc net_length_size from s m =
     (let len = of_nat (length from) :: u64
      in if len < 0xFFFFFFFF \<and> ucast (alloced_length s) \<ge> (ucast (str_length s) + len + ucast (net_length_size len) :: u64)
         then (case q_net_store_length enc net_length_size len s m of
                 None \<Rightarrow> None
               | Some (s, m) \<Rightarrow> q_append from s m)
         else None)"

subsection \<open>Well-formed objects\<close>

text \<open>The used and the allocated length fit into the block, which an owned buffer starts.\<close>

definition str_ok :: "'z bin_string_scheme \<Rightarrow> bmem \<Rightarrow> bool" where
  "str_ok s m \<longleftrightarrow>
     (case bs_ptr s of
        Null \<Rightarrow> str_length s = 0 \<and> alloced_length s = 0 \<and> \<not> alloced s
      | Ptr b i \<Rightarrow>
          (case m b of None \<Rightarrow> False
           | Some bs \<Rightarrow> i + unat (str_length s) \<le> length bs \<and> i + unat (alloced_length s) \<le> length bs \<and>
               (alloced s \<longrightarrow> i = 0)))"

text \<open>
  What the documentation of \<open>realloc_raw\<close> promises for a request beyond the used length: on failure
  nothing changes; on success the buffer has the size asked for and the used bytes are the same. A
  buffer that is large enough is kept; otherwise the buffer is new memory, or the old block enlarged
  if the object owns it. Only the buffer of the object itself is released, and only if owned.
\<close>

definition realloc_ok :: "'z grow \<Rightarrow> bool" where
  "realloc_ok R \<longleftrightarrow>
     (\<forall>n s m. str_ok s m \<and> unat (str_length s) < unat n \<and> unat n < 2 ^ 32 - 16 \<longrightarrow>
        (case R n s m of (failed, s', m') \<Rightarrow>
           if failed then s' = s \<and> m' = m
           else str_ok s' m' \<and> str_length s' = str_length s \<and> extra_alloc s' = extra_alloc s \<and>
             unat n \<le> unat (alloced_length s') \<and> bs_bytes s' m' = bs_bytes s m \<and>
             (if unat n \<le> unat (alloced_length s) then s' = s \<and> m' = m
              else m (ptr_block (bs_ptr s')) = None \<or> alloced s \<and> ptr_block (bs_ptr s') = ptr_block (bs_ptr s)) \<and>
             (\<forall>b. m b \<noteq> None \<and> \<not> (alloced s \<and> b = ptr_block (bs_ptr s)) \<longrightarrow> m' b = m b)))"

lemma extra_irrelevant:
  "str_ok (s\<lparr>extra_alloc := x\<rparr>) m \<longleftrightarrow> str_ok s m" "bs_bytes (s\<lparr>extra_alloc := x\<rparr>) m = bs_bytes s m"
  by (simp_all add: str_ok_def bs_bytes_def split: bptr.splits option.splits)

lemma str_ok_ptr:
  assumes "str_ok s m" "0 < unat (alloced_length s)"
  shows "\<exists>b i bs. bs_ptr s = Ptr b i \<and> m b = Some bs \<and> i + unat (str_length s) \<le> length bs \<and>
    i + unat (alloced_length s) \<le> length bs \<and> (alloced s \<longrightarrow> i = 0)"
  using assms by (auto simp: str_ok_def split: bptr.splits option.splits)

lemma str_ok_bytes: "str_ok s m \<Longrightarrow> \<exists>d. bs_bytes s m = Some d \<and> length d = unat (str_length s)"
  by (auto simp: str_ok_def bs_bytes_def load_bytes_def split: bptr.splits option.splits)

lemma unat_is_0: "unat (w :: 'a::len word) = 0 \<longleftrightarrow> w = 0"
  by (simp add: word_unat_eq_iff)

text \<open>A write into the allocated part, behind the used bytes.\<close>

lemma store_behind:
  assumes "str_ok s m" "bs_bytes s m = Some d" "k = unat (str_length s)" "k + length ds \<le> unat (alloced_length s)"
  shows "\<exists>m'. store_bytes m (ptr_add (bs_ptr s) k) ds = Some m' \<and>
    (\<forall>s'. bs_ptr s' = bs_ptr s \<longrightarrow> unat (str_length s') = k + length ds \<longrightarrow> alloced_length s' = alloced_length s \<longrightarrow>
       alloced s' = alloced s \<longrightarrow> str_ok s' m' \<and> bs_bytes s' m' = Some (d @ ds)) \<and>
    (\<forall>b. b \<noteq> ptr_block (bs_ptr s) \<longrightarrow> m' b = m b)"
proof (cases "bs_ptr s")
  case Null
  then have "k = 0" "ds = []" "d = []" using assms by (auto simp: str_ok_def bs_bytes_def)
  then show ?thesis using Null assms(1) by (auto simp: store_bytes_def str_ok_def bs_bytes_def unat_is_0)
next
  case (Ptr b i)
  then obtain bs where bs: "m b = Some bs" "i + unat (str_length s) \<le> length bs" "i + unat (alloced_length s) \<le> length bs"
    "alloced s \<longrightarrow> i = 0"
    using assms(1) by (auto simp: str_ok_def split: option.splits)
  let ?m = "m(b \<mapsto> patch bs (i + k) ds)"
  have st: "store_bytes m (ptr_add (bs_ptr s) k) ds = Some ?m"
    using store_bytes_block [where m = m and b = b, OF bs(1), of "i + k" ds] bs(3) assms(4) Ptr by simp
  have d: "take k (drop i bs) = d"
    using assms(2,3) Ptr bs(1,2) by (auto simp: bs_bytes_def load_bytes_def split: if_splits)
  have "str_ok s' ?m \<and> bs_bytes s' ?m = Some (d @ ds)"
    if "bs_ptr s' = bs_ptr s" "unat (str_length s') = k + length ds" "alloced_length s' = alloced_length s" "alloced s' = alloced s"
    for s' :: "'b bin_string_scheme"
  proof
    show "str_ok s' ?m" using that Ptr bs assms(4) by (simp add: str_ok_def)
    have "take (k + length ds) (drop i (patch bs (i + k) ds)) = d @ ds"
      using take_patch [of "i + k" ds bs i] bs(3) assms(4) d by simp
    then show "bs_bytes s' ?m = Some (d @ ds)"
      using that Ptr bs assms(4) by (cases "k + length ds = 0") (auto simp: bs_bytes_def load_bytes_def)
  qed
  then show ?thesis using st Ptr by auto
qed

subsection \<open>Appending\<close>

lemma unat_add_bound: "unat (w :: 'a::len word) + n < 2 ^ LENGTH('a) \<Longrightarrow> unat (w + of_nat n) = unat w + n"
  by (simp add: unat_word_ariths unat_of_nat take_bit_nat_eq_self)

text \<open>The other live blocks keep their contents, and so does the own one unless it is owned or writable.\<close>

definition only_own :: "'z bin_string_scheme \<Rightarrow> bmem \<Rightarrow> bmem \<Rightarrow> bool" where
  "only_own s m m' \<longleftrightarrow>
     (\<forall>b. m b \<noteq> None \<and> \<not> (b = ptr_block (bs_ptr s) \<and> (alloced s \<or> alloced_length s \<noteq> 0)) \<longrightarrow> m' b = m b)"

lemma q_append_value:
  fixes s :: "'z bin_string_scheme"
  assumes "str_ok s m" "bs_bytes s m = Some d" "unat (str_length s) + length data \<le> unat (alloced_length s)"
  shows "\<exists>s' m'. q_append data s m = Some (s', m') \<and> str_ok s' m' \<and> bs_bytes s' m' = Some (d @ data) \<and>
    s' = s\<lparr>str_length := str_length s + of_nat (length data)\<rparr> \<and> (\<forall>b. b \<noteq> ptr_block (bs_ptr s) \<longrightarrow> m' b = m b)"
proof -
  have lt: "unat (str_length s) + length data < 2 ^ 32" using assms(3) unat_bound [of "alloced_length s"] by simp
  let ?n = "of_nat (length data) :: u64"
  have n: "unat ?n = length data" "ucast ?n = (of_nat (length data) :: u32)"
    using lt by (simp_all add: word_unat_eq_iff unat_of_nat unsigned_ucast_eq take_bit_nat_eq_self)
  have a: "assert_length (ucast ?n) s"
    unfolding assert_length_def n(2) word_le_nat_alt using unat_add_bound [of "str_length s" "length data"] lt assms(3) by simp
  have g: "(ucast (str_length s) :: u64) \<le> 0xFFFFFFFF - ?n"
  proof -
    have "?n \<le> 0xFFFFFFFF" unfolding word_le_nat_alt n(1) using lt by simp
    then have "unat (0xFFFFFFFF - ?n) = 2 ^ 32 - 1 - length data"
      using unat_sub [of ?n "0xFFFFFFFF"] n(1) by simp
    moreover have "unat (ucast (str_length s) :: u64) = unat (str_length s)" by (rule unat_widen) simp
    ultimately show ?thesis unfolding word_le_nat_alt using lt by simp
  qed
  let ?s = "s\<lparr>str_length := str_length s + of_nat (length data)\<rparr>"
  obtain m' where m': "store_bytes m (ptr_add (bs_ptr s) (unat (str_length s))) data = Some m'"
    "str_ok ?s m'" "bs_bytes ?s m' = Some (d @ data)" "\<forall>b. b \<noteq> ptr_block (bs_ptr s) \<longrightarrow> m' b = m b"
    using store_behind [OF assms(1,2) refl assms(3), where ?'b = 'z] unat_add_bound [of "str_length s" "length data"] lt by force
  then show ?thesis using a g by (simp add: q_append_def store_at_def Let_def n(2))
qed

lemma zero_at_keeps:
  fixes s :: "'z bin_string_scheme"
  assumes "str_ok s m" "bs_bytes s m = Some d" "unat (str_length s) \<le> unat n" "unat n < unat (alloced_length s)"
  shows "\<exists>m'. zero_at n s m = Some m' \<and> str_ok s m' \<and> bs_bytes s m' = Some d \<and>
    load_byte m' (ptr_add (bs_ptr s) (unat n)) = Some 0 \<and> (\<forall>b. b \<noteq> ptr_block (bs_ptr s) \<longrightarrow> m' b = m b)"
proof -
  obtain b i bs where p: "bs_ptr s = Ptr b i" "m b = Some bs" "i + unat (str_length s) \<le> length bs"
    "i + unat (alloced_length s) \<le> length bs" "alloced s \<longrightarrow> i = 0"
    using str_ok_ptr [OF assms(1)] assms(4) by auto
  have st: "zero_at n s m = Some (m(b \<mapsto> patch bs (i + unat n) [0]))"
    using store_bytes_block [where m = m and b = b, OF p(2), of "i + unat n" "[0]"] p assms(4) by (simp add: zero_at_def)
  have "take (unat (str_length s)) (drop i (patch bs (i + unat n) [0])) = take (unat (str_length s)) (drop i bs)"
    using take_patch_before [of i "unat (str_length s)" "i + unat n" bs "[0]"] assms(3,4) p(4) by simp
  moreover have "patch bs (i + unat n) [0] ! (i + unat n) = 0"
    using p(4) assms(4) by (simp add: patch_def nth_append)
  ultimately show ?thesis
    using st p assms by (auto simp: str_ok_def bs_bytes_def load_byte_def load_bytes_def hd_drop_conv_nth take_Suc split: if_splits)
qed

text \<open>The extra room never exceeds this bound, which growing does not change.\<close>

definition extra_bound :: "'z bin_string_scheme \<Rightarrow> nat" where
  "extra_bound s = max 8320 (unat (extra_alloc s))"

lemma extra_bound_length [simp]: "extra_bound (s\<lparr>str_length := x\<rparr>) = extra_bound s"
  by (simp add: extra_bound_def)

text \<open>
  What a request for room leaves: the same bytes, and on success room beyond \<open>n\<close>, with a zero byte
  at \<open>n\<close>, in the own buffer or in new memory.
\<close>

definition grown :: "'z bin_string_scheme \<Rightarrow> bmem \<Rightarrow> u8 list \<Rightarrow> nat \<Rightarrow> bool \<times> 'z bin_string_scheme \<times> bmem \<Rightarrow> bool" where
  "grown s m d n r \<longleftrightarrow>
     (case r of (failed, s', m') \<Rightarrow>
        str_ok s' m' \<and> bs_bytes s' m' = Some d \<and> str_length s' = str_length s \<and> extra_bound s' = extra_bound s \<and> only_own s m m' \<and>
        (\<not> failed \<longrightarrow> n < unat (alloced_length s') \<and> load_byte m' (ptr_add (bs_ptr s') n) = Some 0 \<and>
           (m (ptr_block (bs_ptr s')) = None \<or>
            ptr_block (bs_ptr s') = ptr_block (bs_ptr s) \<and> (alloced s \<or> alloced_length s \<noteq> 0))))"

lemma realloc_grown:
  fixes s :: "'z bin_string_scheme"
  assumes R: "realloc_ok R" and ok: "str_ok s m" "bs_bytes s m = Some d"
    and n: "unat (str_length s) \<le> unat n" "unat n < unat k" "unat k < 2 ^ 32 - 16"
  shows "\<exists>r. (case R k s m of (failed, s, m) \<Rightarrow>
      if failed then Some (True, s, m) else map_option (\<lambda>m. (False, s, m)) (zero_at n s m)) = Some r \<and> grown s m d (unat n) r"
proof -
  obtain failed s1 m1 where r: "R k s m = (failed, s1, m1)" by (cases "R k s m") auto
  have law: "if failed then s1 = s \<and> m1 = m
      else str_ok s1 m1 \<and> str_length s1 = str_length s \<and> extra_alloc s1 = extra_alloc s \<and>
        unat k \<le> unat (alloced_length s1) \<and> bs_bytes s1 m1 = bs_bytes s m \<and>
        (if unat k \<le> unat (alloced_length s) then s1 = s \<and> m1 = m
         else m (ptr_block (bs_ptr s1)) = None \<or> alloced s \<and> ptr_block (bs_ptr s1) = ptr_block (bs_ptr s)) \<and>
        (\<forall>b. m b \<noteq> None \<and> \<not> (alloced s \<and> b = ptr_block (bs_ptr s)) \<longrightarrow> m1 b = m b)"
  proof -
    have "str_ok s m \<and> unat (str_length s) < unat k \<and> unat k < 2 ^ 32 - 16" using ok(1) n by simp
    from R [unfolded realloc_ok_def, rule_format, OF this] show ?thesis by (simp add: r)
  qed
  show ?thesis
  proof (cases failed)
    case True
    then show ?thesis using law r ok by (simp add: grown_def only_own_def)
  next
    case False
    then have l: "str_ok s1 m1" "str_length s1 = str_length s" "extra_bound s1 = extra_bound s" "unat k \<le> unat (alloced_length s1)" "bs_bytes s1 m1 = Some d"
      using law ok by (simp_all add: extra_bound_def)
    obtain m2 where m2: "zero_at n s1 m1 = Some m2" "str_ok s1 m2" "bs_bytes s1 m2 = Some d"
      "load_byte m2 (ptr_add (bs_ptr s1) (unat n)) = Some 0" "\<forall>b. b \<noteq> ptr_block (bs_ptr s1) \<longrightarrow> m2 b = m1 b"
      using zero_at_keeps [OF l(1,5), of n] l(2,4) n by auto
    have own: "m (ptr_block (bs_ptr s1)) = None \<or>
        ptr_block (bs_ptr s1) = ptr_block (bs_ptr s) \<and> (alloced s \<or> alloced_length s \<noteq> 0)"
    proof (cases "unat k \<le> unat (alloced_length s)")
      case True
      then have "alloced_length s \<noteq> 0" using n(2) by auto
      then show ?thesis using law False True by simp
    next
      case k: False
      then show ?thesis using law False by auto
    qed
    moreover have "only_own s m m2"
      unfolding only_own_def
    proof (intro allI impI)
      fix b assume b: "m b \<noteq> None \<and> \<not> (b = ptr_block (bs_ptr s) \<and> (alloced s \<or> alloced_length s \<noteq> 0))"
      then have "b \<noteq> ptr_block (bs_ptr s1)" using own by auto
      moreover have "m1 b = m b"
      proof -
        from law False have "\<forall>b. m b \<noteq> None \<and> \<not> (alloced s \<and> b = ptr_block (bs_ptr s)) \<longrightarrow> m1 b = m b"
          by (simp only: if_False simp_thms) blast
        with b show ?thesis by blast
      qed
      ultimately show "m2 b = m b" using m2(5) by simp
    qed
    ultimately show ?thesis using False r l m2 n(2) by (simp add: grown_def)
  qed
qed

lemma bs_realloc_grown:
  assumes "realloc_ok R" "str_ok s m" "bs_bytes s m = Some d" "unat (str_length s) \<le> unat n" "unat n + 1 < 2 ^ 32 - 16"
  shows "\<exists>r. bs_realloc R n s m = Some r \<and> grown s m d (unat n) r"
proof -
  have "unat (n + 1) = unat n + 1" using unat_add_bound [of n 1] assms(5) by simp
  then show ?thesis unfolding bs_realloc_def using realloc_grown [OF assms(1-4), of "n + 1"] assms(5) by simp
qed

text \<open>The extra room added next.\<close>

definition next_extra :: "'z bin_string_scheme \<Rightarrow> nat" where
  "next_extra s = (if unat (extra_alloc s) < 4096 then 2 * unat (extra_alloc s) + 128 else unat (extra_alloc s))"

lemma realloc_with_extra_grown:
  fixes s :: "'z bin_string_scheme"
  assumes "realloc_ok R" "str_ok s m" "bs_bytes s m = Some d" "unat (str_length s) \<le> unat n"
    and "unat n + extra_bound s < 2 ^ 32 - 16"
  shows "\<exists>r. realloc_with_extra R n s m = Some r \<and> grown s m d (unat n) r"
proof -
  define t where "t = (if extra_alloc s < 4096 then s\<lparr>extra_alloc := extra_alloc s * 2 + 128\<rparr> else s)"
  have x: "unat (extra_alloc t) = next_extra s"
  proof (cases "extra_alloc s < 4096")
    case True
    then have "unat (extra_alloc s) < 4096" by (simp add: word_less_nat_alt)
    then have "unat (extra_alloc s * 2 + 128) = unat (extra_alloc s) * 2 + 128" by (simp add: unat_word_ariths)
    then show ?thesis using True \<open>unat (extra_alloc s) < 4096\<close> by (simp add: t_def next_extra_def)
  next
    case False
    then show ?thesis by (simp add: t_def next_extra_def word_less_nat_alt)
  qed
  have pos: "0 < next_extra s" "next_extra s \<le> extra_bound s" by (simp_all add: next_extra_def extra_bound_def)
  have w: "unat (ucast (extra_alloc t) :: u64) = next_extra s" using unat_widen [of "extra_alloc t", where 'a = 64] x by simp
  then have sum: "unat (n + ucast (extra_alloc t)) = unat n + next_extra s"
    using assms(5) pos(2) by (simp add: unat_word_ariths)
  have t: "str_ok t m" "bs_bytes t m = Some d" "str_length t = str_length s"
    using assms(2,3) by (simp_all add: t_def extra_irrelevant)
  have g: "grown s m d k r \<longleftrightarrow> grown t m d k r" for k r
    using x by (simp add: grown_def only_own_def t_def extra_bound_def next_extra_def word_less_nat_alt)
  show ?thesis
    using realloc_grown [OF assms(1) t(1,2), of n "n + ucast (extra_alloc t)"] sum pos assms(4,5) t(3)
    by (simp add: realloc_with_extra_def t_def [symmetric] g)
qed

lemma append_room:
  assumes "realloc_ok R" "str_ok s m" "bs_bytes s m = Some d" "data \<noteq> []"
    and "unat (str_length s) + length data + extra_bound s < 2 ^ 32 - 16"
  shows "unat (ucast (str_length s) + of_nat (length data) :: u64) = unat (str_length s) + length data" "(of_nat (length data) :: u64) \<noteq> 0"
    "\<exists>r. realloc_with_extra_if_needed R (ucast (str_length s) + of_nat (length data) :: u64) s m = Some r \<and> grown s m d (unat (ucast (str_length s) + of_nat (length data) :: u64)) r"
proof -
  let ?n = "ucast (str_length s) + of_nat (length data) :: u64"
  have w: "unat (ucast (str_length s) :: u64) = unat (str_length s)" by (rule unat_widen) simp
  then have n: "unat ?n = unat (str_length s) + length data"
    using unat_add_bound [of "ucast (str_length s) :: u64" "length data"] assms(5) by simp
  then show "unat ?n = unat (str_length s) + length data" .
  show "(of_nat (length data) :: u64) \<noteq> 0"
    using assms(4,5) by (simp add: word_unat_eq_iff unat_of_nat take_bit_nat_eq_self)
  show "\<exists>r. realloc_with_extra_if_needed R ?n s m = Some r \<and> grown s m d (unat ?n) r"
  proof (cases "?n < ucast (alloced_length s)")
    case True
    then have lt: "unat ?n < unat (alloced_length s)"
      using unat_widen [of "alloced_length s", where 'a = 64] by (simp add: word_less_nat_alt)
    from zero_at_keeps [OF assms(2,3) _ this] n obtain m' where
      "zero_at ?n s m = Some m'" "str_ok s m'" "bs_bytes s m' = Some d"
      "load_byte m' (ptr_add (bs_ptr s) (unat ?n)) = Some 0" "\<forall>b. b \<noteq> ptr_block (bs_ptr s) \<longrightarrow> m' b = m b"
      by auto
    moreover have "alloced_length s \<noteq> 0" using lt by auto
    ultimately show ?thesis using True lt by (auto simp: realloc_with_extra_if_needed_def grown_def only_own_def)
  next
    case False
    then show ?thesis
      using realloc_with_extra_grown [OF assms(1-3), of ?n] n assms(5) by (simp add: realloc_with_extra_if_needed_def)
  qed
qed

lemma append_appends:
  assumes "realloc_ok R" "str_ok s m" "bs_bytes s m = Some d"
    and "unat (str_length s) + length data + extra_bound s < 2 ^ 32 - 16"
  shows "\<exists>failed s' m'. bs_append R data s m = Some (failed, s', m') \<and> str_ok s' m' \<and>
    bs_bytes s' m' = Some (if failed then d else d @ data) \<and> only_own s m m' \<and> extra_bound s' = extra_bound s"
proof (cases "data = []")
  case True
  then show ?thesis using assms by (auto simp: bs_append_def only_own_def)
next
  case False
  let ?n = "ucast (str_length s) + of_nat (length data) :: u64"
  note room = append_room [OF assms(1-3) False assms(4)]
  note n = room(1) and nz = room(2)
  obtain failed s1 m1 where r: "realloc_with_extra_if_needed R ?n s m = Some (failed, s1, m1)"
    "grown s m d (unat ?n) (failed, s1, m1)" using room(3) by auto
  show ?thesis
  proof (cases failed)
    case True
    then show ?thesis using r nz by (auto simp: bs_append_def grown_def)
  next
    case f: False
    then have g: "str_ok s1 m1" "bs_bytes s1 m1 = Some d" "str_length s1 = str_length s" "unat ?n < unat (alloced_length s1)"
      "only_own s m m1" "m (ptr_block (bs_ptr s1)) = None \<or>
         ptr_block (bs_ptr s1) = ptr_block (bs_ptr s) \<and> (alloced s \<or> alloced_length s \<noteq> 0)"
      and x: "extra_bound s1 = extra_bound s"
      using r(2) by (simp_all add: grown_def)
    obtain s2 m2 where q: "q_append data s1 m1 = Some (s2, m2)" "str_ok s2 m2" "bs_bytes s2 m2 = Some (d @ data)"
      "\<forall>b. b \<noteq> ptr_block (bs_ptr s1) \<longrightarrow> m2 b = m1 b" "extra_bound s2 = extra_bound s1"
      using q_append_value [OF g(1,2), of data] g(3,4) n by auto
    have "only_own s m m2" using g(5,6) q(4) unfolding only_own_def by metis
    then show ?thesis using r(1) f nz q(1-3,5) x by (intro exI [of _ False] exI [of _ s2] exI [of _ m2]) (simp add: bs_append_def)
  qed
qed

text \<open>
  A source in a block that is not the writable block of the object, and one in a block that the
  reallocation freed.
\<close>

lemma append_from_elsewhere:
  assumes "realloc_ok R" "str_ok s m" "bs_bytes s m = Some d" "load_bytes m src (length data) = Some data"
    and "ptr_block src \<noteq> ptr_block (bs_ptr s) \<or> \<not> alloced s \<and> alloced_length s = 0"
    and len: "unat (str_length s) + length data + extra_bound s < 2 ^ 32 - 16"
  shows "bs_append_from R src (of_nat (length data)) s m = bs_append R data s m"
proof (cases "data = []")
  case True
  then show ?thesis by (simp add: bs_append_from_def bs_append_def)
next
  case False
  note room = append_room [OF assms(1-3) False len]
  obtain failed s1 m1 where r: "realloc_with_extra_if_needed R (ucast (str_length s) + of_nat (length data)) s m = Some (failed, s1, m1)"
      "only_own s m m1"
    using room(3) by (auto simp: grown_def)
  obtain b i where src: "src = Ptr b i" "m b \<noteq> None"
    using assms(4) False by (auto simp: load_bytes_def split: bptr.splits option.splits)
  have "m1 b = m b" using r(2) src assms(5) by (auto simp: only_own_def)
  then have "load_bytes m1 src (length data) = Some data" using assms(4) src False by (simp add: load_bytes_def)
  moreover have "unat (of_nat (length data) :: u64) = length data"
    using len by (simp add: unat_of_nat take_bit_nat_eq_self)
  ultimately show ?thesis using r(1) room(2) by (simp add: bs_append_from_def bs_append_def Let_def)
qed

lemma append_from_freed:
  assumes "realloc_with_extra_if_needed R (ucast (str_length s) + len) s m = Some (False, s1, m1)" "len \<noteq> 0"
    and "m1 (ptr_block src) = None"
  shows "bs_append_from R src len s m = None"
  using assms unat_gt_0 [of len] by (cases src) (auto simp: bs_append_from_def load_bytes_def)

text \<open>Storing behind the used bytes of an object with room, for any number of bytes.\<close>

lemma store_grows:
  fixes s :: "'z bin_string_scheme"
  assumes "str_ok s m" "bs_bytes s m = Some d" "unat (str_length s) + length ds \<le> unat (alloced_length s)"
  defines "t \<equiv> s\<lparr>str_length := str_length s + of_nat (length ds)\<rparr>"
  shows "\<exists>m'. store_at s (str_length s) ds m = Some m' \<and> str_ok t m' \<and> bs_bytes t m' = Some (d @ ds) \<and>
    (\<forall>b. b \<noteq> ptr_block (bs_ptr s) \<longrightarrow> m' b = m b)"
proof -
  have "unat (str_length s) + length ds < 2 ^ 32" using assms(3) unat_bound [of "alloced_length s"] by simp
  then have "unat (str_length t) = unat (str_length s) + length ds"
    using unat_add_bound [of "str_length s" "length ds"] by (simp add: t_def)
  moreover have "bs_ptr t = bs_ptr s" "alloced_length t = alloced_length s" "alloced t = alloced s" by (simp_all add: t_def)
  ultimately show ?thesis
    using store_behind [OF assms(1,2) refl assms(3), where ?'b = 'z] unfolding store_at_def by blast
qed

lemma q_append_fixed_value:
  assumes "str_ok s m" "bs_bytes s m = Some d" "unat (str_length s) + length ds \<le> unat (alloced_length s)"
  shows "\<exists>s' m'. q_append_fixed ds s m = Some (s', m') \<and> str_ok s' m' \<and> bs_bytes s' m' = Some (d @ ds)"
proof -
  have "unat (str_length s) + length ds < 2 ^ 32" using assms(3) unat_bound [of "alloced_length s"] by simp
  then have "assert_length (of_nat (length ds)) s"
    using unat_add_bound [of "str_length s" "length ds"] assms(3) by (simp add: assert_length_def word_le_nat_alt)
  then show ?thesis using store_grows [OF assms] by (auto simp: q_append_fixed_def)
qed

lemma append_char_appends:
  assumes R: "realloc_ok R" and ok: "str_ok s m" "bs_bytes s m = Some d"
    and "unat (str_length s) + 1 + extra_bound s < 2 ^ 32 - 16"
  shows "\<exists>failed s' m'. append_char R c s m = Some (failed, s', m') \<and> str_ok s' m' \<and>
    bs_bytes s' m' = Some (if failed then d else d @ [c]) \<and> only_own s m m' \<and> extra_bound s' = extra_bound s"
proof (cases "str_length s < alloced_length s")
  case True
  then have "unat (str_length s) + length [c] \<le> unat (alloced_length s)" by (simp add: word_less_nat_alt)
  from store_grows [OF ok this] obtain m' where m': "store_at s (str_length s) [c] m = Some m'"
    "str_ok (s\<lparr>str_length := str_length s + 1\<rparr>) m'" "bs_bytes (s\<lparr>str_length := str_length s + 1\<rparr>) m' = Some (d @ [c])"
    "\<forall>b. b \<noteq> ptr_block (bs_ptr s) \<longrightarrow> m' b = m b" by auto
  moreover have "alloced_length s \<noteq> 0" using True by auto
  ultimately show ?thesis using True by (auto simp: append_char_def only_own_def)
next
  case False
  let ?n = "ucast (str_length s + 1) :: u64"
  have "unat (str_length s + 1) = unat (str_length s) + 1" using unat_add_bound [of "str_length s" 1] assms(4) by simp
  then have n: "unat ?n = unat (str_length s) + 1" using unat_widen [of "str_length s + 1", where 'a = 64] by simp
  from realloc_with_extra_grown [OF R ok, of ?n] n assms(4) obtain failed s1 m1 where
    r: "realloc_with_extra R ?n s m = Some (failed, s1, m1)" "grown s m d (unat ?n) (failed, s1, m1)" by auto
  show ?thesis
  proof (cases failed)
    case True
    then show ?thesis using r False by (auto simp: append_char_def grown_def)
  next
    case f: False
    then have g: "str_ok s1 m1" "bs_bytes s1 m1 = Some d" "str_length s1 = str_length s" "unat ?n < unat (alloced_length s1)"
      "only_own s m m1" "m (ptr_block (bs_ptr s1)) = None \<or>
         ptr_block (bs_ptr s1) = ptr_block (bs_ptr s) \<and> (alloced s \<or> alloced_length s \<noteq> 0)"
      and x: "extra_bound s1 = extra_bound s"
      using r(2) by (simp_all add: grown_def)
    obtain m2 where q: "store_at s1 (str_length s1) [c] m1 = Some m2" "str_ok (s1\<lparr>str_length := str_length s1 + 1\<rparr>) m2"
      "bs_bytes (s1\<lparr>str_length := str_length s1 + 1\<rparr>) m2 = Some (d @ [c])" "\<forall>b. b \<noteq> ptr_block (bs_ptr s1) \<longrightarrow> m2 b = m1 b"
      using store_grows [OF g(1,2), of "[c]"] g(3,4) n by auto
    have "only_own s m m2" using g(5,6) q(4) unfolding only_own_def by metis
    then show ?thesis
      using r(1) f False q(1-3) x by (intro exI [of _ False] exI [of _ "s1\<lparr>str_length := str_length s1 + 1\<rparr>"] exI [of _ m2]) (simp add: append_char_def)
  qed
qed

text \<open>The two digits of a byte.\<close>

definition hex_of :: "u8 list \<Rightarrow> u8 \<Rightarrow> u8 list" where
  "hex_of dig c = [dig ! unat (drop_bit 4 c), dig ! unat (c AND 0x0F)]"

lemma append_hex_appends:
  assumes "realloc_ok R" "str_ok s m" "bs_bytes s m = Some d"
    and "unat (str_length s) + 2 * length src + extra_bound s < 2 ^ 32 - 16"
  shows "\<exists>failed s' m' k. append_hex R dig src s m = Some (failed, s', m') \<and> str_ok s' m' \<and>
    bs_bytes s' m' = Some (d @ (if failed then take k else id) (concat (map (hex_of dig) src)))"
  using assms(2-4)
proof (induction src arbitrary: s m d)
  case Nil
  then show ?case by auto
next
  case (Cons c src)
  let ?hi = "dig ! unat (drop_bit 4 c)" and ?lo = "dig ! unat (c AND 0x0F)"
  have len: "unat (str_length u) = length e" if "bs_bytes u n = Some e" for u :: "'b bin_string_scheme" and n e
    using that by (auto simp: bs_bytes_def dest: load_bytes_length)
  obtain f1 s1 m1 where a: "append_char R ?hi s m = Some (f1, s1, m1)" "str_ok s1 m1"
    "bs_bytes s1 m1 = Some (if f1 then d else d @ [?hi])" "extra_bound s1 = extra_bound s"
    using append_char_appends [OF assms(1) Cons.prems(1,2), of ?hi] Cons.prems(3) by auto
  show ?case
  proof (cases f1)
    case True
    then show ?thesis using a by (auto intro!: exI [of _ 0])
  next
    case f1: False
    have l1: "unat (str_length s1) = Suc (unat (str_length s))" using len [OF a(3)] len [OF Cons.prems(2)] f1 by simp
    obtain f2 s2 m2 where b: "append_char R ?lo s1 m1 = Some (f2, s2, m2)" "str_ok s2 m2"
      "bs_bytes s2 m2 = Some (if f2 then d @ [?hi] else d @ [?hi, ?lo])" "extra_bound s2 = extra_bound s"
      using append_char_appends [OF assms(1) a(2,3), of ?lo] a(4) l1 f1 Cons.prems(3) by auto
    show ?thesis
    proof (cases f2)
      case True
      then show ?thesis using a b f1 by (auto simp: hex_of_def intro!: exI [of _ 1])
    next
      case f2: False
      have "unat (str_length s2) = Suc (Suc (unat (str_length s)))" using len [OF b(3)] len [OF Cons.prems(2)] f2 by simp
      then have "unat (str_length s2) + 2 * length src + extra_bound s2 < 2 ^ 32 - 16" using b(4) Cons.prems(3) by simp
      from Cons.IH [OF b(2) _ this, of "d @ [?hi, ?lo]"] b(3) f2 obtain failed s' m' k where
        r: "append_hex R dig src s2 m2 = Some (failed, s', m')" "str_ok s' m'"
        "bs_bytes s' m' = Some ((d @ [?hi, ?lo]) @ (if failed then take k else id) (concat (map (hex_of dig) src)))" by auto
      then have "bs_bytes s' m' = Some (d @ (if failed then take (Suc (Suc k)) else id) (concat (map (hex_of dig) (c # src))))"
        by (simp add: hex_of_def)
      then show ?thesis using a(1) b(1) r(1,2) f1 f2 by auto
    qed
  qed
qed

text \<open>
  The terminated string of \<open>c_ptr\<close>. An object that is not owned must have an accessible byte behind the
  used ones; if the buffer had to grow and could not, the result is not terminated.
\<close>

lemma zero_behind:
  assumes "bs_bytes s m = Some d" "0 \<notin> set d" "load_byte m (bs_end s) = Some 0"
  shows "c_string m (bs_ptr s) = Some d"
proof -
  have l: "length d = unat (str_length s)" using assms(1) by (auto simp: bs_bytes_def dest: load_bytes_length)
  have u: "unat (ucast (str_length s) :: u64) = unat (str_length s)" by (rule unat_widen) simp
  show ?thesis
    using c_string_terminated [of m "lex_make (bs_ptr s) (ucast (str_length s))" d] assms l u
    by (simp add: lex_value_def lex_make_def bs_bytes_def bs_end_def)
qed

lemma store_zero_behind:
  assumes "str_ok s m" "bs_bytes s m = Some d" "str_length s < alloced_length s"
  shows "\<exists>m'. store_at s (str_length s) [0] m = Some m' \<and> bs_bytes s m' = Some d \<and> load_byte m' (bs_end s) = Some 0"
  using zero_at_keeps [OF assms(1,2), of "ucast (str_length s)"] assms(3)
    unat_widen [of "str_length s", where 'a = 64]
  by (auto simp: zero_at_def store_at_def bs_end_def word_less_nat_alt)

lemma c_ptr_terminated:
  assumes "realloc_ok R" "str_ok s m" "bs_bytes s m = Some d" "0 \<notin> set d" "bs_ptr s \<noteq> Null"
    and "alloced s \<or> load_byte m (bs_end s) \<noteq> None" "unat (str_length s) + 1 < 2 ^ 32 - 16"
  shows "\<exists>p s' m'. c_ptr R lit s m = Some (p, s', m') \<and> p = bs_ptr s' \<and> bs_bytes s' m' = Some d \<and>
    (c_string m' p = Some d \<or> fst (R (ucast (str_length s) + 1) s m))"
proof -
  obtain c where c: "(if alloced s then Some 1 else load_byte m (bs_end s)) = Some c" using assms(6) by (cases "alloced s") auto
  show ?thesis
  proof (cases "c = 0")
    case True
    then have "load_byte m (bs_end s) = Some 0" using c by (auto split: if_splits)
    from zero_behind [OF assms(3,4) this] c True assms(3,5) show ?thesis by (simp add: c_ptr_def)
  next
    case nz: False
    show ?thesis
    proof (cases "str_length s < alloced_length s")
      case True
      from store_zero_behind [OF assms(2,3) this] obtain m' where
        m': "store_at s (str_length s) [0] m = Some m'" "bs_bytes s m' = Some d" "load_byte m' (bs_end s) = Some 0" by blast
      from zero_behind [OF m'(2) assms(4) m'(3)] m' c nz True assms(5) show ?thesis by (simp add: c_ptr_def)
    next
      case False
      let ?n = "ucast (str_length s) :: u64"
      have n: "unat ?n = unat (str_length s)" by (rule unat_widen) simp
      obtain failed s1 m1 where r: "bs_realloc R ?n s m = Some (failed, s1, m1)" "grown s m d (unat ?n) (failed, s1, m1)"
        using bs_realloc_grown [OF assms(1-3), of ?n] n assms(7) by auto
      have "c_string m1 (bs_ptr s1) = Some d" if "\<not> failed"
        using zero_behind [of s1 m1 d] r(2) that assms(4) n by (auto simp: grown_def bs_end_def)
      moreover have "fst (R (?n + 1) s m)" if failed using r(1) that by (auto simp: bs_realloc_def split: prod.splits if_splits)
      ultimately show ?thesis
        using r c nz False assms(5) by (auto simp: c_ptr_def grown_def)
    qed
  qed
qed

subsection \<open>Steps, positions and ownership\<close>

lemma append_with_step_appends:
  assumes "realloc_ok R" "str_ok s m" "bs_bytes s m = Some d"
    and "unat (str_length s) + length data + unat step_alloc + 1 < 2 ^ 32 - 16"
  shows "\<exists>failed s' m'. append_with_step R data step_alloc s m = Some (failed, s', m') \<and> str_ok s' m' \<and>
    bs_bytes s' m' = Some (if failed then d else d @ data)"
proof -
  let ?n = "of_nat (length data) + str_length s"
  have n: "unat ?n = unat (str_length s) + length data"
    unfolding add.commute [of "of_nat (length data)" "str_length s"]
    by (rule unat_add_bound) (use assms(4) in simp)
  then have "unat (?n + step_alloc) = unat (str_length s) + length data + unat step_alloc"
    unfolding unat_word_ariths(1) [of ?n] n using assms(4) by (intro mod_less) simp
  then have k: "unat (ucast (?n + step_alloc) :: u64) = unat (str_length s) + length data + unat step_alloc"
    using unat_widen [of "?n + step_alloc", where 'a = 64] by simp
  define r where "r = (if ?n > alloced_length s then bs_realloc R (ucast (?n + step_alloc)) s m else Some (False, s, m))"
  have "\<exists>failed s1 m1. r = Some (failed, s1, m1) \<and> str_ok s1 m1 \<and> bs_bytes s1 m1 = Some d \<and> str_length s1 = str_length s \<and>
      (\<not> failed \<longrightarrow> unat (str_length s1) + length data \<le> unat (alloced_length s1))"
  proof (cases "?n > alloced_length s")
    case True
    with bs_realloc_grown [OF assms(1-3), of "ucast (?n + step_alloc)"] k assms(4) show ?thesis
      by (auto simp: r_def grown_def)
  next
    case False
    then show ?thesis using assms(2,3) n by (auto simp: r_def word_less_nat_alt)
  qed
  then obtain failed s1 m1 where s1: "r = Some (failed, s1, m1)" "str_ok s1 m1" "bs_bytes s1 m1 = Some d"
    "\<not> failed \<longrightarrow> unat (str_length s1) + length data \<le> unat (alloced_length s1)" by blast
  show ?thesis
  proof (cases failed)
    case True
    then show ?thesis using s1 by (auto simp: append_with_step_def r_def [symmetric])
  next
    case False
    with q_append_value [OF s1(2,3), of data] s1 show ?thesis by (auto simp: append_with_step_def r_def [symmetric])
  qed
qed

text \<open>
  \<open>append_with_step\<close> adds the lengths in 32 bits: when their sum wraps around, no room is made, the
  assertion on the length holds for the wrapped sum, and the bytes are written outside the buffer.
\<close>

lemma append_with_step_wraps:
  assumes "str_ok s m" "bs_ptr s = Ptr b 0" "m b = Some bs" "length bs = unat (alloced_length s)"
    and "str_length s = alloced_length s" "data \<noteq> []" "length data < 2 ^ 32"
    and "2 ^ 32 \<le> unat (str_length s) + length data"
  shows "append_with_step R data step_alloc s m = None \<and> assert_length (of_nat (length data)) s \<and>
    \<not> of_nat (length data) + str_length s > alloced_length s"
proof -
  have "unat (str_length s + of_nat (length data)) = unat (str_length s) + length data - 2 ^ 32"
    using assms(7,8) unat_bound [of "str_length s"]
    by (simp add: unat_word_ariths unat_of_nat take_bit_nat_eq_self mod_if)
  also have "\<dots> \<le> unat (alloced_length s)" using assms(5,7) by simp
  finally have le: "str_length s + of_nat (length data) \<le> alloced_length s" by (simp add: word_le_nat_alt)
  have c: "ucast (of_nat (length data) :: u64) = (of_nat (length data) :: u32)"
    using assms(7) by (simp add: word_unat_eq_iff unat_of_nat unsigned_ucast_eq take_bit_nat_eq_self)
  have "store_at s (str_length s) data m = None"
    using store_bytes_outside [where m = m and b = b, OF assms(3), of "unat (str_length s)" data] assms(2,4-6)
    by (simp add: store_at_def)
  then have "q_append data s m = None" by (simp add: q_append_def Let_def)
  with le show ?thesis by (auto simp: append_with_step_def assert_length_def add.commute not_less Let_def)
qed

lemma append_with_step_wraps_witness:
  "append_with_step (\<lambda>n s m. (True, s, m)) [65] 0
     (bs_make_buffer (Ptr 0 0) 0xFFFFFFFF) [0 \<mapsto> replicate (2 ^ 32 - 1) 0] = None"
proof -
  define bs :: "u8 list" where "bs = replicate (2 ^ 32 - 1) 0"
  define s where "s = bs_make_buffer (Ptr 0 0) 0xFFFFFFFF"
  have l: "length bs = 2 ^ 32 - 1" by (simp add: bs_def)
  have s: "bs_ptr s = Ptr 0 0" "str_length s = 0xFFFFFFFF" "alloced_length s = 0xFFFFFFFF" "\<not> alloced s"
    by (simp_all add: s_def bs_make_buffer_def)
  have "str_ok s [0 \<mapsto> bs]" using s l by (simp add: str_ok_def)
  from append_with_step_wraps [OF this s(1), of bs "[65]" "\<lambda>n s m. (True, s, m)" 0] s l
  have "append_with_step (\<lambda>n s m. (True, s, m)) [65] 0 s [0 \<mapsto> bs] = None" by simp
  then show ?thesis unfolding bs_def s_def .
qed

lemma has_8bit_iff: "has_8bit cs \<longleftrightarrow> (\<exists>c \<in> set cs. 128 \<le> c)"
  by (induction cs) (auto simp: my_isascii_iff not_less)

lemma takeWhile_stop: "takeWhile (\<lambda>c. c \<noteq> (0 :: u8)) (d @ 0 # zs) = takeWhile (\<lambda>c. c \<noteq> 0) d"
  by (induction d) auto

text \<open>\<open>chop\<close> drops the last byte, and its assertion fails when another zero byte comes before it.\<close>

lemma bs_chop_bytes:
  assumes "str_ok s m" "bs_bytes s m = Some (d @ [c])"
  shows "if 0 \<in> set d then bs_chop s m = None
    else \<exists>s' m'. bs_chop s m = Some (s', m') \<and> str_ok s' m' \<and> bs_bytes s' m' = Some d"
proof -
  have l: "unat (str_length s) = Suc (length d)" using assms(2) by (auto simp: bs_bytes_def dest: load_bytes_length)
  then have nz: "str_length s \<noteq> 0" by auto
  define t where "t = s\<lparr>str_length := str_length s - 1\<rparr>"
  have lt: "unat (str_length t) = length d" using l nz by (simp add: t_def unat_minus_one)
  obtain b i bs where p: "bs_ptr s = Ptr b i" "m b = Some bs" "i + unat (str_length s) \<le> length bs"
    "i + unat (alloced_length s) \<le> length bs" "alloced s \<longrightarrow> i = 0"
    using assms(1) nz by (auto simp: str_ok_def split: bptr.splits option.splits)
  have d: "take (Suc (length d)) (drop i bs) = d @ [c]"
    using assms(2) p l by (simp add: bs_bytes_def load_bytes_def)
  let ?m = "m(b \<mapsto> patch bs (i + length d) [0])"
  have st: "store_at t (str_length t) [0] m = Some ?m"
    using store_bytes_block [where m = m and b = b, OF p(2), of "i + length d" "[0]"] p(1,3) l
    by (simp add: store_at_def lt) (simp add: t_def)
  have "drop i (patch bs (i + length d) [0]) = take (length d) (drop i bs) @ 0 # drop (Suc (i + length d)) bs"
    using p(3) l by (simp add: patch_def drop_take)
  moreover have "take (length d) (drop i bs) = d"
    using arg_cong [OF d, of "take (length d)"] by simp
  ultimately have dr: "drop i (patch bs (i + length d) [0]) = d @ 0 # drop (Suc (i + length d)) bs" by simp
  then have cs: "c_string ?m (bs_ptr t) = Some (takeWhile (\<lambda>c. c \<noteq> 0) d)"
    using p(1,3) l by (simp add: c_string_def rest_of_block_def t_def takeWhile_stop)
  have run: "bs_chop s m = guard (length (takeWhile (\<lambda>c. c \<noteq> 0) d) = length d) (t, ?m)"
    using nz st cs by (simp add: bs_chop_def t_def [symmetric] lt Let_def)
  show ?thesis
  proof (cases "0 \<in> set d")
    case True
    then have "length (takeWhile (\<lambda>c. c \<noteq> 0) d) < length d" by (induction d) auto
    then show ?thesis using True run by simp
  next
    case False
    then have "length (takeWhile (\<lambda>c. c \<noteq> 0) d) = length d" by (induction d) auto
    moreover have "str_ok t ?m" using p l lt by (simp add: str_ok_def t_def)
    moreover have "bs_bytes t ?m = Some d"
      using p(1,3) l lt dr by (cases "d = []") (simp_all add: bs_bytes_def load_bytes_def t_def)
    ultimately show ?thesis using False run by simp
  qed
qed

text \<open>
  Ownership. \<open>owned\<close> objects have their own blocks; \<open>move\<close>, \<open>reset\<close> after \<open>release\<close> and \<open>swap\<close> pass a
  buffer on so that it is freed once. An assignment borrows the buffer of the other object.
\<close>

definition owns :: "'z bin_string_scheme \<Rightarrow> bmem \<Rightarrow> bool" where
  "owns s m \<longleftrightarrow> alloced s \<and> (\<exists>b. bs_ptr s = Ptr b 0 \<and> m b \<noteq> None)"

lemma free_owned:
  "owns s m \<Longrightarrow> bs_free s m = Some (s\<lparr>alloced := False, bs_ptr := Null, str_length := 0, alloced_length := 0, extra_alloc := 0\<rparr>,
     m(ptr_block (bs_ptr s) := None))"
  "\<not> alloced s \<Longrightarrow> bs_free s m = Some (s\<lparr>bs_ptr := Null, str_length := 0, alloced_length := 0, extra_alloc := 0\<rparr>, m)"
  by (auto simp: owns_def bs_free_def free_buffer_def my_free_def)

text \<open>The memory after the buffer of \<open>s\<close> is freed, if it owns one.\<close>

definition without_buffer :: "'z bin_string_scheme \<Rightarrow> bmem \<Rightarrow> bmem" where
  "without_buffer s m = (if alloced s then m(ptr_block (bs_ptr s) := None) else m)"

lemma free_buffer_owned: "owns s m \<or> \<not> alloced s \<Longrightarrow> free_buffer s m = Some (s\<lparr>alloced := False\<rparr>, without_buffer s m)"
  by (auto simp: free_buffer_def owns_def my_free_def without_buffer_def)

lemma bs_move_ownership:
  assumes "owns t m" "owns s m \<or> \<not> alloced s" "owns s m \<longrightarrow> bs_ptr s \<noteq> bs_ptr t" "alloced_length t < 0xFFFFFFFF"
    and "bs_bytes t m = Some d"
  shows "\<exists>s' t' m'. bs_move t s m = Some (s', t', m') \<and> owns s' m' \<and> \<not> alloced t' \<and> bs_bytes s' m' = Some d \<and>
    bs_free t' m' \<noteq> None \<and> bs_free s' m' \<noteq> None \<and> (owns s m \<longrightarrow> m' (ptr_block (bs_ptr s)) = None) \<and> m' = without_buffer s m"
proof -
  obtain b where b: "bs_ptr t = Ptr b 0" "m b \<noteq> None" "alloced t" using assms(1) by (auto simp: owns_def)
  define m' where "m' = (if alloced s then m(ptr_block (bs_ptr s) := None) else m)"
  have fb: "free_buffer s m = Some (s\<lparr>alloced := False\<rparr>, m')"
    using assms(2) by (auto simp: free_buffer_def owns_def my_free_def m'_def)
  have al: "ucast (alloced_length t) < (0xFFFFFFFF :: u64)" "ucast (ucast (alloced_length t) :: u64) = alloced_length t"
    "ucast (ucast (str_length t) :: u64) = str_length t"
    using assms(4) unat_widen [of "alloced_length t", where 'a = 64] unat_widen [of "str_length t", where 'a = 64]
    by (simp_all add: word_less_nat_alt)
  have mb: "m' b = m b" using assms(2,3) b by (auto simp: m'_def owns_def)
  define s' where "s' = s\<lparr>alloced := True, bs_ptr := Ptr b 0, str_length := str_length t, alloced_length := alloced_length t,
    extra_alloc := extra_alloc t, thread_specific := thread_specific t\<rparr>"
  have run: "bs_move t s m = Some (s', t\<lparr>alloced := False\<rparr>, m')"
    using al b by (simp add: bs_move_def set_alloced_def fb s'_def)
  have "bs_bytes s' m' = Some d" using assms(5) b mb by (auto simp: bs_bytes_def s'_def load_bytes_def)
  moreover have o: "owns s' m'" using b mb by (simp add: owns_def s'_def)
  moreover have "bs_free s' m' \<noteq> None" using free_owned(1) [OF o] by simp
  moreover have "bs_free (t\<lparr>alloced := False\<rparr>) m' \<noteq> None" using free_owned(2) [of "t\<lparr>alloced := False\<rparr>" m'] by simp
  moreover have "m' (ptr_block (bs_ptr s)) = None" if "owns s m" using that by (simp add: m'_def owns_def)
  moreover have "m' = without_buffer s m" by (simp add: m'_def without_buffer_def)
  ultimately show ?thesis using run by (intro exI conjI) auto
qed

lemma bs_reset_release:
  assumes "owns t m" "owns s m \<or> \<not> alloced s" "owns s m \<longrightarrow> bs_ptr s \<noteq> bs_ptr t" "alloced_length t < 0xFFFFFFFF"
    and "bs_bytes t m = Some d"
  shows "case bs_release t of (p, t') \<Rightarrow> \<not> alloced t' \<and> bs_ptr t' = Null \<and>
    (\<exists>s' m'. bs_reset p (ucast (str_length t)) (ucast (alloced_length t)) s m = Some (s', m') \<and> m' = without_buffer s m \<and>
      owns s' m' \<and> bs_bytes s' m' = Some d \<and> bs_free t' m' \<noteq> None \<and> bs_free s' m' \<noteq> None)"
proof -
  have al: "ucast (alloced_length t) < (0xFFFFFFFF :: u64)"
    using assms(4) unat_widen [of "alloced_length t", where 'a = 64] by (simp add: word_less_nat_alt)
  obtain b where b: "bs_ptr t = Ptr b 0" "m b \<noteq> None" using assms(1) by (auto simp: owns_def)
  have mb: "without_buffer s m b = m b" using assms(2,3) b by (auto simp: without_buffer_def owns_def)
  let ?s = "s\<lparr>alloced := True, bs_ptr := bs_ptr t, str_length := str_length t, alloced_length := alloced_length t\<rparr>"
  have "bs_reset (bs_ptr t) (ucast (str_length t)) (ucast (alloced_length t)) s m = Some (?s, without_buffer s m)"
    using al b by (simp add: bs_reset_def set_alloced_def free_buffer_owned [OF assms(2)])
  moreover have "owns ?s (without_buffer s m)" using b mb by (simp add: owns_def)
  moreover have "bs_bytes ?s (without_buffer s m) = Some d" using assms(5) b mb by (auto simp: bs_bytes_def load_bytes_def)
  moreover have "bs_free (init_private_data t) (without_buffer s m) \<noteq> None"
    by (simp add: free_owned(2) init_private_data_def)
  ultimately show ?thesis using free_owned(1) [of ?s "without_buffer s m"]
    by (auto simp: bs_release_def init_private_data_def)
qed

text \<open>An assignment frees the buffer of the target and borrows the other one, which keeps its owner.\<close>

lemma bs_assign_borrows:
  assumes "owns t m" "owns s m \<or> \<not> alloced s" "owns s m \<longrightarrow> bs_ptr s \<noteq> bs_ptr t" "alloced_length t < 0xFFFFFFFF"
    and "bs_bytes t m = Some d"
  shows "\<exists>s' m'. bs_assign False t s m = Some (s', m') \<and> m' = without_buffer s m \<and> \<not> alloced s' \<and> owns t m' \<and>
    bs_bytes s' m' = Some d \<and> bs_free s' m' \<noteq> None \<and> bs_free t m' \<noteq> None"
proof -
  have al: "ucast (alloced_length t) < (0xFFFFFFFF :: u64)"
    using assms(4) unat_widen [of "alloced_length t", where 'a = 64] by (simp add: word_less_nat_alt)
  obtain b where b: "bs_ptr t = Ptr b 0" "m b \<noteq> None" "alloced t" using assms(1) by (auto simp: owns_def)
  have mb: "without_buffer s m b = m b" using assms(2,3) b by (auto simp: without_buffer_def owns_def)
  have "\<not> uses_buffer_owned_by t s" using assms(2,3) b by (auto simp: uses_buffer_owned_by_def owns_def)
  then have "bs_assign False t s m = Some (s\<lparr>alloced := False, bs_ptr := bs_ptr t, str_length := str_length t,
      alloced_length := alloced_length t\<rparr>, without_buffer s m)"
    using al by (simp add: bs_assign_def set_alloced_def free_buffer_owned [OF assms(2)])
  moreover have o: "owns t (without_buffer s m)" using b mb by (simp add: owns_def)
  ultimately show ?thesis using assms(5) b mb free_owned(1) [OF o]
    by (auto simp: bs_bytes_def load_bytes_def free_owned(2))
qed

text \<open>\<open>swap\<close> leaves the extra room and the thread mark with the objects.\<close>

lemma bs_swap_swaps:
  "bs_swap s t = (s', t') \<Longrightarrow> bs_bytes s' m = bs_bytes t m \<and> bs_bytes t' m = bs_bytes s m \<and> (owns s' m = owns t m) \<and>
     (owns t' m = owns s m) \<and> extra_alloc s' = extra_alloc s \<and> thread_specific s' = thread_specific s"
  by (auto simp: bs_swap_def bs_bytes_def owns_def)

text \<open>A part that starts behind the allocated length gets a wrapped-around length.\<close>

lemma bs_set_part_wraps:
  assumes "\<not> alloced s" "alloced_length t = 8" "bs_set_part t 9 0 s m = Some (s', m')"
  shows "alloced_length s' = 0xFFFFFFFF"
proof -
  have "(ucast (8 - 9 :: u64) :: u32) = 0xFFFFFFFF" by (simp add: word_unat_eq_iff unsigned_ucast_eq unsigned_minus_1_eq_mask mask_eq_exp_minus_1 take_bit_eq_mod)
  then show ?thesis using assms by (auto simp: bs_set_part_def free_buffer_def)
qed

lemma int4_roundtrip: "uint4korr (int4store v @ rest) = v"
proof -
  have "uint4korr (int4store v @ rest) = take_bit 32 v" by (simp add: uint4korr_def int4store_def load_le_def le_word_le_bytes)
  then show ?thesis by (simp add: take_bit_word_eq_self)
qed

text \<open>A number written at a position is read back, and the rest of the used bytes stays.\<close>

lemma write_at_position_roundtrip:
  assumes "str_ok s m" "bs_bytes s m = Some d" "unat pos + 4 \<le> unat (str_length s)"
  shows "\<exists>m'. write_at_position pos v s m = Some m' \<and>
    bs_bytes s m' = Some (take (unat pos) d @ int4store v @ drop (unat pos + 4) d) \<and>
    uint4korr (drop (unat pos) (take (unat pos) d @ int4store v @ drop (unat pos + 4) d)) = v"
proof -
  have u: "unat (pos + 4) = unat pos + 4"
    using unat_add_bound [of pos 4] assms(3) unat_bound [of "str_length s"] by simp
  have l4: "length (int4store v) = 4" by (simp add: int4store_def)
  obtain b i bs where p: "bs_ptr s = Ptr b i" "m b = Some bs" "i + unat (str_length s) \<le> length bs"
    using assms(1,3) by (auto simp: str_ok_def split: bptr.splits option.splits)
  have d: "d = take (unat (str_length s)) (drop i bs)"
    using assms(2,3) p by (auto simp: bs_bytes_def load_bytes_def)
  let ?m = "m(b \<mapsto> patch bs (i + unat pos) (int4store v))"
  have st: "store_at s pos (int4store v) m = Some ?m"
    using store_bytes_block [where m = m and b = b, OF p(2), of "i + unat pos" "int4store v"] p(1,3) assms(3) l4
    by (simp add: store_at_def)
  have "bs_bytes s ?m = Some (take (unat (str_length s)) (drop i (patch bs (i + unat pos) (int4store v))))"
    using p assms(3) l4 by (simp add: bs_bytes_def load_bytes_def)
  also have "take (unat (str_length s)) (drop i (patch bs (i + unat pos) (int4store v))) =
      take (unat pos) d @ int4store v @ drop (unat pos + 4) d"
    unfolding d using p(3) assms(3) l4 by (auto simp: patch_def drop_take min_def ac_simps)
  finally have "bs_bytes s ?m = Some (take (unat pos) d @ int4store v @ drop (unat pos + 4) d)" .
  moreover have "length d = unat (str_length s)" using assms(2) by (auto simp: bs_bytes_def dest: load_bytes_length)
  then have "drop (unat pos) (take (unat pos) d @ int4store v @ drop (unat pos + 4) d) = int4store v @ drop (unat pos + 4) d"
    using assms(3) by simp
  ultimately show ?thesis
    using st assms(3) by (simp add: write_at_position_def word_le_nat_alt u int4_roundtrip)
qed

subsection \<open>An allocator\<close>

text \<open>
  A memory of a hundred blocks that grants requests as long as a block is free: an instance of the
  assumption on \<open>realloc_raw\<close>, used in the examples.
\<close>

definition sample_grow :: "'z grow" where
  "sample_grow n s m =
     (if unat n \<le> unat (alloced_length s) then (False, s, m)
      else (case filter (\<lambda>b. m b = None) [0..<100] of
              [] \<Rightarrow> (True, s, m)
            | b # _ \<Rightarrow>
                (case bs_bytes s m of
                   None \<Rightarrow> (True, s, m)
                 | Some d \<Rightarrow>
                     (False, s\<lparr>bs_ptr := Ptr b 0, alloced_length := ucast n, alloced := True\<rparr>,
                      (if alloced s then m(ptr_block (bs_ptr s) := None) else m)(b \<mapsto> d @ replicate (unat n - length d) 0)))))"

lemma sample_grow_ok: "realloc_ok (sample_grow :: 'z grow)"
  unfolding realloc_ok_def
proof (intro allI impI, elim conjE)
  fix n :: u64 and s :: "'z bin_string_scheme" and m :: bmem
  assume h: "str_ok s m" "unat (str_length s) < unat n" "unat n < 2 ^ 32 - 16"
  obtain d where d: "bs_bytes s m = Some d" "length d = unat (str_length s)" using str_ok_bytes [OF h(1)] by auto
  show "case sample_grow n s m of (failed, s', m') \<Rightarrow>
      if failed then s' = s \<and> m' = m
      else str_ok s' m' \<and> str_length s' = str_length s \<and> extra_alloc s' = extra_alloc s \<and>
        unat n \<le> unat (alloced_length s') \<and> bs_bytes s' m' = bs_bytes s m \<and>
        (if unat n \<le> unat (alloced_length s) then s' = s \<and> m' = m
         else m (ptr_block (bs_ptr s')) = None \<or> alloced s \<and> ptr_block (bs_ptr s') = ptr_block (bs_ptr s)) \<and>
        (\<forall>b. m b \<noteq> None \<and> \<not> (alloced s \<and> b = ptr_block (bs_ptr s)) \<longrightarrow> m' b = m b)"
  proof (cases "unat n \<le> unat (alloced_length s)")
    case True
    then show ?thesis using h(1) by (simp add: sample_grow_def)
  next
    case False
    show ?thesis
    proof (cases "filter (\<lambda>b. m b = None) [0..<100]")
      case Nil
      then show ?thesis using False by (simp add: sample_grow_def)
    next
      case (Cons b bs)
      then have "b \<in> set (filter (\<lambda>b. m b = None) [0..<100])" by simp
      then have b: "m b = None" by simp
      have u: "unat (ucast n :: u32) = unat n" using h(3) by (simp add: unsigned_ucast_eq take_bit_nat_eq_self)
      let ?s = "s\<lparr>bs_ptr := Ptr b 0, alloced_length := ucast n, alloced := True\<rparr>"
      let ?m = "(if alloced s then m(ptr_block (bs_ptr s) := None) else m)(b \<mapsto> d @ replicate (unat n - length d) 0)"
      have r: "sample_grow n s m = (False, ?s, ?m)" using False Cons d(1) by (simp add: sample_grow_def)
      have "str_ok ?s ?m" using h(2) d(2) u by (simp add: str_ok_def)
      moreover have "bs_bytes ?s ?m = Some d" using h(2) d(2) by (cases "unat (str_length s) = 0") (simp_all add: bs_bytes_def load_bytes_def)
      ultimately show ?thesis using r u False b d(1) by auto
    qed
  qed
qed

text \<open>A string of two bytes in a block of four, and its memory.\<close>

definition sample_string :: bin_string where
  "sample_string = bs_set_length 2 (bs_make_buffer (Ptr 0 0) 4)"

lemma sample_string_ok:
  "str_ok sample_string [0 \<mapsto> [72, 105, 0, 0]]" "bs_bytes sample_string [0 \<mapsto> [72, 105, 0, 0]] = Some [72, 105]"
  "str_length sample_string = 2" "extra_bound sample_string = 8320" "bs_ptr sample_string = Ptr 0 0" "\<not> alloced sample_string"
  by (simp_all add: sample_string_def bs_set_length_def bs_make_buffer_def str_ok_def bs_bytes_def load_bytes_def extra_bound_def)

subsection \<open>Properties\<close>

text \<open>
  C27. On a well-formed object, for lengths and extra room below the 32-bit limit, \<open>append\<close>,
  \<open>append_char\<close> and \<open>append_hex\<close> of \<open>Binary_string\<close> never fail an assertion and never touch memory
  outside the buffer: they answer false with the old bytes followed by the new ones (two digits for
  each byte in the case of \<open>append_hex\<close>), or true with the old bytes and, for \<open>append_hex\<close>, some
  digits. \<open>append\<close> and \<open>append_char\<close> leave the blocks of others and the buffer of a constant string as
  they are. \<open>append\<close> with a pointer reads its bytes after the reallocation, which gives the same as
  long as they are not in the writable buffer of the object itself.
\<close>

theorem binary_string_appends:
  assumes "realloc_ok R" "str_ok s m" "bs_bytes s m = Some d"
    and "unat (str_length s) + 2 * length data + 1 + extra_bound s < 2 ^ 32 - 16"
  shows "(\<exists>failed s' m'. bs_append R data s m = Some (failed, s', m') \<and> str_ok s' m' \<and>
      bs_bytes s' m' = Some (if failed then d else d @ data) \<and> only_own s m m') \<and>
    (\<exists>failed s' m'. append_char R c s m = Some (failed, s', m') \<and> str_ok s' m' \<and>
      bs_bytes s' m' = Some (if failed then d else d @ [c]) \<and> only_own s m m') \<and>
    (\<exists>failed s' m' k. append_hex R dig data s m = Some (failed, s', m') \<and> str_ok s' m' \<and>
      bs_bytes s' m' = Some (d @ (if failed then take k else id) (concat (map (hex_of dig) data)))) \<and>
    (\<forall>src. load_bytes m src (length data) = Some data \<and> (ptr_block src \<noteq> ptr_block (bs_ptr s) \<or> \<not> alloced s \<and> alloced_length s = 0) \<longrightarrow>
      bs_append_from R src (of_nat (length data)) s m = bs_append R data s m)"
proof (intro conjI)
  show "\<forall>src. load_bytes m src (length data) = Some data \<and> (ptr_block src \<noteq> ptr_block (bs_ptr s) \<or> \<not> alloced s \<and> alloced_length s = 0) \<longrightarrow>
      bs_append_from R src (of_nat (length data)) s m = bs_append R data s m"
    using append_from_elsewhere [OF assms(1-3)] assms(4) by simp
  have len: "unat (str_length s) + length data + extra_bound s < 2 ^ 32 - 16" "unat (str_length s) + 1 + extra_bound s < 2 ^ 32 - 16"
    "unat (str_length s) + 2 * length data + extra_bound s < 2 ^ 32 - 16"
    using assms(4) by simp_all
  obtain f1 s1 m1 where "bs_append R data s m = Some (f1, s1, m1)" "str_ok s1 m1"
    "bs_bytes s1 m1 = Some (if f1 then d else d @ data)" "only_own s m m1"
    using append_appends [OF assms(1-3) len(1)] by (elim exE conjE)
  then show "\<exists>failed s' m'. bs_append R data s m = Some (failed, s', m') \<and> str_ok s' m' \<and>
      bs_bytes s' m' = Some (if failed then d else d @ data) \<and> only_own s m m'" by (intro exI [of _ f1] exI [of _ s1] exI [of _ m1] conjI)
  obtain f2 s2 m2 where "append_char R c s m = Some (f2, s2, m2)" "str_ok s2 m2"
    "bs_bytes s2 m2 = Some (if f2 then d else d @ [c])" "only_own s m m2"
    using append_char_appends [OF assms(1-3) len(2), of c] by (elim exE conjE)
  then show "\<exists>failed s' m'. append_char R c s m = Some (failed, s', m') \<and> str_ok s' m' \<and>
      bs_bytes s' m' = Some (if failed then d else d @ [c]) \<and> only_own s m m'" by (intro exI [of _ f2] exI [of _ s2] exI [of _ m2] conjI)
  from append_hex_appends [OF assms(1-3) len(3), of dig]
  show "\<exists>failed s' m' k. append_hex R dig data s m = Some (failed, s', m') \<and> str_ok s' m' \<and>
      bs_bytes s' m' = Some (d @ (if failed then take k else id) (concat (map (hex_of dig) data)))" .
qed

lemma binary_string_appends_witness:
  "\<exists>failed s' m'. bs_append sample_grow [33, 33, 33] sample_string [0 \<mapsto> [72, 105, 0, 0]] = Some (failed, s', m') \<and>
     bs_bytes s' m' = Some (if failed then [72, 105] else [72, 105, 33, 33, 33]) \<and> only_own sample_string [0 \<mapsto> [72, 105, 0, 0]] m'"
proof -
  have "unat (str_length sample_string) + 2 * length [33, 33, 33 :: u8] + 1 + extra_bound sample_string < 2 ^ 32 - 16"
    by (simp add: sample_string_ok)
  from conjunct1 [OF binary_string_appends [OF sample_grow_ok sample_string_ok(1,2) this]]
  obtain f s m where "bs_append sample_grow [33, 33, 33] sample_string [0 \<mapsto> [72, 105, 0, 0]] = Some (f, s, m)"
    "bs_bytes s m = Some (if f then [72, 105] else [72, 105] @ [33, 33, 33])" "only_own sample_string [0 \<mapsto> [72, 105, 0, 0]] m"
    by (elim exE conjE)
  then show ?thesis by (intro exI [of _ f] exI [of _ s] exI [of _ m] conjI) simp_all
qed

text \<open>
  \<open>c_ptr\<close> of an object whose bytes contain no zero byte answers a pointer at which a C string with
  exactly these bytes stands, or the buffer had to grow and \<open>realloc_raw\<close> failed; the bytes do not
  change. Objects that do not own their buffer must have an accessible byte behind the used ones.
\<close>

lemma binary_string_c_ptr:
  assumes "realloc_ok R" "str_ok s m" "bs_bytes s m = Some d" "0 \<notin> set d" "bs_ptr s \<noteq> Null"
    and "alloced s \<or> load_byte m (bs_end s) \<noteq> None" "unat (str_length s) + 1 < 2 ^ 32 - 16"
  shows "\<exists>p s' m'. c_ptr R lit s m = Some (p, s', m') \<and> p = bs_ptr s' \<and> bs_bytes s' m' = Some d \<and>
    (c_string m' p = Some d \<or> fst (R (ucast (str_length s) + 1) s m))"
  using assms by (rule c_ptr_terminated)

lemma binary_string_c_ptr_witness:
  "\<exists>p s' m'. c_ptr sample_grow Null sample_string [0 \<mapsto> [72, 105, 33, 33]] = Some (p, s', m') \<and> c_string m' p = Some [72, 105]"
proof -
  let ?m = "[0 \<mapsto> [72, 105, 33, 33]] :: bmem"
  have s: "str_ok sample_string ?m" "bs_bytes sample_string ?m = Some [72, 105]" "load_byte ?m (bs_end sample_string) \<noteq> None"
    "alloced_length sample_string = 4"
    by (simp_all add: sample_string_def bs_set_length_def bs_make_buffer_def str_ok_def bs_bytes_def load_bytes_def load_byte_def bs_end_def)
  have "\<not> fst (sample_grow (ucast (str_length sample_string) + 1) sample_string ?m)"
    using s(4) sample_string_ok(3) by (simp add: sample_grow_def)
  then show ?thesis
    using binary_string_c_ptr [OF sample_grow_ok s(1,2), of Null] s(3) sample_string_ok(3,5) by auto
qed

text \<open>
  C28. A buffer has one owner. After \<open>move\<close> the target has the bytes, the block is live, the old block
  of the target is freed, and freeing both objects frees no block twice. \<open>release\<close> followed by \<open>reset\<close>
  of another object passes the buffer on in the same way, whether the other object owned a buffer, which is
  then freed, or not, and leaves the first object empty. Assignment frees the buffer of the target, which then
  shows the bytes of the other object without owning them; assigning an object to itself changes nothing.
  No other block is freed or written.
\<close>

theorem binary_string_ownership:
  assumes "owns t m" "owns s m \<or> \<not> alloced s" "owns s m \<longrightarrow> bs_ptr s \<noteq> bs_ptr t" "alloced_length t < 0xFFFFFFFF"
    and "bs_bytes t m = Some d"
  shows "(\<exists>s' t' m'. bs_move t s m = Some (s', t', m') \<and> owns s' m' \<and> \<not> alloced t' \<and> bs_bytes s' m' = Some d \<and>
      bs_free t' m' \<noteq> None \<and> bs_free s' m' \<noteq> None \<and> (owns s m \<longrightarrow> m' (ptr_block (bs_ptr s)) = None) \<and> m' = without_buffer s m) \<and>
    (case bs_release t of (p, t') \<Rightarrow> \<not> alloced t' \<and> bs_ptr t' = Null \<and>
      (\<exists>s' m'. bs_reset p (ucast (str_length t)) (ucast (alloced_length t)) s m = Some (s', m') \<and> m' = without_buffer s m \<and>
        owns s' m' \<and> bs_bytes s' m' = Some d \<and> bs_free t' m' \<noteq> None \<and> bs_free s' m' \<noteq> None)) \<and>
    (\<exists>s' m'. bs_assign False t s m = Some (s', m') \<and> m' = without_buffer s m \<and> \<not> alloced s' \<and> owns t m' \<and>
      bs_bytes s' m' = Some d \<and> bs_free s' m' \<noteq> None \<and> bs_free t m' \<noteq> None) \<and>
    bs_assign True t t m = Some (t, m)"
  using bs_move_ownership [OF assms] bs_reset_release [OF assms] bs_assign_borrows [OF assms]
  by (simp add: bs_assign_def)

lemma binary_string_ownership_witness:
  "\<exists>s' t' m'. bs_move (sample_string\<lparr>alloced := True\<rparr>) bs_make [0 \<mapsto> [72, 105, 0, 0]] = Some (s', t', m') \<and>
     bs_bytes s' m' = Some [72, 105] \<and> bs_free t' m' \<noteq> None \<and> bs_free s' m' \<noteq> None"
proof -
  let ?t = "sample_string\<lparr>alloced := True\<rparr>"
  have "owns ?t [0 \<mapsto> [72, 105, 0, 0]]" "\<not> alloced bs_make" "alloced_length ?t < 0xFFFFFFFF"
    "bs_bytes ?t [0 \<mapsto> [72, 105, 0, 0]] = Some [72, 105]"
    by (simp_all add: sample_string_def bs_set_length_def bs_make_buffer_def bs_bytes_def load_bytes_def owns_def bs_make_def init_private_data_def)
  from binary_string_ownership [OF this(1) _ _ this(3,4), of bs_make] this(2) show ?thesis by (auto simp: owns_def)
qed

end
