(* ===== verification/Sql_Text.thy ===== *)
theory Sql_Text
  imports Sql_String
begin

text \<open>
  \<open>String\<close> of \<open>sql_string.h\<close>: a \<open>Binary_string\<close> with a character set, and the classes with a buffer of
  their own. \<open>append (const char *, size_t)\<close> of \<open>String\<close>, which converts from ASCII when the character
  set needs it, is defined in another file: it is the parameter \<open>app\<close>; the theorems take the plain
  append of \<open>Binary_string\<close>, which it is for every character set with one-byte ASCII characters.
\<close>

record sql_string = bin_string +
  st_charset :: charset_info

type_synonym st_result = "(bool \<times> sql_string \<times> bmem) option"
type_synonym st_op = "sql_string \<Rightarrow> bmem \<Rightarrow> st_result"

text \<open>\<open>a || b\<close> of two calls that answer true on failure.\<close>

definition or_else :: "st_op \<Rightarrow> st_op \<Rightarrow> st_op" where
  "or_else a b s m =
     (case a s m of None \<Rightarrow> None | Some (failed, s, m) \<Rightarrow> if failed then Some (True, s, m) else b s m)"

subsection \<open>Setting\<close>

definition set_charset :: "charset_info \<Rightarrow> sql_string \<Rightarrow> sql_string" where
  "set_charset cs s = s\<lparr>st_charset := cs\<rparr>"

definition st_make_buffer :: "bptr \<Rightarrow> u64 \<Rightarrow> charset_info \<Rightarrow> sql_string" where
  "st_make_buffer str len cs = bin_string.extend (bs_make_buffer str len) \<lparr>st_charset = cs\<rparr>"

definition st_make_const :: "bptr \<Rightarrow> u64 \<Rightarrow> charset_info \<Rightarrow> sql_string" where
  "st_make_const str len cs = bin_string.extend (bs_make_const str len) \<lparr>st_charset = cs\<rparr>"

definition st_make_copy :: "sql_string \<Rightarrow> sql_string" where
  "st_make_copy str = bin_string.extend (bs_make_copy str) \<lparr>st_charset = st_charset str\<rparr>"

definition st_set_part :: "sql_string \<Rightarrow> u64 \<Rightarrow> u64 \<Rightarrow> sql_string \<Rightarrow> bmem \<Rightarrow> (sql_string \<times> bmem) option" where
  "st_set_part str offset len s m =
     map_option (\<lambda>(s, m). (set_charset (st_charset str) s, m)) (bs_set_part str offset len s m)"

definition st_set :: "bptr \<Rightarrow> u64 \<Rightarrow> charset_info \<Rightarrow> sql_string \<Rightarrow> bmem \<Rightarrow> (sql_string \<times> bmem) option" where
  "st_set str len cs s m = map_option (\<lambda>(s, m). (set_charset cs s, m)) (bs_set str len s m)"

definition st_set_const :: "bptr \<Rightarrow> u64 \<Rightarrow> charset_info \<Rightarrow> sql_string \<Rightarrow> bmem \<Rightarrow> (sql_string \<times> bmem) option" where
  "st_set_const str len cs s m = map_option (\<lambda>(s, m). (set_charset cs s, m)) (bs_set_const str len s m)"

definition st_set_buffer_if_not_allocated :: "bptr \<Rightarrow> u64 \<Rightarrow> charset_info \<Rightarrow> sql_string \<Rightarrow> sql_string" where
  "st_set_buffer_if_not_allocated str len cs s = set_charset cs (set_buffer_if_not_allocated str len s)"

definition st_reset :: "bptr \<Rightarrow> u64 \<Rightarrow> u64 \<Rightarrow> charset_info \<Rightarrow> sql_string \<Rightarrow> bmem \<Rightarrow> (sql_string \<times> bmem) option" where
  "st_reset p len alen cs s m = map_option (\<lambda>(s, m). (set_charset cs s, m)) (bs_reset p len alen s m)"

definition st_assign :: "bool \<Rightarrow> sql_string \<Rightarrow> sql_string \<Rightarrow> bmem \<Rightarrow> (sql_string \<times> bmem) option" where
  "st_assign self t s m = (if self then Some (s, m) else bs_assign False t (set_charset (st_charset t) s) m)"

definition st_swap :: "sql_string \<Rightarrow> sql_string \<Rightarrow> sql_string \<times> sql_string" where
  "st_swap s t =
     (let (c, e) = charset_swap (st_charset s) (st_charset t); (s, t) = bs_swap s t
      in (set_charset c s, set_charset e t))"

text \<open>
  Copy with conversion: \<open>well_formed_copy\<close> answers the bytes it writes into a buffer of the given size.
\<close>

definition st_copy_convert ::
  "unit sql_string_ext grow \<Rightarrow> (u32 \<Rightarrow> u8 list) \<Rightarrow> charset_info \<Rightarrow> u64 \<Rightarrow> st_op" where
  "st_copy_convert real_alloc well_formed_copy tocs src_length s m =
     (case bs_alloc real_alloc (ucast (mbmaxlen tocs) * src_length) s m of
        (failed, s, m) \<Rightarrow>
          if failed then Some (True, s, m)
          else (let ds = well_formed_copy (alloced_length s); s = s\<lparr>str_length := of_nat (length ds)\<rparr>
                in map_option (\<lambda>m. (False, set_charset tocs s, m)) (store_at s 0 ds m)))"

subsection \<open>Appending\<close>

definition st_append_lex :: "(u8 list \<Rightarrow> st_op) \<Rightarrow> lex_cstring \<Rightarrow> st_op" where
  "st_append_lex app ls s m =
     (if \<not> assert_lex ls m then None
      else (case lex_value m ls of None \<Rightarrow> None | Some data \<Rightarrow> app data s m))"

definition append_introducer_and_hex ::
  "unit sql_string_ext grow \<Rightarrow> (u8 list \<Rightarrow> st_op) \<Rightarrow> u8 list \<Rightarrow> charset_info \<Rightarrow> u8 list \<Rightarrow> st_op" where
  "append_introducer_and_hex R app dig cs str =
     or_else (append_char R 95)
       (or_else (app (cs_name cs)) (or_else (app [32, 48, 120]) (append_hex R dig str)))"

definition append_name_value ::
  "unit sql_string_ext grow \<Rightarrow> (u8 list \<Rightarrow> st_op) \<Rightarrow> lex_cstring \<Rightarrow> lex_cstring \<Rightarrow> u8 \<Rightarrow> st_op" where
  "append_name_value R app name v quot =
     or_else (st_append_lex app name)
       (or_else (append_char R 61)
         (or_else (\<lambda>s m. if quot \<noteq> 0 then append_char R quot s m else Some (False, s, m))
           (or_else (st_append_lex app v)
             (\<lambda>s m. if quot \<noteq> 0 then append_char R quot s m else Some (False, s, m)))))"

text \<open>\<open>MY_CS_ILUNI\<close> is 0: the character cannot be encoded; a question mark is tried instead.\<close>

definition append_wc :: "unit sql_string_ext grow \<Rightarrow> u32 \<Rightarrow> st_op" where
  "append_wc R wc s m =
     (case bs_reserve R (ucast (mbmaxlen (st_charset s))) s m of
        None \<Rightarrow> None
      | Some (failed, s, m) \<Rightarrow>
          if failed then Some (True, s, m)
          else (case q_append_wc wc (st_charset s) s m of
                  None \<Rightarrow> None
                | Some (mblen, s, m) \<Rightarrow>
                    if mblen > 0 then Some (False, s, m)
                    else if mblen = 0 \<and> wc \<noteq> 63
                    then map_option (\<lambda>(n, s, m). (n \<le> 0, s, m)) (q_append_wc 63 (st_charset s) s m)
                    else Some (True, s, m)))"

text \<open>
  \<open>zeros\<close> is an array of 15 bytes, fourteen digits and the zero byte; \<open>digits\<close> is \<open>int10_to_str\<close>, and
  \<open>app1\<close> appends a text of \<open>latin1\<close>. Reading behind the array is undefined.
\<close>

definition zeros :: "u8 list" where
  "zeros = replicate 14 48 @ [0]"

definition append_zerofill :: "(u32 \<Rightarrow> u8 list) \<Rightarrow> (u8 list \<Rightarrow> st_op) \<Rightarrow> u32 \<Rightarrow> u32 \<Rightarrow> st_op" where
  "append_zerofill digits app1 num width s m =
     (let intbuff = digits num; len = of_nat (length intbuff)
      in or_else
           (\<lambda>s m. if len < width
             then (if unat (width - len) \<le> length zeros then app1 (take (unat (width - len)) zeros) s m else None)
             else Some (False, s, m))
           (app1 intbuff) s m)"

fun flag32_loop ::
  "unit sql_string_ext grow \<Rightarrow> (u8 list \<Rightarrow> st_op) \<Rightarrow> u32 \<Rightarrow> u8 list list \<Rightarrow> nat list \<Rightarrow> bool \<Rightarrow> st_op" where
  "flag32_loop R app flags names [] added s m = Some (False, s, m)"
| "flag32_loop R app flags names (i # js) added s m =
     (let k = 31 - i
      in if flags AND push_bit k 1 \<noteq> 0
         then or_else (\<lambda>s m. if added then append_char R 124 s m else Some (False, s, m))
                (or_else (if k < length names then app (names ! k) else append_char R 63)
                  (flag32_loop R app flags names js True)) s m
         else flag32_loop R app flags names js added s m)"

definition append_flag32_names ::
  "unit sql_string_ext grow \<Rightarrow> (u8 list \<Rightarrow> st_op) \<Rightarrow> u32 \<Rightarrow> u8 list list \<Rightarrow> st_op" where
  "append_flag32_names R app flags names =
     or_else (\<lambda>s m. if flags \<noteq> 0 then append_char R 40 s m else Some (False, s, m))
       (or_else (flag32_loop R app flags names [0..<32] False)
         (\<lambda>s m. if flags \<noteq> 0 then append_char R 41 s m else Some (False, s, m)))"

subsection \<open>Reading\<close>

definition st_numchars :: "sql_string \<Rightarrow> bmem \<Rightarrow> u32 option" where
  "st_numchars s m = map_option (\<lambda>d. ucast (cset_numchars (st_charset s) d)) (bs_bytes s m)"

definition st_charpos :: "u64 \<Rightarrow> u32 \<Rightarrow> sql_string \<Rightarrow> bmem \<Rightarrow> u32 option" where
  "st_charpos i offset s m =
     (if sint i \<le> 0 then Some (ucast i)
      else if offset > str_length s then None
      else map_option (\<lambda>d. ucast (cset_charpos (st_charset s) (drop (unat offset) d) i)) (bs_bytes s m))"

definition st_lengthsp :: "sql_string \<Rightarrow> bmem \<Rightarrow> u64 option" where
  "st_lengthsp s m = map_option (cset_lengthsp (st_charset s)) (bs_bytes s m)"

definition escaped_wc_for_single_quote :: "u32 \<Rightarrow> u32" where
  "escaped_wc_for_single_quote ch =
     (if ch = 92 then 92 else if ch = 0 then 48 else if ch = 39 then 39 else if ch = 10 then 110
      else if ch = 13 then 114 else if ch = 26 then 90 else 0)"

text \<open>\<open>same\<close> is \<open>my_charset_same\<close>; the two ways to append are functions of another file.\<close>

definition append_for_single_quote_opt_convert ::
  "nat \<Rightarrow> (charset_info \<Rightarrow> charset_info \<Rightarrow> bool) \<Rightarrow> (u8 list \<Rightarrow> st_op) \<Rightarrow> (u8 list \<Rightarrow> charset_info \<Rightarrow> st_op) \<Rightarrow>
   u8 list \<Rightarrow> charset_info \<Rightarrow> st_op" where
  "append_for_single_quote_opt_convert bin_id same plain using_mb_wc str cs s m =
     (if cs_id (st_charset s) = bin_id \<or> cs_id cs = bin_id \<or> same (st_charset s) cs
      then plain str s m else using_mb_wc str cs s m)"

definition st_well_formed_length :: "sql_string \<Rightarrow> bmem \<Rightarrow> u32 option" where
  "st_well_formed_length s m =
     map_option (\<lambda>d. ucast (fst (cset_well_formed (st_charset s) d (ucast (str_length s))))) (bs_bytes s m)"

definition st_is_ascii :: "sql_string \<Rightarrow> bmem \<Rightarrow> bool option" where
  "st_is_ascii s m =
     (if str_length s = 0 then Some True
      else if mbminlen (st_charset s) > 1 then Some False
      else map_option Not (has_8bit_bytes s m))"

definition st_eq :: "(sql_string \<Rightarrow> sql_string \<Rightarrow> charset_info \<Rightarrow> int) \<Rightarrow> sql_string \<Rightarrow> sql_string \<Rightarrow> charset_info \<Rightarrow> bool" where
  "st_eq sortcmp s t cs \<longleftrightarrow> sortcmp s t cs = 0"

text \<open>Objects with a buffer of \<open>buff_sz\<close> bytes of their own, at \<open>buff\<close>.\<close>

definition string_buffer :: "bptr \<Rightarrow> u64 \<Rightarrow> charset_info \<Rightarrow> sql_string" where
  "string_buffer buff buff_sz cs = bs_set_length 0 (st_make_buffer buff buff_sz cs)"

definition string_buffer_set_if_not_allocated :: "bptr \<Rightarrow> u64 \<Rightarrow> charset_info \<Rightarrow> sql_string \<Rightarrow> sql_string" where
  "string_buffer_set_if_not_allocated buff buff_sz cs s =
     (let s = (if \<not> alloced s then s\<lparr>bs_ptr := buff, alloced_length := ucast buff_sz\<rparr> else s);
          s = s\<lparr>str_length := 0\<rparr>
      in set_charset cs s)"

definition binary_string_buffer :: "bptr \<Rightarrow> u64 \<Rightarrow> bin_string" where
  "binary_string_buffer buff buff_sz = bs_set_length 0 (bs_make_buffer buff buff_sz)"

definition check_if_only_end_space :: "charset_info \<Rightarrow> u8 list \<Rightarrow> bool" where
  "check_if_only_end_space cs str \<longleftrightarrow> unat (cset_scan_spaces cs str) = length str"

subsection \<open>Sequences of appends\<close>

text \<open>
  \<open>appends P f t\<close>: on a well-formed object with room in the 32-bit range for \<open>t\<close>, the operation \<open>f\<close>
  returns with the old bytes followed by \<open>t\<close>, or answers true with the old bytes and a part of \<open>t\<close>.
\<close>

definition appends :: "st_op \<Rightarrow> u8 list \<Rightarrow> bool" where
  "appends f t \<longleftrightarrow>
     (\<forall>s m d. str_ok s m \<and> bs_bytes s m = Some d \<and> length d + length t + extra_bound s < 2 ^ 32 - 16 \<longrightarrow>
        (\<exists>failed s' m' k. f s m = Some (failed, s', m') \<and> str_ok s' m' \<and> extra_bound s' = extra_bound s \<and>
           bs_bytes s' m' = Some (d @ (if failed then take k t else t))))"

lemma appendsD:
  assumes "appends f t" "str_ok s m" "bs_bytes s m = Some d" "length d + length t + extra_bound s < 2 ^ 32 - 16"
  shows "\<exists>failed s' m' k. f s m = Some (failed, s', m') \<and> str_ok s' m' \<and> extra_bound s' = extra_bound s \<and>
    bs_bytes s' m' = Some (d @ (if failed then take k t else t))"
  using assms unfolding appends_def by blast

lemma bs_bytes_length: "bs_bytes s m = Some d \<Longrightarrow> unat (str_length s) = length d"
  by (auto simp: bs_bytes_def dest: load_bytes_length)

lemma appends_char: "realloc_ok R \<Longrightarrow> appends (append_char R c) [c]"
  unfolding appends_def
proof (intro allI impI, elim conjE)
  fix s :: sql_string and m d
  assume "realloc_ok R" "str_ok s m" "bs_bytes s m = Some d" "length d + length [c] + extra_bound s < 2 ^ 32 - 16"
  with append_char_appends [of R s m d c] bs_bytes_length [of s m d]
  show "\<exists>failed s' m' k. append_char R c s m = Some (failed, s', m') \<and> str_ok s' m' \<and> extra_bound s' = extra_bound s \<and>
      bs_bytes s' m' = Some (d @ (if failed then take k [c] else [c]))"
    by (force intro: exI [of _ 0])
qed

lemma appends_bytes: "realloc_ok R \<Longrightarrow> appends (bs_append R t) t"
  unfolding appends_def
proof (intro allI impI, elim conjE)
  fix s :: sql_string and m d
  assume "realloc_ok R" "str_ok s m" "bs_bytes s m = Some d" "length d + length t + extra_bound s < 2 ^ 32 - 16"
  with append_appends [of R s m d t] bs_bytes_length [of s m d]
  show "\<exists>failed s' m' k. bs_append R t s m = Some (failed, s', m') \<and> str_ok s' m' \<and> extra_bound s' = extra_bound s \<and>
      bs_bytes s' m' = Some (d @ (if failed then take k t else t))"
    by (force intro: exI [of _ 0])
qed

lemma appends_nothing: "appends (\<lambda>s m. Some (False, s, m)) []"
  by (auto simp: appends_def)

lemma appends_or_else:
  assumes "appends f t" "appends g u"
  shows "appends (or_else f g) (t @ u)"
  unfolding appends_def
proof (intro allI impI, elim conjE)
  fix s :: sql_string and m d
  assume h: "str_ok s m" "bs_bytes s m = Some d" "length d + length (t @ u) + extra_bound s < 2 ^ 32 - 16"
  from appendsD [OF assms(1) h(1,2)] h(3) obtain failed s1 m1 k where
    a: "f s m = Some (failed, s1, m1)" "str_ok s1 m1" "extra_bound s1 = extra_bound s"
    "bs_bytes s1 m1 = Some (d @ (if failed then take k t else t))"
    by fastforce
  show "\<exists>failed s' m' k. or_else f g s m = Some (failed, s', m') \<and> str_ok s' m' \<and> extra_bound s' = extra_bound s \<and>
      bs_bytes s' m' = Some (d @ (if failed then take k (t @ u) else t @ u))"
  proof (cases failed)
    case True
    then show ?thesis using a
      by (intro exI [of _ True] exI [of _ s1] exI [of _ m1] exI [of _ "min k (length t)"]) (simp add: or_else_def min_def)
  next
    case False
    with a(4) have b: "bs_bytes s1 m1 = Some (d @ t)" by simp
    from appendsD [OF assms(2) a(2) b] h(3) a(3) obtain failed2 s2 m2 j where
      c: "g s1 m1 = Some (failed2, s2, m2)" "str_ok s2 m2" "extra_bound s2 = extra_bound s1"
      "bs_bytes s2 m2 = Some ((d @ t) @ (if failed2 then take j u else u))"
      by fastforce
    then show ?thesis using a False
      by (intro exI [of _ failed2] exI [of _ s2] exI [of _ m2] exI [of _ "length t + j"]) (simp add: or_else_def)
  qed
qed

lemma appends_if: "(c \<Longrightarrow> appends f t) \<Longrightarrow> (\<not> c \<Longrightarrow> appends g u) \<Longrightarrow> appends (\<lambda>s m. if c then f s m else g s m) (if c then t else u)"
  by auto

lemma appends_hex: "realloc_ok R \<Longrightarrow> appends (append_hex R dig src) (concat (map (hex_of dig) src))"
proof (induction src)
  case Nil
  then show ?case by (auto simp: appends_def)
next
  case (Cons c src)
  have "append_hex R dig (c # src) = or_else (append_char R (dig ! unat (drop_bit 4 c)))
      (or_else (append_char R (dig ! unat (c AND 0x0F))) (append_hex R dig src))"
    by (intro ext) (simp add: or_else_def split: option.splits)
  with appends_or_else [OF appends_char [OF Cons.prems] appends_or_else [OF appends_char [OF Cons.prems] Cons.IH [OF Cons.prems]],
      of "dig ! unat (drop_bit 4 c)" "dig ! unat (c AND 0x0F)"]
  show ?case by (simp add: hex_of_def)
qed

subsection \<open>Flags\<close>

fun join :: "'a list \<Rightarrow> 'a list list \<Rightarrow> 'a list" where
  "join sep [] = []"
| "join sep [x] = x"
| "join sep (x # y # xs) = x @ sep @ join sep (y # xs)"

definition flag_name :: "u8 list list \<Rightarrow> nat \<Rightarrow> u8 list" where
  "flag_name names k = (if k < length names then names ! k else [63])"

text \<open>The text of a set of flags: the names of the set bits, highest first, between bars.\<close>

definition flag_text :: "u32 \<Rightarrow> u8 list list \<Rightarrow> u8 list" where
  "flag_text flags names =
     (if flags = 0 then []
      else [40] @ join [124] (map (flag_name names) (filter (bit flags) (rev [0..<32]))) @ [41])"

definition loop_text :: "u32 \<Rightarrow> u8 list list \<Rightarrow> nat list \<Rightarrow> bool \<Rightarrow> u8 list" where
  "loop_text flags names js added =
     (let parts = map (flag_name names) (filter (bit flags) (map (\<lambda>i. 31 - i) js))
      in (if added \<and> parts \<noteq> [] then [124] else []) @ join [124] parts)"

lemma join_Cons: "join sep (x # xs) = x @ (if xs = [] then [] else sep @ join sep xs)"
  by (cases xs) simp_all

lemma loop_text_simps:
  "loop_text flags names [] added = []"
  "bit flags (31 - i) \<Longrightarrow> loop_text flags names (i # js) added =
     (if added then [124] else []) @ flag_name names (31 - i) @ loop_text flags names js True"
  "\<not> bit flags (31 - i) \<Longrightarrow> loop_text flags names (i # js) added = loop_text flags names js added"
  by (simp_all add: loop_text_def Let_def join_Cons)

lemma flag_bit: "(flags :: u32) AND 2 ^ k = 0 \<longleftrightarrow> \<not> bit flags k"
  by (auto simp: word_zero_iff_no_bit bit_and_iff bit_shift_one dest: word_bit_bound)

lemma appends_flag_loop:
  "realloc_ok R \<Longrightarrow> appends (flag32_loop R (bs_append R) flags names js added) (loop_text flags names js added)"
proof (induction js arbitrary: added)
  case Nil
  have "flag32_loop R (bs_append R) flags names [] added = (\<lambda>s m. Some (False, s, m))" by (intro ext) simp
  then show ?case using appends_nothing by (simp add: loop_text_simps)
next
  case (Cons i js)
  show ?case
  proof (cases "bit flags (31 - i)")
    case True
    have eq: "flag32_loop R (bs_append R) flags names (i # js) added =
        or_else (\<lambda>s m. if added then append_char R 124 s m else Some (False, s, m))
          (or_else (if 31 - i < length names then bs_append R (names ! (31 - i)) else append_char R 63)
            (flag32_loop R (bs_append R) flags names js True))"
      using True by (intro ext) (simp add: Let_def flag_bit)
    have n: "appends (if 31 - i < length names then bs_append R (names ! (31 - i)) else append_char R 63) (flag_name names (31 - i))"
      using appends_bytes [OF Cons.prems] appends_char [OF Cons.prems] by (simp add: flag_name_def)
    have c: "appends (\<lambda>s m. if added then append_char R 124 s m else Some (False, s, m)) (if added then [124] else [])"
      by (rule appends_if) (rule appends_char [OF Cons.prems] appends_nothing)+
    show ?thesis
      unfolding eq loop_text_simps(2) [OF True]
      by (intro appends_or_else c n Cons.IH Cons.prems)
  next
    case False
    have "flag32_loop R (bs_append R) flags names (i # js) added = flag32_loop R (bs_append R) flags names js added"
      using False by (intro ext) (simp add: Let_def flag_bit)
    then show ?thesis using Cons.IH [OF Cons.prems] loop_text_simps(3) [OF False] by simp
  qed
qed

lemma appends_flags:
  assumes "realloc_ok R"
  shows "appends (append_flag32_names R (bs_append R) flags names) (flag_text flags names)"
proof -
  have "map (\<lambda>i. 31 - i) [0..<32] = rev [0..<32]" by (simp add: upt_rec)
  then have loop: "loop_text flags names [0..<32] False = join [124] (map (flag_name names) (filter (bit flags) (rev [0..<32])))"
    by (simp add: loop_text_def Let_def del: upt_rec_numeral)
  have z: "loop_text 0 names js False = []" for js by (induction js) (simp_all add: loop_text_simps)
  have c: "appends (\<lambda>s m. if flags \<noteq> 0 then append_char R b s m else Some (False, s, m)) (if flags \<noteq> 0 then [b] else [])" for b
    by (rule appends_if) (rule appends_char [OF assms] appends_nothing)+
  have "flag_text flags names = (if flags \<noteq> 0 then [40] else []) @ loop_text flags names [0..<32] False @ (if flags \<noteq> 0 then [41] else [])"
    using z by (simp add: flag_text_def loop del: upt_rec_numeral)
  moreover have "appends (append_flag32_names R (bs_append R) flags names)
      ((if flags \<noteq> 0 then [40] else []) @ loop_text flags names [0..<32] False @ (if flags \<noteq> 0 then [41] else []))"
    unfolding append_flag32_names_def
    by (intro appends_or_else c appends_flag_loop assms)
  ultimately show ?thesis by simp
qed

subsection \<open>Other texts\<close>

lemma lex_value_kept: "lex_value m x = Some v \<Longrightarrow> only_own s m m' \<Longrightarrow> m (ptr_block (lex_str x)) \<noteq> None \<Longrightarrow>
    \<not> (ptr_block (lex_str x) = ptr_block (bs_ptr s) \<and> (alloced s \<or> alloced_length s \<noteq> 0)) \<Longrightarrow> lex_value m' x = Some v"
  by (cases "lex_str x") (auto simp: lex_value_def load_bytes_def only_own_def split: if_splits)

lemma appends_introducer:
  assumes "realloc_ok R"
  shows "appends (append_introducer_and_hex R (bs_append R) dig cs str)
    ([95] @ cs_name cs @ [32, 48, 120] @ concat (map (hex_of dig) str))"
  unfolding append_introducer_and_hex_def
  by (intro appends_or_else appends_char appends_bytes appends_hex assms)

text \<open>Zero filling pads to the width as long as at most fourteen zeros are needed.\<close>

lemma append_zerofill_text:
  assumes "realloc_ok R" "length (digits num) < 2 ^ 32"
  shows "unat width \<le> length (digits num) + 14 \<Longrightarrow>
      appends (append_zerofill digits (bs_append R) num width)
        (replicate (unat width - length (digits num)) 48 @ digits num)"
    and "length (digits num) + 15 < unat width \<Longrightarrow> append_zerofill digits (bs_append R) num width s m = None"
proof -
  let ?n = "of_nat (length (digits num)) :: u32"
  have n: "unat ?n = length (digits num)" using assms(2) by (simp add: unat_of_nat take_bit_nat_eq_self)
  have lt: "?n < width \<longleftrightarrow> length (digits num) < unat width" by (simp add: word_less_nat_alt n)
  have sub: "unat (width - ?n) = unat width - length (digits num)" if "length (digits num) < unat width"
    using unat_sub [of ?n width] that n by (simp add: word_le_nat_alt)
  show "appends (append_zerofill digits (bs_append R) num width) (replicate (unat width - length (digits num)) 48 @ digits num)"
    if w: "unat width \<le> length (digits num) + 14"
  proof -
    have eq: "append_zerofill digits (bs_append R) num width =
      or_else (\<lambda>s m. if ?n < width then bs_append R (replicate (unat width - length (digits num)) 48) s m else Some (False, s, m))
        (bs_append R (digits num))"
      using w by (intro ext) (auto simp: append_zerofill_def Let_def or_else_def lt sub zeros_def)
    have ap: "appends (\<lambda>s m. if ?n < width then bs_append R (replicate (unat width - length (digits num)) 48) s m
        else Some (False, s, m)) (if ?n < width then replicate (unat width - length (digits num)) 48 else [])"
      by (rule appends_if) (rule appends_bytes [OF assms(1)] appends_nothing)+
    have pad: "(if ?n < width then replicate (unat width - length (digits num)) 48 else []) =
        replicate (unat width - length (digits num)) (48 :: u8)"
      using lt by simp
    show ?thesis unfolding eq by (intro appends_or_else ap [unfolded pad] appends_bytes assms(1))
  qed
  show "append_zerofill digits (bs_append R) num width s m = None" if "length (digits num) + 15 < unat width"
  proof -
    have "\<not> unat width - length (digits num) \<le> 15" using that by arith
    then show ?thesis using that by (simp add: append_zerofill_def Let_def or_else_def lt sub zeros_def)
  qed
qed

lemma escaped_wc_injective:
  "escaped_wc_for_single_quote a = escaped_wc_for_single_quote b \<Longrightarrow> escaped_wc_for_single_quote a \<noteq> 0 \<Longrightarrow> a = b"
  by (auto simp: escaped_wc_for_single_quote_def split: if_splits)

lemma st_is_ascii_iff:
  "bs_bytes s m = Some d \<Longrightarrow> mbminlen (st_charset s) \<le> 1 \<Longrightarrow> st_is_ascii s m = Some (\<forall>c \<in> set d. c < 128)"
  using bs_bytes_length [of s m d] by (auto simp: st_is_ascii_def has_8bit_bytes_def has_8bit_iff not_less unat_is_0 not_le)

lemma string_buffer_ok:
  assumes "m b = Some bs" "length bs = unat n" "unat n < 2 ^ 32"
  shows "str_ok (string_buffer (Ptr b 0) n cs) m" "bs_bytes (string_buffer (Ptr b 0) n cs) m = Some []"
proof -
  have "unat (ucast n :: u32) = unat n" using assms(3) by (simp add: unsigned_ucast_eq take_bit_nat_eq_self)
  then show "str_ok (string_buffer (Ptr b 0) n cs) m" "bs_bytes (string_buffer (Ptr b 0) n cs) m = Some []"
    using assms by (simp_all add: string_buffer_def st_make_buffer_def bs_make_buffer_def bs_set_length_def
        bin_string.defs str_ok_def bs_bytes_def)
qed

subsection \<open>Properties\<close>

text \<open>
  \<open>append_flag32_names\<close> appends nothing for no flags, and otherwise the names of the set bits from
  the highest to the lowest, a question mark for a bit without a name, separated by bars and in
  parentheses; \<open>append_introducer_and_hex\<close> appends the underscore, the name of the character set and
  the bytes in hexadecimal digits. When memory is exhausted the object has its old bytes and a part of
  the text.
\<close>

lemma string_text_appends:
  assumes "realloc_ok R" "str_ok s m" "bs_bytes s m = Some d"
    and "length d + length (flag_text flags names) + extra_bound s < 2 ^ 32 - 16"
    and "length d + length (cs_name cs) + 2 * length str + 4 + extra_bound s < 2 ^ 32 - 16"
  shows "(\<exists>failed s' m' k. append_flag32_names R (bs_append R) flags names s m = Some (failed, s', m') \<and> str_ok s' m' \<and>
      bs_bytes s' m' = Some (d @ (if failed then take k (flag_text flags names) else flag_text flags names))) \<and>
    (\<exists>failed s' m' k. append_introducer_and_hex R (bs_append R) dig cs str s m = Some (failed, s', m') \<and> str_ok s' m' \<and>
      bs_bytes s' m' = Some (d @ (if failed then take k else id)
        ([95] @ cs_name cs @ [32, 48, 120] @ concat (map (hex_of dig) str))))"
proof
  from appendsD [OF appends_flags [OF assms(1)] assms(2-4)]
  show "\<exists>failed s' m' k. append_flag32_names R (bs_append R) flags names s m = Some (failed, s', m') \<and> str_ok s' m' \<and>
      bs_bytes s' m' = Some (d @ (if failed then take k (flag_text flags names) else flag_text flags names))"
    by metis
  let ?t = "[95] @ cs_name cs @ [32, 48, 120] @ concat (map (hex_of dig) str)"
  have "length (concat (map (hex_of dig) str)) = 2 * length str" by (induction str) (simp_all add: hex_of_def)
  then have "length d + length ?t + extra_bound s < 2 ^ 32 - 16" using assms(5) by simp
  from appendsD [OF appends_introducer [OF assms(1)] assms(2,3) this] obtain f s' m' k where
    "append_introducer_and_hex R (bs_append R) dig cs str s m = Some (f, s', m')" "str_ok s' m'"
    "bs_bytes s' m' = Some (d @ (if f then take k ?t else ?t))" by blast
  then show "\<exists>failed s' m' k. append_introducer_and_hex R (bs_append R) dig cs str s m = Some (failed, s', m') \<and> str_ok s' m' \<and>
      bs_bytes s' m' = Some (d @ (if failed then take k else id) ?t)"
    by (intro exI [of _ f] exI [of _ s'] exI [of _ m'] exI [of _ k]) (cases f; simp)
qed

lemma string_text_appends_witness:
  "\<exists>failed s' m' k. append_flag32_names sample_grow (bs_append sample_grow) 5 [[97], [98]]
       (string_buffer (Ptr 0 0) 4 sample_cs) [0 \<mapsto> [0, 0, 0, 0]] = Some (failed, s', m') \<and>
     bs_bytes s' m' = Some ([] @ (if failed then take k [40, 63, 124, 97, 41] else [40, 63, 124, 97, 41]))"
proof -
  let ?s = "string_buffer (Ptr 0 0) 4 sample_cs" and ?m = "[0 \<mapsto> [0, 0, 0, 0]] :: bmem"
  have ok: "str_ok ?s ?m" "bs_bytes ?s ?m = Some []" using string_buffer_ok [of ?m 0 "[0, 0, 0, 0]" 4] by simp_all
  have x: "extra_bound ?s = 8320"
    by (simp add: string_buffer_def st_make_buffer_def bs_make_buffer_def bs_set_length_def bin_string.defs extra_bound_def)
  have t: "flag_text 5 [[97], [98]] = [40, 63, 124, 97, 41]"
    by (simp add: flag_text_def flag_name_def upt_rec bit_numeral_rec)
  have c: "cs_name sample_cs = []" by (simp add: sample_cs_def)
  have "length ([] :: u8 list) + length (flag_text 5 [[97], [98]]) + extra_bound ?s < 2 ^ 32 - 16" by (simp add: t x)
  moreover have "length ([] :: u8 list) + length (cs_name sample_cs) + 2 * length ([] :: u8 list) + 4 + extra_bound ?s < 2 ^ 32 - 16"
    by (simp add: c x)
  ultimately show ?thesis
    using conjunct1 [OF string_text_appends [OF sample_grow_ok ok, of 5 "[[97], [98]]" sample_cs "[]"]] unfolding t by metis
qed

end
