(* ===== verification/Json_Writer.thy ===== *)
theory Json_Writer
  imports Sql_Text
begin

text \<open>
  The classes of \<open>my_json_writer.h\<close> that drive a \<open>Json_writer\<close>: \<open>Json_writer_object\<close> and
  \<open>Json_writer_array\<close>, whose constructors and destructors open and close a JSON value, and
  \<open>String_with_limit\<close>. \<open>Json_writer\<close> itself is defined in another file; the model records the calls it
  receives, in order, and a call through a null pointer is \<open>None\<close>. The lemmas show that nested
  scopes produce exactly the calls of one JSON value, from which the value can be read back, that
  without a writer nothing is called except by one overload, and that \<open>String_with_limit\<close> keeps the
  first bytes and counts the others.
\<close>

subsection \<open>Calls\<close>

text \<open>Items and tables are addresses; a double is its 64-bit image.\<close>

datatype json_call =
    Add_member "u8 list"
  | Start_object | End_object | Start_array | End_array
  | Add_str "u8 list" | Add_str_item nat | Add_table_name nat
  | Add_ll u64 | Add_ull u64 | Add_size u64 | Add_double u64 | Add_bool bool | Add_null

type_synonym calls = "json_call list"

text \<open>A method call through the pointer \<open>writer\<close>, which is null when the flag is false.\<close>

definition writer_call :: "bool \<Rightarrow> json_call \<Rightarrow> calls \<Rightarrow> calls option" where
  "writer_call writer c cs = guard writer (cs @ [c])"

text \<open>\<open>Json_value_helper\<close> forwards to the writer it was initialised with.\<close>

definition helper_call :: "bool \<Rightarrow> json_call \<Rightarrow> calls \<Rightarrow> calls option" where
  "helper_call writer c cs = writer_call writer c cs"

subsection \<open>Objects and arrays\<close>

record json_struct =
  my_writer :: bool
  closed :: bool

type_synonym js_result = "(json_struct \<times> calls) option"

definition js_make :: "bool \<Rightarrow> json_struct" where
  "js_make writer = \<lparr>my_writer = writer, closed = False\<rparr>"

definition trace_started :: "json_struct \<Rightarrow> bool" where
  "trace_started s \<longleftrightarrow> my_writer s"

definition obj_make :: "bool \<Rightarrow> u8 list option \<Rightarrow> calls \<Rightarrow> js_result" where
  "obj_make writer str cs =
     (let s = js_make writer
      in if my_writer s
         then (case (case str of None \<Rightarrow> Some cs | Some n \<Rightarrow> writer_call (my_writer s) (Add_member n) cs) of
                 None \<Rightarrow> None
               | Some cs \<Rightarrow> map_option (\<lambda>cs. (s, cs)) (writer_call (my_writer s) Start_object cs))
         else Some (s, cs))"

definition obj_destroy :: "json_struct \<Rightarrow> calls \<Rightarrow> js_result" where
  "obj_destroy s cs =
     map_option (\<lambda>cs. (s\<lparr>closed := True\<rparr>, cs))
       (if my_writer s \<and> \<not> closed s then writer_call (my_writer s) End_object cs else Some cs)"

definition obj_end :: "json_struct \<Rightarrow> calls \<Rightarrow> js_result" where
  "obj_end s cs =
     (if closed s then None
      else map_option (\<lambda>cs. (s\<lparr>closed := True\<rparr>, cs))
             (if my_writer s then writer_call (my_writer s) End_object cs else Some cs))"

text \<open>\<open>add_member(name)\<close> followed by a call of the helper, in all overloads but one under the same guards.\<close>

definition member_calls :: "u8 list \<Rightarrow> json_call \<Rightarrow> json_struct \<Rightarrow> calls \<Rightarrow> calls option" where
  "member_calls name c s cs = Option.bind (writer_call (my_writer s) (Add_member name) cs) (helper_call (my_writer s) c)"

definition obj_add :: "u8 list \<Rightarrow> json_call \<Rightarrow> json_struct \<Rightarrow> calls \<Rightarrow> js_result" where
  "obj_add name c s cs =
     (if closed s then None
      else map_option (\<lambda>cs. (s, cs)) (if my_writer s then member_calls name c s cs else Some cs))"

definition obj_add_bool :: "u8 list \<Rightarrow> bool \<Rightarrow> json_struct \<Rightarrow> calls \<Rightarrow> js_result" where
  "obj_add_bool name v s cs = obj_add name (Add_bool v) s cs"

definition obj_add_ull :: "u8 list \<Rightarrow> u64 \<Rightarrow> json_struct \<Rightarrow> calls \<Rightarrow> js_result" where
  "obj_add_ull name v s cs = obj_add name (Add_ull v) s cs"

text \<open>Any other integral type is converted to \<open>longlong\<close>.\<close>

definition obj_add_int :: "u8 list \<Rightarrow> int \<Rightarrow> json_struct \<Rightarrow> calls \<Rightarrow> js_result" where
  "obj_add_int name v s cs = obj_add name (Add_ll (word_of_int v)) s cs"

definition obj_add_double :: "u8 list \<Rightarrow> u64 \<Rightarrow> json_struct \<Rightarrow> calls \<Rightarrow> js_result" where
  "obj_add_double name v s cs = obj_add name (Add_double v) s cs"

definition obj_add_str :: "u8 list \<Rightarrow> u8 list \<Rightarrow> json_struct \<Rightarrow> calls \<Rightarrow> js_result" where
  "obj_add_str name v s cs = obj_add name (Add_str v) s cs"

text \<open>The overload with a pointer and a length has neither the assertion nor the test for a writer.\<close>

definition obj_add_bytes :: "u8 list \<Rightarrow> u8 list \<Rightarrow> json_struct \<Rightarrow> calls \<Rightarrow> js_result" where
  "obj_add_bytes name v s cs = map_option (\<lambda>cs. (s, cs)) (member_calls name (Add_str v) s cs)"

definition obj_add_lex :: "u8 list \<Rightarrow> u8 list \<Rightarrow> json_struct \<Rightarrow> calls \<Rightarrow> js_result" where
  "obj_add_lex name v s cs = obj_add name (Add_str v) s cs"

definition obj_add_item :: "u8 list \<Rightarrow> nat \<Rightarrow> json_struct \<Rightarrow> calls \<Rightarrow> js_result" where
  "obj_add_item name v s cs = obj_add name (Add_str_item v) s cs"

definition obj_add_null :: "u8 list \<Rightarrow> json_struct \<Rightarrow> calls \<Rightarrow> js_result" where
  "obj_add_null name s cs = obj_add name Add_null s cs"

text \<open>The names \<open>table\<close>, \<open>select_id\<close> and the text \<open>fake\<close>.\<close>

definition table_text :: "u8 list" where "table_text = [116, 97, 98, 108, 101]"
definition select_id_text :: "u8 list" where "select_id_text = [115, 101, 108, 101, 99, 116, 95, 105, 100]"
definition fake_text :: "u8 list" where "fake_text = [102, 97, 107, 101]"

definition obj_add_table_name :: "nat \<Rightarrow> json_struct \<Rightarrow> calls \<Rightarrow> js_result" where
  "obj_add_table_name table s cs = obj_add table_text (Add_table_name table) s cs"

text \<open>\<open>FAKE_SELECT_LEX_ID\<close> is \<open>UINT_MAX\<close>.\<close>

definition obj_add_select_number :: "u32 \<Rightarrow> json_struct \<Rightarrow> calls \<Rightarrow> js_result" where
  "obj_add_select_number n s cs =
     obj_add select_id_text (if n = - 1 then Add_str fake_text else Add_ll (ucast n)) s cs"

definition arr_make :: "bool \<Rightarrow> u8 list option \<Rightarrow> calls \<Rightarrow> js_result" where
  "arr_make writer str cs =
     (let s = js_make writer
      in if my_writer s
         then (case (case str of None \<Rightarrow> Some cs | Some n \<Rightarrow> writer_call (my_writer s) (Add_member n) cs) of
                 None \<Rightarrow> None
               | Some cs \<Rightarrow> map_option (\<lambda>cs. (s, cs)) (writer_call (my_writer s) Start_array cs))
         else Some (s, cs))"

definition arr_destroy :: "json_struct \<Rightarrow> calls \<Rightarrow> js_result" where
  "arr_destroy s cs =
     (if my_writer s \<and> \<not> closed s
      then map_option (\<lambda>cs. (s\<lparr>closed := True\<rparr>, cs)) (writer_call (my_writer s) End_array cs)
      else Some (s, cs))"

definition arr_end :: "json_struct \<Rightarrow> calls \<Rightarrow> js_result" where
  "arr_end s cs =
     (if closed s then None
      else map_option (\<lambda>cs. (s\<lparr>closed := True\<rparr>, cs))
             (if my_writer s then writer_call (my_writer s) End_array cs else Some cs))"

definition arr_add :: "json_call \<Rightarrow> json_struct \<Rightarrow> calls \<Rightarrow> js_result" where
  "arr_add c s cs =
     (if closed s then None
      else map_option (\<lambda>cs. (s, cs)) (if my_writer s then helper_call (my_writer s) c cs else Some cs))"

definition arr_add_bool :: "bool \<Rightarrow> json_struct \<Rightarrow> calls \<Rightarrow> js_result" where "arr_add_bool v = arr_add (Add_bool v)"
definition arr_add_ull :: "u64 \<Rightarrow> json_struct \<Rightarrow> calls \<Rightarrow> js_result" where "arr_add_ull v = arr_add (Add_ll v)"
definition arr_add_ll :: "u64 \<Rightarrow> json_struct \<Rightarrow> calls \<Rightarrow> js_result" where "arr_add_ll v = arr_add (Add_ll v)"
definition arr_add_double :: "u64 \<Rightarrow> json_struct \<Rightarrow> calls \<Rightarrow> js_result" where "arr_add_double v = arr_add (Add_double v)"
definition arr_add_str :: "u8 list \<Rightarrow> json_struct \<Rightarrow> calls \<Rightarrow> js_result" where "arr_add_str v = arr_add (Add_str v)"
definition arr_add_bytes :: "u8 list \<Rightarrow> json_struct \<Rightarrow> calls \<Rightarrow> js_result" where "arr_add_bytes v = arr_add (Add_str v)"
definition arr_add_lex :: "u8 list \<Rightarrow> json_struct \<Rightarrow> calls \<Rightarrow> js_result" where "arr_add_lex v = arr_add (Add_str v)"
definition arr_add_item :: "nat \<Rightarrow> json_struct \<Rightarrow> calls \<Rightarrow> js_result" where "arr_add_item v = arr_add (Add_str_item v)"
definition arr_add_null :: "json_struct \<Rightarrow> calls \<Rightarrow> js_result" where "arr_add_null = arr_add Add_null"
definition arr_add_table_name :: "nat \<Rightarrow> json_struct \<Rightarrow> calls \<Rightarrow> js_result" where
  "arr_add_table_name t = arr_add (Add_table_name t)"

text \<open>\<open>Json_writer_nesting_guard\<close> remembers the indentation and compares it in its destructor.\<close>

definition nesting_guard_make :: "int \<Rightarrow> int" where "nesting_guard_make indent_level = indent_level"
definition nesting_guard_destroy :: "int \<Rightarrow> int \<Rightarrow> unit option" where
  "nesting_guard_destroy saved indent_level = guard (saved = indent_level) ()"

subsection \<open>A string with a limit\<close>

record limited_string =
  ls_str :: sql_string
  size_limit :: u64
  truncated_len :: u64

definition limited_make :: "sql_string \<Rightarrow> limited_string" where
  "limited_make str = \<lparr>ls_str = bs_set_length 0 str, size_limit = - 1, truncated_len = 0\<rparr>"

definition limited_length :: "limited_string \<Rightarrow> u64" where
  "limited_length l = ucast (str_length (ls_str l))"

definition set_size_limit :: "u64 \<Rightarrow> limited_string \<Rightarrow> limited_string option" where
  "set_size_limit limit l = guard (limited_length l < limit) (l\<lparr>size_limit := limit\<rparr>)"

text \<open>The answers of the two appends to the string are not looked at.\<close>

definition limited_append :: "(u8 list \<Rightarrow> st_op) \<Rightarrow> u8 list \<Rightarrow> limited_string \<Rightarrow> bmem \<Rightarrow> (limited_string \<times> bmem) option" where
  "limited_append app s l m =
     (let size = of_nat (length s)
      in if limited_length l + size \<le> size_limit l
         then map_option (\<lambda>(_, t, m). (l\<lparr>ls_str := t\<rparr>, m)) (app s (ls_str l) m)
         else if limited_length l < size_limit l
         then (let bytes_to_add = size_limit l - limited_length l
               in map_option
                    (\<lambda>(_, t, m). (l\<lparr>ls_str := t, truncated_len := truncated_len l + (size - bytes_to_add)\<rparr>, m))
                    (app (take (unat bytes_to_add) s) (ls_str l) m))
         else Some (l\<lparr>truncated_len := truncated_len l + size\<rparr>, m))"

definition limited_append_char ::
  "unit sql_string_ext grow \<Rightarrow> u8 \<Rightarrow> limited_string \<Rightarrow> bmem \<Rightarrow> (limited_string \<times> bmem) option" where
  "limited_append_char R c l m =
     (if limited_length l + 1 > size_limit l
      then Some (l\<lparr>truncated_len := truncated_len l + 1\<rparr>, m)
      else map_option (\<lambda>(_, t, m). (l\<lparr>ls_str := t\<rparr>, m)) (append_char R c (ls_str l) m))"

subsection \<open>JSON values and their calls\<close>

datatype jval = Leaf json_call | Obj jmembers | Arr jelems
  and jmembers = No_member | Member "u8 list" jval jmembers
  and jelems = No_elem | Elem jval jelems

fun is_value_call :: "json_call \<Rightarrow> bool" where
  "is_value_call (Add_member n) = False"
| "is_value_call Start_object = False" | "is_value_call End_object = False"
| "is_value_call Start_array = False" | "is_value_call End_array = False"
| "is_value_call _ = True"

primrec jv_ok :: "jval \<Rightarrow> bool" and jm_ok :: "jmembers \<Rightarrow> bool" and je_ok :: "jelems \<Rightarrow> bool" where
  "jv_ok (Leaf c) = is_value_call c"
| "jv_ok (Obj ms) = jm_ok ms"
| "jv_ok (Arr es) = je_ok es"
| "jm_ok No_member = True"
| "jm_ok (Member n v ms) = (jv_ok v \<and> jm_ok ms)"
| "je_ok No_elem = True"
| "je_ok (Elem v es) = (jv_ok v \<and> je_ok es)"

text \<open>The calls that spell a value.\<close>

primrec jv_calls :: "jval \<Rightarrow> calls" and jm_calls :: "jmembers \<Rightarrow> calls" and je_calls :: "jelems \<Rightarrow> calls" where
  "jv_calls (Leaf c) = [c]"
| "jv_calls (Obj ms) = Start_object # jm_calls ms @ [End_object]"
| "jv_calls (Arr es) = Start_array # je_calls es @ [End_array]"
| "jm_calls No_member = []"
| "jm_calls (Member n v ms) = Add_member n # jv_calls v @ jm_calls ms"
| "je_calls No_elem = []"
| "je_calls (Elem v es) = jv_calls v @ je_calls es"

text \<open>
  A block of the client: an object or array declared with a writer and perhaps a name, the members or
  elements added to it, nested blocks with the same writer, and the destructor at the end. \<open>bytes n\<close> says that
  the string of member \<open>n\<close> is added with the overload that takes a pointer and a length.
\<close>

definition add_leaf :: "(u8 list \<Rightarrow> bool) \<Rightarrow> u8 list \<Rightarrow> json_call \<Rightarrow> json_struct \<Rightarrow> calls \<Rightarrow> js_result" where
  "add_leaf bytes n c s cs =
     (case c of Add_str v \<Rightarrow> if bytes n then obj_add_bytes n v s cs else obj_add_str n v s cs | _ \<Rightarrow> obj_add n c s cs)"

fun run_scope :: "(u8 list \<Rightarrow> bool) \<Rightarrow> bool \<Rightarrow> u8 list option \<Rightarrow> jval \<Rightarrow> calls \<Rightarrow> calls option"
  and run_members :: "(u8 list \<Rightarrow> bool) \<Rightarrow> jmembers \<Rightarrow> json_struct \<Rightarrow> calls \<Rightarrow> js_result"
  and run_elems :: "(u8 list \<Rightarrow> bool) \<Rightarrow> jelems \<Rightarrow> json_struct \<Rightarrow> calls \<Rightarrow> js_result" where
  "run_scope bytes w name (Leaf c) cs = None"
| "run_scope bytes w name (Obj ms) cs =
     (case obj_make w name cs of None \<Rightarrow> None
      | Some (s, cs) \<Rightarrow> (case run_members bytes ms s cs of None \<Rightarrow> None
          | Some (s, cs) \<Rightarrow> map_option snd (obj_destroy s cs)))"
| "run_scope bytes w name (Arr es) cs =
     (case arr_make w name cs of None \<Rightarrow> None
      | Some (s, cs) \<Rightarrow> (case run_elems bytes es s cs of None \<Rightarrow> None
          | Some (s, cs) \<Rightarrow> map_option snd (arr_destroy s cs)))"
| "run_members bytes No_member s cs = Some (s, cs)"
| "run_members bytes (Member n (Leaf c) ms) s cs =
     (case add_leaf bytes n c s cs of None \<Rightarrow> None | Some (s, cs) \<Rightarrow> run_members bytes ms s cs)"
| "run_members bytes (Member n v ms) s cs =
     (case run_scope bytes (my_writer s) (Some n) v cs of None \<Rightarrow> None | Some cs \<Rightarrow> run_members bytes ms s cs)"
| "run_elems bytes No_elem s cs = Some (s, cs)"
| "run_elems bytes (Elem (Leaf c) es) s cs = (case arr_add c s cs of None \<Rightarrow> None | Some (s, cs) \<Rightarrow> run_elems bytes es s cs)"
| "run_elems bytes (Elem v es) s cs =
     (case run_scope bytes (my_writer s) None v cs of None \<Rightarrow> None | Some cs \<Rightarrow> run_elems bytes es s cs)"

text \<open>Does a block use this overload anywhere?\<close>

fun is_text :: "jval \<Rightarrow> bool" where
  "is_text (Leaf (Add_str v)) = True"
| "is_text _ = False"

primrec jv_bytes :: "(u8 list \<Rightarrow> bool) \<Rightarrow> jval \<Rightarrow> bool" and jm_bytes :: "(u8 list \<Rightarrow> bool) \<Rightarrow> jmembers \<Rightarrow> bool"
  and je_bytes :: "(u8 list \<Rightarrow> bool) \<Rightarrow> jelems \<Rightarrow> bool" where
  "jv_bytes bytes (Leaf c) = False"
| "jv_bytes bytes (Obj ms) = jm_bytes bytes ms"
| "jv_bytes bytes (Arr es) = je_bytes bytes es"
| "jm_bytes bytes No_member = False"
| "jm_bytes bytes (Member n v ms) = (bytes n \<and> is_text v \<or> jv_bytes bytes v \<or> jm_bytes bytes ms)"
| "je_bytes bytes No_elem = False"
| "je_bytes bytes (Elem v es) = (jv_bytes bytes v \<or> je_bytes bytes es)"

definition name_calls :: "u8 list option \<Rightarrow> calls" where
  "name_calls name = (case name of None \<Rightarrow> [] | Some n \<Rightarrow> [Add_member n])"

lemmas js_defs = obj_make_def obj_destroy_def obj_add_def member_calls_def arr_make_def arr_destroy_def arr_add_def
  helper_call_def writer_call_def js_make_def Let_def

lemma scope_steps:
  "obj_make w name cs = Some (js_make w, cs @ (if w then name_calls name @ [Start_object] else []))"
  "arr_make w name cs = Some (js_make w, cs @ (if w then name_calls name @ [Start_array] else []))"
  "obj_destroy s cs = Some (s\<lparr>closed := True\<rparr>, cs @ (if my_writer s \<and> \<not> closed s then [End_object] else []))"
  "arr_destroy s cs = Some (if my_writer s \<and> \<not> closed s then s\<lparr>closed := True\<rparr> else s,
     cs @ (if my_writer s \<and> \<not> closed s then [End_array] else []))"
  "\<not> closed s \<Longrightarrow> obj_add n c s cs = Some (s, cs @ (if my_writer s then [Add_member n, c] else []))"
  "\<not> closed s \<Longrightarrow> arr_add c s cs = Some (s, cs @ (if my_writer s then [c] else []))"
  by (cases name; simp add: js_defs name_calls_def)+

lemma js_make_fields [simp]: "my_writer (js_make w) = w" "\<not> closed (js_make w)"
  by (simp_all add: js_make_def)

lemma add_leaf_calls:
  "\<not> closed s \<Longrightarrow> add_leaf bytes n c s cs =
     (if my_writer s then Some (s, cs @ [Add_member n, c]) else if bytes n \<and> is_text (Leaf c) then None else Some (s, cs))"
  by (cases c) (simp_all add: add_leaf_def obj_add_bytes_def obj_add_str_def js_defs)

lemma run_scope_calls:
  "(\<forall>d. v \<noteq> Leaf d) \<longrightarrow> run_scope bytes w name v cs =
     (if w then Some (cs @ name_calls name @ jv_calls v) else if jv_bytes bytes v then None else Some cs)"
  "\<not> closed s \<longrightarrow> run_members bytes ms s cs =
     (if my_writer s then Some (s, cs @ jm_calls ms) else if jm_bytes bytes ms then None else Some (s, cs))"
  "\<not> closed s \<longrightarrow> run_elems bytes es s cs =
     (if my_writer s then Some (s, cs @ je_calls es) else if je_bytes bytes es then None else Some (s, cs))"
proof (induction v and ms and es arbitrary: w name cs and s cs and s cs)
  case (Member n v ms)
  then show ?case by (cases v) (simp_all add: scope_steps add_leaf_calls name_calls_def)
next
  case (Elem v es)
  then show ?case by (cases v) (simp_all add: scope_steps name_calls_def)
qed (simp_all add: scope_steps)

text \<open>A sequence of calls spells at most one value.\<close>

lemma first_call:
  "jv_ok v \<Longrightarrow> \<exists>c r. jv_calls v = c # r \<and> (is_value_call c \<or> c = Start_object \<or> c = Start_array)"
  by (cases v) auto

lemma calls_unique:
  "jv_ok v \<Longrightarrow> jv_ok v' \<Longrightarrow> jv_calls v @ r = jv_calls v' @ r' \<Longrightarrow> v = v' \<and> r = r'"
  "jm_ok ms \<Longrightarrow> jm_ok ms' \<Longrightarrow> jm_calls ms @ End_object # q = jm_calls ms' @ End_object # q' \<Longrightarrow> ms = ms' \<and> q = q'"
  "je_ok es \<Longrightarrow> je_ok es' \<Longrightarrow> je_calls es @ End_array # t = je_calls es' @ End_array # t' \<Longrightarrow> es = es' \<and> t = t'"
proof (induction v and ms and es arbitrary: v' r r' and ms' q q' and es' t t')
  case (Leaf c)
  then show ?case by (cases v') auto
next
  case (Obj ms)
  show ?case
  proof (cases v')
    case (Obj ms2)
    then show ?thesis using Obj.prems Obj.IH [of ms2 r r'] by simp
  qed (use Obj.prems in auto)
next
  case (Arr es)
  show ?case
  proof (cases v')
    case (Arr es2)
    then show ?thesis using Arr.prems Arr.IH [of es2 r r'] by simp
  qed (use Arr.prems in auto)
next
  case No_member
  then show ?case by (cases ms') auto
next
  case (Member n v ms)
  show ?case
  proof (cases ms')
    case No_member
    then show ?thesis using Member.prems by auto
  next
    case m: (Member n' v2 ms2)
    then have "n = n'" and e: "jv_calls v @ (jm_calls ms @ End_object # q) = jv_calls v2 @ (jm_calls ms2 @ End_object # q')"
      using Member.prems(3) by simp_all
    moreover have "v = v2 \<and> jm_calls ms @ End_object # q = jm_calls ms2 @ End_object # q'"
      by (rule Member.IH(1)) (use Member.prems m e in simp_all)
    moreover from this have "ms = ms2 \<and> q = q'"
      using Member.IH(2) [of ms2 q q'] Member.prems m by simp
    ultimately show ?thesis using m by simp
  qed
next
  case No_elem
  show ?case
  proof (cases es')
    case (Elem v es)
    then show ?thesis using No_elem first_call [of v] by auto
  qed (use No_elem in auto)
next
  case (Elem v es)
  show ?case
  proof (cases es')
    case No_elem
    then show ?thesis using Elem.prems first_call [of v] by auto
  next
    case m: (Elem v2 es2)
    then have e: "jv_calls v @ (je_calls es @ End_array # t) = jv_calls v2 @ (je_calls es2 @ End_array # t')"
      using Elem.prems(3) by simp
    have "v = v2 \<and> je_calls es @ End_array # t = je_calls es2 @ End_array # t'"
      by (rule Elem.IH(1)) (use Elem.prems m e in simp_all)
    moreover from this have "es = es2 \<and> t = t'"
      using Elem.IH(2) [of es2 t t'] Elem.prems m by simp
    ultimately show ?thesis using m by simp
  qed
qed

subsection \<open>The limited string keeps a prefix\<close>

text \<open>
  \<open>limited_rep l m d\<close>: of the bytes \<open>d\<close> appended so far the string has the first ones up to the limit,
  and the others are counted.
\<close>

definition limited_rep :: "limited_string \<Rightarrow> bmem \<Rightarrow> u8 list \<Rightarrow> bool" where
  "limited_rep l m d \<longleftrightarrow>
     str_ok (ls_str l) m \<and> bs_bytes (ls_str l) m = Some (take (unat (size_limit l)) d) \<and>
     unat (truncated_len l) = length d - unat (size_limit l)"

lemma limited_append_rep:
  assumes R: "realloc_ok R" and l: "limited_rep l m d" and len: "length d + length s < 2 ^ 64"
    and room: "length d + length s + extra_bound (ls_str l) < 2 ^ 32 - 16"
  shows "\<exists>failed l' m'. limited_append (bs_append R) s l m = Some (l', m') \<and> size_limit l' = size_limit l \<and>
    extra_bound (ls_str l') = extra_bound (ls_str l) \<and> (\<not> failed \<longrightarrow> limited_rep l' m' (d @ s)) \<and>
    (failed \<longrightarrow> str_ok (ls_str l') m' \<and> bs_bytes (ls_str l') m' = bs_bytes (ls_str l) m)"
proof -
  let ?L = "unat (size_limit l)" and ?b = "take (unat (size_limit l)) d"
  have ok: "str_ok (ls_str l) m" "bs_bytes (ls_str l) m = Some ?b" "unat (truncated_len l) = length d - ?L"
    using l by (simp_all add: limited_rep_def)
  have lb: "unat (limited_length l) = min ?L (length d)"
    using bs_bytes_length [OF ok(2)] unat_widen [of "str_length (ls_str l)", where 'a = 64] by (simp add: limited_length_def)
  have n: "unat (of_nat (length s) :: u64) = length s" using len by (simp add: unat_of_nat take_bit_nat_eq_self)
  have le: "limited_length l + of_nat (length s) \<le> size_limit l \<longleftrightarrow> min ?L (length d) + length s \<le> ?L"
    using unat_add_bound [of "limited_length l" "length s"] lb len by (simp add: word_le_nat_alt)
  have lt: "limited_length l < size_limit l \<longleftrightarrow> length d < ?L" by (auto simp: word_less_nat_alt lb min_def)
  have app: "\<exists>failed t m'. bs_append R u (ls_str l) m = Some (failed, t, m') \<and> str_ok t m' \<and>
      bs_bytes t m' = Some (if failed then ?b else ?b @ u) \<and> extra_bound t = extra_bound (ls_str l)"
    if "length u \<le> length s" for u
  proof -
    have "unat (str_length (ls_str l)) + length u + extra_bound (ls_str l) < 2 ^ 32 - 16"
      using bs_bytes_length [OF ok(2)] that room by simp
    from append_appends [OF R ok(1,2) this] obtain f t m' where "bs_append R u (ls_str l) m = Some (f, t, m')" "str_ok t m'"
      "bs_bytes t m' = Some (if f then ?b else ?b @ u)" "extra_bound t = extra_bound (ls_str l)" by (elim exE conjE)
    then show ?thesis by (intro exI [of _ f] exI [of _ t] exI [of _ m'] conjI)
  qed
  consider (fits) "length d + length s \<le> ?L" | (part) "length d < ?L" "?L < length d + length s" | (full) "?L \<le> length d" "s \<noteq> []"
    | (none) "?L \<le> length d" "s = []" by fastforce
  then show ?thesis
  proof cases
    case fits
    obtain f t m' where t: "bs_append R s (ls_str l) m = Some (f, t, m')" "str_ok t m'"
      "bs_bytes t m' = Some (if f then ?b else ?b @ s)" "extra_bound t = extra_bound (ls_str l)" using app [OF order_refl] by (elim exE conjE)
    have "limited_append (bs_append R) s l m = Some (l\<lparr>ls_str := t\<rparr>, m')"
      using fits t(1) le by (simp add: limited_append_def)
    then show ?thesis using t ok fits
      by (intro exI [of _ f] exI [of _ "l\<lparr>ls_str := t\<rparr>"] exI [of _ m']) (simp add: limited_rep_def)
  next
    case part
    have sub: "unat (size_limit l - limited_length l) = ?L - length d"
      using unat_sub [of "limited_length l" "size_limit l"] lb part(1) by (simp add: word_le_nat_alt)
    let ?k = "?L - length d"
    have take_le: "length (take ?k s) \<le> length s" by simp
    obtain f t m' where t: "bs_append R (take ?k s) (ls_str l) m = Some (f, t, m')" "str_ok t m'"
      "bs_bytes t m' = Some (if f then ?b else ?b @ take ?k s)" "extra_bound t = extra_bound (ls_str l)" using app [of "take ?k s", OF take_le] by (elim exE conjE)
    let ?r = "of_nat (length s) - (size_limit l - limited_length l)"
    have r: "unat ?r = length s - ?k"
      using unat_sub [of "size_limit l - limited_length l" "of_nat (length s)"] sub n part by (simp add: word_le_nat_alt)
    have "limited_append (bs_append R) s l m = Some (l\<lparr>ls_str := t, truncated_len := truncated_len l + ?r\<rparr>, m')"
      using part t(1) le lt sub by (simp add: limited_append_def Let_def)
    moreover have "unat (truncated_len l + ?r) = length (d @ s) - ?L"
      unfolding unat_word_ariths(1) [of "truncated_len l"] r ok(3) using part len by simp
    ultimately show ?thesis using t ok part
      by (intro exI [of _ f] exI [of _ "l\<lparr>ls_str := t, truncated_len := truncated_len l + ?r\<rparr>"] exI [of _ m'])
        (simp add: limited_rep_def)
  next
    case full
    then have "limited_append (bs_append R) s l m = Some (l\<lparr>truncated_len := truncated_len l + of_nat (length s)\<rparr>, m)"
      using le lt by (cases s) (simp_all add: limited_append_def Let_def)
    moreover have "unat (truncated_len l + of_nat (length s)) = length (d @ s) - ?L"
      using unat_add_bound [of "truncated_len l" "length s"] ok(3) full len by simp
    ultimately show ?thesis using ok full
      by (intro exI [of _ False] exI [of _ "l\<lparr>truncated_len := truncated_len l + of_nat (length s)\<rparr>"] exI [of _ m])
        (simp add: limited_rep_def)
  next
    case none
    then have "limited_append (bs_append R) s l m = Some (l, m)"
      using le by (cases l) (simp add: limited_append_def bs_append_def)
    then show ?thesis using l none by (intro exI [of _ False] exI [of _ l] exI [of _ m]) simp
  qed
qed

subsection \<open>Properties\<close>

text \<open>
  C29. Nested \<open>Json_writer_object\<close> and \<open>Json_writer_array\<close> scopes with a writer call it with exactly
  the calls that spell one JSON value, preceded by its name if there is one, whichever overload adds a
  string, and a sequence of calls spells at most one value. With a null writer a scope runs without a
  call, except that it fails, calling through the null pointer, as soon as a string member is added
  with the overload that takes a pointer and a length. A value closed with \<open>end\<close> is not closed again by
  the destructor.
\<close>

theorem json_scopes_spell_values:
  assumes "\<forall>c. v \<noteq> Leaf c" "jv_ok v"
  shows "run_scope bytes True name v cs = Some (cs @ name_calls name @ jv_calls v) \<and>
    (\<forall>v' r r'. jv_ok v' \<longrightarrow> jv_calls v @ r = jv_calls v' @ r' \<longrightarrow> v = v') \<and>
    run_scope bytes False name v cs = (if jv_bytes bytes v then None else Some cs) \<and>
    (\<forall>s. \<not> closed s \<longrightarrow> Option.bind (obj_end s cs) (\<lambda>(s, cs). obj_destroy s cs) = obj_end s cs \<and>
       Option.bind (arr_end s cs) (\<lambda>(s, cs). arr_destroy s cs) = arr_end s cs)"
proof (intro conjI)
  show "run_scope bytes True name v cs = Some (cs @ name_calls name @ jv_calls v)"
    "run_scope bytes False name v cs = (if jv_bytes bytes v then None else Some cs)"
    using run_scope_calls(1) [of v] assms(1) by simp_all
  show "\<forall>v' r r'. jv_ok v' \<longrightarrow> jv_calls v @ r = jv_calls v' @ r' \<longrightarrow> v = v'"
    using calls_unique(1) assms(2) by blast
  show "\<forall>s. \<not> closed s \<longrightarrow> Option.bind (obj_end s cs) (\<lambda>(s, cs). obj_destroy s cs) = obj_end s cs \<and>
       Option.bind (arr_end s cs) (\<lambda>(s, cs). arr_destroy s cs) = arr_end s cs"
    by (auto simp: obj_end_def arr_end_def js_defs)
qed

lemma json_scopes_spell_values_witness:
  "run_scope (\<lambda>n. n = [98]) True (Some [97]) (Obj (Member [98] (Leaf (Add_str [99])) (Member [100] (Arr (Elem (Leaf (Add_ll 1)) No_elem)) No_member))) [] =
     Some [Add_member [97], Start_object, Add_member [98], Add_str [99], Add_member [100], Start_array, Add_ll 1, End_array, End_object] \<and>
   run_scope (\<lambda>n. n = [98]) False (Some [97]) (Obj (Member [98] (Leaf (Add_str [99])) No_member)) [] = None"
  using json_scopes_spell_values [of "Obj (Member [98] (Leaf (Add_str [99])) (Member [100] (Arr (Elem (Leaf (Add_ll 1)) No_elem)) No_member))" "\<lambda>n. n = [98]" "Some [97]" "[]"]
    json_scopes_spell_values [of "Obj (Member [98] (Leaf (Add_str [99])) No_member)" "\<lambda>n. n = [98]" "Some [97]" "[]"]
  by (simp add: name_calls_def)

text \<open>
  Without a writer an open \<open>Json_writer_object\<close> ignores every \<open>add\<close> except the overload with a
  pointer and a length, which calls through the null pointer; and after \<open>end\<close> that overload still
  writes, where the others fail their assertion.
\<close>

lemma json_object_ignore_mode:
  "(\<not> closed s \<and> \<not> my_writer s \<longrightarrow> obj_add n c s cs = Some (s, cs) \<and> arr_add c s cs = Some (s, cs) \<and>
      obj_add_str n v s cs = Some (s, cs) \<and> obj_add_bytes n v s cs = None) \<and>
   (closed s \<and> my_writer s \<longrightarrow> obj_add n c s cs = None \<and> obj_add_bytes n v s cs = Some (s, cs @ [Add_member n, Add_str v]))"
  by (simp add: obj_add_bytes_def obj_add_str_def js_defs)

lemma json_object_ignore_mode_witness:
  "obj_add_str [97] [98] (js_make False) [] = Some (js_make False, []) \<and> obj_add_bytes [97] [98] (js_make False) [] = None"
  using json_object_ignore_mode [of "js_make False" "[97]" Add_null "[]" "[98]"] by simp

text \<open>An unsigned value from \<open>2^63\<close> on is negative as an array element, and not as an object member.\<close>

lemma json_array_unsigned:
  "arr_add_ull v s cs = arr_add_ll v s cs"
  "\<not> closed s \<Longrightarrow> my_writer s \<Longrightarrow> obj_add_ull n v s cs = Some (s, cs @ [Add_member n, Add_ull v])"
  "\<not> closed s \<Longrightarrow> my_writer s \<Longrightarrow> arr_add_ull (- 1) s cs = Some (s, cs @ [Add_ll (- 1)])" "sint (- 1 :: u64) = - 1"
  by (simp_all add: arr_add_ull_def arr_add_ll_def obj_add_ull_def js_defs)

end
