(* ===== verification/Mysql_Time.thy ===== *)
theory Mysql_Time
  imports Date_Modes "HOL-Library.Signed_Division"
begin

text \<open>
  \<open>MYSQL_TIME\<close> of \<open>mysql_time.h\<close> and the inline functions of \<open>my_time.h\<close> and \<open>sql_time.h\<close> on it.
  \<open>unsigned int\<close> and \<open>unsigned long\<close> members are words of 32 bits. The functions of these headers
  that are defined in other files, and the table \<open>log_10_int\<close>, are the fields of the record
  \<open>time_lib\<close>; \<open>log_10_int_ok\<close> and, in later theories, the predicates about the functions state what
  the headers say of them. The lemmas show that truncation moves a time towards zero to a multiple
  of the unit and that the rough check of a timestamp is exact for calendar dates.
\<close>

subsection \<open>Times\<close>

datatype timestamp_type = TS_NONE | TS_ERROR | TS_DATE | TS_DATETIME | TS_TIME

fun ts_code :: "timestamp_type \<Rightarrow> int" where
  "ts_code TS_NONE = - 2"
| "ts_code TS_ERROR = - 1"
| "ts_code TS_DATE = 0"
| "ts_code TS_DATETIME = 1"
| "ts_code TS_TIME = 2"

text \<open>The enumerators in the order of their values, as the comparisons of the code read them.\<close>

instantiation timestamp_type :: linorder
begin

definition less_eq_timestamp_type :: "timestamp_type \<Rightarrow> timestamp_type \<Rightarrow> bool" where
  "a \<le> b \<longleftrightarrow> ts_code a \<le> ts_code b"

definition less_timestamp_type :: "timestamp_type \<Rightarrow> timestamp_type \<Rightarrow> bool" where
  "a < b \<longleftrightarrow> ts_code a < ts_code b"

instance
proof
  fix a b :: timestamp_type
  show "a \<le> b \<Longrightarrow> b \<le> a \<Longrightarrow> a = b"
    by (cases a; cases b) (simp_all add: less_eq_timestamp_type_def)
qed (auto simp: less_eq_timestamp_type_def less_timestamp_type_def)

end

record mysql_time =
  mt_year :: u32
  mt_month :: u32
  mt_day :: u32
  mt_hour :: u32
  mt_minute :: u32
  mt_second :: u32
  mt_second_part :: u32
  mt_neg :: bool
  mt_type :: timestamp_type

definition zero_time :: "timestamp_type \<Rightarrow> mysql_time" where
  "zero_time k = \<lparr>mt_year = 0, mt_month = 0, mt_day = 0, mt_hour = 0, mt_minute = 0, mt_second = 0,
     mt_second_part = 0, mt_neg = False, mt_type = k\<rparr>"

definition TIMESTAMP_MAX_YEAR :: u32 where "TIMESTAMP_MAX_YEAR = 2038"
definition YY_PART_YEAR :: u32 where "YY_PART_YEAR = 70"
definition TIMESTAMP_MIN_YEAR :: u32 where "TIMESTAMP_MIN_YEAR = 1900 + YY_PART_YEAR - 1"

definition WARN_TRUNCATED :: u32 where "WARN_TRUNCATED = 1"
definition WARN_OUT_OF_RANGE :: u32 where "WARN_OUT_OF_RANGE = 2"
definition WARN_EDOM :: u32 where "WARN_EDOM = 4"
definition WARN_ZERO_DATE :: u32 where "WARN_ZERO_DATE = 8"
definition NOTE_TRUNCATED :: u32 where "NOTE_TRUNCATED = 16"

definition WARN_WARNINGS :: u32 where
  "WARN_WARNINGS = WARN_TRUNCATED OR WARN_OUT_OF_RANGE OR WARN_EDOM OR WARN_ZERO_DATE"

definition WARN_NOTES :: u32 where "WARN_NOTES = NOTE_TRUNCATED"

definition have_warnings :: "u32 \<Rightarrow> bool" where "have_warnings x \<longleftrightarrow> x AND WARN_WARNINGS \<noteq> 0"
definition have_notes :: "u32 \<Rightarrow> bool" where "have_notes x \<longleftrightarrow> x AND WARN_NOTES \<noteq> 0"

definition SECONDS_IN_24H :: nat where "SECONDS_IN_24H = 86400"
definition TIME_MAX_INTERVAL_HOUR :: u32 where "TIME_MAX_INTERVAL_HOUR = 87649415"
definition TIME_MAX_INTERVAL_DAY :: u32 where "TIME_MAX_INTERVAL_DAY = 3652058"
definition TIME_MAX_INTERVAL_DAY_CHAR_LENGTH :: u32 where "TIME_MAX_INTERVAL_DAY_CHAR_LENGTH = 7"
definition TIME_MAX_HOUR :: u32 where "TIME_MAX_HOUR = 838"
definition TIME_MAX_MINUTE :: u32 where "TIME_MAX_MINUTE = 59"
definition TIME_MAX_SECOND :: u32 where "TIME_MAX_SECOND = 59"
definition TIME_MAX_SECOND_PART :: u32 where "TIME_MAX_SECOND_PART = 999999"
definition TIME_SECOND_PART_DIGITS :: u32 where "TIME_SECOND_PART_DIGITS = 6"

definition TIME_MAX_VALUE_SECONDS :: u32 where
  "TIME_MAX_VALUE_SECONDS = TIME_MAX_HOUR * 3600 + TIME_MAX_MINUTE * 60 + TIME_MAX_SECOND"

lemmas time_limits = TIME_MAX_HOUR_def TIME_MAX_MINUTE_def TIME_MAX_SECOND_def TIME_MAX_SECOND_PART_def
  TIME_SECOND_PART_DIGITS_def TIME_MAX_VALUE_SECONDS_def TIME_MAX_INTERVAL_HOUR_def TIME_MAX_INTERVAL_DAY_def

record time_status =
  st_warnings :: u32
  st_precision :: u32
  st_nanoseconds :: u32

definition my_time_status_init :: time_status where
  "my_time_status_init = \<lparr>st_warnings = 0, st_precision = 0, st_nanoseconds = 0\<rparr>"

definition validate_timestamp_range :: "mysql_time \<Rightarrow> bool" where
  "validate_timestamp_range t \<longleftrightarrow>
     \<not> ((mt_year t > TIMESTAMP_MAX_YEAR \<or> mt_year t < TIMESTAMP_MIN_YEAR) \<or>
        (mt_year t = TIMESTAMP_MAX_YEAR \<and> (mt_month t > 1 \<or> mt_day t > 19)) \<or>
        (mt_year t = TIMESTAMP_MIN_YEAR \<and> (mt_month t < 12 \<or> mt_day t < 31)))"

subsection \<open>Fractions\<close>

text \<open>
  The table \<open>log_10_int\<close> is a parameter. Division and remainder of \<open>long\<close> and \<open>longlong\<close> values
  truncate; by zero, and of the least value by -1, they are undefined.
\<close>

definition log_10_entry :: "u64 list \<Rightarrow> u32 \<Rightarrow> u64 option" where
  "log_10_entry tab i = guard (unat i < length tab) (tab ! unat i)"

definition signed_rem :: "'a::len word \<Rightarrow> 'a word \<Rightarrow> 'a word option" where
  "signed_rem a b = guard (b \<noteq> 0 \<and> \<not> (sint a = - (2 ^ (LENGTH('a) - 1)) \<and> b = - 1)) (word_of_int (sint a smod sint b))"

definition signed_div :: "'a::len word \<Rightarrow> 'a word \<Rightarrow> 'a word option" where
  "signed_div a b = guard (b \<noteq> 0 \<and> \<not> (sint a = - (2 ^ (LENGTH('a) - 1)) \<and> b = - 1)) (word_of_int (sint a sdiv sint b))"

definition sec_part_shift :: "u64 list \<Rightarrow> u64 \<Rightarrow> u32 \<Rightarrow> u64 option" where
  "sec_part_shift tab second_part digits =
     Option.bind (log_10_entry tab (TIME_SECOND_PART_DIGITS - digits)) (signed_div second_part)"

definition sec_part_unshift :: "u64 list \<Rightarrow> u64 \<Rightarrow> u32 \<Rightarrow> u64 option" where
  "sec_part_unshift tab second_part digits =
     Option.bind (log_10_entry tab (TIME_SECOND_PART_DIGITS - digits))
       (\<lambda>f. guard (sint second_part * sint f \<in> {- (2 ^ 63) ..< 2 ^ 63}) (second_part * f))"

definition my_time_fraction_remainder :: "u64 list \<Rightarrow> u32 \<Rightarrow> u32 \<Rightarrow> u32 option" where
  "my_time_fraction_remainder tab nr decimals =
     (if decimals \<le> TIME_SECOND_PART_DIGITS
      then Option.bind (log_10_entry tab (TIME_SECOND_PART_DIGITS - decimals)) (\<lambda>f. signed_rem nr (ucast f))
      else None)"

definition my_datetime_trunc :: "u64 list \<Rightarrow> mysql_time \<Rightarrow> u32 \<Rightarrow> mysql_time option" where
  "my_datetime_trunc tab t decimals =
     map_option (\<lambda>r. t\<lparr>mt_second_part := mt_second_part t - r\<rparr>)
       (my_time_fraction_remainder tab (mt_second_part t) decimals)"

definition my_time_trunc :: "u64 list \<Rightarrow> mysql_time \<Rightarrow> u32 \<Rightarrow> mysql_time option" where
  "my_time_trunc tab t decimals =
     map_option (\<lambda>r. let t = t\<lparr>mt_second_part := mt_second_part t - r\<rparr> in
         if mt_second_part t = 0 \<and> mt_neg t \<and> mt_hour t = 0 \<and> mt_minute t = 0 \<and> mt_second t = 0
         then t\<lparr>mt_neg := False\<rparr> else t)
       (my_time_fraction_remainder tab (mt_second_part t) decimals)"

record timeval =
  tv_sec :: u32
  tv_usec :: u32

definition my_timeval_trunc :: "u64 list \<Rightarrow> timeval \<Rightarrow> u32 \<Rightarrow> timeval option" where
  "my_timeval_trunc tab tv decimals =
     map_option (\<lambda>r. tv\<lparr>tv_usec := tv_usec tv - r\<rparr>) (my_time_fraction_remainder tab (tv_usec tv) decimals)"

subsection \<open>Dates\<close>

definition datetime_to_date :: "mysql_time \<Rightarrow> mysql_time option" where
  "datetime_to_date t =
     guard ((mt_type t = TS_DATE \<or> mt_type t = TS_DATETIME) \<and> \<not> mt_neg t)
       (t\<lparr>mt_hour := 0, mt_minute := 0, mt_second := 0, mt_second_part := 0, mt_type := TS_DATE\<rparr>)"

definition date_to_datetime :: "mysql_time \<Rightarrow> mysql_time option" where
  "date_to_datetime t =
     guard ((mt_type t = TS_DATE \<or> mt_type t = TS_DATETIME) \<and> \<not> mt_neg t) (t\<lparr>mt_type := TS_DATETIME\<rparr>)"

definition non_zero_hhmmssuu :: "mysql_time \<Rightarrow> bool" where
  "non_zero_hhmmssuu t \<longleftrightarrow> mt_hour t \<noteq> 0 \<or> mt_minute t \<noteq> 0 \<or> mt_second t \<noteq> 0 \<or> mt_second_part t \<noteq> 0"

definition non_zero_YYMMDD :: "mysql_time \<Rightarrow> bool" where
  "non_zero_YYMMDD t \<longleftrightarrow> mt_year t \<noteq> 0 \<or> mt_month t \<noteq> 0 \<or> mt_day t \<noteq> 0"

definition non_zero_date :: "mysql_time \<Rightarrow> bool" where
  "non_zero_date t \<longleftrightarrow> non_zero_YYMMDD t \<or> (mt_type t = TS_DATETIME \<and> non_zero_hhmmssuu t)"

subsection \<open>Functions of other files\<close>

text \<open>
  Results of a function that writes through its pointer arguments are tuples: the return value,
  then what the pointers hold afterwards. Error counts and bit masks of type \<open>int\<close> are words.
\<close>

record time_lib =
  log_10_int :: "u64 list"
  set_zero_time :: "timestamp_type \<Rightarrow> mysql_time"
  lib_check_date :: "mysql_time \<Rightarrow> bool \<Rightarrow> u64 \<Rightarrow> u32 \<Rightarrow> bool \<times> u32"
  check_time_range :: "mysql_time \<Rightarrow> u32 \<Rightarrow> u32 \<Rightarrow> bool \<times> mysql_time \<times> u32"
  check_datetime_range :: "mysql_time \<Rightarrow> bool"
  number_to_time_only :: "bool \<Rightarrow> u64 \<Rightarrow> u32 \<Rightarrow> u32 \<Rightarrow> mysql_time \<Rightarrow> u32 \<Rightarrow> int \<times> mysql_time \<times> u32"
  number_to_datetime_or_date :: "u64 \<Rightarrow> u32 \<Rightarrow> mysql_time \<Rightarrow> u64 \<Rightarrow> u32 \<Rightarrow> int \<times> mysql_time \<times> u32"
  calc_time_diff :: "mysql_time \<Rightarrow> mysql_time \<Rightarrow> int \<Rightarrow> bool \<times> u64 \<times> u32"
  calc_time_from_sec :: "mysql_time \<Rightarrow> u32 \<Rightarrow> u32 \<Rightarrow> mysql_time"
  get_date_from_daynr :: "u32 \<Rightarrow> bool \<times> u32 \<times> u32 \<times> u32"
  adjust_time_range_with_warn :: "mysql_time \<Rightarrow> u32 \<Rightarrow> bool \<times> mysql_time"
  calc_daynr :: "u32 \<Rightarrow> u32 \<Rightarrow> u32 \<Rightarrow> u32"
  calc_weekday :: "u32 \<Rightarrow> bool \<Rightarrow> int"
  calc_week :: "mysql_time \<Rightarrow> u32 \<Rightarrow> u32 \<times> u32"
  pack_time :: "mysql_time \<Rightarrow> u64"
  TIME_to_ulonglong :: "mysql_time \<Rightarrow> u64"
  TIME_to_ulonglong_date :: "mysql_time \<Rightarrow> u64"
  TIME_to_ulonglong_time :: "mysql_time \<Rightarrow> u64"
  TIME_to_ulonglong_datetime :: "mysql_time \<Rightarrow> u64"

definition check_date :: "time_lib \<Rightarrow> mysql_time \<Rightarrow> date_conv_mode_t \<Rightarrow> u32 \<Rightarrow> bool \<times> u32" where
  "check_date L t flags was_cut =
     lib_check_date L t (non_zero_date t) (conv_bits (conv_and flags TIME_MODE_FOR_XXX_TO_DATE)) was_cut"

definition log_10_int_ok :: "u64 list \<Rightarrow> bool" where
  "log_10_int_ok tab \<longleftrightarrow> length tab = 20 \<and> (\<forall>i < 20. tab ! i = 10 ^ i)"

subsection \<open>Truncation\<close>

lemma signed_rem_nonneg:
  fixes a b :: "'a::len word"
  assumes "0 \<le> sint a" "0 < sint b"
  shows "signed_rem a b = Some (of_nat (nat (sint a) mod nat (sint b)))"
proof -
  have b: "b \<noteq> 0" "b \<noteq> - 1" using assms(2) by (auto simp: sint_n1)
  obtain m n where s: "sint a = int m" "sint b = int n"
    using assms by (metis nonneg_int_cases less_imp_le)
  have "int m smod int n = int (m mod n)"
    by (cases m) (simp_all add: smod_int_alt_def zmod_int)
  then have r: "word_of_int (sint a smod sint b) = (of_nat (nat (sint a) mod nat (sint b)) :: 'a word)"
    unfolding s by (simp only: of_int_of_nat_eq nat_int)
  have c: "b \<noteq> 0 \<and> \<not> (sint a = - (2 ^ (LENGTH('a) - 1)) \<and> b = - 1)" using b by blast
  show ?thesis unfolding signed_rem_def r guard_def using c by (rule if_P)
qed

lemma sint_small: "unat (w :: 'a::len word) < 2 ^ (LENGTH('a) - 1) \<Longrightarrow> sint w = int (unat w)"
proof -
  assume a: "unat w < 2 ^ (LENGTH('a) - 1)"
  then have "uint w < 2 ^ (LENGTH('a) - 1)"
    unfolding uint_nat by (metis of_nat_less_iff of_nat_numeral of_nat_power)
  then show ?thesis unfolding sint_by_range uint_nat by (simp only: if_True)
qed

text \<open>The unit of a precision: \<open>10 ^ (6 - decimals)\<close> microseconds.\<close>

definition frac_unit :: "u32 \<Rightarrow> nat" where
  "frac_unit decimals = 10 ^ (6 - unat decimals)"

lemma frac_unit_pos [simp]: "0 < frac_unit d" "frac_unit d \<noteq> 0"
  by (simp_all add: frac_unit_def)

lemma frac_unit_bound: "frac_unit d \<le> 1000000"
proof -
  have "(10::nat) ^ (6 - unat d) \<le> 10 ^ 6" by (intro power_increasing) simp_all
  then show ?thesis by (simp add: frac_unit_def)
qed

lemma log_10_entry_ok:
  assumes "log_10_int_ok tab" "d \<le> 6"
  shows "log_10_entry tab (6 - d) = Some (of_nat (frac_unit d))"
proof -
  have "unat (6 - d) = 6 - unat d" using assms(2) by (simp add: unat_sub)
  moreover have "tab ! (6 - unat d) = of_nat (frac_unit d)" "length tab = 20"
    using assms(1) by (simp_all add: log_10_int_ok_def frac_unit_def)
  ultimately show ?thesis by (simp add: log_10_entry_def)
qed

lemma unat_frac_unit:
  "unat (of_nat (frac_unit d) :: u32) = frac_unit d" "unat (of_nat (frac_unit d) :: u64) = frac_unit d"
  using frac_unit_bound [of d] by (simp_all add: unat_of_nat take_bit_nat_eq_self)

lemma fraction_remainder:
  assumes "log_10_int_ok tab" "d \<le> 6" "unat nr < 2 ^ 31"
  shows "my_time_fraction_remainder tab nr d = Some (of_nat (unat nr mod frac_unit d))"
proof -
  have u: "(ucast (of_nat (frac_unit d) :: u64) :: u32) = of_nat (frac_unit d)"
    by (simp add: word_unat_eq_iff unsigned_ucast_eq unat_frac_unit take_bit_nat_eq_self
        le_less_trans [OF frac_unit_bound])
  have s: "sint (of_nat (frac_unit d) :: u32) = int (frac_unit d)"
    using frac_unit_bound [of d] by (subst sint_small) (simp_all add: unat_frac_unit)
  have "signed_rem nr (of_nat (frac_unit d)) = Some (of_nat (unat nr mod frac_unit d))"
    using assms(3) by (subst signed_rem_nonneg) (simp_all add: s sint_small)
  then show ?thesis
    using assms(2) by (simp add: my_time_fraction_remainder_def TIME_SECOND_PART_DIGITS_def log_10_entry_ok [OF assms(1,2)] u)
qed

text \<open>What is left of a fraction: the greatest multiple of the unit that is not above it.\<close>

lemma trunc_word:
  assumes "0 < u"
  shows "unat (w - of_nat (unat w mod u) :: 'a::len word) = unat w - unat w mod u"
proof -
  have le: "unat w mod u \<le> unat w" by simp
  then have "unat (of_nat (unat w mod u) :: 'a word) = unat w mod u"
    using le_less_trans [OF le unat_bound] by (simp add: unat_of_nat take_bit_nat_eq_self)
  with le show ?thesis by (simp add: unat_sub word_le_nat_alt)
qed

lemma trunc_multiple: "(n - n mod u) mod u = 0" "n - n mod u \<le> n" "0 < u \<Longrightarrow> n < n - n mod u + u" for n u :: nat
proof -
  show "(n - n mod u) mod u = 0" by (metis minus_mod_eq_mult_div mod_mult_self1_is_0)
  show "n - n mod u \<le> n" by simp
  show "0 < u \<Longrightarrow> n < n - n mod u + u" by (metis le_add_diff_inverse2 mod_less_divisor mod_less_eq_dividend nat_add_left_cancel_less)
qed

definition trunc_part :: "mysql_time \<Rightarrow> u32 \<Rightarrow> mysql_time" where
  "trunc_part t d = t\<lparr>mt_second_part := of_nat (unat (mt_second_part t) - unat (mt_second_part t) mod frac_unit d)\<rparr>"

lemma my_datetime_trunc_ok:
  assumes "log_10_int_ok tab" "d \<le> 6" "unat (mt_second_part t) < 2 ^ 31"
  shows "my_datetime_trunc tab t d = Some (trunc_part t d)"
proof -
  have "mt_second_part t - of_nat (unat (mt_second_part t) mod frac_unit d) =
      of_nat (unat (mt_second_part t) - unat (mt_second_part t) mod frac_unit d)"
    by (simp add: of_nat_diff)
  then show ?thesis by (simp add: my_datetime_trunc_def fraction_remainder [OF assms] trunc_part_def)
qed

lemma trunc_part_fraction:
  "unat (mt_second_part (trunc_part t d)) = unat (mt_second_part t) - unat (mt_second_part t) mod frac_unit d"
  by (simp add: trunc_part_def of_nat_diff trunc_word)

definition positive_zero :: "mysql_time \<Rightarrow> mysql_time" where
  "positive_zero t = (if non_zero_hhmmssuu t then t else t\<lparr>mt_neg := False\<rparr>)"

lemma positive_zero_simps [simp]:
  "mt_second_part (positive_zero t) = mt_second_part t" "positive_zero (positive_zero t) = positive_zero t"
  by (simp_all add: positive_zero_def non_zero_hhmmssuu_def)

lemma my_time_trunc_ok:
  assumes "log_10_int_ok tab" "d \<le> 6" "unat (mt_second_part t) < 2 ^ 31"
  shows "my_time_trunc tab t d = Some (positive_zero (trunc_part t d))"
proof -
  have "map_option positive_zero (my_datetime_trunc tab t d) = my_time_trunc tab t d"
    by (auto simp: my_datetime_trunc_def my_time_trunc_def positive_zero_def non_zero_hhmmssuu_def Let_def
        option.map_comp o_def fun_eq_iff intro!: option.map_cong)
  then show ?thesis by (simp add: my_datetime_trunc_ok [OF assms] flip: \<open>_ = my_time_trunc tab t d\<close>)
qed

lemma my_timeval_trunc_ok:
  assumes "log_10_int_ok tab" "d \<le> 6" "unat (tv_usec tv) < 2 ^ 31"
  shows "\<exists>tv'. my_timeval_trunc tab tv d = Some tv' \<and> tv_sec tv' = tv_sec tv \<and>
    unat (tv_usec tv') = unat (tv_usec tv) - unat (tv_usec tv) mod frac_unit d"
  by (simp add: my_timeval_trunc_def fraction_remainder [OF assms] trunc_word)

text \<open>The microseconds of a time, and its value with the sign.\<close>

definition time_usec :: "mysql_time \<Rightarrow> nat" where
  "time_usec t = ((unat (mt_hour t) * 60 + unat (mt_minute t)) * 60 + unat (mt_second t)) * 1000000 + unat (mt_second_part t)"

definition time_value :: "mysql_time \<Rightarrow> int" where
  "time_value t = (if mt_neg t then - int (time_usec t) else int (time_usec t))"

lemma frac_unit_dvd: "frac_unit d dvd 1000000"
proof -
  have "(10::nat) ^ (6 - unat d) dvd 10 ^ 6" by (rule le_imp_power_dvd) simp
  then show ?thesis by (simp add: frac_unit_def)
qed

lemma frac_unit_dvd_mono:
  assumes "d \<le> e"
  shows "frac_unit e dvd frac_unit d"
proof -
  have "6 - unat e \<le> 6 - unat d" using assms by (simp add: word_le_nat_alt)
  then show ?thesis unfolding frac_unit_def by (rule le_imp_power_dvd)
qed

lemma time_usec_mod: "time_usec t mod frac_unit d = unat (mt_second_part t) mod frac_unit d"
proof -
  obtain k where k: "(1000000::nat) = frac_unit d * k" using frac_unit_dvd [of d] ..
  show ?thesis unfolding time_usec_def k by (simp add: mult.left_commute mod_mult_self4)
qed

lemma time_usec_trunc: "time_usec (trunc_part t d) = time_usec t - time_usec t mod frac_unit d"
proof -
  let ?sp = "unat (mt_second_part t)"
  have le: "?sp mod frac_unit d \<le> ?sp" by simp
  have h: "mt_hour (trunc_part t d) = mt_hour t" "mt_minute (trunc_part t d) = mt_minute t"
    "mt_second (trunc_part t d) = mt_second t" by (simp_all add: trunc_part_def)
  show ?thesis
    unfolding time_usec_mod unfolding time_usec_def trunc_part_fraction h using le by linarith
qed

lemma time_usec_zero: "time_usec t = 0 \<longleftrightarrow> \<not> non_zero_hhmmssuu t"
  by (auto simp: time_usec_def non_zero_hhmmssuu_def unat_eq_zero)

lemma time_usec_positive_zero [simp]: "time_usec (positive_zero t) = time_usec t"
  by (simp add: positive_zero_def time_usec_def)

text \<open>Truncating twice is truncating to the coarser precision.\<close>

lemma trunc_trunc:
  fixes n u v :: nat
  assumes "v dvd u" "0 < v"
  shows "(n - n mod v) - (n - n mod v) mod u = n - n mod u"
proof -
  obtain k where k: "u = v * k" using assms(1) ..
  have "n mod (v * k) = v * (n div v mod k) + n mod v" by (rule mod_mult2_eq)
  moreover have "(n - n mod v) mod (v * k) = v * (n div v mod k)"
    by (metis minus_mod_eq_mult_div mult_mod_right)
  moreover have "n mod u \<le> n" by simp
  ultimately show ?thesis unfolding k by linarith
qed

lemma trunc_part_neg: "trunc_part (t\<lparr>mt_neg := b\<rparr>) d = (trunc_part t d)\<lparr>mt_neg := b\<rparr>"
  by (cases t) (simp add: trunc_part_def)

lemma trunc_part_twice:
  assumes "e \<le> d"
  shows "trunc_part (trunc_part t d) e = trunc_part t e"
  using trunc_trunc [OF frac_unit_dvd_mono [OF assms] frac_unit_pos(1), of "unat (mt_second_part t)"]
  by (simp add: trunc_part_def [of _ e] trunc_part_fraction) (simp add: trunc_part_def)

lemma positive_zero_trunc:
  assumes "e \<le> d"
  shows "positive_zero (trunc_part (positive_zero (trunc_part t d)) e) = positive_zero (trunc_part t e)"
proof (cases "non_zero_hhmmssuu (trunc_part t d)")
  case True
  then show ?thesis by (simp add: positive_zero_def [of "trunc_part t d"] trunc_part_twice [OF assms])
next
  case False
  then have z: "time_usec (trunc_part t d) = 0" by (simp add: time_usec_zero)
  have "time_usec (trunc_part t e) = 0"
    using time_usec_trunc [of "trunc_part t d" e] by (simp add: trunc_part_twice [OF assms] z)
  then have n: "\<not> non_zero_hhmmssuu (trunc_part t e)" by (simp add: time_usec_zero)
  have "trunc_part (positive_zero (trunc_part t d)) e = (trunc_part t e)\<lparr>mt_neg := False\<rparr>"
    using False by (simp add: positive_zero_def trunc_part_neg trunc_part_twice [OF assms])
  then show ?thesis using n by (simp add: positive_zero_def non_zero_hhmmssuu_def)
qed

text \<open>Shifting a fraction to a precision and back.\<close>

lemma sec_part_shift_unshift:
  assumes "log_10_int_ok tab" "d \<le> 6" "0 \<le> sint v" "sint v < 10 ^ unat d"
  shows "\<exists>w. sec_part_unshift tab v d = Some w \<and> sec_part_shift tab w d = Some v \<and> 0 \<le> sint w \<and> sint w < 1000000"
proof -
  let ?u = "of_nat (frac_unit d) :: u64"
  have d: "unat d \<le> 6" using assms(2) by (simp add: word_le_nat_alt)
  have u: "sint ?u = int (frac_unit d)"
    using frac_unit_bound [of d] by (subst sint_small) (simp_all add: unat_frac_unit)
  have "(10::int) ^ unat d * int (frac_unit d) = 10 ^ (unat d + (6 - unat d))"
    by (simp add: frac_unit_def power_add)
  then have tot: "(10::int) ^ unat d * int (frac_unit d) = 1000000" using d by simp
  have "sint v * int (frac_unit d) < 10 ^ unat d * int (frac_unit d)"
    using assms(4) by (intro mult_strict_right_mono) simp_all
  then have lt: "sint v * int (frac_unit d) < 1000000" using tot by simp
  have ge: "0 \<le> sint v * int (frac_unit d)" using assms(3) by simp
  have "sint (v * ?u) = signed_take_bit 63 (sint v * sint ?u)"
    by (simp add: sint_word_ariths)
  then have w: "sint (v * ?u) = sint v * int (frac_unit d)"
    using lt ge unfolding u by (simp add: signed_take_bit_int_eq_self)
  have "(sint v * int (frac_unit d)) sdiv int (frac_unit d) = sint v"
    using assms(3) by (cases "sint v = 0") (simp_all add: signed_divide_int_def sgn_mult abs_mult)
  then have shifted: "signed_div (v * ?u) ?u = Some v"
    using lt ge u by (auto simp: signed_div_def w)
  have "sec_part_unshift tab v d = Some (v * ?u)"
    using lt ge log_10_entry_ok [OF assms(1,2)] by (simp add: sec_part_unshift_def TIME_SECOND_PART_DIGITS_def u)
  moreover have "sec_part_shift tab (v * ?u) d = Some v"
    using log_10_entry_ok [OF assms(1,2)] shifted by (simp add: sec_part_shift_def TIME_SECOND_PART_DIGITS_def)
  ultimately show ?thesis using w lt ge by simp
qed

subsection \<open>Properties\<close>

text \<open>
  Truncation to \<open>d\<close> decimals of a time whose fraction is a \<open>long\<close> rounds its microseconds down to
  a multiple of the unit \<open>10 ^ (6 - d)\<close> and changes nothing else, except that \<open>my_time_trunc\<close> drops the
  sign of a zero (\<open>my_datetime_trunc\<close> keeps it). The signed value moves towards zero by less than a unit,
  and truncating again to \<open>e \<le> d\<close> decimals is truncating to \<open>e\<close> at once.
\<close>

lemma time_truncation:
  assumes "log_10_int_ok tab" "d \<le> 6" "unat (mt_second_part t) < 2 ^ 31"
  shows "\<exists>t1 t2. my_time_trunc tab t d = Some t1 \<and> my_datetime_trunc tab t d = Some t2 \<and>
    time_usec t1 = time_usec t - time_usec t mod frac_unit d \<and> time_usec t2 = time_usec t1 \<and>
    \<bar>time_value t\<bar> - int (frac_unit d) < \<bar>time_value t1\<bar> \<and> \<bar>time_value t1\<bar> \<le> \<bar>time_value t\<bar> \<and>
    (mt_neg t1 \<longleftrightarrow> mt_neg t \<and> time_usec t1 \<noteq> 0) \<and> (mt_neg t2 \<longleftrightarrow> mt_neg t) \<and>
    t1\<lparr>mt_second_part := mt_second_part t, mt_neg := mt_neg t\<rparr> = t \<and>
    (\<forall>e \<le> d. my_time_trunc tab t1 e = my_time_trunc tab t e)"
proof -
  let ?t = "trunc_part t d"
  have neg: "mt_neg (positive_zero ?t) \<longleftrightarrow> mt_neg t \<and> time_usec ?t \<noteq> 0"
    by (simp add: positive_zero_def time_usec_zero trunc_part_def)
  have rest: "(positive_zero ?t)\<lparr>mt_second_part := mt_second_part t, mt_neg := mt_neg t\<rparr> = t"
    by (cases t) (simp add: positive_zero_def trunc_part_def)
  have small: "unat (mt_second_part (positive_zero ?t)) < 2 ^ 31"
    using assms(3) unfolding positive_zero_simps trunc_part_fraction by linarith
  have again: "my_time_trunc tab (positive_zero ?t) e = my_time_trunc tab t e" if "e \<le> d" for e
    using that assms(2) by (simp add: my_time_trunc_ok [OF assms(1) _ small] my_time_trunc_ok [OF assms(1) _ assms(3)]
        positive_zero_trunc)
  have abs: "\<bar>time_value s\<bar> = int (time_usec s)" for s by (simp add: time_value_def)
  have tn: "mt_neg ?t = mt_neg t" by (simp add: trunc_part_def)
  note low = trunc_multiple(2,3) [where n = "time_usec t" and u = "frac_unit d"]
  have near: "\<bar>time_value t\<bar> - int (frac_unit d) < \<bar>time_value (positive_zero ?t)\<bar>"
    "\<bar>time_value (positive_zero ?t)\<bar> \<le> \<bar>time_value t\<bar>"
    using low(1) low(2) [OF frac_unit_pos(1)] unfolding abs time_usec_positive_zero time_usec_trunc by linarith+
  show ?thesis
    by (rule exI [of _ "positive_zero ?t"], rule exI [of _ ?t], intro conjI allI impI)
      (simp_all only: my_time_trunc_ok [OF assms] my_datetime_trunc_ok [OF assms] neg rest again tn near
        time_usec_positive_zero time_usec_trunc)
qed

definition powers_of_ten :: "u64 list" where
  "powers_of_ten = map (\<lambda>i. 10 ^ i) [0..<20]"

lemma powers_of_ten_ok [simp]: "log_10_int_ok powers_of_ten"
  by (simp add: log_10_int_ok_def powers_of_ten_def)

lemma time_truncation_witness:
  "\<exists>t1. my_time_trunc powers_of_ten ((zero_time TS_TIME)\<lparr>mt_second_part := 987654, mt_neg := True\<rparr>) 2 = Some t1 \<and>
    time_usec t1 = 980000 \<and> mt_neg t1"
  using time_truncation [of powers_of_ten 2 "(zero_time TS_TIME)\<lparr>mt_second_part := 987654, mt_neg := True\<rparr>"]
  by (auto simp: zero_time_def time_usec_def frac_unit_def)

text \<open>
  \<open>validate_timestamp_range\<close>, described as a rough estimate, is exact for calendar dates: with a
  month from 1 to 12 and a day up to 31 it accepts a date if and only if the date is not before
  1969-12-31 and not after 2038-01-19 in the order of the calendar.
\<close>

lemma timestamp_range_exact:
  assumes "1 \<le> mt_month t" "mt_month t \<le> 12" "mt_day t \<le> 31"
  shows "validate_timestamp_range t \<longleftrightarrow>
    (let date = \<lambda>t. (unat (mt_year t) * 12 + unat (mt_month t)) * 32 + unat (mt_day t) in
     (1969 * 12 + 12) * 32 + 31 \<le> date t \<and> date t \<le> (2038 * 12 + 1) * 32 + 19)"
proof -
  have u: "1 \<le> unat (mt_month t)" "unat (mt_month t) \<le> 12" "unat (mt_day t) \<le> 31"
    using assms by (simp_all add: word_le_nat_alt)
  show ?thesis
    using u unfolding validate_timestamp_range_def TIMESTAMP_MAX_YEAR_def TIMESTAMP_MIN_YEAR_def YY_PART_YEAR_def Let_def
    by (simp add: word_less_nat_alt word_unat_eq_iff) linarith
qed

lemma timestamp_range_exact_witness:
  "validate_timestamp_range ((zero_time TS_DATE)\<lparr>mt_year := 2038, mt_month := 1, mt_day := 19\<rparr>) \<and>
   \<not> validate_timestamp_range ((zero_time TS_DATE)\<lparr>mt_year := 2038, mt_month := 1, mt_day := 20\<rparr>)"
  using timestamp_range_exact [of "(zero_time TS_DATE)\<lparr>mt_year := 2038, mt_month := 1, mt_day := 19\<rparr>"]
    timestamp_range_exact [of "(zero_time TS_DATE)\<lparr>mt_year := 2038, mt_month := 1, mt_day := 20\<rparr>"]
  by (simp add: zero_time_def)

end
