(* ===== verification/Temporal_Values.thy ===== *)
theory Temporal_Values
  imports Mysql_Time Int_Types
begin

text \<open>
  The helper classes of \<open>sql_type.h\<close> that temporal values are built from: seconds with a fraction
  (\<open>Sec6\<close>, \<open>Sec9\<close>, \<open>Sec6_add\<close>), \<open>Year\<close>, the base class \<open>Temporal\<close> with its rounding by nanoseconds,
  \<open>Temporal_hybrid\<close>, the source of \<open>EXTRACT\<close> and the interval argument of \<open>ADDTIME\<close>. An object is its
  members; \<open>Temporal\<close> and its subclasses are a \<open>mysql_time\<close>. Member functions that are defined in
  \<open>sql_type.cc\<close> are arguments, those of the C library are in \<open>time_lib\<close>. The lemmas show that the
  carries of the rounding are those of arithmetic on microseconds and that the fields \<open>EXTRACT\<close>
  joins can be told apart in its result.
\<close>

subsection \<open>Sec6 and Sec9\<close>

record sec6 =
  s6_sec :: u64
  s6_usec :: u32
  s6_neg :: bool
  s6_truncated :: bool

definition sec6_make_from_int :: "longlong_hybrid \<Rightarrow> sec6" where
  "sec6_make_from_int nr = \<lparr>s6_sec = hybrid_abs nr, s6_usec = 0, s6_neg = hybrid_neg nr, s6_truncated = False\<rparr>"

definition sec6_reset :: sec6 where
  "sec6_reset = \<lparr>s6_sec = 0, s6_usec = 0, s6_neg = False, s6_truncated = False\<rparr>"

definition sec6_add_nanoseconds :: "u32 \<Rightarrow> 'z sec6_scheme \<Rightarrow> (bool \<times> 'z sec6_scheme) option" where
  "sec6_add_nanoseconds nanoseconds s =
     guard (nanoseconds \<le> 1000000000)
       (if nanoseconds < 500 then (False, s)
        else let s = s\<lparr>s6_usec := s6_usec s + (nanoseconds + 500) div 1000\<rparr> in
          if s6_usec s < 1000000 then (False, s)
          else (True, s\<lparr>s6_usec := s6_usec s mod 1000000\<rparr>))"

definition sec6_from_longlong :: "u64 \<Rightarrow> bool \<Rightarrow> sec6" where
  "sec6_from_longlong nr unsigned_val = sec6_make_from_int (Longlong_hybrid nr unsigned_val)"

text \<open>The \<open>int\<close> result of the library becomes \<open>bool\<close>.\<close>

definition to_interval_hhmmssff_only ::
  "time_lib \<Rightarrow> 'z sec6_scheme \<Rightarrow> mysql_time \<Rightarrow> u32 \<Rightarrow> bool \<times> mysql_time \<times> u32" where
  "to_interval_hhmmssff_only L s to warn =
     (case number_to_time_only L (s6_neg s) (s6_sec s) (s6_usec s) TIME_MAX_INTERVAL_HOUR to warn of
        (rc, to, warn) \<Rightarrow> (rc \<noteq> 0, to, warn))"

definition to_datetime_or_date ::
  "time_lib \<Rightarrow> 'z sec6_scheme \<Rightarrow> mysql_time \<Rightarrow> u32 \<Rightarrow> date_conv_mode_t \<Rightarrow> (bool \<times> mysql_time \<times> u32) option" where
  "to_datetime_or_date L s to warn flags =
     (if s6_neg s then Some (True, to, WARN_OUT_OF_RANGE)
      else (case number_to_datetime_or_date L (s6_sec s) (s6_usec s) to
                   (conv_bits (conv_and flags TIME_MODE_FOR_XXX_TO_DATE)) warn of
              (rc, to, warn) \<Rightarrow> guard (warn \<noteq> 0 \<or> rc \<noteq> - 1) (rc = - 1, to, warn)))"

definition to_datetime_or_to_interval_hhmmssff ::
  "time_lib \<Rightarrow> 'z sec6_scheme \<Rightarrow> mysql_time \<Rightarrow> u32 \<Rightarrow> (bool \<times> mysql_time \<times> u32) option" where
  "to_datetime_or_to_interval_hhmmssff L s to warn =
     (if s6_sec s > 999999995959 \<and> s6_sec s \<le> 99991231235959 \<and> \<not> s6_neg s
      then to_datetime_or_date L s to warn (Date_conv_mode INVALID_DATES)
      else if s6_sec s div 10000 > ucast TIME_MAX_INTERVAL_HOUR then Some (True, to, WARN_OUT_OF_RANGE)
      else Some (to_interval_hhmmssff_only L s to warn))"

definition to_datetime_or_time ::
  "time_lib \<Rightarrow> 'z sec6_scheme \<Rightarrow> mysql_time \<Rightarrow> u32 \<Rightarrow> date_conv_mode_t \<Rightarrow> (bool \<times> mysql_time \<times> u32) option" where
  "to_datetime_or_time L s to warn mode =
     (case (if s6_sec s > 9999999 \<and> s6_sec s \<le> 99991231235959 \<and> \<not> s6_neg s
            then (case number_to_datetime_or_date L (s6_sec s) (s6_usec s) to
                         (conv_bits (conv_and mode TIME_MODE_FOR_XXX_TO_DATE)) warn of
                    (rc, to, warn) \<Rightarrow> (rc < 0, to, warn))
            else (case number_to_time_only L (s6_neg s) (s6_sec s) (s6_usec s) TIME_MAX_HOUR to warn of
                    (rc, to, warn) \<Rightarrow> (rc \<noteq> 0, to, warn))) of
        (rc, to, warn) \<Rightarrow> guard (warn \<noteq> 0 \<or> \<not> rc) (rc, to, warn))"

text \<open>The warnings of \<open>check_time_range\<close> are discarded (\<open>unused\<close>).\<close>

definition sec_to_time :: "time_lib \<Rightarrow> 'z sec6_scheme \<Rightarrow> u32 \<Rightarrow> (bool \<times> mysql_time) option" where
  "sec_to_time L s dec =
     (let t = (set_zero_time L TS_TIME)\<lparr>mt_neg := s6_neg s\<rparr> in
      if s6_sec s > ucast TIME_MAX_VALUE_SECONDS
      then (case check_time_range L (t\<lparr>mt_hour := TIME_MAX_HOUR + 1\<rparr>) dec 0 of (_, t, _) \<Rightarrow> Some (True, t))
      else guard (s6_usec s \<le>s TIME_MAX_SECOND_PART)
        (False, t\<lparr>mt_hour := ucast (s6_sec s div 3600),
                  mt_minute := ucast (s6_sec s mod 3600) div 60,
                  mt_second := ucast (s6_sec s) mod 60,
                  mt_second_part := s6_usec s\<rparr>))"

definition sec6_trunc :: "u64 list \<Rightarrow> u32 \<Rightarrow> 'z sec6_scheme \<Rightarrow> 'z sec6_scheme option" where
  "sec6_trunc tab dec s =
     map_option (\<lambda>r. s\<lparr>s6_usec := s6_usec s - r\<rparr>) (my_time_fraction_remainder tab (s6_usec s) dec)"

record sec9 = sec6 +
  s9_nsec :: u32

definition sec9_make_from_int :: "longlong_hybrid \<Rightarrow> sec9" where
  "sec9_make_from_int nr = sec6.extend (sec6_make_from_int nr) \<lparr>s9_nsec = 0\<rparr>"

definition sec9_trunc :: "u64 list \<Rightarrow> u32 \<Rightarrow> sec9 \<Rightarrow> sec9 option" where
  "sec9_trunc tab dec s = sec6_trunc tab dec (s\<lparr>s9_nsec := 0\<rparr>)"

definition sec9_round_mode ::
  "(u32 \<Rightarrow> sec9 \<Rightarrow> sec9) \<Rightarrow> u64 list \<Rightarrow> u32 \<Rightarrow> time_round_mode_t \<Rightarrow> sec9 \<Rightarrow> sec9 option" where
  "sec9_round_mode round_to tab dec mode s =
     (if round_eq mode (Time_round_mode FRAC_TRUNCATE) then sec9_trunc tab dec s else Some (round_to dec s))"

text \<open>\<open>VSec9\<close>: its accessors assert that the value is not NULL.\<close>

record vsec9 = sec9 +
  vs_is_null :: bool

definition to_const_sec9 :: "vsec9 \<Rightarrow> vsec9 option" where
  "to_const_sec9 v = guard (\<not> vs_is_null v) v"

definition vsec9_sec :: "vsec9 \<Rightarrow> u64 option" where
  "vsec9_sec v = map_option s6_sec (to_const_sec9 v)"

definition vsec9_usec :: "vsec9 \<Rightarrow> u32 option" where
  "vsec9_usec v = map_option s6_usec (to_const_sec9 v)"

definition vsec9_neg :: "vsec9 \<Rightarrow> bool option" where
  "vsec9_neg v = map_option s6_neg (to_const_sec9 v)"

definition vsec9_truncated :: "vsec9 \<Rightarrow> bool option" where
  "vsec9_truncated v = map_option s6_truncated (to_const_sec9 v)"

definition vsec9_sec_to_time :: "time_lib \<Rightarrow> vsec9 \<Rightarrow> u32 \<Rightarrow> (bool \<times> mysql_time) option" where
  "vsec9_sec_to_time L v dec = Option.bind (to_const_sec9 v) (\<lambda>s. sec_to_time L s dec)"

subsection \<open>Sec6_add and Year\<close>

text \<open>
  The constructor does not set the members \<open>m_sec\<close>, \<open>m_usec\<close> and \<open>m_neg\<close> in the case of an error; it
  gets the memory of the object as its last argument. \<open>bzero\<close> leaves the time type 0, a date.
\<close>

record sec6_add =
  sa_sec :: u64
  sa_usec :: u32
  sa_neg :: bool
  sa_error :: bool

definition sec6_add_make :: "time_lib \<Rightarrow> mysql_time \<Rightarrow> mysql_time \<Rightarrow> int \<Rightarrow> sec6_add \<Rightarrow> sec6_add option" where
  "sec6_add_make L ltime1 ltime2 sign a =
     guard ((sign = - 1 \<or> sign = 1) \<and> (\<not> mt_neg ltime1 \<or> mt_type ltime1 = TS_TIME))
       (if mt_type ltime2 \<noteq> TS_TIME then a\<lparr>sa_error := True\<rparr>
        else let sign = if mt_neg ltime1 \<noteq> mt_neg ltime2 then - sign else sign in
          (case calc_time_diff L ltime1 ltime2 (- sign) of
             (neg, sec, usec) \<Rightarrow>
               \<lparr>sa_sec = sec, sa_usec = usec,
                sa_neg = (if mt_neg ltime1 \<and> (sec \<noteq> 0 \<or> usec \<noteq> 0) then \<not> neg else neg), sa_error = False\<rparr>))"

definition to_hh24mmssff :: "time_lib \<Rightarrow> timestamp_type \<Rightarrow> sec6_add \<Rightarrow> mysql_time" where
  "to_hh24mmssff L tstype a =
     (calc_time_from_sec L ((zero_time TS_DATE)\<lparr>mt_neg := sa_neg a\<rparr>)
        (ucast (sa_sec a mod of_nat SECONDS_IN_24H)) (sa_usec a))\<lparr>mt_type := tstype\<rparr>"

definition to_days_abs :: "sec6_add \<Rightarrow> u32" where
  "to_days_abs a = ucast (sa_sec a div of_nat SECONDS_IN_24H)"

text \<open>The product of two \<open>long\<close> values must not overflow.\<close>

definition sec6_add_to_time :: "time_lib \<Rightarrow> sec6_add \<Rightarrow> mysql_time \<Rightarrow> u32 \<Rightarrow> (bool \<times> mysql_time) option" where
  "sec6_add_to_time L a ltime decimals =
     (if sa_error a then Some (True, ltime)
      else guard (sint (to_days_abs a) * 24 \<in> {- (2 ^ 31) ..< 2 ^ 31})
        (let t = to_hh24mmssff L TS_TIME a in
         adjust_time_range_with_warn L (t\<lparr>mt_hour := mt_hour t + to_days_abs a * 24\<rparr>) decimals))"

definition sec6_add_to_datetime :: "time_lib \<Rightarrow> sec6_add \<Rightarrow> mysql_time \<Rightarrow> bool \<times> mysql_time" where
  "sec6_add_to_datetime L a ltime =
     (if sa_error a \<or> sa_neg a then (True, ltime)
      else case get_date_from_daynr L (to_days_abs a) of
        (failed, y, m, d) \<Rightarrow>
          (failed \<or> d = 0,
           (to_hh24mmssff L TS_DATETIME a)\<lparr>mt_year := y, mt_month := m, mt_day := d\<rparr>))"

record sql_year =
  y_year :: u32
  y_truncated :: bool

definition year_make :: sql_year where
  "year_make = \<lparr>y_year = 0, y_truncated = False\<rparr>"

definition to_YYYYMMDD :: "sql_year \<Rightarrow> u32" where
  "to_YYYYMMDD y = y_year y * 10000"

subsection \<open>Temporal\<close>

text \<open>\<open>Options\<close> asserts that the conversion flags fit 32 bits.\<close>

definition temporal_options :: "date_conv_mode_t \<Rightarrow> time_round_mode_t \<Rightarrow> date_mode_t option" where
  "temporal_options flags round_mode = guard (conv_bits flags \<le> 0xFFFFFFFF) (conv_or_round flags round_mode)"

definition is_valid_temporal :: "mysql_time \<Rightarrow> bool option" where
  "is_valid_temporal t = guard (mt_type t \<noteq> TS_ERROR) (mt_type t \<noteq> TS_NONE)"

definition type_name_by_timestamp_type :: "timestamp_type \<Rightarrow> string" where
  "type_name_by_timestamp_type k =
     (case k of TS_DATE \<Rightarrow> ''date'' | TS_TIME \<Rightarrow> ''time'' | _ \<Rightarrow> ''datetime'')"

text \<open>The type name that \<open>Warn::push_conversion_warnings\<close> passes on.\<close>

definition conversion_type_name :: "date_mode_t \<Rightarrow> timestamp_type \<Rightarrow> string" where
  "conversion_type_name mode tstype =
     (if tstype \<ge> TS_DATE then type_name_by_timestamp_type tstype
      else if conv_is_set (mode_and_conv mode (conv_or (Date_conv_mode INTERVAL_hhmmssff) (Date_conv_mode INTERVAL_DAY)))
      then ''interval''
      else if conv_is_set (mode_and_conv mode (Date_conv_mode TIME_ONLY)) then ''time''
      else ''datetime'')"

definition make_fuzzy_date :: "time_lib \<Rightarrow> date_conv_mode_t \<Rightarrow> mysql_time" where
  "make_fuzzy_date L fuzzydate =
     set_zero_time L
       (if \<not> conv_is_set (conv_and fuzzydate (Date_conv_mode FUZZY_DATES)) then TS_NONE
        else if conv_is_set (conv_and fuzzydate (Date_conv_mode TIME_ONLY)) then TS_TIME
        else TS_DATETIME)"

definition make_from_out_of_range :: "mysql_time \<Rightarrow> mysql_time \<times> u32" where
  "make_from_out_of_range t = (t\<lparr>mt_type := TS_NONE\<rparr>, WARN_OUT_OF_RANGE)"

text \<open>\<open>add_with_round\<close> is \<open>add_nanoseconds_with_round\<close>; its arguments: warnings, mode, nanoseconds.\<close>

type_synonym add_round = "u32 \<Rightarrow> date_conv_mode_t \<Rightarrow> u32 \<Rightarrow> mysql_time \<Rightarrow> bool \<times> mysql_time \<times> u32"

definition temporal_add_nanoseconds ::
  "add_round \<Rightarrow> u32 \<Rightarrow> date_mode_t \<Rightarrow> u32 \<Rightarrow> mysql_time \<Rightarrow> (bool \<times> mysql_time \<times> u32) option" where
  "temporal_add_nanoseconds add_with_round warn mode nsec t =
     Option.bind (to_time_round_mode mode) (\<lambda>r.
       Some (if round_eq r (Time_round_mode FRAC_ROUND) then add_with_round warn (to_date_conv_mode mode) nsec t
             else (False, t, warn)))"

text \<open>\<open>conv\<close> is \<open>Sec6::convert_to_mysql_time\<close>, with the warnings, the target and the mode.\<close>

definition make_from_sec6 ::
  "time_lib \<Rightarrow> (sec6 \<Rightarrow> u32 \<Rightarrow> mysql_time \<Rightarrow> date_mode_t \<Rightarrow> bool \<times> mysql_time \<times> u32) \<Rightarrow>
   u32 \<Rightarrow> sec6 \<Rightarrow> date_mode_t \<Rightarrow> mysql_time \<Rightarrow> mysql_time \<times> u32" where
  "make_from_sec6 L conv warn nr mode t =
     (case conv nr warn t mode of
        (failed, t, warn) \<Rightarrow> (if failed then make_fuzzy_date L (to_date_conv_mode mode) else t, warn))"

definition make_from_sec9 ::
  "time_lib \<Rightarrow> (sec6 \<Rightarrow> u32 \<Rightarrow> mysql_time \<Rightarrow> date_mode_t \<Rightarrow> bool \<times> mysql_time \<times> u32) \<Rightarrow> add_round \<Rightarrow>
   u32 \<Rightarrow> sec9 \<Rightarrow> date_mode_t \<Rightarrow> mysql_time \<Rightarrow> (mysql_time \<times> u32) option" where
  "make_from_sec9 L conv add_with_round warn nr mode t =
     (case conv (sec6.truncate nr) warn t mode of
        (failed, t, warn) \<Rightarrow>
          if failed then Some (make_fuzzy_date L (to_date_conv_mode mode), warn)
          else map_option (\<lambda>(failed, t, warn). (if failed then make_fuzzy_date L (to_date_conv_mode mode) else t, warn))
            (temporal_add_nanoseconds add_with_round warn mode (s9_nsec nr) t))"

definition has_valid_mmssff :: "mysql_time \<Rightarrow> bool" where
  "has_valid_mmssff t \<longleftrightarrow> mt_minute t \<le> TIME_MAX_MINUTE \<and> mt_second t \<le> TIME_MAX_SECOND \<and>
     mt_second_part t \<le> TIME_MAX_SECOND_PART"

definition has_zero_YYYYMM :: "mysql_time \<Rightarrow> bool" where
  "has_zero_YYYYMM t \<longleftrightarrow> mt_year t = 0 \<and> mt_month t = 0"

definition has_zero_YYYYMMDD :: "mysql_time \<Rightarrow> bool" where
  "has_zero_YYYYMMDD t \<longleftrightarrow> mt_year t = 0 \<and> mt_month t = 0 \<and> mt_day t = 0"

definition time_hhmmssff_set_max :: "u32 \<Rightarrow> mysql_time \<Rightarrow> mysql_time" where
  "time_hhmmssff_set_max max_hour t =
     t\<lparr>mt_hour := max_hour, mt_minute := TIME_MAX_MINUTE, mt_second := TIME_MAX_SECOND,
       mt_second_part := TIME_MAX_SECOND_PART\<rparr>"

definition add_nanoseconds_ssff :: "u32 \<Rightarrow> mysql_time \<Rightarrow> (bool \<times> mysql_time) option" where
  "add_nanoseconds_ssff nanoseconds t =
     guard (nanoseconds \<le> 1000000000)
       (if nanoseconds < 500 then (False, t)
        else let t = t\<lparr>mt_second_part := mt_second_part t + (nanoseconds + 500) div 1000\<rparr> in
          if mt_second_part t < 1000000 then (False, t)
          else let t = t\<lparr>mt_second_part := mt_second_part t mod 1000000\<rparr> in
            if mt_second t < 59 then (False, t\<lparr>mt_second := mt_second t + 1\<rparr>)
            else (True, t\<lparr>mt_second := 0\<rparr>))"

definition add_nanoseconds_mmssff :: "u32 \<Rightarrow> mysql_time \<Rightarrow> (bool \<times> mysql_time) option" where
  "add_nanoseconds_mmssff nanoseconds t =
     map_option (\<lambda>(overflow, t).
         if \<not> overflow then (False, t)
         else if mt_minute t < 59 then (False, t\<lparr>mt_minute := mt_minute t + 1\<rparr>)
         else (True, t\<lparr>mt_minute := 0\<rparr>))
       (add_nanoseconds_ssff nanoseconds t)"

definition temporal_fraction_remainder :: "u64 list \<Rightarrow> u32 \<Rightarrow> mysql_time \<Rightarrow> u32 option" where
  "temporal_fraction_remainder tab dec t = my_time_fraction_remainder tab (mt_second_part t) dec"

text \<open>
  The parsers of \<open>my_time.h\<close>: string, flags, target, status and, where they have them, the greatest
  hour and the greatest hour that is not an error.
\<close>

type_synonym parser = "u8 list \<Rightarrow> u64 \<Rightarrow> mysql_time \<Rightarrow> time_status \<Rightarrow> bool \<times> mysql_time \<times> time_status"

record parse_lib =
  str_to_datetime_or_date :: parser
  str_to_datetime_or_date_or_time :: "u32 \<Rightarrow> u32 \<Rightarrow> parser"
  str_to_datetime_or_date_or_interval_hhmmssff :: "u32 \<Rightarrow> u32 \<Rightarrow> parser"
  str_to_datetime_or_date_or_interval_day :: "u32 \<Rightarrow> u32 \<Rightarrow> parser"

text \<open>\<open>DBUG_ASSERT (!rc || st->warnings)\<close>: a failure comes with a warning.\<close>

definition warned :: "bool \<times> mysql_time \<times> time_status \<Rightarrow> (bool \<times> mysql_time \<times> time_status) option" where
  "warned r = (case r of (rc, t, st) \<Rightarrow> guard (\<not> rc \<or> st_warnings st \<noteq> 0) r)"

definition xxx_flags :: "date_mode_t \<Rightarrow> u64" where
  "xxx_flags mode = conv_bits (mode_and_conv mode TIME_MODE_FOR_XXX_TO_DATE)"

definition ascii_to_datetime_or_date_or_interval_DDhhmmssff ::
  "parse_lib \<Rightarrow> u8 list \<Rightarrow> date_mode_t \<Rightarrow> mysql_time \<Rightarrow> time_status \<Rightarrow> (bool \<times> mysql_time \<times> time_status) option" where
  "ascii_to_datetime_or_date_or_interval_DDhhmmssff P str mode t st =
     warned ((if conv_is_set (mode_and_conv mode (Date_conv_mode INTERVAL_DAY))
        then str_to_datetime_or_date_or_interval_day P else str_to_datetime_or_date_or_interval_hhmmssff P)
       TIME_MAX_INTERVAL_HOUR TIME_MAX_INTERVAL_HOUR str (xxx_flags mode) t st)"

definition ascii_to_datetime_or_date_or_time ::
  "parse_lib \<Rightarrow> u8 list \<Rightarrow> date_mode_t \<Rightarrow> mysql_time \<Rightarrow> time_status \<Rightarrow> (bool \<times> mysql_time \<times> time_status) option" where
  "ascii_to_datetime_or_date_or_time P str mode t st =
     warned (str_to_datetime_or_date_or_time P TIME_MAX_HOUR 0xFFFFFFFF str (xxx_flags mode) t st)"

definition ascii_to_datetime_or_date ::
  "parse_lib \<Rightarrow> u8 list \<Rightarrow> date_mode_t \<Rightarrow> mysql_time \<Rightarrow> time_status \<Rightarrow> (bool \<times> mysql_time \<times> time_status) option" where
  "ascii_to_datetime_or_date P str mode t st =
     (if conv_is_set (mode_and_conv mode (Date_conv_mode TIME_ONLY)) then None
      else warned (str_to_datetime_or_date P str (xxx_flags mode) t st))"

definition ascii_to_temporal ::
  "parse_lib \<Rightarrow> u8 list \<Rightarrow> date_mode_t \<Rightarrow> mysql_time \<Rightarrow> time_status \<Rightarrow> (bool \<times> mysql_time \<times> time_status) option" where
  "ascii_to_temporal P str mode t st =
     (if conv_is_set (mode_and_conv mode (conv_or (Date_conv_mode INTERVAL_hhmmssff) (Date_conv_mode INTERVAL_DAY)))
      then ascii_to_datetime_or_date_or_interval_DDhhmmssff P str mode t st
      else if conv_is_set (mode_and_conv mode (Date_conv_mode TIME_ONLY))
      then ascii_to_datetime_or_date_or_time P str mode t st
      else ascii_to_datetime_or_date P str mode t st)"

text \<open>A parser that fails leaves a warning in the status.\<close>

definition parser_warns :: "parser \<Rightarrow> bool" where
  "parser_warns p \<longleftrightarrow> (\<forall>s f t st. fst (p s f t st) \<longrightarrow> st_warnings (snd (snd (p s f t st))) \<noteq> 0)"

definition parse_ok :: "parse_lib \<Rightarrow> bool" where
  "parse_ok P \<longleftrightarrow> parser_warns (str_to_datetime_or_date P) \<and> (\<forall>a b. parser_warns (str_to_datetime_or_date_or_time P a b) \<and>
     parser_warns (str_to_datetime_or_date_or_interval_hhmmssff P a b) \<and>
     parser_warns (str_to_datetime_or_date_or_interval_day P a b))"

lemma warned_parser: "parser_warns p \<Longrightarrow> warned (p s f t st) = Some (p s f t st)"
  by (auto simp: parser_warns_def warned_def split: prod.splits) (metis fst_conv snd_conv)

text \<open>The flags of the mode choose the parser, and no assertion fails.\<close>

lemma ascii_to_temporal_parser:
  assumes "parse_ok P"
  shows "ascii_to_temporal P s mode t st = Some
    ((if bit (mode_bits mode) 4 then str_to_datetime_or_date_or_interval_day P TIME_MAX_INTERVAL_HOUR TIME_MAX_INTERVAL_HOUR
      else if bit (mode_bits mode) 3 then str_to_datetime_or_date_or_interval_hhmmssff P TIME_MAX_INTERVAL_HOUR TIME_MAX_INTERVAL_HOUR
      else if bit (mode_bits mode) 2 then str_to_datetime_or_date_or_time P TIME_MAX_HOUR 0xFFFFFFFF
      else str_to_datetime_or_date P) s (xxx_flags mode) t st)"
proof -
  have b: "w AND push_bit i 1 \<noteq> 0 \<longleftrightarrow> bit w i" if "i < 64" for w :: u64 and i
    using that by (auto simp: word_zero_iff_no_bit bit_and_iff bit_shift_one)
  have c: "INTERVAL_DAY = push_bit 4 1" "INTERVAL_hhmmssff = push_bit 3 1" "TIME_ONLY = push_bit 2 1"
    by (simp_all add: mode_consts)
  have day: "conv_is_set (mode_and_conv mode (Date_conv_mode INTERVAL_DAY)) \<longleftrightarrow> bit (mode_bits mode) 4"
    and time: "conv_is_set (mode_and_conv mode (Date_conv_mode TIME_ONLY)) \<longleftrightarrow> bit (mode_bits mode) 2"
    unfolding conv_is_set_def mode_and_conv_def date_conv_mode_t.sel c by (rule b, simp)+
  have both: "conv_is_set (mode_and_conv mode (conv_or (Date_conv_mode INTERVAL_hhmmssff) (Date_conv_mode INTERVAL_DAY))) \<longleftrightarrow>
      bit (mode_bits mode) 3 \<or> bit (mode_bits mode) 4"
    unfolding conv_is_set_def mode_and_conv_def conv_or_def date_conv_mode_t.sel c bit.conj_disj_distrib
    using b [of 3 "mode_bits mode"] b [of 4 "mode_bits mode"] by (metis numeral_less_iff or_eq_0_iff semiring_norm(76,78,81))
  show ?thesis
    using assms unfolding parse_ok_def ascii_to_temporal_def ascii_to_datetime_or_date_or_interval_DDhhmmssff_def
      ascii_to_datetime_or_date_or_time_def ascii_to_datetime_or_date_def day time both
    by (auto simp: warned_parser)
qed

subsection \<open>Temporal_hybrid\<close>

text \<open>The constructors for values that may be NULL; \<open>from_value\<close> is the result of the one for other values.\<close>

definition hybrid_nullable :: "(mysql_time \<times> u32) option \<Rightarrow> mysql_time \<Rightarrow> u32 \<Rightarrow> bool \<Rightarrow> (mysql_time \<times> u32) option" where
  "hybrid_nullable from_value t warn is_null = (if is_null then Some (t\<lparr>mt_type := TS_NONE\<rparr>, warn) else from_value)"

definition copy_valid_value_to_mysql_time :: "mysql_time \<Rightarrow> (bool \<times> mysql_time) option" where
  "copy_valid_value_to_mysql_time t = guard (is_valid_temporal t = Some True) (False, t)"

definition hybrid_to_longlong :: "time_lib \<Rightarrow> mysql_time \<Rightarrow> u64 option" where
  "hybrid_to_longlong L t =
     map_option (\<lambda>valid. if \<not> valid then 0
         else if mt_neg t then - TIME_to_ulonglong L t else TIME_to_ulonglong L t)
       (is_valid_temporal t)"

definition hybrid_get_mysql_time :: "mysql_time \<Rightarrow> mysql_time option" where
  "hybrid_get_mysql_time t = guard (is_valid_temporal t = Some True) t"

subsection \<open>Extract_source\<close>

text \<open>
  Values of type \<open>int\<close> and \<open>longlong\<close> are words, read with \<open>sint\<close>; the lemmas show that the
  arithmetic on them does not overflow. \<open>get_mysql_time\<close> asserts the class invariant.
\<close>

definition time_to_daytime_interval :: "mysql_time \<Rightarrow> mysql_time option" where
  "time_to_daytime_interval t =
     guard (mt_type t = TS_TIME \<and> has_zero_YYYYMMDD t) (t\<lparr>mt_day := mt_hour t div 24, mt_hour := mt_hour t mod 24\<rparr>)"

definition is_valid_extract_source_slow :: "mysql_time \<Rightarrow> bool option" where
  "is_valid_extract_source_slow t =
     map_option (\<lambda>valid. valid \<and> mt_hour t < 24 \<and> (has_zero_YYYYMM t \<or> mt_type t \<noteq> TS_TIME)) (is_valid_temporal t)"

definition extract_value_slow :: "mysql_time \<Rightarrow> bool option" where
  "extract_value_slow t = (if mt_type t = TS_NONE then Some True else is_valid_extract_source_slow t)"

text \<open>The constructor, after \<open>Temporal_hybrid\<close> has read the value \<open>t\<close> from the item.\<close>

definition extract_source_make :: "mysql_time \<Rightarrow> mysql_time option" where
  "extract_source_make t =
     Option.bind (if mt_type t = TS_TIME then time_to_daytime_interval t else Some t)
       (\<lambda>t. guard (extract_value_slow t = Some True) t)"

definition ex_get :: "mysql_time \<Rightarrow> mysql_time option" where
  "ex_get t = guard (is_valid_extract_source_slow t = Some True) t"

definition ex_sign :: "mysql_time \<Rightarrow> u32 option" where
  "ex_sign t = map_option (\<lambda>t. if mt_neg t then - 1 else 1) (ex_get t)"

definition ex_year :: "mysql_time \<Rightarrow> u32 option" where "ex_year t = map_option mt_year (ex_get t)"
definition ex_month :: "mysql_time \<Rightarrow> u32 option" where "ex_month t = map_option mt_month (ex_get t)"

text \<open>\<open>f\<close> on two results.\<close>

definition on_both :: "('a \<Rightarrow> 'b \<Rightarrow> 'c) \<Rightarrow> 'a option \<Rightarrow> 'b option \<Rightarrow> 'c option" where
  "on_both f a b = Option.bind a (\<lambda>x. map_option (f x) b)"

definition ex_day :: "mysql_time \<Rightarrow> u32 option" where
  "ex_day t = on_both (*) (map_option mt_day (ex_get t)) (ex_sign t)"

definition ex_hour :: "mysql_time \<Rightarrow> u32 option" where
  "ex_hour t = on_both (*) (map_option mt_hour (ex_get t)) (ex_sign t)"

definition ex_minute :: "mysql_time \<Rightarrow> u32 option" where
  "ex_minute t = on_both (*) (map_option mt_minute (ex_get t)) (ex_sign t)"

definition ex_second :: "mysql_time \<Rightarrow> u32 option" where
  "ex_second t = on_both (*) (map_option mt_second (ex_get t)) (ex_sign t)"

definition ex_microsecond :: "mysql_time \<Rightarrow> u32 option" where
  "ex_microsecond t = on_both (*) (map_option mt_second_part (ex_get t)) (ex_sign t)"

definition ex_year_month :: "mysql_time \<Rightarrow> u32 option" where
  "ex_year_month t = on_both (\<lambda>y m. y * 100 + m) (ex_year t) (ex_month t)"

definition ex_quarter :: "mysql_time \<Rightarrow> u32 option" where
  "ex_quarter t = map_option (\<lambda>m. (m + 2) div 3) (ex_month t)"

definition ex_second_microsecond :: "mysql_time \<Rightarrow> u64 option" where
  "ex_second_microsecond t = on_both (\<lambda>s u. scast s * 1000000 + scast u) (ex_second t) (ex_microsecond t)"

definition ex_day_hour :: "mysql_time \<Rightarrow> u64 option" where
  "ex_day_hour t = on_both (\<lambda>d h. scast d * 100 + scast h) (ex_day t) (ex_hour t)"

definition ex_day_minute :: "mysql_time \<Rightarrow> u64 option" where
  "ex_day_minute t = on_both (\<lambda>x m. x * 100 + scast m) (ex_day_hour t) (ex_minute t)"

definition ex_day_second :: "mysql_time \<Rightarrow> u64 option" where
  "ex_day_second t = on_both (\<lambda>x s. x * 100 + scast s) (ex_day_minute t) (ex_second t)"

definition ex_day_microsecond :: "mysql_time \<Rightarrow> u64 option" where
  "ex_day_microsecond t = on_both (\<lambda>x u. x * 1000000 + scast u) (ex_day_second t) (ex_microsecond t)"

definition ex_hour_minute :: "mysql_time \<Rightarrow> u32 option" where
  "ex_hour_minute t = on_both (\<lambda>h m. h * 100 + m) (ex_hour t) (ex_minute t)"

definition ex_hour_second :: "mysql_time \<Rightarrow> u32 option" where
  "ex_hour_second t = on_both (\<lambda>x s. x * 100 + s) (ex_hour_minute t) (ex_second t)"

definition ex_hour_microsecond :: "mysql_time \<Rightarrow> u64 option" where
  "ex_hour_microsecond t = on_both (\<lambda>x u. scast x * 1000000 + scast u) (ex_hour_second t) (ex_microsecond t)"

definition ex_minute_second :: "mysql_time \<Rightarrow> u32 option" where
  "ex_minute_second t = on_both (\<lambda>m s. m * 100 + s) (ex_minute t) (ex_second t)"

definition ex_minute_microsecond :: "mysql_time \<Rightarrow> u64 option" where
  "ex_minute_microsecond t = on_both (\<lambda>x u. scast x * 1000000 + scast u) (ex_minute_second t) (ex_microsecond t)"

subsection \<open>Interval_DDhhmmssff\<close>

definition is_valid_interval_slow :: "mysql_time \<Rightarrow> bool" where
  "is_valid_interval_slow t \<longleftrightarrow> mt_type t = TS_TIME \<and> has_zero_YYYYMMDD t \<and> has_valid_mmssff t"

definition interval_value_slow :: "mysql_time \<Rightarrow> bool" where
  "interval_value_slow t \<longleftrightarrow> mt_type t = TS_NONE \<or> is_valid_interval_slow t"

definition max_useful_hour :: u32 where "max_useful_hour = TIME_MAX_INTERVAL_HOUR"

definition max_int_part_char_length :: u32 where
  "max_int_part_char_length = 1 + TIME_MAX_INTERVAL_DAY_CHAR_LENGTH + 1 + 8"

definition interval_max_char_length :: "u32 \<Rightarrow> u32 option" where
  "interval_max_char_length fsp =
     guard (fsp \<le> TIME_SECOND_PART_DIGITS) (max_int_part_char_length + (if fsp \<noteq> 0 then 1 else 0) + fsp)"

definition interval_get_mysql_time :: "mysql_time \<Rightarrow> mysql_time option" where
  "interval_get_mysql_time t = guard (is_valid_interval_slow t) t"

definition is_valid_interval :: "mysql_time \<Rightarrow> bool" where
  "is_valid_interval t \<longleftrightarrow> mt_type t = TS_TIME"

definition interval_is_valid_value :: "mysql_time \<Rightarrow> bool" where
  "interval_is_valid_value t \<longleftrightarrow> mt_type t = TS_NONE \<or> is_valid_interval t"

subsection \<open>Rounding by nanoseconds\<close>

text \<open>Half a microsecond rounds up; no sum leaves 32 bits.\<close>

lemma unat_plus: "unat a + unat b < 2 ^ LENGTH('a) \<Longrightarrow> unat (a + b) = unat a + unat b" for a b :: "'a::len word"
  using unat_add_lem by blast

lemma nano_sum:
  fixes u ns :: u32
  assumes "ns \<le> 1000000000" "u \<le> 999999"
  shows "unat (u + (ns + 500) div 1000) = unat u + (unat ns + 500) div 1000" "unat u + (unat ns + 500) div 1000 < 2000000"
proof -
  have b: "unat ns \<le> 1000000000" "unat u \<le> 999999" using assms by (simp_all add: word_le_nat_alt)
  have q: "(unat ns + 500) div 1000 \<le> 1000000" using b(1) by linarith
  have "unat (ns + 500) = unat ns + 500" using b by (simp add: unat_plus)
  then have d: "unat ((ns + 500) div 1000) = (unat ns + 500) div 1000" by (simp add: unat_div_distrib)
  have "unat u + unat ((ns + 500) div 1000) < 2 ^ LENGTH(32)" unfolding d using b q by simp
  then show "unat (u + (ns + 500) div 1000) = unat u + (unat ns + 500) div 1000"
    unfolding d [symmetric] by (rule unat_plus)
  show "unat u + (unat ns + 500) div 1000 < 2000000" using b q by linarith
qed

text \<open>The fraction after rounding, and whether a second is carried.\<close>

definition nano_carry :: "u32 \<Rightarrow> u32 \<Rightarrow> bool" where
  "nano_carry u ns \<longleftrightarrow> 1000000 \<le> unat u + (unat ns + 500) div 1000"

lemma nano_small: "ns < 500 \<Longrightarrow> (unat ns + 500) div 1000 = 0" for ns :: u32
  by (simp add: word_less_nat_alt)

lemma nano_carry_iff:
  assumes "ns \<le> 1000000000" "u \<le> 999999"
  shows "u + (ns + 500) div 1000 < 1000000 \<longleftrightarrow> \<not> nano_carry u ns"
    "nano_carry u ns \<Longrightarrow> unat ((u + (ns + 500) div 1000) mod 1000000) + 1000000 = unat u + (unat ns + 500) div 1000"
proof -
  show "u + (ns + 500) div 1000 < 1000000 \<longleftrightarrow> \<not> nano_carry u ns"
    by (simp add: word_less_nat_alt nano_sum [OF assms] nano_carry_def not_le)
  show "unat ((u + (ns + 500) div 1000) mod 1000000) + 1000000 = unat u + (unat ns + 500) div 1000" if "nano_carry u ns"
  proof -
    have "n mod 1000000 + 1000000 = n" if "1000000 \<le> n" "n < 2000000" for n :: nat
      using that by (simp add: le_mod_geq)
    from this [OF that [unfolded nano_carry_def] nano_sum(2) [OF assms]] show ?thesis
      by (simp add: unat_mod_distrib nano_sum(1) [OF assms])
  qed
qed

lemma unat_Suc_word: "w < 59 \<Longrightarrow> unat (w + 1) = unat w + 1" for w :: u32
  by (subst unat_plus) (simp_all add: word_less_nat_alt)

lemma add_nanoseconds_ssff_correct:
  assumes "ns \<le> 1000000000" "has_valid_mmssff t"
  shows "\<exists>over t'. add_nanoseconds_ssff ns t = Some (over, t') \<and> has_valid_mmssff t' \<and>
    t'\<lparr>mt_second := mt_second t, mt_second_part := mt_second_part t\<rparr> = t \<and>
    time_usec t' + (if over then 60000000 else 0) = time_usec t + (unat ns + 500) div 1000"
proof -
  let ?u = "mt_second_part t" and ?k = "(unat ns + 500) div 1000"
  have v: "mt_minute t \<le> 59" "mt_second t \<le> 59" "?u \<le> 999999"
    using assms(2) by (simp_all add: has_valid_mmssff_def time_limits)
  note c = nano_carry_iff [OF assms(1) v(3)] and s = nano_sum [OF assms(1) v(3)]
  consider "ns < 500" | "\<not> ns < 500" "\<not> nano_carry ?u ns" | "\<not> ns < 500" "nano_carry ?u ns" by blast
  then show ?thesis
  proof cases
    case 1
    then show ?thesis using assms
      by (intro exI [of _ False] exI [of _ t]) (simp add: add_nanoseconds_ssff_def nano_small)
  next
    case 2
    have le: "?u + (ns + 500) div 1000 \<le> 999999"
      using 2(2) by (simp add: word_le_nat_alt s nano_carry_def)
    then show ?thesis using 2 v assms(1) c(1)
      by (intro exI [of _ False]) (simp add: add_nanoseconds_ssff_def has_valid_mmssff_def time_limits time_usec_def s)
  next
    case 3
    let ?r = "(?u + (ns + 500) div 1000) mod 1000000"
    have r: "?r \<le> 999999" using c(2) [OF 3(2)] s(2) by (simp add: word_le_nat_alt)
    show ?thesis
    proof (cases "mt_second t < 59")
      case True
      then have "mt_second t + 1 \<le> 59" by (simp add: word_le_nat_alt word_less_nat_alt unat_Suc_word)
      then show ?thesis using 3 v assms(1) c True r
        by (intro exI [of _ False]) (simp add: add_nanoseconds_ssff_def has_valid_mmssff_def time_limits time_usec_def unat_Suc_word)
    next
      case False
      then have "unat (mt_second t) = 59" using v(2) by (simp add: word_le_nat_alt word_less_nat_alt)
      then show ?thesis using 3 v assms(1) c False r
        by (intro exI [of _ True]) (simp add: add_nanoseconds_ssff_def has_valid_mmssff_def time_limits time_usec_def)
    qed
  qed
qed

lemma sec6_add_nanoseconds_correct:
  assumes "ns \<le> 1000000000" "s6_usec s \<le> 999999"
  shows "\<exists>over s'. sec6_add_nanoseconds ns s = Some (over, s') \<and> s6_usec s' \<le> 999999 \<and> s'\<lparr>s6_usec := s6_usec s\<rparr> = s \<and>
    unat (s6_usec s') + (if over then 1000000 else 0) = unat (s6_usec s) + (unat ns + 500) div 1000"
proof -
  let ?u = "s6_usec s"
  note c = nano_carry_iff [OF assms] and sm = nano_sum [OF assms]
  consider "ns < 500" | "\<not> ns < 500" "\<not> nano_carry ?u ns" | "\<not> ns < 500" "nano_carry ?u ns" by blast
  then show ?thesis
  proof cases
    case 1
    then show ?thesis using assms
      by (intro exI [of _ False] exI [of _ s]) (simp add: sec6_add_nanoseconds_def nano_small)
  next
    case 2
    have "?u + (ns + 500) div 1000 \<le> 999999"
      using 2(2) by (simp add: word_le_nat_alt sm nano_carry_def)
    then show ?thesis using 2 assms c(1)
      by (intro exI [of _ False]) (simp add: sec6_add_nanoseconds_def sm)
  next
    case 3
    have "(?u + (ns + 500) div 1000) mod 1000000 \<le> 999999" using c(2) [OF 3(2)] sm(2) by (simp add: word_le_nat_alt)
    then show ?thesis using 3 assms c by (intro exI [of _ True]) (simp add: sec6_add_nanoseconds_def)
  qed
qed

lemma add_nanoseconds_mmssff_correct:
  assumes "ns \<le> 1000000000" "has_valid_mmssff t"
  shows "\<exists>over t'. add_nanoseconds_mmssff ns t = Some (over, t') \<and> has_valid_mmssff t' \<and>
    t'\<lparr>mt_minute := mt_minute t, mt_second := mt_second t, mt_second_part := mt_second_part t\<rparr> = t \<and>
    time_usec t' + (if over then 3600000000 else 0) = time_usec t + (unat ns + 500) div 1000"
proof -
  obtain over t1 where r: "add_nanoseconds_ssff ns t = Some (over, t1)" "has_valid_mmssff t1"
    "t1\<lparr>mt_second := mt_second t, mt_second_part := mt_second_part t\<rparr> = t"
    "time_usec t1 + (if over then 60000000 else 0) = time_usec t + (unat ns + 500) div 1000"
    using add_nanoseconds_ssff_correct [OF assms] by (elim exE conjE)
  have m: "mt_minute t1 = mt_minute t" using arg_cong [OF r(3), of mt_minute] by simp
  have frame: "t1\<lparr>mt_minute := mt_minute t, mt_second := mt_second t, mt_second_part := mt_second_part t\<rparr> = t"
    using r(3) by (cases t1; cases t) simp
  have le: "mt_minute t \<le> 59" using r(2) unfolding m [symmetric] by (simp add: has_valid_mmssff_def time_limits)
  consider "\<not> over" | "over" "mt_minute t < 59" | "over" "\<not> mt_minute t < 59" by blast
  then show ?thesis
  proof cases
    case 1
    then show ?thesis using r frame by (intro exI [of _ False] exI [of _ t1]) (simp add: add_nanoseconds_mmssff_def)
  next
    case 2
    have "mt_minute t + 1 \<le> 59" using 2(2) by (simp add: word_le_nat_alt word_less_nat_alt unat_Suc_word)
    moreover have "(t1\<lparr>mt_minute := mt_minute t1 + 1\<rparr>)\<lparr>mt_minute := mt_minute t, mt_second := mt_second t, mt_second_part := mt_second_part t\<rparr> = t"
      using frame by (cases t1) simp
    ultimately show ?thesis using r 2 m
      by (intro exI [of _ False] exI [of _ "t1\<lparr>mt_minute := mt_minute t1 + 1\<rparr>"] conjI)
        (simp_all add: add_nanoseconds_mmssff_def has_valid_mmssff_def time_limits time_usec_def unat_Suc_word)
  next
    case 3
    have "unat (mt_minute t) = 59" using le 3(2) by (simp add: word_le_nat_alt word_less_nat_alt)
    moreover have "(t1\<lparr>mt_minute := 0\<rparr>)\<lparr>mt_minute := mt_minute t, mt_second := mt_second t, mt_second_part := mt_second_part t\<rparr> = t"
      using frame by (cases t1) simp
    ultimately show ?thesis using r 3 m
      by (intro exI [of _ True] exI [of _ "t1\<lparr>mt_minute := 0\<rparr>"] conjI)
        (simp_all add: add_nanoseconds_mmssff_def has_valid_mmssff_def time_limits time_usec_def)
  qed
qed

text \<open>
  Rounding up by nanoseconds is arithmetic on microseconds: for a time with valid minutes, seconds
  and fraction and at most \<open>10 ^ 9\<close> nanoseconds, \<open>add_nanoseconds_ssff\<close> and \<open>add_nanoseconds_mmssff\<close> add
  the nanoseconds rounded half up to microseconds, answer whether a minute (an hour) is left to carry,
  keep the other fields and leave valid minutes, seconds and fraction. \<open>Sec6::add_nanoseconds\<close> does the
  same on its fraction. More than \<open>10 ^ 9\<close> nanoseconds violate the assertion.
\<close>

lemma nanosecond_rounding:
  assumes "ns \<le> 1000000000" "has_valid_mmssff t" "s6_usec s \<le> 999999"
  shows "(\<exists>over t'. add_nanoseconds_ssff ns t = Some (over, t') \<and> has_valid_mmssff t' \<and>
      t'\<lparr>mt_second := mt_second t, mt_second_part := mt_second_part t\<rparr> = t \<and>
      time_usec t' + (if over then 60000000 else 0) = time_usec t + (unat ns + 500) div 1000) \<and>
    (\<exists>over t'. add_nanoseconds_mmssff ns t = Some (over, t') \<and> has_valid_mmssff t' \<and>
      t'\<lparr>mt_minute := mt_minute t, mt_second := mt_second t, mt_second_part := mt_second_part t\<rparr> = t \<and>
      time_usec t' + (if over then 3600000000 else 0) = time_usec t + (unat ns + 500) div 1000) \<and>
    (\<exists>over s'. sec6_add_nanoseconds ns s = Some (over, s') \<and> s6_usec s' \<le> 999999 \<and> s'\<lparr>s6_usec := s6_usec s\<rparr> = s \<and>
      unat (s6_usec s') + (if over then 1000000 else 0) = unat (s6_usec s) + (unat ns + 500) div 1000) \<and>
    (\<forall>m > 1000000000. add_nanoseconds_mmssff m t = None)"
  by (intro conjI add_nanoseconds_ssff_correct [OF assms(1,2)] add_nanoseconds_mmssff_correct [OF assms(1,2)]
      sec6_add_nanoseconds_correct [OF assms(1,3)] allI impI)
    (simp add: add_nanoseconds_mmssff_def add_nanoseconds_ssff_def not_le)

lemma nanosecond_rounding_witness:
  "\<exists>over t'. add_nanoseconds_mmssff 999999500 (time_hhmmssff_set_max 22 (zero_time TS_TIME)) = Some (over, t') \<and>
    time_usec t' + (if over then 3600000000 else 0) = 82800999999 \<and> has_valid_mmssff t'"
proof -
  have v: "has_valid_mmssff (time_hhmmssff_set_max 22 (zero_time TS_TIME))"
    and u: "time_usec (time_hhmmssff_set_max 22 (zero_time TS_TIME)) = 82799999999"
    by (simp_all add: has_valid_mmssff_def time_hhmmssff_set_max_def zero_time_def time_limits time_usec_def)
  have p: "(999999500 :: u32) \<le> 1000000000" "s6_usec sec6_reset \<le> 999999" by (simp_all add: sec6_reset_def)
  obtain over t' where "add_nanoseconds_mmssff 999999500 (time_hhmmssff_set_max 22 (zero_time TS_TIME)) = Some (over, t')"
    "has_valid_mmssff t'"
    "time_usec t' + (if over then 3600000000 else 0) = 82799999999 + (unat (999999500 :: u32) + 500) div 1000"
    using nanosecond_rounding [OF p(1) v p(2), THEN conjunct2, THEN conjunct1] unfolding u by (elim exE conjE)
  moreover have "82799999999 + (unat (999999500 :: u32) + 500) div 1000 = 82800999999" by simp
  ultimately show ?thesis by (intro exI [of _ over] exI [of _ t'] conjI) (simp_all only:)
qed

subsection \<open>The fields of EXTRACT\<close>

lemma sint_word_of_int_small:
  "- (2 ^ (LENGTH('a) - 1)) \<le> k \<Longrightarrow> k < 2 ^ (LENGTH('a) - 1) \<Longrightarrow> sint (word_of_int k :: 'a::len word) = k"
  by (simp add: signed_of_int signed_take_bit_int_eq_self)

lemma scast_word_of_int_small:
  "- (2 ^ (LENGTH('a) - 1)) \<le> k \<Longrightarrow> k < 2 ^ (LENGTH('a) - 1) \<Longrightarrow>
    scast (word_of_int k :: 'a::len word) = (word_of_int k :: 'b::len word)"
  unfolding scast_eq by (simp only: sint_word_of_int_small)

definition sign_of :: "mysql_time \<Rightarrow> int" where
  "sign_of t = (if mt_neg t then - 1 else 1)"

text \<open>A source whose fields EXTRACT can join: valid, with a day that fits an interval.\<close>

definition ex_ok :: "mysql_time \<Rightarrow> bool" where
  "ex_ok e \<longleftrightarrow> is_valid_extract_source_slow e = Some True \<and> has_valid_mmssff e \<and> mt_day e \<le> TIME_MAX_INTERVAL_DAY"

lemma ex_ok_bounds:
  assumes "ex_ok e"
  shows "unat (mt_day e) \<le> 3652058" "unat (mt_hour e) \<le> 23" "unat (mt_minute e) \<le> 59" "unat (mt_second e) \<le> 59"
    "unat (mt_second_part e) \<le> 999999"
  using assms by (auto simp: ex_ok_def is_valid_extract_source_slow_def is_valid_temporal_def has_valid_mmssff_def
      time_limits word_le_nat_alt word_less_nat_alt)

lemma ex_fields:
  assumes "ex_ok e"
  shows "ex_day e = Some (word_of_int (sign_of e * int (unat (mt_day e))))"
    "ex_hour e = Some (word_of_int (sign_of e * int (unat (mt_hour e))))"
    "ex_minute e = Some (word_of_int (sign_of e * int (unat (mt_minute e))))"
    "ex_second e = Some (word_of_int (sign_of e * int (unat (mt_second e))))"
    "ex_microsecond e = Some (word_of_int (sign_of e * int (unat (mt_second_part e))))"
proof -
  have g: "ex_get e = Some e" using assms by (simp add: ex_ok_def ex_get_def)
  have s: "ex_sign e = Some (word_of_int (sign_of e))" by (simp add: ex_sign_def g sign_of_def)
  have m: "w * word_of_int (sign_of e) = word_of_int (sign_of e * int (unat w))" for w :: u32
    by (simp add: sign_of_def)
  show "ex_day e = Some (word_of_int (sign_of e * int (unat (mt_day e))))"
    "ex_hour e = Some (word_of_int (sign_of e * int (unat (mt_hour e))))"
    "ex_minute e = Some (word_of_int (sign_of e * int (unat (mt_minute e))))"
    "ex_second e = Some (word_of_int (sign_of e * int (unat (mt_second e))))"
    "ex_microsecond e = Some (word_of_int (sign_of e * int (unat (mt_second_part e))))"
    by (simp_all only: ex_day_def ex_hour_def ex_minute_def ex_second_def ex_microsecond_def g s on_both_def
        option.map bind.bind_lunit m)
qed

lemma on_both_word:
  "on_both (\<lambda>x y. x * c + y) (Some (word_of_int a)) (Some (word_of_int b)) = Some (word_of_int a * c + word_of_int b :: 'a::len word)"
  by (simp add: on_both_def)

lemma ex_single:
  assumes "ex_ok e"
  shows "map_option sint (ex_day e) = Some (sign_of e * int (unat (mt_day e)))"
    "map_option sint (ex_hour e) = Some (sign_of e * int (unat (mt_hour e)))"
    "map_option sint (ex_minute e) = Some (sign_of e * int (unat (mt_minute e)))"
    "map_option sint (ex_second e) = Some (sign_of e * int (unat (mt_second e)))"
    "map_option sint (ex_microsecond e) = Some (sign_of e * int (unat (mt_second_part e)))"
proof -
  have v: "sint (word_of_int (sign_of e * int n) :: u32) = sign_of e * int n" if "n \<le> 3652058" for n
    using that by (intro sint_word_of_int_small) (auto simp: sign_of_def)
  show "map_option sint (ex_day e) = Some (sign_of e * int (unat (mt_day e)))"
    "map_option sint (ex_hour e) = Some (sign_of e * int (unat (mt_hour e)))"
    "map_option sint (ex_minute e) = Some (sign_of e * int (unat (mt_minute e)))"
    "map_option sint (ex_second e) = Some (sign_of e * int (unat (mt_second e)))"
    "map_option sint (ex_microsecond e) = Some (sign_of e * int (unat (mt_second_part e)))"
    unfolding ex_fields [OF assms] option.map option.inject
    by (rule v, use ex_ok_bounds [OF assms] in linarith)+
qed

text \<open>What every joined field is, as an integer.\<close>

abbreviation join2 :: "int \<Rightarrow> int \<Rightarrow> int" where "join2 x y \<equiv> x * 100 + y"
abbreviation join6 :: "int \<Rightarrow> int \<Rightarrow> int" where "join6 x y \<equiv> x * 1000000 + y"

lemma ex_joined:
  fixes e
  defines "s \<equiv> sign_of e" and "D \<equiv> int (unat (mt_day e))" and "H \<equiv> int (unat (mt_hour e))"
    and "M \<equiv> int (unat (mt_minute e))" and "S \<equiv> int (unat (mt_second e))" and "U \<equiv> int (unat (mt_second_part e))"
  assumes "ex_ok e"
  shows "map_option sint (ex_day_hour e) = Some (s * join2 D H)"
    "map_option sint (ex_day_minute e) = Some (s * join2 (join2 D H) M)"
    "map_option sint (ex_day_second e) = Some (s * join2 (join2 (join2 D H) M) S)"
    "map_option sint (ex_day_microsecond e) = Some (s * join6 (join2 (join2 (join2 D H) M) S) U)"
    "map_option sint (ex_hour_minute e) = Some (s * join2 H M)"
    "map_option sint (ex_hour_second e) = Some (s * join2 (join2 H M) S)"
    "map_option sint (ex_hour_microsecond e) = Some (s * join6 (join2 (join2 H M) S) U)"
    "map_option sint (ex_minute_second e) = Some (s * join2 M S)"
    "map_option sint (ex_minute_microsecond e) = Some (s * join6 (join2 M S) U)"
    "map_option sint (ex_second_microsecond e) = Some (s * join6 S U)"
proof -
  have b: "0 \<le> D" "D \<le> 3652058" "0 \<le> H" "H \<le> 23" "0 \<le> M" "M \<le> 59" "0 \<le> S" "S \<le> 59" "0 \<le> U" "U \<le> 999999"
    using ex_ok_bounds [OF assms(7)] unfolding D_def H_def M_def S_def U_def by linarith+
  have s: "s = 1 \<or> s = - 1" by (simp add: s_def sign_of_def)
  have sm: "- (2 ^ (LENGTH(32) - 1)) \<le> s * k \<and> s * k < 2 ^ (LENGTH(32) - 1)" if "0 \<le> k" "k < 2 ^ 31" for k
    using s that by auto
  have sm6: "- (2 ^ (LENGTH(64) - 1)) \<le> s * k \<and> s * k < 2 ^ (LENGTH(64) - 1)" if "0 \<le> k" "k < 2 ^ 63" for k
    using s that by auto
  note f = ex_fields [OF assms(7), folded s_def D_def H_def M_def S_def U_def]
  have c: "scast (word_of_int (s * k) :: u32) = (word_of_int (s * k) :: u64)" if "0 \<le> k" "k < 2 ^ 31" for k
    using sm [OF that] by (intro scast_word_of_int_small) simp_all
  have cs: "scast (word_of_int (s * D) :: u32) = (word_of_int (s * D) :: u64)"
    "scast (word_of_int (s * H) :: u32) = (word_of_int (s * H) :: u64)"
    "scast (word_of_int (s * M) :: u32) = (word_of_int (s * M) :: u64)"
    "scast (word_of_int (s * S) :: u32) = (word_of_int (s * S) :: u64)"
    "scast (word_of_int (s * U) :: u32) = (word_of_int (s * U) :: u64)"
    using b by (intro c; simp)+
  have j: "word_of_int (s * a) * 100 + word_of_int (s * b) = (word_of_int (s * join2 a b) :: 'w::len word)"
    "word_of_int (s * a) * 1000000 + word_of_int (s * b) = (word_of_int (s * join6 a b) :: 'w::len word)" for a b
    by (simp_all add: algebra_simps)
  have hm: "ex_hour_minute e = Some (word_of_int (s * join2 H M))"
    and ms: "ex_minute_second e = Some (word_of_int (s * join2 M S))"
    and dh: "ex_day_hour e = Some (word_of_int (s * join2 D H))"
    unfolding ex_hour_minute_def ex_minute_second_def ex_day_hour_def f on_both_def option.map bind.bind_lunit cs j by (rule refl)+
  have hs: "ex_hour_second e = Some (word_of_int (s * join2 (join2 H M) S))"
    and dm: "ex_day_minute e = Some (word_of_int (s * join2 (join2 D H) M))"
    and su: "ex_second_microsecond e = Some (word_of_int (s * join6 S U))"
    unfolding ex_hour_second_def ex_day_minute_def ex_second_microsecond_def hm dh f on_both_def option.map bind.bind_lunit cs j by (rule refl)+
  have ds: "ex_day_second e = Some (word_of_int (s * join2 (join2 (join2 D H) M) S))"
    unfolding ex_day_second_def dm f on_both_def option.map bind.bind_lunit cs j by (rule refl)
  have du: "ex_day_microsecond e = Some (word_of_int (s * join6 (join2 (join2 (join2 D H) M) S) U))"
    unfolding ex_day_microsecond_def ds f on_both_def option.map bind.bind_lunit cs j by (rule refl)
  have cm: "scast (word_of_int (s * join2 (join2 H M) S) :: u32) = (word_of_int (s * join2 (join2 H M) S) :: u64)"
    "scast (word_of_int (s * join2 M S) :: u32) = (word_of_int (s * join2 M S) :: u64)"
    using b by (intro c; simp)+
  have hu: "ex_hour_microsecond e = Some (word_of_int (s * join6 (join2 (join2 H M) S) U))"
    and mu: "ex_minute_microsecond e = Some (word_of_int (s * join6 (join2 M S) U))"
    unfolding ex_hour_microsecond_def ex_minute_microsecond_def hs ms f on_both_def option.map bind.bind_lunit cs cm j by (rule refl)+
  have v6: "sint (word_of_int (s * k) :: u64) = s * k" if "0 \<le> k" "k < 2 ^ 63" for k
    using sm6 [OF that] by (intro sint_word_of_int_small) simp_all
  have v: "sint (word_of_int (s * k) :: u32) = s * k" if "0 \<le> k" "k < 2 ^ 31" for k
    using sm [OF that] by (intro sint_word_of_int_small) simp_all
  show "map_option sint (ex_day_hour e) = Some (s * join2 D H)"
    "map_option sint (ex_day_minute e) = Some (s * join2 (join2 D H) M)"
    "map_option sint (ex_day_second e) = Some (s * join2 (join2 (join2 D H) M) S)"
    "map_option sint (ex_day_microsecond e) = Some (s * join6 (join2 (join2 (join2 D H) M) S) U)"
    "map_option sint (ex_hour_microsecond e) = Some (s * join6 (join2 (join2 H M) S) U)"
    "map_option sint (ex_minute_microsecond e) = Some (s * join6 (join2 M S) U)"
    "map_option sint (ex_second_microsecond e) = Some (s * join6 S U)"
    unfolding dh dm ds du hu mu su option.map option.inject using b by (intro v6; simp)+
  show "map_option sint (ex_hour_minute e) = Some (s * join2 H M)"
    "map_option sint (ex_hour_second e) = Some (s * join2 (join2 H M) S)"
    "map_option sint (ex_minute_second e) = Some (s * join2 M S)"
    unfolding hm hs ms option.map option.inject using b by (intro v; simp)+
qed

text \<open>Reading a joined DAY TO MICROSECOND value: the microseconds it stands for.\<close>

definition day_microsecond_value :: "int \<Rightarrow> int" where
  "day_microsecond_value x =
     (let n = \<bar>x\<bar>; a = n div 1000000; b = a div 100; c = b div 100 in
      sgn x * (((((c div 100) * 24 + c mod 100) * 60 + b mod 100) * 60 + a mod 100) * 1000000 + n mod 1000000))"

lemma joined_digits:
  "0 \<le> y \<Longrightarrow> y < 100 \<Longrightarrow> join2 x y div 100 = x" "0 \<le> y \<Longrightarrow> y < 100 \<Longrightarrow> join2 x y mod 100 = y"
  "0 \<le> y \<Longrightarrow> y < 1000000 \<Longrightarrow> join6 x y div 1000000 = x" "0 \<le> y \<Longrightarrow> y < 1000000 \<Longrightarrow> join6 x y mod 1000000 = y"
  by simp_all

lemma day_microsecond_value_joined:
  assumes "0 \<le> D" "0 \<le> H" "H < 100" "0 \<le> M" "M < 100" "0 \<le> S" "S < 100" "0 \<le> U" "U < 1000000" "s = 1 \<or> s = - 1"
  shows "day_microsecond_value (s * join6 (join2 (join2 (join2 D H) M) S) U) =
    s * ((((D * 24 + H) * 60 + M) * 60 + S) * 1000000 + U)"
proof -
  let ?n = "join6 (join2 (join2 (join2 D H) M) S) U"
  have n: "0 \<le> ?n" using assms by simp
  have a: "\<bar>s * ?n\<bar> = ?n" using assms(10) n by (auto simp: abs_mult)
  have z: "((D * 24 + H) * 60 + M) * 60 + S = 0 \<and> U = 0" if "?n = 0"
  proof -
    have "D = 0 \<and> H = 0 \<and> M = 0 \<and> S = 0 \<and> U = 0"
      using that assms(1,2,4,6,8) by (simp add: add_nonneg_eq_0_iff)
    then show ?thesis by simp
  qed
  have g: "sgn (s * ?n) * k = s * k" if "?n = 0 \<Longrightarrow> k = 0" for k
    using that assms(10) n by (cases "?n = 0") (auto simp: sgn_mult)
  show ?thesis
    unfolding day_microsecond_value_def Let_def a
    using assms by (simp only: joined_digits) (rule g, drule z, simp only: conj_absorb mult_zero_left add_0)
qed

text \<open>
  C32. \<open>EXTRACT\<close> from a TIME value, of either sign and up to the longest interval: the constructor
  succeeds and moves full days from the hours to the day, so that 24 days and hours make the
  hours again; it keeps the sign and the other fields. Each of the fifteen fields of a day or less is the
  decimal digits of its parts with the sign of the value, two for hours, minutes and seconds and six for
  the fraction, and no computation overflows; year and month are zero; and the value is read back from
  DAY TO MICROSECOND.
\<close>

theorem extract_from_time:
  assumes "mt_type t = TS_TIME" "has_zero_YYYYMMDD t" "has_valid_mmssff t" "mt_hour t \<le> TIME_MAX_INTERVAL_HOUR"
  shows "\<exists>e D H M S U s x. extract_source_make t = Some e \<and>
    s = (if mt_neg t then - 1 else 1) \<and> D = int (unat (mt_day e)) \<and> H = int (unat (mt_hour e)) \<and>
    M = int (unat (mt_minute t)) \<and> S = int (unat (mt_second t)) \<and> U = int (unat (mt_second_part t)) \<and>
    e\<lparr>mt_day := mt_day t, mt_hour := mt_hour t\<rparr> = t \<and> 24 * D + H = int (unat (mt_hour t)) \<and> H < 24 \<and>
    ex_year e = Some 0 \<and> ex_month e = Some 0 \<and>
    map_option sint (ex_day e) = Some (s * D) \<and>
    map_option sint (ex_hour e) = Some (s * H) \<and>
    map_option sint (ex_minute e) = Some (s * M) \<and>
    map_option sint (ex_second e) = Some (s * S) \<and>
    map_option sint (ex_microsecond e) = Some (s * U) \<and>
    map_option sint (ex_day_hour e) = Some (s * (D * 100 + H)) \<and>
    map_option sint (ex_day_minute e) = Some (s * ((D * 100 + H) * 100 + M)) \<and>
    map_option sint (ex_day_second e) = Some (s * (((D * 100 + H) * 100 + M) * 100 + S)) \<and>
    map_option sint (ex_day_microsecond e) = Some (s * ((((D * 100 + H) * 100 + M) * 100 + S) * 1000000 + U)) \<and>
    map_option sint (ex_hour_minute e) = Some (s * (H * 100 + M)) \<and>
    map_option sint (ex_hour_second e) = Some (s * ((H * 100 + M) * 100 + S)) \<and>
    map_option sint (ex_hour_microsecond e) = Some (s * (((H * 100 + M) * 100 + S) * 1000000 + U)) \<and>
    map_option sint (ex_minute_second e) = Some (s * (M * 100 + S)) \<and>
    map_option sint (ex_minute_microsecond e) = Some (s * ((M * 100 + S) * 1000000 + U)) \<and>
    map_option sint (ex_second_microsecond e) = Some (s * (S * 1000000 + U)) \<and>
    ex_day_microsecond e = Some x \<and> day_microsecond_value (sint x) = time_value t"
proof -
  define e where "e = t\<lparr>mt_day := mt_hour t div 24, mt_hour := mt_hour t mod 24\<rparr>"
  have h: "unat (mt_hour t) \<le> 87649415" using assms(4) by (simp add: time_limits word_le_nat_alt)
  have d: "unat (mt_day e) = unat (mt_hour t) div 24" and m: "unat (mt_hour e) = unat (mt_hour t) mod 24"
    by (simp_all add: e_def unat_div_distrib unat_mod_distrib)
  have "unat (mt_day e) \<le> 3652058" unfolding d using h by simp
  moreover have lt: "unat (mt_hour e) < 24" unfolding m by simp
  ultimately have ok: "ex_ok e"
    using assms(1-3) by (auto simp: ex_ok_def is_valid_extract_source_slow_def is_valid_temporal_def e_def
        has_zero_YYYYMMDD_def has_zero_YYYYMM_def has_valid_mmssff_def time_limits word_le_nat_alt word_less_nat_alt)
  have make: "extract_source_make t = Some e"
    using ok assms(1,2) by (simp add: extract_source_make_def time_to_daytime_interval_def extract_value_slow_def ex_ok_def e_def)
  have f: "mt_minute e = mt_minute t" "mt_second e = mt_second t" "mt_second_part e = mt_second_part t" "sign_of e = sign_of t"
    by (simp_all add: e_def sign_of_def)
  note b = ex_ok_bounds [OF ok]
  obtain x where x: "ex_day_microsecond e = Some x" "sint x = sign_of t *
      join6 (join2 (join2 (join2 (int (unat (mt_day e))) (int (unat (mt_hour e)))) (int (unat (mt_minute e)))) (int (unat (mt_second e))))
        (int (unat (mt_second_part e)))"
    using ex_joined(4) [OF ok] unfolding f(4) by (auto simp del: of_nat_unat)
  have tot: "24 * unat (mt_day e) + unat (mt_hour e) = unat (mt_hour t)" unfolding d m by simp
  have "day_microsecond_value (sint x) = sign_of t * int (time_usec t)"
  proof -
    have "day_microsecond_value (sint x) = sign_of t *
        ((((int (unat (mt_day e)) * 24 + int (unat (mt_hour e))) * 60 + int (unat (mt_minute e))) * 60 +
          int (unat (mt_second e))) * 1000000 + int (unat (mt_second_part e)))"
      unfolding x(2) using b by (intro day_microsecond_value_joined) (simp_all add: sign_of_def del: of_nat_unat)
    also have "int (unat (mt_day e)) * 24 + int (unat (mt_hour e)) = int (unat (mt_hour t))"
      using tot by linarith
    finally show ?thesis by (simp add: time_usec_def f del: of_nat_unat)
  qed
  then have v: "day_microsecond_value (sint x) = time_value t"
    by (simp add: sign_of_def time_value_def del: of_nat_unat)
  have frame: "e\<lparr>mt_day := mt_day t, mt_hour := mt_hour t\<rparr> = t" by (cases t) (simp add: e_def)
  have g: "ex_get e = Some e" using ok by (simp add: ex_ok_def ex_get_def)
  have ym: "ex_year e = Some 0" "ex_month e = Some 0"
    unfolding ex_year_def ex_month_def g using assms(2) by (simp_all add: e_def has_zero_YYYYMMDD_def has_zero_YYYYMM_def)
  have tot': "24 * int (unat (mt_day e)) + int (unat (mt_hour e)) = int (unat (mt_hour t))"
    and lt': "int (unat (mt_hour e)) < 24" using tot lt by linarith+
  show ?thesis
    by (rule exI [of _ e], intro exI conjI; (rule refl make ym frame tot' lt' x(1) v
          ex_joined [OF ok, unfolded f, unfolded sign_of_def] ex_single [OF ok, unfolded f, unfolded sign_of_def])?)
qed

lemma extract_from_time_witness:
  "\<exists>e x. extract_source_make ((time_hhmmssff_set_max 838 (zero_time TS_TIME))\<lparr>mt_neg := True\<rparr>) = Some e \<and>
    ex_day_microsecond e = Some x \<and> day_microsecond_value (sint x) = - 3020399999999"
proof -
  let ?t = "(time_hhmmssff_set_max 838 (zero_time TS_TIME))\<lparr>mt_neg := True\<rparr>"
  have p: "mt_type ?t = TS_TIME" "has_zero_YYYYMMDD ?t" "has_valid_mmssff ?t" "mt_hour ?t \<le> TIME_MAX_INTERVAL_HOUR"
    "time_value ?t = - 3020399999999"
    by (simp_all add: time_hhmmssff_set_max_def zero_time_def time_limits has_zero_YYYYMMDD_def has_valid_mmssff_def
        time_value_def time_usec_def)
  from extract_from_time [OF p(1-4)] obtain e x where "extract_source_make ?t = Some e" "ex_day_microsecond e = Some x"
    "day_microsecond_value (sint x) = time_value ?t" by (elim exE conjE)
  then show ?thesis unfolding p(5) by (intro exI conjI)
qed

end
