(* ===== verification/Time_Values.thy ===== *)
theory Time_Values
  imports Temporal_Values
begin

text \<open>
  The class \<open>Time\<close> of \<open>sql_type.h\<close>: a \<open>mysql_time\<close> that is, outside its own member functions, a valid
  TIME value or undefined (\<open>TS_NONE\<close>). Every constructor and modification is modelled with the
  assertions the code has; \<open>None\<close> is a failed one. Functions of \<open>sql_type.cc\<close> are the fields of
  \<open>time_members\<close>. The lemmas show that the class keeps its invariant, that no assertion fails, and
  what the conversions of a DATETIME to a TIME keep.
\<close>

subsection \<open>Options\<close>

datatype datetime_to_time_mode =
    DATETIME_TO_TIME_DISALLOW
  | DATETIME_TO_TIME_YYYYMMDD_000000DD_MIX_TO_HOURS
  | DATETIME_TO_TIME_YYYYMMDD_TRUNCATE
  | DATETIME_TO_TIME_YYYYMMDD_00000000_ONLY
  | DATETIME_TO_TIME_MINUS_CURRENT_DATE

record time_options =
  opt_mode :: date_mode_t
  opt_datetime_to_time :: datetime_to_time_mode

definition time_options_make ::
  "date_conv_mode_t \<Rightarrow> time_round_mode_t \<Rightarrow> datetime_to_time_mode \<Rightarrow> time_options option" where
  "time_options_make fuzzydate round_mode dtmode =
     map_option (\<lambda>m. \<lparr>opt_mode = m, opt_datetime_to_time = dtmode\<rparr>) (temporal_options fuzzydate round_mode)"

definition default_datetime_to_time_mode :: datetime_to_time_mode where
  "default_datetime_to_time_mode = DATETIME_TO_TIME_YYYYMMDD_000000DD_MIX_TO_HOURS"

definition time_default_flags :: date_conv_mode_t where
  "time_default_flags = conv_or (Date_conv_mode TIME_ONLY) (Date_conv_mode INVALID_DATES)"

definition time_comparison_flags :: date_conv_mode_t where
  "time_comparison_flags = conv_or (conv_or (Date_conv_mode TIME_ONLY) (Date_conv_mode INVALID_DATES)) (Date_conv_mode FUZZY_DATES)"

text \<open>\<open>default_round_mode (thd)\<close> is an argument of the constructors that use it.\<close>

definition options_for_cast :: "date_mode_t \<Rightarrow> time_round_mode_t \<Rightarrow> time_options option" where
  "options_for_cast mode default_round =
     time_options_make (conv_or time_default_flags (mode_and_conv mode (Date_conv_mode FUZZY_DATES))) default_round
       DATETIME_TO_TIME_YYYYMMDD_TRUNCATE"

definition options_for_round :: "time_round_mode_t \<Rightarrow> time_options option" where
  "options_for_round round_mode = time_options_make time_default_flags round_mode DATETIME_TO_TIME_DISALLOW"

definition options_cmp :: "time_round_mode_t \<Rightarrow> datetime_to_time_mode \<Rightarrow> time_options option" where
  "options_cmp default_round dtmode = time_options_make time_comparison_flags default_round dtmode"

text \<open>
  Members and functions that are defined in other files. \<open>round_nsec\<close> and \<open>round_dec\<close> are
  \<open>round_or_set_max\<close> with and without nanoseconds, \<open>time_diff\<close> the variant of \<open>calc_time_diff\<close> that
  writes a time, \<open>current_date\<close> what \<open>set_current_date\<close> writes.
\<close>

record time_members =
  round_nsec :: "u32 \<Rightarrow> u32 \<Rightarrow> u32 \<Rightarrow> mysql_time \<Rightarrow> mysql_time \<times> u32"
  round_dec :: "u32 \<Rightarrow> u32 \<Rightarrow> mysql_time \<Rightarrow> mysql_time \<times> u32"
  current_date :: mysql_time
  time_diff :: "mysql_time \<Rightarrow> mysql_time \<Rightarrow> int \<Rightarrow> date_mode_t \<Rightarrow> bool \<times> mysql_time"

subsection \<open>Validity\<close>

definition is_valid_time_slow :: "mysql_time \<Rightarrow> bool" where
  "is_valid_time_slow t \<longleftrightarrow> mt_type t = TS_TIME \<and> has_zero_YYYYMMDD t \<and> has_valid_mmssff t"

definition time_value_slow :: "mysql_time \<Rightarrow> bool" where
  "time_value_slow t \<longleftrightarrow> mt_type t = TS_NONE \<or> is_valid_time_slow t"

definition is_valid_time :: "mysql_time \<Rightarrow> bool option" where
  "is_valid_time t = guard (time_value_slow t) (mt_type t = TS_TIME)"

text \<open>\<open>DBUG_ASSERT (is_valid_value_slow ())\<close> at the end of a modification.\<close>

definition time_checked :: "mysql_time \<times> u32 \<Rightarrow> (mysql_time \<times> u32) option" where
  "time_checked r = guard (time_value_slow (fst r)) r"

subsection \<open>Conversion to a TIME\<close>

definition hhmmssff_copy :: "mysql_time \<Rightarrow> mysql_time \<Rightarrow> mysql_time" where
  "hhmmssff_copy from t = t\<lparr>mt_hour := mt_hour from, mt_minute := mt_minute from, mt_second := mt_second from,
     mt_second_part := mt_second_part from\<rparr>"

definition mix_to_hours :: "u32 \<Rightarrow> u32 \<Rightarrow> u32 \<Rightarrow> u32 \<Rightarrow> mysql_time \<Rightarrow> mysql_time \<times> u32" where
  "mix_to_hours warn from_year from_month from_day t =
     (if from_year \<noteq> 0 \<or> from_month \<noteq> 0 then (t, warn OR NOTE_TRUNCATED)
      else (t\<lparr>mt_hour := mt_hour t + from_day * 24\<rparr>, warn))"

definition minus_current_date :: "time_lib \<Rightarrow> time_members \<Rightarrow> mysql_time \<Rightarrow> mysql_time option" where
  "minus_current_date L C t =
     (case time_diff C t (current_date C) 1 (Date_mode 0) of (_, tmp) \<Rightarrow>
        (case check_time_range L tmp TIME_SECOND_PART_DIGITS 0 of (_, t, _) \<Rightarrow>
           guard (is_valid_time t = Some True) t))"

definition valid_datetime_to_valid_time ::
  "time_lib \<Rightarrow> time_members \<Rightarrow> time_options \<Rightarrow> mysql_time \<Rightarrow> u32 \<Rightarrow> (mysql_time \<times> u32) option" where
  "valid_datetime_to_valid_time L C opt t warn =
     (if (mt_type t = TS_DATE \<or> mt_type t = TS_DATETIME) \<and> mt_day t < 32 \<and> mt_hour t < 24
      then Option.bind
        (if opt_datetime_to_time opt = DATETIME_TO_TIME_MINUS_CURRENT_DATE
         then map_option (\<lambda>t. (t, warn)) (minus_current_date L C t)
         else case (if opt_datetime_to_time opt = DATETIME_TO_TIME_YYYYMMDD_000000DD_MIX_TO_HOURS
                    then mix_to_hours warn (mt_year t) (mt_month t) (mt_day t) t else (t, warn)) of
           (t, warn) \<Rightarrow> Some (t\<lparr>mt_year := 0, mt_month := 0, mt_day := 0, mt_type := TS_TIME\<rparr>, warn))
        (\<lambda>r. guard (is_valid_time_slow (fst r)) r)
      else None)"

definition valid_MYSQL_TIME_to_valid_value ::
  "time_lib \<Rightarrow> time_members \<Rightarrow> time_options \<Rightarrow> mysql_time \<Rightarrow> u32 \<Rightarrow> (mysql_time \<times> u32) option" where
  "valid_MYSQL_TIME_to_valid_value L C opt t warn =
     (case mt_type t of
        TS_NONE \<Rightarrow> Some (t, warn)
      | TS_ERROR \<Rightarrow> Some (set_zero_time L TS_TIME, warn)
      | TS_TIME \<Rightarrow> guard (is_valid_time_slow t) (t, warn)
      | _ \<Rightarrow>
        if opt_datetime_to_time opt = DATETIME_TO_TIME_YYYYMMDD_00000000_ONLY \<and>
          (mt_year t \<noteq> 0 \<or> mt_month t \<noteq> 0 \<or> mt_day t \<noteq> 0)
        then Some (make_from_out_of_range t)
        else if opt_datetime_to_time opt = DATETIME_TO_TIME_DISALLOW then Some (make_from_out_of_range t)
        else valid_datetime_to_valid_time L C opt t warn)"

definition xxx_to_time_result_to_valid_value ::
  "time_lib \<Rightarrow> time_members \<Rightarrow> time_options \<Rightarrow> mysql_time \<Rightarrow> u32 \<Rightarrow> (mysql_time \<times> u32) option" where
  "xxx_to_time_result_to_valid_value L C opt t warn =
     (if mt_type t \<noteq> TS_ERROR then valid_MYSQL_TIME_to_valid_value L C opt t warn else None)"

definition adjust_time_range_or_invalidate :: "time_lib \<Rightarrow> mysql_time \<Rightarrow> u32 \<Rightarrow> (mysql_time \<times> u32) option" where
  "adjust_time_range_or_invalidate L t warn =
     (case check_time_range L t TIME_SECOND_PART_DIGITS warn of
        (failed, t, warn) \<Rightarrow> time_checked (if failed then t\<lparr>mt_type := TS_NONE\<rparr> else t, warn))"

subsection \<open>Rounding\<close>

definition time_fraction_remainder :: "u64 list \<Rightarrow> u32 \<Rightarrow> mysql_time \<Rightarrow> u32 option" where
  "time_fraction_remainder tab dec t =
     (if is_valid_time t = Some True then temporal_fraction_remainder tab dec t else None)"

definition time_trunc :: "u64 list \<Rightarrow> u32 \<Rightarrow> mysql_time \<Rightarrow> mysql_time option" where
  "time_trunc tab dec t =
     Option.bind (is_valid_time t) (\<lambda>valid.
       Option.bind (if valid then my_time_trunc tab t dec else Some t) (\<lambda>t. guard (time_value_slow t) t))"

definition time_ceiling :: "u64 list \<Rightarrow> time_members \<Rightarrow> mysql_time \<Rightarrow> u32 \<Rightarrow> (mysql_time \<times> u32) option" where
  "time_ceiling tab C t warn =
     Option.bind (is_valid_time t) (\<lambda>valid.
       Option.bind
         (if valid then
            (if mt_neg t then map_option (\<lambda>t. (t, warn)) (my_time_trunc tab t 0)
             else if mt_second_part t \<noteq> 0 then Some (round_nsec C 0 warn 999999999 t) else Some (t, warn))
          else Some (t, warn))
         time_checked)"

definition time_floor :: "u64 list \<Rightarrow> time_members \<Rightarrow> mysql_time \<Rightarrow> u32 \<Rightarrow> (mysql_time \<times> u32) option" where
  "time_floor tab C t warn =
     Option.bind (is_valid_time t) (\<lambda>valid.
       Option.bind
         (if valid then
            (if \<not> mt_neg t then map_option (\<lambda>t. (t, warn)) (my_time_trunc tab t 0)
             else if mt_second_part t \<noteq> 0 then Some (round_nsec C 0 warn 999999999 t) else Some (t, warn))
          else Some (t, warn))
         time_checked)"

definition time_round :: "time_members \<Rightarrow> u32 \<Rightarrow> mysql_time \<Rightarrow> u32 \<Rightarrow> (mysql_time \<times> u32) option" where
  "time_round C dec t warn =
     Option.bind (is_valid_time t) (\<lambda>valid. time_checked (if valid then round_dec C dec warn t else (t, warn)))"

text \<open>Without a case for the mode the switch falls through and the value stays as it is.\<close>

definition time_round_mode_to ::
  "u64 list \<Rightarrow> time_members \<Rightarrow> u32 \<Rightarrow> time_round_mode_t \<Rightarrow> mysql_time \<Rightarrow> u32 \<Rightarrow> (mysql_time \<times> u32) option" where
  "time_round_mode_to tab C dec mode t warn =
     (if round_bits mode = FRAC_NONE
      then (if time_fraction_remainder tab dec t = Some 0 then map_option (\<lambda>t. (t, warn)) (time_trunc tab dec t) else None)
      else if round_bits mode = FRAC_TRUNCATE then map_option (\<lambda>t. (t, warn)) (time_trunc tab dec t)
      else if round_bits mode = FRAC_ROUND then time_round C dec t warn
      else Some (t, warn))"

subsection \<open>Constructors\<close>

definition time_null :: "mysql_time \<Rightarrow> mysql_time" where
  "time_null t = t\<lparr>mt_type := TS_NONE\<rparr>"

definition time_from_mysql_time :: "time_lib \<Rightarrow> time_members \<Rightarrow> mysql_time \<Rightarrow> time_options \<Rightarrow> mysql_time option" where
  "time_from_mysql_time L C ltime opt =
     (if is_valid_temporal ltime = Some True
      then map_option fst (valid_MYSQL_TIME_to_valid_value L C opt ltime 0) else None)"

text \<open>From a string, with what \<open>str_to_datetime_or_date_or_time\<close> answered.\<close>

definition time_from_parsed ::
  "time_lib \<Rightarrow> time_members \<Rightarrow> time_options \<Rightarrow> bool \<times> mysql_time \<times> time_status \<Rightarrow> (mysql_time \<times> time_status) option" where
  "time_from_parsed L C opt r =
     (case r of (failed, t, st) \<Rightarrow>
        if failed then Some (t\<lparr>mt_type := TS_NONE\<rparr>, st)
        else map_option (\<lambda>(t, w). (t, st\<lparr>st_warnings := w\<rparr>))
          (xxx_to_time_result_to_valid_value L C opt t (st_warnings st)))"

text \<open>The last arguments are the memory of the object and the warnings before the call.\<close>

definition time_from_sec6 ::
  "time_lib \<Rightarrow> time_members \<Rightarrow> 'z sec6_scheme \<Rightarrow> time_options \<Rightarrow> mysql_time \<Rightarrow> u32 \<Rightarrow> (mysql_time \<times> u32) option" where
  "time_from_sec6 L C nr opt t warn =
     Option.bind (to_datetime_or_time L nr t warn (Date_conv_mode INVALID_DATES)) (\<lambda>(failed, t, warn).
       xxx_to_time_result_to_valid_value L C opt (if failed then t\<lparr>mt_type := TS_NONE\<rparr> else t) warn)"

definition time_from_sec9 ::
  "time_lib \<Rightarrow> time_members \<Rightarrow> sec9 \<Rightarrow> time_options \<Rightarrow> mysql_time \<Rightarrow> u32 \<Rightarrow> (mysql_time \<times> u32) option" where
  "time_from_sec9 L C nr opt t warn =
     Option.bind (time_from_sec6 L C (sec6.truncate nr) opt t warn) (\<lambda>(t, warn).
       Option.bind (is_valid_time t) (\<lambda>valid.
         if valid
         then map_option (\<lambda>r. if round_eq r (Time_round_mode FRAC_ROUND) then round_nsec C 6 warn (s9_nsec nr) t else (t, warn))
                (to_time_round_mode (opt_mode opt))
         else Some (t, warn)))"

definition time_from_longlong ::
  "time_lib \<Rightarrow> time_members \<Rightarrow> longlong_hybrid \<Rightarrow> time_options \<Rightarrow> mysql_time \<Rightarrow> u32 \<Rightarrow> (mysql_time \<times> u32) option" where
  "time_from_longlong L C nr opt t warn = time_from_sec6 L C (sec6_make_from_int nr) opt t warn"

definition time_from_longlong_dec ::
  "time_lib \<Rightarrow> time_members \<Rightarrow> longlong_hybrid \<Rightarrow> time_options \<Rightarrow> u32 \<Rightarrow> mysql_time \<Rightarrow> u32 \<Rightarrow> (mysql_time \<times> u32) option" where
  "time_from_longlong_dec L C nr opt dec t warn =
     Option.bind (time_from_longlong L C nr opt t warn) (\<lambda>(t, warn).
       map_option (\<lambda>t. (t, warn)) (time_trunc (log_10_int L) dec t))"

definition time_from_sec9_dec ::
  "time_lib \<Rightarrow> time_members \<Rightarrow> sec9 \<Rightarrow> time_options \<Rightarrow> u32 \<Rightarrow> mysql_time \<Rightarrow> u32 \<Rightarrow> (mysql_time \<times> u32) option" where
  "time_from_sec9_dec L C nr opt dec t warn =
     Option.bind (time_from_sec9 L C nr opt t warn) (\<lambda>(t, warn).
       Option.bind (to_time_round_mode (opt_mode opt)) (\<lambda>mode.
         time_round_mode_to (log_10_int L) C dec mode t warn))"

definition time_from_parsed_dec ::
  "time_lib \<Rightarrow> time_members \<Rightarrow> time_options \<Rightarrow> u32 \<Rightarrow> bool \<times> mysql_time \<times> time_status \<Rightarrow> (mysql_time \<times> time_status) option" where
  "time_from_parsed_dec L C opt dec r =
     Option.bind (time_from_parsed L C opt r) (\<lambda>(t, st).
       Option.bind (to_time_round_mode (opt_mode opt)) (\<lambda>mode.
         map_option (\<lambda>(t, w). (t, st\<lparr>st_warnings := w\<rparr>))
           (time_round_mode_to (log_10_int L) C dec mode t (st_warnings st))))"

subsection \<open>Reading a value\<close>

definition time_get_mysql_time :: "mysql_time \<Rightarrow> mysql_time option" where
  "time_get_mysql_time t = guard (is_valid_time_slow t) t"

definition time_copy_to_mysql_time :: "mysql_time \<Rightarrow> mysql_time \<Rightarrow> (bool \<times> mysql_time) option" where
  "time_copy_to_mysql_time t ltime =
     (if mt_type t = TS_NONE then Some (True, ltime\<lparr>mt_type := TS_NONE\<rparr>)
      else guard (is_valid_time_slow t) (False, t))"

definition time_cmp :: "time_lib \<Rightarrow> mysql_time \<Rightarrow> mysql_time \<Rightarrow> int option" where
  "time_cmp L t other =
     guard (is_valid_time_slow t \<and> is_valid_time_slow other)
       (let p0 = pack_time L t; p1 = pack_time L other in if p0 <s p1 then - 1 else if p1 <s p0 then 1 else 0)"

text \<open>The sum is computed in \<open>unsigned long\<close> and converted to \<open>longlong\<close>.\<close>

definition to_seconds_abs :: "mysql_time \<Rightarrow> u64 option" where
  "to_seconds_abs t =
     guard (is_valid_time_slow t) (ucast (mt_hour t * 3600 + mt_minute t * 60 + mt_second t))"

definition to_seconds :: "mysql_time \<Rightarrow> u64 option" where
  "to_seconds t = map_option (\<lambda>s. if mt_neg t then - s else s) (to_seconds_abs t)"

definition time_to_bool :: "time_lib \<Rightarrow> mysql_time \<Rightarrow> bool option" where
  "time_to_bool L t =
     map_option (\<lambda>valid. valid \<and> (TIME_to_ulonglong_time L t \<noteq> 0 \<or> mt_second_part t \<noteq> 0)) (is_valid_time t)"

definition time_to_longlong :: "time_lib \<Rightarrow> mysql_time \<Rightarrow> u64 option" where
  "time_to_longlong L t =
     map_option (\<lambda>valid. if \<not> valid then 0
         else if mt_neg t then - TIME_to_ulonglong_time L t else TIME_to_ulonglong_time L t)
       (is_valid_time t)"

definition time_to_packed :: "time_lib \<Rightarrow> mysql_time \<Rightarrow> u64 option" where
  "time_to_packed L t = map_option (\<lambda>valid. if valid then pack_time L t else 0) (is_valid_time t)"

definition valid_time_to_packed :: "time_lib \<Rightarrow> mysql_time \<Rightarrow> u64 option" where
  "valid_time_to_packed L t = guard (is_valid_time_slow t) (pack_time L t)"

subsection \<open>The invariant\<close>

text \<open>
  \<open>time_ok\<close> is the invariant the class documents; \<open>date_ok\<close> a valid DATE or DATETIME as far as the
  conversions rely on it.
\<close>

definition time_ok :: "mysql_time \<Rightarrow> bool" where
  "time_ok t \<longleftrightarrow> mt_type t = TS_NONE \<or> (is_valid_time_slow t \<and> mt_hour t \<le> TIME_MAX_HOUR)"

definition date_ok :: "mysql_time \<Rightarrow> bool" where
  "date_ok t \<longleftrightarrow> (mt_type t = TS_DATE \<or> mt_type t = TS_DATETIME) \<and> mt_day t < 32 \<and> mt_hour t < 24 \<and>
     has_valid_mmssff t \<and> \<not> mt_neg t"

text \<open>
  What the functions of the other files do, as far as the class relies on it: a failure comes with
  a warning, a success with a valid value; a member of \<open>Time\<close> leaves a valid value; a difference to
  the current date is a valid TIME once \<open>check_time_range\<close> has cut it.
\<close>

definition numbers_ok :: "time_lib \<Rightarrow> bool" where
  "numbers_ok L \<longleftrightarrow>
     (\<forall>neg nr sp to w. case number_to_time_only L neg nr sp TIME_MAX_HOUR to w of
        (rc, t, w') \<Rightarrow> if rc \<noteq> 0 then w' \<noteq> 0 else time_ok t \<and> mt_type t = TS_TIME) \<and>
     (\<forall>nr sp to fl w. case number_to_datetime_or_date L nr sp to fl w of
        (rc, t, w') \<Rightarrow> if rc < 0 then w' \<noteq> 0 else date_ok t)"

definition members_ok :: "time_lib \<Rightarrow> time_members \<Rightarrow> bool" where
  "members_ok L C \<longleftrightarrow>
     (\<forall>t dec w ns. time_ok t \<longrightarrow> time_ok (fst (round_nsec C dec w ns t)) \<and> time_ok (fst (round_dec C dec w t))) \<and>
     (\<forall>t. date_ok t \<longrightarrow> (case check_time_range L (snd (time_diff C t (current_date C) 1 (Date_mode 0))) TIME_SECOND_PART_DIGITS 0 of
        (_, t', _) \<Rightarrow> time_ok t' \<and> mt_type t' = TS_TIME))"

definition time_lib_ok :: "time_lib \<Rightarrow> bool" where
  "time_lib_ok L \<longleftrightarrow> log_10_int_ok (log_10_int L) \<and> (\<forall>k. set_zero_time L k = zero_time k) \<and> numbers_ok L"

lemma time_ok_slow: "time_ok t \<Longrightarrow> time_value_slow t"
  by (auto simp: time_ok_def time_value_slow_def)

lemma is_valid_time_ok: "time_ok t \<Longrightarrow> is_valid_time t = Some (mt_type t = TS_TIME)"
  by (simp add: is_valid_time_def time_ok_slow)

lemma time_ok_none [simp]: "time_ok (t\<lparr>mt_type := TS_NONE\<rparr>)"
  by (simp add: time_ok_def)

lemma time_ok_zero [simp]: "time_ok (zero_time TS_TIME)"
  by (simp add: time_ok_def is_valid_time_slow_def zero_time_def has_zero_YYYYMMDD_def has_valid_mmssff_def)

lemma time_ok_positive_zero:
  assumes "time_ok t"
  shows "time_ok (positive_zero (trunc_part t d))"
proof -
  have "mt_second_part (trunc_part t d) \<le> mt_second_part t"
    unfolding word_le_nat_alt trunc_part_fraction by simp
  then have p: "mt_second_part t \<le> k \<Longrightarrow> mt_second_part (trunc_part t d) \<le> k" for k by (rule order_trans)
  have f: "mt_type (positive_zero (trunc_part t d)) = mt_type t" "mt_hour (positive_zero (trunc_part t d)) = mt_hour t"
    "mt_minute (positive_zero (trunc_part t d)) = mt_minute t" "mt_second (positive_zero (trunc_part t d)) = mt_second t"
    "has_zero_YYYYMMDD (positive_zero (trunc_part t d)) = has_zero_YYYYMMDD t"
    by (simp_all add: positive_zero_def trunc_part_def has_zero_YYYYMMDD_def)
  show ?thesis
    using assms p unfolding time_ok_def is_valid_time_slow_def has_valid_mmssff_def f positive_zero_simps by blast
qed

lemma time_ok_fraction: "time_ok t \<Longrightarrow> mt_type t = TS_TIME \<Longrightarrow> unat (mt_second_part t) \<le> 999999"
  by (auto simp: time_ok_def is_valid_time_slow_def has_valid_mmssff_def time_limits word_le_nat_alt)

lemma time_trunc_ok:
  assumes "log_10_int_ok tab" "time_ok t" "d \<le> 6"
  shows "time_trunc tab d t = Some (if mt_type t = TS_TIME then positive_zero (trunc_part t d) else t)"
proof (cases "mt_type t = TS_TIME")
  case True
  have "unat (mt_second_part t) < 2 ^ 31" using time_ok_fraction [OF assms(2) True] by simp
  then show ?thesis
    using True assms time_ok_slow [OF time_ok_positive_zero [OF assms(2), of d]]
    by (simp add: time_trunc_def is_valid_time_ok my_time_trunc_ok)
next
  case False
  then show ?thesis using assms(2) by (simp add: time_trunc_def is_valid_time_ok time_ok_slow)
qed

lemma time_checked_ok: "time_ok (fst r) \<Longrightarrow> time_checked r = Some r"
  by (simp add: time_checked_def time_ok_slow)

text \<open>The part of a DATETIME that is added to the hours leaves them below 768.\<close>

lemma mixed_hour:
  assumes "d < 32" "h < 24"
  shows "unat (h + d * 24 :: u32) = unat h + unat d * 24" "unat h + unat d * 24 \<le> 767"
proof -
  have b: "unat d \<le> 31" "unat h \<le> 23" using assms by (simp_all add: word_less_nat_alt)
  have "unat (d * 24) = unat d * 24" using b by (subst unat_mult_lem [THEN iffD1]) simp_all
  then show "unat (h + d * 24 :: u32) = unat h + unat d * 24" using b by (subst unat_plus) simp_all
  show "unat h + unat d * 24 \<le> 767" using b by linarith
qed

lemma valid_datetime_to_valid_time_ok:
  assumes "members_ok L C" "date_ok t"
  shows "\<exists>r. valid_datetime_to_valid_time L C opt t w = Some r \<and> time_ok (fst r) \<and> mt_type (fst r) = TS_TIME"
proof -
  have d: "mt_type t = TS_DATE \<or> mt_type t = TS_DATETIME" "mt_day t < 32" "mt_hour t < 24" "has_valid_mmssff t"
    using assms(2) by (simp_all add: date_ok_def)
  define clear :: "mysql_time \<Rightarrow> mysql_time" where
    "clear = (\<lambda>t. t\<lparr>mt_year := 0, mt_month := 0, mt_day := 0, mt_type := TS_TIME\<rparr>)"
  have c: "time_ok (clear s) \<and> is_valid_time_slow (clear s) \<and> mt_type (clear s) = TS_TIME"
    if "has_valid_mmssff s" "mt_hour s \<le> 838" for s
    using that by (simp add: clear_def time_ok_def is_valid_time_slow_def has_zero_YYYYMMDD_def has_valid_mmssff_def time_limits)
  have h: "mt_hour t \<le> 838" "mt_hour t + mt_day t * 24 \<le> 838"
    using d(3) mixed_hour [OF d(2,3)] by (simp_all add: word_le_nat_alt word_less_nat_alt)
  show ?thesis
  proof (cases "opt_datetime_to_time opt = DATETIME_TO_TIME_MINUS_CURRENT_DATE")
    case True
    obtain x t' y where diff: "check_time_range L (snd (time_diff C t (current_date C) 1 (Date_mode 0))) TIME_SECOND_PART_DIGITS 0 = (x, t', y)"
      by (cases "check_time_range L (snd (time_diff C t (current_date C) 1 (Date_mode 0))) TIME_SECOND_PART_DIGITS 0")
    then have ok: "time_ok t'" "mt_type t' = TS_TIME" using assms by (auto simp: members_ok_def)
    then have "minus_current_date L C t = Some t'"
      using diff by (auto simp: minus_current_date_def is_valid_time_ok split: prod.splits)
    then show ?thesis using True d(1-3) ok by (simp add: valid_datetime_to_valid_time_def time_ok_def)
  next
    case False
    have v: "has_valid_mmssff (t\<lparr>mt_hour := mt_hour t + mt_day t * 24\<rparr>)" using d(4) by (simp add: has_valid_mmssff_def)
    obtain s w' where s: "(if opt_datetime_to_time opt = DATETIME_TO_TIME_YYYYMMDD_000000DD_MIX_TO_HOURS
        then mix_to_hours w (mt_year t) (mt_month t) (mt_day t) t else (t, w)) = (s, w')" "has_valid_mmssff s" "mt_hour s \<le> 838"
      using d(4) v h by (fastforce simp: mix_to_hours_def split: if_splits)
    have "valid_datetime_to_valid_time L C opt t w = Some (clear s, w')"
      using False d(1-3) c [OF s(2,3)] unfolding valid_datetime_to_valid_time_def s(1) by (simp add: clear_def)
    then show ?thesis using c [OF s(2,3)] by simp
  qed
qed

lemma valid_value_ok:
  assumes "time_lib_ok L" "members_ok L C" "date_ok t \<or> time_ok t"
  shows "\<exists>r. valid_MYSQL_TIME_to_valid_value L C opt t w = Some r \<and> time_ok (fst r)"
proof -
  consider "date_ok t" | "mt_type t = TS_NONE" | "mt_type t = TS_TIME" "is_valid_time_slow t" "time_ok t"
    using assms(3) by (auto simp: time_ok_def is_valid_time_slow_def)
  then show ?thesis
  proof cases
    case 1
    then have "mt_type t = TS_DATE \<or> mt_type t = TS_DATETIME" by (simp add: date_ok_def)
    with valid_datetime_to_valid_time_ok [OF assms(2) 1, of opt w] show ?thesis
      by (auto simp: valid_MYSQL_TIME_to_valid_value_def make_from_out_of_range_def)
  next
    case 2
    then show ?thesis by (simp add: valid_MYSQL_TIME_to_valid_value_def time_ok_def)
  next
    case 3
    then show ?thesis by (simp add: valid_MYSQL_TIME_to_valid_value_def)
  qed
qed

lemma to_datetime_or_time_ok:
  assumes "numbers_ok L"
  shows "\<exists>f t' w'. to_datetime_or_time L nr t w m = Some (f, t', w') \<and> (f \<or> date_ok t' \<or> (time_ok t' \<and> mt_type t' = TS_TIME))"
proof -
  obtain a b c where n: "number_to_time_only L (s6_neg nr) (s6_sec nr) (s6_usec nr) TIME_MAX_HOUR t w = (a, b, c)"
    by (cases "number_to_time_only L (s6_neg nr) (s6_sec nr) (s6_usec nr) TIME_MAX_HOUR t w")
  let ?fl = "conv_bits (conv_and m TIME_MODE_FOR_XXX_TO_DATE)"
  obtain e f g where d: "number_to_datetime_or_date L (s6_sec nr) (s6_usec nr) t ?fl w = (e, f, g)"
    by (cases "number_to_datetime_or_date L (s6_sec nr) (s6_usec nr) t ?fl w")
  have a: "if a \<noteq> 0 then c \<noteq> 0 else time_ok b \<and> mt_type b = TS_TIME"
    using assms [unfolded numbers_ok_def, THEN conjunct1, rule_format, of "s6_neg nr" "s6_sec nr" "s6_usec nr" t w]
    unfolding n prod.case .
  have e: "if e < 0 then g \<noteq> 0 else date_ok f"
    using assms [unfolded numbers_ok_def, THEN conjunct2, rule_format, of "s6_sec nr" "s6_usec nr" t ?fl w]
    unfolding d prod.case .
  define P where "P = (\<lambda>(x, t', w' :: u32). if x then w' \<noteq> 0 else date_ok t' \<or> (time_ok t' \<and> mt_type t' = TS_TIME))"
  have P: "P (e < 0, f, g)" "P (a \<noteq> 0, b, c)" using a e by (auto simp: P_def split: if_splits)
  have fin: "\<exists>f t' w'. guard (w0 \<noteq> 0 \<or> \<not> x0) (x0, t0, w0) = Some (f, t', w') \<and>
      (f \<or> date_ok t' \<or> (time_ok t' \<and> mt_type t' = TS_TIME))" if "P (x0, t0, w0)" for x0 t0 w0
    using that by (cases x0) (auto simp: P_def)
  show ?thesis
  proof (cases "s6_sec nr > 9999999 \<and> s6_sec nr \<le> 99991231235959 \<and> \<not> s6_neg nr")
    case True
    then show ?thesis unfolding to_datetime_or_time_def n d prod.case if_P [OF True] by (intro fin P)
  next
    case False
    then show ?thesis unfolding to_datetime_or_time_def n d prod.case if_not_P [OF False] by (intro fin P)
  qed
qed

lemma time_from_sec6_ok:
  assumes "time_lib_ok L" "members_ok L C"
  shows "\<exists>r. time_from_sec6 L C nr opt t w = Some r \<and> time_ok (fst r)"
proof -
  obtain f t' w' where c: "to_datetime_or_time L nr t w (Date_conv_mode INVALID_DATES) = Some (f, t', w')"
    "f \<or> date_ok t' \<or> (time_ok t' \<and> mt_type t' = TS_TIME)"
    using to_datetime_or_time_ok assms(1) unfolding time_lib_ok_def by blast
  let ?t = "if f then t'\<lparr>mt_type := TS_NONE\<rparr> else t'"
  have ok: "date_ok ?t \<or> time_ok ?t" "mt_type ?t \<noteq> TS_ERROR" using c(2) by (auto simp: date_ok_def)
  show ?thesis
    using valid_value_ok [OF assms ok(1), of opt w'] ok(2) unfolding time_from_sec6_def c(1)
    by (simp add: xxx_to_time_result_to_valid_value_def)
qed

lemma time_from_sec9_ok:
  assumes "time_lib_ok L" "members_ok L C" "to_time_round_mode (opt_mode opt) \<noteq> None"
  shows "\<exists>r. time_from_sec9 L C nr opt t w = Some r \<and> time_ok (fst r)"
proof -
  obtain t1 w1 where s: "time_from_sec6 L C (sec6.truncate nr) opt t w = Some (t1, w1)" "time_ok t1"
    using time_from_sec6_ok [OF assms(1,2), of "sec6.truncate nr" opt t w] by auto
  moreover have "time_ok (fst (round_nsec C 6 w1 (s9_nsec nr) t1))" using assms(2) s(2) by (simp add: members_ok_def)
  moreover obtain y where "to_time_round_mode (opt_mode opt) = Some y" using assms(3) by blast
  ultimately show ?thesis
    using s(2) by (cases "round_eq y (Time_round_mode FRAC_ROUND)")
      (simp_all add: time_from_sec9_def is_valid_time_ok s del: split_paired_Ex)
qed

lemma time_round_ok:
  assumes "log_10_int_ok tab" "members_ok L C" "time_ok t"
  shows "\<exists>r. time_round C d t w = Some r \<and> time_ok (fst r)"
    and "\<exists>r. time_ceiling tab C t w = Some r \<and> time_ok (fst r)"
    and "\<exists>r. time_floor tab C t w = Some r \<and> time_ok (fst r)"
proof -
  have rd: "time_ok (fst (round_dec C d w t))" "time_ok (fst (round_nsec C 0 w 999999999 t))"
    using assms(2,3) by (simp_all add: members_ok_def)
  show "\<exists>r. time_round C d t w = Some r \<and> time_ok (fst r)"
    using assms(3) rd by (simp add: time_round_def is_valid_time_ok time_checked_ok)
  have tr: "my_time_trunc tab t 0 = Some (positive_zero (trunc_part t 0))" if "mt_type t = TS_TIME"
    using time_ok_fraction [OF assms(3) that] by (intro my_time_trunc_ok [OF assms(1)]) simp_all
  note ok = time_ok_positive_zero [OF assms(3), of 0]
  show "\<exists>r. time_ceiling tab C t w = Some r \<and> time_ok (fst r)"
    using assms(3) rd tr ok by (simp add: time_ceiling_def is_valid_time_ok time_checked_ok del: split_paired_Ex)
  show "\<exists>r. time_floor tab C t w = Some r \<and> time_ok (fst r)"
    using assms(3) rd tr ok by (simp add: time_floor_def is_valid_time_ok time_checked_ok del: split_paired_Ex)
qed

text \<open>
  Rounding with a mode. Without a rounding mode the code truncates, after it has asserted that the value
  is valid and that there is nothing to cut off: an undefined value, which truncation itself accepts,
  fails the assertion of \<open>fraction_remainder\<close>.
\<close>

definition exact_time :: "u32 \<Rightarrow> mysql_time \<Rightarrow> bool" where
  "exact_time d t \<longleftrightarrow> mt_type t = TS_TIME \<and> unat (mt_second_part t) mod frac_unit d = 0"

lemma time_fraction_zero:
  assumes "log_10_int_ok tab" "time_ok t" "d \<le> 6"
  shows "time_fraction_remainder tab d t = Some 0 \<longleftrightarrow> exact_time d t"
proof (cases "mt_type t = TS_TIME")
  case True
  have u: "unat (mt_second_part t) \<le> 999999" using time_ok_fraction [OF assms(2) True] .
  then have f: "my_time_fraction_remainder tab (mt_second_part t) d = Some (of_nat (unat (mt_second_part t) mod frac_unit d))"
    by (intro fraction_remainder [OF assms(1,3)]) simp
  have "unat (of_nat (unat (mt_second_part t) mod frac_unit d) :: u32) = unat (mt_second_part t) mod frac_unit d"
    using le_less_trans [OF le_trans [OF mod_less_eq_dividend u]] by (simp add: unsigned_of_nat take_bit_nat_eq_self)
  then show ?thesis
    using True assms(2) f by (simp add: time_fraction_remainder_def temporal_fraction_remainder_def is_valid_time_ok
        exact_time_def word_unat_eq_iff)
next
  case False
  then show ?thesis using assms(2) by (simp add: time_fraction_remainder_def is_valid_time_ok exact_time_def)
qed

lemma exact_trunc: "exact_time d t \<Longrightarrow> trunc_part t d = t"
  by (cases t) (simp add: exact_time_def trunc_part_def)

lemma time_round_mode_ok:
  assumes "log_10_int_ok tab" "members_ok L C" "time_ok t" "d \<le> 6"
  shows "if round_bits mode = FRAC_NONE
    then time_round_mode_to tab C d mode t w = (if exact_time d t then Some (positive_zero t, w) else None)
    else \<exists>r. time_round_mode_to tab C d mode t w = Some r \<and> time_ok (fst r)"
proof (cases "round_bits mode = FRAC_NONE")
  case True
  have "time_trunc tab d t = Some (positive_zero t)" if "exact_time d t"
    using that exact_trunc [OF that] time_trunc_ok [OF assms(1,3,4)] by (simp add: exact_time_def)
  then show ?thesis
    using True time_fraction_zero [OF assms(1,3,4)] by (simp add: time_round_mode_to_def)
next
  case False
  have "time_ok (if mt_type t = TS_TIME then positive_zero (trunc_part t d) else t)"
    using assms(3) time_ok_positive_zero by simp
  then show ?thesis
    using False assms(3) time_round_ok(1) [OF assms(1-3), of d w] time_trunc_ok [OF assms(1,3,4)]
    by (simp add: time_round_mode_to_def del: split_paired_Ex)
qed

lemma round_none_undefined:
  assumes "mt_type t = TS_NONE"
  shows "time_round_mode_to tab C dec (Time_round_mode FRAC_NONE) t w = None" "time_trunc tab dec t = Some t"
  using assms by (simp_all add: time_round_mode_to_def time_fraction_remainder_def is_valid_time_def time_value_slow_def time_trunc_def)

lemma time_from_sec9_dec_ok:
  assumes "time_lib_ok L" "members_ok L C" "to_time_round_mode (opt_mode opt) = Some mode" "d \<le> 6"
    and "time_from_sec9 L C nr opt t w = Some (u, v)" "time_ok u"
  shows "if round_bits mode = FRAC_NONE
    then time_from_sec9_dec L C nr opt d t w = (if exact_time d u then Some (positive_zero u, v) else None)
    else \<exists>r. time_from_sec9_dec L C nr opt d t w = Some r \<and> time_ok (fst r)"
proof -
  have "log_10_int_ok (log_10_int L)" using assms(1) by (simp add: time_lib_ok_def)
  from time_round_mode_ok [OF this assms(2,6,4), of mode v] show ?thesis
    by (simp only: time_from_sec9_dec_def assms(3,5) bind.bind_lunit prod.case)
qed

subsection \<open>Conversions by mode\<close>

definition drop_date :: "mysql_time \<Rightarrow> mysql_time" where
  "drop_date t = t\<lparr>mt_year := 0, mt_month := 0, mt_day := 0, mt_type := TS_TIME\<rparr>"

lemma drop_date_valid: "has_valid_mmssff t \<Longrightarrow> is_valid_time_slow (drop_date t)"
  by (simp add: drop_date_def is_valid_time_slow_def has_zero_YYYYMMDD_def has_valid_mmssff_def)

lemma time_value_drop_date [simp]: "time_value (drop_date t) = time_value t"
  by (simp add: drop_date_def time_value_def time_usec_def)

lemma convert_kept:
  assumes "date_ok t"
    and "opt_datetime_to_time opt = DATETIME_TO_TIME_YYYYMMDD_TRUNCATE \<or>
      opt_datetime_to_time opt = DATETIME_TO_TIME_YYYYMMDD_00000000_ONLY \<and> has_zero_YYYYMMDD t"
  shows "valid_MYSQL_TIME_to_valid_value L C opt t w = Some (drop_date t, w)"
proof -
  have "valid_datetime_to_valid_time L C opt t w = Some (drop_date t, w)"
    using assms drop_date_valid [of t] by (auto simp: valid_datetime_to_valid_time_def date_ok_def drop_date_def)
  then show ?thesis
    using assms by (auto simp: valid_MYSQL_TIME_to_valid_value_def date_ok_def has_zero_YYYYMMDD_def)
qed

lemma convert_mixed:
  assumes "date_ok t" "opt_datetime_to_time opt = DATETIME_TO_TIME_YYYYMMDD_000000DD_MIX_TO_HOURS"
  shows "valid_MYSQL_TIME_to_valid_value L C opt t w =
    Some (if has_zero_YYYYMM t then (drop_date (t\<lparr>mt_hour := mt_hour t + mt_day t * 24\<rparr>), w)
          else (drop_date t, w OR NOTE_TRUNCATED))"
proof -
  let ?m = "t\<lparr>mt_hour := mt_hour t + mt_day t * 24\<rparr>"
  have v: "is_valid_time_slow (drop_date t)" "is_valid_time_slow (drop_date ?m)"
    using assms(1) by (auto intro!: drop_date_valid simp: date_ok_def has_valid_mmssff_def)
  have "valid_datetime_to_valid_time L C opt t w =
      Some (if has_zero_YYYYMM t then (drop_date ?m, w) else (drop_date t, w OR NOTE_TRUNCATED))"
    using assms v by (auto simp: valid_datetime_to_valid_time_def date_ok_def drop_date_def mix_to_hours_def has_zero_YYYYMM_def)
  then show ?thesis using assms by (auto simp: valid_MYSQL_TIME_to_valid_value_def date_ok_def)
qed

lemma convert_refused:
  assumes "date_ok t"
    and "opt_datetime_to_time opt = DATETIME_TO_TIME_DISALLOW \<or>
      opt_datetime_to_time opt = DATETIME_TO_TIME_YYYYMMDD_00000000_ONLY \<and> \<not> has_zero_YYYYMMDD t"
  shows "valid_MYSQL_TIME_to_valid_value L C opt t w = Some (t\<lparr>mt_type := TS_NONE\<rparr>, WARN_OUT_OF_RANGE)"
  using assms by (auto simp: valid_MYSQL_TIME_to_valid_value_def date_ok_def has_zero_YYYYMMDD_def make_from_out_of_range_def)

lemma time_value_mixed:
  assumes "date_ok t"
  shows "time_value (t\<lparr>mt_hour := mt_hour t + mt_day t * 24\<rparr>) = time_value t + int (unat (mt_day t)) * 86400000000"
proof -
  have "unat (mt_hour t + mt_day t * 24) = unat (mt_hour t) + unat (mt_day t) * 24"
    using assms by (intro mixed_hour) (simp_all add: date_ok_def)
  then show ?thesis using assms by (simp add: time_value_def time_usec_def date_ok_def algebra_simps del: of_nat_unat)
qed

text \<open>An undefined value stays as it is.\<close>

lemma time_undefined_kept:
  assumes "mt_type t = TS_NONE"
  shows "time_ceiling tab C t w = Some (t, w)" "time_floor tab C t w = Some (t, w)" "time_round C d t w = Some (t, w)"
  using assms by (simp_all add: time_ceiling_def time_floor_def time_round_def is_valid_time_def time_value_slow_def time_checked_def)

lemma time_from_mysql_time_ok:
  assumes "time_lib_ok L" "members_ok L C" "date_ok t \<or> (time_ok t \<and> mt_type t = TS_TIME)"
  shows "\<exists>r. time_from_mysql_time L C t opt = Some r \<and> time_ok r"
proof -
  have t: "date_ok t \<or> time_ok t" "is_valid_temporal t = Some True"
    using assms(3) by (auto simp: is_valid_temporal_def date_ok_def)
  show ?thesis using valid_value_ok [OF assms(1,2) t(1), of opt 0] t(2) by (auto simp: time_from_mysql_time_def)
qed

subsection \<open>Properties\<close>

text \<open>Cutting and rounding a TIME, and the constructor that rounds.\<close>

lemma time_modifications_ok:
  assumes tab: "log_10_int_ok (log_10_int L)" and members: "members_ok L C" and t: "time_ok t" "d \<le> 6"
  shows "(time_trunc (log_10_int L) d t = Some (if mt_type t = TS_TIME then positive_zero (trunc_part t d) else t) \<and>
       time_ok (if mt_type t = TS_TIME then positive_zero (trunc_part t d) else t)) \<and>
      (\<exists>r. time_ceiling (log_10_int L) C t w = Some r \<and> time_ok (fst r) \<and> (mt_type t = TS_NONE \<longrightarrow> r = (t, w))) \<and>
      (\<exists>r. time_floor (log_10_int L) C t w = Some r \<and> time_ok (fst r) \<and> (mt_type t = TS_NONE \<longrightarrow> r = (t, w))) \<and>
      (\<exists>r. time_round C d t w = Some r \<and> time_ok (fst r) \<and> (mt_type t = TS_NONE \<longrightarrow> r = (t, w))) \<and>
      (\<forall>mode. if round_bits mode = FRAC_NONE
        then time_round_mode_to (log_10_int L) C d mode t w = (if exact_time d t then Some (positive_zero t, w) else None)
        else \<exists>r. time_round_mode_to (log_10_int L) C d mode t w = Some r \<and> time_ok (fst r))"
proof (intro conjI allI)
  note ok = time_round_ok [OF tab members t(1)] and none = time_undefined_kept [of t]
  show "time_trunc (log_10_int L) d t = Some (if mt_type t = TS_TIME then positive_zero (trunc_part t d) else t)"
    by (rule time_trunc_ok [OF tab t])
  show "time_ok (if mt_type t = TS_TIME then positive_zero (trunc_part t d) else t)"
    using t(1) time_ok_positive_zero by simp
  show "\<exists>r. time_ceiling (log_10_int L) C t w = Some r \<and> time_ok (fst r) \<and> (mt_type t = TS_NONE \<longrightarrow> r = (t, w))"
    using ok(2) [of w] none by fastforce
  show "\<exists>r. time_floor (log_10_int L) C t w = Some r \<and> time_ok (fst r) \<and> (mt_type t = TS_NONE \<longrightarrow> r = (t, w))"
    using ok(3) [of w] none by fastforce
  show "\<exists>r. time_round C d t w = Some r \<and> time_ok (fst r) \<and> (mt_type t = TS_NONE \<longrightarrow> r = (t, w))"
    using ok(1) [of d w] none by fastforce
  show "if round_bits mode = FRAC_NONE
      then time_round_mode_to (log_10_int L) C d mode t w = (if exact_time d t then Some (positive_zero t, w) else None)
      else \<exists>r. time_round_mode_to (log_10_int L) C d mode t w = Some r \<and> time_ok (fst r)" for mode
    by (rule time_round_mode_ok [OF tab members t])
qed

lemma time_from_sec9_values_ok:
  assumes "time_lib_ok L" "members_ok L C" "to_time_round_mode (opt_mode opt) = Some mode"
  shows "\<exists>u v. time_from_sec9 L C nr opt t w = Some (u, v) \<and> time_ok u \<and>
        (\<forall>d\<le>6. if round_bits mode = FRAC_NONE
          then time_from_sec9_dec L C nr opt d t w = (if exact_time d u then Some (positive_zero u, v) else None)
          else \<exists>r. time_from_sec9_dec L C nr opt d t w = Some r \<and> time_ok (fst r))"
proof -
  obtain u v where u: "time_from_sec9 L C nr opt t w = Some (u, v)" "time_ok u"
    using time_from_sec9_ok [OF assms(1,2), of opt nr t w] assms(3) by auto
  then show ?thesis using time_from_sec9_dec_ok [OF assms _ u] by blast
qed

text \<open>
  C30. The class \<open>Time\<close> keeps its invariant, a valid TIME of at most 838 hours or the undefined value,
  given that the members defined in \<open>sql_type.cc\<close>, which round up and subtract the current date, and
  the conversions of numbers in \<open>sql_time.cc\<close> leave values in their documented ranges. From any valid
  DATE, DATETIME or TIME and under every mode of conversion the constructor leaves such a value, and so
  do the constructors from numbers, whatever the number. Truncation cuts a valid TIME to the unit of
  its decimals and takes the sign of a zero away; ceiling, floor and rounding leave such a value; all
  four leave an undefined value as it is. Rounding with a mode, and the constructor with decimals,
  which applies it, do the same when there is a mode. Without one they succeed exactly for a valid TIME
  with nothing below the decimals, which they keep up to the sign of a zero, and otherwise, for an
  undefined value too, they fail an assertion. No other assertion fails.
\<close>

theorem time_values_valid:
  assumes "time_lib_ok L" "members_ok L C"
  shows "(\<forall>t opt. date_ok t \<or> (time_ok t \<and> mt_type t = TS_TIME) \<longrightarrow>
      (\<exists>r. time_from_mysql_time L C t opt = Some r \<and> time_ok r)) \<and>
    (\<forall>nr opt t w. \<exists>r. time_from_longlong L C nr opt t w = Some r \<and> time_ok (fst r)) \<and>
    (\<forall>nr opt t w mode. to_time_round_mode (opt_mode opt) = Some mode \<longrightarrow>
      (\<exists>u v. time_from_sec9 L C nr opt t w = Some (u, v) \<and> time_ok u \<and>
        (\<forall>d\<le>6. if round_bits mode = FRAC_NONE
          then time_from_sec9_dec L C nr opt d t w = (if exact_time d u then Some (positive_zero u, v) else None)
          else \<exists>r. time_from_sec9_dec L C nr opt d t w = Some r \<and> time_ok (fst r)))) \<and>
    (\<forall>t d w. time_ok t \<and> d \<le> 6 \<longrightarrow>
      (time_trunc (log_10_int L) d t = Some (if mt_type t = TS_TIME then positive_zero (trunc_part t d) else t) \<and>
       time_ok (if mt_type t = TS_TIME then positive_zero (trunc_part t d) else t)) \<and>
      (\<exists>r. time_ceiling (log_10_int L) C t w = Some r \<and> time_ok (fst r) \<and> (mt_type t = TS_NONE \<longrightarrow> r = (t, w))) \<and>
      (\<exists>r. time_floor (log_10_int L) C t w = Some r \<and> time_ok (fst r) \<and> (mt_type t = TS_NONE \<longrightarrow> r = (t, w))) \<and>
      (\<exists>r. time_round C d t w = Some r \<and> time_ok (fst r) \<and> (mt_type t = TS_NONE \<longrightarrow> r = (t, w))) \<and>
      (\<forall>mode. if round_bits mode = FRAC_NONE
        then time_round_mode_to (log_10_int L) C d mode t w = (if exact_time d t then Some (positive_zero t, w) else None)
        else \<exists>r. time_round_mode_to (log_10_int L) C d mode t w = Some r \<and> time_ok (fst r)))"
proof (intro conjI allI)
  have tab: "log_10_int_ok (log_10_int L)" using assms(1) by (simp add: time_lib_ok_def)
  fix t :: mysql_time and d w :: u32
  show "time_ok t \<and> d \<le> 6 \<longrightarrow>
      (time_trunc (log_10_int L) d t = Some (if mt_type t = TS_TIME then positive_zero (trunc_part t d) else t) \<and>
       time_ok (if mt_type t = TS_TIME then positive_zero (trunc_part t d) else t)) \<and>
      (\<exists>r. time_ceiling (log_10_int L) C t w = Some r \<and> time_ok (fst r) \<and> (mt_type t = TS_NONE \<longrightarrow> r = (t, w))) \<and>
      (\<exists>r. time_floor (log_10_int L) C t w = Some r \<and> time_ok (fst r) \<and> (mt_type t = TS_NONE \<longrightarrow> r = (t, w))) \<and>
      (\<exists>r. time_round C d t w = Some r \<and> time_ok (fst r) \<and> (mt_type t = TS_NONE \<longrightarrow> r = (t, w))) \<and>
      (\<forall>mode. if round_bits mode = FRAC_NONE
        then time_round_mode_to (log_10_int L) C d mode t w = (if exact_time d t then Some (positive_zero t, w) else None)
        else \<exists>r. time_round_mode_to (log_10_int L) C d mode t w = Some r \<and> time_ok (fst r))"
    by (rule impI, elim conjE) (rule time_modifications_ok [OF tab assms(2)])
next
  fix t opt show "date_ok t \<or> (time_ok t \<and> mt_type t = TS_TIME) \<longrightarrow> (\<exists>r. time_from_mysql_time L C t opt = Some r \<and> time_ok r)"
    by (rule impI) (rule time_from_mysql_time_ok [OF assms])
next
  fix nr opt t w
  show "\<exists>r. time_from_longlong L C nr opt t w = Some r \<and> time_ok (fst r)"
    unfolding time_from_longlong_def by (rule time_from_sec6_ok [OF assms])
next
  fix nr and opt :: time_options and t w mode
  show "to_time_round_mode (opt_mode opt) = Some mode \<longrightarrow>
      (\<exists>u v. time_from_sec9 L C nr opt t w = Some (u, v) \<and> time_ok u \<and>
        (\<forall>d\<le>6. if round_bits mode = FRAC_NONE
          then time_from_sec9_dec L C nr opt d t w = (if exact_time d u then Some (positive_zero u, v) else None)
          else \<exists>r. time_from_sec9_dec L C nr opt d t w = Some r \<and> time_ok (fst r)))"
    by (rule impI) (rule time_from_sec9_values_ok [OF assms])
qed

text \<open>
  C31. What a valid DATE or DATETIME becomes as a TIME. The modes that mix days, truncate, or accept only
  a zero date make a TIME without year, month and day, in which the sign, minutes, seconds and
  fraction are those of the value: mixing adds 24 hours a day to the hours, without an overflow, of a
  value without year and month, and drops any other date with a note; truncating drops the date
  silently; accepting only a zero date makes a TIME of a zero date, without a warning, and leaves the
  undefined value with a warning for any other date. The mode that disallows the conversion always
  leaves the undefined value with a warning. The mode that subtracts the current date is not covered.
\<close>

theorem datetime_to_time_conversions:
  fixes L C mode t
  defines "conv \<equiv> \<lambda>m w. valid_MYSQL_TIME_to_valid_value L C \<lparr>opt_mode = mode, opt_datetime_to_time = m\<rparr> t w"
    and "as_time \<equiv> \<lambda>h. t\<lparr>mt_year := 0, mt_month := 0, mt_day := 0, mt_hour := h, mt_type := TS_TIME\<rparr>"
    and "undefined_value \<equiv> t\<lparr>mt_type := TS_NONE\<rparr>"
  assumes "date_ok t"
  shows "(\<exists>h. conv DATETIME_TO_TIME_YYYYMMDD_000000DD_MIX_TO_HOURS w =
        Some (as_time h, if has_zero_YYYYMM t then w else w OR NOTE_TRUNCATED) \<and>
      unat h = unat (mt_hour t) + (if has_zero_YYYYMM t then 24 * unat (mt_day t) else 0) \<and>
      time_value (as_time h) = time_value t + (if has_zero_YYYYMM t then int (unat (mt_day t)) * 86400000000 else 0)) \<and>
    conv DATETIME_TO_TIME_YYYYMMDD_TRUNCATE w = Some (as_time (mt_hour t), w) \<and>
    conv DATETIME_TO_TIME_YYYYMMDD_00000000_ONLY w =
      Some (if has_zero_YYYYMMDD t then (as_time (mt_hour t), w) else (undefined_value, WARN_OUT_OF_RANGE)) \<and>
    conv DATETIME_TO_TIME_DISALLOW w = Some (undefined_value, WARN_OUT_OF_RANGE)"
proof -
  have d: "drop_date (t\<lparr>mt_hour := h\<rparr>) = as_time h" "drop_date t = as_time (mt_hour t)" for h
    by (cases t, simp add: drop_date_def as_time_def)+
  have v: "time_value (as_time h) = time_value (t\<lparr>mt_hour := h\<rparr>)" for h
    by (simp add: as_time_def time_value_def time_usec_def)
  have same: "t\<lparr>mt_hour := mt_hour t\<rparr> = t" by (cases t) simp
  have h: "unat (mt_hour t + mt_day t * 24) = unat (mt_hour t) + 24 * unat (mt_day t)"
    using assms(4) by (subst mixed_hour) (simp_all add: date_ok_def)
  have mix: "conv DATETIME_TO_TIME_YYYYMMDD_000000DD_MIX_TO_HOURS w =
      Some (as_time (if has_zero_YYYYMM t then mt_hour t + mt_day t * 24 else mt_hour t),
        if has_zero_YYYYMM t then w else w OR NOTE_TRUNCATED)"
    using assms(4) by (simp add: conv_def convert_mixed d)
  have "\<exists>h. conv DATETIME_TO_TIME_YYYYMMDD_000000DD_MIX_TO_HOURS w =
        Some (as_time h, if has_zero_YYYYMM t then w else w OR NOTE_TRUNCATED) \<and>
      unat h = unat (mt_hour t) + (if has_zero_YYYYMM t then 24 * unat (mt_day t) else 0) \<and>
      time_value (as_time h) = time_value t + (if has_zero_YYYYMM t then int (unat (mt_day t)) * 86400000000 else 0)"
    by (intro exI conjI, rule mix) (use assms(4) in \<open>simp_all add: h v same time_value_mixed del: of_nat_unat\<close>)
  then show ?thesis
    using assms(4) by (cases "has_zero_YYYYMMDD t") (simp_all add: conv_def convert_kept convert_refused d undefined_value_def)
qed

text \<open>
  One possible library: numbers are read digit by digit, ranges are cut at the largest TIME, and the
  functions no statement below depends on are constant.
\<close>

definition sample_time :: "bool \<Rightarrow> u64 \<Rightarrow> u32 \<Rightarrow> mysql_time" where
  "sample_time neg nr sp = (zero_time TS_TIME)\<lparr>mt_hour := ucast (nr div 10000), mt_minute := ucast (nr div 100 mod 100),
     mt_second := ucast (nr mod 100), mt_second_part := sp, mt_neg := neg\<rparr>"

definition sample_datetime :: "u64 \<Rightarrow> u32 \<Rightarrow> mysql_time" where
  "sample_datetime nr sp = (sample_time False (nr mod 1000000) sp)\<lparr>mt_year := ucast (nr div 10000000000),
     mt_month := ucast (nr div 100000000 mod 100), mt_day := ucast (nr div 1000000 mod 100), mt_type := TS_DATETIME\<rparr>"

definition sample_lib :: time_lib where
  "sample_lib = \<lparr>log_10_int = powers_of_ten, set_zero_time = zero_time,
     lib_check_date = (\<lambda>t nonzero flags w. (False, w)),
     check_time_range = (\<lambda>t dec w. if time_ok t \<and> mt_type t = TS_TIME then (False, t, w)
        else (True, time_hhmmssff_set_max TIME_MAX_HOUR (zero_time TS_TIME), WARN_OUT_OF_RANGE)),
     check_datetime_range = (\<lambda>t. \<not> date_ok t),
     number_to_time_only = (\<lambda>neg nr sp mh to w. let t = sample_time neg nr sp in
        if time_ok t then (0, t, w) else (1, to, WARN_OUT_OF_RANGE)),
     number_to_datetime_or_date = (\<lambda>nr sp to flags w. let t = sample_datetime nr sp in
        if date_ok t then (0, t, w) else (- 1, to, WARN_TRUNCATED)),
     calc_time_diff = (\<lambda>a b sign. (False, 0, 0)), calc_time_from_sec = (\<lambda>t s u. t),
     get_date_from_daynr = (\<lambda>n. (True, 0, 0, 0)), adjust_time_range_with_warn = (\<lambda>t dec. (False, t)),
     calc_daynr = (\<lambda>y m d. y * 372 + m * 31 + d), calc_weekday = (\<lambda>n sunday. uint n mod 7), calc_week = (\<lambda>t b. (0, mt_year t)),
     pack_time = (\<lambda>t. ucast (mt_hour t)), TIME_to_ulonglong = (\<lambda>t. ucast (mt_hour t)),
     TIME_to_ulonglong_date = (\<lambda>t. ucast (mt_day t)), TIME_to_ulonglong_time = (\<lambda>t. ucast (mt_hour t)),
     TIME_to_ulonglong_datetime = (\<lambda>t. ucast (mt_day t))\<rparr>"

definition sample_members :: time_members where
  "sample_members = \<lparr>round_nsec = (\<lambda>dec w ns t. (t, w)), round_dec = (\<lambda>dec w t. (t, w)), current_date = zero_time TS_DATE,
     time_diff = (\<lambda>a b sign mode. (False, a\<lparr>mt_type := TS_TIME\<rparr>))\<rparr>"

lemma time_ok_max: "time_ok (time_hhmmssff_set_max TIME_MAX_HOUR (zero_time TS_TIME))"
  by (simp add: time_ok_def is_valid_time_slow_def time_hhmmssff_set_max_def zero_time_def has_zero_YYYYMMDD_def
      has_valid_mmssff_def time_limits)

lemma sample_ok: "time_lib_ok sample_lib" "members_ok sample_lib sample_members"
proof -
  have "mt_type (sample_time neg nr sp) = TS_TIME" for neg nr sp by (simp add: sample_time_def zero_time_def)
  then show "time_lib_ok sample_lib"
    by (simp add: time_lib_ok_def numbers_ok_def sample_lib_def Let_def WARN_OUT_OF_RANGE_def WARN_TRUNCATED_def)
  have "mt_type (time_hhmmssff_set_max TIME_MAX_HOUR (zero_time TS_TIME)) = TS_TIME"
    by (simp add: time_hhmmssff_set_max_def zero_time_def)
  then show "members_ok sample_lib sample_members"
    using time_ok_max by (simp add: members_ok_def sample_lib_def sample_members_def)
qed

lemma time_values_valid_witness:
  "(\<exists>r. time_from_longlong sample_lib sample_members (Longlong_hybrid 8385959 False)
      \<lparr>opt_mode = Date_mode TIME_ONLY, opt_datetime_to_time = DATETIME_TO_TIME_DISALLOW\<rparr> (zero_time TS_TIME) 0 = Some r \<and> time_ok (fst r)) \<and>
   (\<exists>r. time_trunc powers_of_ten 3 (time_hhmmssff_set_max TIME_MAX_HOUR (zero_time TS_TIME)) = Some r \<and> time_ok r)"
proof -
  have p: "log_10_int sample_lib = powers_of_ten" by (simp add: sample_lib_def)
  note v = time_values_valid [OF sample_ok, unfolded p]
  show ?thesis
    using v [THEN conjunct2, THEN conjunct1] v [THEN conjunct2, THEN conjunct2, THEN conjunct2,
        THEN spec [of _ "time_hhmmssff_set_max TIME_MAX_HOUR (zero_time TS_TIME)"], THEN spec [of _ 3]]
    by (simp add: time_ok_max del: split_paired_Ex)
qed

lemma datetime_to_time_conversions_witness:
  "\<exists>h. valid_MYSQL_TIME_to_valid_value sample_lib sample_members
      \<lparr>opt_mode = Date_mode 0, opt_datetime_to_time = DATETIME_TO_TIME_YYYYMMDD_000000DD_MIX_TO_HOURS\<rparr>
      ((zero_time TS_DATETIME)\<lparr>mt_day := 31, mt_hour := 23\<rparr>) 0 = Some ((zero_time TS_TIME)\<lparr>mt_hour := h\<rparr>, 0) \<and> unat h = 767"
proof -
  let ?t = "(zero_time TS_DATETIME)\<lparr>mt_day := 31, mt_hour := 23\<rparr>"
  have t: "date_ok ?t" "has_zero_YYYYMM ?t" "unat (mt_hour ?t) = 23" "unat (mt_day ?t) = 31"
    by (simp_all add: date_ok_def zero_time_def has_valid_mmssff_def has_zero_YYYYMM_def)
  have r: "?t\<lparr>mt_year := 0, mt_month := 0, mt_day := 0, mt_hour := h, mt_type := TS_TIME\<rparr> = (zero_time TS_TIME)\<lparr>mt_hour := h\<rparr>" for h
    by (simp add: zero_time_def)
  show ?thesis
    using datetime_to_time_conversions [OF t(1), THEN conjunct1, of sample_lib sample_members "Date_mode 0" 0]
    unfolding t(3,4) if_P [OF t(2)] r by auto
qed

subsection \<open>Seconds and back\<close>

lemma unat_seconds:
  fixes h m s :: u32
  assumes "h \<le> 838" "m \<le> 59" "s \<le> 59"
  shows "unat (h * 3600 + m * 60 + s) = unat h * 3600 + unat m * 60 + unat s"
proof -
  have b: "unat h \<le> 838" "unat m \<le> 59" "unat s \<le> 59" using assms by (simp_all add: word_le_nat_alt)
  have "unat (h * 3600) = unat h * 3600" "unat (m * 60) = unat m * 60"
    using b by (simp_all add: unat_mult_lem [THEN iffD1])
  then show ?thesis using b by (simp add: unat_plus)
qed

lemma to_seconds_abs_value:
  assumes "time_ok t" "mt_type t = TS_TIME"
  shows "\<exists>n. to_seconds_abs t = Some n \<and> unat n = time_usec t div 1000000 \<and> unat n \<le> 3020399"
proof -
  have v: "is_valid_time_slow t" "mt_hour t \<le> 838" "mt_minute t \<le> 59" "mt_second t \<le> 59" "mt_second_part t \<le> 999999"
    using assms by (auto simp: time_ok_def is_valid_time_slow_def has_valid_mmssff_def time_limits)
  have b: "unat (mt_hour t) \<le> 838" "unat (mt_minute t) \<le> 59" "unat (mt_second t) \<le> 59" "unat (mt_second_part t) \<le> 999999"
    using v(2-5) by (simp_all add: word_le_nat_alt)
  have n: "unat (ucast (mt_hour t * 3600 + mt_minute t * 60 + mt_second t) :: u64) =
      unat (mt_hour t) * 3600 + unat (mt_minute t) * 60 + unat (mt_second t)"
    by (simp add: unat_widen unat_seconds [OF v(2-4)])
  have "time_usec t div 1000000 = unat (mt_hour t) * 3600 + unat (mt_minute t) * 60 + unat (mt_second t)"
    using b(4) by (simp add: time_usec_def div_add1_eq)
  then show ?thesis using v(1) n b by (simp add: to_seconds_abs_def)
qed

lemma hours_minutes_seconds: "(n div 3600 * 60 + n mod 3600 div 60) * 60 + n mod 60 = n" for n :: nat
proof -
  have "n mod 3600 div 60 = n div 60 mod 60" using mod_mult2_eq [of n 60 60] by simp
  moreover have "n div 3600 = n div 60 div 60" by (simp add: div_mult2_eq [symmetric])
  ultimately show ?thesis by simp
qed

text \<open>
  Seconds survive the way through a TIME: for any number of seconds up to the largest TIME and any
  fraction below a second \<open>sec_to_time\<close> succeeds with a valid TIME of exactly that value and sign,
  whose \<open>to_seconds_abs\<close> is the number again; no product in 32 bits wraps around. Beyond the largest
  TIME it reports an overflow.
\<close>

lemma sec_to_time_roundtrip:
  assumes "\<And>k. set_zero_time L k = zero_time k" "s6_usec s \<le> 999999"
  shows "(s6_sec s \<le> 3020399 \<longrightarrow> (\<exists>t. sec_to_time L s dec = Some (False, t) \<and> time_ok t \<and> to_seconds_abs t = Some (s6_sec s) \<and>
      mt_second_part t = s6_usec s \<and> mt_neg t = s6_neg s \<and>
      time_usec t = unat (s6_sec s) * 1000000 + unat (s6_usec s))) \<and>
    (s6_sec s > 3020399 \<longrightarrow> (\<exists>t. sec_to_time L s dec = Some (True, t)))"
proof -
  have lim: "(ucast TIME_MAX_VALUE_SECONDS :: u64) = 3020399" by (simp add: time_limits)
  have "s6_usec s \<le>s TIME_MAX_SECOND_PART"
    using assms(2) by (simp add: time_limits word_sle_eq word_le_nat_alt sint_small del: of_nat_unat)
  moreover have "\<exists>t. sec_to_time L s dec = Some (True, t)" if "s6_sec s > 3020399"
    using that by (auto simp: sec_to_time_def lim Let_def split: prod.splits)
  moreover have "\<exists>t. sec_to_time L s dec = Some (False, t) \<and> time_ok t \<and> to_seconds_abs t = Some (s6_sec s) \<and>
      mt_second_part t = s6_usec s \<and> mt_neg t = s6_neg s \<and> time_usec t = unat (s6_sec s) * 1000000 + unat (s6_usec s)"
    if le: "s6_sec s \<le> 3020399" and sp: "s6_usec s \<le>s TIME_MAX_SECOND_PART"
  proof -
    let ?n = "unat (s6_sec s)"
    define t where "t = (zero_time TS_TIME)\<lparr>mt_neg := s6_neg s, mt_hour := ucast (s6_sec s div 3600),
      mt_minute := ucast (s6_sec s mod 3600) div 60, mt_second := ucast (s6_sec s) mod 60, mt_second_part := s6_usec s\<rparr>"
    have n: "?n \<le> 3020399" using le by (simp add: word_le_nat_alt)
    have c: "unat (ucast (w :: u64) :: u32) = unat w" if "unat w \<le> 3020399" for w
      using that by (simp add: unsigned_ucast_eq take_bit_nat_eq_self)
    have f: "unat (mt_hour t) = ?n div 3600" "unat (mt_minute t) = ?n mod 3600 div 60" "unat (mt_second t) = ?n mod 60"
      using n by (simp_all add: t_def c unat_div_distrib unat_mod_distrib)
    have u: "time_usec t = ?n * 1000000 + unat (s6_usec s)"
      unfolding time_usec_def f hours_minutes_seconds by (simp add: t_def)
    have b: "?n div 3600 \<le> 838" "?n mod 3600 div 60 \<le> 59" "?n mod 60 \<le> 59" using n by auto
    have z: "mt_type t = TS_TIME" "mt_year t = 0" "mt_month t = 0" "mt_day t = 0" "mt_second_part t = s6_usec s"
      by (simp_all add: t_def zero_time_def)
    have ok: "time_ok t"
      using b assms(2) by (simp add: time_ok_def is_valid_time_slow_def has_zero_YYYYMMDD_def has_valid_mmssff_def
          time_limits z word_le_nat_alt [of "mt_hour t"] word_le_nat_alt [of "mt_minute t"] word_le_nat_alt [of "mt_second t"] f)
    obtain m where m: "to_seconds_abs t = Some m" "unat m = time_usec t div 1000000"
      using to_seconds_abs_value [OF ok] by (auto simp: t_def zero_time_def)
    have "unat (s6_usec s) < 1000000" using assms(2) by (simp add: word_le_nat_alt)
    then have "m = s6_sec s" using m(2) u by (simp add: word_unat_eq_iff)
    moreover have "sec_to_time L s dec = Some (False, t)"
      using sp leD [OF le] by (simp add: sec_to_time_def lim assms(1) Let_def t_def)
    ultimately show ?thesis using ok m(1) u by (simp add: t_def)
  qed
  ultimately show ?thesis by blast
qed

lemma sec_to_time_roundtrip_witness:
  "\<exists>t. sec_to_time sample_lib (sec6_make_from_int (Longlong_hybrid (- 3020399) False)) 6 = Some (False, t) \<and>
    to_seconds_abs t = Some 3020399 \<and> mt_neg t"
proof -
  have s: "s6_sec (sec6_make_from_int (Longlong_hybrid (- 3020399) False)) = 3020399"
    "s6_usec (sec6_make_from_int (Longlong_hybrid (- 3020399) False)) = 0"
    "s6_neg (sec6_make_from_int (Longlong_hybrid (- 3020399) False))"
    by (simp_all add: sec6_make_from_int_def Longlong_hybrid_def hybrid_abs_def hybrid_neg_def Longlong_abs_def
        int_limits word_sless_alt)
  have z: "set_zero_time sample_lib k = zero_time k" for k by (simp add: sample_lib_def)
  have "s6_usec (sec6_make_from_int (Longlong_hybrid (- 3020399) False)) \<le> 999999" by (simp add: s(2))
  from sec_to_time_roundtrip [of sample_lib, OF z this, THEN conjunct1] show ?thesis using s by auto
qed

end
