(* ===== verification/Datetime_Values.thy ===== *)
theory Datetime_Values
  imports Time_Values
begin

text \<open>
  The classes \<open>Temporal_with_date\<close>, \<open>Date\<close> and \<open>Datetime\<close> of \<open>sql_type.h\<close>: a \<open>mysql_time\<close> that is a valid
  DATE (DATETIME) or undefined. Whether members are in range is decided by \<open>check_datetime_range\<close> of
  another file; \<open>None\<close> is a failed assertion. The lemmas show which constructors succeed on which values,
  that every one leaves a valid value, and how times of day, day numbers and quarters are computed.
\<close>

subsection \<open>Temporal_with_date\<close>

definition wd_daynr :: "time_lib \<Rightarrow> mysql_time \<Rightarrow> u32" where
  "wd_daynr L t = calc_daynr L (mt_year t) (mt_month t) (mt_day t)"

definition wd_weekday :: "time_lib \<Rightarrow> mysql_time \<Rightarrow> bool \<Rightarrow> int" where
  "wd_weekday L t sunday_first = calc_weekday L (wd_daynr L t) sunday_first"

definition wd_dayofyear :: "time_lib \<Rightarrow> mysql_time \<Rightarrow> u32" where
  "wd_dayofyear L t = wd_daynr L t - calc_daynr L (mt_year t) 1 1 + 1"

definition wd_quarter :: "mysql_time \<Rightarrow> u32" where
  "wd_quarter t = (mt_month t + 2) div 3"

definition wd_week :: "time_lib \<Rightarrow> mysql_time \<Rightarrow> u32 \<Rightarrow> u32" where
  "wd_week L t behaviour = fst (calc_week L t behaviour)"

definition wd_yearweek :: "time_lib \<Rightarrow> mysql_time \<Rightarrow> u32 \<Rightarrow> u32" where
  "wd_yearweek L t behaviour = (case calc_week L t behaviour of (week, year) \<Rightarrow> week + year * 100)"

definition wd_from_sec6 ::
  "time_lib \<Rightarrow> 'z sec6_scheme \<Rightarrow> date_mode_t \<Rightarrow> mysql_time \<Rightarrow> u32 \<Rightarrow> (mysql_time \<times> u32) option" where
  "wd_from_sec6 L nr flags t warn =
     (if conv_is_set (mode_and_conv flags (Date_conv_mode TIME_ONLY)) then None
      else map_option (\<lambda>(failed, t, warn). (if failed then t\<lparr>mt_type := TS_NONE\<rparr> else t, warn))
        (to_datetime_or_date L nr t warn (to_date_conv_mode flags)))"

text \<open>From a string; \<open>r\<close> is what \<open>str_to_datetime_or_date\<close> answered.\<close>

definition wd_from_parsed :: "date_mode_t \<Rightarrow> bool \<times> mysql_time \<times> time_status \<Rightarrow> (mysql_time \<times> time_status) option" where
  "wd_from_parsed flags r =
     (if conv_is_set (mode_and_conv flags (Date_conv_mode TIME_ONLY)) then None
      else case r of (failed, t, st) \<Rightarrow> Some (if failed then t\<lparr>mt_type := TS_NONE\<rparr> else t, st))"

definition wd_comparison_flags :: date_conv_mode_t where
  "wd_comparison_flags = conv_or (Date_conv_mode INVALID_DATES) (Date_conv_mode FUZZY_DATES)"

subsection \<open>Date\<close>

definition is_valid_date_slow :: "time_lib \<Rightarrow> mysql_time \<Rightarrow> bool option" where
  "is_valid_date_slow L t = guard (mt_type t = TS_DATE) (\<not> check_datetime_range L t)"

definition date_value_slow :: "time_lib \<Rightarrow> mysql_time \<Rightarrow> bool option" where
  "date_value_slow L t = (if mt_type t = TS_NONE then Some True else is_valid_date_slow L t)"

text \<open>From an item, after \<open>Temporal_with_date\<close> has read the value \<open>t\<close>.\<close>

definition date_make :: "time_lib \<Rightarrow> mysql_time \<Rightarrow> mysql_time option" where
  "date_make L t =
     Option.bind (if mt_type t = TS_DATETIME then datetime_to_date t else Some t)
       (\<lambda>t. guard (date_value_slow L t = Some True) t)"

definition date_from_temporal :: "time_lib \<Rightarrow> mysql_time \<Rightarrow> mysql_time option" where
  "date_from_temporal L d = Option.bind (datetime_to_date d) (\<lambda>t. guard (is_valid_date_slow L t = Some True) t)"

definition date_from_hybrid :: "time_lib \<Rightarrow> mysql_time \<Rightarrow> mysql_time option" where
  "date_from_hybrid L from =
     Option.bind (copy_valid_value_to_mysql_time from) (\<lambda>(_, t). guard (is_valid_date_slow L t = Some True) t)"

definition is_valid_date :: "time_lib \<Rightarrow> mysql_time \<Rightarrow> bool option" where
  "is_valid_date L t = guard (date_value_slow L t = Some True) (mt_type t = TS_DATE)"

text \<open>\<open>DBUG_ASSERT (is_valid_date_slow ())\<close> before a result.\<close>

definition if_valid_date :: "time_lib \<Rightarrow> mysql_time \<Rightarrow> 'a \<Rightarrow> 'a option" where
  "if_valid_date L t x = guard (is_valid_date_slow L t = Some True) x"

definition date_check_date :: "time_lib \<Rightarrow> mysql_time \<Rightarrow> date_conv_mode_t \<Rightarrow> u32 \<Rightarrow> (bool \<times> u32) option" where
  "date_check_date L t flags warnings =
     if_valid_date L t (lib_check_date L t (mt_year t \<noteq> 0 \<or> mt_month t \<noteq> 0 \<or> mt_day t \<noteq> 0)
       (conv_bits (conv_and flags TIME_MODE_FOR_XXX_TO_DATE)) warnings)"

definition date_get_mysql_time :: "time_lib \<Rightarrow> mysql_time \<Rightarrow> mysql_time option" where
  "date_get_mysql_time L t = if_valid_date L t t"

definition date_copy_to_mysql_time :: "time_lib \<Rightarrow> mysql_time \<Rightarrow> mysql_time \<Rightarrow> (bool \<times> mysql_time) option" where
  "date_copy_to_mysql_time L t ltime =
     (if mt_type t = TS_NONE then Some (True, ltime\<lparr>mt_type := TS_NONE\<rparr>) else if_valid_date L t (False, t))"

definition date_daynr :: "time_lib \<Rightarrow> mysql_time \<Rightarrow> u32 option" where
  "date_daynr L t = if_valid_date L t (wd_daynr L t)"

definition date_dayofyear :: "time_lib \<Rightarrow> mysql_time \<Rightarrow> u32 option" where
  "date_dayofyear L t = if_valid_date L t (wd_dayofyear L t)"

definition date_quarter :: "time_lib \<Rightarrow> mysql_time \<Rightarrow> u32 option" where
  "date_quarter L t = if_valid_date L t (wd_quarter t)"

definition date_week :: "time_lib \<Rightarrow> mysql_time \<Rightarrow> u32 \<Rightarrow> u32 option" where
  "date_week L t behaviour = if_valid_date L t (wd_week L t behaviour)"

definition date_yearweek :: "time_lib \<Rightarrow> mysql_time \<Rightarrow> u32 \<Rightarrow> u32 option" where
  "date_yearweek L t behaviour = if_valid_date L t (wd_yearweek L t behaviour)"

definition valid_date_to_packed :: "time_lib \<Rightarrow> mysql_time \<Rightarrow> u64 option" where
  "valid_date_to_packed L t = if_valid_date L t (pack_time L t)"

definition date_to_longlong :: "time_lib \<Rightarrow> mysql_time \<Rightarrow> u64 option" where
  "date_to_longlong L t = map_option (\<lambda>valid. if valid then TIME_to_ulonglong_date L t else 0) (is_valid_date L t)"

definition date_to_bool :: "time_lib \<Rightarrow> mysql_time \<Rightarrow> bool option" where
  "date_to_bool L t = map_option (\<lambda>v. v \<noteq> 0) (date_to_longlong L t)"

subsection \<open>Datetime\<close>

text \<open>
  Members of \<open>Temporal\<close> and \<open>Datetime\<close> defined in another file; the arguments are decimals, warnings,
  nanoseconds and the value.
\<close>

record datetime_members =
  dt_add_nsec :: "u32 \<Rightarrow> u32 \<Rightarrow> mysql_time \<Rightarrow> bool \<times> mysql_time \<times> u32"
  dt_round_nsec :: "u32 \<Rightarrow> u32 \<Rightarrow> u32 \<Rightarrow> mysql_time \<Rightarrow> bool \<times> mysql_time \<times> u32"
  dt_round :: "u32 \<Rightarrow> u32 \<Rightarrow> mysql_time \<Rightarrow> bool \<times> mysql_time \<times> u32"

definition is_valid_datetime_slow :: "time_lib \<Rightarrow> mysql_time \<Rightarrow> bool option" where
  "is_valid_datetime_slow L t = guard (mt_type t = TS_DATETIME) (\<not> check_datetime_range L t)"

definition datetime_value_slow :: "time_lib \<Rightarrow> mysql_time \<Rightarrow> bool option" where
  "datetime_value_slow L t = (if mt_type t = TS_NONE then Some True else is_valid_datetime_slow L t)"

definition if_valid_datetime :: "time_lib \<Rightarrow> mysql_time \<Rightarrow> 'a \<Rightarrow> 'a option" where
  "if_valid_datetime L t x = guard (is_valid_datetime_slow L t = Some True) x"

text \<open>\<open>DBUG_ASSERT (is_valid_value_slow ())\<close> after a modification.\<close>

definition datetime_checked :: "time_lib \<Rightarrow> (mysql_time \<times> 'w) \<Rightarrow> (mysql_time \<times> 'w) option" where
  "datetime_checked L r = guard (datetime_value_slow L (fst r) = Some True) r"

definition add_nanoseconds_or_invalidate ::
  "time_lib \<Rightarrow> datetime_members \<Rightarrow> u32 \<Rightarrow> u32 \<Rightarrow> mysql_time \<Rightarrow> (bool \<times> mysql_time \<times> u32) option" where
  "add_nanoseconds_or_invalidate L C warn nsec t =
     (if is_valid_datetime_slow L t = Some True
      then (case dt_add_nsec C warn nsec t of (rc, t, warn) \<Rightarrow>
              map_option (\<lambda>(t, warn). (rc, t, warn)) (datetime_checked L (t, warn)))
      else None)"

definition round_or_invalidate ::
  "time_lib \<Rightarrow> datetime_members \<Rightarrow> u32 \<Rightarrow> u32 \<Rightarrow> u32 \<Rightarrow> mysql_time \<Rightarrow> (bool \<times> mysql_time \<times> u32) option" where
  "round_or_invalidate L C dec warn nsec t =
     (if is_valid_datetime_slow L t = Some True
      then (case dt_round_nsec C dec warn nsec t of (rc, t, warn) \<Rightarrow>
              map_option (\<lambda>(t, warn). (rc, t, warn)) (datetime_checked L (t, warn)))
      else None)"

definition date_to_datetime_if_needed :: "mysql_time \<Rightarrow> mysql_time option" where
  "date_to_datetime_if_needed t = (if mt_type t = TS_DATE then date_to_datetime t else Some t)"

definition datetime_make :: "time_lib \<Rightarrow> mysql_time \<Rightarrow> mysql_time option" where
  "datetime_make L t =
     Option.bind (date_to_datetime_if_needed t) (\<lambda>t. map_option fst (datetime_checked L (t, ())))"

definition datetime_from_parsed ::
  "time_lib \<Rightarrow> date_mode_t \<Rightarrow> bool \<times> mysql_time \<times> time_status \<Rightarrow> (mysql_time \<times> time_status) option" where
  "datetime_from_parsed L fuzzydate r =
     Option.bind (wd_from_parsed fuzzydate r) (\<lambda>(t, st).
       Option.bind (date_to_datetime_if_needed t) (\<lambda>t. datetime_checked L (t, st)))"

definition datetime_from_sec6 ::
  "time_lib \<Rightarrow> 'z sec6_scheme \<Rightarrow> date_mode_t \<Rightarrow> mysql_time \<Rightarrow> u32 \<Rightarrow> (mysql_time \<times> u32) option" where
  "datetime_from_sec6 L nr flags t warn =
     Option.bind (wd_from_sec6 L nr flags t warn) (\<lambda>(t, warn).
       Option.bind (date_to_datetime_if_needed t) (\<lambda>t. datetime_checked L (t, warn)))"

definition is_valid_datetime :: "time_lib \<Rightarrow> mysql_time \<Rightarrow> bool option" where
  "is_valid_datetime L t = guard (datetime_value_slow L t = Some True) (mt_type t = TS_DATETIME)"

definition datetime_from_sec9 ::
  "time_lib \<Rightarrow> datetime_members \<Rightarrow> sec9 \<Rightarrow> date_mode_t \<Rightarrow> mysql_time \<Rightarrow> u32 \<Rightarrow> (mysql_time \<times> u32) option" where
  "datetime_from_sec9 L C nr fuzzydate t warn =
     Option.bind (datetime_from_sec6 L (sec6.truncate nr) fuzzydate t warn) (\<lambda>(t, warn).
       Option.bind (is_valid_datetime L t) (\<lambda>valid.
         Option.bind
           (if \<not> valid then Some (t, warn)
            else Option.bind (to_time_round_mode fuzzydate) (\<lambda>m.
              if round_eq m (Time_round_mode FRAC_ROUND)
              then map_option (\<lambda>(rc, t, warn). (t, warn)) (round_or_invalidate L C 6 warn (s9_nsec nr) t)
              else Some (t, warn)))
           (datetime_checked L)))"

definition datetime_zero :: "time_lib \<Rightarrow> mysql_time \<Rightarrow> u32 \<Rightarrow> mysql_time option" where
  "datetime_zero L t warn =
     map_option fst (datetime_from_sec6 L (sec6_make_from_int (Longlong_hybrid 0 False)) (Date_mode 0) t warn)"

definition datetime_from_hybrid :: "time_lib \<Rightarrow> mysql_time \<Rightarrow> mysql_time option" where
  "datetime_from_hybrid L from =
     Option.bind (copy_valid_value_to_mysql_time from) (\<lambda>(_, t). if_valid_datetime L t t)"

definition datetime_from_mysql_time :: "time_lib \<Rightarrow> mysql_time \<Rightarrow> mysql_time option" where
  "datetime_from_mysql_time L from = if_valid_datetime L from from"

subsection \<open>Reading and rounding a Datetime\<close>

definition datetime_check_date :: "time_lib \<Rightarrow> mysql_time \<Rightarrow> date_conv_mode_t \<Rightarrow> u32 \<Rightarrow> (bool \<times> u32) option" where
  "datetime_check_date L t flags warnings =
     if_valid_datetime L t (lib_check_date L t (mt_year t \<noteq> 0 \<or> mt_month t \<noteq> 0 \<or> mt_day t \<noteq> 0)
       (conv_bits (conv_and flags TIME_MODE_FOR_XXX_TO_DATE)) warnings)"

definition hhmmssff_is_zero :: "time_lib \<Rightarrow> mysql_time \<Rightarrow> bool option" where
  "hhmmssff_is_zero L t =
     if_valid_datetime L t (mt_hour t = 0 \<and> mt_minute t = 0 \<and> mt_second t = 0 \<and> mt_second_part t = 0)"

definition datetime_daynr :: "time_lib \<Rightarrow> mysql_time \<Rightarrow> u32 option" where
  "datetime_daynr L t = if_valid_datetime L t (wd_daynr L t)"

definition datetime_weekday :: "time_lib \<Rightarrow> mysql_time \<Rightarrow> bool \<Rightarrow> int option" where
  "datetime_weekday L t sunday_first = if_valid_datetime L t (wd_weekday L t sunday_first)"

definition datetime_dayofyear :: "time_lib \<Rightarrow> mysql_time \<Rightarrow> u32 option" where
  "datetime_dayofyear L t = if_valid_datetime L t (wd_dayofyear L t)"

definition datetime_quarter :: "time_lib \<Rightarrow> mysql_time \<Rightarrow> u32 option" where
  "datetime_quarter L t = if_valid_datetime L t (wd_quarter t)"

definition datetime_week :: "time_lib \<Rightarrow> mysql_time \<Rightarrow> u32 \<Rightarrow> u32 option" where
  "datetime_week L t behaviour = if_valid_datetime L t (wd_week L t behaviour)"

definition datetime_yearweek :: "time_lib \<Rightarrow> mysql_time \<Rightarrow> u32 \<Rightarrow> u32 option" where
  "datetime_yearweek L t behaviour = if_valid_datetime L t (wd_yearweek L t behaviour)"

definition hhmmss_to_seconds_abs :: "time_lib \<Rightarrow> mysql_time \<Rightarrow> u64 option" where
  "hhmmss_to_seconds_abs L t = if_valid_datetime L t (ucast (mt_hour t * 3600 + mt_minute t * 60 + mt_second t))"

definition hhmmss_to_seconds :: "time_lib \<Rightarrow> mysql_time \<Rightarrow> u64 option" where
  "hhmmss_to_seconds L t = map_option (\<lambda>s. if mt_neg t then - s else s) (hhmmss_to_seconds_abs L t)"

definition datetime_to_seconds :: "time_lib \<Rightarrow> mysql_time \<Rightarrow> u64 option" where
  "datetime_to_seconds L t = on_both (\<lambda>s d. s + ucast d * 24 * 3600) (hhmmss_to_seconds L t) (datetime_daynr L t)"

definition datetime_get_mysql_time :: "time_lib \<Rightarrow> mysql_time \<Rightarrow> mysql_time option" where
  "datetime_get_mysql_time L t = if_valid_datetime L t t"

definition datetime_copy_to_mysql_time :: "time_lib \<Rightarrow> mysql_time \<Rightarrow> mysql_time \<Rightarrow> (bool \<times> mysql_time) option" where
  "datetime_copy_to_mysql_time L t ltime =
     (if mt_type t = TS_NONE then Some (True, ltime\<lparr>mt_type := TS_NONE\<rparr>) else if_valid_datetime L t (False, t))"

text \<open>With a target type: a DATE only of a value at midnight.\<close>

definition datetime_copy_as ::
  "time_lib \<Rightarrow> mysql_time \<Rightarrow> timestamp_type \<Rightarrow> mysql_time \<Rightarrow> (bool \<times> mysql_time) option" where
  "datetime_copy_as L t type ltime =
     (if type = TS_DATE \<or> type = TS_DATETIME
      then Option.bind (datetime_copy_to_mysql_time L t ltime) (\<lambda>(failed, ltime).
        if failed then Some (True, ltime)
        else guard (type \<noteq> TS_DATE \<or> hhmmssff_is_zero L t = Some True) (False, ltime\<lparr>mt_type := type\<rparr>))
      else None)"

definition datetime_to_bool :: "time_lib \<Rightarrow> mysql_time \<Rightarrow> bool option" where
  "datetime_to_bool L t =
     map_option (\<lambda>valid. valid \<and> (TIME_to_ulonglong_datetime L t \<noteq> 0 \<or> mt_second_part t \<noteq> 0)) (is_valid_datetime L t)"

definition datetime_to_longlong :: "time_lib \<Rightarrow> mysql_time \<Rightarrow> u64 option" where
  "datetime_to_longlong L t = map_option (\<lambda>valid. if valid then TIME_to_ulonglong_datetime L t else 0) (is_valid_datetime L t)"

definition datetime_to_packed :: "time_lib \<Rightarrow> mysql_time \<Rightarrow> u64 option" where
  "datetime_to_packed L t = map_option (\<lambda>valid. if valid then pack_time L t else 0) (is_valid_datetime L t)"

definition valid_datetime_to_packed :: "time_lib \<Rightarrow> mysql_time \<Rightarrow> u64 option" where
  "valid_datetime_to_packed L t = if_valid_datetime L t (pack_time L t)"

definition datetime_fraction_remainder :: "time_lib \<Rightarrow> u32 \<Rightarrow> mysql_time \<Rightarrow> u32 option" where
  "datetime_fraction_remainder L dec t =
     (if is_valid_datetime L t = Some True then temporal_fraction_remainder (log_10_int L) dec t else None)"

definition datetime_trunc :: "time_lib \<Rightarrow> u32 \<Rightarrow> mysql_time \<Rightarrow> u32 \<Rightarrow> (mysql_time \<times> u32) option" where
  "datetime_trunc L dec t warn =
     Option.bind (is_valid_datetime L t) (\<lambda>valid.
       Option.bind (if valid then my_datetime_trunc (log_10_int L) t dec else Some t)
         (\<lambda>t. datetime_checked L (t, warn)))"

definition datetime_ceiling :: "time_lib \<Rightarrow> datetime_members \<Rightarrow> mysql_time \<Rightarrow> u32 \<Rightarrow> (mysql_time \<times> u32) option" where
  "datetime_ceiling L C t warn =
     Option.bind (is_valid_datetime L t) (\<lambda>valid.
       Option.bind
         (if valid \<and> mt_second_part t \<noteq> 0
          then map_option (\<lambda>(rc, t, warn). (t, warn)) (round_or_invalidate L C 0 warn 999999999 t) else Some (t, warn))
         (datetime_checked L))"

definition datetime_round :: "time_lib \<Rightarrow> datetime_members \<Rightarrow> u32 \<Rightarrow> mysql_time \<Rightarrow> u32 \<Rightarrow> (mysql_time \<times> u32) option" where
  "datetime_round L C dec t warn =
     Option.bind (is_valid_datetime L t) (\<lambda>valid.
       datetime_checked L (if valid then (case dt_round C dec warn t of (rc, t, warn) \<Rightarrow> (t, warn)) else (t, warn)))"

definition datetime_round_mode ::
  "time_lib \<Rightarrow> datetime_members \<Rightarrow> u32 \<Rightarrow> time_round_mode_t \<Rightarrow> mysql_time \<Rightarrow> u32 \<Rightarrow> (mysql_time \<times> u32) option" where
  "datetime_round_mode L C dec mode t warn =
     (if round_bits mode = FRAC_NONE
      then (if datetime_fraction_remainder L dec t = Some 0 then datetime_trunc L dec t warn else None)
      else if round_bits mode = FRAC_TRUNCATE then datetime_trunc L dec t warn
      else if round_bits mode = FRAC_ROUND then datetime_round L C dec t warn
      else Some (t, warn))"

text \<open>The constructors with decimals round what the others made.\<close>

definition datetime_make_dec ::
  "time_lib \<Rightarrow> datetime_members \<Rightarrow> mysql_time \<Rightarrow> date_mode_t \<Rightarrow> u32 \<Rightarrow> mysql_time option" where
  "datetime_make_dec L C t fuzzydate dec =
     Option.bind (datetime_make L t) (\<lambda>t.
       Option.bind (to_time_round_mode fuzzydate) (\<lambda>mode. map_option fst (datetime_round_mode L C dec mode t 0)))"

definition datetime_from_sec9_dec ::
  "time_lib \<Rightarrow> datetime_members \<Rightarrow> sec9 \<Rightarrow> date_mode_t \<Rightarrow> u32 \<Rightarrow> mysql_time \<Rightarrow> u32 \<Rightarrow> (mysql_time \<times> u32) option" where
  "datetime_from_sec9_dec L C nr fuzzydate dec t warn =
     Option.bind (datetime_from_sec9 L C nr fuzzydate t warn) (\<lambda>(t, warn).
       Option.bind (to_time_round_mode fuzzydate) (\<lambda>mode. datetime_round_mode L C dec mode t warn))"

subsection \<open>The invariant\<close>

definition datetime_ok :: "time_lib \<Rightarrow> mysql_time \<Rightarrow> bool" where
  "datetime_ok L t \<longleftrightarrow> datetime_value_slow L t = Some True"

text \<open>
  What the functions of the other files do, as far as the class relies on it: a value a number was
  converted to is in range and not negative, whether it is a DATE or a DATETIME; a member leaves a
  valid value; and a value stays in range when it turns from a DATE into a DATETIME or its fraction gets
  smaller, which is never above 999999.
\<close>

definition dates_ok :: "time_lib \<Rightarrow> bool" where
  "dates_ok L \<longleftrightarrow>
     (\<forall>nr sp to fl w. case number_to_datetime_or_date L nr sp to fl w of
        (rc, t, w') \<Rightarrow> if rc = - 1 then w' \<noteq> 0
          else (mt_type t = TS_DATE \<or> mt_type t = TS_DATETIME) \<and> \<not> mt_neg t \<and> \<not> check_datetime_range L t) \<and>
     (\<forall>t sp. \<not> check_datetime_range L t \<longrightarrow> sp \<le> mt_second_part t \<longrightarrow>
        \<not> check_datetime_range L (t\<lparr>mt_second_part := sp\<rparr>)) \<and>
     (\<forall>t. \<not> check_datetime_range L t \<longrightarrow> mt_type t = TS_DATE \<longrightarrow> \<not> check_datetime_range L (t\<lparr>mt_type := TS_DATETIME\<rparr>)) \<and>
     (\<forall>t. \<not> check_datetime_range L t \<longrightarrow> mt_second_part t \<le> 999999)"

definition datetime_members_ok :: "time_lib \<Rightarrow> datetime_members \<Rightarrow> bool" where
  "datetime_members_ok L C \<longleftrightarrow> (\<forall>t dec w ns. datetime_ok L t \<longrightarrow>
     datetime_ok L (fst (snd (dt_round_nsec C dec w ns t))) \<and> datetime_ok L (fst (snd (dt_round C dec w t))) \<and>
     datetime_ok L (fst (snd (dt_add_nsec C w ns t))))"

lemma datetime_ok_iff: "datetime_ok L t \<longleftrightarrow> mt_type t = TS_NONE \<or> (mt_type t = TS_DATETIME \<and> \<not> check_datetime_range L t)"
  by (auto simp: datetime_ok_def datetime_value_slow_def is_valid_datetime_slow_def)

lemma datetime_checked_ok: "datetime_ok L (fst r) \<Longrightarrow> datetime_checked L r = Some r"
  by (simp add: datetime_checked_def datetime_ok_def)

lemma is_valid_datetime_ok: "datetime_ok L t \<Longrightarrow> is_valid_datetime L t = Some (mt_type t = TS_DATETIME)"
  by (simp add: is_valid_datetime_def datetime_ok_def)

lemma datetime_slow_ok: "datetime_ok L t \<Longrightarrow> mt_type t = TS_DATETIME \<Longrightarrow> is_valid_datetime_slow L t = Some True"
  by (simp add: datetime_ok_iff is_valid_datetime_slow_def)

text \<open>A value in range, of either type, becomes a DATETIME.\<close>

lemma to_datetime_ok:
  assumes "dates_ok L" "\<not> mt_neg t" "\<not> check_datetime_range L t" "mt_type t = TS_DATE \<or> mt_type t = TS_DATETIME"
  shows "date_to_datetime_if_needed t = Some (t\<lparr>mt_type := TS_DATETIME\<rparr>)" "datetime_ok L (t\<lparr>mt_type := TS_DATETIME\<rparr>)"
proof -
  have same: "t\<lparr>mt_type := TS_DATETIME\<rparr> = t" if "mt_type t = TS_DATETIME" using that by (cases t) simp
  then show "date_to_datetime_if_needed t = Some (t\<lparr>mt_type := TS_DATETIME\<rparr>)"
    using assms(2,4) by (auto simp: date_to_datetime_if_needed_def date_to_datetime_def)
  have "\<not> check_datetime_range L (t\<lparr>mt_type := TS_DATETIME\<rparr>)"
    using assms(1,3,4) same unfolding dates_ok_def by metis
  then show "datetime_ok L (t\<lparr>mt_type := TS_DATETIME\<rparr>)" by (simp add: datetime_ok_iff)
qed

lemma datetime_from_sec6_ok:
  assumes "dates_ok L" "\<not> conv_is_set (mode_and_conv flags (Date_conv_mode TIME_ONLY))"
  shows "\<exists>t' w'. datetime_from_sec6 L nr flags t w = Some (t', w') \<and> datetime_ok L t' \<and>
    (s6_neg nr \<longrightarrow> mt_type t' = TS_NONE \<and> w' = WARN_OUT_OF_RANGE)"
proof -
  let ?fl = "conv_bits (conv_and (to_date_conv_mode flags) TIME_MODE_FOR_XXX_TO_DATE)"
  obtain rc t1 w1 where n: "number_to_datetime_or_date L (s6_sec nr) (s6_usec nr) t ?fl w = (rc, t1, w1)"
    by (cases "number_to_datetime_or_date L (s6_sec nr) (s6_usec nr) t ?fl w")
  have r: "if rc = - 1 then w1 \<noteq> 0
      else (mt_type t1 = TS_DATE \<or> mt_type t1 = TS_DATETIME) \<and> \<not> mt_neg t1 \<and> \<not> check_datetime_range L t1"
    using assms(1) [unfolded dates_ok_def, THEN conjunct1, rule_format, of "s6_sec nr" "s6_usec nr" t ?fl w]
    unfolding n prod.case .
  have none: "date_to_datetime_if_needed (u\<lparr>mt_type := TS_NONE\<rparr>) = Some (u\<lparr>mt_type := TS_NONE\<rparr>)"
    "datetime_ok L (u\<lparr>mt_type := TS_NONE\<rparr>)" for u :: mysql_time
    by (simp_all add: date_to_datetime_if_needed_def datetime_ok_iff)
  consider "s6_neg nr" | "\<not> s6_neg nr" "rc = - 1" | "\<not> s6_neg nr" "rc \<noteq> - 1" by blast
  then show ?thesis
  proof cases
    case 1
    then show ?thesis
      using assms(2) none by (simp add: datetime_from_sec6_def wd_from_sec6_def to_datetime_or_date_def datetime_checked_ok)
  next
    case 2
    then show ?thesis
      using assms(2) none r by (simp add: datetime_from_sec6_def wd_from_sec6_def to_datetime_or_date_def n datetime_checked_ok)
  next
    case 3
    then have t1: "\<not> mt_neg t1" "\<not> check_datetime_range L t1" "mt_type t1 = TS_DATE \<or> mt_type t1 = TS_DATETIME"
      using r by simp_all
    then show ?thesis
      using 3 assms(2) to_datetime_ok [OF assms(1) t1]
      by (simp add: datetime_from_sec6_def wd_from_sec6_def to_datetime_or_date_def n datetime_checked_ok)
  qed
qed

lemma datetime_trunc_value:
  assumes "dates_ok L" "log_10_int_ok (log_10_int L)" "datetime_ok L t" "d \<le> 6"
  shows "datetime_trunc L d t w = Some (if mt_type t = TS_DATETIME then trunc_part t d else t, w)"
    "datetime_ok L (if mt_type t = TS_DATETIME then trunc_part t d else t)"
proof -
  have ok: "datetime_ok L (trunc_part t d)" and sp: "unat (mt_second_part t) < 2 ^ 31" if t: "mt_type t = TS_DATETIME"
  proof -
    have r: "\<not> check_datetime_range L t" using assms(3) t by (simp add: datetime_ok_iff)
    have "mt_second_part t \<le> 999999" using assms(1) r unfolding dates_ok_def by blast
    then show "unat (mt_second_part t) < 2 ^ 31" by (simp add: word_le_nat_alt)
    have "of_nat (unat (mt_second_part t) - unat (mt_second_part t) mod frac_unit d) \<le> mt_second_part t"
      using trunc_part_fraction [of t d] by (simp add: word_le_nat_alt trunc_part_def)
    then have "\<not> check_datetime_range L (trunc_part t d)"
      using assms(1) r unfolding dates_ok_def trunc_part_def by blast
    then show "datetime_ok L (trunc_part t d)" using t by (simp add: datetime_ok_iff trunc_part_def)
  qed
  then show "datetime_trunc L d t w = Some (if mt_type t = TS_DATETIME then trunc_part t d else t, w)"
    using assms(3) by (simp add: datetime_trunc_def is_valid_datetime_ok my_datetime_trunc_ok [OF assms(2,4)] datetime_checked_ok)
  show "datetime_ok L (if mt_type t = TS_DATETIME then trunc_part t d else t)" using ok assms(3) by simp
qed

lemma datetime_round_ok:
  assumes "datetime_members_ok L C" "datetime_ok L t"
  shows "\<exists>r. datetime_round L C d t w = Some r \<and> datetime_ok L (fst r)"
    and "\<exists>r. datetime_ceiling L C t w = Some r \<and> datetime_ok L (fst r)"
    and "mt_type t = TS_DATETIME \<Longrightarrow> \<exists>rc t' w'. round_or_invalidate L C d w ns t = Some (rc, t', w') \<and> datetime_ok L t'"
proof -
  have m: "datetime_ok L (fst (snd (dt_round_nsec C dec w ns t)))" "datetime_ok L (fst (snd (dt_round C d w t)))" for dec ns
    using assms by (simp_all add: datetime_members_ok_def)
  have i: "\<exists>rc t' w'. round_or_invalidate L C d w ns t = Some (rc, t', w') \<and> datetime_ok L t'"
    if "mt_type t = TS_DATETIME" for d ns
    using m(1) [of d ns] datetime_slow_ok [OF assms(2) that]
    by (cases "dt_round_nsec C d w ns t") (simp add: round_or_invalidate_def datetime_checked_ok)
  then show "mt_type t = TS_DATETIME \<Longrightarrow> \<exists>rc t' w'. round_or_invalidate L C d w ns t = Some (rc, t', w') \<and> datetime_ok L t'"
    by blast
  show "\<exists>r. datetime_round L C d t w = Some r \<and> datetime_ok L (fst r)"
    using assms(2) m(2) by (cases "dt_round C d w t") (simp add: datetime_round_def is_valid_datetime_ok datetime_checked_ok)
  show "\<exists>r. datetime_ceiling L C t w = Some r \<and> datetime_ok L (fst r)"
  proof (cases "mt_type t = TS_DATETIME \<and> mt_second_part t \<noteq> 0")
    case True
    then obtain rc t' w' where "round_or_invalidate L C 0 w 999999999 t = Some (rc, t', w')" "datetime_ok L t'"
      using i by blast
    then show ?thesis using True assms(2) by (simp add: datetime_ceiling_def is_valid_datetime_ok datetime_checked_ok)
  next
    case False
    show ?thesis
      unfolding datetime_ceiling_def is_valid_datetime_ok [OF assms(2)] bind.bind_lunit if_not_P [OF False]
      using assms(2) by (simp add: datetime_checked_ok)
  qed
qed

lemma datetime_from_sec9_ok:
  assumes "dates_ok L" "datetime_members_ok L C" "\<not> conv_is_set (mode_and_conv flags (Date_conv_mode TIME_ONLY))"
    and "to_time_round_mode flags = Some m"
  shows "\<exists>r. datetime_from_sec9 L C nr flags t w = Some r \<and> datetime_ok L (fst r)"
proof -
  obtain t1 w1 where s: "datetime_from_sec6 L (sec6.truncate nr) flags t w = Some (t1, w1)" "datetime_ok L t1"
    using datetime_from_sec6_ok [OF assms(1,3), of "sec6.truncate nr" t w] by blast
  show ?thesis
  proof (cases "mt_type t1 = TS_DATETIME \<and> round_eq m (Time_round_mode FRAC_ROUND)")
    case True
    then obtain rc t2 w2 where "round_or_invalidate L C 6 w1 (s9_nsec nr) t1 = Some (rc, t2, w2)" "datetime_ok L t2"
      using datetime_round_ok(3) [OF assms(2) s(2)] by blast
    then show ?thesis
      using True s assms(4) by (simp add: datetime_from_sec9_def is_valid_datetime_ok datetime_checked_ok)
  next
    case False
    then show ?thesis
      using s assms(4) by (auto simp: datetime_from_sec9_def is_valid_datetime_ok datetime_checked_ok)
  qed
qed

text \<open>
  Rounding with a mode: without one, what is asserted first is that the value is valid and that there is
  nothing below the decimals.
\<close>

definition exact_datetime :: "u32 \<Rightarrow> mysql_time \<Rightarrow> bool" where
  "exact_datetime d t \<longleftrightarrow> mt_type t = TS_DATETIME \<and> unat (mt_second_part t) mod frac_unit d = 0"

lemma datetime_fraction_zero:
  assumes "dates_ok L" "log_10_int_ok (log_10_int L)" "datetime_ok L t" "d \<le> 6"
  shows "datetime_fraction_remainder L d t = Some 0 \<longleftrightarrow> exact_datetime d t"
proof (cases "mt_type t = TS_DATETIME")
  case True
  then have "mt_second_part t \<le> 999999" using assms(1,3) unfolding dates_ok_def datetime_ok_iff by simp
  then have u: "unat (mt_second_part t) \<le> 999999" by (simp add: word_le_nat_alt)
  then have f: "my_time_fraction_remainder (log_10_int L) (mt_second_part t) d =
      Some (of_nat (unat (mt_second_part t) mod frac_unit d))"
    by (intro fraction_remainder [OF assms(2,4)]) simp
  have "unat (of_nat (unat (mt_second_part t) mod frac_unit d) :: u32) = unat (mt_second_part t) mod frac_unit d"
    using le_less_trans [OF le_trans [OF mod_less_eq_dividend u]] by (simp add: unsigned_of_nat take_bit_nat_eq_self)
  then show ?thesis
    using True assms(3) f by (simp add: datetime_fraction_remainder_def temporal_fraction_remainder_def
        is_valid_datetime_ok exact_datetime_def word_unat_eq_iff)
next
  case False
  then show ?thesis using assms(3) by (simp add: datetime_fraction_remainder_def is_valid_datetime_ok exact_datetime_def)
qed

lemma datetime_round_mode_ok:
  assumes "dates_ok L" "log_10_int_ok (log_10_int L)" "datetime_members_ok L C" "datetime_ok L t" "d \<le> 6"
  shows "if round_bits mode = FRAC_NONE
    then datetime_round_mode L C d mode t w = (if exact_datetime d t then Some (t, w) else None)
    else \<exists>r. datetime_round_mode L C d mode t w = Some r \<and> datetime_ok L (fst r)"
proof (cases "round_bits mode = FRAC_NONE")
  case True
  have "trunc_part t d = t" if "exact_datetime d t" using that by (cases t) (simp add: exact_datetime_def trunc_part_def)
  then have "datetime_trunc L d t w = Some (t, w)" if "exact_datetime d t"
    using that datetime_trunc_value(1) [OF assms(1,2,4,5)] by (simp add: exact_datetime_def)
  then show ?thesis
    using True datetime_fraction_zero [OF assms(1,2,4,5)] by (simp add: datetime_round_mode_def)
next
  case False
  then show ?thesis
    using assms(4) datetime_round_ok(1) [OF assms(3,4), of d w] datetime_trunc_value [OF assms(1,2,4,5)]
    by (simp add: datetime_round_mode_def del: split_paired_Ex)
qed

lemma datetime_undefined_kept:
  assumes "mt_type t = TS_NONE"
  shows "datetime_trunc L d t w = Some (t, w)" "datetime_ceiling L C t w = Some (t, w)" "datetime_round L C d t w = Some (t, w)"
  using assms by (simp_all add: datetime_trunc_def datetime_ceiling_def datetime_round_def is_valid_datetime_def
      datetime_value_slow_def datetime_checked_def)

subsection \<open>Properties\<close>

text \<open>
  C33. The class \<open>Datetime\<close> keeps its invariant, a DATETIME in the range \<open>check_datetime_range\<close> decides
  or the undefined value, given that the conversion of numbers and the rounding members, which are
  defined in \<open>sql_time.cc\<close> and \<open>sql_type.cc\<close>, leave values in that range. The constructors from
  numbers, for which the mode may not ask for a TIME, leave such a value (always the undefined one,
  with a warning, for a negative number). Truncation of such a value leaves such a value, in which at
  most the fraction has changed, to a multiple of the unit of its decimals; ceiling and rounding leave
  such a value; the three leave an undefined value as it is. Rounding with a mode, and the constructor
  with decimals, which applies it, leave such a value when there is a mode. Without one they succeed
  exactly for a DATETIME with nothing below the decimals, which they keep, and otherwise, for an
  undefined value too, they fail an assertion. No other assertion fails.
\<close>

theorem datetime_values_valid:
  assumes "dates_ok L" "log_10_int_ok (log_10_int L)" "datetime_members_ok L C"
    and "\<not> conv_is_set (mode_and_conv flags (Date_conv_mode TIME_ONLY))" "to_time_round_mode flags = Some mode"
  shows "(\<exists>t' w'. datetime_from_sec6 L nr flags t w = Some (t', w') \<and> datetime_ok L t' \<and>
      (s6_neg nr \<longrightarrow> mt_type t' = TS_NONE \<and> w' = WARN_OUT_OF_RANGE)) \<and>
    (\<exists>u v. datetime_from_sec9 L C nr9 flags t w = Some (u, v) \<and> datetime_ok L u \<and>
      (\<forall>d\<le>6. if round_bits mode = FRAC_NONE
        then datetime_from_sec9_dec L C nr9 flags d t w = (if exact_datetime d u then Some (u, v) else None)
        else \<exists>r. datetime_from_sec9_dec L C nr9 flags d t w = Some r \<and> datetime_ok L (fst r))) \<and>
    (\<forall>u d. datetime_ok L u \<and> d \<le> 6 \<longrightarrow>
      (\<exists>u'. datetime_trunc L d u w = Some (u', w) \<and> datetime_ok L u' \<and> u'\<lparr>mt_second_part := mt_second_part u\<rparr> = u \<and>
        (mt_type u = TS_DATETIME \<longrightarrow> time_usec u' = time_usec u - time_usec u mod frac_unit d) \<and>
        (mt_type u = TS_NONE \<longrightarrow> u' = u)) \<and>
      (\<exists>r. datetime_ceiling L C u w = Some r \<and> datetime_ok L (fst r) \<and> (mt_type u = TS_NONE \<longrightarrow> r = (u, w))) \<and>
      (\<exists>r. datetime_round L C d u w = Some r \<and> datetime_ok L (fst r) \<and> (mt_type u = TS_NONE \<longrightarrow> r = (u, w))) \<and>
      (\<forall>q. if round_bits q = FRAC_NONE
        then datetime_round_mode L C d q u w = (if exact_datetime d u then Some (u, w) else None)
        else \<exists>r. datetime_round_mode L C d q u w = Some r \<and> datetime_ok L (fst r)))"
proof (intro conjI allI impI)
  show "\<exists>t' w'. datetime_from_sec6 L nr flags t w = Some (t', w') \<and> datetime_ok L t' \<and>
      (s6_neg nr \<longrightarrow> mt_type t' = TS_NONE \<and> w' = WARN_OUT_OF_RANGE)"
    by (rule datetime_from_sec6_ok [OF assms(1,4)])
  obtain u v where s: "datetime_from_sec9 L C nr9 flags t w = Some (u, v)" "datetime_ok L u"
    using datetime_from_sec9_ok [OF assms(1,3-5), of nr9 t w] by auto
  have "datetime_from_sec9_dec L C nr9 flags d t w = datetime_round_mode L C d mode u v" for d
    by (simp add: datetime_from_sec9_dec_def s(1) assms(5))
  note dec = this
  show "\<exists>u v. datetime_from_sec9 L C nr9 flags t w = Some (u, v) \<and> datetime_ok L u \<and>
      (\<forall>d\<le>6. if round_bits mode = FRAC_NONE
        then datetime_from_sec9_dec L C nr9 flags d t w = (if exact_datetime d u then Some (u, v) else None)
        else \<exists>r. datetime_from_sec9_dec L C nr9 flags d t w = Some r \<and> datetime_ok L (fst r))"
    by (intro exI conjI allI impI, rule s(1), rule s(2), unfold dec) (rule datetime_round_mode_ok [OF assms(1-3) s(2)])
  fix u :: mysql_time and d :: u32 assume u: "datetime_ok L u \<and> d \<le> 6"
  have part: "(if mt_type u = TS_DATETIME then trunc_part u d else u)\<lparr>mt_second_part := mt_second_part u\<rparr> = u"
    by (simp add: trunc_part_def)
  show "\<exists>u'. datetime_trunc L d u w = Some (u', w) \<and> datetime_ok L u' \<and> u'\<lparr>mt_second_part := mt_second_part u\<rparr> = u \<and>
      (mt_type u = TS_DATETIME \<longrightarrow> time_usec u' = time_usec u - time_usec u mod frac_unit d) \<and> (mt_type u = TS_NONE \<longrightarrow> u' = u)"
    using datetime_trunc_value [OF assms(1,2), of u d] u part
    by (intro exI [of _ "if mt_type u = TS_DATETIME then trunc_part u d else u"]) (simp add: time_usec_trunc)
  show "\<exists>r. datetime_ceiling L C u w = Some r \<and> datetime_ok L (fst r) \<and> (mt_type u = TS_NONE \<longrightarrow> r = (u, w))"
    "\<exists>r. datetime_round L C d u w = Some r \<and> datetime_ok L (fst r) \<and> (mt_type u = TS_NONE \<longrightarrow> r = (u, w))"
    by (cases "mt_type u = TS_NONE", simp add: datetime_undefined_kept u,
        use datetime_round_ok(1,2) [OF assms(3)] u in blast)+
  show "if round_bits q = FRAC_NONE
      then datetime_round_mode L C d q u w = (if exact_datetime d u then Some (u, w) else None)
      else \<exists>r. datetime_round_mode L C d q u w = Some r \<and> datetime_ok L (fst r)" for q
    using u by (intro datetime_round_mode_ok [OF assms(1-3)]) simp_all
qed

text \<open>The sample range is that of \<open>check_datetime_range\<close>: the greatest hour depends on the type.\<close>

definition sample_range :: "mysql_time \<Rightarrow> bool" where
  "sample_range t \<longleftrightarrow> mt_year t \<le> 9999 \<and> mt_month t \<le> 12 \<and> mt_day t \<le> 31 \<and> has_valid_mmssff t \<and>
     mt_hour t \<le> (if mt_type t = TS_TIME then TIME_MAX_HOUR else 23)"

definition sample_date_lib :: time_lib where
  "sample_date_lib = sample_lib\<lparr>check_datetime_range := (\<lambda>t. \<not> sample_range t),
     number_to_datetime_or_date := (\<lambda>nr sp to flags w. let t = sample_datetime nr sp in
        if sample_range t then (0, t, w) else (- 1, to, WARN_TRUNCATED))\<rparr>"

definition sample_datetime_members :: datetime_members where
  "sample_datetime_members = \<lparr>dt_add_nsec = (\<lambda>w ns t. (False, t, w)), dt_round_nsec = (\<lambda>d w ns t. (False, t, w)),
     dt_round = (\<lambda>d w t. (False, t, w))\<rparr>"

lemma sample_dates_ok: "dates_ok sample_date_lib" "log_10_int_ok (log_10_int sample_date_lib)"
  "datetime_members_ok sample_date_lib sample_datetime_members"
proof -
  have "mt_type (sample_datetime nr sp) = TS_DATETIME" "\<not> mt_neg (sample_datetime nr sp)" for nr sp
    by (simp_all add: sample_datetime_def sample_time_def zero_time_def)
  then show "dates_ok sample_date_lib"
    by (auto simp: dates_ok_def sample_date_lib_def Let_def WARN_TRUNCATED_def sample_range_def has_valid_mmssff_def time_limits)
qed (simp_all add: sample_date_lib_def sample_lib_def datetime_members_ok_def sample_datetime_members_def)

lemma datetime_values_valid_witness:
  "\<exists>r w'. datetime_from_sec6 sample_date_lib (sec6_make_from_int (Longlong_hybrid 20240229235959 False))
      (Date_mode FRAC_ROUND) (zero_time TS_NONE) 0 = Some (r, w') \<and> datetime_ok sample_date_lib r"
proof -
  have m: "\<not> conv_is_set (mode_and_conv (Date_mode FRAC_ROUND) (Date_conv_mode TIME_ONLY))"
    "to_time_round_mode (Date_mode FRAC_ROUND) = Some (Time_round_mode FRAC_ROUND)"
    by (simp_all add: conv_is_set_def mode_and_conv_def to_time_round_mode_def time_round_mode_def mode_consts)
  show ?thesis
    using datetime_values_valid [where nr = "sec6_make_from_int (Longlong_hybrid 20240229235959 False)" and t = "zero_time TS_NONE"
        and w = 0, OF sample_dates_ok m, THEN conjunct1] by blast
qed

end
