(* ===== verification/Timestamps.thy ===== *)
theory Timestamps
  imports Datetime_Values List_Sort
begin

text \<open>
  \<open>Timeval\<close> of \<open>structs.h\<close> and the classes \<open>Timestamp\<close>, \<open>Timestamp_or_zero_datetime\<close> and its native forms
  of \<open>sql_type.h\<close>. \<open>tv_sec\<close> and \<open>tv_usec\<close> are \<open>long\<close>, words of 32 bits read with \<open>sint\<close>. What is defined
  in other files, \<open>round_or_set_max\<close>, the conversions to a \<open>Datetime\<close> and from native bytes, are arguments.
  The lemmas show that the comparison orders timestamps by time with the zero datetime first, and
  that truncation respects this order.
\<close>

subsection \<open>Timestamp\<close>

definition timeval_make :: "u32 \<Rightarrow> u32 \<Rightarrow> timeval option" where
  "timeval_make sec usec = guard (usec < 1000000) \<lparr>tv_sec = sec, tv_usec = usec\<rparr>"

definition add_nanoseconds_usec :: "u32 \<Rightarrow> timeval \<Rightarrow> (bool \<times> timeval) option" where
  "add_nanoseconds_usec nanoseconds tv =
     (if nanoseconds \<le> 1000000000 then
        (if nanoseconds < 500 then Some (False, tv)
         else let tv = tv\<lparr>tv_usec := tv_usec tv + (nanoseconds + 500) div 1000\<rparr> in
           if tv_usec tv <s 1000000 then Some (False, tv)
           else map_option (\<lambda>r. (True, tv\<lparr>tv_usec := r\<rparr>)) (signed_rem (tv_usec tv) 1000000))
      else None)"

definition ts_cmp :: "timeval \<Rightarrow> timeval \<Rightarrow> int" where
  "ts_cmp a other =
     (if tv_sec a <s tv_sec other then - 1
      else if tv_sec other <s tv_sec a then 1
      else if tv_usec a <s tv_usec other then - 1
      else if tv_usec other <s tv_usec a then 1 else 0)"

definition ts_fraction_remainder :: "u64 list \<Rightarrow> u32 \<Rightarrow> timeval \<Rightarrow> u32 option" where
  "ts_fraction_remainder tab dec tv = my_time_fraction_remainder tab (tv_usec tv) dec"

definition ts_trunc :: "u64 list \<Rightarrow> u32 \<Rightarrow> timeval \<Rightarrow> timeval option" where
  "ts_trunc tab dec tv = my_timeval_trunc tab tv dec"

type_synonym ts_rounding = "u32 \<Rightarrow> u32 \<Rightarrow> timeval \<Rightarrow> timeval \<times> u32"

definition ts_round :: "ts_rounding \<Rightarrow> u32 \<Rightarrow> timeval \<Rightarrow> u32 \<Rightarrow> timeval \<times> u32" where
  "ts_round round_or_set_max dec tv warn = round_or_set_max dec warn tv"

definition ts_round_mode ::
  "u64 list \<Rightarrow> ts_rounding \<Rightarrow> u32 \<Rightarrow> time_round_mode_t \<Rightarrow> timeval \<Rightarrow> u32 \<Rightarrow> (timeval \<times> u32) option" where
  "ts_round_mode tab round_or_set_max dec mode tv warn =
     (if round_bits mode = FRAC_NONE
      then (if ts_fraction_remainder tab dec tv = Some 0 then map_option (\<lambda>tv. (tv, warn)) (ts_trunc tab dec tv) else None)
      else if round_bits mode = FRAC_TRUNCATE then map_option (\<lambda>tv. (tv, warn)) (ts_trunc tab dec tv)
      else if round_bits mode = FRAC_ROUND then Some (ts_round round_or_set_max dec tv warn)
      else Some (tv, warn))"

subsection \<open>Timestamp_or_zero_datetime\<close>

record timestamp_or_zero = timeval +
  is_zero_datetime :: bool

definition tsz_make :: timestamp_or_zero where
  "tsz_make = \<lparr>tv_sec = 0, tv_usec = 0, is_zero_datetime = True\<rparr>"

definition tsz_from_timestamp :: "timeval \<Rightarrow> bool \<Rightarrow> timestamp_or_zero" where
  "tsz_from_timestamp tm zero = timeval.extend tm \<lparr>is_zero_datetime = zero\<rparr>"

definition tsz_from_native :: "(u8 list \<Rightarrow> timeval) \<Rightarrow> u8 list \<Rightarrow> timestamp_or_zero" where
  "tsz_from_native from_native native =
     timeval.extend (if native \<noteq> [] then from_native native else \<lparr>tv_sec = 0, tv_usec = 0\<rparr>)
       \<lparr>is_zero_datetime = (length native = 0)\<rparr>"

text \<open>\<open>to_dt\<close> is the constructor \<open>Datetime (thd, timeval)\<close>, \<open>zero\<close> the value of \<open>Datetime::zero ()\<close>.\<close>

definition tsz_to_datetime :: "(timeval \<Rightarrow> mysql_time) \<Rightarrow> mysql_time \<Rightarrow> timestamp_or_zero \<Rightarrow> mysql_time" where
  "tsz_to_datetime to_dt zero ts = (if is_zero_datetime ts then zero else to_dt (timeval.truncate ts))"

definition tsz_to_bool :: "timestamp_or_zero \<Rightarrow> bool" where
  "tsz_to_bool ts \<longleftrightarrow> \<not> is_zero_datetime ts"

definition tsz_trunc :: "u64 list \<Rightarrow> u32 \<Rightarrow> timestamp_or_zero \<Rightarrow> timestamp_or_zero option" where
  "tsz_trunc tab decimals ts =
     (if is_zero_datetime ts then Some ts
      else map_option (\<lambda>tv. timeval.extend tv \<lparr>is_zero_datetime = is_zero_datetime ts\<rparr>)
        (ts_trunc tab decimals (timeval.truncate ts)))"

definition tsz_cmp :: "timestamp_or_zero \<Rightarrow> timestamp_or_zero \<Rightarrow> int" where
  "tsz_cmp a other =
     (if is_zero_datetime a then (if is_zero_datetime other then 0 else - 1)
      else if is_zero_datetime other then 1
      else ts_cmp (timeval.truncate a) (timeval.truncate other))"

text \<open>The native forms: bytes, and bytes that may be NULL; \<open>Datetime ()\<close> is the undefined value.\<close>

definition native_is_zero :: "u8 list \<Rightarrow> bool" where
  "native_is_zero native \<longleftrightarrow> length native = 0"

definition native_to_datetime ::
  "(u8 list \<Rightarrow> timeval) \<Rightarrow> (timeval \<Rightarrow> mysql_time) \<Rightarrow> mysql_time \<Rightarrow> u8 list \<Rightarrow> mysql_time" where
  "native_to_datetime from_native to_dt zero native =
     (if native_is_zero native then zero else to_dt (from_native native))"

definition native_null_to_datetime ::
  "(u8 list \<Rightarrow> timeval) \<Rightarrow> (timeval \<Rightarrow> mysql_time) \<Rightarrow> mysql_time \<Rightarrow> mysql_time \<Rightarrow> u8 list option \<Rightarrow> mysql_time" where
  "native_null_to_datetime from_native to_dt zero undefined_value native =
     (case native of None \<Rightarrow> undefined_value | Some bytes \<Rightarrow> native_to_datetime from_native to_dt zero bytes)"

definition native_null_is_zero :: "u8 list option \<Rightarrow> bool option" where
  "native_null_is_zero native = map_option native_is_zero native"

subsection \<open>The order\<close>

text \<open>Microseconds since the epoch, for a fraction below a second.\<close>

definition ts_value :: "'z timeval_scheme \<Rightarrow> int" where
  "ts_value tv = sint (tv_sec tv) * 1000000 + sint (tv_usec tv)"

definition ts_ok :: "'z timeval_scheme \<Rightarrow> bool" where
  "ts_ok tv \<longleftrightarrow> 0 \<le> sint (tv_usec tv) \<and> sint (tv_usec tv) < 1000000"

lemma ts_cmp_lex:
  "ts_cmp a b = (if sint (tv_sec a) < sint (tv_sec b) then - 1 else if sint (tv_sec b) < sint (tv_sec a) then 1
     else if sint (tv_usec a) < sint (tv_usec b) then - 1 else if sint (tv_usec b) < sint (tv_usec a) then 1 else 0)"
  by (simp add: ts_cmp_def word_sless_alt)

interpretation timestamp_order: comparator tsz_cmp
proof
  fix a b c
  show "sgn (tsz_cmp b a) = - sgn (tsz_cmp a b)"
    by (simp add: tsz_cmp_def ts_cmp_lex)
  show "tsz_cmp a b \<le> 0 \<Longrightarrow> tsz_cmp b c \<le> 0 \<Longrightarrow> tsz_cmp a c \<le> 0"
    by (auto simp: tsz_cmp_def ts_cmp_lex split: if_splits)
qed

lemma ts_cmp_value:
  assumes "ts_ok a" "ts_ok b"
  shows "ts_cmp a b = sgn (ts_value a - ts_value b)"
  using assms by (auto simp: ts_cmp_lex ts_value_def ts_ok_def sgn_if)

lemma ts_trunc_value:
  assumes "log_10_int_ok tab" "d \<le> 6" "ts_ok tv"
  shows "\<exists>tv'. ts_trunc tab d tv = Some tv' \<and> ts_ok tv' \<and> tv_sec tv' = tv_sec tv \<and>
    ts_value tv' = ts_value tv - ts_value tv mod int (frac_unit d)"
proof -
  let ?u = "unat (tv_usec tv)"
  have nn: "0 \<le> sint (tv_usec tv)" "sint (tv_usec tv) < 1000000" using assms(3) by (simp_all add: ts_ok_def)
  have eq: "sint (tv_usec tv) = int ?u"
    using nn uint_lt2p [of "tv_usec tv"] unfolding sint_by_range uint_nat by (simp split: if_splits)
  then have lt: "?u < 1000000" using nn(2) by linarith
  obtain tv' where t: "my_timeval_trunc tab tv d = Some tv'" "tv_sec tv' = tv_sec tv"
    "unat (tv_usec tv') = ?u - ?u mod frac_unit d"
    using my_timeval_trunc_ok [OF assms(1,2), of tv] lt by auto
  have s': "sint (tv_usec tv') = int (?u - ?u mod frac_unit d)"
    using lt by (subst sint_small) (simp_all only: t(3), simp_all)
  obtain k where k: "(1000000::nat) = frac_unit d * k" using frac_unit_dvd [of d] ..
  have "(1000000::int) = int (frac_unit d) * int k" by (metis k of_nat_mult of_nat_numeral)
  then have "ts_value tv mod int (frac_unit d) = int ?u mod int (frac_unit d)"
    unfolding ts_value_def eq by (metis mod_mult_self4 mult.assoc mult.left_commute)
  then have "ts_value tv' = ts_value tv - ts_value tv mod int (frac_unit d)"
    unfolding ts_value_def t(2) s' eq by (simp add: of_nat_diff zmod_int del: of_nat_unat)
  moreover have "ts_ok tv'"
  proof -
    have "?u - ?u mod frac_unit d \<le> ?u" by simp
    then show ?thesis unfolding ts_ok_def s' using lt by linarith
  qed
  ultimately show ?thesis using t by (intro exI [of _ tv']) (simp add: ts_trunc_def)
qed

lemma floor_mono_unit:
  fixes m n u :: int
  assumes "0 < u" "m \<le> n"
  shows "m - m mod u \<le> n - n mod u"
proof -
  have "m div u \<le> n div u" using assms by (simp add: zdiv_mono1)
  then have "u * (m div u) \<le> u * (n div u)" using assms(1) by simp
  then show ?thesis by (simp add: minus_mod_eq_mult_div)
qed

lemma add_nanoseconds_usec_value:
  assumes "ns \<le> 1000000000" "ts_ok tv"
  shows "\<exists>over tv'. add_nanoseconds_usec ns tv = Some (over, tv') \<and> ts_ok tv' \<and> tv_sec tv' = tv_sec tv \<and>
    ts_value tv' + (if over then 1000000 else 0) = ts_value tv + int ((unat ns + 500) div 1000)"
proof -
  let ?u = "tv_usec tv" and ?k = "(unat ns + 500) div 1000"
  have nn: "0 \<le> sint ?u" "sint ?u < 1000000" using assms(2) by (simp_all add: ts_ok_def)
  have eq: "sint ?u = int (unat ?u)"
    using nn uint_lt2p [of ?u] unfolding sint_by_range uint_nat by (simp split: if_splits)
  then have "unat ?u < 1000000" using nn(2) by linarith
  then have le: "?u \<le> 999999" by (simp add: word_le_nat_alt)
  note s = nano_sum [OF assms(1) le]
  let ?w = "?u + (ns + 500) div 1000"
  have w: "sint ?w = sint ?u + int ?k"
    using s by (subst sint_small) (simp_all only: s(1) eq, simp_all)
  consider "ns < 500" | "\<not> ns < 500" "sint ?w < 1000000" | "\<not> ns < 500" "1000000 \<le> sint ?w" by linarith
  then show ?thesis
  proof cases
    case 1
    then show ?thesis using assms
      by (intro exI [of _ False] exI [of _ tv]) (simp add: add_nanoseconds_usec_def nano_small)
  next
    case 2
    then show ?thesis using assms(1) nn w
      by (intro exI [of _ False] exI [of _ "tv\<lparr>tv_usec := ?w\<rparr>"])
        (simp add: add_nanoseconds_usec_def word_sless_alt ts_ok_def ts_value_def)
  next
    case 3
    have r: "signed_rem ?w 1000000 = Some (of_nat (nat (sint ?w) mod 1000000))"
      using 3(2) by (subst signed_rem_nonneg) simp_all
    have "nat (sint ?w) mod 1000000 < 1000000" by simp
    then have "sint (of_nat (nat (sint ?w) mod 1000000) :: u32) = sint ?w mod 1000000"
      using 3(2) by (subst sint_small) (simp_all add: unat_of_nat take_bit_nat_eq_self zmod_int del: of_nat_unat)
    moreover have "sint ?w < 2000000" using w eq s(2) by linarith
    then have "sint ?w mod 1000000 = sint ?w - 1000000"
      using 3(2) by (subst mod_pos_pos_trivial [of "sint ?w - 1000000" 1000000, symmetric]) simp_all
    ultimately have m: "sint (of_nat (nat (sint ?w) mod 1000000) :: u32) = sint ?w - 1000000" by simp
    show ?thesis using 3 assms(1) \<open>sint ?w < 2000000\<close> w r m
      by (intro exI [of _ True] exI [of _ "tv\<lparr>tv_usec := of_nat (nat (sint ?w) mod 1000000)\<rparr>"])
        (simp add: add_nanoseconds_usec_def word_sless_alt ts_ok_def ts_value_def)
  qed
qed

text \<open>
  Timestamps are ordered by time: \<open>cmp\<close> of two values with fractions below a second is the sign of
  the difference of their microseconds since the epoch, with the zero datetime before all others; it
  is a total order (reflexive, transitive, antisymmetric in sign). \<open>trunc\<close> rounds down, also before
  1970, keeps the order and leaves the zero datetime alone; adding nanoseconds adds them rounded to
  microseconds, up to the second that is reported as carry.
\<close>

lemma timestamps_ordered_by_time:
  assumes "log_10_int_ok tab" "d \<le> 6" "ts_ok a" "ts_ok b"
  shows "(\<not> is_zero_datetime a \<and> \<not> is_zero_datetime b \<longrightarrow> tsz_cmp a b = sgn (ts_value a - ts_value b)) \<and>
    (is_zero_datetime a \<longrightarrow> tsz_cmp a b = (if is_zero_datetime b then 0 else - 1)) \<and>
    sgn (tsz_cmp b a) = - sgn (tsz_cmp a b) \<and> tsz_cmp a a = 0 \<and>
    (tsz_cmp a b \<le> 0 \<and> tsz_cmp b c \<le> 0 \<longrightarrow> tsz_cmp a c \<le> 0) \<and>
    (\<exists>a' b'. tsz_trunc tab d a = Some a' \<and> tsz_trunc tab d b = Some b' \<and> (is_zero_datetime a \<longrightarrow> a' = a) \<and>
      (\<not> is_zero_datetime a \<longrightarrow> ts_value a' = ts_value a - ts_value a mod int (frac_unit d)) \<and>
      (tsz_cmp a b \<le> 0 \<longrightarrow> tsz_cmp a' b' \<le> 0)) \<and>
    (\<forall>ns \<le> 1000000000. \<exists>over tv'. add_nanoseconds_usec ns (timeval.truncate a) = Some (over, tv') \<and> ts_ok tv' \<and>
      ts_value tv' + (if over then 1000000 else 0) = ts_value a + int ((unat ns + 500) div 1000))"
proof -
  have tr: "ts_value (timeval.truncate x) = ts_value x" "ts_ok (timeval.truncate x) = ts_ok x" for x :: timestamp_or_zero
    by (simp_all add: ts_value_def ts_ok_def timeval.truncate_def)
  have cmp: "tsz_cmp x y = sgn (ts_value x - ts_value y)"
    if "\<not> is_zero_datetime x" "\<not> is_zero_datetime y" "ts_ok x" "ts_ok y" for x y
    using that by (simp add: tsz_cmp_def ts_cmp_value tr)
  have cut: "\<exists>x'. tsz_trunc tab d x = Some x' \<and> (is_zero_datetime x \<longrightarrow> x' = x) \<and> is_zero_datetime x' = is_zero_datetime x \<and>
      (\<not> is_zero_datetime x \<longrightarrow> ts_ok x' \<and> ts_value x' = ts_value x - ts_value x mod int (frac_unit d))"
    if x: "ts_ok x" for x
  proof (cases "is_zero_datetime x")
    case True
    then show ?thesis by (simp add: tsz_trunc_def)
  next
    case False
    obtain tv where "ts_trunc tab d (timeval.truncate x) = Some tv" "ts_ok tv" "ts_value tv = ts_value x - ts_value x mod int (frac_unit d)"
      using ts_trunc_value [OF assms(1,2), of "timeval.truncate x"] x unfolding tr by blast
    then show ?thesis using False
      by (simp add: tsz_trunc_def) (simp add: timeval.extend_def ts_value_def ts_ok_def)
  qed
  obtain a' where a': "tsz_trunc tab d a = Some a'" "is_zero_datetime a \<longrightarrow> a' = a" "is_zero_datetime a' = is_zero_datetime a"
    "\<not> is_zero_datetime a \<longrightarrow> ts_ok a' \<and> ts_value a' = ts_value a - ts_value a mod int (frac_unit d)"
    using cut [OF assms(3)] by blast
  obtain b' where b': "tsz_trunc tab d b = Some b'" "is_zero_datetime b \<longrightarrow> b' = b" "is_zero_datetime b' = is_zero_datetime b"
    "\<not> is_zero_datetime b \<longrightarrow> ts_ok b' \<and> ts_value b' = ts_value b - ts_value b mod int (frac_unit d)"
    using cut [OF assms(4)] by blast
  have mono: "tsz_cmp a' b' \<le> 0" if le: "tsz_cmp a b \<le> 0"
  proof (cases "is_zero_datetime a \<or> is_zero_datetime b")
    case True
    then show ?thesis using le a'(3) b'(3) by (auto simp: tsz_cmp_def split: if_splits)
  next
    case False
    then have "ts_value a \<le> ts_value b" using le cmp [of a b] assms(3,4) by (auto simp: sgn_if split: if_splits)
    then have "ts_value a' \<le> ts_value b'"
      using False a'(4) b'(4) floor_mono_unit [of "int (frac_unit d)" "ts_value a" "ts_value b"] by simp
    then show ?thesis using False cmp [of a' b'] a'(3,4) b'(3,4) by (auto simp: sgn_if)
  qed
  have nano: "\<exists>over tv'. add_nanoseconds_usec ns (timeval.truncate a) = Some (over, tv') \<and> ts_ok tv' \<and>
      ts_value tv' + (if over then 1000000 else 0) = ts_value a + int ((unat ns + 500) div 1000)" if "ns \<le> 1000000000" for ns
    using add_nanoseconds_usec_value [OF that, of "timeval.truncate a"] assms(3) unfolding tr by blast
  have refl: "tsz_cmp a a = 0" by (simp add: tsz_cmp_def ts_cmp_lex)
  have both: "\<exists>a' b'. tsz_trunc tab d a = Some a' \<and> tsz_trunc tab d b = Some b' \<and> (is_zero_datetime a \<longrightarrow> a' = a) \<and>
      (\<not> is_zero_datetime a \<longrightarrow> ts_value a' = ts_value a - ts_value a mod int (frac_unit d)) \<and>
      (tsz_cmp a b \<le> 0 \<longrightarrow> tsz_cmp a' b' \<le> 0)"
    using a' b'(1) mono by - (rule exI [of _ a'], rule exI [of _ b'], blast)
  have zero: "tsz_cmp a b = (if is_zero_datetime b then 0 else - 1)" if "is_zero_datetime a"
    using that by (simp add: tsz_cmp_def)
  show ?thesis
    using cmp [OF _ _ assms(3,4)] zero timestamp_order.swap_sign [of b a] refl timestamp_order.le_trans [of a b c] both nano
    by blast
qed

lemma timestamps_ordered_by_time_witness:
  "tsz_cmp (tsz_from_timestamp \<lparr>tv_sec = - 1, tv_usec = 999999\<rparr> False) (tsz_from_timestamp \<lparr>tv_sec = 0, tv_usec = 5\<rparr> False) = - 1"
proof -
  let ?a = "tsz_from_timestamp \<lparr>tv_sec = - 1, tv_usec = 999999\<rparr> False"
  let ?b = "tsz_from_timestamp \<lparr>tv_sec = 0, tv_usec = 5\<rparr> False"
  have ok: "ts_ok ?a" "ts_ok ?b" "\<not> is_zero_datetime ?a \<and> \<not> is_zero_datetime ?b" "sgn (ts_value ?a - ts_value ?b) = - 1"
    by (simp_all add: tsz_from_timestamp_def timeval.extend_def ts_ok_def ts_value_def)
  have "(3 :: u32) \<le> 6" by simp
  from timestamps_ordered_by_time [OF powers_of_ten_ok this ok(1,2), THEN conjunct1] show ?thesis
    using ok(3,4) by simp
qed

end
