(* ===== verification/Thread_Cache.thy ===== *)
theory Thread_Cache
  imports Prelude
begin

text \<open>
  \<open>Thread_cache\<close> of \<open>thread_cache.h\<close>: threads that have served a connection park in the cache until a
  new connection is enqueued, the cache is flushed or a timeout elapses. Every section of a member
  function between two acquisitions of \<open>LOCK_thread_cache\<close> is one function on the state the lock
  protects; the step relation interleaves these sections of any threads. A wait on a condition may
  end at any time, as POSIX allows, so the theorems hold for every delivery of the signals.
  \<open>I_List<CONNECT>\<close> is the list of its elements (its links are in \<open>Ilinks\<close>), a connection a number.
\<close>

subsection \<open>The sections under the lock\<close>

record tcache =
  tc_list :: "nat list"
  cached_thread_count :: u32
  kill_cached_threads :: u32

definition tc_init :: tcache where
  "tc_init = \<lparr>tc_list = [], cached_thread_count = 0, kill_cached_threads = 0\<rparr>"

definition tc_destroy :: "tcache \<Rightarrow> unit option" where
  "tc_destroy s = guard (cached_thread_count s = 0 \<and> tc_list s = []) ()"

definition tc_enqueue :: "nat \<Rightarrow> tcache \<Rightarrow> bool \<times> tcache" where
  "tc_enqueue connect s =
     (if cached_thread_count s \<noteq> 0
      then (True, s\<lparr>tc_list := tc_list s @ [connect], cached_thread_count := cached_thread_count s - 1\<rparr>)
      else (False, s))"

text \<open>
  \<open>park\<close>: from the first acquisition of the lock to its release or to the first wait, and from the
  end of a wait to the release or to the next wait. It returns a connection (\<open>Served\<close>), returns 0
  (\<open>Dismissed\<close>) or waits; \<open>flushed\<close> is what the signal at the end depends on.
\<close>

datatype parking = Served nat | Dismissed | Waits

definition park_enter :: "u32 \<Rightarrow> tcache \<Rightarrow> parking \<times> tcache" where
  "park_enter thread_cache_size s =
     (case tc_list s of
        connect # rest \<Rightarrow> (Served connect, s\<lparr>tc_list := rest, cached_thread_count := cached_thread_count s + 1\<rparr>)
      | [] \<Rightarrow>
          if cached_thread_count s < thread_cache_size \<and> kill_cached_threads s = 0
          then (Waits, s\<lparr>cached_thread_count := cached_thread_count s + 1\<rparr>)
          else (Dismissed, s))"

definition park_wake :: "bool \<Rightarrow> tcache \<Rightarrow> parking \<times> bool \<times> tcache" where
  "park_wake timed_out s =
     (let flushed = kill_cached_threads s \<noteq> 0 in
      case tc_list s of
        connect # rest \<Rightarrow> (Served connect, flushed, s\<lparr>tc_list := rest\<rparr>)
      | [] \<Rightarrow>
          if flushed \<or> timed_out
          then (Dismissed, flushed, s\<lparr>cached_thread_count := cached_thread_count s - 1\<rparr>)
          else (Waits, flushed, s))"

text \<open>\<open>flush\<close>: the test of its loop, and its start; the first component is whether it returns.\<close>

definition flush_test :: "tcache \<Rightarrow> bool \<times> tcache" where
  "flush_test s =
     (if cached_thread_count s \<noteq> 0 then (False, s)
      else (True, s\<lparr>kill_cached_threads := kill_cached_threads s - 1\<rparr>))"

definition flush_begin :: "tcache \<Rightarrow> bool \<times> tcache" where
  "flush_begin s = flush_test (s\<lparr>kill_cached_threads := kill_cached_threads s + 1\<rparr>)"

definition tc_size :: "tcache \<Rightarrow> u32" where
  "tc_size s = cached_thread_count s"

subsection \<open>Threads\<close>

text \<open>
  \<open>final_flush\<close> increments \<open>kill_cached_threads\<close> before it takes the lock. With \<open>atomic\<close> the increment is
  one access; without, it reads (\<open>Final_Read\<close>) and writes. Then it flushes (\<open>Final_Flush\<close>).
\<close>

datatype activity = Running | Parked | Flushing | Final_Read u32 | Final_Flush

record tsystem =
  cache :: tcache
  act :: "nat \<Rightarrow> activity"

definition tstart :: tsystem where
  "tstart = \<lparr>cache = tc_init, act = (\<lambda>_. Running)\<rparr>"

datatype tevent =
    Enqueue nat bool
  | Park nat parking
  | Wake nat parking
  | Flush nat bool
  | Flush_Woken nat bool
  | Final_Load nat
  | Final_Store nat

text \<open>
  \<open>N\<close> bounds the system variable \<open>thread_cache_size\<close>, which may change at any time; thread numbers
  are below \<open>T\<close>.
\<close>

inductive tstep :: "bool \<Rightarrow> u32 \<Rightarrow> nat \<Rightarrow> tsystem \<Rightarrow> tevent \<Rightarrow> tsystem \<Rightarrow> bool" for atomic N T where
  enqueue: "tc_enqueue c (cache s) = (ok, k) \<Longrightarrow> tstep atomic N T s (Enqueue c ok) (s\<lparr>cache := k\<rparr>)"
| park: "act s t = Running \<Longrightarrow> t < T \<Longrightarrow> n \<le> N \<Longrightarrow> park_enter n (cache s) = (r, k) \<Longrightarrow>
    tstep atomic N T s (Park t r) (s\<lparr>cache := k, act := (act s)(t := if r = Waits then Parked else Running)\<rparr>)"
| wake: "act s t = Parked \<Longrightarrow> park_wake timed_out (cache s) = (r, flushed, k) \<Longrightarrow>
    tstep atomic N T s (Wake t r) (s\<lparr>cache := k, act := (act s)(t := if r = Waits then Parked else Running)\<rparr>)"
| flush: "act s t = Running \<or> act s t = Final_Flush \<Longrightarrow> t < T \<Longrightarrow> flush_begin (cache s) = (returns, k) \<Longrightarrow>
    tstep atomic N T s (Flush t returns) (s\<lparr>cache := k, act := (act s)(t := if returns then Running else Flushing)\<rparr>)"
| flush_woken: "act s t = Flushing \<Longrightarrow> flush_test (cache s) = (returns, k) \<Longrightarrow>
    tstep atomic N T s (Flush_Woken t returns) (s\<lparr>cache := k, act := (act s)(t := if returns then Running else Flushing)\<rparr>)"
| final_load: "\<not> atomic \<Longrightarrow> act s t = Running \<Longrightarrow> t < T \<Longrightarrow>
    tstep atomic N T s (Final_Load t) (s\<lparr>act := (act s)(t := Final_Read (kill_cached_threads (cache s)))\<rparr>)"
| final_store: "act s t = Final_Read v \<Longrightarrow>
    tstep atomic N T s (Final_Store t) (s\<lparr>cache := (cache s)\<lparr>kill_cached_threads := v + 1\<rparr>, act := (act s)(t := Final_Flush)\<rparr>)"
| final_increment: "atomic \<Longrightarrow> act s t = Running \<Longrightarrow> t < T \<Longrightarrow>
    tstep atomic N T s (Final_Store t)
      (s\<lparr>cache := (cache s)\<lparr>kill_cached_threads := kill_cached_threads (cache s) + 1\<rparr>, act := (act s)(t := Final_Flush)\<rparr>)"

inductive texec :: "bool \<Rightarrow> u32 \<Rightarrow> nat \<Rightarrow> tsystem \<Rightarrow> tevent list \<Rightarrow> tsystem \<Rightarrow> bool" for atomic N T where
  texec_none: "texec atomic N T s [] s"
| texec_more: "texec atomic N T s es s' \<Longrightarrow> tstep atomic N T s' e s'' \<Longrightarrow> texec atomic N T s (es @ [e]) s''"

lemmas thread_cache_defs = tc_enqueue_def park_enter_def park_wake_def flush_test_def flush_begin_def tc_init_def

subsection \<open>Condition variables\<close>

text \<open>
  The same steps with the signals made explicit: a thread goes on after a wait only when it was woken
  or, in \<open>park\<close>, when its time is over. \<open>woken\<close> are the waiting threads that a signal has reached,
  \<open>to_cache\<close> and \<open>to_flush\<close> count the signals that \<open>enqueue\<close> and \<open>park\<close> send after they release the
  lock and that have not been delivered yet. A signal wakes one thread that waits, if there is one; a
  broadcast wakes all.
\<close>

record signals =
  woken :: "nat set"
  to_cache :: nat
  to_flush :: nat

definition no_signals :: signals where
  "no_signals = \<lparr>woken = {}, to_cache = 0, to_flush = 0\<rparr>"

definition parked :: "tsystem \<Rightarrow> nat set" where
  "parked s = {t. act s t = Parked}"

fun sent :: "tevent \<Rightarrow> tsystem \<Rightarrow> signals \<Rightarrow> signals" where
  "sent (Enqueue c True) s g = g\<lparr>to_cache := to_cache g + 1\<rparr>"
| "sent (Flush t False) s g = g\<lparr>woken := woken g \<union> parked s\<rparr>"
| "sent _ s g = g"

inductive sstep :: "bool \<Rightarrow> u32 \<Rightarrow> nat \<Rightarrow> tsystem \<times> signals \<Rightarrow> tevent option \<Rightarrow> tsystem \<times> signals \<Rightarrow> bool"
  for atomic N T where
  s_other: "tstep atomic N T s e s' \<Longrightarrow> (\<And>t r. e \<noteq> Wake t r) \<Longrightarrow> (\<And>t b. e \<noteq> Flush_Woken t b) \<Longrightarrow>
    sstep atomic N T (s, g) (Some e) (s', sent e s g)"
| s_wake: "act s t = Parked \<Longrightarrow> timed_out \<or> t \<in> woken g \<Longrightarrow> park_wake timed_out (cache s) = (r, flushed, k) \<Longrightarrow>
    sstep atomic N T (s, g) (Some (Wake t r))
      (s\<lparr>cache := k, act := (act s)(t := if r = Waits then Parked else Running)\<rparr>,
       g\<lparr>woken := woken g - {t}, to_flush := to_flush g + (if r \<noteq> Waits \<and> flushed then 1 else 0)\<rparr>)"
| s_flush_woken: "act s t = Flushing \<Longrightarrow> t \<in> woken g \<Longrightarrow> flush_test (cache s) = (returns, k) \<Longrightarrow>
    sstep atomic N T (s, g) (Some (Flush_Woken t returns))
      (s\<lparr>cache := k, act := (act s)(t := if returns then Running else Flushing)\<rparr>,
       g\<lparr>woken := (woken g - {t}) \<union> (if returns then {} else parked s)\<rparr>)"
| s_cache_signal: "to_cache g = Suc n \<Longrightarrow> act s t = Parked \<Longrightarrow> t \<notin> woken g \<Longrightarrow>
    sstep atomic N T (s, g) None (s, g\<lparr>woken := insert t (woken g), to_cache := n\<rparr>)"
| s_cache_nobody: "to_cache g = Suc n \<Longrightarrow> parked s \<subseteq> woken g \<Longrightarrow>
    sstep atomic N T (s, g) None (s, g\<lparr>to_cache := n\<rparr>)"
| s_flush_signal: "to_flush g = Suc n \<Longrightarrow> act s t = Flushing \<Longrightarrow> t \<notin> woken g \<Longrightarrow>
    sstep atomic N T (s, g) None (s, g\<lparr>woken := insert t (woken g), to_flush := n\<rparr>)"
| s_flush_nobody: "to_flush g = Suc n \<Longrightarrow> {t. act s t = Flushing} \<subseteq> woken g \<Longrightarrow>
    sstep atomic N T (s, g) None (s, g\<lparr>to_flush := n\<rparr>)"

inductive sexec :: "bool \<Rightarrow> u32 \<Rightarrow> nat \<Rightarrow> tsystem \<times> signals \<Rightarrow> tevent option list \<Rightarrow> tsystem \<times> signals \<Rightarrow> bool"
  for atomic N T where
  sexec_none: "sexec atomic N T x [] x"
| sexec_more: "sexec atomic N T x es y \<Longrightarrow> sstep atomic N T y e z \<Longrightarrow> sexec atomic N T x (es @ [e]) z"

text \<open>With signals there are only fewer runs.\<close>

lemma sstep_tstep:
  assumes "sstep atomic N T (s, g) e (s', g')"
  shows "case e of None \<Rightarrow> s' = s | Some e \<Rightarrow> tstep atomic N T s e s'"
  using assms
proof (cases rule: sstep.cases)
  case (s_wake t timed_out r flushed k)
  then show ?thesis using tstep.wake [of s t timed_out r flushed k atomic N T] by simp
next
  case (s_flush_woken t returns k)
  then show ?thesis using tstep.flush_woken [of s t returns k atomic N T] by simp
qed simp_all

lemma sexec_texec: "sexec atomic N T x es y \<Longrightarrow> texec atomic N T (fst x) (List.map_filter id es) (fst y)"
proof (induction rule: sexec.induct)
  case (sexec_more x es y e z)
  then show ?case
    using sstep_tstep [of atomic N T "fst y" "snd y" e "fst z" "snd z"]
    by (cases e) (auto simp: List.map_filter_def intro: texec.intros)
qed (auto intro: texec.intros)

subsection \<open>What every run keeps\<close>

text \<open>The accepted connections and those that were handed to a thread, in order.\<close>

fun accepted :: "tevent list \<Rightarrow> nat list" where
  "accepted [] = []"
| "accepted (Enqueue c True # es) = c # accepted es"
| "accepted (_ # es) = accepted es"

fun served :: "tevent list \<Rightarrow> nat list" where
  "served [] = []"
| "served (Park t (Served c) # es) = c # served es"
| "served (Wake t (Served c) # es) = c # served es"
| "served (_ # es) = served es"

lemma accepted_append [simp]: "accepted (es @ fs) = accepted es @ accepted fs"
  by (induction es rule: accepted.induct) auto

lemma served_append [simp]: "served (es @ fs) = served es @ served fs"
  by (induction es rule: served.induct) auto

definition cache_ok :: "u32 \<Rightarrow> nat \<Rightarrow> tsystem \<Rightarrow> bool" where
  "cache_ok N T s \<longleftrightarrow> {t. act s t \<noteq> Running} \<subseteq> {..<T} \<and>
     card (parked s) = unat (cached_thread_count (cache s)) + length (tc_list (cache s)) \<and>
     card (parked s) \<le> unat N"

lemma cache_ok_finite: "cache_ok N T s \<Longrightarrow> finite (parked s)"
  unfolding cache_ok_def parked_def
  by (rule finite_subset [of _ "{t. act s t \<noteq> Running}"]) (auto intro: finite_subset)

lemma cache_ok_busy: "cache_ok N T s \<Longrightarrow> act s t \<noteq> Running \<Longrightarrow> t < T"
  by (auto simp: cache_ok_def)

lemma count_down: "c \<noteq> 0 \<Longrightarrow> unat (c - 1 :: u32) = unat c - 1"
  by (simp add: unat_minus_one)

lemma count_up: "c < (n :: u32) \<Longrightarrow> unat (c + 1) = unat c + 1"
  using unat_bound [of n] by (simp add: unat_word_ariths word_less_nat_alt)

text \<open>The sections, on the number of parked threads they imply.\<close>

abbreviation parked_count :: "tcache \<Rightarrow> nat" where
  "parked_count k \<equiv> unat (cached_thread_count k) + length (tc_list k)"

lemma enqueue_count: "tc_enqueue c k = (ok, k') \<Longrightarrow> parked_count k' = parked_count k"
  by (auto simp: tc_enqueue_def count_down unat_gt_0 split: if_splits)

lemma park_enter_count:
  assumes "park_enter n k = (r, k')" "n \<le> N" "parked_count k \<le> unat N"
  shows "parked_count k' = parked_count k + (if r = Waits then 1 else 0) \<and> parked_count k' \<le> unat N"
proof (cases "tc_list k")
  case (Cons c cs)
  then have "cached_thread_count k < N" using assms(3) by (simp add: word_less_nat_alt)
  then show ?thesis using assms Cons by (auto simp: park_enter_def count_up)
next
  case Nil
  then show ?thesis using assms
    by (auto simp: park_enter_def count_up word_le_nat_alt word_less_nat_alt split: if_splits)
qed

lemma park_wake_count:
  assumes "park_wake timed_out k = (r, flushed, k')" "parked_count k \<noteq> 0"
  shows "parked_count k' = parked_count k - (if r = Waits then 0 else 1)"
  using assms by (auto simp: park_wake_def Let_def count_down unat_gt_0 split: list.splits if_splits)

lemma flush_count:
  "flush_test k = (returns, k') \<Longrightarrow> parked_count k' = parked_count k"
  "flush_begin k = (returns, k') \<Longrightarrow> parked_count k' = parked_count k"
  by (auto simp: flush_test_def flush_begin_def split: if_splits)

lemma tstep_cache_ok:
  assumes "tstep atomic N T s e s'" "cache_ok N T s"
  shows "cache_ok N T s'"
  using assms(1)
proof (cases rule: tstep.cases)
  case (park t n r k)
  have p: "t \<notin> parked s" using park by (simp add: parked_def)
  have "parked s' = (if r = Waits then insert t (parked s) else parked s)"
    using park p by (auto simp: parked_def)
  moreover have "parked_count k = parked_count (cache s) + (if r = Waits then 1 else 0) \<and> parked_count k \<le> unat N"
    using park_enter_count [of n "cache s" r k N] park assms(2) by (simp add: cache_ok_def)
  ultimately show ?thesis using park p assms(2) cache_ok_finite [OF assms(2)] by (auto simp: cache_ok_def)
next
  case (wake t timed_out r flushed k)
  have p: "t \<in> parked s" using wake by (simp add: parked_def)
  have "t < T" using cache_ok_busy [OF assms(2), of t] wake by simp
  have "parked s' = (if r = Waits then parked s else parked s - {t})"
    using wake p by (auto simp: parked_def)
  moreover have c: "card (parked s) \<noteq> 0" using p cache_ok_finite [OF assms(2)] by auto
  moreover from c have "parked_count k = parked_count (cache s) - (if r = Waits then 0 else 1)"
    using park_wake_count [of timed_out "cache s" r flushed k] wake assms(2) by (simp add: cache_ok_def)
  ultimately show ?thesis using wake p \<open>t < T\<close> assms(2) cache_ok_finite [OF assms(2)]
    by (auto simp: cache_ok_def card_Diff_singleton)
next
  case (enqueue c ok k)
  then show ?thesis using enqueue_count [of c "cache s" ok k] assms(2) by (simp add: cache_ok_def parked_def)
next
  case (flush t returns k)
  have "parked s' = parked s" using flush by (auto simp: parked_def)
  then show ?thesis using flush flush_count [of "cache s" returns k] assms(2) by (auto simp: cache_ok_def)
next
  case (flush_woken t returns k)
  have "parked s' = parked s" using flush_woken by (auto simp: parked_def)
  then show ?thesis using flush_woken flush_count [of "cache s" returns k] assms(2) cache_ok_busy [OF assms(2), of t] by (auto simp: cache_ok_def)
next
  case (final_load t)
  have "parked s' = parked s" using final_load by (auto simp: parked_def)
  then show ?thesis using final_load assms(2) by (auto simp: cache_ok_def)
next
  case (final_store t v)
  have "parked s' = parked s" using final_store by (auto simp: parked_def)
  then show ?thesis using final_store assms(2) cache_ok_busy [OF assms(2), of t] by (auto simp: cache_ok_def)
next
  case (final_increment t)
  have "parked s' = parked s" using final_increment by (auto simp: parked_def)
  then show ?thesis using final_increment assms(2) by (auto simp: cache_ok_def)
qed

lemma tstart_ok: "cache_ok N T tstart"
  by (simp add: cache_ok_def tstart_def tc_init_def parked_def)

lemma texec_cache_ok: "texec atomic N T s es s' \<Longrightarrow> cache_ok N T s \<Longrightarrow> cache_ok N T s'"
  by (induction rule: texec.induct) (auto intro: tstep_cache_ok)

text \<open>Connections are served in the order in which they were accepted.\<close>

lemma tstep_served:
  assumes "tstep atomic N T s e s'"
  shows "served [e] @ tc_list (cache s') = tc_list (cache s) @ accepted [e]"
  using assms
  by (cases rule: tstep.cases)
    (auto simp: thread_cache_defs Let_def split: if_splits list.splits)

lemma texec_served:
  "texec atomic N T s es s' \<Longrightarrow> served es @ tc_list (cache s') = tc_list (cache s) @ accepted es"
proof (induction rule: texec.induct)
  case (texec_more s es s' e s'')
  then show ?case using tstep_served [OF texec_more(2)] by (metis accepted_append append.assoc served_append)
qed simp

subsection \<open>Flushing\<close>

definition flushing :: "tsystem \<Rightarrow> nat set" where
  "flushing s = {t. act s t = Flushing}"

fun finals :: "tevent list \<Rightarrow> nat" where
  "finals [] = 0"
| "finals (Final_Store t # es) = Suc (finals es)"
| "finals (_ # es) = finals es"

fun wakes :: "tevent list \<Rightarrow> nat" where
  "wakes [] = 0"
| "wakes (Wake t r # es) = Suc (wakes es)"
| "wakes (_ # es) = wakes es"

lemma finals_append [simp]: "finals (es @ fs) = finals es + finals fs"
  by (induction es rule: finals.induct) auto

lemma wakes_append [simp]: "wakes (es @ fs) = wakes es + wakes fs"
  by (induction es rule: wakes.induct) auto

lemma cache_ok_flushing:
  assumes "cache_ok N T s"
  shows "finite (flushing s)" "card (flushing s) \<le> T"
proof -
  have "flushing s \<subseteq> {..<T}" using cache_ok_busy [OF assms] by (auto simp: flushing_def)
  then show "finite (flushing s)" "card (flushing s) \<le> T"
    using card_mono [of "{..<T}"] by (auto intro: finite_subset)
qed

text \<open>With atomic increments \<open>kill_cached_threads\<close> counts the flushes in progress and the final ones.\<close>

definition kill_ok :: "nat \<Rightarrow> tsystem \<Rightarrow> bool" where
  "kill_ok n s \<longleftrightarrow> kill_cached_threads (cache s) = of_nat (card (flushing s) + n) \<and> (\<forall>t v. act s t \<noteq> Final_Read v)"

lemma section_kill:
  "tc_enqueue c k = (ok, k') \<Longrightarrow> kill_cached_threads k' = kill_cached_threads k"
  "park_enter n k = (r, k') \<Longrightarrow> kill_cached_threads k' = kill_cached_threads k"
  "park_wake timed_out k = (r, flushed, k') \<Longrightarrow> kill_cached_threads k' = kill_cached_threads k"
  "flush_begin k = (returns, k') \<Longrightarrow> kill_cached_threads k' = kill_cached_threads k + (if returns then 0 else 1)"
  "flush_test k = (returns, k') \<Longrightarrow> kill_cached_threads k' = kill_cached_threads k - (if returns then 1 else 0)"
  by (auto simp: thread_cache_defs Let_def split: if_splits list.splits)

lemma tstep_kill_ok:
  assumes "tstep True N T s e s'" "cache_ok N T s" "kill_ok n s"
  shows "kill_ok (n + finals [e]) s'"
  using assms(1)
proof (cases rule: tstep.cases)
  case (enqueue c ok k)
  then show ?thesis using section_kill(1) [of c "cache s" ok k] assms(3) by (simp add: kill_ok_def flushing_def)
next
  case (park t m r k)
  have "flushing s' = flushing s" using park by (auto simp: flushing_def)
  then show ?thesis using park section_kill(2) [of m "cache s" r k] assms(3) by (auto simp: kill_ok_def)
next
  case (wake t timed_out r fl k)
  have "flushing s' = flushing s" using wake by (auto simp: flushing_def)
  then show ?thesis using wake section_kill(3) [of timed_out "cache s" r fl k] assms(3) by (auto simp: kill_ok_def)
next
  case (flush t returns k)
  have "t \<notin> flushing s" using flush by (auto simp: flushing_def)
  moreover have "flushing s' = (if returns then flushing s else insert t (flushing s))"
    using flush by (auto simp: flushing_def)
  ultimately show ?thesis
    using flush section_kill(4) [of "cache s" returns k] assms(3) cache_ok_flushing(1) [OF assms(2)]
    by (auto simp: kill_ok_def)
next
  case (flush_woken t returns k)
  have t: "t \<in> flushing s" using flush_woken by (simp add: flushing_def)
  moreover have "flushing s' = (if returns then flushing s - {t} else flushing s)"
    using flush_woken by (auto simp: flushing_def)
  moreover obtain c where "card (flushing s - {t}) = c" "card (flushing s) = Suc c"
    using card.remove [OF cache_ok_flushing(1) [OF assms(2)] t] by blast
  ultimately show ?thesis
    using flush_woken section_kill(5) [of "cache s" returns k] assms(3) by (auto simp: kill_ok_def)
next
  case (final_increment t)
  have "flushing s' = flushing s" using final_increment by (auto simp: flushing_def)
  then show ?thesis using final_increment assms(3) by (auto simp: kill_ok_def)
next
  case (final_store t v)
  then show ?thesis using assms(3) by (simp add: kill_ok_def)
qed simp

lemma tstart_kill_ok: "kill_ok 0 tstart"
  by (simp add: kill_ok_def tstart_def tc_init_def flushing_def)

lemma texec_kill_ok:
  "texec True N T s es s' \<Longrightarrow> cache_ok N T s \<Longrightarrow> kill_ok n s \<Longrightarrow> kill_ok (n + finals es) s'"
proof (induction rule: texec.induct)
  case (texec_more s es s' e s'')
  have "kill_ok (n + finals es + finals [e]) s''"
    using tstep_kill_ok [OF texec_more(2) texec_cache_ok [OF texec_more(1)]] texec_more by blast
  then show ?case by (simp add: add.assoc)
qed simp

lemma kill_ok_positive:
  assumes "cache_ok N T s" "kill_ok n s" "flushing s \<noteq> {} \<or> 0 < n" "T + n < 2 ^ 32"
  shows "kill_cached_threads (cache s) \<noteq> 0"
proof -
  have "0 < card (flushing s) + n" using assms(3) cache_ok_flushing(1) [OF assms(1)] by (auto simp: card_gt_0_iff)
  moreover have "card (flushing s) + n < 2 ^ 32" using cache_ok_flushing(2) [OF assms(1)] assms(4) by linarith
  ultimately have "unat (kill_cached_threads (cache s)) \<noteq> 0"
    using assms(2) by (simp add: kill_ok_def unat_of_nat take_bit_nat_eq_self del: of_nat_add)
  then show ?thesis by auto
qed

text \<open>While the counter is not zero nobody parks, and every thread that wakes leaves.\<close>

lemma tstep_while_killing:
  assumes "tstep atomic N T s e s'" "cache_ok N T s" "kill_cached_threads (cache s) \<noteq> 0"
  shows "e \<noteq> Park t Waits \<and> e \<noteq> Wake t Waits \<and> card (parked s') + wakes [e] = card (parked s)"
  using assms(1)
proof (cases rule: tstep.cases)
  case (park t' m r k)
  then have "r \<noteq> Waits" using assms(3) by (auto simp: park_enter_def split: list.splits if_splits)
  moreover have "parked s' = parked s" using park \<open>r \<noteq> Waits\<close> by (auto simp: parked_def)
  ultimately show ?thesis using park by simp
next
  case (wake t' timed_out r flushed k)
  have p: "t' \<in> parked s" using wake by (simp add: parked_def)
  have "r \<noteq> Waits" using wake assms(3) by (auto simp: park_wake_def Let_def split: list.splits if_splits)
  moreover have "parked s' = parked s - {t'}" using wake \<open>r \<noteq> Waits\<close> by (auto simp: parked_def)
  moreover obtain c where "card (parked s - {t'}) = c" "card (parked s) = Suc c"
    using card.remove [OF cache_ok_finite [OF assms(2)] p] by blast
  ultimately show ?thesis using wake by simp
next
  case (flush t' returns k)
  have "parked s' = parked s" using flush by (auto simp: parked_def)
  then show ?thesis using flush by simp
next
  case (flush_woken t' returns k)
  have "parked s' = parked s" using flush_woken by (auto simp: parked_def)
  then show ?thesis using flush_woken by simp
next
  case (final_load t')
  have "parked s' = parked s" using final_load by (auto simp: parked_def)
  then show ?thesis using final_load by simp
next
  case (final_store t' v)
  have "parked s' = parked s" using final_store by (auto simp: parked_def)
  then show ?thesis using final_store by simp
next
  case (final_increment t')
  have "parked s' = parked s" using final_increment by (auto simp: parked_def)
  then show ?thesis using final_increment by simp
next
  case (enqueue c ok k)
  then show ?thesis by (simp add: parked_def)
qed

lemma tstep_flushing_stays:
  assumes "tstep atomic N T s e s'" "act s f = Flushing" "e \<noteq> Flush_Woken f True"
  shows "act s' f = Flushing"
  using assms by (cases rule: tstep.cases) (auto split: if_splits)

lemma texec_while_killing:
  assumes "texec True N T s es s'" "cache_ok N T s" "kill_ok n s" "T + n + finals es < 2 ^ 32"
    and "act s f = Flushing \<and> Flush_Woken f True \<notin> set es \<or> 0 < n"
  shows "(\<forall>t. Park t Waits \<notin> set es \<and> Wake t Waits \<notin> set es) \<and> card (parked s') + wakes es = card (parked s) \<and>
    (act s f = Flushing \<and> Flush_Woken f True \<notin> set es \<longrightarrow> act s' f = Flushing)"
  using assms
proof (induction rule: texec.induct)
  case (texec_more s es s' e s'')
  have IH: "(\<forall>t. Park t Waits \<notin> set es \<and> Wake t Waits \<notin> set es) \<and> card (parked s') + wakes es = card (parked s) \<and>
    (act s f = Flushing \<and> Flush_Woken f True \<notin> set es \<longrightarrow> act s' f = Flushing)"
    by (rule texec_more.IH) (use texec_more.prems in auto)
  have ok: "cache_ok N T s'" "kill_ok (n + finals es) s'"
    using texec_cache_ok [OF texec_more.hyps(1)] texec_kill_ok [OF texec_more.hyps(1)] texec_more.prems by simp_all
  have "flushing s' \<noteq> {} \<or> 0 < n + finals es"
    using texec_more.prems IH by (auto simp: flushing_def)
  then have "kill_cached_threads (cache s') \<noteq> 0"
    using kill_ok_positive [OF ok] texec_more.prems by simp
  then have e: "e \<noteq> Park t Waits \<and> e \<noteq> Wake t Waits \<and> card (parked s'') + wakes [e] = card (parked s')" for t
    using tstep_while_killing [OF texec_more.hyps(2) ok(1)] by simp
  have "act s f = Flushing \<and> Flush_Woken f True \<notin> set (es @ [e]) \<longrightarrow> act s'' f = Flushing"
    using IH tstep_flushing_stays [OF texec_more.hyps(2), of f] by auto
  then show ?case using IH e by (auto simp: add.commute add.left_commute)
qed simp

subsection \<open>No signal is lost\<close>

definition signals_ok :: "tsystem \<Rightarrow> signals \<Rightarrow> bool" where
  "signals_ok s g \<longleftrightarrow> woken g \<subseteq> parked s \<union> flushing s \<and>
     length (tc_list (cache s)) \<le> card (woken g \<inter> parked s) + to_cache g"

lemma list_section:
  "tc_enqueue c k = (ok, k') \<Longrightarrow> length (tc_list k') = length (tc_list k) + (if ok then 1 else 0)"
  "park_enter n k = (r, k') \<Longrightarrow> length (tc_list k') \<le> length (tc_list k)"
  "park_wake timed_out k = (r, flushed, k') \<Longrightarrow> length (tc_list k') = length (tc_list k) - 1"
  "flush_begin k = (returns, k') \<Longrightarrow> tc_list k' = tc_list k"
  "flush_test k = (returns, k') \<Longrightarrow> tc_list k' = tc_list k"
  by (auto simp: thread_cache_defs Let_def split: if_splits list.splits)

lemma wake_waits_list: "park_wake timed_out k = (Waits, flushed, k') \<Longrightarrow> tc_list k' = []"
  by (auto simp: thread_cache_defs Let_def split: if_splits list.splits)

lemma card_inter_mono: "A \<inter> P \<subseteq> B \<inter> Q \<Longrightarrow> finite Q \<Longrightarrow> card (A \<inter> P) \<le> card (B \<inter> Q)"
  by (rule card_mono) auto

lemma sstep_signals_ok:
  assumes "sstep atomic N T (s, g) e (s', g')" "cache_ok N T s" "signals_ok s g"
  shows "signals_ok s' g'"
proof -
  have fin: "finite (parked s)" by (rule cache_ok_finite [OF assms(2)])
  have ok': "cache_ok N T s'"
    using sstep_tstep [OF assms(1)] assms(2) tstep_cache_ok by (cases e) auto
  have fin': "finite (parked s')" by (rule cache_ok_finite [OF ok'])
  show ?thesis using assms(1)
  proof (cases rule: sstep.cases)
    case (s_other e)
    have "parked s \<subseteq> parked s' \<and> flushing s \<subseteq> flushing s' \<and> woken g \<subseteq> woken g' \<and> woken g' \<subseteq> woken g \<union> parked s \<and>
      length (tc_list (cache s')) + to_cache g \<le> length (tc_list (cache s)) + to_cache g'"
      using s_other(3)
    proof (cases rule: tstep.cases)
      case (enqueue c ok k)
      then show ?thesis using s_other(2) list_section(1) [of c "cache s" ok k]
        by (cases ok) (auto simp: parked_def flushing_def)
    next
      case (park t n r k)
      then show ?thesis using s_other(2) list_section(2) [of n "cache s" r k]
        by (auto simp: parked_def flushing_def)
    next
      case (flush t returns k)
      then show ?thesis using s_other(2) list_section(4) [of "cache s" returns k]
        by (cases returns) (auto simp: parked_def flushing_def)
    qed (use s_other in \<open>auto simp: parked_def flushing_def\<close>)
    moreover from this have "card (woken g \<inter> parked s) \<le> card (woken g' \<inter> parked s')"
      by (intro card_inter_mono fin') blast
    ultimately show ?thesis using assms(3) unfolding signals_ok_def by (intro conjI) (blast, linarith)
  next
    case (s_wake t timed_out r flushed k)
    have f': "flushing s' = flushing s" using s_wake by (auto simp: flushing_def)
    show ?thesis
    proof (cases "r = Waits")
      case True
      then have "parked s' = parked s" using s_wake by (auto simp: parked_def)
      then show ?thesis using True s_wake f' assms(3) wake_waits_list [of timed_out "cache s" flushed k]
        by (auto simp: signals_ok_def)
    next
      case False
      then have p: "parked s' = parked s - {t}" using s_wake by (auto simp: parked_def)
      have "woken g' \<inter> parked s' = (woken g \<inter> parked s) - {t}" using s_wake p by auto
      then have "card (woken g \<inter> parked s) - 1 \<le> card (woken g' \<inter> parked s')"
        using fin by (cases "t \<in> woken g \<inter> parked s") simp_all
      then show ?thesis
        using s_wake f' p False assms(3) list_section(3) [of timed_out "cache s" r flushed k] by (auto simp: signals_ok_def)
    qed
  next
    case (s_flush_woken t returns k)
    have p: "parked s' = parked s" using s_flush_woken by (auto simp: parked_def)
    have t: "t \<notin> parked s" using s_flush_woken by (simp add: parked_def)
    have f': "flushing s' = (if returns then flushing s - {t} else flushing s)"
      using s_flush_woken by (auto simp: flushing_def)
    have "woken g \<inter> parked s \<subseteq> woken g' \<inter> parked s'" using s_flush_woken p t by auto
    then have "card (woken g \<inter> parked s) \<le> card (woken g' \<inter> parked s')" by (rule card_inter_mono [OF _ fin'])
    then show ?thesis
      using s_flush_woken f' p assms(3) list_section(5) [of "cache s" returns k] by (auto simp: signals_ok_def)
  next
    case (s_cache_signal n t)
    then have "t \<in> parked s" by (simp add: parked_def)
    then have "woken g' \<inter> parked s' = insert t (woken g \<inter> parked s)" "t \<notin> woken g \<inter> parked s"
      using s_cache_signal by auto
    then show ?thesis using s_cache_signal assms(3) fin \<open>t \<in> parked s\<close> by (auto simp: signals_ok_def)
  next
    case (s_cache_nobody n)
    then have "woken g \<inter> parked s = parked s" by auto
    then show ?thesis using s_cache_nobody assms(2,3) by (simp add: signals_ok_def cache_ok_def)
  next
    case (s_flush_signal n t)
    then have "t \<in> flushing s" by (simp add: flushing_def)
    moreover have "woken g \<inter> parked s \<subseteq> woken g' \<inter> parked s'" using s_flush_signal by auto
    then have "card (woken g \<inter> parked s) \<le> card (woken g' \<inter> parked s')" by (rule card_inter_mono [OF _ fin'])
    ultimately show ?thesis using s_flush_signal assms(3) by (auto simp: signals_ok_def)
  next
    case (s_flush_nobody n)
    then show ?thesis using assms(3) by (simp add: signals_ok_def)
  qed
qed

lemma sexec_signals_ok:
  "sexec atomic N T x es y \<Longrightarrow> cache_ok N T (fst x) \<Longrightarrow> signals_ok (fst x) (snd x) \<Longrightarrow>
    cache_ok N T (fst y) \<and> signals_ok (fst y) (snd y)"
proof (induction rule: sexec.induct)
  case (sexec_more x es y e z)
  obtain s g s' g' where yz: "y = (s, g)" "z = (s', g')" by fastforce
  have "cache_ok N T s" "signals_ok s g" using sexec_more yz by simp_all
  moreover have "cache_ok N T s'"
    using sstep_tstep [of atomic N T s g e s' g'] sexec_more yz \<open>cache_ok N T s\<close> tstep_cache_ok by (cases e) auto
  ultimately show ?case using sstep_signals_ok [of atomic N T s g e s' g'] sexec_more yz by simp
qed simp

text \<open>Runs from their first step.\<close>

lemma texec_first:
  "tstep atomic N T s e s' \<Longrightarrow> texec atomic N T s' es s'' \<Longrightarrow> texec atomic N T s (e # es) s''"
proof (rotate_tac 1, induction rule: texec.induct)
  case (texec_none s')
  then show ?case using texec_more [OF texec.texec_none, of atomic N T s e s'] by simp
next
  case (texec_more s1 es s2 e' s3)
  then show ?case using texec.texec_more [of atomic N T s "e # es" s2 e' s3] by simp
qed

lemma sexec_first:
  "sstep atomic N T x e y \<Longrightarrow> sexec atomic N T y es z \<Longrightarrow> sexec atomic N T x (e # es) z"
proof (rotate_tac 1, induction rule: sexec.induct)
  case (sexec_none y)
  then show ?case using sexec_more [OF sexec.sexec_none, of atomic N T x e y] by simp
next
  case (sexec_more y es z e' w)
  then show ?case using sexec.sexec_more [of atomic N T x "e # es" z e' w] by simp
qed

subsection \<open>Properties\<close>

text \<open>
  C8. The thread cache in every interleaving of its sections, with every delivery of signals and any
  values of \<open>thread_cache_size\<close> up to \<open>N\<close>: \<open>cached_thread_count\<close> and the length of the queue add up to
  the number of parked threads, which never exceeds \<open>N\<close>, so that no counter wraps around; accepted
  connections are handed out in order, each exactly once; and no queued connection is forgotten:
  there are at least as many threads woken or signals under way, and any parked thread that wakes
  takes the first one.
\<close>

theorem thread_cache_serves:
  assumes "sexec atomic N T (tstart, no_signals) es (s, g)"
  shows "card (parked s) = unat (cached_thread_count (cache s)) + length (tc_list (cache s)) \<and>
    card (parked s) \<le> unat N \<and>
    accepted (List.map_filter id es) = served (List.map_filter id es) @ tc_list (cache s) \<and>
    length (tc_list (cache s)) \<le> card (woken g \<inter> parked s) + to_cache g \<and>
    (tc_list (cache s) = [] \<or> parked s \<noteq> {} \<and>
      (\<forall>timed_out. fst (park_wake timed_out (cache s)) = Served (hd (tc_list (cache s)))))"
proof -
  have ok: "cache_ok N T s" "signals_ok s g"
    using sexec_signals_ok [OF assms] tstart_ok [of N T] by (auto simp: signals_ok_def no_signals_def tstart_def tc_init_def)
  have "parked s \<noteq> {}" if "tc_list (cache s) \<noteq> []"
  proof -
    have "card (parked s) \<noteq> 0" using ok(1) that by (simp add: cache_ok_def)
    then show ?thesis by auto
  qed
  moreover have "fst (park_wake timed_out (cache s)) = Served (hd (tc_list (cache s)))" if "tc_list (cache s) \<noteq> []" for timed_out
    using that by (cases "tc_list (cache s)") (simp_all add: park_wake_def Let_def)
  moreover have "served (List.map_filter id es) @ tc_list (cache s) = accepted (List.map_filter id es)"
    using texec_served [OF sexec_texec [OF assms]] by (simp add: tstart_def tc_init_def)
  ultimately show ?thesis using ok by (auto simp: cache_ok_def signals_ok_def)
qed

text \<open>States written out, for concrete runs.\<close>

abbreviation tstate :: "nat list \<Rightarrow> u32 \<Rightarrow> u32 \<Rightarrow> (nat \<Rightarrow> activity) \<Rightarrow> tsystem" where
  "tstate l c k a \<equiv> \<lparr>cache = \<lparr>tc_list = l, cached_thread_count = c, kill_cached_threads = k\<rparr>, act = a\<rparr>"

abbreviation sig :: "nat set \<Rightarrow> nat \<Rightarrow> nat \<Rightarrow> signals" where
  "sig w c f \<equiv> \<lparr>woken = w, to_cache = c, to_flush = f\<rparr>"

abbreviation idle :: "nat \<Rightarrow> activity" where
  "idle \<equiv> \<lambda>_. Running"

lemma tstart_state: "tstart = tstate [] 0 0 idle" "no_signals = sig {} 0 0"
  by (simp_all add: tstart_def tc_init_def no_signals_def)

lemma thread_cache_serves_witness:
  "\<exists>s g. sexec True 2 3 (tstart, no_signals)
      [Some (Park 0 Waits), Some (Enqueue 7 True), Some (Park 1 (Served 7))] (s, g) \<and> card (parked s) = 1"
proof -
  have 1: "sstep True 2 3 (tstate [] 0 0 idle, sig {} 0 0) (Some (Park 0 Waits)) (tstate [] 1 0 (idle(0 := Parked)), sig {} 0 0)"
    using s_other [OF tstep.park [of "tstate [] 0 0 idle" 0 3 2 2 Waits "\<lparr>tc_list = [], cached_thread_count = 1, kill_cached_threads = 0\<rparr>" True], of "sig {} 0 0"]
    by (simp add: thread_cache_defs)
  have 2: "sstep True 2 3 (tstate [] 1 0 (idle(0 := Parked)), sig {} 0 0) (Some (Enqueue 7 True))
      (tstate [7] 0 0 (idle(0 := Parked)), sig {} 1 0)"
    using s_other [OF tstep.enqueue [of 7 "tstate [] 1 0 (idle(0 := Parked))" True "\<lparr>tc_list = [7], cached_thread_count = 0, kill_cached_threads = 0\<rparr>"], of True 2 3 "sig {} 0 0"]
    by (simp add: thread_cache_defs)
  have 3: "sstep True 2 3 (tstate [7] 0 0 (idle(0 := Parked)), sig {} 1 0) (Some (Park 1 (Served 7)))
      (tstate [] 1 0 (idle(0 := Parked, 1 := Running)), sig {} 1 0)"
    using s_other [OF tstep.park [of "tstate [7] 0 0 (idle(0 := Parked))" 1 3 2 2 "Served 7" "\<lparr>tc_list = [], cached_thread_count = 1, kill_cached_threads = 0\<rparr>" True], of "sig {} 1 0"]
    by (simp add: thread_cache_defs)
  have e: "sexec True 2 3 (tstart, no_signals) [Some (Park 0 Waits), Some (Enqueue 7 True), Some (Park 1 (Served 7))]
      (tstate [] 1 0 (idle(0 := Parked, 1 := Running)), sig {} 1 0)"
    unfolding tstart_state by (intro sexec_first [OF 1] sexec_first [OF 2] sexec_first [OF 3] sexec_none)
  show ?thesis using thread_cache_serves [OF e] e by auto
qed

text \<open>The first steps of two runs used below: one thread parks, others flush.\<close>

lemma run_park: "1 \<le> N \<Longrightarrow> 0 < T \<Longrightarrow>
    tstep atomic N T (tstate [] 0 0 idle) (Park 0 Waits) (tstate [] 1 0 (idle(0 := Parked)))"
  using tstep.park [of "tstate [] 0 0 idle" 0 T 1 N Waits "\<lparr>tc_list = [], cached_thread_count = 1, kill_cached_threads = 0\<rparr>"]
  by (simp add: thread_cache_defs)

lemma run_flush: "a t = Running \<Longrightarrow> t < T \<Longrightarrow>
    tstep atomic N T (tstate [] 1 k a) (Flush t False) (tstate [] 1 (k + 1) (a(t := Flushing)))"
  using tstep.flush [of "tstate [] 1 k a" t T False "\<lparr>tc_list = [], cached_thread_count = 1, kill_cached_threads = k + 1\<rparr>"]
  by (simp add: thread_cache_defs)

lemma run_wake: "a t = Parked \<Longrightarrow> k \<noteq> 0 \<Longrightarrow>
    tstep atomic N T (tstate [] 1 k a) (Wake t Dismissed) (tstate [] 0 k (a(t := Running)))"
  using tstep.wake [of "tstate [] 1 k a" t False Dismissed True "\<lparr>tc_list = [], cached_thread_count = 0, kill_cached_threads = k\<rparr>"]
  by (simp add: thread_cache_defs)

lemma run_flush_woken: "a t = Flushing \<Longrightarrow>
    tstep atomic N T (tstate [] 0 k a) (Flush_Woken t True) (tstate [] 0 (k - 1) (a(t := Running)))"
  using tstep.flush_woken [of "tstate [] 0 k a" t True "\<lparr>tc_list = [], cached_thread_count = 0, kill_cached_threads = k - 1\<rparr>"]
  by (simp add: thread_cache_defs)

text \<open>
  C9. Flushing gets done: while a thread is in \<open>flush\<close>, or once a \<open>final_flush\<close> has begun, no thread parks,
  every parked thread that wakes leaves the cache, so that after one wake of each thread that was
  parked the cache is empty; and as soon as no thread is left, the flushing thread, once awake, returns.
  (Increments are atomic and their number is below \<open>2 ^ 32\<close>.)
\<close>

theorem flush_empties_cache:
  assumes "texec True N T tstart es s" "texec True N T s es' s'" "T + finals (es @ es') < 2 ^ 32"
    and "act s f = Flushing \<and> Flush_Woken f True \<notin> set es' \<or> 0 < finals es"
  shows "(\<forall>t. Park t Waits \<notin> set es' \<and> Wake t Waits \<notin> set es') \<and>
    card (parked s') + wakes es' = card (parked s) \<and>
    (act s' f \<noteq> Flushing \<or> cached_thread_count (cache s') \<noteq> 0 \<or> (\<exists>s''. tstep True N T s' (Flush_Woken f True) s'')) \<and>
    (cached_thread_count (cache s') = 0 \<or> (\<exists>t r s''. r \<noteq> Waits \<and> tstep True N T s' (Wake t r) s''))"
proof -
  have ok: "cache_ok N T s" "kill_ok (finals es) s"
    using texec_cache_ok [OF assms(1) tstart_ok] texec_kill_ok [OF assms(1) tstart_ok tstart_kill_ok] by simp_all
  have ok': "cache_ok N T s'" using texec_cache_ok [OF assms(2) ok(1)] .
  have "\<exists>s''. tstep True N T s' (Flush_Woken f True) s''" if "act s' f = Flushing" "cached_thread_count (cache s') = 0"
  proof -
    let ?k = "(cache s')\<lparr>kill_cached_threads := kill_cached_threads (cache s') - 1\<rparr>"
    have "flush_test (cache s') = (True, ?k)" using that(2) by (simp add: flush_test_def)
    from tstep.flush_woken [OF that(1) this] show ?thesis by blast
  qed
  moreover have "\<exists>t r s''. r \<noteq> Waits \<and> tstep True N T s' (Wake t r) s''" if "cached_thread_count (cache s') \<noteq> 0"
  proof -
    have "card (parked s') \<noteq> 0" using ok' that by (simp add: cache_ok_def unat_eq_0)
    then obtain t where t: "act s' t = Parked" by (auto simp: parked_def card_eq_0_iff)
    obtain r fl k where w: "park_wake True (cache s') = (r, fl, k)" by (cases "park_wake True (cache s')") auto
    then have "r \<noteq> Waits" by (auto simp: park_wake_def Let_def split: list.splits if_splits)
    with tstep.wake [OF t w] show ?thesis by blast
  qed
  ultimately show ?thesis
    using texec_while_killing [OF assms(2) ok, of f] assms(3,4) by auto
qed

lemma flush_empties_cache_witness:
  "\<exists>s s'. texec True 1 2 s [Wake 0 Dismissed] s' \<and> act s 1 = Flushing \<and> card (parked s') + 1 = card (parked s)"
proof -
  let ?a = "idle(0 := Parked, 1 := Flushing)"
  have e: "texec True 1 2 tstart [Park 0 Waits, Flush 1 False] (tstate [] 1 1 ?a)"
  proof -
    have 1: "tstep True 1 2 (tstate [] 0 0 idle) (Park 0 Waits) (tstate [] 1 0 (idle(0 := Parked)))"
      by (rule run_park) simp_all
    have 2: "tstep True 1 2 (tstate [] 1 0 (idle(0 := Parked))) (Flush 1 False) (tstate [] 1 1 ?a)"
      using run_flush [of "idle(0 := Parked)" 1 2 True 1 0] by simp
    show ?thesis unfolding tstart_state by (intro texec_first [OF 1] texec_first [OF 2] texec_none)
  qed
  have e': "texec True 1 2 (tstate [] 1 1 ?a) [Wake 0 Dismissed] (tstate [] 0 1 (?a(0 := Running)))"
    by (intro texec_first [OF run_wake] texec_none) simp_all
  have "card (parked (tstate [] 0 1 (?a(0 := Running)))) + 1 = card (parked (tstate [] 1 1 ?a))"
    using flush_empties_cache [OF e e', of 1] by simp
  then show ?thesis
    by - (rule exI [of _ "tstate [] 1 1 ?a"], rule exI [of _ "tstate [] 0 1 (?a(0 := Running))"], use e' in simp)
qed

lemma hanging_step:
  assumes "sstep True 1 3 (tstate [] 0 1 (idle(2 := Flushing)), sig {} 0 0) e y" "\<And>t. e \<noteq> Some (Final_Store t)"
  shows "y = (tstate [] 0 1 (idle(2 := Flushing)), sig {} 0 0) \<and> e \<noteq> Some (Park t Waits) \<and> e \<noteq> Some (Flush_Woken 2 True)"
  using assms(1)
proof (cases rule: sstep.cases)
  case (s_other e' s')
  from s_other(3) show ?thesis
    by (cases rule: tstep.cases)
      (use s_other assms(2) in \<open>auto simp: thread_cache_defs fun_upd_idem split: if_splits\<close>)
qed (auto simp: parked_def split: if_splits)

text \<open>
  C10. Two flushes at the same time may hang: \<open>park\<close> wakes one of the threads that wait in \<open>flush\<close>, with
  \<open>mysql_cond_signal\<close>, and nothing wakes the other. There is a run without lost or late signals, of one
  parked and two flushing threads, to a state in which one flush has returned and the other waits,
  with the cache empty and no signal under way; whatever happens from there on (another \<open>final_flush\<close>
  apart), it never returns, and no thread parks again.
\<close>

theorem concurrent_flush_hangs:
  "\<exists>s g. sexec True 1 3 (tstart, no_signals)
      [Some (Park 0 Waits), Some (Flush 1 False), Some (Flush 2 False), Some (Wake 0 Dismissed), None,
       Some (Flush_Woken 1 True)] (s, g) \<and>
     act s 2 = Flushing \<and> cached_thread_count (cache s) = 0 \<and> woken g = {} \<and> to_flush g = 0 \<and>
     (\<forall>es s' g'. sexec True 1 3 (s, g) es (s', g') \<longrightarrow> (\<forall>t. Some (Final_Store t) \<notin> set es) \<longrightarrow>
        act s' 2 = Flushing \<and> (\<forall>t. Some (Park t Waits) \<notin> set es) \<and> Some (Flush_Woken 2 True) \<notin> set es)"
proof -
  let ?a = "idle(0 := Parked, 1 := Flushing)"
  let ?x = "(tstate [] 0 1 (idle(2 := Flushing)), sig {} 0 0)"
  have 1: "sstep True 1 3 (tstate [] 0 0 idle, sig {} 0 0) (Some (Park 0 Waits)) (tstate [] 1 0 (idle(0 := Parked)), sig {} 0 0)"
    using s_other [OF run_park, of 1 3 True "sig {} 0 0"] by simp
  have p: "parked (tstate [] 1 0 (idle(0 := Parked))) = {0}" "parked (tstate [] 1 1 ?a) = {0}" by (auto simp: parked_def)
  have 2: "sstep True 1 3 (tstate [] 1 0 (idle(0 := Parked)), sig {} 0 0) (Some (Flush 1 False)) (tstate [] 1 1 ?a, sig {0} 0 0)"
    using s_other [OF run_flush, of "idle(0 := Parked)" 1 3 True 1 0 "sig {} 0 0"] p by simp
  have 3: "sstep True 1 3 (tstate [] 1 1 ?a, sig {0} 0 0) (Some (Flush 2 False)) (tstate [] 1 2 (?a(2 := Flushing)), sig {0} 0 0)"
    using s_other [OF run_flush, of ?a 2 3 True 1 1 "sig {0} 0 0"] p by simp
  have 4: "sstep True 1 3 (tstate [] 1 2 (?a(2 := Flushing)), sig {0} 0 0) (Some (Wake 0 Dismissed))
      (tstate [] 0 2 (?a(2 := Flushing, 0 := Running)), sig {} 0 1)"
    using s_wake [of "tstate [] 1 2 (?a(2 := Flushing))" 0 False "sig {0} 0 0" Dismissed True
        "\<lparr>tc_list = [], cached_thread_count = 0, kill_cached_threads = 2\<rparr>" True 1 3]
    by (simp add: thread_cache_defs)
  have 5: "sstep True 1 3 (tstate [] 0 2 (?a(2 := Flushing, 0 := Running)), sig {} 0 1) None
      (tstate [] 0 2 (?a(2 := Flushing, 0 := Running)), sig {1} 0 0)"
    using s_flush_signal [of "sig {} 0 1" 0 "tstate [] 0 2 (?a(2 := Flushing, 0 := Running))" 1 True 1 3] by simp
  have 6: "sstep True 1 3 (tstate [] 0 2 (?a(2 := Flushing, 0 := Running)), sig {1} 0 0) (Some (Flush_Woken 1 True)) ?x"
  proof -
    have "?a(2 := Flushing, 0 := Running, 1 := Running) = idle(2 := Flushing)" by auto
    then show ?thesis
      using s_flush_woken [of "tstate [] 0 2 (?a(2 := Flushing, 0 := Running))" 1 "sig {1} 0 0" True
          "\<lparr>tc_list = [], cached_thread_count = 0, kill_cached_threads = 1\<rparr>" True 1 3]
      by (simp add: thread_cache_defs)
  qed
  have e: "sexec True 1 3 (tstart, no_signals)
      [Some (Park 0 Waits), Some (Flush 1 False), Some (Flush 2 False), Some (Wake 0 Dismissed), None,
       Some (Flush_Woken 1 True)] ?x"
    unfolding tstart_state
    by (intro sexec_first [OF 1] sexec_first [OF 2] sexec_first [OF 3] sexec_first [OF 4] sexec_first [OF 5]
        sexec_first [OF 6] sexec_none)
  have stay: "y = ?x \<and> (\<forall>t. Some (Park t Waits) \<notin> set es) \<and> Some (Flush_Woken 2 True) \<notin> set es"
    if "sexec True 1 3 ?x es y" "\<forall>t. Some (Final_Store t) \<notin> set es" for es y
    using that
  proof (induction ?x es y rule: sexec.induct)
    case (sexec_more es y e z)
    then have y: "y = ?x" by simp
    show ?case using hanging_step [of e z] sexec_more y by auto
  qed simp
  show ?thesis
    by (intro exI [of _ "tstate [] 0 1 (idle(2 := Flushing))"] exI [of _ "sig {} 0 0"] conjI e allI impI)
      (use stay in force)+
qed

lemma concurrent_flush_hangs_witness:
  "\<exists>s g. act s 2 = Flushing \<and> cached_thread_count (cache s) = 0 \<and>
    (\<forall>s' g'. sexec True 1 3 (s, g) [Some (Park 0 Dismissed), Some (Flush 1 True)] (s', g') \<longrightarrow> act s' 2 = Flushing)"
  using concurrent_flush_hangs by fastforce

text \<open>
  \<open>final_flush\<close> increments \<open>kill_cached_threads\<close> without the lock. When the increment is not one access,
  another flush that starts between its read and its write is lost from the count: there is a run in
  which a thread parks after \<open>final_flush\<close> has returned, which \<open>final_flush\<close> is there to forbid (and does
  when increments are atomic, see \<open>flush_empties_cache\<close>).
\<close>

lemma final_flush_race:
  "texec False 1 3 tstart
     [Park 0 Waits, Final_Load 2, Flush 1 False, Final_Store 2, Wake 0 Dismissed, Flush_Woken 1 True, Flush 2 True, Park 0 Waits]
     (tstate [] 1 0 (idle(0 := Parked)))"
proof -
  let ?b = "idle(0 := Parked, 2 := Final_Read 0)"
  let ?c = "idle(0 := Parked, 1 := Flushing, 2 := Final_Flush)"
  have 1: "tstep False 1 3 (tstate [] 0 0 idle) (Park 0 Waits) (tstate [] 1 0 (idle(0 := Parked)))"
    by (rule run_park) simp_all
  have 2: "tstep False 1 3 (tstate [] 1 0 (idle(0 := Parked))) (Final_Load 2) (tstate [] 1 0 ?b)"
    using final_load [of False "tstate [] 1 0 (idle(0 := Parked))" 2 3 1] by simp
  have 3: "tstep False 1 3 (tstate [] 1 0 ?b) (Flush 1 False) (tstate [] 1 1 (?b(1 := Flushing)))"
    using run_flush [of ?b 1 3 False 1 0] by simp
  have 4: "tstep False 1 3 (tstate [] 1 1 (?b(1 := Flushing))) (Final_Store 2) (tstate [] 1 1 ?c)"
  proof -
    have "?b(1 := Flushing, 2 := Final_Flush) = ?c" by auto
    then show ?thesis using final_store [of "tstate [] 1 1 (?b(1 := Flushing))" 2 0 False 1 3] by simp
  qed
  have 5: "tstep False 1 3 (tstate [] 1 1 ?c) (Wake 0 Dismissed) (tstate [] 0 1 (?c(0 := Running)))"
    by (rule run_wake) simp_all
  have 6: "tstep False 1 3 (tstate [] 0 1 (?c(0 := Running))) (Flush_Woken 1 True) (tstate [] 0 0 (idle(2 := Final_Flush)))"
  proof -
    have "?c(0 := Running, 1 := Running) = idle(2 := Final_Flush)" by auto
    then show ?thesis using run_flush_woken [of "?c(0 := Running)" 1 False 1 3 1] by simp
  qed
  have 7: "tstep False 1 3 (tstate [] 0 0 (idle(2 := Final_Flush))) (Flush 2 True) (tstate [] 0 0 idle)"
    using tstep.flush [of "tstate [] 0 0 (idle(2 := Final_Flush))" 2 3 True "\<lparr>tc_list = [], cached_thread_count = 0, kill_cached_threads = 0\<rparr>" False 1]
    by (simp add: thread_cache_defs fun_upd_idem)
  show ?thesis unfolding tstart_state
    by (intro texec_first [OF 1] texec_first [OF 2] texec_first [OF 3] texec_first [OF 4] texec_first [OF 5]
        texec_first [OF 6] texec_first [OF 7] texec_none)
qed

end
