(* ===== verification/Tranx_Allocator.thy ===== *)
theory Tranx_Allocator
  imports Prelude
begin

text \<open>
  \<open>Tranx_node_allocator\<close> of \<open>semisync_master.h\<close>: nodes for the transactions that wait for an
  acknowledgement are taken in order from a chain of blocks; freed blocks move to the end of the
  chain and some of them are kept. Addresses are numbers, 0 is NULL; a block is a pointer followed by
  its nodes, so that the comparisons of addresses in the code can be carried out. What \<open>my_malloc\<close>
  answers is an argument. \<open>None\<close> is an access outside live blocks or a failed assertion; loops over the
  chain take fuel, and the lemmas show that the number of blocks is enough.
\<close>

subsection \<open>Blocks and nodes\<close>

record tranx_node =
  tn_log_name :: "u8 list"
  tn_log_pos :: u64
  tn_thd :: nat
  tn_next :: nat
  tn_hash_next :: nat

definition BLOCK_TRANX_NODES :: nat where
  "BLOCK_TRANX_NODES = 16"

text \<open>\<open>log_name\<close> has \<open>FN_REFLEN\<close>, 512, characters; position and pointers have 8 bytes.\<close>

definition node_size :: nat where
  "node_size = 544"

definition node_at :: "nat \<Rightarrow> nat \<Rightarrow> nat" where
  "node_at block i = block + 8 + i * node_size"

definition block_size :: nat where
  "block_size = 8 + BLOCK_TRANX_NODES * node_size"

record tranx_allocator =
  reserved_blocks :: u32
  first_block :: nat
  last_block :: nat
  current_block :: nat
  last_node :: int
  block_num :: u32
  block_next :: "nat \<Rightarrow> nat"
  live_blocks :: "nat set"
  tnodes :: "nat \<Rightarrow> tranx_node"

definition ta_make :: "u32 \<Rightarrow> (nat \<Rightarrow> nat) \<Rightarrow> (nat \<Rightarrow> tranx_node) \<Rightarrow> tranx_allocator" where
  "ta_make reserved_nodes nx ns =
     \<lparr>reserved_blocks = reserved_nodes div of_nat BLOCK_TRANX_NODES +
        (if reserved_nodes mod of_nat BLOCK_TRANX_NODES > 1 then 2 else 1),
      first_block = 0, last_block = 0, current_block = 0, last_node = - 1, block_num = 0,
      block_next = nx, live_blocks = {}, tnodes = ns\<rparr>"

definition load_next :: "nat \<Rightarrow> tranx_allocator \<Rightarrow> nat option" where
  "load_next b s = guard (b \<in> live_blocks s) (block_next s b)"

definition store_next :: "nat \<Rightarrow> nat \<Rightarrow> tranx_allocator \<Rightarrow> tranx_allocator option" where
  "store_next b p s = guard (b \<in> live_blocks s) (s\<lparr>block_next := (block_next s)(b := p)\<rparr>)"

subsection \<open>Allocation\<close>

text \<open>\<open>p\<close> is the answer of \<open>my_malloc\<close>; the first component is the error.\<close>

definition allocate_block :: "nat \<Rightarrow> tranx_allocator \<Rightarrow> (bool \<times> tranx_allocator) option" where
  "allocate_block p s =
     (if p \<noteq> 0 then
        let s = s\<lparr>live_blocks := insert p (live_blocks s), block_next := (block_next s)(p := 0)\<rparr> in
        map_option (\<lambda>s. (False, s\<lparr>last_block := p, current_block := p, block_num := block_num s + 1\<rparr>))
          (if first_block s = 0 then Some (s\<lparr>first_block := p\<rparr>) else store_next (last_block s) p s)
      else Some (True, s))"

definition take_node :: "tranx_allocator \<Rightarrow> (nat \<times> tranx_allocator) option" where
  "take_node s =
     (let i = last_node s + 1; a = node_at (current_block s) (nat i) in
      guard (current_block s \<in> live_blocks s \<and> 0 \<le> i \<and> i < int BLOCK_TRANX_NODES)
        (a, s\<lparr>last_node := i,
           tnodes := (tnodes s)(a := (tnodes s a)\<lparr>tn_log_name := (tn_log_name (tnodes s a))[0 := 0],
             tn_log_pos := 0, tn_next := 0, tn_hash_next := 0\<rparr>)\<rparr>))"

definition allocate_node :: "nat \<Rightarrow> tranx_allocator \<Rightarrow> (nat \<times> tranx_allocator) option" where
  "allocate_node p s =
     (let block = current_block s in
      Option.bind
        (if last_node s = int BLOCK_TRANX_NODES - 1
         then map_option (\<lambda>n. s\<lparr>current_block := n, last_node := - 1\<rparr>) (load_next block s) else Some s)
        (\<lambda>s. if current_block s = 0
          then Option.bind (allocate_block p s) (\<lambda>(failed, s).
            if failed
            then let s = s\<lparr>current_block := block\<rparr> in
              Some (0, if current_block s \<noteq> 0 then s\<lparr>last_node := int BLOCK_TRANX_NODES - 1\<rparr> else s)
            else take_node s)
          else take_node s))"

subsection \<open>Freeing\<close>

definition free_block :: "nat \<Rightarrow> tranx_allocator \<Rightarrow> tranx_allocator" where
  "free_block b s = s\<lparr>live_blocks := live_blocks s - {b}, block_num := block_num s - 1\<rparr>"

function free_loop :: "nat \<Rightarrow> tranx_allocator \<Rightarrow> (nat \<times> tranx_allocator) option" where
  "free_loop block s =
     (if block_num s > reserved_blocks s \<and> block \<noteq> 0
      then (case load_next block s of None \<Rightarrow> None | Some n \<Rightarrow> free_loop n (free_block block s))
      else Some (block, s))"
  by pat_completeness auto
termination
proof (relation "measure (\<lambda>(b, s). unat (block_num s))")
  fix block :: nat and s :: tranx_allocator and n
  assume "block_num s > reserved_blocks s \<and> block \<noteq> 0"
  then have "block_num s \<noteq> 0" by (auto simp: word_less_nat_alt)
  then show "((n, free_block block s), block, s) \<in> measure (\<lambda>(b, s). unat (block_num s))"
    by (simp add: free_block_def unat_minus_one unat_gt_0)
qed simp

declare free_loop.simps [simp del]

definition free_blocks :: "tranx_allocator \<Rightarrow> tranx_allocator option" where
  "free_blocks s =
     (if current_block s = 0 then Some s
      else Option.bind (load_next (current_block s) s) (\<lambda>n.
        if n = 0 then Some s
        else Option.bind (load_next n s) (\<lambda>block.
          Option.bind (free_loop block s) (\<lambda>(block, s).
            map_option (\<lambda>s. if block = 0 then s\<lparr>last_block := n\<rparr> else s) (store_next n block s)))))"

definition free_all_nodes :: "tranx_allocator \<Rightarrow> tranx_allocator option" where
  "free_all_nodes s = free_blocks (s\<lparr>current_block := first_block s, last_node := - 1\<rparr>)"

text \<open>The search for the block of a node: the block before it (or NULL) and the block.\<close>

fun find_block :: "nat \<Rightarrow> nat \<Rightarrow> nat \<Rightarrow> nat \<Rightarrow> nat \<Rightarrow> tranx_allocator \<Rightarrow> (nat \<times> nat) option option" where
  "find_block 0 node stop prev block s = None"
| "find_block (Suc fuel) node stop prev block s =
     (if block = stop then Some None
      else if block \<notin> live_blocks s then None
      else if node_at block 0 \<le> node \<and> node \<le> node_at block BLOCK_TRANX_NODES then Some (Some (prev, block))
      else find_block fuel node stop block (block_next s block) s)"

definition free_nodes_before :: "nat \<Rightarrow> nat \<Rightarrow> tranx_allocator \<Rightarrow> tranx_allocator option" where
  "free_nodes_before fuel node s =
     Option.bind (load_next (current_block s) s) (\<lambda>stop.
       case find_block fuel node stop 0 (first_block s) s of
         Some (Some (prev, block)) \<Rightarrow>
           if first_block s \<noteq> block
           then Option.bind (store_next (last_block s) (first_block s) s) (\<lambda>s.
             Option.bind (store_next prev 0 (s\<lparr>first_block := block, last_block := prev\<rparr>)) free_blocks)
           else Some s
       | _ \<Rightarrow> None)"

fun destroy_loop :: "nat \<Rightarrow> nat \<Rightarrow> tranx_allocator \<Rightarrow> tranx_allocator option" where
  "destroy_loop fuel block s =
     (if block = 0 then Some s
      else case fuel of 0 \<Rightarrow> None
        | Suc fuel \<Rightarrow> Option.bind (load_next block s) (\<lambda>n. destroy_loop fuel n (free_block block s)))"

definition ta_destroy :: "nat \<Rightarrow> tranx_allocator \<Rightarrow> tranx_allocator option" where
  "ta_destroy fuel s = destroy_loop fuel (first_block s) s"

subsection \<open>The chain of blocks\<close>

text \<open>From \<open>p\<close> the links lead through the blocks to \<open>q\<close>.\<close>

fun seg :: "(nat \<Rightarrow> nat) \<Rightarrow> nat \<Rightarrow> nat list \<Rightarrow> nat \<Rightarrow> bool" where
  "seg nx p [] q \<longleftrightarrow> p = q"
| "seg nx p (b # bs) q \<longleftrightarrow> p = b \<and> seg nx (nx b) bs q"

lemma seg_append: "seg nx p (xs @ ys) q \<longleftrightarrow> (\<exists>r. seg nx p xs r \<and> seg nx r ys q)"
  by (induction xs arbitrary: p) auto

lemma seg_update [simp]: "b \<notin> set xs \<Longrightarrow> seg (nx(b := v)) p xs q = seg nx p xs q"
  by (induction xs arbitrary: p) auto

lemma seg_snoc: "seg nx p (xs @ [b]) q \<longleftrightarrow> seg nx p xs b \<and> nx b = q"
  by (auto simp: seg_append)

lemma seg_start: "seg nx p xs q \<Longrightarrow> p = hd (xs @ [q])"
  by (cases xs) auto

lemma seg_relink: "seg nx p (xs @ [b]) q \<Longrightarrow> b \<notin> set xs \<Longrightarrow> seg (nx(b := v)) p (xs @ [b]) v"
  by (simp add: seg_snoc)

definition apart :: "nat \<Rightarrow> nat \<Rightarrow> bool" where
  "apart b c \<longleftrightarrow> b + block_size \<le> c \<or> c + block_size \<le> b"

definition ta_ok :: "tranx_allocator \<Rightarrow> nat list \<Rightarrow> bool" where
  "ta_ok s bs \<longleftrightarrow> seg (block_next s) (first_block s) bs 0 \<and> 0 \<notin> set bs \<and> distinct bs \<and> live_blocks s = set bs \<and>
     (\<forall>b\<in>set bs. \<forall>c\<in>set bs. b \<noteq> c \<longrightarrow> apart b c) \<and>
     block_num s = of_nat (length bs) \<and> length bs < 2 ^ 32 \<and>
     - 1 \<le> last_node s \<and> last_node s < int BLOCK_TRANX_NODES \<and>
     (if bs = [] then current_block s = 0 \<and> last_node s = - 1
      else current_block s \<in> set bs \<and> last_block s = last bs)"

lemma ta_okI:
  assumes "seg (block_next s) (first_block s) bs 0" "0 \<notin> set bs" "distinct bs" "live_blocks s = set bs"
    and "\<And>b c. b \<in> set bs \<Longrightarrow> c \<in> set bs \<Longrightarrow> b \<noteq> c \<Longrightarrow> apart b c"
    and "block_num s = of_nat (length bs)" "length bs < 2 ^ 32"
    and "- 1 \<le> last_node s" "last_node s < int BLOCK_TRANX_NODES"
    and "current_block s \<in> set bs" "last_block s = last bs"
  shows "ta_ok s bs"
proof -
  have "bs \<noteq> []" using assms(10) by auto
  then show ?thesis unfolding ta_ok_def using assms by simp
qed

lemma ta_okD:
  assumes "ta_ok s bs"
  shows "seg (block_next s) (first_block s) bs 0" "0 \<notin> set bs" "distinct bs" "live_blocks s = set bs"
    "\<And>b c. b \<in> set bs \<Longrightarrow> c \<in> set bs \<Longrightarrow> b \<noteq> c \<Longrightarrow> apart b c"
    "block_num s = of_nat (length bs)" "length bs < 2 ^ 32"
    "- 1 \<le> last_node s" "last_node s < int BLOCK_TRANX_NODES"
    "bs \<noteq> [] \<Longrightarrow> current_block s \<in> set bs" "bs \<noteq> [] \<Longrightarrow> last_block s = last bs"
    "bs = [] \<Longrightarrow> current_block s = 0 \<and> last_node s = - 1"
  using assms by (simp_all add: ta_ok_def)

text \<open>The allocated nodes in the order of their allocation.\<close>

definition block_nodes :: "nat \<Rightarrow> nat list" where
  "block_nodes b = map (node_at b) [0..<BLOCK_TRANX_NODES]"

definition used_nodes :: "tranx_allocator \<Rightarrow> nat list \<Rightarrow> nat list" where
  "used_nodes s bs = concat (map block_nodes (takeWhile ((\<noteq>) (current_block s)) bs)) @
     map (node_at (current_block s)) [0..<nat (last_node s + 1)]"

lemma ta_ok_split:
  assumes "ta_ok s bs" "bs \<noteq> []"
  obtains pre post where "bs = pre @ current_block s # post" "current_block s \<notin> set pre"
    "current_block s \<notin> set post" "distinct (pre @ post)"
proof -
  have "current_block s \<in> set bs" "distinct bs" using assms by (auto simp: ta_ok_def)
  then obtain pre post where "bs = pre @ current_block s # post" by (meson split_list)
  with \<open>distinct bs\<close> that show ?thesis by auto
qed

lemma used_nodes_split:
  "c = current_block s \<Longrightarrow> c \<notin> set pre \<Longrightarrow>
    used_nodes s (pre @ c # post) = concat (map block_nodes pre) @ map (node_at c) [0..<nat (last_node s + 1)]"
proof -
  assume "c = current_block s" "c \<notin> set pre"
  then have "takeWhile ((\<noteq>) (current_block s)) (pre @ c # post) = pre"
    by (subst takeWhile_append2) auto
  then show ?thesis using \<open>c = current_block s\<close> by (simp add: used_nodes_def)
qed

lemma node_at_inj: "node_at b i = node_at b j \<longleftrightarrow> i = j"
  by (simp add: node_at_def node_size_def)

lemma node_in_block: "i \<le> BLOCK_TRANX_NODES \<Longrightarrow> b < node_at b i \<and> node_at b i \<le> b + block_size"
  by (simp add: node_at_def node_size_def block_size_def BLOCK_TRANX_NODES_def)

text \<open>The test of the code finds the block of a node.\<close>

lemma node_range:
  assumes "i < BLOCK_TRANX_NODES" "b = c \<or> apart b c"
  shows "node_at b 0 \<le> node_at c i \<and> node_at c i \<le> node_at b BLOCK_TRANX_NODES \<longleftrightarrow> b = c"
proof (cases "b = c")
  case True
  then show ?thesis using assms(1) by (simp add: node_at_def node_size_def)
next
  case False
  then show ?thesis using assms
    by (auto simp: apart_def node_at_def node_size_def block_size_def BLOCK_TRANX_NODES_def)
qed

lemma nodes_distinct:
  assumes "i < BLOCK_TRANX_NODES" "j < BLOCK_TRANX_NODES" "b = c \<or> apart b c" "node_at b i = node_at c j"
  shows "b = c \<and> i = j"
proof -
  have "node_at c 0 \<le> node_at b i \<and> node_at b i \<le> node_at c BLOCK_TRANX_NODES"
    using node_range [of j c c] assms by simp
  then have "c = b" using node_range [of i c b] assms by (auto simp: apart_def)
  then show ?thesis using assms(4) node_at_inj by simp
qed

subsection \<open>Freeing blocks\<close>

lemma sub_up: "unat (n :: u32) < unat m \<Longrightarrow> unat (m - 1) = unat m - 1 \<and> m \<noteq> 0"
  by (cases "m = 0") (auto simp: unat_minus_one)

text \<open>The loop frees the blocks at the front of \<open>rest\<close> that are too many.\<close>

lemma free_loop_correct:
  assumes "seg (block_next s) block rest 0" "0 \<notin> set rest" "distinct rest" "set rest \<subseteq> live_blocks s"
    and "m = min (length rest) (unat (block_num s) - unat (reserved_blocks s))"
  shows "free_loop block s = Some (hd (drop m rest @ [0]),
    s\<lparr>live_blocks := live_blocks s - set (take m rest), block_num := block_num s - of_nat m\<rparr>)"
  using assms
proof (induction rest arbitrary: block s m)
  case Nil
  then show ?case by (subst free_loop.simps) simp
next
  case (Cons b rest)
  have b: "block = b" "b \<noteq> 0" "b \<in> live_blocks s" "seg (block_next s) (block_next s b) rest 0"
    using Cons.prems by auto
  show ?case
  proof (cases "unat (reserved_blocks s) < unat (block_num s)")
    case False
    then show ?thesis using Cons.prems(5) b by (subst free_loop.simps) (simp add: word_less_nat_alt)
  next
    case True
    let ?s = "free_block b s" let ?k = "m - 1"
    have m: "m = Suc ?k" "?k = min (length rest) (unat (block_num ?s) - unat (reserved_blocks ?s))"
      using Cons.prems(5) True sub_up [OF True] by (auto simp: free_block_def)
    have "free_loop (block_next s b) ?s = Some (hd (drop ?k rest @ [0]),
      ?s\<lparr>live_blocks := live_blocks ?s - set (take ?k rest), block_num := block_num ?s - of_nat ?k\<rparr>)"
    proof (rule Cons.IH)
      show "set rest \<subseteq> live_blocks ?s" using Cons.prems(3,4) by (auto simp: free_block_def)
    qed (use Cons.prems b m(2) in \<open>simp_all add: free_block_def\<close>)
    moreover have "free_loop block s = free_loop (block_next s b) ?s"
      using True b by (subst free_loop.simps) (simp add: word_less_nat_alt load_next_def)
    moreover have "live_blocks s - {b} - set (take ?k rest) = live_blocks s - set (take m (b # rest))"
      by (subst m(1)) auto
    moreover have "block_num s - 1 - of_nat ?k = block_num s - of_nat m"
      by (subst (2) m(1)) simp
    moreover have "drop ?k rest = drop m (b # rest)" by (subst (2) m(1)) simp
    ultimately show ?thesis by (simp add: free_block_def)
  qed
qed

definition surplus :: "tranx_allocator \<Rightarrow> nat list \<Rightarrow> nat list \<Rightarrow> nat" where
  "surplus s bs rest = min (length rest) (length bs - unat (reserved_blocks s))"

lemma unat_of_nat32: "n < 2 ^ 32 \<Longrightarrow> unat (of_nat n :: u32) = n"
  by (simp add: unat_of_nat take_bit_nat_eq_self)

text \<open>After the block behind the current one, the surplus free blocks go; nothing else changes.\<close>

lemma free_blocks_correct:
  assumes "ta_ok s (pre @ current_block s # post)"
  shows "\<exists>s'. free_blocks s = Some s' \<and>
    ta_ok s' (pre @ current_block s # take 1 post @ drop (surplus s (pre @ current_block s # post) (tl post)) (tl post)) \<and>
    current_block s' = current_block s \<and> last_node s' = last_node s \<and> reserved_blocks s' = reserved_blocks s \<and>
    tnodes s' = tnodes s"
proof (cases post)
  case Nil
  let ?c = "current_block s"
  have "seg (block_next s) (first_block s) (pre @ [?c]) 0" "?c \<in> live_blocks s" "?c \<noteq> 0"
    using assms Nil by (auto simp: ta_ok_def)
  then have "free_blocks s = Some s" by (simp add: free_blocks_def load_next_def seg_snoc)
  then show ?thesis using assms Nil by simp
next
  case (Cons n rest)
  let ?c = "current_block s" let ?bs = "pre @ ?c # n # rest"
  let ?m = "surplus s ?bs rest"
  have ok: "seg (block_next s) (first_block s) ?bs 0" "0 \<notin> set ?bs" "distinct ?bs" "live_blocks s = set ?bs"
    "block_num s = of_nat (length ?bs)" "length ?bs < 2 ^ 32"
    using assms [unfolded Cons ta_ok_def] by blast+
  have links: "block_next s ?c = n" "seg (block_next s) (block_next s n) rest 0"
    "seg (block_next s) (first_block s) (pre @ [?c, n]) (block_next s n)"
    using ok(1) by (auto simp: seg_append)
  have num: "unat (block_num s) = length ?bs" unfolding ok(5) by (rule unat_of_nat32 [OF ok(6)])
  define s1 where "s1 = s\<lparr>live_blocks := live_blocks s - set (take ?m rest), block_num := block_num s - of_nat ?m\<rparr>"
  define d where "d = drop ?m rest"
  have loop: "free_loop (block_next s n) s = Some (hd (d @ [0]), s1)"
    unfolding s1_def d_def
    by (rule free_loop_correct) (use ok links num in \<open>auto simp: surplus_def\<close>)
  have n: "n \<in> live_blocks s1" "n \<noteq> 0" "?c \<noteq> 0" "?c \<in> live_blocks s" "n \<in> live_blocks s"
    using ok(2,3,4) set_take_subset [of ?m rest] by (auto simp: s1_def)
  define s2 where "s2 = s1\<lparr>block_next := (block_next s1)(n := hd (d @ [0]))\<rparr>"
  define s' where "s' = (if hd (d @ [0]) = 0 then s2\<lparr>last_block := n\<rparr> else s2)"
  have free: "free_blocks s = Some s'"
    using n links(1) loop by (simp add: free_blocks_def load_next_def store_next_def s'_def s2_def)
  define tk where "tk = take ?m rest"
  have ltk: "length tk = ?m" by (simp add: tk_def surplus_def)
  have rest: "rest = tk @ d" by (simp add: d_def tk_def)
  have oks: "distinct (pre @ ?c # n # tk @ d)" "live_blocks s = set (pre @ ?c # n # tk @ d)" "0 \<notin> set (pre @ ?c # n # tk @ d)"
    using ok(2-4) unfolding rest by blast+
  have dist: "distinct (pre @ ?c # n # d)" "live_blocks s1 = set (pre @ ?c # n # d)"
    using oks unfolding s1_def tk_def [symmetric] by auto
  have segd: "seg (block_next s) (hd (d @ [0])) d 0"
    using links(2) rest by (metis seg_append seg_start)
  have seg': "seg (block_next s2) (first_block s) (pre @ ?c # n # d) 0"
  proof -
    have "seg ((block_next s)(n := hd (d @ [0]))) (first_block s) ((pre @ [?c]) @ [n]) (hd (d @ [0]))"
      by (rule seg_relink) (use links(3) dist(1) in auto)
    moreover have "seg ((block_next s)(n := hd (d @ [0]))) (hd (d @ [0])) d 0"
      using segd dist(1) by simp
    ultimately show ?thesis by (auto simp: s2_def s1_def seg_append)
  qed
  have z: "hd (d @ [0]) = 0 \<longleftrightarrow> d = []"
    using oks(3) by (cases d) auto
  have last: "last_block s' = last (pre @ ?c # n # d)"
    using assms Cons z rest by (auto simp: s'_def s2_def s1_def ta_ok_def split: if_splits)
  have len: "block_num s' = of_nat (length (pre @ ?c # n # d))" "length (pre @ ?c # n # d) < 2 ^ 32"
    using ok(5,6) arg_cong [OF rest, of length] by (auto simp: s'_def s2_def s1_def ltk [symmetric])
  have f: "first_block s' = first_block s" "block_next s' = block_next s2" "live_blocks s' = live_blocks s1"
    "current_block s' = ?c" "last_node s' = last_node s"
    by (simp_all add: s'_def s2_def s1_def)
  have "ta_ok s' (pre @ ?c # n # d)"
  proof (rule ta_okI)
    fix b c
    assume "b \<in> set (pre @ ?c # n # d)" "c \<in> set (pre @ ?c # n # d)" "b \<noteq> c"
    then show "apart b c" by (intro ta_okD(5) [OF assms]) (auto simp: Cons rest)
  qed (use f seg' dist len last oks(3) ta_okD(8,9) [OF assms] in auto)
  then show ?thesis using free Cons by (auto simp: d_def s'_def s2_def s1_def)
qed

subsection \<open>Allocating nodes\<close>

lemma used_nodes_empty:
  assumes "ta_ok s bs" "x \<in> set (used_nodes s bs)"
  shows "bs \<noteq> []"
proof
  assume "bs = []"
  then have "used_nodes s bs = []" using ta_okD(12) [OF assms(1)] by (simp add: used_nodes_def)
  then show False using assms(2) by simp
qed

lemma used_member:
  assumes "ta_ok s bs" "x \<in> set (used_nodes s bs)"
  obtains b i where "b \<in> set bs" "i < BLOCK_TRANX_NODES" "x = node_at b i"
    "b = current_block s \<Longrightarrow> int i \<le> last_node s"
proof -
  obtain pre post where bs: "bs = pre @ current_block s # post" "current_block s \<notin> set pre"
    "current_block s \<notin> set post" "distinct (pre @ post)"
    by (rule ta_ok_split [OF assms(1) used_nodes_empty [OF assms]])
  then have x: "x \<in> set (concat (map block_nodes pre)) \<union> node_at (current_block s) ` {..<nat (last_node s + 1)}"
    using assms(2) used_nodes_split [OF refl bs(2), of post] by auto
  show thesis
  proof (cases "x \<in> set (concat (map block_nodes pre))")
    case True
    then obtain b i where "b \<in> set pre" "i < BLOCK_TRANX_NODES" "x = node_at b i"
      by (auto simp: block_nodes_def)
    then show thesis using that [of b i] bs by auto
  next
    case False
    then obtain i where "i < nat (last_node s + 1)" "x = node_at (current_block s) i" using x by auto
    then show thesis using that [of "current_block s" i] bs(1) ta_okD(9) [OF assms(1)] by auto
  qed
qed

definition cleared :: "tranx_node \<Rightarrow> tranx_node" where
  "cleared n = n\<lparr>tn_log_name := (tn_log_name n)[0 := 0], tn_log_pos := 0, tn_next := 0, tn_hash_next := 0\<rparr>"

lemma take_node_correct:
  assumes "ta_ok s bs" "bs \<noteq> []" "last_node s < int BLOCK_TRANX_NODES - 1"
  defines "a \<equiv> node_at (current_block s) (nat (last_node s + 1))"
  shows "\<exists>s'. take_node s = Some (a, s') \<and> ta_ok s' bs \<and> used_nodes s' bs = used_nodes s bs @ [a] \<and>
    a \<notin> set (used_nodes s bs) \<and> a \<noteq> 0 \<and> tnodes s' = (tnodes s)(a := cleared (tnodes s a)) \<and>
    reserved_blocks s' = reserved_blocks s"
proof -
  let ?c = "current_block s" let ?i = "last_node s + 1"
  let ?s = "s\<lparr>last_node := ?i, tnodes := (tnodes s)(a := cleared (tnodes s a))\<rparr>"
  note D = ta_okD [OF assms(1)]
  have c: "?c \<in> set bs" "?c \<in> live_blocks s" using D(10) [OF assms(2)] D(4) by simp_all
  have i: "0 \<le> ?i" "?i < int BLOCK_TRANX_NODES" using D(8) assms(3) by simp_all
  have take: "take_node s = Some (a, ?s)"
    using c i by (simp add: take_node_def Let_def cleared_def a_def)
  have ok: "ta_ok ?s bs"
    by (rule ta_okI) (use D assms(2) i in simp_all)
  have i2: "nat (2 + last_node s) = Suc (nat (last_node s + 1))" using i by simp
  have "used_nodes ?s bs = used_nodes s bs @ [a]"
    by (simp add: used_nodes_def a_def i2)
  moreover have "a \<notin> set (used_nodes s bs)"
  proof
    assume "a \<in> set (used_nodes s bs)"
    then obtain b j where "b \<in> set bs" "j < BLOCK_TRANX_NODES" "a = node_at b j" "b = ?c \<Longrightarrow> int j \<le> last_node s"
      using used_member [OF assms(1)] by blast
    moreover have "?c = b \<and> nat ?i = j"
    proof (rule nodes_distinct)
      show "nat ?i < BLOCK_TRANX_NODES" using i by linarith
      show "?c = b \<or> apart ?c b" using D(5) [OF c(1) \<open>b \<in> set bs\<close>] by blast
      show "node_at ?c (nat ?i) = node_at b j" using \<open>a = node_at b j\<close> by (simp add: a_def)
    qed fact
    ultimately have "int (nat ?i) \<le> last_node s" by simp
    then show False using i by linarith
  qed
  moreover have "a \<noteq> 0" by (simp add: a_def node_at_def)
  ultimately show ?thesis using take ok by simp
qed

text \<open>A new block at the end of the chain.\<close>

lemma allocate_block_correct:
  assumes "ta_ok s bs" "p \<noteq> 0" "p \<notin> set bs" "\<And>b. b \<in> set bs \<Longrightarrow> apart b p" "length bs + 1 < 2 ^ 32"
    and "s2 = s\<lparr>current_block := 0, last_node := - 1\<rparr>"
  shows "\<exists>s'. allocate_block p s2 = Some (False, s') \<and> ta_ok s' (bs @ [p]) \<and> current_block s' = p \<and>
    last_node s' = - 1 \<and> tnodes s' = tnodes s \<and> reserved_blocks s' = reserved_blocks s"
proof (cases "bs = []")
  case True
  note D = ta_okD [OF assms(1)]
  let ?s = "s2\<lparr>live_blocks := insert p (live_blocks s2), block_next := (block_next s2)(p := 0), first_block := p,
    last_block := p, current_block := p, block_num := block_num s2 + 1\<rparr>"
  have "allocate_block p s2 = Some (False, ?s)"
    using assms(2,6) D(1) True by (simp add: allocate_block_def Let_def)
  moreover have "ta_ok ?s (bs @ [p])"
    by (rule ta_okI) (use True assms(2,6) D(4,6) in \<open>simp_all add: BLOCK_TRANX_NODES_def\<close>)
  ultimately show ?thesis using assms(6) by simp
next
  case False
  note D = ta_okD [OF assms(1)]
  then obtain xs l where bs: "bs = xs @ [l]" using False by (cases bs rule: rev_cases) auto
  have "first_block s \<in> set bs" using seg_start [OF D(1)] False by (simp add: hd_append)
  then have "first_block s \<noteq> 0" using D(2) by metis
  moreover have "last_block s = l" using D(11) [OF False] bs by simp
  moreover have "l \<in> live_blocks s" using D(4) bs by simp
  moreover have "l \<noteq> p" "l \<notin> set xs" using D(3) assms(3) bs by auto
  ultimately have l: "last_block s = l" "l \<in> live_blocks s" "l \<noteq> p" "l \<notin> set xs" "first_block s \<noteq> 0"
    by simp_all
  let ?s = "s2\<lparr>live_blocks := insert p (live_blocks s2), block_next := (block_next s2)(p := 0, l := p),
    last_block := p, current_block := p, block_num := block_num s2 + 1\<rparr>"
  have "allocate_block p s2 = Some (False, ?s)"
    using assms(2,6) l by (simp add: allocate_block_def Let_def store_next_def)
  moreover have "ta_ok ?s (bs @ [p])"
  proof (rule ta_okI)
    have "seg ((block_next s)(p := 0)) (first_block s) (xs @ [l]) 0" using D(1) assms(3) bs by simp
    then have "seg ((block_next s)(p := 0, l := p)) (first_block s) (xs @ [l]) p"
      by (rule seg_relink) (rule l(4))
    then show "seg (block_next ?s) (first_block ?s) (bs @ [p]) 0"
      using assms(6) bs l(3) by (subst seg_append) auto
    fix b c
    assume "b \<in> set (bs @ [p])" "c \<in> set (bs @ [p])" "b \<noteq> c"
    then show "apart b c" using D(5) assms(4) by (auto simp: apart_def)
  qed (use D(2,3,4,6,7) assms(2,3,5,6) in \<open>simp_all add: BLOCK_TRANX_NODES_def\<close>)
  ultimately show ?thesis using assms(6) by simp
qed

lemma full_block: "nat (int BLOCK_TRANX_NODES - 1 + 1) = BLOCK_TRANX_NODES"
  by simp

text \<open>Moving on from a full block keeps the used nodes.\<close>

lemma used_nodes_move:
  assumes "ta_ok s (pre @ c # post)" "current_block s = c" "last_node s = int BLOCK_TRANX_NODES - 1"
    and "n \<notin> set pre" "n \<noteq> c" "current_block t = n" "last_node t = - 1" "set (take 1 post) \<subseteq> {n}"
  shows "used_nodes t (pre @ c # n # drop 1 post) = used_nodes s (pre @ c # post)"
proof -
  have "c \<notin> set pre" using ta_okD(3) [OF assms(1)] by simp
  then have "used_nodes s (pre @ c # post) = concat (map block_nodes (pre @ [c]))"
    using used_nodes_split [of c s pre post] assms(2,3) by (simp add: block_nodes_def)
  moreover have "used_nodes t ((pre @ [c]) @ n # drop 1 post) = concat (map block_nodes (pre @ [c]))"
    using used_nodes_split [of n t "pre @ [c]" "drop 1 post"] assms(4-7) by auto
  ultimately show ?thesis by simp
qed

lemma allocate_by_take:
  assumes "allocate_node p s = take_node t" "ta_ok t bs'" "bs' \<noteq> []" "last_node t < int BLOCK_TRANX_NODES - 1"
    and "used_nodes t bs' = used_nodes s bs" "tnodes t = tnodes s" "bs' = bs \<or> bs' = bs @ [p]"
  shows "\<exists>a s'. allocate_node p s = Some (a, s') \<and>
    (if a = 0 then s' = s \<and> p = 0 \<and> length (used_nodes s bs) = BLOCK_TRANX_NODES * length bs
     else \<exists>bs'. (bs' = bs \<or> bs' = bs @ [p]) \<and> ta_ok s' bs' \<and> used_nodes s' bs' = used_nodes s bs @ [a] \<and>
       a \<notin> set (used_nodes s bs) \<and> tnodes s' = (tnodes s)(a := cleared (tnodes s a)))"
proof -
  obtain a s' where *: "take_node t = Some (a, s')" "ta_ok s' bs'" "used_nodes s' bs' = used_nodes t bs' @ [a]"
    "a \<notin> set (used_nodes t bs')" "a \<noteq> 0" "tnodes s' = (tnodes t)(a := cleared (tnodes t a))"
    using take_node_correct [OF assms(2-4)] by blast
  show ?thesis
    by (rule exI [of _ a], rule exI [of _ s']) (use * assms(1,5-7) in auto)
qed

lemma allocate_node_correct:
  assumes ok: "ta_ok s bs" and len: "length bs + 1 < 2 ^ 32"
    and p: "p = 0 \<or> p \<notin> set bs \<and> (\<forall>b\<in>set bs. apart b p)"
  shows "\<exists>a s'. allocate_node p s = Some (a, s') \<and>
    (if a = 0 then s' = s \<and> p = 0 \<and> length (used_nodes s bs) = BLOCK_TRANX_NODES * length bs
     else \<exists>bs'. (bs' = bs \<or> bs' = bs @ [p]) \<and> ta_ok s' bs' \<and> used_nodes s' bs' = used_nodes s bs @ [a] \<and>
       a \<notin> set (used_nodes s bs) \<and> tnodes s' = (tnodes s)(a := cleared (tnodes s a)))"
proof (cases "bs = []")
  case True
  note D = ta_okD [OF ok]
  have e: "current_block s = 0" "last_node s = - 1" using D(12) True by simp_all
  then have s: "s\<lparr>current_block := 0, last_node := - 1\<rparr> = s" by simp
  have u: "used_nodes s bs = []" using True e by (simp add: used_nodes_def)
  show ?thesis
  proof (cases "p = 0")
    case True
    have "allocate_node p s = Some (0, s)"
      using e s True by (simp add: allocate_node_def allocate_block_def BLOCK_TRANX_NODES_def Let_def)
    then show ?thesis using True \<open>bs = []\<close> u by simp
  next
    case False
    obtain s1 where s1: "allocate_block p s = Some (False, s1)" "ta_ok s1 (bs @ [p])" "current_block s1 = p"
      "last_node s1 = - 1" "tnodes s1 = tnodes s"
      using allocate_block_correct [OF ok False _ _ len s [symmetric]] p False by auto
    have "allocate_node p s = take_node s1"
      using e s1(1) by (simp add: allocate_node_def BLOCK_TRANX_NODES_def)
    moreover have "used_nodes s1 (bs @ [p]) = used_nodes s bs" using True s1(3,4) u by (simp add: used_nodes_def)
    ultimately show ?thesis
      by (intro allocate_by_take [of p s s1 "bs @ [p]"]) (simp_all add: s1 BLOCK_TRANX_NODES_def)
  qed
next
  case ne: False
  note D = ta_okD [OF ok]
  let ?c = "current_block s"
  have c: "?c \<noteq> 0" "?c \<in> live_blocks s" using D(2,4) D(10) [OF ne] by metis+
  show ?thesis
  proof (cases "last_node s = int BLOCK_TRANX_NODES - 1")
    case False
    then have "allocate_node p s = take_node s" using c by (simp add: allocate_node_def Let_def)
    then show ?thesis by (rule allocate_by_take [OF _ ok ne]) (use False D(9) in simp_all)
  next
    case full: True
    obtain pre post where bs: "bs = pre @ ?c # post" "?c \<notin> set pre" "?c \<notin> set post" "distinct (pre @ post)"
      by (rule ta_ok_split [OF ok ne])
    have next': "seg (block_next s) (block_next s ?c) post 0"
      using D(1) bs(1) by (auto simp: seg_append)
    define t where "t = s\<lparr>current_block := block_next s ?c, last_node := - 1\<rparr>"
    have go: "allocate_node p s = (if current_block t = 0
        then Option.bind (allocate_block p t) (\<lambda>(failed, s').
          if failed then Some (0, s'\<lparr>current_block := ?c, last_node := int BLOCK_TRANX_NODES - 1\<rparr>) else take_node s')
        else take_node t)"
      using full c by (auto simp: allocate_node_def load_next_def t_def Let_def intro!: arg_cong2 [where f = Option.bind])
    show ?thesis
    proof (cases post)
      case (Cons n rest)
      then have n: "block_next s ?c = n" "n \<noteq> 0" "n \<in> set bs" "n \<noteq> ?c" "n \<notin> set pre"
        using next' D(2) bs by auto
      have t: "ta_ok t bs"
        by (rule ta_okI) (use D ne n in \<open>simp_all add: t_def BLOCK_TRANX_NODES_def\<close>)
      have "used_nodes t bs = used_nodes s bs"
        using used_nodes_move [of s pre ?c post n t] ok bs full n Cons by (simp add: t_def)
      moreover have "allocate_node p s = take_node t" using go n by (simp add: t_def)
      ultimately show ?thesis
        by (intro allocate_by_take [of p s t bs]) (use t ne in \<open>simp_all add: t_def BLOCK_TRANX_NODES_def\<close>)
    next
      case Nil
      then have z: "block_next s ?c = 0" using next' by simp
      show ?thesis
      proof (cases "p = 0")
        case True
        have "s\<lparr>last_node := int BLOCK_TRANX_NODES - 1\<rparr> = s" using full by simp
        then have "allocate_node p s = Some (0, s)"
          using go z True by (simp add: t_def allocate_block_def)
        moreover have "length (used_nodes s bs) = BLOCK_TRANX_NODES * length bs"
          using used_nodes_split [OF refl bs(2), of post] bs(1) full Nil
          by (simp add: length_concat comp_def block_nodes_def sum_list_triv)
        ultimately show ?thesis using True by simp
      next
        case False
        obtain s1 where s1: "allocate_block p t = Some (False, s1)" "ta_ok s1 (bs @ [p])" "current_block s1 = p"
          "last_node s1 = - 1" "tnodes s1 = tnodes s"
          using allocate_block_correct [OF ok False _ _ len] p False z by (auto simp: t_def)
        have "used_nodes s1 (bs @ [p]) = used_nodes s bs"
          using used_nodes_move [of s pre ?c post p s1] ok bs full s1(3,4) p False Nil by auto
        moreover have "allocate_node p s = take_node s1" using go z s1(1) by (simp add: t_def)
        ultimately show ?thesis
          by (intro allocate_by_take [of p s s1 "bs @ [p]"]) (simp_all add: s1 BLOCK_TRANX_NODES_def)
      qed
    qed
  qed
qed

subsection \<open>Freeing nodes\<close>

lemma find_block_correct:
  assumes "seg (block_next s) p (xs @ b # ys) q" "set (xs @ [b]) \<subseteq> live_blocks s" "stop \<notin> set (xs @ [b])"
    and "\<And>c. c \<in> set xs \<Longrightarrow> apart c b \<and> c \<noteq> b" "i < BLOCK_TRANX_NODES" "length xs < fuel"
  shows "find_block fuel (node_at b i) stop prev p s = Some (Some (last (prev # xs), b))"
  using assms
proof (induction xs arbitrary: p prev fuel)
  case Nil
  then show ?case using node_range [of i b b] by (cases fuel) auto
next
  case (Cons c xs)
  then obtain f where f: "fuel = Suc f" by (cases fuel) auto
  have "\<not> (node_at c 0 \<le> node_at b i \<and> node_at b i \<le> node_at c BLOCK_TRANX_NODES)"
    using node_range [of i c b] Cons.prems(4) [of c] Cons.prems(5) by auto
  moreover have "find_block f (node_at b i) stop c (block_next s c) s = Some (Some (last (c # xs), b))"
    by (rule Cons.IH) (use Cons.prems f in auto)
  ultimately show ?case using Cons.prems f by auto
qed

text \<open>Moving the blocks \<open>xs\<close> at the front to the end of the chain.\<close>

lemma rotate_chain:
  assumes "ta_ok s (xs @ ys)" "xs \<noteq> []" "ys \<noteq> []"
    and "t = s\<lparr>first_block := hd ys, last_block := last xs,
      block_next := (block_next s)(last (xs @ ys) := first_block s, last xs := 0)\<rparr>"
  shows "ta_ok t (ys @ xs)"
proof -
  note D = ta_okD [OF assms(1)]
  obtain x' l where xs: "xs = x' @ [l]" using assms(2) by (cases xs rule: rev_cases) auto
  obtain y' m where ys: "ys = y' @ [m]" using assms(3) by (cases ys rule: rev_cases) auto
  have dist: "distinct (x' @ [l] @ y' @ [m])" using D(3) xs ys by simp
  have s: "seg (block_next s) (first_block s) xs (hd ys)" "seg (block_next s) (hd ys) ys 0"
    using D(1) seg_start [of "block_next s" _ ys 0] assms(3) by (auto simp: seg_append hd_append)
  let ?nx = "(block_next s)(m := first_block s, l := 0)"
  have "seg ((block_next s)(m := first_block s)) (hd ys) ys (first_block s)"
    using seg_relink [of "block_next s" "hd ys" y' m 0 "first_block s"] s(2) ys dist by simp
  then have "seg ?nx (hd ys) ys (first_block s)" using ys dist by simp
  moreover have "seg ((block_next s)(m := first_block s)) (first_block s) xs (hd ys)"
    using s(1) xs dist by simp
  then have "seg ?nx (first_block s) xs 0"
    using seg_relink [of "(block_next s)(m := first_block s)" "first_block s" x' l "hd ys" 0] xs dist by simp
  ultimately have "seg ?nx (hd ys) (ys @ xs) 0" by (auto simp: seg_append)
  moreover have "block_next t = ?nx" using assms(4) xs ys by simp
  ultimately show ?thesis
    by (intro ta_okI) (use D assms xs ys in \<open>auto simp: add.commute Un_commute\<close>)
qed

lemma free_blocks_used:
  assumes "ta_ok s (pre @ current_block s # post)"
  shows "\<exists>s' bs'. free_blocks s = Some s' \<and> ta_ok s' bs' \<and>
    used_nodes s' bs' = used_nodes s (pre @ current_block s # post) \<and> tnodes s' = tnodes s \<and>
    set bs' \<subseteq> set (pre @ current_block s # post) \<and>
    min (unat (reserved_blocks s)) (length (pre @ current_block s # post)) \<le> length bs' \<and>
    length bs' \<le> max (unat (reserved_blocks s)) (length pre + 2)"
proof -
  let ?c = "current_block s" and ?bs = "pre @ current_block s # post"
  let ?m = "surplus s ?bs (tl post)"
  obtain s' where s': "free_blocks s = Some s'" "ta_ok s' (pre @ ?c # take 1 post @ drop ?m (tl post))"
    "current_block s' = ?c" "last_node s' = last_node s" "tnodes s' = tnodes s"
    using free_blocks_correct [OF assms] by blast
  let ?bs' = "pre @ ?c # take 1 post @ drop ?m (tl post)"
  have c: "?c \<notin> set pre" using ta_okD(3) [OF assms] by simp
  have "used_nodes s' ?bs' = used_nodes s ?bs"
    using used_nodes_split [OF refl c, of post] used_nodes_split [of ?c s' pre "take 1 post @ drop ?m (tl post)"] c s'(3,4) by simp
  moreover have "set ?bs' \<subseteq> set ?bs"
    by (cases post) (auto dest: in_set_dropD)
  moreover have "min (unat (reserved_blocks s)) (length ?bs) \<le> length ?bs' \<and>
      length ?bs' \<le> max (unat (reserved_blocks s)) (length pre + 2)"
    by (cases post) (auto simp: surplus_def)
  ultimately show ?thesis using s' by blast
qed

lemma used_node_block:
  assumes "ta_ok s bs" "node \<in> set (used_nodes s bs)"
  obtains xs b mid post i where "bs = xs @ (b # mid) @ post" "i < BLOCK_TRANX_NODES" "node = node_at b i"
    "last (b # mid) = current_block s" "current_block s \<notin> set (butlast (b # mid))"
proof -
  obtain pre post where bs: "bs = pre @ current_block s # post" "current_block s \<notin> set pre"
    "current_block s \<notin> set post" "distinct (pre @ post)"
    by (rule ta_ok_split [OF assms(1) used_nodes_empty [OF assms]])
  let ?c = "current_block s"
  have "node \<in> set (concat (map block_nodes pre)) \<union> node_at ?c ` {..<nat (last_node s + 1)}"
    using assms(2) used_nodes_split [OF refl bs(2), of post] bs(1) by auto
  then show thesis
  proof
    assume "node \<in> set (concat (map block_nodes pre))"
    then obtain b i where b: "b \<in> set pre" "i < BLOCK_TRANX_NODES" "node = node_at b i" by (auto simp: block_nodes_def)
    obtain xs mid where "pre = xs @ b # mid" using split_list [OF b(1)] by blast
    then show thesis using that [of xs b "mid @ [?c]" post i] b bs by (auto simp: butlast_append)
  next
    assume "node \<in> node_at ?c ` {..<nat (last_node s + 1)}"
    then obtain i where "i < nat (last_node s + 1)" "node = node_at ?c i" by auto
    then show thesis using that [of pre ?c "[]" post i] bs ta_okD(9) [OF assms(1)] by auto
  qed
qed

lemma free_nodes_before_correct:
  assumes ok: "ta_ok s bs" and node: "node \<in> set (used_nodes s bs)" and fuel: "length bs \<le> fuel"
  shows "\<exists>s' bs' xs. free_nodes_before fuel node s = Some s' \<and> ta_ok s' bs' \<and>
    used_nodes s bs = concat (map block_nodes xs) @ used_nodes s' bs' \<and> node \<in> set (used_nodes s' bs') \<and>
    set bs' \<subseteq> set bs \<and> tnodes s' = tnodes s \<and>
    min (unat (reserved_blocks s)) (length bs) \<le> length bs'"
proof -
  note D = ta_okD [OF ok]
  obtain xs b mid post i where bs: "bs = xs @ (b # mid) @ post" "i < BLOCK_TRANX_NODES" "node = node_at b i"
    "last (b # mid) = current_block s" "current_block s \<notin> set (butlast (b # mid))"
    using used_node_block [OF ok node] by blast
  let ?c = "current_block s"
  define p2 where "p2 = butlast (b # mid)"
  have mid: "b # mid = p2 @ [?c]" "?c \<notin> set p2" using bs(4,5) append_butlast_last_id [of "b # mid"] by (simp_all add: p2_def)
  have bs2: "bs = (xs @ p2) @ ?c # post" using bs(1) mid(1) by simp
  have dist: "distinct (xs @ (p2 @ [?c]) @ post)" using D(3) bs2 by simp
  have used: "used_nodes s bs = concat (map block_nodes xs) @ concat (map block_nodes p2) @ map (node_at ?c) [0..<nat (last_node s + 1)]"
    using used_nodes_split [of ?c s "xs @ p2" post] dist by (simp add: bs2)
  have c: "?c \<in> live_blocks s" using D(4) bs2 by simp
  have stop: "block_next s ?c = hd (post @ [0])" "hd (post @ [0]) \<notin> set (xs @ [b])"
  proof -
    have "seg (block_next s) (block_next s ?c) post 0" using D(1) unfolding bs2 by (auto simp: seg_append)
    then show "block_next s ?c = hd (post @ [0])" by (rule seg_start)
    have "b \<in> set (p2 @ [?c])" using mid(1) by (metis list.set_intros(1))
    then show "hd (post @ [0]) \<notin> set (xs @ [b])" using dist D(2) bs2 by (cases post) auto
  qed
  have find: "find_block fuel node (hd (post @ [0])) 0 (first_block s) s = Some (Some (last (0 # xs), b))"
    unfolding bs(3)
  proof (rule find_block_correct [where ys = "mid @ post" and q = 0])
    fix c assume "c \<in> set xs"
    moreover have "b \<notin> set xs" using D(3) unfolding bs(1) by auto
    ultimately show "apart c b \<and> c \<noteq> b" using D(5) [of c b] bs(1) by auto
  qed (use D(1,4) bs stop fuel in auto)
  have keep: "node \<notin> set (concat (map block_nodes xs))"
  proof
    assume "node \<in> set (concat (map block_nodes xs))"
    then obtain x j where x: "x \<in> set xs" "j < BLOCK_TRANX_NODES" "node = node_at x j" by (auto simp: block_nodes_def)
    have "x = b \<or> apart x b" using D(5) [of x b] x(1) bs(1) by auto
    then have "x = b" using nodes_distinct [of j i x b] x bs(2,3) by auto
    then show False using D(3) x(1) bs(1) by auto
  qed
  show ?thesis
  proof (cases "xs = []")
    case True
    have "free_nodes_before fuel node s = Some s"
      using find True stop c seg_start [OF D(1)] bs(1) by (simp add: free_nodes_before_def load_next_def)
    then show ?thesis using ok node True
      by (intro exI [of _ s] exI [of _ bs] exI [of _ "[]"]) simp
  next
    case False
    define t where "t = s\<lparr>first_block := b, last_block := last xs,
      block_next := (block_next s)(last bs := first_block s, last xs := 0)\<rparr>"
    have t: "ta_ok t ((b # mid @ post) @ xs)"
      by (rule rotate_chain) (use ok bs(1) False in \<open>simp_all add: t_def\<close>)
    have ne: "bs \<noteq> []" using bs(1) by simp
    have "last xs \<in> set bs" using last_in_set [OF False] unfolding bs(1) by simp
    moreover have "last bs \<in> set bs" by (rule last_in_set [OF ne])
    ultimately have live: "last bs \<in> live_blocks s" "last xs \<in> live_blocks s" "last_block s = last bs"
      using D(4) D(11) [OF ne] by simp_all
    have "first_block s \<noteq> b" using seg_start [OF D(1)] bs(1) False D(3) by (cases xs) auto
    then have go: "free_nodes_before fuel node s = free_blocks t"
      using find stop(1) c live False by (simp add: free_nodes_before_def load_next_def store_next_def t_def)
    have tbs: "(b # mid @ post) @ xs = p2 @ current_block t # (post @ xs)" using mid(1) by (simp add: t_def)
    obtain s' bs' where s': "free_blocks t = Some s'" "ta_ok s' bs'"
      "used_nodes s' bs' = used_nodes t (p2 @ current_block t # (post @ xs))" "tnodes s' = tnodes t"
      "set bs' \<subseteq> set (p2 @ current_block t # (post @ xs))"
      "min (unat (reserved_blocks t)) (length (p2 @ current_block t # (post @ xs))) \<le> length bs'"
      using free_blocks_used [OF t [unfolded tbs]] by blast
    have "used_nodes t (p2 @ current_block t # (post @ xs)) = concat (map block_nodes p2) @ map (node_at ?c) [0..<nat (last_node s + 1)]"
      using used_nodes_split [of ?c t p2 "post @ xs"] mid(2) by (simp add: t_def)
    then have u: "used_nodes s bs = concat (map block_nodes xs) @ used_nodes s' bs'" using used s'(3) by simp
    then have "node \<in> set (used_nodes s' bs')" using node keep by auto
    then show ?thesis using go s' u bs2
      by (intro exI [of _ s'] exI [of _ bs'] exI [of _ xs]) (auto simp: t_def)
  qed
qed

lemma free_all_nodes_correct:
  assumes "ta_ok s bs"
  shows "\<exists>s' bs'. free_all_nodes s = Some s' \<and> ta_ok s' bs' \<and> used_nodes s' bs' = [] \<and> set bs' \<subseteq> set bs \<and>
    tnodes s' = tnodes s \<and> min (unat (reserved_blocks s)) (length bs) \<le> length bs' \<and>
    length bs' \<le> max (unat (reserved_blocks s)) 2"
proof (cases bs)
  note D = ta_okD [OF assms]
  case Nil
  then have "first_block s = 0" "current_block s = 0" "last_node s = - 1" using D(1,12) by simp_all
  then have "free_all_nodes s = Some s" "used_nodes s bs = []"
    using Nil by (simp_all add: free_all_nodes_def free_blocks_def used_nodes_def)
  then show ?thesis using assms Nil by auto
next
  note D = ta_okD [OF assms]
  case (Cons b rest)
  let ?t = "s\<lparr>current_block := first_block s, last_node := - 1\<rparr>"
  have b: "first_block s = b" using D(1) Cons by simp
  have "ta_ok ?t ([] @ current_block ?t # rest)"
    by (rule ta_okI) (use D Cons b in \<open>simp_all add: BLOCK_TRANX_NODES_def\<close>)
  from free_blocks_used [OF this] obtain s' bs' where "free_blocks ?t = Some s'" "ta_ok s' bs'"
    "used_nodes s' bs' = used_nodes ?t ([] @ current_block ?t # rest)" "tnodes s' = tnodes ?t"
    "set bs' \<subseteq> set ([] @ current_block ?t # rest)"
    "min (unat (reserved_blocks ?t)) (length ([] @ current_block ?t # rest)) \<le> length bs'"
    "length bs' \<le> max (unat (reserved_blocks ?t)) (length ([] :: nat list) + 2)" by blast
  moreover have "used_nodes ?t ([] @ current_block ?t # rest) = []" by (simp add: used_nodes_def)
  ultimately show ?thesis using Cons b
    by (intro exI [of _ s'] exI [of _ bs']) (simp add: free_all_nodes_def)
qed

lemma destroy_loop_correct:
  assumes "seg (block_next s) p bs 0" "0 \<notin> set bs" "distinct bs" "set bs \<subseteq> live_blocks s" "length bs \<le> fuel"
  shows "destroy_loop fuel p s = Some (s\<lparr>live_blocks := live_blocks s - set bs, block_num := block_num s - of_nat (length bs)\<rparr>)"
  using assms
proof (induction bs arbitrary: p s fuel)
  case (Cons b bs)
  then obtain f where f: "fuel = Suc f" by (cases fuel) auto
  let ?s = "free_block b s"
  have "destroy_loop f (block_next s b) ?s =
      Some (?s\<lparr>live_blocks := live_blocks ?s - set bs, block_num := block_num ?s - of_nat (length bs)\<rparr>)"
    by (rule Cons.IH) (use Cons.prems f in \<open>auto simp: free_block_def\<close>)
  moreover have "live_blocks s - {b} - set bs = live_blocks s - set (b # bs)" by auto
  ultimately show ?case using Cons.prems f by (simp add: load_next_def free_block_def algebra_simps)
qed simp

lemma ta_ok_first: "ta_ok s bs \<Longrightarrow> bs \<noteq> [] \<Longrightarrow> first_block s = hd bs"
  by (auto simp: ta_ok_def dest!: seg_start)

lemma used_nodes_blocks: "ta_ok s bs \<Longrightarrow> used_nodes s bs = xs @ [a] \<Longrightarrow> bs \<noteq> []"
  by (auto simp: ta_ok_def used_nodes_def)

lemma ta_make_ok: "ta_ok (ta_make n nx ns) []"
  by (simp add: ta_ok_def ta_make_def BLOCK_TRANX_NODES_def)

subsection \<open>Properties\<close>

text \<open>
  C11. The allocator of transaction nodes keeps its nodes as a sequence in the order of allocation. The
  constructor starts the empty sequence without a block. In every state the class keeps, without blocks
  or with a chain of them, and for blocks from \<open>my_malloc\<close> that do not overlap live ones: \<open>allocate_node\<close>
  appends a node that is not in use, with its fields cleared, and touches no other node; the first
  node comes from a new first block. It returns NULL only when \<open>my_malloc\<close> failed and every block is full,
  and then nothing has changed. \<open>free_nodes_before\<close> a used node finds its block by the comparison of
  addresses and drops the nodes of whole blocks at the front, keeping that node and all later ones;
  \<open>free_all_nodes\<close> drops all. Blocks in use are never freed, the reserve is kept, and the
  destructor frees every block once.
\<close>

theorem tranx_allocator_correct:
  assumes ok: "ta_ok s bs" and len: "length bs + 1 < 2 ^ 32"
    and p: "p = 0 \<or> p \<notin> set bs \<and> (\<forall>b\<in>set bs. apart b p)"
  shows "ta_ok (ta_make n nx ns) [] \<and> used_nodes (ta_make n nx ns) [] = [] \<and>
    (\<exists>a s'. allocate_node p s = Some (a, s') \<and>
      (if a = 0 then s' = s \<and> p = 0 \<and> length (used_nodes s bs) = BLOCK_TRANX_NODES * length bs
       else \<exists>bs'. (bs' = bs \<or> bs' = bs @ [p]) \<and> ta_ok s' bs' \<and> first_block s' = hd bs' \<and> used_nodes s' bs' = used_nodes s bs @ [a] \<and>
         a \<notin> set (used_nodes s bs) \<and> tnodes s' = (tnodes s)(a := cleared (tnodes s a)))) \<and>
    (\<forall>node\<in>set (used_nodes s bs).
      \<exists>s' bs' xs. free_nodes_before (unat (block_num s)) node s = Some s' \<and> ta_ok s' bs' \<and>
      used_nodes s bs = concat (map block_nodes xs) @ used_nodes s' bs' \<and> node \<in> set (used_nodes s' bs') \<and>
      set bs' \<subseteq> set bs \<and> tnodes s' = tnodes s \<and> min (unat (reserved_blocks s)) (length bs) \<le> length bs') \<and>
    (\<exists>s' bs'. free_all_nodes s = Some s' \<and> ta_ok s' bs' \<and> used_nodes s' bs' = [] \<and> set bs' \<subseteq> set bs \<and>
      tnodes s' = tnodes s \<and> min (unat (reserved_blocks s)) (length bs) \<le> length bs' \<and>
      length bs' \<le> max (unat (reserved_blocks s)) 2) \<and>
    (\<exists>s'. ta_destroy (unat (block_num s)) s = Some s' \<and> live_blocks s' = {} \<and> block_num s' = 0)"
proof -
  note D = ta_okD [OF ok]
  have fuel: "unat (block_num s) = length bs" unfolding D(6) by (rule unat_of_nat32 [OF D(7)])
  have "ta_destroy (unat (block_num s)) s = Some (s\<lparr>live_blocks := {}, block_num := 0\<rparr>)"
    unfolding ta_destroy_def fuel
    using destroy_loop_correct [OF D(1-3)] D(4,6) by simp
  moreover have "used_nodes (ta_make n nx ns) [] = []" by (simp add: used_nodes_def ta_make_def)
  moreover have "\<exists>a s'. allocate_node p s = Some (a, s') \<and>
      (if a = 0 then s' = s \<and> p = 0 \<and> length (used_nodes s bs) = BLOCK_TRANX_NODES * length bs
       else \<exists>bs'. (bs' = bs \<or> bs' = bs @ [p]) \<and> ta_ok s' bs' \<and> first_block s' = hd bs' \<and> used_nodes s' bs' = used_nodes s bs @ [a] \<and>
         a \<notin> set (used_nodes s bs) \<and> tnodes s' = (tnodes s)(a := cleared (tnodes s a)))"
    using allocate_node_correct [OF ok len p] ta_ok_first used_nodes_blocks by (fastforce split: if_splits)
  ultimately show ?thesis
    using free_nodes_before_correct [OF ok _, of _ "unat (block_num s)"] ta_make_ok
      free_all_nodes_correct [OF ok] fuel by (intro conjI ballI) simp_all
qed

text \<open>An allocator with one block, two of whose nodes are used.\<close>

definition sample_allocator :: tranx_allocator where
  "sample_allocator = (ta_make 10 (\<lambda>_. 0) (\<lambda>_. \<lparr>tn_log_name = [7], tn_log_pos = 5, tn_thd = 0, tn_next = 9, tn_hash_next = 9\<rparr>))
     \<lparr>first_block := 1000, last_block := 1000, current_block := 1000, last_node := 1, block_num := 1, live_blocks := {1000}\<rparr>"

lemma tranx_allocator_correct_witness:
  "used_nodes sample_allocator [1000] = [1008, 1552] \<and>
   (\<exists>a s'. allocate_node 0 sample_allocator = Some (a, s')) \<and> (\<exists>s'. free_nodes_before 1 1552 sample_allocator = Some s')"
proof -
  have ok: "ta_ok sample_allocator [1000]"
    by (simp add: ta_ok_def sample_allocator_def ta_make_def BLOCK_TRANX_NODES_def)
  have u: "used_nodes sample_allocator [1000] = [1008, 1552]"
    by (simp add: used_nodes_def sample_allocator_def ta_make_def node_at_def node_size_def numeral_2_eq_2)
  have n: "unat (block_num sample_allocator) = 1" by (simp add: sample_allocator_def)
  have len: "length [1000 :: nat] + 1 < 2 ^ 32" by simp
  note T = tranx_allocator_correct [OF ok len disjI1 [OF refl], of 10 "\<lambda>_. 0" "tnodes sample_allocator", unfolded n]
  have "\<exists>a s'. allocate_node 0 sample_allocator = Some (a, s')" using T by blast
  moreover have "\<forall>node\<in>set (used_nodes sample_allocator [1000]). \<exists>s'. free_nodes_before 1 node sample_allocator = Some s'"
    using T by fastforce
  ultimately show ?thesis unfolding u by simp
qed

end
