(* ===== verification/Sel_Arg.thy ===== *)
theory Sel_Arg
  imports Prelude
begin

text \<open>
  The intervals of the range optimizer, \<open>SEL_ARG\<close> of \<open>opt_range.h\<close>, and \<open>QUICK_RANGE\<close>. An object lives at
  an address of a heap, 0 is NULL; a pointer to a value is the bytes it points to. \<open>sel_cmp\<close>, which
  compares end points, and \<open>first\<close> and \<open>last\<close>, the ends of an interval list, are declared in the header
  and defined in \<open>opt_range.cc\<close>: they are arguments, and \<open>sel_cmp_ok\<close> says that \<open>sel_cmp\<close> orders end
  points. The functions that make a new object are modelled by the arguments they give to its
  constructor. \<open>None\<close> is an access outside a value.
\<close>

subsection \<open>Flags of my_base.h\<close>

definition NO_MIN_RANGE :: u8 where "NO_MIN_RANGE = 1"
definition NO_MAX_RANGE :: u8 where "NO_MAX_RANGE = 2"
definition NEAR_MIN :: u8 where "NEAR_MIN = 4"
definition NEAR_MAX :: u8 where "NEAR_MAX = 8"
definition EQ_RANGE :: u8 where "EQ_RANGE = 32"
definition GEOM_FLAG :: u8 where "GEOM_FLAG = 128"
definition HA_REVERSE_SORT :: u8 where "HA_REVERSE_SORT = 128"

lemmas flag_defs = NO_MIN_RANGE_def NO_MAX_RANGE_def NEAR_MIN_def NEAR_MAX_def EQ_RANGE_def GEOM_FLAG_def

text \<open>\<open>f AND g\<close> as a condition; the flags of a key have 32 bits.\<close>

definition has :: "u8 \<Rightarrow> u8 \<Rightarrow> bool" where
  "has f g \<longleftrightarrow> f AND g \<noteq> 0"

definition khas :: "u32 \<Rightarrow> u8 \<Rightarrow> bool" where
  "khas f g \<longleftrightarrow> f AND ucast g \<noteq> 0"

definition invert_min_flag :: "u32 \<Rightarrow> u32" where
  "invert_min_flag min_flag =
     (let out = min_flag AND NOT (ucast (NEAR_MIN OR NO_MIN_RANGE));
          out = (if khas min_flag NEAR_MIN then out OR ucast NEAR_MAX else out)
      in if khas min_flag NO_MIN_RANGE then out OR ucast NO_MAX_RANGE else out)"

definition invert_max_flag :: "u32 \<Rightarrow> u32" where
  "invert_max_flag max_flag =
     (let out = max_flag AND NOT (ucast (NEAR_MAX OR NO_MAX_RANGE));
          out = (if khas max_flag NEAR_MAX then out OR ucast NEAR_MIN else out)
      in if khas max_flag NO_MAX_RANGE then out OR ucast NO_MIN_RANGE else out)"

subsection \<open>Intervals\<close>

datatype sel_type = IMPOSSIBLE | MAYBE | MAYBE_KEY | KEY_RANGE

record interval =
  sa_field :: nat
  part :: u8
  min_value :: "u8 list"
  max_value :: "u8 list"
  min_flag :: u8
  max_flag :: u8
  maybe_flag :: u8

record sel_arg = interval +
  maybe_null :: u8
  elements :: u32
  use_count :: u32
  sa_next :: nat
  sa_prev :: nat
  next_key_part :: nat
  sa_type :: sel_type

type_synonym sel_cmp_fn = "nat \<Rightarrow> u8 list \<Rightarrow> u8 list \<Rightarrow> u8 \<Rightarrow> u8 \<Rightarrow> int"

definition cmp_min_to_min :: "sel_cmp_fn \<Rightarrow> 'z interval_scheme \<Rightarrow> 'y interval_scheme \<Rightarrow> int" where
  "cmp_min_to_min cmp a arg = cmp (sa_field a) (min_value a) (min_value arg) (min_flag a) (min_flag arg)"

definition cmp_min_to_max :: "sel_cmp_fn \<Rightarrow> 'z interval_scheme \<Rightarrow> 'y interval_scheme \<Rightarrow> int" where
  "cmp_min_to_max cmp a arg = cmp (sa_field a) (min_value a) (max_value arg) (min_flag a) (max_flag arg)"

definition cmp_max_to_max :: "sel_cmp_fn \<Rightarrow> 'z interval_scheme \<Rightarrow> 'y interval_scheme \<Rightarrow> int" where
  "cmp_max_to_max cmp a arg = cmp (sa_field a) (max_value a) (max_value arg) (max_flag a) (max_flag arg)"

definition cmp_max_to_min :: "sel_cmp_fn \<Rightarrow> 'z interval_scheme \<Rightarrow> 'y interval_scheme \<Rightarrow> int" where
  "cmp_max_to_min cmp a arg = cmp (sa_field a) (max_value a) (min_value arg) (max_flag a) (min_flag arg)"

definition is_same :: "sel_cmp_fn \<Rightarrow> sel_arg \<Rightarrow> sel_arg \<Rightarrow> bool" where
  "is_same cmp a arg =
     (if sa_type a \<noteq> sa_type arg \<or> part a \<noteq> part arg then False
      else if sa_type a \<noteq> KEY_RANGE then True
      else cmp_min_to_min cmp a arg = 0 \<and> cmp_max_to_max cmp a arg = 0)"

definition merge_flags :: "sel_arg \<Rightarrow> sel_arg \<Rightarrow> sel_arg" where
  "merge_flags a arg = a\<lparr>maybe_flag := maybe_flag a OR maybe_flag arg\<rparr>"

definition maybe_smaller :: "sel_arg \<Rightarrow> sel_arg" where
  "maybe_smaller a = a\<lparr>maybe_flag := 1\<rparr>"

definition is_null_interval :: "sel_arg \<Rightarrow> bool option" where
  "is_null_interval a =
     (if maybe_null a = 0 then Some False else guard (max_value a \<noteq> []) (hd (max_value a) = 1))"

definition clone_and :: "sel_cmp_fn \<Rightarrow> sel_arg \<Rightarrow> sel_arg \<Rightarrow> interval" where
  "clone_and cmp a arg =
     (let (new_min, flag_min) =
            (if cmp_min_to_min cmp a arg \<ge> 0 then (min_value a, min_flag a) else (min_value arg, min_flag arg));
          (new_max, flag_max) =
            (if cmp_max_to_max cmp a arg \<le> 0 then (max_value a, max_flag a) else (max_value arg, max_flag arg))
      in \<lparr>sa_field = sa_field a, part = part a, min_value = new_min, max_value = new_max, min_flag = flag_min,
          max_flag = flag_max, maybe_flag = (if maybe_flag a \<noteq> 0 \<and> maybe_flag arg \<noteq> 0 then 1 else 0)\<rparr>)"

definition clone_first :: "sel_arg \<Rightarrow> sel_arg \<Rightarrow> interval" where
  "clone_first a arg =
     \<lparr>sa_field = sa_field a, part = part a, min_value = min_value a, max_value = min_value arg,
      min_flag = min_flag a, max_flag = (if has (min_flag arg) NEAR_MIN then 0 else NEAR_MAX),
      maybe_flag = maybe_flag a OR maybe_flag arg\<rparr>"

definition clone_last :: "sel_arg \<Rightarrow> sel_arg \<Rightarrow> interval" where
  "clone_last a arg =
     \<lparr>sa_field = sa_field a, part = part a, min_value = min_value a, max_value = max_value arg,
      min_flag = min_flag a, max_flag = max_flag arg, maybe_flag = maybe_flag a OR maybe_flag arg\<rparr>"

text \<open>The result of \<open>copy_min\<close> and \<open>copy_max\<close> is whether they report a full range.\<close>

definition copy_min :: "sel_cmp_fn \<Rightarrow> sel_arg \<Rightarrow> sel_arg \<Rightarrow> bool \<times> sel_arg" where
  "copy_min cmp a arg =
     (let a' = (if cmp_min_to_min cmp a arg > 0 then a\<lparr>min_value := min_value arg, min_flag := min_flag arg\<rparr> else a) in
      if cmp_min_to_min cmp a arg > 0 \<and>
        max_flag a' AND (NO_MAX_RANGE OR NO_MIN_RANGE) = NO_MAX_RANGE OR NO_MIN_RANGE
      then (True, a') else (False, a'\<lparr>maybe_flag := maybe_flag a' OR maybe_flag arg\<rparr>))"

definition copy_max :: "sel_cmp_fn \<Rightarrow> sel_arg \<Rightarrow> sel_arg \<Rightarrow> bool \<times> sel_arg" where
  "copy_max cmp a arg =
     (let a' = (if cmp_max_to_max cmp a arg \<le> 0 then a\<lparr>max_value := max_value arg, max_flag := max_flag arg\<rparr> else a) in
      if cmp_max_to_max cmp a arg \<le> 0 \<and>
        max_flag a' AND (NO_MAX_RANGE OR NO_MIN_RANGE) = NO_MAX_RANGE OR NO_MIN_RANGE
      then (True, a') else (False, a'\<lparr>maybe_flag := maybe_flag a' OR maybe_flag arg\<rparr>))"

definition copy_min_to_min :: "sel_arg \<Rightarrow> sel_arg \<Rightarrow> sel_arg" where
  "copy_min_to_min a arg = a\<lparr>min_value := min_value arg, min_flag := min_flag arg\<rparr>"

definition copy_min_to_max :: "sel_arg \<Rightarrow> sel_arg \<Rightarrow> sel_arg" where
  "copy_min_to_max a arg =
     a\<lparr>max_value := min_value arg, max_flag := (if has (min_flag arg) NEAR_MIN then 0 else NEAR_MAX)\<rparr>"

definition copy_max_to_min :: "sel_arg \<Rightarrow> sel_arg \<Rightarrow> sel_arg" where
  "copy_max_to_min a arg =
     a\<lparr>min_value := max_value arg, min_flag := (if has (max_flag arg) NEAR_MAX then 0 else NEAR_MIN)\<rparr>"

definition simple_key :: "sel_arg \<Rightarrow> bool" where
  "simple_key a \<longleftrightarrow> next_key_part a = 0 \<and> elements a = 1"

definition is_singlepoint :: "(nat \<Rightarrow> u8 list \<Rightarrow> u8 list \<Rightarrow> int) \<Rightarrow> sel_arg \<Rightarrow> bool option" where
  "is_singlepoint key_cmp a =
     (if min_flag a \<noteq> 0 \<or> max_flag a \<noteq> 0 then Some False
      else if maybe_null a \<noteq> 0 then
        (if min_value a = [] \<or> max_value a = [] then None
         else if hd (min_value a) \<noteq> hd (max_value a) then Some False
         else if hd (min_value a) \<noteq> 0 then Some True
         else Some (key_cmp (sa_field a) (tl (min_value a)) (tl (max_value a)) = 0))
      else Some (key_cmp (sa_field a) (min_value a) (max_value a) = 0))"

subsection \<open>Keys\<close>

record key_part =
  store_length :: u16
  kp_flag :: u8

text \<open>
  \<open>store_min\<close> and \<open>store_max\<close>: the bytes they add to a key buffer, which is as long as needed; \<open>None\<close> is
  a value that is shorter than the key part.
\<close>

definition stored_value :: "sel_arg \<Rightarrow> u16 \<Rightarrow> u8 list \<Rightarrow> u8 list option" where
  "stored_value a len v =
     (if maybe_null a \<noteq> 0 \<and> v = [] then None
      else if maybe_null a \<noteq> 0 \<and> hd v \<noteq> 0 then guard (len \<noteq> 0) (1 # replicate (unat len - 1) 0)
      else guard (unat len \<le> length v) (take (unat len) v))"

definition store_min :: "sel_arg \<Rightarrow> u16 \<Rightarrow> u8 list \<Rightarrow> u32 \<Rightarrow> (nat \<times> u8 list) option" where
  "store_min a len min_key min_key_flag =
     (if has (min_flag a) GEOM_FLAG \<or>
        \<not> has (min_flag a) NO_MIN_RANGE \<and> \<not> (khas min_key_flag NO_MIN_RANGE \<or> khas min_key_flag NEAR_MIN)
      then map_option (\<lambda>v. (1, min_key @ v)) (stored_value a len (min_value a))
      else Some (0, min_key))"

definition store_max :: "sel_arg \<Rightarrow> u16 \<Rightarrow> u8 list \<Rightarrow> u32 \<Rightarrow> (nat \<times> u8 list) option" where
  "store_max a len max_key max_key_flag =
     (if \<not> has (max_flag a) NO_MAX_RANGE \<and> \<not> (khas max_key_flag NO_MAX_RANGE \<or> khas max_key_flag NEAR_MAX)
      then map_option (\<lambda>v. (1, max_key @ v)) (stored_value a len (max_value a))
      else Some (0, max_key))"

definition reversed :: "(nat \<Rightarrow> key_part) \<Rightarrow> u8 \<Rightarrow> bool" where
  "reversed kp p \<longleftrightarrow> has (kp_flag (kp (unat p))) HA_REVERSE_SORT"

text \<open>The counters \<open>min_part\<close> and \<open>max_part\<close> and the two buffers, in this order.\<close>

definition store_min_max ::
  "(nat \<Rightarrow> key_part) \<Rightarrow> sel_arg \<Rightarrow> u16 \<Rightarrow> u8 list \<Rightarrow> u32 \<Rightarrow> u8 list \<Rightarrow> u32 \<Rightarrow> nat \<Rightarrow> nat \<Rightarrow>
    (nat \<times> nat \<times> u8 list \<times> u8 list) option" where
  "store_min_max kp a len min_key mnf max_key mxf min_part max_part =
     (if reversed kp (part a) then
        (case store_min a len max_key mnf of None \<Rightarrow> None | Some (n, max_key) \<Rightarrow>
          map_option (\<lambda>(m, min_key). (min_part + m, max_part + n, min_key, max_key)) (store_max a len min_key mxf))
      else
        (case store_min a len min_key mnf of None \<Rightarrow> None | Some (m, min_key) \<Rightarrow>
          map_option (\<lambda>(n, max_key). (min_part + m, max_part + n, min_key, max_key)) (store_max a len max_key mxf)))"

definition get_min_flag :: "(nat \<Rightarrow> key_part) \<Rightarrow> sel_arg \<Rightarrow> u32" where
  "get_min_flag kp a = (if reversed kp (part a) then invert_max_flag (ucast (max_flag a)) else ucast (min_flag a))"

definition get_max_flag :: "(nat \<Rightarrow> key_part) \<Rightarrow> sel_arg \<Rightarrow> u32" where
  "get_max_flag kp a = (if reversed kp (part a) then invert_min_flag (ucast (min_flag a)) else ucast (max_flag a))"

definition index_order_prev :: "(nat \<Rightarrow> key_part) \<Rightarrow> sel_arg \<Rightarrow> nat" where
  "index_order_prev kp a = (if reversed kp (part a) then sa_next a else sa_prev a)"

definition index_order_next :: "(nat \<Rightarrow> key_part) \<Rightarrow> sel_arg \<Rightarrow> nat" where
  "index_order_next kp a = (if reversed kp (part a) then sa_prev a else sa_next a)"

text \<open>
  \<open>store_min_key\<close> and \<open>store_max_key\<close> of the list at address \<open>p\<close>: the number of key parts, the buffer
  and the flag. The next list has a greater part number, which the lemmas use to bound the fuel.
\<close>

record sel_graph =
  sel :: "nat \<Rightarrow> sel_arg"
  sel_first :: "nat \<Rightarrow> nat"
  sel_last :: "nat \<Rightarrow> nat"

definition follows :: "sel_graph \<Rightarrow> sel_arg \<Rightarrow> u32 \<Rightarrow> bool" where
  "follows G t last_part \<longleftrightarrow> next_key_part t \<noteq> 0 \<and> sa_type (sel G (next_key_part t)) = KEY_RANGE \<and>
     ucast (part t) \<noteq> last_part \<and> unat (part (sel G (next_key_part t))) = unat (part t) + 1"

type_synonym key_store = "nat \<Rightarrow> u8 list \<Rightarrow> u32 \<Rightarrow> (nat \<times> u8 list \<times> u32) option"

definition min_key_step :: "sel_graph \<Rightarrow> (nat \<Rightarrow> key_part) \<Rightarrow> u32 \<Rightarrow> bool \<Rightarrow> key_store \<Rightarrow> key_store \<Rightarrow> key_store" where
  "min_key_step G key last_part start_key min_rec max_rec p range_key flag =
     (let t = sel G (sel_first G p) in
      case store_min t (store_length (key (unat (part t)))) range_key flag of None \<Rightarrow> None
      | Some (res, range_key) \<Rightarrow>
          if res = 0 then Some (0, range_key, flag)
          else let flag = flag OR ucast (min_flag t) in
            if follows G t last_part \<and> \<not> (khas flag NO_MIN_RANGE \<or> khas flag NEAR_MIN)
            then if start_key = (\<not> reversed key (part t))
              then map_option (\<lambda>(n, k, f). (res + n, k, f)) (min_rec (next_key_part t) range_key flag)
              else map_option (\<lambda>(n, k, f). (res + n, k, invert_max_flag f))
                (max_rec (next_key_part t) range_key (invert_min_flag flag))
            else Some (res, range_key, flag))"

definition max_key_step :: "sel_graph \<Rightarrow> (nat \<Rightarrow> key_part) \<Rightarrow> u32 \<Rightarrow> bool \<Rightarrow> key_store \<Rightarrow> key_store \<Rightarrow> key_store" where
  "max_key_step G key last_part start_key min_rec max_rec p range_key flag =
     (let t = sel G (sel_last G p) in
      case store_max t (store_length (key (unat (part t)))) range_key flag of None \<Rightarrow> None
      | Some (res, range_key) \<Rightarrow>
          if res = 0 then Some (0, range_key, flag)
          else let flag = flag OR ucast (max_flag t) in
            if follows G t last_part \<and> \<not> (khas flag NO_MAX_RANGE \<or> khas flag NEAR_MAX)
            then if (\<not> start_key \<and> \<not> reversed key (part t)) \<or> (start_key \<and> reversed key (part t))
              then map_option (\<lambda>(n, k, f). (res + n, k, f)) (max_rec (next_key_part t) range_key flag)
              else map_option (\<lambda>(n, k, f). (res + n, k, invert_min_flag f))
                (min_rec (next_key_part t) range_key (invert_max_flag flag))
            else Some (res, range_key, flag))"

fun store_min_key :: "nat \<Rightarrow> sel_graph \<Rightarrow> (nat \<Rightarrow> key_part) \<Rightarrow> u32 \<Rightarrow> bool \<Rightarrow> key_store"
  and store_max_key :: "nat \<Rightarrow> sel_graph \<Rightarrow> (nat \<Rightarrow> key_part) \<Rightarrow> u32 \<Rightarrow> bool \<Rightarrow> key_store" where
  "store_min_key 0 G key last_part start_key = (\<lambda>p range_key flag. None)"
| "store_min_key (Suc fuel) G key last_part start_key =
     min_key_step G key last_part start_key
       (store_min_key fuel G key last_part start_key) (store_max_key fuel G key last_part start_key)"
| "store_max_key 0 G key last_part start_key = (\<lambda>p range_key flag. None)"
| "store_max_key (Suc fuel) G key last_part start_key =
     max_key_step G key last_part start_key
       (store_min_key fuel G key last_part start_key) (store_max_key fuel G key last_part start_key)"

text \<open>\<open>all_same\<close>: the loop over two interval lists.\<close>

fun same_loop :: "nat \<Rightarrow> sel_cmp_fn \<Rightarrow> sel_graph \<Rightarrow> nat \<Rightarrow> nat \<Rightarrow> bool option" where
  "same_loop fuel cmp G cur c =
     (if cur \<noteq> 0 \<and> c \<noteq> 0 \<and> is_same cmp (sel G cur) (sel G c)
      then (case fuel of 0 \<Rightarrow> None | Suc fuel \<Rightarrow> same_loop fuel cmp G (sa_next (sel G cur)) (sa_next (sel G c)))
      else Some (cur = 0 \<and> c = 0))"

definition all_same :: "nat \<Rightarrow> sel_cmp_fn \<Rightarrow> sel_graph \<Rightarrow> nat \<Rightarrow> nat \<Rightarrow> bool option" where
  "all_same fuel cmp G this arg =
     (if sa_type (sel G this) \<noteq> sa_type (sel G arg) \<or> part (sel G this) \<noteq> part (sel G arg) then Some False
      else if sa_type (sel G this) \<noteq> KEY_RANGE then Some True
      else if arg = this then Some True
      else same_loop fuel cmp G (sel_first G this) (sel_first G arg))"

subsection \<open>QUICK_RANGE\<close>

datatype rkey_function = HA_READ_KEY_EXACT | HA_READ_KEY_OR_NEXT | HA_READ_AFTER_KEY | HA_READ_BEFORE_KEY

record key_range =
  kr_key :: "u8 list"
  kr_keypart_map :: u32
  kr_length :: u32
  kr_flag :: rkey_function

record quick_range =
  qr_min_key :: "u8 list"
  qr_max_key :: "u8 list"
  qr_min_length :: u16
  qr_max_length :: u16
  qr_flag :: u16
  qr_min_map :: u32
  qr_max_map :: u32

definition quick_range_make ::
  "u8 list \<Rightarrow> u32 \<Rightarrow> u32 \<Rightarrow> u8 list \<Rightarrow> u32 \<Rightarrow> u32 \<Rightarrow> u32 \<Rightarrow> quick_range option" where
  "quick_range_make mn mn_len mn_map mx mx_len mx_map flg =
     guard (unat (mn_len + 1) \<le> length mn \<and> unat (mx_len + 1) \<le> length mx)
       \<lparr>qr_min_key = take (unat (mn_len + 1)) mn, qr_max_key = take (unat (mx_len + 1)) mx,
        qr_min_length = ucast mn_len, qr_max_length = ucast mx_len, qr_flag = ucast flg,
        qr_min_map = mn_map, qr_max_map = mx_map\<rparr>"

definition make_min_endpoint :: "quick_range \<Rightarrow> key_range" where
  "make_min_endpoint q =
     \<lparr>kr_key = qr_min_key q, kr_keypart_map = qr_min_map q, kr_length = ucast (qr_min_length q),
      kr_flag = (if qr_flag q AND ucast NEAR_MIN \<noteq> 0 then HA_READ_AFTER_KEY
        else if qr_flag q AND ucast EQ_RANGE \<noteq> 0 then HA_READ_KEY_EXACT else HA_READ_KEY_OR_NEXT)\<rparr>"

definition make_max_endpoint :: "quick_range \<Rightarrow> key_range" where
  "make_max_endpoint q =
     \<lparr>kr_key = qr_max_key q, kr_keypart_map = qr_max_map q, kr_length = ucast (qr_max_length q),
      kr_flag = (if qr_flag q AND ucast NEAR_MAX \<noteq> 0 then HA_READ_BEFORE_KEY else HA_READ_AFTER_KEY)\<rparr>"

definition make_min_endpoint_prefix :: "quick_range \<Rightarrow> u32 \<Rightarrow> u32 \<Rightarrow> key_range" where
  "make_min_endpoint_prefix q prefix_length keypart_map =
     (let kr = make_min_endpoint q in
      kr\<lparr>kr_length := min (kr_length kr) prefix_length, kr_keypart_map := kr_keypart_map kr AND keypart_map\<rparr>)"

definition make_max_endpoint_prefix :: "quick_range \<Rightarrow> u32 \<Rightarrow> u32 \<Rightarrow> key_range" where
  "make_max_endpoint_prefix q prefix_length keypart_map =
     (let kr = make_max_endpoint q in
      kr\<lparr>kr_length := min (kr_length kr) prefix_length, kr_keypart_map := kr_keypart_map kr AND keypart_map\<rparr>)"

subsection \<open>What an interval stands for\<close>

text \<open>\<open>rank\<close> is the place of a value in the order of the field.\<close>

definition above :: "(u8 list \<Rightarrow> int) \<Rightarrow> 'z interval_scheme \<Rightarrow> int \<Rightarrow> bool" where
  "above rank a x \<longleftrightarrow> has (min_flag a) NO_MIN_RANGE \<or>
     (if has (min_flag a) NEAR_MIN then rank (min_value a) < x else rank (min_value a) \<le> x)"

definition below :: "(u8 list \<Rightarrow> int) \<Rightarrow> 'z interval_scheme \<Rightarrow> int \<Rightarrow> bool" where
  "below rank a x \<longleftrightarrow> has (max_flag a) NO_MAX_RANGE \<or>
     (if has (max_flag a) NEAR_MAX then x < rank (max_value a) else x \<le> rank (max_value a))"

definition inside :: "(u8 list \<Rightarrow> int) \<Rightarrow> 'z interval_scheme \<Rightarrow> int \<Rightarrow> bool" where
  "inside rank a x \<longleftrightarrow> above rank a x \<and> below rank a x"

definition flags_ok :: "'z interval_scheme \<Rightarrow> bool" where
  "flags_ok a \<longleftrightarrow> min_flag a \<in> {0, NO_MIN_RANGE, NEAR_MIN} \<and> max_flag a \<in> {0, NO_MAX_RANGE, NEAR_MAX}"

text \<open>
  End points in order: the absent ends first and last, then by value, and at the same value first
  \<open>NEAR_MAX\<close>, just below it, then the value, then \<open>NEAR_MIN\<close>.
\<close>

definition end_point :: "(u8 list \<Rightarrow> int) \<Rightarrow> u8 list \<Rightarrow> u8 \<Rightarrow> int \<times> int" where
  "end_point rank v f =
     (if has f NO_MIN_RANGE then (- 1, 0) else if has f NO_MAX_RANGE then (1, 0)
      else (0, 3 * rank v + (if has f NEAR_MIN then 1 else if has f NEAR_MAX then - 1 else 0)))"

definition end_less :: "int \<times> int \<Rightarrow> int \<times> int \<Rightarrow> bool" where
  "end_less p q \<longleftrightarrow> fst p < fst q \<or> fst p = fst q \<and> snd p < snd q"

definition sel_cmp_ok :: "(u8 list \<Rightarrow> int) \<Rightarrow> sel_cmp_fn \<Rightarrow> bool" where
  "sel_cmp_ok rank cmp \<longleftrightarrow> (\<forall>field v w f g.
     (cmp field v w f g < 0 \<longleftrightarrow> end_less (end_point rank v f) (end_point rank w g)) \<and>
     (cmp field v w f g = 0 \<longleftrightarrow> end_point rank v f = end_point rank w g))"

lemma has_values [simp]:
  "has 0 f = False" "has NO_MIN_RANGE NO_MIN_RANGE" "has NEAR_MIN NEAR_MIN" "has NO_MAX_RANGE NO_MAX_RANGE"
  "has NEAR_MAX NEAR_MAX" "\<not> has NO_MIN_RANGE NEAR_MIN" "\<not> has NEAR_MIN NO_MIN_RANGE" "\<not> has NO_MAX_RANGE NEAR_MAX"
  "\<not> has NEAR_MAX NO_MAX_RANGE" "\<not> has NO_MIN_RANGE NO_MAX_RANGE" "\<not> has NEAR_MIN NO_MAX_RANGE"
  "\<not> has NO_MIN_RANGE NEAR_MAX" "\<not> has NEAR_MIN NEAR_MAX" "\<not> has NO_MAX_RANGE NO_MIN_RANGE"
  "\<not> has NEAR_MAX NO_MIN_RANGE" "\<not> has NO_MAX_RANGE NEAR_MIN" "\<not> has NEAR_MAX NEAR_MIN"
  by (simp_all add: has_def flag_defs)

text \<open>Lower and upper ends as comparisons of end points.\<close>

lemma above_end:
  assumes "min_flag a \<in> {0, NO_MIN_RANGE, NEAR_MIN}"
  shows "above rank a x \<longleftrightarrow> \<not> end_less (0, 3 * x) (end_point rank (min_value a) (min_flag a))"
  using assms by (auto simp: above_def end_point_def end_less_def)

lemma below_end:
  assumes "max_flag a \<in> {0, NO_MAX_RANGE, NEAR_MAX}"
  shows "below rank a x \<longleftrightarrow> \<not> end_less (end_point rank (max_value a) (max_flag a)) (0, 3 * x)"
  using assms by (auto simp: below_def end_point_def end_less_def)

lemma end_less_order:
  "\<not> end_less p p" "end_less p q \<Longrightarrow> \<not> end_less q p" "end_less p q \<Longrightarrow> end_less q r \<Longrightarrow> end_less p r"
  "\<not> end_less p q \<Longrightarrow> \<not> end_less q p \<Longrightarrow> p = q" "\<not> end_less p q \<Longrightarrow> \<not> end_less q r \<Longrightarrow> \<not> end_less p r"
  by (auto simp: end_less_def prod_eq_iff)

lemma end_less_cases: "end_less p q \<or> p = q \<or> end_less q p"
  using end_less_order(4) by blast

text \<open>Taking the later lower end, or the earlier upper end.\<close>

lemma sel_cmp_less: "sel_cmp_ok rank cmp \<Longrightarrow> cmp field v w f g < 0 \<longleftrightarrow> end_less (end_point rank v f) (end_point rank w g)"
  and sel_cmp_equal: "sel_cmp_ok rank cmp \<Longrightarrow> cmp field v w f g = 0 \<longleftrightarrow> end_point rank v f = end_point rank w g"
  by (simp_all add: sel_cmp_ok_def)

lemma sel_cmp_greater:
  "sel_cmp_ok rank cmp \<Longrightarrow> cmp field v w f g > 0 \<longleftrightarrow> end_less (end_point rank w g) (end_point rank v f)"
  using sel_cmp_less [of rank cmp field v w f g] sel_cmp_equal [of rank cmp field v w f g]
    end_less_cases [of "end_point rank v f" "end_point rank w g"] end_less_order(1,2)
    not_less_iff_gr_or_eq [of "cmp field v w f g" 0] by metis

lemma lower_ends:
  assumes "sel_cmp_ok rank cmp" "flags_ok a" "flags_ok b"
  shows "cmp_min_to_min cmp a b \<ge> 0 \<Longrightarrow> above rank a x \<Longrightarrow> above rank b x"
    and "cmp_min_to_min cmp a b \<le> 0 \<Longrightarrow> above rank b x \<Longrightarrow> above rank a x"
proof -
  have f: "min_flag a \<in> {0, NO_MIN_RANGE, NEAR_MIN}" "min_flag b \<in> {0, NO_MIN_RANGE, NEAR_MIN}"
    using assms(2,3) by (simp_all add: flags_ok_def)
  show "cmp_min_to_min cmp a b \<ge> 0 \<Longrightarrow> above rank a x \<Longrightarrow> above rank b x"
    unfolding above_end [OF f(1)] above_end [OF f(2)] cmp_min_to_min_def
    using sel_cmp_less [OF assms(1)] end_less_order(5) by (metis not_less)
  show "cmp_min_to_min cmp a b \<le> 0 \<Longrightarrow> above rank b x \<Longrightarrow> above rank a x"
    unfolding above_end [OF f(1)] above_end [OF f(2)] cmp_min_to_min_def
    using sel_cmp_greater [OF assms(1)] end_less_order(5) by (metis not_less)
qed

lemma upper_ends:
  assumes "sel_cmp_ok rank cmp" "flags_ok a" "flags_ok b"
  shows "cmp_max_to_max cmp a b \<ge> 0 \<Longrightarrow> below rank b x \<Longrightarrow> below rank a x"
    and "cmp_max_to_max cmp a b \<le> 0 \<Longrightarrow> below rank a x \<Longrightarrow> below rank b x"
proof -
  have f: "max_flag a \<in> {0, NO_MAX_RANGE, NEAR_MAX}" "max_flag b \<in> {0, NO_MAX_RANGE, NEAR_MAX}"
    using assms(2,3) by (simp_all add: flags_ok_def)
  show "cmp_max_to_max cmp a b \<ge> 0 \<Longrightarrow> below rank b x \<Longrightarrow> below rank a x"
    unfolding below_end [OF f(1)] below_end [OF f(2)] cmp_max_to_max_def
    using sel_cmp_less [OF assms(1)] end_less_order(5) by (metis not_less)
  show "cmp_max_to_max cmp a b \<le> 0 \<Longrightarrow> below rank a x \<Longrightarrow> below rank b x"
    unfolding below_end [OF f(1)] below_end [OF f(2)] cmp_max_to_max_def
    using sel_cmp_greater [OF assms(1)] end_less_order(5) by (metis not_less)
qed

text \<open>A bound that is copied across turns into its complement.\<close>

lemma above_only: "min_flag a = min_flag b \<Longrightarrow> min_value a = min_value b \<Longrightarrow> above rank a x = above rank b x"
  by (simp add: above_def)

lemma below_only: "max_flag a = max_flag b \<Longrightarrow> max_value a = max_value b \<Longrightarrow> below rank a x = below rank b x"
  by (simp add: below_def)

lemma before_min:
  assumes "flags_ok b" "\<not> has (min_flag b) NO_MIN_RANGE" "max_value a = min_value b"
    and "max_flag a = (if has (min_flag b) NEAR_MIN then 0 else NEAR_MAX)"
  shows "below rank a x \<longleftrightarrow> \<not> above rank b x"
  using assms by (auto simp: flags_ok_def above_def below_def)

lemma after_max:
  assumes "flags_ok b" "\<not> has (max_flag b) NO_MAX_RANGE" "min_value a = max_value b"
    and "min_flag a = (if has (max_flag b) NEAR_MAX then 0 else NEAR_MIN)"
  shows "above rank a x \<longleftrightarrow> \<not> below rank b x"
  using assms by (auto simp: flags_ok_def above_def below_def)

lemma clone_and_inside:
  assumes "sel_cmp_ok rank cmp" "flags_ok a" "flags_ok b"
  shows "inside rank (clone_and cmp a b) x \<longleftrightarrow> inside rank a x \<and> inside rank b x"
proof -
  have "above rank (clone_and cmp a b) x = above rank (if cmp_min_to_min cmp a b \<ge> 0 then a else b) x"
    by (rule above_only) (simp_all add: clone_and_def)
  then have "above rank (clone_and cmp a b) x \<longleftrightarrow> above rank a x \<and> above rank b x"
    using lower_ends [OF assms, of x] by auto
  moreover have "below rank (clone_and cmp a b) x = below rank (if cmp_max_to_max cmp a b \<le> 0 then a else b) x"
    by (rule below_only) (simp_all add: clone_and_def split: if_splits)
  then have "below rank (clone_and cmp a b) x \<longleftrightarrow> below rank a x \<and> below rank b x"
    using upper_ends [OF assms, of x] by auto
  ultimately show ?thesis by (auto simp: inside_def)
qed

lemma copy_min_above:
  assumes "sel_cmp_ok rank cmp" "flags_ok a" "flags_ok b"
  shows "above rank (snd (copy_min cmp a b)) x \<longleftrightarrow> above rank a x \<or> above rank b x"
    and "below rank (snd (copy_min cmp a b)) x = below rank a x"
proof -
  have "above rank (snd (copy_min cmp a b)) x = above rank (if cmp_min_to_min cmp a b > 0 then b else a) x"
    by (rule above_only) (simp_all add: copy_min_def Let_def)
  then show "above rank (snd (copy_min cmp a b)) x \<longleftrightarrow> above rank a x \<or> above rank b x"
    using lower_ends [OF assms, of x] by (auto split: if_splits)
  show "below rank (snd (copy_min cmp a b)) x = below rank a x"
    by (rule below_only) (simp_all add: copy_min_def Let_def)
qed

lemma copy_max_below:
  assumes "sel_cmp_ok rank cmp" "flags_ok a" "flags_ok b"
  shows "below rank (snd (copy_max cmp a b)) x \<longleftrightarrow> below rank a x \<or> below rank b x"
    and "above rank (snd (copy_max cmp a b)) x = above rank a x"
proof -
  have "below rank (snd (copy_max cmp a b)) x = below rank (if cmp_max_to_max cmp a b \<le> 0 then b else a) x"
    by (rule below_only) (simp_all add: copy_max_def Let_def)
  then show "below rank (snd (copy_max cmp a b)) x \<longleftrightarrow> below rank a x \<or> below rank b x"
    using upper_ends [OF assms, of x] by (auto split: if_splits)
  show "above rank (snd (copy_max cmp a b)) x = above rank a x"
    by (rule above_only) (simp_all add: copy_max_def Let_def)
qed

lemma sel_arg_same_set:
  assumes "sel_cmp_ok rank cmp" "flags_ok a" "flags_ok b" "is_same cmp a b" "sa_type a = KEY_RANGE"
  shows "inside rank a x \<longleftrightarrow> inside rank b x"
  using assms(4,5) lower_ends [OF assms(1-3), of x] upper_ends [OF assms(1-3), of x]
  by (auto simp: is_same_def inside_def split: if_splits)

text \<open>
  C25. The intervals of the range optimizer as sets of key values, for end points that \<open>sel_cmp\<close>
  orders: \<open>clone_and\<close> is the intersection; \<open>clone_first\<close> is the part of the first interval's lower side
  that lies before the second interval, \<open>clone_last\<close> reaches from the first lower to the second upper
  end; \<open>copy_min\<close> and \<open>copy_max\<close> move an end outwards, never inwards, to where the other interval has
  it; \<open>copy_min_to_max\<close> and \<open>copy_max_to_min\<close> cut off exactly the other interval and what lies beyond
  it; and intervals for which \<open>is_same\<close> holds are the same sets.
\<close>

theorem sel_arg_intervals:
  assumes "sel_cmp_ok rank cmp" "flags_ok a" "flags_ok b"
  shows "(inside rank (clone_and cmp a b) x \<longleftrightarrow> inside rank a x \<and> inside rank b x) \<and>
    (has (min_flag b) NO_MIN_RANGE \<or>
      (inside rank (clone_first a b) x \<longleftrightarrow> above rank a x \<and> \<not> above rank b x) \<and>
      (inside rank (copy_min_to_max a b) x \<longleftrightarrow> above rank a x \<and> \<not> above rank b x)) \<and>
    (has (max_flag b) NO_MAX_RANGE \<or> (inside rank (copy_max_to_min a b) x \<longleftrightarrow> below rank a x \<and> \<not> below rank b x)) \<and>
    (inside rank (clone_last a b) x \<longleftrightarrow> above rank a x \<and> below rank b x) \<and>
    (inside rank (snd (copy_min cmp a b)) x \<longleftrightarrow> (above rank a x \<or> above rank b x) \<and> below rank a x) \<and>
    (inside rank (snd (copy_max cmp a b)) x \<longleftrightarrow> above rank a x \<and> (below rank a x \<or> below rank b x)) \<and>
    (\<not> is_same cmp a b \<or> sa_type a \<noteq> KEY_RANGE \<or> (inside rank a x \<longleftrightarrow> inside rank b x))"
proof -
  have "inside rank (clone_first a b) x \<longleftrightarrow> above rank a x \<and> \<not> above rank b x"
    "inside rank (copy_min_to_max a b) x \<longleftrightarrow> above rank a x \<and> \<not> above rank b x" if "\<not> has (min_flag b) NO_MIN_RANGE"
    using before_min [OF assms(3) that, of "clone_first a b" rank x] before_min [OF assms(3) that, of "copy_min_to_max a b" rank x]
      above_only [of "clone_first a b" a rank x] above_only [of "copy_min_to_max a b" a rank x]
    by (simp_all add: inside_def clone_first_def copy_min_to_max_def)
  moreover have "inside rank (copy_max_to_min a b) x \<longleftrightarrow> below rank a x \<and> \<not> below rank b x" if "\<not> has (max_flag b) NO_MAX_RANGE"
    using after_max [OF assms(3) that, of "copy_max_to_min a b" rank x] below_only [of "copy_max_to_min a b" a rank x]
    by (auto simp: inside_def copy_max_to_min_def)
  moreover have "inside rank (clone_last a b) x \<longleftrightarrow> above rank a x \<and> below rank b x"
    using above_only [of "clone_last a b" a rank x] below_only [of "clone_last a b" b rank x]
    by (simp add: inside_def clone_last_def)
  moreover have "inside rank a x \<longleftrightarrow> inside rank b x" if "is_same cmp a b" "sa_type a = KEY_RANGE"
    by (rule sel_arg_same_set [OF assms that])
  ultimately show ?thesis
    using clone_and_inside [OF assms] copy_min_above [OF assms, of x] copy_max_below [OF assms, of x]
    by (auto simp: inside_def)
qed

text \<open>A comparison that fits, and intervals of one byte.\<close>

definition first_byte :: "u8 list \<Rightarrow> int" where
  "first_byte v = (case v of [] \<Rightarrow> 0 | b # _ \<Rightarrow> uint b)"

definition sample_cmp :: sel_cmp_fn where
  "sample_cmp field v w f g =
     (if end_less (end_point first_byte v f) (end_point first_byte w g) then - 1
      else if end_point first_byte v f = end_point first_byte w g then 0 else 1)"

definition sample_interval :: "u8 \<Rightarrow> u8 \<Rightarrow> u8 \<Rightarrow> u8 \<Rightarrow> sel_arg" where
  "sample_interval l u f g =
     \<lparr>sa_field = 1, part = 0, min_value = [l], max_value = [u], min_flag = f, max_flag = g, maybe_flag = 0,
      maybe_null = 0, elements = 1, use_count = 1, sa_next = 0, sa_prev = 0, next_key_part = 0, sa_type = KEY_RANGE\<rparr>"

lemma sample_cmp_ok: "sel_cmp_ok first_byte sample_cmp"
  unfolding sel_cmp_ok_def sample_cmp_def using end_less_order(1) by auto

lemma sel_arg_intervals_witness:
  "\<not> inside first_byte (clone_and sample_cmp (sample_interval 3 9 0 0) (sample_interval 5 7 NEAR_MIN 0)) 5 \<and>
   inside first_byte (clone_and sample_cmp (sample_interval 3 9 0 0) (sample_interval 5 7 NEAR_MIN 0)) 6"
proof -
  have f: "flags_ok (sample_interval 3 9 0 0)" "flags_ok (sample_interval 5 7 NEAR_MIN 0)"
    by (simp_all add: flags_ok_def sample_interval_def)
  show ?thesis
    using sel_arg_intervals [OF sample_cmp_ok f, of 5] sel_arg_intervals [OF sample_cmp_ok f, of 6]
    by (simp add: inside_def above_def below_def sample_interval_def first_byte_def)
qed

text \<open>
  \<open>copy_min\<close> and \<open>copy_max\<close> never report the full range: they test both flags in \<open>max_flag\<close>, which
  only ever has the one for an absent upper end.
\<close>

lemma full_range_unreported:
  assumes "flags_ok a" "flags_ok b"
  shows "\<not> fst (copy_min cmp a b)" "\<not> fst (copy_max cmp a b)"
  using assms by (auto simp: copy_min_def copy_max_def Let_def flags_ok_def flag_defs)

lemma full_range_example:
  "fst (copy_min sample_cmp (sample_interval 3 0 0 NO_MAX_RANGE) (sample_interval 0 2 NO_MIN_RANGE 0)) = False \<and>
   inside first_byte (snd (copy_min sample_cmp (sample_interval 3 0 0 NO_MAX_RANGE) (sample_interval 0 2 NO_MIN_RANGE 0))) x"
proof -
  have f: "flags_ok (sample_interval 3 0 0 NO_MAX_RANGE)" "flags_ok (sample_interval 0 2 NO_MIN_RANGE 0)"
    by (simp_all add: flags_ok_def sample_interval_def)
  show ?thesis
    using full_range_unreported(1) [OF f] copy_min_above [OF sample_cmp_ok f, of x]
    by (simp add: inside_def above_def below_def sample_interval_def)
qed

subsection \<open>What is stored in the keys\<close>

text \<open>Inverting flags exchanges the bits 2 and 3, and 0 and 1; the rest stays.\<close>

lemma khas_bits:
  "khas f NO_MIN_RANGE = bit f 0" "khas f NO_MAX_RANGE = bit f 1" "khas f NEAR_MIN = bit f 2" "khas f NEAR_MAX = bit f 3"
  by (simp_all add: khas_def flag_defs bit_iff_and_push_bit_not_eq_0 [of f])

lemma flag_bits:
  "bit NO_MIN_RANGE n \<longleftrightarrow> n = 0" "bit NO_MAX_RANGE n \<longleftrightarrow> n = 1" "bit NEAR_MIN n \<longleftrightarrow> n = 2" "bit NEAR_MAX n \<longleftrightarrow> n = 3"
  using bit_exp_word [of 0 n, where 'a = 8] bit_exp_word [of 1 n, where 'a = 8]
    bit_exp_word [of 2 n, where 'a = 8] bit_exp_word [of 3 n, where 'a = 8]
  by (auto simp: flag_defs)

lemma invert_min_bits:
  "bit (invert_min_flag f) n \<longleftrightarrow>
    (if n \<in> {0, 2} then False else bit f n \<or> (n = 3 \<and> bit f 2) \<or> (n = 1 \<and> bit f 0))"
  by (auto simp: invert_min_flag_def Let_def khas_bits bit_simps flag_bits unsigned_or_eq dest: bit_imp_le_length)

lemma invert_max_bits:
  "bit (invert_max_flag f) n \<longleftrightarrow>
    (if n \<in> {1, 3} then False else bit f n \<or> (n = 2 \<and> bit f 3) \<or> (n = 0 \<and> bit f 1))"
  by (auto simp: invert_max_flag_def Let_def khas_bits bit_simps flag_bits unsigned_or_eq dest: bit_imp_le_length)

lemma invert_flags:
  "\<not> khas f NO_MAX_RANGE \<Longrightarrow> \<not> khas f NEAR_MAX \<Longrightarrow> invert_max_flag (invert_min_flag f) = f"
  "\<not> khas f NO_MIN_RANGE \<Longrightarrow> \<not> khas f NEAR_MIN \<Longrightarrow> invert_min_flag (invert_max_flag f) = f"
  unfolding khas_bits by (rule bit_word_eqI; auto simp: invert_min_bits invert_max_bits)+

text \<open>
  A graph as the header describes it: the members of an interval list are over one key part, and the
  values are as long as the key part is stored.
\<close>

definition graph_ok :: "sel_graph \<Rightarrow> (nat \<Rightarrow> key_part) \<Rightarrow> bool" where
  "graph_ok G key \<longleftrightarrow> (\<forall>p. part (sel G (sel_first G p)) = part (sel G p) \<and> part (sel G (sel_last G p)) = part (sel G p) \<and>
     (let len = unat (store_length (key (unat (part (sel G p))))) in
        0 < len \<and> len \<le> length (min_value (sel G p)) \<and> len \<le> length (max_value (sel G p))))"

lemma stored_value_length:
  "0 < unat len \<Longrightarrow> unat len \<le> length v \<Longrightarrow> \<exists>w. stored_value a len v = Some w \<and> length w = unat len"
  by (cases v) (auto simp: stored_value_def)

text \<open>
  The reference: the bounds a key is made of. \<open>m\<close> says whether the minimum or the maximum is meant. The
  first bound is that of the first or last interval of the list; the bound of the next key part is a
  minimum just when \<open>start_key\<close> is the direction of the present part. A bound that is not closed is the
  last one.
\<close>

definition bound_node :: "sel_graph \<Rightarrow> bool \<Rightarrow> nat \<Rightarrow> sel_arg" where
  "bound_node G m p = sel G (if m then sel_first G p else sel_last G p)"

definition own_flag :: "bool \<Rightarrow> sel_arg \<Rightarrow> u8" where "own_flag m t = (if m then min_flag t else max_flag t)"
definition own_value :: "bool \<Rightarrow> sel_arg \<Rightarrow> u8 list" where "own_value m t = (if m then min_value t else max_value t)"
definition unbounded :: "bool \<Rightarrow> sel_arg \<Rightarrow> bool" where "unbounded m t \<longleftrightarrow> has (own_flag m t) (if m then NO_MIN_RANGE else NO_MAX_RANGE)"
definition open_end :: "bool \<Rightarrow> sel_arg \<Rightarrow> bool" where "open_end m t \<longleftrightarrow> has (own_flag m t) (if m then NEAR_MIN else NEAR_MAX)"

definition written :: "bool \<Rightarrow> sel_arg \<Rightarrow> bool" where
  "written m t \<longleftrightarrow> \<not> unbounded m t \<or> m \<and> has (min_flag t) GEOM_FLAG"

definition key_image :: "(nat \<Rightarrow> key_part) \<Rightarrow> bool \<Rightarrow> sel_arg \<Rightarrow> u8 list" where
  "key_image key m t =
     (let len = unat (store_length (key (unat (part t)))) in
      if maybe_null t \<noteq> 0 \<and> hd (own_value m t) \<noteq> 0 then 1 # replicate (len - 1) 0 else take len (own_value m t))"

fun bounds :: "sel_graph \<Rightarrow> (nat \<Rightarrow> key_part) \<Rightarrow> u32 \<Rightarrow> bool \<Rightarrow> bool \<Rightarrow> nat \<Rightarrow> (bool \<times> sel_arg) list \<Rightarrow> bool" where
  "bounds G key last_part start_key m p [] \<longleftrightarrow> \<not> written m (bound_node G m p)"
| "bounds G key last_part start_key m p (b # bs) \<longleftrightarrow>
     (let t = bound_node G m p in
      b = (m, t) \<and> written m t \<and>
      (if follows G t last_part \<and> \<not> unbounded m t \<and> \<not> open_end m t
       then bounds G key last_part start_key (start_key \<longleftrightarrow> \<not> reversed key (part t)) (next_key_part t) bs
       else bs = []))"

definition key_image_of :: "(nat \<Rightarrow> key_part) \<Rightarrow> (bool \<times> sel_arg) list \<Rightarrow> u8 list" where
  "key_image_of key bs = concat (map (\<lambda>(m, t). key_image key m t) bs)"

text \<open>
  The flag that comes back, in terms of the bound \<open>m\<close> that was asked for: it tells whether the last bound is
  open or unbounded, nothing about the other end, and collects the other flags.
\<close>

definition key_flag :: "bool \<Rightarrow> u32 \<Rightarrow> (bool \<times> sel_arg) list \<Rightarrow> u32 \<Rightarrow> bool" where
  "key_flag m f bs f' \<longleftrightarrow>
     (khas f' (if m then NO_MIN_RANGE else NO_MAX_RANGE) \<longleftrightarrow> bs \<noteq> [] \<and> (case last bs of (m, t) \<Rightarrow> unbounded m t)) \<and>
     (khas f' (if m then NEAR_MIN else NEAR_MAX) \<longleftrightarrow> bs \<noteq> [] \<and> (case last bs of (m, t) \<Rightarrow> open_end m t)) \<and>
     \<not> khas f' (if m then NO_MAX_RANGE else NO_MIN_RANGE) \<and> \<not> khas f' (if m then NEAR_MAX else NEAR_MIN) \<and>
     (\<forall>n\<ge>4. bit f' n \<longleftrightarrow> bit f n \<or> (\<exists>(m, t)\<in>set bs. bit (own_flag m t) n))"

text \<open>A flag that tells nothing about a range yet, and the flags of lower and upper ends in their places.\<close>

definition no_range_flag :: "u32 \<Rightarrow> bool" where
  "no_range_flag f \<longleftrightarrow> (\<forall>g\<in>{NO_MIN_RANGE, NO_MAX_RANGE, NEAR_MIN, NEAR_MAX}. \<not> khas f g)"

definition range_flags_ok :: "sel_graph \<Rightarrow> bool" where
  "range_flags_ok G \<longleftrightarrow> (\<forall>p. \<not> has (min_flag (sel G p)) NO_MAX_RANGE \<and> \<not> has (min_flag (sel G p)) NEAR_MAX \<and>
     \<not> has (max_flag (sel G p)) NO_MIN_RANGE \<and> \<not> has (max_flag (sel G p)) NEAR_MIN)"

definition stores :: "bool \<Rightarrow> (nat \<Rightarrow> key_part) \<Rightarrow> sel_graph \<Rightarrow> u32 \<Rightarrow> bool \<Rightarrow> nat \<Rightarrow> key_store \<Rightarrow> bool" where
  "stores m key G lp start d rec \<longleftrightarrow> (\<forall>p k f. d \<le> unat (part (sel G p)) \<longrightarrow> no_range_flag f \<longrightarrow>
     (\<exists>bs f'. rec p k f = Some (length bs, k @ key_image_of key bs, f') \<and> bounds G key lp start m p bs \<and> key_flag m f bs f'))"

lemma storesD:
  assumes "stores m key G lp start d rec" "d \<le> unat (part (sel G p))" "no_range_flag f"
  obtains bs f' where "rec p k f = Some (length bs, k @ key_image_of key bs, f')" "bounds G key lp start m p bs" "key_flag m f bs f'"
  using assms unfolding stores_def by blast

lemma has_bits:
  "has f NO_MIN_RANGE = bit f 0" "has f NO_MAX_RANGE = bit f 1" "has f NEAR_MIN = bit f 2" "has f NEAR_MAX = bit f 3"
  by (simp_all add: has_def flag_defs bit_iff_and_push_bit_not_eq_0 [of f])

lemma no_range_bits: "no_range_flag f \<longleftrightarrow> (\<forall>n<4. \<not> bit f n)"
proof -
  have "(\<forall>n<4. \<not> bit f n) \<longleftrightarrow> \<not> bit f 0 \<and> \<not> bit f 1 \<and> \<not> bit f 2 \<and> \<not> bit f 3"
    by (auto simp: numeral_eq_Suc less_Suc_eq)
  then show ?thesis by (auto simp: no_range_flag_def khas_bits)
qed

lemma invert_none: "no_range_flag f \<Longrightarrow> invert_min_flag f = f \<and> invert_max_flag f = f"
  unfolding no_range_flag_def khas_bits
  by (auto simp: khas_bits invert_min_bits invert_max_bits intro!: bit_word_eqI intro: gr0I split: if_splits)

lemma key_flag_turn:
  "key_flag (\<not> m) f bs f' \<Longrightarrow> key_flag m f bs (if m then invert_max_flag f' else invert_min_flag f')"
  unfolding key_flag_def khas_bits by (cases m) (auto simp: khas_bits invert_min_bits invert_max_bits)

text \<open>Both directions have the same shape.\<close>

definition key_step ::
  "nat \<Rightarrow> u32 \<Rightarrow> (u8 list \<Rightarrow> u32 \<Rightarrow> (nat \<times> u8 list) option) \<Rightarrow> (u32 \<Rightarrow> bool) \<Rightarrow> bool \<Rightarrow> (u32 \<Rightarrow> u32) \<Rightarrow> (u32 \<Rightarrow> u32) \<Rightarrow>
    key_store \<Rightarrow> key_store \<Rightarrow> u8 list \<Rightarrow> u32 \<Rightarrow> (nat \<times> u8 list \<times> u32) option" where
  "key_step nxt fl store again same turn turn' same_rec other_rec k f =
     (case store k f of None \<Rightarrow> None
      | Some (res, k) \<Rightarrow>
          if res = 0 then Some (0, k, f)
          else if again (f OR fl)
            then if same then map_option (\<lambda>(n, k, f). (res + n, k, f)) (same_rec nxt k (f OR fl))
              else map_option (\<lambda>(n, k, f). (res + n, k, turn' f)) (other_rec nxt k (turn (f OR fl)))
            else Some (res, k, f OR fl))"

lemma min_key_step:
  "min_key_step G key lp start mn mx p k f =
     (let t = sel G (sel_first G p) in
      key_step (next_key_part t) (ucast (min_flag t)) (store_min t (store_length (key (unat (part t)))))
        (\<lambda>f. follows G t lp \<and> \<not> (khas f NO_MIN_RANGE \<or> khas f NEAR_MIN)) (start = (\<not> reversed key (part t)))
        invert_min_flag invert_max_flag mn mx k f)"
  by (simp add: min_key_step_def key_step_def Let_def cong: option.case_cong if_cong)

lemma max_key_step:
  "max_key_step G key lp start mn mx p k f =
     (let t = sel G (sel_last G p) in
      key_step (next_key_part t) (ucast (max_flag t)) (store_max t (store_length (key (unat (part t)))))
        (\<lambda>f. follows G t lp \<and> \<not> (khas f NO_MAX_RANGE \<or> khas f NEAR_MAX))
        ((\<not> start \<and> \<not> reversed key (part t)) \<or> (start \<and> reversed key (part t)))
        invert_max_flag invert_min_flag mx mn k f)"
  by (simp add: max_key_step_def key_step_def Let_def cong: option.case_cong if_cong)

definition store_bound :: "bool \<Rightarrow> sel_arg \<Rightarrow> u16 \<Rightarrow> u8 list \<Rightarrow> u32 \<Rightarrow> (nat \<times> u8 list) option" where
  "store_bound m t = (if m then store_min t else store_max t)"

definition store_key :: "bool \<Rightarrow> nat \<Rightarrow> sel_graph \<Rightarrow> (nat \<Rightarrow> key_part) \<Rightarrow> u32 \<Rightarrow> bool \<Rightarrow> key_store" where
  "store_key m = (if m then store_min_key else store_max_key)"

lemma store_key_step:
  "store_key m (Suc fuel) G key lp start p k f =
     (let t = bound_node G m p in
      key_step (next_key_part t) (ucast (own_flag m t)) (store_bound m t (store_length (key (unat (part t)))))
        (\<lambda>f. follows G t lp \<and> \<not> (khas f (if m then NO_MIN_RANGE else NO_MAX_RANGE) \<or> khas f (if m then NEAR_MIN else NEAR_MAX)))
        ((start = (\<not> reversed key (part t))) = m) (if m then invert_min_flag else invert_max_flag)
        (if m then invert_max_flag else invert_min_flag) (store_key m fuel G key lp start) (store_key (\<not> m) fuel G key lp start) k f)"
proof -
  have "((\<not> start \<and> \<not> r) \<or> (start \<and> r)) = ((start = (\<not> r)) = False)" for r by auto
  then show ?thesis
    by (cases m) (simp_all only: store_key_def if_True if_False simp_thms store_min_key.simps store_max_key.simps min_key_step max_key_step
        bound_node_def own_flag_def store_bound_def)
qed

lemma stored_value_image:
  assumes "0 < unat len" "unat len \<le> length v" "len = store_length (key (unat (part t)))" "v = own_value m t"
  shows "stored_value t len v = Some (key_image key m t)"
proof -
  have "len \<noteq> 0" using assms(1) by auto
  moreover have "v \<noteq> []" using assms(1,2) by auto
  ultimately show ?thesis using assms(2-4) by (auto simp: stored_value_def key_image_def Let_def)
qed

lemma store_bound_written:
  assumes "0 < unat len" "unat len \<le> length (own_value m t)" "len = store_length (key (unat (part t)))" "no_range_flag f"
  shows "store_bound m t len k f = (if written m t then Some (1, k @ key_image key m t) else Some (0, k))"
  using stored_value_image [where v = "own_value m t" and m = m and t = t and key = key, OF assms(1-3) refl] assms(4)
  by (auto simp: store_bound_def store_min_def store_max_def written_def unbounded_def own_flag_def own_value_def no_range_flag_def)

lemma or_flag_bits: "bit (f OR ucast (g :: u8) :: u32) n \<longleftrightarrow> bit f n \<or> bit g n"
  by (auto simp: bit_simps dest: bit_imp_le_length)

lemma store_key_correct:
  assumes g: "graph_ok G key" and fl: "range_flags_ok G"
  shows "256 \<le> fuel + d \<Longrightarrow> stores m key G lp start d (store_key m fuel G key lp start)"
proof (induction fuel arbitrary: d m)
  case 0
  have "unat (part (sel G p)) < d" for p using unat_bound [of "part (sel G p)"] 0 by simp
  then show ?case unfolding stores_def by (metis not_less)
next
  case (Suc fuel)
  show ?case
    unfolding stores_def
  proof (intro allI impI)
    fix p k f assume d: "d \<le> unat (part (sel G p))" and f: "no_range_flag f"
    define t where "t = bound_node G m p"
    have part: "part t = part (sel G p)" using g by (auto simp: t_def bound_node_def graph_ok_def Let_def)
    have len: "0 < unat (store_length (key (unat (part t))))" "unat (store_length (key (unat (part t)))) \<le> length (own_value m t)"
      using g [unfolded graph_ok_def Let_def, rule_format, of "if m then sel_first G p else sel_last G p"]
      by (cases m; simp add: t_def bound_node_def own_value_def)+
    note st = store_bound_written [where m = m and t = t and key = key, OF len refl f]
    let ?f = "f OR ucast (own_flag m t) :: u32"
    let ?turn = "if m then invert_min_flag else invert_max_flag" and ?undo = "if m then invert_max_flag else invert_min_flag"
    have own: "\<not> bit (own_flag m t) (if m then 1 else 0)" "\<not> bit (own_flag m t) (if m then 3 else 2)"
      using fl unfolding range_flags_ok_def has_bits own_flag_def t_def bound_node_def by auto
    have fb: "khas ?f (if m then NO_MIN_RANGE else NO_MAX_RANGE) \<longleftrightarrow> unbounded m t"
        "khas ?f (if m then NEAR_MIN else NEAR_MAX) \<longleftrightarrow> open_end m t"
        "\<not> khas ?f (if m then NO_MAX_RANGE else NO_MIN_RANGE)" "\<not> khas ?f (if m then NEAR_MAX else NEAR_MIN)"
      using f own unfolding no_range_flag_def by (auto simp: khas_bits or_flag_bits has_bits unbounded_def open_end_def)
    have run: "store_key m (Suc fuel) G key lp start p k f = key_step (next_key_part t) (ucast (own_flag m t))
        (store_bound m t (store_length (key (unat (part t)))))
        (\<lambda>f. follows G t lp \<and> \<not> (khas f (if m then NO_MIN_RANGE else NO_MAX_RANGE) \<or> khas f (if m then NEAR_MIN else NEAR_MAX)))
        ((start = (\<not> reversed key (part t))) = m) ?turn ?undo (store_key m fuel G key lp start) (store_key (\<not> m) fuel G key lp start) k f"
      by (simp only: store_key_step t_def Let_def)
    show "\<exists>bs f'. store_key m (Suc fuel) G key lp start p k f = Some (length bs, k @ key_image_of key bs, f') \<and>
        bounds G key lp start m p bs \<and> key_flag m f bs f'"
    proof (cases "written m t")
      case False
      then have "store_key m (Suc fuel) G key lp start p k f = Some (0, k, f)" by (simp add: run key_step_def st)
      moreover have "key_flag m f [] f" using f by (auto simp: key_flag_def no_range_flag_def)
      ultimately show ?thesis using False by (intro exI [of _ "[]"] exI [of _ f]) (simp add: key_image_of_def t_def)
    next
      case w: True
      show ?thesis
      proof (cases "follows G t lp \<and> \<not> unbounded m t \<and> \<not> open_end m t")
        case False
        then have "store_key m (Suc fuel) G key lp start p k f = Some (1, k @ key_image key m t, ?f)"
          using w fb by (auto simp: run key_step_def st)
        moreover have "key_flag m f [(m, t)] ?f" using fb by (simp add: key_flag_def or_flag_bits)
        moreover have "bounds G key lp start m p [(m, t)]" using w False by (auto simp: t_def [symmetric] Let_def)
        ultimately show ?thesis by (intro exI [of _ "[(m, t)]"] exI [of _ ?f]) (simp add: key_image_of_def)
      next
        case True
        define m' where "m' = (start = (\<not> reversed key (part t)))"
        let ?q = "next_key_part t"
        have nr: "no_range_flag ?f" using fb True by (cases m) (auto simp: no_range_flag_def)
        have part': "Suc d \<le> unat (part (sel G ?q))" using True d part by (simp add: follows_def)
        have "stores m' key G lp start (Suc d) (store_key m' fuel G key lp start)" using Suc.prems by (intro Suc.IH) simp
        then obtain bs f' where r: "store_key m' fuel G key lp start ?q (k @ key_image key m t) ?f =
            Some (length bs, (k @ key_image key m t) @ key_image_of key bs, f')" "bounds G key lp start m' ?q bs" "key_flag m' ?f bs f'"
          using storesD [OF _ part' nr] by blast
        let ?r = "if m' = m then f' else ?undo f'"
        have "store_key m (Suc fuel) G key lp start p k f = Some (Suc (length bs), k @ key_image key m t @ key_image_of key bs, ?r)"
          using w fb True r(1) invert_none [OF nr] by (cases "m' = m") (auto simp: run key_step_def st m'_def [symmetric])
        moreover have "key_flag m ?f bs ?r" using r(3) key_flag_turn [of m ?f bs f'] by (cases "m' = m") auto
        then have "key_flag m f ((m, t) # bs) ?r"
          using fb True by (auto simp: key_flag_def or_flag_bits)
        moreover have "bounds G key lp start m p ((m, t) # bs)" using w True r(2) by (simp add: t_def [symmetric] Let_def m'_def)
        ultimately show ?thesis by (intro exI [of _ "(m, t) # bs"] exI [of _ ?r]) (simp add: key_image_of_def)
      qed
    qed
  qed
qed

lemma bounds_unique: "bounds G key lp start m p bs \<Longrightarrow> bounds G key lp start m p cs \<Longrightarrow> bs = cs"
proof (induction bs arbitrary: m p cs)
  case Nil
  then show ?case by (cases cs) (auto simp: Let_def)
next
  case (Cons b bs)
  then show ?case by (cases cs) (auto simp: Let_def split: if_splits)
qed

text \<open>
  C26. \<open>store_min_key\<close> and \<open>store_max_key\<close>, which call each other on the list of the next key part,
  return for every graph whose interval lists are over one key part each and whose values are as long
  as the key parts, however the lists are linked: part numbers have 8 bits and grow by one with each
  call, so 256 calls are enough. There is exactly one sequence of bounds a key is made of (\<open>bounds\<close>:
  which end of which list, according to the direction of the parts and \<open>start_key\<close>, up to the first end
  that is open or unbounded), and they append the images of just these bounds, report their number, and
  answer a flag that says whether the last one is open, turned around for each descending part on the
  way, and that collects the remaining flags. The flag starts without range bits, as in the code's
  calls for a closed interval. Inverting a flag and back loses nothing as long as only one kind of flag
  is set.
\<close>

theorem sel_arg_keys:
  assumes "graph_ok G key" "range_flags_ok G" "256 \<le> fuel" "no_range_flag f"
  shows "(\<exists>bs f'. store_min_key fuel G key lp start p k f = Some (length bs, k @ key_image_of key bs, f') \<and>
      (\<forall>cs. bounds G key lp start True p cs \<longleftrightarrow> cs = bs) \<and> key_flag True f bs f') \<and>
    (\<exists>bs f'. store_max_key fuel G key lp start p k f = Some (length bs, k @ key_image_of key bs, f') \<and>
      (\<forall>cs. bounds G key lp start False p cs \<longleftrightarrow> cs = bs) \<and> key_flag False f bs f') \<and>
    (khas g NO_MAX_RANGE \<or> khas g NEAR_MAX \<or> invert_max_flag (invert_min_flag g) = g) \<and>
    (khas g NO_MIN_RANGE \<or> khas g NEAR_MIN \<or> invert_min_flag (invert_max_flag g) = g)"
proof -
  have "\<exists>bs f'. store_key m fuel G key lp start p k f = Some (length bs, k @ key_image_of key bs, f') \<and>
      (\<forall>cs. bounds G key lp start m p cs \<longleftrightarrow> cs = bs) \<and> key_flag m f bs f'" for m
  proof -
    obtain bs f' where r: "store_key m fuel G key lp start p k f = Some (length bs, k @ key_image_of key bs, f')"
        "bounds G key lp start m p bs" "key_flag m f bs f'"
      using storesD [OF store_key_correct [OF assms(1,2), of fuel 0 m lp start] _ assms(4), of p k] assms(3) by auto
    then show ?thesis using bounds_unique [OF r(2)] by blast
  qed
  from this [of True] this [of False] show ?thesis using invert_flags [of g] unfolding store_key_def by auto
qed

text \<open>Two key parts of two bytes, the second descending: \<open>kp0 >= 3 AND kp1 <= 9\<close>.\<close>

definition sample_graph :: sel_graph where
  "sample_graph = \<lparr>sel = (\<lambda>p. if p = 1
       then \<lparr>sa_field = 0, part = 0, min_value = [3, 0], max_value = [8, 0], min_flag = 0, max_flag = 0, maybe_flag = 0,
         maybe_null = 0, elements = 1, use_count = 1, sa_next = 0, sa_prev = 0, next_key_part = 2, sa_type = KEY_RANGE\<rparr>
       else \<lparr>sa_field = 1, part = 1, min_value = [5, 0], max_value = [9, 0], min_flag = 0, max_flag = 0, maybe_flag = 0,
         maybe_null = 0, elements = 1, use_count = 1, sa_next = 0, sa_prev = 0, next_key_part = 0, sa_type = KEY_RANGE\<rparr>),
     sel_first = (\<lambda>p. p), sel_last = (\<lambda>p. p)\<rparr>"

definition sample_parts :: "nat \<Rightarrow> key_part" where
  "sample_parts i = \<lparr>store_length = 2, kp_flag = (if i = 1 then HA_REVERSE_SORT else 0)\<rparr>"

lemma sample_graph_ok: "graph_ok sample_graph sample_parts"
  by (simp add: graph_ok_def sample_graph_def sample_parts_def)

lemma sel_arg_keys_witness:
  "store_min_key 2 sample_graph sample_parts 64 True 1 [] 0 = Some (2, [3, 0, 5, 0], 0) \<and>
   store_max_key 2 sample_graph sample_parts 64 False 1 [] 0 = Some (2, [8, 0, 9, 0], 0) \<and>
   (\<exists>bs f'. store_min_key 256 sample_graph sample_parts 64 True 1 [7] 0 = Some (length bs, [7] @ key_image_of sample_parts bs, f') \<and>
      bounds sample_graph sample_parts 64 True True 1 bs)"
proof -
  have "store_min_key 2 sample_graph sample_parts 64 True 1 [] 0 = Some (2, [3, 0, 5, 0], 0)"
    "store_max_key 2 sample_graph sample_parts 64 False 1 [] 0 = Some (2, [8, 0, 9, 0], 0)"
    by code_simp+
  moreover have "range_flags_ok sample_graph" by (simp add: range_flags_ok_def sample_graph_def has_def)
  moreover have "no_range_flag 0" by (simp add: no_range_flag_def khas_def)
  ultimately show ?thesis
    using sel_arg_keys [OF sample_graph_ok, of 256 0 64 True 1 "[7]" 0] by auto
qed

subsection \<open>Comparing interval lists\<close>

fun sel_list :: "sel_graph \<Rightarrow> nat \<Rightarrow> nat list \<Rightarrow> bool" where
  "sel_list G p [] \<longleftrightarrow> p = 0"
| "sel_list G p (q # qs) \<longleftrightarrow> p = q \<and> q \<noteq> 0 \<and> sel_list G (sa_next (sel G q)) qs"

lemma same_loop_correct:
  "sel_list G p xs \<Longrightarrow> sel_list G q ys \<Longrightarrow> length xs \<le> fuel \<Longrightarrow>
    same_loop fuel cmp G p q = Some (list_all2 (\<lambda>a b. is_same cmp (sel G a) (sel G b)) xs ys)"
proof (induction xs arbitrary: p q ys fuel)
  case Nil
  then show ?case by (cases ys) (auto simp: same_loop.simps)
next
  case (Cons x xs)
  then obtain f where f: "fuel = Suc f" by (cases fuel) auto
  show ?case
  proof (cases ys)
    case Nil
    then show ?thesis using Cons.prems f by (auto simp: same_loop.simps)
  next
    case (Cons y ys')
    then show ?thesis
      using Cons.prems f Cons.IH [of "sa_next (sel G x)" "sa_next (sel G y)" ys' f] \<open>ys = y # ys'\<close> 
      by (auto simp: same_loop.simps)
  qed
qed

text \<open>Lists that \<open>all_same\<close> accepts cover the same key values.\<close>

lemma all_same_covers:
  assumes "sel_list G (sel_first G this) xs" "sel_list G (sel_first G arg) ys" "length xs \<le> fuel"
    and "sel_cmp_ok rank cmp" "\<And>p. flags_ok (sel G p) \<and> sa_type (sel G p) = KEY_RANGE"
    and "all_same fuel cmp G this arg = Some True" "arg \<noteq> this"
  shows "(\<exists>a\<in>set xs. inside rank (sel G a) x) \<longleftrightarrow> (\<exists>b\<in>set ys. inside rank (sel G b) x)"
proof -
  have "list_all2 (\<lambda>a b. is_same cmp (sel G a) (sel G b)) xs ys"
    using assms(5,6,7) same_loop_correct [OF assms(1-3), of cmp] by (simp add: all_same_def split: if_splits)
  then have "list_all2 (\<lambda>a b. inside rank (sel G a) x \<longleftrightarrow> inside rank (sel G b) x) xs ys"
    by (rule list_all2_mono) (use sel_arg_same_set [OF assms(4)] assms(5) in blast)
  then show ?thesis by (induction rule: list_all2_induct) auto
qed

end
