(* ===== verification/Histogram.thy ===== *)
theory Histogram
  imports Byte_Order "HOL-Library.Monad_Syntax" "HOL-Library.Signed_Division"
begin

text \<open>
  Engine-independent statistics, \<open>sql_statistics.h\<close>: the height-balanced histograms
  \<open>Histogram_binary\<close> with the binary search of \<open>find_bucket\<close>, the counters of
  \<open>Basic_stats_collector\<close> and the records \<open>Column_statistics\<close> and \<open>Index_statistics\<close>. A value of type
  \<open>double\<close> enters as the function \<open>scale\<close>, which multiplies it by a factor and drops the fraction;
  a conversion that does not fit the integer type is undefined, \<open>None\<close>, as is an access outside the
  values of the histogram. \<open>bucket_of\<close> is the reference of the search: a count of smaller values.
\<close>

subsection \<open>Histograms\<close>

datatype histogram_type = SINGLE_PREC_HB | DOUBLE_PREC_HB | JSON_HB | INVALID_HISTOGRAM

record histogram =
  hb_type :: histogram_type
  hb_size :: u64
  hb_values :: "u8 list"

definition prec_factor :: "histogram \<Rightarrow> u32 option" where
  "prec_factor h = (case hb_type h of
     SINGLE_PREC_HB \<Rightarrow> Some (push_bit 8 1 - 1)
   | DOUBLE_PREC_HB \<Rightarrow> Some (push_bit 16 1 - 1)
   | _ \<Rightarrow> None)"

definition get_width :: "histogram \<Rightarrow> u32 option" where
  "get_width h = (case hb_type h of
     SINGLE_PREC_HB \<Rightarrow> Some (ucast (hb_size h))
   | DOUBLE_PREC_HB \<Rightarrow> Some (ucast (hb_size h div 2))
   | _ \<Rightarrow> None)"

text \<open>The bytes \<open>values + n\<close> and \<open>values + n + 1\<close>, where they belong to the array.\<close>

definition byte_at :: "histogram \<Rightarrow> nat \<Rightarrow> u8 option" where
  "byte_at h n = guard (n < length (hb_values h)) (hb_values h ! n)"

definition pair_at :: "histogram \<Rightarrow> nat \<Rightarrow> u16 option" where
  "pair_at h n = guard (n + 2 \<le> length (hb_values h)) (uint2korr (drop n (hb_values h)))"

definition hist_value :: "histogram \<Rightarrow> u32 \<Rightarrow> u32 option" where
  "hist_value h i = do {
     w \<leftarrow> get_width h;
     guard (i < w) ();
     case hb_type h of
       SINGLE_PREC_HB \<Rightarrow> map_option ucast (byte_at h (unat i))
     | DOUBLE_PREC_HB \<Rightarrow> map_option ucast (pair_at h (unat (i * 2)))
     | _ \<Rightarrow> None }"

text \<open>The loop of \<open>find_bucket\<close>; \<open>lp\<close>, \<open>rp\<close> and \<open>d\<close> are of type \<open>int\<close>, \<open>i\<close> is unsigned.\<close>

partial_function (option) bucket_loop :: "histogram \<Rightarrow> u64 \<Rightarrow> int \<Rightarrow> int \<Rightarrow> int \<Rightarrow> u32 \<Rightarrow> u32 option" where
  "bucket_loop h val lp rp d i =
     (if d = 0 then Some i
      else do {
        v \<leftarrow> hist_value h i;
        if val = ucast v then Some i
        else if val < ucast v
        then (let rp = sint i; d = (rp - lp) sdiv 2
              in bucket_loop h val lp rp d (word_of_int (lp + d)))
        else do {
          v' \<leftarrow> hist_value h (i + 1);
          if val > ucast v'
          then (let lp = sint (i + 1); d = (rp - lp) sdiv 2
                in bucket_loop h val lp rp d (word_of_int (lp + d)))
          else Some i } })"

text \<open>The two loops over equal values.\<close>

partial_function (option) bucket_back :: "histogram \<Rightarrow> u64 \<Rightarrow> u32 \<Rightarrow> u32 option" where
  "bucket_back h val i =
     (if i = 0 then Some i
      else do {
        v \<leftarrow> hist_value h (i - 1);
        if val = ucast v then bucket_back h val (i - 1) else Some i })"

partial_function (option) bucket_forth :: "histogram \<Rightarrow> u64 \<Rightarrow> u32 \<Rightarrow> u32 \<Rightarrow> u32 option" where
  "bucket_forth h val w i =
     (if i + 1 < w
      then do {
        v \<leftarrow> hist_value h (i + 1);
        if val = ucast v then bucket_forth h val w (i + 1) else Some i }
      else Some i)"

text \<open>The conversion \<open>(size_t) (pos * prec_factor ())\<close>.\<close>

definition to_size :: "int \<Rightarrow> u64 option" where
  "to_size n = guard (0 \<le> n \<and> n < 2 ^ 64) (word_of_int n)"

definition find_bucket :: "histogram \<Rightarrow> (u32 \<Rightarrow> int) \<Rightarrow> bool \<Rightarrow> u32 option" where
  "find_bucket h scale first = do {
     f \<leftarrow> prec_factor h;
     val \<leftarrow> to_size (scale f);
     w \<leftarrow> get_width h;
     let lp = 0;
     let rp = sint (w - 1);
     let d = sint (w div 2);
     i \<leftarrow> bucket_loop h val lp rp d (word_of_int (lp + d));
     v \<leftarrow> hist_value h i;
     let i = (if val > ucast v \<and> i < w - 1 then i + 1 else i);
     v \<leftarrow> hist_value h i;
     if val = ucast v
     then if first then bucket_back h val i else bucket_forth h val w i
     else Some i }"

definition get_size :: "histogram \<Rightarrow> u32" where
  "get_size h = ucast (hb_size h)"

definition store_byte :: "histogram \<Rightarrow> nat \<Rightarrow> u8 \<Rightarrow> histogram option" where
  "store_byte h n b = guard (n < length (hb_values h)) (h\<lparr>hb_values := (hb_values h)[n := b]\<rparr>)"

definition store_pair :: "histogram \<Rightarrow> nat \<Rightarrow> u32 \<Rightarrow> histogram option" where
  "store_pair h n v = guard (n + 2 \<le> length (hb_values h))
     (h\<lparr>hb_values := take n (hb_values h) @ int2store v @ drop (n + 2) (hb_values h)\<rparr>)"

definition set_value :: "histogram \<Rightarrow> u32 \<Rightarrow> (u32 \<Rightarrow> int) \<Rightarrow> histogram option" where
  "set_value h i scale = (case hb_type h of
     SINGLE_PREC_HB \<Rightarrow> do {
       f \<leftarrow> prec_factor h;
       guard (0 \<le> scale f \<and> scale f < 2 ^ 8) ();
       store_byte h (unat i) (word_of_int (scale f)) }
   | DOUBLE_PREC_HB \<Rightarrow> do {
       f \<leftarrow> prec_factor h;
       guard (0 \<le> scale f \<and> scale f < 2 ^ 16) ();
       store_pair h (unat (i * 2)) (word_of_int (scale f)) }
   | _ \<Rightarrow> None)"

definition set_prev_value :: "histogram \<Rightarrow> u32 \<Rightarrow> histogram option" where
  "set_prev_value h i = (case hb_type h of
     SINGLE_PREC_HB \<Rightarrow> do {
       b \<leftarrow> byte_at h (unat (i - 1));
       store_byte h (unat i) b }
   | DOUBLE_PREC_HB \<Rightarrow> do {
       guard (2 \<le> unat (i * 2)) ();
       v \<leftarrow> pair_at h (unat (i * 2) - 2);
       store_pair h (unat (i * 2)) (ucast v) }
   | _ \<Rightarrow> None)"

subsection \<open>Counters\<close>

record counters =
  ct_count :: u64
  ct_distinct :: u64
  ct_single :: u64

definition counters_make :: counters where
  "counters_make = \<lparr>ct_count = 0, ct_distinct = 0, ct_single = 0\<rparr>"

definition counters_next :: "u32 \<Rightarrow> counters \<Rightarrow> counters" where
  "counters_next elem_cnt c =
     (let c = c\<lparr>ct_distinct := ct_distinct c + 1\<rparr>;
          c = (if elem_cnt = 1 then c\<lparr>ct_single := ct_single c + 1\<rparr> else c)
      in c\<lparr>ct_count := ct_count c + ucast elem_cnt\<rparr>)"

subsection \<open>Statistics on columns and indexes\<close>

datatype stat_tables_mode = NEVER | COMPLEMENTARY | PREFERABLY | COMPLEMENTARY_FOR_QUERIES | PREFERABLY_FOR_QUERIES

text \<open>\<open>use_stat_tables\<close>, a number, read as an enumerator; other numbers compare unequal to all of them.\<close>

definition get_use_stat_tables_mode :: "u32 \<Rightarrow> stat_tables_mode option" where
  "get_use_stat_tables_mode use_stat_tables =
     (if use_stat_tables < 5
      then Some ([NEVER, COMPLEMENTARY, PREFERABLY, COMPLEMENTARY_FOR_QUERIES, PREFERABLY_FOR_QUERIES]
                   ! unat use_stat_tables)
      else None)"

definition check_eits_collection_allowed :: "u32 \<Rightarrow> bool" where
  "check_eits_collection_allowed t \<longleftrightarrow>
     get_use_stat_tables_mode t = Some COMPLEMENTARY \<or> get_use_stat_tables_mode t = Some PREFERABLY"

definition check_eits_preferred :: "u32 \<Rightarrow> bool" where
  "check_eits_preferred t \<longleftrightarrow>
     get_use_stat_tables_mode t = Some PREFERABLY \<or> get_use_stat_tables_mode t = Some PREFERABLY_FOR_QUERIES"

definition is_usable :: "u32 \<Rightarrow> bool" where
  "is_usable optimizer_use_condition_selectivity \<longleftrightarrow> optimizer_use_condition_selectivity > 3"

text \<open>The columns of the table \<open>column_stats\<close>.\<close>

definition COLUMN_STAT_COLUMN_NAME :: u32 where "COLUMN_STAT_COLUMN_NAME = 2"
definition COLUMN_STAT_MIN_VALUE :: u32 where "COLUMN_STAT_MIN_VALUE = 3"
definition COLUMN_STAT_MAX_VALUE :: u32 where "COLUMN_STAT_MAX_VALUE = 4"
definition COLUMN_STAT_HISTOGRAM :: u32 where "COLUMN_STAT_HISTOGRAM = 10"

lemmas column_stat_defs = COLUMN_STAT_COLUMN_NAME_def COLUMN_STAT_MIN_VALUE_def COLUMN_STAT_MAX_VALUE_def
  COLUMN_STAT_HISTOGRAM_def

text \<open>A pointer is an address.\<close>

record column_stats =
  column_stat_nulls :: u32
  cs_min_value :: nat
  cs_max_value :: nat
  cs_nulls_ratio :: u32
  cs_avg_length :: u64
  cs_avg_frequency :: u64
  cs_histogram :: nat
  histogram_exists :: bool

definition Scale_factor :: u32 where "Scale_factor = 100000"

text \<open>\<open>1 << n\<close>, an \<open>int\<close>: undefined for a shift by its width or more.\<close>

definition stat_bit :: "u32 \<Rightarrow> u32 option" where
  "stat_bit n = guard (n < 32) (push_bit (unat n) 1)"

definition no_values_provided_bitmap :: u32 where
  "no_values_provided_bitmap =
     push_bit (unat (COLUMN_STAT_COLUMN_NAME + 1))
       (push_bit (unat (COLUMN_STAT_HISTOGRAM - COLUMN_STAT_COLUMN_NAME)) 1 - 1)"

definition set_all_nulls :: "column_stats \<Rightarrow> column_stats" where
  "set_all_nulls c = c\<lparr>column_stat_nulls := no_values_provided_bitmap\<rparr>"

definition set_not_null :: "u32 \<Rightarrow> column_stats \<Rightarrow> column_stats option" where
  "set_not_null n c = map_option (\<lambda>b. c\<lparr>column_stat_nulls := column_stat_nulls c AND NOT b\<rparr>) (stat_bit n)"

definition set_null :: "u32 \<Rightarrow> column_stats \<Rightarrow> column_stats option" where
  "set_null n c = map_option (\<lambda>b. c\<lparr>column_stat_nulls := column_stat_nulls c OR b\<rparr>) (stat_bit n)"

definition stat_is_null :: "u32 \<Rightarrow> column_stats \<Rightarrow> bool option" where
  "stat_is_null n c = map_option (\<lambda>b. column_stat_nulls c AND b \<noteq> 0) (stat_bit n)"

definition min_max_values_are_provided :: "column_stats \<Rightarrow> bool option" where
  "min_max_values_are_provided c = do {
     a \<leftarrow> stat_is_null COLUMN_STAT_MIN_VALUE c;
     if a then Some False
     else map_option Not (stat_is_null COLUMN_STAT_MAX_VALUE c) }"

definition no_stat_values_provided :: "column_stats \<Rightarrow> bool" where
  "no_stat_values_provided c \<longleftrightarrow> column_stat_nulls c = no_values_provided_bitmap"

text \<open>
  The ratios are kept as integers: \<open>scale\<close> is the product of the given value and the factor, without
  its fraction, and \<open>quot\<close> the division of two integers as numbers of type \<open>double\<close>.
\<close>

definition set_nulls_ratio :: "(u32 \<Rightarrow> int) \<Rightarrow> column_stats \<Rightarrow> column_stats option" where
  "set_nulls_ratio scale c =
     guard (0 \<le> scale Scale_factor \<and> scale Scale_factor < 2 ^ 32)
       (c\<lparr>cs_nulls_ratio := word_of_int (scale Scale_factor)\<rparr>)"

definition set_avg_length :: "(u32 \<Rightarrow> int) \<Rightarrow> column_stats \<Rightarrow> column_stats option" where
  "set_avg_length scale c =
     map_option (\<lambda>n. c\<lparr>cs_avg_length := n\<rparr>) (to_size (scale Scale_factor))"

definition set_avg_frequency :: "(u32 \<Rightarrow> int) \<Rightarrow> column_stats \<Rightarrow> column_stats option" where
  "set_avg_frequency scale c =
     map_option (\<lambda>n. c\<lparr>cs_avg_frequency := n\<rparr>) (to_size (scale Scale_factor))"

definition get_nulls_ratio :: "(u64 \<Rightarrow> u32 \<Rightarrow> 'd) \<Rightarrow> column_stats \<Rightarrow> 'd" where
  "get_nulls_ratio quot c = quot (ucast (cs_nulls_ratio c)) Scale_factor"

definition get_avg_length :: "(u64 \<Rightarrow> u32 \<Rightarrow> 'd) \<Rightarrow> column_stats \<Rightarrow> 'd" where
  "get_avg_length quot c = quot (cs_avg_length c) Scale_factor"

definition get_avg_frequency :: "(u64 \<Rightarrow> u32 \<Rightarrow> 'd) \<Rightarrow> column_stats \<Rightarrow> 'd" where
  "get_avg_frequency quot c = quot (cs_avg_frequency c) Scale_factor"

text \<open>\<open>Index_statistics\<close>: the array for the prefixes of an index, \<open>None\<close> before it is set.\<close>

type_synonym index_stats = "u64 list option"

definition init_avg_frequency :: "u64 list option \<Rightarrow> index_stats" where "init_avg_frequency ptr = ptr"

definition avg_frequency_is_inited :: "index_stats \<Rightarrow> bool" where
  "avg_frequency_is_inited s \<longleftrightarrow> s \<noteq> None"

definition get_prefix_frequency :: "(u64 \<Rightarrow> u32 \<Rightarrow> 'd) \<Rightarrow> u32 \<Rightarrow> index_stats \<Rightarrow> 'd option" where
  "get_prefix_frequency quot i s = do {
     a \<leftarrow> s;
     guard (unat i < length a) (quot (a ! unat i) Scale_factor) }"

definition set_prefix_frequency :: "(u32 \<Rightarrow> int) \<Rightarrow> u32 \<Rightarrow> index_stats \<Rightarrow> index_stats option" where
  "set_prefix_frequency scale i s = do {
     n \<leftarrow> to_size (scale Scale_factor);
     a \<leftarrow> s;
     guard (unat i < length a) (Some (a[unat i := n])) }"

subsection \<open>The search\<close>

text \<open>The values of a histogram, and the place of a value among them.\<close>

definition histogram_values :: "histogram \<Rightarrow> nat list" where
  "histogram_values h = (case get_width h of
     None \<Rightarrow> []
   | Some w \<Rightarrow> map (\<lambda>i. case hist_value h (of_nat i) of None \<Rightarrow> 0 | Some v \<Rightarrow> unat v) [0..<unat w])"

definition bucket_of :: "nat list \<Rightarrow> nat \<Rightarrow> bool \<Rightarrow> nat" where
  "bucket_of vs v first =
     (if v \<in> set vs \<and> \<not> first then length (takeWhile (\<lambda>x. x \<le> v) vs) - 1
      else min (length (takeWhile (\<lambda>x. x < v) vs)) (length vs - 1))"

text \<open>A histogram as it is filled: a binary type, an array of the declared size.\<close>

definition histogram_ok :: "histogram \<Rightarrow> bool" where
  "histogram_ok h \<longleftrightarrow> hb_type h \<in> {SINGLE_PREC_HB, DOUBLE_PREC_HB} \<and>
     length (hb_values h) = unat (hb_size h) \<and> unat (hb_size h) < 2 ^ 31"

lemma histogram_width:
  assumes "histogram_ok h"
  shows "\<exists>w. get_width h = Some w \<and> unat w < 2 ^ 31"
proof -
  have s: "unat (hb_size h) < 2 ^ 31" using assms by (simp add: histogram_ok_def)
  have "unat (ucast (hb_size h) :: u32) < 2 ^ 31"
    using s by (simp add: unsigned_ucast_eq take_bit_nat_eq_self)
  moreover have "unat (ucast (hb_size h div 2) :: u32) < 2 ^ 31"
    using s by (simp add: unsigned_ucast_eq unat_div take_bit_nat_eq_self)
  ultimately show ?thesis
    using assms by (auto simp: histogram_ok_def get_width_def)
qed

lemma histogram_value:
  assumes ok: "histogram_ok h" and w: "get_width h = Some w" and i: "i < w"
  shows "\<exists>v. hist_value h i = Some v"
proof -
  have s: "unat (hb_size h) < 2 ^ 31" "length (hb_values h) = unat (hb_size h)"
    using ok by (simp_all add: histogram_ok_def)
  show ?thesis
  proof (cases "hb_type h = SINGLE_PREC_HB")
    case True
    then have "unat w = unat (hb_size h)"
      using w s by (auto simp: get_width_def unsigned_ucast_eq take_bit_nat_eq_self)
    then show ?thesis
      using True w i s by (simp add: hist_value_def byte_at_def word_less_nat_alt)
  next
    case False
    then have d: "hb_type h = DOUBLE_PREC_HB" using ok by (auto simp: histogram_ok_def)
    then have "unat w = unat (hb_size h) div 2"
      using w s by (auto simp: get_width_def unsigned_ucast_eq unat_div take_bit_nat_eq_self)
    then have "unat i * 2 + 2 \<le> unat (hb_size h)"
      using i by (simp add: word_less_nat_alt)
    moreover have "unat (i * 2) = unat i * 2"
      using \<open>unat i * 2 + 2 \<le> unat (hb_size h)\<close> s by (simp add: unat_word_ariths)
    ultimately show ?thesis
      using d w i s by (simp add: hist_value_def pair_at_def)
  qed
qed

text \<open>What the search reads, as a list of numbers.\<close>

definition hist_reads :: "histogram \<Rightarrow> nat list \<Rightarrow> bool" where
  "hist_reads h vs \<longleftrightarrow> length vs < 2 ^ 31 \<and> get_width h = Some (of_nat (length vs)) \<and>
     (\<forall>k < length vs. vs ! k < 2 ^ 32 \<and> hist_value h (of_nat k) = Some (of_nat (vs ! k)))"

lemma hist_reads_value:
  "hist_reads h vs \<Longrightarrow> k < length vs \<Longrightarrow> hist_value h (of_nat k) = Some (of_nat (vs ! k))"
  by (simp add: hist_reads_def)

lemma hist_reads_compare:
  assumes "hist_reads h vs" "k < length vs"
  shows "val = ucast (of_nat (vs ! k) :: u32) \<longleftrightarrow> unat (val :: u64) = vs ! k"
    "val < ucast (of_nat (vs ! k) :: u32) \<longleftrightarrow> unat val < vs ! k"
    "ucast (of_nat (vs ! k) :: u32) < val \<longleftrightarrow> vs ! k < unat val"
proof -
  have "unat (ucast (of_nat (vs ! k) :: u32) :: u64) = vs ! k"
    using assms by (auto simp: hist_reads_def unsigned_ucast_eq unat_of_nat take_bit_nat_eq_self)
  then show "val = ucast (of_nat (vs ! k) :: u32) \<longleftrightarrow> unat (val :: u64) = vs ! k"
    "val < ucast (of_nat (vs ! k) :: u32) \<longleftrightarrow> unat val < vs ! k"
    "ucast (of_nat (vs ! k) :: u32) < val \<longleftrightarrow> vs ! k < unat val"
    by (simp_all add: word_unat_eq_iff word_less_nat_alt)
qed

lemma histogram_reads:
  assumes ok: "histogram_ok h"
  shows "hist_reads h (histogram_values h)"
proof -
  obtain w where w: "get_width h = Some w" "unat w < 2 ^ 31" using histogram_width [OF ok] by blast
  have len: "length (histogram_values h) = unat w" using w by (simp add: histogram_values_def)
  have "histogram_values h ! k < 2 ^ 32 \<and> hist_value h (of_nat k) = Some (of_nat (histogram_values h ! k))"
    if k: "k < unat w" for k
  proof -
    have "(of_nat k :: u32) < w"
      using k w(2) by (simp add: word_less_nat_alt unat_of_nat take_bit_nat_eq_self)
    then obtain v where v: "hist_value h (of_nat k) = Some v" using histogram_value [OF ok w(1)] by blast
    then show ?thesis
      using k w unat_bound [of v] by (simp add: histogram_values_def)
  qed
  then show ?thesis
    using w len by (simp add: hist_reads_def)
qed

lemma small_word_arith:
  assumes "k < 2 ^ 31"
  shows "sint (of_nat k :: u32) = int k" "unat (of_nat k :: u32) = k"
  using assms by (simp_all add: signed_of_nat signed_take_bit_int_eq_self unat_of_nat take_bit_nat_eq_self)

lemma half_gap: "n \<le> m \<Longrightarrow> (int m - int n) sdiv 2 = int ((m - n) div 2)"
  by (cases "m = n") (simp_all add: signed_divide_int_def sgn_if of_nat_diff zdiv_int abs_if)

text \<open>A position after the loop: at the value, or next to the first value that is not smaller.\<close>

definition bucket_near :: "nat list \<Rightarrow> nat \<Rightarrow> nat \<Rightarrow> bool" where
  "bucket_near vs v j \<longleftrightarrow> j < length vs \<and>
     (vs ! j = v \<or> (\<forall>k<j. vs ! k < v) \<and>
        (vs ! j < v \<longrightarrow> Suc j < length vs \<longrightarrow> v \<le> vs ! Suc j \<or> Suc (Suc j) = length vs))"

lemma sorted_below: "vs ! k < v" if "sorted vs" "vs ! i < v" "k \<le> i" "i < length vs" for v :: nat
  using sorted_nth_mono [OF that(1) that(3,4)] that(2) by simp

lemma bucket_loop_near:
  assumes "hist_reads h vs" "sorted vs" "a \<le> b" "b < length vs" "e \<noteq> 0 \<Longrightarrow> a + e < b"
    "e = 0 \<Longrightarrow> b \<le> Suc a" "\<forall>k<a. vs ! k < unat val" "Suc b < length vs \<Longrightarrow> unat val < vs ! b"
  shows "\<exists>j. bucket_loop h val (int a) (int b) (int e) (of_nat (a + e)) = Some (of_nat j) \<and>
           bucket_near vs (unat val) j"
  using assms
proof (induction "b - a" arbitrary: a b e rule: less_induct)
  case less
  let ?i = "a + e"
  have n: "length vs < 2 ^ 31" using less.prems(1) by (simp add: hist_reads_def)
  show ?case
  proof (cases "e = 0")
    case True
    then have "bucket_near vs (unat val) a"
      using less.prems by (auto simp: bucket_near_def le_Suc_eq)
    then show ?thesis
      using True by (auto simp: bucket_loop.simps [of h val "int a"])
  next
    case False
    then have i: "?i < b" "Suc ?i < length vs" using less.prems by auto
    note rd = hist_reads_value [OF less.prems(1)] hist_reads_compare [OF less.prems(1)]
    have next_i: "(of_nat ?i :: u32) + 1 = of_nat (Suc ?i)" by simp
    have step: "bucket_loop h val (int a) (int b) (int e) (of_nat ?i) =
        (if unat val = vs ! ?i then Some (of_nat ?i)
         else if unat val < vs ! ?i
         then bucket_loop h val (int a) (int ?i) (int (e div 2)) (of_nat (a + e div 2))
         else if unat val > vs ! Suc ?i
         then bucket_loop h val (int (Suc ?i)) (int b) (int ((b - Suc ?i) div 2)) (of_nat (Suc ?i + (b - Suc ?i) div 2))
         else Some (of_nat ?i))"
    proof -
      have g1: "(int ?i - int a) sdiv 2 = int (e div 2)" "(int b - int (Suc ?i)) sdiv 2 = int ((b - Suc ?i) div 2)"
        using half_gap [of a ?i] half_gap [of "Suc ?i" b] i by simp_all
      have g2: "sint (of_nat ?i :: u32) = int ?i" "sint (of_nat (Suc ?i) :: u32) = int (Suc ?i)"
        using i n by (intro small_word_arith; simp)+
      have g3: "word_of_int (int x + int y) = (of_nat (x + y) :: u32)" for x y by simp
      show ?thesis
        unfolding bucket_loop.simps [of h val "int a" "int b" "int e"] next_i rd(1) [OF less_trans [OF i(1) less.prems(4)]]
          rd(1) [OF i(2)] Let_def
        using False i by (simp only: rd(2-4) [of ?i val] rd(2-4) [of "Suc ?i"] g1 g2 g3 bind.bind_lunit
            of_nat_eq_0_iff if_False)
    qed
    have below: "bucket_near vs (unat val) ?i"
      if "vs ! ?i < unat val" "unat val \<le> vs ! Suc ?i"
    proof -
      have "\<forall>k<?i. vs ! k < unat val"
        using that(1) i less.prems(2) by (auto intro: sorted_below)
      then show ?thesis using that i by (simp add: bucket_near_def)
    qed
    consider "unat val = vs ! ?i" | "unat val < vs ! ?i" | "vs ! Suc ?i < unat val"
      | "vs ! ?i < unat val" "unat val \<le> vs ! Suc ?i"
      using sorted_nth_mono [OF less.prems(2), of ?i "Suc ?i"] i by linarith
    then show ?thesis
    proof cases
      case 1
      then show ?thesis using i by (simp only: step if_True) (auto simp: bucket_near_def intro!: exI [of _ ?i])
    next
      case 2
      have "\<exists>j. bucket_loop h val (int a) (int ?i) (int (e div 2)) (of_nat (a + e div 2)) = Some (of_nat j) \<and>
          bucket_near vs (unat val) j"
        using 2 i less.prems by (intro less.hyps) auto
      moreover have "unat val \<noteq> vs ! ?i" using 2 by simp
      ultimately show ?thesis using 2 by (simp only: step if_True if_False)
    next
      case 3
      then have above: "vs ! ?i < unat val"
        using sorted_nth_mono [OF less.prems(2), of ?i "Suc ?i"] i by linarith
      have "\<exists>j. bucket_loop h val (int (Suc ?i)) (int b) (int ((b - Suc ?i) div 2)) (of_nat (Suc ?i + (b - Suc ?i) div 2))
            = Some (of_nat j) \<and> bucket_near vs (unat val) j"
        using 3 above i less.prems by (intro less.hyps) (auto intro: sorted_below)
      moreover have "unat val \<noteq> vs ! ?i" "\<not> unat val < vs ! ?i" using above by simp_all
      ultimately show ?thesis using 3 by (simp only: step if_True if_False)
    next
      case 4
      then show ?thesis using below i by (simp only: step) (auto intro!: exI [of _ ?i])
    qed
  qed
qed

lemma bucket_back_least:
  assumes "hist_reads h vs" "k < length vs" "vs ! k = unat val"
  shows "\<exists>m\<le>k. bucket_back h val (of_nat k) = Some (of_nat m) \<and> vs ! m = unat val \<and>
           (m = 0 \<or> vs ! (m - 1) \<noteq> unat val)"
  using assms(2,3)
proof (induction k)
  case 0
  then show ?case by (simp add: bucket_back.simps)
next
  case (Suc k)
  have n: "length vs < 2 ^ 31" using assms(1) by (simp add: hist_reads_def)
  have nz: "(of_nat (Suc k) :: u32) \<noteq> 0"
    using Suc.prems(1) n small_word_arith(2) [of "Suc k"] by (metis less_trans nat.distinct(1) unat_0)
  have pred: "(of_nat (Suc k) :: u32) - 1 = of_nat k" by simp
  have step: "bucket_back h val (of_nat (Suc k)) =
      (if unat val = vs ! k then bucket_back h val (of_nat k) else Some (of_nat (Suc k)))"
    unfolding bucket_back.simps [of h val "of_nat (Suc k)"] pred hist_reads_value [OF assms(1) Suc_lessD [OF Suc.prems(1)]]
    using nz by (simp only: hist_reads_compare [OF assms(1) Suc_lessD [OF Suc.prems(1)]] bind.bind_lunit if_False)
  show ?case
  proof (cases "vs ! k = unat val")
    case True
    then show ?thesis using Suc.IH Suc.prems unfolding step by (auto simp del: of_nat_Suc intro: le_SucI)
  next
    case False
    then show ?thesis using Suc.prems by (auto simp: step simp del: of_nat_Suc intro!: exI [of _ "Suc k"])
  qed
qed

lemma bucket_forth_greatest:
  assumes "hist_reads h vs" "k < length vs" "vs ! k = unat val"
  shows "\<exists>m\<ge>k. bucket_forth h val (of_nat (length vs)) (of_nat k) = Some (of_nat m) \<and> m < length vs \<and>
           vs ! m = unat val \<and> (Suc m = length vs \<or> vs ! Suc m \<noteq> unat val)"
  using assms(2,3)
proof (induction "length vs - k" arbitrary: k rule: less_induct)
  case less
  have n: "length vs < 2 ^ 31" using assms(1) by (simp add: hist_reads_def)
  have succ: "(of_nat k :: u32) + 1 = of_nat (Suc k)" by simp
  have lt: "(of_nat (Suc k) :: u32) < of_nat (length vs) \<longleftrightarrow> Suc k < length vs"
    unfolding word_less_nat_alt using n less.prems(1) by (subst (1 2) small_word_arith(2)) auto
  show ?case
  proof (cases "Suc k < length vs")
    case True
    have step: "bucket_forth h val (of_nat (length vs)) (of_nat k) =
        (if unat val = vs ! Suc k then bucket_forth h val (of_nat (length vs)) (of_nat (Suc k)) else Some (of_nat k))"
      unfolding bucket_forth.simps [of h val _ "of_nat k"] succ lt hist_reads_value [OF assms(1) True]
      using True by (simp only: hist_reads_compare [OF assms(1) True] bind.bind_lunit if_True)
    show ?thesis
    proof (cases "vs ! Suc k = unat val")
      case eq: True
      have "\<exists>m\<ge>Suc k. bucket_forth h val (of_nat (length vs)) (of_nat (Suc k)) = Some (of_nat m) \<and> m < length vs \<and>
           vs ! m = unat val \<and> (Suc m = length vs \<or> vs ! Suc m \<noteq> unat val)"
        using True eq by (intro less.hyps) auto
      then show ?thesis using eq unfolding step by (auto simp del: of_nat_Suc intro: Suc_leD)
    next
      case False
      then show ?thesis using less.prems by (auto simp: step intro!: exI [of _ k])
    qed
  next
    case False
    then have "bucket_forth h val (of_nat (length vs)) (of_nat k) = Some (of_nat k)"
      unfolding bucket_forth.simps [of h val _ "of_nat k"] succ lt by simp
    then show ?thesis using less.prems False by (auto intro!: exI [of _ k])
  qed
qed

lemma length_takeWhile:
  assumes "m \<le> length xs" "\<And>k. k < m \<Longrightarrow> P (xs ! k)" "m < length xs \<Longrightarrow> \<not> P (xs ! m)"
  shows "length (takeWhile P xs) = m"
  using takeWhile_eq_take_P_nth [of m xs P] assms by auto

lemma bucket_of_first:
  assumes "sorted vs" "m < length vs" "vs ! m = v" "m = 0 \<or> vs ! (m - 1) \<noteq> v"
  shows "bucket_of vs v True = m"
proof -
  have "vs ! k < v" if "k < m" for k
  proof -
    have "vs ! k \<le> vs ! (m - 1)" "vs ! (m - 1) \<le> vs ! m" using assms(1,2) that by (auto intro: sorted_nth_mono)
    then show ?thesis using that assms(3,4) by auto
  qed
  then have "length (takeWhile (\<lambda>x. x < v) vs) = m" using assms by (intro length_takeWhile) auto
  then show ?thesis using assms(2) by (simp add: bucket_of_def)
qed

lemma bucket_of_last:
  assumes "sorted vs" "m < length vs" "vs ! m = v" "Suc m = length vs \<or> vs ! Suc m \<noteq> v"
  shows "bucket_of vs v False = m"
proof -
  have "vs ! k \<le> v" if "k < Suc m" for k
    using sorted_nth_mono [OF assms(1), of k m] that assms(2,3) by auto
  moreover have "\<not> vs ! Suc m \<le> v" if "Suc m < length vs"
    using sorted_nth_mono [OF assms(1), of m "Suc m"] that assms(3,4) by auto
  ultimately have "length (takeWhile (\<lambda>x. x \<le> v) vs) = Suc m" using assms(2) by (intro length_takeWhile) auto
  moreover have "v \<in> set vs" using assms(2,3) by auto
  ultimately show ?thesis by (simp add: bucket_of_def)
qed

lemma bucket_of_absent:
  assumes "sorted vs" "m < length vs" "vs ! m \<noteq> v" "\<forall>k<m. vs ! k < v" "v < vs ! m \<or> Suc m = length vs"
  shows "bucket_of vs v first = m"
proof -
  have "v \<notin> set vs"
  proof
    assume "v \<in> set vs"
    then obtain k where k: "k < length vs" "vs ! k = v" by (auto simp: in_set_conv_nth)
    then have "m < k" using assms(3,4) by (metis less_irrefl linorder_neqE_nat)
    then show False using k assms(5) sorted_nth_mono [OF assms(1), of m k] by auto
  qed
  moreover have "min (length (takeWhile (\<lambda>x. x < v) vs)) (length vs - 1) = m"
  proof (cases "v < vs ! m")
    case True
    then have "length (takeWhile (\<lambda>x. x < v) vs) = m" using assms by (intro length_takeWhile) auto
    then show ?thesis using assms(2) by simp
  next
    case False
    have "vs ! k < v" if "k < Suc m" for k using False assms(3,4) that by (cases "k = m") auto
    then have "length (takeWhile (\<lambda>x. x < v) vs) = Suc m"
      using False assms(2,5) by (intro length_takeWhile) auto
    then show ?thesis using False assms(5) by auto
  qed
  ultimately show ?thesis by (simp add: bucket_of_def)
qed

lemma bucket_loop_two:
  assumes r: "hist_reads h vs" and n: "length vs = 2" and le: "unat val \<le> vs ! 1"
  shows "\<exists>j. bucket_loop h val 0 1 1 1 = Some (of_nat j) \<and> bucket_near vs (unat val) j"
proof -
  have v: "hist_value h 1 = Some (of_nat (vs ! 1))" using hist_reads_value [OF r, of 1] n by simp
  have "val = ucast (of_nat (vs ! 1) :: u32) \<longleftrightarrow> unat val = vs ! 1"
    "val < ucast (of_nat (vs ! 1) :: u32) \<longleftrightarrow> unat val < vs ! 1"
    using hist_reads_compare [OF r, of 1 val] n by simp_all
  then have "bucket_loop h val 0 1 1 1 = Some (of_nat (if unat val = vs ! 1 then 1 else 0))"
    using le by (subst bucket_loop.simps) (auto simp: v Let_def signed_divide_int_def bucket_loop.simps [of h val 0 _ 0])
  moreover have "bucket_near vs (unat val) (if unat val = vs ! 1 then 1 else 0)"
    using n le by (simp add: bucket_near_def)
  ultimately show ?thesis by blast
qed

lemma find_bucket_rank:
  assumes r: "hist_reads h vs" and s: "sorted vs" and n: "vs \<noteq> []" "length vs = 2 \<Longrightarrow> unat val \<le> vs ! 1"
    and f: "prec_factor h = Some f" and val: "to_size (scale f) = Some val"
  shows "find_bucket h scale first = Some (of_nat (bucket_of vs (unat val) first))"
proof -
  let ?n = "length vs" and ?v = "unat val"
  have len: "?n < 2 ^ 31" "get_width h = Some (of_nat ?n)" using r by (simp_all add: hist_reads_def)
  have pos: "0 < ?n" using n by simp
  have w1: "(of_nat ?n :: u32) - 1 = of_nat (?n - 1)" by (cases vs) (use pos in simp_all)
  have w2: "(of_nat ?n :: u32) div 2 = of_nat (?n div 2)"
    using len(1) by (simp add: word_unat_eq_iff unat_div small_word_arith unat_of_nat take_bit_nat_eq_self)
  have ends: "sint (of_nat (?n - 1) :: u32) = int (?n - 1)" "sint (of_nat (?n div 2) :: u32) = int (?n div 2)"
    using len(1) by (intro small_word_arith; simp)+
  have "\<exists>j. bucket_loop h val (int 0) (int (?n - 1)) (int (?n div 2)) (of_nat (0 + ?n div 2)) = Some (of_nat j) \<and>
          bucket_near vs ?v j"
  proof (cases "?n = 2")
    case True
    then show ?thesis using bucket_loop_two [OF r True n(2) [OF True]] by simp
  next
    case False
    then show ?thesis using r s pos by (intro bucket_loop_near) auto
  qed
  then obtain j where loop: "bucket_loop h val 0 (int (?n - 1)) (int (?n div 2)) (word_of_int (0 + int (?n div 2)))
        = Some (of_nat j)" and near: "bucket_near vs ?v j"
    by auto
  have j: "j < ?n" using near by (simp add: bucket_near_def)
  define m where "m = (if vs ! j < ?v \<and> j < ?n - 1 then Suc j else j)"
  have m: "m < ?n" "vs ! m = ?v \<or> (\<forall>k<m. vs ! k < ?v) \<and> (?v < vs ! m \<or> Suc m = ?n)"
    using near j by (auto simp: m_def bucket_near_def less_Suc_eq)
  have lt: "(of_nat j :: u32) < of_nat (?n - 1) \<longleftrightarrow> j < ?n - 1"
    unfolding word_less_nat_alt using len(1) j by (subst (1 2) small_word_arith(2)) auto
  have mv: "(if val > ucast (of_nat (vs ! j) :: u32) \<and> (of_nat j :: u32) < of_nat (?n - 1)
        then (of_nat j :: u32) + 1 else of_nat j) = of_nat m"
    unfolding lt by (simp add: m_def hist_reads_compare [OF r j])
  have find: "find_bucket h scale first =
      (if ?v = vs ! m then if first then bucket_back h val (of_nat m) else bucket_forth h val (of_nat ?n) (of_nat m)
       else Some (of_nat m))"
    unfolding find_bucket_def Let_def f val len(2) bind.bind_lunit w1 w2 ends loop hist_reads_value [OF r j] mv
      hist_reads_value [OF r m(1)] hist_reads_compare [OF r m(1)] ..
  show ?thesis
  proof (cases "vs ! m = ?v")
    case True
    show ?thesis
    proof (cases first)
      case f: True
      obtain l where "l \<le> m" "bucket_back h val (of_nat m) = Some (of_nat l)" "vs ! l = ?v"
          "l = 0 \<or> vs ! (l - 1) \<noteq> ?v"
        using bucket_back_least [OF r m(1) True] by blast
      moreover from this have "bucket_of vs ?v True = l" using m(1) by (intro bucket_of_first [OF s]) auto
      ultimately show ?thesis unfolding find using f True by simp
    next
      case f: False
      obtain l where "l < ?n" "bucket_forth h val (of_nat ?n) (of_nat m) = Some (of_nat l)" "vs ! l = ?v"
          "Suc l = ?n \<or> vs ! Suc l \<noteq> ?v"
        using bucket_forth_greatest [OF r m(1) True] by blast
      moreover from this have "bucket_of vs ?v False = l" by (intro bucket_of_last [OF s]) auto
      ultimately show ?thesis unfolding find using f True by simp
    qed
  next
    case False
    then show ?thesis using m bucket_of_absent [OF s m(1) False] by (simp add: find)
  qed
qed

lemma find_bucket_width_two:
  assumes "hist_reads h vs" "sorted vs" "length vs = 2"
    and "prec_factor h = Some f" and "to_size (scale f) = Some val" and "vs ! 1 < unat val"
  shows "find_bucket h scale first = None"
proof -
  have w: "get_width h = Some 2" using assms(1,3) by (simp add: hist_reads_def)
  have v: "hist_value h 1 = Some (of_nat (vs ! 1))" using hist_reads_value [OF assms(1), of 1] assms(3) by simp
  have "\<not> val \<le> ucast (of_nat (vs ! 1) :: u32)" using hist_reads_compare(3) [OF assms(1), of 1 val] assms(3,6) by simp
  moreover have "hist_value h 2 = None" using w by (simp add: hist_value_def)
  ultimately have "bucket_loop h val 0 1 1 1 = None"
    using v by (subst bucket_loop.simps) auto
  then show ?thesis using w assms(4,5) by (simp add: find_bucket_def)
qed

subsection \<open>Filling a histogram\<close>

lemma widen_value: "unat (ucast (b :: u8) :: u32) = unat b" "unat (ucast (v :: u16) :: u32) = unat v"
  using unat_bound [of b] unat_bound [of v] by (simp_all add: unsigned_ucast_eq take_bit_nat_eq_self)

lemma single_values:
  assumes "histogram_ok h" "hb_type h = SINGLE_PREC_HB"
  shows "get_width h = Some (of_nat (length (hb_values h)))" "histogram_values h = map unat (hb_values h)"
proof -
  have s: "unat (hb_size h) < 2 ^ 31" "length (hb_values h) = unat (hb_size h)"
    using assms by (simp_all add: histogram_ok_def)
  show w: "get_width h = Some (of_nat (length (hb_values h)))"
    using assms(2) s by (simp add: get_width_def word_unat_eq_iff unsigned_ucast_eq unat_of_nat)
  have u: "unat (of_nat k :: u32) = k" if "k < length (hb_values h)" for k
    using that s by (intro small_word_arith) simp
  have "hist_value h (of_nat k) = Some (ucast (hb_values h ! k))" if "k < length (hb_values h)" for k
    using that s assms(2) w u [OF that] small_word_arith(2) [of "length (hb_values h)"]
    by (simp add: hist_value_def byte_at_def word_less_nat_alt)
  then show "histogram_values h = map unat (hb_values h)"
    using w s small_word_arith(2) [of "length (hb_values h)"]
    by (intro nth_equalityI) (simp_all add: histogram_values_def widen_value)
qed

lemma double_values:
  assumes "histogram_ok h" "hb_type h = DOUBLE_PREC_HB"
  shows "get_width h = Some (of_nat (length (hb_values h) div 2))"
    "histogram_values h = map (\<lambda>k. unat (uint2korr (drop (2 * k) (hb_values h)))) [0..<length (hb_values h) div 2]"
proof -
  let ?n = "length (hb_values h) div 2"
  have s: "unat (hb_size h) < 2 ^ 31" "length (hb_values h) = unat (hb_size h)"
    using assms by (simp_all add: histogram_ok_def)
  show w: "get_width h = Some (of_nat ?n)"
    using assms(2) s
    by (simp add: get_width_def word_unat_eq_iff unsigned_ucast_eq unat_of_nat unat_div take_bit_nat_eq_self)
  have n: "unat (of_nat ?n :: u32) = ?n" using s by (intro small_word_arith) simp
  have "hist_value h (of_nat k) = Some (ucast (uint2korr (drop (2 * k) (hb_values h))))" if k: "k < ?n" for k
  proof -
    have "(of_nat k :: u32) * 2 = of_nat (2 * k)" by simp
    moreover have "unat (of_nat (2 * k) :: u32) = 2 * k" "unat (of_nat k :: u32) = k"
      using k s by (intro small_word_arith; simp)+
    ultimately show ?thesis
      using k w n assms(2) by (simp add: hist_value_def pair_at_def word_less_nat_alt del: of_nat_mult)
  qed
  then show "histogram_values h = map (\<lambda>k. unat (uint2korr (drop (2 * k) (hb_values h)))) [0..<?n]"
    using w n by (simp add: histogram_values_def widen_value)
qed

lemma int2store_reads: "uint2korr (int2store v @ bs) = ucast v" "length (int2store v) = 2"
proof -
  have "uint2korr (int2store v @ bs) = le_word (le_bytes 2 (ucast v :: u16))"
    by (subst le_reads) (simp_all add: int2store_def)
  then show "uint2korr (int2store v @ bs) = ucast v"
    using take_bit_word_eq_self [of 16 "ucast v :: u16"] by (simp add: le_word_le_bytes)
qed (simp add: le_stores)

lemma store_byte_values:
  assumes "histogram_ok h" "hb_type h = SINGLE_PREC_HB" "k < length (hb_values h)"
  shows "\<exists>h'. store_byte h k b = Some h' \<and> histogram_ok h' \<and> hb_type h' = hb_type h \<and>
           hb_size h' = hb_size h \<and> histogram_values h' = (histogram_values h)[k := unat b]"
proof -
  let ?h = "h\<lparr>hb_values := (hb_values h)[k := b]\<rparr>"
  have "histogram_ok ?h" "hb_type ?h = SINGLE_PREC_HB" using assms by (simp_all add: histogram_ok_def)
  then have "histogram_values ?h = map unat ((hb_values h)[k := b])" by (simp add: single_values(2))
  then show ?thesis
    using assms single_values(2) [OF assms(1,2)]
    by (intro exI [of _ ?h]) (simp add: store_byte_def histogram_ok_def map_update)
qed

lemma store_pair_values:
  assumes "histogram_ok h" "hb_type h = DOUBLE_PREC_HB" "k < length (hb_values h) div 2"
  shows "\<exists>h'. store_pair h (2 * k) v = Some h' \<and> histogram_ok h' \<and> hb_type h' = hb_type h \<and>
           hb_size h' = hb_size h \<and> histogram_values h' = (histogram_values h)[k := unat (ucast v :: u16)]"
proof -
  let ?b = "hb_values h"
  let ?c = "take (2 * k) ?b @ int2store v @ drop (2 * k + 2) ?b"
  let ?h = "h\<lparr>hb_values := ?c\<rparr>"
  have len: "length ?c = length ?b" using assms(3) by (simp add: int2store_reads(2))
  have ok: "histogram_ok ?h" "hb_type ?h = DOUBLE_PREC_HB"
    using assms(1,2) len by (simp_all add: histogram_ok_def)
  have "unat (uint2korr (drop (2 * i) ?c)) =
      (if i = k then unat (ucast v :: u16) else unat (uint2korr (drop (2 * i) ?b)))" if i: "i < length ?b div 2" for i
  proof -
    consider "i < k" | "i = k" | "k < i" by linarith
    then show ?thesis
    proof cases
      case 1
      have "take 2 (drop (2 * i) ?c) = take 2 (drop (2 * i) ?b)"
        using 1 assms(3) by (intro nth_equalityI) (auto simp: nth_append)
      then show ?thesis using 1 i len by (simp add: le_reads)
    next
      case 2
      then show ?thesis using assms(3) by (simp add: int2store_reads)
    next
      case 3
      then obtain j where "i = Suc (k + j)" using less_iff_Suc_add by blast
      then have "drop (2 * i) ?c = drop (2 * i) ?b"
        using assms(3) by (simp add: int2store_reads(2) algebra_simps)
      then show ?thesis using 3 by simp
    qed
  qed
  then have "histogram_values ?h = (histogram_values h)[k := unat (ucast v :: u16)]"
    using double_values(2) [OF ok] double_values(2) [OF assms(1,2)] len
    by (intro nth_equalityI) (simp_all add: nth_list_update)
  then show ?thesis
    using ok assms(2,3) by (intro exI [of _ ?h]) (simp add: store_pair_def)
qed

lemma values_length:
  assumes "histogram_ok h"
  shows "length (histogram_values h) =
    (if hb_type h = SINGLE_PREC_HB then length (hb_values h) else length (hb_values h) div 2)"
proof (cases "hb_type h = SINGLE_PREC_HB")
  case True
  then show ?thesis using single_values(2) [OF assms] by simp
next
  case False
  then have "hb_type h = DOUBLE_PREC_HB" using assms by (auto simp: histogram_ok_def)
  then show ?thesis using double_values(2) [OF assms] by simp
qed

lemma doubled_index:
  assumes "histogram_ok h" "unat (i :: u32) < length (hb_values h) div 2"
  shows "unat (i * 2) = 2 * unat i"
proof -
  have "2 * unat i \<le> unat (hb_size h)" "unat (hb_size h) < 2 ^ 31" using assms by (auto simp: histogram_ok_def)
  then have "2 * unat i < 2 ^ 32" by simp
  then show ?thesis by (simp add: unat_word_ariths mult.commute)
qed

lemma set_value_stores:
  assumes ok: "histogram_ok h" and i: "unat i < length (histogram_values h)"
    and f: "prec_factor h = Some f" and sc: "0 \<le> scale f" "scale f \<le> uint f"
  shows "\<exists>h'. set_value h i scale = Some h' \<and> histogram_ok h' \<and> hb_type h' = hb_type h \<and> hb_size h' = hb_size h \<and>
           histogram_values h' = (histogram_values h)[unat i := nat (scale f)]"
proof (cases "hb_type h = SINGLE_PREC_HB")
  case True
  then have "f = 255" using f by (simp add: prec_factor_def)
  then have "scale f < 2 ^ 8" using sc by simp
  then have "set_value h i scale = store_byte h (unat i) (word_of_int (scale f))"
    "unat (word_of_int (scale f) :: u8) = nat (scale f)"
    using True f sc by (simp_all add: set_value_def unsigned_of_int take_bit_int_eq_self)
  then show ?thesis
    using store_byte_values [OF ok True, of "unat i" "word_of_int (scale f)"] i values_length [OF ok] True by simp
next
  case False
  then have d: "hb_type h = DOUBLE_PREC_HB" using ok by (auto simp: histogram_ok_def)
  have "f = 65535" using f d by (simp add: prec_factor_def)
  then have "scale f < 2 ^ 16" using sc by simp
  moreover have "unat (i * 2) = 2 * unat i" using i values_length [OF ok] d by (intro doubled_index [OF ok]) simp
  ultimately have "set_value h i scale = store_pair h (2 * unat i) (word_of_int (scale f))"
    "unat (ucast (word_of_int (scale f) :: u32) :: u16) = nat (scale f)"
    using d f sc by (simp_all add: set_value_def unsigned_of_int unsigned_ucast_eq take_bit_int_eq_self
        take_bit_nat_eq_self nat_less_iff)
  then show ?thesis
    using store_pair_values [OF ok d, of "unat i" "word_of_int (scale f)"] i values_length [OF ok] d by simp
qed

lemma set_prev_value_copies:
  assumes ok: "histogram_ok h" and i: "0 < i" "unat i < length (histogram_values h)"
  shows "\<exists>h'. set_prev_value h i = Some h' \<and> histogram_ok h' \<and> hb_type h' = hb_type h \<and> hb_size h' = hb_size h \<and>
           histogram_values h' = (histogram_values h)[unat i := histogram_values h ! (unat i - 1)]"
proof -
  have p: "unat (i - 1) = unat i - 1" using i(1) by (simp add: unat_minus_one word_gt_0)
  have i0: "0 < unat i" using i(1) by (simp add: word_less_nat_alt)
  show ?thesis
  proof (cases "hb_type h = SINGLE_PREC_HB")
    case True
    then have len: "unat i < length (hb_values h)" using i(2) values_length [OF ok] by simp
    then have "set_prev_value h i = store_byte h (unat i) (hb_values h ! (unat i - 1))"
      "histogram_values h ! (unat i - 1) = unat (hb_values h ! (unat i - 1))"
      using True p len less_imp_diff_less [OF len, of 1]
      by (simp_all add: set_prev_value_def byte_at_def single_values(2) [OF ok])
    then show ?thesis
      using store_byte_values [OF ok True len, of "hb_values h ! (unat i - 1)"] by simp
  next
    case False
    then have d: "hb_type h = DOUBLE_PREC_HB" using ok by (auto simp: histogram_ok_def)
    then have len: "unat i < length (hb_values h) div 2" using i(2) values_length [OF ok] by simp
    let ?v = "uint2korr (drop (2 * (unat i - 1)) (hb_values h))"
    obtain k where k: "unat i = Suc k" using i0 by (cases "unat i") simp_all
    then have "Suc (Suc (2 * k)) \<le> length (hb_values h)" using len by simp
    with k have "set_prev_value h i = store_pair h (2 * unat i) (ucast ?v)"
      "histogram_values h ! (unat i - 1) = unat ?v"
      using d len doubled_index [OF ok len]
      by (simp_all add: set_prev_value_def pair_at_def double_values(2) [OF ok])
    then show ?thesis
      using store_pair_values [OF ok d len, of "ucast ?v"] by simp
  qed
qed

lemma bucket_of_bound: "vs \<noteq> [] \<Longrightarrow> bucket_of vs v first < length vs"
  using length_takeWhile_le [of "\<lambda>x. x \<le> v" "tl vs"] by (cases vs) (auto simp: bucket_of_def min_def)

subsection \<open>Counters and columns\<close>

lemma counters_run:
  "fold counters_next ns c = \<lparr>ct_count = ct_count c + sum_list (map ucast ns),
     ct_distinct = ct_distinct c + of_nat (length ns),
     ct_single = ct_single c + of_nat (length (filter (\<lambda>n. n = 1) ns))\<rparr>"
  by (induction ns arbitrary: c) (simp_all add: counters_next_def Let_def)

lemma stat_bits:
  assumes "n < 32"
  shows "stat_is_null n c = Some (bit (column_stat_nulls c) (unat n))"
    "\<exists>c'. set_null n c = Some c' \<and> (\<forall>m. bit (column_stat_nulls c') m \<longleftrightarrow> m = unat n \<or> bit (column_stat_nulls c) m)"
    "\<exists>c'. set_not_null n c = Some c' \<and> (\<forall>m. bit (column_stat_nulls c') m \<longleftrightarrow> m \<noteq> unat n \<and> bit (column_stat_nulls c) m)"
proof -
  have n: "unat n < 32" using assms by (simp add: word_less_nat_alt)
  have b: "stat_bit n = Some (push_bit (unat n) 1)" using assms by (simp add: stat_bit_def)
  have "column_stat_nulls c AND push_bit (unat n) 1 \<noteq> 0 \<longleftrightarrow> bit (column_stat_nulls c) (unat n)"
    using n by (auto simp: bit_eq_iff [where 'a = u32] bit_and_iff bit_exp_iff dest: word_bit_bound)
  then show "stat_is_null n c = Some (bit (column_stat_nulls c) (unat n))" using b by (simp add: stat_is_null_def)
  show "\<exists>c'. set_null n c = Some c' \<and> (\<forall>m. bit (column_stat_nulls c') m \<longleftrightarrow> m = unat n \<or> bit (column_stat_nulls c) m)"
    using b n by (auto simp: set_null_def bit_simps bit_one_shift)
  show "\<exists>c'. set_not_null n c = Some c' \<and> (\<forall>m. bit (column_stat_nulls c') m \<longleftrightarrow> m \<noteq> unat n \<and> bit (column_stat_nulls c) m)"
    using b n by (auto simp: set_not_null_def bit_simps bit_one_shift dest: word_bit_bound)
qed

lemma provided_bits: "bit no_values_provided_bitmap m \<longleftrightarrow> 3 \<le> m \<and> m \<le> 10"
proof -
  have b: "no_values_provided_bitmap = push_bit 3 (mask 8)"
    by (simp add: no_values_provided_bitmap_def column_stat_defs mask_eq_exp_minus_1 push_bit_eq_mult)
  show ?thesis unfolding b by (auto simp: bit_push_bit_iff bit_mask_iff)
qed

text \<open>
  C12. On the values of a histogram in ascending order, \<open>find_bucket\<close> returns what counting gives: the
  number of values below the position, or the last bucket if there is none above; when the position
  occurs among the values, the first or the last bucket with that value, as asked. The exception is a
  histogram of two buckets: a position above its second value makes the search read a third value.
\<close>

theorem find_bucket_counts:
  assumes "histogram_ok h" "sorted (histogram_values h)" "histogram_values h \<noteq> []"
    and "prec_factor h = Some f" "0 \<le> scale f" "scale f < 2 ^ 64"
  shows "bucket_of (histogram_values h) (nat (scale f)) first < length (histogram_values h) \<and>
    find_bucket h scale first =
      (if length (histogram_values h) = 2 \<and> histogram_values h ! 1 < nat (scale f) then None
       else Some (of_nat (bucket_of (histogram_values h) (nat (scale f)) first)))"
proof -
  have val: "to_size (scale f) = Some (word_of_int (scale f))" "unat (word_of_int (scale f) :: u64) = nat (scale f)"
    using assms(5,6) by (simp_all add: to_size_def unsigned_of_int take_bit_int_eq_self)
  note r = histogram_reads [OF assms(1)]
  show ?thesis
  proof (cases "length (histogram_values h) = 2 \<and> histogram_values h ! 1 < nat (scale f)")
    case True
    then show ?thesis
      using find_bucket_width_two [where scale = scale, OF r assms(2) _ assms(4) val(1)] bucket_of_bound [OF assms(3)]
      by (simp add: val(2))
  next
    case False
    then have "length (histogram_values h) = 2 \<Longrightarrow> unat (word_of_int (scale f) :: u64) \<le> histogram_values h ! 1"
      by (simp add: val(2))
    from find_bucket_rank [where scale = scale, OF r assms(2,3) this assms(4) val(1)]
    show ?thesis using False bucket_of_bound [OF assms(3)] by (simp only: val(2) if_False simp_thms)
  qed
qed

lemma find_bucket_counts_witness:
  "find_bucket \<lparr>hb_type = SINGLE_PREC_HB, hb_size = 5, hb_values = [10, 20, 20, 20, 90]\<rparr> (\<lambda>f. 20) True = Some 1 \<and>
   find_bucket \<lparr>hb_type = SINGLE_PREC_HB, hb_size = 5, hb_values = [10, 20, 20, 20, 90]\<rparr> (\<lambda>f. 20) False = Some 3 \<and>
   find_bucket \<lparr>hb_type = SINGLE_PREC_HB, hb_size = 2, hb_values = [10, 20]\<rparr> (\<lambda>f. int (unat f)) True = None"
  (is "find_bucket ?h _ _ = _ \<and> _ \<and> find_bucket ?g _ _ = _")
proof -
  have h: "histogram_ok ?h" and g: "histogram_ok ?g" by (simp_all add: histogram_ok_def)
  have vh: "histogram_values ?h = [10, 20, 20, 20, 90]" and vg: "histogram_values ?g = [10, 20]"
    using single_values(2) [OF h] single_values(2) [OF g] by simp_all
  have f: "prec_factor ?h = Some 255" "prec_factor ?g = Some 255" by (simp_all add: prec_factor_def)
  show ?thesis
    using find_bucket_counts [OF h, of 255 "\<lambda>f. 20" True] find_bucket_counts [OF h, of 255 "\<lambda>f. 20" False]
      find_bucket_counts [OF g, of 255 "\<lambda>f. int (unat f)"] f
    by (simp add: vh vg bucket_of_def)
qed

text \<open>Filling a histogram: \<open>set_value\<close> stores the scaled value in its bucket, \<open>set_prev_value\<close> copies the
  value of the bucket before it, and neither changes another bucket or the size; what was stored is what
  the search reads, in both precisions.\<close>

lemma histogram_filling:
  assumes "histogram_ok h" "unat i < length (histogram_values h)"
    and "prec_factor h = Some f" "0 \<le> scale f" "scale f \<le> uint f"
  shows "\<exists>h'. set_value h i scale = Some h' \<and> histogram_ok h' \<and> get_width h' = get_width h \<and> get_size h' = get_size h \<and>
      histogram_values h' = (histogram_values h)[unat i := nat (scale f)] \<and>
      hist_value h' i = Some (word_of_int (scale f)) \<and>
      (i = 0 \<or> (\<exists>k. set_prev_value h' i = Some k \<and> histogram_ok k \<and> get_width k = get_width h \<and>
         histogram_values k = (histogram_values h)[unat i := histogram_values h ! (unat i - 1)]))"
proof -
  obtain h' where h': "set_value h i scale = Some h'" "histogram_ok h'" "hb_type h' = hb_type h" "hb_size h' = hb_size h"
      "histogram_values h' = (histogram_values h)[unat i := nat (scale f)]"
    using set_value_stores [where scale = scale, OF assms] by blast
  have "hist_value h' (of_nat (unat i)) = Some (of_nat (histogram_values h' ! unat i))"
    using assms(2) h'(5) by (intro hist_reads_value [OF histogram_reads [OF h'(2)]]) simp
  then have g: "hist_value h' i = Some (word_of_int (scale f))" using assms(2,4) h'(5) by simp
  have w: "get_width x = get_width h" "get_size x = get_size h" if "hb_type x = hb_type h" "hb_size x = hb_size h" for x
    using that by (auto simp: get_width_def get_size_def split: histogram_type.split)
  have "\<exists>k. set_prev_value h' i = Some k \<and> histogram_ok k \<and> get_width k = get_width h \<and>
      histogram_values k = (histogram_values h)[unat i := histogram_values h ! (unat i - 1)]" if "i \<noteq> 0"
  proof -
    have i: "0 < i" "unat i < length (histogram_values h')" using that assms(2) h'(5) by (simp_all add: word_gt_0)
    have ne: "unat i \<noteq> unat i - 1" using i(1) by (simp add: word_less_nat_alt)
    obtain k where k: "set_prev_value h' i = Some k" "histogram_ok k" "hb_type k = hb_type h'" "hb_size k = hb_size h'"
        "histogram_values k = (histogram_values h')[unat i := histogram_values h' ! (unat i - 1)]"
      using set_prev_value_copies [OF h'(2) i] by blast
    have "get_width k = get_width h" using k(3,4) h'(3,4) by (intro w) simp_all
    moreover have "histogram_values k = (histogram_values h)[unat i := histogram_values h ! (unat i - 1)]"
      using ne by (simp add: k(5) h'(5))
    ultimately show ?thesis using k(1,2) by blast
  qed
  then show ?thesis using h' g w by blast
qed

lemma histogram_filling_witness:
  "\<exists>h'. set_value \<lparr>hb_type = DOUBLE_PREC_HB, hb_size = 4, hb_values = [1, 0, 2, 0]\<rparr> 1 (\<lambda>f. 300) = Some h' \<and>
     hist_value h' 1 = Some 300"
proof -
  let ?h = "\<lparr>hb_type = DOUBLE_PREC_HB, hb_size = 4, hb_values = [1, 0, 2, 0]\<rparr>"
  have h: "histogram_ok ?h" by (simp add: histogram_ok_def)
  have "length (histogram_values ?h) = 2" by (simp add: values_length [OF h])
  moreover have "prec_factor ?h = Some 65535" by (simp add: prec_factor_def)
  ultimately show ?thesis
    using histogram_filling [OF h, of 1 65535 "\<lambda>f. 300"] by auto
qed

text \<open>The counters count what they are given, and the bitmap of a column is the set of its unknown
  statistics: \<open>set_null\<close> adds and \<open>set_not_null\<close> removes one number, \<open>set_all_nulls\<close> makes it the columns from
  \<open>min_value\<close> to \<open>histogram\<close>, and then nothing is provided until one of these is removed.\<close>

lemma statistics_bookkeeping:
  assumes "n < 32"
  shows "stat_is_null n c = Some (bit (column_stat_nulls c) (unat n)) \<and>
    (\<exists>c'. set_null n c = Some c' \<and>
       (\<forall>m. bit (column_stat_nulls c') m \<longleftrightarrow> m = unat n \<or> bit (column_stat_nulls c) m)) \<and>
    (\<exists>c'. set_not_null n c = Some c' \<and>
       (\<forall>m. bit (column_stat_nulls c') m \<longleftrightarrow> m \<noteq> unat n \<and> bit (column_stat_nulls c) m)) \<and>
    (no_stat_values_provided c \<longleftrightarrow> (\<forall>m. bit (column_stat_nulls c) m \<longleftrightarrow> 3 \<le> m \<and> m \<le> 10)) \<and>
    no_stat_values_provided (set_all_nulls c) \<and>
    min_max_values_are_provided c = Some (\<not> bit (column_stat_nulls c) 3 \<and> \<not> bit (column_stat_nulls c) 4) \<and>
    (\<exists>c'. set_not_null n (set_all_nulls c) = Some c' \<and>
       (no_stat_values_provided c' \<longleftrightarrow> n \<notin> {COLUMN_STAT_MIN_VALUE..COLUMN_STAT_HISTOGRAM})) \<and>
    fold counters_next ns counters_make = \<lparr>ct_count = sum_list (map ucast ns),
      ct_distinct = of_nat (length ns), ct_single = of_nat (length (filter (\<lambda>n. n = 1) ns))\<rparr>"
proof -
  have none: "no_stat_values_provided d \<longleftrightarrow> (\<forall>m. bit (column_stat_nulls d) m \<longleftrightarrow> 3 \<le> m \<and> m \<le> 10)" for d
    unfolding no_stat_values_provided_def provided_bits [symmetric] by (auto intro: bit_word_eqI)
  have all: "no_stat_values_provided (set_all_nulls c)" "column_stat_nulls (set_all_nulls c) = no_values_provided_bitmap"
    by (simp_all add: no_stat_values_provided_def set_all_nulls_def)
  have mm: "min_max_values_are_provided c = Some (\<not> bit (column_stat_nulls c) 3 \<and> \<not> bit (column_stat_nulls c) 4)"
    using stat_bits(1) [of 3 c] stat_bits(1) [of 4 c] by (simp add: min_max_values_are_provided_def column_stat_defs)
  obtain c' where c': "set_not_null n (set_all_nulls c) = Some c'"
      "\<And>m. bit (column_stat_nulls c') m \<longleftrightarrow> m \<noteq> unat n \<and> 3 \<le> m \<and> m \<le> 10"
    using stat_bits(3) [OF assms, of "set_all_nulls c"] by (auto simp: all(2) provided_bits)
  have "n \<in> {COLUMN_STAT_MIN_VALUE..COLUMN_STAT_HISTOGRAM} \<longleftrightarrow> 3 \<le> unat n \<and> unat n \<le> 10"
    by (simp add: column_stat_defs word_le_nat_alt)
  then have "no_stat_values_provided c' \<longleftrightarrow> n \<notin> {COLUMN_STAT_MIN_VALUE..COLUMN_STAT_HISTOGRAM}"
    by (auto simp: none c'(2))
  then show ?thesis
    using stat_bits [OF assms, of c] none all(1) mm c'(1) counters_run [of ns counters_make]
    by (simp add: counters_make_def)
qed

end
