(* ===== verification/Async_State.thy ===== *)
theory Async_State
  imports Prelude
begin

text \<open>
  Pending asynchronous operations of a connection, \<open>thd_async_state\<close> of \<open>sql_class.h\<close>. The thread that
  executes the connection starts operations and waits for them, or leaves the connection suspended; the
  operations end in other threads. The sections under \<open>m_mtx\<close> are functions on the state;
  \<open>dec_pending_ops\<close> is cut into its accesses, because \<open>wait_for_pending_ops\<close> reads the counter without
  the mutex. The counter is an atomic \<open>int\<close> of 32 bits, which wraps around. What the caller does with a
  suspended connection is in \<open>sql_parse.cc\<close> and the thread pool, outside the repository: the step
  \<open>resume\<close> stands for it, and follows the comments of the header (an operation that was the last one of
  a suspended connection resumes it).
\<close>

subsection \<open>The sections under the mutex\<close>

datatype async_status = NONE | SUSPENDED | RESUMED

record async_state =
  m_state :: async_status
  m_pending_ops :: u32
  m_dbg_thread :: nat

definition async_make :: async_state where
  "async_make = \<lparr>m_state = NONE, m_pending_ops = 0, m_dbg_thread = 0\<rparr>"

definition try_suspend :: "async_state \<Rightarrow> (bool \<times> async_state) option" where
  "try_suspend a = guard (m_state a = NONE \<and> 0 \<le>s m_pending_ops a)
     (if m_pending_ops a \<noteq> 0 then (True, a\<lparr>m_state := SUSPENDED\<rparr>) else (False, a))"

definition inc_pending_ops :: "nat \<Rightarrow> async_state \<Rightarrow> async_state option" where
  "inc_pending_ops self a =
     (let a = (if m_pending_ops a = 0 then Some (a\<lparr>m_dbg_thread := self\<rparr>) else guard (self = m_dbg_thread a) a)
      in map_option (\<lambda>a. a\<lparr>m_pending_ops := m_pending_ops a + 1\<rparr>) a)"

text \<open>
  \<open>dec_pending_ops\<close>: the decrement; then a signal when the counter is 0; then the state is read. The
  result is the new counter, the state and whether the condition is signalled.
\<close>

definition dec_count :: "async_state \<Rightarrow> u32 \<times> async_state" where
  "dec_count a = (let a = a\<lparr>m_pending_ops := m_pending_ops a - 1\<rparr> in (m_pending_ops a, a))"

definition dec_pending_ops :: "async_state \<Rightarrow> u32 \<times> async_status \<times> bool \<times> async_state" where
  "dec_pending_ops a = (let (ret, a) = dec_count a in (ret, m_state a, ret = 0, a))"

definition pending_ops :: "async_state \<Rightarrow> u32" where
  "pending_ops a = m_pending_ops a"

text \<open>
  \<open>wait_for_pending_ops\<close>: the read without the mutex, and the test of the loop under it: does the
  function return?
\<close>

definition wait_fast :: "async_state \<Rightarrow> bool" where
  "wait_fast a \<longleftrightarrow> pending_ops a = 0"

definition wait_test :: "async_state \<Rightarrow> bool option" where
  "wait_test a = guard (0 \<le>s m_pending_ops a) (m_pending_ops a = 0)"

lemmas async_defs = try_suspend_def inc_pending_ops_def dec_count_def dec_pending_ops_def pending_ops_def
  wait_fast_def wait_test_def async_make_def

subsection \<open>Threads\<close>

text \<open>
  The owner waits either to go on or, with the flag set, to destroy the mutex and the condition. An
  operation is outstanding, then holds the mutex in \<open>dec_pending_ops\<close>, before and after its signal, then
  has returned.
\<close>

datatype owner_phase = Working | Locking bool | Waiting bool | Left | Gone

datatype op_phase = Unborn | Outstanding | Decremented u32 | Signalled u32 | Done u32 async_status

record async_system =
  async :: async_state
  owner :: owner_phase
  runner :: nat
  ops :: "nat \<Rightarrow> op_phase"
  born :: nat
  holder :: "nat option"
  signalled :: bool
  resumers :: "nat set"
  broken :: bool

definition async_start :: async_system where
  "async_start = \<lparr>async = async_make, owner = Working, runner = 0, ops = (\<lambda>_. Unborn), born = 0, holder = None,
     signalled = False, resumers = {}, broken = False\<rparr>"

datatype async_event =
    Start | Suspend bool | Wait_Fast bool | Wait_Slow bool | Test bool bool | Wake | Resume nat | Reset
  | Op_Count nat | Op_Signal nat | Op_End nat

text \<open>Where the owner is when \<open>wait_for_pending_ops\<close> returns.\<close>

definition after_wait :: "bool \<Rightarrow> owner_phase" where
  "after_wait destroy = (if destroy then Gone else Working)"

text \<open>
  \<open>fast\<close> is whether \<open>wait_for_pending_ops\<close> has its first test. \<open>signalled\<close> is whether a signal has reached the
  waiting owner; it may also wake without one. \<open>broken\<close> records a use of the mutex, the condition or the
  state after they were destroyed.
\<close>

inductive astep :: "bool \<Rightarrow> async_system \<Rightarrow> async_event \<Rightarrow> async_system \<Rightarrow> bool" for fast where
  start: "owner s = Working \<Longrightarrow> holder s = None \<Longrightarrow> inc_pending_ops (runner s) (async s) = Some a \<Longrightarrow>
    astep fast s Start (s\<lparr>async := a, ops := (ops s)(born s := Outstanding), born := Suc (born s)\<rparr>)"
| suspend: "owner s = Working \<Longrightarrow> holder s = None \<Longrightarrow> try_suspend (async s) = Some (b, a) \<Longrightarrow>
    astep fast s (Suspend b) (s\<lparr>async := a, owner := if b then Left else Working\<rparr>)"
| wait_fast: "owner s = Working \<Longrightarrow> fast \<Longrightarrow> wait_fast (async s) \<Longrightarrow>
    astep fast s (Wait_Fast d) (s\<lparr>owner := after_wait d\<rparr>)"
| wait_slow: "owner s = Working \<Longrightarrow> \<not> (fast \<and> wait_fast (async s)) \<Longrightarrow>
    astep fast s (Wait_Slow d) (s\<lparr>owner := Locking d\<rparr>)"
| test: "owner s = Locking d \<Longrightarrow> holder s = None \<Longrightarrow> wait_test (async s) = Some r \<Longrightarrow>
    astep fast s (Test d r) (s\<lparr>owner := if r then after_wait d else Waiting d, signalled := False\<rparr>)"
| wake: "owner s = Waiting d \<Longrightarrow> astep fast s Wake (s\<lparr>owner := Locking d\<rparr>)"
| resume: "k \<in> resumers s \<Longrightarrow>
    astep fast s (Resume k) (s\<lparr>async := (async s)\<lparr>m_state := RESUMED\<rparr>, owner := Working, runner := k,
      resumers := resumers s - {k}\<rparr>)"
| reset: "owner s = Working \<Longrightarrow> astep fast s Reset (s\<lparr>async := (async s)\<lparr>m_state := NONE\<rparr>\<rparr>)"
| op_count: "ops s k = Outstanding \<Longrightarrow> holder s = None \<Longrightarrow> dec_count (async s) = (r, a) \<Longrightarrow>
    astep fast s (Op_Count k) (s\<lparr>async := a, ops := (ops s)(k := Decremented r), holder := Some k,
      broken := broken s \<or> owner s = Gone\<rparr>)"
| op_signal: "ops s k = Decremented r \<Longrightarrow>
    astep fast s (Op_Signal k) (s\<lparr>ops := (ops s)(k := Signalled r),
      signalled := signalled s \<or> r = 0 \<and> (\<exists>d. owner s = Waiting d), broken := broken s \<or> r = 0 \<and> owner s = Gone\<rparr>)"
| op_end: "ops s k = Signalled r \<Longrightarrow>
    astep fast s (Op_End k) (s\<lparr>ops := (ops s)(k := Done r (m_state (async s))), holder := None,
      resumers := if r = 0 \<and> m_state (async s) = SUSPENDED then insert k (resumers s) else resumers s,
      broken := broken s \<or> owner s = Gone\<rparr>)"

inductive aexec :: "bool \<Rightarrow> async_system \<Rightarrow> async_event list \<Rightarrow> async_system \<Rightarrow> bool" for fast where
  aexec_none: "aexec fast s [] s"
| aexec_more: "aexec fast s es s' \<Longrightarrow> astep fast s' e s'' \<Longrightarrow> aexec fast s (es @ [e]) s''"

inductive_simps astep_owner_simps:
  "astep fast s (Wait_Fast d) s'" "astep fast s (Test d r) s'" "astep fast s Wake s'"

inductive_simps astep_run_simps:
  "astep fast s Start s'" "astep fast s (Suspend b) s'" "astep fast s (Wait_Slow d) s'"
  "astep fast s (Resume k) s'" "astep fast s Reset s'"

inductive_simps astep_op_simps:
  "astep fast s (Op_Count k) s'" "astep fast s (Op_Signal k) s'" "astep fast s (Op_End k) s'"

subsection \<open>Invariant\<close>

definition outstanding :: "async_system \<Rightarrow> nat set" where
  "outstanding s = {k. ops s k = Outstanding}"

text \<open>
  Without any bound: the counter is the number of outstanding operations modulo \<open>2 ^ 32\<close>; the mutex is held
  by the operation that is in \<open>dec_pending_ops\<close>.
\<close>

definition async_ok :: "async_system \<Rightarrow> bool" where
  "async_ok s \<longleftrightarrow>
     (\<forall>k. ops s k = Unborn \<longleftrightarrow> born s \<le> k) \<and>
     m_pending_ops (async s) = of_nat (card (outstanding s)) \<and>
     (\<forall>k. holder s = Some k \<longleftrightarrow> (\<exists>r. ops s k = Decremented r \<or> ops s k = Signalled r)) \<and>
     (\<forall>k r. ops s k = Decremented r \<or> ops s k = Signalled r \<longrightarrow> r = m_pending_ops (async s)) \<and>
     (m_state (async s) = SUSPENDED \<longleftrightarrow> owner s = Left)"

text \<open>A waiting owner: the counter is not 0, an operation has still to signal, or the signal has arrived.\<close>

definition wait_ok :: "async_system \<Rightarrow> bool" where
  "wait_ok s \<longleftrightarrow> (\<forall>d. owner s = Waiting d \<longrightarrow>
     m_pending_ops (async s) \<noteq> 0 \<or> signalled s \<or> (\<exists>k. ops s k = Decremented 0))"

text \<open>A suspended connection: operations are pending, or one is about to resume it, never two.\<close>

definition resume_ok :: "async_system \<Rightarrow> bool" where
  "resume_ok s \<longleftrightarrow>
     (if owner s = Left
      then m_pending_ops (async s) \<noteq> 0 \<and> resumers s = {} \<or>
           m_pending_ops (async s) = 0 \<and> (holder s \<noteq> None \<and> resumers s = {} \<or> holder s = None \<and> (\<exists>k. resumers s = {k}))
      else resumers s = {})"

text \<open>What holds as long as the counter has not wrapped around.\<close>

definition bounded_ok :: "async_system \<Rightarrow> bool" where
  "bounded_ok s \<longleftrightarrow> resume_ok s \<and> (m_pending_ops (async s) = 0 \<or> m_dbg_thread (async s) = runner s) \<and>
     (owner s = Gone \<longrightarrow> m_pending_ops (async s) = 0)"

definition intact :: "async_system \<Rightarrow> bool" where
  "intact s \<longleftrightarrow> \<not> broken s \<and> (owner s = Gone \<longrightarrow> holder s = None)"

lemma async_ok_facts:
  assumes "async_ok s"
  shows "ops s k = Unborn \<longleftrightarrow> born s \<le> k" "m_pending_ops (async s) = of_nat (card (outstanding s))"
    "holder s = Some k \<longleftrightarrow> (\<exists>r. ops s k = Decremented r \<or> ops s k = Signalled r)"
    "ops s k = Decremented r \<Longrightarrow> r = m_pending_ops (async s)" "ops s k = Signalled r \<Longrightarrow> r = m_pending_ops (async s)"
    "m_state (async s) = SUSPENDED \<longleftrightarrow> owner s = Left"
  using assms unfolding async_ok_def by blast+

lemma outstanding_born:
  assumes "async_ok s"
  shows "finite (outstanding s) \<and> card (outstanding s) \<le> born s"
proof -
  have "k < born s" if "k \<in> outstanding s" for k
    using that async_ok_facts(1) [OF assms, of k] by (simp add: outstanding_def)
  then have "outstanding s \<subseteq> {..<born s}" by auto
  then show ?thesis using card_mono [of "{..<born s}"] finite_subset by fastforce
qed

lemmas outstanding_finite = outstanding_born [THEN conjunct1]

text \<open>The counter before it wraps around.\<close>

lemma counter_exact:
  assumes "async_ok s" "born s < 2 ^ 31"
  shows "unat (m_pending_ops (async s)) = card (outstanding s)" "sint (m_pending_ops (async s)) = int (card (outstanding s))"
    "m_pending_ops (async s) = 0 \<longleftrightarrow> outstanding s = {}" "0 \<le>s m_pending_ops (async s)"
proof -
  have c: "card (outstanding s) < 2 ^ 31" using outstanding_born [OF assms(1)] assms(2) by linarith
  have u: "uint (m_pending_ops (async s)) = int (card (outstanding s))"
    using c by (simp add: async_ok_facts(2) [OF assms(1)] uint_nat unat_of_nat take_bit_nat_eq_self)
  then show u': "unat (m_pending_ops (async s)) = card (outstanding s)" by (simp flip: nat_uint_eq)
  show i: "sint (m_pending_ops (async s)) = int (card (outstanding s))"
    using c u by (simp add: sint_uint signed_take_bit_int_eq_self)
  show "m_pending_ops (async s) = 0 \<longleftrightarrow> outstanding s = {}"
    using u' outstanding_finite [OF assms(1)] by (metis card_eq_0_iff unat_eq_zero)
  show "0 \<le>s m_pending_ops (async s)" by (simp add: word_sle_eq i)
qed

lemma outstanding_update:
  "outstanding (s\<lparr>ops := (ops s)(k := p)\<rparr>) = (if p = Outstanding then insert k (outstanding s) else outstanding s - {k})"
  by (auto simp: outstanding_def)

lemma outstanding_cong: "ops t = ops s \<Longrightarrow> outstanding t = outstanding s"
  by (simp add: outstanding_def)

text \<open>The owner's steps that do not touch operations.\<close>

lemma async_ok_owner:
  assumes "async_ok s" "ops t = ops s" "born t = born s" "holder t = holder s"
    and "m_pending_ops (async t) = m_pending_ops (async s)"
    and "m_state (async t) = SUSPENDED \<longleftrightarrow> owner t = Left"
  shows "async_ok t"
  using assms(1) unfolding async_ok_def assms(2-5) outstanding_cong [OF assms(2)] using assms(6) by blast

lemma inc_pending_counts:
  "inc_pending_ops self a = Some a' \<Longrightarrow> m_pending_ops a' = m_pending_ops a + 1 \<and> m_state a' = m_state a \<and> m_dbg_thread a' = self"
  by (auto simp: inc_pending_ops_def Let_def guard_def split: if_splits)

lemma async_ok_start:
  assumes ok: "async_ok s" and h: "holder s = None" and "owner s = Working"
    and a: "m_pending_ops a = m_pending_ops (async s) + 1" "m_state a = m_state (async s)"
  shows "async_ok (s\<lparr>async := a, ops := (ops s)(born s := Outstanding), born := Suc (born s)\<rparr>)"
proof -
  note f = async_ok_facts [OF ok]
  have new: "born s \<notin> outstanding s" using f(1) [of "born s"] by (simp add: outstanding_def)
  have none: "ops s k \<noteq> Decremented r" "ops s k \<noteq> Signalled r" for k r using f(3) [of k] h by auto
  let ?t = "s\<lparr>async := a, ops := (ops s)(born s := Outstanding), born := Suc (born s)\<rparr>"
  have "outstanding ?t = insert (born s) (outstanding s)" by (auto simp: outstanding_def)
  then have "card (outstanding ?t) = Suc (card (outstanding s))" using new outstanding_finite [OF ok] by simp
  moreover have "ops ?t k = Unborn \<longleftrightarrow> born ?t \<le> k" for k using f(1) [of k] by auto
  ultimately show ?thesis using f(2) [symmetric] f(6) h none assms(3) a by (simp add: async_ok_def)
qed

lemma async_ok_count:
  assumes ok: "async_ok s" and h: "holder s = None" and k: "ops s k = Outstanding"
  shows "0 < card (outstanding s) \<and>
    async_ok (s\<lparr>async := (async s)\<lparr>m_pending_ops := m_pending_ops (async s) - 1\<rparr>,
      ops := (ops s)(k := Decremented (m_pending_ops (async s) - 1)), holder := Some k, broken := b\<rparr>)"
proof -
  note f = async_ok_facts [OF ok]
  have none: "ops s j \<noteq> Decremented r" "ops s j \<noteq> Signalled r" for j r using f(3) [of j] h by auto
  have mem: "k \<in> outstanding s" using k by (simp add: outstanding_def)
  let ?t = "s\<lparr>async := (async s)\<lparr>m_pending_ops := m_pending_ops (async s) - 1\<rparr>,
      ops := (ops s)(k := Decremented (m_pending_ops (async s) - 1)), holder := Some k, broken := b\<rparr>"
  have "outstanding ?t = outstanding s - {k}" by (auto simp: outstanding_def)
  moreover have pos: "0 < card (outstanding s)" using mem outstanding_finite [OF ok] by (auto simp: card_gt_0_iff)
  ultimately have "card (outstanding s) = Suc (card (outstanding ?t))"
    using card_Suc_Diff1 [OF outstanding_finite [OF ok] mem] by presburger
  then obtain n where n: "card (outstanding s) = Suc n" "card (outstanding ?t) = n" by blast
  have "m_pending_ops (async s) - 1 = of_nat n" using f(2) n(1) by simp
  moreover have "ops ?t j = Unborn \<longleftrightarrow> born ?t \<le> j" for j using f(1) [of j] k by auto
  ultimately have "async_ok ?t" using f(6) none n(2) by (simp add: async_ok_def)
  then show ?thesis using pos by simp
qed

lemma async_ok_signal:
  assumes ok: "async_ok s" and k: "ops s k = Decremented r"
  shows "async_ok (s\<lparr>ops := (ops s)(k := Signalled r), signalled := x, broken := b\<rparr>)"
proof -
  note f = async_ok_facts [OF ok]
  let ?t = "s\<lparr>ops := (ops s)(k := Signalled r), signalled := x, broken := b\<rparr>"
  have "outstanding ?t = outstanding s" using k by (auto simp: outstanding_def)
  moreover have "ops ?t j = Unborn \<longleftrightarrow> born ?t \<le> j" for j using f(1) [of j] k by auto
  moreover have "holder ?t = Some j \<longleftrightarrow> (\<exists>r. ops ?t j = Decremented r \<or> ops ?t j = Signalled r)" for j
    using f(3) [of j] k by auto
  moreover have "q = m_pending_ops (async s)" if "ops ?t j = Decremented q \<or> ops ?t j = Signalled q" for j q
    using that f(4,5) [of j q] f(4) [OF k] k by (auto split: if_splits)
  ultimately show ?thesis using f(2,6) by (simp add: async_ok_def)
qed

lemma async_ok_end:
  assumes ok: "async_ok s" and k: "ops s k = Signalled r"
  shows "async_ok (s\<lparr>ops := (ops s)(k := Done r q), holder := None, resumers := x, broken := b\<rparr>)"
proof -
  note f = async_ok_facts [OF ok]
  have hk: "holder s = Some k" using f(3) [of k] k by simp
  have none: "ops s j \<noteq> Decremented p" "ops s j \<noteq> Signalled p" if "j \<noteq> k" for j p using f(3) [of j] hk that by auto
  let ?t = "s\<lparr>ops := (ops s)(k := Done r q), holder := None, resumers := x, broken := b\<rparr>"
  have "outstanding ?t = outstanding s" using k by (auto simp: outstanding_def)
  moreover have "ops ?t j = Unborn \<longleftrightarrow> born ?t \<le> j" for j using f(1) [of j] k by auto
  moreover have "ops ?t j \<noteq> Decremented p" "ops ?t j \<noteq> Signalled p" for j p using none [of j] by auto
  ultimately show ?thesis using f(2,6) by (simp add: async_ok_def)
qed

lemma resumers_left:
  "resume_ok s \<Longrightarrow> k \<in> resumers s \<Longrightarrow>
     owner s = Left \<and> m_pending_ops (async s) = 0 \<and> holder s = None \<and> resumers s = {k}"
  by (auto simp: resume_ok_def split: if_splits)

lemma astep_async_ok:
  assumes "astep fast s e s'" "async_ok s"
  shows "async_ok s'"
  using assms(1)
proof (cases rule: astep.cases)
  case (start a)
  then show ?thesis using async_ok_start [OF assms(2) start(4,3)] inc_pending_counts [OF start(5)] by simp
next
  case (suspend b a)
  then show ?thesis
    using async_ok_facts(6) [OF assms(2)]
    by (intro async_ok_owner [OF assms(2)]) (auto simp: try_suspend_def split: if_splits)
next
  case (wait_fast d)
  then show ?thesis
    using async_ok_facts(6) [OF assms(2)] by (intro async_ok_owner [OF assms(2)]) (auto simp: after_wait_def)
next
  case (test d r)
  then show ?thesis
    using async_ok_facts(6) [OF assms(2)] by (intro async_ok_owner [OF assms(2)]) (auto simp: after_wait_def)
next
  case (op_count k r a)
  then show ?thesis using async_ok_count [OF assms(2) op_count(4,3)] by (auto simp: dec_count_def Let_def)
next
  case (op_signal k r)
  then show ?thesis using async_ok_signal [OF assms(2) op_signal(3)] by simp
next
  case (op_end k r)
  then show ?thesis using async_ok_end [OF assms(2) op_end(3)] by simp
qed (use async_ok_facts(6) [OF assms(2)] in \<open>auto intro!: async_ok_owner [OF assms(2)]\<close>)

lemma astep_wait_ok:
  assumes "astep fast s e s'" "async_ok s" "wait_ok s"
  shows "wait_ok s'"
  using assms(1)
proof (cases rule: astep.cases)
  case (test d r)
  then show ?thesis by (auto simp: wait_ok_def after_wait_def wait_test_def)
next
  case (op_count k r a)
  have "m_pending_ops a = r" using op_count(5) by (auto simp: dec_count_def Let_def)
  moreover have "r \<noteq> 0 \<or> ops s' k = Decremented 0" using op_count(2) by auto
  ultimately show ?thesis using op_count(2) by (auto simp: wait_ok_def)
next
  case (op_signal k r)
  have r: "r = m_pending_ops (async s)" using async_ok_facts(4) [OF assms(2) op_signal(3)] .
  then show ?thesis using op_signal(2) assms(3) by (auto simp: wait_ok_def)
next
  case (op_end k r)
  have "ops s j = Decremented 0 \<Longrightarrow> j \<noteq> k" for j using op_end(3) by auto
  then show ?thesis using op_end(2) assms(3) by (auto simp: wait_ok_def)
qed (use assms(3) in \<open>auto simp: wait_ok_def after_wait_def\<close>)

lemma astep_resume_ok:
  assumes "astep fast s e s'" "async_ok s" "resume_ok s" "born s < 2 ^ 31"
  shows "resume_ok s'"
  using assms(1)
proof (cases rule: astep.cases)
  case (suspend b a)
  then show ?thesis using assms(3) by (auto simp: try_suspend_def resume_ok_def split: if_splits)
next
  case (resume k)
  then show ?thesis using resumers_left [OF assms(3)] by (auto simp: resume_ok_def)
next
  case (op_count k r a)
  have p: "m_pending_ops (async s) \<noteq> 0"
    using async_ok_count [OF assms(2) op_count(4,3)] counter_exact(3) [OF assms(2,4)] by auto
  have "r = m_pending_ops (async s) - 1" "m_pending_ops a = r" using op_count(5) by (auto simp: dec_count_def Let_def)
  then show ?thesis using op_count(2) p assms(3) by (auto simp: resume_ok_def split: if_splits)
next
  case (op_signal k r)
  then show ?thesis using assms(3) by (auto simp: resume_ok_def split: if_splits)
next
  case (op_end k r)
  have "holder s = Some k" "r = m_pending_ops (async s)"
    using async_ok_facts(3,5) [OF assms(2), of k] op_end(3) by auto
  then show ?thesis
    using op_end(2) async_ok_facts(6) [OF assms(2)] assms(3) by (auto simp: resume_ok_def split: if_splits)
qed (use assms(3) in \<open>auto simp: resume_ok_def after_wait_def split: if_splits\<close>)

lemma astep_bounded_ok:
  assumes "astep fast s e s'" "async_ok s" "bounded_ok s" "born s < 2 ^ 31"
  shows "bounded_ok s'"
proof -
  have r: "resume_ok s" using assms(3) by (simp add: bounded_ok_def)
  have "(m_pending_ops (async s') = 0 \<or> m_dbg_thread (async s') = runner s') \<and> (owner s' = Gone \<longrightarrow> m_pending_ops (async s') = 0)"
    using assms(1)
  proof (cases rule: astep.cases)
    case (start a)
    then show ?thesis using inc_pending_counts [OF start(5)] by simp
  next
    case (suspend b a)
    then show ?thesis using assms(3) by (auto simp: bounded_ok_def try_suspend_def split: if_splits)
  next
    case (wait_fast d)
    then show ?thesis by (simp add: Async_State.wait_fast_def pending_ops_def)
  next
    case (test d t)
    then show ?thesis using assms(3) by (auto simp: bounded_ok_def wait_test_def after_wait_def)
  next
    case (resume k)
    then show ?thesis using resumers_left [OF r] by simp
  next
    case (op_count k q a)
    have "m_pending_ops (async s) \<noteq> 0"
      using async_ok_count [OF assms(2) op_count(4,3)] counter_exact(3) [OF assms(2,4)] by auto
    then show ?thesis using op_count(2,5) assms(3) by (auto simp: bounded_ok_def dec_count_def Let_def)
  qed (use assms(3) in \<open>auto simp: bounded_ok_def\<close>)
  then show ?thesis using astep_resume_ok [OF assms(1,2) r assms(4)] by (simp add: bounded_ok_def)
qed

lemma astep_intact:
  assumes "astep False s e s'" "async_ok s" "bounded_ok s" "intact s" "born s < 2 ^ 31"
  shows "intact s'"
  using assms(1)
proof (cases rule: astep.cases)
  case (test d r)
  then show ?thesis using assms(4) by (auto simp: intact_def)
next
  case (op_count k r a)
  have "m_pending_ops (async s) \<noteq> 0"
    using async_ok_count [OF assms(2) op_count(4,3)] counter_exact(3) [OF assms(2,5)] by auto
  then have "owner s \<noteq> Gone" using assms(3) by (auto simp: bounded_ok_def)
  then show ?thesis using op_count(2) assms(4) by (auto simp: intact_def)
next
  case (op_signal k r)
  have "holder s = Some k" using async_ok_facts(3) [OF assms(2), of k] op_signal(3) by auto
  then show ?thesis using op_signal(2) assms(4) by (auto simp: intact_def)
next
  case (op_end k r)
  have "holder s = Some k" using async_ok_facts(3) [OF assms(2), of k] op_end(3) by auto
  then show ?thesis using op_end(2) assms(4) by (auto simp: intact_def)
qed (use assms(4) in \<open>auto simp: intact_def\<close>)

lemma async_start_ok: "async_ok async_start" "wait_ok async_start" "bounded_ok async_start" "intact async_start"
  by (simp_all add: async_ok_def bounded_ok_def resume_ok_def wait_ok_def intact_def async_start_def async_make_def outstanding_def)

lemma aexec_ok: "aexec fast s es s' \<Longrightarrow> async_ok s \<Longrightarrow> wait_ok s \<Longrightarrow> async_ok s' \<and> wait_ok s'"
  by (induction rule: aexec.induct) (auto intro: astep_async_ok astep_wait_ok)

text \<open>Every start of an operation is an event of the run.\<close>

lemma astep_born: "astep fast s e s' \<Longrightarrow> born s' = born s + (if e = Start then 1 else 0)"
  by (erule astep.cases) simp_all

lemma aexec_born: "aexec fast s es s' \<Longrightarrow> born s' = born s + count_list es Start"
  by (induction rule: aexec.induct) (auto dest: astep_born)

lemma aexec_bounded:
  "aexec fast s es s' \<Longrightarrow> async_ok s \<Longrightarrow> wait_ok s \<Longrightarrow> bounded_ok s \<Longrightarrow> born s' < 2 ^ 31 \<Longrightarrow> bounded_ok s'"
proof (induction rule: aexec.induct)
  case (aexec_more s es s' e s'')
  have "born s' < 2 ^ 31" using astep_born [OF aexec_more.hyps(2)] aexec_more.prems(4) by linarith
  then show ?case using aexec_more aexec_ok [OF aexec_more.hyps(1)] by (auto intro: astep_bounded_ok)
qed

lemma aexec_intact:
  "aexec False s es s' \<Longrightarrow> async_ok s \<Longrightarrow> wait_ok s \<Longrightarrow> bounded_ok s \<Longrightarrow> intact s \<Longrightarrow> born s' < 2 ^ 31 \<Longrightarrow> intact s'"
proof (induction rule: aexec.induct)
  case (aexec_more s es s' e s'')
  have "born s' < 2 ^ 31" using astep_born [OF aexec_more.hyps(2)] aexec_more.prems(5) by linarith
  then show ?case using aexec_more aexec_ok [OF aexec_more.hyps(1)] aexec_bounded [OF aexec_more.hyps(1)]
    by (auto intro: astep_intact)
qed

subsection \<open>Progress\<close>

fun is_op :: "async_event \<Rightarrow> bool" where
  "is_op (Op_Count k) = True"
| "is_op (Op_Signal k) = True"
| "is_op (Op_End k) = True"
| "is_op e = False"

fun_cases is_opE: "is_op e"

fun op_work :: "op_phase \<Rightarrow> nat" where
  "op_work Outstanding = 3"
| "op_work (Decremented r) = 2"
| "op_work (Signalled r) = 1"
| "op_work p = 0"

definition work :: "async_system \<Rightarrow> nat" where
  "work s = (\<Sum>k<born s. op_work (ops s k))"

lemma work_update:
  assumes "k < (n::nat)" "op_work (f k) = Suc (op_work p)"
  shows "(\<Sum>j<n. op_work (f j)) = Suc (\<Sum>j<n. op_work ((f(k := p)) j))"
proof -
  have "(\<Sum>j<n. op_work (f j)) = op_work (f k) + (\<Sum>j\<in>{..<n} - {k}. op_work (f j))"
    using assms(1) by (intro sum.remove) auto
  moreover have "(\<Sum>j<n. op_work ((f(k := p)) j)) = op_work p + (\<Sum>j\<in>{..<n} - {k}. op_work (f j))"
    using assms(1) by (subst sum.remove [of _ k]) auto
  ultimately show ?thesis using assms(2) by simp
qed

lemma op_step:
  assumes "astep fast s e s'" "is_op e" "async_ok s"
  shows "owner s' = owner s \<and> born s' = born s \<and> work s = Suc (work s')"
proof -
  have b: "k < born s" if "ops s k \<noteq> Unborn" for k using that async_ok_facts(1) [OF assms(3), of k] by simp
  consider k where "e = Op_Count k" | k where "e = Op_Signal k" | k where "e = Op_End k"
    using assms(2) by (auto elim: is_opE)
  then show ?thesis
  proof cases
    case (1 k)
    then obtain r a where k: "ops s k = Outstanding" "s' = s\<lparr>async := a, ops := (ops s)(k := Decremented r),
        holder := Some k, broken := broken s \<or> owner s = Gone\<rparr>"
      using assms(1) by (auto simp: astep_op_simps)
    then show ?thesis using work_update [of k "born s" "ops s" "Decremented r"] b [of k] by (simp add: work_def)
  next
    case (2 k)
    then obtain r where k: "ops s k = Decremented r" "ops s' = (ops s)(k := Signalled r)" "owner s' = owner s" "born s' = born s"
      using assms(1) by (auto simp: astep_op_simps)
    then show ?thesis using work_update [of k "born s" "ops s" "Signalled r"] b [of k] by (simp add: work_def)
  next
    case (3 k)
    then obtain r q where k: "ops s k = Signalled r" "ops s' = (ops s)(k := Done r q)" "owner s' = owner s" "born s' = born s"
      using assms(1) by (auto simp: astep_op_simps)
    then show ?thesis using work_update [of k "born s" "ops s" "Done r q"] b [of k] by (simp add: work_def)
  qed
qed

lemma op_run:
  assumes "aexec fast s fs s'" "list_all is_op fs" "async_ok s" "wait_ok s"
  shows "owner s' = owner s \<and> work s = length fs + work s'"
  using assms
proof (induction rule: aexec.induct)
  case (aexec_none s)
  then show ?case by simp
next
  case (aexec_more s fs s' e s'')
  have "async_ok s'" using aexec_ok [OF aexec_more.hyps(1) aexec_more.prems(2,3)] by blast
  then have "owner s'' = owner s'" "work s' = Suc (work s'')" using op_step [OF aexec_more.hyps(2)] aexec_more.prems(1) by auto
  then show ?case using aexec_more by simp
qed

lemma ops_finished:
  assumes ok: "async_ok s" and stuck: "\<And>e t. is_op e \<Longrightarrow> \<not> astep fast s e t"
  shows "holder s = None \<and> outstanding s = {}"
proof
  show h: "holder s = None"
  proof (rule ccontr)
    assume "holder s \<noteq> None"
    then obtain k r where "ops s k = Decremented r \<or> ops s k = Signalled r"
      using async_ok_facts(3) [OF ok] by auto
    then show False
      using astep.op_signal [of s k r fast] astep.op_end [of s k r fast] stuck [of "Op_Signal k"] stuck [of "Op_End k"]
      by auto
  qed
  show "outstanding s = {}"
  proof (rule ccontr)
    assume "outstanding s \<noteq> {}"
    then obtain k where "ops s k = Outstanding" by (auto simp: outstanding_def)
    then show False using astep.op_count [of s k _ _ fast] h stuck [of "Op_Count k"] by (metis is_op.simps(1) surj_pair)
  qed
qed

subsection \<open>Properties\<close>

text \<open>
  C13. In every interleaving with fewer than \<open>2 ^ 31\<close> operations the 32-bit counter is the number of
  operations that have not yet decremented it, so \<open>wait_for_pending_ops\<close> returns only when there are
  none. The assertions on the counter and on the starting thread hold; the one on the state in
  \<open>try_suspend\<close> fails just when a resumed connection has not been set back to \<open>NONE\<close>, which is left to
  the caller. While the connection is not suspended nobody may resume it; while it is suspended, either
  operations are pending, or the last one is in \<open>dec_pending_ops\<close>, or exactly one operation has been
  told to resume it: it is resumed once, and no suspension is forgotten.
\<close>

theorem async_operations_counted:
  assumes "aexec fast async_start es s" "count_list es Start < 2 ^ 31"
  shows "sint (m_pending_ops (async s)) = int (card (outstanding s)) \<and> finite (outstanding s) \<and>
    (\<forall>d s'. astep fast s (Wait_Fast d) s' \<or> astep fast s (Test d True) s' \<longrightarrow> outstanding s = {}) \<and>
    wait_test (async s) = Some (outstanding s = {}) \<and>
    (owner s = Working \<and> holder s = None \<longrightarrow> inc_pending_ops (runner s) (async s) \<noteq> None \<and>
       (if m_state (async s) = RESUMED then try_suspend (async s) = None
        else \<exists>a. try_suspend (async s) = Some (outstanding s \<noteq> {}, a))) \<and>
    (if owner s = Left
     then outstanding s \<noteq> {} \<and> resumers s = {} \<or> outstanding s = {} \<and> holder s \<noteq> None \<and> resumers s = {} \<or>
          outstanding s = {} \<and> holder s = None \<and> (\<exists>k. resumers s = {k})
     else resumers s = {})"
proof -
  have b: "born s < 2 ^ 31" using aexec_born [OF assms(1)] assms(2) by (simp add: async_start_def)
  have ok: "async_ok s" "bounded_ok s"
    using aexec_ok [OF assms(1) async_start_ok(1,2)] aexec_bounded [OF assms(1) async_start_ok(1-3) b] by auto
  note c = counter_exact [OF ok(1) b]
  have "outstanding s = {}" if "astep fast s (Wait_Fast d) s' \<or> astep fast s (Test d True) s'" for d s'
    using that c(3) by (auto simp: astep_owner_simps wait_fast_def wait_test_def pending_ops_def)
  moreover have "inc_pending_ops (runner s) (async s) \<noteq> None \<and> (if m_state (async s) = RESUMED then try_suspend (async s) = None
      else \<exists>a. try_suspend (async s) = Some (outstanding s \<noteq> {}, a))" if "owner s = Working"
    using ok(2) c(3,4) that async_ok_facts(6) [OF ok(1)]
    by (cases "m_state (async s)") (auto simp: bounded_ok_def inc_pending_ops_def try_suspend_def guard_def Let_def)
  moreover have "wait_test (async s) = Some (outstanding s = {})" using c(3,4) by (simp add: wait_test_def)
  ultimately show ?thesis
    using ok(2) c(2) outstanding_finite [OF ok(1)] unfolding bounded_ok_def resume_ok_def c(3) by auto
qed

text \<open>C14. An owner that waits is woken: from any reachable state, the steps of the operations come to an end
  after a number of steps known in advance, and then a signal has reached the owner and its test succeeds.\<close>

theorem async_wait_ends:
  assumes "aexec fast async_start es s" "owner s = Waiting d" "aexec fast s fs s'" "list_all is_op fs"
  shows "length fs + work s' = work s \<and>
    ((\<exists>e t. is_op e \<and> astep fast s' e t) \<or>
     work s' = 0 \<and> signalled s' \<and> (\<exists>t u. astep fast s' Wake t \<and> astep fast t (Test d True) u \<and> owner u = after_wait d))"
proof -
  have ok: "async_ok s" "wait_ok s" using aexec_ok [OF assms(1) async_start_ok(1,2)] by auto
  then have ok': "async_ok s'" "wait_ok s'" using aexec_ok [OF assms(3)] by auto
  have run: "owner s' = Waiting d" "work s = length fs + work s'" using op_run [OF assms(3,4) ok] assms(2) by auto
  show ?thesis
  proof (cases "\<exists>e t. is_op e \<and> astep fast s' e t")
    case True
    then show ?thesis using run(2) by simp
  next
    case False
    then have fin: "holder s' = None" "outstanding s' = {}" using ops_finished [OF ok'(1)] by blast+
    note f = async_ok_facts [OF ok'(1)]
    have p: "m_pending_ops (async s') = 0" using f(2) fin(2) by simp
    have none: "ops s' k \<noteq> Decremented r" "ops s' k \<noteq> Signalled r" for k r using f(3) [of k] fin(1) by auto
    then have sig: "signalled s'" using ok'(2) run(1) p unfolding wait_ok_def by fastforce
    have "op_work (ops s' k) = 0" for k
      using none [of k] fin(2) by (cases "ops s' k") (auto simp: outstanding_def)
    then have w: "work s' = 0" by (simp add: work_def)
    have "astep fast s' Wake (s'\<lparr>owner := Locking d\<rparr>)" using run(1) by (rule astep.wake)
    moreover have "astep fast (s'\<lparr>owner := Locking d\<rparr>) (Test d True) (s'\<lparr>owner := after_wait d, signalled := False\<rparr>)"
      using astep.test [of "s'\<lparr>owner := Locking d\<rparr>" d True fast] fin(1) p by (simp add: wait_test_def)
    ultimately have "\<exists>t u. astep fast s' Wake t \<and> astep fast t (Test d True) u \<and> owner u = after_wait d"
      by (intro exI conjI) auto
    then show ?thesis using run(2) sig w by simp
  qed
qed

text \<open>An event and a state determine the next state, so that runs can be computed.\<close>

fun do_event :: "bool \<Rightarrow> async_event \<Rightarrow> async_system \<Rightarrow> async_system option" where
  "do_event fast Start s =
     (if owner s = Working \<and> holder s = None
      then map_option (\<lambda>a. s\<lparr>async := a, ops := (ops s)(born s := Outstanding), born := Suc (born s)\<rparr>)
             (inc_pending_ops (runner s) (async s))
      else None)"
| "do_event fast (Suspend b) s =
     (if owner s = Working \<and> holder s = None
      then (case try_suspend (async s) of
              Some (b', a) \<Rightarrow> if b' = b then Some (s\<lparr>async := a, owner := if b then Left else Working\<rparr>) else None
            | None \<Rightarrow> None)
      else None)"
| "do_event fast (Wait_Fast d) s =
     (if owner s = Working \<and> fast \<and> wait_fast (async s) then Some (s\<lparr>owner := after_wait d\<rparr>) else None)"
| "do_event fast (Wait_Slow d) s =
     (if owner s = Working \<and> \<not> (fast \<and> wait_fast (async s)) then Some (s\<lparr>owner := Locking d\<rparr>) else None)"
| "do_event fast (Test d r) s =
     (if owner s = Locking d \<and> holder s = None \<and> wait_test (async s) = Some r
      then Some (s\<lparr>owner := if r then after_wait d else Waiting d, signalled := False\<rparr>) else None)"
| "do_event fast Wake s = (case owner s of Waiting d \<Rightarrow> Some (s\<lparr>owner := Locking d\<rparr>) | _ \<Rightarrow> None)"
| "do_event fast (Resume k) s =
     (if k \<in> resumers s
      then Some (s\<lparr>async := (async s)\<lparr>m_state := RESUMED\<rparr>, owner := Working, runner := k, resumers := resumers s - {k}\<rparr>)
      else None)"
| "do_event fast Reset s =
     (if owner s = Working then Some (s\<lparr>async := (async s)\<lparr>m_state := NONE\<rparr>\<rparr>) else None)"
| "do_event fast (Op_Count k) s =
     (if ops s k = Outstanding \<and> holder s = None
      then (let (r, a) = dec_count (async s)
            in Some (s\<lparr>async := a, ops := (ops s)(k := Decremented r), holder := Some k,
                 broken := broken s \<or> owner s = Gone\<rparr>))
      else None)"
| "do_event fast (Op_Signal k) s =
     (case ops s k of
        Decremented r \<Rightarrow> Some (s\<lparr>ops := (ops s)(k := Signalled r),
          signalled := signalled s \<or> r = 0 \<and> (case owner s of Waiting d \<Rightarrow> True | _ \<Rightarrow> False),
          broken := broken s \<or> r = 0 \<and> owner s = Gone\<rparr>)
      | _ \<Rightarrow> None)"
| "do_event fast (Op_End k) s =
     (case ops s k of
        Signalled r \<Rightarrow> Some (s\<lparr>ops := (ops s)(k := Done r (m_state (async s))), holder := None,
          resumers := if r = 0 \<and> m_state (async s) = SUSPENDED then insert k (resumers s) else resumers s,
          broken := broken s \<or> owner s = Gone\<rparr>)
      | _ \<Rightarrow> None)"

fun do_events :: "bool \<Rightarrow> async_event list \<Rightarrow> async_system \<Rightarrow> async_system option" where
  "do_events fast [] s = Some s"
| "do_events fast (e # es) s = (case do_event fast e s of Some s \<Rightarrow> do_events fast es s | None \<Rightarrow> None)"

lemma do_event_step: "do_event fast e s = Some s' \<Longrightarrow> astep fast s e s'"
  by (cases e)
    (auto simp: astep_owner_simps astep_run_simps astep_op_simps Let_def
      split: if_splits option.splits owner_phase.splits op_phase.splits prod.splits)

lemma aexec_first: "aexec fast s' es t \<Longrightarrow> astep fast s e s' \<Longrightarrow> aexec fast s (e # es) t"
proof (induction rule: aexec.induct)
  case (aexec_none s')
  then show ?case using aexec.intros(2) [OF aexec.intros(1), of fast s e s'] by simp
next
  case (aexec_more s' es t e' u)
  then show ?case using aexec.intros(2) [of fast s "e # es" t e' u] by simp
qed

lemma do_events_run: "do_events fast es s = Some s' \<Longrightarrow> aexec fast s es s'"
  by (induction es arbitrary: s) (auto intro: aexec.intros aexec_first do_event_step split: option.splits)

lemma small_not_negative: "(0 :: u32) \<le>s 0" "(0 :: u32) \<le>s 1" "(0 :: u32) \<le>s 2"
  by (simp_all add: word_sle_eq)

lemmas async_run_simps = small_not_negative async_start_def async_make_def inc_pending_ops_def try_suspend_def wait_fast_def
  pending_ops_def dec_count_def wait_test_def after_wait_def guard_def

lemma destroyed_in_use:
  "\<exists>t. do_events True [Start, Op_Count 0, Wait_Fast True, Op_Signal 0] async_start = Some t \<and> broken t \<and> owner t = Gone"
  by (simp add: async_run_simps)

text \<open>
  C15. Destroying the state: \<open>wait_for_pending_ops\<close> as the destructor calls it is safe when it always
  tests under the mutex and fewer than \<open>2 ^ 31\<close> operations were started, so that the counter cannot
  wrap: no operation then uses the mutex or the condition after the owner destroyed them. With its
  first test, as it is written, the owner may read 0 and destroy both while the last operation still
  holds the mutex.
\<close>

theorem async_destruction:
  assumes "aexec False async_start es s" "count_list es Start < 2 ^ 31"
  shows "\<not> broken s \<and> (\<exists>fs t. aexec True async_start fs t \<and> broken t \<and> owner t = Gone)"
proof -
  have "born s < 2 ^ 31" using aexec_born [OF assms(1)] assms(2) by (simp add: async_start_def)
  then have "intact s" by (rule aexec_intact [OF assms(1) async_start_ok])
  moreover have "\<exists>fs t. aexec True async_start fs t \<and> broken t \<and> owner t = Gone"
    using destroyed_in_use do_events_run by blast
  ultimately show ?thesis by (simp add: intact_def)
qed

lemma async_destruction_witness:
  "\<exists>t. do_events False [Start, Op_Count 0, Op_Signal 0, Op_End 0, Wait_Slow True, Test True True] async_start = Some t \<and>
     owner t = Gone \<and> \<not> broken t"
proof -
  obtain t where t: "do_events False [Start, Op_Count 0, Op_Signal 0, Op_End 0, Wait_Slow True, Test True True] async_start
      = Some t" "owner t = Gone"
    by (simp add: async_run_simps)
  then show ?thesis using async_destruction [OF do_events_run [OF t(1)]] by auto
qed

lemma async_operations_counted_witness:
  "\<exists>t. do_events True [Start, Start, Suspend True, Op_Count 1, Op_Signal 1, Op_End 1, Op_Count 0, Op_Signal 0, Op_End 0]
     async_start = Some t \<and> owner t = Left \<and> outstanding t = {} \<and> (\<exists>k. resumers t = {k})"
proof -
  obtain t where t: "do_events True [Start, Start, Suspend True, Op_Count 1, Op_Signal 1, Op_End 1, Op_Count 0, Op_Signal 0,
      Op_End 0] async_start = Some t" "owner t = Left" "m_pending_ops (async t) = 0" "holder t = None"
    by (simp add: async_run_simps)
  then show ?thesis using async_operations_counted [OF do_events_run [OF t(1)]] by (auto split: if_splits)
qed

lemma async_wait_ends_witness:
  "\<exists>s t u. do_events True [Start, Wait_Slow False, Test False False] async_start = Some s \<and>
     do_events True [Op_Count 0, Op_Signal 0, Op_End 0] s = Some t \<and> 3 + work t = work s"
proof -
  obtain s where s: "do_events True [Start, Wait_Slow False, Test False False] async_start = Some s" "owner s = Waiting False"
      "ops s 0 = Outstanding" "holder s = None" "async s = async_make\<lparr>m_pending_ops := 1\<rparr>"
    by (simp add: async_run_simps)
  moreover obtain t where t: "do_events True [Op_Count 0, Op_Signal 0, Op_End 0] s = Some t"
    using s(3-5) by (simp add: async_run_simps)
  ultimately show ?thesis
    using async_wait_ends [OF do_events_run [OF s(1)] s(2) do_events_run [OF t]] by auto
qed

end
