(* ===== verification/Field_Storage.thy ===== *)
theory Field_Storage
  imports Byte_Order Bitmaps "HOL-Library.Monad_Syntax" "HOL-Library.Signed_Division"
begin

text \<open>
  How columns lie in a record: the null bits and positions of \<open>Field\<close> in \<open>field.h\<close>, with \<open>Bit_addr\<close> and
  \<open>Record_addr\<close> of \<open>sql_type.h\<close>, which hand out the null bits; the integers of variable width; lengths of
  strings and blobs; the bits of BIT columns and the key lengths of \<open>my_compare.h\<close>. Memory is a function
  from addresses to bytes, address 0 is NULL; where a function works on one buffer, the buffer is a list
  and \<open>None\<close> an access behind its end. The null bits of consecutive columns are shown to be a set of
  numbers in the sense of \<open>Bitmaps\<close>.
\<close>

subsection \<open>Positions of null bits\<close>

type_synonym memory = "nat \<Rightarrow> u8"

record bit_addr =
  ba_ptr :: nat
  ba_offs :: u8

definition bit_addr_null :: bit_addr where "bit_addr_null = \<lparr>ba_ptr = 0, ba_offs = 0\<rparr>"

definition bit_addr_make :: "nat \<Rightarrow> u8 \<Rightarrow> bit_addr option" where
  "bit_addr_make ptr offs = guard ((ptr \<noteq> 0 \<or> offs = 0) \<and> offs < 8) \<lparr>ba_ptr = ptr, ba_offs = offs\<rparr>"

text \<open>\<open>empty_string\<close> is the address of a string literal.\<close>

definition bit_addr_maybe_null :: "nat \<Rightarrow> bool \<Rightarrow> bit_addr" where
  "bit_addr_maybe_null empty_string maybe_null =
     \<lparr>ba_ptr = if maybe_null then empty_string else 0, ba_offs = 0\<rparr>"

definition ba_bit :: "bit_addr \<Rightarrow> u8" where
  "ba_bit b = (if ba_ptr b \<noteq> 0 then ucast (push_bit (unat (ba_offs b)) (1 :: u32)) else 0)"

definition ba_inc :: "bit_addr \<Rightarrow> bit_addr option" where
  "ba_inc b = guard (ba_ptr b \<noteq> 0)
     \<lparr>ba_ptr = ba_ptr b + (if ba_offs b = 7 then 1 else 0), ba_offs = (ba_offs b + 1) AND 7\<rparr>"

record record_addr =
  ra_ptr :: nat
  ra_null :: bit_addr

definition record_addr_make :: "nat \<Rightarrow> nat \<Rightarrow> u8 \<Rightarrow> record_addr option" where
  "record_addr_make ptr null_ptr null_bit =
     map_option (\<lambda>b. \<lparr>ra_ptr = ptr, ra_null = b\<rparr>) (bit_addr_make null_ptr null_bit)"

definition ra_null_ptr :: "record_addr \<Rightarrow> nat" where "ra_null_ptr r = ba_ptr (ra_null r)"

definition ra_null_bit :: "record_addr \<Rightarrow> u8" where "ra_null_bit r = ba_bit (ra_null r)"

subsection \<open>Columns\<close>

text \<open>
  The members that place a column: \<open>null_row\<close>, \<open>maybe_null\<close>, \<open>record0\<close> and \<open>rec_buff_length\<close> are those of its
  table and of the table's share.
\<close>

record field =
  f_ptr :: nat
  f_null_ptr :: nat
  f_null_bit :: u8
  f_flags :: u32
  f_unireg_check :: nat
  f_null_row :: bool
  f_table_maybe_null :: bool
  f_record0 :: nat
  f_rec_buff_length :: nat

text \<open>\<open>p + d\<close> for a difference of addresses \<open>d\<close>.\<close>

definition shifted :: "nat \<Rightarrow> int \<Rightarrow> nat" where
  "shifted p d = nat (int p + d)"

definition fld_is_null :: "int \<Rightarrow> field \<Rightarrow> memory \<Rightarrow> bool" where
  "fld_is_null row_offset f m \<longleftrightarrow>
     (if f_null_ptr f \<noteq> 0 then m (shifted (f_null_ptr f) row_offset) AND f_null_bit f \<noteq> 0 else f_null_row f)"

definition is_real_null :: "int \<Rightarrow> field \<Rightarrow> memory \<Rightarrow> bool" where
  "is_real_null row_offset f m \<longleftrightarrow> f_null_ptr f \<noteq> 0 \<and> m (shifted (f_null_ptr f) row_offset) AND f_null_bit f \<noteq> 0"

definition fld_set_null :: "int \<Rightarrow> field \<Rightarrow> memory \<Rightarrow> memory" where
  "fld_set_null row_offset f m =
     (if f_null_ptr f \<noteq> 0
      then let a = shifted (f_null_ptr f) row_offset in m(a := m a OR f_null_bit f)
      else m)"

definition fld_set_notnull :: "int \<Rightarrow> field \<Rightarrow> memory \<Rightarrow> memory" where
  "fld_set_notnull row_offset f m =
     (if f_null_ptr f \<noteq> 0
      then let a = shifted (f_null_ptr f) row_offset in m(a := m a AND NOT (f_null_bit f))
      else m)"

definition fld_maybe_null :: "field \<Rightarrow> bool" where
  "fld_maybe_null f \<longleftrightarrow> f_null_ptr f \<noteq> 0 \<or> f_table_maybe_null f"

definition real_maybe_null :: "field \<Rightarrow> bool" where
  "real_maybe_null f \<longleftrightarrow> f_null_ptr f \<noteq> 0"

definition null_offset :: "nat \<Rightarrow> field \<Rightarrow> u32" where
  "null_offset record f = word_of_int (int (f_null_ptr f) - int record)"

definition maybe_null_in_table :: "field \<Rightarrow> bool" where
  "maybe_null_in_table f \<longleftrightarrow> f_record0 f \<le> f_null_ptr f \<and> f_null_ptr f \<le> f_ptr f"

definition is_null_in_record :: "nat \<Rightarrow> field \<Rightarrow> memory \<Rightarrow> bool" where
  "is_null_in_record record f m \<longleftrightarrow>
     maybe_null_in_table f \<and> m (record + unat (null_offset (f_record0 f) f)) AND f_null_bit f \<noteq> 0"

definition set_null_ptr :: "nat \<Rightarrow> u32 \<Rightarrow> field \<Rightarrow> field" where
  "set_null_ptr p_null_ptr p_null_bit f = f\<lparr>f_null_ptr := p_null_ptr, f_null_bit := ucast p_null_bit\<rparr>"

definition move_field :: "nat \<Rightarrow> nat \<Rightarrow> u8 \<Rightarrow> field \<Rightarrow> field" where
  "move_field ptr null_ptr null_bit f = f\<lparr>f_ptr := ptr, f_null_ptr := null_ptr, f_null_bit := null_bit\<rparr>"

definition move_field_ptr :: "nat \<Rightarrow> field \<Rightarrow> field" where
  "move_field_ptr ptr f = f\<lparr>f_ptr := ptr\<rparr>"

definition move_field_offset :: "int \<Rightarrow> field \<Rightarrow> field" where
  "move_field_offset ptr_diff f =
     (let f = f\<lparr>f_ptr := shifted (f_ptr f) ptr_diff\<rparr>
      in if f_null_ptr f \<noteq> 0 then f\<lparr>f_null_ptr := shifted (f_null_ptr f) ptr_diff\<rparr> else f)"

definition fld_offset :: "nat \<Rightarrow> field \<Rightarrow> u32" where
  "fld_offset record f = word_of_int (int (f_ptr f) - int record)"

definition ptr_in_record :: "nat \<Rightarrow> field \<Rightarrow> nat option" where
  "ptr_in_record record f =
     (let l_offset = int (f_ptr f) - int (f_record0 f)
      in guard (0 \<le> l_offset \<and> 0 < int (f_rec_buff_length f) - l_offset) (shifted record l_offset))"

text \<open>
  \<open>update_min\<close> and \<open>update_max\<close>: \<open>cmp\<close> compares the values at two addresses, \<open>n\<close> is \<open>pack_length ()\<close>. \<open>memcpy\<close>
  reads all bytes before it writes, as it may for buffers that do not overlap.
\<close>

definition mem_copy :: "nat \<Rightarrow> nat \<Rightarrow> nat \<Rightarrow> memory \<Rightarrow> memory" where
  "mem_copy to from n m = (\<lambda>a. if to \<le> a \<and> a < to + n then m (from + (a - to)) else m a)"

definition update_min :: "(nat \<Rightarrow> nat \<Rightarrow> memory \<Rightarrow> int) \<Rightarrow> nat \<Rightarrow> field \<Rightarrow> bool \<Rightarrow> field \<Rightarrow> memory \<Rightarrow> bool \<times> memory" where
  "update_min cmp n min_val force_update f m =
     (let update_fl = force_update \<or> cmp (f_ptr f) (f_ptr min_val) m < 0
      in if update_fl then (True, mem_copy (f_ptr min_val) (f_ptr f) n (fld_set_notnull 0 min_val m)) else (False, m))"

definition update_max :: "(nat \<Rightarrow> nat \<Rightarrow> memory \<Rightarrow> int) \<Rightarrow> nat \<Rightarrow> field \<Rightarrow> bool \<Rightarrow> field \<Rightarrow> memory \<Rightarrow> bool \<times> memory" where
  "update_max cmp n max_val force_update f m =
     (let update_fl = force_update \<or> cmp (f_ptr f) (f_ptr max_val) m > 0
      in if update_fl then (True, mem_copy (f_ptr max_val) (f_ptr f) n (fld_set_notnull 0 max_val m)) else (False, m))"

text \<open>Flags of a column, with the constants of \<open>mysql_com.h\<close>.\<close>

definition FIELD_FLAGS_STORAGE_MEDIA :: nat where "FIELD_FLAGS_STORAGE_MEDIA = 22"
definition FIELD_FLAGS_COLUMN_FORMAT :: nat where "FIELD_FLAGS_COLUMN_FORMAT = 24"
definition ON_UPDATE_NOW_FLAG :: u32 where "ON_UPDATE_NOW_FLAG = 8192"
definition VERS_ROW_START :: u32 where "VERS_ROW_START = push_bit 27 1"
definition VERS_ROW_END :: u32 where "VERS_ROW_END = push_bit 28 1"
definition VERS_UPDATE_UNVERSIONED_FLAG :: u32 where "VERS_UPDATE_UNVERSIONED_FLAG = push_bit 29 1"

definition field_storage_type :: "field \<Rightarrow> u32" where
  "field_storage_type f = drop_bit FIELD_FLAGS_STORAGE_MEDIA (f_flags f) AND 3"

definition set_storage_type :: "u32 \<Rightarrow> field \<Rightarrow> field option" where
  "set_storage_type t f = guard (field_storage_type f = 0)
     (f\<lparr>f_flags := f_flags f OR push_bit FIELD_FLAGS_STORAGE_MEDIA t\<rparr>)"

definition column_format :: "field \<Rightarrow> u32" where
  "column_format f = drop_bit FIELD_FLAGS_COLUMN_FORMAT (f_flags f) AND 3"

definition set_column_format :: "u32 \<Rightarrow> field \<Rightarrow> field option" where
  "set_column_format t f = guard (column_format f = 0)
     (f\<lparr>f_flags := f_flags f OR push_bit FIELD_FLAGS_COLUMN_FORMAT t\<rparr>)"

definition vers_sys_field :: "field \<Rightarrow> bool" where
  "vers_sys_field f \<longleftrightarrow> f_flags f AND (VERS_ROW_START OR VERS_ROW_END) \<noteq> 0"

definition vers_sys_start :: "field \<Rightarrow> bool" where
  "vers_sys_start f \<longleftrightarrow> f_flags f AND VERS_ROW_START \<noteq> 0"

definition vers_sys_end :: "field \<Rightarrow> bool" where
  "vers_sys_end f \<longleftrightarrow> f_flags f AND VERS_ROW_END \<noteq> 0"

definition vers_update_unversioned :: "field \<Rightarrow> bool" where
  "vers_update_unversioned f \<longleftrightarrow> f_flags f AND VERS_UPDATE_UNVERSIONED_FLAG \<noteq> 0"

definition has_update_default_function :: "field \<Rightarrow> bool" where
  "has_update_default_function f \<longleftrightarrow> f_flags f AND ON_UPDATE_NOW_FLAG \<noteq> 0"

text \<open>\<open>TIMESTAMP_DN_FIELD\<close> is 21, \<open>TIMESTAMP_DNUN_FIELD\<close> 23.\<close>

definition has_default_now_unireg_check :: "field \<Rightarrow> bool" where
  "has_default_now_unireg_check f \<longleftrightarrow> f_unireg_check f = 21 \<or> f_unireg_check f = 23"

subsection \<open>Integers of variable width\<close>

definition number_storage_requirement :: "u32 \<Rightarrow> u8" where
  "number_storage_requirement n = (if n < 256 then 1 else if n < 65536 then 2 else if n < 16777216 then 3 else 4)"

definition store_bigendian :: "u64 \<Rightarrow> u32 \<Rightarrow> u8 list option" where
  "store_bigendian num bytes =
     (if bytes = 1 then Some (mi_int1store (ucast num)) else if bytes = 2 then Some (mi_int2store (ucast num))
      else if bytes = 3 then Some (mi_int3store num) else if bytes = 4 then Some (mi_int4store num)
      else if bytes = 5 then Some (mi_int5store num) else if bytes = 6 then Some (mi_int6store num)
      else if bytes = 7 then Some (mi_int7store num) else if bytes = 8 then Some (mi_int8store num)
      else None)"

definition read_bigendian :: "u8 list \<Rightarrow> u32 \<Rightarrow> u64 option" where
  "read_bigendian from bytes = do {
     guard (unat bytes \<le> length from) ();
     if bytes = 1 then Some (ucast (mi_uint1korr from)) else if bytes = 2 then Some (ucast (mi_uint2korr from))
     else if bytes = 3 then Some (ucast (mi_uint3korr from)) else if bytes = 4 then Some (ucast (mi_uint4korr from))
     else if bytes = 5 then Some (mi_uint5korr from) else if bytes = 6 then Some (mi_uint6korr from)
     else if bytes = 7 then Some (mi_uint7korr from) else if bytes = 8 then Some (mi_sint8korr from)
     else None }"

definition store_lowendian :: "u64 \<Rightarrow> u32 \<Rightarrow> u8 list option" where
  "store_lowendian num bytes =
     (if bytes = 1 then Some [ucast num] else if bytes = 2 then Some (int2store (ucast num))
      else if bytes = 3 then Some (int3store (ucast num)) else if bytes = 4 then Some (int4store (ucast num))
      else if bytes = 8 then Some (int8store num)
      else None)"

definition read_lowendian :: "u8 list \<Rightarrow> u32 \<Rightarrow> u64 option" where
  "read_lowendian from bytes = do {
     guard (unat bytes \<le> length from) ();
     if bytes = 1 then Some (ucast (from ! 0)) else if bytes = 2 then Some (ucast (uint2korr from))
     else if bytes = 3 then Some (ucast (uint3korr from)) else if bytes = 4 then Some (ucast (uint4korr from))
     else if bytes = 8 then Some (sint8korr from)
     else None }"

definition get_enum_pack_length :: "int \<Rightarrow> u32" where
  "get_enum_pack_length elements = (if elements < 256 then 1 else 2)"

definition get_set_pack_length :: "int \<Rightarrow> u32" where
  "get_set_pack_length elements = (let len = word_of_int ((elements + 7) sdiv 8) in if len > 4 then 8 else len)"

text \<open>\<open>pack_int\<close> answers the bytes it writes; \<open>unpack_int\<close> the bytes written and the rest of its input.\<close>

definition pack_int :: "u8 list \<Rightarrow> nat \<Rightarrow> u8 list option" where
  "pack_int from n = guard (n \<le> length from) (take n from)"

definition unpack_int :: "u8 list \<Rightarrow> nat \<Rightarrow> (u8 list \<times> u8 list) option" where
  "unpack_int from n = (if n > length from then None else Some (take n from, drop n from))"

text \<open>\<open>longlong_from_hex_hybrid\<close>: the loop from \<open>ptr\<close> to \<open>end\<close>.\<close>

definition longlong_from_hex_hybrid :: "u8 list \<Rightarrow> u64" where
  "longlong_from_hex_hybrid str =
     fold (\<lambda>c value. push_bit 8 value + ucast c) (drop (length str - min (length str) 8) str) 0"

definition val_uint :: "u64 \<Rightarrow> u64" where
  "val_uint nr = (if nr <s 0 then 0 else nr)"

definition int_val_uint :: "bool \<Rightarrow> u64 \<Rightarrow> u64" where
  "int_val_uint unsigned_flag nr = (if nr <s 0 \<and> \<not> unsigned_flag then 0 else nr)"

text \<open>\<open>value_length\<close> of a CHAR column that is not zero-packed: the trailing spaces are left out.\<close>

function strip_spaces :: "u8 list \<Rightarrow> nat \<Rightarrow> nat" where
  "strip_spaces str end_pos =
     (if 0 < end_pos \<and> str ! (end_pos - 1) = 32 then strip_spaces str (end_pos - 1) else end_pos)"
  by pat_completeness auto
termination by (relation "measure snd") auto

declare strip_spaces.simps [simp del]

definition value_length :: "bool \<Rightarrow> bool \<Rightarrow> u8 list \<Rightarrow> nat \<Rightarrow> nat" where
  "value_length zero_pack is_char str data_length =
     (if \<not> zero_pack \<and> is_char \<and> 4 \<le> length str \<and> length str < 256 then strip_spaces str (length str) else data_length)"

subsection \<open>Strings and blobs\<close>

text \<open>\<open>Field_varstring\<close>: a length of one or two bytes before the data.\<close>

definition vs_length_bytes :: "u32 \<Rightarrow> u32" where
  "vs_length_bytes len_arg = (if len_arg < 256 then 1 else 2)"

definition vs_get_length :: "u32 \<Rightarrow> u8 list \<Rightarrow> u32 option" where
  "vs_get_length length_bytes ptr =
     (if length_bytes = 1 then guard (1 \<le> length ptr) (ucast (ptr ! 0))
      else guard (2 \<le> length ptr) (ucast (uint2korr ptr)))"

definition vs_store_length :: "u32 \<Rightarrow> u32 \<Rightarrow> u8 list" where
  "vs_store_length length_bytes number = (if length_bytes = 1 then [ucast number] else int2store number)"

definition vs_get_data :: "u32 \<Rightarrow> u8 list \<Rightarrow> u8 list" where
  "vs_get_data length_bytes ptr = drop (unat length_bytes) ptr"

definition vs_pack_length :: "u32 \<Rightarrow> u32 \<Rightarrow> u32" where
  "vs_pack_length field_length length_bytes = field_length + length_bytes"

text \<open>\<open>Field_blob\<close>: the widths of the length; \<open>ptr_size\<close> is \<open>portable_sizeof_char_ptr\<close>.\<close>

definition blob_packlength :: "u32 \<Rightarrow> bool \<Rightarrow> u32" where
  "blob_packlength len_arg set_packlength = (if set_packlength then ucast (number_storage_requirement len_arg) else 4)"

definition blob_pack_length :: "u32 \<Rightarrow> u32 \<Rightarrow> u32" where
  "blob_pack_length ptr_size packlength = packlength + ptr_size"

definition blob_max_data_length :: "u32 \<Rightarrow> u32 option" where
  "blob_max_data_length packlength =
     guard (packlength * 8 < 64) (ucast (push_bit (unat (packlength * 8)) (1 :: u64) - 1))"

subsection \<open>Bits of BIT columns and lengths in keys\<close>

text \<open>
  The shifts of \<open>int\<close> values: \<open>ofs\<close> is below 8 and \<open>len\<close> at most 8 where they are called. \<open>len - 8 +
  ofs\<close> of the code is computed in \<open>unsigned int\<close>; the wrap-around cancels, and it is \<open>len + ofs - 8\<close>.
\<close>

definition get_rec_bits :: "u8 list \<Rightarrow> nat \<Rightarrow> nat \<Rightarrow> u8 option" where
  "get_rec_bits ptr ofs len = do {
     guard (1 \<le> length ptr \<and> (ofs + len \<le> 8 \<or> 2 \<le> length ptr)) ();
     let val = (ucast (ptr ! 0) :: u16);
     let val = (if ofs + len > 8 then val OR push_bit 8 (ucast (ptr ! 1)) else val);
     Some (ucast (drop_bit ofs (ucast val :: u32) AND (push_bit len 1 - 1))) }"

definition set_rec_bits :: "u16 \<Rightarrow> u8 list \<Rightarrow> nat \<Rightarrow> nat \<Rightarrow> u8 list option" where
  "set_rec_bits bits ptr ofs len = do {
     guard (1 \<le> length ptr \<and> (ofs + len \<le> 8 \<or> 2 \<le> length ptr)) ();
     let ptr = ptr[0 := ucast ((ucast (ptr ! 0) AND NOT (push_bit ofs (push_bit len 1 - 1))) OR
                 push_bit ofs (ucast bits :: u32))];
     Some (if ofs + len > 8
           then ptr[1 := ucast ((ucast (ptr ! 1) AND NOT (push_bit (len + ofs - 8) 1 - 1)) OR
                  drop_bit (8 - ofs) (ucast bits :: u32))]
           else ptr) }"

definition clr_rec_bits :: "u8 list \<Rightarrow> nat \<Rightarrow> nat \<Rightarrow> u8 list option" where
  "clr_rec_bits bit_ptr bit_ofs bit_len = set_rec_bits 0 bit_ptr bit_ofs bit_len"

definition size_to_store_key_length :: "u32 \<Rightarrow> nat" where
  "size_to_store_key_length len = (if len < 255 then 1 else 3)"

definition store_key_length_inc :: "u32 \<Rightarrow> u8 list" where
  "store_key_length_inc len = (if len < 255 then [ucast len] else 255 # mi_int2store len)"

text \<open>The length, the bytes it takes and the rest of the key.\<close>

definition get_key_pack_length :: "u8 list \<Rightarrow> (u32 \<times> nat \<times> u8 list) option" where
  "get_key_pack_length key = do {
     guard (1 \<le> length key) ();
     if key ! 0 \<noteq> 255 then Some (ucast (key ! 0), 1, drop 1 key)
     else guard (3 \<le> length key) (ucast (mi_uint2korr (drop 1 key)), 3, drop 3 key) }"

definition get_key_length :: "u8 list \<Rightarrow> (u32 \<times> u8 list) option" where
  "get_key_length key = do {
     guard (1 \<le> length key) ();
     if key ! 0 \<noteq> 255 then Some (ucast (key ! 0), drop 1 key)
     else guard (3 \<le> length key) (ucast (mi_uint2korr (drop 1 key)), drop 3 key) }"

definition get_key_length_rdonly :: "u8 list \<Rightarrow> u32 option" where
  "get_key_length_rdonly key = do {
     guard (1 \<le> length key) ();
     if key ! 0 \<noteq> 255 then Some (ucast (key ! 0))
     else guard (3 \<le> length key) (ucast (mi_uint2korr (drop 1 key))) }"

subsection \<open>Null bits as a set\<close>

text \<open>The address of a bit in the whole memory, and the bit that \<open>n\<close> calls of \<open>inc\<close> reach.\<close>

definition bit_pos :: "bit_addr \<Rightarrow> nat" where
  "bit_pos b = 8 * ba_ptr b + unat (ba_offs b)"

fun nth_bit :: "bit_addr \<Rightarrow> nat \<Rightarrow> bit_addr option" where
  "nth_bit b 0 = Some b"
| "nth_bit b (Suc n) = Option.bind (nth_bit b n) ba_inc"

definition bit_addr_ok :: "bit_addr \<Rightarrow> bool" where
  "bit_addr_ok b \<longleftrightarrow> ba_ptr b \<noteq> 0 \<and> ba_offs b < 8"

lemma small_offset_cases: "(o' :: u8) < 8 \<Longrightarrow> o' = 0 \<or> o' = 1 \<or> o' = 2 \<or> o' = 3 \<or> o' = 4 \<or> o' = 5 \<or> o' = 6 \<or> o' = 7"
proof -
  assume "o' < 8"
  then have "unat o' < 8" by (simp add: word_less_nat_alt)
  then have "unat o' \<in> {0, 1, 2, 3, 4, 5, 6, 7}" by auto
  then show ?thesis by (auto simp: word_unat_eq_iff)
qed

lemma ba_inc_pos:
  assumes "bit_addr_ok b"
  shows "\<exists>b'. ba_inc b = Some b' \<and> bit_addr_ok b' \<and> bit_pos b' = Suc (bit_pos b)"
  using assms small_offset_cases [of "ba_offs b"]
  by (auto simp: bit_addr_ok_def ba_inc_def bit_pos_def)

lemma nth_bit_pos:
  "bit_addr_ok b \<Longrightarrow> \<exists>b'. nth_bit b n = Some b' \<and> bit_addr_ok b' \<and> bit_pos b' = bit_pos b + n"
proof (induction n)
  case (Suc n)
  then obtain b' where b': "nth_bit b n = Some b'" "bit_addr_ok b'" "bit_pos b' = bit_pos b + n" by blast
  from ba_inc_pos [OF b'(2)] show ?case using b' by auto
qed simp

lemma bit_pos_parts: "bit_addr_ok b \<Longrightarrow> ba_ptr b = bit_pos b div 8 \<and> unat (ba_offs b) = bit_pos b mod 8"
  by (auto simp: bit_addr_ok_def bit_pos_def word_less_nat_alt)

text \<open>The column that gets the \<open>n\<close>-th null bit from \<open>base\<close> on.\<close>

definition column :: "bit_addr \<Rightarrow> nat \<Rightarrow> field \<Rightarrow> field" where
  "column base n f = (case nth_bit base n of
     Some b \<Rightarrow> move_field (f_ptr f) (ba_ptr b) (ba_bit b) f
   | None \<Rightarrow> f)"

definition null_columns :: "bit_addr \<Rightarrow> int \<Rightarrow> nat \<Rightarrow> field \<Rightarrow> memory \<Rightarrow> nat set" where
  "null_columns base d N f m = {n. n < N \<and> is_real_null d (column base n f) m}"

definition row_ok :: "bit_addr \<Rightarrow> int \<Rightarrow> bool" where
  "row_ok base d \<longleftrightarrow> bit_addr_ok base \<and> 0 \<le> int (ba_ptr base) + d"

lemma column_bit:
  assumes "row_ok base d"
  shows "\<exists>p k. f_null_ptr (column base n f) = p \<and> p \<noteq> 0 \<and> f_null_bit (column base n f) = push_bit k 1 \<and> k < 8 \<and>
    8 * p + k = bit_pos base + n \<and> shifted p d = p - ba_ptr base + nat (int (ba_ptr base) + d)"
proof -
  obtain b where b: "nth_bit base n = Some b" "bit_addr_ok b" "bit_pos b = bit_pos base + n"
    using nth_bit_pos [of base n] assms by (auto simp: row_ok_def)
  have k: "unat (ba_offs b) < 8" using b(2) by (simp add: bit_addr_ok_def word_less_nat_alt)
  have bit: "ba_bit b = push_bit (unat (ba_offs b)) 1"
    using b(2) k by (simp add: ba_bit_def bit_addr_ok_def) (rule bit_word_eqI, simp add: bit_simps)
  have "ba_ptr base \<le> ba_ptr b"
  proof -
    have "unat (ba_offs base) < 8" using assms by (simp add: row_ok_def bit_addr_ok_def word_less_nat_alt)
    then show ?thesis using b(3) k by (simp add: bit_pos_def)
  qed
  then have "shifted (ba_ptr b) d = ba_ptr b - ba_ptr base + nat (int (ba_ptr base) + d)"
  proof -
    obtain c where c: "ba_ptr b = ba_ptr base + c" using \<open>ba_ptr base \<le> ba_ptr b\<close> le_Suc_ex by blast
    have "int (ba_ptr base + c) + d = int c + (int (ba_ptr base) + d)" by simp
    then show ?thesis using assms by (simp only: shifted_def c row_ok_def nat_add_distrib of_nat_0_le_iff)
  qed
  then show ?thesis
    using b bit k by (auto simp: column_def move_field_def bit_addr_ok_def bit_pos_def)
qed

lemma real_null_bit:
  "f_null_ptr f = p \<Longrightarrow> p \<noteq> 0 \<Longrightarrow> f_null_bit f = push_bit k 1 \<Longrightarrow> k < 8 \<Longrightarrow> is_real_null d f m \<longleftrightarrow> bit (m (shifted p d)) k"
  by (auto simp: is_real_null_def bit_eq_iff [where 'a = u8] bit_and_iff bit_exp_iff)

lemma column_update:
  assumes "row_ok base d"
  shows "is_real_null d (column base j f) (fld_set_null d (column base n f) m) \<longleftrightarrow> j = n \<or> is_real_null d (column base j f) m"
    "is_real_null d (column base j f) (fld_set_notnull d (column base n f) m) \<longleftrightarrow> j \<noteq> n \<and> is_real_null d (column base j f) m"
proof -
  obtain p k where n: "f_null_ptr (column base n f) = p" "p \<noteq> 0" "f_null_bit (column base n f) = push_bit k 1" "k < 8"
      "8 * p + k = bit_pos base + n" "shifted p d = p - ba_ptr base + nat (int (ba_ptr base) + d)"
    using column_bit [OF assms] by blast
  obtain q l where j: "f_null_ptr (column base j f) = q" "q \<noteq> 0" "f_null_bit (column base j f) = push_bit l 1" "l < 8"
      "8 * q + l = bit_pos base + j" "shifted q d = q - ba_ptr base + nat (int (ba_ptr base) + d)"
    using column_bit [OF assms] by blast
  have base: "ba_ptr base \<le> p" "ba_ptr base \<le> q" using n(4,5) j(4,5) by (simp_all add: bit_pos_def)
  have parts: "p = (bit_pos base + n) div 8" "k = (bit_pos base + n) mod 8" "q = (bit_pos base + j) div 8"
      "l = (bit_pos base + j) mod 8"
    using n(4) j(4) unfolding n(5) [symmetric] j(5) [symmetric] by simp_all
  have "shifted q d = shifted p d \<longleftrightarrow> p = q" using base n(6) j(6) by auto
  moreover have "p = q \<and> l = k \<Longrightarrow> j = n" using n(5) j(5) by simp
  moreover have "j = n \<Longrightarrow> p = q \<and> l = k" using parts by simp
  ultimately have same: "shifted q d = shifted p d \<and> l = k \<longleftrightarrow> j = n" by blast
  note bits = real_null_bit [OF j(1-4)]
  show "is_real_null d (column base j f) (fld_set_null d (column base n f) m) \<longleftrightarrow> j = n \<or> is_real_null d (column base j f) m"
    unfolding bits using n(1-4) same j(4)
    by (auto simp: fld_set_null_def Let_def bit_or_iff bit_exp_iff)
  show "is_real_null d (column base j f) (fld_set_notnull d (column base n f) m) \<longleftrightarrow> j \<noteq> n \<and> is_real_null d (column base j f) m"
    unfolding bits using n(1-4) same j(4)
    by (auto simp: fld_set_notnull_def Let_def bit_and_iff bit_not_iff bit_exp_iff)
qed

interpretation null_bits: number_set N "\<lambda>m. row_ok base d" "null_columns base d N f"
    "\<lambda>n m. Some (fld_set_null d (column base n f) m)" "\<lambda>n m. Some (fld_set_notnull d (column base n f) m)"
    "\<lambda>n m. Some (is_real_null d (column base n f) m)"
  by unfold_locales (auto simp: null_columns_def column_update)

lemma moved_column:
  assumes "0 < int (f_null_ptr f) + d"
  shows "fld_is_null 0 (move_field_offset d f) m = fld_is_null d f m"
  using assms by (auto simp: fld_is_null_def move_field_offset_def Let_def shifted_def)

lemma null_frame:
  "m' = fld_set_null d f m \<or> m' = fld_set_notnull d f m \<Longrightarrow> a \<noteq> shifted (f_null_ptr f) d \<Longrightarrow> m' a = m a"
  by (auto simp: fld_set_null_def fld_set_notnull_def Let_def)

subsection \<open>Integers of variable width\<close>

lemma le_bytes_narrow:
  assumes "8 * n \<le> LENGTH('b)"
  shows "le_bytes n (ucast (v :: 'a::len word) :: 'b::len word) = le_bytes n v"
proof (rule nth_equalityI)
  fix i assume "i < length (le_bytes n (ucast v :: 'b word))"
  then have "8 * i + 8 \<le> LENGTH('b)" "i < n" using assms by auto
  then show "le_bytes n (ucast v :: 'b word) ! i = le_bytes n v ! i"
    by (simp add: nth_le_bytes) (rule bit_word_eqI, auto simp: bit_simps dest: word_bit_bound)
qed simp

lemma be_bytes_narrow: "8 * n \<le> LENGTH('b) \<Longrightarrow> be_bytes n (ucast (v :: 'a::len word) :: 'b::len word) = be_bytes n v"
  by (simp add: be_bytes_def le_bytes_narrow)

lemma one_byte: "le_bytes (Suc 0) v = [ucast v]" "be_bytes (Suc 0) v = [ucast v]"
  "bs \<noteq> [] \<Longrightarrow> be_word (take (Suc 0) bs) = ucast (bs ! 0)" "bs \<noteq> [] \<Longrightarrow> le_word (take (Suc 0) bs) = ucast (bs ! 0)"
  "be_word [b] = ucast b" "le_word [b] = ucast b"
  by (simp_all add: be_bytes_def le_bytes_def be_word_def take_Suc hd_conv_nth)

lemma be_word_wide:
  "8 * length bs \<le> LENGTH('a) \<Longrightarrow> LENGTH('a) \<le> LENGTH('b) \<Longrightarrow> (ucast (be_word bs :: 'a::len word) :: 'b::len word) = be_word bs"
  by (simp add: be_word_def ucast_le_word)

lemma width_cases:
  assumes "1 \<le> (n :: u32)" "n \<le> 8"
  shows "n = 1 \<or> n = 2 \<or> n = 3 \<or> n = 4 \<or> n = 5 \<or> n = 6 \<or> n = 7 \<or> n = 8"
proof -
  have "1 \<le> unat n" "unat n \<le> 8" using assms by (simp_all add: word_le_nat_alt)
  then have "unat n \<in> {1, 2, 3, 4, 5, 6, 7, 8}" by auto
  then show ?thesis by (auto simp: word_unat_eq_iff)
qed

lemma store_bigendian_bytes: "1 \<le> n \<Longrightarrow> n \<le> 8 \<Longrightarrow> store_bigendian num n = Some (be_bytes (unat n) num)"
  using width_cases [of n]
  by (auto simp: store_bigendian_def mi_int1store_def one_byte be_stores be_bytes_narrow)

lemma read_bigendian_bytes:
  "1 \<le> n \<Longrightarrow> n \<le> 8 \<Longrightarrow> unat n \<le> length bs \<Longrightarrow> read_bigendian bs n = Some (be_word (take (unat n) bs))"
  using width_cases [of n]
  by (auto simp: read_bigendian_def mi_sint8korr_def be_reads bswap_reads be_word_wide mi_uint1korr_def one_byte Suc_le_length_iff)

lemma store_lowendian_bytes: "n \<in> {1, 2, 3, 4, 8} \<Longrightarrow> store_lowendian num n = Some (le_bytes (unat n) num)"
  by (auto simp: store_lowendian_def one_byte le_stores le_bytes_narrow)

lemma read_lowendian_bytes:
  "n \<in> {1, 2, 3, 4, 8} \<Longrightarrow> unat n \<le> length bs \<Longrightarrow> read_lowendian bs n = Some (le_word (take (unat n) bs))"
  by (auto simp: read_lowendian_def sint8korr_def uint8korr_def [symmetric] le_reads ucast_le_word one_byte Suc_le_length_iff)

lemma storage_requirement:
  "unat n < 256 ^ unat (number_storage_requirement n) \<and>
   (\<forall>k. 1 \<le> k \<and> unat n < 256 ^ k \<longrightarrow> unat (number_storage_requirement n) \<le> k)"
proof -
  have grow: "(256::nat) ^ k \<le> 256 ^ j" if "k \<le> j" for k j :: nat using that by (intro power_increasing) auto
  have "unat n < 2 ^ 32" using unat_bound [of n] by simp
  then have "unat n < 256 ^ unat (number_storage_requirement n)"
    by (auto simp: number_storage_requirement_def word_less_nat_alt)
  moreover have "unat (number_storage_requirement n) \<le> k" if k: "1 \<le> k" "unat n < 256 ^ k" for k
  proof (rule ccontr)
    assume "\<not> unat (number_storage_requirement n) \<le> k"
    then have "256 ^ k \<le> (256::nat) ^ (unat (number_storage_requirement n) - 1)"
      "2 \<le> unat (number_storage_requirement n)" using k(1) grow by auto
    moreover have "2 \<le> unat (number_storage_requirement n) \<Longrightarrow> 256 ^ (unat (number_storage_requirement n) - 1) \<le> unat n"
      by (auto simp: number_storage_requirement_def word_less_nat_alt)
    ultimately show False using k(2) by linarith
  qed
  ultimately show ?thesis by blast
qed

lemma pack_lengths:
  "0 \<le> e \<Longrightarrow> e < 65536 \<Longrightarrow> e < 256 ^ unat (get_enum_pack_length e)"
  "0 \<le> e \<Longrightarrow> e \<le> 64 \<Longrightarrow> e \<le> 8 * uint (get_set_pack_length e) \<and> get_set_pack_length e \<in> {0, 1, 2, 3, 4, 8}"
proof -
  show "e < 256 ^ unat (get_enum_pack_length e)" if "0 \<le> e" "e < 65536"
    using that by (simp add: get_enum_pack_length_def)
  show "e \<le> 8 * uint (get_set_pack_length e) \<and> get_set_pack_length e \<in> {0, 1, 2, 3, 4, 8}" if e: "0 \<le> e" "e \<le> 64"
  proof -
    have "(e + 7) sdiv 8 = (e + 7) div 8" using e by (simp add: signed_divide_int_def sgn_if)
    moreover have "0 \<le> (e + 7) div 8" "(e + 7) div 8 \<le> 8" "e \<le> 8 * ((e + 7) div 8)" using e by linarith+
    moreover have "(e + 7) div 8 \<in> {0, 1, 2, 3, 4, 5, 6, 7, 8}" using calculation(2,3) by auto
    ultimately show ?thesis using e by (auto simp: get_set_pack_length_def)
  qed
qed

text \<open>
  Integers of one to eight bytes high byte first, and of 1, 2, 3, 4 and 8 bytes low byte first, are
  read as they were stored, whatever follows them; \<open>number_storage_requirement\<close> is the least number of
  bytes that holds a length, so a length stored with it is read back exactly; other widths fail the
  assertion.
\<close>

lemma integers_of_any_width:
  assumes "1 \<le> n" "n \<le> 8"
  shows "\<exists>bs. store_bigendian num n = Some bs \<and> length bs = unat n \<and>
      read_bigendian (bs @ rest) n = Some (take_bit (8 * unat n) num) \<and>
      (if n \<in> {1, 2, 3, 4, 8}
       then store_lowendian num n = Some (rev bs) \<and> read_lowendian (rev bs @ rest) n = Some (take_bit (8 * unat n) num)
       else store_lowendian num n = None \<and> read_lowendian rest n = None) \<and>
      (\<exists>cs. store_lowendian (ucast len) (ucast (number_storage_requirement len)) = Some cs \<and>
        length cs = unat (number_storage_requirement len) \<and>
        read_lowendian (cs @ rest) (ucast (number_storage_requirement len)) = Some (ucast len) \<and>
        (\<forall>k. 1 \<le> k \<and> unat len < 256 ^ k \<longrightarrow> length cs \<le> k))"
proof -
  have r: "store_bigendian num n = Some (be_bytes (unat n) num)"
    "read_bigendian (be_bytes (unat n) num @ rest) n = Some (take_bit (8 * unat n) num)"
    using store_bigendian_bytes [OF assms] read_bigendian_bytes [OF assms] by (simp_all add: be_word_be_bytes)
  have l: "store_lowendian v k = Some (le_bytes (unat k) v) \<and>
      read_lowendian (le_bytes (unat k) v @ rest) k = Some (take_bit (8 * unat k) v)" if "k \<in> {1, 2, 3, 4, 8}" for k v
    using store_lowendian_bytes [OF that] read_lowendian_bytes [OF that] by (simp add: le_word_le_bytes)
  have none: "store_lowendian num n = None \<and> read_lowendian rest n = None" if "n \<notin> {1, 2, 3, 4, 8}"
    using that by (auto simp: store_lowendian_def read_lowendian_def)
  let ?q = "number_storage_requirement len"
  have q: "(ucast ?q :: u32) \<in> {1, 2, 3, 4, 8}" "unat (ucast ?q :: u32) = unat ?q"
    by (auto simp: number_storage_requirement_def)
  have "take_bit (8 * unat ?q) (ucast len :: u64) = ucast len"
  proof -
    have "unat len < 2 ^ (8 * unat ?q)" using storage_requirement [of len] by (simp add: power_mult)
    then have "unat (ucast len :: u64) < 2 ^ (8 * unat ?q)"
      using unat_bound [of len] by (simp add: unsigned_ucast_eq take_bit_nat_eq_self)
    then show ?thesis by (simp add: word_unat_eq_iff unsigned_take_bit_eq take_bit_nat_eq_self)
  qed
  then have "\<exists>cs. store_lowendian (ucast len) (ucast ?q) = Some cs \<and> length cs = unat ?q \<and>
      read_lowendian (cs @ rest) (ucast ?q) = Some (ucast len) \<and> (\<forall>k. 1 \<le> k \<and> unat len < 256 ^ k \<longrightarrow> length cs \<le> k)"
    using l [OF q(1), of "ucast len"] storage_requirement [of len] q(2) by auto
  then show ?thesis using r l [of n num] none by (auto simp: be_bytes_def)
qed

lemma integers_of_any_width_witness:
  "\<exists>bs. store_bigendian 0x010203 3 = Some bs \<and> read_bigendian (bs @ [7]) 3 = Some 0x010203"
  using integers_of_any_width [of 3 "0x010203" "[7]" 0] by (auto simp: take_bit_eq_mod)

subsection \<open>Bits between bytes\<close>

lemma low_bits_mask:
  assumes "len \<le> 8"
  shows "bit (2 ^ len - 1 :: u32) j \<longleftrightarrow> j < len"
proof -
  have b: "2 ^ len - 1 = (mask len :: u32)" by (simp add: mask_eq_exp_minus_1)
  show ?thesis unfolding b using assms by (auto simp: bit_mask_iff)
qed

text \<open>Bit \<open>ofs + j\<close> of two bytes.\<close>

definition pair_bit :: "u8 list \<Rightarrow> nat \<Rightarrow> bool" where
  "pair_bit p i \<longleftrightarrow> (if i < 8 then bit (p ! 0) i else bit (p ! 1) (i - 8))"

lemma get_rec_bits_bit:
  assumes "ofs < 8" "len \<le> 8" "2 \<le> length p"
  shows "\<exists>v. get_rec_bits p ofs len = Some v \<and> (\<forall>j. bit v j \<longleftrightarrow> j < len \<and> pair_bit p (ofs + j))"
proof -
  let ?v = "(if ofs + len > 8 then (ucast (p ! 0) :: u16) OR push_bit 8 (ucast (p ! 1)) else ucast (p ! 0))"
  have v: "bit ?v (ofs + j) \<longleftrightarrow> pair_bit p (ofs + j)" if "j < len" for j
    using that assms(1,2) by (auto simp: pair_bit_def bit_simps dest: word_bit_bound)
  have "bit (ucast (drop_bit ofs (ucast ?v :: u32) AND (2 ^ len - 1)) :: u8) j \<longleftrightarrow> j < len \<and> pair_bit p (ofs + j)" for j
    unfolding bit_unsigned_iff bit_and_iff bit_drop_bit_eq low_bits_mask [OF assms(2)] comp_def
    using v [of j] assms(1,2) by auto
  then show ?thesis using assms(3) by (simp add: get_rec_bits_def Let_def guard_def)
qed

lemma value_bits:
  assumes "unat bits < 2 ^ len" "len \<le> j"
  shows "\<not> bit (bits :: 'a::len word) j"
proof
  assume "bit bits j"
  then have "odd (unat bits div 2 ^ j)" by (simp add: bit_unat_iff [symmetric] bit_iff_odd)
  then have "2 ^ j \<le> unat bits" by (metis div_less even_zero not_le)
  moreover have "(2::nat) ^ len \<le> 2 ^ j" using assms(2) by simp
  ultimately show False using assms(1) by linarith
qed

lemma first_byte_bit:
  assumes "ofs < 8" "len \<le> 8" "i < 8" "unat bits < 2 ^ len"
  shows "bit (ucast ((ucast (a :: u8) AND NOT (push_bit ofs (2 ^ len - 1))) OR push_bit ofs (ucast (bits :: u16) :: u32)) :: u8) i
    \<longleftrightarrow> (if ofs \<le> i \<and> i < ofs + len then bit bits (i - ofs) else bit a i)"
  using assms(1-3) value_bits [OF assms(4)]
  by (auto simp: bit_unsigned_iff bit_or_iff bit_and_iff bit_not_iff bit_push_bit_iff low_bits_mask dest: word_bit_bound)

lemma second_byte_bit:
  assumes "ofs < 8" "len \<le> 8" "8 < ofs + len" "i < 8" "unat bits < 2 ^ len"
  shows "bit (ucast ((ucast (a :: u8) AND NOT (2 ^ (len + ofs - 8) - 1)) OR drop_bit (8 - ofs) (ucast (bits :: u16) :: u32)) :: u8) i
    \<longleftrightarrow> (if 8 + i < ofs + len then bit bits (8 + i - ofs) else bit a i)"
proof -
  have m: "len + ofs - 8 \<le> 8" using assms(1,2) by simp
  have j: "bit (bits :: u16) (8 - ofs + i) \<longleftrightarrow> (if 8 + i < ofs + len then bit bits (8 + i - ofs) else False)"
    using assms(1) value_bits [OF assms(5), of "8 - ofs + i"] by auto
  have low: "i < len + ofs - 8 \<longleftrightarrow> 8 + i < ofs + len" using assms(3) by auto
  show ?thesis
    unfolding bit_unsigned_iff bit_or_iff bit_and_iff bit_not_iff bit_drop_bit_eq comp_def low_bits_mask [OF m] j low
    using assms(1-4) m by (auto simp: possible_bit_def dest: word_bit_bound)
qed

lemma set_rec_bits_bit:
  assumes "ofs < 8" "len \<le> 8" "2 \<le> length p" "unat bits < 2 ^ len"
  shows "\<exists>q. set_rec_bits bits p ofs len = Some q \<and> length q = length p \<and>
    (\<forall>i<16. pair_bit q i \<longleftrightarrow> (if ofs \<le> i \<and> i < ofs + len then bit bits (i - ofs) else pair_bit p i)) \<and>
    (\<forall>k\<ge>2. q ! k = p ! k)"
proof -
  let ?a = "ucast ((ucast (p ! 0) AND NOT (push_bit ofs (2 ^ len - 1))) OR push_bit ofs (ucast bits :: u32)) :: u8"
  let ?b = "ucast ((ucast (p ! 1) AND NOT (2 ^ (len + ofs - 8) - 1)) OR drop_bit (8 - ofs) (ucast bits :: u32)) :: u8"
  let ?q = "if ofs + len > 8 then p[0 := ?a, 1 := ?b] else p[0 := ?a]"
  have q: "set_rec_bits bits p ofs len = Some ?q" using assms(3) by (simp add: set_rec_bits_def Let_def guard_def)
  have "pair_bit ?q i \<longleftrightarrow> (if ofs \<le> i \<and> i < ofs + len then bit bits (i - ofs) else pair_bit p i)" if "i < 16" for i
  proof (cases "i < 8")
    case True
    have "p \<noteq> []" using assms(3) by auto
    then have "?q ! 0 = ?a" by simp
    then show ?thesis using True first_byte_bit [OF assms(1,2) True assms(4), of "p ! 0"] by (simp add: pair_bit_def)
  next
    case False
    show ?thesis
    proof (cases "8 < ofs + len")
      case wide: True
      have "?q ! 1 = ?b" using wide assms(3) by simp
      then show ?thesis
        using False that assms(1) second_byte_bit [OF assms(1,2) wide _ assms(4), of "i - 8" "p ! 1"] by (simp add: pair_bit_def)
    next
      case narrow: False
      then show ?thesis using False assms(3) by (simp add: pair_bit_def)
    qed
  qed
  moreover have "?q ! k = p ! k" if "2 \<le> k" for k using that by auto
  ultimately show ?thesis using q by (intro exI [of _ ?q]) auto
qed

lemma get_rec_bits_cong:
  assumes "ofs < 8" "len \<le> 8" "2 \<le> length p" "2 \<le> length q" "\<And>j. j < len \<Longrightarrow> pair_bit p (ofs + j) = pair_bit q (ofs + j)"
  shows "get_rec_bits p ofs len = get_rec_bits q ofs len"
proof -
  obtain v w where "get_rec_bits p ofs len = Some v" "\<And>j. bit v j \<longleftrightarrow> j < len \<and> pair_bit p (ofs + j)"
      "get_rec_bits q ofs len = Some w" "\<And>j. bit w j \<longleftrightarrow> j < len \<and> pair_bit q (ofs + j)"
    using get_rec_bits_bit [OF assms(1-3)] get_rec_bits_bit [OF assms(1,2,4)] by blast
  moreover from this have "v = w" using assms(5) by (intro bit_word_eqI) auto
  ultimately show ?thesis by simp
qed

text \<open>C17. The odd bits of a BIT column, at most eight of them at any place of two bytes of the null bits, are
  read as they were stored; bits of another column in the same bytes keep their value; and clearing
  stores 0.\<close>

theorem bit_column_storage:
  assumes "ofs < 8" "len \<le> 8" "2 \<le> length p" "unat bits < 2 ^ len"
    and "ofs' < 8" "len' \<le> 8" "ofs' + len' \<le> ofs \<or> ofs + len \<le> ofs'"
  shows "\<exists>q r. set_rec_bits bits p ofs len = Some q \<and> clr_rec_bits q ofs len = Some r \<and> length q = length p \<and>
    get_rec_bits q ofs len = Some (ucast bits) \<and> get_rec_bits r ofs len = Some 0 \<and>
    get_rec_bits q ofs' len' = get_rec_bits p ofs' len' \<and> get_rec_bits r ofs' len' = get_rec_bits p ofs' len' \<and>
    (\<forall>k\<ge>2. q ! k = p ! k)"
proof -
  have stored: "\<exists>q. set_rec_bits b p ofs len = Some q \<and> length q = length p \<and> get_rec_bits q ofs len = Some (ucast b) \<and>
      get_rec_bits q ofs' len' = get_rec_bits p ofs' len' \<and> (\<forall>k\<ge>2. q ! k = p ! k)"
    if p: "2 \<le> length p" and b: "unat b < 2 ^ len" for b :: u16 and p
  proof -
    obtain q where q: "set_rec_bits b p ofs len = Some q" "length q = length p"
        "\<And>i. i < 16 \<Longrightarrow> pair_bit q i \<longleftrightarrow> (if ofs \<le> i \<and> i < ofs + len then bit b (i - ofs) else pair_bit p i)"
        "\<forall>k\<ge>2. q ! k = p ! k"
      using set_rec_bits_bit [OF assms(1,2) p b] by blast
    have lq: "2 \<le> length q" using q(2) p by simp
    obtain v where v: "get_rec_bits q ofs len = Some v" "\<And>j. bit v j \<longleftrightarrow> j < len \<and> pair_bit q (ofs + j)"
      using get_rec_bits_bit [OF assms(1,2) lq] by blast
    have "bit v j \<longleftrightarrow> bit (ucast b :: u8) j" for j
    proof (cases "j < len")
      case True
      then have "ofs + j < 16" "j < 8" using assms(1,2) by simp_all
      then show ?thesis using True v(2) [of j] q(3) [of "ofs + j"] by (simp add: bit_unsigned_iff)
    next
      case False
      then show ?thesis using v(2) [of j] value_bits [OF b, of j] by (simp add: bit_unsigned_iff)
    qed
    then have "v = ucast b" by (intro bit_word_eqI) simp
    moreover have "get_rec_bits q ofs' len' = get_rec_bits p ofs' len'"
      using assms(5-7) lq p q(3) by (intro get_rec_bits_cong) auto
    ultimately show ?thesis using q v by blast
  qed
  obtain q where q: "set_rec_bits bits p ofs len = Some q" "length q = length p" "get_rec_bits q ofs len = Some (ucast bits)"
      "get_rec_bits q ofs' len' = get_rec_bits p ofs' len'" "\<forall>k\<ge>2. q ! k = p ! k"
    using stored [OF assms(3,4)] by blast
  obtain r where r: "set_rec_bits 0 q ofs len = Some r" "get_rec_bits r ofs len = Some (ucast (0 :: u16))"
      "get_rec_bits r ofs' len' = get_rec_bits q ofs' len'"
    using stored [of q 0] q(2) assms(3) by auto
  show ?thesis
    using q r by (intro exI [of _ q] exI [of _ r]) (simp add: clr_rec_bits_def)
qed

lemma bit_column_storage_witness:
  "\<exists>q r. set_rec_bits 5 [255, 0, 9] 6 3 = Some q \<and> clr_rec_bits q 6 3 = Some r \<and> get_rec_bits q 6 3 = Some 5 \<and>
     get_rec_bits r 0 6 = get_rec_bits [255, 0, 9] 0 6"
  using bit_column_storage [of 6 3 "[255, 0, 9]" 5 0 6] by auto

subsection \<open>Lengths in keys\<close>

lemma key_length_small: "len < 255 \<Longrightarrow> (ucast (len :: u32) :: u8) \<noteq> 255 \<and> (ucast (ucast len :: u8) :: u32) = len"
proof -
  assume "len < 255"
  then have l: "unat len < 255" by (simp add: word_less_nat_alt)
  have t: "take_bit 8 len = len" using l by (simp add: word_unat_eq_iff unsigned_take_bit_eq take_bit_nat_eq_self)
  have "unat (ucast len :: u8) = unat len" using l by (simp add: unsigned_ucast_eq take_bit_nat_eq_self)
  then show ?thesis using l t by (auto simp: word_unat_eq_iff unsigned_ucast_eq)
qed

text \<open>A length below 65536 that is stored before a key is read back by every macro, with the number of bytes
  that \<open>size_to_store_key_length\<close> announces, and the key that follows is found behind it.\<close>

lemma key_lengths_roundtrip:
  assumes "len < 65536"
  shows "length (store_key_length_inc len) = size_to_store_key_length len \<and>
    get_key_pack_length (store_key_length_inc len @ key) = Some (len, size_to_store_key_length len, key) \<and>
    get_key_length (store_key_length_inc len @ key) = Some (len, key) \<and>
    get_key_length_rdonly (store_key_length_inc len @ key) = Some len"
proof (cases "len < 255")
  case True
  then show ?thesis
    using key_length_small [OF True]
    by (simp add: store_key_length_inc_def size_to_store_key_length_def get_key_pack_length_def get_key_length_def
        get_key_length_rdonly_def)
next
  case False
  have l: "length (mi_int2store len) = 2" by (simp add: be_stores)
  have r: "(ucast (mi_uint2korr (mi_int2store len @ key)) :: u32) = len"
  proof -
    have "mi_uint2korr (mi_int2store len @ key) = (be_word (be_bytes 2 len) :: u16)"
      by (simp add: be_reads be_stores)
    then have "(ucast (mi_uint2korr (mi_int2store len @ key)) :: u32) = be_word (be_bytes 2 len)"
      by (simp add: be_word_wide)
    moreover have "take_bit 16 len = len"
    proof -
      have "unat len < 2 ^ 16" using assms by (simp add: word_less_nat_alt)
      then show ?thesis by (simp add: word_unat_eq_iff unsigned_take_bit_eq take_bit_nat_eq_self)
    qed
    ultimately show ?thesis by (simp add: be_word_be_bytes)
  qed
  show ?thesis
    using False l r by (simp add: store_key_length_inc_def size_to_store_key_length_def get_key_pack_length_def
        get_key_length_def get_key_length_rdonly_def guard_def)
qed

lemma key_lengths_roundtrip_witness: "get_key_length (store_key_length_inc 1000 @ [1, 2]) = Some (1000, [1, 2])"
  using key_lengths_roundtrip [of 1000 "[1, 2]"] by simp

subsection \<open>Null columns of a record\<close>

text \<open>The bytes that hold the null bits of \<open>N\<close> columns, from \<open>base\<close> on, in the record at distance \<open>d\<close>.\<close>

definition null_bytes :: "bit_addr \<Rightarrow> int \<Rightarrow> nat \<Rightarrow> nat set" where
  "null_bytes base d N = {a. \<exists>n<N. a = shifted (ba_ptr base) d + (unat (ba_offs base) + n) div 8}"

lemma column_byte:
  assumes "row_ok base d" "n < N"
  shows "shifted (f_null_ptr (column base n f)) d \<in> null_bytes base d N"
proof -
  obtain p k where n: "f_null_ptr (column base n f) = p" "k < 8" "8 * p + k = bit_pos base + n"
      "shifted p d = p - ba_ptr base + nat (int (ba_ptr base) + d)"
    using column_bit [OF assms(1)] by blast
  have "p - ba_ptr base = (unat (ba_offs base) + n) div 8"
  proof -
    have "p = (bit_pos base + n) div 8" using n(2) unfolding n(3) [symmetric] by simp
    then show ?thesis by (simp add: bit_pos_def add.assoc)
  qed
  then show ?thesis using n(1,4) assms(2) by (auto simp: null_bytes_def shifted_def [of "ba_ptr base"])
qed

lemma set_null_columns:
  assumes "row_ok base d" "\<forall>n \<in> set ns. n < N"
  shows "null_columns base d N f (fold (\<lambda>n. fld_set_null d (column base n f)) ns m) = null_columns base d N f m \<union> set ns"
    "null_columns base d N f (fold (\<lambda>n. fld_set_notnull d (column base n f)) ns m) = null_columns base d N f m - set ns"
proof -
  have lift: "fold (\<lambda>n r. Option.bind r (\<lambda>m. Some (g n m))) ns (Some m) = Some (fold g ns m)" for g :: "nat \<Rightarrow> memory \<Rightarrow> memory" and m
    by (induction ns arbitrary: m) simp_all
  show "null_columns base d N f (fold (\<lambda>n. fld_set_null d (column base n f)) ns m) = null_columns base d N f m \<union> set ns"
    using null_bits.insert_list [OF assms, of f m] by (simp add: lift)
  show "null_columns base d N f (fold (\<lambda>n. fld_set_notnull d (column base n f)) ns m) = null_columns base d N f m - set ns"
    using null_bits.remove_list [OF assms, of f m] by (simp add: lift)
qed

lemma null_columns_frame:
  assumes "row_ok base d" "\<forall>n \<in> set ns. n < N" "a \<notin> null_bytes base d N"
  shows "fold (\<lambda>n. fld_set_null d (column base n f)) ns m a = m a" "fold (\<lambda>n. fld_set_notnull d (column base n f)) ns m a = m a"
proof -
  have "n \<in> set ns \<Longrightarrow> a \<noteq> shifted (f_null_ptr (column base n f)) d" for n
    using column_byte [OF assms(1), of n N f] assms(2,3) by auto
  then show "fold (\<lambda>n. fld_set_null d (column base n f)) ns m a = m a"
    "fold (\<lambda>n. fld_set_notnull d (column base n f)) ns m a = m a"
    by (induction ns arbitrary: m) (simp_all add: null_frame [OF disjI1 [OF refl]] null_frame [OF disjI2 [OF refl]])
qed

text \<open>
  C16. The columns that get consecutive null bits from \<open>base\<close> on form a set in every record: \<open>set_null\<close>
  of some of them adds just these, \<open>set_notnull\<close> takes just these away, \<open>is_null\<close> reads the set, a
  column that is moved to the record reads what it reads by its offset, and no byte is written but
  those that hold their bits.
\<close>

theorem null_columns_are_a_set:
  assumes "row_ok base d" "\<forall>n \<in> set ns. n < N" "0 < int (ba_ptr base) + d"
  shows "null_columns base d N f (fold (\<lambda>n. fld_set_null d (column base n f)) ns m) = null_columns base d N f m \<union> set ns \<and>
    null_columns base d N f (fold (\<lambda>n. fld_set_notnull d (column base n f)) ns m) = null_columns base d N f m - set ns \<and>
    (\<forall>n<N. (fld_is_null d (column base n f) m \<longleftrightarrow> n \<in> null_columns base d N f m) \<and>
      (fld_is_null 0 (move_field_offset d (column base n f)) m \<longleftrightarrow> n \<in> null_columns base d N f m)) \<and>
    (\<forall>a. a \<notin> null_bytes base d N \<longrightarrow> fold (\<lambda>n. fld_set_null d (column base n f)) ns m a = m a \<and>
      fold (\<lambda>n. fld_set_notnull d (column base n f)) ns m a = m a)"
proof -
  have test: "(fld_is_null d (column base n f) m \<longleftrightarrow> n \<in> null_columns base d N f m) \<and>
      (fld_is_null 0 (move_field_offset d (column base n f)) m \<longleftrightarrow> n \<in> null_columns base d N f m)" if "n < N" for n
  proof -
    obtain p k where n: "f_null_ptr (column base n f) = p" "p \<noteq> 0" "k < 8" "8 * p + k = bit_pos base + n"
      using column_bit [OF assms(1)] by blast
    have "ba_ptr base \<le> p" using n(3,4) assms(1) by (simp add: bit_pos_def row_ok_def bit_addr_ok_def word_less_nat_alt)
    then have "0 < int p + d" using assms(3) by simp
    then have "fld_is_null 0 (move_field_offset d (column base n f)) m = fld_is_null d (column base n f) m"
      using n(1) by (intro moved_column) simp
    then show ?thesis using that n(1,2) by (simp add: null_columns_def fld_is_null_def is_real_null_def)
  qed
  show ?thesis
    using test set_null_columns [OF assms(1,2)] null_columns_frame [OF assms(1,2)] by simp
qed

definition tiny_column :: field where
  "tiny_column = \<lparr>f_ptr = 102, f_null_ptr = 0, f_null_bit = 0, f_flags = 0, f_unireg_check = 0, f_null_row = False,
     f_table_maybe_null = False, f_record0 = 100, f_rec_buff_length = 10\<rparr>"

lemma null_columns_are_a_set_witness:
  "null_columns \<lparr>ba_ptr = 100, ba_offs = 7\<rparr> 50 3 tiny_column
     (fold (\<lambda>n. fld_set_null 50 (column \<lparr>ba_ptr = 100, ba_offs = 7\<rparr> n tiny_column)) [0, 2] (\<lambda>_. 0)) = {0, 2}"
proof -
  have "null_columns \<lparr>ba_ptr = 100, ba_offs = 7\<rparr> 50 3 tiny_column (\<lambda>_. 0) = {}"
    by (simp add: null_columns_def is_real_null_def)
  then show ?thesis
    using null_columns_are_a_set [of "\<lparr>ba_ptr = 100, ba_offs = 7\<rparr>" 50 "[0, 2]" 3 tiny_column "\<lambda>_. 0"]
    by (simp add: row_ok_def bit_addr_ok_def)
qed

subsection \<open>Values of columns\<close>

text \<open>A hexadecimal literal as an integer: its last eight bytes, the high byte first.\<close>

lemma hex_hybrid_bytes:
  "longlong_from_hex_hybrid str = be_word (drop (length str - min (length str) 8) str)"
proof -
  have add: "push_bit 8 v + ucast c = ucast c OR push_bit 8 v" for v :: u64 and c :: u8
  proof -
    have "ucast c + push_bit 8 v = (ucast c OR push_bit 8 v :: u64)"
      by (rule disjunctive_add) (auto simp: bit_simps dest: word_bit_bound)
    then show ?thesis by (simp add: add.commute)
  qed
  have "fold (\<lambda>c value. push_bit 8 value + ucast c) xs 0 = (be_word xs :: u64)" for xs :: "u8 list"
    by (induction xs rule: rev_induct) (simp_all add: be_word_def add)
  then show ?thesis by (simp add: longlong_from_hex_hybrid_def)
qed

lemma val_uint_cases:
  "uint (val_uint nr) = max 0 (sint nr)"
  "uint (int_val_uint unsigned_flag nr) = (if unsigned_flag then uint nr else max 0 (sint nr))"
proof -
  have "0 \<le> sint nr \<Longrightarrow> uint nr = sint nr"
    using sint_lt [of nr] by (simp add: uint_sint take_bit_int_eq_self)
  then show "uint (val_uint nr) = max 0 (sint nr)"
    "uint (int_val_uint unsigned_flag nr) = (if unsigned_flag then uint nr else max 0 (sint nr))"
    by (auto simp: val_uint_def int_val_uint_def word_sless_alt)
qed

text \<open>The trailing spaces are left out, and nothing else.\<close>

lemma strip_spaces_ends:
  assumes "end_pos \<le> length str"
  shows "strip_spaces str end_pos \<le> end_pos \<and>
    take end_pos str = take (strip_spaces str end_pos) str @ replicate (end_pos - strip_spaces str end_pos) 32 \<and>
    (0 < strip_spaces str end_pos \<longrightarrow> str ! (strip_spaces str end_pos - 1) \<noteq> 32)"
  using assms
proof (induction str end_pos rule: strip_spaces.induct)
  case (1 str end_pos)
  show ?case
  proof (cases "0 < end_pos \<and> str ! (end_pos - 1) = 32")
    case True
    then have e: "strip_spaces str end_pos = strip_spaces str (end_pos - 1)" by (subst strip_spaces.simps) simp
    have i: "strip_spaces str (end_pos - 1) \<le> end_pos - 1 \<and>
        take (end_pos - 1) str = take (strip_spaces str (end_pos - 1)) str @ replicate (end_pos - 1 - strip_spaces str (end_pos - 1)) 32 \<and>
        (0 < strip_spaces str (end_pos - 1) \<longrightarrow> str ! (strip_spaces str (end_pos - 1) - 1) \<noteq> 32)"
      using 1 True by auto
    have "take end_pos str = take (end_pos - 1) str @ [32]"
      using True 1(2) take_Suc_conv_app_nth [of "end_pos - Suc 0" str] by auto
    moreover have "end_pos - strip_spaces str (end_pos - 1) = Suc (end_pos - 1 - strip_spaces str (end_pos - 1))"
      using True i by linarith
    ultimately show ?thesis unfolding e using i by (simp add: replicate_append_same)
  next
    case False
    then have "strip_spaces str end_pos = end_pos" by (subst strip_spaces.simps) (simp only: if_False)
    then show ?thesis using False by auto
  qed
qed

lemma ucast_ucast_mask8: "(ucast (ucast number :: u8) :: u32) = take_bit 8 number"
  by (rule bit_word_eqI) (auto simp: bit_simps)

lemma varstring_length_back:
  assumes "length_bytes = vs_length_bytes field_length" "number \<le> field_length" "field_length < 65536"
  shows "vs_get_length length_bytes (vs_store_length length_bytes number @ data) = Some number \<and>
    vs_get_data length_bytes (vs_store_length length_bytes number @ data) = data"
proof -
  have n: "unat number < (if length_bytes = 1 then 256 else 65536)"
    using assms by (auto simp: vs_length_bytes_def word_less_nat_alt word_le_nat_alt split: if_splits)
  have t: "take_bit 8 number = number" if "length_bytes = 1"
    using n that by (simp add: word_unat_eq_iff unsigned_take_bit_eq take_bit_nat_eq_self)
  have u: "take_bit 16 number = number"
    using n by (cases "length_bytes = 1") (simp_all add: word_unat_eq_iff unsigned_take_bit_eq take_bit_nat_eq_self)
  show ?thesis
    using assms(1) t u ucast_ucast_mask8 [of number]
    by (auto simp: vs_length_bytes_def vs_get_length_def vs_store_length_def vs_get_data_def guard_def le_stores le_reads
        ucast_le_word le_word_le_bytes split: if_splits)
qed

lemma media_and_format:
  assumes "t < 4" "field_storage_type f = 0"
  shows "\<exists>g. set_storage_type t f = Some g \<and> field_storage_type g = t \<and> column_format g = column_format f"
proof -
  have b: "bit t k \<Longrightarrow> k < 2" for k
    using assms(1) value_bits [of t 2 k] by (fastforce simp: word_less_nat_alt)
  have m: "bit (3 :: u32) k \<longleftrightarrow> k < 2" for k using low_bits_mask [of 2 k] by simp
  have z: "k < 2 \<Longrightarrow> \<not> bit (f_flags f) (22 + k)" for k
  proof -
    assume k: "k < 2"
    have "\<not> bit (field_storage_type f) k" using assms(2) by simp
    then show "\<not> bit (f_flags f) (22 + k)"
      using k unfolding field_storage_type_def FIELD_FLAGS_STORAGE_MEDIA_def bit_and_iff bit_drop_bit_eq comp_def m by blast
  qed
  have e: "f_flags (f\<lparr>f_flags := v\<rparr>) = v" for v by simp
  note field_bits = e possible_bit_word field_storage_type_def column_format_def FIELD_FLAGS_STORAGE_MEDIA_def FIELD_FLAGS_COLUMN_FORMAT_def
    bit_and_iff bit_or_iff bit_drop_bit_eq bit_push_bit_iff comp_def m
  have "bit (field_storage_type (f\<lparr>f_flags := f_flags f OR push_bit FIELD_FLAGS_STORAGE_MEDIA t\<rparr>)) k = bit t k" for k
    unfolding field_bits using z [of k] b [of k] by auto
  moreover have "bit (column_format (f\<lparr>f_flags := f_flags f OR push_bit FIELD_FLAGS_STORAGE_MEDIA t\<rparr>)) k = bit (column_format f) k" for k
    unfolding field_bits using b [of "24 + k - 22"] by auto
  ultimately show ?thesis using assms(2) by (auto simp: set_storage_type_def guard_def intro: bit_word_eqI)
qed

end
