(* ===== verification/Auto_Increment.thy ===== *)
theory Auto_Increment
  imports Prelude "HOL-Library.Monad_Syntax"
begin

text \<open>
  Reserved values of an AUTO_INCREMENT column, \<open>Discrete_interval\<close> and \<open>Discrete_intervals_list\<close> of
  \<open>structs.h\<close>. Interval objects live in a heap from addresses to objects, address 0 is NULL; a list
  keeps the addresses of its first, last and current interval. Its constructor does not initialise the
  last one: \<open>None\<close> is the indeterminate pointer. The two functions \<open>append\<close>, which link an interval to
  the end, are in a missing file; the lemmas speak of the lists that such a function may leave
  (\<open>dil_ok\<close>).
\<close>

subsection \<open>Intervals\<close>

record discrete_interval =
  interval_min :: u64
  interval_values :: u64
  interval_max :: u64
  di_next :: nat

definition di_replace :: "u64 \<Rightarrow> u64 \<Rightarrow> u64 \<Rightarrow> discrete_interval \<Rightarrow> discrete_interval" where
  "di_replace start val incr i =
     i\<lparr>interval_min := start, interval_values := val,
       interval_max := if val = - 1 then val else start + val * incr\<rparr>"

definition di_make :: "u64 \<Rightarrow> u64 \<Rightarrow> u64 \<Rightarrow> discrete_interval" where
  "di_make start val incr =
     di_replace start val incr \<lparr>interval_min = 0, interval_values = 0, interval_max = 0, di_next = 0\<rparr>"

definition di_default :: discrete_interval where "di_default = di_make 0 0 0"

definition di_minimum :: "discrete_interval \<Rightarrow> u64" where "di_minimum i = interval_min i"
definition di_values :: "discrete_interval \<Rightarrow> u64" where "di_values i = interval_values i"
definition di_maximum :: "discrete_interval \<Rightarrow> u64" where "di_maximum i = interval_max i"

text \<open>The result is False when the merge succeeded.\<close>

definition merge_if_contiguous :: "u64 \<Rightarrow> u64 \<Rightarrow> u64 \<Rightarrow> discrete_interval \<Rightarrow> bool \<times> discrete_interval" where
  "merge_if_contiguous start val incr i =
     (if interval_max i = start
      then if val = - 1
           then (False, i\<lparr>interval_values := val, interval_max := val\<rparr>)
           else (False, i\<lparr>interval_values := interval_values i + val, interval_max := start + val * incr\<rparr>)
      else (True, i))"

subsection \<open>Lists of intervals\<close>

type_synonym interval_heap = "nat \<Rightarrow> discrete_interval option"

record intervals_list =
  dil_head :: nat
  dil_tail :: "nat option"
  dil_current :: nat
  dil_elements :: u32

definition dil_set_members :: "nat \<Rightarrow> nat option \<Rightarrow> nat \<Rightarrow> u32 \<Rightarrow> intervals_list \<Rightarrow> intervals_list" where
  "dil_set_members h t c el l = l\<lparr>dil_head := h, dil_tail := t, dil_current := c, dil_elements := el\<rparr>"

definition dil_make :: intervals_list where
  "dil_make = \<lparr>dil_head = 0, dil_tail = None, dil_current = 0, dil_elements = 0\<rparr>"

definition dil_empty_no_free :: "intervals_list \<Rightarrow> intervals_list" where
  "dil_empty_no_free l = dil_set_members 0 (Some 0) 0 0 l"

text \<open>The loop of \<open>empty\<close>: \<open>None\<close> when it reads or deletes an object twice, or does not end.\<close>

partial_function (option) dil_delete :: "nat \<Rightarrow> interval_heap \<Rightarrow> interval_heap option" where
  "dil_delete i h =
     (if i \<noteq> 0 then (case h i of None \<Rightarrow> None | Some o' \<Rightarrow> dil_delete (di_next o') (h(i := None))) else Some h)"

definition dil_empty :: "intervals_list \<Rightarrow> interval_heap \<Rightarrow> (intervals_list \<times> interval_heap) option" where
  "dil_empty l h = map_option (\<lambda>h. (dil_empty_no_free l, h)) (dil_delete (dil_head l) h)"

definition dil_copy_shallow :: "intervals_list \<Rightarrow> intervals_list \<Rightarrow> intervals_list" where
  "dil_copy_shallow dli l =
     l\<lparr>dil_head := dil_head dli, dil_tail := dil_tail dli, dil_current := dil_current dli, dil_elements := dil_elements dli\<rparr>"

text \<open>\<open>l.swap (dli)\<close>: both lists afterwards.\<close>

definition dil_swap :: "intervals_list \<Rightarrow> intervals_list \<Rightarrow> intervals_list \<times> intervals_list" where
  "dil_swap l dli =
     (let h = dil_head dli; t = dil_tail dli; c = dil_current dli; el = dil_elements dli;
          dli = dil_copy_shallow l dli
      in (dil_set_members h t c el l, dli))"

definition dil_get_next :: "interval_heap \<Rightarrow> intervals_list \<Rightarrow> (nat \<times> intervals_list) option" where
  "dil_get_next h l =
     (let tmp = dil_current l
      in if dil_current l \<noteq> 0 then map_option (\<lambda>i. (tmp, l\<lparr>dil_current := di_next i\<rparr>)) (h (dil_current l))
         else Some (tmp, l))"

definition dil_destroy :: "intervals_list \<Rightarrow> interval_heap \<Rightarrow> interval_heap option" where
  "dil_destroy l h = map_option snd (dil_empty l h)"

definition dil_minimum :: "interval_heap \<Rightarrow> intervals_list \<Rightarrow> u64 option" where
  "dil_minimum h l = (if dil_head l \<noteq> 0 then map_option di_minimum (h (dil_head l)) else Some 0)"

definition dil_maximum :: "interval_heap \<Rightarrow> intervals_list \<Rightarrow> u64 option" where
  "dil_maximum h l =
     (if dil_head l \<noteq> 0 then Option.bind (dil_tail l) (\<lambda>t. map_option di_maximum (h t)) else Some 0)"

definition nb_elements :: "intervals_list \<Rightarrow> u32" where "nb_elements l = dil_elements l"
definition get_head :: "intervals_list \<Rightarrow> nat" where "get_head l = dil_head l"
definition get_tail :: "intervals_list \<Rightarrow> nat option" where "get_tail l = dil_tail l"
definition get_current :: "intervals_list \<Rightarrow> nat" where "get_current l = dil_current l"

lemmas dil_defs = dil_set_members_def dil_make_def dil_empty_no_free_def dil_copy_shallow_def dil_swap_def
  dil_get_next_def dil_empty_def dil_destroy_def dil_minimum_def dil_maximum_def nb_elements_def

subsection \<open>The values of an interval\<close>

text \<open>
  The values an interval stands for, as the comment of the class says, and intervals that keep clear of
  the end of the numbers: neither unbounded nor wrapping around.
\<close>

definition di_set :: "u64 \<Rightarrow> discrete_interval \<Rightarrow> nat set" where
  "di_set incr i = {unat (interval_min i) + k * unat incr |k. k < unat (interval_values i)}"

definition fits :: "u64 \<Rightarrow> u64 \<Rightarrow> u64 \<Rightarrow> bool" where
  "fits start val incr \<longleftrightarrow> val \<noteq> - 1 \<and> unat start + unat val * unat incr < 2 ^ 64"

definition di_ok :: "u64 \<Rightarrow> discrete_interval \<Rightarrow> bool" where
  "di_ok incr i \<longleftrightarrow> unat (interval_max i) = unat (interval_min i) + unat (interval_values i) * unat incr"

lemma fits_unat: "fits start val incr \<Longrightarrow> unat (start + val * incr) = unat start + unat val * unat incr"
  by (auto simp: fits_def unat_word_ariths take_bit_nat_eq_self)

lemma di_make_ok: "fits start val incr \<Longrightarrow> di_ok incr (di_make start val incr)"
  by (simp add: di_ok_def di_make_def di_replace_def fits_unat) (simp add: fits_def)

lemma di_set_image: "di_set incr i = (\<lambda>k. unat (interval_min i) + k * unat incr) ` {..<unat (interval_values i)}"
  by (auto simp: di_set_def)

lemma merge_ok:
  assumes "di_ok incr i" "fits start val incr" "0 < incr" "merge_if_contiguous start val incr i = (r, j)"
  shows "if r then j = i \<and> interval_max i \<noteq> start
    else di_ok incr j \<and> di_set incr j = di_set incr i \<union> di_set incr (di_make start val incr) \<and>
      interval_min j = interval_min i \<and> unat (interval_values j) = unat (interval_values i) + unat val"
proof (cases "interval_max i = start")
  case True
  then have j: "\<not> r" "j = i\<lparr>interval_values := interval_values i + val, interval_max := start + val * incr\<rparr>"
    using assms(2,4) by (auto simp: merge_if_contiguous_def fits_def)
  have inc: "1 \<le> unat incr" using assms(3) by (simp add: word_less_nat_alt)
  have start: "unat start = unat (interval_min i) + unat (interval_values i) * unat incr"
    using assms(1) True by (simp add: di_ok_def)
  have "unat v \<le> unat v * unat incr" for v :: u64
    using mult_le_mono2 [OF inc, of "unat v"] by (simp only: mult_1_right)
  from this [of "interval_values i"] this [of val] have "unat (interval_values i) + unat val < 2 ^ 64"
    using start assms(2) unfolding fits_def by linarith
  then have vals: "unat (interval_values i + val) = unat (interval_values i) + unat val"
    by (simp add: unat_word_ariths take_bit_nat_eq_self)
  have max: "unat (start + val * incr) = unat (interval_min i) + (unat (interval_values i) + unat val) * unat incr"
    using fits_unat [OF assms(2)] start by (simp add: algebra_simps)
  have "di_set incr j = di_set incr i \<union> di_set incr (di_make start val incr)"
  proof -
    have split: "{..<v + w} = {..<v} \<union> (\<lambda>m. v + m) ` {..<w}" for v w :: nat
      by (simp add: lessThan_atLeast0 image_add_atLeastLessThan ivl_disj_un add.commute)
    have "di_set incr j = (\<lambda>k. unat (interval_min i) + k * unat incr) ` ({..<unat (interval_values i)} \<union>
        (\<lambda>m. unat (interval_values i) + m) ` {..<unat val})"
      unfolding split [symmetric] by (simp add: di_set_image j vals)
    moreover have "di_set incr (di_make start val incr) = (\<lambda>k. unat start + k * unat incr) ` {..<unat val}"
      by (simp add: di_set_image di_make_def di_replace_def)
    moreover have "unat (interval_min i) + (unat (interval_values i) + m) * unat incr = unat start + m * unat incr" for m
      by (simp add: start add_mult_distrib)
    ultimately show ?thesis
      by (simp only: image_Un image_image di_set_image [of incr i])
  qed
  then show ?thesis using j vals max by (simp add: di_ok_def)
next
  case False
  then show ?thesis using assms(4) by (auto simp: merge_if_contiguous_def)
qed

subsection \<open>The intervals of a list\<close>

fun dpath :: "interval_heap \<Rightarrow> nat \<Rightarrow> nat list \<Rightarrow> bool" where
  "dpath h p [] \<longleftrightarrow> p = 0"
| "dpath h p (a # as) \<longleftrightarrow> p = a \<and> a \<noteq> 0 \<and> (case h a of Some i \<Rightarrow> dpath h (di_next i) as | None \<Rightarrow> False)"

definition dil_ok :: "interval_heap \<Rightarrow> intervals_list \<Rightarrow> nat list \<Rightarrow> nat list \<Rightarrow> bool" where
  "dil_ok h l as cs \<longleftrightarrow> dpath h (dil_head l) as \<and> (as \<noteq> [] \<longrightarrow> dil_tail l = Some (last as)) \<and>
     dil_elements l = of_nat (length as) \<and> dpath h (dil_current l) cs \<and> (\<exists>bs. as = bs @ cs)"

lemma dpath_unique: "dpath h p as \<Longrightarrow> dpath h p bs \<Longrightarrow> as = bs"
proof (induction as arbitrary: p bs)
  case (Cons a as)
  then show ?case by (cases bs) (auto split: option.splits)
next
  case Nil
  then show ?case by (cases bs) auto
qed

lemma dpath_tail: "dpath h p (as @ bs) \<Longrightarrow> \<exists>q. dpath h q bs"
  by (induction as arbitrary: p) (auto split: option.splits)

lemma dpath_head: "dpath h p (a # as) \<Longrightarrow> p = a" by simp

lemma dpath_distinct: "dpath h p as \<Longrightarrow> distinct as"
proof (induction as arbitrary: p)
  case (Cons a as)
  then obtain i where i: "h a = Some i" "dpath h (di_next i) as" by (auto split: option.splits)
  have "a \<notin> set as"
  proof
    assume "a \<in> set as"
    then obtain bs cs where as: "as = bs @ a # cs" by (meson split_list)
    then obtain q where q: "dpath h q (a # cs)" using i(2) dpath_tail by blast
    then have "dpath h (di_next i) cs" using i(1) by simp
    then have "cs = as" using i(2) dpath_unique by blast
    then show False using as by (metis append_Cons length_Cons length_append less_irrefl not_add_less2 lessI less_SucI trans_less_add2)
  qed
  then show ?case using Cons.IH i(2) by simp
qed simp

lemma dpath_upd: "a \<notin> set as \<Longrightarrow> dpath (h(a := v)) p as = dpath h p as"
  by (induction as arbitrary: p) (auto split: option.splits)

lemma dpath_live: "dpath h p as \<Longrightarrow> a \<in> set as \<Longrightarrow> h a \<noteq> None"
  by (induction as arbitrary: p) (auto split: option.splits)

lemma dil_delete_path: "dpath h p as \<Longrightarrow> dil_delete p h = Some (h |` (- set as))"
proof (induction as arbitrary: p h)
  case Nil
  then show ?case by (subst dil_delete.simps) (simp add: restrict_map_def)
next
  case (Cons a as)
  then obtain i where i: "h a = Some i" "dpath h (di_next i) as" "p = a" "a \<noteq> 0" by (auto split: option.splits)
  have "a \<notin> set as" using dpath_distinct [OF Cons.prems] by simp
  then have "dpath (h(a := None)) (di_next i) as" using i(2) by (simp add: dpath_upd)
  then have "dil_delete (di_next i) (h(a := None)) = Some ((h(a := None)) |` (- set as))"
    by (rule Cons.IH)
  moreover have "(h(a := None)) |` (- set as) = h |` (- set (a # as))" by (auto simp: restrict_map_def fun_eq_iff)
  ultimately show ?case using i by (subst dil_delete.simps) simp
qed

lemma dil_delete_null: "dil_delete 0 h = Some h"
  by (subst dil_delete.simps) simp

lemma dil_delete_dead: "p \<noteq> 0 \<Longrightarrow> h p = None \<Longrightarrow> dil_delete p h = None"
  by (subst dil_delete.simps) simp

text \<open>The answers of \<open>n\<close> calls of \<open>get_next\<close>.\<close>

fun get_nexts :: "nat \<Rightarrow> interval_heap \<Rightarrow> intervals_list \<Rightarrow> (nat list \<times> intervals_list) option" where
  "get_nexts 0 h l = Some ([], l)"
| "get_nexts (Suc n) h l = do { (a, l) \<leftarrow> dil_get_next h l; (as, l) \<leftarrow> get_nexts n h l; Some (a # as, l) }"

lemma get_next_ok:
  assumes "dil_ok h l as cs"
  shows "\<exists>l'. dil_get_next h l = Some (case cs of [] \<Rightarrow> 0 | c # _ \<Rightarrow> c, l') \<and> dil_ok h l' as (tl cs)"
proof (cases cs)
  case Nil
  then show ?thesis using assms by (auto simp: dil_ok_def dil_get_next_def)
next
  case (Cons c cs')
  then obtain i where i: "dil_current l = c" "c \<noteq> 0" "h c = Some i" "dpath h (di_next i) cs'"
    using assms by (auto simp: dil_ok_def split: option.splits)
  have "dil_ok h (l\<lparr>dil_current := di_next i\<rparr>) as cs'"
    using assms i(4) Cons by (auto simp: dil_ok_def)
  then show ?thesis using i Cons by (simp add: dil_get_next_def)
qed

lemma get_nexts_ok:
  "dil_ok h l as cs \<Longrightarrow> \<exists>l'. get_nexts n h l = Some (take n cs @ replicate (n - length cs) 0, l') \<and> dil_ok h l' as (drop n cs)"
proof (induction n arbitrary: l cs)
  case (Suc n)
  obtain l1 where l1: "dil_get_next h l = Some (case cs of [] \<Rightarrow> 0 | c # _ \<Rightarrow> c, l1)" "dil_ok h l1 as (tl cs)"
    using get_next_ok [OF Suc.prems] by blast
  then obtain l2 where "get_nexts n h l1 = Some (take n (tl cs) @ replicate (n - length (tl cs)) 0, l2)" "dil_ok h l2 as (drop n (tl cs))"
    using Suc.IH by blast
  then show ?case using l1 by (cases cs) auto
qed simp

lemma dil_maximum_ok: "dil_ok h l as cs \<Longrightarrow> as \<noteq> [] \<Longrightarrow> dil_maximum h l = map_option di_maximum (h (last as)) \<and> h (last as) \<noteq> None"
  using dpath_live [of h "dil_head l" as "last as"] by (cases as) (auto simp: dil_ok_def dil_maximum_def)

lemma dil_minimum_ok: "dil_ok h l as cs \<Longrightarrow> as \<noteq> [] \<Longrightarrow> dil_minimum h l = map_option di_minimum (h (hd as)) \<and> h (hd as) \<noteq> None"
  using dpath_live [of h "dil_head l" as "hd as"] by (cases as) (auto simp: dil_ok_def dil_minimum_def)

lemma dil_swap_ok: "dil_swap l m = (l', m') \<Longrightarrow>
    (dil_ok h l' as cs \<longleftrightarrow> dil_ok h m as cs) \<and> (dil_ok h m' as cs \<longleftrightarrow> dil_ok h l as cs)"
  by (auto simp: dil_swap_def Let_def dil_ok_def dil_copy_shallow_def dil_set_members_def)

lemma dil_empty_ok:
  "dil_ok h l as cs \<Longrightarrow> dil_empty l h = Some (dil_empty_no_free l, h |` (- set as)) \<and> dil_ok h' (dil_empty_no_free l) [] []"
  by (auto simp: dil_ok_def dil_empty_def dil_delete_path dil_empty_no_free_def dil_set_members_def)

text \<open>
  The intervals of a list are consumed one after the other, from the current one to the last, and then
  NULL is answered for ever; \<open>swap\<close> exchanges two lists; the bounds are those of the first and the last
  interval; destroying a list deletes each of its intervals once and nothing else. A shallow copy owns
  the same intervals: destroying both lists deletes an object twice, unless one gave up its intervals
  before.
\<close>

lemma intervals_list_owned:
  assumes "dil_ok h l as cs"
  shows "(\<exists>l'. get_nexts n h l = Some (take n cs @ replicate (n - length cs) 0, l') \<and> dil_ok h l' as (drop n cs)) \<and>
    (\<forall>m bs ds. dil_ok h m bs ds \<longrightarrow> (case dil_swap l m of (l', m') \<Rightarrow> dil_ok h l' bs ds \<and> dil_ok h m' as cs)) \<and>
    (as \<noteq> [] \<longrightarrow> dil_minimum h l = map_option di_minimum (h (hd as)) \<and> dil_maximum h l = map_option di_maximum (h (last as))) \<and>
    dil_destroy l h = Some (h |` (- set as)) \<and>
    (let m = dil_copy_shallow l dil_make in
      dil_ok h m as cs \<and>
      (as \<noteq> [] \<longrightarrow> Option.bind (dil_destroy l h) (dil_destroy m) = None) \<and>
      Option.bind (dil_destroy (dil_empty_no_free l) h) (dil_destroy m) = Some (h |` (- set as)))"
proof -
  let ?m = "dil_copy_shallow l dil_make"
  have m: "dil_ok h ?m as cs" using assms by (simp add: dil_ok_def dil_copy_shallow_def)
  have destroy: "dil_destroy l h = Some (h |` (- set as))" "dil_destroy ?m h = Some (h |` (- set as))"
    using dil_empty_ok [OF assms] dil_empty_ok [OF m] by (auto simp: dil_destroy_def)
  have again: "dil_destroy ?m (h |` (- set as)) = None" if ne: "as \<noteq> []"
  proof -
    obtain a bs where "as = a # bs" using ne by (cases as) auto
    then have "dil_head ?m = a" "a \<noteq> 0" "(h |` (- set as)) a = None" using m by (auto simp: dil_ok_def)
    then show ?thesis by (simp add: dil_destroy_def dil_empty_def dil_delete_dead)
  qed
  have given: "dil_destroy (dil_empty_no_free l) h = Some h"
    by (simp add: dil_destroy_def dil_empty_def dil_empty_no_free_def dil_set_members_def dil_delete_null)
  have swap: "case dil_swap l k of (l', m') \<Rightarrow> dil_ok h l' bs ds \<and> dil_ok h m' as cs" if "dil_ok h k bs ds" for k bs ds
    using dil_swap_ok [of l k] that assms by (cases "dil_swap l k") auto
  show ?thesis
    using get_nexts_ok [OF assms] swap dil_minimum_ok [OF assms] dil_maximum_ok [OF assms] destroy again given m by simp
qed

definition two_intervals :: interval_heap where
  "two_intervals = [8 \<mapsto> (di_make 10 5 2)\<lparr>di_next := 16\<rparr>, 16 \<mapsto> di_make 20 3 2]"

lemma intervals_list_owned_witness:
  "(\<exists>l'. get_nexts 3 two_intervals \<lparr>dil_head = 8, dil_tail = Some 16, dil_current = 8, dil_elements = 2\<rparr> = Some ([8, 16, 0], l')) \<and>
   dil_maximum two_intervals \<lparr>dil_head = 8, dil_tail = Some 16, dil_current = 8, dil_elements = 2\<rparr> = Some 26"
proof -
  have "dil_ok two_intervals \<lparr>dil_head = 8, dil_tail = Some 16, dil_current = 8, dil_elements = 2\<rparr> [8, 16] [8, 16]"
    by (simp add: dil_ok_def two_intervals_def di_make_def di_replace_def)
  note facts = intervals_list_owned [OF this, of 3]
  have "two_intervals 16 = Some (di_make 20 3 2)" "di_maximum (di_make 20 3 2) = 26"
    by (simp_all add: two_intervals_def di_maximum_def di_make_def di_replace_def)
  then show ?thesis using facts by auto
qed

text \<open>Chunks that are reserved one after the other, each where the last one ended.\<close>

fun contiguous :: "u64 \<Rightarrow> u64 \<Rightarrow> (u64 \<times> u64) list \<Rightarrow> bool" where
  "contiguous incr p [] \<longleftrightarrow> True"
| "contiguous incr p ((start, val) # chunks) \<longleftrightarrow> start = p \<and> fits start val incr \<and> contiguous incr (start + val * incr) chunks"

fun merge_chunks :: "u64 \<Rightarrow> (u64 \<times> u64) list \<Rightarrow> discrete_interval \<Rightarrow> bool \<times> discrete_interval" where
  "merge_chunks incr [] i = (False, i)"
| "merge_chunks incr ((start, val) # chunks) i =
     (case merge_if_contiguous start val incr i of (r, i) \<Rightarrow> if r then (r, i) else merge_chunks incr chunks i)"

lemma merge_chunks_ok:
  assumes "di_ok incr i" "0 < incr" "contiguous incr (interval_max i) chunks"
  shows "\<exists>j. merge_chunks incr chunks i = (False, j) \<and> di_ok incr j \<and> interval_min j = interval_min i \<and>
    unat (interval_values j) = unat (interval_values i) + (\<Sum>(start, val) \<leftarrow> chunks. unat val) \<and>
    di_set incr j = di_set incr i \<union> (\<Union>(start, val) \<in> set chunks. di_set incr (di_make start val incr))"
  using assms(1,3)
proof (induction chunks arbitrary: i)
  case (Cons c chunks)
  obtain start val where c: "c = (start, val)" by fastforce
  then have f: "fits start val incr" "start = interval_max i" "contiguous incr (start + val * incr) chunks"
    using Cons.prems(2) by auto
  obtain i1 where m: "merge_if_contiguous start val incr i = (False, i1)" "interval_max i1 = start + val * incr"
    using f(1,2) by (auto simp: merge_if_contiguous_def fits_def)
  note i1 = merge_ok [OF Cons.prems(1) f(1) assms(2) m(1), simplified]
  obtain j where "merge_chunks incr chunks i1 = (False, j)" "di_ok incr j" "interval_min j = interval_min i1"
      "unat (interval_values j) = unat (interval_values i1) + (\<Sum>(start, val) \<leftarrow> chunks. unat val)"
      "di_set incr j = di_set incr i1 \<union> (\<Union>(start, val) \<in> set chunks. di_set incr (di_make start val incr))"
    using Cons.IH [of i1] i1 m(2) f(3) by auto
  then show ?case using i1 m(1) c by (auto simp: Un_assoc)
qed simp

lemma bounded_values_merge:
  assumes "fits start val incr" "0 < incr" "contiguous incr (start + val * incr) chunks"
  shows "\<exists>j. merge_chunks incr chunks (di_make start val incr) = (False, j) \<and>
    unat (di_values j) = unat val + (\<Sum>(s, v) \<leftarrow> chunks. unat v) \<and> card (di_set incr j) = unat (di_values j) \<and>
    di_set incr j = di_set incr (di_make start val incr) \<union> (\<Union>(s, v) \<in> set chunks. di_set incr (di_make s v incr)) \<and>
    (\<forall>x \<in> di_set incr j. unat (di_minimum j) \<le> x \<and> x < unat (di_maximum j))"
proof -
  have "interval_max (di_make start val incr) = start + val * incr" "interval_min (di_make start val incr) = start"
      "interval_values (di_make start val incr) = val"
    using assms(1) by (simp_all add: di_make_def di_replace_def fits_def)
  then obtain j where j: "merge_chunks incr chunks (di_make start val incr) = (False, j)" "di_ok incr j"
      "interval_min j = start" "unat (interval_values j) = unat val + (\<Sum>(s, v) \<leftarrow> chunks. unat v)"
      "di_set incr j = di_set incr (di_make start val incr) \<union> (\<Union>(s, v) \<in> set chunks. di_set incr (di_make s v incr))"
    using merge_chunks_ok [OF di_make_ok [OF assms(1)] assms(2)] assms(3) by metis
  have inc: "0 < unat incr" using assms(2) by (simp add: word_less_nat_alt)
  have "inj_on (\<lambda>k. unat (interval_min j) + k * unat incr) {..<unat (interval_values j)}"
    using inc by (auto simp: inj_on_def)
  then have "card (di_set incr j) = unat (interval_values j)"
    by (simp add: di_set_image card_image)
  moreover have "unat (interval_min j) \<le> x \<and> x < unat (interval_max j)" if "x \<in> di_set incr j" for x
    using that j(2) inc by (auto simp: di_set_def di_ok_def)
  ultimately show ?thesis
    using j by (auto simp: di_minimum_def di_maximum_def di_values_def merge_if_contiguous_def)
qed

text \<open>The end of a chunk in 64 bits, chunks that follow each other, and what they leave in an interval.\<close>

definition chunk_end :: "u64 \<Rightarrow> u64 \<Rightarrow> u64 \<Rightarrow> u64" where
  "chunk_end incr start val = (if val = - 1 then - 1 else start + val * incr)"

fun following :: "u64 \<Rightarrow> u64 \<Rightarrow> (u64 \<times> u64) list \<Rightarrow> bool" where
  "following incr m [] \<longleftrightarrow> True"
| "following incr m ((start, val) # chunks) \<longleftrightarrow> start = m \<and> following incr (chunk_end incr start val) chunks"

fun last_end :: "u64 \<Rightarrow> u64 \<Rightarrow> (u64 \<times> u64) list \<Rightarrow> u64" where
  "last_end incr m [] = m"
| "last_end incr m ((start, val) # chunks) = last_end incr (chunk_end incr start val) chunks"

fun total_values :: "u64 \<Rightarrow> (u64 \<times> u64) list \<Rightarrow> u64" where
  "total_values n [] = n"
| "total_values n ((start, val) # chunks) = total_values (if val = - 1 then - 1 else n + val) chunks"

lemma merge_chunks_exact:
  "following incr (interval_max i) chunks \<Longrightarrow> \<exists>j. merge_chunks incr chunks i = (False, j) \<and> interval_min j = interval_min i \<and>
     interval_max j = last_end incr (interval_max i) chunks \<and> interval_values j = total_values (interval_values i) chunks"
proof (induction chunks arbitrary: i)
  case (Cons c chunks)
  obtain start val where c: "c = (start, val)" by fastforce
  obtain i1 where m: "merge_if_contiguous start val incr i = (False, i1)" "interval_max i1 = chunk_end incr start val"
      "interval_min i1 = interval_min i" "interval_values i1 = (if val = - 1 then - 1 else interval_values i + val)"
    using Cons.prems c by (cases "val = - 1") (auto simp: merge_if_contiguous_def chunk_end_def)
  then show ?case using Cons.IH [of i1] Cons.prems c by auto
qed simp

text \<open>
  C18. Chunks of values that follow each other, reserved by a statement one after the other, merge into
  one interval: its minimum stays, its maximum is the end of the last chunk, and the number of values
  is the sum in 64 bits, which wraps around; an unbounded chunk makes the number and the maximum
  \<open>ULONGLONG_MAX\<close>, from where counting goes on. Anything that does not start at the end is refused and
  changes nothing. If no chunk is unbounded or reaches past the largest number, the interval holds
  exactly the values of the chunks, all between its bounds, as many as were reserved.
\<close>

theorem reserved_values_merge:
  assumes "following incr (chunk_end incr start val) chunks"
  shows "\<exists>j. merge_chunks incr chunks (di_make start val incr) = (False, j) \<and> di_minimum j = start \<and>
    di_maximum j = last_end incr (chunk_end incr start val) chunks \<and> di_values j = total_values val chunks \<and>
    (\<forall>s v. s \<noteq> di_maximum j \<longrightarrow> merge_if_contiguous s v incr j = (True, j)) \<and>
    (0 < incr \<and> fits start val incr \<and> (\<forall>(s, v) \<in> set chunks. fits s v incr) \<longrightarrow>
      unat (di_values j) = unat val + (\<Sum>(s, v) \<leftarrow> chunks. unat v) \<and> card (di_set incr j) = unat (di_values j) \<and>
      di_set incr j = di_set incr (di_make start val incr) \<union> (\<Union>(s, v) \<in> set chunks. di_set incr (di_make s v incr)) \<and>
      (\<forall>x \<in> di_set incr j. unat (di_minimum j) \<le> x \<and> x < unat (di_maximum j)))"
proof -
  have i: "interval_max (di_make start val incr) = chunk_end incr start val" "interval_min (di_make start val incr) = start"
      "interval_values (di_make start val incr) = val"
    by (simp_all add: di_make_def di_replace_def chunk_end_def)
  obtain j where j: "merge_chunks incr chunks (di_make start val incr) = (False, j)" "interval_min j = start"
      "interval_max j = last_end incr (chunk_end incr start val) chunks" "interval_values j = total_values val chunks"
    using merge_chunks_exact [of incr "di_make start val incr" chunks] assms i by auto
  have "contiguous incr m chunks" if "following incr m chunks" "\<forall>(s, v) \<in> set chunks. fits s v incr" for m
    using that by (induction incr m chunks rule: following.induct) (auto simp: chunk_end_def fits_def)
  then have "contiguous incr (start + val * incr) chunks" if "fits start val incr" "\<forall>(s, v) \<in> set chunks. fits s v incr"
    using that assms by (simp add: chunk_end_def fits_def)
  then show ?thesis
    using bounded_values_merge [of start val incr chunks] j
    by (auto simp: di_minimum_def di_maximum_def di_values_def merge_if_contiguous_def)
qed

lemma reserved_values_merge_witness:
  "(\<exists>j. merge_chunks 3 [(16, 4), (28, - 1)] (di_make 10 2 3) = (False, j) \<and> di_values j = - 1 \<and> di_maximum j = - 1) \<and>
   (\<exists>j. merge_chunks 3 [(16, 4), (28, 1)] (di_make 10 2 3) = (False, j) \<and> unat (di_values j) = 7 \<and> card (di_set 3 j) = 7)"
  using reserved_values_merge [of 3 10 2 "[(16, 4), (28, - 1)]"] reserved_values_merge [of 3 10 2 "[(16, 4), (28, 1)]"]
  by (auto simp: fits_def chunk_end_def)

end
