(* ===== verification/Lex_Charset.thy ===== *)
theory Lex_Charset
  imports Charset_Info "HOL-Library.Monad_Syntax"
begin

text \<open>
  CHARACTER SET and COLLATE clauses of the grammar, \<open>lex_charset.h\<close>. A \<open>CHARSET_INFO *\<close> is a number, 0
  is NULL; \<open>charset_lib\<close> holds what the pointers refer to, the objects of other files whose addresses
  are compared, and the members that the header only declares. A failed assertion is \<open>None\<close>. Members
  that report an error answer True and add to the list of errors of the connection.
\<close>

subsection \<open>Data\<close>

type_synonym cs_ptr = nat

datatype extended_collation_type = TYPE_EXACT | TYPE_CONTEXTUALLY_TYPED

record extended_collation =
  ec_ci :: cs_ptr
  ec_type :: extended_collation_type

record exact_charset_opt =
  eo_ci :: cs_ptr
  eo_with_collate :: bool

datatype attrs_type = TYPE_EMPTY | TYPE_CHARACTER_SET | TYPE_COLLATE_EXACT | TYPE_CHARACTER_SET_COLLATE_EXACT
  | TYPE_COLLATE_CONTEXTUALLY_TYPED

definition LEX_CHARSET_COLLATION_TYPE_BITS :: nat where "LEX_CHARSET_COLLATION_TYPE_BITS = 3"
definition LEX_CHARSET_COLLATION_TYPE_MASK :: u8 where
  "LEX_CHARSET_COLLATION_TYPE_MASK = push_bit LEX_CHARSET_COLLATION_TYPE_BITS 1 - 1"

fun attrs_type_value :: "attrs_type \<Rightarrow> u8" where
  "attrs_type_value TYPE_EMPTY = 0"
| "attrs_type_value TYPE_CHARACTER_SET = 1"
| "attrs_type_value TYPE_COLLATE_EXACT = 2"
| "attrs_type_value TYPE_CHARACTER_SET_COLLATE_EXACT = 3"
| "attrs_type_value TYPE_COLLATE_CONTEXTUALLY_TYPED = 4"

record collation_attrs =
  at_ci :: cs_ptr
  at_type :: attrs_type

text \<open>
  Errors: an unknown collation, a collation that does not apply to a character set, and those of the
  merges.
\<close>

datatype charset_error = Unknown_collation "u8 list" | Not_applicable "u8 list" "u8 list" | Conflicting_clauses

type_synonym errors = "charset_error list"

record charset_lib =
  lib_charset :: "cs_ptr \<Rightarrow> charset_info"
  lib_charset_by_name :: "u8 list \<Rightarrow> u32 \<Rightarrow> cs_ptr \<times> u8 list"
  lib_collation_by_name :: "u8 list \<Rightarrow> cs_ptr \<times> u8 list"
  lib_utf8mb4_general_ci :: cs_ptr
  lib_typed_default :: cs_ptr
  lib_typed_binary :: cs_ptr
  lib_utf8mb3_bin :: cs_ptr
  lib_utf8mb3_general_ci :: cs_ptr
  lib_coll_name :: "cs_ptr \<Rightarrow> u8 list"
  lib_context_suffix :: "cs_ptr \<Rightarrow> u8 list"
  lib_context_name :: "cs_ptr \<Rightarrow> u8 list"
  lib_find_bin :: "exact_charset_opt \<Rightarrow> errors \<Rightarrow> cs_ptr \<times> errors"
  lib_find_default :: "exact_charset_opt \<Rightarrow> errors \<Rightarrow> cs_ptr \<times> errors"
  lib_opt_merge_exact :: "cs_ptr \<Rightarrow> exact_charset_opt \<times> errors \<Rightarrow> bool \<times> exact_charset_opt \<times> errors"
  lib_opt_merge_context :: "cs_ptr \<Rightarrow> exact_charset_opt \<times> errors \<Rightarrow> bool \<times> exact_charset_opt \<times> errors"
  lib_opt_override_exact :: "cs_ptr \<Rightarrow> exact_charset_opt \<times> errors \<Rightarrow> bool \<times> exact_charset_opt \<times> errors"
  lib_opt_override_context :: "cs_ptr \<Rightarrow> exact_charset_opt \<times> errors \<Rightarrow> bool \<times> exact_charset_opt \<times> errors"
  lib_merge_exact :: "cs_ptr \<Rightarrow> collation_attrs \<times> errors \<Rightarrow> bool \<times> collation_attrs \<times> errors"
  lib_merge_context :: "cs_ptr \<Rightarrow> collation_attrs \<times> errors \<Rightarrow> bool \<times> collation_attrs \<times> errors"

definition is_primary :: "charset_lib \<Rightarrow> cs_ptr \<Rightarrow> bool" where
  "is_primary lib ci \<longleftrightarrow> default_flag (lib_charset lib ci) \<noteq> 0"

subsection \<open>Loading collations\<close>

text \<open>\<open>Charset_loader_mysys\<close>: the buffer \<open>error\<close> of the loader, and the errors raised in the connection.\<close>

record loader =
  ld_error :: "u8 list"
  ld_raised :: errors

definition MY_CS_COLLATION_NAME_SIZE :: nat where "MY_CS_COLLATION_NAME_SIZE = 64"
definition MY_CS_BINSORT :: u32 where "MY_CS_BINSORT = 16"
definition MY_CS_PRIMARY :: u32 where "MY_CS_PRIMARY = 32"

definition ld_get_charset :: "charset_lib \<Rightarrow> u8 list \<Rightarrow> u32 \<Rightarrow> loader \<Rightarrow> cs_ptr \<times> loader" where
  "ld_get_charset lib name cs_flags s =
     (let s = s\<lparr>ld_error := []\<rparr>; (ci, e) = lib_charset_by_name lib name cs_flags in (ci, s\<lparr>ld_error := e\<rparr>))"

definition ld_get_exact_collation :: "charset_lib \<Rightarrow> u8 list \<Rightarrow> loader \<Rightarrow> cs_ptr \<times> loader" where
  "ld_get_exact_collation lib name s =
     (let s = s\<lparr>ld_error := []\<rparr>; (ci, e) = lib_collation_by_name lib name in (ci, s\<lparr>ld_error := e\<rparr>))"

text \<open>\<open>my_snprintf\<close> keeps as much of \<open>cs_name\<close>, an underscore and the name as fits.\<close>

definition ld_get_exact_collation_by_context_name ::
    "charset_lib \<Rightarrow> cs_ptr \<Rightarrow> u8 list \<Rightarrow> loader \<Rightarrow> cs_ptr \<times> loader" where
  "ld_get_exact_collation_by_context_name lib cs name s =
     (let tmp = take (MY_CS_COLLATION_NAME_SIZE - 1) (cs_name (lib_charset lib cs) @ [95] @ name)
      in ld_get_exact_collation lib tmp s)"

definition ld_get_context_collation :: "charset_lib \<Rightarrow> u8 list \<Rightarrow> loader \<Rightarrow> cs_ptr \<times> loader" where
  "ld_get_context_collation lib name s =
     ld_get_exact_collation_by_context_name lib (lib_utf8mb4_general_ci lib) name s"

text \<open>\<open>"utf8"\<close>\<close>

definition utf8_name :: "u8 list" where "utf8_name = [117, 116, 102, 56]"

definition ld_get_bin_collation :: "charset_lib \<Rightarrow> cs_ptr \<Rightarrow> loader \<Rightarrow> (cs_ptr \<times> loader) option" where
  "ld_get_bin_collation lib cs s = do {
     let name = cs_name (lib_charset lib cs);
     guard (length name \<noteq> 4 \<or> name \<noteq> utf8_name) ();
     if binsort_flag (lib_charset lib cs) \<noteq> 0 then Some (cs, s)
     else let s = s\<lparr>ld_error := []\<rparr> in Some (ld_get_charset lib name MY_CS_BINSORT s) }"

definition ld_get_default_collation :: "charset_lib \<Rightarrow> cs_ptr \<Rightarrow> loader \<Rightarrow> (cs_ptr \<times> loader) option" where
  "ld_get_default_collation lib cs s = do {
     let name = cs_name (lib_charset lib cs);
     guard (length name \<noteq> 4 \<or> name \<noteq> utf8_name) ();
     if is_primary lib cs then Some (cs, s)
     else case ld_get_charset lib name MY_CS_PRIMARY s of (cs, s) \<Rightarrow> guard (cs \<noteq> 0) (cs, s) }"

text \<open>\<open>Charset_loader_server\<close>: the same with errors.\<close>

definition ld_raise :: "charset_error \<Rightarrow> loader \<Rightarrow> loader" where
  "ld_raise e s = s\<lparr>ld_raised := ld_raised s @ [e]\<rparr>"

definition get_exact_collation_or_error :: "charset_lib \<Rightarrow> u8 list \<Rightarrow> loader \<Rightarrow> cs_ptr \<times> loader" where
  "get_exact_collation_or_error lib name s =
     (let (ci, s) = ld_get_exact_collation lib name s in (ci, if ci = 0 then ld_raise (Unknown_collation name) s else s))"

definition get_exact_collation_by_context_name_or_error ::
    "charset_lib \<Rightarrow> cs_ptr \<Rightarrow> u8 list \<Rightarrow> loader \<Rightarrow> cs_ptr \<times> loader" where
  "get_exact_collation_by_context_name_or_error lib cs name s =
     (let (ci, s) = ld_get_exact_collation_by_context_name lib cs name s
      in (ci, if ci = 0 then ld_raise (Not_applicable (cs_name (lib_charset lib cs)) name) s else s))"

definition get_context_collation_or_error :: "charset_lib \<Rightarrow> u8 list \<Rightarrow> loader \<Rightarrow> cs_ptr \<times> loader" where
  "get_context_collation_or_error lib collation_name s =
     (let (ci, s) = ld_get_context_collation lib collation_name s
      in (ci, if ci = 0 then ld_raise (Unknown_collation collation_name) s else s))"

text \<open>The name in the message is cut to 64 bytes; \<open>_bin\<close> is its end.\<close>

definition get_bin_collation_or_error :: "charset_lib \<Rightarrow> cs_ptr \<Rightarrow> loader \<Rightarrow> (cs_ptr \<times> loader) option" where
  "get_bin_collation_or_error lib cs s = do {
     let name = cs_name (lib_charset lib cs);
     (cs, s) \<leftarrow> ld_get_bin_collation lib cs s;
     Some (cs, if cs = 0 then ld_raise (Unknown_collation (take 64 (name @ [95, 98, 105, 110]))) s else s) }"

definition server_get_default_collation :: "charset_lib \<Rightarrow> cs_ptr \<Rightarrow> loader \<Rightarrow> (cs_ptr \<times> loader) option" where
  "server_get_default_collation lib cs s = ld_get_default_collation lib cs s"

subsection \<open>Exact and contextually typed clauses\<close>

definition exact_charset_make :: "charset_lib \<Rightarrow> cs_ptr \<Rightarrow> cs_ptr option" where
  "exact_charset_make lib ci = guard (ci \<noteq> 0 \<and> is_primary lib ci) ci"

record opt_context_charset =
  had_charset_default :: bool

definition opt_context_init :: "'a opt_context_charset_scheme \<Rightarrow> 'a opt_context_charset_scheme" where
  "opt_context_init o' = o'\<lparr>had_charset_default := False\<rparr>"

definition opt_merge_charset_default :: "'a opt_context_charset_scheme \<Rightarrow> 'a opt_context_charset_scheme" where
  "opt_merge_charset_default o' = o'\<lparr>had_charset_default := True\<rparr>"

definition opt_context_is_empty :: "'a opt_context_charset_scheme \<Rightarrow> bool" where
  "opt_context_is_empty o' \<longleftrightarrow> \<not> had_charset_default o'"

definition is_contextually_typed_charset_default :: "'a opt_context_charset_scheme \<Rightarrow> bool" where
  "is_contextually_typed_charset_default o' \<longleftrightarrow> had_charset_default o'"

definition context_collation_make :: "cs_ptr \<Rightarrow> cs_ptr option" where
  "context_collation_make ci = guard (ci \<noteq> 0) ci"

definition is_collate_default :: "charset_lib \<Rightarrow> cs_ptr \<Rightarrow> bool" where
  "is_collate_default lib ci \<longleftrightarrow> ci = lib_typed_default lib"

definition is_binary_style :: "charset_lib \<Rightarrow> cs_ptr \<Rightarrow> bool" where
  "is_binary_style lib ci \<longleftrightarrow> ci = lib_typed_binary lib"

definition collation_name_context_suffix :: "charset_lib \<Rightarrow> cs_ptr \<Rightarrow> u8 list" where
  "collation_name_context_suffix lib ci = lib_context_suffix lib ci"

definition exact_collation_make :: "cs_ptr \<Rightarrow> cs_ptr option" where
  "exact_collation_make ci = guard (ci \<noteq> 0) ci"

subsection \<open>COLLATE clauses\<close>

definition ec_init :: "cs_ptr \<Rightarrow> extended_collation_type \<Rightarrow> extended_collation" where
  "ec_init ci type' = \<lparr>ec_ci = ci, ec_type = type'\<rparr>"

definition ec_name_for_show :: "charset_lib \<Rightarrow> extended_collation \<Rightarrow> u8 list option" where
  "ec_name_for_show lib c = (case ec_type c of
     TYPE_CONTEXTUALLY_TYPED \<Rightarrow> map_option (lib_context_name lib) (context_collation_make (ec_ci c))
   | TYPE_EXACT \<Rightarrow> Some (lib_coll_name lib (ec_ci c)))"

definition ec_set_collate_default :: "charset_lib \<Rightarrow> extended_collation \<Rightarrow> extended_collation" where
  "ec_set_collate_default lib c = c\<lparr>ec_ci := lib_typed_default lib, ec_type := TYPE_CONTEXTUALLY_TYPED\<rparr>"

text \<open>\<open>res\<close> is not initialised before it is set.\<close>

definition collate_default :: "charset_lib \<Rightarrow> extended_collation \<Rightarrow> extended_collation" where
  "collate_default lib res = ec_set_collate_default lib res"

definition ec_of_exact :: "cs_ptr \<Rightarrow> extended_collation" where
  "ec_of_exact rhs = ec_init rhs TYPE_EXACT"

definition ec_of_context :: "cs_ptr \<Rightarrow> extended_collation" where
  "ec_of_context rhs = ec_init rhs TYPE_CONTEXTUALLY_TYPED"

subsection \<open>CHARACTER SET with an optional COLLATE\<close>

definition eo_make :: "charset_lib \<Rightarrow> cs_ptr \<Rightarrow> bool \<Rightarrow> exact_charset_opt option" where
  "eo_make lib ci with_collate =
     guard (ci \<noteq> 0 \<and> (is_primary lib ci \<or> with_collate)) \<lparr>eo_ci = ci, eo_with_collate = with_collate\<rparr>"

definition eo_of_charset :: "charset_lib \<Rightarrow> cs_ptr \<Rightarrow> exact_charset_opt option" where
  "eo_of_charset lib cs = guard (cs \<noteq> 0 \<and> is_primary lib cs) \<lparr>eo_ci = cs, eo_with_collate = False\<rparr>"

definition eo_of_collation :: "cs_ptr \<Rightarrow> exact_charset_opt option" where
  "eo_of_collation cl = guard (cl \<noteq> 0) \<lparr>eo_ci = cl, eo_with_collate = True\<rparr>"

definition eo_merge_collation ::
    "charset_lib \<Rightarrow> extended_collation \<Rightarrow> exact_charset_opt \<times> errors \<Rightarrow> (bool \<times> exact_charset_opt \<times> errors) option" where
  "eo_merge_collation lib cl s = (case ec_type cl of
     TYPE_EXACT \<Rightarrow> map_option (\<lambda>c. lib_opt_merge_exact lib c s) (exact_collation_make (ec_ci cl))
   | TYPE_CONTEXTUALLY_TYPED \<Rightarrow> map_option (\<lambda>c. lib_opt_merge_context lib c s) (context_collation_make (ec_ci cl)))"

definition eo_merge_collation_override ::
    "charset_lib \<Rightarrow> extended_collation \<Rightarrow> exact_charset_opt \<times> errors \<Rightarrow> (bool \<times> exact_charset_opt \<times> errors) option" where
  "eo_merge_collation_override lib cl s = (case ec_type cl of
     TYPE_EXACT \<Rightarrow> map_option (\<lambda>c. lib_opt_override_exact lib c s) (exact_collation_make (ec_ci cl))
   | TYPE_CONTEXTUALLY_TYPED \<Rightarrow> map_option (\<lambda>c. lib_opt_override_context lib c s) (context_collation_make (ec_ci cl)))"

definition eo_collation :: "exact_charset_opt \<Rightarrow> cs_ptr option" where
  "eo_collation c = exact_collation_make (eo_ci c)"

definition eo_charset :: "charset_lib \<Rightarrow> exact_charset_opt \<Rightarrow> errors \<Rightarrow> (cs_ptr \<times> errors) option" where
  "eo_charset lib c es =
     (if is_primary lib (eo_ci c) then map_option (\<lambda>cs. (cs, es)) (exact_charset_make lib (eo_ci c))
      else case lib_find_default lib c es of (ci, es) \<Rightarrow> map_option (\<lambda>cs. (cs, es)) (exact_charset_make lib ci))"

subsection \<open>Attributes of a column\<close>

fun type_from_lex_collation_type :: "extended_collation_type \<Rightarrow> attrs_type" where
  "type_from_lex_collation_type TYPE_EXACT = TYPE_COLLATE_EXACT"
| "type_from_lex_collation_type TYPE_CONTEXTUALLY_TYPED = TYPE_COLLATE_CONTEXTUALLY_TYPED"

definition at_init :: collation_attrs where
  "at_init = \<lparr>at_ci = 0, at_type = TYPE_EMPTY\<rparr>"

definition at_init_typed :: "cs_ptr \<Rightarrow> attrs_type \<Rightarrow> collation_attrs option" where
  "at_init_typed cs type' = guard (cs \<noteq> 0 \<or> type' = TYPE_EMPTY) \<lparr>at_ci = cs, at_type = type'\<rparr>"

definition at_init_charset :: "cs_ptr \<Rightarrow> collation_attrs" where
  "at_init_charset cs = \<lparr>at_ci = cs, at_type = TYPE_CHARACTER_SET\<rparr>"

definition at_init_collation :: "cs_ptr \<Rightarrow> collation_attrs" where
  "at_init_collation cs = \<lparr>at_ci = cs, at_type = TYPE_COLLATE_EXACT\<rparr>"

definition at_init_opt :: "charset_lib \<Rightarrow> exact_charset_opt \<Rightarrow> errors \<Rightarrow> (collation_attrs \<times> errors) option" where
  "at_init_opt lib cscl es =
     (if eo_with_collate cscl
      then do { cl \<leftarrow> eo_collation cscl; a \<leftarrow> at_init_typed cl TYPE_CHARACTER_SET_COLLATE_EXACT; Some (a, es) }
      else do { (cs, es) \<leftarrow> eo_charset lib cscl es; Some (at_init_charset cs, es) })"

definition at_is_empty :: "collation_attrs \<Rightarrow> bool" where
  "at_is_empty a \<longleftrightarrow> at_type a = TYPE_EMPTY"

definition at_set_charset :: "cs_ptr \<Rightarrow> collation_attrs \<Rightarrow> collation_attrs" where
  "at_set_charset cs a = a\<lparr>at_ci := cs, at_type := TYPE_CHARACTER_SET\<rparr>"

text \<open>The two setters answer True when the collation is not found.\<close>

definition set_charset_collate_default ::
    "charset_lib \<Rightarrow> cs_ptr \<Rightarrow> collation_attrs \<Rightarrow> errors \<Rightarrow> (bool \<times> collation_attrs \<times> errors) option" where
  "set_charset_collate_default lib cs a es = do {
     c \<leftarrow> eo_of_charset lib cs;
     let (ci, es) = lib_find_default lib c es;
     Some (if ci = 0 then (True, a, es)
           else (False, a\<lparr>at_ci := ci, at_type := TYPE_CHARACTER_SET_COLLATE_EXACT\<rparr>, es)) }"

definition set_charset_collate_binary ::
    "charset_lib \<Rightarrow> cs_ptr \<Rightarrow> collation_attrs \<Rightarrow> errors \<Rightarrow> (bool \<times> collation_attrs \<times> errors) option" where
  "set_charset_collate_binary lib cs a es = do {
     c \<leftarrow> eo_of_charset lib cs;
     let (ci, es) = lib_find_bin lib c es;
     Some (if ci = 0 then (True, a, es)
           else (False, a\<lparr>at_ci := ci, at_type := TYPE_CHARACTER_SET_COLLATE_EXACT\<rparr>, es)) }"

definition at_set_collate_default :: "charset_lib \<Rightarrow> collation_attrs \<Rightarrow> collation_attrs" where
  "at_set_collate_default lib a = a\<lparr>at_ci := lib_typed_default lib, at_type := TYPE_COLLATE_CONTEXTUALLY_TYPED\<rparr>"

definition set_contextually_typed_binary_style :: "charset_lib \<Rightarrow> collation_attrs \<Rightarrow> collation_attrs" where
  "set_contextually_typed_binary_style lib a =
     a\<lparr>at_ci := lib_typed_binary lib, at_type := TYPE_COLLATE_CONTEXTUALLY_TYPED\<rparr>"

definition at_is_collate_default :: "charset_lib \<Rightarrow> collation_attrs \<Rightarrow> bool option" where
  "at_is_collate_default lib a = map_option (is_collate_default lib) (context_collation_make (at_ci a))"

definition is_contextually_typed_collation :: "collation_attrs \<Rightarrow> bool" where
  "is_contextually_typed_collation a \<longleftrightarrow> at_type a = TYPE_COLLATE_CONTEXTUALLY_TYPED"

definition merge_column_charset_clause_and_collate_clause ::
    "charset_lib \<Rightarrow> collation_attrs \<Rightarrow> collation_attrs \<times> errors \<Rightarrow> (bool \<times> collation_attrs \<times> errors) option" where
  "merge_column_charset_clause_and_collate_clause lib cl s = (case at_type cl of
     TYPE_EMPTY \<Rightarrow> Some (False, s)
   | TYPE_COLLATE_EXACT \<Rightarrow> map_option (\<lambda>c. lib_merge_exact lib c s) (exact_collation_make (at_ci cl))
   | TYPE_COLLATE_CONTEXTUALLY_TYPED \<Rightarrow> map_option (\<lambda>c. lib_merge_context lib c s) (context_collation_make (at_ci cl))
   | TYPE_CHARACTER_SET \<Rightarrow> None
   | TYPE_CHARACTER_SET_COLLATE_EXACT \<Rightarrow> None)"

definition merge_column_collate_clause_and_collate_clause ::
    "charset_lib \<Rightarrow> collation_attrs \<Rightarrow> collation_attrs \<times> errors \<Rightarrow> (bool \<times> collation_attrs \<times> errors) option" where
  "merge_column_collate_clause_and_collate_clause lib cl s = do {
     guard (at_type (fst s) \<noteq> TYPE_CHARACTER_SET) ();
     (case at_type cl of
        TYPE_EMPTY \<Rightarrow> Some (False, s)
      | TYPE_COLLATE_EXACT \<Rightarrow> map_option (\<lambda>c. lib_merge_exact lib c s) (exact_collation_make (at_ci cl))
      | TYPE_COLLATE_CONTEXTUALLY_TYPED \<Rightarrow> map_option (\<lambda>c. lib_merge_context lib c s) (context_collation_make (at_ci cl))
      | TYPE_CHARACTER_SET \<Rightarrow> None
      | TYPE_CHARACTER_SET_COLLATE_EXACT \<Rightarrow> None) }"

text \<open>The constructors of \<open>Lex_exact_charset_extended_collation_attrs\<close>.\<close>

definition attrs_make :: collation_attrs where "attrs_make = at_init"

definition attrs_make_typed :: "cs_ptr \<Rightarrow> attrs_type \<Rightarrow> collation_attrs option" where
  "attrs_make_typed collation type' = at_init_typed collation type'"

definition attrs_of_charset :: "cs_ptr \<Rightarrow> collation_attrs option" where
  "attrs_of_charset cs = at_init_typed cs TYPE_CHARACTER_SET"

definition attrs_of_exact :: "cs_ptr \<Rightarrow> collation_attrs option" where
  "attrs_of_exact cl = at_init_typed cl TYPE_COLLATE_EXACT"

definition attrs_of_context :: "cs_ptr \<Rightarrow> collation_attrs option" where
  "attrs_of_context cl = at_init_typed cl TYPE_COLLATE_CONTEXTUALLY_TYPED"

definition attrs_of_opt :: "charset_lib \<Rightarrow> exact_charset_opt \<Rightarrow> errors \<Rightarrow> (collation_attrs \<times> errors) option" where
  "attrs_of_opt lib cscl es = at_init_opt lib cscl es"

definition attrs_of_extended :: "extended_collation \<Rightarrow> collation_attrs option" where
  "attrs_of_extended cl = at_init_typed (ec_ci cl) (type_from_lex_collation_type (ec_type cl))"

definition national :: "charset_lib \<Rightarrow> bool \<Rightarrow> collation_attrs option" where
  "national lib bin_mod =
     (if bin_mod then attrs_make_typed (lib_utf8mb3_bin lib) TYPE_COLLATE_EXACT
      else attrs_make_typed (lib_utf8mb3_general_ci lib) TYPE_CHARACTER_SET)"

subsection \<open>Defaults of the level above, and attributes of a table\<close>

record collation_context =
  cc_charset_default :: exact_charset_opt
  cc_collate_default :: cs_ptr

definition collation_context_make :: "charset_lib \<Rightarrow> cs_ptr \<Rightarrow> cs_ptr \<Rightarrow> collation_context option" where
  "collation_context_make lib charset_default collate_default' = do {
     cs \<leftarrow> eo_make lib charset_default (\<not> is_primary lib charset_default);
     cl \<leftarrow> exact_collation_make collate_default';
     Some \<lparr>cc_charset_default = cs, cc_collate_default = cl\<rparr> }"

datatype charset_type = CHARSET_TYPE_EMPTY | CHARSET_TYPE_CONTEXT | CHARSET_TYPE_EXACT

record table_attrs = opt_context_charset +
  ta_attrs :: collation_attrs
  ta_charset_order :: charset_type

definition ta_init :: table_attrs where
  "ta_init = opt_context_init \<lparr>had_charset_default = False, ta_attrs = at_init, ta_charset_order = CHARSET_TYPE_EMPTY\<rparr>"

definition ta_init_opt :: "charset_lib \<Rightarrow> exact_charset_opt \<Rightarrow> errors \<Rightarrow> (table_attrs \<times> errors) option" where
  "ta_init_opt lib c es = do {
     (a, es) \<leftarrow> at_init_opt lib c es;
     Some (opt_context_init \<lparr>had_charset_default = False, ta_attrs = a, ta_charset_order = CHARSET_TYPE_EXACT\<rparr>, es) }"

definition ta_is_empty :: "table_attrs \<Rightarrow> bool" where
  "ta_is_empty t \<longleftrightarrow> opt_context_is_empty t \<and> at_is_empty (ta_attrs t)"

lemmas charset_makes = exact_charset_make_def context_collation_make_def exact_collation_make_def eo_make_def
  eo_of_charset_def eo_of_collation_def at_init_def at_init_typed_def at_init_charset_def at_init_collation_def
  attrs_make_def attrs_make_typed_def attrs_of_charset_def attrs_of_exact_def attrs_of_context_def attrs_of_extended_def

subsection \<open>What the missing functions promise\<close>

text \<open>The character set a pointer belongs to is told by its name. A look-up by name and flag answers NULL or a
  collation of that name with the flag; every character set has a default collation.\<close>

definition same_charset :: "charset_lib \<Rightarrow> cs_ptr \<Rightarrow> cs_ptr \<Rightarrow> bool" where
  "same_charset lib a b \<longleftrightarrow> cs_name (lib_charset lib a) = cs_name (lib_charset lib b)"

definition charset_lib_ok :: "charset_lib \<Rightarrow> bool" where
  "charset_lib_ok lib \<longleftrightarrow>
     (\<forall>name f. let c = fst (lib_charset_by_name lib name f) in
        c = 0 \<or> cs_name (lib_charset lib c) = name \<and> cs_state (lib_charset lib c) AND f \<noteq> 0) \<and>
     (\<forall>c. c \<noteq> 0 \<longrightarrow> fst (lib_charset_by_name lib (cs_name (lib_charset lib c)) MY_CS_PRIMARY) \<noteq> 0) \<and>
     lib_typed_default lib \<noteq> 0 \<and> lib_typed_binary lib \<noteq> 0 \<and> lib_typed_default lib \<noteq> lib_typed_binary lib \<and>
     lib_utf8mb3_bin lib \<noteq> 0 \<and> lib_utf8mb3_general_ci lib \<noteq> 0 \<and> is_primary lib (lib_utf8mb3_general_ci lib) \<and>
     (\<forall>c es. let d = fst (lib_find_default lib c es) in d = 0 \<or> is_primary lib d \<and> same_charset lib d (eo_ci c)) \<and>
     (\<forall>c es. let d = fst (lib_find_bin lib c es) in
        d = 0 \<or> binsort_flag (lib_charset lib d) \<noteq> 0 \<and> same_charset lib d (eo_ci c))"

text \<open>Objects the constructors let through, and attributes whose pointer fits their type.\<close>

definition eo_ok :: "charset_lib \<Rightarrow> exact_charset_opt \<Rightarrow> bool" where
  "eo_ok lib c \<longleftrightarrow> eo_ci c \<noteq> 0 \<and> (is_primary lib (eo_ci c) \<or> eo_with_collate c)"

definition attrs_ok :: "charset_lib \<Rightarrow> collation_attrs \<Rightarrow> bool" where
  "attrs_ok lib a \<longleftrightarrow> (at_type a = TYPE_EMPTY \<or> at_ci a \<noteq> 0) \<and>
     (at_type a = TYPE_CHARACTER_SET \<longrightarrow> is_primary lib (at_ci a))"

lemma eo_makes_ok:
  "eo_make lib ci w = Some c \<Longrightarrow> eo_ok lib c" "eo_of_charset lib ci = Some c \<Longrightarrow> eo_ok lib c"
  "eo_of_collation ci = Some c \<Longrightarrow> eo_ok lib c"
  by (auto simp: charset_makes eo_ok_def)

lemma lookup_ok:
  assumes "charset_lib_ok lib" "lib_charset_by_name lib name f = (c, e)" "c \<noteq> 0"
  shows "cs_name (lib_charset lib c) = name" "cs_state (lib_charset lib c) AND f \<noteq> 0"
proof -
  have "fst (lib_charset_by_name lib name f) = 0 \<or> cs_name (lib_charset lib (fst (lib_charset_by_name lib name f))) = name \<and>
      cs_state (lib_charset lib (fst (lib_charset_by_name lib name f))) AND f \<noteq> 0"
    using assms(1) unfolding charset_lib_ok_def Let_def by blast
  then show "cs_name (lib_charset lib c) = name" "cs_state (lib_charset lib c) AND f \<noteq> 0" using assms(2,3) by auto
qed

lemma primary_flag: "is_primary lib c \<longleftrightarrow> cs_state (lib_charset lib c) AND MY_CS_PRIMARY \<noteq> 0"
  by (simp add: is_primary_def default_flag_def MY_CS_PRIMARY_def)

lemma binsort_state: "binsort_flag cs \<noteq> 0 \<longleftrightarrow> cs_state cs AND MY_CS_BINSORT \<noteq> 0"
  by (simp add: binsort_flag_def MY_CS_BINSORT_def)

lemma default_collation_found:
  assumes "charset_lib_ok lib" "cs \<noteq> 0" "cs_name (lib_charset lib cs) \<noteq> utf8_name"
  shows "\<exists>d s'. ld_get_default_collation lib cs s = Some (d, s') \<and> d \<noteq> 0 \<and> is_primary lib d \<and> same_charset lib d cs \<and>
    ld_raised s' = ld_raised s"
proof (cases "is_primary lib cs")
  case True
  then show ?thesis using assms by (simp add: ld_get_default_collation_def same_charset_def guard_def)
next
  case False
  obtain d e where d: "lib_charset_by_name lib (cs_name (lib_charset lib cs)) MY_CS_PRIMARY = (d, e)" by fastforce
  moreover have "d \<noteq> 0" using assms(1,2) d unfolding charset_lib_ok_def by (metis fst_conv)
  ultimately show ?thesis
    using False assms(3) lookup_ok [OF assms(1) d]
    by (simp add: ld_get_default_collation_def ld_get_charset_def same_charset_def primary_flag guard_def)
qed

lemma bin_collation_found:
  assumes "charset_lib_ok lib" "cs_name (lib_charset lib cs) \<noteq> utf8_name" "cs \<noteq> 0"
  shows "\<exists>b s'. get_bin_collation_or_error lib cs s = Some (b, s') \<and>
    (if b = 0 then ld_raised s' = ld_raised s @ [Unknown_collation (take 64 (cs_name (lib_charset lib cs) @ [95, 98, 105, 110]))]
     else binsort_flag (lib_charset lib b) \<noteq> 0 \<and> same_charset lib b cs \<and> ld_raised s' = ld_raised s)"
proof (cases "binsort_flag (lib_charset lib cs) = 0")
  case False
  then show ?thesis using assms
    by (simp add: get_bin_collation_or_error_def ld_get_bin_collation_def same_charset_def guard_def)
next
  case True
  obtain b e where b: "lib_charset_by_name lib (cs_name (lib_charset lib cs)) MY_CS_BINSORT = (b, e)" by fastforce
  then show ?thesis
    using True assms(2) lookup_ok [OF assms(1) b]
    by (auto simp: get_bin_collation_or_error_def ld_get_bin_collation_def ld_get_charset_def same_charset_def ld_raise_def
        binsort_state guard_def)
qed

text \<open>
  The default collation of a character set is always found, is marked as the default, and is its own
  default; the search for the binary collation either finds one of the character set or raises exactly
  one error that names it; the default collation of the binary one is a default collation of the same
  character set again. Neither search stops on an assertion, for any real character set name.
\<close>

lemma default_and_binary_collations:
  assumes "charset_lib_ok lib" "cs \<noteq> 0" "cs_name (lib_charset lib cs) \<noteq> utf8_name"
  shows "(\<exists>d s'. ld_get_default_collation lib cs s = Some (d, s') \<and> d \<noteq> 0 \<and> is_primary lib d \<and> same_charset lib d cs \<and>
      ld_raised s' = ld_raised s \<and> ld_get_default_collation lib d s' = Some (d, s')) \<and>
    (\<exists>b s'. get_bin_collation_or_error lib cs s = Some (b, s') \<and>
      (if b = 0 then ld_raised s' = ld_raised s @ [Unknown_collation (take 64 (cs_name (lib_charset lib cs) @ [95, 98, 105, 110]))]
       else binsort_flag (lib_charset lib b) \<noteq> 0 \<and> same_charset lib b cs \<and> ld_raised s' = ld_raised s \<and>
         get_bin_collation_or_error lib b s' = Some (b, s') \<and>
         (\<exists>d s''. ld_get_default_collation lib b s' = Some (d, s'') \<and> is_primary lib d \<and> same_charset lib d cs)))"
proof -
  obtain d s' where d: "ld_get_default_collation lib cs s = Some (d, s')" "d \<noteq> 0" "is_primary lib d" "same_charset lib d cs"
      "ld_raised s' = ld_raised s"
    using default_collation_found [OF assms] by blast
  have again: "ld_get_default_collation lib d s' = Some (d, s')"
    using d(3,4) assms(3) by (simp add: ld_get_default_collation_def same_charset_def guard_def)
  obtain b t where b: "get_bin_collation_or_error lib cs s = Some (b, t)"
      "if b = 0 then ld_raised t = ld_raised s @ [Unknown_collation (take 64 (cs_name (lib_charset lib cs) @ [95, 98, 105, 110]))]
       else binsort_flag (lib_charset lib b) \<noteq> 0 \<and> same_charset lib b cs \<and> ld_raised t = ld_raised s"
    using bin_collation_found [OF assms(1,3,2)] by blast
  have found: "get_bin_collation_or_error lib b t = Some (b, t) \<and>
      (\<exists>d s''. ld_get_default_collation lib b t = Some (d, s'') \<and> is_primary lib d \<and> same_charset lib d cs)" if "b \<noteq> 0"
  proof -
    have n: "cs_name (lib_charset lib b) = cs_name (lib_charset lib cs)" "binsort_flag (lib_charset lib b) \<noteq> 0"
      using b(2) that by (simp_all add: same_charset_def)
    then have "get_bin_collation_or_error lib b t = Some (b, t)"
      using assms(3) that by (simp add: get_bin_collation_or_error_def ld_get_bin_collation_def guard_def)
    then show ?thesis
      using default_collation_found [OF assms(1) that, of t] n assms(3) by (auto simp: same_charset_def)
  qed
  show ?thesis using d again b found by (cases "b = 0") auto
qed

text \<open>Every constructor and setter of the column attributes leaves a pointer that fits the type, provided its
  arguments are objects their own constructors let through, and stops on no assertion; a setter that
  answers True leaves the attributes alone, one that answers False sets a collation of the character set
  that was given. Attributes made from an object of another class can be told apart again.\<close>

lemma collation_attributes_typed:
  assumes "charset_lib_ok lib" "exact_charset_make lib cs = Some p" "exact_collation_make cl = Some q" "eo_ok lib c" "attrs_ok lib a"
  shows "attrs_ok lib at_init \<and>
    (\<exists>b. attrs_of_charset p = Some b \<and> attrs_ok lib b \<and> at_type b = TYPE_CHARACTER_SET) \<and>
    (\<exists>b. attrs_of_exact q = Some b \<and> attrs_ok lib b \<and> \<not> is_contextually_typed_collation b) \<and>
    (\<exists>b. attrs_of_extended \<lparr>ec_ci = q, ec_type = t\<rparr> = Some b \<and> attrs_ok lib b \<and>
      (is_contextually_typed_collation b \<longleftrightarrow> t = TYPE_CONTEXTUALLY_TYPED)) \<and>
    (\<exists>b. at_init_opt lib c es = Some (b, es) \<and> attrs_ok lib b \<and> at_ci b = eo_ci c \<and>
      (at_type b = TYPE_CHARACTER_SET_COLLATE_EXACT \<longleftrightarrow> eo_with_collate c)) \<and>
    (\<exists>r b es'. set_charset_collate_default lib p a es = Some (r, b, es') \<and> attrs_ok lib b \<and>
      (if r then b = a else is_primary lib (at_ci b) \<and> same_charset lib (at_ci b) p)) \<and>
    (\<exists>r b es'. set_charset_collate_binary lib p a es = Some (r, b, es') \<and> attrs_ok lib b \<and>
      (if r then b = a else binsort_flag (lib_charset lib (at_ci b)) \<noteq> 0 \<and> same_charset lib (at_ci b) p)) \<and>
    at_is_collate_default lib (at_set_collate_default lib a) = Some True \<and>
    at_is_collate_default lib (set_contextually_typed_binary_style lib a) = Some False \<and>
    (\<exists>b. national lib bin_mod = Some b \<and> attrs_ok lib b)"
proof -
  have p: "p = cs" "cs \<noteq> 0" "is_primary lib cs" and q: "q = cl" "cl \<noteq> 0"
    using assms(2,3) by (auto simp: charset_makes)
  have c: "eo_ci c \<noteq> 0" "is_primary lib (eo_ci c) \<or> eo_with_collate c" using assms(4) by (simp_all add: eo_ok_def)
  have lib: "lib_typed_default lib \<noteq> 0" "lib_typed_binary lib \<noteq> 0" "lib_typed_default lib \<noteq> lib_typed_binary lib"
      "lib_utf8mb3_bin lib \<noteq> 0" "lib_utf8mb3_general_ci lib \<noteq> 0" "is_primary lib (lib_utf8mb3_general_ci lib)"
    using assms(1) by (simp_all add: charset_lib_ok_def)
  have opt: "\<exists>b. at_init_opt lib c es = Some (b, es) \<and> attrs_ok lib b \<and> at_ci b = eo_ci c \<and>
      (at_type b = TYPE_CHARACTER_SET_COLLATE_EXACT \<longleftrightarrow> eo_with_collate c)"
    using c by (auto simp: at_init_opt_def eo_collation_def eo_charset_def charset_makes attrs_ok_def)
  have default: "\<exists>r b es'. set_charset_collate_default lib p a es = Some (r, b, es') \<and> attrs_ok lib b \<and>
      (if r then b = a else is_primary lib (at_ci b) \<and> same_charset lib (at_ci b) p)"
  proof -
    let ?c = "\<lparr>eo_ci = p, eo_with_collate = False\<rparr>"
    have "fst (lib_find_default lib ?c es) = 0 \<or> is_primary lib (fst (lib_find_default lib ?c es)) \<and>
        same_charset lib (fst (lib_find_default lib ?c es)) (eo_ci ?c)"
      using assms(1) unfolding charset_lib_ok_def Let_def by blast
    then show ?thesis using p assms(5)
      by (cases "lib_find_default lib ?c es") (auto simp: set_charset_collate_default_def charset_makes attrs_ok_def)
  qed
  have binary: "\<exists>r b es'. set_charset_collate_binary lib p a es = Some (r, b, es') \<and> attrs_ok lib b \<and>
      (if r then b = a else binsort_flag (lib_charset lib (at_ci b)) \<noteq> 0 \<and> same_charset lib (at_ci b) p)"
  proof -
    let ?c = "\<lparr>eo_ci = p, eo_with_collate = False\<rparr>"
    have "fst (lib_find_bin lib ?c es) = 0 \<or> binsort_flag (lib_charset lib (fst (lib_find_bin lib ?c es))) \<noteq> 0 \<and>
        same_charset lib (fst (lib_find_bin lib ?c es)) (eo_ci ?c)"
      using assms(1) unfolding charset_lib_ok_def Let_def by blast
    then show ?thesis using p assms(5)
      by (cases "lib_find_bin lib ?c es") (auto simp: set_charset_collate_binary_def charset_makes attrs_ok_def)
  qed
  show ?thesis
    using p q lib opt default binary
    by (cases t) (simp_all add: charset_makes attrs_ok_def is_contextually_typed_collation_def at_is_collate_default_def
        is_collate_default_def at_set_collate_default_def set_contextually_typed_binary_style_def national_def)
qed

text \<open>
  The merges call the member for the type of the clause; only a clause that names a character set is
  refused.
\<close>

lemma merges_dispatch:
  assumes "attrs_of_extended cl = Some b"
  shows "merge_column_charset_clause_and_collate_clause lib b s =
      Some (case ec_type cl of TYPE_EXACT \<Rightarrow> lib_merge_exact lib (ec_ci cl) s | TYPE_CONTEXTUALLY_TYPED \<Rightarrow> lib_merge_context lib (ec_ci cl) s)"
    "merge_column_charset_clause_and_collate_clause lib at_init s = Some (False, s)"
    "merge_column_charset_clause_and_collate_clause lib (at_init_charset p) s = None"
    "at_type (fst s) \<noteq> TYPE_CHARACTER_SET \<Longrightarrow>
      merge_column_collate_clause_and_collate_clause lib b s = merge_column_charset_clause_and_collate_clause lib b s"
    "eo_merge_collation lib cl t =
      Some (case ec_type cl of TYPE_EXACT \<Rightarrow> lib_opt_merge_exact lib (ec_ci cl) t
        | TYPE_CONTEXTUALLY_TYPED \<Rightarrow> lib_opt_merge_context lib (ec_ci cl) t)"
  using assms
  by (auto simp: charset_makes merge_column_charset_clause_and_collate_clause_def merge_column_collate_clause_and_collate_clause_def
      eo_merge_collation_def split: extended_collation_type.splits)

text \<open>The defaults of a level are accepted for every pair of collations.\<close>

lemma collation_context_ok:
  "cs \<noteq> 0 \<Longrightarrow> cl \<noteq> 0 \<Longrightarrow> \<exists>ctx. collation_context_make lib cs cl = Some ctx \<and> eo_ok lib (cc_charset_default ctx) \<and>
    eo_ci (cc_charset_default ctx) = cs \<and> cc_collate_default ctx = cl"
  by (auto simp: collation_context_make_def charset_makes eo_ok_def)

subsection \<open>An instance\<close>

definition tiny_cs :: "u8 list \<Rightarrow> u32 \<Rightarrow> charset_info" where
  "tiny_cs name state =
     \<lparr>cs_id = 0, cs_number = 0, cs_state = state, cs_name = name, m_ctype = [], to_lower_tab = [], to_upper_tab = [],
      mbminlen = 1, mbmaxlen = 1, cset_charlen = (\<lambda>_. 1), cset_numchars = (\<lambda>_. 0), cset_charpos = (\<lambda>_ _. 0),
      cset_lengthsp = (\<lambda>_. 0), cset_well_formed = (\<lambda>_ _. (0, False)), cset_wc_mb = (\<lambda>_. (0, [])), cset_scan_spaces = (\<lambda>_. 0)\<rparr>"

text \<open>
  Pointers 1 and 2 are the default and the binary collation of one character set, 3 and 4 the markers;
  every other pointer refers to the first.
\<close>

definition tiny_lib :: charset_lib where
  "tiny_lib = \<lparr>lib_charset = (\<lambda>c. if c = 2 then tiny_cs [108] 16 else tiny_cs [108] 32),
     lib_charset_by_name = (\<lambda>n f. if n = [108] then (if f AND 32 \<noteq> 0 then 1 else if f AND 16 \<noteq> 0 then 2 else 0, []) else (0, [])),
     lib_collation_by_name = (\<lambda>n. (0, [])), lib_utf8mb4_general_ci = 1, lib_typed_default = 3, lib_typed_binary = 4,
     lib_utf8mb3_bin = 2, lib_utf8mb3_general_ci = 1, lib_coll_name = (\<lambda>_. []), lib_context_suffix = (\<lambda>_. []),
     lib_context_name = (\<lambda>_. []), lib_find_bin = (\<lambda>_ es. (2, es)), lib_find_default = (\<lambda>_ es. (1, es)),
     lib_opt_merge_exact = (\<lambda>_ s. (False, s)), lib_opt_merge_context = (\<lambda>_ s. (False, s)),
     lib_opt_override_exact = (\<lambda>_ s. (False, s)), lib_opt_override_context = (\<lambda>_ s. (False, s)),
     lib_merge_exact = (\<lambda>_ s. (False, s)), lib_merge_context = (\<lambda>_ s. (False, s))\<rparr>"

lemma tiny_lib_ok: "charset_lib_ok tiny_lib"
  by (auto simp: charset_lib_ok_def tiny_lib_def tiny_cs_def Let_def same_charset_def is_primary_def default_flag_def
      binsort_flag_def MY_CS_PRIMARY_def and.commute)

lemma default_and_binary_collations_witness:
  "\<exists>d s'. ld_get_default_collation tiny_lib 2 \<lparr>ld_error = [], ld_raised = []\<rparr> = Some (d, s') \<and> is_primary tiny_lib d"
  using default_and_binary_collations [OF tiny_lib_ok, of 2 "\<lparr>ld_error = [], ld_raised = []\<rparr>"]
  by (auto simp: tiny_lib_def tiny_cs_def utf8_name_def)

lemma collation_attributes_typed_witness:
  "\<exists>r b es'. set_charset_collate_binary tiny_lib 1 at_init [] = Some (r, b, es') \<and> attrs_ok tiny_lib b"
proof -
  have "exact_charset_make tiny_lib 1 = Some 1" "exact_collation_make 2 = Some 2" "eo_ok tiny_lib \<lparr>eo_ci = 1, eo_with_collate = False\<rparr>"
      "attrs_ok tiny_lib at_init"
    by (simp_all add: charset_makes eo_ok_def attrs_ok_def is_primary_def default_flag_def tiny_lib_def tiny_cs_def)
  from collation_attributes_typed [OF tiny_lib_ok this, of TYPE_EXACT "[]" True] show ?thesis by blast
qed

end
