(* ===== verification/Lex_Types.thy ===== *)
theory Lex_Types
  imports Lex_Charset
begin

text \<open>
  What the grammar hands on to the statements, from \<open>structs.h\<close>: options of DDL statements, lengths and
  decimals of a data type with its character set packed into three bits, blocks and loops of stored
  routines, TRIM, SUBSTRING, LIMIT and locking clauses, account names. Items, type handlers, variables and
  expressions are numbers, 0 is NULL.
\<close>

subsection \<open>Account names\<close>

text \<open>A C string, without its final zero; \<open>None\<close> is NULL.\<close>

record authid =
  au_user :: "u8 list"
  au_host :: "u8 list option"

definition is_role :: "authid \<Rightarrow> bool" where
  "is_role a \<longleftrightarrow> au_user a \<noteq> [] \<and> (case au_host a of None \<Rightarrow> True | Some h \<Rightarrow> h = [])"

text \<open>\<open>set_lex_string\<close>: \<open>strxmov\<close> concatenates up to the first NULL argument.\<close>

definition set_lex_string :: "authid \<Rightarrow> u8 list" where
  "set_lex_string a =
     (if is_role a then au_user a
      else au_user a @ [64] @ (case au_host a of None \<Rightarrow> [] | Some h \<Rightarrow> h))"

record user_auth =
  ua_plugin_length :: u64
  ua_auth_length :: u64
  ua_pwtext_length :: u64

definition user_auth_make :: user_auth where
  "user_auth_make = \<lparr>ua_plugin_length = 0, ua_auth_length = 0, ua_pwtext_length = 0\<rparr>"

definition has_auth :: "user_auth option \<Rightarrow> bool" where
  "has_auth auth \<longleftrightarrow> (case auth of None \<Rightarrow> False
     | Some u \<Rightarrow> ua_plugin_length u \<noteq> 0 \<or> ua_auth_length u \<noteq> 0 \<or> ua_pwtext_length u \<noteq> 0)"

subsection \<open>Options of DDL statements\<close>

definition OPT_NONE :: u32 where "OPT_NONE = 0"
definition OPT_IF_NOT_EXISTS :: u32 where "OPT_IF_NOT_EXISTS = 2"
definition OPT_LIKE :: u32 where "OPT_LIKE = 4"
definition OPT_OR_REPLACE :: u32 where "OPT_OR_REPLACE = 16"
definition OPT_OR_REPLACE_SLAVE_GENERATED :: u32 where "OPT_OR_REPLACE_SLAVE_GENERATED = 32"
definition OPT_IF_EXISTS :: u32 where "OPT_IF_EXISTS = 64"
definition OPT_CREATE_SELECT :: u32 where "OPT_CREATE_SELECT = 128"

record ddl_options =
  m_options :: u32

definition create_like_options :: "ddl_options \<Rightarrow> u32" where
  "create_like_options d = m_options d AND (OPT_IF_NOT_EXISTS OR OPT_OR_REPLACE)"

definition ddl_init :: "ddl_options \<Rightarrow> ddl_options" where "ddl_init d = d\<lparr>m_options := OPT_NONE\<rparr>"
definition ddl_init_options :: "u32 \<Rightarrow> ddl_options \<Rightarrow> ddl_options" where "ddl_init_options options d = d\<lparr>m_options := options\<rparr>"
definition ddl_set :: "u32 \<Rightarrow> ddl_options \<Rightarrow> ddl_options" where "ddl_set other d = d\<lparr>m_options := other\<rparr>"
definition ddl_set_from :: "ddl_options \<Rightarrow> ddl_options \<Rightarrow> ddl_options" where "ddl_set_from other d = d\<lparr>m_options := m_options other\<rparr>"

definition ddl_if_not_exists :: "ddl_options \<Rightarrow> bool" where "ddl_if_not_exists d \<longleftrightarrow> m_options d AND OPT_IF_NOT_EXISTS \<noteq> 0"
definition ddl_or_replace :: "ddl_options \<Rightarrow> bool" where "ddl_or_replace d \<longleftrightarrow> m_options d AND OPT_OR_REPLACE \<noteq> 0"
definition ddl_or_replace_slave_generated :: "ddl_options \<Rightarrow> bool" where
  "ddl_or_replace_slave_generated d \<longleftrightarrow> m_options d AND OPT_OR_REPLACE_SLAVE_GENERATED \<noteq> 0"
definition ddl_like :: "ddl_options \<Rightarrow> bool" where "ddl_like d \<longleftrightarrow> m_options d AND OPT_LIKE \<noteq> 0"
definition ddl_if_exists :: "ddl_options \<Rightarrow> bool" where "ddl_if_exists d \<longleftrightarrow> m_options d AND OPT_IF_EXISTS \<noteq> 0"
definition ddl_is_create_select :: "ddl_options \<Rightarrow> bool" where "ddl_is_create_select d \<longleftrightarrow> m_options d AND OPT_CREATE_SELECT \<noteq> 0"

definition ddl_add :: "u32 \<Rightarrow> ddl_options \<Rightarrow> ddl_options" where
  "ddl_add other d = d\<lparr>m_options := m_options d OR other\<rparr>"

definition ddl_add_from :: "ddl_options \<Rightarrow> ddl_options \<Rightarrow> ddl_options" where
  "ddl_add_from other d = ddl_add (m_options other) d"

text \<open>\<open>operator|\<close> changes its left operand and answers a copy of it.\<close>

definition ddl_or :: "ddl_options \<Rightarrow> ddl_options \<Rightarrow> ddl_options \<times> ddl_options" where
  "ddl_or other d = (let d = ddl_add_from other d in (d, d))"

definition ddl_or_assign :: "u32 \<Rightarrow> ddl_options \<Rightarrow> ddl_options \<times> ddl_options" where
  "ddl_or_assign other d = (let d = ddl_add other d in (d, d))"

subsection \<open>Lengths and decimals\<close>

record lex_length_and_dec =
  ll_length :: u32
  ll_dec :: u8
  ll_collation_type :: u8
  ll_has_length :: bool
  ll_has_dec :: bool
  ll_length_overflowed :: bool
  ll_dec_overflowed :: bool

definition ll_reset :: "'a lex_length_and_dec_scheme \<Rightarrow> 'a lex_length_and_dec_scheme" where
  "ll_reset l = l\<lparr>ll_length := 0, ll_dec := 0, ll_collation_type := 0, ll_has_length := False, ll_has_dec := False,
     ll_length_overflowed := False, ll_dec_overflowed := False\<rparr>"

definition set_length_only :: "u32 \<Rightarrow> 'a lex_length_and_dec_scheme \<Rightarrow> 'a lex_length_and_dec_scheme" where
  "set_length_only len l = l\<lparr>ll_length := len, ll_dec := 0, ll_collation_type := 0, ll_has_length := True, ll_has_dec := False,
     ll_length_overflowed := False, ll_dec_overflowed := False\<rparr>"

definition set_dec_only :: "u8 \<Rightarrow> 'a lex_length_and_dec_scheme \<Rightarrow> 'a lex_length_and_dec_scheme" where
  "set_dec_only dec l = l\<lparr>ll_length := 0, ll_dec := dec, ll_collation_type := 0, ll_has_length := False, ll_has_dec := True,
     ll_length_overflowed := False, ll_dec_overflowed := False\<rparr>"

definition set_length_and_dec :: "u32 \<Rightarrow> u8 \<Rightarrow> 'a lex_length_and_dec_scheme \<Rightarrow> 'a lex_length_and_dec_scheme" where
  "set_length_and_dec len dec l = l\<lparr>ll_length := len, ll_dec := dec, ll_collation_type := 0, ll_has_length := True, ll_has_dec := True,
     ll_length_overflowed := False, ll_dec_overflowed := False\<rparr>"

text \<open>The assignment of the base class: the members of the derived class stay.\<close>

definition ll_assign :: "'b lex_length_and_dec_scheme \<Rightarrow> 'a lex_length_and_dec_scheme \<Rightarrow> 'a lex_length_and_dec_scheme" where
  "ll_assign o' l = l\<lparr>ll_length := ll_length o', ll_dec := ll_dec o', ll_collation_type := ll_collation_type o',
     ll_has_length := ll_has_length o', ll_has_dec := ll_has_dec o', ll_length_overflowed := ll_length_overflowed o',
     ll_dec_overflowed := ll_dec_overflowed o'\<rparr>"

subsection \<open>Data types\<close>

record lex_field_type = lex_length_and_dec +
  ft_handler :: nat
  ft_ci :: cs_ptr

text \<open>The cast of the three bits to the enumeration.\<close>

definition attrs_type_of :: "u8 \<Rightarrow> attrs_type option" where
  "attrs_type_of v =
     (if v = 0 then Some TYPE_EMPTY else if v = 1 then Some TYPE_CHARACTER_SET else if v = 2 then Some TYPE_COLLATE_EXACT
      else if v = 3 then Some TYPE_CHARACTER_SET_COLLATE_EXACT else if v = 4 then Some TYPE_COLLATE_CONTEXTUALLY_TYPED else None)"

definition ft_set_length :: "nat \<Rightarrow> lex_length_and_dec \<Rightarrow> cs_ptr \<Rightarrow> lex_field_type \<Rightarrow> lex_field_type" where
  "ft_set_length handler length_and_dec cs t = ll_assign length_and_dec (t\<lparr>ft_handler := handler, ft_ci := cs\<rparr>)"

definition ft_set_length_attrs :: "nat \<Rightarrow> lex_length_and_dec \<Rightarrow> collation_attrs \<Rightarrow> lex_field_type \<Rightarrow> lex_field_type" where
  "ft_set_length_attrs handler length_and_dec coll t =
     (let t = ll_assign length_and_dec (t\<lparr>ft_handler := handler, ft_ci := at_ci coll\<rparr>)
      in t\<lparr>ll_collation_type := attrs_type_value (at_type coll) AND LEX_CHARSET_COLLATION_TYPE_MASK\<rparr>)"

definition ft_set_attrs :: "nat \<Rightarrow> collation_attrs \<Rightarrow> lex_field_type \<Rightarrow> lex_field_type" where
  "ft_set_attrs handler coll t =
     (let t = ll_reset (t\<lparr>ft_handler := handler, ft_ci := at_ci coll\<rparr>)
      in t\<lparr>ll_collation_type := attrs_type_value (at_type coll) AND LEX_CHARSET_COLLATION_TYPE_MASK\<rparr>)"

definition ft_set :: "nat \<Rightarrow> cs_ptr \<Rightarrow> lex_field_type \<Rightarrow> lex_field_type" where
  "ft_set handler cs t = ll_reset (t\<lparr>ft_handler := handler, ft_ci := cs\<rparr>)"

definition ft_set_handler_length :: "nat \<Rightarrow> u32 \<Rightarrow> lex_field_type \<Rightarrow> lex_field_type" where
  "ft_set_handler_length handler len t = set_length_only len (t\<lparr>ft_handler := handler, ft_ci := 0\<rparr>)"

definition ft_set_handler :: "nat \<Rightarrow> lex_field_type \<Rightarrow> lex_field_type" where
  "ft_set_handler handler t = t\<lparr>ft_handler := handler\<rparr>"

definition charset_collation_attrs :: "lex_field_type \<Rightarrow> collation_attrs option" where
  "charset_collation_attrs t = Option.bind (attrs_type_of (ll_collation_type t)) (attrs_make_typed (ft_ci t))"

record lex_dyncol_type = lex_length_and_dec +
  dc_type :: int
  dc_ci :: cs_ptr

definition dc_set_length :: "int \<Rightarrow> lex_length_and_dec \<Rightarrow> cs_ptr \<Rightarrow> lex_dyncol_type \<Rightarrow> lex_dyncol_type" where
  "dc_set_length type' length_and_dec cs t = ll_assign length_and_dec (t\<lparr>dc_type := type', dc_ci := cs\<rparr>)"

definition dc_set_plain :: "int \<Rightarrow> lex_dyncol_type \<Rightarrow> lex_dyncol_type" where
  "dc_set_plain type' t = ll_reset (t\<lparr>dc_type := type', dc_ci := 0\<rparr>)"

definition dc_set :: "int \<Rightarrow> cs_ptr \<Rightarrow> lex_dyncol_type \<Rightarrow> lex_dyncol_type" where
  "dc_set type' cs t = ll_reset (t\<lparr>dc_type := type', dc_ci := cs\<rparr>)"

text \<open>\<open>resolved\<close> is \<open>resolved_to_character_set\<close>, of a missing file; True is an error.\<close>

definition dc_set_resolved ::
    "(collation_attrs \<Rightarrow> cs_ptr \<Rightarrow> cs_ptr) \<Rightarrow> int \<Rightarrow> collation_attrs \<Rightarrow> cs_ptr \<Rightarrow> lex_dyncol_type \<Rightarrow> bool \<times> lex_dyncol_type" where
  "dc_set_resolved resolved type' collation charset t =
     (let tmp = resolved collation charset in if tmp = 0 then (True, t) else (False, dc_set type' tmp t))"

subsection \<open>Stored routines\<close>

record lex_spblock =
  sb_hndlrs :: int
  sb_vars :: int
  sb_conds :: int
  sb_curs :: int

definition spblock_handlers_init :: "int \<Rightarrow> lex_spblock \<Rightarrow> lex_spblock" where
  "spblock_handlers_init count b = b\<lparr>sb_hndlrs := count\<rparr>"

definition spblock_init :: "lex_spblock \<Rightarrow> lex_spblock" where
  "spblock_init b = b\<lparr>sb_vars := 0, sb_conds := 0, sb_hndlrs := 0, sb_curs := 0\<rparr>"

definition spblock_init_using_vars :: "u32 \<Rightarrow> lex_spblock \<Rightarrow> lex_spblock" where
  "spblock_init_using_vars nvars b = b\<lparr>sb_vars := sint nvars, sb_conds := 0, sb_hndlrs := 0, sb_curs := 0\<rparr>"

text \<open>The sums of \<open>join\<close> are mathematical: the counts of a routine stay below the range of \<open>int\<close>.\<close>

definition spblock_join :: "lex_spblock \<Rightarrow> lex_spblock \<Rightarrow> lex_spblock \<Rightarrow> lex_spblock" where
  "spblock_join b1 b2 b = b\<lparr>sb_vars := sb_vars b1 + sb_vars b2, sb_conds := sb_conds b1 + sb_conds b2,
     sb_hndlrs := sb_hndlrs b1 + sb_hndlrs b2, sb_curs := sb_curs b1 + sb_curs b2\<rparr>"

definition spblock_of_handlers :: "int \<Rightarrow> lex_spblock" where
  "spblock_of_handlers hndlrs = \<lparr>sb_hndlrs = hndlrs, sb_vars = 0, sb_conds = 0, sb_curs = 0\<rparr>"

record lex_for_loop_bounds =
  fb_index :: nat
  fb_target_bound :: nat
  fb_direction :: "8 word"
  fb_implicit_cursor :: bool

definition bounds_is_for_loop_cursor :: "lex_for_loop_bounds \<Rightarrow> bool" where
  "bounds_is_for_loop_cursor b \<longleftrightarrow> fb_target_bound b = 0"

definition intrange_make :: "8 word \<Rightarrow> nat \<Rightarrow> nat \<Rightarrow> lex_for_loop_bounds" where
  "intrange_make direction left_expr right_expr =
     \<lparr>fb_index = if 0 <s direction then left_expr else right_expr,
      fb_target_bound = if 0 <s direction then right_expr else left_expr,
      fb_direction = direction, fb_implicit_cursor = False\<rparr>"

record lex_for_loop =
  fl_index :: nat
  fl_target_bound :: nat
  fl_cursor_offset :: int
  fl_direction :: "8 word"
  fl_implicit_cursor :: bool

definition for_loop_init :: "lex_for_loop \<Rightarrow> lex_for_loop" where
  "for_loop_init f = f\<lparr>fl_index := 0, fl_target_bound := 0, fl_cursor_offset := 0, fl_direction := 0, fl_implicit_cursor := False\<rparr>"

definition is_for_loop_cursor :: "lex_for_loop \<Rightarrow> bool" where
  "is_for_loop_cursor f \<longleftrightarrow> fl_target_bound f = 0"

definition is_for_loop_explicit_cursor :: "lex_for_loop \<Rightarrow> bool" where
  "is_for_loop_explicit_cursor f \<longleftrightarrow> is_for_loop_cursor f \<and> \<not> fl_implicit_cursor f"

subsection \<open>Clauses of expressions and of SELECT\<close>

datatype trim_spec = TRIM_LEADING | TRIM_TRAILING | TRIM_BOTH

record lex_trim =
  tr_remove :: nat
  tr_source :: nat
  tr_spec :: trim_spec

definition trim_set :: "trim_spec \<Rightarrow> nat \<Rightarrow> nat \<Rightarrow> lex_trim \<Rightarrow> lex_trim" where
  "trim_set spec remove' source t = t\<lparr>tr_spec := spec, tr_remove := remove', tr_source := source\<rparr>"

definition trim_set_source :: "trim_spec \<Rightarrow> nat \<Rightarrow> lex_trim \<Rightarrow> lex_trim" where
  "trim_set_source spec source t = trim_set spec 0 source t"

record lex_substring_spec =
  ss_subject :: nat
  ss_from :: nat
  ss_for :: nat

definition substring_spec_init :: "nat \<Rightarrow> nat \<Rightarrow> nat \<Rightarrow> lex_substring_spec" where
  "substring_spec_init subject from xfor = \<lparr>ss_subject = subject, ss_from = from, ss_for = xfor\<rparr>"

record lex_select_lock =
  defined_lock :: bool
  update_lock :: bool
  defined_timeout :: bool
  skip_locked :: bool
  lock_timeout :: u32

definition select_lock_empty :: "lex_select_lock \<Rightarrow> lex_select_lock" where
  "select_lock_empty l = l\<lparr>defined_lock := False, update_lock := False, defined_timeout := False, skip_locked := False, lock_timeout := 0\<rparr>"

record lex_select_limit =
  explicit_limit :: bool
  with_ties :: bool
  select_limit :: nat
  offset_limit :: nat

definition select_limit_clear :: "lex_select_limit \<Rightarrow> lex_select_limit" where
  "select_limit_clear l = l\<lparr>explicit_limit := False, with_ties := False, select_limit := 0, offset_limit := 0\<rparr>"

record load_data_param =
  ld_charset :: cs_ptr
  ld_fixed_length :: u64
  ld_is_fixed_length :: bool
  ld_use_blobs :: bool

definition load_data_param_make :: "cs_ptr \<Rightarrow> bool \<Rightarrow> load_data_param" where
  "load_data_param_make cs is_fixed_length =
     \<lparr>ld_charset = cs, ld_fixed_length = 0, ld_is_fixed_length = is_fixed_length, ld_use_blobs = False\<rparr>"

subsection \<open>Properties\<close>

lemma attrs_type_bits: "attrs_type_of (attrs_type_value t AND LEX_CHARSET_COLLATION_TYPE_MASK) = Some t"
  by (cases t) (simp_all add: attrs_type_of_def LEX_CHARSET_COLLATION_TYPE_MASK_def LEX_CHARSET_COLLATION_TYPE_BITS_def)

lemmas ll_setters = ll_reset_def set_length_only_def set_dec_only_def set_length_and_dec_def ll_assign_def

lemmas ft_setters = ft_set_length_def ft_set_length_attrs_def ft_set_attrs_def ft_set_def ft_set_handler_length_def ft_set_handler_def

text \<open>Lengths the setters of \<open>Lex_length_and_dec_st\<close> leave.\<close>

definition plain_length :: "lex_length_and_dec \<Rightarrow> bool" where
  "plain_length l \<longleftrightarrow> (\<exists>k n d. l \<in> {ll_reset k, set_length_only n k, set_dec_only d k, set_length_and_dec n d k})"

text \<open>
  C19. The character set clause of a data type is packed into three bits beside the length and read
  back as it was: its pointer, its type, and with it the length, the decimals and the handler, whatever
  the object held before. A data type that was set without the clause answers an empty clause, never a
  failed assertion; to change the handler keeps the clause, to set a length removes it.
\<close>

theorem field_type_keeps_clause:
  assumes "at_type a = TYPE_EMPTY \<or> at_ci a \<noteq> 0" "plain_length l"
  shows "charset_collation_attrs (ft_set_length_attrs h l a t) = Some a \<and>
    charset_collation_attrs (ft_set_attrs h a t) = Some a \<and>
    charset_collation_attrs (ft_set_handler h' (ft_set_attrs h a t)) = Some a \<and>
    ll_length (ft_set_length_attrs h l a t) = ll_length l \<and> ll_dec (ft_set_length_attrs h l a t) = ll_dec l \<and>
    ll_has_length (ft_set_length_attrs h l a t) = ll_has_length l \<and> ll_has_dec (ft_set_length_attrs h l a t) = ll_has_dec l \<and>
    ft_handler (ft_set_length_attrs h l a t) = h \<and>
    map_option at_type (charset_collation_attrs (ft_set_length h l cs t)) = Some TYPE_EMPTY \<and>
    map_option at_type (charset_collation_attrs (ft_set h cs t)) = Some TYPE_EMPTY \<and>
    charset_collation_attrs (ft_set_handler_length h n t) = Some at_init"
proof -
  have make: "attrs_make_typed (at_ci a) (at_type a) = Some a" using assms(1) by (cases a) (auto simp: charset_makes)
  have plain: "ll_collation_type l = 0" using assms(2) by (auto simp: plain_length_def ll_setters)
  have none: "attrs_type_of 0 = Some TYPE_EMPTY" by (simp add: attrs_type_of_def)
  show ?thesis
    using make plain none
    by (simp add: charset_collation_attrs_def ft_setters ll_setters Let_def attrs_type_bits charset_makes)
qed

lemma field_type_keeps_clause_witness:
  "charset_collation_attrs (ft_set_attrs 7 \<lparr>at_ci = 5, at_type = TYPE_CHARACTER_SET\<rparr>
     \<lparr>ll_length = 3, ll_dec = 1, ll_collation_type = 4, ll_has_length = True, ll_has_dec = True, ll_length_overflowed = False,
      ll_dec_overflowed = True, ft_handler = 2, ft_ci = 9\<rparr>) = Some \<lparr>at_ci = 5, at_type = TYPE_CHARACTER_SET\<rparr>"
proof -
  define l :: lex_length_and_dec where
    "l = \<lparr>ll_length = 0, ll_dec = 0, ll_collation_type = 0, ll_has_length = False, ll_has_dec = False, ll_length_overflowed = False, ll_dec_overflowed = False\<rparr>"
  have "ll_reset l = l" by (simp add: l_def ll_reset_def)
  then have "plain_length l" unfolding plain_length_def by (metis insertI1)
  then show ?thesis
    using field_type_keeps_clause [of "\<lparr>at_ci = 5, at_type = TYPE_CHARACTER_SET\<rparr>" l] by simp
qed

text \<open>The options are sets of bits: adding options loses none, the options of CREATE LIKE are two of them.\<close>

lemma ddl_options_added:
  "ddl_if_not_exists (ddl_add OPT_IF_NOT_EXISTS d)" "ddl_or_replace (ddl_add OPT_OR_REPLACE d)"
  "ddl_if_exists (ddl_add OPT_IF_EXISTS d)" "ddl_like (ddl_add OPT_LIKE d)"
  "ddl_or_replace d \<Longrightarrow> ddl_or_replace (ddl_add other d)"
  "fst (ddl_or e d) = snd (ddl_or e d) \<and> m_options (fst (ddl_or e d)) = m_options d OR m_options e"
  "create_like_options d AND NOT (OPT_IF_NOT_EXISTS OR OPT_OR_REPLACE) = 0"
proof -
  have keep: "x AND f \<noteq> 0 \<Longrightarrow> (x OR y) AND f \<noteq> 0" for x y f :: u32
    by (auto simp: bit_eq_iff bit_simps)
  show "ddl_or_replace d \<Longrightarrow> ddl_or_replace (ddl_add other d)"
    using keep by (simp add: ddl_or_replace_def ddl_add_def)
  show "ddl_if_not_exists (ddl_add OPT_IF_NOT_EXISTS d)" "ddl_or_replace (ddl_add OPT_OR_REPLACE d)"
    "ddl_if_exists (ddl_add OPT_IF_EXISTS d)" "ddl_like (ddl_add OPT_LIKE d)"
    using keep [of OPT_IF_NOT_EXISTS OPT_IF_NOT_EXISTS "m_options d"] keep [of OPT_OR_REPLACE OPT_OR_REPLACE "m_options d"]
      keep [of OPT_IF_EXISTS OPT_IF_EXISTS "m_options d"] keep [of OPT_LIKE OPT_LIKE "m_options d"]
    by (simp_all add: ddl_if_not_exists_def ddl_or_replace_def ddl_if_exists_def ddl_like_def ddl_add_def or.commute
        OPT_IF_NOT_EXISTS_def OPT_OR_REPLACE_def OPT_IF_EXISTS_def OPT_LIKE_def)
  show "fst (ddl_or e d) = snd (ddl_or e d) \<and> m_options (fst (ddl_or e d)) = m_options d OR m_options e"
    by (simp add: ddl_or_def ddl_add_from_def ddl_add_def Let_def)
  show "create_like_options d AND NOT (OPT_IF_NOT_EXISTS OR OPT_OR_REPLACE) = 0"
    unfolding create_like_options_def and.assoc by (simp only: bit.conj_cancel_right and_zero_eq)
qed

text \<open>A loop that counts down takes the right expression first; blocks join to the sum of their declarations.\<close>

lemma intrange_bounds:
  "0 <s d \<Longrightarrow> fb_index (intrange_make d a b) = a \<and> fb_target_bound (intrange_make d a b) = b"
  "\<not> 0 <s d \<Longrightarrow> fb_index (intrange_make d a b) = b \<and> fb_target_bound (intrange_make d a b) = a"
  "a \<noteq> 0 \<Longrightarrow> b \<noteq> 0 \<Longrightarrow> \<not> bounds_is_for_loop_cursor (intrange_make d a b)"
  by (simp_all add: intrange_make_def bounds_is_for_loop_cursor_def)

lemma spblock_join_sum:
  "spblock_join (spblock_join a b x) c y = spblock_join a (spblock_join b c z) y"
  "spblock_join a (spblock_init z) y = a"
  by (simp_all add: spblock_join_def spblock_init_def)

end
