(* ===== verification/Type_Attributes.thy ===== *)
theory Type_Attributes
  imports Lex_Types
begin

text \<open>
  Attributes of expressions and columns, from \<open>sql_type.h\<close>: collations with their derivation, lengths in
  bytes and in characters, decimals, the attributes of temporal types, of casts and of the information
  schema, the limits of the integer types, and pairs of type handlers. Item lists are an opaque type,
  and the functions on them that the header only declares are fields of \<open>item_lib\<close>. The address of a
  character set is a number, as in \<open>Lex_Charset\<close>; \<open>charset_lib\<close> tells what it refers to.
\<close>

subsection \<open>Collations and derivations\<close>

definition MY_COLL_ALLOW_SUPERSET_CONV :: u32 where "MY_COLL_ALLOW_SUPERSET_CONV = 1"
definition MY_COLL_ALLOW_COERCIBLE_CONV :: u32 where "MY_COLL_ALLOW_COERCIBLE_CONV = 2"
definition MY_COLL_DISALLOW_NONE :: u32 where "MY_COLL_DISALLOW_NONE = 4"
definition MY_COLL_ALLOW_NUMERIC_CONV :: u32 where "MY_COLL_ALLOW_NUMERIC_CONV = 8"
definition MY_COLL_ALLOW_CONV :: u32 where
  "MY_COLL_ALLOW_CONV = MY_COLL_ALLOW_SUPERSET_CONV OR MY_COLL_ALLOW_COERCIBLE_CONV"
definition MY_COLL_CMP_CONV :: u32 where "MY_COLL_CMP_CONV = MY_COLL_ALLOW_CONV OR MY_COLL_DISALLOW_NONE"

definition MY_REPERTOIRE_NONE :: u32 where "MY_REPERTOIRE_NONE = 0"
definition MY_REPERTOIRE_ASCII :: u32 where "MY_REPERTOIRE_ASCII = 1"
definition MY_REPERTOIRE_EXTENDED :: u32 where "MY_REPERTOIRE_EXTENDED = 2"
definition MY_REPERTOIRE_UNICODE30 :: u32 where "MY_REPERTOIRE_UNICODE30 = 3"
definition MY_REPERTOIRE_NUMERIC :: u32 where "MY_REPERTOIRE_NUMERIC = MY_REPERTOIRE_ASCII"
definition MY_CS_PUREASCII :: u32 where "MY_CS_PUREASCII = 4096"

definition repertoire_or :: "u32 \<Rightarrow> u32 \<Rightarrow> u32" where "repertoire_or a b = a OR b"
definition repertoire_or_assign :: "u32 \<Rightarrow> u32 \<Rightarrow> u32" where "repertoire_or_assign a b = a OR b"

datatype derivation = DERIVATION_IGNORABLE | DERIVATION_NUMERIC | DERIVATION_COERCIBLE | DERIVATION_SYSCONST
  | DERIVATION_IMPLICIT | DERIVATION_NONE | DERIVATION_EXPLICIT

record dt_collation =
  dt_cs :: cs_ptr
  dt_derivation :: derivation
  dt_repertoire :: u32

definition repertoire_from_charset :: "charset_lib \<Rightarrow> cs_ptr \<Rightarrow> u32" where
  "repertoire_from_charset lib cs =
     (if cs_state (lib_charset lib cs) AND MY_CS_PUREASCII \<noteq> 0 then MY_REPERTOIRE_ASCII else MY_REPERTOIRE_UNICODE30)"

definition set_repertoire_from_charset :: "charset_lib \<Rightarrow> cs_ptr \<Rightarrow> dt_collation \<Rightarrow> dt_collation" where
  "set_repertoire_from_charset lib cs d = d\<lparr>dt_repertoire := repertoire_from_charset lib cs\<rparr>"

text \<open>\<open>bin\<close> is \<open>&my_charset_bin\<close>, \<open>numeric\<close> \<open>&my_charset_numeric\<close>; \<open>my_charset_repertoire\<close> is declared only.\<close>

definition dtc_make :: "cs_ptr \<Rightarrow> dt_collation" where
  "dtc_make bin = \<lparr>dt_cs = bin, dt_derivation = DERIVATION_NONE, dt_repertoire = MY_REPERTOIRE_UNICODE30\<rparr>"

definition dtc_of_field :: "(cs_ptr \<Rightarrow> u32) \<Rightarrow> cs_ptr \<Rightarrow> dt_collation" where
  "dtc_of_field my_charset_repertoire cs =
     \<lparr>dt_cs = cs, dt_derivation = DERIVATION_IMPLICIT, dt_repertoire = my_charset_repertoire cs\<rparr>"

definition dtc_of_charset :: "charset_lib \<Rightarrow> cs_ptr \<Rightarrow> derivation \<Rightarrow> dt_collation" where
  "dtc_of_charset lib cs der = \<lparr>dt_cs = cs, dt_derivation = der, dt_repertoire = repertoire_from_charset lib cs\<rparr>"

definition dtc_of :: "cs_ptr \<Rightarrow> derivation \<Rightarrow> u32 \<Rightarrow> dt_collation" where
  "dtc_of cs der rep = \<lparr>dt_cs = cs, dt_derivation = der, dt_repertoire = rep\<rparr>"

definition dtc_set :: "dt_collation \<Rightarrow> dt_collation \<Rightarrow> dt_collation" where "dtc_set dt d = dt"

definition dtc_set_charset :: "charset_lib \<Rightarrow> cs_ptr \<Rightarrow> derivation \<Rightarrow> dt_collation \<Rightarrow> dt_collation" where
  "dtc_set_charset lib cs der d = set_repertoire_from_charset lib cs (d\<lparr>dt_cs := cs, dt_derivation := der\<rparr>)"

definition dtc_set_all :: "cs_ptr \<Rightarrow> derivation \<Rightarrow> u32 \<Rightarrow> dt_collation \<Rightarrow> dt_collation" where
  "dtc_set_all cs der rep d = d\<lparr>dt_cs := cs, dt_derivation := der, dt_repertoire := rep\<rparr>"

definition dtc_set_collation :: "charset_lib \<Rightarrow> cs_ptr \<Rightarrow> dt_collation \<Rightarrow> dt_collation" where
  "dtc_set_collation lib cs d = set_repertoire_from_charset lib cs (d\<lparr>dt_cs := cs\<rparr>)"

definition dtc_set_derivation :: "derivation \<Rightarrow> dt_collation \<Rightarrow> dt_collation" where
  "dtc_set_derivation der d = d\<lparr>dt_derivation := der\<rparr>"

text \<open>\<open>set (dt1, dt2, flags)\<close>: \<open>aggregate\<close>, of a missing file, changes the object and answers an error.\<close>

definition dtc_set_aggregate ::
    "(dt_collation \<Rightarrow> u32 \<Rightarrow> dt_collation \<Rightarrow> bool \<times> dt_collation) \<Rightarrow> dt_collation \<Rightarrow> dt_collation \<Rightarrow> u32 \<Rightarrow> dt_collation \<Rightarrow> bool \<times> dt_collation" where
  "dtc_set_aggregate aggregate dt1 dt2 flags d = (let d = dtc_set dt1 d in aggregate dt2 flags d)"

fun derivation_name :: "derivation \<Rightarrow> string" where
  "derivation_name DERIVATION_NUMERIC = ''NUMERIC''"
| "derivation_name DERIVATION_IGNORABLE = ''IGNORABLE''"
| "derivation_name DERIVATION_COERCIBLE = ''COERCIBLE''"
| "derivation_name DERIVATION_IMPLICIT = ''IMPLICIT''"
| "derivation_name DERIVATION_SYSCONST = ''SYSCONST''"
| "derivation_name DERIVATION_EXPLICIT = ''EXPLICIT''"
| "derivation_name DERIVATION_NONE = ''NONE''"

definition dtc_numeric :: "cs_ptr \<Rightarrow> dt_collation" where
  "dtc_numeric numeric = dtc_of numeric DERIVATION_NUMERIC MY_REPERTOIRE_NUMERIC"

subsection \<open>Lengths and decimals\<close>

definition char_to_byte_length_safe :: "u64 \<Rightarrow> u32 \<Rightarrow> u32" where
  "char_to_byte_length_safe char_length_arg mbmaxlen_arg =
     (let tmp = char_length_arg * ucast mbmaxlen_arg in if tmp > 4294967295 then 4294967295 else ucast tmp)"

record type_numeric =
  max_length :: u32
  decimals :: u16
  unsigned_flag :: bool

definition tn_make :: type_numeric where
  "tn_make = \<lparr>max_length = 0, decimals = 0, unsigned_flag = False\<rparr>"

definition tn_of :: "u32 \<Rightarrow> u16 \<Rightarrow> bool \<Rightarrow> type_numeric" where
  "tn_of len dec uns = \<lparr>max_length = len, decimals = dec, unsigned_flag = uns\<rparr>"

definition SECOND_PART_DIGITS :: u16 where "SECOND_PART_DIGITS = 6"
definition NOT_FIXED_DEC :: u16 where "NOT_FIXED_DEC = 39"
definition MAX_DATE_WIDTH :: u32 where "MAX_DATE_WIDTH = 10"
definition MIN_TIME_WIDTH :: u32 where "MIN_TIME_WIDTH = 10"
definition MAX_DATETIME_WIDTH :: u32 where "MAX_DATETIME_WIDTH = 19"

definition type_temporal :: "u32 \<Rightarrow> u16 \<Rightarrow> bool \<Rightarrow> type_numeric" where
  "type_temporal int_part_length dec uns =
     (let t = tn_of (int_part_length + (if dec \<noteq> 0 then 1 else 0)) (min dec SECOND_PART_DIGITS) uns
      in t\<lparr>max_length := max_length t + ucast (decimals t)\<rparr>)"

definition type_temporal_not_fixed_dec :: "u32 \<Rightarrow> u16 \<Rightarrow> bool \<Rightarrow> type_numeric" where
  "type_temporal_not_fixed_dec int_part_length dec uns =
     (let t = tn_of int_part_length dec uns
      in if decimals t = NOT_FIXED_DEC then t\<lparr>max_length := max_length t + (ucast SECOND_PART_DIGITS + 1)\<rparr>
         else if decimals t \<noteq> 0
         then let t = (if decimals t > SECOND_PART_DIGITS then t\<lparr>decimals := SECOND_PART_DIGITS\<rparr> else t)
              in t\<lparr>max_length := max_length t + (ucast (decimals t) + 1)\<rparr>
         else t)"

record type_std = type_numeric +
  ts_collation :: dt_collation

definition ts_make :: "charset_lib \<Rightarrow> cs_ptr \<Rightarrow> type_std" where
  "ts_make lib bin = \<lparr>max_length = 0, decimals = 0, unsigned_flag = False, ts_collation = dtc_of_charset lib bin DERIVATION_COERCIBLE\<rparr>"

definition ts_of :: "type_numeric \<Rightarrow> dt_collation \<Rightarrow> type_std" where
  "ts_of nattr dtc = \<lparr>max_length = max_length nattr, decimals = decimals nattr, unsigned_flag = unsigned_flag nattr, ts_collation = dtc\<rparr>"

definition ts_set_from :: "type_std \<Rightarrow> type_std \<Rightarrow> type_std" where "ts_set_from other t = other"
definition ts_set :: "type_numeric \<Rightarrow> dt_collation \<Rightarrow> type_std \<Rightarrow> type_std" where "ts_set nattr dtc t = ts_of nattr dtc"

text \<open>The division by \<open>mbmaxlen\<close> is undefined for 0.\<close>

definition ts_max_char_length :: "charset_lib \<Rightarrow> type_std \<Rightarrow> u32 option" where
  "ts_max_char_length lib t =
     (let m = mbmaxlen (lib_charset lib (dt_cs (ts_collation t))) in guard (m \<noteq> 0) (max_length t div m))"

definition fix_length_and_charset :: "charset_lib \<Rightarrow> u32 \<Rightarrow> cs_ptr \<Rightarrow> type_std \<Rightarrow> type_std" where
  "fix_length_and_charset lib max_char_length_arg cs t =
     (let t = t\<lparr>max_length := char_to_byte_length_safe (ucast max_char_length_arg) (mbmaxlen (lib_charset lib cs))\<rparr>
      in t\<lparr>ts_collation := (ts_collation t)\<lparr>dt_cs := cs\<rparr>\<rparr>)"

definition fix_char_length :: "charset_lib \<Rightarrow> u32 \<Rightarrow> type_std \<Rightarrow> type_std" where
  "fix_char_length lib max_char_length_arg t =
     t\<lparr>max_length := char_to_byte_length_safe (ucast max_char_length_arg)
        (mbmaxlen (lib_charset lib (dt_cs (ts_collation t))))\<rparr>"

definition fix_attributes_temporal :: "cs_ptr \<Rightarrow> u32 \<Rightarrow> u16 \<Rightarrow> type_std \<Rightarrow> type_std" where
  "fix_attributes_temporal numeric int_part_length dec t = ts_of (type_temporal int_part_length dec False) (dtc_numeric numeric)"

definition fix_attributes_date :: "cs_ptr \<Rightarrow> type_std \<Rightarrow> type_std" where
  "fix_attributes_date numeric t = fix_attributes_temporal numeric MAX_DATE_WIDTH 0 t"

definition fix_attributes_time :: "cs_ptr \<Rightarrow> u16 \<Rightarrow> type_std \<Rightarrow> type_std" where
  "fix_attributes_time numeric dec t = fix_attributes_temporal numeric MIN_TIME_WIDTH dec t"

definition fix_attributes_datetime :: "cs_ptr \<Rightarrow> u16 \<Rightarrow> type_std \<Rightarrow> type_std" where
  "fix_attributes_datetime numeric dec t = fix_attributes_temporal numeric MAX_DATETIME_WIDTH dec t"

subsection \<open>Attributes of lists of items\<close>

text \<open>\<open>il_collations\<close> and \<open>il_converter\<close> answer True for an error; they change the collation.\<close>

record 'i item_lib =
  il_count_unsigned :: "'i \<Rightarrow> u32"
  il_max_char_length :: "'i \<Rightarrow> u32"
  il_max_decimals :: "'i \<Rightarrow> u16"
  il_numeric_real :: "'i \<Rightarrow> type_std \<Rightarrow> type_std"
  il_numeric_decimal :: "'i \<Rightarrow> bool \<Rightarrow> type_std \<Rightarrow> type_std"
  il_collations :: "dt_collation \<Rightarrow> 'i \<Rightarrow> u32 \<Rightarrow> bool \<times> dt_collation"
  il_converter :: "dt_collation \<Rightarrow> 'i \<Rightarrow> u32 \<Rightarrow> bool \<times> 'i"

definition aggregate_attributes_int :: "'i item_lib \<Rightarrow> charset_lib \<Rightarrow> cs_ptr \<Rightarrow> 'i \<Rightarrow> type_std \<Rightarrow> type_std" where
  "aggregate_attributes_int il lib numeric items t =
     (let t = t\<lparr>ts_collation := dtc_numeric numeric\<rparr>;
          t = fix_char_length lib (il_max_char_length il items) t;
          t = t\<lparr>unsigned_flag := il_count_unsigned il items > 0\<rparr>
      in t\<lparr>decimals := 0\<rparr>)"

definition aggregate_attributes_real :: "'i item_lib \<Rightarrow> cs_ptr \<Rightarrow> 'i \<Rightarrow> type_std \<Rightarrow> type_std" where
  "aggregate_attributes_real il numeric items t = il_numeric_real il items (t\<lparr>ts_collation := dtc_numeric numeric\<rparr>)"

definition aggregate_attributes_decimal :: "'i item_lib \<Rightarrow> cs_ptr \<Rightarrow> 'i \<Rightarrow> bool \<Rightarrow> type_std \<Rightarrow> type_std" where
  "aggregate_attributes_decimal il numeric items unsigned_arg t =
     (let t = t\<lparr>ts_collation := dtc_numeric numeric\<rparr>; t = t\<lparr>unsigned_flag := unsigned_arg\<rparr>
      in il_numeric_decimal il items unsigned_arg t)"

definition aggregate_attributes_temporal :: "'i item_lib \<Rightarrow> cs_ptr \<Rightarrow> u32 \<Rightarrow> 'i \<Rightarrow> type_std \<Rightarrow> type_std" where
  "aggregate_attributes_temporal il numeric int_part_length items t =
     fix_attributes_temporal numeric int_part_length (il_max_decimals il items) t"

text \<open>Aggregation of character sets: an error of the first step leaves the items alone.\<close>

definition agg_arg_charsets :: "'i item_lib \<Rightarrow> dt_collation \<Rightarrow> 'i \<Rightarrow> u32 \<Rightarrow> bool \<times> dt_collation \<times> 'i" where
  "agg_arg_charsets il c items flags =
     (let (e, c) = il_collations il c items flags
      in if e then (True, c, items) else let (e, items) = il_converter il c items flags in (e, c, items))"

definition agg_arg_charsets_for_string_result :: "'i item_lib \<Rightarrow> dt_collation \<Rightarrow> 'i \<Rightarrow> bool \<times> dt_collation \<times> 'i" where
  "agg_arg_charsets_for_string_result il c items =
     (let flags = MY_COLL_ALLOW_SUPERSET_CONV OR MY_COLL_ALLOW_COERCIBLE_CONV OR MY_COLL_ALLOW_NUMERIC_CONV
      in agg_arg_charsets il c items flags)"

definition agg_arg_charsets_for_string_result_with_comparison :: "'i item_lib \<Rightarrow> dt_collation \<Rightarrow> 'i \<Rightarrow> bool \<times> dt_collation \<times> 'i" where
  "agg_arg_charsets_for_string_result_with_comparison il c items =
     (let flags = MY_COLL_ALLOW_SUPERSET_CONV OR MY_COLL_ALLOW_COERCIBLE_CONV OR MY_COLL_ALLOW_NUMERIC_CONV OR MY_COLL_DISALLOW_NONE
      in agg_arg_charsets il c items flags)"

definition agg_arg_charsets_for_comparison :: "'i item_lib \<Rightarrow> dt_collation \<Rightarrow> 'i \<Rightarrow> bool \<times> dt_collation \<times> 'i" where
  "agg_arg_charsets_for_comparison il c items =
     (let flags = MY_COLL_ALLOW_SUPERSET_CONV OR MY_COLL_ALLOW_COERCIBLE_CONV OR MY_COLL_DISALLOW_NONE
      in agg_arg_charsets il c items flags)"

subsection \<open>Casts, names of the information schema, integer limits\<close>

record type_cast =
  tc_charset :: cs_ptr
  tc_length :: u64
  tc_decimals :: u64
  tc_length_specified :: bool
  tc_decimals_specified :: bool

definition type_cast_of :: "lex_length_and_dec \<Rightarrow> cs_ptr \<Rightarrow> type_cast" where
  "type_cast_of length_and_dec cs =
     \<lparr>tc_charset = cs, tc_length = if ll_length_overflowed length_and_dec then 4294967296 else ucast (ll_length length_and_dec),
      tc_decimals = ucast (ll_dec length_and_dec), tc_length_specified = ll_has_length length_and_dec,
      tc_decimals_specified = ll_has_dec length_and_dec\<rparr>"

definition type_cast_of_charset :: "cs_ptr \<Rightarrow> type_cast" where
  "type_cast_of_charset cs =
     \<lparr>tc_charset = cs, tc_length = 0, tc_decimals = 0, tc_length_specified = False, tc_decimals_specified = False\<rparr>"

definition ATTR_NONE :: u32 where "ATTR_NONE = 0"
definition ATTR_PRECISION :: u32 where "ATTR_PRECISION = 1"
definition ATTR_SCALE :: u32 where "ATTR_SCALE = 2"
definition ATTR_PRECISION_AND_SCALE :: u32 where "ATTR_PRECISION_AND_SCALE = ATTR_PRECISION OR ATTR_SCALE"

record schema_numeric =
  sn_precision :: u32
  sn_scale :: u16
  sn_available :: u32

definition schema_numeric_make :: schema_numeric where
  "schema_numeric_make = \<lparr>sn_precision = 0, sn_scale = 0, sn_available = ATTR_NONE\<rparr>"
definition schema_numeric_of_precision :: "u32 \<Rightarrow> schema_numeric" where
  "schema_numeric_of_precision p = \<lparr>sn_precision = p, sn_scale = 0, sn_available = ATTR_PRECISION\<rparr>"
definition schema_numeric_of :: "u32 \<Rightarrow> u16 \<Rightarrow> schema_numeric" where
  "schema_numeric_of p s = \<lparr>sn_precision = p, sn_scale = s, sn_available = ATTR_PRECISION_AND_SCALE\<rparr>"
definition has_precision :: "schema_numeric \<Rightarrow> bool" where "has_precision a \<longleftrightarrow> sn_available a AND ATTR_PRECISION \<noteq> 0"
definition has_scale :: "schema_numeric \<Rightarrow> bool" where "has_scale a \<longleftrightarrow> sn_available a AND ATTR_SCALE \<noteq> 0"
definition schema_precision :: "schema_numeric \<Rightarrow> u32 option" where "schema_precision a = guard (has_precision a) (sn_precision a)"
definition schema_scale :: "schema_numeric \<Rightarrow> u16 option" where "schema_scale a = guard (has_scale a) (sn_scale a)"

record schema_character =
  sc_octet_length :: u32
  sc_char_length :: u32
  sc_is_set :: bool

definition schema_character_make :: schema_character where
  "schema_character_make = \<lparr>sc_octet_length = 0, sc_char_length = 0, sc_is_set = False\<rparr>"
definition schema_character_of :: "u32 \<Rightarrow> u32 \<Rightarrow> schema_character" where
  "schema_character_of octets chars = \<lparr>sc_octet_length = octets, sc_char_length = chars, sc_is_set = True\<rparr>"
definition schema_octet_length :: "schema_character \<Rightarrow> u32 option" where
  "schema_octet_length a = guard (sc_is_set a) (sc_octet_length a)"
definition schema_char_length :: "schema_character \<Rightarrow> u32 option" where
  "schema_char_length a = guard (sc_is_set a) (sc_char_length a)"

definition MAX_TINYINT_WIDTH :: u32 where "MAX_TINYINT_WIDTH = 3"
definition MAX_SMALLINT_WIDTH :: u32 where "MAX_SMALLINT_WIDTH = 5"
definition MAX_MEDIUMINT_WIDTH :: u32 where "MAX_MEDIUMINT_WIDTH = 8"
definition MAX_INT_WIDTH :: u32 where "MAX_INT_WIDTH = 10"
definition MAX_BIGINT_WIDTH :: u32 where "MAX_BIGINT_WIDTH = 20"

record type_limits =
  lim_precision :: u32
  lim_char_length :: u32

definition type_limits_int :: "u32 \<Rightarrow> u32 \<Rightarrow> type_limits" where
  "type_limits_int prec nchars = \<lparr>lim_precision = prec, lim_char_length = nchars\<rparr>"

definition limits_uint8 :: type_limits where "limits_uint8 = type_limits_int MAX_TINYINT_WIDTH MAX_TINYINT_WIDTH"
definition limits_sint8 :: type_limits where "limits_sint8 = type_limits_int MAX_TINYINT_WIDTH (MAX_TINYINT_WIDTH + 1)"
definition limits_uint16 :: type_limits where "limits_uint16 = type_limits_int MAX_SMALLINT_WIDTH MAX_SMALLINT_WIDTH"
definition limits_sint16 :: type_limits where "limits_sint16 = type_limits_int MAX_SMALLINT_WIDTH (MAX_SMALLINT_WIDTH + 1)"
definition limits_uint24 :: type_limits where "limits_uint24 = type_limits_int MAX_MEDIUMINT_WIDTH MAX_MEDIUMINT_WIDTH"
definition limits_sint24 :: type_limits where "limits_sint24 = type_limits_int (MAX_MEDIUMINT_WIDTH - 1) MAX_MEDIUMINT_WIDTH"
definition limits_uint32 :: type_limits where "limits_uint32 = type_limits_int MAX_INT_WIDTH MAX_INT_WIDTH"
definition limits_sint32 :: type_limits where "limits_sint32 = type_limits_int MAX_INT_WIDTH (MAX_INT_WIDTH + 1)"
definition limits_uint64 :: type_limits where "limits_uint64 = type_limits_int MAX_BIGINT_WIDTH MAX_BIGINT_WIDTH"
definition limits_sint64 :: type_limits where "limits_sint64 = type_limits_int (MAX_BIGINT_WIDTH - 1) MAX_BIGINT_WIDTH"

subsection \<open>Pairs of type handlers\<close>

text \<open>Handlers are numbers, 0 is NULL; \<open>base\<close> is the virtual function \<open>type_handler_base\<close>.\<close>

definition to_base :: "(nat \<Rightarrow> nat) \<Rightarrow> nat \<times> nat \<Rightarrow> bool \<times> nat \<times> nat" where
  "to_base base p =
     (let na = base (fst p); nb = base (snd p); rc = False;
          (a, rc) = (if na \<noteq> 0 then (na, True) else (fst p, rc));
          (b, rc) = (if nb \<noteq> 0 then (nb, True) else (snd p, rc))
      in (rc, a, b))"

record agg_pair =
  m_handler1 :: nat
  m_handler2 :: nat
  m_result :: nat

definition agg_pair_eq :: "nat \<Rightarrow> nat \<Rightarrow> agg_pair \<Rightarrow> bool" where
  "agg_pair_eq h1 h2 p \<longleftrightarrow> m_handler1 p = h1 \<and> m_handler2 p = h2"

text \<open>The array ends with an element whose result is NULL; \<open>None\<close> is a read behind the array.\<close>

fun find_handler_in_array :: "agg_pair list \<Rightarrow> nat \<Rightarrow> nat \<Rightarrow> bool \<Rightarrow> nat option" where
  "find_handler_in_array [] h1 h2 commutative = None"
| "find_handler_in_array (p # ps) h1 h2 commutative =
     (if m_result p \<noteq> 0
      then if agg_pair_eq h1 h2 p then Some (m_result p)
           else if commutative \<and> agg_pair_eq h2 h1 p then Some (m_result p)
           else find_handler_in_array ps h1 h2 commutative
      else Some 0)"

text \<open>\<open>find_handler\<close>: \<open>find_pair\<close>, of a missing file, answers a pair or NULL.\<close>

definition agg_find_handler :: "(nat \<Rightarrow> nat \<Rightarrow> agg_pair option) \<Rightarrow> nat \<Rightarrow> nat \<Rightarrow> nat" where
  "agg_find_handler find_pair h1 h2 = (case find_pair h1 h2 of Some el \<Rightarrow> m_result el | None \<Rightarrow> 0)"

subsection \<open>Limits of the integer types\<close>

text \<open>Decimal digits of a number, and characters of an integer as it is printed.\<close>

fun digits :: "nat \<Rightarrow> nat" where
  "digits n = (if n < 10 then 1 else Suc (digits (n div 10)))"

declare digits.simps [simp del]

definition int_chars :: "int \<Rightarrow> nat" where
  "int_chars v = digits (nat \<bar>v\<bar>) + (if v < 0 then 1 else 0)"

text \<open>Bits, sign and limits of the types.\<close>

definition integer_type_limits :: "(nat \<times> bool \<times> type_limits) list" where
  "integer_type_limits = [(8, False, limits_uint8), (8, True, limits_sint8), (16, False, limits_uint16), (16, True, limits_sint16),
     (24, False, limits_uint24), (24, True, limits_sint24), (32, False, limits_uint32), (32, True, limits_sint32),
     (64, False, limits_uint64), (64, True, limits_sint64)]"

definition int_range :: "nat \<Rightarrow> bool \<Rightarrow> int set" where
  "int_range w signed' = (if signed' then {- (2 ^ (w - 1))..2 ^ (w - 1) - 1} else {0..2 ^ w - 1})"

lemma digits_le: "1 \<le> k \<Longrightarrow> digits n \<le> k \<longleftrightarrow> n < 10 ^ k"
proof (induction k arbitrary: n)
  case (Suc k)
  show ?case
  proof (cases "n < 10")
    case True
    moreover have "(10::nat) \<le> 10 ^ Suc k" by simp
    ultimately show ?thesis by (subst digits.simps) (simp only: if_True; linarith)
  next
    case False
    show ?thesis
    proof (cases "k = 0")
      case True
      have "1 \<le> digits (n div 10)" by (subst digits.simps) simp
      then show ?thesis using False True by (subst digits.simps) simp
    next
      case k: False
      then have "digits (n div 10) \<le> k \<longleftrightarrow> n div 10 < 10 ^ k" using Suc.IH by simp
      also have "\<dots> \<longleftrightarrow> n < 10 ^ Suc k" by (simp add: div_less_iff_less_mult mult.commute)
      finally show ?thesis using False by (subst digits.simps) simp
    qed
  qed
qed simp

lemma digits_eq: "2 \<le> k \<Longrightarrow> 10 ^ (k - 1) \<le> n \<Longrightarrow> n < 10 ^ k \<Longrightarrow> digits n = k"
proof -
  assume k: "2 \<le> k" and n: "10 ^ (k - 1) \<le> n" "n < 10 ^ k"
  have "digits n \<le> k" using k n(2) by (subst digits_le) simp_all
  moreover have "\<not> digits n \<le> k - 1" using k n(1) by (subst digits_le) simp_all
  ultimately show "digits n = k" using k by linarith
qed

lemma digits_mono: "m \<le> n \<Longrightarrow> digits m \<le> digits n"
proof -
  assume "m \<le> n"
  moreover have "1 \<le> digits n" by (subst digits.simps) simp
  ultimately show ?thesis using digits_le [of "digits n" n] digits_le [of "digits n" m] by simp
qed

text \<open>The widest value of a type: the largest unsigned, the least signed one.\<close>

lemma range_chars:
  assumes "v \<in> int_range w s" "1 \<le> w"
  shows "digits (nat \<bar>v\<bar>) \<le> digits (if s then 2 ^ (w - 1) else 2 ^ w - 1) \<and>
    int_chars v \<le> digits (if s then 2 ^ (w - 1) else 2 ^ w - 1) + (if s then 1 else 0)"
proof -
  have "nat \<bar>v\<bar> \<le> (if s then 2 ^ (w - 1) else 2 ^ w - 1)"
    using assms(1) by (auto simp: int_range_def nat_le_iff of_nat_diff split: if_splits)
  then have "digits (nat \<bar>v\<bar>) \<le> digits (if s then 2 ^ (w - 1) else 2 ^ w - 1)" by (rule digits_mono)
  moreover have "\<not> s \<Longrightarrow> 0 \<le> v" using assms(1) by (simp add: int_range_def)
  ultimately show ?thesis by (cases s; cases "v < 0") (simp_all add: int_chars_def)
qed

lemma widest_digits:
  "digits 255 = 3" "digits 128 = 3" "digits 65535 = 5" "digits 32768 = 5" "digits 16777215 = 8" "digits 8388608 = 7"
  "digits 4294967295 = 10" "digits 2147483648 = 10" "digits 18446744073709551615 = 20" "digits 9223372036854775808 = 19"
  by (simp_all add: digits_eq)

lemma limits_widest:
  assumes "(w, s, l) \<in> set integer_type_limits"
  shows "1 \<le> w \<and> unat (lim_precision l) = digits (if s then 2 ^ (w - 1) else 2 ^ w - 1) \<and>
    unat (lim_char_length l) = digits (if s then 2 ^ (w - 1) else 2 ^ w - 1) + (if s then 1 else 0)"
  using assms
  by (auto simp: integer_type_limits_def limits_uint8_def limits_sint8_def limits_uint16_def limits_sint16_def limits_uint24_def
      limits_sint24_def limits_uint32_def limits_sint32_def limits_uint64_def limits_sint64_def type_limits_int_def widest_digits
      MAX_TINYINT_WIDTH_def MAX_SMALLINT_WIDTH_def MAX_MEDIUMINT_WIDTH_def MAX_INT_WIDTH_def MAX_BIGINT_WIDTH_def)

text \<open>The limits of every integer type are exact: its precision is the largest number of digits, its character
  length the largest number of characters of a value in its range, sign included, and both are reached.\<close>

lemma integer_limits_exact:
  assumes "(w, s, l) \<in> set integer_type_limits"
  shows "(\<forall>v \<in> int_range w s. digits (nat \<bar>v\<bar>) \<le> unat (lim_precision l) \<and> int_chars v \<le> unat (lim_char_length l)) \<and>
    (\<exists>v \<in> int_range w s. digits (nat \<bar>v\<bar>) = unat (lim_precision l) \<and> int_chars v = unat (lim_char_length l))"
proof -
  note lim = limits_widest [OF assms]
  let ?v = "if s then - (2 ^ (w - 1)) else 2 ^ w - 1 :: int"
  have "?v \<in> int_range w s" by (auto simp: int_range_def)
  moreover have "nat \<bar>?v\<bar> = (if s then 2 ^ (w - 1) else 2 ^ w - 1)"
    by (auto simp: nat_power_eq nat_diff_distrib)
  moreover have "\<not> s \<Longrightarrow> 0 \<le> ?v" "s \<Longrightarrow> ?v < 0"
    using one_le_power [of "2 :: int" w] by simp_all
  ultimately have "digits (nat \<bar>?v\<bar>) = unat (lim_precision l) \<and> int_chars ?v = unat (lim_char_length l)"
    using lim by (cases s) (simp_all add: int_chars_def nat_power_eq not_less)
  moreover have "digits (nat \<bar>v\<bar>) \<le> unat (lim_precision l) \<and> int_chars v \<le> unat (lim_char_length l)" if "v \<in> int_range w s" for v
    using range_chars [OF that] lim by simp
  ultimately show ?thesis using \<open>?v \<in> int_range w s\<close> by blast
qed

lemma integer_limits_exact_witness: "int_chars (- 100) \<le> unat (lim_char_length limits_sint8)"
  using integer_limits_exact [of 8 True limits_sint8] by (auto simp: integer_type_limits_def int_range_def)

subsection \<open>Lengths in bytes and in characters\<close>

lemma bytes_of_chars:
  assumes "unat n * unat m < 2 ^ 64"
  shows "unat (char_to_byte_length_safe n m) = min (unat n * unat m) (2 ^ 32 - 1)"
proof -
  have p: "unat (n * ucast m) = unat n * unat m"
  proof -
    have "unat (ucast m :: u64) = unat m" using unat_bound [of m] by (simp add: unsigned_ucast_eq take_bit_nat_eq_self)
    then show ?thesis using assms by (simp add: unat_word_ariths take_bit_nat_eq_self)
  qed
  show ?thesis
  proof (cases "unat n * unat m \<le> 4294967295")
    case True
    then have "\<not> n * ucast m > 4294967295" using p by (simp add: word_less_nat_alt)
    moreover have "unat (ucast (n * ucast m) :: u32) = unat n * unat m"
      using True p by (simp add: unsigned_ucast_eq take_bit_nat_eq_self)
    ultimately show ?thesis using True by (simp add: char_to_byte_length_safe_def Let_def)
  next
    case False
    then have "n * ucast m > 4294967295" using p by (simp add: word_less_nat_alt)
    then show ?thesis using False by (simp add: char_to_byte_length_safe_def Let_def)
  qed
qed

text \<open>
  C20. A length in characters, converted to bytes and back, is the length that was given, as long as
  the bytes fit 32 bits; otherwise the byte length is the largest there is and fewer characters come
  back. Lengths of 32 bits never wrap around; the conversion takes longer ones, too, and for these its
  name promises too much: the product wraps around at 64 bits and a huge length becomes a small one.
\<close>

theorem char_lengths_convert:
  assumes "mbmaxlen (lib_charset lib cs) = m" "m \<noteq> 0"
  shows "(let t' = fix_length_and_charset lib n cs t in
      dt_cs (ts_collation t') = cs \<and> fix_char_length lib n t' = t' \<and>
      unat (max_length t') = min (unat n * unat m) (2 ^ 32 - 1) \<and>
      (if unat n * unat m < 2 ^ 32 then ts_max_char_length lib t' = Some n
       else \<exists>k. ts_max_char_length lib t' = Some k \<and> k \<le> n \<and> unat k = (2 ^ 32 - 1) div unat m)) \<and>
    (\<exists>huge. 2 ^ 32 < unat huge * 4 \<and> char_to_byte_length_safe huge 4 = 4)"
proof -
  let ?t = "fix_length_and_charset lib n cs t"
  have cs: "dt_cs (ts_collation ?t) = cs" "max_length ?t = char_to_byte_length_safe (ucast n) m"
    using assms(1) by (simp_all add: fix_length_and_charset_def)
  then have again: "fix_char_length lib n ?t = ?t"
    using assms(1) by (simp add: fix_char_length_def fix_length_and_charset_def)
  have n: "unat (ucast n :: u64) = unat n" using unat_bound [of n] by (simp add: unsigned_ucast_eq take_bit_nat_eq_self)
  have "unat n * unat m < 2 ^ 32 * 2 ^ 32" by (rule mult_strict_mono) (use unat_bound [of n] unat_bound [of m] in \<open>simp_all\<close>)
  then have bytes: "unat (max_length ?t) = min (unat n * unat m) (2 ^ 32 - 1)"
    using bytes_of_chars [of "ucast n" m] cs(2) n by simp
  have m: "0 < unat m" using assms(2) by (simp add: unat_gt_0)
  have chars: "ts_max_char_length lib ?t = Some (max_length ?t div m)"
    using assms cs(1) by (simp add: ts_max_char_length_def)
  have quot: "unat (max_length ?t div m) = min (unat n * unat m) (2 ^ 32 - 1) div unat m"
    using bytes by (simp add: unat_div)
  have "max_length ?t div m = n" if "unat n * unat m < 2 ^ 32"
    using that quot m by (simp add: word_unat_eq_iff)
  moreover have "max_length ?t div m \<le> n \<and> unat (max_length ?t div m) = (2 ^ 32 - 1) div unat m" if "\<not> unat n * unat m < 2 ^ 32"
  proof -
    have q: "unat (max_length ?t div m) = (2 ^ 32 - 1) div unat m" using that quot by simp
    have "(2 ^ 32 - 1) div unat m \<le> unat n * unat m div unat m" using that by (intro div_le_mono) simp
    then have "(2 ^ 32 - 1) div unat m \<le> unat n" using m by simp
    then show ?thesis using q by (simp add: word_le_nat_alt)
  qed
  moreover have "\<exists>huge. 2 ^ 32 < unat huge * 4 \<and> char_to_byte_length_safe huge 4 = 4"
    by (rule exI [of _ "2 ^ 62 + 1"]) (simp add: char_to_byte_length_safe_def)
  ultimately show ?thesis using cs(1) again bytes chars by (auto simp: Let_def)
qed

definition four_byte_lib :: charset_lib where
  "four_byte_lib = tiny_lib\<lparr>lib_charset := \<lambda>_. (tiny_cs [117] 32)\<lparr>mbmaxlen := 4\<rparr>\<rparr>"

definition no_attributes :: type_std where
  "no_attributes = ts_of tn_make (dtc_make 1)"

lemma char_lengths_convert_witness:
  "ts_max_char_length four_byte_lib (fix_length_and_charset four_byte_lib 255 1 no_attributes) = Some 255"
  using char_lengths_convert [of four_byte_lib 1 4 255 no_attributes] by (simp add: four_byte_lib_def Let_def)

text \<open>
  The two classes of temporal attributes agree on the length; they differ only in keeping the mark for
  "not fixed".
\<close>

lemma temporal_lengths_agree:
  "max_length (type_temporal n dec uns) = max_length (type_temporal_not_fixed_dec n dec uns)"
  "max_length (type_temporal n dec uns) = n + (if dec = 0 then 0 else 1 + ucast (min dec 6))"
  "decimals (type_temporal n dec uns) = min dec 6"
  "decimals (type_temporal_not_fixed_dec n dec uns) = (if dec = NOT_FIXED_DEC then dec else min dec 6)"
  by (auto simp: type_temporal_def type_temporal_not_fixed_dec_def tn_of_def Let_def SECOND_PART_DIGITS_def NOT_FIXED_DEC_def
      min_def not_le)

text \<open>A cast with a length that did not fit is told apart by a length no 32-bit number has.\<close>

lemma cast_overflow: "tc_length (type_cast_of l cs) = 4294967296 \<longleftrightarrow> ll_length_overflowed l"
proof -
  have "(ucast (ll_length l) :: u64) \<noteq> 4294967296"
  proof
    assume "(ucast (ll_length l) :: u64) = 4294967296"
    then have "unat (ucast (ll_length l) :: u64) = 4294967296" by simp
    then show False using unat_bound [of "ll_length l"] by (simp add: unsigned_ucast_eq take_bit_nat_eq_self)
  qed
  then show ?thesis by (simp add: type_cast_of_def)
qed

text \<open>The setters of a collation leave what the constructor makes; a character set sets the repertoire.\<close>

lemma dtc_setters:
  "dtc_set_charset lib cs der d = dtc_of_charset lib cs der" "dtc_set_all cs der rep d = dtc_of cs der rep"
  "dtc_set_collation lib cs (dtc_set_derivation der d) = dtc_of_charset lib cs der"
  by (cases d; simp add: dtc_set_charset_def dtc_of_charset_def set_repertoire_from_charset_def dtc_set_all_def dtc_of_def
      dtc_set_collation_def dtc_set_derivation_def)+

lemma schema_attributes:
  "schema_precision schema_numeric_make = None" "schema_precision (schema_numeric_of_precision p) = Some p"
  "schema_scale (schema_numeric_of_precision p) = None" "schema_scale (schema_numeric_of p s) = Some s"
  "schema_octet_length (schema_character_of o' c) = Some o'" "schema_octet_length schema_character_make = None"
  by (simp_all add: schema_precision_def schema_scale_def has_precision_def has_scale_def schema_numeric_make_def
      schema_numeric_of_precision_def schema_numeric_of_def ATTR_NONE_def ATTR_PRECISION_def ATTR_SCALE_def
      ATTR_PRECISION_AND_SCALE_def schema_octet_length_def schema_character_of_def schema_character_make_def)

lemma agg_flags: "agg_arg_charsets_for_comparison il c items = agg_arg_charsets il c items MY_COLL_CMP_CONV"
  by (simp add: agg_arg_charsets_for_comparison_def MY_COLL_CMP_CONV_def MY_COLL_ALLOW_CONV_def or.assoc)

text \<open>\<open>to_base\<close> says whether a handler changed, not how many.\<close>

lemma to_base_answer:
  "base a \<noteq> 0 \<Longrightarrow> base b \<noteq> 0 \<Longrightarrow> to_base base (a, b) = (True, base a, base b)"
  "base a \<noteq> 0 \<Longrightarrow> base b = 0 \<Longrightarrow> to_base base (a, b) = (True, base a, b)"
  "base a = 0 \<Longrightarrow> base b = 0 \<Longrightarrow> to_base base (a, b) = (False, a, b)"
  by (simp_all add: to_base_def)

text \<open>The search stays in an array that ends with its mark, and is symmetric for commutative operators.\<close>

lemma find_handler_total: "\<exists>p \<in> set ps. m_result p = 0 \<Longrightarrow> find_handler_in_array ps h1 h2 c \<noteq> None"
  by (induction ps) auto

lemma find_handler_symmetric: "find_handler_in_array ps h1 h2 True = find_handler_in_array ps h2 h1 True"
  by (induction ps) auto

end
