(* ===== verification/Doubles.thy ===== *)
theory Doubles
  imports Prelude Complex_Main "HOL-Library.Log_Nat"
begin

text \<open>
  Doubles: a finite double is the rational number it stands for, and an operation on doubles is the exact
  operation followed by \<open>round_double\<close>, IEEE 754 binary64 with rounding to nearest, ties to even, the mode the
  program runs in. Infinities and NaN, hence overflow, are outside the model. The lemmas say that rounding
  is monotone, keeps integers up to \<open>2 ^ 53\<close>, and how far it moves a number.
\<close>

type_synonym double = rat

subsection \<open>Rounding\<close>

text \<open>The exponent \<open>e\<close> with \<open>2 ^ e \<le> \<bar>x\<bar> < 2 ^ (e + 1)\<close>, from the lengths of numerator and denominator.\<close>

definition exponent_of :: "rat \<Rightarrow> int" where
  "exponent_of x = (case quotient_of \<bar>x\<bar> of (n, d) \<Rightarrow>
     let k = bitlen n - bitlen d in if \<bar>x\<bar> < 2 powi k then k - 1 else k)"

text \<open>The distance of neighbouring doubles at \<open>x\<close>: 53 bits of significand, and no finer than \<open>2 ^ -1074\<close>.\<close>

definition ulp_exponent :: "rat \<Rightarrow> int" where
  "ulp_exponent x = max (exponent_of x - 52) (- 1074)"

definition round_even :: "rat \<Rightarrow> int" where
  "round_even x = (let f = \<lfloor>x\<rfloor>; r = x - of_int f in if r < 1 / 2 \<or> (r = 1 / 2 \<and> even f) then f else f + 1)"

definition round_double :: "rat \<Rightarrow> double" where
  "round_double x = (if x = 0 then 0 else of_int (round_even (x / 2 powi ulp_exponent x)) * 2 powi ulp_exponent x)"

definition is_double :: "rat \<Rightarrow> bool" where
  "is_double x \<longleftrightarrow> round_double x = x"

subsection \<open>Powers of two\<close>

lemma powi_pos [simp]: "(0 :: rat) < 2 powi k" "(2 :: rat) powi k \<noteq> 0"
  by (simp_all add: zero_less_power_int)

lemma powi_mono: "i \<le> j \<Longrightarrow> (2 :: rat) powi i \<le> 2 powi j"
  by (simp add: power_int_increasing)

lemma powi_less: "i < j \<Longrightarrow> (2 :: rat) powi i < 2 powi j"
  by (simp add: power_int_strict_increasing)

lemma powi_less_cancel: "(2 :: rat) powi i < 2 powi j \<Longrightarrow> i < j"
  using powi_mono [of j i] by (meson not_le)

lemma powi_diff: "(2 :: rat) powi (i - j) = 2 powi i / 2 powi j"
  by (simp add: power_int_diff)

lemma powi_nat: "0 \<le> k \<Longrightarrow> (2 :: rat) powi k = of_int (2 ^ nat k)"
  by (simp add: power_int_def)

text \<open>A smaller power divides a greater one.\<close>

lemma powi_quotient: "j \<le> i \<Longrightarrow> (2 :: rat) powi i / 2 powi j = of_int (2 ^ nat (i - j))"
  using powi_nat [of "i - j"] by (simp add: powi_diff)

lemma bitlen_powi:
  assumes "0 < n"
  shows "2 powi (bitlen n - 1) \<le> (of_int n :: rat)" "(of_int n :: rat) < 2 powi bitlen n"
proof -
  have b: "2 ^ nat (bitlen n - 1) \<le> n" "n < 2 ^ nat (bitlen n)" using bitlen_bounds [OF assms] by simp_all
  have l: "0 \<le> bitlen n - 1" using bitlen_eq_zero_iff [of n] bitlen_nonneg [of n] assms by linarith
  show "2 powi (bitlen n - 1) \<le> (of_int n :: rat)" unfolding powi_nat [OF l] of_int_le_iff by (rule b(1))
  show "(of_int n :: rat) < 2 powi bitlen n" unfolding powi_nat [OF bitlen_nonneg] of_int_less_iff by (rule b(2))
qed

lemma exponent_of_bounds:
  assumes "x \<noteq> 0"
  shows "2 powi exponent_of x \<le> \<bar>x\<bar>" "\<bar>x\<bar> < 2 powi (exponent_of x + 1)"
proof -
  obtain n d where q: "quotient_of \<bar>x\<bar> = (n, d)" by (cases "quotient_of \<bar>x\<bar>")
  have d: "0 < d" and x: "\<bar>x\<bar> = of_int n / of_int d"
    using quotient_of_denom_pos [OF q] quotient_of_div [OF q] by simp_all
  have "0 < \<bar>x\<bar>" using assms by simp
  then have n: "0 < n" using d unfolding x by (simp add: zero_less_divide_iff)
  define k where "k = bitlen n - bitlen d"
  note bn = bitlen_powi [OF n] and bd = bitlen_powi [OF d]
  have "of_int n / of_int d < 2 powi bitlen n / (2 powi (bitlen d - 1) :: rat)"
    using bn(2) bd(1) n d by (intro frac_less) simp_all
  moreover have "bitlen n - (bitlen d - 1) = k + 1" by (simp add: k_def)
  ultimately have hi: "\<bar>x\<bar> < 2 powi (k + 1)" by (simp only: x flip: powi_diff)
  have "2 powi (bitlen n - 1) / (2 powi bitlen d :: rat) \<le> of_int n / of_int d"
    using bn(1) bd(2) n d by (intro frac_le) simp_all
  moreover have "bitlen n - 1 - bitlen d = k - 1" by (simp add: k_def)
  ultimately have lo: "2 powi (k - 1) \<le> \<bar>x\<bar>" by (simp only: x flip: powi_diff)
  have e: "exponent_of x = (if \<bar>x\<bar> < 2 powi k then k - 1 else k)" by (simp add: exponent_of_def q k_def)
  show "2 powi exponent_of x \<le> \<bar>x\<bar>" "\<bar>x\<bar> < 2 powi (exponent_of x + 1)" using lo hi by (simp_all add: e)
qed

lemma exponent_of_less: "x \<noteq> 0 \<Longrightarrow> \<bar>x\<bar> < 2 powi k \<Longrightarrow> exponent_of x < k"
  using exponent_of_bounds(1) [of x] by (intro powi_less_cancel) simp

lemma exponent_of_ge: "2 powi k \<le> \<bar>x\<bar> \<Longrightarrow> x \<noteq> 0 \<Longrightarrow> k \<le> exponent_of x"
  using exponent_of_bounds(2) [of x] powi_less_cancel [of k "exponent_of x + 1"] by simp

subsection \<open>Rounding to integers\<close>

lemma round_even_of_int [simp]: "round_even (of_int k) = k"
  by (simp add: round_even_def)

lemma round_even_error: "\<bar>of_int (round_even x) - x\<bar> \<le> 1 / 2"
proof -
  have "of_int \<lfloor>x\<rfloor> \<le> x" "x < of_int \<lfloor>x\<rfloor> + 1" by linarith+
  then show ?thesis unfolding round_even_def Let_def by (auto simp: abs_le_iff)
qed

lemma round_even_floor: "round_even x = \<lfloor>x\<rfloor> \<or> round_even x = \<lfloor>x\<rfloor> + 1"
  by (simp add: round_even_def Let_def)

lemma round_even_mono:
  assumes "x \<le> y"
  shows "round_even x \<le> round_even y"
proof (cases "\<lfloor>x\<rfloor> = \<lfloor>y\<rfloor>")
  case True
  then show ?thesis using assms by (auto simp: round_even_def Let_def)
next
  case False
  then have "\<lfloor>x\<rfloor> + 1 \<le> \<lfloor>y\<rfloor>" using floor_mono [OF assms] by linarith
  then show ?thesis using round_even_floor [of x] round_even_floor [of y] by linarith
qed

subsection \<open>Properties of rounding\<close>

lemma round_double_0 [simp]: "round_double 0 = 0"
  by (simp add: round_double_def)

lemma round_double_multiple: "x = of_int m * 2 powi ulp_exponent x \<Longrightarrow> round_double x = x"
proof -
  assume x: "x = of_int m * 2 powi ulp_exponent x"
  then have "x / 2 powi ulp_exponent x = of_int m" by (simp add: divide_eq_eq)
  then show ?thesis using x by (simp add: round_double_def)
qed

text \<open>A number with at most 53 bits is kept.\<close>

lemma round_double_int:
  assumes "\<bar>k\<bar> \<le> 2 ^ 53"
  shows "round_double (of_int k) = of_int k"
proof (cases "k = 0")
  case False
  let ?x = "of_int k :: rat"
  have x: "?x \<noteq> 0" using False by simp
  have "(of_int \<bar>k\<bar> :: rat) \<le> of_int (2 ^ 53)" unfolding of_int_le_iff by (rule assms)
  then have "\<bar>?x\<bar> < 2 powi 54" by (simp add: power_int_def)
  then have "exponent_of ?x < 54" by (rule exponent_of_less [OF x])
  moreover have "\<bar>k\<bar> = 2 ^ 53" if "exponent_of ?x = 53"
  proof -
    have "2 powi 53 \<le> \<bar>?x\<bar>" using exponent_of_bounds(1) [OF x] that by simp
    then have "(of_int (2 ^ 53) :: rat) \<le> of_int \<bar>k\<bar>" by (simp add: power_int_def)
    then show ?thesis using assms unfolding of_int_le_iff by linarith
  qed
  ultimately consider "ulp_exponent ?x \<le> 0" | "ulp_exponent ?x = 1" "\<bar>k\<bar> = 2 ^ 53"
    unfolding ulp_exponent_def by (cases "exponent_of ?x = 53") (auto simp: max_def)
  then show ?thesis
  proof cases
    case 1
    have "?x = of_int (k * 2 ^ nat (- ulp_exponent ?x)) * 2 powi ulp_exponent ?x"
      using powi_nat [of "- ulp_exponent ?x"] 1 by (simp add: power_int_minus field_simps)
    then show ?thesis by (rule round_double_multiple)
  next
    case 2
    have "?x = of_int (sgn k * 2 ^ 52) * 2 powi ulp_exponent ?x"
      using 2 mult_sgn_abs [of k] by (simp add: power_int_def flip: of_int_mult)
    then show ?thesis by (rule round_double_multiple)
  qed
qed simp

lemma round_double_nat: "n \<le> 2 ^ 53 \<Longrightarrow> round_double (of_nat n) = of_nat n"
  using round_double_int [of "int n"] by simp

lemma round_double_1 [simp]: "round_double 1 = 1"
  using round_double_int [of 1] by simp

lemma round_double_nonneg: "0 \<le> x \<Longrightarrow> 0 \<le> round_double x"
  using round_even_mono [of 0 "x / 2 powi ulp_exponent x"] round_even_of_int [of 0] by (simp add: round_double_def)

lemma round_double_mono:
  assumes "0 \<le> x" "x \<le> y"
  shows "round_double x \<le> round_double y"
proof (cases "x = 0")
  case True
  then show ?thesis using assms round_double_nonneg [of y] by simp
next
  case False
  then have x: "0 < x" "x \<noteq> 0" and y: "0 < y" "y \<noteq> 0" using assms by simp_all
  let ?u = "ulp_exponent x" and ?v = "ulp_exponent y"
  have "2 powi exponent_of x \<le> \<bar>y\<bar>" using exponent_of_bounds(1) [OF x(2)] assms by simp
  then have "exponent_of x \<le> exponent_of y" using y(2) by (rule exponent_of_ge)
  then have "?u \<le> ?v" by (simp add: ulp_exponent_def)
  then consider "?u = ?v" | "?u < ?v" by linarith
  then show ?thesis
  proof cases
    case 1
    have "x / 2 powi ?u \<le> y / 2 powi ?u" using assms(2) by (simp add: divide_right_mono less_imp_le)
    from round_even_mono [OF this] show ?thesis using x(2) y(2) 1
      by (simp add: round_double_def)
  next
    case 2
    then have v: "?v = exponent_of y - 52" and e: "exponent_of x < exponent_of y"
      by (auto simp: ulp_exponent_def)
    have "2 powi exponent_of y / 2 powi ?v \<le> y / 2 powi ?v"
      using exponent_of_bounds(1) [OF y(2)] y(1) by (intro divide_right_mono) (simp_all add: less_imp_le)
    from round_even_mono [OF this] have "2 ^ 52 \<le> round_even (y / 2 powi ?v)"
      using powi_quotient [of ?v "exponent_of y"] round_even_of_int [of "2 ^ 52"] by (simp add: v)
    then have "(of_int (2 ^ 52) :: rat) \<le> of_int (round_even (y / 2 powi ?v))" by (simp only: of_int_le_iff)
    then have "of_int (2 ^ 52) * 2 powi ?v \<le> round_double y" using y(2) by (simp add: round_double_def)
    moreover have "of_int (2 ^ 52) * 2 powi ?v = (2 powi exponent_of y :: rat)"
      using powi_quotient [of ?v "exponent_of y"] by (simp add: v divide_eq_eq)
    moreover have "x \<le> 2 powi exponent_of y"
    proof -
      have "x < 2 powi (exponent_of x + 1)" using exponent_of_bounds(2) [OF x(2)] x(1) by simp
      also have "\<dots> \<le> 2 powi exponent_of y" using e by (intro powi_mono) simp
      finally show ?thesis by simp
    qed
    then have "x / 2 powi ?u \<le> 2 powi exponent_of y / 2 powi ?u" by (simp add: divide_right_mono less_imp_le)
    from round_even_mono [OF this] have "of_int (round_even (x / 2 powi ?u)) \<le> (2 powi exponent_of y / 2 powi ?u :: rat)"
      using powi_quotient [of ?u "exponent_of y"] round_even_of_int [of "2 ^ nat (exponent_of y - ?u)"] 2 v by simp
    then have "round_double x \<le> 2 powi exponent_of y" using x(2) by (simp add: round_double_def le_divide_eq)
    ultimately show ?thesis by simp
  qed
qed

text \<open>Half the distance of the neighbours, as an absolute and as a relative error.\<close>

lemma round_double_error: "\<bar>round_double x - x\<bar> \<le> 2 powi ulp_exponent x / 2"
proof (cases "x = 0")
  case False
  let ?u = "2 powi ulp_exponent x :: rat"
  have "\<bar>round_double x - x\<bar> = \<bar>(of_int (round_even (x / ?u)) - x / ?u) * ?u\<bar>"
    using False by (simp add: round_double_def left_diff_distrib)
  also have "\<dots> = \<bar>of_int (round_even (x / ?u)) - x / ?u\<bar> * ?u" by (simp add: abs_mult)
  also have "\<dots> \<le> 1 / 2 * ?u" by (intro mult_right_mono round_even_error) (simp add: less_imp_le)
  finally show ?thesis by simp
qed simp

lemma round_double_relative:
  assumes "2 powi (- 1022) \<le> \<bar>x\<bar>"
  shows "\<bar>round_double x - x\<bar> \<le> \<bar>x\<bar> / 2 ^ 53"
proof -
  have x: "x \<noteq> 0" using assms by auto
  have "- 1022 \<le> exponent_of x" using assms x by (rule exponent_of_ge)
  then have "ulp_exponent x = exponent_of x - 52" by (simp add: ulp_exponent_def)
  then have "2 powi ulp_exponent x = (2 powi exponent_of x / 2 ^ 52 :: rat)" by (simp add: powi_diff power_int_def [of _ 52])
  also have "\<dots> \<le> \<bar>x\<bar> / 2 ^ 52" using exponent_of_bounds(1) [OF x] by (simp add: divide_right_mono)
  finally show ?thesis using round_double_error [of x] by simp
qed

text \<open>Below 1 the neighbours are at most \<open>2 ^ -53\<close> apart.\<close>

lemma round_double_unit:
  assumes "0 \<le> x" "x \<le> 1"
  shows "\<bar>round_double x - x\<bar> \<le> 1 / 2 ^ 54"
proof (cases "x = 0 \<or> x = 1")
  case False
  then have x: "x \<noteq> 0" "\<bar>x\<bar> < 2 powi 0" using assms by auto
  have "exponent_of x < 0" by (rule exponent_of_less [OF x])
  then have "ulp_exponent x \<le> - 53" by (simp add: ulp_exponent_def)
  then have "(2 powi ulp_exponent x :: rat) \<le> 2 powi (- 53)" by (rule powi_mono)
  then show ?thesis using round_double_error [of x] by (simp add: power_int_def field_simps)
qed auto

lemma round_double_small:
  assumes "0 \<le> x"
  shows "\<bar>round_double x - x\<bar> \<le> x / 2 ^ 53 + 1 / 2 ^ 54"
proof (cases "x \<le> 1")
  case True
  have "0 \<le> x / 2 ^ 53" using assms by simp
  then show ?thesis using round_double_unit [OF assms True] by linarith
next
  case False
  have "(2 powi (- 1022) :: rat) \<le> 2 powi 0" by (rule powi_mono) simp
  then have "2 powi (- 1022) \<le> \<bar>x\<bar>" using False by simp
  from round_double_relative [OF this] show ?thesis using False by simp
qed

lemma round_double_tenth: "round_double (1 / 10) = 3602879701896397 / 36028797018963968"
  by code_simp

end
