(* ===== verification/Window_Functions.thy ===== *)
theory Window_Functions
  imports Doubles "HOL-Library.Signed_Division"
begin

text \<open>
  Window functions, \<open>item_windowfunc.h\<close>: the tracker of group bounds, ROW_NUMBER, RANK, DENSE_RANK,
  PERCENT_RANK, CUME_DIST, NTILE, PERCENTILE_DISC and PERCENTILE_CONT, and the phases of the item that
  stands for a window function in a query. Rows come one by one; what an argument evaluates to in a row
  is an argument of the functions. Every operation on doubles and every conversion to one rounds
  (\<open>Doubles\<close>); counts keep their width of 64 bits. The members \<open>add\<close> of the RANK functions are in a
  missing file.
\<close>

subsection \<open>Kinds of functions\<close>

datatype sumfunctype = COUNT_FUNC | COUNT_DISTINCT_FUNC | SUM_FUNC | SUM_DISTINCT_FUNC | AVG_FUNC | AVG_DISTINCT_FUNC
  | MIN_FUNC | MAX_FUNC | STD_FUNC | VARIANCE_FUNC | SUM_BIT_FUNC | UDF_SUM_FUNC | GROUP_CONCAT_FUNC | ROW_NUMBER_FUNC
  | RANK_FUNC | DENSE_RANK_FUNC | PERCENT_RANK_FUNC | CUME_DIST_FUNC | NTILE_FUNC | FIRST_VALUE_FUNC | LAST_VALUE_FUNC
  | NTH_VALUE_FUNC | LEAD_FUNC | LAG_FUNC | PERCENTILE_CONT_FUNC | PERCENTILE_DISC_FUNC | SP_AGGREGATE_FUNC
  | JSON_ARRAYAGG_FUNC | JSON_OBJECTAGG_FUNC

definition is_aggr_sum_func :: "sumfunctype \<Rightarrow> bool" where
  "is_aggr_sum_func f \<longleftrightarrow> f \<in> {COUNT_FUNC, COUNT_DISTINCT_FUNC, SUM_FUNC, SUM_DISTINCT_FUNC, AVG_FUNC, AVG_DISTINCT_FUNC, MIN_FUNC,
     MAX_FUNC, STD_FUNC, VARIANCE_FUNC, SUM_BIT_FUNC, UDF_SUM_FUNC, GROUP_CONCAT_FUNC, JSON_ARRAYAGG_FUNC}"

definition is_frame_prohibited :: "sumfunctype \<Rightarrow> bool" where
  "is_frame_prohibited f \<longleftrightarrow> f \<in> {ROW_NUMBER_FUNC, RANK_FUNC, DENSE_RANK_FUNC, PERCENT_RANK_FUNC, CUME_DIST_FUNC, NTILE_FUNC,
     PERCENTILE_CONT_FUNC, PERCENTILE_DISC_FUNC}"

definition requires_special_cursors :: "sumfunctype \<Rightarrow> bool" where
  "requires_special_cursors f \<longleftrightarrow> f \<in> {FIRST_VALUE_FUNC, LAST_VALUE_FUNC, NTH_VALUE_FUNC, LAG_FUNC, LEAD_FUNC}"

definition requires_partition_size :: "sumfunctype \<Rightarrow> bool" where
  "requires_partition_size f \<longleftrightarrow>
     f \<in> {PERCENT_RANK_FUNC, CUME_DIST_FUNC, NTILE_FUNC, PERCENTILE_CONT_FUNC, PERCENTILE_DISC_FUNC}"

definition requires_peer_size :: "sumfunctype \<Rightarrow> bool" where
  "requires_peer_size f \<longleftrightarrow> f = CUME_DIST_FUNC"

definition is_order_list_mandatory :: "sumfunctype \<Rightarrow> bool" where
  "is_order_list_mandatory f \<longleftrightarrow> f \<in> {RANK_FUNC, DENSE_RANK_FUNC, PERCENT_RANK_FUNC, CUME_DIST_FUNC, LAG_FUNC, LEAD_FUNC,
     PERCENTILE_CONT_FUNC, PERCENTILE_DISC_FUNC}"

definition only_single_element_order_list :: "sumfunctype \<Rightarrow> bool" where
  "only_single_element_order_list f \<longleftrightarrow> f \<in> {PERCENTILE_CONT_FUNC, PERCENTILE_DISC_FUNC}"

subsection \<open>Bounds of groups\<close>

text \<open>
  The cached items are of type \<open>'c\<close>; \<open>test_if_group_changed\<close> is declared only: it compares the current
  row with them, answers a number above -1 when it differs, and caches the row.
\<close>

record 'c group_tracker =
  gt_fields :: 'c
  gt_first_check :: bool

definition gt_init :: "'c group_tracker \<Rightarrow> 'c group_tracker" where
  "gt_init g = g\<lparr>gt_first_check := True\<rparr>"

definition check_if_next_group :: "('c \<Rightarrow> 'r \<Rightarrow> int \<times> 'c) \<Rightarrow> 'r \<Rightarrow> 'c group_tracker \<Rightarrow> bool \<times> 'c group_tracker" where
  "check_if_next_group test_if_group_changed row g =
     (let (res, fields) = test_if_group_changed (gt_fields g) row; g = g\<lparr>gt_fields := fields\<rparr>
      in if res > - 1 \<or> gt_first_check g then (True, g\<lparr>gt_first_check := False\<rparr>) else (False, g))"

text \<open>The list holds what \<open>cmp_read_only\<close> answers for each cached item.\<close>

fun compare_with_cache :: "int list \<Rightarrow> int" where
  "compare_with_cache [] = 0"
| "compare_with_cache (res # rest) = (if res \<noteq> 0 then res else compare_with_cache rest)"

subsection \<open>Counting functions\<close>

record row_number_sum =
  rn_count :: u64

definition rn_clear :: "row_number_sum \<Rightarrow> row_number_sum" where "rn_clear s = s\<lparr>rn_count := 0\<rparr>"
definition rn_add :: "row_number_sum \<Rightarrow> bool \<times> row_number_sum" where "rn_add s = (False, s\<lparr>rn_count := rn_count s + 1\<rparr>)"
definition rn_val_int :: "row_number_sum \<Rightarrow> u64" where "rn_val_int s = rn_count s"

record rank_sum =
  rk_row_number :: u64
  rk_cur_rank :: u64

definition rank_clear :: "rank_sum \<Rightarrow> rank_sum" where "rank_clear s = s\<lparr>rk_cur_rank := 1, rk_row_number := 0\<rparr>"
definition rank_val_int :: "rank_sum \<Rightarrow> u64" where "rank_val_int s = rk_cur_rank s"

record dense_rank_sum =
  dr_dense_rank :: u64
  dr_first_add :: bool

definition dense_rank_clear :: "dense_rank_sum \<Rightarrow> dense_rank_sum" where
  "dense_rank_clear s = s\<lparr>dr_dense_rank := 0, dr_first_add := True\<rparr>"
definition dense_rank_val_int :: "dense_rank_sum \<Rightarrow> u64" where "dense_rank_val_int s = dr_dense_rank s"

text \<open>\<open>Partition_row_count\<close> and \<open>Current_row_count\<close>, with the \<open>null_value\<close> of the item.\<close>

record row_counts =
  partition_row_count :: u64
  current_row_count :: u64
  null_value :: bool

definition row_counts_make :: row_counts where
  "row_counts_make = \<lparr>partition_row_count = 0, current_row_count = 0, null_value = False\<rparr>"

definition set_partition_row_count :: "u64 \<Rightarrow> 'a row_counts_scheme \<Rightarrow> 'a row_counts_scheme" where
  "set_partition_row_count count s = s\<lparr>partition_row_count := count\<rparr>"

definition get_row_count :: "'a row_counts_scheme \<Rightarrow> u64" where "get_row_count s = partition_row_count s"
definition get_row_number :: "'a row_counts_scheme \<Rightarrow> u64" where "get_row_number s = current_row_count s"

definition calc_val_real :: "u64 \<Rightarrow> 'a row_counts_scheme \<Rightarrow> double \<times> 'a row_counts_scheme" where
  "calc_val_real count s =
     (let s = s\<lparr>null_value := partition_row_count s = 0\<rparr>
      in (if null_value s then 0
          else round_double (round_double (of_nat (unat count)) / round_double (of_nat (unat (partition_row_count s)))), s))"

record percent_rank_sum = row_counts +
  pr_cur_rank :: u64
  pr_row_number :: u64

definition percent_rank_val_real :: "percent_rank_sum \<Rightarrow> double \<times> percent_rank_sum" where
  "percent_rank_val_real s =
     (let partition_rows = get_row_count s; s = s\<lparr>null_value := \<not> partition_rows > 0\<rparr>
      in (if partition_rows > 1
          then round_double (round_double (of_int (sint (pr_cur_rank s - 1))) / round_double (of_nat (unat (partition_rows - 1))))
          else 0, s))"

definition percent_rank_clear :: "percent_rank_sum \<Rightarrow> percent_rank_sum" where
  "percent_rank_clear s = s\<lparr>pr_cur_rank := 1, pr_row_number := 0\<rparr>"

definition cume_dist_val_real :: "row_counts \<Rightarrow> double \<times> row_counts" where
  "cume_dist_val_real s = calc_val_real (current_row_count s) s"

definition cume_dist_add :: "row_counts \<Rightarrow> bool \<times> row_counts" where
  "cume_dist_add s = (False, s\<lparr>current_row_count := current_row_count s + 1\<rparr>)"

definition cume_dist_clear :: "row_counts \<Rightarrow> row_counts" where
  "cume_dist_clear s = s\<lparr>current_row_count := 0, partition_row_count := 0\<rparr>"

subsection \<open>NTILE\<close>

record ntile_sum = row_counts +
  n_old_val :: u64

text \<open>\<open>num_quantiles\<close> is the value of the argument in the current row. The result is the value and whether the
  error for the argument is raised.\<close>

definition ntile_val_int :: "u64 \<Rightarrow> ntile_sum \<Rightarrow> (u64 \<times> bool) \<times> ntile_sum" where
  "ntile_val_int num_quantiles s =
     (if get_row_count s = 0 then ((0, False), s\<lparr>null_value := True\<rparr>)
      else if num_quantiles \<le>s 0 \<or> num_quantiles \<noteq> n_old_val s \<and> n_old_val s > 0 then ((1, True), s)
      else let s = s\<lparr>n_old_val := num_quantiles, null_value := False\<rparr>;
               quantile_size = word_of_int (sint (get_row_count s) sdiv sint num_quantiles);
               extra_rows = get_row_count s - quantile_size * num_quantiles
           in if current_row_count s \<le> extra_rows * (quantile_size + 1)
              then (((current_row_count s - 1) div (quantile_size + 1) + 1, False), s)
              else (((current_row_count s - 1 - extra_rows) div quantile_size + 1, False), s))"

definition ntile_add :: "ntile_sum \<Rightarrow> bool \<times> ntile_sum" where
  "ntile_add s = (False, s\<lparr>current_row_count := current_row_count s + 1\<rparr>)"

definition ntile_clear :: "ntile_sum \<Rightarrow> ntile_sum" where
  "ntile_clear s = s\<lparr>current_row_count := 0, partition_row_count := 0, n_old_val := 0\<rparr>"

subsection \<open>Percentiles\<close>

datatype window_error = ER_ARGUMENT_OUT_OF_RANGE | ER_ARGUMENT_NOT_CONSTANT

text \<open>A cache holds the value that was stored last, \<open>None\<close> for NULL or after it was cleared.\<close>

record 'v percentile_disc = row_counts +
  pd_value :: "'v option"
  pd_val_calculated :: bool
  pd_first_call :: bool
  pd_prev_value :: double

text \<open>The six value functions differ in the type they read; \<open>arg\<close> is the argument, \<open>None\<close> for NULL.\<close>

definition pd_val :: "'r \<Rightarrow> ('v option \<Rightarrow> 'r) \<Rightarrow> double option \<Rightarrow> 'v percentile_disc \<Rightarrow> 'r \<times> 'v percentile_disc" where
  "pd_val null read arg s =
     (if get_row_count s = 0 \<or> arg = None then (null, s\<lparr>null_value := True\<rparr>)
      else (read (pd_value s), s\<lparr>null_value := False\<rparr>))"

definition pd_add :: "double option \<Rightarrow> 'v option \<Rightarrow> 'v percentile_disc \<Rightarrow> window_error option \<times> 'v percentile_disc" where
  "pd_add arg order_item s = (case arg of None \<Rightarrow> (None, s) | Some arg_val \<Rightarrow>
     (let first = pd_first_call s; s = (if first then s\<lparr>pd_prev_value := arg_val\<rparr> else s)
      in if first \<and> (pd_prev_value s > 1 \<or> pd_prev_value s < 0) then (Some ER_ARGUMENT_OUT_OF_RANGE, s)
         else let s = (if first then s\<lparr>pd_first_call := False\<rparr> else s)
              in if pd_prev_value s \<noteq> arg_val then (Some ER_ARGUMENT_NOT_CONSTANT, s)
                 else if pd_val_calculated s then (None, s)
                 else let s = s\<lparr>pd_value := order_item\<rparr>
                      in if pd_value s = None then (None, s)
                         else let s = s\<lparr>current_row_count := current_row_count s + 1\<rparr>;
                                  (val, s) = calc_val_real (current_row_count s) s
                              in (None, if val \<ge> pd_prev_value s \<and> \<not> pd_val_calculated s then s\<lparr>pd_val_calculated := True\<rparr> else s)))"

definition pd_clear :: "'v percentile_disc \<Rightarrow> 'v percentile_disc" where
  "pd_clear s = s\<lparr>pd_val_calculated := False, pd_first_call := True, pd_value := None, partition_row_count := 0,
     current_row_count := 0\<rparr>"

record percentile_cont = row_counts +
  pc_floor_value :: "double option"
  pc_ceil_value :: "double option"
  pc_first_call :: bool
  pc_prev_value :: double
  pc_floor_calculated :: bool
  pc_ceil_calculated :: bool

text \<open>
  What \<open>val_real\<close> answers for a cache that is NULL is a parameter, the code of the caches is in a
  missing file.
\<close>

definition cache_real :: "double \<Rightarrow> double option \<Rightarrow> double" where
  "cache_real null_real c = (case c of Some v \<Rightarrow> v | None \<Rightarrow> null_real)"

definition pc_position :: "percentile_cont \<Rightarrow> double" where
  "pc_position s =
     round_double (1 + round_double (pc_prev_value s * round_double (of_int (sint (get_row_count s) - 1))))"

definition pc_val_real :: "double \<Rightarrow> double option \<Rightarrow> percentile_cont \<Rightarrow> double \<times> percentile_cont" where
  "pc_val_real null_real arg s =
     (if get_row_count s = 0 \<or> arg = None then (0, s\<lparr>null_value := True\<rparr>)
      else let s = s\<lparr>null_value := False\<rparr>; val = pc_position s
           in if \<lceil>val\<rceil> = \<lfloor>val\<rfloor> then (cache_real null_real (pc_floor_value s), s)
              else (round_double (round_double (round_double (val - of_int \<lfloor>val\<rfloor>) * cache_real null_real (pc_ceil_value s)) +
                    round_double (round_double (of_int \<lceil>val\<rceil> - val) * cache_real null_real (pc_floor_value s))), s))"

definition pc_add :: "double option \<Rightarrow> double option \<Rightarrow> percentile_cont \<Rightarrow> window_error option \<times> percentile_cont" where
  "pc_add arg order_item s = (case arg of None \<Rightarrow> (None, s) | Some arg_val \<Rightarrow>
     (let first = pc_first_call s; s = (if first then s\<lparr>pc_first_call := False, pc_prev_value := arg_val\<rparr> else s)
      in if first \<and> (pc_prev_value s > 1 \<or> pc_prev_value s < 0) then (Some ER_ARGUMENT_OUT_OF_RANGE, s)
         else if pc_prev_value s \<noteq> arg_val then (Some ER_ARGUMENT_NOT_CONSTANT, s)
         else let store_floor = \<not> pc_floor_calculated s;
                  s = (if store_floor then s\<lparr>pc_floor_value := order_item\<rparr> else s)
              in if store_floor \<and> pc_floor_value s = None then (None, s)
                 else let store_ceil = pc_floor_calculated s \<and> \<not> pc_ceil_calculated s;
                          s = (if store_ceil then s\<lparr>pc_ceil_value := order_item\<rparr> else s)
                      in if store_ceil \<and> pc_ceil_value s = None then (None, s)
                         else let s = s\<lparr>current_row_count := current_row_count s + 1\<rparr>; val = pc_position s;
                                  s = (if \<not> pc_floor_calculated s \<and> round_double (of_nat (unat (get_row_number s))) = of_int \<lfloor>val\<rfloor>
                                       then s\<lparr>pc_floor_calculated := True\<rparr> else s);
                                  s = (if \<not> pc_ceil_calculated s \<and> round_double (of_nat (unat (get_row_number s))) = of_int \<lceil>val\<rceil>
                                       then s\<lparr>pc_ceil_calculated := True\<rparr> else s)
                              in (None, s)))"

definition pc_clear :: "percentile_cont \<Rightarrow> percentile_cont" where
  "pc_clear s = s\<lparr>pc_first_call := True, pc_floor_value := None, pc_ceil_value := None, pc_floor_calculated := False,
     pc_ceil_calculated := False, partition_row_count := 0, current_row_count := 0\<rparr>"

subsection \<open>The item of a window function\<close>

record window_item =
  force_return_blank :: bool
  read_value_from_result_field :: bool
  wi_null_value :: bool

definition window_item_make :: window_item where
  "window_item_make = \<lparr>force_return_blank = True, read_value_from_result_field = False, wi_null_value = False\<rparr>"

definition set_phase_to_initial :: "window_item \<Rightarrow> window_item" where
  "set_phase_to_initial s = s\<lparr>force_return_blank := True, read_value_from_result_field := False\<rparr>"
definition set_phase_to_computation :: "window_item \<Rightarrow> window_item" where
  "set_phase_to_computation s = s\<lparr>force_return_blank := False, read_value_from_result_field := False\<rparr>"
definition set_phase_to_retrieval :: "window_item \<Rightarrow> window_item" where
  "set_phase_to_retrieval s = s\<lparr>force_return_blank := False, read_value_from_result_field := True\<rparr>"

definition wi_is_null :: "bool \<Rightarrow> bool \<Rightarrow> window_item \<Rightarrow> bool" where
  "wi_is_null field_null func_null s =
     (if force_return_blank s then True else if read_value_from_result_field s then field_null else func_null)"

text \<open>Numbers: the value and the NULL flag of the result field and of the function are arguments.\<close>

definition wi_val_number :: "'r::zero \<times> bool \<Rightarrow> 'r \<times> bool \<Rightarrow> window_item \<Rightarrow> 'r \<times> window_item" where
  "wi_val_number field func s =
     (if force_return_blank s then (0, s\<lparr>wi_null_value := True\<rparr>)
      else if read_value_from_result_field s then (fst field, s\<lparr>wi_null_value := snd field\<rparr>)
      else (fst func, s\<lparr>wi_null_value := snd func\<rparr>))"

definition wi_val_real :: "rat \<times> bool \<Rightarrow> rat \<times> bool \<Rightarrow> window_item \<Rightarrow> rat \<times> window_item" where
  "wi_val_real field func s = wi_val_number field func s"
definition wi_val_int :: "u64 \<times> bool \<Rightarrow> u64 \<times> bool \<Rightarrow> window_item \<Rightarrow> u64 \<times> window_item" where
  "wi_val_int field func s = wi_val_number field func s"

text \<open>Pointers, \<open>None\<close> for NULL: the result field is read only where it is not NULL.\<close>

definition wi_val_pointer :: "'r \<times> bool \<Rightarrow> 'r option \<times> bool \<Rightarrow> window_item \<Rightarrow> 'r option \<times> window_item" where
  "wi_val_pointer field func s =
     (if force_return_blank s then (None, s\<lparr>wi_null_value := True\<rparr>)
      else if read_value_from_result_field s
      then let s = s\<lparr>wi_null_value := snd field\<rparr> in (if wi_null_value s then None else Some (fst field), s)
      else (fst func, s\<lparr>wi_null_value := snd func\<rparr>))"

definition wi_val_str :: "u8 list \<times> bool \<Rightarrow> u8 list option \<times> bool \<Rightarrow> window_item \<Rightarrow> u8 list option \<times> window_item" where
  "wi_val_str field func s = wi_val_pointer field func s"
definition wi_val_decimal :: "rat \<times> bool \<Rightarrow> rat option \<times> bool \<Rightarrow> window_item \<Rightarrow> rat option \<times> window_item" where
  "wi_val_decimal field func s = wi_val_pointer field func s"

text \<open>\<open>get_date\<close> answers True for NULL and errors; the value is what it stores when it answers False.\<close>

definition wi_get_date :: "'d option \<times> bool \<Rightarrow> 'd option \<times> bool \<Rightarrow> window_item \<Rightarrow> 'd option \<times> window_item" where
  "wi_get_date field func s =
     (if force_return_blank s then (None, s\<lparr>wi_null_value := True\<rparr>)
      else if read_value_from_result_field s
      then let s = s\<lparr>wi_null_value := snd field\<rparr> in (if wi_null_value s then None else fst field, s)
      else (fst func, s\<lparr>wi_null_value := snd func\<rparr>))"

subsection \<open>Buckets of NTILE\<close>

text \<open>The rows of a partition of \<open>n\<close> rows, in order: each is added and then evaluated.\<close>

fun ntile_run :: "nat \<Rightarrow> u64 \<Rightarrow> ntile_sum \<Rightarrow> (u64 \<times> bool) list" where
  "ntile_run 0 q s = []"
| "ntile_run (Suc k) q s =
     (let (e, s) = ntile_add s; (v, s) = ntile_val_int q s in v # ntile_run k q s)"

text \<open>The bucket of row \<open>i\<close>, from 1, and the last row of bucket \<open>k\<close>.\<close>

definition bucket :: "nat \<Rightarrow> nat \<Rightarrow> nat \<Rightarrow> nat" where
  "bucket n q i =
     (if i \<le> (n mod q) * (n div q + 1) then (i - 1) div (n div q + 1) + 1 else (i - 1 - n mod q) div (n div q) + 1)"

definition last_row :: "nat \<Rightarrow> nat \<Rightarrow> nat \<Rightarrow> nat" where
  "last_row n q k = k * (n div q) + min k (n mod q)"

lemma div_eq_interval: "0 < d \<Longrightarrow> 1 \<le> i \<Longrightarrow> (i - 1) div d + 1 = k \<longleftrightarrow> (k - 1) * d < i \<and> i \<le> k * d" for d :: nat
proof (cases k)
  case (Suc l)
  assume d: "0 < d" "1 \<le> i"
  have "(i - 1) div d = l \<longleftrightarrow> l * d \<le> i - 1 \<and> i - 1 < Suc l * d"
    using d(1) div_times_less_eq_dividend [of "i - 1" d] dividend_less_div_times [of d "i - 1"]
    by (auto intro!: div_nat_eqI simp: mult.commute)
  moreover have "l * d \<le> i - 1 \<longleftrightarrow> l * d < i" "i - 1 < Suc l * d \<longleftrightarrow> i \<le> Suc l * d" using d(2) by linarith+
  ultimately show ?thesis using Suc by auto
qed auto

lemma last_row_mono: "k \<le> l \<Longrightarrow> last_row n q k \<le> last_row n q l"
  unfolding last_row_def by (intro add_mono mult_le_mono1 min.mono) simp_all

lemma last_row_all: "0 < q \<Longrightarrow> last_row n q q = n"
  using mod_less_divisor [of q n] by (simp add: last_row_def min_absorb2)

lemma bucket_iff:
  assumes "1 \<le> i" "i \<le> n"
  shows "bucket n q i = k \<longleftrightarrow> last_row n q (k - 1) < i \<and> i \<le> last_row n q k"
proof -
  define s e where "s = n div q" and "e = n mod q"
  have lr: "last_row n q m = (if m \<le> e then m * (s + 1) else m * s + e)" for m
    by (simp add: last_row_def min_def s_def e_def algebra_simps)
  have le: "k * (s + 1) \<le> e * (s + 1)" if "k \<le> e" using that by (rule mult_le_mono1)
  have ge: "e * (s + 1) \<le> (k - 1) * s + e \<and> e * (s + 1) \<le> (k - 1) * (s + 1)" if "e < k"
  proof -
    have "e \<le> k - 1" using that by linarith
    then show ?thesis using mult_le_mono1 [of e "k - 1" s] mult_le_mono1 [of e "k - 1" "s + 1"]
      by (simp add: add_mult_distrib2 del: diff_mult_distrib)
  qed
  show ?thesis
  proof (cases "i \<le> e * (s + 1)")
    case True
    then have b: "bucket n q i = k \<longleftrightarrow> (k - 1) * (s + 1) < i \<and> i \<le> k * (s + 1)"
      using div_eq_interval [of "s + 1" i k] assms unfolding bucket_def s_def [symmetric] e_def [symmetric] by simp
    show ?thesis
    proof (cases "k \<le> e")
      case k: False
      then have "\<not> (k - 1) * (s + 1) < i" "\<not> last_row n q (k - 1) < i"
        using ge [unfolded not_le [symmetric], OF k] True unfolding lr not_less if_split [of "\<lambda>x. i \<le> x"]
        by (blast intro: le_trans)+
      then show ?thesis using b by blast
    qed (use b in \<open>cases k; simp add: lr\<close>)
  next
    case False
    then have "0 < s" using assms mod_div_mult_eq [of n q] unfolding s_def [symmetric] e_def [symmetric]
      by (cases "s = 0") simp_all
    then have b: "bucket n q i = k \<longleftrightarrow> (k - 1) * s < i - e \<and> i - e \<le> k * s"
      using div_eq_interval [of s "i - e" k] False unfolding bucket_def s_def [symmetric] e_def [symmetric]
      by (simp add: algebra_simps diff_diff_left)
    show ?thesis
    proof (cases "k \<le> e")
      case True
      then have "\<not> i \<le> last_row n q k" using le False unfolding lr by simp
      moreover have "k * s \<le> e * s" using True by (rule mult_le_mono1)
      then have "\<not> i - e \<le> k * s" using False unfolding add_mult_distrib2 by linarith
      ultimately show ?thesis using b by blast
    next
      case k: False
      then have "last_row n q k = k * s + e" "last_row n q (k - 1) = (k - 1) * s + e"
        by (auto simp: lr le_less_Suc_eq not_le algebra_simps)
      then show ?thesis unfolding b using False by (auto simp: algebra_simps)
    qed
  qed
qed

lemma bucket_range: "1 \<le> i \<Longrightarrow> i \<le> n \<Longrightarrow> 0 < q \<Longrightarrow> 1 \<le> bucket n q i \<and> bucket n q i \<le> q"
proof -
  assume i: "1 \<le> i" "i \<le> n" and q: "0 < q"
  have "last_row n q (bucket n q i - 1) < i" using bucket_iff [OF i] by blast
  then have "\<not> q \<le> bucket n q i - 1" using last_row_mono [of q "bucket n q i - 1" n q] i last_row_all [OF q, of n] by linarith
  then show ?thesis unfolding bucket_def by auto
qed

lemma bucket_mono: "1 \<le> i \<Longrightarrow> i \<le> j \<Longrightarrow> j \<le> n \<Longrightarrow> bucket n q i \<le> bucket n q j"
proof (rule ccontr)
  assume i: "1 \<le> i" "i \<le> j" "j \<le> n" and "\<not> bucket n q i \<le> bucket n q j"
  then have "last_row n q (bucket n q j) \<le> last_row n q (bucket n q i - 1)" by (intro last_row_mono) linarith
  moreover have "last_row n q (bucket n q i - 1) < i" "j \<le> last_row n q (bucket n q j)"
    using bucket_iff [of i n q] bucket_iff [of j n q] i by auto
  ultimately show False using i by linarith
qed

lemma bucket_size:
  assumes "0 < q" "1 \<le> k" "k \<le> q"
  shows "count_list (List.map (bucket n q) [1..<Suc n]) k = n div q + (if k \<le> n mod q then 1 else 0)"
proof -
  have "last_row n q k \<le> n" using last_row_mono [OF assms(3), of n q] last_row_all [OF assms(1), of n] by simp
  have "(i \<in> set [1..<Suc n] \<and> bucket n q i = k) \<longleftrightarrow> i \<in> {last_row n q (k - 1) <.. last_row n q k}" for i
  proof (cases "1 \<le> i \<and> i \<le> n")
    case True
    then have "i \<in> set [1..<Suc n]" by (simp del: upt_Suc)
    then show ?thesis using bucket_iff [of i n q k] True by (simp only: greaterThanAtMost_iff simp_thms)
  next
    case False
    then have "i \<notin> set [1..<Suc n]" by (auto simp del: upt_Suc)
    moreover have "\<not> (last_row n q (k - 1) < i \<and> i \<le> last_row n q k)" using False \<open>last_row n q k \<le> n\<close> by linarith
    ultimately show ?thesis by (simp only: greaterThanAtMost_iff simp_thms)
  qed
  then have "{i. k = bucket n q i} \<inter> set [1..<Suc n] = {last_row n q (k - 1) <.. last_row n q k}"
    by (intro set_eqI) (simp only: Int_iff mem_Collect_eq, metis)
  then have "count_list (List.map (bucket n q) [1..<Suc n]) k = last_row n q k - last_row n q (k - 1)"
    by (simp only: count_list_eq_length_filter filter_map length_map o_def distinct_length_filter [OF distinct_upt] card_greaterThanAtMost)
  also have "\<dots> = n div q + (if k \<le> n mod q then 1 else 0)"
    using assms(2) by (cases k) (auto simp: last_row_def min_def)
  finally show ?thesis .
qed

lemma unat_of_small: "a < 2 ^ 64 \<Longrightarrow> unat (of_nat a :: u64) = a"
  by (simp add: unat_of_nat take_bit_nat_eq_self)

lemma sint_of_small: "a < 2 ^ 63 \<Longrightarrow> sint (of_nat a :: u64) = int a"
  by (simp add: sint_uint unat_of_small uint_nat signed_take_bit_int_eq_self)

lemma word_div_small: "a < 2 ^ 64 \<Longrightarrow> b < 2 ^ 64 \<Longrightarrow> (of_nat a :: u64) div of_nat b = of_nat (a div b)"
  by (simp add: word_unat_eq_iff unat_div unat_of_small le_less_trans [OF div_le_dividend])

lemma ntile_val_bucket:
  assumes n: "n < 2 ^ 63" and q: "0 < q" "q < 2 ^ 63" and i: "1 \<le> i" "i \<le> n"
    and s: "partition_row_count s = of_nat n" "current_row_count s = of_nat i" "n_old_val s \<in> {0, of_nat q}"
  shows "ntile_val_int (of_nat q) s = ((of_nat (bucket n q i), False), s\<lparr>n_old_val := of_nat q, null_value := False\<rparr>)"
proof -
  define d e where "d = n div q" and "e = n mod q"
  have ne: "n = d * q + e" "e < q" using q by (auto simp: d_def e_def)
  have "e * d \<le> d * q" using ne(2) by (simp add: mult.commute)
  then have ed: "e * (d + 1) \<le> n" using ne by (simp add: algebra_simps)
  have pos: "\<not> (of_nat q :: u64) \<le>s 0" "(of_nat n :: u64) \<noteq> 0"
    using n q i by (auto simp: word_sle_eq sint_of_small word_unat_eq_iff unat_of_small)
  have qs: "(word_of_int (sint (of_nat n :: u64) sdiv sint (of_nat q :: u64)) :: u64) = of_nat d"
    using n q by (simp add: sint_of_small signed_divide_int_def d_def zdiv_int [symmetric] sgn_if)
  have ex: "(of_nat n :: u64) - of_nat d * of_nat q = of_nat e"
    by (simp add: ne(1) del: of_nat_mult flip: of_nat_mult)
  have cmp: "(of_nat i :: u64) \<le> of_nat e * (of_nat d + 1) \<longleftrightarrow> i \<le> e * (d + 1)"
  proof -
    have "(of_nat e * (of_nat d + 1) :: u64) = of_nat (e * (d + 1))" by (simp add: algebra_simps)
    moreover have "i < 2 ^ 64" "e * (d + 1) < 2 ^ 64" using n i ed le_less_trans [of _ n "2 ^ 63"] by auto
    ultimately show ?thesis by (simp only: word_le_nat_alt unat_of_small)
  qed
  have one: "(of_nat i :: u64) - 1 = of_nat (i - 1)" using i by (simp add: of_nat_diff)
  have d0: "d = 0 \<Longrightarrow> i \<le> e * (d + 1)" using i ne by simp
  have bound: "d + 1 < 2 ^ 64" "i < 2 ^ 64" "d < 2 ^ 64"
    using n i div_le_dividend [of n q] unfolding d_def [symmetric] by simp_all
  have first: "((of_nat i :: u64) - 1) div (of_nat d + 1) + 1 = of_nat ((i - 1) div (d + 1) + 1)"
  proof -
    have "(of_nat d + 1 :: u64) = of_nat (d + 1)" by simp
    then show ?thesis using bound by (simp only: one word_div_small) simp
  qed
  have second: "((of_nat i :: u64) - 1 - of_nat e) div of_nat d + 1 = of_nat ((i - 1 - e) div d + 1)" if "\<not> i \<le> e * (d + 1)"
  proof -
    have "e * 1 \<le> e * (d + 1)" by (intro mult_le_mono2) simp
    then have "e \<le> i - 1" using that by linarith
    then have "(of_nat i :: u64) - 1 - of_nat e = of_nat (i - 1 - e)" unfolding one by (rule of_nat_diff [symmetric])
    then show ?thesis using bound by (simp only: word_div_small) simp
  qed
  have guard: "\<not> ((of_nat q :: u64) \<le>s 0 \<or> of_nat q \<noteq> n_old_val s \<and> 0 < n_old_val s)" using pos(1) s(3) by auto
  let ?s = "s\<lparr>n_old_val := of_nat q, null_value := False\<rparr>"
  have sel: "partition_row_count ?s = of_nat n" "current_row_count ?s = of_nat i" using s by simp_all
  show ?thesis
  proof (cases "i \<le> e * (d + 1)")
    case True
    then have "bucket n q i = (i - 1) div (d + 1) + 1" by (simp add: bucket_def d_def e_def)
    then show ?thesis unfolding ntile_val_int_def get_row_count_def s(1) if_not_P [OF pos(2)] if_not_P [OF guard] Let_def
      using True by (simp only: cmp first sel qs ex if_True)
  next
    case False
    then have "bucket n q i = (i - 1 - e) div d + 1" by (simp add: bucket_def d_def e_def)
    then show ?thesis unfolding ntile_val_int_def get_row_count_def s(1) if_not_P [OF pos(2)] if_not_P [OF guard] Let_def
      using False by (simp only: cmp second [OF False] sel qs ex if_False)
  qed
qed

lemma ntile_run_buckets:
  assumes n: "n < 2 ^ 63" and q: "0 < q" "q < 2 ^ 63"
  shows "i + k \<le> n \<Longrightarrow> partition_row_count s = of_nat n \<Longrightarrow> current_row_count s = of_nat i \<Longrightarrow> n_old_val s \<in> {0, of_nat q} \<Longrightarrow>
    ntile_run k (of_nat q) s = List.map (\<lambda>j. (of_nat (bucket n q j), False)) [Suc i..<Suc (i + k)]"
proof (induction k arbitrary: i s)
  case (Suc k)
  let ?s = "s\<lparr>current_row_count := current_row_count s + 1\<rparr>"
  have "ntile_val_int (of_nat q) ?s = ((of_nat (bucket n q (Suc i)), False), ?s\<lparr>n_old_val := of_nat q, null_value := False\<rparr>)"
    using Suc.prems by (intro ntile_val_bucket [OF n q]) simp_all
  moreover have "ntile_run k (of_nat q) (?s\<lparr>n_old_val := of_nat q, null_value := False\<rparr>) =
      List.map (\<lambda>j. (of_nat (bucket n q j), False)) [Suc (Suc i)..<Suc (Suc i + k)]"
    using Suc.prems by (intro Suc.IH) simp_all
  moreover have "[Suc i..<Suc (i + Suc k)] = Suc i # [Suc (Suc i)..<Suc (Suc i + k)]" by (subst upt_conv_Cons) simp_all
  ultimately show ?case by (simp add: ntile_add_def del: upt_Suc)
qed simp

text \<open>
  C21. NTILE deals the rows of a partition into buckets: with \<open>n\<close> rows and the same positive argument
  \<open>q\<close> for all of them no row fails, the numbers of the rows are sorted and between 1 and \<open>q\<close>, and
  bucket \<open>b\<close> has \<open>n div q\<close> rows, one more if it is among the first \<open>n mod q\<close>.
\<close>
theorem ntile_buckets:
  assumes "n < 2 ^ 63" "0 < q" "q < 2 ^ 63"
  shows "\<exists>bs. ntile_run n (of_nat q) (set_partition_row_count (of_nat n) (ntile_clear s)) = List.map (\<lambda>b. (of_nat b, False)) bs \<and>
    length bs = n \<and> sorted bs \<and> set bs \<subseteq> {1..q} \<and>
    (\<forall>b\<in>{1..q}. count_list bs b = n div q + (if b \<le> n mod q then 1 else 0))"
proof (intro exI conjI)
  show "ntile_run n (of_nat q) (set_partition_row_count (of_nat n) (ntile_clear s)) =
      List.map (\<lambda>b. (of_nat b, False)) (List.map (bucket n q) [1..<Suc n])"
    using assms by (subst ntile_run_buckets [where i = 0 and n = n])
      (simp_all add: set_partition_row_count_def ntile_clear_def del: upt_Suc)
  show "sorted (List.map (bucket n q) [1..<Suc n])"
    by (auto simp: sorted_iff_nth_mono simp del: upt_Suc intro!: bucket_mono)
  show "set (List.map (bucket n q) [1..<Suc n]) \<subseteq> {1..q}"
    using bucket_range [of _ n q] assms(2) by (auto simp: less_Suc_eq_le simp del: upt_Suc)
  show "\<forall>b\<in>{1..q}. count_list (List.map (bucket n q) [1..<Suc n]) b = n div q + (if b \<le> n mod q then 1 else 0)"
    using bucket_size [OF assms(2)] by simp
qed simp

lemma ntile_buckets_witness:
  "\<exists>bs. ntile_run 5 (of_nat 2) (set_partition_row_count (of_nat 5) (ntile_clear \<lparr>partition_row_count = 9, current_row_count = 9, null_value = True, n_old_val = 9\<rparr>))
     = List.map (\<lambda>b. (of_nat b, False)) bs \<and> sorted bs \<and> count_list bs 1 = 3 \<and> count_list bs 2 = 2"
  using ntile_buckets [of 5 2 "\<lparr>partition_row_count = 9, current_row_count = 9, null_value = True, n_old_val = 9\<rparr>"]
  by (force simp del: ntile_run.simps)

subsection \<open>The row of a percentile\<close>

text \<open>
  The rows of a partition: what the argument and the item of the ORDER BY evaluate to. An error ends
  the run.
\<close>

fun add_rows :: "('a \<Rightarrow> 'b \<Rightarrow> 's \<Rightarrow> window_error option \<times> 's) \<Rightarrow> ('a \<times> 'b) list \<Rightarrow> 's \<Rightarrow> window_error option \<times> 's" where
  "add_rows add [] s = (None, s)"
| "add_rows add ((a, b) # rows) s = (case add a b s of (None, s) \<Rightarrow> add_rows add rows s | (Some e, s) \<Rightarrow> (Some e, s))"

lemma add_rows_invariant:
  assumes step: "\<And>j s. j < length rows \<Longrightarrow> P j s \<Longrightarrow> \<exists>t. add (fst (rows ! j)) (snd (rows ! j)) s = (None, t) \<and> P (Suc j) t"
  shows "P 0 s \<Longrightarrow> \<exists>t. add_rows add rows s = (None, t) \<and> P (length rows) t"
proof -
  have "j \<le> length rows \<Longrightarrow> P j s \<Longrightarrow> \<exists>t. add_rows add (drop j rows) s = (None, t) \<and> P (length rows) t" for j
  proof (induction "length rows - j" arbitrary: j s)
    case (Suc m)
    then have j: "j < length rows" by linarith
    obtain t where t: "add (fst (rows ! j)) (snd (rows ! j)) s = (None, t)" "P (Suc j) t" using step [OF j Suc.prems(2)] by blast
    then obtain u where "add_rows add (drop (Suc j) rows) t = (None, u)" "P (length rows) u" 
      using Suc.hyps(1) [of "Suc j" t] Suc.hyps(2) Suc_diff_Suc [OF j] j by (metis Suc_inject Suc_leI)
    moreover obtain a b where ab: "rows ! j = (a, b)" by fastforce
    moreover have "drop j rows = (a, b) # drop (Suc j) rows" using Cons_nth_drop_Suc [OF j] ab by simp
    ultimately show ?case using t(1) by simp
  qed simp
  from this [of 0] show "P 0 s \<Longrightarrow> ?thesis" by simp
qed

text \<open>
  The number of the row PERCENTILE_DISC takes: the first whose cumulative share, as a double, reaches
  \<open>p\<close>.
\<close>

definition share :: "nat \<Rightarrow> nat \<Rightarrow> double" where
  "share j n = round_double (of_nat j / of_nat n)"

definition disc_row :: "double \<Rightarrow> nat \<Rightarrow> nat" where
  "disc_row p n = (LEAST j. 1 \<le> j \<and> p \<le> share j n)"

lemma share_mono: "i \<le> j \<Longrightarrow> share i n \<le> share j n"
  unfolding share_def by (intro round_double_mono divide_right_mono) simp_all

lemma share_all: "0 < n \<Longrightarrow> share n n = 1"
  by (simp add: share_def)

lemma disc_row_range:
  assumes "p \<le> 1" "0 < n"
  shows "1 \<le> disc_row p n \<and> disc_row p n \<le> n" "p \<le> share (disc_row p n) n"
proof -
  have n: "1 \<le> n \<and> p \<le> share n n" using assms by (simp add: share_all)
  show "1 \<le> disc_row p n \<and> disc_row p n \<le> n" "p \<le> share (disc_row p n) n"
    unfolding disc_row_def using LeastI [of "\<lambda>j. 1 \<le> j \<and> p \<le> share j n", OF n] Least_le [of "\<lambda>j. 1 \<le> j \<and> p \<le> share j n", OF n]
    by blast+
qed

lemma disc_row_le: "p \<le> share j n \<longleftrightarrow> disc_row p n \<le> j" if "0 < n" "1 \<le> j" "p \<le> 1"
proof
  show "p \<le> share j n \<Longrightarrow> disc_row p n \<le> j" unfolding disc_row_def using that(2) by (intro Least_le) simp
  show "disc_row p n \<le> j \<Longrightarrow> p \<le> share j n"
    using disc_row_range(2) [OF that(3,1)] share_mono [of "disc_row p n" j n] by linarith
qed

text \<open>How far that row is from the exact share: it is never behind the first row with an exact share of \<open>p\<close>.\<close>

lemma powers: "(2 :: rat) ^ 52 = 4503599627370496" "(2 :: rat) ^ 53 = 9007199254740992" "(2 :: rat) ^ 54 = 18014398509481984"
  by simp_all

lemma disc_row_exact:
  assumes "is_double p" "0 \<le> p" "p \<le> 1" "0 < n"
  shows "int (disc_row p n) \<le> max 1 \<lceil>p * of_nat n\<rceil>" "p * of_nat n \<le> of_nat (disc_row p n) + of_nat n / 2 ^ 54"
proof -
  let ?r = "disc_row p n" and ?c = "nat (max 1 \<lceil>p * of_nat n\<rceil>)"
  have "p * of_nat n \<le> of_int \<lceil>p * of_nat n\<rceil>" by simp
  also have "\<dots> \<le> of_int (int ?c)" unfolding of_int_le_iff by (simp add: le_max_iff_disj)
  finally have "p * of_nat n \<le> of_nat ?c" by (simp only: of_int_of_nat_eq)
  then have "p \<le> of_nat ?c / of_nat n" using assms(4) by (simp add: pos_le_divide_eq)
  from round_double_mono [OF assms(2) this] have "p \<le> share ?c n" using assms(1) by (simp add: is_double_def share_def)
  then have "?r \<le> ?c" using disc_row_le [OF assms(4) _ assms(3), of ?c] by simp
  then show "int ?r \<le> max 1 \<lceil>p * of_nat n\<rceil>" by linarith
  have r: "1 \<le> ?r" "?r \<le> n" "p \<le> share ?r n" using disc_row_range [OF assms(3,4)] by simp_all
  have "0 \<le> (of_nat ?r / of_nat n :: rat)" "(of_nat ?r / of_nat n :: rat) \<le> 1" using r(2) assms(4) by simp_all
  from round_double_unit [OF this] have "p \<le> of_nat ?r / of_nat n + 1 / 2 ^ 54" using r(3) unfolding share_def abs_le_iff powers by linarith
  then have "p * of_nat n \<le> (of_nat ?r / of_nat n + 1 / 2 ^ 54) * of_nat n" by (rule mult_right_mono) simp
  then show "p * of_nat n \<le> of_nat ?r + of_nat n / 2 ^ 54" using assms(4) by (simp add: distrib_right)
qed

definition disc_inv :: "double \<Rightarrow> 'v list \<Rightarrow> nat \<Rightarrow> 'v percentile_disc \<Rightarrow> bool" where
  "disc_inv p xs j s \<longleftrightarrow>
     (let k = disc_row p (length xs) in
      partition_row_count s = of_nat (length xs) \<and> current_row_count s = of_nat (min j k) \<and>
      (pd_val_calculated s \<longleftrightarrow> k \<le> j) \<and> (pd_first_call s \<longleftrightarrow> j = 0) \<and>
      (0 < j \<longrightarrow> pd_prev_value s = p \<and> pd_value s = Some (xs ! (min j k - 1))))"

lemma disc_step:
  assumes xs: "length xs \<le> 2 ^ 53" and p: "0 \<le> p" "p \<le> 1" and j: "j < length xs" and inv: "disc_inv p xs j s"
  shows "\<exists>t. pd_add (Some p) (Some (xs ! j)) s = (None, t) \<and> disc_inv p xs (Suc j) t"
proof -
  define k where "k = disc_row p (length xs)"
  have n: "0 < length xs" using j by linarith
  have k: "1 \<le> k" unfolding k_def using disc_row_range(1) [OF p(2) n] by simp
  have u: "unat (of_nat (length xs) :: u64) = length xs" "unat (of_nat (Suc j) :: u64) = Suc j"
    using xs j by (auto intro!: unat_of_small simp del: of_nat_Suc)
  have nz: "(of_nat (length xs) :: u64) \<noteq> 0" using u(1) j by (metis length_0_conv less_nat_zero_code list.size(3) unat_0)
  have r: "round_double (of_nat (length xs)) = of_nat (length xs)" "round_double (of_nat (Suc j)) = of_nat (Suc j)"
    using xs j by (auto intro!: round_double_nat simp del: of_nat_Suc)
  have r1: "round_double (of_nat (Suc 0)) = of_nat (Suc 0)" by simp
  have val: "p \<le> round_double (of_nat (Suc j) / of_nat (length xs)) \<longleftrightarrow> k \<le> Suc j"
    using disc_row_le [OF n _ p(2), of "Suc j"] by (simp add: k_def share_def del: of_nat_Suc)
  show ?thesis
  proof (cases "k \<le> j")
    case True
    then show ?thesis using inv p j k unfolding disc_inv_def pd_add_def k_def [symmetric] by (simp add: min_def)
  next
    case False
    then have m: "min j k = j" "min (Suc j) k = Suc j" by simp_all
    have c: "(of_nat j :: u64) + 1 = of_nat (Suc j)" and c1: "of_nat (Suc 0) = (1 :: u64)" by simp_all
    show ?thesis using inv p j False nz val
      unfolding disc_inv_def pd_add_def k_def [symmetric] Let_def m calc_val_real_def
      by (cases "j = 0") (auto simp: c c1 u r r1 simp del: of_nat_Suc)
  qed
qed

text \<open>
  C22. PERCENTILE_DISC over the rows of a partition in order, at most \<open>2 ^ 53\<close> and none of them NULL,
  with the same double \<open>p\<close> as argument for all: if \<open>p\<close> is between 0 and 1 no row fails and the result
  is the value, read as its type, of the first row \<open>r\<close> whose share \<open>r / n\<close>, rounded to a double, is at
  least \<open>p\<close>. That row is not behind the first one whose exact share is at least \<open>p\<close>, and rounding puts
  it ahead only if \<open>p n\<close> exceeds \<open>r\<close> by no more than \<open>n / 2 ^ 54\<close>. Otherwise the first row raises an
  error.
\<close>
theorem percentile_disc_row:
  assumes "xs \<noteq> []" "length xs \<le> 2 ^ 53" "is_double p"
  shows "let (e, s) = add_rows pd_add (List.map (\<lambda>x. (Some p, Some x)) xs) (set_partition_row_count (of_nat (length xs)) (pd_clear s0));
      n = length xs
    in (if 0 \<le> p \<and> p \<le> 1
        then e = None \<and> (\<exists>r. 1 \<le> r \<and> r \<le> n \<and> p \<le> round_double (of_nat r / of_nat n) \<and>
          (\<forall>j. 1 \<le> j \<and> j < r \<longrightarrow> round_double (of_nat j / of_nat n) < p) \<and>
          int r \<le> max 1 \<lceil>p * of_nat n\<rceil> \<and> p * of_nat n \<le> of_nat r + of_nat n / 2 ^ 54 \<and>
          pd_val null_val read_as (Some p) s = (read_as (Some (xs ! (r - 1))), s\<lparr>null_value := False\<rparr>))
        else e = Some ER_ARGUMENT_OUT_OF_RANGE)"
proof (cases "0 \<le> p \<and> p \<le> 1")
  case True
  let ?s = "set_partition_row_count (of_nat (length xs)) (pd_clear s0)" and ?r = "disc_row p (length xs)"
  have n: "0 < length xs" using assms(1) by simp
  have p: "0 \<le> p" "p \<le> 1" using True by simp_all
  note r = disc_row_range [OF p(2) n] and ex = disc_row_exact [OF assms(3) p n]
  have first: "round_double (of_nat j / of_nat (length xs)) < p" if "1 \<le> j" "j < ?r" for j
    using disc_row_le [OF n that(1) p(2)] that(2) by (simp add: share_def not_le)
  have "disc_inv p xs 0 ?s" using r(1) by (simp add: disc_inv_def set_partition_row_count_def pd_clear_def)
  then obtain t where t: "add_rows pd_add (List.map (\<lambda>x. (Some p, Some x)) xs) ?s = (None, t)" "disc_inv p xs (length xs) t"
    using add_rows_invariant [of "List.map (\<lambda>x. (Some p, Some x)) xs" "disc_inv p xs" pd_add ?s] disc_step [OF assms(2) p] by auto
  have "unat (of_nat (length xs) :: u64) \<noteq> 0" using assms by (simp add: unat_of_small)
  moreover have "min (length xs) ?r = ?r" using r(1) by simp
  ultimately have "pd_val null_val read_as (Some p) t = (read_as (Some (xs ! (?r - 1))), t\<lparr>null_value := False\<rparr>)"
    using t(2) assms(1) by (auto simp: pd_val_def get_row_count_def disc_inv_def Let_def)
  then show ?thesis
    unfolding t(1) Let_def prod.case if_P [OF True] using r(1) r(2) [unfolded share_def] first ex by blast
next
  case False
  then show ?thesis using assms(1)
    by (cases xs) (auto simp: pd_add_def Let_def set_partition_row_count_def pd_clear_def split: prod.splits)
qed

text \<open>The position PERCENTILE_CONT takes and the value between the rows next to it.\<close>

definition cont_pos :: "double \<Rightarrow> nat \<Rightarrow> double" where
  "cont_pos p n = round_double (1 + round_double (p * of_nat (n - 1)))"

definition interpolate :: "double list \<Rightarrow> double \<Rightarrow> double" where
  "interpolate xs pos = (let f = nat \<lfloor>pos\<rfloor>; c = nat \<lceil>pos\<rceil>
     in if c = f then xs ! (f - 1)
        else round_double (round_double (round_double (pos - of_nat f) * xs ! (c - 1)) +
          round_double (round_double (of_nat c - pos) * xs ! (f - 1))))"

definition cont_inv :: "double \<Rightarrow> double list \<Rightarrow> nat \<Rightarrow> percentile_cont \<Rightarrow> bool" where
  "cont_inv p xs j s \<longleftrightarrow>
     (let f = nat \<lfloor>cont_pos p (length xs)\<rfloor>; c = nat \<lceil>cont_pos p (length xs)\<rceil> in
      partition_row_count s = of_nat (length xs) \<and> current_row_count s = of_nat j \<and>
      (pc_floor_calculated s \<longleftrightarrow> f \<le> j) \<and> (pc_ceil_calculated s \<longleftrightarrow> c \<le> j) \<and> (pc_first_call s \<longleftrightarrow> j = 0) \<and>
      (0 < j \<longrightarrow> pc_prev_value s = p) \<and> (f \<le> j \<longrightarrow> pc_floor_value s = Some (xs ! (f - 1))) \<and>
      (f < c \<and> c \<le> j \<longrightarrow> pc_ceil_value s = Some (xs ! (c - 1))))"

lemma cont_pos_range:
  assumes "0 \<le> p" "p \<le> 1" "1 \<le> n" "n \<le> 2 ^ 53"
  shows "1 \<le> \<lfloor>cont_pos p n\<rfloor>" "\<lceil>cont_pos p n\<rceil> \<le> int n" "\<lceil>cont_pos p n\<rceil> \<le> \<lfloor>cont_pos p n\<rfloor> + 1" "\<lfloor>cont_pos p n\<rfloor> \<le> \<lceil>cont_pos p n\<rceil>"
proof -
  define q :: rat where "q = of_nat (n - 1)"
  have q: "0 \<le> q" "1 + q = of_nat n" using assms(3) by (simp_all add: q_def of_nat_diff)
  have a: "0 \<le> p * q" "p * q \<le> q" using assms(1,2) q(1) mult_right_mono [of p 1 q] by simp_all
  have m: "round_double q = q" "round_double (of_nat n) = of_nat n"
    unfolding q_def using assms(4) by (intro round_double_nat; simp)+
  have b: "0 \<le> round_double (p * q)" "1 + round_double (p * q) \<le> of_nat n"
    using round_double_mono [OF a] round_double_nonneg [OF a(1)] m(1) q(2) by linarith+
  have "1 \<le> round_double (1 + round_double (p * q))" "round_double (1 + round_double (p * q)) \<le> of_nat n"
    using round_double_mono [of 1 "1 + round_double (p * q)"] round_double_mono [OF _ b(2)] b(1) m(2) by simp_all
  then have "1 \<le> cont_pos p n" "cont_pos p n \<le> of_nat n" by (simp_all only: cont_pos_def q_def)
  then show "1 \<le> \<lfloor>cont_pos p n\<rfloor>" "\<lceil>cont_pos p n\<rceil> \<le> int n" by (simp_all add: le_floor_iff ceiling_le_iff)
  show "\<lceil>cont_pos p n\<rceil> \<le> \<lfloor>cont_pos p n\<rfloor> + 1" by linarith
  show "\<lfloor>cont_pos p n\<rfloor> \<le> \<lceil>cont_pos p n\<rceil>" by linarith
qed

lemma two_errors:
  fixes z r y q :: rat
  assumes "\<bar>z - (1 + r)\<bar> \<le> (1 + r) / 2 ^ 53" "\<bar>r - y\<bar> \<le> y / 2 ^ 53 + 1 / 2 ^ 54" "r \<le> q" "y \<le> q"
  shows "\<bar>z - (1 + y)\<bar> \<le> (1 + q) / 2 ^ 52"
proof -
  have "\<bar>z - (1 + y)\<bar> = \<bar>(z - (1 + r)) + (r - y)\<bar>" by simp
  also have "\<dots> \<le> (1 + r) / 2 ^ 53 + (y / 2 ^ 53 + 1 / 2 ^ 54)"
    using abs_triangle_ineq [of "z - (1 + r)" "r - y"] assms(1,2) by linarith
  also have "\<dots> \<le> (1 + q) / 2 ^ 52" using assms(3,4) by (simp add: field_simps)
  finally show ?thesis .
qed

text \<open>The two roundings move the position by at most \<open>n / 2 ^ 52\<close>.\<close>

lemma cont_pos_error:
  assumes "0 \<le> p" "p \<le> 1" "1 \<le> n" "n \<le> 2 ^ 53"
  shows "\<bar>cont_pos p n - (1 + p * of_nat (n - 1))\<bar> \<le> of_nat n / 2 ^ 52"
proof -
  define q :: rat where "q = of_nat (n - 1)"
  have q: "0 \<le> q" "1 + q = of_nat n" using assms(3) by (simp_all add: q_def of_nat_diff)
  have a: "0 \<le> p * q" "p * q \<le> q" using assms(1,2) q(1) mult_right_mono [of p 1 q] by simp_all
  let ?r = "round_double (p * q)"
  have b: "0 \<le> ?r" by (rule round_double_nonneg [OF a(1)])
  have "(2 powi (- 1022) :: rat) \<le> 2 powi 0" by (rule powi_mono) simp
  then have "2 powi (- 1022) \<le> \<bar>1 + ?r\<bar>" using b by simp
  from round_double_relative [OF this] have eb: "\<bar>round_double (1 + ?r) - (1 + ?r)\<bar> \<le> (1 + ?r) / 2 ^ 53" using b by simp
  have ea: "\<bar>?r - p * q\<bar> \<le> p * q / 2 ^ 53 + 1 / 2 ^ 54" by (rule round_double_small [OF a(1)])
  have "round_double q = q" unfolding q_def using assms(4) by (intro round_double_nat) simp
  then have "?r \<le> q" using round_double_mono [OF a] by simp
  from two_errors [OF eb ea this a(2)] have "\<bar>round_double (1 + ?r) - (1 + p * q)\<bar> \<le> (1 + q) / 2 ^ 52" .
  then show ?thesis by (simp only: cont_pos_def q_def q(2) [unfolded q_def])
qed

lemma cont_rows:
  assumes "0 \<le> p" "p \<le> 1" "1 \<le> n" "n \<le> 2 ^ 53"
  shows "\<lfloor>cont_pos p n\<rfloor> = int (nat \<lfloor>cont_pos p n\<rfloor>)" "\<lceil>cont_pos p n\<rceil> = int (nat \<lceil>cont_pos p n\<rceil>)" "1 \<le> nat \<lfloor>cont_pos p n\<rfloor>"
    "nat \<lfloor>cont_pos p n\<rfloor> \<le> nat \<lceil>cont_pos p n\<rceil>" "nat \<lceil>cont_pos p n\<rceil> \<le> nat \<lfloor>cont_pos p n\<rfloor> + 1" "nat \<lceil>cont_pos p n\<rceil> \<le> n"
  using cont_pos_range [OF assms] by linarith+

lemma pc_position_rows:
  assumes "partition_row_count t = of_nat n" "pc_prev_value t = p" "1 \<le> n" "n \<le> 2 ^ 53"
  shows "pc_position t = cont_pos p n"
proof -
  have "sint (of_nat n :: u64) = int n" using assms(4) by (intro sint_of_small) simp
  moreover have "round_double (of_int (int n - 1)) = of_nat (n - 1)"
    using round_double_nat [of "n - 1"] assms(3,4) by (simp add: of_nat_diff)
  ultimately show ?thesis using assms(1,2) by (simp add: pc_position_def cont_pos_def get_row_count_def)
qed

lemma cont_step:
  assumes xs: "length xs \<le> 2 ^ 53" and p: "0 \<le> p" "p \<le> 1" and j: "j < length xs" and inv: "cont_inv p xs j s"
  shows "\<exists>t. pc_add (Some p) (Some (xs ! j)) s = (None, t) \<and> cont_inv p xs (Suc j) t"
proof -
  define f c where "f = nat \<lfloor>cont_pos p (length xs)\<rfloor>" and "c = nat \<lceil>cont_pos p (length xs)\<rceil>"
  have fc: "\<lfloor>cont_pos p (length xs)\<rfloor> = int f" "\<lceil>cont_pos p (length xs)\<rceil> = int c" "1 \<le> f" "f \<le> c" "c \<le> f + 1"
    unfolding f_def c_def using j by (intro cont_rows p xs; linarith)+
  have n: "sint (of_nat (length xs) :: u64) = int (length xs)" and u: "unat (of_nat (Suc j) :: u64) = Suc j"
    using xs j by (auto intro!: sint_of_small unat_of_small simp del: of_nat_Suc)
  have c1: "(of_nat j :: u64) + 1 = of_nat (Suc j)" by simp
  have pos: "pc_position t = cont_pos p (length xs)" if "partition_row_count t = of_nat (length xs)" "pc_prev_value t = p" for t
    using that xs j by (intro pc_position_rows) auto
  have fl: "round_double (of_nat (Suc j)) = of_int (int (Suc j))" using xs j by (simp add: round_double_nat del: of_nat_Suc)
  have fl1: "round_double (of_nat (Suc 0)) = of_int (int (Suc 0))" by simp
  have eq: "(of_int (int a) = (of_int (int b) :: rat)) \<longleftrightarrow> a = b" for a b by simp
  have c0: "of_nat (Suc 0) = (1 :: u64)" by simp
  note defs = cont_inv_def pc_add_def f_def [symmetric] c_def [symmetric] Let_def
  have i: "partition_row_count s = of_nat (length xs)" "current_row_count s = of_nat j" "pc_floor_calculated s \<longleftrightarrow> f \<le> j"
      "pc_ceil_calculated s \<longleftrightarrow> c \<le> j" "pc_first_call s \<longleftrightarrow> j = 0" "0 < j \<Longrightarrow> pc_prev_value s = p"
      "f \<le> j \<Longrightarrow> pc_floor_value s = Some (xs ! (f - 1))" "f < c \<Longrightarrow> c \<le> j \<Longrightarrow> pc_ceil_value s = Some (xs ! (c - 1))"
    using inv unfolding defs by auto
  consider "Suc j < f" | "Suc j = f" "c = f" | "Suc j = f" "c = Suc f" | "j = f" "c = Suc f" | "c \<le> j" using fc(3-5) by linarith
  then show ?thesis
  proof cases
    case 1
    then have "\<not> f \<le> j" "\<not> c \<le> j" "\<not> f \<le> Suc j" "\<not> c \<le> Suc j" "Suc j \<noteq> f" "Suc j \<noteq> c" using fc by linarith+
    then show ?thesis using i p unfolding defs
      by (cases "j = 0") (simp_all add: pos fc(1,2) get_row_number_def c1 c0 u fl fl1 eq del: of_nat_Suc of_int_of_nat_eq)
  next
    case 2
    then have "f = Suc j" "c = Suc j" using fc by linarith+
    then show ?thesis using i p unfolding defs
      by (cases "j = 0") (simp_all add: pos fc(1,2) get_row_number_def c1 c0 u fl fl1 eq del: of_nat_Suc of_int_of_nat_eq)
  next
    case 3
    then have "f = Suc j" "c = Suc (Suc j)" using fc by linarith+
    then show ?thesis using i p unfolding defs
      by (cases "j = 0") (simp_all add: pos fc(1,2) get_row_number_def c1 c0 u fl fl1 eq del: of_nat_Suc of_int_of_nat_eq)
  next
    case 4
    then have "c = Suc j" "f = j" "j \<noteq> 0" using fc by linarith+
    then show ?thesis using i p unfolding defs
      by (cases "j = 0") (simp_all add: pos fc(1,2) get_row_number_def c1 c0 u fl fl1 eq del: of_nat_Suc of_int_of_nat_eq)
  next
    case 5
    then have "f \<le> j" "c \<le> j" "f \<le> Suc j" "c \<le> Suc j" "j \<noteq> 0" using fc by linarith+
    then show ?thesis using i p unfolding defs
      by (cases "j = 0") (simp_all add: pos fc(1,2) get_row_number_def c1 c0 u fl fl1 eq del: of_nat_Suc of_int_of_nat_eq)
  qed
qed

lemma cont_value:
  assumes "cont_inv p xs (length xs) s" "0 \<le> p" "p \<le> 1" "xs \<noteq> []" "length xs \<le> 2 ^ 53"
  shows "pc_val_real null_real (Some p) s = (interpolate xs (cont_pos p (length xs)), s\<lparr>null_value := False\<rparr>)"
proof -
  let ?r = "cont_pos p (length xs)"
  define f c where "f = nat \<lfloor>?r\<rfloor>" and "c = nat \<lceil>?r\<rceil>"
  have n: "1 \<le> length xs" "0 < length xs" using assms(4) by (simp_all add: Suc_le_eq)
  have fc: "\<lfloor>?r\<rfloor> = int f" "\<lceil>?r\<rceil> = int c" "1 \<le> f" "f \<le> c" "c \<le> f + 1" "c \<le> length xs"
    unfolding f_def c_def by (intro cont_rows assms(2,3,5) n(1))+
  have s: "partition_row_count s = of_nat (length xs)" "pc_prev_value s = p" "pc_floor_value s = Some (xs ! (f - 1))"
      "f < c \<Longrightarrow> pc_ceil_value s = Some (xs ! (c - 1))"
    using assms(1,4) fc unfolding cont_inv_def f_def [symmetric] c_def [symmetric] Let_def by auto
  have pos: "pc_position (s\<lparr>null_value := False\<rparr>) = ?r"
    using s n(1) assms(5) by (intro pc_position_rows) simp_all
  have "unat (of_nat (length xs) :: u64) \<noteq> 0" using n(2) assms(5) by (simp add: unat_of_small)
  then have nz: "(of_nat (length xs) :: u64) \<noteq> 0" by (metis unat_0)
  have i: "interpolate xs ?r = (if c = f then xs ! (f - 1)
      else round_double (round_double (round_double (?r - of_nat f) * xs ! (c - 1)) +
        round_double (round_double (of_nat c - ?r) * xs ! (f - 1))))"
    by (simp add: interpolate_def Let_def f_def c_def)
  show ?thesis
  proof (cases "f = c")
    case True
    then show ?thesis using s nz pos i fc(1,2) by (simp add: pc_val_real_def get_row_count_def Let_def cache_real_def)
  next
    case False
    then have "f < c" using fc by auto
    then show ?thesis using s nz pos i fc(1,2) by (simp add: pc_val_real_def get_row_count_def Let_def cache_real_def)
  qed
qed

text \<open>
  C23. PERCENTILE_CONT over the rows of a partition in order, \<open>n\<close> of them, at most \<open>2 ^ 53\<close> and none
  NULL, with the same double \<open>p\<close> as argument for all: if \<open>p\<close> is between 0 and 1 no row fails. The
  position is \<open>1 + p (n - 1)\<close>, rounded after the multiplication and after the addition, which moves it
  by at most \<open>n / 2 ^ 52\<close> and keeps it between 1 and \<open>n\<close>; if it is a whole number the result is the
  value of that row, and otherwise the linear interpolation between the rows \<open>f\<close> and \<open>c = f + 1\<close> next
  to it, with every operation rounded. If \<open>p\<close> is not between 0 and 1 the first row raises an error.
\<close>
theorem percentile_cont_interpolates:
  assumes "xs \<noteq> []" "length xs \<le> 2 ^ 53"
  shows "let (e, s) = add_rows pc_add (List.map (\<lambda>x. (Some p, Some x)) xs) (set_partition_row_count (of_nat (length xs)) (pc_clear s0));
      n = length xs; pos = round_double (1 + round_double (p * of_nat (n - 1))); f = nat \<lfloor>pos\<rfloor>; c = nat \<lceil>pos\<rceil>
    in (if 0 \<le> p \<and> p \<le> 1
        then e = None \<and> \<bar>pos - (1 + p * of_nat (n - 1))\<bar> \<le> of_nat n / 2 ^ 52 \<and> 1 \<le> f \<and> f \<le> c \<and> c \<le> f + 1 \<and> c \<le> n \<and>
          pc_val_real null_real (Some p) s =
            (if c = f then xs ! (f - 1)
             else round_double (round_double (round_double (pos - of_nat f) * xs ! (c - 1)) +
               round_double (round_double (of_nat c - pos) * xs ! (f - 1))), s\<lparr>null_value := False\<rparr>)
        else e = Some ER_ARGUMENT_OUT_OF_RANGE)"
proof (cases "0 \<le> p \<and> p \<le> 1")
  case True
  let ?s = "set_partition_row_count (of_nat (length xs)) (pc_clear s0)"
  have n: "1 \<le> length xs" using assms(1) by (simp add: Suc_le_eq)
  have p: "0 \<le> p" "p \<le> 1" using True by simp_all
  note rows = cont_rows [OF p n assms(2)] and err = cont_pos_error [OF p n assms(2)]
  have "0 < nat \<lfloor>cont_pos p (length xs)\<rfloor>" "0 < nat \<lceil>cont_pos p (length xs)\<rceil>" using rows by linarith+
  then have "cont_inv p xs 0 ?s" by (simp add: cont_inv_def Let_def set_partition_row_count_def pc_clear_def)
  then obtain t where t: "add_rows pc_add (List.map (\<lambda>x. (Some p, Some x)) xs) ?s = (None, t)" "cont_inv p xs (length xs) t"
    using add_rows_invariant [of "List.map (\<lambda>x. (Some p, Some x)) xs" "cont_inv p xs" pc_add ?s] cont_step [OF assms(2) p] by auto
  note val = cont_value [OF t(2) p assms, of null_real, unfolded interpolate_def Let_def]
  show ?thesis
    unfolding t(1) Let_def prod.case if_P [OF True] cont_pos_def [symmetric]
    by (intro conjI refl err rows(3-6) val)
next
  case False
  then show ?thesis using assms(1)
    by (cases xs) (auto simp: pc_add_def Let_def set_partition_row_count_def pc_clear_def split: prod.splits)
qed

text \<open>
  Rounding shows: the double next to one tenth takes row 1 of ten rows, although its exact product with 10
  is above 1, and the one next to 0.29 ends between two of 101 rows, although 1 + 0.29 * 100 is 30.
\<close>

lemma percentile_disc_row_witness:
  "let (e, s) = add_rows pd_add (List.map (\<lambda>x. (Some (round_double (1 / 10)), Some x)) (List.map int [1..<11])) (set_partition_row_count (of_nat 10)
      (pd_clear \<lparr>partition_row_count = 0, current_row_count = 0, null_value = True, pd_value = None, pd_val_calculated = False,
        pd_first_call = True, pd_prev_value = 0\<rparr>))
   in e = None \<and> fst (pd_val 0 the (Some (round_double (1 / 10))) s) = 1"
proof -
  let ?p = "round_double (1 / 10)"
  have d: "is_double ?p" unfolding is_double_def by code_simp
  have p: "0 \<le> ?p \<and> ?p \<le> 1" unfolding round_double_tenth by simp
  have l: "length (List.map int [1..<11]) = 10" by simp
  note t = percentile_disc_row [of "List.map int [1..<11]" ?p "\<lparr>partition_row_count = 0, current_row_count = 0, null_value = True, pd_value = None, pd_val_calculated = False,
        pd_first_call = True, pd_prev_value = 0\<rparr>" 0 the, OF _ _ d, unfolded if_P [OF p] l]
  have one: "r = 1" if "1 \<le> r" "\<forall>j. 1 \<le> j \<and> j < r \<longrightarrow> round_double (of_nat j / of_nat 10) < ?p" for r :: nat
    using that(1) that(2) [rule_format, of 1] by (cases "r = 1") simp_all
  show ?thesis using t one by (fastforce simp: Let_def split: prod.splits simp del: add_rows.simps upt_rec_numeral)
qed

lemma percentile_cont_interpolates_witness:
  "let (e, s) = add_rows pc_add (List.map (\<lambda>x. (Some (1 / 4), Some x)) [10, 20, 30]) (set_partition_row_count (of_nat 3)
      (pc_clear \<lparr>partition_row_count = 0, current_row_count = 0, null_value = True, pc_floor_value = None, pc_ceil_value = None,
        pc_first_call = True, pc_prev_value = 0, pc_floor_calculated = False, pc_ceil_calculated = False\<rparr>))
   in e = None \<and> fst (pc_val_real 0 (Some (1 / 4)) s) = 15"
proof -
  have r: "round_double (1 / 2) = 1 / 2" "round_double (3 / 2) = 3 / 2" "round_double 5 = 5" "round_double 10 = 10" "round_double 15 = 15"
    by code_simp+
  have "\<lfloor>3 / 2 :: rat\<rfloor> = 1" "\<lceil>3 / 2 :: rat\<rceil> = 2" by (simp_all add: floor_eq_iff ceiling_eq_iff)
  then show ?thesis
    using percentile_cont_interpolates [of "[10, 20, 30]" "1 / 4" "\<lparr>partition_row_count = 0, current_row_count = 0, null_value = True,
        pc_floor_value = None, pc_ceil_value = None, pc_first_call = True, pc_prev_value = 0, pc_floor_calculated = False,
        pc_ceil_calculated = False\<rparr>" 0]
    by (auto simp: Let_def r split: prod.splits simp del: add_rows.simps)
qed

lemma percentile_cont_rounds:
  "round_double (1 + round_double (round_double (29 / 100) * of_nat (101 - 1))) < 30"
  by code_simp

subsection \<open>Groups and phases\<close>

text \<open>The answers of a tracker over the rows, the first of which starts a group.\<close>

fun group_starts :: "('c \<Rightarrow> 'r \<Rightarrow> int \<times> 'c) \<Rightarrow> 'r list \<Rightarrow> 'c group_tracker \<Rightarrow> bool list" where
  "group_starts t [] g = []"
| "group_starts t (row # rows) g = (let (b, g) = check_if_next_group t row g in b # group_starts t rows g)"

lemma group_starts_compare:
  assumes t: "\<And>c row. snd (t c row) = key row" "\<And>c row. fst (t c row) = - 1 \<longleftrightarrow> c = key row" "\<And>c row. - 1 \<le> fst (t c row)"
  shows "group_starts t rows (gt_init g) = map2 (\<lambda>prev row. prev \<noteq> Some (key row)) (None # List.map (Some \<circ> key) rows) rows"
proof -
  have "- 1 < fst (t c row) \<longleftrightarrow> c \<noteq> key row" for c row using t(2,3) [of c row] by (metis order.strict_iff_order)
  then have step: "check_if_next_group t row g = (gt_first_check g \<or> gt_fields g \<noteq> key row, g\<lparr>gt_fields := key row, gt_first_check := False\<rparr>)" for row g
    using t(1) by (auto simp: check_if_next_group_def Let_def case_prod_beta)
  have flags: "\<not> gt_first_check g \<Longrightarrow> group_starts t rows g = map2 (\<lambda>prev row. prev \<noteq> Some (key row)) (Some (gt_fields g) # List.map (Some \<circ> key) rows) rows" for g rows
    by (induction rows arbitrary: g) (auto simp: step)
  show ?thesis by (cases rows) (simp_all add: step gt_init_def flags)
qed

lemma compare_with_cache_equal: "compare_with_cache rs = 0 \<longleftrightarrow> (\<forall>r\<in>set rs. r = 0)"
  by (induction rs rule: compare_with_cache.induct) auto

lemma cume_dist_after_rows:
  assumes "0 < n" "j \<le> n" "n \<le> 2 ^ 53" "partition_row_count s = of_nat n" "current_row_count s + 1 = of_nat j"
  shows "fst (cume_dist_val_real (snd (cume_dist_add s))) = share j n"
proof -
  have u: "unat (of_nat n :: u64) = n" "unat (of_nat j :: u64) = j" using assms(2,3) by (intro unat_of_small; simp)+
  then have "(of_nat n :: u64) \<noteq> 0" using assms(1) by (metis less_numeral_extra(3) unat_0)
  then show ?thesis
    using assms u by (simp add: cume_dist_val_real_def calc_val_real_def cume_dist_add_def share_def Let_def round_double_nat)
qed

text \<open>The value a query reads is the one that was stored in the computation; the placeholder before is NULL.\<close>

lemma window_item_phases:
  "wi_val_int field func (set_phase_to_initial s) = (0, (set_phase_to_initial s)\<lparr>wi_null_value := True\<rparr>)"
  "wi_val_int field func (set_phase_to_computation s) = (fst func, (set_phase_to_computation s)\<lparr>wi_null_value := snd func\<rparr>)"
  "wi_val_int field func (set_phase_to_retrieval s) = (fst field, (set_phase_to_retrieval s)\<lparr>wi_null_value := snd field\<rparr>)"
  "wi_is_null fn wn (set_phase_to_initial s)" "wi_is_null fn wn (set_phase_to_retrieval s) \<longleftrightarrow> fn"
  by (simp_all add: wi_val_int_def wi_val_number_def wi_is_null_def set_phase_to_initial_def set_phase_to_computation_def
      set_phase_to_retrieval_def)

lemma window_function_kinds:
  "is_aggr_sum_func f \<Longrightarrow> \<not> is_frame_prohibited f \<and> \<not> requires_special_cursors f"
  "requires_partition_size f \<Longrightarrow> is_frame_prohibited f" "only_single_element_order_list f \<Longrightarrow> is_order_list_mandatory f"
  by (cases f; simp add: is_aggr_sum_func_def is_frame_prohibited_def requires_special_cursors_def requires_partition_size_def
      only_single_element_order_list_def is_order_list_mandatory_def)+

end
