(* ===== verification/Lex_Stream.thy ===== *)
theory Lex_Stream
  imports Prelude
begin

text \<open>
  \<open>Lex_input_stream\<close> of \<open>sql_lex.h\<close>: the query text and, in parallel, the text after preprocessing,
  without the comments that are to be discarded. Pointers into the two buffers are positions; reading
  or writing outside a buffer, like a failed assertion, is \<open>None\<close>. The members that convert tokens to
  UTF-8 and the scanner itself are in \<open>sql_lex.cc\<close>. The lemmas show that the preprocessed text is the
  characters accepted with echo, in order, that ungetting is exact under the rule the comments state,
  and that a preprocessed buffer as long as the query is never overrun.
\<close>

subsection \<open>The stream\<close>

datatype comment_state = NO_COMMENT | PRESERVE_COMMENT | DISCARD_COMMENT

record lex_stream =
  lx_raw :: "u8 list"
  lx_ptr :: nat
  lx_tok_start :: nat
  lx_tok_end :: nat
  lx_end_of_query :: nat
  lx_tok_start_prev :: nat
  lx_echo :: bool
  lx_echo_saved :: bool
  lx_cpp :: "u8 list"
  lx_cpp_ptr :: nat
  lx_cpp_tok_start :: nat
  lx_cpp_tok_start_prev :: nat
  lx_cpp_tok_end :: nat
  lx_lookahead :: int
  lx_in_comment :: comment_state
  lx_in_comment_saved :: comment_state

definition set_echo :: "bool \<Rightarrow> lex_stream \<Rightarrow> lex_stream" where
  "set_echo e s = s\<lparr>lx_echo := e\<rparr>"

definition save_in_comment_state :: "lex_stream \<Rightarrow> lex_stream" where
  "save_in_comment_state s = s\<lparr>lx_echo_saved := lx_echo s, lx_in_comment_saved := lx_in_comment s\<rparr>"

definition restore_in_comment_state :: "lex_stream \<Rightarrow> lex_stream" where
  "restore_in_comment_state s = s\<lparr>lx_echo := lx_echo_saved s, lx_in_comment := lx_in_comment_saved s\<rparr>"

text \<open>Writing \<open>bs\<close> at the current position of the preprocessed buffer.\<close>

definition put_cpp :: "u8 list \<Rightarrow> lex_stream \<Rightarrow> lex_stream option" where
  "put_cpp bs s =
     guard (lx_cpp_ptr s + length bs \<le> length (lx_cpp s))
       (s\<lparr>lx_cpp := take (lx_cpp_ptr s) (lx_cpp s) @ bs @ drop (lx_cpp_ptr s + length bs) (lx_cpp s),
          lx_cpp_ptr := lx_cpp_ptr s + length bs\<rparr>)"

definition yyGet :: "lex_stream \<Rightarrow> (u8 \<times> lex_stream) option" where
  "yyGet s =
     (if lx_ptr s < length (lx_raw s) then
        let c = lx_raw s ! lx_ptr s; s = s\<lparr>lx_ptr := lx_ptr s + 1\<rparr> in
        map_option (\<lambda>s. (c, s)) (if lx_echo s then put_cpp [c] s else Some s)
      else None)"

definition yyGetLast :: "lex_stream \<Rightarrow> u8 option" where
  "yyGetLast s = guard (0 < lx_ptr s \<and> lx_ptr s \<le> length (lx_raw s)) (lx_raw s ! (lx_ptr s - 1))"

definition yyPeek :: "lex_stream \<Rightarrow> u8 option" where
  "yyPeek s = guard (lx_ptr s < length (lx_raw s)) (lx_raw s ! lx_ptr s)"

definition yyPeekn :: "nat \<Rightarrow> lex_stream \<Rightarrow> u8 option" where
  "yyPeekn n s = guard (lx_ptr s + n < length (lx_raw s)) (lx_raw s ! (lx_ptr s + n))"

definition yyUnget :: "lex_stream \<Rightarrow> lex_stream option" where
  "yyUnget s =
     guard (0 < lx_ptr s \<and> (\<not> lx_echo s \<or> 0 < lx_cpp_ptr s))
       (let s = s\<lparr>lx_ptr := lx_ptr s - 1\<rparr> in if lx_echo s then s\<lparr>lx_cpp_ptr := lx_cpp_ptr s - 1\<rparr> else s)"

definition yySkip :: "lex_stream \<Rightarrow> lex_stream option" where
  "yySkip s =
     (if lx_echo s
      then if lx_ptr s < length (lx_raw s)
        then map_option (\<lambda>s'. s'\<lparr>lx_ptr := lx_ptr s + 1\<rparr>) (put_cpp [lx_raw s ! lx_ptr s] s) else None
      else Some (s\<lparr>lx_ptr := lx_ptr s + 1\<rparr>))"

definition yySkipn :: "nat \<Rightarrow> lex_stream \<Rightarrow> lex_stream option" where
  "yySkipn n s =
     map_option (\<lambda>s. s\<lparr>lx_ptr := lx_ptr s + n\<rparr>)
       (if lx_echo s
        then if lx_ptr s + n \<le> length (lx_raw s) then put_cpp (take n (drop (lx_ptr s) (lx_raw s))) s else None
        else Some s)"

definition skip_binary :: "nat \<Rightarrow> lex_stream \<Rightarrow> lex_stream option" where
  "skip_binary n s =
     map_option (\<lambda>s. s\<lparr>lx_ptr := lx_ptr s + n\<rparr>)
       (if lx_echo s
        then if lx_ptr s + n \<le> length (lx_raw s) then put_cpp (take n (drop (lx_ptr s) (lx_raw s))) s else None
        else Some s)"

definition yyUnput :: "u8 \<Rightarrow> lex_stream \<Rightarrow> lex_stream option" where
  "yyUnput ch s =
     guard (0 < lx_ptr s \<and> lx_ptr s \<le> length (lx_raw s) \<and> (\<not> lx_echo s \<or> 0 < lx_cpp_ptr s))
       (let s = s\<lparr>lx_raw := (lx_raw s)[lx_ptr s - 1 := ch], lx_ptr := lx_ptr s - 1\<rparr> in
        if lx_echo s then s\<lparr>lx_cpp_ptr := lx_cpp_ptr s - 1\<rparr> else s)"

definition lx_eof_n :: "nat \<Rightarrow> lex_stream \<Rightarrow> bool" where
  "lx_eof_n n s \<longleftrightarrow> lx_ptr s + n \<ge> lx_end_of_query s"

definition lx_eof :: "lex_stream \<Rightarrow> bool" where
  "lx_eof s \<longleftrightarrow> lx_ptr s \<ge> lx_end_of_query s"

definition start_token :: "lex_stream \<Rightarrow> lex_stream" where
  "start_token s =
     s\<lparr>lx_tok_start_prev := lx_tok_start s, lx_tok_start := lx_ptr s, lx_tok_end := lx_ptr s,
       lx_cpp_tok_start_prev := lx_cpp_tok_start s, lx_cpp_tok_start := lx_cpp_ptr s, lx_cpp_tok_end := lx_cpp_ptr s\<rparr>"

definition restart_token :: "lex_stream \<Rightarrow> lex_stream" where
  "restart_token s = s\<lparr>lx_tok_start := lx_ptr s, lx_cpp_tok_start := lx_cpp_ptr s\<rparr>"

definition yyLength :: "lex_stream \<Rightarrow> u32 option" where
  "yyLength s = guard (lx_ptr s > lx_tok_start s) (of_nat (lx_ptr s - lx_tok_start s - 1))"

definition has_lookahead :: "lex_stream \<Rightarrow> bool" where
  "has_lookahead s \<longleftrightarrow> lx_lookahead s \<ge> 0"

definition get_tok_start :: "lex_stream \<Rightarrow> nat" where
  "get_tok_start s = (if has_lookahead s then lx_tok_start_prev s else lx_tok_start s)"

definition get_cpp_tok_start :: "lex_stream \<Rightarrow> nat" where
  "get_cpp_tok_start s = (if has_lookahead s then lx_cpp_tok_start_prev s else lx_cpp_tok_start s)"

text \<open>The two loops that go back over spaces; \<open>isspace\<close> is \<open>my_isspace (system_charset_info, .)\<close>.\<close>

fun rtrim_from :: "(u8 \<Rightarrow> bool) \<Rightarrow> u8 list \<Rightarrow> nat \<Rightarrow> nat" where
  "rtrim_from isspace cpp 0 = 0"
| "rtrim_from isspace cpp (Suc p) = (if isspace (cpp ! p) then rtrim_from isspace cpp p else Suc p)"

definition get_cpp_tok_end_rtrim :: "(u8 \<Rightarrow> bool) \<Rightarrow> lex_stream \<Rightarrow> nat" where
  "get_cpp_tok_end_rtrim isspace s = rtrim_from isspace (lx_cpp s) (lx_cpp_tok_end s)"

definition get_cpp_ptr_rtrim :: "(u8 \<Rightarrow> bool) \<Rightarrow> lex_stream \<Rightarrow> nat" where
  "get_cpp_ptr_rtrim isspace s = rtrim_from isspace (lx_cpp s) (lx_cpp_ptr s)"

lemmas lex_defs = set_echo_def save_in_comment_state_def restore_in_comment_state_def put_cpp_def yyGet_def yyUnget_def
  yySkip_def yySkipn_def skip_binary_def yyUnput_def start_token_def restart_token_def

subsection \<open>The text that was accepted\<close>

text \<open>
  The abstract stream: what was accepted, each character with the echo mode it was accepted under, and
  the modes. Going back requires the echo mode of the character that is given back, as the comments ask.
\<close>

record reading =
  rd_raw :: "u8 list"
  rd_done :: "(bool \<times> u8) list"
  rd_echo :: bool
  rd_saved :: bool

definition echoed :: "(bool \<times> u8) list \<Rightarrow> u8 list" where
  "echoed h = map snd (filter fst h)"

datatype lex_op = Get | Skip | Skipn nat | Skip_binary nat | Unget | Unput u8 | Echo bool | Save | Restore | Start | Restart

fun lex_step :: "lex_op \<Rightarrow> lex_stream \<Rightarrow> lex_stream option" where
  "lex_step Get s = map_option snd (yyGet s)"
| "lex_step Skip s = yySkip s"
| "lex_step (Skipn n) s = yySkipn n s"
| "lex_step (Skip_binary n) s = skip_binary n s"
| "lex_step Unget s = yyUnget s"
| "lex_step (Unput c) s = yyUnput c s"
| "lex_step (Echo e) s = Some (set_echo e s)"
| "lex_step Save s = Some (save_in_comment_state s)"
| "lex_step Restore s = Some (restore_in_comment_state s)"
| "lex_step Start s = Some (start_token s)"
| "lex_step Restart s = Some (restart_token s)"

definition accept :: "nat \<Rightarrow> reading \<Rightarrow> reading option" where
  "accept n r = guard (length (rd_done r) + n \<le> length (rd_raw r))
     (r\<lparr>rd_done := rd_done r @ map (\<lambda>c. (rd_echo r, c)) (take n (drop (length (rd_done r)) (rd_raw r)))\<rparr>)"

definition give_back :: "reading \<Rightarrow> reading option" where
  "give_back r = guard (rd_done r \<noteq> [] \<and> fst (last (rd_done r)) = rd_echo r) (r\<lparr>rd_done := butlast (rd_done r)\<rparr>)"

fun read_step :: "lex_op \<Rightarrow> reading \<Rightarrow> reading option" where
  "read_step Get r = accept 1 r"
| "read_step Skip r = accept 1 r"
| "read_step (Skipn n) r = accept n r"
| "read_step (Skip_binary n) r = accept n r"
| "read_step Unget r = give_back r"
| "read_step (Unput c) r = map_option (\<lambda>r'. r'\<lparr>rd_raw := (rd_raw r)[length (rd_done r) - 1 := c]\<rparr>) (give_back r)"
| "read_step (Echo e) r = Some (r\<lparr>rd_echo := e\<rparr>)"
| "read_step Save r = Some (r\<lparr>rd_saved := rd_echo r\<rparr>)"
| "read_step Restore r = Some (r\<lparr>rd_echo := rd_saved r\<rparr>)"
| "read_step Start r = Some r"
| "read_step Restart r = Some r"

fun run_ops :: "('o \<Rightarrow> 's \<Rightarrow> 's option) \<Rightarrow> 'o list \<Rightarrow> 's \<Rightarrow> 's option" where
  "run_ops f [] s = Some s"
| "run_ops f (a # as) s = Option.bind (f a s) (run_ops f as)"

definition reads :: "lex_stream \<Rightarrow> reading \<Rightarrow> bool" where
  "reads s r \<longleftrightarrow> lx_raw s = rd_raw r \<and> lx_echo s = rd_echo r \<and> lx_echo_saved s = rd_saved r \<and>
     lx_ptr s = length (rd_done r) \<and> length (rd_done r) \<le> length (rd_raw r) \<and>
     map snd (rd_done r) = take (lx_ptr s) (lx_raw s) \<and>
     lx_cpp_ptr s = length (echoed (rd_done r)) \<and> take (lx_cpp_ptr s) (lx_cpp s) = echoed (rd_done r) \<and>
     length (lx_raw s) \<le> length (lx_cpp s)"

subsection \<open>The stream implements the reading\<close>

lemma echoed_append [simp]: "echoed (h @ g) = echoed h @ echoed g"
  by (simp add: echoed_def)

lemma echoed_uniform: "echoed (map (\<lambda>c. (e, c)) cs) = (if e then cs else [])"
  by (induction cs) (auto simp: echoed_def)

lemma echoed_length: "length (echoed h) \<le> length h"
  by (simp add: echoed_def)

lemma put_cpp_reads:
  assumes "reads s r" "length (rd_done r) + n \<le> length (rd_raw r)" "rd_echo r"
    and "bs = take n (drop (length (rd_done r)) (rd_raw r))"
  shows "\<exists>s1. put_cpp bs s = Some s1 \<and> lx_cpp_ptr s1 = lx_cpp_ptr s + n \<and>
    take (lx_cpp_ptr s1) (lx_cpp s1) = echoed (rd_done r) @ bs \<and> length (lx_cpp s1) = length (lx_cpp s) \<and>
    s1 = s\<lparr>lx_cpp := lx_cpp s1, lx_cpp_ptr := lx_cpp_ptr s1\<rparr>"
proof -
  have len: "length bs = n" using assms(2,4) by simp
  have fit: "lx_cpp_ptr s + n \<le> length (lx_cpp s)"
    using assms(1,2) echoed_length [of "rd_done r"] by (auto simp: reads_def)
  have "take (lx_cpp_ptr s) (lx_cpp s) = echoed (rd_done r)" using assms(1) unfolding reads_def by blast
  moreover have "lx_cpp_ptr s = length (echoed (rd_done r))" using assms(1) unfolding reads_def by blast
  ultimately show ?thesis using fit len by (simp add: put_cpp_def)
qed

lemma accept_reads:
  assumes "reads s r" "accept n r = Some r'"
    and "if rd_echo r then put_cpp (take n (drop (length (rd_done r)) (rd_raw r))) s = Some s1 else s1 = s"
  shows "reads (s1\<lparr>lx_ptr := lx_ptr s + n\<rparr>) r'"
proof -
  let ?bs = "take n (drop (length (rd_done r)) (rd_raw r))"
  have n: "length (rd_done r) + n \<le> length (rd_raw r)"
    and r': "r' = r\<lparr>rd_done := rd_done r @ map (\<lambda>c. (rd_echo r, c)) ?bs\<rparr>"
    using assms(2) by (simp_all add: accept_def)
  have bs: "length ?bs = n" using n by simp
  have split: "take (length (rd_done r) + n) (rd_raw r) = take (length (rd_done r)) (rd_raw r) @ ?bs"
    by (rule take_add)
  show ?thesis
  proof (cases "rd_echo r")
    case True
    obtain s2 where s2: "put_cpp ?bs s = Some s2" "lx_cpp_ptr s2 = lx_cpp_ptr s + n"
      "take (lx_cpp_ptr s2) (lx_cpp s2) = echoed (rd_done r) @ ?bs" "length (lx_cpp s2) = length (lx_cpp s)"
      "s2 = s\<lparr>lx_cpp := lx_cpp s2, lx_cpp_ptr := lx_cpp_ptr s2\<rparr>"
      using put_cpp_reads [OF assms(1) n True refl] by blast
    then have "s1 = s2" using assms(3) True by simp
    obtain c p where s2': "s2 = s\<lparr>lx_cpp := c, lx_cpp_ptr := p\<rparr>" using s2(5) by blast
    show ?thesis
      using assms(1) True n split s2(2-4) bs unfolding \<open>s1 = s2\<close> s2' r'
      by (auto simp: reads_def echoed_uniform comp_def)
  next
    case False
    then show ?thesis using assms(1,3) n split bs unfolding r'
      by (auto simp: reads_def echoed_uniform comp_def)
  qed
qed

lemma accept_step:
  assumes "reads s r" "accept n r = Some r'"
  shows "\<exists>s'. yySkipn n s = Some s' \<and> reads s' r'" "\<exists>s'. skip_binary n s = Some s' \<and> reads s' r'"
    "n = 1 \<Longrightarrow> \<exists>s'. yySkip s = Some s' \<and> reads s' r'" "n = 1 \<Longrightarrow> \<exists>s'. map_option snd (yyGet s) = Some s' \<and> reads s' r'"
proof -
  have n: "length (rd_done r) + n \<le> length (rd_raw r)" using assms(2) by (simp add: accept_def)
  have eq: "lx_raw s = rd_raw r" "lx_ptr s = length (rd_done r)" "lx_echo s = rd_echo r"
    using assms(1) by (simp_all add: reads_def)
  obtain s1 where s1: "if rd_echo r then put_cpp (take n (drop (length (rd_done r)) (rd_raw r))) s = Some s1 else s1 = s"
    using put_cpp_reads [OF assms(1) n _ refl] by (cases "rd_echo r") auto
  have ptr: "lx_ptr s1 = lx_ptr s" using s1 by (auto simp: put_cpp_def split: if_splits)
  note ok = accept_reads [OF assms s1]
  show "\<exists>s'. yySkipn n s = Some s' \<and> reads s' r'" "\<exists>s'. skip_binary n s = Some s' \<and> reads s' r'"
    using s1 ok n eq ptr by (auto simp: yySkipn_def skip_binary_def split: if_splits)
  assume one: "n = 1"
  then have c: "take n (drop (length (rd_done r)) (rd_raw r)) = [rd_raw r ! length (rd_done r)]"
    using n by (simp add: take_Suc_conv_app_nth Cons_nth_drop_Suc [symmetric])
  show "\<exists>s'. yySkip s = Some s' \<and> reads s' r'"
    using s1 ok n eq one unfolding c by (auto simp: yySkip_def split: if_splits)
  have put: "put_cpp bs (s\<lparr>lx_ptr := k\<rparr>) = map_option (\<lambda>s. s\<lparr>lx_ptr := k\<rparr>) (put_cpp bs s)" for bs k
    by (simp add: put_cpp_def guard_def)
  show "\<exists>s'. map_option snd (yyGet s) = Some s' \<and> reads s' r'"
    using s1 ok n eq one unfolding c by (auto simp: yyGet_def put Let_def split: if_splits)
qed

lemma give_back_step:
  assumes "reads s r" "give_back r = Some r'"
  shows "\<exists>s'. yyUnget s = Some s' \<and> reads s' r'"
    "\<exists>s'. yyUnput c s = Some s' \<and> reads s' (r'\<lparr>rd_raw := (rd_raw r)[length (rd_done r) - 1 := c]\<rparr>)"
proof -
  obtain h x where h: "rd_done r = h @ [(rd_echo r, x)]" "r' = r\<lparr>rd_done := h\<rparr>"
    using assms(2) by (cases "rd_done r" rule: rev_cases) (auto simp: give_back_def)
  have e: "echoed [(b, x)] = (if b then [x] else [])" for b by (simp add: echoed_def)
  have prefix: "take (length xs) ys = xs" if "take (Suc (length xs)) ys = xs @ [z]" for xs ys :: "u8 list" and z
    using arg_cong [OF that, of "take (length xs)"] by (simp add: min_def)
  have tk: "take (length h) (rd_raw r) = map snd h" "take (length (echoed h)) (lx_cpp s) = echoed h"
    "length h < length (rd_raw r)"
    using assms(1) h(1) prefix [of "echoed h" "lx_cpp s" x] by (auto simp: reads_def e take_Suc_conv_app_nth split: if_splits)
  show "\<exists>s'. yyUnget s = Some s' \<and> reads s' r'"
    using assms(1) h tk by (auto simp: reads_def yyUnget_def Let_def e split: if_splits)
  show "\<exists>s'. yyUnput c s = Some s' \<and> reads s' (r'\<lparr>rd_raw := (rd_raw r)[length (rd_done r) - 1 := c]\<rparr>)"
    using assms(1) h tk by (auto simp: reads_def yyUnput_def Let_def e split: if_splits)
qed

lemma mode_reads:
  assumes "reads s r"
  shows "reads (set_echo e s) (r\<lparr>rd_echo := e\<rparr>)" "reads (save_in_comment_state s) (r\<lparr>rd_saved := rd_echo r\<rparr>)"
    "reads (restore_in_comment_state s) (r\<lparr>rd_echo := rd_saved r\<rparr>)" "reads (start_token s) r" "reads (restart_token s) r"
  using assms unfolding reads_def lex_defs by (elim conjE; simp)+

lemma lex_step_reads:
  assumes "reads s r" "read_step op r = Some r'"
  shows "\<exists>s'. lex_step op s = Some s' \<and> reads s' r'"
proof (cases op)
  case (Unput c)
  then obtain r1 where "give_back r = Some r1" "r' = r1\<lparr>rd_raw := (rd_raw r)[length (rd_done r) - 1 := c]\<rparr>"
    using assms(2) by auto
  then show ?thesis using give_back_step(2) [OF assms(1), of r1 c] Unput by simp
next
  case Get
  then show ?thesis using assms(2) accept_step(4) [OF assms(1), of 1 r'] by simp
next
  case Skip
  then show ?thesis using assms(2) accept_step(3) [OF assms(1), of 1 r'] by simp
next
  case (Skipn n)
  then show ?thesis using assms(2) accept_step(1) [OF assms(1), of n r'] by simp
next
  case (Skip_binary n)
  then show ?thesis using assms(2) accept_step(2) [OF assms(1), of n r'] by simp
next
  case Unget
  then show ?thesis using assms(2) give_back_step(1) [OF assms(1), of r'] by simp
qed (use assms(2) mode_reads [OF assms(1)] in auto)

lemma lex_run_reads:
  "reads s r \<Longrightarrow> run_ops read_step ops r = Some r' \<Longrightarrow> \<exists>s'. run_ops lex_step ops s = Some s' \<and> reads s' r'"
proof (induction ops arbitrary: s r)
  case (Cons op ops)
  then obtain r1 where r1: "read_step op r = Some r1" "run_ops read_step ops r1 = Some r'"
    by (auto simp: bind_eq_Some_conv)
  obtain s1 where "lex_step op s = Some s1" "reads s1 r1" using lex_step_reads [OF Cons.prems(1) r1(1)] by blast
  then show ?case using Cons.IH [OF _ r1(2)] by auto
qed simp

subsection \<open>Properties\<close>

fun accepts :: "lex_op \<Rightarrow> bool" where
  "accepts (Unget) = False"
| "accepts (Unput c) = False"
| "accepts Start = False"
| "accepts Restart = False"
| "accepts _ = True"

lemma accept_step_more:
  assumes "accepts op" "lex_step op s = Some s'"
  shows "lx_tok_start s' = lx_tok_start s \<and> lx_cpp_tok_start s' = lx_cpp_tok_start s"
  using assms by (cases op) (auto simp: lex_defs Let_def split: if_splits)

lemma accept_read_more:
  assumes "accepts op" "read_step op r = Some r'"
  shows "\<exists>new. rd_done r' = rd_done r @ new"
  using assms by (cases op) (auto simp: accept_def)

lemma accept_run_more:
  "list_all accepts ops \<Longrightarrow> run_ops lex_step ops s = Some s' \<Longrightarrow> run_ops read_step ops r = Some r' \<Longrightarrow>
    lx_tok_start s' = lx_tok_start s \<and> lx_cpp_tok_start s' = lx_cpp_tok_start s \<and> (\<exists>new. rd_done r' = rd_done r @ new)"
proof (induction ops arbitrary: s r)
  case (Cons op ops)
  then obtain s1 r1 where 1: "lex_step op s = Some s1" "run_ops lex_step ops s1 = Some s'"
    "read_step op r = Some r1" "run_ops read_step ops r1 = Some r'"
    by (auto simp: bind_eq_Some_conv)
  then show ?case
    using Cons.IH [of s1 r1] Cons.prems(1) accept_step_more [of op s s1] accept_read_more [of op r r1] by auto
qed simp

lemma rtrim_from_correct:
  "rtrim_from isspace cpp p \<le> p \<and> (\<forall>i. rtrim_from isspace cpp p \<le> i \<longrightarrow> i < p \<longrightarrow> isspace (cpp ! i)) \<and>
    (rtrim_from isspace cpp p = 0 \<or> \<not> isspace (cpp ! (rtrim_from isspace cpp p - 1)))"
  by (induction p) (auto simp: less_Suc_eq)

text \<open>
  C24. The character stream of the lexer: from a stream that has read a prefix of the query, any sequence
  of operations that stays within the query and gives characters back under the echo mode they were
  accepted with succeeds, that is, it reads and writes only inside the two buffers, given a
  preprocessed buffer at least as long as the query. Afterwards the preprocessed text is exactly the
  characters accepted with echo and not given back, in order, and never longer than what was read.
\<close>

theorem lex_stream_text:
  assumes "reads s r" "run_ops read_step ops r = Some r'"
  shows "\<exists>s'. run_ops lex_step ops s = Some s' \<and> lx_ptr s' = length (rd_done r') \<and>
    take (lx_ptr s') (lx_raw s') = map snd (rd_done r') \<and> take (lx_cpp_ptr s') (lx_cpp s') = echoed (rd_done r') \<and>
    lx_cpp_ptr s' \<le> lx_ptr s' \<and> lx_ptr s' \<le> length (lx_raw s') \<and> lx_raw s' = rd_raw r'"
proof -
  obtain s' where "run_ops lex_step ops s = Some s'" "reads s' r'" using lex_run_reads [OF assms] by blast
  then show ?thesis using echoed_length [of "rd_done r'"] by (auto simp: reads_def)
qed

text \<open>A query of six characters of which the middle two are not echoed.\<close>

definition sample_stream :: lex_stream where
  "sample_stream = \<lparr>lx_raw = [97, 98, 32, 99, 100, 0], lx_ptr = 0, lx_tok_start = 0, lx_tok_end = 0, lx_end_of_query = 5,
     lx_tok_start_prev = 0, lx_echo = True, lx_echo_saved = True, lx_cpp = [0, 0, 0, 0, 0, 0], lx_cpp_ptr = 0,
     lx_cpp_tok_start = 0, lx_cpp_tok_start_prev = 0, lx_cpp_tok_end = 0, lx_lookahead = - 1,
     lx_in_comment = NO_COMMENT, lx_in_comment_saved = NO_COMMENT\<rparr>"

definition sample_reading :: reading where
  "sample_reading = \<lparr>rd_raw = [97, 98, 32, 99, 100, 0], rd_done = [], rd_echo = True, rd_saved = True\<rparr>"

lemma sample_stream_reads: "reads sample_stream sample_reading"
  by (simp add: reads_def sample_stream_def sample_reading_def echoed_def)

lemma lex_stream_text_witness:
  "\<exists>s'. run_ops lex_step [Get, Save, Echo False, Skipn 2, Restore, Get, Skip, Unget] sample_stream = Some s' \<and>
     take (lx_cpp_ptr s') (lx_cpp s') = [97, 99]"
proof -
  have "\<exists>r'. run_ops read_step [Get, Save, Echo False, Skipn 2, Restore, Get, Skip, Unget] sample_reading = Some r' \<and>
      echoed (rd_done r') = [97, 99]"
    by (simp add: sample_reading_def accept_def give_back_def echoed_def)
  then obtain r' where r': "run_ops read_step [Get, Save, Echo False, Skipn 2, Restore, Get, Skip, Unget] sample_reading = Some r'"
    "echoed (rd_done r') = [97, 99]" by blast
  show ?thesis using lex_stream_text [OF sample_stream_reads r'(1)] r'(2) by auto
qed

text \<open>
  Tokens: after \<open>start_token\<close> and any operations that only accept characters or change modes, the
  raw token is the characters accepted since, the preprocessed token those of them that were echoed,
  and \<open>yyLength\<close> is one less than their number (the lexer is one character ahead). The pointer without
  trailing spaces is where the last character of the preprocessed text that is not a space ends.
\<close>

lemma lex_tokens:
  assumes "reads s r" "run_ops read_step ops r = Some r'" "list_all accepts ops"
  shows "\<exists>s' new. run_ops lex_step ops (start_token s) = Some s' \<and> rd_done r' = rd_done r @ new \<and>
    take (lx_ptr s' - lx_tok_start s') (drop (lx_tok_start s') (lx_raw s')) = map snd new \<and>
    take (lx_cpp_ptr s' - lx_cpp_tok_start s') (drop (lx_cpp_tok_start s') (lx_cpp s')) = echoed new \<and>
    (new = [] \<or> yyLength s' = Some (of_nat (length new - 1))) \<and>
    (\<forall>isspace. let p = get_cpp_ptr_rtrim isspace s' in p \<le> lx_cpp_ptr s' \<and>
      list_all isspace (drop p (echoed (rd_done r'))) \<and> (p = 0 \<or> \<not> isspace (echoed (rd_done r') ! (p - 1))))"
proof -
  have "reads (start_token s) r" using assms(1) by (auto simp: reads_def start_token_def)
  then obtain s' where s': "run_ops lex_step ops (start_token s) = Some s'" "reads s' r'"
    using lex_run_reads [OF _ assms(2)] by blast
  obtain new where new: "rd_done r' = rd_done r @ new"
    and tok: "lx_tok_start s' = lx_ptr s" "lx_cpp_tok_start s' = lx_cpp_ptr s"
    using accept_run_more [OF assms(3) s'(1) assms(2)] by (auto simp: start_token_def)
  have pos: "lx_ptr s = length (rd_done r)" "lx_cpp_ptr s = length (echoed (rd_done r))"
    using assms(1) by (simp_all add: reads_def)
  have both: "map snd (rd_done r @ new) = take (lx_ptr s') (lx_raw s')" "take (lx_cpp_ptr s') (lx_cpp s') = echoed (rd_done r @ new)"
    "lx_ptr s' = length (rd_done r @ new)" "lx_cpp_ptr s' = length (echoed (rd_done r @ new))"
    using s'(2) unfolding reads_def new by blast+
  have raw: "take (lx_ptr s' - lx_tok_start s') (drop (lx_tok_start s') (lx_raw s')) = map snd new"
    using arg_cong [OF both(1) [symmetric], of "drop (length (rd_done r))"] tok pos both(3) by (simp add: drop_take)
  moreover have "take (lx_cpp_ptr s' - lx_cpp_tok_start s') (drop (lx_cpp_tok_start s') (lx_cpp s')) = echoed new"
    using arg_cong [OF both(2), of "drop (length (echoed (rd_done r)))"] tok pos both(4) by (simp add: drop_take)
  moreover have "new = [] \<or> yyLength s' = Some (of_nat (length new - 1))"
    using tok pos both(3) by (auto simp: yyLength_def)
  moreover have "let p = get_cpp_ptr_rtrim isspace s' in p \<le> lx_cpp_ptr s' \<and>
      list_all isspace (drop p (echoed (rd_done r'))) \<and> (p = 0 \<or> \<not> isspace (echoed (rd_done r') ! (p - 1)))" for isspace
  proof -
    have nth: "lx_cpp s' ! i = echoed (rd_done r') ! i" if "i < lx_cpp_ptr s'" for i
      using both(2) that new by (metis nth_take)
    have len: "length (echoed (rd_done r')) = lx_cpp_ptr s'" using both(4) new by simp
    show ?thesis
      using rtrim_from_correct [of isspace "lx_cpp s'" "lx_cpp_ptr s'"] nth len
      by (auto simp: get_cpp_ptr_rtrim_def Let_def list_all_length)
  qed
  ultimately show ?thesis using s'(1) new by blast
qed

lemma lex_tokens_witness:
  "\<exists>s' (new :: (bool \<times> u8) list). run_ops lex_step [Get, Get, Get] (start_token sample_stream) = Some s' \<and> length new = 3 \<and>
     yyLength s' = Some (of_nat (length new - 1))"
proof -
  have "\<exists>r'. run_ops read_step [Get, Get, Get] sample_reading = Some r' \<and> length (rd_done r') = 3"
    by (simp add: sample_reading_def accept_def)
  then obtain r' where r': "run_ops read_step [Get, Get, Get] sample_reading = Some r'" "length (rd_done r') = 3" by blast
  have acc: "list_all accepts [Get, Get, Get]" by simp
  obtain s' new where s': "run_ops lex_step [Get, Get, Get] (start_token sample_stream) = Some s'"
    "rd_done r' = rd_done sample_reading @ new" "new = [] \<or> yyLength s' = Some (of_nat (length new - 1))"
    using lex_tokens [OF sample_stream_reads r'(1) acc] by blast
  have "length new = 3" using s'(2) r'(2) by (simp add: sample_reading_def)
  moreover from this have "yyLength s' = Some (of_nat (length new - 1))" using s'(3) by auto
  ultimately show ?thesis using s'(1) by blast
qed

end
