(* ===== verification/App_Store.thy ===== *)
(*  Title:      App_Store.thy
    The tables of the inventory application and the statements its pages send.
*)

theory App_Store
  imports Prelude "HOL-Library.Multiset"
begin

text \<open>
  The database of the application, \<open>www/inventory_db.sql\<close>: the tables \<open>assets\<close>, \<open>history_log\<close>
  and \<open>users\<close>, and the SQL statements of the pages as functions on them. What the server decides
  on its own is a parameter: \<open>accepts\<close> says whether it takes the column values of a row (lengths,
  dates, strict mode), and \<open>recent\<close> gives the rows of \<open>ORDER BY timestamp DESC LIMIT n\<close>, where
  the order of equal timestamps is open.
\<close>

subsection \<open>Tables\<close>

record asset =
  asset_id :: int
  asset_tag :: "string option"
  tag_number :: "string option"
  brand_model :: "string option"
  serial_number :: "string option"
  type_os_type :: "string option"
  processor :: "string option"
  type_of_hard_disk :: "string option"
  size_of_disk :: "string option"
  memory :: "string option"
  office_version :: "string option"
  ip_address :: "string option"
  asset_section :: "string option"
  type_of_user :: "string option"
  asset_user :: "string option"
  email_address :: "string option"
  email_password :: "string option"
  date_purchased :: "string option"
  ups :: "string option"
  recovery_type :: "string option"
  unit_type :: "string option"
  asset_time :: nat

record log_row =
  log_id :: int
  log_user :: string
  log_text :: string
  log_time :: nat

record user_row =
  user_id :: int
  username :: string
  password :: string

record db =
  assets :: "asset list"
  next_asset :: int
  history_log :: "log_row list"
  next_log :: int
  users :: "user_row list"

text \<open>
  The values of a row in column order, the way \<open>SELECT *\<close> returns them; \<open>render\<close> prints the number
  columns.
\<close>

definition asset_cells :: "(int \<Rightarrow> string) \<Rightarrow> (nat \<Rightarrow> string) \<Rightarrow> asset \<Rightarrow> string option list" where
  "asset_cells show_id show_time a =
     [Some (show_id (asset_id a)), asset_tag a, tag_number a, brand_model a, serial_number a,
      type_os_type a, processor a, type_of_hard_disk a, size_of_disk a, memory a,
      office_version a, ip_address a, asset_section a, type_of_user a, asset_user a,
      email_address a, email_password a, date_purchased a, ups a,
      recovery_type a, unit_type a, Some (show_time (asset_time a))]"

text \<open>Ids come from AUTO_INCREMENT: distinct and below the counter of their table.\<close>

definition keys_below :: "int \<Rightarrow> int list \<Rightarrow> bool" where
  "keys_below n ids \<longleftrightarrow> distinct ids \<and> (\<forall>i \<in> set ids. i < n)"

definition db_ok :: "db \<Rightarrow> bool" where
  "db_ok d \<longleftrightarrow> keys_below (next_asset d) (map asset_id (assets d)) \<and>
     keys_below (next_log d) (map log_id (history_log d))"

lemma keys_below_snoc: "keys_below n ids \<Longrightarrow> keys_below (n + 1) (ids @ [n])"
  by (auto simp: keys_below_def)

lemma keys_below_sub: "keys_below n (map f xs) \<Longrightarrow> keys_below n (map f (filter P xs))"
  by (auto simp: keys_below_def distinct_map inj_on_def)

subsection \<open>Statements on assets\<close>

text \<open>
  \<open>INSERT INTO assets\<close> of \<open>new_entry.php\<close>: the server gives the next id and the current time.
  An id that does not fit \<open>int(11)\<close> is an error, as are refused values.
\<close>

definition insert_asset :: "(asset \<Rightarrow> bool) \<Rightarrow> nat \<Rightarrow> asset \<Rightarrow> db \<Rightarrow> db option" where
  "insert_asset accepts now a d =
     (let row = a\<lparr>asset_id := next_asset d, asset_time := now\<rparr>
      in if accepts row \<and> next_asset d < 2 ^ 31
         then Some (d\<lparr>assets := assets d @ [row], next_asset := next_asset d + 1\<rparr>) else None)"

text \<open>\<open>UPDATE assets SET \<dots> WHERE id=?\<close> of \<open>edit_asset.php\<close>; no matching row is not an error.\<close>

definition update_asset :: "(asset \<Rightarrow> bool) \<Rightarrow> nat \<Rightarrow> int \<Rightarrow> asset \<Rightarrow> db \<Rightarrow> db option" where
  "update_asset accepts now key a d =
     (let row = a\<lparr>asset_id := key, asset_time := now\<rparr>
      in if accepts row \<or> key \<notin> set (map asset_id (assets d))
         then Some (d\<lparr>assets := map (\<lambda>b. if asset_id b = key then row else b) (assets d)\<rparr>) else None)"

definition delete_assets :: "int list \<Rightarrow> db \<Rightarrow> db" where
  "delete_assets keys d = d\<lparr>assets := filter (\<lambda>a. asset_id a \<notin> set keys) (assets d)\<rparr>"

definition select_asset :: "int \<Rightarrow> db \<Rightarrow> asset option" where
  "select_asset key d = find (\<lambda>a. asset_id a = key) (assets d)"

text \<open>
  \<open>INSERT INTO assets\<close> of \<open>undo_delete.php\<close> names all columns of the old row, the id included:
  a duplicate key is an error, and the counter moves past the id.
\<close>

definition restore_asset :: "(asset \<Rightarrow> bool) \<Rightarrow> asset \<Rightarrow> db \<Rightarrow> db option" where
  "restore_asset accepts a d =
     (if accepts a \<and> asset_id a \<notin> set (map asset_id (assets d))
      then Some (d\<lparr>assets := assets d @ [a], next_asset := max (next_asset d) (asset_id a + 1)\<rparr>) else None)"

text \<open>\<open>SELECT * FROM assets ORDER BY id ASC\<close>\<close>

definition select_all :: "db \<Rightarrow> asset list" where
  "select_all d = sort_key asset_id (assets d)"

subsection \<open>Statements on the history\<close>

text \<open>
  The pages put the user and the text into the statement between quotes. The statement is the
  intended one when neither holds a quote or a backslash; any other string is outside the model.
  An id that does not fit \<open>int(11)\<close> is an error, whose result the pages do not read: they go on
  without the row.
\<close>

definition plain_text :: "string \<Rightarrow> bool" where
  "plain_text s \<longleftrightarrow> list_all (\<lambda>c. c \<noteq> CHR 0x27 \<and> c \<noteq> CHR 0x5C) s"

definition insert_log :: "nat \<Rightarrow> string \<Rightarrow> string \<Rightarrow> db \<Rightarrow> db option" where
  "insert_log now user action d =
     guard (plain_text user \<and> plain_text action)
       (if next_log d < 2 ^ 31
        then d\<lparr>history_log := history_log d @ [\<lparr>log_id = next_log d, log_user = user, log_text = action, log_time = now\<rparr>],
               next_log := next_log d + 1\<rparr>
        else d)"

text \<open>\<open>DELETE FROM history_log WHERE id NOT IN (SELECT id \<dots> ORDER BY timestamp DESC LIMIT 15)\<close>\<close>

definition trim_log :: "(nat \<Rightarrow> log_row list \<Rightarrow> log_row list) \<Rightarrow> db \<Rightarrow> db" where
  "trim_log recent d =
     (let keep = map log_id (recent 15 (history_log d))
      in d\<lparr>history_log := filter (\<lambda>r. log_id r \<in> set keep) (history_log d)\<rparr>)"

definition log_action :: "(nat \<Rightarrow> log_row list \<Rightarrow> log_row list) \<Rightarrow> nat \<Rightarrow> string \<Rightarrow> string \<Rightarrow> db \<Rightarrow> db option" where
  "log_action recent now user action d = map_option (trim_log recent) (insert_log now user action d)"

subsection \<open>The most recent rows\<close>

text \<open>
  What \<open>ORDER BY timestamp DESC LIMIT n\<close> promises: the first \<open>n\<close> rows of some arrangement of the
  table in which no later row is newer.
\<close>

locale order_by_limit =
  fixes recent :: "nat \<Rightarrow> log_row list \<Rightarrow> log_row list"
  assumes recent_rows: "\<exists>ys. mset ys = mset rows \<and> sorted_wrt (\<lambda>a b. log_time b \<le> log_time a) ys \<and>
    recent n rows = take n ys"
begin

lemma recent_arranged:
  obtains ys where "mset ys = mset rows" "sorted_wrt (\<lambda>a b. log_time b \<le> log_time a) ys"
    "recent n rows = take n ys"
  using recent_rows [of rows n] by blast

lemma length_recent: "length (recent n rows) = min n (length rows)"
  by (rule recent_arranged [of rows n]) (metis length_take mset_eq_length min.commute)

lemma recent_subset: "set (recent n rows) \<subseteq> set rows"
  by (rule recent_arranged [of rows n]) (metis set_mset_mset set_take_subset)

lemma recent_sorted: "sorted_wrt (\<lambda>a b. log_time b \<le> log_time a) (recent n rows)"
  by (rule recent_arranged [of rows n]) (auto intro: sorted_wrt_take)

text \<open>Nothing outside the result is newer than a row of the result.\<close>

lemma recent_newest:
  assumes "distinct rows" "r \<in> set rows" "r \<notin> set (recent n rows)" "s \<in> set (recent n rows)"
  shows "log_time r \<le> log_time s"
proof (rule recent_arranged [of rows n])
  fix ys assume ys: "mset ys = mset rows" "sorted_wrt (\<lambda>a b. log_time b \<le> log_time a) ys" "recent n rows = take n ys"
  have "r \<in> set ys" using ys(1) assms(2) by (metis set_mset_mset)
  then have "r \<in> set (drop n ys)" using assms(3) ys(3) by (metis Un_iff append_take_drop_id set_append)
  moreover have "sorted_wrt (\<lambda>a b. log_time b \<le> log_time a) (take n ys @ drop n ys)" using ys(2) by simp
  ultimately show ?thesis using assms(4) ys(3) by (auto simp: sorted_wrt_append simp del: append_take_drop_id)
qed

text \<open>A row is among the first \<open>n\<close> when fewer than \<open>n\<close> other rows are at least as new.\<close>

lemma recent_keeps:
  assumes d: "distinct rows" and r: "r \<in> set rows"
    and few: "length (filter (\<lambda>s. s \<noteq> r \<and> log_time r \<le> log_time s) rows) < n"
  shows "r \<in> set (recent n rows)"
proof (rule ccontr)
  assume out: "r \<notin> set (recent n rows)"
  have dr: "distinct (recent n rows)"
    by (rule recent_arranged [of rows n]) (metis d distinct_take mset_eq_imp_distinct_iff)
  have "set (recent n rows) \<subseteq> set (filter (\<lambda>s. s \<noteq> r \<and> log_time r \<le> log_time s) rows)"
    using recent_newest [OF d r out] recent_subset out by auto
  then have "card (set (recent n rows)) \<le> card (set (filter (\<lambda>s. s \<noteq> r \<and> log_time r \<le> log_time s) rows))"
    by (intro card_mono) simp_all
  also have "\<dots> = length (filter (\<lambda>s. s \<noteq> r \<and> log_time r \<le> log_time s) rows)"
    using d by (intro distinct_card) simp
  finally have "length (recent n rows) < n"
    using few by (simp only: distinct_card [OF dr])
  then have "length (recent n rows) = length rows" by (simp add: length_recent min_def split: if_splits)
  then have "set (recent n rows) = set rows"
    by (metis card_subset_eq d distinct_card dr finite_set recent_subset)
  then show False using r out by simp
qed

text \<open>Trimming leaves the 15 rows of the query, in the order of the table.\<close>

lemma trim_log_rows:
  assumes "distinct (map log_id (history_log d))"
  shows "set (history_log (trim_log recent d)) = set (recent 15 (history_log d))"
    and "length (history_log (trim_log recent d)) = min 15 (length (history_log d))"
proof -
  have inj: "r \<in> set (recent 15 (history_log d))"
    if r: "r \<in> set (history_log d)" and s: "s \<in> set (recent 15 (history_log d))" "log_id r = log_id s" for r s
  proof -
    have "s \<in> set (history_log d)" using s(1) recent_subset by blast
    then have "r = s" using assms r s(2) by (auto simp: distinct_map dest: inj_onD)
    then show ?thesis using s(1) by simp
  qed
  have dis: "distinct (history_log d)" using assms by (simp add: distinct_map)
  show s: "set (history_log (trim_log recent d)) = set (recent 15 (history_log d))"
    using recent_subset [of 15 "history_log d"] by (auto simp: trim_log_def Let_def dest: inj)
  have "distinct (recent 15 (history_log d))"
    by (rule recent_arranged [of "history_log d" 15]) (metis dis distinct_take mset_eq_imp_distinct_iff)
  moreover have "distinct (history_log (trim_log recent d))"
    using dis by (simp add: trim_log_def Let_def)
  ultimately show "length (history_log (trim_log recent d)) = min 15 (length (history_log d))"
    by (metis distinct_card length_recent s)
qed

end

text \<open>A stable insertion by time meets the promise; it is the instance the witnesses use.\<close>

definition newest :: "nat \<Rightarrow> log_row list \<Rightarrow> log_row list" where
  "newest n rows = take n (rev (sort_key log_time rows))"

interpretation newest: order_by_limit newest
proof
  fix rows :: "log_row list" and n
  have "sorted_wrt (\<lambda>a b. log_time b \<le> log_time a) (rev (sort_key log_time rows))"
    using sorted_sort_key [of log_time rows] by (simp add: sorted_wrt_rev sorted_map)
  then show "\<exists>ys. mset ys = mset rows \<and> sorted_wrt (\<lambda>a b. log_time b \<le> log_time a) ys \<and>
      newest n rows = take n ys"
    unfolding newest_def by (intro exI [of _ "rev (sort_key log_time rows)"]) simp
qed

subsection \<open>What the statements keep\<close>

lemma insert_asset_ok: "insert_asset accepts now a d = Some d' \<Longrightarrow> db_ok d \<Longrightarrow> db_ok d'"
  using keys_below_snoc by (auto simp: insert_asset_def db_ok_def Let_def split: if_splits)

lemma update_asset_ids: "update_asset accepts now key a d = Some d' \<Longrightarrow> map asset_id (assets d') = map asset_id (assets d)"
  by (auto simp: update_asset_def Let_def split: if_splits)

lemma update_asset_frame:
  "update_asset accepts now key a d = Some d' \<Longrightarrow>
     next_asset d' = next_asset d \<and> history_log d' = history_log d \<and> next_log d' = next_log d \<and> users d' = users d"
  by (auto simp: update_asset_def Let_def split: if_splits)

lemma update_asset_ok: "update_asset accepts now key a d = Some d' \<Longrightarrow> db_ok d \<Longrightarrow> db_ok d'"
  using update_asset_ids [of accepts now key a d d'] update_asset_frame [of accepts now key a d d']
  by (simp add: db_ok_def)

lemma delete_assets_ok: "db_ok d \<Longrightarrow> db_ok (delete_assets keys d)"
  by (simp add: db_ok_def delete_assets_def keys_below_sub)

lemma restore_asset_ok: "restore_asset accepts a d = Some d' \<Longrightarrow> db_ok d \<Longrightarrow> db_ok d'"
  by (fastforce simp: restore_asset_def db_ok_def keys_below_def split: if_splits)

lemma trim_log_ok: "db_ok d \<Longrightarrow> db_ok (trim_log recent d)"
  by (simp add: db_ok_def trim_log_def Let_def keys_below_sub)

lemma log_action_ok: "log_action recent now user action d = Some d' \<Longrightarrow> db_ok d \<Longrightarrow> db_ok d'"
  using keys_below_snoc
  by (auto simp: log_action_def insert_log_def guard_def intro!: trim_log_ok split: if_splits) 
     (simp add: db_ok_def)

lemma log_action_frame:
  "log_action recent now user action d = Some d' \<Longrightarrow>
     assets d' = assets d \<and> next_asset d' = next_asset d \<and> users d' = users d"
  by (auto simp: log_action_def insert_log_def guard_def trim_log_def Let_def split: if_splits)

lemma log_action_length:
  assumes "order_by_limit recent" "db_ok d" "log_action recent now user action d = Some d'"
  shows "length (history_log d') = min 15 (length (history_log d) + (if next_log d < 2 ^ 31 then 1 else 0))"
proof -
  obtain e where e: "insert_log now user action d = Some e" "d' = trim_log recent e"
    using assms(3) by (auto simp: log_action_def)
  then have "distinct (map log_id (history_log e))" "length (history_log e) = length (history_log d) + (if next_log d < 2 ^ 31 then 1 else 0)"
    using assms(2) keys_below_snoc [of "next_log d" "map log_id (history_log d)"]
    by (auto simp: insert_log_def guard_def db_ok_def keys_below_def split: if_splits)
  then show ?thesis using order_by_limit.trim_log_rows(2) [OF assms(1)] e(2) by simp
qed

end
