(* ===== verification/App_Pages.thy ===== *)
(*  Title:      App_Pages.thy
    The pages of the inventory application that read or change the session and the tables.
*)

theory App_Pages
  imports App_Store
begin

text \<open>
  One function per page of \<open>www/\<close>: \<open>login.php\<close>, \<open>index.php\<close>, \<open>logout.php\<close>, \<open>new_entry.php\<close>,
  \<open>edit_asset.php\<close>, \<open>delete_selected.php\<close>, \<open>undo_delete.php\<close> and \<open>add_asset.php\<close>. A page takes the
  request, the session and the tables and returns what it prints, with the new session and tables;
  a request is one atomic step. \<open>$_POST\<close> is a partial map from field names; ids, which the
  pages post as decimal numerals, are integers. The result None is a statement outside the model
  of \<open>insert_log\<close>. The connection of \<open>config.php\<close> is taken to succeed.
\<close>

subsection \<open>PHP functions\<close>

definition php_empty :: "string option \<Rightarrow> bool" where
  "php_empty v \<longleftrightarrow> v \<in> {None, Some '''', Some ''0''}"

definition php_space :: "char \<Rightarrow> bool" where
  "php_space c \<longleftrightarrow> c \<in> {CHR '' '', CHR 0x09, CHR 0x0A, CHR 0x0D, CHR 0x00, CHR 0x0B}"

definition php_trim :: "string \<Rightarrow> string" where
  "php_trim s = rev (dropWhile php_space (rev (dropWhile php_space s)))"

fun implode_with :: "string \<Rightarrow> string list \<Rightarrow> string" where
  "implode_with sep [] = ''''"
| "implode_with sep [x] = x"
| "implode_with sep (x # xs) = x @ sep @ implode_with sep xs"

fun nat_text :: "nat \<Rightarrow> string" where
  "nat_text n = (if n < 10 then [char_of (48 + n)] else nat_text (n div 10) @ [char_of (48 + n mod 10)])"

definition int_text :: "int \<Rightarrow> string" where
  "int_text i = (if i < 0 then ''-'' @ nat_text (nat (- i)) else nat_text (nat i))"

subsection \<open>Sessions, requests and replies\<close>

text \<open>
  What \<open>json_decode\<close> makes of the posted selection: a list of ids; null, also for a text that is no
  JSON; a number or a truth value, of which only \<open>empty\<close> matters; a string; or an object, an array
  with the keys of its members, numerals as numbers.
\<close>

datatype php_key = Int_Key int | Text_Key string

datatype selection = Ids "int list" | Json_null | Json_atom bool | Json_text string | Json_object "(php_key \<times> int) list"

text \<open>The keys of \<open>$_SESSION\<close> the pages use; \<open>index.php\<close> sets \<open>username\<close>, all others read \<open>user\<close>.\<close>

record session =
  session_user :: "string option"
  session_username :: "string option"
  edit_queue :: "selection option"
  deleted_records :: "asset list option"

definition no_session :: session where
  "no_session = \<lparr>session_user = None, session_username = None, edit_queue = None, deleted_records = None\<rparr>"

type_synonym post = "string \<Rightarrow> string option"

datatype response =
    Redirect string
  | Page string
  | Reply string
  | Edit_Page "asset option" string "string option"
  | Uncaught

subsection \<open>Texts of the history and of the messages\<close>

definition added_text :: "int \<Rightarrow> string" where
  "added_text i = ''Added new asset ID '' @ int_text i"

definition edited_text :: "int \<Rightarrow> string" where
  "edited_text i = ''Edited asset ID '' @ int_text i"

definition deleted_text :: "int list \<Rightarrow> string" where
  "deleted_text ids = ''Deleted asset ID: '' @ implode_with '', '' (map int_text ids)"

definition missing_text :: "string list \<Rightarrow> string" where
  "missing_text names = ''Missing fields: '' @ implode_with '', '' names"

definition updated_text :: "int \<Rightarrow> string" where
  "updated_text i = ''Asset ID '' @ int_text i @ '' successfully updated.''"

definition not_found_text :: "string \<Rightarrow> string" where
  "not_found_text i = ''Asset with ID '' @ i @ '' not found.''"

definition nothing_selected :: "string option \<Rightarrow> string" where
  "nothing_selected success = (if success = None then ''No asset selected. Enter an ID below.'' else '''')"

subsection \<open>Logging in and out\<close>

text \<open>\<open>same_name\<close> is the comparison of the column \<open>username\<close> under its collation.\<close>

definition login :: "(string \<Rightarrow> string \<Rightarrow> bool) \<Rightarrow> (string \<times> string) option \<Rightarrow> session \<Rightarrow> db \<Rightarrow> response \<times> session" where
  "login same_name form s d =
     (case form of
        None \<Rightarrow> (Page '''', s)
      | Some (name, pass) \<Rightarrow>
          (case filter (\<lambda>u. same_name (username u) (php_trim name)) (users d) of
             [row] \<Rightarrow>
               if pass = password row
               then (Redirect ''dashboard.php'', s\<lparr>session_user := Some (username row)\<rparr>)
               else (Page ''Incorrect password.'', s)
           | _ \<Rightarrow> (Page ''Username not found.'', s)))"

text \<open>
  \<open>index.php\<close> puts the name and a SHA-256 of the password into its query; \<open>found\<close> is the number
  of rows the server returns for it.
\<close>

definition index_login :: "nat \<Rightarrow> string option \<Rightarrow> session \<Rightarrow> response \<times> session" where
  "index_login found form s =
     (case form of
        None \<Rightarrow> (Page '''', s)
      | Some name \<Rightarrow>
          if found = 1 then (Redirect ''dashboard.php'', s\<lparr>session_username := Some name\<rparr>)
          else (Page ''Invalid username or password!'', s))"

definition logout :: "session \<Rightarrow> response \<times> session" where
  "logout s = (Redirect ''login.php'', no_session)"

subsection \<open>New entries\<close>

definition required_fields :: "string list" where
  "required_fields =
     [''asset_tag'', ''tag_number'', ''brand_model'', ''serial_number'',
      ''type_os_type'', ''processor'', ''type_of_hard_disk'', ''size_of_disk'', ''memory'',
      ''office_version'', ''ip_address'', ''section'', ''type_of_user'', ''user'',
      ''email_password'', ''date_purchased'', ''ups'', ''recovery_type'', ''unit_type'']"

definition missing_fields :: "post \<Rightarrow> string list" where
  "missing_fields post = filter (\<lambda>f. php_empty (post f)) required_fields"

text \<open>The values both forms bind; the id and the time are the server's.\<close>

definition posted_asset :: "post \<Rightarrow> string option \<Rightarrow> asset" where
  "posted_asset post email =
     \<lparr>asset_id = 0, asset_tag = post ''asset_tag'', tag_number = post ''tag_number'',
      brand_model = post ''brand_model'', serial_number = post ''serial_number'',
      type_os_type = post ''type_os_type'', processor = post ''processor'',
      type_of_hard_disk = post ''type_of_hard_disk'', size_of_disk = post ''size_of_disk'',
      memory = post ''memory'', office_version = post ''office_version'',
      ip_address = post ''ip_address'', asset_section = post ''section'',
      type_of_user = post ''type_of_user'', asset_user = post ''user'',
      email_address = email, email_password = post ''email_password'',
      date_purchased = post ''date_purchased'', ups = post ''ups'',
      recovery_type = post ''recovery_type'', unit_type = post ''unit_type'', asset_time = 0\<rparr>"

definition entry_email :: "post \<Rightarrow> string option" where
  "entry_email post = (if php_empty (post ''email_address'') then Some ''n/a'' else post ''email_address'')"

definition new_entry :: "(asset \<Rightarrow> bool) \<Rightarrow> (nat \<Rightarrow> log_row list \<Rightarrow> log_row list) \<Rightarrow> nat \<Rightarrow>
    post option \<Rightarrow> session \<Rightarrow> db \<Rightarrow> (response \<times> db) option" where
  "new_entry accepts recent now form s d =
     (case session_user s of
        None \<Rightarrow> Some (Redirect ''login.php'', d)
      | Some u \<Rightarrow>
          (case form of
             None \<Rightarrow> Some (Page '''', d)
           | Some post \<Rightarrow>
               if missing_fields post \<noteq> []
               then Some (Page (missing_text (missing_fields post)), d)
               else (case insert_asset accepts now (posted_asset post (entry_email post)) d of
                       None \<Rightarrow> Some (Page ''Database error'', d)
                     | Some d1 \<Rightarrow>
                         map_option (\<lambda>d2. (Redirect ''masterlist.php'', d2))
                           (log_action recent now u (added_text (next_asset d)) d1))))"

subsection \<open>Editing\<close>

text \<open>
  A request to \<open>edit_asset.php\<close>: the batch selected on the master list, the submitted form (its
  id and fields) and the id typed by hand.
\<close>

record edit_request =
  selected_ids :: "selection option"
  update_form :: "(int \<times> post) option"
  manual_id :: "int option"

definition take_selection :: "edit_request \<Rightarrow> session \<Rightarrow> session" where
  "take_selection r s =
     (case selected_ids r of
        None \<Rightarrow> s
      | Some q \<Rightarrow> s\<lparr>edit_queue := Some q\<rparr>)"

text \<open>
  \<open>array_search\<close> finds the first equal entry; it is unset and the rest renumbered. With a queue that
  is set and no array it throws: the result is None.
\<close>

definition dequeue :: "int \<Rightarrow> session \<Rightarrow> session option" where
  "dequeue key s =
     (case edit_queue s of
        None \<Rightarrow> Some s
      | Some Json_null \<Rightarrow> Some s
      | Some (Ids q) \<Rightarrow> Some (s\<lparr>edit_queue := Some (Ids (remove1 key q))\<rparr>)
      | Some (Json_object kvs) \<Rightarrow>
          Some (if key \<in> set (map snd kvs) then s\<lparr>edit_queue := Some (Ids (remove1 key (map snd kvs)))\<rparr> else s)
      | Some _ \<Rightarrow> None)"

text \<open>A blank mail address is stored as \<open>n/a\<close>.\<close>

definition edit_email :: "post \<Rightarrow> string option" where
  "edit_email post =
     (let typed = (case post ''email_address'' of None \<Rightarrow> '''' | Some e \<Rightarrow> e)
      in if php_empty (Some (php_trim typed)) then Some ''n/a'' else post ''email_address'')"

text \<open>The result of \<open>execute()\<close> is not read: a refused update is logged and reported as done.\<close>

definition apply_update :: "(asset \<Rightarrow> bool) \<Rightarrow> (nat \<Rightarrow> log_row list \<Rightarrow> log_row list) \<Rightarrow> nat \<Rightarrow>
    string \<Rightarrow> int \<Rightarrow> post \<Rightarrow> session \<Rightarrow> db \<Rightarrow> (string \<times> session option \<times> db) option" where
  "apply_update accepts recent now u key post s d =
     (let d1 = (case update_asset accepts now key (posted_asset post (edit_email post)) d of
                  None \<Rightarrow> d
                | Some d' \<Rightarrow> d')
      in map_option (\<lambda>d2. (updated_text key, dequeue key s, d2))
           (log_action recent now u (edited_text key) d1))"

text \<open>
  The next id, as the text a message shows and the number that is bound: the first element of a queue
  that is not empty, and otherwise the id typed by hand. Element 0 of a string is its first
  character, which counts as a number only if it is a digit; a number, or an object without the key
  0, has no such element.
\<close>

definition digit_value :: "char \<Rightarrow> int" where
  "digit_value c = (let code = of_char c :: int in if 48 \<le> code \<and> code \<le> 57 then code - 48 else 0)"

definition next_id :: "edit_request \<Rightarrow> session \<Rightarrow> (string \<times> int) option" where
  "next_id r s =
     (let typed = map_option (\<lambda>k. (int_text k, k)) (manual_id r)
      in case edit_queue s of
           Some (Ids (k # _)) \<Rightarrow> Some (int_text k, k)
         | Some (Json_atom b) \<Rightarrow> if b then None else typed
         | Some (Json_text (c # cs)) \<Rightarrow> if c # cs \<noteq> ''0'' then Some ([c], digit_value c) else typed
         | Some (Json_object (kv # kvs)) \<Rightarrow> map_option (\<lambda>k. (int_text k, k)) (map_of (kv # kvs) (Int_Key 0))
         | _ \<Rightarrow> typed)"

text \<open>The page below the statements: the form of the next asset, or a message. The text \<open>0\<close> counts as none.\<close>

definition edit_page :: "edit_request \<Rightarrow> string option \<Rightarrow> session \<Rightarrow> db \<Rightarrow> response" where
  "edit_page r success s d =
     (case next_id r s of
        Some (text, k) \<Rightarrow>
          if text \<noteq> ''0''
          then (case select_asset k d of
                  Some a \<Rightarrow> Edit_Page (Some a) '''' success
                | None \<Rightarrow> Edit_Page None (not_found_text text) success)
          else Edit_Page None (nothing_selected success) success
      | None \<Rightarrow> Edit_Page None (nothing_selected success) success)"

definition edit_asset :: "(asset \<Rightarrow> bool) \<Rightarrow> (nat \<Rightarrow> log_row list \<Rightarrow> log_row list) \<Rightarrow> nat \<Rightarrow>
    edit_request \<Rightarrow> session \<Rightarrow> db \<Rightarrow> (response \<times> session \<times> db) option" where
  "edit_asset accepts recent now r s d =
     (case session_user s of
        None \<Rightarrow> Some (Redirect ''login.php'', s, d)
      | Some u \<Rightarrow>
          let s1 = take_selection r s
          in (case update_form r of
                None \<Rightarrow> Some (edit_page r None s1 d, s1, d)
              | Some (key, post) \<Rightarrow>
                  map_option (\<lambda>(success, dequeued, d2).
                      case dequeued of
                        None \<Rightarrow> (Uncaught, s1, d2)
                      | Some s2 \<Rightarrow> (edit_page r (Some success) s2 d2, s2, d2))
                    (apply_update accepts recent now u key post s1 d)))"

subsection \<open>Deleting and undoing\<close>

text \<open>What the server does with the prepared DELETE; the form is None for a request that is not a POST.\<close>

datatype execution = Not_Prepared | Not_Executed | Executed

text \<open>The values of a decoded array, and whether a key is a text: those cannot be unpacked into arguments.\<close>

fun array_values :: "selection \<Rightarrow> int list option" where
  "array_values (Ids ids) = Some ids"
| "array_values (Json_object kvs) = Some (map snd kvs)"
| "array_values _ = None"

fun has_text_key :: "selection \<Rightarrow> bool" where
  "has_text_key (Json_object kvs) = list_ex (\<lambda>(k, _). case k of Text_Key _ \<Rightarrow> True | _ \<Rightarrow> False) kvs"
| "has_text_key _ = False"

definition delete_selected :: "execution \<Rightarrow> (nat \<Rightarrow> log_row list \<Rightarrow> log_row list) \<Rightarrow> nat \<Rightarrow>
    selection option \<Rightarrow> session \<Rightarrow> db \<Rightarrow> (response \<times> db) option" where
  "delete_selected executes recent now form s d =
     (if php_empty (session_user s) then Some (Reply ''unauthorized'', d)
      else (case form of
              None \<Rightarrow> Some (Reply ''bad_method'', d)
            | Some selected \<Rightarrow>
                (case array_values selected of
                   None \<Rightarrow> Some (Reply ''invalid_input'', d)
                 | Some ids \<Rightarrow>
                     if ids = [] then Some (Reply ''invalid_input'', d)
                     else if executes = Not_Prepared then Some (Reply ''prep_error'', d)
                     else if has_text_key selected then Some (Uncaught, d)
                     else if executes = Not_Executed then Some (Reply ''exec_error'', d)
                     else map_option (\<lambda>d2. (Reply ''success'', d2))
                            (log_action recent now (the (session_user s))
                               (deleted_text ids) (delete_assets ids d)))))"

text \<open>Rows put back before an error stay.\<close>

fun restore_all :: "(asset \<Rightarrow> bool) \<Rightarrow> asset list \<Rightarrow> db \<Rightarrow> bool \<times> db" where
  "restore_all accepts [] d = (True, d)"
| "restore_all accepts (a # rows) d =
     (case restore_asset accepts a d of
        None \<Rightarrow> (False, d)
      | Some d' \<Rightarrow> restore_all accepts rows d')"

definition undo_delete :: "(asset \<Rightarrow> bool) \<Rightarrow> session \<Rightarrow> db \<Rightarrow> response \<times> session \<times> db" where
  "undo_delete accepts s d =
     (case deleted_records s of
        None \<Rightarrow> (Reply ''No records to undo.'', s, d)
      | Some rows \<Rightarrow>
          (case restore_all accepts rows d of
             (True, d') \<Rightarrow> (Reply ''success'', s\<lparr>deleted_records := None\<rparr>, d')
           | (False, d') \<Rightarrow> (Reply ''Failed to undo.'', s, d')))"

subsection \<open>The old form for new assets\<close>

definition asset_columns :: "string list" where
  "asset_columns =
     [''id'', ''asset_tag'', ''tag_number'', ''brand_model'', ''serial_number'', ''type_os_type'',
      ''processor'', ''type_of_hard_disk'', ''size_of_disk'', ''memory'', ''office_version'',
      ''ip_address'', ''section'', ''type_of_user'', ''user'', ''email_address'', ''email_password'',
      ''date_purchased'', ''ups'', ''recovery_type'', ''unit_type'', ''timestamp'']"

definition add_asset_columns :: "string list" where
  "add_asset_columns =
     [''asset_tag'', ''tag_number'', ''brand_model'', ''serial_number'', ''processor'',
      ''hdd_ssd_size'', ''recovery_tape'', ''office_version'', ''memory'',
      ''ip_address'', ''user'', ''email_address'']"

text \<open>
  An INSERT that names a column the table does not have is an error, whatever values it carries;
  an accepted one would be outside the model.
\<close>

definition add_asset :: "bool \<Rightarrow> db \<Rightarrow> (response \<times> db) option" where
  "add_asset is_post d =
     (if \<not> is_post then Some (Page '''', d)
      else guard (\<not> list_all (\<lambda>c. List.member asset_columns c) add_asset_columns) (Page ''Error'', d))"

subsection \<open>Properties\<close>

text \<open>
  \<open>login.php\<close> logs in exactly when one user row matches the trimmed name under the column's
  collation and its stored password is the posted one; the session then carries that row's name,
  and any other outcome leaves the session alone. \<open>index.php\<close> never logs in: it redirects to the
  dashboard but sets a key that no page reads.
\<close>

lemma login_outcomes:
  "(fst (login same_name (Some (name, pass)) s d) = Redirect ''dashboard.php'' \<longleftrightarrow>
      (\<exists>row. filter (\<lambda>u. same_name (username u) (php_trim name)) (users d) = [row] \<and> pass = password row)) \<and>
   snd (login same_name (Some (name, pass)) s d) =
     (case filter (\<lambda>u. same_name (username u) (php_trim name)) (users d) of
        [row] \<Rightarrow> if pass = password row then s\<lparr>session_user := Some (username row)\<rparr> else s
      | _ \<Rightarrow> s) \<and>
   session_user (snd (index_login found form s)) = session_user s \<and>
   session_user (snd (logout s)) = None"
proof -
  have "session_user (snd (index_login found form s)) = session_user s"
    by (simp add: index_login_def split: option.split)
  moreover have "session_user (snd (logout s)) = None" by (simp add: logout_def no_session_def)
  ultimately show ?thesis by (simp add: login_def split: list.split)
qed

end
