(* ===== verification/App_System.thy ===== *)
(*  Title:      App_System.thy
    The inventory application as a whole: pages, sessions and tables over a run.
*)

theory App_System
  imports App_Pages
begin

text \<open>
  The contract shared by the pages behind the login, the step relation of the application (any
  session sends any request at any time) and its invariants.
\<close>

lemmas [page_simps] = new_entry_def edit_asset_def delete_selected_def undo_delete_def add_asset_def
  login_def index_login_def logout_def apply_update_def take_selection_def dequeue_def

subsection \<open>Statements and texts\<close>

declare nat_text.simps [simp del]

lemma plain_nat_text: "plain_text (nat_text n)"
proof (induction n rule: nat_text.induct)
  case (1 n)
  have p: "d < 10 \<Longrightarrow> plain_text [char_of (48 + d)]" for d :: nat
    unfolding plain_text_def by (auto dest!: arg_cong [where f = "of_char :: char \<Rightarrow> nat"])
  show ?case
  proof (cases "n < 10")
    case True
    then show ?thesis by (subst nat_text.simps) (simp add: p)
  next
    case False
    then have "plain_text (nat_text (n div 10) @ [char_of (48 + n mod 10)])"
      using 1 p [of "n mod 10"] by (simp add: plain_text_def)
    then show ?thesis using False by (subst nat_text.simps) simp
  qed
qed

lemma plain_int_text: "plain_text (int_text i)"
  using plain_nat_text by (simp add: int_text_def plain_text_def)

lemma plain_append: "plain_text (a @ b) \<longleftrightarrow> plain_text a \<and> plain_text b"
  by (simp add: plain_text_def)

lemma plain_implode: "plain_text sep \<Longrightarrow> list_all plain_text xs \<Longrightarrow> plain_text (implode_with sep xs)"
  by (induction sep xs rule: implode_with.induct) (auto simp: plain_append, simp add: plain_text_def)

text \<open>So a history entry is written exactly when the user's name is plain.\<close>

lemma log_action_plain:
  assumes "plain_text action"
  shows "log_action recent now u action d = None \<longleftrightarrow> \<not> plain_text u"
  using assms by (simp add: log_action_def insert_log_def guard_def)

lemma plain_ids: "plain_text (implode_with '', '' (map int_text ids))"
  by (rule plain_implode) (simp_all add: list_all_iff plain_int_text, simp add: plain_text_def)

lemma action_texts_plain [simp]:
  "plain_text (added_text i)" "plain_text (edited_text i)" "plain_text (deleted_text ids)"
  unfolding added_text_def edited_text_def deleted_text_def plain_append
  using plain_int_text plain_ids by (simp_all add: plain_text_def)

subsection \<open>The contract of a guarded page\<close>

text \<open>
  A page behind the login does nothing for a visitor, keeps the keys of the tables sound, never
  touches the users, never logs anybody in and never stores deleted records.
\<close>

locale guarded_page =
  fixes page :: "'r \<Rightarrow> session \<Rightarrow> db \<Rightarrow> (session \<times> db) option"
  assumes refuses: "page r s d = Some (s', d') \<Longrightarrow> session_user s = None \<Longrightarrow> d' = d \<and> s' = s"
    and keeps_keys: "page r s d = Some (s', d') \<Longrightarrow> db_ok d \<Longrightarrow> db_ok d'"
    and keeps_users: "page r s d = Some (s', d') \<Longrightarrow> users d' = users d"
    and keeps_login: "page r s d = Some (s', d') \<Longrightarrow>
      session_user s' = session_user s \<and> deleted_records s' = deleted_records s"
begin

lemma effect_needs_login: "page r s d = Some (s', d') \<Longrightarrow> d' \<noteq> d \<Longrightarrow> \<exists>u. session_user s = Some u"
  using refuses by fastforce

lemma keeps_all:
  assumes "page r s d = Some (s', d')" "db_ok d" "\<forall>u. session_user s = Some u \<longrightarrow> u \<in> username ` set (users d)"
    "deleted_records s = None"
  shows "db_ok d' \<and> users d' = users d \<and> deleted_records s' = None \<and>
    (\<forall>u. session_user s' = Some u \<longrightarrow> u \<in> username ` set (users d'))"
  using assms keeps_keys keeps_users keeps_login by metis

end

definition new_entry_page :: "(asset \<Rightarrow> bool) \<Rightarrow> (nat \<Rightarrow> log_row list \<Rightarrow> log_row list) \<Rightarrow> nat \<Rightarrow>
    post option \<Rightarrow> session \<Rightarrow> db \<Rightarrow> (session \<times> db) option" where
  "new_entry_page accepts recent now r s d = map_option (\<lambda>(_, d'). (s, d')) (new_entry accepts recent now r s d)"

definition edit_asset_page :: "(asset \<Rightarrow> bool) \<Rightarrow> (nat \<Rightarrow> log_row list \<Rightarrow> log_row list) \<Rightarrow> nat \<Rightarrow>
    edit_request \<Rightarrow> session \<Rightarrow> db \<Rightarrow> (session \<times> db) option" where
  "edit_asset_page accepts recent now r s d = map_option snd (edit_asset accepts recent now r s d)"

definition delete_selected_page :: "execution \<Rightarrow> (nat \<Rightarrow> log_row list \<Rightarrow> log_row list) \<Rightarrow> nat \<Rightarrow>
    selection option \<Rightarrow> session \<Rightarrow> db \<Rightarrow> (session \<times> db) option" where
  "delete_selected_page executes recent now r s d =
     map_option (\<lambda>(_, d'). (s, d')) (delete_selected executes recent now r s d)"

text \<open>The shape of a page that changed the tables.\<close>

lemma new_entry_cases:
  assumes p: "new_entry_page accepts recent now r s d = Some (s', d')"
  obtains "s' = s" "d' = d"
    | u post d1 where "session_user s = Some u" "r = Some post" "s' = s"
        "insert_asset accepts now (posted_asset post (entry_email post)) d = Some d1"
        "log_action recent now u (added_text (next_asset d)) d1 = Some d'"
proof (cases "\<exists>u post. session_user s = Some u \<and> r = Some post \<and> missing_fields post = []")
  case True
  then obtain u post where u: "session_user s = Some u" "r = Some post" "missing_fields post = []" by blast
  show ?thesis
  proof (cases "insert_asset accepts now (posted_asset post (entry_email post)) d")
    case None
    then have "s' = s \<and> d' = d" using p u by (simp add: new_entry_page_def new_entry_def)
    then show ?thesis using that(1) by blast
  next
    case (Some d1)
    then have "s' = s \<and> log_action recent now u (added_text (next_asset d)) d1 = Some d'"
      using p u by (simp add: new_entry_page_def new_entry_def Let_def)
    then show ?thesis using that(2) [OF u(1,2) _ Some] by blast
  qed
next
  case False
  then have "s' = s \<and> d' = d" using p
    by (cases "session_user s"; cases r) (auto simp: new_entry_page_def new_entry_def Let_def)
  then show ?thesis using that(1) by blast
qed

lemma delete_selected_cases:
  assumes p: "delete_selected_page executes recent now r s d = Some (s', d')"
  obtains "s' = s" "d' = d"
    | u sel ids where "session_user s = Some u" "r = Some sel" "array_values sel = Some ids" "s' = s"
        "log_action recent now u (deleted_text ids) (delete_assets ids d) = Some d'"
proof (cases "\<exists>u sel ids. session_user s = Some u \<and> \<not> php_empty (Some u) \<and> r = Some sel \<and> array_values sel = Some ids \<and>
    ids \<noteq> [] \<and> executes = Executed \<and> \<not> has_text_key sel")
  case True
  then obtain u sel ids where u: "session_user s = Some u" "r = Some sel" "array_values sel = Some ids" "\<not> php_empty (Some u)"
    "ids \<noteq> []" "executes = Executed" "\<not> has_text_key sel" by blast
  then have "s' = s \<and> log_action recent now u (deleted_text ids) (delete_assets ids d) = Some d'"
    using p by (simp add: delete_selected_page_def delete_selected_def split_beta)
  then show ?thesis using that(2) [OF u(1-3)] by blast
next
  case False
  show ?thesis
  proof (cases "php_empty (session_user s)")
    case True
    then have "s' = s \<and> d' = d" using p by (simp add: delete_selected_page_def delete_selected_def)
    then show ?thesis using that(1) by blast
  next
    case empty: False
    then obtain u where "session_user s = Some u" by (cases "session_user s") (auto simp: php_empty_def)
    then have "s' = s \<and> d' = d" using p False empty
      by (cases r; cases executes) (auto simp: delete_selected_page_def delete_selected_def split: option.splits if_splits)
    then show ?thesis using that(1) by blast
  qed
qed

lemma edit_asset_cases:
  assumes p: "edit_asset_page accepts recent now r s d = Some (s', d')"
  obtains "session_user s = None" "s' = s" "d' = d"
    | u where "session_user s = Some u" "update_form r = None" "s' = take_selection r s" "d' = d"
    | u key post d1 where "session_user s = Some u" "update_form r = Some (key, post)"
        "s' = (case dequeue key (take_selection r s) of None \<Rightarrow> take_selection r s | Some s2 \<Rightarrow> s2)"
        "d1 = d \<or> update_asset accepts now key (posted_asset post (edit_email post)) d = Some d1"
        "log_action recent now u (edited_text key) d1 = Some d'"
proof (cases "session_user s")
  case None
  then have "s' = s \<and> d' = d" using p by (simp add: edit_asset_page_def edit_asset_def)
  then show ?thesis using that(1) [OF None] by blast
next
  case u: (Some u)
  show ?thesis
  proof (cases "update_form r")
    case None
    then have "s' = take_selection r s \<and> d' = d" using p u by (simp add: edit_asset_page_def edit_asset_def Let_def)
    then show ?thesis using that(2) [OF u None] by blast
  next
    case (Some form)
    then obtain key post where form: "update_form r = Some (key, post)" by (cases form) simp
    define d1 where "d1 = (case update_asset accepts now key (posted_asset post (edit_email post)) d of None \<Rightarrow> d | Some d' \<Rightarrow> d')"
    have "d1 = d \<or> update_asset accepts now key (posted_asset post (edit_email post)) d = Some d1"
      by (simp add: d1_def split: option.split)
    moreover have "s' = (case dequeue key (take_selection r s) of None \<Rightarrow> take_selection r s | Some s2 \<Rightarrow> s2) \<and>
      log_action recent now u (edited_text key) d1 = Some d'"
    proof -
      have "apply_update accepts recent now u key post (take_selection r s) d =
          map_option (\<lambda>d2. (updated_text key, dequeue key (take_selection r s), d2))
            (log_action recent now u (edited_text key) d1)"
        unfolding apply_update_def Let_def d1_def by (rule refl)
      with p show ?thesis
        unfolding edit_asset_page_def edit_asset_def u form Let_def option.case prod.case
        by (cases "log_action recent now u (edited_text key) d1"; cases "dequeue key (take_selection r s)")
          (simp_all only: option.map prod.case snd_conv option.simps prod.inject)
    qed
    ultimately show ?thesis using that(3) [OF u form, of d1] by blast
  qed
qed

lemma session_frame:
  "session_user (take_selection r s) = session_user s" "deleted_records (take_selection r s) = deleted_records s"
  "dequeue key s = Some s' \<Longrightarrow> session_user s' = session_user s \<and> deleted_records s' = deleted_records s"
  by (auto simp: take_selection_def dequeue_def split: option.splits selection.splits if_splits)

interpretation new_entry: guarded_page "new_entry_page accepts recent now"
proof
  fix r s d s' d'
  assume p: "new_entry_page accepts recent now r s d = Some (s', d')"
  show "session_user s = None \<Longrightarrow> d' = d \<and> s' = s" using p by (cases rule: new_entry_cases) auto
  show "db_ok d \<Longrightarrow> db_ok d'"
    using p by (cases rule: new_entry_cases) (auto intro: log_action_ok insert_asset_ok)
  show "users d' = users d"
    using p by (cases rule: new_entry_cases)
      (auto dest!: log_action_frame simp: insert_asset_def Let_def split: if_splits)
  show "session_user s' = session_user s \<and> deleted_records s' = deleted_records s"
    using p by (cases rule: new_entry_cases) auto
qed

interpretation edit_asset: guarded_page "edit_asset_page accepts recent now"
proof
  fix r s d s' d'
  assume p: "edit_asset_page accepts recent now r s d = Some (s', d')"
  show "session_user s = None \<Longrightarrow> d' = d \<and> s' = s" using p by (cases rule: edit_asset_cases) auto
  show "db_ok d \<Longrightarrow> db_ok d'"
    using p by (cases rule: edit_asset_cases) (auto intro: log_action_ok update_asset_ok)
  show "users d' = users d"
    using p by (cases rule: edit_asset_cases) (auto dest!: log_action_frame update_asset_frame)
  show "session_user s' = session_user s \<and> deleted_records s' = deleted_records s"
    using p by (cases rule: edit_asset_cases) (auto simp: session_frame(1,2) dest: session_frame(3) split: option.splits)
qed

interpretation delete_selected: guarded_page "delete_selected_page executes recent now"
proof
  fix r s d s' d'
  assume p: "delete_selected_page executes recent now r s d = Some (s', d')"
  show "session_user s = None \<Longrightarrow> d' = d \<and> s' = s" using p by (cases rule: delete_selected_cases) auto
  show "db_ok d \<Longrightarrow> db_ok d'"
    using p by (cases rule: delete_selected_cases) (auto intro: log_action_ok delete_assets_ok)
  show "users d' = users d"
    using p by (cases rule: delete_selected_cases) (auto dest!: log_action_frame simp: delete_assets_def)
  show "session_user s' = session_user s \<and> deleted_records s' = deleted_records s"
    using p by (cases rule: delete_selected_cases) auto
qed

subsection \<open>Runs of the application\<close>

text \<open>
  A world holds the tables and the sessions of all browsers. Any session may send any request at
  any time \<open>now\<close>; the pages that only read (\<open>dashboard.php\<close>, \<open>masterlist.php\<close>, \<open>export_excel.php\<close>)
  change nothing and have no step.
\<close>

type_synonym world = "db \<times> (nat \<Rightarrow> session)"

inductive app_step :: "(string \<Rightarrow> string \<Rightarrow> bool) \<Rightarrow> (asset \<Rightarrow> bool) \<Rightarrow> (nat \<Rightarrow> log_row list \<Rightarrow> log_row list) \<Rightarrow>
    nat \<Rightarrow> world \<Rightarrow> world \<Rightarrow> bool"
  for same_name accepts recent sid where
  Login: "login same_name form (ss sid) d = (resp, s') \<Longrightarrow>
    app_step same_name accepts recent sid (d, ss) (d, ss(sid := s'))"
| Index: "index_login found name (ss sid) = (resp, s') \<Longrightarrow>
    app_step same_name accepts recent sid (d, ss) (d, ss(sid := s'))"
| Logout: "logout (ss sid) = (resp, s') \<Longrightarrow>
    app_step same_name accepts recent sid (d, ss) (d, ss(sid := s'))"
| New: "new_entry_page accepts recent now form (ss sid) d = Some (s', d') \<Longrightarrow>
    app_step same_name accepts recent sid (d, ss) (d', ss(sid := s'))"
| Edit: "edit_asset_page accepts recent now r (ss sid) d = Some (s', d') \<Longrightarrow>
    app_step same_name accepts recent sid (d, ss) (d', ss(sid := s'))"
| Delete: "delete_selected_page executes recent now sel (ss sid) d = Some (s', d') \<Longrightarrow>
    app_step same_name accepts recent sid (d, ss) (d', ss(sid := s'))"
| Undo: "undo_delete accepts (ss sid) d = (resp, s', d') \<Longrightarrow>
    app_step same_name accepts recent sid (d, ss) (d', ss(sid := s'))"
| Add: "add_asset is_post d = Some (resp, d') \<Longrightarrow>
    app_step same_name accepts recent sid (d, ss) (d', ss)"

inductive_cases app_stepE: "app_step same_name accepts recent sid (d, ss) w'"

lemmas app_step_cases = app_stepE [consumes 1, case_names Login Index Logout New Edit Delete Undo Add]

inductive app_run :: "(string \<Rightarrow> string \<Rightarrow> bool) \<Rightarrow> (asset \<Rightarrow> bool) \<Rightarrow> (nat \<Rightarrow> log_row list \<Rightarrow> log_row list) \<Rightarrow>
    world \<Rightarrow> world \<Rightarrow> bool"
  for same_name accepts recent w where
  Start: "app_run same_name accepts recent w w"
| Step: "app_run same_name accepts recent w w' \<Longrightarrow> app_step same_name accepts recent sid w' w'' \<Longrightarrow>
    app_run same_name accepts recent w w''"

definition session_ok :: "db \<Rightarrow> session \<Rightarrow> bool" where
  "session_ok d s \<longleftrightarrow> deleted_records s = None \<and>
     (case session_user s of None \<Rightarrow> True | Some u \<Rightarrow> u \<in> username ` set (users d))"

definition world_ok :: "world \<Rightarrow> bool" where
  "world_ok w \<longleftrightarrow> db_ok (fst w) \<and> length (history_log (fst w)) \<le> 15 \<and> (\<forall>sid. session_ok (fst w) (snd w sid))"

lemma session_ok_cong: "users d' = users d \<Longrightarrow> session_ok d' s = session_ok d s"
  by (simp add: session_ok_def split: option.split)

lemma login_ok:
  assumes "login same_name form s d = (resp, s')" "session_ok d s"
  shows "session_ok d s'"
proof -
  have "username row \<in> username ` set (users d)" if "filter P (users d) = [row]" for P row
    proof -
    have "row \<in> set (filter P (users d))" unfolding that by simp
    then show ?thesis by auto
  qed
  then show ?thesis using assms
    by (auto simp: login_def session_ok_def split: option.splits list.splits if_splits)
qed

lemma session_keeps:
  "index_login found name s = (resp, s') \<Longrightarrow> session_ok d s \<Longrightarrow> session_ok d s'"
  "logout s = (resp, s') \<Longrightarrow> session_ok d s'"
  by (auto simp: index_login_def logout_def no_session_def session_ok_def split: option.splits if_splits)

text \<open>Every page that writes a history entry leaves at most 15 of them.\<close>

lemma insert_asset_frame:
  "insert_asset accepts now a d = Some d' \<Longrightarrow> history_log d' = history_log d \<and> users d' = users d"
  by (auto simp: insert_asset_def Let_def split: if_splits)

lemma log_bound:
  assumes "order_by_limit recent" "db_ok d" "length (history_log d) \<le> 15"
  shows "new_entry_page accepts recent now form s d = Some (s', d') \<Longrightarrow> length (history_log d') \<le> 15"
    and "edit_asset_page accepts recent now r s d = Some (s', d') \<Longrightarrow> length (history_log d') \<le> 15"
    and "delete_selected_page executes recent now sel s d = Some (s', d') \<Longrightarrow> length (history_log d') \<le> 15"
proof -
  have *: "length (history_log e') \<le> 15" if "db_ok e" "log_action recent now u t e = Some e'" for e e' u t
    using log_action_length [OF assms(1) that] by simp
  show "length (history_log d') \<le> 15" if "new_entry_page accepts recent now form s d = Some (s', d')"
    using that by (cases rule: new_entry_cases) (use assms in \<open>auto intro: * insert_asset_ok\<close>)
  show "length (history_log d') \<le> 15" if "edit_asset_page accepts recent now r s d = Some (s', d')"
    using that by (cases rule: edit_asset_cases) (use assms in \<open>auto intro: * update_asset_ok\<close>)
  show "length (history_log d') \<le> 15" if "delete_selected_page executes recent now sel s d = Some (s', d')"
    using that by (cases rule: delete_selected_cases) (use assms in \<open>auto intro: * delete_assets_ok\<close>)
qed

text \<open>One request keeps the world sound and the users as they are.\<close>

lemma world_update:
  assumes "world_ok (d, ss)" "db_ok d'" "length (history_log d') \<le> 15" "users d' = users d" "session_ok d' s'"
  shows "world_ok (d', ss(sid := s'))"
  using assms session_ok_cong [OF assms(4)] by (simp add: world_ok_def)

lemma add_asset_unchanged: "add_asset is_post d = Some (resp, d') \<Longrightarrow> d' = d"
  by (auto simp: add_asset_def guard_def split: if_splits)

lemma app_step_ok:
  assumes "order_by_limit recent" and w: "world_ok (d, ss)" and "app_step same_name accepts recent sid (d, ss) (d', ss')"
  shows "world_ok (d', ss') \<and> users d' = users d"
proof -
  have d: "db_ok d" "length (history_log d) \<le> 15" and s: "session_ok d (ss sid)"
    using w by (auto simp: world_ok_def)
  have guarded: "world_ok (d', ss(sid := s')) \<and> users d' = users d"
    if "guarded_page page" "page r (ss sid) d = Some (s', d')" "length (history_log d') \<le> 15" for page :: "'r \<Rightarrow> _" and r s'
    using that(3) guarded_page.keeps_keys [OF that(1,2) d(1)] guarded_page.keeps_users [OF that(1,2)]
      guarded_page.keeps_login [OF that(1,2)] s
    by (intro conjI world_update [OF w]) (auto simp: session_ok_def split: option.splits)
  from assms(3) show ?thesis
  proof (cases rule: app_step_cases)
    case Login
    then show ?thesis using login_ok [OF _ s] by (auto intro: world_update [OF w d])
  next
    case Index
    then show ?thesis using session_keeps(1) [OF _ s] by (auto intro: world_update [OF w d])
  next
    case Logout
    then show ?thesis using session_keeps(2) by (auto intro: world_update [OF w d])
  next
    case (New now form s')
    then show ?thesis
      using guarded [OF new_entry.guarded_page_axioms] log_bound(1) [OF assms(1) d] by blast
  next
    case (Edit now r s')
    then show ?thesis
      using guarded [OF edit_asset.guarded_page_axioms] log_bound(2) [OF assms(1) d] by blast
  next
    case (Delete executes now sel s')
    then show ?thesis
      using guarded [OF delete_selected.guarded_page_axioms] log_bound(3) [OF assms(1) d] by blast
  next
    case (Undo resp s')
    then show ?thesis using s w by (auto simp: undo_delete_def session_ok_def)
  next
    case Add
    then show ?thesis using w add_asset_unchanged by blast
  qed
qed

lemma app_run_ok:
  assumes "app_run same_name accepts recent w w'" "order_by_limit recent" "world_ok w"
  shows "world_ok w' \<and> users (fst w') = users (fst w)"
  using assms(1)
proof (induction rule: app_run.induct)
  case Start
  then show ?case using assms(3) by simp
next
  case (Step w' sid w'')
  then show ?case using app_step_ok [OF assms(2), of "fst w'" "snd w'" same_name accepts sid "fst w''" "snd w''"] by simp
qed

subsection \<open>Properties of a run\<close>

text \<open>A small world for the witnesses: the user admin of \<open>users.sql\<close> and no assets.\<close>

definition first_db :: db where
  "first_db = \<lparr>assets = [], next_asset = 1, history_log = [], next_log = 1,
     users = [\<lparr>user_id = 2, username = ''admin'', password = ''1234''\<rparr>]\<rparr>"

definition first_world :: world where
  "first_world = (first_db, \<lambda>_. no_session)"

definition admin_session :: session where
  "admin_session = no_session\<lparr>session_user := Some ''admin''\<rparr>"

lemma first_world_ok: "world_ok first_world"
  by (simp add: first_world_def first_db_def world_ok_def db_ok_def keys_below_def session_ok_def no_session_def)

lemma admin_login:
  "login (=) (Some ('' admin'', ''1234'')) no_session first_db = (Redirect ''dashboard.php'', admin_session)"
  by code_simp

lemma admin_run: "app_run (=) accepts recent first_world (first_db, (\<lambda>_. no_session)(7 := admin_session))"
proof -
  have "app_step (=) accepts recent 7 first_world (first_db, (\<lambda>_. no_session)(7 := admin_session))"
    using app_step.Login [of "(=)" _ "\<lambda>_. no_session" 7 first_db] admin_login
    unfolding first_world_def by metis
  then show ?thesis by (rule app_run.Step [OF app_run.Start])
qed

lemma admin_delete:
  "delete_selected_page Executed newest 50 (Some (Ids [4])) admin_session first_db =
     Some (admin_session, first_db\<lparr>history_log := [\<lparr>log_id = 1, log_user = ''admin'', log_text = ''Deleted asset ID: 4'', log_time = 50\<rparr>],
       next_log := 2\<rparr>)"
  by code_simp

text \<open>
  C1. Over any run of the application, from a sound database in which nobody is logged in, a
  request changes a table only in a session that is logged in as a registered user; this covers
  the pages without a login check, \<open>undo_delete.php\<close>, \<open>add_asset.php\<close>, and a login through \<open>index.php\<close>.
\<close>

theorem tables_change_only_after_login:
  assumes "order_by_limit recent" "world_ok (d0, \<lambda>_. no_session)"
    and "app_run same_name accepts recent (d0, \<lambda>_. no_session) (d, ss)"
    and "app_step same_name accepts recent sid (d, ss) (d', ss')" "d' \<noteq> d"
  shows "\<exists>u. session_user (ss sid) = Some u \<and> u \<in> username ` set (users d0)"
proof -
  have w: "world_ok (d, ss)" "users d = users d0" using app_run_ok [OF assms(3,1,2)] by auto
  then have s: "session_ok d (ss sid)" by (simp add: world_ok_def)
  have "\<exists>u. session_user (ss sid) = Some u" using assms(4)
  proof (cases rule: app_step_cases)
    case Undo
    then show ?thesis using s assms(5) by (simp add: undo_delete_def session_ok_def)
  next
    case Add
    then show ?thesis using add_asset_unchanged assms(5) by blast
  next
    case (New now form s')
    then show ?thesis using new_entry.effect_needs_login assms(5) by blast
  next
    case (Edit now r s')
    then show ?thesis using edit_asset.effect_needs_login assms(5) by blast
  next
    case (Delete executes now sel s')
    then show ?thesis using delete_selected.effect_needs_login assms(5) by blast
  qed (use assms(5) in auto)
  then show ?thesis using s w(2) by (auto simp: session_ok_def)
qed

lemma tables_change_only_after_login_witness:
  "\<exists>u. session_user (((\<lambda>_. no_session)(7 := admin_session)) (7 :: nat)) = Some u \<and> u \<in> username ` set (users first_db)"
proof (rule tables_change_only_after_login [where ss = "(\<lambda>_. no_session)(7 := admin_session)" and sid = 7
      and same_name = "(=)" and accepts = "\<lambda>_. True", OF newest.order_by_limit_axioms])
  show "world_ok (first_db, \<lambda>_. no_session)" using first_world_ok by (simp add: first_world_def)
  show "app_run (=) (\<lambda>_. True) newest (first_db, \<lambda>_. no_session) (first_db, (\<lambda>_. no_session)(7 := admin_session))"
    using admin_run by (simp add: first_world_def)
  show "app_step (=) (\<lambda>_. True) newest 7 (first_db, (\<lambda>_. no_session)(7 := admin_session))
      (first_db\<lparr>history_log := [\<lparr>log_id = 1, log_user = ''admin'', log_text = ''Deleted asset ID: 4'', log_time = 50\<rparr>],
         next_log := 2\<rparr>, ((\<lambda>_. no_session)(7 := admin_session))(7 := admin_session))"
    using app_step.Delete [of Executed newest 50 "Some (Ids [4])" "(\<lambda>_. no_session)(7 := admin_session)" 7] admin_delete by simp
  show "first_db\<lparr>history_log := [\<lparr>log_id = 1, log_user = ''admin'', log_text = ''Deleted asset ID: 4'', log_time = 50\<rparr>],
         next_log := 2\<rparr> \<noteq> first_db"
    by (simp add: first_db_def)
qed

text \<open>
  C2. Invariant of the application: after any sequence of requests by any sessions the asset and
  history ids are distinct and below their counters, the history has at most 15 entries, every
  logged-in session belongs to a registered user, no session holds deleted records to undo, and
  the users are those of the start.
\<close>

theorem application_invariant:
  assumes "order_by_limit recent" "world_ok (d0, ss0)" "app_run same_name accepts recent (d0, ss0) (d, ss)"
  shows "db_ok d \<and> length (history_log d) \<le> 15 \<and> users d = users d0 \<and>
    (\<forall>sid. deleted_records (ss sid) = None \<and>
       (\<forall>u. session_user (ss sid) = Some u \<longrightarrow> u \<in> username ` set (users d0)))"
  using app_run_ok [OF assms(3,1,2)] by (auto simp: world_ok_def session_ok_def split: option.splits)

lemma application_invariant_witness: "db_ok first_db \<and> length (history_log first_db) \<le> 15"
  using application_invariant [OF newest.order_by_limit_axioms, of first_db "\<lambda>_. no_session" "(=)" "\<lambda>_. True"]
    first_world_ok admin_run unfolding first_world_def by blast

end
