(* ===== verification/App_Editing.thy ===== *)
(*  Title:      App_Editing.thy
    What the pages for new entries, batch editing and deletion achieve.
*)

theory App_Editing
  imports App_System
begin

text \<open>
  Functional correctness of the pages that write: a new entry, a batch of edits worked down to the
  end of the queue, and a deletion.
\<close>

subsection \<open>History entries\<close>

text \<open>
  An action of a user with a plain name is logged; the entry survives the trimming unless 15 others are
  as new.
\<close>

definition as_new :: "nat \<Rightarrow> db \<Rightarrow> nat" where
  "as_new now d = length (filter (\<lambda>r. now \<le> log_time r) (history_log d))"

lemma log_action_entry:
  assumes "order_by_limit recent" "db_ok d" "plain_text u" "plain_text text" "as_new now d < 15" "next_log d < 2 ^ 31"
  shows "\<exists>d'. log_action recent now u text d = Some d' \<and> assets d' = assets d \<and>
    \<lparr>log_id = next_log d, log_user = u, log_text = text, log_time = now\<rparr> \<in> set (history_log d')"
proof -
  define r where "r = \<lparr>log_id = next_log d, log_user = u, log_text = text, log_time = now\<rparr>"
  define e where "e = d\<lparr>history_log := history_log d @ [r], next_log := next_log d + 1\<rparr>"
  have ins: "insert_log now u text d = Some e" using assms(3,4,6) by (simp add: insert_log_def e_def r_def)
  have ids: "distinct (map log_id (history_log e))"
    using keys_below_snoc [of "next_log d" "map log_id (history_log d)"] assms(2)
    by (simp add: e_def r_def db_ok_def keys_below_def)
  then have dis: "distinct (history_log e)" by (simp add: distinct_map)
  have "filter (\<lambda>s. s \<noteq> r \<and> log_time r \<le> log_time s) (history_log e) =
      filter (\<lambda>s. s \<noteq> r \<and> log_time r \<le> log_time s) (history_log d)"
    by (simp add: e_def)
  moreover have "length (filter (\<lambda>s. s \<noteq> r \<and> log_time r \<le> log_time s) (history_log d)) \<le> as_new now d"
    unfolding as_new_def by (induction "history_log d" rule: length_induct) (auto simp: r_def length_filter_conv_card intro!: card_mono)
  ultimately have "r \<in> set (recent 15 (history_log e))"
    using assms(5) by (intro order_by_limit.recent_keeps [OF assms(1) dis]) (simp_all add: e_def)
  then have "r \<in> set (history_log (trim_log recent e))"
    using order_by_limit.trim_log_rows(1) [OF assms(1) ids] by simp
  then show ?thesis using ins unfolding r_def [symmetric]
    by (intro exI [of _ "trim_log recent e"]) (simp add: log_action_def, simp add: trim_log_def Let_def e_def)
qed

subsection \<open>Reading a row back\<close>

lemma find_append: "find P (xs @ ys) = (case find P xs of Some x \<Rightarrow> Some x | None \<Rightarrow> find P ys)"
  by (induction xs) auto

lemma select_inserted:
  assumes "insert_asset accepts now a d = Some d'" "db_ok d"
  shows "select_asset k d' = (if k = next_asset d then Some (a\<lparr>asset_id := next_asset d, asset_time := now\<rparr>) else select_asset k d)"
proof -
  have "find (\<lambda>b. asset_id b = next_asset d) (assets d) = None"
    using assms(2) by (auto simp: find_None_iff db_ok_def keys_below_def)
  then show ?thesis using assms(1)
    by (auto simp: insert_asset_def select_asset_def find_append Let_def split: if_splits option.splits)
qed

lemma select_updated:
  assumes "update_asset accepts now key a d = Some d'"
  shows "select_asset k d' =
    map_option (\<lambda>b. if k = key then a\<lparr>asset_id := key, asset_time := now\<rparr> else b) (select_asset k d)"
proof -
  have "find (\<lambda>b. asset_id b = k) (map (\<lambda>b. if asset_id b = key then a\<lparr>asset_id := key, asset_time := now\<rparr> else b) bs) =
      map_option (\<lambda>b. if k = key then a\<lparr>asset_id := key, asset_time := now\<rparr> else b) (find (\<lambda>b. asset_id b = k) bs)" for bs
    by (induction bs) auto
  then show ?thesis using assms by (auto simp: update_asset_def select_asset_def Let_def split: if_splits)
qed

lemma select_deleted:
  "select_asset k (delete_assets ids d) = (if k \<in> set ids then None else select_asset k d)"
proof -
  have "find (\<lambda>b. asset_id b = k) (filter (\<lambda>b. asset_id b \<notin> set ids) bs) =
      (if k \<in> set ids then None else find (\<lambda>b. asset_id b = k) bs)" for bs :: "asset list"
    by (induction bs) auto
  then show ?thesis by (simp add: select_asset_def delete_assets_def)
qed

lemma select_cong: "assets d' = assets d \<Longrightarrow> select_asset k d' = select_asset k d"
  by (simp add: select_asset_def)

subsection \<open>Working down a batch\<close>

text \<open>
  The forms of a batch are submitted one after the other, each with the values of its page; the
  time of the requests is the same for simplicity of the statement only.
\<close>

fun submit_forms :: "(asset \<Rightarrow> bool) \<Rightarrow> (nat \<Rightarrow> log_row list \<Rightarrow> log_row list) \<Rightarrow> nat \<Rightarrow>
    (int \<times> post) list \<Rightarrow> session \<Rightarrow> db \<Rightarrow> (session \<times> db) option" where
  "submit_forms accepts recent now [] s d = Some (s, d)"
| "submit_forms accepts recent now (form # forms) s d =
     Option.bind (edit_asset_page accepts recent now \<lparr>selected_ids = None, update_form = Some form, manual_id = None\<rparr> s d)
       (\<lambda>(s', d'). submit_forms accepts recent now forms s' d')"

definition edited_row :: "nat \<Rightarrow> int \<times> post \<Rightarrow> asset" where
  "edited_row now form = (posted_asset (snd form) (edit_email (snd form)))\<lparr>asset_id := fst form, asset_time := now\<rparr>"

text \<open>One accepted form.\<close>

lemma edit_one:
  assumes "session_user s = Some u" "plain_text u" "edit_queue s = Some (Ids (fst form # q))" "accepts (edited_row now form)"
  shows "\<exists>d'. edit_asset_page accepts recent now \<lparr>selected_ids = None, update_form = Some form, manual_id = None\<rparr> s d =
      Some (s\<lparr>edit_queue := Some (Ids q)\<rparr>, d') \<and>
    (\<forall>k. select_asset k d' = map_option (\<lambda>b. if k = fst form then edited_row now form else b) (select_asset k d))"
proof -
  obtain key post where f: "form = (key, post)" by (cases form)
  let ?row = "posted_asset post (edit_email post)"
  obtain d1 where d1: "update_asset accepts now key ?row d = Some d1"
    using assms(4) by (simp add: update_asset_def edited_row_def f)
  obtain d2 where d2: "log_action recent now u (edited_text key) d1 = Some d2"
    using log_action_plain [of "edited_text key" recent now u d1] assms(2) by fastforce
  have "edit_asset_page accepts recent now \<lparr>selected_ids = None, update_form = Some form, manual_id = None\<rparr> s d =
      Some (s\<lparr>edit_queue := Some (Ids q)\<rparr>, d2)"
    using assms(1,3) d1 d2
    by (simp add: edit_asset_page_def edit_asset_def apply_update_def take_selection_def dequeue_def f)
  moreover have "select_asset k d2 = map_option (\<lambda>b. if k = fst form then edited_row now form else b) (select_asset k d)" for k
    using select_updated [OF d1] select_cong [OF conjunct1 [OF log_action_frame [OF d2]]]
    unfolding edited_row_def f fst_conv snd_conv by simp
  ultimately show ?thesis by blast
qed

lemma submit_forms_drains:
  assumes "session_user s = Some u" "plain_text u" "edit_queue s = Some (Ids (map fst forms @ rest))"
    and "\<forall>form \<in> set forms. accepts (edited_row now form)" "distinct (map fst forms)"
  shows "\<exists>d'. submit_forms accepts recent now forms s d = Some (s\<lparr>edit_queue := Some (Ids rest)\<rparr>, d') \<and>
    (\<forall>k. select_asset k d' = map_option (\<lambda>b. case map_of forms k of None \<Rightarrow> b | Some post \<Rightarrow> edited_row now (k, post))
       (select_asset k d))"
  using assms
proof (induction forms arbitrary: s d)
  case Nil
  then show ?case by (simp add: option.map_ident)
next
  case (Cons form forms)
  let ?s = "s\<lparr>edit_queue := Some (Ids (map fst forms @ rest))\<rparr>"
  obtain d1 where d1: "edit_asset_page accepts recent now \<lparr>selected_ids = None, update_form = Some form, manual_id = None\<rparr> s d =
      Some (?s, d1)"
    and v1: "\<And>k. select_asset k d1 = map_option (\<lambda>b. if k = fst form then edited_row now form else b) (select_asset k d)"
    using edit_one [of s u form "map fst forms @ rest" accepts now recent d] Cons.prems by auto
  obtain d' where d': "submit_forms accepts recent now forms ?s d1 = Some (?s\<lparr>edit_queue := Some (Ids rest)\<rparr>, d')"
    and v: "\<And>k. select_asset k d' = map_option (\<lambda>b. case map_of forms k of None \<Rightarrow> b | Some post \<Rightarrow> edited_row now (k, post))
       (select_asset k d1)"
    using Cons.IH [of ?s d1] Cons.prems by auto
  have "map_of forms (fst form) = None" using Cons.prems(5) by (simp add: map_of_eq_None_iff)
  then have "select_asset k d' = map_option (\<lambda>b. case map_of (form # forms) k of None \<Rightarrow> b | Some post \<Rightarrow> edited_row now (k, post))
       (select_asset k d)" for k
    unfolding v v1 by (cases form) (auto simp: option.map_comp intro!: option.map_cong)
  then show ?case using d1 d' by auto
qed

subsection \<open>Properties\<close>

text \<open>
  C3. A complete form of a logged-in user (with a plain name), accepted by the server, adds exactly
  one asset: it gets the next id and the posted values, every other asset is as before, the page
  goes to the master list, and the history gets an entry, while its ids last, which survives the
  trimming to 15 entries unless 15 entries are at least as recent.
\<close>

theorem new_entry_adds_asset:
  assumes "order_by_limit recent" "db_ok d" "session_user s = Some u" "plain_text u" "missing_fields post = []"
    and "next_asset d < 2 ^ 31"
    and "accepts ((posted_asset post (entry_email post))\<lparr>asset_id := next_asset d, asset_time := now\<rparr>)"
  shows "\<exists>d'. new_entry accepts recent now (Some post) s d = Some (Redirect ''masterlist.php'', d') \<and>
    (\<forall>k. select_asset k d' =
       (if k = next_asset d
        then Some ((posted_asset post (entry_email post))\<lparr>asset_id := k, asset_time := now\<rparr>)
        else select_asset k d)) \<and>
    (as_new now d < 15 \<and> next_log d < 2 ^ 31 \<longrightarrow>
       \<lparr>log_id = next_log d, log_user = u, log_text = added_text (next_asset d), log_time = now\<rparr> \<in> set (history_log d'))"
proof -
  let ?row = "posted_asset post (entry_email post)"
  obtain d1 where d1: "insert_asset accepts now ?row d = Some d1"
    using assms(6,7) by (simp add: insert_asset_def)
  then have l: "next_log d1 = next_log d" "as_new now d1 = as_new now d" "db_ok d1"
    using insert_asset_ok [OF d1 assms(2)] by (auto simp: insert_asset_def as_new_def Let_def split: if_splits)
  obtain d2 where d2: "log_action recent now u (added_text (next_asset d)) d1 = Some d2"
    using log_action_plain [of "added_text (next_asset d)" recent now u d1] assms(4) by fastforce
  have "select_asset k d2 = select_asset k d1" for k
    using log_action_frame [OF d2] by (intro select_cong) simp
  then have sel: "select_asset k d2 = (if k = next_asset d then Some (?row\<lparr>asset_id := k, asset_time := now\<rparr>)
      else select_asset k d)" for k
    using select_inserted [OF d1 assms(2), of k] by simp
  have entry: "\<lparr>log_id = next_log d, log_user = u, log_text = added_text (next_asset d), log_time = now\<rparr> \<in> set (history_log d2)"
    if "as_new now d < 15 \<and> next_log d < 2 ^ 31"
  proof -
    have "as_new now d1 < 15" "next_log d1 < 2 ^ 31" using that l(1,2) by simp_all
    from log_action_entry [OF assms(1) l(3) assms(4) action_texts_plain(1) this, of "next_asset d"]
    show ?thesis unfolding d2 l(1) by blast
  qed
  have "new_entry accepts recent now (Some post) s d = Some (Redirect ''masterlist.php'', d2)"
    using assms(3,5) d1 d2 by (simp add: new_entry_def)
  then show ?thesis using sel entry by blast
qed

definition full_post :: post where
  "full_post f = Some ''x''"

lemma new_entry_adds_asset_witness:
  "\<exists>d'. new_entry (\<lambda>_. True) newest 9 (Some full_post) admin_session first_db = Some (Redirect ''masterlist.php'', d') \<and>
     select_asset 1 d' = Some ((posted_asset full_post (entry_email full_post))\<lparr>asset_id := 1, asset_time := 9\<rparr>)"
proof -
  have "db_ok first_db" using first_world_ok by (simp add: first_world_def world_ok_def)
  moreover have "session_user admin_session = Some ''admin''" "plain_text ''admin''" "missing_fields full_post = []"
      "next_asset first_db < 2 ^ 31" "next_asset first_db = 1"
    by code_simp+
  ultimately show ?thesis
    using new_entry_adds_asset [OF newest.order_by_limit_axioms, of first_db admin_session "''admin''" full_post "\<lambda>_. True" 9]
    by auto
qed

text \<open>
  C4. Batch editing ends: when the forms of the queued assets are submitted one after the other
  and accepted, each request succeeds, the queue loses one id per form until only what follows
  them is left, every edited asset that exists has the values of its form, and no other asset
  changes.
\<close>

theorem batch_edit_completes:
  assumes "session_user s = Some u" "plain_text u" "edit_queue s = Some (Ids (map fst forms @ rest))"
    and "\<forall>form \<in> set forms. accepts (edited_row now form)" "distinct (map fst forms)"
  shows "\<exists>d'. submit_forms accepts recent now forms s d = Some (s\<lparr>edit_queue := Some (Ids rest)\<rparr>, d') \<and>
    (\<forall>k. select_asset k d' = map_option (\<lambda>b. case map_of forms k of None \<Rightarrow> b | Some post \<Rightarrow> edited_row now (k, post))
       (select_asset k d))"
  using assms by (rule submit_forms_drains)

lemma batch_edit_completes_witness:
  "\<exists>d'. submit_forms (\<lambda>_. True) newest 9 [(3, full_post), (5, full_post)] (admin_session\<lparr>edit_queue := Some (Ids [3, 5])\<rparr>) first_db
     = Some (admin_session\<lparr>edit_queue := Some (Ids [])\<rparr>, d')"
proof -
  have "session_user (admin_session\<lparr>edit_queue := Some (Ids [3, 5])\<rparr>) = Some ''admin''" "plain_text ''admin''"
    by code_simp+
  then show ?thesis
    using batch_edit_completes [of "admin_session\<lparr>edit_queue := Some (Ids [3, 5])\<rparr>" "''admin''" "[(3, full_post), (5, full_post)]" "[]"
        "\<lambda>_. True" 9 newest first_db] by auto
qed

text \<open>
  A queue can get stuck: when the asset at its head no longer exists, the page reports it as
  not found, whatever id is typed by hand, and changes neither the session nor the tables, so the
  ids behind it are not reached until a new selection or a logout.
\<close>

lemma edit_queue_stuck:
  assumes "session_user s = Some u" "edit_queue s = Some (Ids (k # q))" "int_text k \<noteq> ''0''" "select_asset k d = None"
    and "selected_ids r = None" "update_form r = None"
  shows "edit_asset accepts recent now r s d = Some (Edit_Page None (not_found_text (int_text k)) None, s, d)"
  using assms by (simp add: edit_asset_def take_selection_def edit_page_def next_id_def)

lemma edit_queue_stuck_witness:
  "edit_asset (\<lambda>_. True) newest 9 \<lparr>selected_ids = None, update_form = None, manual_id = Some 8\<rparr>
     (admin_session\<lparr>edit_queue := Some (Ids [3, 5])\<rparr>) first_db =
   Some (Edit_Page None (not_found_text (int_text 3)) None, admin_session\<lparr>edit_queue := Some (Ids [3, 5])\<rparr>, first_db)"
proof -
  have "session_user (admin_session\<lparr>edit_queue := Some (Ids [3, 5])\<rparr>) = Some ''admin''" "select_asset 3 first_db = None" "int_text 3 \<noteq> ''0''"
    by code_simp+
  then show ?thesis
    using edit_queue_stuck [of "admin_session\<lparr>edit_queue := Some (Ids [3, 5])\<rparr>" "''admin''" 3 "[5]" first_db
        "\<lparr>selected_ids = None, update_form = None, manual_id = Some 8\<rparr>" "\<lambda>_. True" newest 9] by simp
qed

text \<open>
  \<open>delete_selected.php\<close> answers \<open>success\<close> to a logged-in user with a plain, nonempty name for a
  nonempty selection the server deletes; then exactly the selected assets are gone. Every other
  outcome changes no asset.
\<close>

lemma delete_selected_removes:
  assumes "delete_selected executes recent now form s d = Some (resp, d')"
  shows "(resp = Reply ''success'' \<longrightarrow>
      (\<exists>u sel ids. session_user s = Some u \<and> form = Some sel \<and> array_values sel = Some ids \<and> ids \<noteq> [] \<and> executes = Executed \<and>
        (\<forall>k. select_asset k d' = (if k \<in> set ids then None else select_asset k d)))) \<and>
    (resp \<noteq> Reply ''success'' \<longrightarrow> d' = d)"
proof (cases "\<exists>sel ids. \<not> php_empty (session_user s) \<and> form = Some sel \<and> array_values sel = Some ids \<and> ids \<noteq> [] \<and>
    executes = Executed \<and> \<not> has_text_key sel")
  case True
  then obtain sel ids where i: "\<not> php_empty (session_user s)" "form = Some sel" "array_values sel = Some ids" "ids \<noteq> []"
    "executes = Executed" "\<not> has_text_key sel" by blast
  then obtain u where u: "session_user s = Some u" by (cases "session_user s") (auto simp: php_empty_def)
  have l: "resp = Reply ''success''" "log_action recent now u (deleted_text ids) (delete_assets ids d) = Some d'"
    using assms i u by (auto simp: delete_selected_def)
  then have "select_asset k d' = (if k \<in> set ids then None else select_asset k d)" for k
    using log_action_frame [OF l(2)] select_deleted [of k ids d] select_cong by metis
  then show ?thesis using l i u by blast
next
  case False
  then have "resp \<noteq> Reply ''success'' \<and> d' = d"
    using assms by (cases executes) (auto simp: delete_selected_def split: if_splits option.splits)
  then show ?thesis by blast
qed

text \<open>
  A batch that is no array: a posted JSON string is stored as it is, and the next update is done
  and logged, but ends in an uncaught error before it shows a page.
\<close>

lemma edit_queue_no_array:
  assumes "session_user s = Some u" "plain_text u" "edit_queue s = Some (Json_text cs)"
  shows "\<exists>d'. edit_asset accepts recent now \<lparr>selected_ids = None, update_form = Some form, manual_id = None\<rparr> s d = Some (Uncaught, s, d')"
proof -
  obtain key post where f: "form = (key, post)" by (cases form)
  define d1 where "d1 = (case update_asset accepts now key (posted_asset post (edit_email post)) d of None \<Rightarrow> d | Some d' \<Rightarrow> d')"
  obtain d2 where "log_action recent now u (edited_text key) d1 = Some d2"
    using log_action_plain [of "edited_text key" recent now u d1] assms(2) by fastforce
  then show ?thesis
    using assms(1,3) by (simp add: edit_asset_def apply_update_def take_selection_def dequeue_def f d1_def)
qed

lemma delete_selected_removes_witness:
  "select_asset 4 (first_db\<lparr>history_log := [\<lparr>log_id = 1, log_user = ''admin'', log_text = ''Deleted asset ID: 4'', log_time = 50\<rparr>],
       next_log := 2\<rparr>) = None"
proof -
  have "delete_selected Executed newest 50 (Some (Ids [4])) admin_session first_db =
     Some (Reply ''success'', first_db\<lparr>history_log := [\<lparr>log_id = 1, log_user = ''admin'', log_text = ''Deleted asset ID: 4'', log_time = 50\<rparr>],
       next_log := 2\<rparr>)"
    by code_simp
  from delete_selected_removes [OF this] show ?thesis by auto
qed

end
