(* ===== verification/App_Views.thy ===== *)
(*  Title:      App_Views.thy
    The master list, its filters and search, and the export.
*)

theory App_Views
  imports App_Pages
begin

text \<open>
  The pages that only read: the rows of \<open>masterlist.php\<close> with the filter and search functions of
  its script, the table of \<open>export_excel.php\<close> and the history box of \<open>dashboard.php\<close>. How numbers
  and times are printed is a parameter; \<open>toLowerCase\<close> is modelled on ASCII letters.
\<close>

definition html_char :: "char \<Rightarrow> string" where
  "html_char c =
     (if c = CHR ''&'' then ''&amp;'' else if c = CHR 0x22 then ''&quot;''
      else if c = CHR ''<'' then ''&lt;'' else if c = CHR ''>'' then ''&gt;'' else [c])"

definition htmlspecialchars :: "string option \<Rightarrow> string" where
  "htmlspecialchars v = (case v of None \<Rightarrow> '''' | Some s \<Rightarrow> concat (map html_char s))"

subsection \<open>Export\<close>

definition export_headers :: "string list" where
  "export_headers =
     [''ID'', ''Asset Tag'', ''Tag Number'', ''Brand Model'', ''Serial Number'', ''Type of OS'',
      ''Processor'', ''Type of Hard Disk'', ''Size of Disk'', ''Office Version'', ''IP Address'',
      ''Section'', ''Type of User'', ''User'', ''Email Address'', ''Email Password'',
      ''Date Purchased'', ''UPS'', ''Recovery Type'', ''Unit Type'', ''Timestamp'']"

definition export_rows :: "(nat \<Rightarrow> string) \<Rightarrow> db \<Rightarrow> string list list" where
  "export_rows show_time d =
     map (\<lambda>a. map htmlspecialchars (asset_cells int_text show_time a)) (select_all d)"

definition export_excel :: "(nat \<Rightarrow> string) \<Rightarrow> session \<Rightarrow> db \<Rightarrow> string + (string list \<times> string list list)" where
  "export_excel show_time s d =
     (case session_user s of
        None \<Rightarrow> Inl ''login.php''
      | Some _ \<Rightarrow> Inr (export_headers, export_rows show_time d))"

subsection \<open>Master list\<close>

definition master_headers :: "string list" where
  "master_headers =
     ['''', ''ID'', ''Asset Tag'', ''Tag Number'', ''Brand Model'', ''Serial Number'', ''Type of OS'',
      ''Processor'', ''Type of Hard Disk'', ''Size of Disk'', ''Memory'', ''Office Version'', ''IP Address'',
      ''Section'', ''Type of User'', ''User'', ''Email Address'', ''Email Password'',
      ''Date Purchased'', ''UPS'', ''Recovery Type'', ''Unit Type'', ''Timestamp'']"

text \<open>The text of the cells of a row, after the check box; the browser undoes the escapes.\<close>

definition master_row :: "(nat \<Rightarrow> string) \<Rightarrow> asset \<Rightarrow> string list" where
  "master_row show_time a =
     '''' # map (\<lambda>v. case v of None \<Rightarrow> '''' | Some s \<Rightarrow> s) (asset_cells int_text show_time a)"

text \<open>The headers with a selection box, by \<open>data-column\<close>.\<close>

definition filter_columns :: "nat list" where
  "filter_columns = [6, 7, 8, 9, 10, 11, 14, 19, 20, 21]"

definition lower_char :: "char \<Rightarrow> char" where
  "lower_char c =
     (let n = of_char c :: nat in if 65 \<le> n \<and> n \<le> 90 then char_of (n + 32) else c)"

definition to_lower :: "string \<Rightarrow> string" where
  "to_lower s = map lower_char s"

text \<open>\<open>filterTable\<close>: \<open>choice\<close> gives the value of each selection box.\<close>

definition filter_shows :: "(nat \<Rightarrow> string) \<Rightarrow> string list \<Rightarrow> bool" where
  "filter_shows choice row =
     list_all (\<lambda>i. \<not> (to_lower (choice i) \<noteq> '''' \<and> to_lower (row ! i) \<noteq> to_lower (choice i))) filter_columns"

definition filter_table :: "(nat \<Rightarrow> string) \<Rightarrow> string list list \<Rightarrow> (string list \<times> bool) list" where
  "filter_table choice rows = map (\<lambda>row. (row, filter_shows choice row)) rows"

text \<open>The search sets every row's visibility again, from the search term alone.\<close>

fun prefix_of :: "string \<Rightarrow> string \<Rightarrow> bool" where
  "prefix_of [] ys = True"
| "prefix_of (x # xs) [] = False"
| "prefix_of (x # xs) (y # ys) = (x = y \<and> prefix_of xs ys)"

fun str_includes :: "string \<Rightarrow> string \<Rightarrow> bool" where
  "str_includes [] pat = prefix_of pat []"
| "str_includes (c # cs) pat = (prefix_of pat (c # cs) \<or> str_includes cs pat)"

definition search_table :: "string \<Rightarrow> (string list \<times> bool) list \<Rightarrow> (string list \<times> bool) list" where
  "search_table term rows =
     map (\<lambda>(row, _). (row, list_ex (\<lambda>cell. str_includes (to_lower cell) (to_lower term)) row)) rows"

definition masterlist :: "(nat \<Rightarrow> string) \<Rightarrow> session \<Rightarrow> db \<Rightarrow> string + string list list" where
  "masterlist show_time s d =
     (case session_user s of
        None \<Rightarrow> Inl ''login.php''
      | Some _ \<Rightarrow> Inr (map (master_row show_time) (select_all d)))"

subsection \<open>Dashboard\<close>

definition dashboard :: "(nat \<Rightarrow> log_row list \<Rightarrow> log_row list) \<Rightarrow> session \<Rightarrow> db \<Rightarrow> string + (string \<times> string \<times> nat) list" where
  "dashboard recent s d =
     (case session_user s of
        None \<Rightarrow> Inl ''login.php''
      | Some _ \<Rightarrow>
          Inr (map (\<lambda>r. (htmlspecialchars (Some (log_user r)), htmlspecialchars (Some (log_text r)), log_time r))
                 (recent 5 (history_log d))))"

subsection \<open>Facts\<close>

lemma includes_iff: "str_includes s pat \<longleftrightarrow> (\<exists>a b. s = a @ pat @ b)"
proof -
  have p: "prefix_of pat s \<longleftrightarrow> (\<exists>b. s = pat @ b)" for pat s
    by (induction pat s rule: prefix_of.induct) auto
  show ?thesis
  proof (induction s)
    case Nil
    then show ?case by (simp add: p)
  next
    case (Cons c cs)
    have "(\<exists>a b. c # cs = a @ pat @ b) \<longleftrightarrow> (\<exists>b. c # cs = pat @ b) \<or> (\<exists>a b. cs = a @ pat @ b)"
      by (metis append_Cons append_Nil list.exhaust list.inject)
    then show ?case using Cons by (simp add: p)
  qed
qed

lemma length_asset_cells [simp]: "length (asset_cells show_id show_time a) = 22"
  by (simp add: asset_cells_def)

subsection \<open>Properties\<close>

text \<open>
  The export lists all assets in the order of their ids, 22 cells a row in the column order
  of the table, but its header has 21 titles: Memory is missing, so from the tenth on every title
  stands above the cell of the column before the one it names. The master list has all 22.
\<close>

lemma export_titles_shifted:
  "length export_headers = 21 \<and> export_headers = take 9 (tl master_headers) @ drop 10 (tl master_headers) \<and>
   tl master_headers ! 9 = ''Memory'' \<and>
   map length (export_rows show_time d) = replicate (length (assets d)) 22 \<and>
   mset (select_all d) = mset (assets d) \<and> sorted (map asset_id (select_all d)) \<and>
   map (\<lambda>row. row ! 9) (export_rows show_time d) = map (\<lambda>a. htmlspecialchars (memory a)) (select_all d)"
proof -
  have "length export_headers = 21" "export_headers = take 9 (tl master_headers) @ drop 10 (tl master_headers)"
    "tl master_headers ! 9 = ''Memory''"
    by code_simp+
  moreover have "map length (export_rows show_time d) = replicate (length (assets d)) 22"
    by (rule nth_equalityI) (simp_all add: export_rows_def select_all_def)
  moreover have "map (\<lambda>row. row ! 9) (export_rows show_time d) = map (\<lambda>a. htmlspecialchars (memory a)) (select_all d)"
    by (simp add: export_rows_def asset_cells_def)
  ultimately show ?thesis by (simp add: select_all_def)
qed

text \<open>
  The master list's filters compare the cell under their own title with the chosen value,
  ignoring case, and a row is shown when all chosen values agree; a search afterwards forgets the
  filters: a row is shown exactly when some cell contains the term.
\<close>

lemma filters_and_search:
  "map (\<lambda>i. master_headers ! i) filter_columns =
     [''Type of OS'', ''Processor'', ''Type of Hard Disk'', ''Size of Disk'', ''Memory'', ''Office Version'',
      ''Type of User'', ''UPS'', ''Recovery Type'', ''Unit Type''] \<and>
   filter_table choice rows = map (\<lambda>row. (row, \<forall>i. i \<notin> set filter_columns \<or> choice i = '''' \<or>
       to_lower (row ! i) = to_lower (choice i))) rows \<and>
   search_table term (filter_table choice rows) =
     map (\<lambda>row. (row, \<exists>cell. cell \<in> set row \<and> (\<exists>a b. to_lower cell = a @ to_lower term @ b))) rows"
proof -
  have e: "to_lower v = '''' \<longleftrightarrow> v = ''''" for v by (simp add: to_lower_def)
  have "map (\<lambda>i. master_headers ! i) filter_columns =
     [''Type of OS'', ''Processor'', ''Type of Hard Disk'', ''Size of Disk'', ''Memory'', ''Office Version'',
      ''Type of User'', ''UPS'', ''Recovery Type'', ''Unit Type'']"
    by code_simp
  moreover have "filter_table choice rows = map (\<lambda>row. (row, \<forall>i. i \<notin> set filter_columns \<or> choice i = '''' \<or>
       to_lower (row ! i) = to_lower (choice i))) rows"
    unfolding filter_table_def filter_shows_def list_all_iff e by auto
  moreover have "search_table term (filter_table choice rows) =
     map (\<lambda>row. (row, \<exists>cell. cell \<in> set row \<and> (\<exists>a b. to_lower cell = a @ to_lower term @ b))) rows"
    by (simp add: search_table_def filter_table_def list_ex_iff includes_iff Bex_def)
  ultimately show ?thesis by blast
qed

lemma filters_and_search_witness:
  "filter_table (\<lambda>i. if i = 6 then ''windows 10'' else '''') [replicate 23 ''WINDOWS 10''] = [(replicate 23 ''WINDOWS 10'', True)]"
proof -
  have "to_lower ''WINDOWS 10'' = to_lower ''windows 10''" by code_simp
  then show ?thesis
    unfolding conjunct1 [OF conjunct2 [OF filters_and_search]] by (auto simp: filter_columns_def)
qed

end
