(* ===== verification/Spec2Isabelle.thy ===== *)
theory Spec2Isabelle
  imports Bits Int_Types Date_Modes Bitmaps List_Sort Sql_I_List Ilinks Ilist P_List Arrays
    Mem_Root_Array Lifo_Buffer Byte_Order Privilege_Rules Hash_Filo Json_Writer Timestamps Thread_Cache Tranx_Allocator
    Sel_Arg Histogram Async_State Field_Storage Auto_Increment
    Type_Attributes Window_Functions Lex_Stream App_Editing App_Views
begin

text \<open>
  Inventory application with an embedded MariaDB server.

  \<^bold>\<open>The program.\<close> The repository holds a desktop inventory of computers: PHP pages under
  \<open>src/www\<close> that a PHP Desktop shell shows, a MariaDB server with the inventory database, and the
  C and C++ headers of that server under \<open>src/mariadb/include/mysql/server\<close>. The server's own
  \<open>.cc\<close> files are not part of the repository, so the server code that can be verified is the code
  its headers define: inline functions, templates and the constants they use. The development
  follows the two halves. They meet only through SQL: a page sends statements, which the
  application theories model as functions on tables, and no header function is called by a page.

  \<^bold>\<open>Shared.\<close> \<open>Prelude\<close> names the machine types (\<open>u8\<close> to \<open>u64\<close>; \<open>ulong\<close> has 32 bits, as
  \<open>my_config.h\<close> says of this Windows build) and holds the lemmas on words, lists and options.
  \<open>None\<close> as the result of an operation is a failed assertion, an access outside the memory the
  code owns, or other undefined behaviour; an error the code reports is a value of the result.

  \<^bold>\<open>Integers and bits.\<close>
  \<^item> \<open>Bits\<close>: \<open>my_bit.h\<close>. The functions compute logarithms, powers of two and first bits as the
    arithmetic functions they are named after.
  \<^item> \<open>Int_Types\<close>: \<open>private/sql_type_int.h\<close>. NULL-able and mixed-sign integers; products and
    comparisons are those of the integers, overflow is NULL.
  \<^item> \<open>Date_Modes\<close>: \<open>private/sql_basic_types.h\<close>. Conversion and rounding modes joined in one word
    come apart again. The compiler chooses the width of these enumerations; they have 64 bits here.
  \<^item> \<open>Bitmaps\<close>: \<open>private/sql_bitmap.h\<close>. A bitmap of any width is a set of numbers (locale
    \<open>number_set\<close>); its iterator visits the members once.
  \<^item> \<open>Byte_Order\<close>: \<open>byte_order_generic_x86_64.h\<close>, \<open>byte_order_generic.h\<close>, \<open>little_endian.h\<close>,
    \<open>my_byteorder.h\<close>, \<open>myisampack.h\<close>. Stores and loads of all widths in both orders, signed and unsigned,
    are inverse (locale \<open>codec\<close>) and the portable and the x86-64 variants agree.

  \<^bold>\<open>Containers.\<close>
  \<^item> \<open>List_Heap\<close>, \<open>Base_List\<close>, \<open>List_Iterator\<close>, \<open>List_Sort\<close>, \<open>Sql_I_List\<close>, \<open>Ilinks\<close>:
    \<open>private/sql_list.h\<close>. Nodes and list objects live in an explicit heap, because the code keeps a
    pointer to the last link, which may lie in the list object or in a node. A predicate relates a
    list object to the sequence it holds, and each operation is shown to act on the sequence; the
    heap elsewhere is unchanged. The iterators' \<open>el\<close>, \<open>prev\<close> and \<open>current\<close> are kept as the code has
    them. Loops that walk a list take fuel; the theorems give the length of the list as enough.
  \<^item> \<open>Ilist\<close>: \<open>ilist.h\<close>, a ring with a sentinel. \<open>P_List\<close>: \<open>private/sql_plist.h\<close>, with its counter
    and push-back policies as flags.
  \<^item> \<open>Arrays\<close>: \<open>private/sql_array.h\<close> and \<open>span.h\<close>. \<open>Mem_Root_Array\<close>: \<open>private/mem_root_array.h\<close>,
    over an allocator \<open>alloc_root\<close> that is a parameter. \<open>Lifo_Buffer\<close>: \<open>private/sql_lifo_buffer.h\<close>,
    both directions as instances of one stack (locale \<open>lifo\<close>).
  \<^item> \<open>Hash_Filo\<close>: \<open>hash_filo.h\<close>, a hash table with its entries chained by age. The library \<open>HASH\<close> is
    the parameter \<open>hash_ops\<close> and \<open>hash_ok\<close> its documented behaviour; runs of the cache are runs of a
    bounded list in which the least recently used entry is dropped.

  \<^bold>\<open>Strings.\<close>
  \<^item> \<open>Byte_Memory\<close>: blocks of bytes, live or freed. \<open>Charset_Info\<close>: \<open>m_ctype.h\<close>, a character set as
    a record whose handler pointers are functions, and the collation changes between versions.
  \<^item> \<open>Lex_Strings\<close>: \<open>private/lex_string.h\<close>. Trimming and comparing strings that carry their length.
  \<^item> \<open>Sql_String\<close> and \<open>Sql_Text\<close>: \<open>private/sql_string.h\<close>, \<open>Binary_string\<close> and \<open>String\<close>. Lengths have
    32 bits; \<open>str_ok\<close> says that they fit the block. \<open>realloc_raw\<close> and \<open>real_alloc\<close> are parameters
    (\<open>realloc_ok\<close> states their documentation), and so is the append of \<open>String\<close> that converts
    characters. The lemmas show the bytes after each operation, that only the string's own block is
    written, and that a buffer has one owner.
  \<^item> \<open>Json_Writer\<close>: \<open>private/my_json_writer.h\<close>. Scope objects drive a \<open>Json_writer\<close> that is not in
    the repository; the model records the calls it receives, and nested scopes are shown to spell
    one JSON value.

  \<^bold>\<open>Temporal values.\<close> Values of TIME, DATE, DATETIME and TIMESTAMP are a \<open>mysql_time\<close> or a \<open>timeval\<close>,
  the C structures with their members as 32-bit words (\<open>long\<close> too); the classes add only behaviour.
  Functions of other files are fields of the records \<open>time_lib\<close>, \<open>parse_lib\<close>, \<open>time_members\<close> and
  \<open>datetime_members\<close>, and what the headers rely on is stated by \<open>log_10_int_ok\<close>, \<open>parse_ok\<close>,
  \<open>time_lib_ok\<close>, \<open>members_ok\<close>, \<open>dates_ok\<close> and \<open>datetime_members_ok\<close>, each with an instance. A failed
  assertion of the classes is \<open>None\<close>, so "the class keeps its invariant" includes that none fails, but
  for rounding without a mode, whose failures are stated exactly.
  \<^item> \<open>Mysql_Time\<close>: \<open>mysql_time.h\<close>, \<open>private/my_time.h\<close>, \<open>private/sql_time.h\<close>. Truncation to decimals
    and the check of the timestamp range.
  \<^item> \<open>Temporal_Values\<close>: the first classes of \<open>private/sql_type.h\<close>, from \<open>Sec6\<close> to the interval.
    Rounding carries as arithmetic does; the parts \<open>EXTRACT\<close> joins can be read back, for hours up to
    the longest interval, \<open>TIME_MAX_INTERVAL_HOUR\<close>.
  \<^item> \<open>Time_Values\<close>, \<open>Datetime_Values\<close>: the classes \<open>Time\<close>, \<open>Date\<close>, \<open>Datetime\<close>. Every constructor leaves
    a valid value or the undefined one, every modification keeps that, and the conversion of a
    DATETIME to a TIME is described for each of its modes.
  \<^item> \<open>Timestamps\<close>: \<open>Timeval\<close> of \<open>private/structs.h\<close> and the timestamp classes. Their comparison is a
    total order by time, an instance of the locale \<open>comparator\<close> of \<open>List_Sort\<close>.

  \<^bold>\<open>Threads, replication, optimizer, lexer.\<close>
  \<^item> \<open>Thread_Cache\<close>: \<open>private/thread_cache.h\<close>. Each section under the lock is a function; \<open>tstep\<close>
    interleaves the sections of any threads, \<open>sstep\<close> adds the signals of the condition variables.
    Theorems on all runs: counters, order of service, no lost connection, flushing; and two runs that
    show defects, a flush that hangs and a final flush that is undone by a race.
  \<^item> \<open>Tranx_Allocator\<close>: \<open>Tranx_node_allocator\<close> of \<open>private/semisync_master.h\<close>, with addresses as numbers
    and \<open>my_malloc\<close>'s answer as an argument; the chain of blocks implements a queue of nodes. Fuel for
    its loops: the number of blocks.
  \<^item> \<open>Sel_Arg\<close>: intervals of \<open>private/opt_range.h\<close> as sets of key values, and keys of several parts;
    \<open>sel_cmp\<close> is a parameter (\<open>sel_cmp_ok\<close>), 256 calls are enough for the recursion over key parts.
  \<^item> \<open>Histogram\<close>: \<open>private/sql_statistics.h\<close>. The binary search of a histogram equals counting smaller
    values, but for two buckets, where it reads past the end; its loops are partial functions, and the
    equation shows that they end.
  \<^item> \<open>Async_State\<close>: \<open>thd_async_state\<close> of \<open>private/sql_class.h\<close>. Its owner and its operations interleave
    (\<open>astep\<close>, with \<open>dec_pending_ops\<close> cut into its accesses); operations are counted, a suspended
    connection is resumed once, a waiting owner is woken, and one run shows the destructor's race.
  \<^item> \<open>Field_Storage\<close>: columns in records, from \<open>private/field.h\<close>, \<open>private/sql_type.h\<close> and
    \<open>private/my_compare.h\<close>. Null bits are a set of columns, an instance of \<open>number_set\<close>; integers, BIT
    columns and key lengths of every width are read as stored.
  \<^item> \<open>Auto_Increment\<close>: the reserved values of a statement, from \<open>private/structs.h\<close>. Intervals that follow
    each other merge to the set of their values; a list of intervals owns them, in an explicit heap.
  \<^item> \<open>Lex_Charset\<close>, \<open>Lex_Types\<close>: \<open>private/lex_charset.h\<close>, the loaders of \<open>my_sys.h\<close> and the classes of
    \<open>private/structs.h\<close> that the grammar fills. What other files define is \<open>charset_lib\<close> (\<open>charset_lib_ok\<close>);
    clauses keep a pointer that fits their type and survive their packing into a data type.
  \<^item> \<open>Type_Attributes\<close>: collations, lengths, limits and type handlers of \<open>private/sql_type.h\<close>. The limits of
    the integer types are exact; lengths in characters convert to bytes and back up to 32 bits.
  \<^item> \<open>Window_Functions\<close>: \<open>private/item_windowfunc.h\<close>. NTILE deals even buckets, the percentiles take or
    interpolate the right rows. Every operation on a \<open>double\<close> rounds as binary64 does (\<open>Doubles\<close>; infinities
    and NaN are left out), and the theorems say what rounding changes; the comparison of rows and the \<open>add\<close>
    of the RANK functions are in missing files.
  \<^item> \<open>Lex_Stream\<close>: \<open>Lex_input_stream\<close> of \<open>private/sql_lex.h\<close>; its two buffers refine the sequence of
    accepted characters (\<open>reads\<close>).

  \<^bold>\<open>Privileges.\<close> \<open>Privilege\<close> and \<open>Privilege_Rules\<close>: \<open>private/privilege.h\<close>. Bits, levels, the
  columns of the grant tables and the rights every statement and variable asks for.

  \<^bold>\<open>The application.\<close> \<open>App_Store\<close>: tables of \<open>inventory_db.sql\<close> and one function per SQL statement.
  What the server decides alone is a parameter: whether a row is accepted, and the order of rows
  with the same timestamp (locale \<open>order_by_limit\<close>). \<open>App_Pages\<close>: one function per page that writes,
  from session, form and tables to reply, session and tables. \<open>App_System\<close>: the step relation in
  which any session sends any request, the contract of the pages behind the login (locale
  \<open>guarded_page\<close>) and the invariants of all runs. \<open>App_Editing\<close>: what a new entry, a batch edit
  and a deletion achieve. \<open>App_Views\<close>: the master list, the export and the history box.

  \<^bold>\<open>Not modelled.\<close> Headers that declare classes of the SQL layer, replication, instrumentation and
  the client library without defining their functions; system call wrappers; print functions that
  write to a \<open>FILE\<close>; functions declared in the modelled headers but defined elsewhere, unless they
  are named as parameters above. Of the application: HTML and styles, the import of the SQL dumps,
  failures of the connection, log texts with quotes, and SQL injected through \<open>index.php\<close>. Of the
  demo pages of PHP Desktop, nothing. Data races are outside the model: the headers leave locking
  to their callers, and requests of the application are atomic.
\<close>

end
